(* ===== verification/Go_Prelude.thy ===== *)
theory Go_Prelude
  imports "HOL-Library.Code_Target_Nat" Main
begin

text \<open>
  The prelude of the development: the result type of the Go functions (an \<open>error\<close> or a
  value), its sequencing operator with the rules that take a successful call apart, 64-bit
  signed arithmetic as Go's \<open>int64\<close> has it, and generic lemmas on tables kept as lists.
  Nothing here models a file of the repository; it models what the code uses of the language.
\<close>

named_theorems tx_simps \<open>decompose a successful transaction into its steps\<close>
named_theorems go_arith \<open>64-bit arithmetic that stays in range\<close>

section \<open>Errors\<close>

text \<open>
  One datatype per Go package with a constructor for each error value the modelled functions
  of the package return, and their sum \<open>error\<close>: \<open>Wallet ErrInsufficientFunds\<close> is
  \<^verbatim>\<open>wallet.ErrInsufficientFunds\<close>. \<open>DB\<close> holds what PostgreSQL raises: a violated unique,
  check or foreign-key constraint, a BIGINT out of range, a NULL scanned into a plain Go value, or \<^verbatim>\<open>pgx.ErrNoRows\<close> passed on
  unchanged. Anonymous \<^verbatim>\<open>errors.New\<close> values have a constructor named after their message.
\<close>

datatype db_error = Unique | Check | ForeignKey | OutOfRange | NoRows | NullValue

datatype wallet_error =
    ErrInvalidDisplayAmount | ErrUnknownCurrency | ErrCurrencyDisabled
  | ErrInsufficientFunds | ErrWalletNotFound | ErrInvalidAmount

datatype game_error =
    ErrInvalidRules | ErrInvalidTransition | ErrRoundNotFound | ErrBettingClosed
  | ErrInvalidStake | ErrInvalidTrendLimit | InvalidHashOutcome

datatype settlement_error =
    ErrNoDigitFound | ErrInvalidOutcome | ErrOutcomeOutsidePool | ErrPayoutOverflow
  | ErrSettlementOutcomeMismatch | ErrBlockNotFound | ErrRateLimited | ErrKlineNotReady
  | BlockIntervalRequired | BlockHeightRequired | SymbolRequired | LuluOutcomeInvalid | SourceUnavailable

datatype rebate_error = RebateInvalid | ErrBalanceOverflow | ErrForbidden | ErrConflict | ErrNotFound

datatype betting_error =
    BetRoundNotFound | ErrBetNotFound | ErrInvalidSelection | ErrAccountDisabled
  | ErrBettingBanned | ErrStakeOutsideLimits | ErrSelectionOutsidePlay | ErrHashRoomRequired
  | ErrHashRoomConflict | ErrBetCancellationClosed | ErrRequestConflict
  | ErrLuluXDYBettingClosed | CancelRefundOverflow

datatype redpacket_error =
    ErrInvalidPacket | ErrVirtualAccount | ErrPacketNotFound | ErrPacketUnavailable
  | ErrSenderCannotClaim | ErrRoomAccessDenied | ErrInsufficientBalance
  | ClaimOverflow | RefundOverflow | RandomFailed

datatype chain_error =
    ChainInvalidAmount | ErrMissingFields | ErrUnknownDepositAddress | ErrWithdrawalNotFound
  | ErrWithdrawalState | ErrUnsupportedAsset | ErrInvalidWithdrawalAddress
  | ErrWithdrawalBelowMinimum | ErrWithdrawalAboveMaximum | ErrWithdrawalDailyLimit
  | ErrVirtualAccountWithdrawal | PolicyNegative | PolicyMinimumAboveMaximum
  | PolicyMinimumAboveDaily | ProviderUnavailable | ProviderFailed

datatype draw_error = ErrInvalidEvent | ErrManualConflict | ErrManualNotFound

datatype operations_error =
    ErrInvalidBetVoid | ErrBetVoidNotFound | ErrBetNotVoidable | ErrBetVoidConflict | ErrBetVoidBalanceOverflow
  | ErrAdminCompletionForbidden

datatype task_error = ErrInvalidTask | ErrTaskConfigNotFound | ErrTaskNotCompleted | ErrTaskAlreadyClaimed
  | ErrTaskForbidden

datatype credit_error =
    ErrInvalidAdjustment | ErrAdjustmentConflict | ErrAdjustmentForbidden | CreditInvalidAmount | CreditInvalidCurrency
  | CreditInsufficientBalance | CreditUserNotFound | ErrPointWithdrawalNotFound | CreditVirtualWithdrawal
  | ErrPointWithdrawalState | ErrActivityUnavailable | ErrInvalidSpinConfig | ErrSpinConfigNotFound
  | ErrSpinManagementForbidden

datatype robot_error = ErrInvalidPlan | ErrPlanNotFound | ErrPlanConflict | PlanForbidden

datatype lulu_error =
    ErrSameAccount | LuluInvalid | LuluForbidden | LuluConflict | LuluDisabled | LuluNotFound | PendingDepositError string int
  | ErrConfigInvalid | ErrConfigConflict | ErrEncryption | ErrTokenInvalid | CollectionFailed

datatype agent_error =
    ErrInvalidRelation | ErrRelationExists | ErrAdminBindForbidden | ErrRelationUserNotFound | ErrVirtualRelation
  | ErrInvalidCommissionRate | ErrCommissionNotFound | ErrCommissionState | ErrInsufficientCommissionBalance
  | ErrInvalidCommissionAdjustment | ErrChildLevelForbidden | ErrChildLevelInvalid

datatype auth_error =
    ErrInvalidCredentials | AuthAccountDisabled | ErrAuthNotConfigured | ErrInvalidLoginName | ErrInvalidPassword
  | ErrRestrictedDisplayName | ErrInvalidRefreshToken | ErrInvalidInvitationCode | ErrSecondaryPasswordNotSet
  | ErrSecondaryPasswordAlreadySet | ErrTooManyLoginAttempts | ErrInvalidAccessToken | ErrIdentityNotFound | ErrLoginNameTaken
  | ErrInvitationCodeNotFound | ErrAdminAlreadyExists | HashFailed

datatype chat_error =
    ErrRoomNotFound | ChatRoomAccessDenied | ErrChatMuted | ErrInvalidMessage | ErrInvalidRequestID | ErrInvalidRoomQuery
  | ErrMessageNotFound | ErrMessageDeleteDenied | ErrInvalidChatID

datatype leaderboard_error = ErrInvalidPeriod | LeaderboardCurrency | ErrInvalidRewardRules | ErrRewardRuleConflict

datatype events_error = ErrEventNotFound | MaxAttemptsNotPositive | PublishFailed

datatype error =
    DB db_error | Wallet wallet_error | Game game_error | Settlement settlement_error
  | Rebate rebate_error | Betting betting_error | RedPacket redpacket_error
  | Chain chain_error | Events events_error | Draw draw_error | Ops operations_error
  | Task task_error | Credit credit_error | Robot robot_error
  | Lulu lulu_error | Agent agent_error | Auth auth_error | Chat chat_error | Leaderboard leaderboard_error
  | ErrInvalidDecimalAmount | JsonError

section \<open>Sequencing of fallible steps\<close>

text \<open>
  \<open>bindE m f\<close> is Go's \<open>x, err := m; if err != nil { return err }; f(x)\<close>. Inside a database
  transaction the state is part of the value, so an error discards every change made so far,
  as \<open>defer tx.Rollback\<close> does.
\<close>

definition bindE :: "error + 'a \<Rightarrow> ('a \<Rightarrow> error + 'b) \<Rightarrow> error + 'b" where
  "bindE m f = (case m of Inl e \<Rightarrow> Inl e | Inr x \<Rightarrow> f x)"

definition orErr :: "error \<Rightarrow> 'a option \<Rightarrow> error + 'a" where
  "orErr e m = (case m of None \<Rightarrow> Inl e | Some x \<Rightarrow> Inr x)"

lemma bindE_Inl [simp]: "bindE (Inl e) f = Inl e"
  by (simp add: bindE_def)

lemma bindE_Inr [simp]: "bindE (Inr x) f = f x"
  by (simp add: bindE_def)

lemma bindE_eq_Inr [tx_simps]: "bindE m f = Inr y \<longleftrightarrow> (\<exists>x. m = Inr x \<and> f x = Inr y)"
  by (cases m) auto

lemma bindE_eq_Inl: "bindE m f = Inl e \<longleftrightarrow> m = Inl e \<or> (\<exists>x. m = Inr x \<and> f x = Inl e)"
  by (cases m) auto

lemma bindE_cong [fundef_cong]:
  "m = n \<Longrightarrow> (\<And>x. n = Inr x \<Longrightarrow> f x = g x) \<Longrightarrow> bindE m f = bindE n g"
  by (cases n) (auto simp: bindE_def)

lemma orErr_simps [simp]: "orErr e None = Inl e" "orErr e (Some x) = Inr x"
  by (simp_all add: orErr_def)

lemma orErr_eq_Inr [tx_simps]: "orErr e m = Inr x \<longleftrightarrow> m = Some x"
  by (cases m) auto

lemma if_Inl_eq_Inr [tx_simps]: "(if b then Inl e else m) = Inr y \<longleftrightarrow> \<not> b \<and> m = Inr y"
  by simp

lemma if_else_Inl_eq_Inr [tx_simps]: "(if b then m else Inl e) = Inr y \<longleftrightarrow> b \<and> m = Inr y"
  by simp

section \<open>64-bit signed integers\<close>

text \<open>
  Go's \<open>int64\<close> (and \<open>int\<close> on the deployed platforms) is an \<open>int\<close> of HOL kept in range by
  \<open>wrap64\<close>: every addition, subtraction and multiplication whose result the code does not
  bound first goes through it. Division and remainder truncate towards zero.
\<close>

definition max_int64 :: int where
  "max_int64 = 9223372036854775807"

definition int64 :: "int \<Rightarrow> bool" where
  "int64 x \<longleftrightarrow> - 9223372036854775808 \<le> x \<and> x \<le> 9223372036854775807"

definition wrap64 :: "int \<Rightarrow> int" where
  "wrap64 x = (x + 9223372036854775808) mod 18446744073709551616 - 9223372036854775808"

definition go_div :: "int \<Rightarrow> int \<Rightarrow> int" where
  "go_div a b = sgn a * sgn b * (\<bar>a\<bar> div \<bar>b\<bar>)"

definition go_mod :: "int \<Rightarrow> int \<Rightarrow> int" where
  "go_mod a b = a - b * go_div a b"

lemma wrap64_id [simp, go_arith]: "int64 x \<Longrightarrow> wrap64 x = x"
  by (simp add: int64_def wrap64_def)

lemma int64_wrap64 [simp, intro]: "int64 (wrap64 x)"
proof -
  have "0 \<le> (x + 9223372036854775808) mod 18446744073709551616"
    and "(x + 9223372036854775808) mod 18446744073709551616 < 18446744073709551616"
    by simp_all
  then show ?thesis unfolding int64_def wrap64_def by linarith
qed

lemma wrap64_overflow:
  assumes "0 \<le> a" "a \<le> max_int64" "0 \<le> b" "b \<le> max_int64" "max_int64 < a + b"
  shows "wrap64 (a + b) < 0"
proof -
  have "a + b + 9223372036854775808 - 18446744073709551616
      = (a + b + 9223372036854775808) mod 18446744073709551616"
    using assms unfolding max_int64_def
    by (smt (verit) minus_mod_self2 mod_pos_pos_trivial)
  then show ?thesis
    using assms unfolding wrap64_def max_int64_def by linarith
qed

lemma wrap64_add_nonneg_iff:
  assumes "0 \<le> a" "int64 a" "0 \<le> b" "int64 b"
  shows "0 \<le> wrap64 (a + b) \<longleftrightarrow> a + b \<le> max_int64"
proof
  assume "0 \<le> wrap64 (a + b)"
  then show "a + b \<le> max_int64"
    using wrap64_overflow [of a b] assms unfolding int64_def max_int64_def by linarith
next
  assume "a + b \<le> max_int64"
  then have "int64 (a + b)" using assms unfolding int64_def max_int64_def by linarith
  then show "0 \<le> wrap64 (a + b)" using assms by simp
qed

lemma go_div_pos [go_arith]: "0 \<le> a \<Longrightarrow> 0 < b \<Longrightarrow> go_div a b = a div b"
  by (cases "a = 0") (auto simp: go_div_def)

lemma go_mod_pos [go_arith]: "0 \<le> a \<Longrightarrow> 0 < b \<Longrightarrow> go_mod a b = a mod b"
  by (simp add: go_mod_def go_div_pos minus_mult_div_eq_mod)

section \<open>Tables as lists\<close>

text \<open>
  A table is the list of its rows in insertion order. \<open>lookup\<close> is a query that returns one
  row, \<open>modify\<close> an UPDATE that rewrites the rows a condition selects.
\<close>

definition lookup :: "('r \<Rightarrow> bool) \<Rightarrow> 'r list \<Rightarrow> 'r option" where
  "lookup P rs = find P rs"

definition modify :: "('r \<Rightarrow> bool) \<Rightarrow> ('r \<Rightarrow> 'r) \<Rightarrow> 'r list \<Rightarrow> 'r list" where
  "modify P g rs = map (\<lambda>r. if P r then g r else r) rs"

lemma lookup_simps [simp]:
  "lookup P [] = None"
  "lookup P (r # rs) = (if P r then Some r else lookup P rs)"
  by (simp_all add: lookup_def)

lemma lookup_SomeD: "lookup P rs = Some r \<Longrightarrow> r \<in> set rs \<and> P r"
  by (induction rs) (auto split: if_splits)

lemma lookup_None_iff: "lookup P rs = None \<longleftrightarrow> (\<forall>r \<in> set rs. \<not> P r)"
  by (induction rs) auto

lemma lookup_append: "lookup P (rs @ ss) = (case lookup P rs of None \<Rightarrow> lookup P ss | Some r \<Rightarrow> Some r)"
  by (induction rs) auto

lemma modify_simps [simp]:
  "modify P g [] = []"
  "modify P g (r # rs) = (if P r then g r else r) # modify P g rs"
  by (simp_all add: modify_def)

lemma length_modify [simp]: "length (modify P g rs) = length rs"
  by (simp add: modify_def)

lemma set_modify: "set (modify P g rs) = {if P r then g r else r | r. r \<in> set rs}"
  by (auto simp: modify_def)

lemma map_modify_inv: "(\<And>r. k (g r) = k r) \<Longrightarrow> map k (modify P g rs) = map k rs"
  by (induction rs) auto

lemma modify_none: "(\<And>r. r \<in> set rs \<Longrightarrow> \<not> P r) \<Longrightarrow> modify P g rs = rs"
  by (induction rs) auto

lemma lookup_key_unique:
  assumes "distinct (map k rs)" "r \<in> set rs"
  shows "lookup (\<lambda>s. k s = k r) rs = Some r"
  using assms by (induction rs) auto

lemma distinct_key_eq: "distinct (map k rs) \<Longrightarrow> r \<in> set rs \<Longrightarrow> s \<in> set rs \<Longrightarrow> k r = k s \<Longrightarrow> r = s"
  by (metis lookup_key_unique option.inject)

lemma lookup_modify_key:
  assumes "\<And>r. k (g r) = k r"
  shows "lookup (\<lambda>r. k r = x) (modify (\<lambda>r. k r = x) g rs)
       = map_option g (lookup (\<lambda>r. k r = x) rs)"
  by (induction rs) (auto simp: assms)

lemma lookup_modify_other:
  assumes "\<And>r. k (g r) = k r" "x \<noteq> y"
  shows "lookup (\<lambda>r. k r = y) (modify (\<lambda>r. k r = x) g rs) = lookup (\<lambda>r. k r = y) rs"
  using assms(2) by (induction rs) (auto simp: assms(1))

lemma lookup_modify_pres:
  assumes "\<And>r. P (g r) = P r"
  shows "lookup P (modify Q g rs) = map_option (\<lambda>r. if Q r then g r else r) (lookup P rs)"
  by (induction rs) (auto simp: assms)

lemma modify_twice:
  assumes "\<And>r. k (g r) = k r"
  shows "modify (\<lambda>r. k r = x) h (modify (\<lambda>r. k r = x) g rs) = modify (\<lambda>r. k r = x) (h \<circ> g) rs"
  by (induction rs) (auto simp: assms)

end
