(* ===== verification/Go_Strings.thy ===== *)
theory Go_Strings
  imports Go_Prelude
begin

text \<open>
  Go strings as byte lists (\<open>string\<close>), with the functions of the packages \<open>strings\<close> and
  \<open>strconv\<close> that the modelled code calls. White space and letter case are those of ASCII: a
  byte above 127 is never trimmed and never folded. The lemmas relate decimal text to the
  number it denotes and carry every round trip of the development.
\<close>

section \<open>Trimming, case and splitting\<close>

definition code :: "char \<Rightarrow> nat" where
  "code c = of_char c"

definition is_space :: "char \<Rightarrow> bool" where
  "is_space c \<longleftrightarrow> code c = 32 \<or> (9 \<le> code c \<and> code c \<le> 13)"

definition trim_left :: "(char \<Rightarrow> bool) \<Rightarrow> string \<Rightarrow> string" where
  "trim_left P s = dropWhile P s"

definition trim_right :: "(char \<Rightarrow> bool) \<Rightarrow> string \<Rightarrow> string" where
  "trim_right P s = rev (dropWhile P (rev s))"

definition trim_space :: "string \<Rightarrow> string" where
  "trim_space s = trim_right is_space (trim_left is_space s)"

definition upper_char :: "char \<Rightarrow> char" where
  "upper_char c = (if 97 \<le> code c \<and> code c \<le> 122 then char_of (code c - 32) else c)"

definition lower_char :: "char \<Rightarrow> char" where
  "lower_char c = (if 65 \<le> code c \<and> code c \<le> 90 then char_of (code c + 32) else c)"

definition to_upper :: "string \<Rightarrow> string" where
  "to_upper s = map upper_char s"

definition to_lower :: "string \<Rightarrow> string" where
  "to_lower s = map lower_char s"

definition equal_fold :: "string \<Rightarrow> string \<Rightarrow> bool" where
  "equal_fold s t \<longleftrightarrow> to_lower s = to_lower t"

fun has_prefix :: "string \<Rightarrow> string \<Rightarrow> bool" where
  "has_prefix s [] = True"
| "has_prefix [] (p # ps) = False"
| "has_prefix (c # s) (p # ps) = (c = p \<and> has_prefix s ps)"

text \<open>\<^verbatim>\<open>strings.SplitN(s, sep, 2)\<close>: the text before the first separator and, when there is
  one, the text after it.\<close>

fun split_first :: "char \<Rightarrow> string \<Rightarrow> string \<times> string option" where
  "split_first sep [] = ([], None)"
| "split_first sep (c # s) =
     (if c = sep then ([], Some s)
      else (case split_first sep s of (a, b) \<Rightarrow> (c # a, b)))"

text \<open>\<^verbatim>\<open>strings.Split(s, sep)\<close>.\<close>

fun split_all :: "char \<Rightarrow> string \<Rightarrow> string list" where
  "split_all sep [] = [[]]"
| "split_all sep (c # s) =
     (if c = sep then [] # split_all sep s
      else (case split_all sep s of [] \<Rightarrow> [[c]] | p # ps \<Rightarrow> (c # p) # ps))"

lemma split_first_plain: "sep \<notin> set s \<Longrightarrow> split_first sep s = (s, None)"
  by (induction s) auto

lemma split_first_sep: "sep \<notin> set s \<Longrightarrow> split_first sep (s @ sep # t) = (s, Some t)"
  by (induction s) auto

lemma split_all_plain: "sep \<notin> set s \<Longrightarrow> split_all sep s = [s]"
  by (induction s) auto

lemma split_all_sep: "sep \<notin> set s \<Longrightarrow> split_all sep (s @ sep # t) = s # split_all sep t"
  by (induction s) auto

lemma split_all_nonempty: "split_all sep s \<noteq> []"
  by (induction s) (auto split: list.splits)

lemma trim_right_id: "s \<noteq> [] \<Longrightarrow> \<not> P (last s) \<Longrightarrow> trim_right P s = s"
  by (metis dropWhile_eq_self_iff hd_rev rev_rev_ident trim_right_def)

lemma trim_left_id: "s \<noteq> [] \<Longrightarrow> \<not> P (hd s) \<Longrightarrow> trim_left P s = s"
  by (simp add: trim_left_def dropWhile_eq_self_iff)

lemma trim_space_Nil [simp]: "trim_space [] = []"
  by (simp add: trim_space_def trim_left_def trim_right_def)

lemma trim_space_id: "(\<And>c. c \<in> set s \<Longrightarrow> \<not> is_space c) \<Longrightarrow> trim_space s = s"
proof (cases "s = []")
  case False
  moreover assume "\<And>c. c \<in> set s \<Longrightarrow> \<not> is_space c"
  ultimately show ?thesis by (simp add: trim_space_def trim_left_id trim_right_id)
qed simp

lemma trim_right_app_all: "(\<And>c. c \<in> set t \<Longrightarrow> P c) \<Longrightarrow> trim_right P (s @ t) = trim_right P s"
proof -
  assume "\<And>c. c \<in> set t \<Longrightarrow> P c"
  then have "dropWhile P (rev t @ rev s) = dropWhile P (rev s)"
    by (intro dropWhile_append2) simp
  then show ?thesis by (simp add: trim_right_def)
qed

section \<open>Decimal digits\<close>

definition is_digit :: "char \<Rightarrow> bool" where
  "is_digit c \<longleftrightarrow> 48 \<le> code c \<and> code c \<le> 57"

definition digit_char :: "nat \<Rightarrow> char" where
  "digit_char d = char_of (48 + d)"

abbreviation dot :: char where
  "dot \<equiv> CHR ''.''"

fun format_nat :: "nat \<Rightarrow> string" where
  "format_nat n = (if n < 10 then [digit_char n] else format_nat (n div 10) @ [digit_char (n mod 10)])"

declare format_nat.simps [simp del]

definition dec_val :: "string \<Rightarrow> nat" where
  "dec_val s = foldl (\<lambda>n c. 10 * n + (code c - 48)) 0 s"

text \<open>\<^verbatim>\<open>strconv.FormatInt(x, 10)\<close>.\<close>

definition format_int :: "int \<Rightarrow> string" where
  "format_int x = (if x < 0 then CHR ''-'' # format_nat (nat (- x)) else format_nat (nat x))"

text \<open>\<^verbatim>\<open>strconv.ParseInt(s, 10, 64)\<close>: an optional sign, then one or more digits; \<open>None\<close> for a
  syntax error or a value outside the 64-bit range.\<close>

definition parse_int64 :: "string \<Rightarrow> int option" where
  "parse_int64 s =
     (let neg = (s \<noteq> [] \<and> hd s = CHR ''-'');
          body = (if s \<noteq> [] \<and> (hd s = CHR ''-'' \<or> hd s = CHR ''+'') then tl s else s);
          v = (if neg then - int (dec_val body) else int (dec_val body))
      in if body = [] \<or> \<not> list_all is_digit body \<or> \<not> int64 v then None else Some v)"

lemma code_digit_char [simp]: "d < 10 \<Longrightarrow> code (digit_char d) = 48 + d"
  by (simp add: code_def digit_char_def)

lemma is_digit_digit_char [simp]: "d < 10 \<Longrightarrow> is_digit (digit_char d)"
  by (simp add: is_digit_def)

lemma code_eq_iff: "code c = code d \<longleftrightarrow> c = d"
  by (simp add: code_def)

lemma is_digit_not_dot [simp]: "is_digit c \<Longrightarrow> c \<noteq> dot"
  by (auto simp: is_digit_def code_def)

lemma is_digit_not_sign [simp]: "is_digit c \<Longrightarrow> c \<noteq> CHR ''-'' \<and> c \<noteq> CHR ''+''"
  by (auto simp: is_digit_def code_def)

lemma is_digit_not_space [simp]: "is_digit c \<Longrightarrow> \<not> is_space c"
  by (auto simp: is_digit_def is_space_def)

lemma is_digit_zero [simp]: "is_digit CHR ''0''"
  by (simp add: is_digit_def code_def)

lemma dot_not_space [simp]: "\<not> is_space dot"
  by (simp add: is_space_def code_def)

lemma dot_not_in_digits: "list_all is_digit s \<Longrightarrow> dot \<notin> set s"
  by (auto simp: list_all_iff dest: is_digit_not_dot)

lemma dec_val_snoc [simp]: "dec_val (s @ [c]) = 10 * dec_val s + (code c - 48)"
  by (simp add: dec_val_def)

lemma dec_val_Nil [simp]: "dec_val [] = 0"
  by (simp add: dec_val_def)

lemma dec_val_append: "dec_val (s @ t) = dec_val s * 10 ^ length t + dec_val t"
proof (induction t rule: rev_induct)
  case Nil
  then show ?case by simp
next
  case (snoc c t)
  have "dec_val (s @ t @ [c]) = 10 * dec_val (s @ t) + (code c - 48)"
    using dec_val_snoc [of "s @ t" c] by simp
  then show ?case by (simp add: snoc algebra_simps)
qed

lemma dec_val_single: "dec_val [c] = code c - 48"
  by (simp add: dec_val_def)

lemma dec_val_zero_Cons: "dec_val (CHR ''0'' # s) = dec_val s"
  using dec_val_append [of "[CHR ''0'']" s] by (simp add: dec_val_single code_def)

lemma dec_val_zeros: "dec_val (replicate k CHR ''0'' @ s) = dec_val s"
  by (induction k) (simp_all add: dec_val_zero_Cons)

lemma dec_val_append_zeros: "dec_val (s @ replicate k CHR ''0'') = dec_val s * 10 ^ k"
  using dec_val_append [of s "replicate k CHR ''0''"] dec_val_zeros [of k "[]"] by simp

lemma dec_val_trim_zeros: "dec_val (trim_left (\<lambda>c. c = CHR ''0'') s) = dec_val s"
  by (induction s) (auto simp: trim_left_def dec_val_zero_Cons)

lemma dec_val_format_nat [simp]: "dec_val (format_nat n) = n"
  by (induction n rule: format_nat.induct) (subst format_nat.simps, simp add: dec_val_single)

lemma format_nat_digits: "list_all is_digit (format_nat n)"
proof (induction n rule: format_nat.induct)
  case (1 n)
  then show ?case by (subst format_nat.simps) simp
qed

lemma format_nat_nonempty [simp]: "format_nat n \<noteq> []"
  by (subst format_nat.simps) simp

lemma dec_val_bound: "list_all is_digit s \<Longrightarrow> dec_val s < 10 ^ length s"
proof (induction s rule: rev_induct)
  case Nil
  then show ?case by simp
next
  case (snoc c s)
  then have "dec_val s < 10 ^ length s" and "code c - 48 < 10"
    by (auto simp: is_digit_def)
  then have "10 * dec_val s + (code c - 48) < 10 * 10 ^ length s"
    by linarith
  then show ?case by simp
qed

lemma format_nat_hd: "0 < n \<Longrightarrow> hd (format_nat n) \<noteq> CHR ''0''"
proof (induction n rule: format_nat.induct)
  case (1 n)
  show ?case
  proof (cases "n < 10")
    case True
    then have "code (digit_char n) \<noteq> code CHR ''0''" using "1.prems" by (simp add: code_def [of "CHR ''0''"])
    then have "digit_char n \<noteq> CHR ''0''" by metis
    with True show ?thesis by (subst format_nat.simps) simp
  next
    case False
    then have "hd (format_nat (n div 10)) \<noteq> CHR ''0''" using "1.IH" by simp
    with False show ?thesis by (subst format_nat.simps) simp
  qed
qed

lemma format_nat_0: "format_nat 0 = ''0''"
proof -
  have "code (digit_char 0) = code CHR ''0''" by (simp only: code_digit_char, simp add: code_def)
  then have "digit_char 0 = CHR ''0''" by (simp only: code_eq_iff)
  then show ?thesis by (subst format_nat.simps) simp
qed

lemma parse_int64_digits:
  assumes "list_all is_digit s" "s \<noteq> []"
  shows "parse_int64 s = (if int (dec_val s) \<le> max_int64 then Some (int (dec_val s)) else None)"
proof -
  have "is_digit (hd s)" using assms by (cases s) auto
  then have "hd s \<noteq> CHR ''-''" "hd s \<noteq> CHR ''+''" by auto
  then show ?thesis
    using assms by (auto simp: parse_int64_def Let_def int64_def max_int64_def)
qed

lemma dec_val_drop_take: "k \<le> length s \<Longrightarrow>
  dec_val (take k s) * 10 ^ (length s - k) + dec_val (drop k s) = dec_val s"
  using dec_val_append [of "take k s" "drop k s"] by simp

lemma dec_val_pos_iff:
  assumes "list_all is_digit s"
  shows "0 < dec_val s \<longleftrightarrow> (\<exists>c \<in> set s. c \<noteq> CHR ''0'')"
  using assms
proof (induction s rule: rev_induct)
  case Nil
  then show ?case by simp
next
  case (snoc c s)
  have "0 < code c - 48 \<longleftrightarrow> c \<noteq> CHR ''0''"
    using snoc.prems code_eq_iff [of c "CHR ''0''"] by (auto simp: is_digit_def code_def)
  with snoc show ?case by auto
qed

lemma digit_step_inject: "10 * a + p = 10 * b + q \<Longrightarrow> p < 10 \<Longrightarrow> q < 10 \<Longrightarrow> a = b \<and> p = (q::nat)"
  by presburger

lemma dec_val_inject:
  assumes "list_all is_digit s" "list_all is_digit t" "length s = length t" "dec_val s = dec_val t"
  shows "s = t"
  using assms
proof (induction s arbitrary: t rule: rev_induct)
  case Nil
  then show ?case by simp
next
  case (snoc x xs)
  then obtain ys y where t: "t = ys @ [y]" by (cases t rule: rev_cases) auto
  have d: "code x - 48 < 10" "code y - 48 < 10" using snoc.prems t by (auto simp: is_digit_def)
  have e: "10 * dec_val xs + (code x - 48) = 10 * dec_val ys + (code y - 48)"
    using snoc.prems t by simp
  have eq: "dec_val xs = dec_val ys" "code x - 48 = code y - 48"
    using digit_step_inject [OF e d] by auto
  from eq(2) have "x = y" using snoc.prems t code_eq_iff [of x y] by (auto simp: is_digit_def)
  with eq(1) show ?case using snoc t by simp
qed

lemma format_nat_dec_val:
  assumes "list_all is_digit s" "s \<noteq> []" "length s = 1 \<or> hd s \<noteq> CHR ''0''"
  shows "format_nat (dec_val s) = s"
  using assms
proof (induction s rule: rev_induct)
  case Nil
  then show ?case by simp
next
  case (snoc c s)
  have c: "code c - 48 < 10" "digit_char (code c - 48) = c"
    using snoc.prems code_eq_iff [of "digit_char (code c - 48)" c] by (auto simp: is_digit_def)
  show ?case
  proof (cases "s = []")
    case True
    with c show ?thesis by (subst format_nat.simps) (simp add: dec_val_single)
  next
    case False
    then have hd: "hd s \<noteq> CHR ''0''" using snoc.prems by simp
    have "list_all is_digit s" using snoc.prems(1) by simp
    then have "0 < dec_val s" using dec_val_pos_iff hd False by (metis hd_in_set)
    moreover have fs: "format_nat (dec_val s) = s" using snoc False hd by simp
    ultimately have "\<not> dec_val (s @ [c]) < 10" "dec_val (s @ [c]) div 10 = dec_val s"
      "dec_val (s @ [c]) mod 10 = code c - 48" using c(1) by auto
    then show ?thesis
      using fs c(2) format_nat.simps [of "dec_val (s @ [c])"] by (simp only: if_False)
  qed
qed

lemma length_format_nat: "n < 10 ^ d \<Longrightarrow> 0 < d \<Longrightarrow> length (format_nat n) \<le> d"
proof (induction n arbitrary: d rule: format_nat.induct)
  case (1 n)
  show ?case
  proof (cases "n < 10")
    case True
    with "1.prems" show ?thesis by (subst format_nat.simps) simp
  next
    case False
    with "1.prems" obtain e where e: "d = Suc e" by (cases d) auto
    with False "1.prems" have "0 < e" by (cases e) auto
    moreover have "n div 10 < 10 ^ e" using "1.prems" e by (simp add: less_mult_imp_div_less mult.commute)
    ultimately have "length (format_nat (n div 10)) \<le> e" using "1.IH" False by simp
    with False e show ?thesis by (subst format_nat.simps) simp
  qed
qed



text \<open>\<^verbatim>\<open>len([]rune(v))\<close> of valid UTF-8: bytes that are not continuation bytes.\<close>

definition rune_count :: "string \<Rightarrow> nat" where
  "rune_count v = length (filter (\<lambda>c. code c < 128 \<or> 192 \<le> code c) v)"

end
