(* ===== verification/Json.thy ===== *)
theory Json
  imports Go_Strings "HOL-Library.List_Lexorder"
begin

text \<open>
  JSON documents as the code keeps them (JSONB columns and \<^verbatim>\<open>json.RawMessage\<close> fields) and what
  \<^verbatim>\<open>json.Unmarshal\<close> does with them for the struct shapes the repository decodes: keys match a
  struct field up to ASCII case, later keys overwrite earlier ones, \<open>null\<close> leaves a field
  unchanged, a value of the wrong kind is an error. Number literals stay text, as in the
  document. \<open>payload\<close> is a value handed to \<^verbatim>\<open>json.Marshal\<close> for an outbox event.
\<close>

datatype json =
    JNull | JBool bool | JNum string | JStr string | JArr "json list" | JObj "(string \<times> json) list"

datatype payload =
    PNull | PBool bool | PInt int | PStr string | PTime int | PJson json
  | PList "payload list" | PObj "(string \<times> payload) list"

type_synonym 'a decoder = "json \<Rightarrow> 'a \<Rightarrow> 'a option"

definition dec_string :: "string decoder" where
  "dec_string j v = (case j of JStr s \<Rightarrow> Some s | JNull \<Rightarrow> Some v | _ \<Rightarrow> None)"

definition dec_bool :: "bool decoder" where
  "dec_bool j v = (case j of JBool b \<Rightarrow> Some b | JNull \<Rightarrow> Some v | _ \<Rightarrow> None)"

definition dec_int :: "int decoder" where
  "dec_int j v = (case j of JNum s \<Rightarrow> parse_int64 s | JNull \<Rightarrow> Some v | _ \<Rightarrow> None)"

definition dec_raw :: "json option decoder" where
  "dec_raw j v = Some (Some j)"

text \<open>A slice: each element is decoded into a zero value.\<close>

fun dec_all :: "'a decoder \<Rightarrow> 'a \<Rightarrow> json list \<Rightarrow> 'a list option" where
  "dec_all d z [] = Some []"
| "dec_all d z (j # js) =
     (case d j z of None \<Rightarrow> None | Some v \<Rightarrow> map_option (\<lambda>vs. v # vs) (dec_all d z js))"

definition dec_slice :: "'a decoder \<Rightarrow> 'a \<Rightarrow> 'a list decoder" where
  "dec_slice d z j v = (case j of JArr js \<Rightarrow> dec_all d z js | JNull \<Rightarrow> Some [] | _ \<Rightarrow> None)"

text \<open>A \<^verbatim>\<open>map[string]T\<close> as an association list, the entry of a later key in front.\<close>

fun dec_entries :: "'a decoder \<Rightarrow> 'a \<Rightarrow> (string \<times> json) list \<Rightarrow> (string \<times> 'a) list \<Rightarrow> (string \<times> 'a) list option" where
  "dec_entries d z [] m = Some m"
| "dec_entries d z ((k, j) # kvs) m =
     (case d j z of None \<Rightarrow> None
      | Some v \<Rightarrow> dec_entries d z kvs ((k, v) # filter (\<lambda>(k', _). k' \<noteq> k) m))"

definition dec_map :: "'a decoder \<Rightarrow> 'a \<Rightarrow> (string \<times> 'a) list decoder" where
  "dec_map d z j m = (case j of JObj kvs \<Rightarrow> dec_entries d z kvs m | JNull \<Rightarrow> Some [] | _ \<Rightarrow> None)"

text \<open>One field of a struct: every key that names it is decoded in document order.\<close>

fun dec_field :: "string \<Rightarrow> 'a decoder \<Rightarrow> (string \<times> json) list \<Rightarrow> 'a \<Rightarrow> 'a option" where
  "dec_field name d [] v = Some v"
| "dec_field name d ((k, j) # kvs) v =
     (if equal_fold k name
      then (case d j v of None \<Rightarrow> None | Some v' \<Rightarrow> dec_field name d kvs v')
      else dec_field name d kvs v)"

text \<open>The members of a document decoded into a struct: \<open>null\<close> has none, any other kind than an
  object is an error.\<close>

definition members :: "json \<Rightarrow> (string \<times> json) list option" where
  "members j = (case j of JObj kvs \<Rightarrow> Some kvs | JNull \<Rightarrow> Some [] | _ \<Rightarrow> None)"

definition field :: "string \<Rightarrow> 'a decoder \<Rightarrow> 'a \<Rightarrow> json \<Rightarrow> 'a option" where
  "field name d z j = (case members j of None \<Rightarrow> None | Some kvs \<Rightarrow> dec_field name d kvs z)"

text \<open>\<^verbatim>\<open>struct { Pick string }\<close>, the shape of every stored selection; \<open>None\<close> is a decoding error.\<close>

definition decode_pick :: "json option \<Rightarrow> string option" where
  "decode_pick raw = (case raw of None \<Rightarrow> None | Some j \<Rightarrow> field ''pick'' dec_string [] j)"

text \<open>\<^verbatim>\<open>[]string\<close>, the shape of a stored outcome, and its encoding.\<close>

definition decode_strings :: "json option \<Rightarrow> string list option" where
  "decode_strings raw = (case raw of None \<Rightarrow> None | Some j \<Rightarrow> dec_slice dec_string [] j [])"

definition encode_strings :: "string list \<Rightarrow> json" where
  "encode_strings vs = JArr (map JStr vs)"

text \<open>
  The cast to JSONB: of equal keys the last one stays, and keys are ordered by length and then
  by bytes. Number literals are kept as written.
\<close>

definition key_le :: "string \<Rightarrow> string \<Rightarrow> bool" where
  "key_le a b \<longleftrightarrow> length a < length b \<or> (length a = length b \<and> map code a \<le> map code b)"

fun insert_key :: "string \<times> json \<Rightarrow> (string \<times> json) list \<Rightarrow> (string \<times> json) list" where
  "insert_key (k, v) [] = [(k, v)]"
| "insert_key (k, v) ((k', v') # r) =
     (if k = k' then (k, v) # r
      else if key_le k k' then (k, v) # (k', v') # r
      else (k', v') # insert_key (k, v) r)"

fun jsonb :: "json \<Rightarrow> json" where
  "jsonb (JArr js) = JArr (map jsonb js)"
| "jsonb (JObj kvs) = JObj (fold insert_key (map (\<lambda>(k, j). (k, jsonb j)) kvs) [])"
| "jsonb j = j"

text \<open>SQL's \<^verbatim>\<open>j->>'key'\<close> on an object, for string members.\<close>

definition json_text :: "json \<Rightarrow> string \<Rightarrow> string option" where
  "json_text j k =
     (case j of JObj kvs \<Rightarrow> (case map_of kvs k of Some (JStr s) \<Rightarrow> Some s | Some (JNum s) \<Rightarrow> Some s | _ \<Rightarrow> None)
      | _ \<Rightarrow> None)"

definition json_member :: "json \<Rightarrow> string \<Rightarrow> json option" where
  "json_member j k = (case j of JObj kvs \<Rightarrow> map_of kvs k | _ \<Rightarrow> None)"

lemma dec_all_strings: "dec_all dec_string z (map JStr vs) = Some vs"
  by (induction vs) (auto simp: dec_string_def)

lemma decode_encode_strings [simp]: "decode_strings (Some (encode_strings vs)) = Some vs"
  by (simp add: decode_strings_def encode_strings_def dec_slice_def dec_all_strings)

lemma decode_pick_obj [simp]: "decode_pick (Some (JObj [(''pick'', JStr p)])) = Some p"
  by (simp add: decode_pick_def field_def members_def dec_string_def equal_fold_def)

end
