(* ===== verification/Store.thy ===== *)
theory Store
  imports Go_Prelude Json
begin

text \<open>
  The database of the platform: one record whose fields are the tables, each table the list of
  its rows in insertion order, and the statements the handlers share (wallet reads and
  updates, ledger inserts with the triggers of \<^verbatim>\<open>migrations/0045_unified_ledger.sql\<close>, outbox
  inserts). Constraints of the schema are checked by the statements and surface as \<open>DB\<close>
  errors; an error discards the transaction. A handler runs as one atomic step, which is what
  its row locks (\<^verbatim>\<open>FOR UPDATE\<close>) buy; \<open>clock\<close> is the instant it reads and \<open>uuids\<close> the stream
  \<^verbatim>\<open>uuid.NewString\<close> and \<^verbatim>\<open>gen_random_uuid\<close> draw from. Nothing is assumed of that stream: a value
  already taken fails the insert.

  The second half is the accounting invariant \<open>books\<close>: replaying the ledger of a wallet from
  zero reproduces the balance snapshot of every entry and ends at the wallet's balances.
\<close>

named_theorems books_intros \<open>statements that keep the books\<close>

section \<open>Rows\<close>

record user_row =
  u_id :: string
  u_status :: string
  u_virtual :: bool
  u_level :: "int option"
  u_public_id :: int
  u_name :: string
  u_avatar :: "string option"

record currency_row =
  c_code :: string
  c_decimals :: int
  c_enabled :: bool

record wallet_row =
  w_id :: string
  w_user :: string
  w_currency :: string
  w_available :: int
  w_frozen :: int
  w_version :: int
  w_updated :: int

record ledger_row =
  l_id :: string
  l_wallet :: string
  l_btype :: string
  l_bid :: string
  l_etype :: string
  l_amount :: int
  l_after :: int
  l_avail_delta :: int
  l_frozen_delta :: int
  l_frozen_after :: int
  l_placement :: "string option"
  l_remark :: string
  l_operator :: "string option"
  l_at :: int

record outbox_row =
  o_id :: string
  o_agg_type :: string
  o_agg_id :: string
  o_type :: string
  o_payload :: payload
  o_at :: int
  o_published :: "int option"
  o_attempts :: int
  o_failed :: "int option"
  o_reason :: "string option"

record chat_room_row =
  cr_id :: string
  cr_type :: string

datatype packet_status = PActive | PExhausted | PRefunded

record red_packet_row =
  rp_id :: string
  rp_room :: string
  rp_sender :: string
  rp_wallet :: string
  rp_request :: string
  rp_currency :: string
  rp_greeting :: string
  rp_total :: int
  rp_remaining :: int
  rp_count :: int
  rp_claimed :: int
  rp_status :: packet_status
  rp_expires :: int
  rp_created :: int

record claim_row =
  rc_id :: string
  rc_packet :: string
  rc_user :: string
  rc_wallet :: string
  rc_amount :: int
  rc_at :: int

datatype round_status = RoundScheduled | RoundOpen | RoundClosed | RoundSettling | RoundSettled | RoundCancelled

record game_type_row =
  gt_id :: string
  gt_code :: string
  gt_name :: string
  gt_enabled :: bool
  gt_rules :: json
  gt_room :: "string option"
  gt_interval :: "int option"
  gt_close_before :: int

record round_row =
  r_id :: string
  r_type :: string
  r_seq :: int
  r_status :: round_status
  r_closes :: int
  r_result_at :: int
  r_outcome :: "json option"
  r_settled :: "int option"
  r_version :: int

datatype bet_status = BetAccepted | BetCancelled | BetLost | BetWon | BetRefunded | BetVoided

record bet_row =
  b_id :: string
  b_request :: string
  b_round :: string
  b_user :: string
  b_wallet :: string
  b_room :: "string option"
  b_mode :: "string option"
  b_selection :: json
  b_stake :: int
  b_mult :: "int option"
  b_div :: "int option"
  b_status :: bet_status
  b_payout :: int
  b_after :: "int option"
  b_simulated :: bool
  b_robot :: "string option"
  b_rebate_version :: int
  b_merge :: bool
  b_count :: int
  b_created :: int
  b_last :: "int option"
  b_settled :: "int option"

record placement_row =
  p_id :: string
  p_bet :: string
  p_user :: string
  p_round :: string
  p_request :: string
  p_currency :: string
  p_room :: "string option"
  p_mode :: "string option"
  p_selection :: json
  p_stake :: int
  p_robot :: "string option"
  p_at :: int

record game_room_row =
  gr_id :: string
  gr_code :: string
  gr_name :: string
  gr_kind :: string
  gr_enabled :: bool

record hash_config_row =
  hc_room :: string
  hc_currency :: string
  hc_guess_mult :: int
  hc_guess_div :: int
  hc_dodge_mult :: int
  hc_dodge_div :: int
  hc_road_mult :: int
  hc_road_div :: int
  hc_guess_max :: int
  hc_dodge_max :: int
  hc_road_max :: int
  hc_min :: int

record lulu_play_row =
  lp_type :: string
  lp_code :: string
  lp_outcomes :: json
  lp_result_map :: json
  lp_dodge :: bool
  lp_enabled :: bool

text \<open>The rows of \<^verbatim>\<open>lulu_room_play_currency_configs\<close> and, with its \<^verbatim>\<open>enabled\<close> flag,
  \<^verbatim>\<open>lulu_prime_time_configs\<close>.\<close>

record lulu_price_row =
  lc_type :: string
  lc_room :: string
  lc_play :: string
  lc_currency :: string
  lc_mult :: int
  lc_div :: int
  lc_min :: int
  lc_max :: int
  lc_on :: bool

record commission_row =
  ce_id :: string
  ce_bet :: string
  ce_user :: string
  ce_currency :: string
  ce_amount :: int
  ce_status :: string

record ancestor =
  an_user :: string
  an_level :: int
  an_rate :: int
  an_virtual :: bool

record room_rebate_row =
  rr_id :: string
  rr_room :: string
  rr_enabled :: bool
  rr_version :: int
  rr_rates :: "int list"
  rr_updated :: int

record snapshot_row =
  sn_bet :: string
  sn_config :: "string option"
  sn_version :: "int option"
  sn_enabled :: bool
  sn_ancestors :: "ancestor list"

record allocation_row =
  al_commission :: string
  al_bet :: string
  al_user :: string
  al_base :: int
  al_level :: int
  al_diff :: int

record audit_row =
  au_id :: string
  au_actor :: "string option"
  au_action :: string
  au_target_type :: string
  au_target :: string
  au_payload :: payload

record address_row =
  ca_id :: string
  ca_user :: string
  ca_chain :: string
  ca_token :: string
  ca_address :: string
  ca_provider :: "string option"
  ca_memo :: "string option"

record deposit_row =
  dp_id :: string
  dp_address :: string
  dp_event :: string
  dp_tx :: string
  dp_amount :: int
  dp_status :: string
  dp_confirmed :: "int option"
  dp_provider_amount :: "string option"
  dp_chain_decimals :: "int option"
  dp_platform_decimals :: "int option"

datatype withdrawal_status = WRequested | WApproved | WBroadcasted | WConfirmed | WFailed | WCancelled

record withdrawal_row =
  wd_id :: string
  wd_user :: string
  wd_wallet :: string
  wd_request :: string
  wd_destination :: string
  wd_memo :: "string option"
  wd_chain :: "string option"
  wd_token :: "string option"
  wd_chain_token :: "int option"
  wd_token_decimals :: "int option"
  wd_platform_decimals :: "int option"
  wd_amount :: int
  wd_status :: withdrawal_status
  wd_order :: "string option"
  wd_tx :: "string option"
  wd_fee :: "int option"
  wd_reviewer :: "string option"
  wd_reason :: "string option"
  wd_created :: int

text \<open>\<^verbatim>\<open>provider_supported_assets\<close> and \<^verbatim>\<open>provider_webhook_events\<close>; the only provider is \<^verbatim>\<open>pqpa\<close>.\<close>

record asset_row =
  as_chain :: string
  as_token :: string
  as_decimals :: int
  as_enabled :: bool
  as_deposit :: bool
  as_withdraw :: bool
  as_chain_token :: "int option"

record webhook_row =
  we_id :: string
  we_event :: string
  we_type :: string
  we_processed :: "int option"
  we_error :: "error option"

text \<open>\<^verbatim>\<open>external_draw_rounds\<close>; the only source is \<^verbatim>\<open>lulu_ws\<close>.\<close>

datatype draw_status = DrawPending | DrawConfirmed | DrawConflict

record draw_row =
  ed_game :: string
  ed_round :: int
  ed_close :: "int option"
  ed_outcome :: "json option"
  ed_status :: draw_status
  ed_conflict :: "json option"
  ed_received :: "int option"

text \<open>\<^verbatim>\<open>admin_bet_voids\<close>, its JSONB result kept as the record it encodes.\<close>

record void_result =
  vr_operation :: string
  vr_bet :: string
  vr_user :: int
  vr_operator :: int
  vr_game :: string
  vr_sequence :: int
  vr_currency :: string
  vr_stake :: int
  vr_refund :: int
  vr_simulated :: bool
  vr_reason :: string
  vr_status :: string
  vr_duplicate :: bool
  vr_created :: int

record void_row =
  av_id :: string
  av_operator :: string
  av_request :: string
  av_bet :: string
  av_reason :: string
  av_result :: void_result
  av_created :: int

text \<open>\<^verbatim>\<open>bet_task_configs\<close>, \<^verbatim>\<open>task_progress\<close> and \<^verbatim>\<open>task_reward_claims\<close>. A date is its day number, counted from
  1970-01-01 in the zone of the platform (UTC+8).\<close>

record task_reward =
  tr_currency :: string
  tr_amount :: int
  tr_after :: "int option"

record task_config_row =
  tc_id :: string
  tc_acc :: string
  tc_reward_currency :: string
  tc_threshold :: int
  tc_reward :: int
  tc_enabled :: bool
  tc_title :: string
  tc_period :: string
  tc_sort :: int
  tc_max :: int
  tc_rewards :: "task_reward list"
  tc_deleted :: bool
  tc_created :: int

record task_progress_row =
  tp_config :: string
  tp_user :: string
  tp_date :: int
  tp_progress :: int
  tp_count :: int
  tp_updated :: int

record task_claim_row =
  tk_id :: string
  tk_config :: string
  tk_user :: string
  tk_date :: int
  tk_count :: int
  tk_rewards :: "task_reward list"
  tk_snapshot :: task_config_row
  tk_at :: int

text \<open>\<^verbatim>\<open>robot_plans\<close>: the columns a request carries are kept as the request (\<open>plan_input\<close>), so is the
  JSONB copy of the creating one.\<close>

record plan_input =
  pi_user :: int
  pi_enabled :: bool
  pi_game :: string
  pi_room :: string
  pi_currency :: string
  pi_min :: int
  pi_max :: int
  pi_selections :: "(string \<times> string) list"
  pi_skip_min :: int
  pi_skip_max :: int

record robot_plan_row =
  rb_id :: string
  rb_user :: string
  rb_operator :: string
  rb_request :: string
  rb_create :: plan_input
  rb_plan :: plan_input
  rb_deleted :: bool
  rb_next :: "int option"
  rb_seen :: "int option"
  rb_checked :: "int option"
  rb_status :: string
  rb_error :: string
  rb_last_bet :: "string option"
  rb_created :: int

text \<open>\<^verbatim>\<open>admin_wallet_adjustments\<close> with its JSONB result, \<^verbatim>\<open>point_withdrawals\<close>, \<^verbatim>\<open>spin_configs\<close> with its
  \<^verbatim>\<open>spin_prizes\<close> in their order, and \<^verbatim>\<open>lucky_spin_records\<close>.\<close>

record adjustment_result =
  ar_operation :: string
  ar_user :: string
  ar_currency :: string
  ar_action :: string
  ar_amount :: int
  ar_delta :: int
  ar_before :: int
  ar_after :: int
  ar_frozen :: int
  ar_duplicate :: bool
  ar_at :: int

record adjustment_row =
  aj_id :: string
  aj_operator :: string
  aj_request :: string
  aj_user :: string
  aj_currency :: string
  aj_action :: string
  aj_amount :: int
  aj_remark :: string
  aj_result :: adjustment_result

record point_withdrawal_row =
  pw_id :: string
  pw_user :: string
  pw_wallet :: string
  pw_request :: string
  pw_amount :: int
  pw_status :: string
  pw_remark :: string
  pw_reviewer :: "string option"
  pw_created :: int

record spin_prize =
  sp_id :: string
  sp_label :: string
  sp_currency :: string
  sp_amount :: int
  sp_weight :: int
  sp_disabled :: bool

record spin_config_row =
  sc_id :: string
  sc_code :: string
  sc_title :: string
  sc_enabled :: bool
  sc_currency :: string
  sc_cost :: int
  sc_sort :: int
  sc_created :: int
  sc_deleted :: bool
  sc_prizes :: "spin_prize list"

record spin_record_row =
  ss_id :: string
  ss_user :: string
  ss_request :: string
  ss_spin :: string
  ss_prize :: string
  ss_label :: string
  ss_reward_currency :: string
  ss_reward :: int
  ss_cost_currency :: string
  ss_cost :: int
  ss_cost_after :: int
  ss_reward_after :: int
  ss_created :: int

section \<open>The database\<close>

record db =
  clock :: int
  uuids :: "nat \<Rightarrow> string"
  next_uuid :: nat
  users :: "user_row list"
  user_roles :: "(string \<times> string) list"
  currencies :: "currency_row list"
  wallets :: "wallet_row list"
  ledger :: "ledger_row list"
  outbox :: "outbox_row list"
  chat_rooms :: "chat_room_row list"
  chat_members :: "(string \<times> string) list"
  red_packets :: "red_packet_row list"
  packet_claims :: "claim_row list"
  game_types :: "game_type_row list"
  rounds :: "round_row list"
  bets :: "bet_row list"
  placements :: "placement_row list"
  game_rooms :: "game_room_row list"
  game_room_types :: "(string \<times> string) list"
  hash_configs :: "hash_config_row list"
  lulu_plays :: "lulu_play_row list"
  lulu_prices :: "lulu_price_row list"
  prime_prices :: "lulu_price_row list"
  agent_parents :: "(string \<times> string option) list"
  agent_rates :: "(string \<times> int) list"
  commissions :: "commission_row list"
  room_rebates :: "room_rebate_row list"
  snapshots :: "snapshot_row list"
  allocations :: "allocation_row list"
  audit_logs :: "audit_row list"
  chain_addresses :: "address_row list"
  deposits :: "deposit_row list"
  withdrawals :: "withdrawal_row list"
  assets :: "asset_row list"
  webhooks :: "webhook_row list"
  draws :: "draw_row list"
  voids :: "void_row list"
  task_configs :: "task_config_row list"
  task_progress :: "task_progress_row list"
  task_claims :: "task_claim_row list"
  robot_plans :: "robot_plan_row list"
  adjustments :: "adjustment_row list"
  point_withdrawals :: "point_withdrawal_row list"
  spin_configs :: "spin_config_row list"
  spin_records :: "spin_record_row list"

text \<open>A database with empty tables; the UUID stream counts.\<close>

definition empty_db :: db where
  "empty_db = \<lparr>clock = 0, uuids = (\<lambda>n. CHR ''u'' # format_nat n), next_uuid = 0, users = [], user_roles = [],
     currencies = [], wallets = [], ledger = [], outbox = [], chat_rooms = [], chat_members = [],
     red_packets = [], packet_claims = [], game_types = [], rounds = [], bets = [], placements = [],
     game_rooms = [], game_room_types = [], hash_configs = [], lulu_plays = [], lulu_prices = [],
     prime_prices = [], agent_parents = [], agent_rates = [], commissions = [], room_rebates = [],
     snapshots = [], allocations = [], audit_logs = [], chain_addresses = [], deposits = [], withdrawals = [],
     assets = [], webhooks = [], draws = [], voids = [],
     task_configs = [], task_progress = [], task_claims = [],
     robot_plans = [], adjustments = [], point_withdrawals = [], spin_configs = [], spin_records = []\<rparr>"

type_synonym 'r tx = "db \<Rightarrow> error + ('r \<times> db)"

definition new_uuid :: "db \<Rightarrow> string \<times> db" where
  "new_uuid s = (uuids s (next_uuid s), s\<lparr>next_uuid := Suc (next_uuid s)\<rparr>)"

section \<open>Statements\<close>

definition user_by_id :: "db \<Rightarrow> string \<Rightarrow> user_row option" where
  "user_by_id s i = lookup (\<lambda>u. u_id u = i) (users s)"

definition wallet_by_id :: "db \<Rightarrow> string \<Rightarrow> wallet_row option" where
  "wallet_by_id s i = lookup (\<lambda>w. w_id w = i) (wallets s)"

definition wallet_of :: "db \<Rightarrow> string \<Rightarrow> string \<Rightarrow> wallet_row option" where
  "wallet_of s u c = lookup (\<lambda>w. w_user w = u \<and> w_currency w = c) (wallets s)"

text \<open>\<^verbatim>\<open>UPDATE wallets SET available_minor=$2,version=version+1 WHERE id=$1\<close>, with the CHECK constraint.\<close>

definition set_available :: "string \<Rightarrow> int \<Rightarrow> db \<Rightarrow> error + db" where
  "set_available wid v s =
     (if v < 0 \<and> wallet_by_id s wid \<noteq> None then Inl (DB Check)
      else Inr (s\<lparr>wallets := modify (\<lambda>w. w_id w = wid)
             (\<lambda>w. w\<lparr>w_available := v, w_version := w_version w + 1, w_updated := clock s\<rparr>) (wallets s)\<rparr>))"

text \<open>The same with \<^verbatim>\<open>frozen_minor\<close>.\<close>

definition set_balances :: "string \<Rightarrow> int \<Rightarrow> int \<Rightarrow> db \<Rightarrow> error + db" where
  "set_balances wid v f s =
     (if (v < 0 \<or> f < 0) \<and> wallet_by_id s wid \<noteq> None then Inl (DB Check)
      else Inr (s\<lparr>wallets := modify (\<lambda>w. w_id w = wid)
             (\<lambda>w. w\<lparr>w_available := v, w_frozen := f, w_version := w_version w + 1, w_updated := clock s\<rparr>) (wallets s)\<rparr>))"

text \<open>\<^verbatim>\<open>INSERT INTO wallets(id,user_id,currency)\<close>, its keys, and its references to users and
  currencies.\<close>

definition insert_wallet :: "string \<Rightarrow> string \<Rightarrow> string \<Rightarrow> db \<Rightarrow> error + db" where
  "insert_wallet wid u c s =
     (if wallet_by_id s wid \<noteq> None \<or> wallet_of s u c \<noteq> None then Inl (DB Unique)
      else if user_by_id s u = None \<or> lookup (\<lambda>r. c_code r = c) (currencies s) = None then Inl (DB ForeignKey)
      else Inr (s\<lparr>wallets := wallets s @ [\<lparr>w_id = wid, w_user = u, w_currency = c, w_available = 0,
                  w_frozen = 0, w_version = 0, w_updated = clock s\<rparr>]\<rparr>))"

text \<open>\<^verbatim>\<open>INSERT INTO outbox_events\<close>.\<close>

definition insert_outbox :: "string \<Rightarrow> string \<Rightarrow> string \<Rightarrow> payload \<Rightarrow> db \<Rightarrow> error + db" where
  "insert_outbox aggType aggId evType p s =
     (let (i, s) = new_uuid s in
      if lookup (\<lambda>e. o_id e = i) (outbox s) \<noteq> None then Inl (DB Unique)
      else Inr (s\<lparr>outbox := outbox s @ [\<lparr>o_id = i, o_agg_type = aggType, o_agg_id = aggId, o_type = evType,
                  o_payload = p, o_at = clock s, o_published = None, o_attempts = 0,
                  o_failed = None, o_reason = None\<rparr>]\<rparr>))"

text \<open>
  \<^verbatim>\<open>INSERT INTO ledger_entries\<close>. The row is given without its frozen snapshot, which the trigger
  \<^verbatim>\<open>fill_ledger_snapshot\<close> reads from the wallet (\<^verbatim>\<open>INTO STRICT\<close>: no wallet is an error); the
  trigger \<^verbatim>\<open>enqueue_ledger_event\<close> adds the outbox event.
\<close>

definition ledger_conflict :: "ledger_row \<Rightarrow> ledger_row \<Rightarrow> bool" where
  "ledger_conflict e r \<longleftrightarrow> l_id r = l_id e
     \<or> (l_placement e = None \<and> l_placement r = None \<and> l_wallet r = l_wallet e \<and> l_btype r = l_btype e
        \<and> l_bid r = l_bid e \<and> l_etype r = l_etype e)
     \<or> (l_placement e \<noteq> None \<and> l_placement r = l_placement e)"

definition insert_ledger_row :: "ledger_row \<Rightarrow> db \<Rightarrow> error + db" where
  "insert_ledger_row e s =
     (case wallet_by_id s (l_wallet e) of
        None \<Rightarrow> Inl (DB NoRows)
      | Some w \<Rightarrow>
          let e = e\<lparr>l_frozen_after := w_frozen w\<rparr> in
          if lookup (ledger_conflict e) (ledger s) \<noteq> None then Inl (DB Unique)
          else if l_placement e \<noteq> None \<and> \<not> (l_btype e = ''bet'' \<and> l_etype e = ''bet_debit'') then Inl (DB Check)
          else if (case l_placement e of None \<Rightarrow> False | Some p \<Rightarrow> lookup (\<lambda>r. p_id r = p) (placements s) = None)
                  \<or> (case l_operator e of None \<Rightarrow> False | Some o' \<Rightarrow> user_by_id s o' = None)
          then Inl (DB ForeignKey)
          else insert_outbox ''ledger'' (l_id e) ''wallet.ledger.committed''
                 (PObj [(''user_id'', PStr (w_user w)), (''currency'', PStr (w_currency w)),
                        (''ledger_id'', PStr (l_id e)), (''business_id'', PStr (l_bid e)),
                        (''business_type'', PStr (l_btype e)),
                        (''available_delta_minor'', PInt (l_avail_delta e)),
                        (''frozen_delta_minor'', PInt (l_frozen_delta e)),
                        (''available_after_minor'', PInt (l_after e)),
                        (''frozen_after_minor'', PInt (l_frozen_after e))])
                 (s\<lparr>ledger := ledger s @ [e]\<rparr>))"

text \<open>The common form \<^verbatim>\<open>INSERT INTO ledger_entries(id,wallet_id,business_type,business_id,entry_type,
  amount_minor,balance_after_minor)\<close>: the available delta defaults to the amount, the frozen
  delta to zero.\<close>

definition insert_ledger :: "string \<Rightarrow> string \<Rightarrow> string \<Rightarrow> string \<Rightarrow> int \<Rightarrow> int \<Rightarrow> db \<Rightarrow> error + db" where
  "insert_ledger wid btype bid etype amount after s =
     (let (i, s) = new_uuid s in
      insert_ledger_row \<lparr>l_id = i, l_wallet = wid, l_btype = btype, l_bid = bid, l_etype = etype,
        l_amount = amount, l_after = after, l_avail_delta = amount, l_frozen_delta = 0,
        l_frozen_after = 0, l_placement = None, l_remark = [], l_operator = None, l_at = clock s\<rparr> s)"

text \<open>The form that also names \<^verbatim>\<open>available_delta_minor\<close> and \<^verbatim>\<open>frozen_delta_minor\<close>.\<close>

definition insert_ledger_frozen ::
  "string \<Rightarrow> string \<Rightarrow> string \<Rightarrow> string \<Rightarrow> int \<Rightarrow> int \<Rightarrow> int \<Rightarrow> int \<Rightarrow> db \<Rightarrow> error + db" where
  "insert_ledger_frozen wid btype bid etype amount after availDelta frozenDelta s =
     (let (i, s) = new_uuid s in
      insert_ledger_row \<lparr>l_id = i, l_wallet = wid, l_btype = btype, l_bid = bid, l_etype = etype,
        l_amount = amount, l_after = after, l_avail_delta = availDelta, l_frozen_delta = frozenDelta,
        l_frozen_after = 0, l_placement = None, l_remark = [], l_operator = None, l_at = clock s\<rparr> s)"

text \<open>\<^verbatim>\<open>INSERT INTO audit_logs\<close> for a known actor.\<close>

definition insert_audit :: "string \<Rightarrow> string \<Rightarrow> string \<Rightarrow> string \<Rightarrow> payload \<Rightarrow> db \<Rightarrow> error + db" where
  "insert_audit actor action targetType target p s =
     (let (i, s) = new_uuid s in
      if lookup (\<lambda>a. au_id a = i) (audit_logs s) \<noteq> None then Inl (DB Unique)
      else if user_by_id s actor = None then Inl (DB ForeignKey)
      else Inr (s\<lparr>audit_logs := audit_logs s @ [\<lparr>au_id = i, au_actor = Some actor, au_action = action,
                  au_target_type = targetType, au_target = target, au_payload = p\<rparr>]\<rparr>))"

section \<open>A small database\<close>

text \<open>
  Two players and a robot with a POINTS wallet each, the first funded by one ledger entry, and
  the global chat room: the state on which concrete runs are evaluated.
\<close>

definition sample_db :: db where
  "sample_db = empty_db\<lparr>clock := 1000,
     users := [\<lparr>u_id = ''alice'', u_status = ''active'', u_virtual = False, u_level = None, u_public_id = 10001,
                 u_name = ''Alice'', u_avatar = None\<rparr>,
               \<lparr>u_id = ''bob'', u_status = ''active'', u_virtual = False, u_level = Some 2, u_public_id = 10002,
                 u_name = ''Bob'', u_avatar = None\<rparr>,
               \<lparr>u_id = ''robot'', u_status = ''active'', u_virtual = True, u_level = None, u_public_id = 10003,
                 u_name = ''Robot'', u_avatar = None\<rparr>],
     currencies := [\<lparr>c_code = ''POINTS'', c_decimals = 3, c_enabled = True\<rparr>,
                    \<lparr>c_code = ''JADE'', c_decimals = 2, c_enabled = True\<rparr>],
     wallets := [\<lparr>w_id = ''wa'', w_user = ''alice'', w_currency = ''POINTS'', w_available = 1000, w_frozen = 0, w_version = 1, w_updated = 0\<rparr>,
                 \<lparr>w_id = ''wb'', w_user = ''bob'', w_currency = ''POINTS'', w_available = 0, w_frozen = 0, w_version = 0, w_updated = 0\<rparr>,
                 \<lparr>w_id = ''wr'', w_user = ''robot'', w_currency = ''POINTS'', w_available = 0, w_frozen = 0, w_version = 0, w_updated = 0\<rparr>,
                 \<lparr>w_id = ''wj'', w_user = ''alice'', w_currency = ''JADE'', w_available = 500, w_frozen = 0, w_version = 1, w_updated = 0\<rparr>],
     ledger := [\<lparr>l_id = ''l1'', l_wallet = ''wa'', l_btype = ''deposit'', l_bid = ''d1'', l_etype = ''deposit_credit'', l_amount = 1000,
                 l_after = 1000, l_avail_delta = 1000, l_frozen_delta = 0, l_frozen_after = 0, l_placement = None, l_remark = [],
                 l_operator = None, l_at = 0\<rparr>,
                \<lparr>l_id = ''l2'', l_wallet = ''wj'', l_btype = ''deposit'', l_bid = ''d2'', l_etype = ''deposit_credit'', l_amount = 500,
                 l_after = 500, l_avail_delta = 500, l_frozen_delta = 0, l_frozen_after = 0, l_placement = None, l_remark = [],
                 l_operator = None, l_at = 0\<rparr>],
     chat_rooms := [\<lparr>cr_id = ''lobby'', cr_type = ''global''\<rparr>]\<rparr>"

end
