(* ===== verification/Game_Rules.thy ===== *)
theory Game_Rules
  imports Store
begin

text \<open>
  Rules of a play: \<^verbatim>\<open>internal/domain/game/rules.go\<close> and \<^verbatim>\<open>lulu_play.go\<close>. A game type carries a
  JSON document with its outcome pool, its odds and its result source; it is parsed and checked
  every time a bet is placed and a round is settled. A selection is allowed when its \<^verbatim>\<open>pick\<close>
  names an outcome, and wins according to the mode of the rules. The theorems are the contract
  of the parser, the meaning of plain selections, and two selections that always win.
\<close>

section \<open>rules.go\<close>

record BetLimit =
  MinStakeMinor :: int
  MaxStakeMinor :: int

record Rules =
  Outcomes :: "string list"
  PayoutMultiplier :: int
  PayoutDivisor :: int
  BetLimits :: "(string \<times> BetLimit) list"
  MatchField :: string
  ResultCount :: int
  Source :: string
  Extras :: "json option"
  DodgeMode :: bool

definition dec_limit :: "BetLimit decoder" where
  "dec_limit j v =
     Option.bind (field ''min_stake_minor'' dec_int (MinStakeMinor v) j) (\<lambda>lo.
     Option.bind (field ''max_stake_minor'' dec_int (MaxStakeMinor v) j) (\<lambda>hi.
     Some \<lparr>MinStakeMinor = lo, MaxStakeMinor = hi\<rparr>))"

text \<open>\<^verbatim>\<open>json.Unmarshal(raw, &rules)\<close>; \<^verbatim>\<open>Extras\<close> keeps the document as it is.\<close>

definition decode_rules :: "json \<Rightarrow> Rules option" where
  "decode_rules j =
     Option.bind (field ''outcomes'' (dec_slice dec_string []) [] j) (\<lambda>outcomes.
     Option.bind (field ''payout_multiplier'' dec_int 0 j) (\<lambda>multiplier.
     Option.bind (field ''payout_divisor'' dec_int 0 j) (\<lambda>divisor.
     Option.bind (field ''bet_limits'' (dec_map dec_limit \<lparr>MinStakeMinor = 0, MaxStakeMinor = 0\<rparr>) [] j) (\<lambda>limits.
     Option.bind (field ''match_field'' dec_string [] j) (\<lambda>matchField.
     Option.bind (field ''result_count'' dec_int 0 j) (\<lambda>count.
     Option.bind (field ''source'' dec_string [] j) (\<lambda>source.
     Option.bind (field ''extras'' dec_raw None j) (\<lambda>extras.
     Option.bind (field ''dodge_mode'' dec_bool False j) (\<lambda>dodge.
     Some \<lparr>Outcomes = outcomes, PayoutMultiplier = multiplier, PayoutDivisor = divisor, BetLimits = limits,
           MatchField = matchField, ResultCount = count, Source = source, Extras = extras, DodgeMode = dodge\<rparr>)))))))))"

record luluExtras =
  ExternalGame :: string
  ResultMap :: "(string \<times> string list) list"
  LuluShared :: bool

definition decode_lulu_extras :: "json \<Rightarrow> luluExtras option" where
  "decode_lulu_extras j =
     Option.bind (field ''external_game'' dec_string [] j) (\<lambda>game.
     Option.bind (field ''result_map'' (dec_map (dec_slice dec_string []) []) [] j) (\<lambda>m.
     Option.bind (field ''lulu_shared'' dec_bool False j) (\<lambda>shared.
     Some \<lparr>ExternalGame = game, ResultMap = m, LuluShared = shared\<rparr>)))"

definition validateLuluExtras :: "Rules \<Rightarrow> error + unit" where
  "validateLuluExtras rules =
     (case Option.bind (Extras rules) decode_lulu_extras of
        None \<Rightarrow> Inl (Game ErrInvalidRules)
      | Some extras \<Rightarrow>
          if ExternalGame extras \<noteq> ''lh'' \<and> ExternalGame extras \<noteq> ''xdy'' \<and> ExternalGame extras \<noteq> ''race''
          then Inl (Game ErrInvalidRules)
          else if LuluShared extras then Inr ()
          else if ResultMap extras = [] then Inl (Game ErrInvalidRules)
          else if list_ex (\<lambda>e. trim_space (fst e) = [] \<or> snd e = [] \<or> \<not> list_all (\<lambda>o'. o' \<in> set (Outcomes rules)) (snd e))
                    (ResultMap extras)
          then Inl (Game ErrInvalidRules)
          else Inr ())"

text \<open>The loop over the outcomes: an empty value or one already seen is an error.\<close>

fun check_outcomes :: "string list \<Rightarrow> string list \<Rightarrow> error + unit" where
  "check_outcomes [] seen = Inr ()"
| "check_outcomes (outcome # rest) seen =
     (if outcome = [] then Inl (Game ErrInvalidRules)
      else if outcome \<in> set seen then Inl (Game ErrInvalidRules)
      else check_outcomes rest (outcome # seen))"

definition limit_invalid :: "string \<times> BetLimit \<Rightarrow> bool" where
  "limit_invalid e \<longleftrightarrow> trim_space (fst e) = [] \<or> MinStakeMinor (snd e) < 0 \<or> MaxStakeMinor (snd e) \<le> 0
     \<or> MinStakeMinor (snd e) > MaxStakeMinor (snd e)"

definition validateRules :: "Rules \<Rightarrow> error + unit" where
  "validateRules rules =
     (if Outcomes rules = [] then Inl (Game ErrInvalidRules)
      else bindE (check_outcomes (Outcomes rules) []) (\<lambda>_.
      if PayoutMultiplier rules \<le> 0 then Inl (Game ErrInvalidRules)
      else if PayoutDivisor rules < 0 then Inl (Game ErrInvalidRules)
      else if list_ex limit_invalid (BetLimits rules) then Inl (Game ErrInvalidRules)
      else if ResultCount rules < 0 \<or> ResultCount rules > int (length (Outcomes rules)) then Inl (Game ErrInvalidRules)
      else if Source rules = ''lulu_ws'' then validateLuluExtras rules
      else Inr ()))"

definition ParseRules :: "json option \<Rightarrow> error + Rules" where
  "ParseRules raw =
     (case raw of
        None \<Rightarrow> Inl (Game ErrInvalidRules)
      | Some j \<Rightarrow>
          (case decode_rules j of
             None \<Rightarrow> Inl (Game ErrInvalidRules)
           | Some rules \<Rightarrow> bindE (validateRules rules) (\<lambda>_. Inr rules)))"

definition PayoutScale :: "Rules \<Rightarrow> int" where
  "PayoutScale rules = (if PayoutDivisor rules \<le> 0 then 1 else PayoutDivisor rules)"

definition DrawCount :: "Rules \<Rightarrow> int" where
  "DrawCount rules = (if ResultCount rules \<le> 0 then 1 else ResultCount rules)"

text \<open>A document decoded into \<^verbatim>\<open>any\<close> is a Go map: of equal keys the last one counts.\<close>

fun last_wins :: "(string \<times> json) list \<Rightarrow> (string \<times> json) list" where
  "last_wins [] = []"
| "last_wins (e # r) = (if fst e \<in> fst ` set r then last_wins r else e # last_wins r)"

lemma last_wins_subset: "set (last_wins kvs) \<subseteq> set kvs"
  by (induction kvs) auto

lemma size_member: "e \<in> set kvs \<Longrightarrow> size (snd e) < Suc (size_list (size_prod (\<lambda>x. 0) size) kvs)"
  by (induction kvs) auto

function collectAllStrings :: "json \<Rightarrow> string list" where
  "collectAllStrings (JStr s) = [s]"
| "collectAllStrings (JArr js) = concat (map collectAllStrings js)"
| "collectAllStrings (JObj kvs) = concat (map (\<lambda>e. collectAllStrings (snd e)) (last_wins kvs))"
| "collectAllStrings JNull = []"
| "collectAllStrings (JBool b) = []"
| "collectAllStrings (JNum s) = []"
  by pat_completeness auto

termination
proof (relation "measure size", goal_cases)
  case (3 kvs e)
  then have "e \<in> set kvs" using last_wins_subset by blast
  then show ?case using size_member [of e kvs] by simp
qed (auto simp: less_Suc_eq_le intro: size_list_estimation')

text \<open>The value of \<^verbatim>\<open>object[path[0]]\<close>; a missing key is \<^verbatim>\<open>nil\<close>.\<close>

fun collectFieldStrings :: "json \<Rightarrow> string list \<Rightarrow> string list" where
  "collectFieldStrings v [] = collectAllStrings v"
| "collectFieldStrings v (k # path) =
     (case v of
        JObj kvs \<Rightarrow> (case map_of (last_wins kvs) k of None \<Rightarrow> collectFieldStrings JNull path | Some w \<Rightarrow> collectFieldStrings w path)
      | _ \<Rightarrow> [])"

definition SelectionWins :: "Rules \<Rightarrow> json \<Rightarrow> string list \<Rightarrow> bool" where
  "SelectionWins rules selection outcome =
     (let values = (if MatchField rules \<noteq> [] then collectFieldStrings selection (split_all dot (MatchField rules))
                    else collectAllStrings selection)
      in if DodgeMode rules then list_ex (\<lambda>v. ''dodge_'' @ v \<notin> set outcome) values
         else list_ex (\<lambda>v. v \<in> set outcome) values)"

definition SelectionAllowed :: "Rules \<Rightarrow> json \<Rightarrow> bool" where
  "SelectionAllowed rules selection =
     (case decode_pick (Some selection) of
        None \<Rightarrow> False
      | Some pick \<Rightarrow> pick \<noteq> [] \<and> list_ex (\<lambda>outcome. outcome = pick \<or> outcome = ''dodge_'' @ pick) (Outcomes rules))"

section \<open>lulu_play.go\<close>

record LuluPlay =
  PlayCode :: string
  PlayOutcomes :: "string list"
  PlayResultMap :: "(string \<times> string list) list"
  PlayDodge :: bool

definition mapped :: "(string \<times> string list) list \<Rightarrow> string \<Rightarrow> string list" where
  "mapped m k = (case map_of m k of None \<Rightarrow> [] | Some vs \<Rightarrow> vs)"

definition lulu_SelectionAllowed :: "LuluPlay \<Rightarrow> json \<Rightarrow> bool" where
  "lulu_SelectionAllowed play selection =
     (case decode_pick (Some selection) of
        None \<Rightarrow> False
      | Some pick \<Rightarrow> pick \<noteq> [] \<and> list_ex (\<lambda>outcome. pick = outcome \<or> outcome = ''dodge_'' @ pick) (PlayOutcomes play))"

definition lulu_SelectionWins :: "LuluPlay \<Rightarrow> json \<Rightarrow> string list \<Rightarrow> bool" where
  "lulu_SelectionWins play selection rawRooms =
     (case decode_pick (Some selection) of
        None \<Rightarrow> False
      | Some pick \<Rightarrow>
          if pick = [] then False
          else let winning = concat (map (mapped (PlayResultMap play)) rawRooms) in
               if PlayDodge play
               then (if has_prefix pick ''dodge_'' then pick else ''dodge_'' @ pick) \<notin> set winning
               else pick \<in> set winning)"


section \<open>Lemmas\<close>

text \<open>The contract of the parser: what \<^verbatim>\<open>Validate\<close> accepts.\<close>

definition lulu_ok :: "Rules \<Rightarrow> bool" where
  "lulu_ok r \<longleftrightarrow> (\<exists>e. Option.bind (Extras r) decode_lulu_extras = Some e \<and> ExternalGame e \<in> {''lh'', ''xdy'', ''race''}
     \<and> (LuluShared e \<or> ResultMap e \<noteq> [] \<and>
          (\<forall>m \<in> set (ResultMap e). trim_space (fst m) \<noteq> [] \<and> snd m \<noteq> [] \<and> set (snd m) \<subseteq> set (Outcomes r))))"

definition rules_ok :: "Rules \<Rightarrow> bool" where
  "rules_ok r \<longleftrightarrow> Outcomes r \<noteq> [] \<and> distinct (Outcomes r) \<and> [] \<notin> set (Outcomes r) \<and> 0 < PayoutMultiplier r \<and> 0 \<le> PayoutDivisor r
     \<and> (\<forall>l \<in> set (BetLimits r). trim_space (fst l) \<noteq> [] \<and> 0 \<le> MinStakeMinor (snd l) \<and> 0 < MaxStakeMinor (snd l)
            \<and> MinStakeMinor (snd l) \<le> MaxStakeMinor (snd l))
     \<and> 0 \<le> ResultCount r \<and> ResultCount r \<le> int (length (Outcomes r)) \<and> (Source r = ''lulu_ws'' \<longrightarrow> lulu_ok r)"

lemma check_outcomes_iff:
  "check_outcomes vs seen = Inr () \<longleftrightarrow> distinct vs \<and> [] \<notin> set vs \<and> set vs \<inter> set seen = {}"
  by (induction vs seen rule: check_outcomes.induct) auto

lemma check_outcomes_error: "check_outcomes vs seen = Inl e \<Longrightarrow> e = Game ErrInvalidRules"
  by (induction vs seen rule: check_outcomes.induct) (auto split: if_splits)

lemma validateLuluExtras_iff: "validateLuluExtras r = Inr () \<longleftrightarrow> lulu_ok r"
  by (auto simp: validateLuluExtras_def lulu_ok_def list_ex_iff list_all_iff subset_iff split: option.splits)

lemma validateRules_iff: "validateRules r = Inr () \<longleftrightarrow> rules_ok r"
  by (auto simp: validateRules_def rules_ok_def bindE_eq_Inr check_outcomes_iff validateLuluExtras_iff limit_invalid_def list_ex_iff not_less not_le)

lemma validateRules_error: "validateRules r = Inl e \<Longrightarrow> e = Game ErrInvalidRules"
  by (auto simp: validateRules_def validateLuluExtras_def bindE_eq_Inl dest: check_outcomes_error split: if_splits option.splits)

lemma ParseRules_iff: "ParseRules raw = Inr r \<longleftrightarrow> (\<exists>j. raw = Some j \<and> decode_rules j = Some r) \<and> rules_ok r"
  by (auto simp: ParseRules_def bindE_eq_Inr simp flip: validateRules_iff split: option.splits)

lemma ParseRules_ok: "ParseRules raw = Inr r \<Longrightarrow> rules_ok r"
  by (simp add: ParseRules_iff)

lemma rules_ok_counts: "rules_ok r \<Longrightarrow> 1 \<le> DrawCount r \<and> DrawCount r \<le> int (length (Outcomes r)) \<and> 0 < PayoutScale r"
  by (cases "Outcomes r") (auto simp: rules_ok_def DrawCount_def PayoutScale_def)

text \<open>Selections as the clients send them, and one with a second member.\<close>

definition pick_of :: "string \<Rightarrow> json" where
  "pick_of p = JObj [(''pick'', JStr p)]"

definition pick_with :: "string \<Rightarrow> string list \<Rightarrow> json" where
  "pick_with p vs = JObj [(''pick'', JStr p), (''also'', JArr (map JStr vs))]"

lemma also_not_pick: "\<not> equal_fold ''also'' ''pick''" "equal_fold ''pick'' ''pick''"
  by code_simp+

lemma decode_picks [simp]: "decode_pick (Some (pick_of p)) = Some p" "decode_pick (Some (pick_with p vs)) = Some p"
  by (simp_all add: pick_of_def pick_with_def decode_pick_def field_def members_def also_not_pick dec_string_def)

lemma collect_strings: "collectAllStrings (JArr (map JStr vs)) = vs"
  by (induction vs) auto

lemma collect_picks [simp]:
  "collectAllStrings (pick_of p) = [p]" "collectAllStrings (pick_with p vs) = p # vs"
  "collectFieldStrings (pick_of p) [''pick''] = [p]"
  using collect_strings [of vs] by (simp_all add: pick_of_def pick_with_def)

lemma split_pick: "split_all dot ''pick'' = [''pick'']"
  by code_simp

lemma has_prefix_append: "has_prefix (s @ t) s"
  by (induction s) auto

lemma SelectionWins_pick:
  "MatchField r \<in> {[], ''pick''} \<Longrightarrow>
   SelectionWins r (pick_of p) outcome \<longleftrightarrow> (if DodgeMode r then ''dodge_'' @ p \<notin> set outcome else p \<in> set outcome)"
  by (auto simp: SelectionWins_def split_pick simp del: collectFieldStrings.simps)

section \<open>Properties\<close>

text \<open>C37: A rules document is accepted exactly when it decodes to rules with a non-empty pool of distinct,
  non-empty outcomes, a positive multiplier, consistent limits, a draw count within the pool and, for the
  external source, usable extras; every other document is \<^verbatim>\<open>ErrInvalidRules\<close>. Accepted rules draw between
  one outcome and the whole pool, and their payout divides by a positive number.\<close>

theorem rules_contract:
  "(ParseRules raw = Inr r \<longleftrightarrow> (\<exists>j. raw = Some j \<and> decode_rules j = Some r) \<and> rules_ok r)
   \<and> (\<forall>e. ParseRules raw = Inl e \<longrightarrow> e = Game ErrInvalidRules)
   \<and> (ParseRules raw = Inr r \<longrightarrow> 1 \<le> DrawCount r \<and> DrawCount r \<le> int (length (Outcomes r)) \<and> 0 < PayoutScale r)"
proof -
  have "e = Game ErrInvalidRules" if "ParseRules raw = Inl e" for e
    using that by (auto simp: ParseRules_def bindE_eq_Inl dest: validateRules_error split: option.splits)
  then show ?thesis using ParseRules_iff [of raw r] rules_ok_counts by blast
qed

definition sample_rules_doc :: json where
  "sample_rules_doc = JObj [(''outcomes'', JArr [JStr ''odd'', JStr ''even'']), (''payout_multiplier'', JNum ''194''),
     (''payout_divisor'', JNum ''100'')]"

definition sample_rules :: Rules where
  "sample_rules = \<lparr>Outcomes = [''odd'', ''even''], PayoutMultiplier = 194, PayoutDivisor = 100, BetLimits = [], MatchField = [],
     ResultCount = 0, Source = [], Extras = None, DodgeMode = False\<rparr>"

lemma sample_rules_parse: "ParseRules (Some sample_rules_doc) = Inr sample_rules"
proof -
  have "case ParseRules (Some sample_rules_doc) of Inl _ \<Rightarrow> False | Inr r \<Rightarrow> r = sample_rules" by code_simp
  then show ?thesis by (auto split: sum.splits)
qed

theorem rules_contract_witness: "DrawCount sample_rules = 1 \<and> PayoutScale sample_rules = 100 \<and> rules_ok sample_rules"
  using rules_contract [of "Some sample_rules_doc" sample_rules] sample_rules_parse
  by (simp add: sample_rules_def PayoutScale_def DrawCount_def)

text \<open>a selection that is just a pick means what it says: it is allowed exactly when the pick or its dodge form
  is an outcome of the play, it wins a plain play exactly when the pick is drawn and a dodge play exactly when
  its dodge form is not, and a play of a shared external round agrees on the rooms it maps to themselves.\<close>

theorem plain_selection:
  assumes "p \<noteq> []" "MatchField r \<in> {[], ''pick''}"
  shows "(SelectionAllowed r (pick_of p) \<longleftrightarrow> p \<in> set (Outcomes r) \<or> ''dodge_'' @ p \<in> set (Outcomes r))
       \<and> (SelectionWins r (pick_of p) outcome \<longleftrightarrow> (if DodgeMode r then ''dodge_'' @ p \<notin> set outcome else p \<in> set outcome))
       \<and> (PlayOutcomes play = Outcomes r \<and> PlayDodge play = DodgeMode r \<and> \<not> has_prefix p ''dodge_''
            \<and> (\<forall>room \<in> set outcome. mapped (PlayResultMap play) room = [room])
          \<longrightarrow> lulu_SelectionAllowed play (pick_of p) = SelectionAllowed r (pick_of p)
            \<and> lulu_SelectionWins play (pick_of p) outcome = SelectionWins r (pick_of p) outcome)"
proof -
  have "set (concat (map (mapped (PlayResultMap play)) outcome)) = set outcome"
    if "\<forall>room \<in> set outcome. mapped (PlayResultMap play) room = [room]"
    using that by auto
  then show ?thesis using assms SelectionWins_pick [OF assms(2)]
    by (auto simp: SelectionAllowed_def lulu_SelectionAllowed_def lulu_SelectionWins_def list_ex_iff Let_def)
qed

theorem plain_selection_witness:
  "SelectionAllowed sample_rules (pick_of ''odd'') \<and> SelectionWins sample_rules (pick_of ''odd'') [''odd'']
   \<and> \<not> SelectionWins sample_rules (pick_of ''odd'') [''even'']"
  using plain_selection [of "''odd''" sample_rules "[''odd'']" "\<lparr>PlayCode = [], PlayOutcomes = [], PlayResultMap = [], PlayDodge = False\<rparr>"]
    plain_selection [of "''odd''" sample_rules "[''even'']" "\<lparr>PlayCode = [], PlayOutcomes = [], PlayResultMap = [], PlayDodge = False\<rparr>"]
  by (simp add: sample_rules_def)

text \<open>C38: Two selections that pass the check and cannot lose. \<^verbatim>\<open>SelectionAllowed\<close> looks only at \<^verbatim>\<open>pick\<close>, but rules
  without a match field compare every string of the selection: a selection that lists the whole pool beside an
  allowed pick wins every draw. In a dodge play the dodge form of a pick is allowed too, and as its own dodge
  form is never drawn it always wins; the shared external plays guard against exactly this.\<close>

theorem selection_never_loses:
  assumes "ParseRules raw = Inr r" "MatchField r = []" "outcome \<noteq> []" "set outcome \<subseteq> set (Outcomes r)" "p \<in> set (Outcomes r)"
  shows "(\<not> DodgeMode r \<longrightarrow> SelectionAllowed r (pick_with p (Outcomes r)) \<and> SelectionWins r (pick_with p (Outcomes r)) outcome)
       \<and> (DodgeMode r \<and> p = ''dodge_'' @ q \<and> ''dodge_'' @ p \<notin> set (Outcomes r) \<longrightarrow> SelectionAllowed r (pick_of p) \<and> SelectionWins r (pick_of p) outcome
            \<and> (p \<in> set outcome \<and> PlayDodge play \<and> (\<forall>room \<in> set outcome. mapped (PlayResultMap play) room = [room])
               \<longrightarrow> \<not> lulu_SelectionWins play (pick_of p) outcome))"
proof -
  have p: "p \<noteq> []" using ParseRules_ok [OF assms(1)] assms(5) by (auto simp: rules_ok_def)
  have "\<exists>o'. o' \<in> set outcome \<and> o' \<in> set (Outcomes r)" using assms(3,4) by (cases outcome) auto
  then have "SelectionWins r (pick_with p (Outcomes r)) outcome" if "\<not> DodgeMode r"
    using that assms(2) by (auto simp: SelectionWins_def list_ex_iff)
  moreover have "SelectionAllowed r (pick_of p)" "SelectionAllowed r (pick_with p (Outcomes r))"
    using assms(5) p by (auto simp: SelectionAllowed_def list_ex_iff)
  moreover have "SelectionWins r (pick_of p) outcome" if "DodgeMode r" "''dodge_'' @ p \<notin> set (Outcomes r)"
    using SelectionWins_pick [of r p outcome] assms(2,4) that by auto
  moreover have "\<not> lulu_SelectionWins play (pick_of p) outcome"
    if "p = ''dodge_'' @ q" "p \<in> set outcome" "PlayDodge play" "\<forall>room \<in> set outcome. mapped (PlayResultMap play) room = [room]"
    using that p has_prefix_append [of "''dodge_''" q] unfolding lulu_SelectionWins_def by (auto simp del: has_prefix.simps append.simps)
  ultimately show ?thesis by blast
qed

theorem selection_never_loses_witness:
  "SelectionAllowed sample_rules (pick_with ''odd'' [''odd'', ''even'']) \<and> SelectionWins sample_rules (pick_with ''odd'' [''odd'', ''even'']) [''odd'']
   \<and> SelectionWins sample_rules (pick_with ''odd'' [''odd'', ''even'']) [''even'']"
  using selection_never_loses [OF sample_rules_parse, of "[''odd'']" "''odd''"]
    selection_never_loses [OF sample_rules_parse, of "[''even'']" "''odd''"]
  by (simp add: sample_rules_def)

end
