(* ===== verification/Books.thy ===== *)
theory Books
  imports Store
begin

text \<open>
  The accounting invariant of the platform. \<open>replay\<close> walks the ledger of one wallet and checks
  every snapshot column on the way; \<open>books d s\<close> says that each wallet's balances are its
  replayed ledger plus the change \<open>d\<close> that a running transaction has written to the wallet row
  but not yet to the ledger. Between transactions \<open>d\<close> is zero: \<open>books_ok\<close>. The statements
  of \<^verbatim>\<open>Store\<close> are characterised once by how they move \<open>d\<close>; every money handler is then shown to
  keep the books by chaining those facts.
\<close>

named_theorems stmt \<open>what a successful statement leaves unchanged\<close>

section \<open>The invariant\<close>

definition entries :: "db \<Rightarrow> string \<Rightarrow> ledger_row list" where
  "entries s wid = filter (\<lambda>e. l_wallet e = wid) (ledger s)"

fun replay :: "int \<times> int \<Rightarrow> ledger_row list \<Rightarrow> (int \<times> int) option" where
  "replay (a, f) [] = Some (a, f)"
| "replay (a, f) (e # es) =
     (if l_after e = a + l_avail_delta e \<and> l_frozen_after e = f + l_frozen_delta e
      then replay (l_after e, l_frozen_after e) es else None)"

definition in_range :: "int \<Rightarrow> bool" where
  "in_range x \<longleftrightarrow> 0 \<le> x \<and> x \<le> max_int64"

definition wallets_ok :: "db \<Rightarrow> bool" where
  "wallets_ok s \<longleftrightarrow> distinct (map w_id (wallets s))
     \<and> distinct (map (\<lambda>w. (w_user w, w_currency w)) (wallets s))
     \<and> (\<forall>w \<in> set (wallets s). in_range (w_available w) \<and> in_range (w_frozen w))
     \<and> (\<forall>e \<in> set (ledger s). wallet_by_id s (l_wallet e) \<noteq> None)"

definition books :: "(string \<Rightarrow> int \<times> int) \<Rightarrow> db \<Rightarrow> bool" where
  "books d s \<longleftrightarrow> wallets_ok s \<and>
     (\<forall>w \<in> set (wallets s). replay (0, 0) (entries s (w_id w))
        = Some (w_available w - fst (d (w_id w)), w_frozen w - snd (d (w_id w))))"

definition books_ok :: "db \<Rightarrow> bool" where
  "books_ok s \<longleftrightarrow> books (\<lambda>_. (0, 0)) s"

section \<open>Generic facts\<close>

lemma replay_append: "replay p (es @ fs) = Option.bind (replay p es) (\<lambda>q. replay q fs)"
  by (induction p es rule: replay.induct) auto

lemma replay_sum:
  "replay (a, f) es = Some (a', f') \<Longrightarrow>
   a' = a + sum_list (map l_avail_delta es) \<and> f' = f + sum_list (map l_frozen_delta es)"
  by (induction es arbitrary: a f) (fastforce split: if_splits)+

lemma books_cong: "wallets s = wallets t \<Longrightarrow> ledger s = ledger t \<Longrightarrow> books d s = books d t"
  by (simp add: books_def wallets_ok_def entries_def wallet_by_id_def)

lemma wallet_by_id_mem: "wallet_by_id s i = Some w \<Longrightarrow> w \<in> set (wallets s) \<and> w_id w = i"
  by (auto simp: wallet_by_id_def dest: lookup_SomeD)

lemma wallet_of_mem: "wallet_of s u c = Some w \<Longrightarrow> w \<in> set (wallets s) \<and> w_user w = u \<and> w_currency w = c"
  by (auto simp: wallet_of_def dest: lookup_SomeD)

lemma wallet_of_by_id:
  assumes "wallets_ok s" "wallet_of s u c = Some w"
  shows "wallet_by_id s (w_id w) = Some w"
  using assms wallet_of_mem [OF assms(2)] lookup_key_unique [of w_id "wallets s" w]
  by (simp add: wallets_ok_def wallet_by_id_def)

lemma books_wallets_ok: "books d s \<Longrightarrow> wallets_ok s"
  by (simp add: books_def)

lemma books_ok_wallets_ok: "books_ok s \<Longrightarrow> wallets_ok s"
  by (simp add: books_ok_def books_def)

lemma wallets_ok_range:
  "wallets_ok s \<Longrightarrow> wallet_by_id s i = Some w \<Longrightarrow> in_range (w_available w) \<and> in_range (w_frozen w)"
  by (auto simp: wallets_ok_def dest: wallet_by_id_mem)

lemma wallet_of_range:
  "wallets_ok s \<Longrightarrow> wallet_of s u c = Some w \<Longrightarrow> in_range (w_available w) \<and> in_range (w_frozen w)"
  by (auto simp: wallets_ok_def dest: wallet_of_mem)

section \<open>Frames of the statements\<close>

lemma new_uuid_frame [simp]:
  "wallets (snd (new_uuid s)) = wallets s" "ledger (snd (new_uuid s)) = ledger s"
  "fst (new_uuid s) = uuids s (next_uuid s)"
  by (simp_all add: new_uuid_def)

lemma wallet_by_id_cong: "wallets s = wallets t \<Longrightarrow> wallet_by_id s i = wallet_by_id t i"
  by (simp add: wallet_by_id_def)

lemma wallet_lookups_uuid [simp]:
  "wallet_by_id (s\<lparr>next_uuid := n\<rparr>) i = wallet_by_id s i" "wallet_of (s\<lparr>next_uuid := n\<rparr>) u c = wallet_of s u c"
  by (simp_all add: wallet_by_id_def wallet_of_def)

lemma insert_outbox_Inr [stmt]:
  assumes "insert_outbox a b c p s = Inr s'"
  shows "\<exists>e. s' = s\<lparr>next_uuid := Suc (next_uuid s), outbox := outbox s @ [e]\<rparr>
       \<and> o_id e = uuids s (next_uuid s) \<and> o_agg_type e = a \<and> o_agg_id e = b \<and> o_type e = c \<and> o_payload e = p
       \<and> o_at e = clock s \<and> o_published e = None \<and> o_attempts e = 0 \<and> o_failed e = None"
  using assms by (auto simp: insert_outbox_def new_uuid_def Let_def split: if_splits)

definition wallet_update :: "string \<Rightarrow> int \<Rightarrow> int \<Rightarrow> db \<Rightarrow> db" where
  "wallet_update wid v f s = s\<lparr>wallets := modify (\<lambda>w. w_id w = wid)
     (\<lambda>w. w\<lparr>w_available := v, w_frozen := f, w_version := w_version w + 1, w_updated := clock s\<rparr>) (wallets s)\<rparr>"

lemma modify_key_cong:
  assumes "distinct (map k rs)" "r \<in> set rs" "g r = h r"
  shows "modify (\<lambda>x. k x = k r) g rs = modify (\<lambda>x. k x = k r) h rs"
  unfolding modify_def by (rule map_cong) (use assms distinct_key_eq in \<open>metis (full_types)\<close>)+

lemma set_available_Inr:
  assumes "wallets_ok s" "wallet_by_id s wid = Some w" "set_available wid v s = Inr s'"
  shows "0 \<le> v \<and> s' = wallet_update wid v (w_frozen w) s"
proof -
  have w: "w \<in> set (wallets s)" "w_id w = wid" using wallet_by_id_mem [OF assms(2)] by auto
  have "modify (\<lambda>x. w_id x = w_id w) (\<lambda>w. w\<lparr>w_available := v, w_version := w_version w + 1, w_updated := clock s\<rparr>) (wallets s)
      = modify (\<lambda>x. w_id x = w_id w) (\<lambda>u. u\<lparr>w_available := v, w_frozen := w_frozen w, w_version := w_version u + 1, w_updated := clock s\<rparr>) (wallets s)"
    using assms(1) w by (intro modify_key_cong) (auto simp: wallets_ok_def)
  then show ?thesis
    using assms w by (auto simp: set_available_def wallet_update_def split: if_splits)
qed

lemma set_balances_Inr:
  assumes "wallet_by_id s wid = Some w" "set_balances wid v f s = Inr s'"
  shows "0 \<le> v \<and> 0 \<le> f \<and> s' = wallet_update wid v f s"
  using assms by (auto simp: set_balances_def wallet_update_def split: if_splits)

lemma wallet_update_frame [simp]:
  "ledger (wallet_update wid v f s) = ledger s" "outbox (wallet_update wid v f s) = outbox s"
  "users (wallet_update wid v f s) = users s" "clock (wallet_update wid v f s) = clock s"
  "uuids (wallet_update wid v f s) = uuids s" "next_uuid (wallet_update wid v f s) = next_uuid s"
  by (simp_all add: wallet_update_def)

lemma wallet_by_id_update:
  assumes "wallet_by_id s wid = Some w"
  shows "wallet_by_id (wallet_update wid v f s) i =
    (if i = wid then Some (w\<lparr>w_available := v, w_frozen := f, w_version := w_version w + 1, w_updated := clock s\<rparr>)
     else wallet_by_id s i)"
  using assms by (auto simp: wallet_by_id_def wallet_update_def lookup_modify_key lookup_modify_other)

lemma wallets_ok_update:
  assumes "wallets_ok s" "in_range v" "in_range f"
  shows "wallets_ok (wallet_update wid v f s)"
proof -
  have "wallet_by_id s i \<noteq> None \<Longrightarrow> wallet_by_id (wallet_update wid v f s) i \<noteq> None" for i
    by (cases "i = wid") (auto simp: wallet_by_id_def wallet_update_def lookup_modify_key lookup_modify_other)
  then show ?thesis
    using assms unfolding wallets_ok_def by (auto simp: wallet_update_def map_modify_inv set_modify)
qed

section \<open>How the statements move the books\<close>

lemma books_wallet_update:
  assumes "books d s" "wallet_by_id s wid = Some w" "in_range v" "in_range f"
  shows "books (d(wid := (fst (d wid) + v - w_available w, snd (d wid) + f - w_frozen w))) (wallet_update wid v f s)"
proof -
  have ok: "wallets_ok s" using assms(1) by (rule books_wallets_ok)
  have uniq: "u = w" if "u \<in> set (wallets s)" "w_id u = wid" for u
    using that wallet_by_id_mem [OF assms(2)] ok distinct_key_eq [of w_id "wallets s" u w]
    by (auto simp: wallets_ok_def)
  show ?thesis
    using assms(1) uniq wallets_ok_update [OF ok assms(3,4)]
    unfolding books_def by (fastforce simp: wallet_update_def set_modify entries_def)
qed

lemma insert_ledger_row_Inr:
  assumes "insert_ledger_row e s = Inr s'"
  obtains w ev where "wallet_by_id s (l_wallet e) = Some w"
    "s' = s\<lparr>next_uuid := Suc (next_uuid s), ledger := ledger s @ [e\<lparr>l_frozen_after := w_frozen w\<rparr>], outbox := outbox s @ [ev]\<rparr>"
    "lookup (ledger_conflict (e\<lparr>l_frozen_after := w_frozen w\<rparr>)) (ledger s) = None"
    "o_type ev = ''wallet.ledger.committed''" "o_agg_id ev = l_id e"
proof -
  from assms obtain w where w: "wallet_by_id s (l_wallet e) = Some w"
    by (auto simp: insert_ledger_row_def split: option.splits)
  let ?e = "e\<lparr>l_frozen_after := w_frozen w\<rparr>"
  from assms w have c: "lookup (ledger_conflict ?e) (ledger s) = None"
    and "\<exists>p. insert_outbox ''ledger'' (l_id e) ''wallet.ledger.committed'' p (s\<lparr>ledger := ledger s @ [?e]\<rparr>) = Inr s'"
    by (auto simp: insert_ledger_row_def Let_def split: if_splits)
  then obtain ev where "s' = (s\<lparr>ledger := ledger s @ [?e]\<rparr>)\<lparr>next_uuid := Suc (next_uuid s), outbox := outbox s @ [ev]\<rparr>"
    "o_type ev = ''wallet.ledger.committed''" "o_agg_id ev = l_id e"
    using insert_outbox_Inr by fastforce
  with w c show thesis by (intro that [of w ev]) simp_all
qed

lemma books_insert_ledger_row:
  assumes "books d s" "insert_ledger_row e s = Inr s'" "wallet_by_id s (l_wallet e) = Some w"
    and "l_after e = w_available w" "d (l_wallet e) = (l_avail_delta e, l_frozen_delta e)"
  shows "books (d(l_wallet e := (0, 0))) s'"
proof -
  obtain w' ev where w': "wallet_by_id s (l_wallet e) = Some w'"
    and s': "s' = s\<lparr>next_uuid := Suc (next_uuid s), ledger := ledger s @ [e\<lparr>l_frozen_after := w_frozen w'\<rparr>], outbox := outbox s @ [ev]\<rparr>"
    using assms(2) by (rule insert_ledger_row_Inr)
  have "w' = w" using w' assms(3) by simp
  note s' = s' [unfolded this]
  have ok: "wallets_ok s" using assms(1) by (rule books_wallets_ok)
  then have ok': "wallets_ok s'"
    using assms(3) unfolding s' by (auto simp: wallets_ok_def wallet_by_id_def)
  have "replay (0, 0) (entries s' (w_id u)) =
      Some (w_available u - fst ((d(l_wallet e := (0, 0))) (w_id u)), w_frozen u - snd ((d(l_wallet e := (0, 0))) (w_id u)))"
    if u: "u \<in> set (wallets s')" for u
  proof (cases "w_id u = l_wallet e")
    case True
    then have "u = w"
      using u wallet_by_id_mem [OF assms(3)] ok distinct_key_eq [of w_id "wallets s" u w]
      by (auto simp: wallets_ok_def s')
    then show ?thesis
      using assms(1,4,5) u True by (auto simp: books_def s' entries_def replay_append)
  next
    case False
    then show ?thesis using assms(1) u by (auto simp: books_def s' entries_def)
  qed
  with ok' show ?thesis by (simp add: books_def)
qed

lemma books_insert_wallet:
  assumes "books d s" "insert_wallet wid u c s = Inr s'" "d wid = (0, 0)"
  shows "books d s' \<and> wallet_of s' u c = Some \<lparr>w_id = wid, w_user = u, w_currency = c, w_available = 0,
                  w_frozen = 0, w_version = 0, w_updated = clock s\<rparr>"
proof -
  let ?w = "\<lparr>w_id = wid, w_user = u, w_currency = c, w_available = 0, w_frozen = 0, w_version = 0, w_updated = clock s\<rparr>"
  have s': "s' = s\<lparr>wallets := wallets s @ [?w]\<rparr>" and n: "wallet_by_id s wid = None" "wallet_of s u c = None"
    using assms(2) by (auto simp: insert_wallet_def split: if_splits)
  have ok: "wallets_ok s" using assms(1) by (rule books_wallets_ok)
  have e: "entries s wid = []"
    using ok n(1) by (auto simp: wallets_ok_def entries_def filter_empty_conv)
  have d: "distinct (map w_id (wallets s'))" "distinct (map (\<lambda>w. (w_user w, w_currency w)) (wallets s'))"
    using ok n by (auto simp: wallets_ok_def s' wallet_by_id_def wallet_of_def lookup_None_iff)
  have r: "\<forall>w \<in> set (wallets s'). in_range (w_available w) \<and> in_range (w_frozen w)"
    using ok by (auto simp: wallets_ok_def s' in_range_def max_int64_def)
  have "\<forall>e \<in> set (ledger s'). wallet_by_id s' (l_wallet e) \<noteq> None"
    using ok by (auto simp: wallets_ok_def s' wallet_by_id_def lookup_append split: option.splits)
  with d r have ok': "wallets_ok s'" by (simp add: wallets_ok_def)
  have "\<forall>w \<in> set (wallets s'). replay (0, 0) (entries s' (w_id w))
      = Some (w_available w - fst (d (w_id w)), w_frozen w - snd (d (w_id w)))"
    using assms(1,3) e by (auto simp: books_def s' entries_def)
  with ok' have "books d s'" by (simp add: books_def)
  then show ?thesis using n(2) by (simp add: s' wallet_of_def lookup_append)
qed

section \<open>A balance change and its ledger entry\<close>

text \<open>
  Every handler that moves available funds writes the wallet row, touches other tables and
  inserts one ledger entry with the difference. \<open>moved s wid w v bt bid et s'\<close> is what such a
  pair of statements does to wallets and ledger.
\<close>

definition moved :: "db \<Rightarrow> wallet_row \<Rightarrow> int \<Rightarrow> string \<Rightarrow> string \<Rightarrow> string \<Rightarrow> db \<Rightarrow> bool" where
  "moved s w v bt bid et s' \<longleftrightarrow>
     wallets s' = wallets (wallet_update (w_id w) v (w_frozen w) s) \<and>
     (\<exists>e. ledger s' = ledger s @ [e] \<and> l_wallet e = w_id w \<and> l_btype e = bt \<and> l_bid e = bid \<and> l_etype e = et
        \<and> l_amount e = v - w_available w \<and> l_after e = v \<and> l_avail_delta e = v - w_available w \<and> l_frozen_delta e = 0
        \<and> l_frozen_after e = w_frozen w)"

lemma wallet_by_id_self: "wallet_by_id s i = Some w \<Longrightarrow> wallet_by_id s (w_id w) = Some w"
  using wallet_by_id_mem by fastforce

lemma insert_ledger_Inr:
  assumes "insert_ledger wid bt bid et amt aft s = Inr s'" "wallet_by_id s wid = Some w"
  shows "\<exists>e ev. s' = s\<lparr>next_uuid := Suc (Suc (next_uuid s)), ledger := ledger s @ [e], outbox := outbox s @ [ev]\<rparr>
    \<and> e = \<lparr>l_id = uuids s (next_uuid s), l_wallet = wid, l_btype = bt, l_bid = bid, l_etype = et,
        l_amount = amt, l_after = aft, l_avail_delta = amt, l_frozen_delta = 0,
        l_frozen_after = w_frozen w, l_placement = None, l_remark = [], l_operator = None, l_at = clock s\<rparr>
    \<and> lookup (ledger_conflict e) (ledger s) = None"
proof -
  let ?e = "\<lparr>l_id = uuids s (next_uuid s), l_wallet = wid, l_btype = bt, l_bid = bid, l_etype = et,
        l_amount = amt, l_after = aft, l_avail_delta = amt, l_frozen_delta = 0,
        l_frozen_after = 0, l_placement = None, l_remark = [], l_operator = None, l_at = clock s\<rparr>"
  have i: "insert_ledger_row ?e (s\<lparr>next_uuid := Suc (next_uuid s)\<rparr>) = Inr s'"
    using assms(1) by (simp add: insert_ledger_def new_uuid_def)
  obtain w' ev where w': "wallet_by_id (s\<lparr>next_uuid := Suc (next_uuid s)\<rparr>) (l_wallet ?e) = Some w'"
    and s': "s' = (s\<lparr>next_uuid := Suc (next_uuid s)\<rparr>)\<lparr>next_uuid := Suc (next_uuid (s\<lparr>next_uuid := Suc (next_uuid s)\<rparr>)),
      ledger := ledger (s\<lparr>next_uuid := Suc (next_uuid s)\<rparr>) @ [?e\<lparr>l_frozen_after := w_frozen w'\<rparr>],
      outbox := outbox (s\<lparr>next_uuid := Suc (next_uuid s)\<rparr>) @ [ev]\<rparr>"
    and c: "lookup (ledger_conflict (?e\<lparr>l_frozen_after := w_frozen w'\<rparr>)) (ledger (s\<lparr>next_uuid := Suc (next_uuid s)\<rparr>)) = None"
    using i by (rule insert_ledger_row_Inr)
  have "w' = w" using w' assms(2) by (simp add: wallet_by_id_def)
  then show ?thesis using s' c by (intro exI conjI) (simp_all)
qed

lemma movedI:
  assumes "wallets_ok s" "wallet_by_id s wid = Some w" "set_available wid v s = Inr s1"
    and "wallets s2 = wallets s1" "ledger s2 = ledger s1"
    and "insert_ledger wid bt bid et amt v s2 = Inr s3" "amt = v - w_available w"
  shows "moved s w v bt bid et s3"
proof -
  have id: "w_id w = wid" using wallet_by_id_mem [OF assms(2)] by simp
  have s1: "s1 = wallet_update wid v (w_frozen w) s" using set_available_Inr [OF assms(1,2,3)] by simp
  have "\<exists>u. wallet_by_id s2 wid = Some u \<and> w_frozen u = w_frozen w"
    using wallet_by_id_update [OF assms(2)] assms(4) by (simp add: s1 wallet_by_id_cong [OF assms(4)])
  then obtain u where u: "wallet_by_id s2 wid = Some u" "w_frozen u = w_frozen w" by blast
  show ?thesis
    using insert_ledger_Inr [OF assms(6) u(1)] assms(4,5,7) u(2) by (auto simp: moved_def s1 id)
qed

text \<open>The general form, which may also change the frozen balance.\<close>

definition shifted :: "db \<Rightarrow> wallet_row \<Rightarrow> int \<Rightarrow> int \<Rightarrow> db \<Rightarrow> bool" where
  "shifted s w v f s' \<longleftrightarrow>
     wallets s' = wallets (wallet_update (w_id w) v f s) \<and>
     (\<exists>e. ledger s' = ledger s @ [e] \<and> l_wallet e = w_id w \<and> l_after e = v \<and> l_avail_delta e = v - w_available w
        \<and> l_frozen_delta e = f - w_frozen w \<and> l_frozen_after e = f)"

lemma shifted_books:
  assumes "books_ok s" "wallet_by_id s (w_id w) = Some w" "shifted s w v f s'" "in_range v" "in_range f"
  shows "books_ok s'"
proof -
  have b: "books ((\<lambda>_. (0, 0))(w_id w := (v - w_available w, f - w_frozen w))) (wallet_update (w_id w) v f s)"
    using books_wallet_update [OF assms(1) [unfolded books_ok_def] assms(2,4,5)] by simp
  obtain e where e: "ledger s' = ledger s @ [e]" "l_wallet e = w_id w" "l_after e = v"
    "l_avail_delta e = v - w_available w" "l_frozen_delta e = f - w_frozen w" "l_frozen_after e = f"
    and ws: "wallets s' = wallets (wallet_update (w_id w) v f s)"
    using assms(3) by (auto simp: shifted_def)
  let ?t = "wallet_update (w_id w) v f s"
  have wt: "wallet_by_id ?t (w_id w) \<noteq> None" using wallet_by_id_update [OF assms(2)] by simp
  have tok: "wallets_ok ?t" using b by (rule books_wallets_ok)
  have ok': "wallets_ok s'"
    using tok wt unfolding wallets_ok_def by (auto simp: e ws wallet_by_id_cong [OF ws])
  have "replay (0, 0) (entries s' (w_id u)) = Some (w_available u, w_frozen u)" if u: "u \<in> set (wallets s')" for u
  proof (cases "w_id u = w_id w")
    case True
    have "wallet_by_id ?t (w_id u) = Some u"
      using lookup_key_unique [of w_id "wallets ?t" u] u tok by (simp add: wallets_ok_def ws wallet_by_id_def)
    then have u': "w_available u = v" "w_frozen u = f"
      using wallet_by_id_update [OF assms(2), of v f "w_id u"] True by auto
    have "replay (0, 0) (entries ?t (w_id u)) = Some (w_available w, w_frozen w)"
      using b u True u' by (auto simp: books_def ws)
    then show ?thesis using e u' True by (simp add: entries_def replay_append)
  next
    case False
    then show ?thesis using b u e by (auto simp: books_def ws entries_def)
  qed
  with ok' show ?thesis by (simp add: books_ok_def books_def)
qed

lemma moved_shifted: "moved s w v bt bid et s' \<Longrightarrow> shifted s w v (w_frozen w) s'"
  by (auto simp: moved_def shifted_def)

lemma moved_books:
  assumes "books_ok s" "wallet_by_id s (w_id w) = Some w" "moved s w v bt bid et s'" "in_range v"
  shows "books_ok s'"
  using shifted_books [OF assms(1,2) moved_shifted [OF assms(3)] assms(4)]
    wallets_ok_range [OF books_ok_wallets_ok [OF assms(1)] assms(2)] by simp

lemma moved_wallet:
  assumes "wallet_by_id s (w_id w) = Some w" "moved s w v bt bid et s'"
  shows "wallet_by_id s' i = (if i = w_id w then Some (w\<lparr>w_available := v, w_version := w_version w + 1, w_updated := clock s\<rparr>)
         else wallet_by_id s i)"
proof -
  have "w\<lparr>w_frozen := w_frozen w\<rparr> = w" by simp
  then show ?thesis
    using wallet_by_id_update [OF assms(1), of v "w_frozen w" i] assms(2) wallet_by_id_cong [of s']
    by (simp add: moved_def)
qed

lemma wallet_of_update:
  "wallet_of (wallet_update wid v f s) u c =
     map_option (\<lambda>w. if w_id w = wid then w\<lparr>w_available := v, w_frozen := f, w_version := w_version w + 1, w_updated := clock s\<rparr> else w)
       (wallet_of s u c)"
  by (simp add: wallet_of_def wallet_update_def lookup_modify_pres)

lemma moved_wallet_of:
  assumes "wallets_ok s" "wallet_of s u c = Some w" "moved s w v bt bid et s'"
  shows "wallet_of s' u' c' = (if (u', c') = (u, c) then Some (w\<lparr>w_available := v, w_version := w_version w + 1, w_updated := clock s\<rparr>)
         else wallet_of s u' c')"
proof -
  have e: "wallet_of s' u' c' = wallet_of (wallet_update (w_id w) v (w_frozen w) s) u' c'"
    using assms(3) by (simp add: moved_def wallet_of_def)
  have "x = w" if "wallet_of s u' c' = Some x" "w_id x = w_id w" for x
    using that assms(1) wallet_of_mem [OF that(1)] wallet_of_mem [OF assms(2)] distinct_key_eq [of w_id "wallets s" x w]
    by (auto simp: wallets_ok_def)
  moreover have "w_user w = u" "w_currency w = c" using wallet_of_mem [OF assms(2)] by auto
  ultimately show ?thesis
    unfolding e wallet_of_update
    by (cases "wallet_of s u' c'") (use assms(2) in \<open>auto dest: wallet_of_mem\<close>)
qed

lemma books_move:
  assumes "books_ok s" "wallet_by_id s wid = Some w" "set_available wid v s = Inr s1" "v \<le> max_int64"
    and "wallets s2 = wallets s1" "ledger s2 = ledger s1"
    and "insert_ledger wid bt bid et amt v s2 = Inr s3" "amt = v - w_available w"
  shows "books_ok s3"
proof -
  have ok: "wallets_ok s" using assms(1) by (rule books_ok_wallets_ok)
  have "in_range v" using set_available_Inr [OF ok assms(2,3)] assms(4) by (simp add: in_range_def)
  moreover have "moved s w v bt bid et s3" by (rule movedI [OF ok assms(2,3,5,6,7,8)])
  ultimately show ?thesis using moved_books [OF assms(1) wallet_by_id_self [OF assms(2)]] by blast
qed

lemma books_ok_cong: "books_ok s \<Longrightarrow> wallets s' = wallets s \<Longrightarrow> ledger s' = ledger s \<Longrightarrow> books_ok s'"
  unfolding books_ok_def using books_cong by metis

section \<open>Tables a posting leaves alone\<close>

definition money_only :: "db \<Rightarrow> db \<Rightarrow> bool" where
  "money_only s s' \<longleftrightarrow> s' = s\<lparr>wallets := wallets s', ledger := ledger s', outbox := outbox s', next_uuid := next_uuid s'\<rparr>"

lemma money_onlyD:
  assumes "money_only s s'"
  shows "clock s' = clock s" "uuids s' = uuids s" "users s' = users s" "user_roles s' = user_roles s" "currencies s' = currencies s"
    "chat_rooms s' = chat_rooms s" "chat_members s' = chat_members s" "red_packets s' = red_packets s"
    "packet_claims s' = packet_claims s" "game_types s' = game_types s" "rounds s' = rounds s" "bets s' = bets s"
    "placements s' = placements s" "game_rooms s' = game_rooms s" "game_room_types s' = game_room_types s"
    "hash_configs s' = hash_configs s" "lulu_plays s' = lulu_plays s" "lulu_prices s' = lulu_prices s"
    "prime_prices s' = prime_prices s" "agent_parents s' = agent_parents s" "agent_rates s' = agent_rates s"
    "commissions s' = commissions s" "room_rebates s' = room_rebates s" "snapshots s' = snapshots s"
    "allocations s' = allocations s" "audit_logs s' = audit_logs s" "chain_addresses s' = chain_addresses s" "deposits s' = deposits s"
    "withdrawals s' = withdrawals s" "assets s' = assets s" "webhooks s' = webhooks s"
    "draws s' = draws s" "voids s' = voids s"
    "task_configs s' = task_configs s" "task_progress s' = task_progress s" "task_claims s' = task_claims s"
    "robot_plans s' = robot_plans s" "adjustments s' = adjustments s" "point_withdrawals s' = point_withdrawals s"
    "spin_configs s' = spin_configs s" "spin_records s' = spin_records s"
  by (subst assms [unfolded money_only_def], simp)+

lemma money_only_refl [simp]: "money_only s s"
  by (simp add: money_only_def)

lemma money_only_trans: "money_only s t \<Longrightarrow> money_only t u \<Longrightarrow> money_only s u"
  unfolding money_only_def by (cases s; cases t; cases u) simp

lemma insert_outbox_money_only:
  assumes "insert_outbox a b c p s = Inr s'"
  shows "money_only s s' \<and> wallets s' = wallets s \<and> ledger s' = ledger s"
  using insert_outbox_Inr [OF assms] by (auto simp: money_only_def)

lemma set_available_money_only:
  "set_available wid v s = Inr s' \<Longrightarrow> money_only s s' \<and> ledger s' = ledger s"
  by (auto simp: set_available_def money_only_def split: if_splits)

lemma set_balances_money_only:
  "set_balances wid v f s = Inr s' \<Longrightarrow> money_only s s' \<and> ledger s' = ledger s"
  by (auto simp: set_balances_def money_only_def split: if_splits)

lemma insert_wallet_money_only:
  "insert_wallet wid u c s = Inr s' \<Longrightarrow> money_only s s' \<and> ledger s' = ledger s"
  by (auto simp: insert_wallet_def money_only_def split: if_splits)

lemma insert_ledger_row_money_only:
  assumes "insert_ledger_row e s = Inr s'"
  shows "money_only s s' \<and> wallets s' = wallets s"
  using assms by (elim insert_ledger_row_Inr) (simp add: money_only_def)

lemma insert_ledger_money_only:
  assumes "insert_ledger wid bt bid et amt aft s = Inr s'"
  shows "money_only s s' \<and> wallets s' = wallets s"
proof -
  obtain e where "insert_ledger_row e (s\<lparr>next_uuid := Suc (next_uuid s)\<rparr>) = Inr s'"
    using assms by (auto simp: insert_ledger_def new_uuid_def)
  from insert_ledger_row_money_only [OF this] show ?thesis
    by (auto simp: money_only_def)
qed

lemma insert_ledger_frozen_money_only:
  assumes "insert_ledger_frozen wid bt bid et amt aft ad fd s = Inr s'"
  shows "money_only s s' \<and> wallets s' = wallets s"
proof -
  obtain e where "insert_ledger_row e (s\<lparr>next_uuid := Suc (next_uuid s)\<rparr>) = Inr s'"
    using assms by (auto simp: insert_ledger_frozen_def new_uuid_def)
  from insert_ledger_row_money_only [OF this] show ?thesis
    by (auto simp: money_only_def)
qed

lemma shiftedI:
  assumes "wallet_by_id s wid = Some w" "s1 = wallet_update wid v f s"
    and "wallets s2 = wallets s1" "ledger s2 = ledger s1"
    and "insert_ledger_frozen wid bt bid et amt v ad fd s2 = Inr s3" "ad = v - w_available w" "fd = f - w_frozen w"
  shows "shifted s w v f s3"
proof -
  have id: "w_id w = wid" using wallet_by_id_mem [OF assms(1)] by simp
  obtain u where u: "wallet_by_id s2 wid = Some u" "w_frozen u = f"
    using wallet_by_id_update [OF assms(1), of v f wid] wallet_by_id_cong [OF assms(3)] assms(2) by simp
  let ?e = "\<lparr>l_id = uuids s2 (next_uuid s2), l_wallet = wid, l_btype = bt, l_bid = bid, l_etype = et,
        l_amount = amt, l_after = v, l_avail_delta = ad, l_frozen_delta = fd,
        l_frozen_after = 0, l_placement = None, l_remark = [], l_operator = None, l_at = clock s2\<rparr>"
  have i: "insert_ledger_row ?e (s2\<lparr>next_uuid := Suc (next_uuid s2)\<rparr>) = Inr s3"
    using assms(5) by (simp add: insert_ledger_frozen_def new_uuid_def)
  obtain w' ev where w': "wallet_by_id (s2\<lparr>next_uuid := Suc (next_uuid s2)\<rparr>) (l_wallet ?e) = Some w'"
    and s3: "s3 = (s2\<lparr>next_uuid := Suc (next_uuid s2)\<rparr>)\<lparr>next_uuid := Suc (next_uuid (s2\<lparr>next_uuid := Suc (next_uuid s2)\<rparr>)),
      ledger := ledger (s2\<lparr>next_uuid := Suc (next_uuid s2)\<rparr>) @ [?e\<lparr>l_frozen_after := w_frozen w'\<rparr>],
      outbox := outbox (s2\<lparr>next_uuid := Suc (next_uuid s2)\<rparr>) @ [ev]\<rparr>"
    using i by (rule insert_ledger_row_Inr)
  have "w' = u" using w' u(1) by (simp add: wallet_by_id_def)
  then show ?thesis using s3 assms(2-4,6,7) u(2) by (simp add: shifted_def id)
qed

lemma insert_audit_frame:
  "insert_audit a ac tt ti p s = Inr s' \<Longrightarrow> wallets s' = wallets s \<and> ledger s' = ledger s"
  by (auto simp: insert_audit_def new_uuid_def Let_def split: if_splits)

lemmas money_only_stmts = insert_outbox_money_only set_available_money_only set_balances_money_only
  insert_wallet_money_only insert_ledger_row_money_only insert_ledger_money_only insert_ledger_frozen_money_only

lemma moved_cong: "wallets s = wallets t \<Longrightarrow> ledger s = ledger t \<Longrightarrow> clock s = clock t \<Longrightarrow> moved s w v bt bid et s' = moved t w v bt bid et s'"
  by (simp add: moved_def wallet_update_def)

lemma moved_cong2: "wallets s' = wallets t' \<Longrightarrow> ledger s' = ledger t' \<Longrightarrow> moved s w v bt bid et s' = moved s w v bt bid et t'"
  by (simp add: moved_def)

text \<open>The usual ending of a handler: wallet update, ledger entry, event.\<close>

lemma post_event:
  assumes "wallets_ok s" "wallet_by_id s wid = Some w" "set_available wid v s = Inr s1"
    and "insert_ledger wid bt bid et amt v s1 = Inr s2" "amt = v - w_available w" "insert_outbox a b c p s2 = Inr s3"
  shows "0 \<le> v \<and> moved s w v bt bid et s3 \<and> money_only s s3"
proof -
  have "moved s w v bt bid et s2" using movedI [OF assms(1,2,3) refl refl assms(4,5)] .
  then have "moved s w v bt bid et s3" using insert_outbox_money_only [OF assms(6)] moved_cong2 by metis
  moreover have "money_only s s3"
    using money_only_stmts(1) [OF assms(6)] money_only_stmts(2) [OF assms(3)] money_only_stmts(6) [OF assms(4)] money_only_trans by blast
  ultimately show ?thesis using set_available_Inr [OF assms(1-3)] by simp
qed

text \<open>The balance an account sees.\<close>

definition balance_of :: "db \<Rightarrow> string \<Rightarrow> string \<Rightarrow> int" where
  "balance_of s u c = (case wallet_of s u c of None \<Rightarrow> 0 | Some w \<Rightarrow> w_available w)"

section \<open>Money held in one currency\<close>

definition held :: "db \<Rightarrow> string \<Rightarrow> int" where
  "held s c = sum_list (map (\<lambda>w. if w_currency w = c then w_available w else 0) (wallets s))"

lemma sum_modify:
  fixes f :: "'r \<Rightarrow> int"
  assumes "distinct (map k rs)" "r \<in> set rs"
  shows "sum_list (map f (modify (\<lambda>x. k x = k r) g rs)) = sum_list (map f rs) + f (g r) - f r"
  using assms
proof (induction rs)
  case Nil
  then show ?case by simp
next
  case (Cons x rs)
  show ?case
  proof (cases "x = r")
    case True
    then have "\<And>y. y \<in> set rs \<Longrightarrow> k y \<noteq> k r" using Cons.prems(1) by (auto simp: image_iff)
    then have "modify (\<lambda>x. k x = k r) g rs = rs" by (rule modify_none)
    then show ?thesis using True by simp
  next
    case False
    then have "r \<in> set rs" "k x \<noteq> k r" using Cons.prems by auto
    then show ?thesis using Cons by simp
  qed
qed

lemma moved_held:
  assumes "wallets_ok s" "wallet_by_id s (w_id w) = Some w" "moved s w v bt bid et s'"
  shows "held s' c = held s c + (if w_currency w = c then v - w_available w else 0)"
proof -
  have "w \<in> set (wallets s)" using wallet_by_id_mem [OF assms(2)] by simp
  then show ?thesis
    using assms(1,3) sum_modify [of w_id "wallets s" w]
    by (simp add: held_def moved_def wallet_update_def wallets_ok_def)
qed

lemma books_ok_balance:
  assumes "books_ok s" "wallet_by_id s i = Some w"
  shows "w_available w = sum_list (map l_avail_delta (entries s i)) \<and> w_frozen w = sum_list (map l_frozen_delta (entries s i))"
proof -
  have "replay (0, 0) (entries s i) = Some (w_available w, w_frozen w)"
    using assms(1) wallet_by_id_mem [OF assms(2)] by (auto simp: books_ok_def books_def)
  then show ?thesis by (auto dest: replay_sum)
qed

section \<open>Handlers that keep the books\<close>

text \<open>A call whose error is reported leaves the database as it was.\<close>

definition attempt :: "'r tx \<Rightarrow> db \<Rightarrow> db" where
  "attempt f s = (case f s of Inl e \<Rightarrow> s | Inr (r, s') \<Rightarrow> s')"

text \<open>The contract every money handler meets; \<open>'x\<close> are its arguments.\<close>

locale money_handler =
  fixes run :: "'x \<Rightarrow> 'r tx"
  assumes keeps_books: "books_ok s \<Longrightarrow> run x s = Inr (r, s') \<Longrightarrow> books_ok s'"
begin

lemma attempt_books: "books_ok s \<Longrightarrow> books_ok (attempt (run x) s)"
  by (auto simp: attempt_def keeps_books split: sum.splits)

lemma attempts_books: "books_ok s \<Longrightarrow> books_ok (fold (\<lambda>x. attempt (run x)) xs s)"
  by (induction xs arbitrary: s) (auto simp: attempt_books)

text \<open>Whatever the calls and their errors, the ledger still adds up: the balance of a wallet is
  the sum of its ledger deltas.\<close>

lemma attempts_balance:
  assumes "books_ok s" "wallet_by_id (fold (\<lambda>x. attempt (run x)) xs s) i = Some w"
  shows "w_available w = sum_list (map l_avail_delta (entries (fold (\<lambda>x. attempt (run x)) xs s) i))
       \<and> w_frozen w = sum_list (map l_frozen_delta (entries (fold (\<lambda>x. attempt (run x)) xs s) i))"
  using books_ok_balance [OF attempts_books [OF assms(1)] assms(2)] .

end

lemma sample_books_ok: "books_ok sample_db"
  by (simp add: books_ok_def books_def wallets_ok_def sample_db_def empty_db_def in_range_def max_int64_def
      wallet_by_id_def entries_def)

end
