(* ===== verification/Game_Rounds.thy ===== *)
theory Game_Rounds
  imports Game_Rules Books
begin

text \<open>
  Rounds: \<^verbatim>\<open>internal/domain/game/round.go\<close>, \<^verbatim>\<open>activation.go\<close> and \<^verbatim>\<open>postgres.go\<close>. The scheduler prepares
  rounds, opens the first unfinished one of a game, closes what is due; the queries serve the
  game page. Instants are microseconds, as PostgreSQL keeps them; a \<^verbatim>\<open>time.Duration\<close> of \<open>n\<close>
  seconds is \<open>seconds n\<close>, whose nanoseconds are a 64-bit integer. The theorems: the scheduler
  always returns, targets lie ahead of the chain, and a game never has two open rounds.
\<close>

section \<open>round.go\<close>

record Round =
  RoundID :: string
  GameType :: string
  Sequence :: int
  Status :: round_status
  BetClosesAt :: int
  ResultAt :: int
  SettledAt :: "int option"
  Outcome :: "string list"

definition Close :: "int \<Rightarrow> Round \<Rightarrow> error + Round" where
  "Close now round =
     (if Status round \<noteq> RoundOpen \<or> now < BetClosesAt round then Inl (Game ErrInvalidTransition)
      else Inr (round\<lparr>Status := RoundClosed\<rparr>))"

definition round_BeginSettlement :: "Round \<Rightarrow> error + Round" where
  "round_BeginSettlement round =
     (if Status round \<noteq> RoundClosed then Inl (Game ErrInvalidTransition)
      else Inr (round\<lparr>Status := RoundSettling\<rparr>))"

definition CompleteSettlement :: "string list \<Rightarrow> int \<Rightarrow> Round \<Rightarrow> error + Round" where
  "CompleteSettlement outcome settledAt round =
     (if Status round \<noteq> RoundSettling \<or> outcome = [] then Inl (Game ErrInvalidTransition)
      else Inr (round\<lparr>Status := RoundSettled, Outcome := outcome, SettledAt := Some settledAt\<rparr>))"

definition CanAcceptBet :: "int \<Rightarrow> Round \<Rightarrow> bool" where
  "CanAcceptBet now round \<longleftrightarrow> Status round = RoundOpen \<and> now < BetClosesAt round"

definition ValidateBet :: "int \<Rightarrow> int \<Rightarrow> Round \<Rightarrow> error + unit" where
  "ValidateBet stakeMinor now round =
     (if stakeMinor \<le> 0 then Inl (Game ErrInvalidStake)
      else if \<not> CanAcceptBet now round then Inl (Game ErrBettingClosed)
      else Inr ())"

section \<open>activation.go\<close>

definition unfinished :: "round_row \<Rightarrow> bool" where
  "unfinished r \<longleftrightarrow> r_status r \<in> {RoundScheduled, RoundOpen, RoundClosed, RoundSettling}"

definition blocked :: "round_row \<Rightarrow> db \<Rightarrow> bool" where
  "blocked r s \<longleftrightarrow> list_ex (\<lambda>p. r_type p = r_type r \<and> r_seq p < r_seq r \<and> unfinished p) (rounds s)"

text \<open>One UPDATE: which rounds it opens is decided on the rows before it.\<close>

definition activateScheduledRounds :: "int \<Rightarrow> db \<Rightarrow> db" where
  "activateScheduledRounds now s =
     s\<lparr>rounds := modify (\<lambda>r. r_status r = RoundScheduled \<and> r_closes r > now
                      \<and> list_ex (\<lambda>g. gt_id g = r_type r \<and> gt_enabled g) (game_types s) \<and> \<not> blocked r s)
                    (\<lambda>r. r\<lparr>r_status := RoundOpen, r_version := r_version r + 1\<rparr>) (rounds s)\<rparr>"

definition ActivateScheduledRounds :: "int \<Rightarrow> unit tx" where
  "ActivateScheduledRounds now s = Inr ((), activateScheduledRounds now s)"

section \<open>postgres.go: the scheduler\<close>

definition seconds :: "int \<Rightarrow> int" where
  "seconds n = wrap64 (n * 1000000000) div 1000"

definition minute :: int where
  "minute = 60000000"

definition nextTronTarget :: "int \<Rightarrow> int \<Rightarrow> int" where
  "nextTronTarget currentHeight interval =
     (if currentHeight \<le> 0 \<or> interval \<le> 0 then 0
      else wrap64 (wrap64 (go_div currentHeight interval + 1) * interval))"

record scheduledType =
  st_id :: string
  st_interval :: int
  st_source :: string
  st_close :: int

text \<open>The enabled games that are played in an enabled room and scheduled by a block height or by the minute.\<close>

definition scheduled_types :: "db \<Rightarrow> scheduledType list" where
  "scheduled_types s =
     map (\<lambda>g. \<lparr>st_id = gt_id g, st_interval = (case gt_interval g of None \<Rightarrow> 0 | Some i \<Rightarrow> i),
            st_source = (case json_text (gt_rules g) ''source'' of None \<Rightarrow> [] | Some t \<Rightarrow> t),
            st_close = seconds (gt_close_before g)\<rparr>)
       (sort_key (\<lambda>g. map code (gt_code g))
         (filter (\<lambda>g. gt_enabled g
              \<and> (list_ex (\<lambda>room. Some (gr_id room) = gt_room g \<and> gr_enabled room) (game_rooms s)
                 \<or> list_ex (\<lambda>rt. snd rt = gt_id g \<and> list_ex (\<lambda>room. gr_id room = fst rt \<and> gr_enabled room) (game_rooms s)) (game_room_types s))
              \<and> ((json_text (gt_rules g) ''source'' = Some ''tron_hash'' \<and> (case gt_interval g of None \<Rightarrow> False | Some i \<Rightarrow> i > 0))
                 \<or> json_text (gt_rules g) ''source'' = Some ''okx_kline''))
           (game_types s)))"

definition rounds_of :: "string \<Rightarrow> db \<Rightarrow> round_row list" where
  "rounds_of t s = filter (\<lambda>r. r_type r = t) (rounds s)"

definition last_sequence :: "string \<Rightarrow> db \<Rightarrow> int" where
  "last_sequence t s = (case rounds_of t s of [] \<Rightarrow> 0 | rs \<Rightarrow> Max (set (map r_seq rs)))"

definition last_result :: "string \<Rightarrow> db \<Rightarrow> int option" where
  "last_result t s = (case rounds_of t s of [] \<Rightarrow> None | rs \<Rightarrow> Some (Max (set (map r_result_at rs))))"

definition cycle_of :: "scheduledType \<Rightarrow> int" where
  "cycle_of item = (if st_source item = ''tron_hash'' then seconds (st_interval item * 3) else minute)"

text \<open>The first sequence and result time to create: \<open>None\<close> where the loop skips the game (\<^verbatim>\<open>continue\<close>).\<close>

definition first_round :: "int \<Rightarrow> int \<Rightarrow> int option \<Rightarrow> scheduledType \<Rightarrow> db \<Rightarrow> (int \<times> int) option" where
  "first_round now tronHeight tronBlockAt item s =
     (let cycle = cycle_of item; lastSequence = last_sequence (st_id item) s in
      if st_source item = ''tron_hash'' then
        (if tronHeight \<le> 0 then None
         else let target = nextTronTarget tronHeight (st_interval item);
                  nextSequence = (if lastSequence \<ge> target then wrap64 (lastSequence + st_interval item) else target);
                  blockDistance = wrap64 (nextSequence - tronHeight);
                  referenceTime = (case tronBlockAt of None \<Rightarrow> now | Some t \<Rightarrow> t);
                  nextResult = referenceTime + seconds (wrap64 (blockDistance * 3))
              in if nextResult - st_close item > now then Some (nextSequence, nextResult)
                 else Some (wrap64 (nextSequence + st_interval item), nextResult + cycle))
      else if st_source item = ''okx_kline'' then
        (let nextSequence = wrap64 (lastSequence + 1) in
         case last_result (st_id item) s of
           None \<Rightarrow>
             (let nextResult = now - now mod minute + minute
              in Some (nextSequence, if nextResult - st_close item > now then nextResult else nextResult + minute))
         | Some lastResult \<Rightarrow>
             (let nextResult = lastResult + cycle
              in if nextResult - st_close item > now then Some (nextSequence, nextResult)
                 else let skipped = go_div (now - (nextResult - st_close item)) cycle + 1
                      in Some (wrap64 (nextSequence + skipped), nextResult + skipped * cycle)))
      else Some (wrap64 (lastSequence + 1), now + cycle))"

text \<open>\<^verbatim>\<open>INSERT INTO rounds ... ON CONFLICT(game_type_id,sequence) DO NOTHING\<close>: whether a row was inserted.\<close>

definition insert_round :: "string \<Rightarrow> int \<Rightarrow> round_status \<Rightarrow> int \<Rightarrow> int \<Rightarrow> bool tx" where
  "insert_round t seq status closes resultAt s =
     (let (i, s) = new_uuid s in
      if lookup (\<lambda>r. r_type r = t \<and> r_seq r = seq) (rounds s) \<noteq> None then Inr (False, s)
      else if lookup (\<lambda>r. r_id r = i) (rounds s) \<noteq> None then Inl (DB Unique)
      else if lookup (\<lambda>g. gt_id g = t) (game_types s) = None then Inl (DB ForeignKey)
      else Inr (True, s\<lparr>rounds := rounds s @ [\<lparr>r_id = i, r_type = t, r_seq = seq, r_status = status, r_closes = closes,
                  r_result_at = resultAt, r_outcome = None, r_settled = None, r_version = 0\<rparr>]\<rparr>))"

text \<open>The loop \<^verbatim>\<open>for futureCount < 3\<close>: a sequence that is taken is passed over, so nothing in the code bounds it.\<close>

partial_function (option) ensure_loop :: "scheduledType \<Rightarrow> int \<Rightarrow> int \<Rightarrow> int \<Rightarrow> int \<Rightarrow> db \<Rightarrow> (error + (int \<times> db)) option" where
  "ensure_loop item nextSequence nextResult futureCount created s =
     (if futureCount \<ge> 3 then Some (Inr (created, s))
      else case insert_round (st_id item) nextSequence RoundScheduled (nextResult - st_close item) nextResult s of
             Inl e \<Rightarrow> Some (Inl e)
           | Inr r \<Rightarrow>
               ensure_loop item
                 (wrap64 (nextSequence + (if st_source item = ''tron_hash'' then st_interval item else 1)))
                 (nextResult + cycle_of item)
                 (if fst r then futureCount + 1 else futureCount) (if fst r then created + 1 else created) (snd r))"

definition future_count :: "string \<Rightarrow> int \<Rightarrow> db \<Rightarrow> int" where
  "future_count t now s = int (length (filter (\<lambda>r. unfinished r \<and> r_result_at r > now) (rounds_of t s)))"

definition ensure_item :: "int \<Rightarrow> int \<Rightarrow> int option \<Rightarrow> scheduledType \<Rightarrow> int \<Rightarrow> db \<Rightarrow> (error + (int \<times> db)) option" where
  "ensure_item now tronHeight tronBlockAt item created s =
     (case first_round now tronHeight tronBlockAt item s of
        None \<Rightarrow> Some (Inr (created, s))
      | Some f \<Rightarrow> ensure_loop item (fst f) (snd f) (future_count (st_id item) now s) created s)"

fun ensure_types :: "int \<Rightarrow> int \<Rightarrow> int option \<Rightarrow> scheduledType list \<Rightarrow> int \<Rightarrow> db \<Rightarrow> (error + (int \<times> db)) option" where
  "ensure_types now tronHeight tronBlockAt [] created s = Some (Inr (created, s))"
| "ensure_types now tronHeight tronBlockAt (item # items) created s =
     (case ensure_item now tronHeight tronBlockAt item created s of
        None \<Rightarrow> None
      | Some (Inl e) \<Rightarrow> Some (Inl e)
      | Some (Inr r) \<Rightarrow> ensure_types now tronHeight tronBlockAt items (fst r) (snd r))"

definition EnsureScheduledRounds :: "int \<Rightarrow> int \<Rightarrow> int option \<Rightarrow> db \<Rightarrow> (error + (int \<times> db)) option" where
  "EnsureScheduledRounds now tronHeight tronBlockAt s =
     (case ensure_types now tronHeight tronBlockAt (scheduled_types s) 0 s of
        None \<Rightarrow> None
      | Some (Inl e) \<Rightarrow> Some (Inl e)
      | Some (Inr r) \<Rightarrow> Some (Inr (fst r, activateScheduledRounds now (snd r))))"

section \<open>postgres.go: queries\<close>

definition type_of :: "db \<Rightarrow> round_row \<Rightarrow> game_type_row option" where
  "type_of s r = lookup (\<lambda>g. gt_id g = r_type r) (game_types s)"

definition game_source :: "db \<Rightarrow> round_row \<Rightarrow> string option" where
  "game_source s r = Option.bind (type_of s r) (\<lambda>g. json_text (gt_rules g) ''source'')"

definition of_game :: "db \<Rightarrow> string \<Rightarrow> round_row \<Rightarrow> bool" where
  "of_game s gameType r \<longleftrightarrow> map_option gt_code (type_of s r) = Some gameType"

definition row_round :: "db \<Rightarrow> round_row \<Rightarrow> Round" where
  "row_round s r = \<lparr>RoundID = r_id r, GameType = (case type_of s r of None \<Rightarrow> [] | Some g \<Rightarrow> gt_code g), Sequence = r_seq r,
     Status = r_status r, BetClosesAt = r_closes r, ResultAt = r_result_at r, SettledAt = r_settled r, Outcome = []\<rparr>"

text \<open>The row with its outcome decoded, as the single-round queries return it.\<close>

definition scan_round :: "db \<Rightarrow> round_row \<Rightarrow> error + Round" where
  "scan_round s r =
     (case r_outcome r of
        None \<Rightarrow> Inr (row_round s r)
      | Some j \<Rightarrow> bindE (orErr JsonError (decode_strings (Some j))) (\<lambda>vs. Inr ((row_round s r)\<lparr>Outcome := vs\<rparr>)))"

definition round_Find :: "string \<Rightarrow> db \<Rightarrow> error + Round" where
  "round_Find roundID s =
     bindE (orErr (Game ErrRoundNotFound) (lookup (\<lambda>r. r_id r = roundID \<and> type_of s r \<noteq> None) (rounds s))) (scan_round s)"

definition ListOpen :: "string \<Rightarrow> int \<Rightarrow> db \<Rightarrow> Round list" where
  "ListOpen gameType limit s =
     (if limit \<le> 0 then []
      else map (row_round s) (take (nat limit) (sort_key r_closes (sort_key (\<lambda>r. map code (r_id r))
             (filter (\<lambda>r. r_status r = RoundOpen \<and> of_game s gameType r \<and> r_closes r > clock s
                \<and> \<not> list_ex (\<lambda>p. r_type p = r_type r \<and> r_seq p < r_seq r \<and> unfinished p
                      \<and> (game_source s r \<noteq> Some ''lulu_ws''
                         \<or> list_ex (\<lambda>b. b_round b = r_id p \<and> b_status b = BetAccepted) (bets s))) (rounds s))
              (rounds s))))))"

record HashTrendItem =
  ti_sequence :: int
  ti_digit :: int
  ti_size :: string
  ti_parity :: string
  ti_settled :: int

record HashTrendStreak =
  sk_value :: string
  sk_count :: int

record HashTrendSummary =
  DigitOmissions :: "(string \<times> int) list"
  SizeStreak :: HashTrendStreak
  ParityStreak :: HashTrendStreak

record HashTrend =
  tr_game :: string
  tr_time :: int
  tr_items :: "HashTrendItem list"
  tr_summary :: HashTrendSummary

fun trend_values :: "string list \<Rightarrow> HashTrendItem \<Rightarrow> HashTrendItem" where
  "trend_values [] item = item"
| "trend_values (value # rest) item =
     trend_values rest
       (if length value = 1 \<and> is_digit (hd value) then item\<lparr>ti_digit := int (code (hd value)) - 48\<rparr>
        else if value = ''big'' \<or> value = ''small'' then item\<lparr>ti_size := value\<rparr>
        else if value = ''odd'' \<or> value = ''even'' then item\<lparr>ti_parity := value\<rparr>
        else item)"

definition parseHashTrendOutcome :: "int \<Rightarrow> json option \<Rightarrow> int \<Rightarrow> error + HashTrendItem" where
  "parseHashTrendOutcome sequence raw settledAt =
     bindE (orErr JsonError (decode_strings raw)) (\<lambda>values.
     let item = trend_values values \<lparr>ti_sequence = sequence, ti_digit = - 1, ti_size = [], ti_parity = [], ti_settled = settledAt\<rparr>
     in if ti_digit item < 0 \<or> ti_size item = [] \<or> ti_parity item = [] then Inl (Game InvalidHashOutcome) else Inr item)"

text \<open>The inner loop over the items: the index of the first match, the number of items when there is none.\<close>

fun omission :: "int \<Rightarrow> HashTrendItem list \<Rightarrow> nat" where
  "omission digit [] = 0"
| "omission digit (item # items) = (if ti_digit item = digit then 0 else Suc (omission digit items))"

fun streak :: "(HashTrendItem \<Rightarrow> string) \<Rightarrow> string \<Rightarrow> HashTrendItem list \<Rightarrow> nat" where
  "streak f v [] = 0"
| "streak f v (item # items) = (if f item = v then Suc (streak f v items) else 0)"

definition summarizeHashTrend :: "HashTrendItem list \<Rightarrow> HashTrendSummary" where
  "summarizeHashTrend items =
     (let omissions = map (\<lambda>d. (format_int d, int (omission d items))) [0..9] in
      case items of
        [] \<Rightarrow> \<lparr>DigitOmissions = omissions, SizeStreak = \<lparr>sk_value = [], sk_count = 0\<rparr>, ParityStreak = \<lparr>sk_value = [], sk_count = 0\<rparr>\<rparr>
      | first # _ \<Rightarrow>
          \<lparr>DigitOmissions = omissions,
           SizeStreak = \<lparr>sk_value = ti_size first, sk_count = int (streak ti_size (ti_size first) items)\<rparr>,
           ParityStreak = \<lparr>sk_value = ti_parity first, sk_count = int (streak ti_parity (ti_parity first) items)\<rparr>\<rparr>)"

fun parse_rows :: "round_row list \<Rightarrow> error + HashTrendItem list" where
  "parse_rows [] = Inr []"
| "parse_rows (r # rs) =
     bindE (parseHashTrendOutcome (r_seq r) (r_outcome r) (the (r_settled r))) (\<lambda>item.
     bindE (parse_rows rs) (\<lambda>items. Inr (item # items)))"

definition HashTrend_query :: "string \<Rightarrow> int \<Rightarrow> db \<Rightarrow> error + HashTrend" where
  "HashTrend_query gameType limit s =
     (if limit \<le> 0 \<or> limit > 200 then Inl (Game ErrInvalidTrendLimit)
      else if \<not> list_ex (\<lambda>g. gt_code g = gameType \<and> gt_enabled g \<and> json_text (gt_rules g) ''source'' = Some ''tron_hash'') (game_types s)
      then Inl (Game ErrRoundNotFound)
      else bindE (parse_rows (take (nat limit) (sort_key (\<lambda>r. - r_seq r)
             (filter (\<lambda>r. of_game s gameType r \<and> r_status r = RoundSettled \<and> r_outcome r \<noteq> None \<and> r_settled r \<noteq> None) (rounds s))))) (\<lambda>items.
           Inr \<lparr>tr_game = gameType, tr_time = clock s, tr_items = items, tr_summary = summarizeHashTrend items\<rparr>))"

text \<open>\<^verbatim>\<open>findGameTypeRound\<close> is given a condition and an order; ties are ordered by the id.\<close>

definition findGameTypeRound :: "string \<Rightarrow> (round_row \<Rightarrow> bool) \<Rightarrow> (round_row \<Rightarrow> int) \<Rightarrow> db \<Rightarrow> error + Round" where
  "findGameTypeRound gameType cond key s =
     (case sort_key key (sort_key (\<lambda>r. map code (r_id r)) (filter (\<lambda>r. of_game s gameType r \<and> cond r) (rounds s))) of
        [] \<Rightarrow> Inl (Game ErrRoundNotFound)
      | r # _ \<Rightarrow> scan_round s r)"

definition previousRound :: "string \<Rightarrow> Round option \<Rightarrow> db \<Rightarrow> error + Round" where
  "previousRound gameType current s =
     (case current of
        None \<Rightarrow> findGameTypeRound gameType (\<lambda>r. r_status r = RoundSettled) (\<lambda>r. - r_result_at r) s
      | Some c \<Rightarrow>
          (case sort_key (\<lambda>r. if game_source s r = Some ''lulu_ws'' then - r_seq r else 0)
                  (sort_key (\<lambda>r. - r_result_at r) (sort_key (\<lambda>r. map code (r_id r))
                    (filter (\<lambda>r. of_game s gameType r
                       \<and> (if game_source s r = Some ''lulu_ws'' then r_seq r < Sequence c else r_status r = RoundSettled)) (rounds s)))) of
             [] \<Rightarrow> Inl (Game ErrRoundNotFound)
           | r # _ \<Rightarrow> scan_round s r))"

text \<open>A round that is not found is no error for the page; any other error is.\<close>

definition or_missing :: "error + Round \<Rightarrow> error + Round option" where
  "or_missing m = (case m of Inr r \<Rightarrow> Inr (Some r) | Inl e \<Rightarrow> if e = Game ErrRoundNotFound then Inr None else Inl e)"

definition round_State :: "string \<Rightarrow> db \<Rightarrow> error + (Round option \<times> Round option)" where
  "round_State gameType s =
     bindE (or_missing (findGameTypeRound gameType
              (\<lambda>r. r_status r \<in> {RoundOpen, RoundClosed, RoundSettling}
                 \<and> (game_source s r \<noteq> Some ''lulu_ws'' \<or> r_seq r = Max (set (map r_seq (rounds_of (r_type r) s)))))
              r_result_at s)) (\<lambda>current.
     bindE (case current of
              Some c \<Rightarrow> Inr (Some c)
            | None \<Rightarrow> or_missing (findGameTypeRound gameType (\<lambda>r. game_source s r = Some ''lulu_ws'') (\<lambda>r. - r_seq r) s)) (\<lambda>current.
     bindE (or_missing (previousRound gameType current s)) (\<lambda>previous.
     Inr (current, previous))))"

section \<open>postgres.go: transitions\<close>

text \<open>An outbox insert that names its own \<^verbatim>\<open>occurred_at\<close>.\<close>

definition insert_outbox_at :: "int \<Rightarrow> string \<Rightarrow> string \<Rightarrow> string \<Rightarrow> payload \<Rightarrow> db \<Rightarrow> error + db" where
  "insert_outbox_at t aggType aggId evType p s =
     bindE (insert_outbox aggType aggId evType p (s\<lparr>clock := t\<rparr>)) (\<lambda>s'. Inr (s'\<lparr>clock := clock s\<rparr>))"

definition set_round :: "string \<Rightarrow> (round_row \<Rightarrow> round_row) \<Rightarrow> db \<Rightarrow> db" where
  "set_round i g s = s\<lparr>rounds := modify (\<lambda>r. r_id r = i) g (rounds s)\<rparr>"

definition pg_BeginSettlement :: "string \<Rightarrow> unit tx" where
  "pg_BeginSettlement roundID s =
     (case lookup (\<lambda>r. r_id r = roundID) (rounds s) of
        None \<Rightarrow> Inl (Game ErrRoundNotFound)
      | Some r \<Rightarrow>
          if r_status r \<noteq> RoundClosed then Inl (Game ErrInvalidTransition)
          else bindE (insert_outbox ''round'' roundID ''game.round.settling'' (PObj [(''round_id'', PStr roundID)])
                 (set_round roundID (\<lambda>r. r\<lparr>r_status := RoundSettling, r_version := r_version r + 1\<rparr>) s)) (\<lambda>s.
               Inr ((), s)))"

definition due_rounds :: "int \<Rightarrow> int \<Rightarrow> db \<Rightarrow> string list" where
  "due_rounds now limit s =
     map r_id (take (nat limit) (sort_key r_closes (sort_key (\<lambda>r. map code (r_id r))
       (filter (\<lambda>r. r_status r \<in> {RoundOpen, RoundScheduled} \<and> r_closes r \<le> now) (rounds s)))))"

fun closed_events :: "int \<Rightarrow> string list \<Rightarrow> db \<Rightarrow> error + db" where
  "closed_events now [] s = Inr s"
| "closed_events now (i # is) s =
     bindE (insert_outbox_at now ''round'' i ''game.round.closed'' (PObj [(''round_id'', PStr i)]) s) (closed_events now is)"

text \<open>\<^verbatim>\<open>RETURNING id\<close> gives the ids in no promised order; the model keeps the order of the subquery.\<close>

definition CloseDue :: "int \<Rightarrow> int \<Rightarrow> string list tx" where
  "CloseDue now limit s =
     (if limit \<le> 0 then Inr ([], s)
      else let ids = due_rounds now limit s in
           bindE (closed_events now ids
             (s\<lparr>rounds := modify (\<lambda>r. r_id r \<in> set ids) (\<lambda>r. r\<lparr>r_status := RoundClosed, r_version := r_version r + 1\<rparr>) (rounds s)\<rparr>)) (\<lambda>s.
           Inr (ids, s)))"


section \<open>Moves of a round\<close>

text \<open>The states a round can pass through, and what never changes about it.\<close>

inductive round_next :: "round_status \<Rightarrow> round_status \<Rightarrow> bool" where
  opens: "round_next RoundScheduled RoundOpen"
| lapses: "round_next RoundScheduled RoundClosed"
| closes: "round_next RoundOpen RoundClosed"
| settling: "round_next RoundClosed RoundSettling"
| settles: "round_next RoundSettling RoundSettled"
| cancelled: "round_next RoundOpen RoundCancelled"
| void: "round_next RoundClosed RoundCancelled"

inductive_simps round_next_simps: "round_next a b"
inductive_cases round_next_finalE: "round_next RoundSettled b" "round_next RoundCancelled b"

definition same_round :: "round_row \<Rightarrow> round_row \<Rightarrow> bool" where
  "same_round r r' \<longleftrightarrow> r_id r' = r_id r \<and> r_type r' = r_type r \<and> r_seq r' = r_seq r \<and> r_closes r' = r_closes r \<and> r_result_at r' = r_result_at r"

definition moves :: "round_row \<Rightarrow> round_row \<Rightarrow> bool" where
  "moves r r' \<longleftrightarrow> same_round r r' \<and> round_next\<^sup>*\<^sup>* (r_status r) (r_status r')"

text \<open>Every row moves forward in place and rows are only appended.\<close>

definition rounds_move :: "db \<Rightarrow> db \<Rightarrow> bool" where
  "rounds_move s s' \<longleftrightarrow> (\<exists>old new. rounds s' = old @ new \<and> list_all2 moves (rounds s) old)"

text \<open>An open round of game \<open>t\<close> has no unfinished predecessor; with distinct sequences it is the only one.\<close>

definition open_first :: "string \<Rightarrow> db \<Rightarrow> bool" where
  "open_first t s \<longleftrightarrow> (\<forall>r \<in> set (rounds s). \<forall>p \<in> set (rounds s). r_type r = t \<and> r_type p = t \<and> r_status r = RoundOpen
     \<and> r_seq p < r_seq r \<longrightarrow> \<not> unfinished p)"

definition round_keys :: "db \<Rightarrow> bool" where
  "round_keys s \<longleftrightarrow> distinct (map r_id (rounds s)) \<and> distinct (map (\<lambda>r. (r_type r, r_seq r)) (rounds s))"

definition one_open :: "string \<Rightarrow> db \<Rightarrow> bool" where
  "one_open t s \<longleftrightarrow> (\<forall>r \<in> set (rounds s). \<forall>p \<in> set (rounds s). r_type r = t \<and> r_type p = t
     \<and> r_status r = RoundOpen \<and> r_status p = RoundOpen \<longrightarrow> r = p)"

lemma round_final: "round_next\<^sup>*\<^sup>* a b \<Longrightarrow> a = RoundSettled \<or> a = RoundCancelled \<Longrightarrow> b = a"
  by (induction rule: converse_rtranclp_induct) (auto elim: round_next_finalE)

lemma single_moves [simp]:
  "round_next\<^sup>*\<^sup>* RoundScheduled RoundOpen" "round_next\<^sup>*\<^sup>* RoundScheduled RoundClosed" "round_next\<^sup>*\<^sup>* RoundOpen RoundClosed"
  "round_next\<^sup>*\<^sup>* RoundClosed RoundSettling" "round_next\<^sup>*\<^sup>* RoundSettling RoundSettled" "round_next\<^sup>*\<^sup>* RoundOpen RoundCancelled"
  "round_next\<^sup>*\<^sup>* RoundClosed RoundCancelled"
  by (rule r_into_rtranclp, simp add: round_next_simps)+

lemma moves_refl [simp]: "moves r r"
  by (simp add: moves_def same_round_def)

lemma moves_trans: "moves a b \<Longrightarrow> moves b c \<Longrightarrow> moves a c"
  by (auto simp: moves_def same_round_def)

lemma all_moves_refl: "list_all2 moves rs rs"
  by (simp add: list_all2_refl)

lemma all_moves_modify: "(\<And>r. r \<in> set rs \<Longrightarrow> P r \<Longrightarrow> moves r (g r)) \<Longrightarrow> list_all2 moves rs (modify P g rs)"
  by (induction rs) auto

lemma all_moves_keys: "list_all2 moves rs rs' \<Longrightarrow>
    map r_id rs' = map r_id rs \<and> map (\<lambda>r. (r_type r, r_seq r)) rs' = map (\<lambda>r. (r_type r, r_seq r)) rs"
  by (induction rule: list_all2_induct) (auto simp: moves_def same_round_def)

lemma rounds_move_refl [simp]: "rounds_move s s"
  unfolding rounds_move_def by (intro exI [of _ "rounds s"] exI [of _ "[]"]) (simp add: all_moves_refl)

lemma rounds_move_cong: "rounds s' = rounds s \<Longrightarrow> rounds_move s s'"
  unfolding rounds_move_def by (intro exI [of _ "rounds s"] exI [of _ "[]"]) (simp add: all_moves_refl)

lemma rounds_move_modify:
  "rounds s' = modify P g (rounds s) \<Longrightarrow> (\<And>r. r \<in> set (rounds s) \<Longrightarrow> P r \<Longrightarrow> moves r (g r)) \<Longrightarrow> rounds_move s s'"
  unfolding rounds_move_def by (intro exI [of _ "rounds s'"] exI [of _ "[]"]) (simp add: all_moves_modify)

lemma rounds_move_trans:
  assumes "rounds_move s t" "rounds_move t u"
  shows "rounds_move s u"
proof -
  obtain old new where 1: "rounds t = old @ new" "list_all2 moves (rounds s) old" using assms(1) by (auto simp: rounds_move_def)
  obtain old' new' where 2: "rounds u = old' @ new'" "list_all2 moves (old @ new) old'"
    using assms(2) 1(1) by (auto simp: rounds_move_def)
  obtain a b where 3: "old' = a @ b" "list_all2 moves old a" using 2(2) by (auto simp: list_all2_append1)
  have "list_all2 moves (rounds s) a" using list_all2_trans [of moves moves moves] moves_trans 1(2) 3(2) by blast
  then show ?thesis using 2(1) 3(1) unfolding rounds_move_def by (intro exI [of _ a] exI [of _ "b @ new'"]) simp
qed

lemma rounds_move_row:
  assumes "rounds_move s s'" "r \<in> set (rounds s)"
  shows "\<exists>r' \<in> set (rounds s'). moves r r'"
proof -
  obtain old new where 1: "rounds s' = old @ new" "list_all2 moves (rounds s) old" using assms(1) by (auto simp: rounds_move_def)
  obtain i where i: "i < length (rounds s)" "r = rounds s ! i" using assms(2) by (auto simp: in_set_conv_nth)
  then have "moves r (old ! i)" "old ! i \<in> set old" using 1(2) by (auto simp: list_all2_conv_all_nth)
  then show ?thesis using 1(1) by auto
qed

lemma one_openI: "open_first t s \<Longrightarrow> round_keys s \<Longrightarrow> one_open t s"
proof (unfold one_open_def, intro ballI impI)
  fix r p assume a: "open_first t s" "round_keys s" "r \<in> set (rounds s)" "p \<in> set (rounds s)"
    "r_type r = t \<and> r_type p = t \<and> r_status r = RoundOpen \<and> r_status p = RoundOpen"
  have "\<not> r_seq p < r_seq r" "\<not> r_seq r < r_seq p" using a(1,3-5) by (force simp: open_first_def unfinished_def)+
  then show "r = p"
    using distinct_key_eq [of "\<lambda>r. (r_type r, r_seq r)" "rounds s" r p] a(2-5) by (simp add: round_keys_def)
qed

text \<open>What happens to the order of play when rows only move: a round that opens must not be blocked.\<close>

lemma open_first_moves:
  assumes "open_first t s" "rounds s' = modify P g (rounds s)"
    and "\<And>r. r \<in> set (rounds s) \<Longrightarrow> P r \<Longrightarrow> moves r (g r) \<and> (unfinished (g r) \<longrightarrow> unfinished r)
           \<and> (r_status (g r) = RoundOpen \<longrightarrow> r_status r = RoundOpen \<or> \<not> blocked r s)"
  shows "open_first t s'"
  unfolding open_first_def
proof (intro ballI impI)
  fix r' p' assume a: "r' \<in> set (rounds s')" "p' \<in> set (rounds s')"
    "r_type r' = t \<and> r_type p' = t \<and> r_status r' = RoundOpen \<and> r_seq p' < r_seq r'"
  obtain r where r: "r \<in> set (rounds s)" "r' = (if P r then g r else r)" using a(1) assms(2) by (auto simp: set_modify)
  obtain p where p: "p \<in> set (rounds s)" "p' = (if P p then g p else p)" using a(2) assms(2) by (auto simp: set_modify)
  have keys: "r_type r = t" "r_type p = t" "r_seq p < r_seq r"
    using a(3) r p assms(3) [of r] assms(3) [of p] by (auto simp: moves_def same_round_def split: if_splits)
  have "r_status r = RoundOpen \<or> \<not> blocked r s" using a(3) r assms(3) [of r] by (auto split: if_splits)
  then have "\<not> unfinished p" using keys p(1) r(1) assms(1) by (auto simp: open_first_def blocked_def list_ex_iff)
  then show "\<not> unfinished p'" using p assms(3) [of p] by (auto split: if_splits)
qed

lemma open_first_append:
  assumes "open_first t s" "rounds s' = rounds s @ new"
    and "\<And>r. r \<in> set new \<Longrightarrow> r_status r = RoundScheduled \<and> (\<forall>p \<in> set (rounds s). r_type p = r_type r \<longrightarrow> r_seq p < r_seq r)"
  shows "open_first t s'"
  unfolding open_first_def
proof (intro ballI impI)
  fix r p assume a: "r \<in> set (rounds s')" "p \<in> set (rounds s')"
    "r_type r = t \<and> r_type p = t \<and> r_status r = RoundOpen \<and> r_seq p < r_seq r"
  have "r \<in> set (rounds s)" using a assms(2,3) by auto
  moreover from this have "p \<in> set (rounds s)" using a assms(2) assms(3) [of p] by fastforce
  ultimately show "\<not> unfinished p" using a(3) assms(1) by (auto simp: open_first_def)
qed

definition can_open :: "int \<Rightarrow> db \<Rightarrow> round_row \<Rightarrow> bool" where
  "can_open now s r \<longleftrightarrow> r_status r = RoundScheduled \<and> r_closes r > now
     \<and> list_ex (\<lambda>g. gt_id g = r_type r \<and> gt_enabled g) (game_types s) \<and> \<not> blocked r s"

lemma activate_rounds: "rounds (activateScheduledRounds now s)
    = modify (can_open now s) (\<lambda>r. r\<lparr>r_status := RoundOpen, r_version := r_version r + 1\<rparr>) (rounds s)"
  by (simp add: activateScheduledRounds_def can_open_def [abs_def])

lemma can_open_moves: "can_open now s r \<Longrightarrow> moves r (r\<lparr>r_status := RoundOpen, r_version := v\<rparr>)"
  by (auto simp: can_open_def moves_def same_round_def)

lemma activate_moves: "rounds_move s (activateScheduledRounds now s)"
  by (rule rounds_move_modify [OF activate_rounds]) (rule can_open_moves)

lemma activate_open_first: "open_first t s \<Longrightarrow> open_first t (activateScheduledRounds now s)"
  by (rule open_first_moves [OF _ activate_rounds]) (auto simp: can_open_moves, auto simp: can_open_def unfinished_def)

lemma moves_keys: "rounds s' = modify P g (rounds s) \<Longrightarrow> (\<And>r. r \<in> set (rounds s) \<Longrightarrow> P r \<Longrightarrow> moves r (g r)) \<Longrightarrow> round_keys s' = round_keys s"
  using all_moves_keys [OF all_moves_modify [of "rounds s" P g]] by (simp add: round_keys_def)

lemma activate_keys [simp]: "round_keys (activateScheduledRounds now s) = round_keys s"
  by (rule moves_keys [OF activate_rounds]) (rule can_open_moves)


lemma insert_outbox_at_frame:
  assumes "insert_outbox_at t a b c p s = Inr s'"
  shows "money_only s s' \<and> wallets s' = wallets s \<and> ledger s' = ledger s"
proof -
  obtain u where u: "insert_outbox a b c p (s\<lparr>clock := t\<rparr>) = Inr u" "s' = u\<lparr>clock := clock s\<rparr>"
    using assms by (auto simp: insert_outbox_at_def bindE_eq_Inr)
  show ?thesis using insert_outbox_Inr [OF u(1)] u(2) by (auto simp: money_only_def)
qed

lemma closed_events_frame: "closed_events now ids s = Inr s' \<Longrightarrow> money_only s s' \<and> wallets s' = wallets s \<and> ledger s' = ledger s"
proof (induction ids arbitrary: s)
  case (Cons i ids)
  obtain u where u: "insert_outbox_at now ''round'' i ''game.round.closed'' (PObj [(''round_id'', PStr i)]) s = Inr u" "closed_events now ids u = Inr s'"
    using Cons.prems by (auto simp: bindE_eq_Inr)
  show ?case using insert_outbox_at_frame [OF u(1)] Cons.IH [OF u(2)] money_only_trans by auto
qed simp

lemma CloseDue_rounds:
  assumes "CloseDue now limit s = Inr (ids, s')"
  shows "\<exists>P. rounds s' = modify P (\<lambda>r. r\<lparr>r_status := RoundClosed, r_version := r_version r + 1\<rparr>) (rounds s)
          \<and> (\<forall>r \<in> set (rounds s). P r \<longrightarrow> (\<exists>q \<in> set (rounds s). r_id q = r_id r \<and> r_status q \<in> {RoundOpen, RoundScheduled} \<and> r_closes q \<le> now))
          \<and> game_types s' = game_types s \<and> bets s' = bets s \<and> wallets s' = wallets s \<and> ledger s' = ledger s"
proof (cases "limit \<le> 0")
  case True
  then have "s' = s" using assms by (simp add: CloseDue_def)
  then show ?thesis by (intro exI [of _ "\<lambda>_. False"]) (simp add: modify_none)
next
  case False
  let ?ids = "due_rounds now limit s"
  let ?t = "s\<lparr>rounds := modify (\<lambda>r. r_id r \<in> set ?ids) (\<lambda>r. r\<lparr>r_status := RoundClosed, r_version := r_version r + 1\<rparr>) (rounds s)\<rparr>"
  have "closed_events now ?ids ?t = Inr s'" using assms False by (auto simp: CloseDue_def Let_def bindE_eq_Inr)
  note fr = closed_events_frame [OF this]
  have "\<exists>q \<in> set (rounds s). r_id q = r_id r \<and> r_status q \<in> {RoundOpen, RoundScheduled} \<and> r_closes q \<le> now" if "r_id r \<in> set ?ids" for r
    using that by (auto simp: due_rounds_def dest!: in_set_takeD)
  moreover have "rounds s' = rounds ?t" "game_types s' = game_types s" "bets s' = bets s" "wallets s' = wallets s" "ledger s' = ledger s"
    using fr money_onlyD [OF fr [THEN conjunct1]] by simp_all
  ultimately show ?thesis by (intro exI [of _ "\<lambda>r. r_id r \<in> set ?ids"]) (simp, blast)
qed

lemma CloseDue_moves:
  assumes "CloseDue now limit s = Inr (ids, s')" "round_keys s"
  shows "rounds_move s s' \<and> round_keys s' \<and> (open_first t s \<longrightarrow> open_first t s')"
proof -
  obtain P where P: "rounds s' = modify P (\<lambda>r. r\<lparr>r_status := RoundClosed, r_version := r_version r + 1\<rparr>) (rounds s)"
    "\<And>r. r \<in> set (rounds s) \<Longrightarrow> P r \<Longrightarrow> \<exists>q \<in> set (rounds s). r_id q = r_id r \<and> r_status q \<in> {RoundOpen, RoundScheduled} \<and> r_closes q \<le> now"
    using CloseDue_rounds [OF assms(1)] by blast
  have st: "r_status r = RoundOpen \<or> r_status r = RoundScheduled" if r: "r \<in> set (rounds s)" "P r" for r
  proof -
    obtain q where q: "q \<in> set (rounds s)" "r_id q = r_id r" "r_status q \<in> {RoundOpen, RoundScheduled}" using P(2) [OF r] by blast
    then have "q = r" using distinct_key_eq [of r_id "rounds s"] assms(2) r(1) by (simp add: round_keys_def)
    then show ?thesis using q by auto
  qed
  have mv: "moves r (r\<lparr>r_status := RoundClosed, r_version := v\<rparr>)" if "r \<in> set (rounds s)" "P r" for r v
    using st [OF that] by (auto simp: moves_def same_round_def)
  have "open_first t s'" if "open_first t s"
    by (rule open_first_moves [OF that P(1)]) (use mv st in \<open>force simp: unfinished_def\<close>)
  then show ?thesis using rounds_move_modify [OF P(1) mv] moves_keys [OF P(1) mv] assms(2) by simp
qed

lemma pg_BeginSettlement_Inr:
  assumes "pg_BeginSettlement i s = Inr (u, s')"
  shows "rounds s' = modify (\<lambda>r. r_id r = i) (\<lambda>r. r\<lparr>r_status := RoundSettling, r_version := r_version r + 1\<rparr>) (rounds s)
       \<and> (\<exists>r \<in> set (rounds s). r_id r = i \<and> r_status r = RoundClosed)
       \<and> game_types s' = game_types s \<and> bets s' = bets s \<and> wallets s' = wallets s \<and> ledger s' = ledger s"
proof -
  let ?t = "set_round i (\<lambda>r. r\<lparr>r_status := RoundSettling, r_version := r_version r + 1\<rparr>) s"
  obtain r where r: "lookup (\<lambda>r. r_id r = i) (rounds s) = Some r" "r_status r = RoundClosed"
    "insert_outbox ''round'' i ''game.round.settling'' (PObj [(''round_id'', PStr i)]) ?t = Inr s'"
    using assms unfolding pg_BeginSettlement_def by (auto simp: bindE_eq_Inr split: option.splits if_splits)
  show ?thesis using insert_outbox_money_only [OF r(3)] money_onlyD [of ?t s'] lookup_SomeD [OF r(1)] r(2)
    by (auto simp: set_round_def)
qed

lemma pg_BeginSettlement_moves:
  assumes "pg_BeginSettlement i s = Inr (u, s')" "round_keys s"
  shows "rounds_move s s' \<and> round_keys s' \<and> (open_first t s \<longrightarrow> open_first t s')"
proof -
  note R = pg_BeginSettlement_Inr [OF assms(1), THEN conjunct1]
  obtain q where q: "q \<in> set (rounds s)" "r_id q = i" "r_status q = RoundClosed" using pg_BeginSettlement_Inr [OF assms(1)] by blast
  have st: "r_status r = RoundClosed" if "r \<in> set (rounds s)" "r_id r = i" for r
    using distinct_key_eq [of r_id "rounds s" r q] q that assms(2) by (simp add: round_keys_def)
  have mv: "moves r (r\<lparr>r_status := RoundSettling, r_version := v\<rparr>)" if "r \<in> set (rounds s)" "r_id r = i" for r v
    using st [OF that] by (auto simp: moves_def same_round_def)
  have "open_first t s'" if "open_first t s"
    by (rule open_first_moves [OF that R]) (use mv st in \<open>force simp: unfinished_def\<close>)
  then show ?thesis using rounds_move_modify [OF R mv] moves_keys [OF R mv] assms(2) by simp
qed


section \<open>The scheduler returns\<close>

definition step_of :: "scheduledType \<Rightarrow> int" where
  "step_of item = (if st_source item = ''tron_hash'' then st_interval item else 1)"

definition beyond :: "string \<Rightarrow> int \<Rightarrow> db \<Rightarrow> bool" where
  "beyond t seq s \<longleftrightarrow> (\<forall>p \<in> set (rounds s). r_type p = t \<longrightarrow> r_seq p < seq)"

text \<open>\<open>n\<close> scheduled rounds of game \<open>t\<close> were appended, each beyond every earlier one and from \<open>lo\<close> on; the rest is unchanged.\<close>

definition extended :: "string \<Rightarrow> int \<Rightarrow> int \<Rightarrow> db \<Rightarrow> db \<Rightarrow> bool" where
  "extended t lo n s s' \<longleftrightarrow> s' = s\<lparr>rounds := rounds s', next_uuid := next_uuid s'\<rparr> \<and> (round_keys s \<longrightarrow> round_keys s')
     \<and> (\<exists>new. rounds s' = rounds s @ new \<and> int (length new) = n
          \<and> (\<forall>r \<in> set new. r_type r = t \<and> r_status r = RoundScheduled \<and> lo \<le> r_seq r \<and> beyond t (r_seq r) s))"

lemma extendedI:
  "s' = s\<lparr>rounds := rounds s', next_uuid := next_uuid s'\<rparr> \<Longrightarrow> (round_keys s \<Longrightarrow> round_keys s') \<Longrightarrow> rounds s' = rounds s @ new
   \<Longrightarrow> int (length new) = n \<Longrightarrow> (\<And>r. r \<in> set new \<Longrightarrow> r_type r = t \<and> r_status r = RoundScheduled \<and> lo \<le> r_seq r \<and> beyond t (r_seq r) s)
   \<Longrightarrow> extended t lo n s s'"
  unfolding extended_def by blast

lemma extended_refl: "extended t lo 0 s s"
  by (rule extendedI [where new = "[]"]) auto

lemma insert_round_new:
  assumes "beyond t seq s" "insert_round t seq status c ra s = Inr (b, s')"
  shows "b \<and> s' = s\<lparr>rounds := rounds s', next_uuid := next_uuid s'\<rparr> \<and> (round_keys s \<longrightarrow> round_keys s')
       \<and> (\<exists>r. rounds s' = rounds s @ [r] \<and> r_type r = t \<and> r_seq r = seq \<and> r_status r = status \<and> r_closes r = c \<and> r_result_at r = ra)"
proof -
  have n: "lookup (\<lambda>r. r_type r = t \<and> r_seq r = seq) (rounds s) = None" using assms(1) by (auto simp: lookup_None_iff beyond_def)
  have k: "(t, seq) \<notin> (\<lambda>r. (r_type r, r_seq r)) ` set (rounds s)" using assms(1) by (auto simp: beyond_def)
  define r where "r = \<lparr>r_id = uuids s (next_uuid s), r_type = t, r_seq = seq, r_status = status, r_closes = c,
                  r_result_at = ra, r_outcome = None, r_settled = None, r_version = 0\<rparr>"
  have b: b and i: "lookup (\<lambda>q. r_id q = uuids s (next_uuid s)) (rounds s) = None"
    and s': "s' = s\<lparr>next_uuid := Suc (next_uuid s), rounds := rounds s @ [r]\<rparr>"
    using assms(2) n by (auto simp: insert_round_def new_uuid_def Let_def r_def split: if_splits)
  have "r_id r \<notin> r_id ` set (rounds s)" using i by (auto simp: lookup_None_iff r_def)
  then have "round_keys s \<longrightarrow> round_keys s'" using k by (simp add: s' round_keys_def r_def)
  then show ?thesis using b s' by (simp add: r_def)
qed

lemma beyond_mono: "beyond t a s \<Longrightarrow> a \<le> b \<Longrightarrow> beyond t b s"
  by (force simp: beyond_def)

lemma ensure_loop_returns:
  assumes "beyond (st_id item) seq s" "0 < step_of item" "0 \<le> seq" "seq + (3 - future) * step_of item \<le> max_int64"
  shows "\<exists>res. ensure_loop item seq result future created s = Some res
          \<and> (\<forall>c s'. res = Inr (c, s') \<longrightarrow> extended (st_id item) seq (c - created) s s' \<and> c - created = max 0 (3 - future))"
  using assms
proof (induction "nat (3 - future)" arbitrary: seq result future created s)
  case 0
  then show ?case by (subst ensure_loop.simps) (simp add: extended_refl)
next
  case (Suc n)
  have lt: "\<not> 3 \<le> future" using Suc.hyps(2) by simp
  let ?step = "step_of item"
  show ?case
  proof (cases "insert_round (st_id item) seq RoundScheduled (result - st_close item) result s")
    case (Inl e)
    then show ?thesis using lt by (subst ensure_loop.simps) simp
  next
    case (Inr x)
    obtain b t where x: "x = (b, t)" by (cases x)
    note I = insert_round_new [OF Suc.prems(1) Inr [unfolded x]]
    obtain r where r: "rounds t = rounds s @ [r]" "r_type r = st_id item" "r_seq r = seq" "r_status r = RoundScheduled" using I by blast
    have "1 * ?step \<le> (3 - future) * ?step" using lt Suc.prems(2) by (intro mult_right_mono) auto
    then have "0 \<le> seq + ?step" "seq + ?step \<le> max_int64" using Suc.prems by linarith+
    then have w: "wrap64 (seq + ?step) = seq + ?step" by (simp add: int64_def max_int64_def)
    have n: "n = nat (3 - (future + 1))" using Suc.hyps(2) by simp
    have d: "seq + ?step + (3 - (future + 1)) * ?step \<le> max_int64" using Suc.prems(4) by (simp add: algebra_simps)
    have b: "beyond (st_id item) (seq + ?step) t" using Suc.prems(1,2) r by (force simp: beyond_def)
    obtain res where res: "ensure_loop item (seq + ?step) (result + cycle_of item) (future + 1) (created + 1) t = Some res"
      "\<And>c s'. res = Inr (c, s') \<Longrightarrow> extended (st_id item) (seq + ?step) (c - (created + 1)) t s' \<and> c - (created + 1) = max 0 (3 - (future + 1))"
      using Suc.hyps(1) [of "future + 1" "seq + ?step" t "result + cycle_of item" "created + 1", OF n b Suc.prems(2) \<open>0 \<le> seq + ?step\<close> d]
      by blast
    have "ensure_loop item seq result future created s = Some res"
      using lt Inr x I w res(1) by (subst ensure_loop.simps) (simp add: step_of_def)
    moreover have "c - created = max 0 (3 - future)" if "res = Inr (c, s')" for c s' using res(2) [OF that] lt by simp
    moreover have "extended (st_id item) seq (c - created) s s'" if "res = Inr (c, s')" for c s'
    proof -
      note E = conjunct1 [OF res(2) [OF that]]
      obtain new where new: "rounds s' = rounds t @ new" "int (length new) = c - (created + 1)"
        "\<And>q. q \<in> set new \<Longrightarrow> r_type q = st_id item \<and> r_status q = RoundScheduled \<and> seq + ?step \<le> r_seq q \<and> beyond (st_id item) (r_seq q) t"
        using E unfolding extended_def by blast
      show ?thesis
      proof (rule extendedI [where new = "r # new"])
        show "s' = s\<lparr>rounds := rounds s', next_uuid := next_uuid s'\<rparr>"
          using E I unfolding extended_def by (cases s; cases t; cases s') auto
        show "round_keys s \<Longrightarrow> round_keys s'" using E I unfolding extended_def by blast
        show "rounds s' = rounds s @ r # new" using new(1) r(1) by simp
        show "int (length (r # new)) = c - created" using new(2) by simp
        show "r_type q = st_id item \<and> r_status q = RoundScheduled \<and> seq \<le> r_seq q \<and> beyond (st_id item) (r_seq q) s" if "q \<in> set (r # new)" for q
          using that new(3) [of q] r Suc.prems(1,2) by (auto simp: beyond_def)
      qed
    qed
    ultimately show ?thesis by blast
  qed
qed


text \<open>The ranges in which no 64-bit addition of the scheduler wraps: what the columns hold (a close lead of 1 to 59
  seconds, a 32-bit interval) and heights, sequences and instants below \<open>2\<^sup>60\<close>.\<close>

definition near :: int where
  "near = 1152921504606846976"

definition item_ok :: "scheduledType \<Rightarrow> bool" where
  "item_ok item \<longleftrightarrow> 0 \<le> st_close item \<and> st_close item \<le> 59000000
     \<and> (st_source item = ''tron_hash'' \<longrightarrow> 0 < st_interval item \<and> st_interval item < 2147483648)"

definition seqs_ok :: "string \<Rightarrow> db \<Rightarrow> bool" where
  "seqs_ok t s \<longleftrightarrow> (\<forall>r \<in> set (rounds s). r_type r = t \<longrightarrow> 0 \<le> r_seq r \<and> r_seq r \<le> near \<and> 0 \<le> r_result_at r)"

definition schedulable :: "int \<Rightarrow> int \<Rightarrow> db \<Rightarrow> bool" where
  "schedulable now height s \<longleftrightarrow> 0 \<le> now \<and> now \<le> near \<and> height \<le> near \<and> distinct (map gt_id (game_types s))
     \<and> (\<forall>g \<in> set (game_types s). 1 \<le> gt_close_before g \<and> gt_close_before g \<le> 59
          \<and> (\<forall>i. gt_interval g = Some i \<longrightarrow> i < 2147483648) \<and> seqs_ok (gt_id g) s)"

lemma last_sequence_bound:
  assumes "seqs_ok t s"
  shows "0 \<le> last_sequence t s \<and> last_sequence t s \<le> near \<and> (\<forall>p \<in> set (rounds s). r_type p = t \<longrightarrow> r_seq p \<le> last_sequence t s)"
proof (cases "rounds_of t s")
  case Nil
  then show ?thesis by (auto simp: last_sequence_def rounds_of_def filter_empty_conv near_def)
next
  case (Cons a as)
  have l: "last_sequence t s = Max (r_seq ` set (rounds_of t s))" using Cons by (simp add: last_sequence_def)
  have "last_sequence t s \<in> r_seq ` set (rounds_of t s)" unfolding l by (rule Max_in) (use Cons in auto)
  moreover have "r_seq p \<le> last_sequence t s" if "p \<in> set (rounds_of t s)" for p unfolding l using that by simp
  ultimately show ?thesis using assms by (auto simp: seqs_ok_def rounds_of_def)
qed

lemma last_result_bound: "seqs_ok t s \<Longrightarrow> last_result t s = Some x \<Longrightarrow> 0 \<le> x"
proof -
  assume a: "seqs_ok t s" "last_result t s = Some x"
  then have "x = Max (r_result_at ` set (rounds_of t s))" "rounds_of t s \<noteq> []" by (auto simp: last_result_def split: list.splits)
  then have "x \<in> r_result_at ` set (rounds_of t s)" using Max_in [of "r_result_at ` set (rounds_of t s)"] by auto
  then show "0 \<le> x" using a(1) by (auto simp: seqs_ok_def rounds_of_def)
qed

text \<open>The next target lies ahead of the chain, on a multiple of the interval, at most one interval away.\<close>

lemma nextTronTarget_bounds:
  assumes "0 < h" "h \<le> near" "0 < i" "i < 2147483648"
  shows "h < nextTronTarget h i \<and> nextTronTarget h i \<le> h + i \<and> i dvd nextTronTarget h i"
proof -
  let ?q = "h div i"
  have "?q * i + h mod i = h" "(?q + 1) * i = ?q * i + i" by (rule div_mult_mod_eq) (simp add: algebra_simps)
  moreover have "0 \<le> h mod i" "h mod i < i" using assms(3) by simp_all
  ultimately have b: "h < (?q + 1) * i" "(?q + 1) * i \<le> h + i" by linarith+
  have "0 \<le> ?q" using assms by (simp add: pos_imp_zdiv_nonneg_iff)
  then have "?q * 1 \<le> ?q * i" using assms(3) by (intro mult_left_mono) auto
  then have "?q \<le> h" using \<open>?q * i + h mod i = h\<close> \<open>0 \<le> h mod i\<close> by linarith
  then have "wrap64 (?q + 1) = ?q + 1" "wrap64 ((?q + 1) * i) = (?q + 1) * i"
    using assms b \<open>0 \<le> ?q\<close> by (simp_all add: int64_def near_def)
  then have "nextTronTarget h i = (?q + 1) * i" using assms by (simp add: nextTronTarget_def go_div_pos)
  then show ?thesis using b by simp
qed

lemma seconds_small: "0 \<le> n \<Longrightarrow> n \<le> 8000000000 \<Longrightarrow> seconds n = n * 1000000"
  by (simp add: seconds_def int64_def)

lemma first_round_ahead:
  assumes "first_round now h at item s = Some (seq, result)" "item_ok item" "seqs_ok (st_id item) s" "0 \<le> now" "now \<le> near" "h \<le> near"
  shows "beyond (st_id item) seq s \<and> 0 \<le> seq \<and> seq \<le> 4 * near - 9000000000 \<and> (st_source item = ''tron_hash'' \<longrightarrow> h < seq)"
proof -
  let ?l = "last_sequence (st_id item) s"
  have l: "0 \<le> ?l" "?l \<le> near" "\<And>p. p \<in> set (rounds s) \<Longrightarrow> r_type p = st_id item \<Longrightarrow> r_seq p \<le> ?l"
    using last_sequence_bound [OF assms(3)] by auto
  have fin: ?thesis if "?l < seq" "seq \<le> 4 * near - 9000000000" "st_source item = ''tron_hash'' \<longrightarrow> h < seq"
    using that l by (force simp: beyond_def)
  show ?thesis
  proof (cases "st_source item = ''tron_hash''")
    case True
    let ?i = "st_interval item" and ?t = "nextTronTarget h (st_interval item)"
    have i: "0 < ?i" "?i < 2147483648" using assms(2) True by (auto simp: item_ok_def)
    have h: "0 < h" using assms(1) True by (auto simp: first_round_def Let_def split: if_splits)
    have t: "h < ?t" "?t \<le> h + ?i" using nextTronTarget_bounds [OF h assms(6) i] by auto
    define n where "n = (if ?l \<ge> ?t then wrap64 (?l + ?i) else ?t)"
    have w: "wrap64 (?l + ?i) = ?l + ?i" using l i by (simp add: int64_def near_def)
    have n: "?l < n" "h < n" "n \<le> near + 2147483648" using t i l w assms(6) by (auto simp: n_def)
    have "wrap64 (n + ?i) = n + ?i" using n i l by (simp add: int64_def near_def)
    then have "seq = n \<or> seq = n + ?i"
      using assms(1) True h by (auto simp: first_round_def Let_def n_def split: if_splits)
    then show ?thesis using n i by (intro fin) (auto simp: near_def)
  next
    case False
    have w: "wrap64 (?l + 1) = ?l + 1" using l by (simp add: int64_def near_def)
    show ?thesis
    proof (cases "seq = ?l + 1")
      case True
      then show ?thesis using l False by (intro fin) (auto simp: near_def)
    next
      case other: False
      obtain x where x: "last_result (st_id item) s = Some x" "\<not> now < x + minute - st_close item"
        "seq = wrap64 (?l + 1 + (go_div (now - (x + minute - st_close item)) minute + 1))"
        using assms(1) False other w by (auto simp: first_round_def Let_def cycle_of_def split: if_splits option.splits)
      let ?d = "(now - (x + minute - st_close item)) div minute"
      have "0 \<le> x" using last_result_bound [OF assms(3) x(1)] .
      then have a: "0 \<le> now - (x + minute - st_close item)" "now - (x + minute - st_close item) \<le> near + 59000000"
        using x(2) assms(2,5) by (auto simp: item_ok_def minute_def)
      have "?d * 60000000 \<le> now - (x + minute - st_close item)" unfolding minute_def using div_mult_mod_eq [of "now - (x + 60000000 - st_close item)" 60000000]
        pos_mod_sign [of 60000000 "now - (x + 60000000 - st_close item)"] by linarith
      moreover have "0 \<le> ?d" using a by (simp add: minute_def pos_imp_zdiv_nonneg_iff)
      ultimately have d: "0 \<le> ?d" "?d \<le> near + 59000000" using a(2) by linarith+
      have "seq = ?l + 2 + ?d" using x(3) a(1) d l by (simp add: go_div_pos minute_def int64_def near_def)
      then show ?thesis using d l False by (intro fin) (auto simp: near_def)
    qed
  qed
qed


text \<open>What a pass over some games leaves: appended scheduled rounds and nothing else.\<close>

definition grown :: "scheduledType list \<Rightarrow> int \<Rightarrow> int \<Rightarrow> db \<Rightarrow> db \<Rightarrow> bool" where
  "grown items h n s s' \<longleftrightarrow> s' = s\<lparr>rounds := rounds s', next_uuid := next_uuid s'\<rparr> \<and> (round_keys s \<longrightarrow> round_keys s')
     \<and> (\<forall>t. open_first t s \<longrightarrow> open_first t s')
     \<and> (\<exists>new. rounds s' = rounds s @ new \<and> int (length new) = n
          \<and> (\<forall>r \<in> set new. \<exists>item \<in> set items. r_type r = st_id item \<and> r_status r = RoundScheduled
               \<and> (st_source item = ''tron_hash'' \<longrightarrow> h < r_seq r)))"

lemma grown_refl: "grown items h 0 s s"
  by (auto simp: grown_def intro!: exI [of _ "[]"])

lemma grown_trans:
  assumes "grown as h m s t" "grown bs h n t u" "set as \<subseteq> set cs" "set bs \<subseteq> set cs"
  shows "grown cs h (m + n) s u"
proof -
  obtain new where 1: "rounds t = rounds s @ new" "int (length new) = m"
    "\<And>r. r \<in> set new \<Longrightarrow> \<exists>item \<in> set as. r_type r = st_id item \<and> r_status r = RoundScheduled \<and> (st_source item = ''tron_hash'' \<longrightarrow> h < r_seq r)"
    using assms(1) unfolding grown_def by blast
  obtain new' where 2: "rounds u = rounds t @ new'" "int (length new') = n"
    "\<And>r. r \<in> set new' \<Longrightarrow> \<exists>item \<in> set bs. r_type r = st_id item \<and> r_status r = RoundScheduled \<and> (st_source item = ''tron_hash'' \<longrightarrow> h < r_seq r)"
    using assms(2) unfolding grown_def by blast
  have "u = s\<lparr>rounds := rounds u, next_uuid := next_uuid u\<rparr>"
    using assms(1,2) unfolding grown_def by (cases s; cases t; cases u) auto
  moreover have "\<exists>item \<in> set cs. r_type r = st_id item \<and> r_status r = RoundScheduled \<and> (st_source item = ''tron_hash'' \<longrightarrow> h < r_seq r)"
    if "r \<in> set (new @ new')" for r
    using that 1(3) [of r] 2(3) [of r] assms(3,4) by auto
  moreover have "rounds u = rounds s @ new @ new'" "int (length (new @ new')) = m + n" using 1 2 by simp_all
  ultimately show ?thesis using assms(1,2) unfolding grown_def by blast
qed

lemma extended_grown:
  assumes "extended (st_id item) lo n s s'" "st_source item = ''tron_hash'' \<longrightarrow> h < lo"
  shows "grown [item] h n s s'"
proof -
  obtain new where new: "rounds s' = rounds s @ new" "int (length new) = n"
    "\<And>r. r \<in> set new \<Longrightarrow> r_type r = st_id item \<and> r_status r = RoundScheduled \<and> lo \<le> r_seq r \<and> beyond (st_id item) (r_seq r) s"
    using assms(1) unfolding extended_def by blast
  have "open_first t s'" if "open_first t s" for t
    by (rule open_first_append [OF that new(1)]) (use new(3) in \<open>auto simp: beyond_def\<close>)
  moreover have "\<exists>i \<in> set [item]. r_type r = st_id i \<and> r_status r = RoundScheduled \<and> (st_source i = ''tron_hash'' \<longrightarrow> h < r_seq r)"
    if "r \<in> set new" for r
    using new(3) [OF that] assms(2) by auto
  ultimately show ?thesis using assms(1) new(1,2) unfolding grown_def extended_def by blast
qed

lemma scheduler_moves: "grown items h n s u \<Longrightarrow> rounds_move s (activateScheduledRounds now u)"
proof -
  assume "grown items h n s u"
  then have "rounds_move s u" unfolding grown_def rounds_move_def using all_moves_refl by blast
  then show ?thesis using rounds_move_trans activate_moves by blast
qed

text \<open>The rounds a pass creates for one game: it fills up to three future rounds, unless it skips the game.\<close>

definition wanted :: "int \<Rightarrow> int \<Rightarrow> int option \<Rightarrow> scheduledType \<Rightarrow> db \<Rightarrow> int" where
  "wanted now h at item s = (if first_round now h at item s = None then 0 else max 0 (3 - future_count (st_id item) now s))"

lemma wanted_bounds: "0 \<le> wanted now h at item s \<and> wanted now h at item s \<le> 3"
  by (simp add: wanted_def future_count_def)

lemma wanted_cong:
  assumes "rounds_of (st_id item) t = rounds_of (st_id item) s"
  shows "wanted now h at item t = wanted now h at item s"
  unfolding wanted_def first_round_def future_count_def last_sequence_def last_result_def assms ..

lemma ensure_item_returns:
  assumes "item_ok item" "seqs_ok (st_id item) s" "0 \<le> now" "now \<le> near" "h \<le> near"
  shows "\<exists>res. ensure_item now h at item created s = Some res
    \<and> (\<forall>c s'. res = Inr (c, s') \<longrightarrow> grown [item] h (c - created) s s' \<and> c - created = wanted now h at item s)"
proof (cases "first_round now h at item s")
  case None
  then show ?thesis by (auto simp: ensure_item_def grown_refl wanted_def)
next
  case (Some f)
  obtain seq result where f: "f = (seq, result)" by (cases f)
  let ?n = "future_count (st_id item) now s"
  note A = first_round_ahead [OF Some [unfolded f] assms]
  have st: "0 < step_of item" "step_of item < 2147483648" using assms(1) by (auto simp: step_of_def item_ok_def)
  have "(3 - ?n) * step_of item \<le> 3 * step_of item"
    using st by (intro mult_right_mono) (auto simp: future_count_def)
  moreover have "seq \<le> 4 * near - 9000000000" using A by blast
  ultimately have "seq + (3 - ?n) * step_of item \<le> max_int64" using st unfolding near_def max_int64_def by linarith
  then obtain res where "ensure_loop item seq result ?n created s = Some res"
    "\<forall>c s'. res = Inr (c, s') \<longrightarrow> extended (st_id item) seq (c - created) s s' \<and> c - created = max 0 (3 - ?n)"
    using ensure_loop_returns [of item seq s ?n result created] A st by blast
  then show ?thesis using Some f A extended_grown [of item seq] by (auto simp: ensure_item_def wanted_def)
qed

lemma grown_other: "grown items h n s s' \<Longrightarrow> t \<notin> st_id ` set items \<Longrightarrow> seqs_ok t s \<Longrightarrow> seqs_ok t s'"
  unfolding grown_def seqs_ok_def by fastforce

lemma grown_rounds_of:
  assumes "grown items h n s s'" "t \<notin> st_id ` set items"
  shows "rounds_of t s' = rounds_of t s"
proof -
  obtain new where "rounds s' = rounds s @ new" "\<forall>r \<in> set new. r_type r \<in> st_id ` set items" using assms(1) unfolding grown_def by blast
  then show ?thesis using assms(2) by (auto simp: rounds_of_def filter_empty_conv)
qed

lemma grown_rounds_of_item:
  assumes "grown [item] h n s s'"
  shows "int (length (rounds_of (st_id item) s')) = int (length (rounds_of (st_id item) s)) + n"
proof -
  obtain new where "rounds s' = rounds s @ new" "int (length new) = n" "\<forall>r \<in> set new. r_type r = st_id item" using assms unfolding grown_def by auto
  moreover from this have "filter (\<lambda>r. r_type r = st_id item) new = new" by simp
  ultimately show ?thesis by (simp add: rounds_of_def)
qed

lemma ensure_types_returns:
  assumes "\<And>item. item \<in> set items \<Longrightarrow> item_ok item \<and> seqs_ok (st_id item) s" "distinct (map st_id items)"
    and "0 \<le> now" "now \<le> near" "h \<le> near"
  shows "\<exists>res. ensure_types now h at items created s = Some res \<and> (\<forall>c s'. res = Inr (c, s') \<longrightarrow> grown items h (c - created) s s'
    \<and> (\<forall>item \<in> set items. int (length (rounds_of (st_id item) s')) = int (length (rounds_of (st_id item) s)) + wanted now h at item s))"
  using assms(1,2)
proof (induction items arbitrary: created s)
  case Nil
  then show ?case by (simp add: grown_refl)
next
  case (Cons item items)
  obtain res where res: "ensure_item now h at item created s = Some res"
    "\<And>c s'. res = Inr (c, s') \<Longrightarrow> grown [item] h (c - created) s s' \<and> c - created = wanted now h at item s"
    using ensure_item_returns [of item s now h at created] Cons.prems(1) [of item] assms(3-5) by auto
  show ?case
  proof (cases res)
    case (Inl e)
    then show ?thesis using res(1) by simp
  next
    case (Inr x)
    obtain c t where x: "x = (c, t)" by (cases x)
    have G: "grown [item] h (c - created) s t" and W: "c - created = wanted now h at item s"
      using res(2) [OF Inr [unfolded x]] by (rule conjunct1, rule conjunct2)
    have "st_id item \<notin> st_id ` set items" using Cons.prems(2) by simp
    then have ne: "st_id i \<noteq> st_id item" if "i \<in> set items" for i using imageI [OF that, of st_id] by metis
    have "item_ok i \<and> seqs_ok (st_id i) t" if "i \<in> set items" for i
      using Cons.prems(1) [of i] that ne [OF that] grown_other [OF G, of "st_id i"] by auto
    then obtain r2 where r2: "ensure_types now h at items c t = Some r2"
      "\<And>c' s'. r2 = Inr (c', s') \<Longrightarrow> grown items h (c' - c) t s'
        \<and> (\<forall>i \<in> set items. int (length (rounds_of (st_id i) s')) = int (length (rounds_of (st_id i) t)) + wanted now h at i t)"
      using Cons.IH [of t c] Cons.prems(2) by auto
    have "grown (item # items) h (c' - created) s s'
        \<and> (\<forall>i \<in> set (item # items). int (length (rounds_of (st_id i) s')) = int (length (rounds_of (st_id i) s)) + wanted now h at i s)"
      if "r2 = Inr (c', s')" for c' s'
    proof -
      have R: "grown items h (c' - c) t s'" "\<And>i. i \<in> set items \<Longrightarrow> int (length (rounds_of (st_id i) s')) = int (length (rounds_of (st_id i) t)) + wanted now h at i t"
        using r2(2) [OF that] by simp_all
      have "rounds_of (st_id i) t = rounds_of (st_id i) s" if "i \<in> set items" for i using grown_rounds_of [OF G] ne [OF that] by simp
      then have later: "int (length (rounds_of (st_id i) s')) = int (length (rounds_of (st_id i) s)) + wanted now h at i s" if "i \<in> set items" for i
        using R(2) [OF that] wanted_cong [of i t s] that by simp
      have "rounds_of (st_id item) s' = rounds_of (st_id item) t" using grown_rounds_of [OF R(1)] Cons.prems(2) by simp
      then have "int (length (rounds_of (st_id item) s')) = int (length (rounds_of (st_id item) s)) + wanted now h at item s"
        using grown_rounds_of_item [OF G] W by simp
      then show ?thesis using later grown_trans [OF G R(1), of "item # items"] by auto
    qed
    then show ?thesis using res(1) Inr x r2(1) by simp
  qed
qed

lemma scheduled_types_ok:
  assumes "schedulable now h s" "item \<in> set (scheduled_types s)"
  shows "item_ok item \<and> seqs_ok (st_id item) s"
proof -
  obtain g where g: "g \<in> set (game_types s)" "st_id item = gt_id g" "st_close item = seconds (gt_close_before g)"
    "st_interval item = (case gt_interval g of None \<Rightarrow> 0 | Some i \<Rightarrow> i)"
    "st_source item = ''tron_hash'' \<longrightarrow> (case gt_interval g of None \<Rightarrow> False | Some i \<Rightarrow> i > 0)"
    using assms(2) by (auto simp: scheduled_types_def)
  then show ?thesis using assms(1) by (auto simp: schedulable_def item_ok_def seconds_small split: option.splits)
qed

lemma scheduled_types_distinct: "distinct (map gt_id (game_types s)) \<Longrightarrow> distinct (map st_id (scheduled_types s))"
  by (auto simp: scheduled_types_def comp_def distinct_map distinct_filter intro: inj_on_subset)


section \<open>Properties\<close>

definition sample_game_db :: db where
  "sample_game_db = sample_db\<lparr>
     game_rooms := [\<lparr>gr_id = ''room'', gr_code = ''r1'', gr_name = ''Room'', gr_kind = ''hash'', gr_enabled = True\<rparr>],
     game_types := [\<lparr>gt_id = ''hash'', gt_code = ''hash_9'', gt_name = ''Hash'', gt_enabled = True,
        gt_rules = JObj [(''source'', JStr ''tron_hash'')], gt_room = Some ''room'', gt_interval = Some 20, gt_close_before = 5\<rparr>],
     rounds := [\<lparr>r_id = ''r40'', r_type = ''hash'', r_seq = 40, r_status = RoundClosed, r_closes = 900, r_result_at = 950,
                 r_outcome = None, r_settled = None, r_version = 1\<rparr>,
                \<lparr>r_id = ''r60'', r_type = ''hash'', r_seq = 60, r_status = RoundScheduled, r_closes = 60000000, r_result_at = 65000000,
                 r_outcome = None, r_settled = None, r_version = 0\<rparr>]\<rparr>"

lemma sample_schedulable: "schedulable 1000 45 sample_game_db"
  by (auto simp: schedulable_def seqs_ok_def sample_game_db_def near_def)

lemma sample_keys: "round_keys sample_game_db" "open_first ''hash'' sample_game_db"
  by (auto simp: round_keys_def open_first_def sample_game_db_def)

lemma length_filter_modify: "(\<And>r. Q (g r) = Q r) \<Longrightarrow> length (filter Q (modify P g rs)) = length (filter Q rs)"
  by (induction rs) (auto simp: modify_def)

text \<open>C22: within the ranges of the columns the scheduler always returns: its unbounded loop stops. On success every game it
  schedules and does not skip has been filled up to three future rounds, so at most three rounds of a game were appended, and none of a
  game it does not schedule; the number it reports is the number of rounds appended, and those of a hash game have a target block that is
  not yet produced.\<close>

theorem scheduler_returns:
  assumes "schedulable now height s"
  shows "\<exists>res. EnsureScheduledRounds now height at s = Some res \<and> (\<forall>n s'. res = Inr (n, s') \<longrightarrow>
           rounds_move s s' \<and> int (length (rounds s')) = int (length (rounds s)) + n
         \<and> (\<forall>item \<in> set (scheduled_types s). int (length (rounds_of (st_id item) s')) = int (length (rounds_of (st_id item) s))
              + (if first_round now height at item s = None then 0 else max 0 (3 - future_count (st_id item) now s)))
         \<and> (\<forall>t. length (rounds_of t s') \<le> length (rounds_of t s) + 3)
         \<and> (\<forall>r \<in> set (drop (length (rounds s)) (rounds s')). \<exists>item \<in> set (scheduled_types s). r_type r = st_id item
              \<and> (st_source item = ''tron_hash'' \<longrightarrow> height < r_seq r)))"
proof -
  obtain res where res: "ensure_types now height at (scheduled_types s) 0 s = Some res"
    "\<And>c t. res = Inr (c, t) \<Longrightarrow> grown (scheduled_types s) height (c - 0) s t
      \<and> (\<forall>item \<in> set (scheduled_types s). int (length (rounds_of (st_id item) t)) = int (length (rounds_of (st_id item) s)) + wanted now height at item s)"
    using ensure_types_returns [of "scheduled_types s" s now height at 0] scheduled_types_ok [OF assms] scheduled_types_distinct assms
    unfolding schedulable_def by blast
  show ?thesis
  proof (cases res)
    case (Inl e)
    then show ?thesis using res(1) by (simp add: EnsureScheduledRounds_def)
  next
    case (Inr x)
    obtain n t where x: "x = (n, t)" by (cases x)
    have G: "grown (scheduled_types s) height n s t"
      and W: "\<And>item. item \<in> set (scheduled_types s) \<Longrightarrow> int (length (rounds_of (st_id item) t)) = int (length (rounds_of (st_id item) s)) + wanted now height at item s"
      using res(2) [OF Inr [unfolded x]] by simp_all
    obtain new where new: "rounds t = rounds s @ new" "int (length new) = n"
      "\<And>r. r \<in> set new \<Longrightarrow> \<exists>item \<in> set (scheduled_types s). r_type r = st_id item \<and> (st_source item = ''tron_hash'' \<longrightarrow> height < r_seq r)"
      using G unfolding grown_def by blast
    let ?u = "activateScheduledRounds now t"
    have u: "length (rounds_of k ?u) = length (rounds_of k t)" for k by (simp add: rounds_of_def activate_rounds length_filter_modify)
    have three: "length (rounds_of k ?u) \<le> length (rounds_of k s) + 3" for k
    proof (cases "k \<in> st_id ` set (scheduled_types s)")
      case True
      then obtain item where i: "item \<in> set (scheduled_types s)" "k = st_id item" by blast
      have "int (length (rounds_of k ?u)) = int (length (rounds_of k s)) + wanted now height at item s" using W [OF i(1)] u i(2) by simp
      then show ?thesis using wanted_bounds [of now height at item s] by linarith
    next
      case False
      then show ?thesis using grown_rounds_of [OF G False] u by simp
    qed
    have "rounds_move s ?u" using scheduler_moves [OF G] .
    moreover have "drop (length (rounds s)) (rounds ?u) = modify (can_open now t) (\<lambda>r. r\<lparr>r_status := RoundOpen, r_version := r_version r + 1\<rparr>) new"
      unfolding activate_rounds new(1) by (simp add: modify_def)
    moreover have "int (length (rounds_of (st_id item) ?u)) = int (length (rounds_of (st_id item) s))
          + (if first_round now height at item s = None then 0 else max 0 (3 - future_count (st_id item) now s))"
      if "item \<in> set (scheduled_types s)" for item
      using W [OF that] u [of "st_id item"] unfolding wanted_def by simp
    moreover have "EnsureScheduledRounds now height at s = Some (Inr (n, ?u))" using res(1) Inr x by (simp add: EnsureScheduledRounds_def)
    moreover have "int (length (rounds ?u)) = int (length (rounds s)) + n" using new(1,2) by (simp add: activate_rounds)
    moreover have "\<forall>r \<in> set (modify (can_open now t) (\<lambda>r. r\<lparr>r_status := RoundOpen, r_version := r_version r + 1\<rparr>) new).
        \<exists>item \<in> set (scheduled_types s). r_type r = st_id item \<and> (st_source item = ''tron_hash'' \<longrightarrow> height < r_seq r)"
      using new(3) by (auto simp: set_modify)
    ultimately show ?thesis using three by simp
  qed
qed

text \<open>In the sample one future round of the game exists, so two are added.\<close>

theorem scheduler_returns_witness:
  "\<exists>n s'. EnsureScheduledRounds 1000 45 None sample_game_db = Some (Inr (n, s')) \<and> length (rounds_of ''hash'' s') = 4"
proof -
  let ?item = "\<lparr>st_id = ''hash'', st_interval = 20, st_source = ''tron_hash'', st_close = 5000000\<rparr>"
  have i: "scheduled_types sample_game_db = [?item]" and f: "first_round 1000 45 None ?item sample_game_db = Some (80, 105001000)"
    and c: "future_count ''hash'' 1000 sample_game_db = 1" "length (rounds_of ''hash'' sample_game_db) = 2" by code_simp+
  have "case insert_round ''hash'' 80 RoundScheduled 100001000 105001000 sample_game_db of Inl e \<Rightarrow> False | Inr (b, t) \<Rightarrow> b
      \<and> (case insert_round ''hash'' 100 RoundScheduled 160001000 165001000 t of Inl e \<Rightarrow> False | Inr (b, t) \<Rightarrow> b)" by code_simp
  then obtain t1 where t1: "insert_round ''hash'' 80 RoundScheduled 100001000 105001000 sample_game_db = Inr (True, t1)"
    "case insert_round ''hash'' 100 RoundScheduled 160001000 165001000 t1 of Inl e \<Rightarrow> False | Inr (b, t) \<Rightarrow> b"
    by (cases "insert_round ''hash'' 80 RoundScheduled 100001000 105001000 sample_game_db") auto
  then obtain t2 where t2: "insert_round ''hash'' 100 RoundScheduled 160001000 165001000 t1 = Inr (True, t2)"
    by (cases "insert_round ''hash'' 100 RoundScheduled 160001000 165001000 t1") auto
  note t = t1(1) t2
  have "cycle_of ?item = 60000000" "wrap64 100 = 100" by code_simp+
  then have "ensure_loop ?item 80 105001000 1 0 sample_game_db = Some (Inr (2, t2))"
    using t by (subst ensure_loop.simps, simp, subst ensure_loop.simps, simp, subst ensure_loop.simps, simp)
  then obtain n s' where run: "EnsureScheduledRounds 1000 45 None sample_game_db = Some (Inr (n, s'))"
    using i f c by (auto simp: EnsureScheduledRounds_def ensure_item_def)
  have "int (length (rounds_of ''hash'' s')) = 4"
    using scheduler_returns [OF sample_schedulable, of None] run i f c by auto
  then show ?thesis using run by auto
qed

text \<open>C21: the rounds of a game are played one at a time. From a state with distinct keys in which no open round of
  a game has an unfinished predecessor, activation, scheduling, closing and the start of settlement lead to such a
  state again, they only move rounds forward, and at most one round of the game is open.\<close>

theorem one_round_at_a_time:
  assumes "round_keys s" "open_first t s"
    and "ActivateScheduledRounds now s = Inr ((), s') \<or> CloseDue now limit s = Inr (ids, s') \<or> pg_BeginSettlement i s = Inr ((), s')
       \<or> (schedulable now height s \<and> EnsureScheduledRounds now height at s = Some (Inr (n, s')))"
  shows "rounds_move s s' \<and> round_keys s' \<and> open_first t s' \<and> one_open t s'"
proof -
  have "rounds_move s s' \<and> round_keys s' \<and> open_first t s'" using assms(3)
  proof (elim disjE conjE)
    assume "ActivateScheduledRounds now s = Inr ((), s')"
    then show ?thesis using assms(1,2) activate_moves activate_open_first by (auto simp: ActivateScheduledRounds_def)
  next
    assume a: "schedulable now height s" "EnsureScheduledRounds now height at s = Some (Inr (n, s'))"
    obtain res where "ensure_types now height at (scheduled_types s) 0 s = Some res"
      "\<And>c u. res = Inr (c, u) \<Longrightarrow> grown (scheduled_types s) height (c - 0) s u"
      using ensure_types_returns [of "scheduled_types s" s now height at 0] scheduled_types_ok [OF a(1)] scheduled_types_distinct a(1)
      unfolding schedulable_def by blast
    then obtain u where u: "grown (scheduled_types s) height n s u" "s' = activateScheduledRounds now u"
      using a(2) by (auto simp: EnsureScheduledRounds_def split: sum.splits)
    then show ?thesis using scheduler_moves assms(1,2) activate_open_first unfolding grown_def by auto
  qed (use CloseDue_moves pg_BeginSettlement_moves assms(1,2) in blast)+
  then show ?thesis using one_openI by blast
qed

theorem one_round_at_a_time_witness:
  "one_open ''hash'' (snd ((\<lambda>m. case m of Inr r \<Rightarrow> r) (ActivateScheduledRounds 1000 sample_game_db)))"
  using one_round_at_a_time [OF sample_keys, of 1000 "activateScheduledRounds 1000 sample_game_db"]
  by (simp add: ActivateScheduledRounds_def)

end
