(* ===== verification/Draw_Results.thy ===== *)
theory Draw_Results
  imports Game_Rounds "HOL-Library.Word"
begin

text \<open>
  Where the outcome of a round comes from: \<^verbatim>\<open>internal/application/settlement\<close> (\<^verbatim>\<open>digit.go\<close>,
  \<^verbatim>\<open>results.go\<close>, \<^verbatim>\<open>composite.go\<close>, \<^verbatim>\<open>lulu.go\<close> and the decision parts of \<^verbatim>\<open>tron_hash.go\<close> and
  \<^verbatim>\<open>okx_kline.go\<close>). The fallback source draws from SHA-256 of the round's identity; the others map
  the last digit of a block hash or closing price, or the confirmed rooms of an external draw. The
  network calls (a block by height, the candles of the exchange, its stream) are parameters.
\<close>

unbundle bit_operations_syntax

section \<open>digit.go\<close>

fun first_digit :: "string \<Rightarrow> int option" where
  "first_digit [] = None"
| "first_digit (c # cs) = (if is_digit c then Some (int (code c) - 48) else first_digit cs)"

text \<open>The scan runs from the end of the text.\<close>

definition lastDigit :: "string \<Rightarrow> error + int" where
  "lastDigit input = orErr (Settlement ErrNoDigitFound) (first_digit (rev input))"

datatype outcomeShape = ShapeDigit | ShapeBigSmall | ShapeDodge | ShapeOddEven

definition detectShape :: "string list \<Rightarrow> bool \<Rightarrow> outcomeShape" where
  "detectShape outcomes dodgeMode =
     (if dodgeMode then ShapeDodge
      else if ''big'' \<in> set outcomes then ShapeBigSmall
      else if list_ex (\<lambda>outcome. length outcome = 1 \<and> is_digit (hd outcome)) outcomes then ShapeDigit
      else ShapeOddEven)"

definition bigSmallOutcome :: "int \<Rightarrow> string list" where
  "bigSmallOutcome digit =
     [if digit \<ge> 5 then ''big'' else ''small'', if go_mod digit 2 = 1 then ''odd'' else ''even'']"

definition oddEvenOutcome :: "int \<Rightarrow> string list" where
  "oddEvenOutcome digit = (if go_mod digit 2 = 1 then [''odd''] else [''even''])"

definition mapOutcome :: "int \<Rightarrow> outcomeShape \<Rightarrow> string list" where
  "mapOutcome digit shape =
     (case shape of
        ShapeDigit \<Rightarrow> [format_int digit]
      | ShapeBigSmall \<Rightarrow> bigSmallOutcome digit
      | ShapeDodge \<Rightarrow> [''dodge_'' @ format_int digit]
      | ShapeOddEven \<Rightarrow> oddEvenOutcome digit)"

definition sharedHashOutcome :: "int \<Rightarrow> string list" where
  "sharedHashOutcome digit = [format_int digit, bigSmallOutcome digit ! 0, oddEvenOutcome digit ! 0]"

definition containsOutcome :: "string list \<Rightarrow> string \<Rightarrow> bool" where
  "containsOutcome outcomes target = list_ex (\<lambda>outcome. equal_fold outcome target) outcomes"

section \<open>crypto/sha256\<close>

text \<open>SHA-256 as FIPS 180-4 defines it, on 32-bit words, its constants in decimal; a text is its bytes.\<close>

definition sha_k :: "32 word list" where
  "sha_k = [1116352408, 1899447441, 3049323471, 3921009573, 961987163, 1508970993, 2453635748, 2870763221,
     3624381080, 310598401, 607225278, 1426881987, 1925078388, 2162078206, 2614888103, 3248222580,
     3835390401, 4022224774, 264347078, 604807628, 770255983, 1249150122, 1555081692, 1996064986,
     2554220882, 2821834349, 2952996808, 3210313671, 3336571891, 3584528711, 113926993, 338241895,
     666307205, 773529912, 1294757372, 1396182291, 1695183700, 1986661051, 2177026350, 2456956037,
     2730485921, 2820302411, 3259730800, 3345764771, 3516065817, 3600352804, 4094571909, 275423344,
     430227734, 506948616, 659060556, 883997877, 958139571, 1322822218, 1537002063, 1747873779,
     1955562222, 2024104815, 2227730452, 2361852424, 2428436474, 2756734187, 3204031479, 3329325298]"

definition sha_init :: "32 word list" where
  "sha_init = [1779033703, 3144134277, 1013904242, 2773480762, 1359893119, 2600822924, 528734635, 1541459225]"

fun big_endian :: "nat \<Rightarrow> int \<Rightarrow> int list" where
  "big_endian 0 n = []"
| "big_endian (Suc k) n = big_endian k (n div 256) @ [n mod 256]"

definition from_bytes :: "int list \<Rightarrow> int" where
  "from_bytes bs = foldl (\<lambda>n b. 256 * n + b) 0 bs"

definition sha_pad :: "int list \<Rightarrow> int list" where
  "sha_pad m = m @ 128 # replicate ((119 - length m mod 64) mod 64) 0 @ big_endian 8 (8 * int (length m))"

fun chunks :: "nat \<Rightarrow> nat \<Rightarrow> 'a list \<Rightarrow> 'a list list" where
  "chunks 0 n xs = []"
| "chunks (Suc k) n xs = take n xs # chunks k n (drop n xs)"

definition rotr :: "nat \<Rightarrow> 32 word \<Rightarrow> 32 word" where
  "rotr n w = drop_bit n w OR push_bit (32 - n) w"

text \<open>The message schedule, latest word first.\<close>

fun schedule :: "nat \<Rightarrow> 32 word list \<Rightarrow> 32 word list" where
  "schedule 0 ws = ws"
| "schedule (Suc n) ws =
     (let s0 = rotr 7 (ws ! 14) XOR rotr 18 (ws ! 14) XOR drop_bit 3 (ws ! 14);
          s1 = rotr 17 (ws ! 1) XOR rotr 19 (ws ! 1) XOR drop_bit 10 (ws ! 1)
      in schedule n ((ws ! 15 + s0 + ws ! 6 + s1) # ws))"

fun sha_round :: "32 word list \<Rightarrow> 32 word \<times> 32 word \<Rightarrow> 32 word list" where
  "sha_round [a, b, c, d, e, f, g, h] (k, w) =
     (let s1 = rotr 6 e XOR rotr 11 e XOR rotr 25 e;
          ch = (e AND f) XOR (NOT e AND g);
          t1 = h + s1 + ch + k + w;
          s0 = rotr 2 a XOR rotr 13 a XOR rotr 22 a;
          maj = (a AND b) XOR (a AND c) XOR (b AND c)
      in [t1 + s0 + maj, a, b, c, d + t1, e, f, g])"
| "sha_round v kw = v"

definition sha_block :: "32 word list \<Rightarrow> int list \<Rightarrow> 32 word list" where
  "sha_block v block =
     (let w = rev (schedule 48 (rev (map (\<lambda>bs. word_of_int (from_bytes bs)) (chunks 16 4 block))))
      in map2 (+) v (foldl sha_round v (zip sha_k w)))"

definition sha256 :: "string \<Rightarrow> int list" where
  "sha256 s =
     (let m = sha_pad (map (\<lambda>c. int (code c)) s);
          v = foldl sha_block sha_init (chunks (length m div 64) 64 m)
      in concat (map (\<lambda>w. big_endian 4 (uint w)) v))"

section \<open>results.go\<close>

text \<open>One draw per step: eight bytes of the seed, modulo what is left of the pool.\<close>

definition window :: "nat \<Rightarrow> nat" where
  "window index = (index * 8) mod (32 - 8)"

primrec draw_loop :: "int list \<Rightarrow> nat \<Rightarrow> nat \<Rightarrow> string list \<Rightarrow> string list" where
  "draw_loop seed index 0 pool = []"
| "draw_loop seed index (Suc n) pool =
     (let roll = from_bytes (take 8 (drop (window index) seed));
          pick = nat (roll mod int (length pool))
      in pool ! pick # draw_loop seed (Suc index) n (take pick pool @ drop (Suc pick) pool))"

definition hash_Outcome :: "Round \<Rightarrow> Rules \<Rightarrow> error + string list" where
  "hash_Outcome round rules =
     bindE (validateRules rules) (\<lambda>_.
     Inr (draw_loop (sha256 (GameType round @ '':'' @ format_int (Sequence round) @ '':'' @ RoundID round)) 0
            (nat (DrawCount rules)) (Outcomes rules)))"

section \<open>lulu.go\<close>

definition decode_shared :: "json option \<Rightarrow> bool option" where
  "decode_shared raw = Option.bind raw (field ''lulu_shared'' dec_bool False)"

definition add_new :: "string list \<Rightarrow> string \<Rightarrow> string list" where
  "add_new outcome v = (if v \<in> set outcome then outcome else outcome @ [v])"

definition luluOutcomeForRules :: "Rules \<Rightarrow> string list \<Rightarrow> error + string list" where
  "luluOutcomeForRules rules values =
     (case Option.bind (Extras rules) (\<lambda>j.
             Option.bind (field ''lulu_shared'' dec_bool False j) (\<lambda>shared.
             Option.bind (field ''result_map'' (dec_map (dec_slice dec_string []) []) [] j) (\<lambda>m. Some (shared, m)))) of
        None \<Rightarrow> Inl (Game ErrInvalidRules)
      | Some e \<Rightarrow>
          if fst e then Inr values
          else let outcome = fold (\<lambda>v outcome. foldl add_new outcome (mapped (snd e) v)) values [] in
               if outcome = [] then Inl (Game ErrInvalidRules) else Inr outcome)"

definition lulu_Outcome :: "db \<Rightarrow> Round \<Rightarrow> Rules \<Rightarrow> error + string list" where
  "lulu_Outcome s round rules =
     bindE (validateRules rules) (\<lambda>_.
     case Option.bind (Extras rules) (field ''external_game'' dec_string []) of
       None \<Rightarrow> Inl (Game ErrInvalidRules)
     | Some game \<Rightarrow>
         if Source rules \<noteq> ''lulu_ws'' then Inl (Game ErrInvalidRules)
         else case lookup (\<lambda>d. ed_game d = game \<and> ed_round d = Sequence round \<and> ed_status d = DrawConfirmed) (draws s) of
                None \<Rightarrow> Inl (Settlement ErrBlockNotFound)
              | Some d \<Rightarrow>
                  (case decode_strings (ed_outcome d) of
                     None \<Rightarrow> Inl (Settlement LuluOutcomeInvalid)
                   | Some values \<Rightarrow> if values = [] then Inl (Settlement LuluOutcomeInvalid) else luluOutcomeForRules rules values))"

section \<open>tron_hash.go, okx_kline.go\<close>

text \<open>The hash of a block by height, empty when it is not produced, as the node client returns it.\<close>

definition fetchBlockHash :: "(int \<Rightarrow> error + string) \<Rightarrow> int \<Rightarrow> error + string" where
  "fetchBlockHash block height =
     bindE (block height) (\<lambda>hash. if hash = [] then Inl (Settlement ErrBlockNotFound) else Inr hash)"

definition tron_Outcome :: "(int \<Rightarrow> error + string) \<Rightarrow> Round \<Rightarrow> Rules \<Rightarrow> error + string list" where
  "tron_Outcome block round rules =
     bindE (case Extras rules of
              None \<Rightarrow> Inr (0, False)
            | Some j \<Rightarrow> orErr JsonError (Option.bind (field ''block_interval'' dec_int 0 j) (\<lambda>i.
                          Option.bind (field ''hash_shared'' dec_bool False j) (\<lambda>shared. Some (i, shared))))) (\<lambda>extras.
     if fst extras \<le> 0 then Inl (Settlement BlockIntervalRequired)
     else if Sequence round \<le> 0 then Inl (Settlement BlockHeightRequired)
     else bindE (fetchBlockHash block (Sequence round)) (\<lambda>hash.
          bindE (lastDigit hash) (\<lambda>digit.
          Inr (if snd extras then sharedHashOutcome digit
               else mapOutcome digit (detectShape (Outcomes rules) (DodgeMode rules))))))"

text \<open>The zero \<^verbatim>\<open>time.Time\<close>, and \<^verbatim>\<open>Truncate(time.Minute)\<close>, which counts from it.\<close>

definition zero_time :: int where
  "zero_time = - 62135596800000000"

definition outcomeFromClose :: "string \<Rightarrow> Rules \<Rightarrow> error + string list" where
  "outcomeFromClose closePrice rules =
     bindE (lastDigit closePrice) (\<lambda>digit. Inr (mapOutcome digit (detectShape (Outcomes rules) (DodgeMode rules))))"

record candlesResponse =
  cs_code :: string
  cs_data :: "string list list"

text \<open>\<^verbatim>\<open>fmt.Sscanf(ts, "%d", &value)\<close>: leading blanks, a sign, and the digits that follow; the rest is not read.\<close>

definition parseOkxTimestamp :: "string \<Rightarrow> int option" where
  "parseOkxTimestamp ts =
     (let t = dropWhile is_space ts;
          sign = (if t \<noteq> [] \<and> (hd t = CHR ''-'' \<or> hd t = CHR ''+'') then [hd t] else [])
      in parse_int64 (sign @ takeWhile is_digit (drop (length sign) t)))"

text \<open>\<open>rest symbol afterMs\<close> is the decoded answer of the candles request.\<close>

definition fetchKlineClose :: "(string \<Rightarrow> int \<Rightarrow> error + candlesResponse) \<Rightarrow> string \<Rightarrow> int \<Rightarrow> error + string" where
  "fetchKlineClose rest symbol targetMinute =
     bindE (rest symbol ((targetMinute + minute) div 1000)) (\<lambda>candles.
     if cs_code candles \<noteq> ''0'' then Inl (Settlement SourceUnavailable)
     else case cs_data candles of
            [] \<Rightarrow> Inl (Settlement ErrKlineNotReady)
          | candle # _ \<Rightarrow>
              if length candle < 9 then Inl (Settlement SourceUnavailable)
              else bindE (orErr (Settlement SourceUnavailable) (parseOkxTimestamp (candle ! 0))) (\<lambda>candleTs.
                   if candleTs \<noteq> targetMinute div 1000 then Inl (Settlement ErrKlineNotReady)
                   else if candle ! 8 \<noteq> ''1'' then Inl (Settlement ErrKlineNotReady)
                   else if candle ! 4 = [] then Inl (Settlement SourceUnavailable)
                   else Inr (candle ! 4)))"

definition okx_Outcome ::
  "(string \<Rightarrow> int \<Rightarrow> string option) option \<Rightarrow> (string \<Rightarrow> int \<Rightarrow> error + candlesResponse) \<Rightarrow> Round \<Rightarrow> Rules \<Rightarrow> error + string list" where
  "okx_Outcome stream rest round rules =
     bindE (case Extras rules of None \<Rightarrow> Inr [] | Some j \<Rightarrow> orErr JsonError (field ''symbol'' dec_string [] j)) (\<lambda>symbol.
     if symbol = [] then Inl (Settlement SymbolRequired)
     else let resultAt = (if ResultAt round = zero_time then BetClosesAt round + seconds 3 else ResultAt round);
              targetMinute = resultAt - resultAt mod minute - minute
          in case Option.bind stream (\<lambda>closePrice. closePrice symbol targetMinute) of
               Some price \<Rightarrow> outcomeFromClose price rules
             | None \<Rightarrow> bindE (fetchKlineClose rest symbol targetMinute) (\<lambda>price. outcomeFromClose price rules))"

section \<open>composite.go\<close>

text \<open>The external sources a deployment is configured with.\<close>

record sources =
  tronBlock :: "int \<Rightarrow> error + string"
  klineStream :: "(string \<Rightarrow> int \<Rightarrow> string option) option"
  klineRest :: "string \<Rightarrow> int \<Rightarrow> error + candlesResponse"

definition composite_Outcome :: "sources \<Rightarrow> db \<Rightarrow> Round \<Rightarrow> Rules \<Rightarrow> error + string list" where
  "composite_Outcome src s round rules =
     (if Source rules = ''lulu_ws'' then lulu_Outcome s round rules
      else if Source rules = ''tron_hash'' then tron_Outcome (tronBlock src) round rules
      else if Source rules = ''okx_kline'' then okx_Outcome (klineStream src) (klineRest src) round rules
      else hash_Outcome round rules)"


section \<open>Lemmas\<close>

lemma draw_loop_pool:
  "n \<le> length pool \<Longrightarrow> distinct pool \<Longrightarrow>
   length (draw_loop seed index n pool) = n \<and> distinct (draw_loop seed index n pool) \<and> set (draw_loop seed index n pool) \<subseteq> set pool"
proof (induction n arbitrary: index pool)
  case (Suc n)
  define roll where "roll = from_bytes (take 8 (drop (window index) seed))"
  define pick where "pick = nat (roll mod int (length pool))"
  let ?rest = "take pick pool @ drop (Suc pick) pool"
  have "0 < length pool" using Suc.prems(1) by linarith
  then have "0 < int (length pool)" by simp
  then have p: "pick < length pool" using pos_mod_bound [of "int (length pool)" roll] by (simp add: pick_def nat_less_iff)
  have split: "pool = take pick pool @ pool ! pick # drop (Suc pick) pool" using p by (rule id_take_nth_drop)
  have "distinct (take pick pool @ pool ! pick # drop (Suc pick) pool)" using Suc.prems(2) split by metis
  then have d: "distinct ?rest" "pool ! pick \<notin> set ?rest" by simp_all
  have sub: "set ?rest \<subseteq> set pool" by (auto dest: in_set_takeD in_set_dropD)
  have "n \<le> length ?rest" using p Suc.prems(1) by simp
  from Suc.IH [OF this d(1), of "Suc index"] obtain R where R: "R = draw_loop seed (Suc index) n ?rest" "length R = n" "distinct R" "set R \<subseteq> set ?rest"
    by blast
  have eq: "draw_loop seed index (Suc n) pool = pool ! pick # R"
    by (simp only: draw_loop.simps(2) Let_def pick_def roll_def R(1))
  have "pool ! pick \<notin> set R" "pool ! pick \<in> set pool" "set R \<subseteq> set pool" using R(4) d(2) sub p by (blast, simp, blast)
  then show ?case unfolding eq using R(2,3) by simp
qed simp

lemma first_digit_range: "first_digit s = Some d \<Longrightarrow> 0 \<le> d \<and> d \<le> 9"
  by (induction s) (auto simp: is_digit_def split: if_splits)

lemma lastDigit_range: "lastDigit s = Inr d \<Longrightarrow> 0 \<le> d \<and> d \<le> 9"
  by (auto simp: lastDigit_def orErr_eq_Inr dest: first_digit_range)

lemma lastDigit_Inl: "lastDigit s = Inl e \<longleftrightarrow> e = Settlement ErrNoDigitFound \<and> (\<forall>c \<in> set s. \<not> is_digit c)"
proof -
  have N: "first_digit t = None \<longleftrightarrow> (\<forall>c \<in> set t. \<not> is_digit c)" for t by (induction t) auto
  show ?thesis using N [of "rev s"] by (cases "first_digit (rev s)") (auto simp: lastDigit_def)
qed

lemma lastDigit_char: "lastDigit (s @ [c] @ t) = Inr (int (code c) - 48)" if "is_digit c" "\<forall>x \<in> set t. \<not> is_digit x"
proof -
  have "first_digit (u @ c # v) = Some (int (code c) - 48)" if "\<forall>x \<in> set u. \<not> is_digit x" for u v
    using that \<open>is_digit c\<close> by (induction u) auto
  then show ?thesis using that(2) by (simp add: lastDigit_def)
qed

lemma digit_cases: "0 \<le> d \<Longrightarrow> d \<le> 9 \<Longrightarrow> d \<in> {0, 1, 2, 3, 4, 5, 6, 7, 8, 9 :: int}"
  by (simp, presburger)

lemma shared_outcomes:
  "map sharedHashOutcome [0..9] =
     [[''0'', ''small'', ''even''], [''1'', ''small'', ''odd''], [''2'', ''small'', ''even''], [''3'', ''small'', ''odd''], [''4'', ''small'', ''even''],
      [''5'', ''big'', ''odd''], [''6'', ''big'', ''even''], [''7'', ''big'', ''odd''], [''8'', ''big'', ''even''], [''9'', ''big'', ''odd'']]"
  by code_simp

lemma sharedHashOutcome_digits:
  "sharedHashOutcome 0 = [''0'', ''small'', ''even''] \<and> sharedHashOutcome 1 = [''1'', ''small'', ''odd''] \<and> sharedHashOutcome 2 = [''2'', ''small'', ''even'']
   \<and> sharedHashOutcome 3 = [''3'', ''small'', ''odd''] \<and> sharedHashOutcome 4 = [''4'', ''small'', ''even''] \<and> sharedHashOutcome 5 = [''5'', ''big'', ''odd'']
   \<and> sharedHashOutcome 6 = [''6'', ''big'', ''even''] \<and> sharedHashOutcome 7 = [''7'', ''big'', ''odd''] \<and> sharedHashOutcome 8 = [''8'', ''big'', ''even'']
   \<and> sharedHashOutcome 9 = [''9'', ''big'', ''odd'']"
proof -
  have "[0..9::int] = [0, 1, 2, 3, 4, 5, 6, 7, 8, 9]" by code_simp
  then show ?thesis using shared_outcomes by simp
qed

definition trend_item :: "int \<Rightarrow> int \<Rightarrow> int \<Rightarrow> HashTrendItem" where
  "trend_item sequence d at = \<lparr>ti_sequence = sequence, ti_digit = d, ti_size = (if d \<ge> 5 then ''big'' else ''small''),
     ti_parity = (if d mod 2 = 1 then ''odd'' else ''even''), ti_settled = at\<rparr>"

lemma trend_digit:
  "trend_values (sharedHashOutcome d) \<lparr>ti_sequence = sequence, ti_digit = - 1, ti_size = [], ti_parity = [], ti_settled = at\<rparr> = trend_item sequence d at"
  if "0 \<le> d" "d \<le> 9"
  using digit_cases [OF that]
  by (elim insertE emptyE; simp add: sharedHashOutcome_digits trend_item_def; code_simp)

section \<open>Properties\<close>

text \<open>the fallback source never fails on valid rules and never draws outside them: it returns as many outcomes as the
  rules ask for, all different and all from the pool, and the same ones for the same round. The windows of the hash
  it draws from repeat after three draws, so the fourth draw reads the same bytes as the first.\<close>

theorem hash_draw:
  assumes "validateRules rules = Inr ()"
  shows "(\<exists>drawn. hash_Outcome round rules = Inr drawn \<and> int (length drawn) = DrawCount rules \<and> distinct drawn
           \<and> set drawn \<subseteq> set (Outcomes rules) \<and> [] \<notin> set drawn)
       \<and> draw_loop seed (index + 3) n pool = draw_loop seed index n pool"
proof -
  have ok: "rules_ok rules" using assms validateRules_iff by blast
  let ?n = "nat (DrawCount rules)"
  define d where "d = draw_loop (sha256 (GameType round @ '':'' @ format_int (Sequence round) @ '':'' @ RoundID round)) 0 ?n (Outcomes rules)"
  have n: "?n \<le> length (Outcomes rules)" "int ?n = DrawCount rules" using rules_ok_counts [OF ok] by auto
  have h: "hash_Outcome round rules = Inr d" unfolding hash_Outcome_def d_def assms bindE_Inr ..
  have l: "length d = ?n \<and> distinct d \<and> set d \<subseteq> set (Outcomes rules)"
    unfolding d_def by (rule draw_loop_pool [OF n(1)]) (use ok in \<open>simp add: rules_ok_def\<close>)
  have e: "[] \<notin> set (Outcomes rules)" using ok by (simp add: rules_ok_def)
  have "draw_loop seed (index + 3) n pool = draw_loop seed index n pool"
  proof (induction n arbitrary: index pool)
    case (Suc n)
    have "(index + 3) * 8 = index * 8 + 24" "(32 - 8 :: nat) = 24" by simp_all
    then have W: "window (index + 3) = window index" by (simp only: window_def mod_add_self2)
    have IH: "draw_loop seed (Suc (index + 3)) n p = draw_loop seed (Suc index) n p" for p
      using Suc.IH [of "Suc index" p] unfolding add_Suc .
    show ?case by (simp only: draw_loop.simps(2) Let_def W IH)
  next
    case 0
    show ?case unfolding draw_loop.simps ..
  qed
  moreover have "int (length d) = DrawCount rules \<and> distinct d \<and> set d \<subseteq> set (Outcomes rules) \<and> [] \<notin> set d" using l e n(2) by auto
  ultimately show ?thesis using h by simp
qed

theorem hash_draw_witness: "\<exists>drawn. hash_Outcome \<lparr>RoundID = ''r'', GameType = ''g'', Sequence = 1, Status = RoundClosed, BetClosesAt = 0,
    ResultAt = 0, SettledAt = None, Outcome = []\<rparr> sample_rules = Inr drawn \<and> length drawn = 1"
proof -
  have v: "validateRules sample_rules = Inr ()" using validateRules_iff ParseRules_ok [OF sample_rules_parse] by blast
  have "DrawCount sample_rules = 1" by (simp add: sample_rules_def DrawCount_def)
  then show ?thesis using hash_draw [OF v, of _ "[]" 0 0 "[]"] by force
qed

text \<open>a block hash that contains a digit decides a hash round: the last digit is taken wherever it stands, the shared
  outcome carries the digit with its size and parity, and the trend page reads exactly that back from the stored
  outcome. A hash without a digit is \<^verbatim>\<open>ErrNoDigitFound\<close>, a block that is not produced \<^verbatim>\<open>ErrBlockNotFound\<close>.\<close>

theorem block_digit_roundtrip:
  assumes "Extras rules = Some extras" "field ''block_interval'' dec_int 0 extras = Some interval" "0 < interval"
    and "field ''hash_shared'' dec_bool False extras = Some True" "0 < Sequence round" "block (Sequence round) = Inr hash"
  shows "(hash = [] \<longrightarrow> tron_Outcome block round rules = Inl (Settlement ErrBlockNotFound))
       \<and> (hash \<noteq> [] \<and> (\<forall>c \<in> set hash. \<not> is_digit c) \<longrightarrow> tron_Outcome block round rules = Inl (Settlement ErrNoDigitFound))
       \<and> (hash = pre @ [c] @ post \<and> is_digit c \<and> (\<forall>x \<in> set post. \<not> is_digit x) \<longrightarrow>
            tron_Outcome block round rules = Inr (sharedHashOutcome (int (code c) - 48))
          \<and> parseHashTrendOutcome (Sequence round) (Some (encode_strings (sharedHashOutcome (int (code c) - 48)))) at
              = Inr (trend_item (Sequence round) (int (code c) - 48) at))"
proof -
  have T: "tron_Outcome block round rules =
      bindE (fetchBlockHash block (Sequence round)) (\<lambda>hash. bindE (lastDigit hash) (\<lambda>digit. Inr (sharedHashOutcome digit)))"
    using assms by (simp add: tron_Outcome_def)
  have F: "fetchBlockHash block (Sequence round) = (if hash = [] then Inl (Settlement ErrBlockNotFound) else Inr hash)"
    using assms(6) by (simp add: fetchBlockHash_def)
  have P: "parseHashTrendOutcome (Sequence round) (Some (encode_strings (sharedHashOutcome d))) at = Inr (trend_item (Sequence round) d at)"
    if "0 \<le> d" "d \<le> 9" for d
    using that trend_digit [OF that] by (simp add: parseHashTrendOutcome_def Let_def trend_item_def)
  have "lastDigit hash = Inl (Settlement ErrNoDigitFound)" if "\<forall>c \<in> set hash. \<not> is_digit c" using that lastDigit_Inl by blast
  moreover have "lastDigit hash = Inr (int (code c) - 48)" "0 \<le> int (code c) - 48" "int (code c) - 48 \<le> 9"
    if "hash = pre @ [c] @ post" "is_digit c" "\<forall>x \<in> set post. \<not> is_digit x"
    using that lastDigit_char [of c post pre] by (auto simp: is_digit_def)
  ultimately show ?thesis using T F P by auto
qed

definition sample_hash_extras :: json where
  "sample_hash_extras = JObj [(''block_interval'', JNum ''20''), (''hash_shared'', JBool True)]"

definition sample_round :: Round where
  "sample_round = \<lparr>RoundID = ''r40'', GameType = ''hash_9'', Sequence = 40, Status = RoundClosed, BetClosesAt = 900, ResultAt = 950,
     SettledAt = None, Outcome = []\<rparr>"

theorem block_digit_roundtrip_witness:
  "tron_Outcome (\<lambda>_. Inr ''0x7abc'') sample_round (sample_rules\<lparr>Extras := Some sample_hash_extras\<rparr>) = Inr (sharedHashOutcome 7)"
proof -
  have x: "field ''block_interval'' dec_int 0 sample_hash_extras = Some 20" "field ''hash_shared'' dec_bool False sample_hash_extras = Some True"
    by code_simp+
  have d: "is_digit CHR ''7''" "\<forall>x \<in> set ''abc''. \<not> is_digit x" "int (code CHR ''7'') - 48 = 7" by code_simp+
  have "Extras (sample_rules\<lparr>Extras := Some sample_hash_extras\<rparr>) = Some sample_hash_extras" "0 < Sequence sample_round"
    by (simp_all add: sample_round_def)
  from block_digit_roundtrip [OF this(1) x(1) _ x(2) this(2), of "\<lambda>_. Inr ''0x7abc''" "''0x7abc''" "''0x''" "CHR ''7''" "''abc''"]
  show ?thesis using d by simp
qed

end
