(* ===== verification/Rebate.thy ===== *)
theory Rebate
  imports Books
begin

text \<open>
  Rebates and commissions: \<^verbatim>\<open>internal/application/rebate\<close> (\<^verbatim>\<open>calculation.go\<close>, \<^verbatim>\<open>payment.go\<close>,
  \<^verbatim>\<open>snapshot.go\<close>, \<^verbatim>\<open>service.go\<close>) and \<^verbatim>\<open>internal/application/settlement/commission.go\<close>. A bet freezes
  the chain of its player's agents when it is placed (\<open>SnapshotTx\<close>); settlement loads it,
  computes the differential rebates (\<open>Calculate\<close>) and pays each (\<open>PayTx\<close>). Bets without a
  snapshot pay the direct agent's commission (\<open>applyCommission\<close>).
\<close>

section \<open>calculation.go\<close>

record Allocation =
  aAncestor :: ancestor
  aBase :: int
  aDiff :: int
  aAmount :: int

definition rebate_amount :: "int \<Rightarrow> int \<Rightarrow> int" where
  "rebate_amount base delta =
     wrap64 (wrap64 (go_div base 1000 * delta) + go_div (wrap64 (go_mod base 1000 * delta)) 1000)"

fun calc_loop :: "int \<Rightarrow> int \<Rightarrow> int \<Rightarrow> ancestor list \<Rightarrow> error + Allocation list" where
  "calc_loop base level rate [] = Inr []"
| "calc_loop base level rate (a # chain) =
     (if an_level a < 0 \<or> an_level a > 6 \<or> an_rate a < 0 \<or> an_rate a > 1000 then Inl (Rebate RebateInvalid)
      else if an_virtual a \<or> an_level a \<le> level \<or> an_rate a \<le> rate then calc_loop base level rate chain
      else let delta = an_rate a - rate;
               amount = rebate_amount base delta
           in bindE (calc_loop base (an_level a) (an_rate a) chain) (\<lambda>result.
              Inr (if amount > 0 then \<lparr>aAncestor = a, aBase = base, aDiff = delta, aAmount = amount\<rparr> # result else result)))"

definition rebate_modes :: "string list" where
  "rebate_modes = [''road'', ''guess'', ''dodge'', ''direct'', ''up_down'', ''left_right'', ''odd_even'', ''winner'']"

definition rebate_base :: "int \<Rightarrow> int \<Rightarrow> string \<Rightarrow> int" where
  "rebate_base stake payout mode = (if mode = ''dodge'' then if payout > stake then payout - stake else 0 else stake)"

definition Calculate :: "int \<Rightarrow> int \<Rightarrow> string \<Rightarrow> ancestor list \<Rightarrow> error + Allocation list" where
  "Calculate stake payout mode chain =
     (if stake < 0 \<or> payout < 0 then Inl (Rebate RebateInvalid)
      else if mode \<notin> set rebate_modes then Inl (Rebate RebateInvalid)
      else calc_loop (rebate_base stake payout mode) 0 0 chain)"

section \<open>payment.go\<close>

text \<open>\<^verbatim>\<open>INSERT INTO commission_entries \<dots> ON CONFLICT(source_bet_id,beneficiary_user_id) DO NOTHING\<close>:
  no id when the pair exists.\<close>

definition insert_commission :: "string \<Rightarrow> string \<Rightarrow> string \<Rightarrow> int \<Rightarrow> string option tx" where
  "insert_commission betID user currency amount s =
     (let (i, s) = new_uuid s in
      if lookup (\<lambda>c. ce_bet c = betID \<and> ce_user c = user) (commissions s) \<noteq> None then Inr (None, s)
      else if lookup (\<lambda>c. ce_id c = i) (commissions s) \<noteq> None then Inl (DB Unique)
      else if lookup (\<lambda>b. b_id b = betID) (bets s) = None \<or> user_by_id s user = None then Inl (DB ForeignKey)
      else Inr (Some i, s\<lparr>commissions := commissions s @
             [\<lparr>ce_id = i, ce_bet = betID, ce_user = user, ce_currency = currency, ce_amount = amount, ce_status = ''paid''\<rparr>]\<rparr>))"

definition insert_allocation :: "allocation_row \<Rightarrow> db \<Rightarrow> error + db" where
  "insert_allocation a s =
     (if al_base a \<le> 0 \<or> al_level a < 1 \<or> al_level a > 6 \<or> al_diff a < 1 \<or> al_diff a > 1000 then Inl (DB Check)
      else if lookup (\<lambda>x. al_commission x = al_commission a \<or> (al_bet x = al_bet a \<and> al_user x = al_user a)) (allocations s) \<noteq> None
      then Inl (DB Unique)
      else if lookup (\<lambda>c. ce_id c = al_commission a) (commissions s) = None
              \<or> lookup (\<lambda>n. sn_bet n = al_bet a) (snapshots s) = None \<or> user_by_id s (al_user a) = None
      then Inl (DB ForeignKey)
      else Inr (s\<lparr>allocations := allocations s @ [a]\<rparr>))"

definition pay_writes :: "string \<Rightarrow> string \<Rightarrow> wallet_row \<Rightarrow> Allocation \<Rightarrow> unit tx" where
  "pay_writes betID commission w a s =
     (let balance = w_available w + aAmount a in
      bindE (set_available (w_id w) balance s) (\<lambda>s.
      bindE (insert_ledger (w_id w) ''commission'' commission ''commission_credit'' (aAmount a) balance s) (\<lambda>s.
      bindE (insert_allocation \<lparr>al_commission = commission, al_bet = betID, al_user = an_user (aAncestor a),
               al_base = aBase a, al_level = an_level (aAncestor a), al_diff = aDiff a\<rparr> s) (\<lambda>s.
      Inr ((), s)))))"

definition PayTx :: "string \<Rightarrow> string \<Rightarrow> Allocation \<Rightarrow> unit tx" where
  "PayTx betID currency a s =
     bindE (orErr (DB NoRows) (user_by_id s (an_user (aAncestor a)))) (\<lambda>u.
     if u_virtual u then Inr ((), s)
     else bindE (insert_commission betID (an_user (aAncestor a)) currency (aAmount a) s) (\<lambda>r.
     case fst r of
       None \<Rightarrow> Inr ((), snd r)
     | Some i \<Rightarrow>
         bindE (orErr (DB NoRows) (wallet_of (snd r) (an_user (aAncestor a)) currency)) (\<lambda>w.
         if aAmount a \<le> 0 \<or> w_available w > max_int64 - aAmount a then Inl (Rebate ErrBalanceOverflow)
         else pay_writes betID i w a (snd r))))"

section \<open>snapshot.go\<close>

text \<open>The recursive statement of \<^verbatim>\<open>SnapshotTx\<close>: one parent per user, known users only, and a user
  that has been visited ends the chain.\<close>

definition parent_of :: "db \<Rightarrow> string \<Rightarrow> user_row option" where
  "parent_of s u = (case lookup (\<lambda>r. fst r = u) (agent_parents s) of
      None \<Rightarrow> None | Some r \<Rightarrow> (case snd r of None \<Rightarrow> None | Some p \<Rightarrow> user_by_id s p))"

lemma parent_of_user: "parent_of s u = Some p \<Longrightarrow> p \<in> set (users s)"
  by (auto simp: parent_of_def user_by_id_def split: option.splits dest: lookup_SomeD)

function agent_chain :: "db \<Rightarrow> string \<Rightarrow> string list \<Rightarrow> user_row list" where
  "agent_chain s u visited =
     (case parent_of s u of
        None \<Rightarrow> []
      | Some p \<Rightarrow> if u_id p \<in> set visited then [] else p # agent_chain s (u_id p) (visited @ [u_id p]))"
  by pat_completeness auto
termination
proof (relation "measure (\<lambda>(s, u, visited). card (u_id ` set (users s) - set visited))")
  fix s u visited p
  assume p: "parent_of s u = Some p" "u_id p \<notin> set visited"
  have "u_id p \<in> u_id ` set (users s) - set visited" using p parent_of_user by simp
  then have "u_id ` set (users s) - set (visited @ [u_id p]) \<subset> u_id ` set (users s) - set visited" by auto
  then have "card (u_id ` set (users s) - set (visited @ [u_id p])) < card (u_id ` set (users s) - set visited)"
    by (intro psubset_card_mono) simp_all
  then show "((s, u_id p, visited @ [u_id p]), s, u, visited) \<in> measure (\<lambda>(s, u, visited). card (u_id ` set (users s) - set visited))"
    by simp
qed simp

declare agent_chain.simps [simp del]

definition snapshot_ancestor :: "int list \<Rightarrow> user_row \<Rightarrow> ancestor" where
  "snapshot_ancestor rates u =
     (let level = (case u_level u of None \<Rightarrow> 0 | Some l \<Rightarrow> l) in
      \<lparr>an_user = u_id u, an_level = level,
       an_rate = (if level > 0 \<and> level \<le> int (length rates) then rates ! nat (level - 1) else 0),
       an_virtual = u_virtual u\<rparr>)"

definition insert_snapshot :: "snapshot_row \<Rightarrow> db \<Rightarrow> error + db" where
  "insert_snapshot n s =
     (if lookup (\<lambda>x. sn_bet x = sn_bet n) (snapshots s) \<noteq> None then Inl (DB Unique)
      else Inr (s\<lparr>snapshots := snapshots s @ [n]\<rparr>))"

definition snapshot_of :: "bet_row \<Rightarrow> db \<Rightarrow> snapshot_row" where
  "snapshot_of b s =
     (let config = (case b_room b of
                      None \<Rightarrow> None
                    | Some room \<Rightarrow> if b_simulated b then None else lookup (\<lambda>c. rr_room c = room) (room_rebates s));
          enabled = (case config of None \<Rightarrow> False | Some c \<Rightarrow> rr_enabled c);
          rates = (case config of None \<Rightarrow> [] | Some c \<Rightarrow> rr_rates c)
      in \<lparr>sn_bet = b_id b, sn_config = map_option rr_id config, sn_version = map_option rr_version config, sn_enabled = enabled,
          sn_ancestors = (if enabled then map (snapshot_ancestor rates) (agent_chain s (b_user b) [b_user b]) else [])\<rparr>)"

definition SnapshotTx :: "string \<Rightarrow> unit tx" where
  "SnapshotTx betID s =
     bindE (orErr (DB NoRows) (lookup (\<lambda>b. b_id b = betID) (bets s))) (\<lambda>b.
     bindE (insert_snapshot (snapshot_of b s) s) (\<lambda>s.
     Inr ((), s\<lparr>bets := modify (\<lambda>b. b_id b = betID) (\<lambda>b. b\<lparr>b_rebate_version := 2\<rparr>) (bets s)\<rparr>)))"

definition LoadTx :: "string \<Rightarrow> db \<Rightarrow> error + ancestor list" where
  "LoadTx betID s =
     bindE (orErr (DB NoRows) (lookup (\<lambda>n. sn_bet n = betID) (snapshots s))) (\<lambda>n.
     Inr (if sn_enabled n then sn_ancestors n else []))"

section \<open>service.go\<close>

record Level =
  lv_level :: int
  lv_rate :: int

record Config =
  cf_id :: string
  cf_room :: string
  cf_room_name :: string
  cf_enabled :: bool
  cf_version :: int
  cf_levels :: "Level list"
  cf_updated :: int

record ConfigUpdate =
  cu_version :: int
  cu_enabled :: bool
  cu_levels :: "Level list"

fun levels_loop :: "Level list \<Rightarrow> int list \<Rightarrow> bool list \<Rightarrow> error + int list" where
  "levels_loop [] rates seen = Inr rates"
| "levels_loop (l # levels) rates seen =
     (if lv_level l < 1 \<or> lv_level l > 6 \<or> lv_rate l < 0 \<or> lv_rate l > 1000 \<or> seen ! nat (lv_level l - 1)
      then Inl (Rebate RebateInvalid)
      else levels_loop levels (rates[nat (lv_level l - 1) := lv_rate l]) (seen[nat (lv_level l - 1) := True]))"

fun ascending :: "int list \<Rightarrow> bool" where
  "ascending (x # y # rest) \<longleftrightarrow> \<not> y < x \<and> ascending (y # rest)"
| "ascending _ \<longleftrightarrow> True"

definition validateLevels :: "Level list \<Rightarrow> error + unit" where
  "validateLevels levels =
     (if length levels \<noteq> 6 then Inl (Rebate RebateInvalid)
      else bindE (levels_loop levels (replicate 6 0) (replicate 6 False)) (\<lambda>rates.
      if ascending rates then Inr () else Inl (Rebate RebateInvalid)))"

text \<open>\<^verbatim>\<open>scanConfig\<close> of \<^verbatim>\<open>configSelect\<close>, which joins the room.\<close>

definition scanConfig :: "db \<Rightarrow> string \<Rightarrow> error + Config" where
  "scanConfig s i =
     bindE (orErr (DB NoRows) (lookup (\<lambda>c. rr_id c = i) (room_rebates s))) (\<lambda>c.
     bindE (orErr (DB NoRows) (lookup (\<lambda>g. gr_id g = rr_room c) (game_rooms s))) (\<lambda>g.
     Inr \<lparr>cf_id = rr_id c, cf_room = rr_room c, cf_room_name = gr_name g, cf_enabled = rr_enabled c,
          cf_version = rr_version c,
          cf_levels = map (\<lambda>(n, r). \<lparr>lv_level = int n + 1, lv_rate = r\<rparr>) (enumerate 0 (rr_rates c)),
          cf_updated = rr_updated c\<rparr>))"

text \<open>\<^verbatim>\<open>UPDATE room_rebate_configs SET enabled=$2,rates=$3,version=version+1\<close> with the CHECK constraints of
  \<^verbatim>\<open>migrations/0083_room_rebate_configs.sql\<close>.\<close>

definition rates_check :: "int list \<Rightarrow> bool" where
  "rates_check rates \<longleftrightarrow> length rates = 6 \<and> rates ! 0 \<ge> 0 \<and> rates ! 5 \<le> 1000
     \<and> rates ! 0 \<le> rates ! 1 \<and> rates ! 1 \<le> rates ! 2 \<and> rates ! 2 \<le> rates ! 3 \<and> rates ! 3 \<le> rates ! 4 \<and> rates ! 4 \<le> rates ! 5"

definition update_rebate :: "string \<Rightarrow> bool \<Rightarrow> int list \<Rightarrow> db \<Rightarrow> error + db" where
  "update_rebate i enabled rates s =
     (if lookup (\<lambda>c. rr_id c = i) (room_rebates s) \<noteq> None \<and> \<not> rates_check rates then Inl (DB Check)
      else Inr (s\<lparr>room_rebates := modify (\<lambda>c. rr_id c = i)
             (\<lambda>c. c\<lparr>rr_enabled := enabled, rr_rates := rates, rr_version := rr_version c + 1, rr_updated := clock s\<rparr>) (room_rebates s)\<rparr>))"

definition level_rates :: "Level list \<Rightarrow> int list" where
  "level_rates levels = fold (\<lambda>l rates. rates[nat (lv_level l - 1) := lv_rate l]) levels (replicate 6 0)"

definition config_payload :: "Config \<Rightarrow> payload" where
  "config_payload c = PObj [(''id'', PStr (cf_id c)), (''game_room_id'', PStr (cf_room c)),
     (''game_room_name'', PStr (cf_room_name c)), (''enabled'', PBool (cf_enabled c)), (''version'', PInt (cf_version c)),
     (''levels'', PList (map (\<lambda>l. PObj [(''level'', PInt (lv_level l)), (''rate_per_mille'', PInt (lv_rate l))]) (cf_levels c))),
     (''updated_at'', PTime (cf_updated c))]"

text \<open>\<^verbatim>\<open>uuid.Parse\<close> is a package outside the repository: \<open>is_uuid\<close> stands for its success.\<close>

definition UpdateConfig :: "(string \<Rightarrow> bool) \<Rightarrow> string \<Rightarrow> string \<Rightarrow> ConfigUpdate \<Rightarrow> Config tx" where
  "UpdateConfig is_uuid actor i inp s =
     (if \<not> is_uuid actor then Inl (Rebate ErrForbidden)
      else if \<not> is_uuid i then Inl (Rebate ErrNotFound)
      else if cu_version inp < 1 \<or> cu_version inp = max_int64 \<or> validateLevels (cu_levels inp) \<noteq> Inr ()
      then Inl (Rebate RebateInvalid)
      else if \<not> (case user_by_id s actor of None \<Rightarrow> False
                 | Some u \<Rightarrow> u_status u = ''active'' \<and> (\<exists>r \<in> set (user_roles s). fst r = actor \<and> snd r \<in> {''admin'', ''operator''}))
      then Inl (Rebate ErrForbidden)
      else case scanConfig s i of
        Inl e \<Rightarrow> Inl (if e = DB NoRows then Rebate ErrNotFound else e)
      | Inr old \<Rightarrow>
          if cf_version old \<noteq> cu_version inp then Inl (Rebate ErrConflict)
          else bindE (update_rebate i (cu_enabled inp) (level_rates (cu_levels inp)) s) (\<lambda>s.
          bindE (scanConfig s i) (\<lambda>result.
          bindE (insert_audit actor ''rebate.config.update'' ''rebate_config'' i
                   (PObj [(''before'', config_payload old), (''after'', config_payload result)]) s) (\<lambda>s.
          Inr (result, s)))))"

section \<open>settlement/commission.go\<close>

definition calculateCommission :: "int \<Rightarrow> int \<Rightarrow> int" where
  "calculateCommission stake rate =
     wrap64 (wrap64 (go_div stake 10000 * rate) + go_div (wrap64 (go_mod stake 10000 * rate)) 10000)"

definition commission_writes :: "string \<Rightarrow> wallet_row \<Rightarrow> int \<Rightarrow> unit tx" where
  "commission_writes commission w amount s =
     (if w_available w > max_int64 - amount then Inl (Settlement ErrPayoutOverflow)
      else let balance = w_available w + amount in
      bindE (set_available (w_id w) balance s) (\<lambda>s.
      bindE (insert_ledger (w_id w) ''commission'' commission ''commission_credit'' amount balance s) (\<lambda>s.
      Inr ((), s))))"

text \<open>The wallet of a beneficiary, created empty when it is missing.\<close>

definition beneficiary_wallet :: "string \<Rightarrow> string \<Rightarrow> wallet_row tx" where
  "beneficiary_wallet user currency s =
     (case wallet_of s user currency of
        Some w \<Rightarrow> Inr (w, s)
      | None \<Rightarrow>
          let (i, s) = new_uuid s in
          bindE (insert_wallet i user currency s) (\<lambda>s.
          bindE (orErr (DB NoRows) (wallet_by_id s i)) (\<lambda>w. Inr (w, s))))"

definition applyCommission :: "string \<Rightarrow> string \<Rightarrow> string \<Rightarrow> int \<Rightarrow> unit tx" where
  "applyCommission betID agentID currency stake s =
     (if agentID = [] then Inr ((), s)
      else case lookup (\<lambda>r. fst r = agentID) (agent_rates s) of
        None \<Rightarrow> Inr ((), s)
      | Some r \<Rightarrow>
          if snd r = 0 then Inr ((), s)
          else let amount = calculateCommission stake (snd r) in
          if amount \<le> 0 then Inr ((), s)
          else bindE (insert_commission betID agentID currency amount s) (\<lambda>c.
          case fst c of
            None \<Rightarrow> Inr ((), snd c)
          | Some i \<Rightarrow>
              bindE (beneficiary_wallet agentID currency (snd c)) (\<lambda>w.
              commission_writes i (fst w) amount (snd w))))"

section \<open>Rounding\<close>

lemma split_floor:
  fixes b d m :: int
  assumes "0 < m"
  shows "b div m * d + (b mod m * d) div m = (b * d) div m"
proof -
  define q r where "q = b div m" and "r = b mod m"
  have b: "b = q * m + r" by (simp add: q_def r_def)
  have "b * d = r * d + (q * d) * m" unfolding b by (simp add: algebra_simps)
  then have "(b * d) div m = ((b mod m * d) + (b div m * d) * m) div m" by (simp add: q_def r_def)
  then show ?thesis using assms by simp
qed

text \<open>The two split products of the code neither overflow nor round differently from the product.\<close>

lemma split_product:
  fixes b d m :: int
  assumes "0 \<le> b" "b \<le> max_int64" "0 \<le> d" "d \<le> m" "0 < m" "m \<le> 10000"
  shows "wrap64 (wrap64 (go_div b m * d) + go_div (wrap64 (go_mod b m * d)) m) = (b * d) div m"
    and "0 \<le> (b * d) div m \<and> (b * d) div m \<le> b"
proof -
  have le: "(b * d) div m \<le> b"
  proof -
    have "b * d \<le> b * m" using assms by (intro mult_left_mono) auto
    then have "(b * d) div m \<le> (b * m) div m" using assms by (intro zdiv_mono1) auto
    then show ?thesis using assms by simp
  qed
  have r: "0 \<le> b mod m" "b mod m < m" using assms by simp_all
  have md: "0 \<le> b mod m * d" "b mod m * d \<le> 100000000"
  proof -
    show "0 \<le> b mod m * d" using r assms by simp
    have m1: "b mod m \<le> 10000" by (rule order.trans [OF less_imp_le [OF r(2)] assms(6)])
    have m2: "d \<le> 10000" using assms by linarith
    have "b mod m * d \<le> 10000 * 10000" by (rule mult_mono [OF m1 m2]) (use assms in linarith)+
    then show "b mod m * d \<le> 100000000" by simp
  qed
  have q: "0 \<le> b div m * d" using assms by (simp add: pos_imp_zdiv_nonneg_iff)
  have s: "b div m * d + (b mod m * d) div m = (b * d) div m" using assms by (intro split_floor)
  have dv: "0 \<le> (b mod m * d) div m" using md assms by (simp add: pos_imp_zdiv_nonneg_iff)
  have i: "int64 (b mod m * d)" using md by (simp add: int64_def)
  have j: "int64 (b div m * d)" using q s dv le assms(2) by (simp add: int64_def max_int64_def)
  have k: "int64 ((b * d) div m)" using s q dv le assms(2) by (simp add: int64_def max_int64_def)
  show "wrap64 (wrap64 (go_div b m * d) + go_div (wrap64 (go_mod b m * d)) m) = (b * d) div m"
    using assms(1,5) md(1) i j k s by (simp add: go_arith)
  show "0 \<le> (b * d) div m \<and> (b * d) div m \<le> b" using le s q dv by linarith
qed

lemma rebate_amount_exact:
  assumes "0 \<le> base" "base \<le> max_int64" "0 \<le> delta" "delta \<le> 1000"
  shows "rebate_amount base delta = (base * delta) div 1000"
  using split_product(1) [of base delta 1000] assms by (simp add: rebate_amount_def)

lemma calculateCommission_exact:
  assumes "0 \<le> stake" "stake \<le> max_int64" "0 \<le> rate" "rate \<le> 10000"
  shows "calculateCommission stake rate = (stake * rate) div 10000 \<and> 0 \<le> calculateCommission stake rate
       \<and> calculateCommission stake rate \<le> stake"
  using split_product [of stake rate 10000] assms by (simp add: calculateCommission_def)

section \<open>Differential rebates\<close>

text \<open>The ancestors that raise both level and rate above every ancestor before them, each with the rate
  it raises from: the specification of the loop.\<close>

fun raises :: "int \<Rightarrow> int \<Rightarrow> ancestor list \<Rightarrow> (ancestor \<times> int) list" where
  "raises level rate [] = []"
| "raises level rate (a # chain) =
     (if an_virtual a \<or> an_level a \<le> level \<or> an_rate a \<le> rate then raises level rate chain
      else (a, rate) # raises (an_level a) (an_rate a) chain)"

definition anc_ok :: "ancestor \<Rightarrow> bool" where
  "anc_ok a \<longleftrightarrow> 0 \<le> an_level a \<and> an_level a \<le> 6 \<and> 0 \<le> an_rate a \<and> an_rate a \<le> 1000"

definition allocate :: "int \<Rightarrow> ancestor \<times> int \<Rightarrow> Allocation" where
  "allocate base ar = \<lparr>aAncestor = fst ar, aBase = base, aDiff = an_rate (fst ar) - snd ar,
     aAmount = (base * (an_rate (fst ar) - snd ar)) div 1000\<rparr>"

lemma allocate_amount: "aAmount (allocate base (a, r)) = (base * (an_rate a - r)) div 1000"
  by (simp add: allocate_def)

lemma allocate_pair: "allocate base (a, r) = \<lparr>aAncestor = a, aBase = base, aDiff = an_rate a - r,
     aAmount = (base * (an_rate a - r)) div 1000\<rparr>"
  by (simp add: allocate_def)

lemma calc_loop_spec:
  assumes "0 \<le> base" "base \<le> max_int64" "0 \<le> rate"
  shows "calc_loop base level rate chain =
    (if list_all anc_ok chain then Inr (filter (\<lambda>x. aAmount x > 0) (map (allocate base) (raises level rate chain)))
     else Inl (Rebate RebateInvalid))"
  using assms(3)
proof (induction chain arbitrary: level rate)
  case Nil
  then show ?case by simp
next
  case (Cons a chain)
  show ?case
  proof (cases "anc_ok a")
    case False
    then show ?thesis by (auto simp: anc_ok_def)
  next
    case True
    show ?thesis
    proof (cases "an_virtual a \<or> an_level a \<le> level \<or> an_rate a \<le> rate")
      case skip: True
      then show ?thesis using Cons True by (auto simp: anc_ok_def)
    next
      case take: False
      have "rebate_amount base (an_rate a - rate) = (base * (an_rate a - rate)) div 1000"
        using rebate_amount_exact [OF assms(1,2)] True take Cons.prems by (simp add: anc_ok_def)
      moreover have "0 \<le> an_rate a" using True by (simp add: anc_ok_def)
      ultimately show ?thesis
        using Cons.IH [of "an_rate a" "an_level a"] True take by (simp add: anc_ok_def allocate_pair Let_def)
    qed
  qed
qed

lemma raises_total:
  assumes "0 \<le> base" "0 \<le> rate" "rate \<le> 1000" "list_all anc_ok chain"
  shows "sum_list (map aAmount (map (allocate base) (raises level rate chain))) \<le> base * (1000 - rate) div 1000"
  using assms(2-4)
proof (induction chain arbitrary: level rate)
  case Nil
  then show ?case using assms(1) by (simp add: pos_imp_zdiv_nonneg_iff)
next
  case (Cons a chain)
  show ?case
  proof (cases "an_virtual a \<or> an_level a \<le> level \<or> an_rate a \<le> rate")
    case True
    then show ?thesis using Cons by simp
  next
    case False
    have r: "0 \<le> an_rate a" "an_rate a \<le> 1000" using Cons.prems by (auto simp: anc_ok_def)
    have "sum_list (map aAmount (map (allocate base) (raises (an_level a) (an_rate a) chain))) \<le> base * (1000 - an_rate a) div 1000"
      using Cons r by simp
    moreover have "base * (an_rate a - rate) div 1000 + base * (1000 - an_rate a) div 1000 \<le> base * (1000 - rate) div 1000"
    proof -
      have "base * (1000 - rate) = base * (an_rate a - rate) + base * (1000 - an_rate a)" by (simp add: algebra_simps)
      then show ?thesis by linarith
    qed
    ultimately show ?thesis using False by (simp add: allocate_amount)
  qed
qed

lemma filter_sum_pos: "(\<forall>x \<in> set xs. 0 \<le> f x) \<Longrightarrow> sum_list (map f (filter (\<lambda>x. f x > 0) xs)) = (sum_list (map f xs) :: int)"
  by (induction xs) auto

lemma raises_set:
  "(a, r) \<in> set (raises level rate chain) \<Longrightarrow> a \<in> set chain \<and> \<not> an_virtual a \<and> level < an_level a \<and> rate \<le> r \<and> r < an_rate a"
  by (induction level rate chain rule: raises.induct) (force split: if_splits)+

lemma raises_levels: "sorted_wrt (\<lambda>x y. an_level (fst x) < an_level (fst y)) (raises level rate chain)"
proof (induction level rate chain rule: raises.induct)
  case (2 level rate a chain)
  then show ?case using raises_set by (auto simp: case_prod_beta)
qed simp

section \<open>The agent chain\<close>

lemma agent_chain_distinct:
  "distinct (map u_id (agent_chain s u visited)) \<and> set (map u_id (agent_chain s u visited)) \<inter> set visited = {}"
proof (induction s u visited rule: agent_chain.induct)
  case (1 s u visited)
  show ?case
  proof (cases "parent_of s u")
    case None
    then show ?thesis by (simp add: agent_chain.simps [of s u])
  next
    case (Some p)
    show ?thesis
    proof (cases "u_id p \<in> set visited")
      case True
      then show ?thesis using Some by (simp add: agent_chain.simps [of s u])
    next
      case False
      then show ?thesis using 1 [OF Some False] Some by (auto simp: agent_chain.simps [of s u])
    qed
  qed
qed

text \<open>Each member is the parent of the one before it.\<close>

fun linked :: "db \<Rightarrow> string \<Rightarrow> user_row list \<Rightarrow> bool" where
  "linked s u [] \<longleftrightarrow> True"
| "linked s u (p # ps) \<longleftrightarrow> parent_of s u = Some p \<and> linked s (u_id p) ps"

lemma agent_chain_linked: "linked s u (agent_chain s u visited)"
proof (induction s u visited rule: agent_chain.induct)
  case (1 s u visited)
  show ?case
    by (subst agent_chain.simps) (use 1 in \<open>auto split: option.splits\<close>)
qed

lemma agent_chain_step:
  "agent_chain s u visited = r # rs \<Longrightarrow> parent_of s u = Some r \<and> agent_chain s (u_id r) (visited @ [u_id r]) = rs"
  using agent_chain.simps [of s u visited] by (cases "parent_of s u") (auto split: if_splits)

lemma agent_chain_nil:
  "agent_chain s u visited = [] \<Longrightarrow> parent_of s u = Some p \<Longrightarrow> u_id p \<in> set visited"
  using agent_chain.simps [of s u visited] by (auto split: if_splits)

text \<open>The chain stops only where the last member has no known parent or a parent that was visited.\<close>

lemma agent_chain_maximal:
  assumes "agent_chain s u visited = ps @ [q]" "parent_of s (u_id q) = Some p"
  shows "u_id p \<in> set visited \<union> set (map u_id (ps @ [q]))"
  using assms(1)
proof (induction ps arbitrary: u visited)
  case Nil
  then have "agent_chain s u visited = [q]" by simp
  then have "agent_chain s (u_id q) (visited @ [u_id q]) = []"
    using agent_chain_step [of s u visited q "[]"] by simp
  from agent_chain_nil [OF this assms(2)] show ?case by auto
next
  case (Cons r ps)
  then have "agent_chain s (u_id r) (visited @ [u_id r]) = ps @ [q]"
    using agent_chain_step [of s u visited r "ps @ [q]"] by simp
  from Cons.IH [OF this] show ?case by auto
qed

section \<open>Payments\<close>

lemma insert_commission_Inr:
  assumes "insert_commission b u c a s = Inr (r, s')"
  shows "wallets s' = wallets s \<and> ledger s' = ledger s \<and> clock s' = clock s \<and> users s' = users s
       \<and> (r = None \<longrightarrow> lookup (\<lambda>c. ce_bet c = b \<and> ce_user c = u) (commissions s) \<noteq> None \<and> commissions s' = commissions s)
       \<and> (\<forall>i. r = Some i \<longrightarrow> lookup (\<lambda>c. ce_bet c = b \<and> ce_user c = u) (commissions s) = None
            \<and> commissions s' = commissions s @ [\<lparr>ce_id = i, ce_bet = b, ce_user = u, ce_currency = c, ce_amount = a, ce_status = ''paid''\<rparr>])"
  using assms by (auto simp: insert_commission_def new_uuid_def Let_def split: if_splits)

lemma insert_allocation_frame:
  "insert_allocation a s = Inr s' \<Longrightarrow> wallets s' = wallets s \<and> ledger s' = ledger s \<and> commissions s' = commissions s"
  by (auto simp: insert_allocation_def split: if_splits)

lemma pay_writes_Inr:
  assumes "wallets_ok s" "wallet_by_id s (w_id w) = Some w" "pay_writes b i w a s = Inr (u, s')"
  shows "moved s w (w_available w + aAmount a) ''commission'' i ''commission_credit'' s' \<and> commissions s' = commissions s"
proof -
  from assms(3) obtain s1 s2 al where s1: "set_available (w_id w) (w_available w + aAmount a) s = Inr s1"
    and s2: "insert_ledger (w_id w) ''commission'' i ''commission_credit'' (aAmount a) (w_available w + aAmount a) s1 = Inr s2"
    and s3: "insert_allocation al s2 = Inr s'"
    unfolding pay_writes_def Let_def bindE_eq_Inr by (elim exE conjE) simp
  have "moved s w (w_available w + aAmount a) ''commission'' i ''commission_credit'' s2"
    by (rule movedI [OF assms(1,2) s1 refl refl s2]) simp
  moreover have "money_only s s2" using money_only_stmts(2) [OF s1] money_only_stmts(6) [OF s2] money_only_trans by blast
  then have "commissions s2 = commissions s" by (rule money_onlyD)
  moreover note fr = insert_allocation_frame [OF s3]
  ultimately show ?thesis using moved_cong2 [of s' s2] by simp
qed

definition paid_already :: "db \<Rightarrow> string \<Rightarrow> string \<Rightarrow> bool" where
  "paid_already s b u \<longleftrightarrow> lookup (\<lambda>c. ce_bet c = b \<and> ce_user c = u) (commissions s) \<noteq> None"

lemma PayTx_Inr:
  assumes "books_ok s" "PayTx b c a s = Inr (u, s')"
  defines "v \<equiv> an_user (aAncestor a)"
  shows "(wallets s' = wallets s \<and> ledger s' = ledger s \<and> ((\<exists>r. user_by_id s v = Some r \<and> u_virtual r) \<or> paid_already s b v) \<and> commissions s' = commissions s)
     \<or> (\<not> paid_already s b v \<and> paid_already s' b v \<and> 0 < aAmount a \<and> (\<exists>w i. wallet_of s v c = Some w \<and> w_available w + aAmount a \<le> max_int64
          \<and> moved s w (w_available w + aAmount a) ''commission'' i ''commission_credit'' s'))"
proof -
  from assms(2) obtain r where r: "user_by_id s v = Some r" by (auto simp: PayTx_def v_def tx_simps)
  show ?thesis
  proof (cases "u_virtual r")
    case True
    then show ?thesis using assms(2) r by (simp add: PayTx_def v_def [symmetric])
  next
    case False
    then obtain k s1 where k: "insert_commission b v c (aAmount a) s = Inr (k, s1)"
      using assms(2) r by (auto simp: PayTx_def v_def [symmetric] bindE_eq_Inr)
    note f = insert_commission_Inr [OF k]
    show ?thesis
    proof (cases k)
      case None
      then show ?thesis using assms(2) r False k f by (simp add: PayTx_def v_def [symmetric] paid_already_def)
    next
      case (Some i)
      then obtain w where w: "wallet_of s1 v c = Some w" "0 < aAmount a" "w_available w + aAmount a \<le> max_int64"
        and p: "pay_writes b i w a s1 = Inr (u, s')"
        using assms(2) r False k by (auto simp: PayTx_def v_def [symmetric] bindE_eq_Inr orErr_eq_Inr split: if_splits)
      have ok: "wallets_ok s" using assms(1) by (rule books_ok_wallets_ok)
      have w': "wallet_of s v c = Some w" using w(1) f by (simp add: wallet_of_def)
      have ok1: "wallets_ok s1" using ok f by (simp add: wallets_ok_def wallet_by_id_def)
      have m: "moved s1 w (w_available w + aAmount a) ''commission'' i ''commission_credit'' s' \<and> commissions s' = commissions s1"
        by (rule pay_writes_Inr [OF ok1 wallet_of_by_id [OF ok1 w(1)] p])
      then have "moved s w (w_available w + aAmount a) ''commission'' i ''commission_credit'' s'"
        using moved_cong [of s1 s] f by simp
      then show ?thesis using w w' m f Some by (auto simp: paid_already_def lookup_append)
    qed
  qed
qed

lemma credit_books:
  assumes "books_ok s" "wallet_of s v c = Some w" "0 \<le> a" "w_available w + a \<le> max_int64"
    and "moved s w (w_available w + a) bt bid et s'"
  shows "books_ok s'"
proof -
  have ok: "wallets_ok s" using assms(1) by (rule books_ok_wallets_ok)
  have "in_range (w_available w + a)" using wallet_of_range [OF ok assms(2)] assms(3,4) by (simp add: in_range_def)
  then show ?thesis using moved_books [OF assms(1) wallet_of_by_id [OF ok assms(2)] assms(5)] by blast
qed

lemma PayTx_books: "books_ok s \<Longrightarrow> PayTx b c a s = Inr (u, s') \<Longrightarrow> books_ok s'"
  using PayTx_Inr [of s b c a u s'] credit_books [of s _ c _ "aAmount a"] books_ok_cong [of s s'] by force

lemma beneficiary_wallet_Inr:
  assumes "books_ok s" "beneficiary_wallet u c s = Inr (w, s')"
  shows "books_ok s' \<and> wallet_of s' u c = Some w \<and> commissions s' = commissions s"
proof (cases "wallet_of s u c")
  case (Some x)
  then show ?thesis using assms by (simp add: beneficiary_wallet_def)
next
  case None
  let ?t = "s\<lparr>next_uuid := Suc (next_uuid s)\<rparr>"
  obtain s1 where s1: "insert_wallet (uuids s (next_uuid s)) u c ?t = Inr s1" "wallet_by_id s1 (uuids s (next_uuid s)) = Some w" "s' = s1"
    using assms(2) None by (auto simp: beneficiary_wallet_def new_uuid_def Let_def bindE_eq_Inr orErr_eq_Inr)
  have b: "books (\<lambda>_. (0, 0)) ?t" using assms(1) books_ok_cong [of s ?t] by (simp add: books_ok_def)
  note k = books_insert_wallet [OF b s1(1) refl]
  have ok: "wallets_ok s1" using k books_wallets_ok by blast
  have "wallet_by_id s1 (uuids s (next_uuid s)) = wallet_of s1 u c"
    using wallet_of_by_id [OF ok] k by fastforce
  moreover have "commissions s1 = commissions s" using s1(1) by (auto simp: insert_wallet_def split: if_splits)
  ultimately show ?thesis using k s1 by (simp add: books_ok_def)
qed

lemma applyCommission_books:
  assumes "books_ok s" "applyCommission b u c stake s = Inr (r, s')"
  shows "books_ok s'"
proof -
  consider "s' = s" | am k s1 where "insert_commission b u c am s = Inr (k, s1)" "0 < am"
    "(case k of None \<Rightarrow> Inr ((), s1) | Some i \<Rightarrow>
        bindE (beneficiary_wallet u c s1) (\<lambda>w. commission_writes i (fst w) am (snd w))) = Inr (r, s')"
    using assms(2) by (auto simp: applyCommission_def Let_def bindE_eq_Inr split: if_splits option.splits)
  then show ?thesis
  proof cases
    case 2
    have b1: "books_ok s1" using insert_commission_Inr [OF 2(1)] assms(1) books_ok_cong by blast
    show ?thesis
    proof (cases k)
      case None
      then show ?thesis using 2(3) b1 by simp
    next
      case (Some i)
      then obtain w s2 where w: "beneficiary_wallet u c s1 = Inr (w, s2)" and cw: "commission_writes i w am s2 = Inr (r, s')"
        using 2(3) by (auto simp: bindE_eq_Inr)
      note bw = beneficiary_wallet_Inr [OF b1 w]
      have ok: "wallets_ok s2" using bw books_ok_wallets_ok by blast
      obtain s3 where s3: "w_available w + am \<le> max_int64" "set_available (w_id w) (w_available w + am) s2 = Inr s3"
        "insert_ledger (w_id w) ''commission'' i ''commission_credit'' am (w_available w + am) s3 = Inr s'"
        using cw by (auto simp: commission_writes_def Let_def bindE_eq_Inr split: if_splits)
      have "wallet_of s2 u c = Some w" "books_ok s2" using bw by auto
      then show ?thesis using books_move [OF _ wallet_of_by_id [OF ok] s3(2,1) refl refl s3(3)] by simp
    qed
  qed (use assms(1) in simp)
qed

interpretation pay: money_handler "\<lambda>(b, c, a). PayTx b c a"
  by unfold_locales (auto intro: PayTx_books)

interpretation commission: money_handler "\<lambda>(b, u, c, stake). applyCommission b u c stake"
  by unfold_locales (auto intro: applyCommission_books)

section \<open>Level configurations\<close>

definition level_ok :: "Level \<Rightarrow> bool" where
  "level_ok l \<longleftrightarrow> 1 \<le> lv_level l \<and> lv_level l \<le> 6 \<and> 0 \<le> lv_rate l \<and> lv_rate l \<le> 1000"

lemma level_index: "level_ok l \<Longrightarrow> level_ok m \<Longrightarrow> nat (lv_level l - 1) = nat (lv_level m - 1) \<longleftrightarrow> lv_level l = lv_level m"
  by (auto simp: level_ok_def)

lemma levels_loop_spec:
  assumes "length rates = 6" "length seen = 6"
  shows "levels_loop levels rates seen =
    (if list_all level_ok levels \<and> distinct (map lv_level levels) \<and> (\<forall>l \<in> set levels. \<not> seen ! nat (lv_level l - 1))
     then Inr (fold (\<lambda>l rates. rates[nat (lv_level l - 1) := lv_rate l]) levels rates) else Inl (Rebate RebateInvalid))"
  using assms
proof (induction levels arbitrary: rates seen)
  case Nil
  then show ?case by simp
next
  case (Cons l levels)
  show ?case
  proof (cases "level_ok l \<and> \<not> seen ! nat (lv_level l - 1)")
    case False
    then show ?thesis by (auto simp: level_ok_def)
  next
    case True
    let ?s = "seen[nat (lv_level l - 1) := True]"
    have len: "nat (lv_level l - 1) < length seen" using True Cons.prems by (auto simp: level_ok_def)
    have e: "(\<forall>m \<in> set levels. \<not> ?s ! nat (lv_level m - 1)) \<longleftrightarrow>
        (\<forall>m \<in> set levels. \<not> seen ! nat (lv_level m - 1)) \<and> lv_level l \<notin> lv_level ` set levels"
      if ok: "list_all level_ok levels"
    proof -
      have "?s ! nat (lv_level m - 1) \<longleftrightarrow> lv_level m = lv_level l \<or> seen ! nat (lv_level m - 1)" if "m \<in> set levels" for m
        using level_index [of l m] True ok that len by (auto simp: list_all_iff nth_list_update)
      then show ?thesis by (auto simp: image_iff)
    qed
    have "levels_loop (l # levels) rates seen = levels_loop levels (rates[nat (lv_level l - 1) := lv_rate l]) ?s"
      using True by (auto simp: level_ok_def)
    also have "\<dots> = (if list_all level_ok levels \<and> distinct (map lv_level levels) \<and> (\<forall>m \<in> set levels. \<not> ?s ! nat (lv_level m - 1))
       then Inr (fold (\<lambda>l rates. rates[nat (lv_level l - 1) := lv_rate l]) levels (rates[nat (lv_level l - 1) := lv_rate l]))
       else Inl (Rebate RebateInvalid))"
      using Cons.IH Cons.prems by simp
    also have "\<dots> = (if list_all level_ok (l # levels) \<and> distinct (map lv_level (l # levels)) \<and> (\<forall>m \<in> set (l # levels). \<not> seen ! nat (lv_level m - 1))
       then Inr (fold (\<lambda>l rates. rates[nat (lv_level l - 1) := lv_rate l]) (l # levels) rates)
       else Inl (Rebate RebateInvalid))"
      using e True by (cases "list_all level_ok levels") auto
    finally show ?thesis .
  qed
qed

lemma fold_levels_length: "length (fold (\<lambda>l rates. rates[nat (lv_level l - 1) := lv_rate l]) levels rates) = length rates"
  by (induction levels arbitrary: rates) simp_all

lemma fold_levels_other:
  assumes "\<forall>m \<in> set levels. nat (lv_level m - 1) \<noteq> i"
  shows "fold (\<lambda>l rates. rates[nat (lv_level l - 1) := lv_rate l]) levels rates ! i = rates ! i"
  using assms by (induction levels arbitrary: rates) simp_all

lemma fold_levels_nth:
  assumes "list_all level_ok levels" "distinct (map lv_level levels)" "l \<in> set levels" "length rates = 6"
  shows "fold (\<lambda>l rates. rates[nat (lv_level l - 1) := lv_rate l]) levels rates ! nat (lv_level l - 1) = lv_rate l"
  using assms
proof (induction levels arbitrary: rates)
  case (Cons m levels)
  show ?case
  proof (cases "l = m")
    case True
    have "\<forall>k \<in> set levels. nat (lv_level k - 1) \<noteq> nat (lv_level m - 1)"
      using Cons.prems level_index by (fastforce simp: list_all_iff)
    moreover have "nat (lv_level m - 1) < 6" using Cons.prems by (auto simp: level_ok_def)
    ultimately show ?thesis
      using True Cons.prems(4) fold_levels_other [of levels "nat (lv_level m - 1)" "rates[nat (lv_level m - 1) := lv_rate m]"] by simp
  next
    case False
    then show ?thesis using Cons by simp
  qed
qed simp

lemma ascending_sorted: "ascending xs \<longleftrightarrow> sorted xs"
  by (induction xs rule: ascending.induct) force+

lemma six_levels:
  assumes "list_all level_ok levels" "distinct (map lv_level levels)" "length levels = 6"
  shows "lv_level ` set levels = {1..6}"
proof -
  have "card (lv_level ` set levels) = 6" using distinct_card [OF assms(2)] assms(3) by simp
  moreover have "lv_level ` set levels \<subseteq> {1..6}" using assms(1) by (auto simp: list_all_iff level_ok_def)
  ultimately show ?thesis by (intro card_subset_eq) simp_all
qed

lemma level_rates_sorted:
  assumes "list_all level_ok levels" "distinct (map lv_level levels)" "length levels = 6"
  shows "sorted (level_rates levels) \<longleftrightarrow> (\<forall>l \<in> set levels. \<forall>m \<in> set levels. lv_level l \<le> lv_level m \<longrightarrow> lv_rate l \<le> lv_rate m)"
proof -
  have n: "level_rates levels ! nat (lv_level l - 1) = lv_rate l" if "l \<in> set levels" for l
    using fold_levels_nth [OF assms(1,2) that] by (simp add: level_rates_def)
  have len: "length (level_rates levels) = 6" by (simp add: level_rates_def fold_levels_length)
  have r: "1 \<le> lv_level l \<and> lv_level l \<le> 6" if "l \<in> set levels" for l using assms(1) that by (auto simp: list_all_iff level_ok_def)
  have ex: "\<exists>l \<in> set levels. nat (lv_level l - 1) = i" if "i < 6" for i
  proof -
    have "int i + 1 \<in> lv_level ` set levels" using six_levels [OF assms] that by auto
    then obtain l where "l \<in> set levels" "lv_level l = int i + 1" by auto
    then show ?thesis by (intro bexI [of _ l]) auto
  qed
  show ?thesis
  proof
    assume s: "sorted (level_rates levels)"
    show "\<forall>l \<in> set levels. \<forall>m \<in> set levels. lv_level l \<le> lv_level m \<longrightarrow> lv_rate l \<le> lv_rate m"
    proof (intro ballI impI)
      fix l m assume lm: "l \<in> set levels" "m \<in> set levels" "lv_level l \<le> lv_level m"
      have "nat (lv_level l - 1) \<le> nat (lv_level m - 1)" "nat (lv_level m - 1) < length (level_rates levels)"
        using lm r [of m] len by auto
      from sorted_nth_mono [OF s this] show "lv_rate l \<le> lv_rate m" using n lm by simp
    qed
  next
    assume a: "\<forall>l \<in> set levels. \<forall>m \<in> set levels. lv_level l \<le> lv_level m \<longrightarrow> lv_rate l \<le> lv_rate m"
    show "sorted (level_rates levels)"
    proof (rule sorted_iff_nth_mono [THEN iffD2], intro allI impI)
      fix i j assume ij: "i \<le> j" "j < length (level_rates levels)"
      obtain l where l: "l \<in> set levels" "nat (lv_level l - 1) = i" using ex [of i] ij len by auto
      obtain m where m: "m \<in> set levels" "nat (lv_level m - 1) = j" using ex [of j] ij len by auto
      have "lv_level l \<le> lv_level m" using ij(1) l m r [OF l(1)] r [OF m(1)] by auto
      then show "level_rates levels ! i \<le> level_rates levels ! j" using a n l m by metis
    qed
  qed
qed

lemma validateLevels_iff:
  "validateLevels levels = Inr () \<longleftrightarrow> length levels = 6 \<and> list_all level_ok levels \<and> distinct (map lv_level levels) \<and> sorted (level_rates levels)"
proof -
  have "\<not> replicate 6 False ! nat (lv_level l - 1)" if "level_ok l" for l
  proof -
    have "nat (lv_level l - 1) < 6" using that by (auto simp: level_ok_def)
    then show ?thesis by (simp only: nth_replicate) simp
  qed
  then have "levels_loop levels (replicate 6 0) (replicate 6 False) =
      (if list_all level_ok levels \<and> distinct (map lv_level levels) then Inr (level_rates levels) else Inl (Rebate RebateInvalid))"
    using levels_loop_spec [of "replicate 6 0" "replicate 6 False" levels] by (auto simp: level_rates_def list_all_iff)
  then show ?thesis by (auto simp: validateLevels_def ascending_sorted split: if_splits)
qed

lemma validated_rates_check:
  assumes "validateLevels levels = Inr ()"
  shows "rates_check (level_rates levels)"
proof -
  have v: "length levels = 6" "list_all level_ok levels" "distinct (map lv_level levels)" "sorted (level_rates levels)"
    using assms by (auto simp: validateLevels_iff)
  have len: "length (level_rates levels) = 6" by (simp add: level_rates_def fold_levels_length)
  have b: "\<exists>l \<in> set levels. level_rates levels ! i = lv_rate l" if "i < 6" for i
  proof -
    have "int i + 1 \<in> lv_level ` set levels" using six_levels [OF v(2,3,1)] that by auto
    then obtain l where l: "l \<in> set levels" "lv_level l = int i + 1" by auto
    then have "nat (lv_level l - 1) = i" by auto
    then show ?thesis using fold_levels_nth [OF v(2,3) l(1), of "replicate 6 0"] l(1) unfolding level_rates_def by auto
  qed
  have "0 \<le> level_rates levels ! 0" "level_rates levels ! 5 \<le> 1000"
    using b [of 0] b [of 5] v(2) by (auto simp: list_all_iff level_ok_def)
  then show ?thesis using sorted_nth_mono [OF v(4)] len by (simp add: rates_check_def)
qed

section \<open>Properties\<close>

text \<open>C24: the rebates of a bet are those of the real agents that raise both level and rate above every
  agent below them; each is the exact floor of the base times the rate difference, with no
  overflow on the way, and together they never exceed the stake (or, for dodge, the net
  winnings) they are computed from.\<close>

theorem rebate_split:
  assumes "Calculate stake payout mode chain = Inr allocs" "stake \<le> max_int64" "payout \<le> max_int64"
  defines "base \<equiv> rebate_base stake payout mode"
  shows "allocs = filter (\<lambda>x. aAmount x > 0) (map (allocate base) (raises 0 0 chain))
       \<and> sum_list (map aAmount allocs) \<le> base
       \<and> (\<forall>x \<in> set allocs. aAncestor x \<in> set chain \<and> \<not> an_virtual (aAncestor x) \<and> 0 < aAmount x)
       \<and> sorted_wrt (\<lambda>x y. an_level (aAncestor x) < an_level (aAncestor y)) allocs"
proof -
  have nn: "0 \<le> stake" "0 \<le> payout" and l: "calc_loop base 0 0 chain = Inr allocs"
    using assms(1) by (auto simp: Calculate_def base_def split: if_splits)
  have b: "0 \<le> base" "base \<le> max_int64" using nn assms(2,3) by (auto simp: base_def rebate_base_def)
  have ok: "list_all anc_ok chain" and e: "allocs = filter (\<lambda>x. aAmount x > 0) (map (allocate base) (raises 0 0 chain))"
    using l calc_loop_spec [OF b order_refl] by (auto split: if_splits)
  let ?all = "map (allocate base) (raises 0 0 chain)"
  have pos: "\<forall>x \<in> set ?all. 0 \<le> aAmount x"
    using b raises_set [of _ _ 0 0 chain] by (fastforce simp: allocate_amount pos_imp_zdiv_nonneg_iff)
  have "sum_list (map aAmount allocs) = sum_list (map aAmount ?all)" unfolding e by (rule filter_sum_pos [OF pos])
  also have "\<dots> \<le> base" using raises_total [OF b(1) order_refl _ ok, of 0] by simp
  finally have s: "sum_list (map aAmount allocs) \<le> base" .
  have "\<forall>x \<in> set allocs. aAncestor x \<in> set chain \<and> \<not> an_virtual (aAncestor x) \<and> 0 < aAmount x"
    using raises_set [of _ _ 0 0 chain] by (auto simp: e allocate_pair)
  moreover have "sorted_wrt (\<lambda>x y. an_level (aAncestor x) < an_level (aAncestor y)) allocs"
    unfolding e by (rule sorted_wrt_filter) (use raises_levels in \<open>simp add: sorted_wrt_map allocate_def\<close>)
  ultimately show ?thesis using e s by blast
qed

definition sample_chain :: "ancestor list" where
  "sample_chain = [\<lparr>an_user = ''a1'', an_level = 1, an_rate = 10, an_virtual = False\<rparr>,
     \<lparr>an_user = ''a2'', an_level = 3, an_rate = 25, an_virtual = True\<rparr>,
     \<lparr>an_user = ''a3'', an_level = 2, an_rate = 30, an_virtual = False\<rparr>]"

theorem rebate_split_witness:
  "\<exists>allocs. Calculate 1999 0 ''road'' sample_chain = Inr allocs \<and> map aAmount allocs = [19, 39] \<and> sum_list (map aAmount allocs) \<le> 1999"
proof -
  have "case Calculate 1999 0 ''road'' sample_chain of Inl e \<Rightarrow> False | Inr as \<Rightarrow> map aAmount as = [19, 39]" by code_simp
  then obtain as where as: "Calculate 1999 0 ''road'' sample_chain = Inr as" "map aAmount as = [19, 39]" by (auto split: sum.splits)
  have p: "(1999 :: int) \<le> max_int64" "(0 :: int) \<le> max_int64" by (simp_all add: max_int64_def)
  have "sum_list (map aAmount as) \<le> rebate_base 1999 0 ''road''" by (rule rebate_split [OF as(1) p, THEN conjunct2, THEN conjunct1])
  then have "sum_list (map aAmount as) \<le> 1999" by (simp add: rebate_base_def)
  then show ?thesis using as by (intro exI conjI)
qed

text \<open>the chain a bet freezes is the path of parent links from its player: no agent appears twice, the
  player never does, and it ends only where the last agent has no known parent or the links
  close a cycle. \<^verbatim>\<open>LoadTx\<close> gives back what \<^verbatim>\<open>SnapshotTx\<close> froze.\<close>

theorem snapshot_chain:
  assumes "lookup (\<lambda>b. b_id b = betID) (bets s) = Some b" "SnapshotTx betID s = Inr (u, s')" "LoadTx betID s' = Inr chain" "chain \<noteq> []"
  shows "distinct (b_user b # map an_user chain)
       \<and> (\<exists>us. map an_user chain = map u_id us \<and> linked s (b_user b) us
            \<and> (\<forall>p. parent_of s (u_id (last us)) = Some p \<longrightarrow> u_id p \<in> set (b_user b # map an_user chain)))"
proof -
  define us where "us = agent_chain s (b_user b) [b_user b]"
  have id: "sn_bet (snapshot_of b s) = betID" using lookup_SomeD [OF assms(1)] by (simp add: snapshot_of_def Let_def)
  have none: "lookup (\<lambda>n. sn_bet n = betID) (snapshots s) = None" and sn: "snapshots s' = snapshots s @ [snapshot_of b s]"
    using assms(1,2) id by (auto simp: SnapshotTx_def insert_snapshot_def split: if_splits)
  have c: "chain = (if sn_enabled (snapshot_of b s) then sn_ancestors (snapshot_of b s) else [])"
    using assms(3) none id by (auto simp: LoadTx_def sn lookup_append)
  have m: "map an_user chain = map u_id us" and ne: "us \<noteq> []"
    using c assms(4) by (auto simp: us_def snapshot_of_def snapshot_ancestor_def Let_def split: if_splits)
  have d: "distinct (b_user b # map u_id us)" using agent_chain_distinct [of s "b_user b" "[b_user b]"] by (auto simp: us_def)
  have "u_id p \<in> set (b_user b # map u_id us)" if "parent_of s (u_id (last us)) = Some p" for p
    using agent_chain_maximal [of s "b_user b" "[b_user b]" "butlast us" "last us" p] that ne by (auto simp: us_def)
  then show ?thesis using d m agent_chain_linked [of s "b_user b" "[b_user b]"] unfolding us_def by auto
qed

definition sample_bet :: bet_row where
  "sample_bet = \<lparr>b_id = ''b1'', b_request = ''req-1'', b_round = ''r1'', b_user = ''alice'', b_wallet = ''wa'', b_room = Some ''g1'',
     b_mode = Some ''road'', b_selection = JNull, b_stake = 100, b_mult = Some 3, b_div = Some 2, b_status = BetAccepted, b_payout = 0,
     b_after = Some 900, b_simulated = False, b_robot = None, b_rebate_version = 1, b_merge = True, b_count = 1, b_created = 1000,
     b_last = None, b_settled = None\<rparr>"

definition sample_rebate_db :: db where
  "sample_rebate_db = sample_db\<lparr>bets := [sample_bet], user_roles := [(''bob'', ''admin'')],
     agent_parents := [(''alice'', Some ''bob''), (''bob'', Some ''alice'')],
     game_rooms := [\<lparr>gr_id = ''g1'', gr_code = ''ROOM1'', gr_name = ''Room 1'', gr_kind = ''hash'', gr_enabled = True\<rparr>],
     room_rebates := [\<lparr>rr_id = ''rc1'', rr_room = ''g1'', rr_enabled = True, rr_version = 4, rr_rates = [10, 20, 30, 40, 50, 60], rr_updated = 0\<rparr>]\<rparr>"

theorem snapshot_chain_witness:
  "\<exists>s'. SnapshotTx ''b1'' sample_rebate_db = Inr ((), s')
      \<and> LoadTx ''b1'' s' = Inr [\<lparr>an_user = ''bob'', an_level = 2, an_rate = 20, an_virtual = False\<rparr>] \<and> distinct [''alice'', ''bob'']"
proof -
  have l: "lookup (\<lambda>b. b_id b = ''b1'') (bets sample_rebate_db) = Some sample_bet" by (simp add: sample_rebate_db_def sample_bet_def)
  have "case SnapshotTx ''b1'' sample_rebate_db of Inl e \<Rightarrow> False
        | Inr x \<Rightarrow> LoadTx ''b1'' (snd x) = Inr [\<lparr>an_user = ''bob'', an_level = 2, an_rate = 20, an_virtual = False\<rparr>]" by code_simp
  then obtain s' where s': "SnapshotTx ''b1'' sample_rebate_db = Inr ((), s')"
    "LoadTx ''b1'' s' = Inr [\<lparr>an_user = ''bob'', an_level = 2, an_rate = 20, an_virtual = False\<rparr>]" by (auto split: sum.splits)
  from snapshot_chain [OF l s'] have "distinct [''alice'', ''bob'']" by (simp add: sample_bet_def)
  with s' show ?thesis by blast
qed

text \<open>C25: a rebate is paid at most once per bet and beneficiary: after one payment a repeated payment, of
  whatever amount, succeeds without touching wallets or ledger; the payment itself credits exactly the allocated amount with one
  ledger entry and keeps the books.\<close>

theorem rebate_paid_once:
  assumes "books_ok s" "PayTx betID currency a s = Inr (u, s')" "user_by_id s (an_user (aAncestor a)) = Some r" "\<not> u_virtual r"
    and "PayTx betID currency' a' s' = Inr (u', s'')" "an_user (aAncestor a') = an_user (aAncestor a)"
  shows "books_ok s' \<and> wallets s'' = wallets s' \<and> ledger s'' = ledger s'
       \<and> (paid_already s betID (an_user (aAncestor a)) \<or>
            (\<exists>w w'. wallet_of s (an_user (aAncestor a)) currency = Some w \<and> wallet_of s' (an_user (aAncestor a)) currency = Some w'
                 \<and> w_available w' = w_available w + aAmount a \<and> length (ledger s') = length (ledger s) + 1))"
proof -
  let ?v = "an_user (aAncestor a)"
  have b: "books_ok s'" using PayTx_books [OF assms(1,2)] .
  have nv: "\<not> (\<exists>r. user_by_id s ?v = Some r \<and> u_virtual r)" using assms(3,4) by simp
  note p = PayTx_Inr [OF assms(1,2)]
  have pd: "paid_already s' betID ?v" using p nv by (auto simp: paid_already_def)
  have "wallets s'' = wallets s' \<and> ledger s'' = ledger s'"
    using PayTx_Inr [OF b assms(5)] pd unfolding assms(6) by blast
  moreover have "paid_already s betID ?v \<or> (\<exists>w w'. wallet_of s ?v currency = Some w \<and> wallet_of s' ?v currency = Some w'
                 \<and> w_available w' = w_available w + aAmount a \<and> length (ledger s') = length (ledger s) + 1)"
    using p nv
  proof (elim disjE conjE exE)
    fix w i assume w: "wallet_of s ?v currency = Some w"
      and m: "moved s w (w_available w + aAmount a) ''commission'' i ''commission_credit'' s'"
    have "length (ledger s') = length (ledger s) + 1" using m by (auto simp: moved_def)
    then show ?thesis using moved_wallet_of [OF books_ok_wallets_ok [OF assms(1)] w m, of ?v currency] w by simp
  qed simp_all
  ultimately show ?thesis using b by blast
qed

definition sample_allocation :: Allocation where
  "sample_allocation = \<lparr>aAncestor = \<lparr>an_user = ''bob'', an_level = 2, an_rate = 20, an_virtual = False\<rparr>, aBase = 100, aDiff = 20, aAmount = 2\<rparr>"

definition sample_paid :: "(unit \<times> db) option" where
  "sample_paid = (case SnapshotTx ''b1'' sample_rebate_db of Inl e \<Rightarrow> None
     | Inr x \<Rightarrow> (case PayTx ''b1'' ''POINTS'' sample_allocation (snd x) of Inl e \<Rightarrow> None | Inr y \<Rightarrow> Some y))"

theorem rebate_paid_once_witness:
  "\<exists>s s' s''. PayTx ''b1'' ''POINTS'' sample_allocation s = Inr ((), s') \<and> PayTx ''b1'' ''POINTS'' sample_allocation s' = Inr ((), s'')
     \<and> wallets s'' = wallets s' \<and> map w_available (wallets s') = [1000, 2, 0, 500]"
proof -
  have "case SnapshotTx ''b1'' sample_rebate_db of Inl e \<Rightarrow> False | Inr x \<Rightarrow>
     (case PayTx ''b1'' ''POINTS'' sample_allocation (snd x) of Inl e \<Rightarrow> False | Inr y \<Rightarrow> map w_available (wallets (snd y)) = [1000, 2, 0, 500]
        \<and> (case PayTx ''b1'' ''POINTS'' sample_allocation (snd y) of Inl e \<Rightarrow> False | Inr z \<Rightarrow> True))" by code_simp
  then obtain s s' s'' where s: "SnapshotTx ''b1'' sample_rebate_db = Inr ((), s)"
    and p: "PayTx ''b1'' ''POINTS'' sample_allocation s = Inr ((), s')" "PayTx ''b1'' ''POINTS'' sample_allocation s' = Inr ((), s'')"
    and w: "map w_available (wallets s') = [1000, 2, 0, 500]" by (auto split: sum.splits)
  have "wallets s = wallets sample_db \<and> ledger s = ledger sample_db \<and> users s = users sample_db"
    using s by (auto simp: SnapshotTx_def Let_def insert_snapshot_def bindE_eq_Inr sample_rebate_db_def split: if_splits)
  then have b: "books_ok s" and us: "user_by_id s ''bob'' = user_by_id sample_db ''bob''"
    using books_ok_cong [OF sample_books_ok] by (auto simp: user_by_id_def)
  obtain r where "user_by_id sample_db ''bob'' = Some r" "\<not> u_virtual r" by (simp add: user_by_id_def sample_db_def)
  then have r: "user_by_id s (an_user (aAncestor sample_allocation)) = Some r" "\<not> u_virtual r" using us by (simp_all add: sample_allocation_def)
  have "wallets s'' = wallets s'" using rebate_paid_once [OF b p(1) r p(2)] by simp
  with p w show ?thesis by (intro exI conjI)
qed

text \<open>The validation accepts exactly six levels numbered 1 to 6 in any order, once each, with rates between
  0 and 1000 per mille that do not fall as the level rises; what it accepts always passes the
  table's CHECK constraint, so an update never fails on it.\<close>

theorem level_validation:
  "(validateLevels levels = Inr () \<longleftrightarrow>
      length levels = 6 \<and> lv_level ` set levels = {1..6} \<and> (\<forall>l \<in> set levels. 0 \<le> lv_rate l \<and> lv_rate l \<le> 1000)
      \<and> (\<forall>l \<in> set levels. \<forall>m \<in> set levels. lv_level l \<le> lv_level m \<longrightarrow> lv_rate l \<le> lv_rate m))
   \<and> UpdateConfig is_uuid actor i inp s \<noteq> Inl (DB Check)"
proof -
  have dist: "distinct (map lv_level levels)" if "length levels = 6" "lv_level ` set levels = {1..6}"
    using that by (intro card_distinct) simp
  have "validateLevels levels = Inr () \<longleftrightarrow>
      length levels = 6 \<and> lv_level ` set levels = {1..6} \<and> (\<forall>l \<in> set levels. 0 \<le> lv_rate l \<and> lv_rate l \<le> 1000)
      \<and> (\<forall>l \<in> set levels. \<forall>m \<in> set levels. lv_level l \<le> lv_level m \<longrightarrow> lv_rate l \<le> lv_rate m)" (is "?L \<longleftrightarrow> ?R")
  proof
    assume ?L
    then have v: "length levels = 6" "list_all level_ok levels" "distinct (map lv_level levels)" "sorted (level_rates levels)"
      by (simp_all add: validateLevels_iff)
    then show ?R using six_levels [OF v(2,3,1)] level_rates_sorted [OF v(2,3,1)] by (simp add: list_all_iff level_ok_def)
  next
    assume r: ?R
    have "1 \<le> lv_level l \<and> lv_level l \<le> 6" if "l \<in> set levels" for l
    proof -
      have "lv_level l \<in> {1..6}" using r that by blast
      then show ?thesis by simp
    qed
    then have ok: "list_all level_ok levels" using r by (simp add: list_all_iff level_ok_def)
    show ?L using r dist ok level_rates_sorted [OF ok dist] by (simp add: validateLevels_iff)
  qed
  moreover have "UpdateConfig is_uuid actor i inp s \<noteq> Inl (DB Check)"
  proof
    assume u: "UpdateConfig is_uuid actor i inp s = Inl (DB Check)"
    have no: "update_rebate i b (level_rates (cu_levels inp)) s \<noteq> Inl e" if "validateLevels (cu_levels inp) = Inr ()" for b e
      using validated_rates_check [OF that] by (simp add: update_rebate_def)
    have sc: "scanConfig t i \<noteq> Inl (DB Check)" for t by (simp add: scanConfig_def bindE_eq_Inl orErr_def split: option.splits)
    have au: "insert_audit a b c d p t \<noteq> Inl (DB Check)" for a b c d p t by (simp add: insert_audit_def new_uuid_def Let_def)
    show False using u no sc au by (auto simp: UpdateConfig_def bindE_eq_Inl split: if_splits sum.splits)
  qed
  ultimately show ?thesis by blast
qed

theorem level_validation_witness:
  "validateLevels (map (\<lambda>n. \<lparr>lv_level = n, lv_rate = 10 * n\<rparr>) [6, 5, 4, 3, 2, 1]) = Inr ()"
  by (subst level_validation [of _ undefined undefined undefined undefined undefined, THEN conjunct1]) auto

lemma update_rebate_lookup:
  assumes "update_rebate i en rates s = Inr s'" "lookup (\<lambda>c. rr_id c = i) (room_rebates s) = Some c"
  shows "lookup (\<lambda>c. rr_id c = i) (room_rebates s') = Some (c\<lparr>rr_enabled := en, rr_rates := rates, rr_version := rr_version c + 1, rr_updated := clock s\<rparr>)"
    and "game_rooms s' = game_rooms s"
  using assms by (auto simp: update_rebate_def lookup_modify_key split: if_splits)

lemma scanConfig_Inr:
  "scanConfig s i = Inr c \<Longrightarrow> \<exists>r. lookup (\<lambda>c. rr_id c = i) (room_rebates s) = Some r \<and> cf_version c = rr_version r"
  by (auto simp: scanConfig_def tx_simps)

lemma UpdateConfig_Inr:
  assumes "UpdateConfig is_uuid actor i inp s = Inr (c, s')"
  shows "\<exists>r s1. lookup (\<lambda>c. rr_id c = i) (room_rebates s) = Some r \<and> rr_version r = cu_version inp
     \<and> update_rebate i (cu_enabled inp) (level_rates (cu_levels inp)) s = Inr s1 \<and> scanConfig s1 i = Inr c
     \<and> room_rebates s' = room_rebates s1 \<and> wallets s' = wallets s1 \<and> ledger s' = ledger s1"
proof -
  from assms obtain old s1 p where o: "scanConfig s i = Inr old" "cf_version old = cu_version inp"
    and u: "update_rebate i (cu_enabled inp) (level_rates (cu_levels inp)) s = Inr s1" "scanConfig s1 i = Inr c"
    and a: "insert_audit actor ''rebate.config.update'' ''rebate_config'' i p s1 = Inr s'"
    by (auto simp: UpdateConfig_def bindE_eq_Inr split: if_splits sum.splits)
  have "room_rebates s' = room_rebates s1 \<and> wallets s' = wallets s1 \<and> ledger s' = ledger s1"
    using a by (auto simp: insert_audit_def new_uuid_def Let_def split: if_splits)
  then show ?thesis using o u scanConfig_Inr [OF o(1)] by auto
qed

text \<open>updates cannot overwrite each other: a successful update raises the version by one and stores the
  given rates, after which every other update made against the old version is refused and the
  table is as the first one left it.\<close>

theorem config_lost_update:
  assumes "UpdateConfig is_uuid actor i inp s = Inr (c, s')" "cu_version other = cu_version inp"
  shows "cf_version c = cu_version inp + 1
       \<and> (\<exists>r. lookup (\<lambda>c. rr_id c = i) (room_rebates s') = Some r \<and> rr_rates r = level_rates (cu_levels inp) \<and> rr_enabled r = cu_enabled inp)
       \<and> attempt (UpdateConfig is_uuid actor' i other) s' = s'"
proof -
  obtain r s1 where r: "lookup (\<lambda>c. rr_id c = i) (room_rebates s) = Some r" "rr_version r = cu_version inp"
    and u: "update_rebate i (cu_enabled inp) (level_rates (cu_levels inp)) s = Inr s1" "scanConfig s1 i = Inr c"
    and rr: "room_rebates s' = room_rebates s1"
    using UpdateConfig_Inr [OF assms(1)] by blast
  have "\<exists>t. lookup (\<lambda>c. rr_id c = i) (room_rebates s') = Some t \<and> rr_version t = cu_version inp + 1
        \<and> rr_rates t = level_rates (cu_levels inp) \<and> rr_enabled t = cu_enabled inp"
    using update_rebate_lookup(1) [OF u(1) r(1)] r(2) rr by simp
  then obtain t where t: "lookup (\<lambda>c. rr_id c = i) (room_rebates s') = Some t" "rr_version t = cu_version inp + 1"
    "rr_rates t = level_rates (cu_levels inp)" "rr_enabled t = cu_enabled inp" by blast
  have "UpdateConfig is_uuid actor' i other s' \<noteq> Inr (d, s'')" for d s''
  proof
    assume "UpdateConfig is_uuid actor' i other s' = Inr (d, s'')"
    from UpdateConfig_Inr [OF this] show False using t assms(2) by simp
  qed
  then have "attempt (UpdateConfig is_uuid actor' i other) s' = s'" by (auto simp: attempt_def split: sum.splits)
  moreover have "cf_version c = cu_version inp + 1" using scanConfig_Inr [OF u(2)] t rr by auto
  ultimately show ?thesis using t by blast
qed

definition sample_update :: ConfigUpdate where
  "sample_update = \<lparr>cu_version = 4, cu_enabled = False, cu_levels = map (\<lambda>n. \<lparr>lv_level = n, lv_rate = 10 * n\<rparr>) [6, 5, 4, 3, 2, 1]\<rparr>"

theorem config_lost_update_witness:
  "\<exists>c s'. UpdateConfig (\<lambda>_. True) ''bob'' ''rc1'' sample_update sample_rebate_db = Inr (c, s') \<and> cf_version c = 5
      \<and> attempt (UpdateConfig (\<lambda>_. True) ''bob'' ''rc1'' (sample_update\<lparr>cu_enabled := True\<rparr>)) s' = s'"
proof -
  have "case UpdateConfig (\<lambda>_. True) ''bob'' ''rc1'' sample_update sample_rebate_db of Inl e \<Rightarrow> False | Inr x \<Rightarrow> True" by code_simp
  then obtain c s' where u: "UpdateConfig (\<lambda>_. True) ''bob'' ''rc1'' sample_update sample_rebate_db = Inr (c, s')" by (auto split: sum.splits)
  have v: "cu_version (sample_update\<lparr>cu_enabled := True\<rparr>) = cu_version sample_update" "cu_version sample_update = 4"
    by (simp_all add: sample_update_def)
  from config_lost_update [OF u v(1), of "''bob''"] have "cf_version c = 5"
    "attempt (UpdateConfig (\<lambda>_. True) ''bob'' ''rc1'' (sample_update\<lparr>cu_enabled := True\<rparr>)) s' = s'" using v(2) by simp_all
  with u show ?thesis by (intro exI conjI)
qed

text \<open>the direct agent's commission is the exact floor of stake times rate over ten thousand for every
  stake an \<^verbatim>\<open>int64\<close> can hold (the split product cannot overflow) and never exceeds the stake; paying
  it keeps the books.\<close>

theorem commission_exact:
  assumes "0 \<le> stake" "stake \<le> max_int64" "0 \<le> rate" "rate \<le> 10000" "books_ok s"
  shows "calculateCommission stake rate = (stake * rate) div 10000 \<and> 0 \<le> calculateCommission stake rate
       \<and> calculateCommission stake rate \<le> stake \<and> books_ok (attempt (applyCommission betID agentID currency stake) s)"
  using calculateCommission_exact [OF assms(1-4)] commission.attempt_books [of s "(betID, agentID, currency, stake)"] assms(5) by simp

theorem commission_exact_witness:
  "calculateCommission max_int64 10000 = max_int64
   \<and> books_ok (attempt (applyCommission ''b1'' ''bob'' ''POINTS'' 100) sample_db)"
  using commission_exact [of max_int64 10000 sample_db "''b1''" "''bob''" "''POINTS''"]
    commission_exact [of 100 5 sample_db "''b1''" "''bob''" "''POINTS''"] sample_books_ok
  by (simp add: max_int64_def)

end
