(* ===== verification/Task_Progress.thy ===== *)
theory Task_Progress
  imports Books
begin

text \<open>
  Betting tasks: \<^verbatim>\<open>internal/application/task\<close> (\<^verbatim>\<open>lifecycle.go\<close>, \<^verbatim>\<open>service.go\<close>), the part settlement calls.
  Every settled bet adds its stake to the user's progress in each enabled task of its currency, up
  to the threshold of one cycle.
\<close>

section \<open>service.go, lifecycle.go\<close>

text \<open>The day of an instant in the platform's zone; the one period of a global task is day 0.\<close>

definition betDateAt :: "int \<Rightarrow> int" where
  "betDateAt t = (t + 28800000000) div 86400000000"

definition periodDate :: "string \<Rightarrow> int \<Rightarrow> int" where
  "periodDate kind date = (if kind = ''global'' then 0 else date)"

text \<open>\<^verbatim>\<open>INSERT INTO task_progress ... ON CONFLICT(config_id,user_id,period_date) DO UPDATE ... WHERE ...\<close>.\<close>

definition add_progress :: "task_config_row \<Rightarrow> string \<Rightarrow> int \<Rightarrow> int \<Rightarrow> db \<Rightarrow> error + db" where
  "add_progress c user date stake s =
     (let key = (\<lambda>p. tp_config p = tc_id c \<and> tp_user p = user \<and> tp_date p = date) in
      case lookup key (task_progress s) of
        None \<Rightarrow>
          if user_by_id s user = None then Inl (DB ForeignKey)
          else Inr (s\<lparr>task_progress := task_progress s @ [\<lparr>tp_config = tc_id c, tp_user = user, tp_date = date,
                 tp_progress = min stake (tc_threshold c), tp_count = 0, tp_updated = clock s\<rparr>]\<rparr>)
      | Some _ \<Rightarrow>
          Inr (s\<lparr>task_progress := modify (\<lambda>p. key p \<and> tp_progress p < tc_threshold c \<and> (tc_max c = 0 \<or> tp_count p < tc_max c))
                 (\<lambda>p. p\<lparr>tp_progress := tp_progress p + min stake (max 0 (tc_threshold c - tp_progress p)), tp_updated := clock s\<rparr>) (task_progress s)\<rparr>))"

fun add_all :: "task_config_row list \<Rightarrow> string \<Rightarrow> int \<Rightarrow> int \<Rightarrow> db \<Rightarrow> error + db" where
  "add_all [] user stake placedAt s = Inr s"
| "add_all (c # cs) user stake placedAt s =
     bindE (add_progress c user (periodDate (tc_period c) (betDateAt placedAt)) stake s) (add_all cs user stake placedAt)"

definition OnBetSettled :: "string \<Rightarrow> string \<Rightarrow> int \<Rightarrow> int \<Rightarrow> db \<Rightarrow> error + db" where
  "OnBetSettled user currency stake placedAt s =
     (if stake \<le> 0 then Inl (Task ErrInvalidTask)
      else add_all (sort_key (\<lambda>c. map code (tc_id c))
             (filter (\<lambda>c. tc_enabled c \<and> \<not> tc_deleted c \<and> tc_acc c = currency) (task_configs s))) user stake placedAt s)"

section \<open>The interface to settlement\<close>

text \<open>
  What settlement relies on of its optional task hook (\<^verbatim>\<open>ValidBetTaskHook\<close>): it writes task progress
  and nothing else.
\<close>

definition tasks_only :: "db \<Rightarrow> db \<Rightarrow> bool" where
  "tasks_only s s' \<longleftrightarrow> s' = s\<lparr>task_progress := task_progress s'\<rparr>"

locale bet_task_hook =
  fixes hook :: "(string \<Rightarrow> string \<Rightarrow> int \<Rightarrow> int \<Rightarrow> db \<Rightarrow> error + db) option"
  assumes hook_frame: "hook = Some h \<Longrightarrow> h user currency stake at s = Inr s' \<Longrightarrow> tasks_only s s'"

lemma tasks_only_refl [simp]: "tasks_only s s"
  by (simp add: tasks_only_def)

lemma tasks_only_trans: "tasks_only s t \<Longrightarrow> tasks_only t u \<Longrightarrow> tasks_only s u"
  unfolding tasks_only_def by (cases s; cases t; cases u) simp

lemma add_progress_frame: "add_progress c user date stake s = Inr s' \<Longrightarrow> tasks_only s s'"
  by (auto simp: add_progress_def tasks_only_def Let_def split: if_splits option.splits)

lemma add_all_frame: "add_all cs user stake at s = Inr s' \<Longrightarrow> tasks_only s s'"
proof (induction cs arbitrary: s)
  case (Cons c cs)
  then obtain t where "add_progress c user (periodDate (tc_period c) (betDateAt at)) stake s = Inr t" "add_all cs user stake at t = Inr s'"
    by (auto simp: bindE_eq_Inr)
  then show ?case using Cons.IH add_progress_frame tasks_only_trans by blast
qed simp

interpretation task_hook: bet_task_hook "Some OnBetSettled"
  by unfold_locales (auto simp: OnBetSettled_def split: if_splits intro: add_all_frame)

text \<open>Progress never passes the threshold of a cycle and never shrinks.\<close>

definition progress_ok :: "db \<Rightarrow> bool" where
  "progress_ok s \<longleftrightarrow> (\<forall>p \<in> set (task_progress s). 0 \<le> tp_progress p
     \<and> (\<forall>c \<in> set (task_configs s). tc_id c = tp_config p \<longrightarrow> tp_progress p \<le> tc_threshold c))"

end
