(* ===== verification/Settlement.thy ===== *)
theory Settlement
  imports Draw_Results Rebate Task_Progress "HOL-Library.Multiset"
begin

text \<open>
  Settlement of rounds: \<^verbatim>\<open>internal/application/settlement\<close> (\<^verbatim>\<open>settle.go\<close>, \<^verbatim>\<open>refund.go\<close>, \<^verbatim>\<open>settle_due.go\<close>).
  A settlement decides every accepted bet of the round, pays its rebates, credits the winners, and
  finishes the round; a cancellation gives every stake back. \<open>now\<close> in the code is the \<open>clock\<close> of
  the database; selections and outcomes are parsed documents. The optional task hook is the
  interface \<open>bet_task_hook\<close>. The lemmas below show what a run writes to bets, ledger and rounds.
\<close>

section \<open>settle.go: which selections win\<close>

definition mode_of :: "bet_row \<Rightarrow> string" where
  "mode_of b = (case b_mode b of None \<Rightarrow> [] | Some m \<Rightarrow> m)"

definition winning_digit :: "string list \<Rightarrow> string" where
  "winning_digit outcome =
     (case lookup (\<lambda>v. length v = 1 \<and> is_digit (hd v)) outcome of None \<Rightarrow> [] | Some v \<Rightarrow> v)"

definition hashSelectionWins :: "string \<Rightarrow> json \<Rightarrow> string list \<Rightarrow> bool" where
  "hashSelectionWins mode raw outcome =
     (case decode_pick (Some raw) of
        None \<Rightarrow> False
      | Some pick \<Rightarrow>
          if pick = [] then False
          else let digit = winning_digit outcome in
               if mode = ''guess'' then digit \<noteq> [] \<and> pick = digit
               else if mode = ''dodge'' then digit \<noteq> [] \<and> pick \<noteq> digit
               else if mode = ''road'' then containsOutcome outcome pick
               else False)"

definition sharedLuluRules :: "Rules \<Rightarrow> bool" where
  "sharedLuluRules rules \<longleftrightarrow> Source rules = ''lulu_ws'' \<and> decode_shared (Extras rules) = Some True"

text \<open>The enabled plays of the round's game, keyed by code.\<close>

fun scan_plays :: "lulu_play_row list \<Rightarrow> error + (string \<times> LuluPlay) list" where
  "scan_plays [] = Inr []"
| "scan_plays (p # ps) =
     (case (decode_strings (Some (lp_outcomes p)), dec_map (dec_slice dec_string []) [] (lp_result_map p) []) of
        (Some outcomes, Some results) \<Rightarrow>
          bindE (scan_plays ps) (\<lambda>m. Inr ((lp_code p, \<lparr>PlayCode = lp_code p, PlayOutcomes = outcomes,
              PlayResultMap = results, PlayDodge = lp_dodge p\<rparr>) # m))
      | _ \<Rightarrow> Inl (Game ErrInvalidRules))"

definition loadLuluPlaysTx :: "string \<Rightarrow> db \<Rightarrow> error + (string \<times> LuluPlay) list" where
  "loadLuluPlaysTx roundID s =
     scan_plays (filter (\<lambda>p. lp_enabled p \<and> (\<exists>r \<in> set (rounds s). r_id r = roundID \<and> r_type r = lp_type p)) (lulu_plays s))"

text \<open>The hour of an instant in UTC+8.\<close>

definition beijing_hour :: "int \<Rightarrow> int" where
  "beijing_hour t = ((t + 28800000000) div 3600000000) mod 24"

definition luluPrimeTimeOddEven :: "Rules \<Rightarrow> string \<Rightarrow> int \<Rightarrow> bool" where
  "luluPrimeTimeOddEven rules mode placedAt \<longleftrightarrow>
     mode = ''odd_even'' \<and> placedAt \<noteq> zero_time
     \<and> Option.bind (Extras rules) (field ''external_game'' dec_string []) = Some ''xdy''
     \<and> beijing_hour placedAt = 20"

definition prime_multipliers :: "int list" where
  "prime_multipliers = [0, 112, 130, 150, 160, 245, 380, 750]"

definition luluPrimeTimeDodgeOdds :: "Rules \<Rightarrow> string \<Rightarrow> int \<Rightarrow> string list \<Rightarrow> (int \<times> int) option" where
  "luluPrimeTimeDodgeOdds rules mode placedAt outcome =
     (if mode \<noteq> ''dodge'' then None
      else if \<not> luluPrimeTimeOddEven rules ''odd_even'' placedAt then None
      else if length outcome < 1 \<or> length outcome > 7 then None
      else Some (prime_multipliers ! length outcome, 100))"

definition selectionWins :: "Rules \<Rightarrow> (string \<times> LuluPlay) list \<Rightarrow> string \<Rightarrow> json \<Rightarrow> int \<Rightarrow> string list \<Rightarrow> error + bool" where
  "selectionWins rules plays mode selection placedAt outcome =
     (if sharedLuluRules rules then
        if luluPrimeTimeOddEven rules mode placedAt then
          (case decode_pick (Some selection) of
             None \<Rightarrow> Inl (Game ErrInvalidRules)
           | Some pick \<Rightarrow>
               if pick \<noteq> ''odd'' \<and> pick \<noteq> ''even'' then Inl (Game ErrInvalidRules)
               else Inr ((length outcome mod 2 = 1 \<and> pick = ''odd'') \<or> (length outcome mod 2 = 0 \<and> pick = ''even'')))
        else (case map_of plays mode of
                None \<Rightarrow> Inl (Game ErrInvalidRules)
              | Some play \<Rightarrow> Inr (lulu_SelectionWins play selection outcome))
      else if mode \<noteq> [] then Inr (hashSelectionWins mode selection outcome)
      else Inr (SelectionWins rules selection outcome))"

section \<open>settle.go: odds and payout\<close>

text \<open>The odds of the rules, overridden by the pair stored with the bet, overridden by the
  prime-time table.\<close>

definition bet_odds :: "Rules \<Rightarrow> bet_row \<Rightarrow> string list \<Rightarrow> int \<times> int" where
  "bet_odds rules b outcome =
     (case luluPrimeTimeDodgeOdds rules (mode_of b) (b_created b) outcome of
        Some md \<Rightarrow> md
      | None \<Rightarrow>
          (case (b_mult b, b_div b) of
             (Some m, Some d) \<Rightarrow> (m, d)
           | _ \<Rightarrow> (PayoutMultiplier rules, PayoutScale rules)))"

definition checked_payout :: "int \<Rightarrow> int \<times> int \<Rightarrow> error + int" where
  "checked_payout stake odds =
     (case odds of (m, d) \<Rightarrow>
        if m \<le> 0 \<or> d \<le> 0 \<or> stake > go_div max_int64 m then Inl (Settlement ErrPayoutOverflow)
        else Inr (go_div (wrap64 (stake * m)) d))"

definition bet_wins :: "Rules \<Rightarrow> (string \<times> LuluPlay) list \<Rightarrow> string list \<Rightarrow> bet_row \<Rightarrow> error + bool" where
  "bet_wins rules plays outcome b = selectionWins rules plays (mode_of b) (b_selection b) (b_created b) outcome"

section \<open>settle.go: the accepted bets\<close>

record SettlementResult =
  sr_round :: string
  sr_outcome :: "string list"
  sr_won :: int
  sr_lost :: int
  sr_payout :: int
  sr_settled :: int

text \<open>The columns of the bet are kept as its row.\<close>

record acceptedBet =
  ab_bet :: bet_row
  ab_currency :: string
  ab_agent :: string
  ab_allocations :: "Allocation list"

definition of_round :: "string \<Rightarrow> bet_row \<Rightarrow> bool" where
  "of_round roundID b \<longleftrightarrow> b_round b = roundID \<and> b_status b = BetAccepted"

text \<open>\<^verbatim>\<open>FROM bets JOIN wallets \<dots> WHERE round_id=$1 AND status='accepted' ORDER BY wallet_id,id\<close>.\<close>

definition accepted_bets :: "string \<Rightarrow> db \<Rightarrow> bet_row list" where
  "accepted_bets roundID s =
     sort_key (\<lambda>b. map code (b_wallet b)) (sort_key (\<lambda>b. map code (b_id b))
       (filter (\<lambda>b. of_round roundID b \<and> wallet_by_id s (b_wallet b) \<noteq> None) (bets s)))"

definition wallet_currency :: "db \<Rightarrow> string \<Rightarrow> string" where
  "wallet_currency s wid = (case wallet_by_id s wid of None \<Rightarrow> [] | Some w \<Rightarrow> w_currency w)"

text \<open>The first pass: who is paid for a bet. No statement writes here.\<close>

definition prepare_bet :: "Rules \<Rightarrow> (string \<times> LuluPlay) list \<Rightarrow> string list \<Rightarrow> db \<Rightarrow> bet_row \<Rightarrow> error + acceptedBet" where
  "prepare_bet rules plays outcome s b =
     (let ab = \<lparr>ab_bet = b, ab_currency = wallet_currency s (b_wallet b), ab_agent = [], ab_allocations = []\<rparr> in
      if b_simulated b then Inr ab
      else if b_rebate_version b = 1 then
        Inr (ab\<lparr>ab_agent := (case lookup (\<lambda>p. fst p = b_user b \<and> snd p \<noteq> None) (agent_parents s) of
               Some (_, Some parent) \<Rightarrow> parent | _ \<Rightarrow> [])\<rparr>)
      else
        bindE (LoadTx (b_id b) s) (\<lambda>chain.
        bindE (bet_wins rules plays outcome b) (\<lambda>won.
        bindE (if won then checked_payout (b_stake b) (bet_odds rules b outcome) else Inr 0) (\<lambda>payout.
        bindE (Calculate (b_stake b) payout (mode_of b) chain) (\<lambda>allocations.
        Inr (ab\<lparr>ab_allocations := allocations\<rparr>))))))"

fun prepare_bets :: "Rules \<Rightarrow> (string \<times> LuluPlay) list \<Rightarrow> string list \<Rightarrow> db \<Rightarrow> bet_row list \<Rightarrow> error + acceptedBet list" where
  "prepare_bets rules plays outcome s [] = Inr []"
| "prepare_bets rules plays outcome s (b # bs) =
     bindE (prepare_bet rules plays outcome s b) (\<lambda>ab.
     bindE (prepare_bets rules plays outcome s bs) (\<lambda>abets. Inr (ab # abets)))"

text \<open>The recipients with the currency of the bet, each once, ordered by user and currency; their
  wallets are created before any of them is locked.\<close>

definition bet_recipients :: "acceptedBet \<Rightarrow> (string \<times> string) list" where
  "bet_recipients ab =
     (if ab_agent ab = [] then [] else [(ab_agent ab, ab_currency ab)])
     @ map (\<lambda>a. (an_user (aAncestor a), ab_currency ab)) (ab_allocations ab)"

definition recipients :: "acceptedBet list \<Rightarrow> (string \<times> string) list" where
  "recipients abets =
     sort_key (\<lambda>r. map code (fst r)) (sort_key (\<lambda>r. map code (snd r)) (remdups (concat (map bet_recipients abets))))"

fun ensure_wallets :: "(string \<times> string) list \<Rightarrow> db \<Rightarrow> error + db" where
  "ensure_wallets [] s = Inr s"
| "ensure_wallets ((user, currency) # rs) s =
     (if wallet_of s user currency \<noteq> None then ensure_wallets rs s
      else let (i, s) = new_uuid s in
           bindE (insert_wallet i user currency s) (ensure_wallets rs))"

section \<open>settle.go: deciding one bet\<close>

type_synonym task_hook = "string \<Rightarrow> string \<Rightarrow> int \<Rightarrow> int \<Rightarrow> db \<Rightarrow> error + db"

definition set_bet :: "string \<Rightarrow> (bet_row \<Rightarrow> bet_row) \<Rightarrow> db \<Rightarrow> db" where
  "set_bet i g s = s\<lparr>bets := modify (\<lambda>b. b_id b = i) g (bets s)\<rparr>"

fun pay_all :: "string \<Rightarrow> string \<Rightarrow> Allocation list \<Rightarrow> db \<Rightarrow> error + db" where
  "pay_all betID currency [] s = Inr s"
| "pay_all betID currency (a # as) s = bindE (PayTx betID currency a s) (\<lambda>r. pay_all betID currency as (snd r))"

definition pay_agents :: "acceptedBet \<Rightarrow> db \<Rightarrow> error + db" where
  "pay_agents ab s =
     (let b = ab_bet ab in
      if \<not> b_simulated b \<and> b_rebate_version b = 1
      then bindE (applyCommission (b_id b) (ab_agent ab) (ab_currency ab) (b_stake b) s) (\<lambda>r. Inr (snd r))
      else if \<not> b_simulated b \<and> b_rebate_version b = 2
      then pay_all (b_id b) (ab_currency ab) (ab_allocations ab) s
      else Inr s)"

definition run_hook :: "task_hook option \<Rightarrow> acceptedBet \<Rightarrow> db \<Rightarrow> error + db" where
  "run_hook hook ab s =
     (case hook of
        None \<Rightarrow> Inr s
      | Some h \<Rightarrow>
          if \<not> b_simulated (ab_bet ab) \<and> mode_of (ab_bet ab) \<noteq> ''dodge''
          then h (b_user (ab_bet ab)) (ab_currency ab) (b_stake (ab_bet ab)) (b_created (ab_bet ab)) s
          else Inr s)"

definition lost_row :: "int \<Rightarrow> int \<Rightarrow> bet_row \<Rightarrow> bet_row" where
  "lost_row now after b = b\<lparr>b_status := BetLost, b_settled := Some now, b_after := Some after\<rparr>"

definition won_row :: "int \<Rightarrow> int \<Rightarrow> int \<Rightarrow> bet_row \<Rightarrow> bet_row" where
  "won_row now payout after b = b\<lparr>b_status := BetWon, b_payout := payout, b_settled := Some now, b_after := Some after\<rparr>"

definition settle_bet :: "task_hook option \<Rightarrow> Rules \<Rightarrow> (string \<times> LuluPlay) list \<Rightarrow> string list \<Rightarrow> acceptedBet
    \<Rightarrow> SettlementResult \<Rightarrow> SettlementResult tx" where
  "settle_bet hook rules plays outcome ab result s =
     (let b = ab_bet ab; now = sr_settled result in
      bindE (pay_agents ab s) (\<lambda>s.
      bindE (orErr (DB NoRows) (wallet_by_id s (b_wallet b))) (\<lambda>w.
      bindE (bet_wins rules plays outcome b) (\<lambda>won.
      bindE (run_hook hook ab s) (\<lambda>s.
      if \<not> won then
        Inr (result\<lparr>sr_lost := sr_lost result + 1\<rparr>, set_bet (b_id b) (lost_row now (w_available w)) s)
      else
        bindE (checked_payout (b_stake b) (bet_odds rules b outcome)) (\<lambda>payout.
        let counted = result\<lparr>sr_won := sr_won result + 1, sr_payout := wrap64 (sr_payout result + payout)\<rparr> in
        if b_simulated b then Inr (counted, set_bet (b_id b) (won_row now payout (w_available w)) s)
        else if w_available w > wrap64 (max_int64 - payout) then Inl (Settlement ErrPayoutOverflow)
        else let after = wrap64 (w_available w + payout) in
          bindE (set_available (b_wallet b) after s) (\<lambda>s.
          bindE (insert_ledger (b_wallet b) ''settlement'' (b_id b) ''settlement_credit'' payout after
                   (set_bet (b_id b) (won_row now payout after) s)) (\<lambda>s.
          Inr (counted, s)))))))))"

fun settle_bets :: "task_hook option \<Rightarrow> Rules \<Rightarrow> (string \<times> LuluPlay) list \<Rightarrow> string list \<Rightarrow> acceptedBet list
    \<Rightarrow> SettlementResult \<Rightarrow> SettlementResult tx" where
  "settle_bets hook rules plays outcome [] result s = Inr (result, s)"
| "settle_bets hook rules plays outcome (ab # abets) result s =
     bindE (settle_bet hook rules plays outcome ab result s) (\<lambda>r.
     settle_bets hook rules plays outcome abets (fst r) (snd r))"


section \<open>settle.go: events\<close>

text \<open>
  The statement that writes one personal result per user: the bets of the round that have just been
  decided, joined with user, wallet, round and game type. The groups come out ordered by user.
\<close>

definition decided_bets :: "string \<Rightarrow> int \<Rightarrow> db \<Rightarrow> bet_row list" where
  "decided_bets roundID now s =
     filter (\<lambda>b. b_round b = roundID \<and> b_status b \<in> {BetWon, BetLost} \<and> b_settled b = Some now
        \<and> user_by_id s (b_user b) \<noteq> None \<and> wallet_by_id s (b_wallet b) \<noteq> None) (bets s)"

definition opt_text :: "string option \<Rightarrow> payload" where
  "opt_text t = (case t of None \<Rightarrow> PNull | Some v \<Rightarrow> PStr v)"

definition bet_payload :: "db \<Rightarrow> bet_row \<Rightarrow> payload" where
  "bet_payload s b =
     PObj [(''bet_id'', PStr (b_id b)), (''game_room_id'', opt_text (b_room b)), (''play_mode'', opt_text (b_mode b)),
       (''selection'', PJson (b_selection b)), (''currency'', PStr (wallet_currency s (b_wallet b))),
       (''status'', PStr (if b_status b = BetWon then ''won'' else ''lost'')), (''stake_minor'', PInt (b_stake b)),
       (''payout_minor'', PInt (b_payout b)), (''net_win_minor'', PInt (b_payout b - b_stake b)),
       (''placement_count'', PInt (b_count b)), (''is_simulated'', PBool (b_simulated b))]"

definition total_payload :: "db \<Rightarrow> bet_row list \<Rightarrow> string \<Rightarrow> payload" where
  "total_payload s bs currency =
     (let own = filter (\<lambda>b. wallet_currency s (b_wallet b) = currency) bs;
          stake = sum_list (map b_stake own); payout = sum_list (map b_payout own)
      in PObj [(''currency'', PStr currency), (''stake_minor'', PInt stake), (''payout_minor'', PInt payout),
           (''net_win_minor'', PInt (payout - stake)), (''bet_count'', PInt (int (length own)))])"

definition user_payload :: "db \<Rightarrow> round_row \<Rightarrow> string \<Rightarrow> int \<Rightarrow> bet_row list \<Rightarrow> user_row \<Rightarrow> payload" where
  "user_payload s r code' now decided u =
     (let own = sort_key (\<lambda>b. map code (b_id b)) (filter (\<lambda>b. b_user b = u_id u) decided);
          cs = sort_key (map code) (remdups (map (\<lambda>b. wallet_currency s (b_wallet b)) own))
      in PObj [(''user_ids'', PList [PStr (u_id u)]), (''account_id'', PInt (u_public_id u)), (''round_id'', PStr (r_id r)),
           (''round_sequence'', PInt (r_seq r)), (''game_type'', PStr code'), (''settled_at'', PTime now),
           (''bets'', PList (map (bet_payload s) own)), (''totals'', PList (map (total_payload s own) cs))])"

fun insert_events :: "string \<Rightarrow> string \<Rightarrow> payload list \<Rightarrow> db \<Rightarrow> error + db" where
  "insert_events roundID kind [] s = Inr s"
| "insert_events roundID kind (p # ps) s =
     bindE (insert_outbox ''round'' roundID kind p s) (insert_events roundID kind ps)"

definition personal_events :: "string \<Rightarrow> int \<Rightarrow> db \<Rightarrow> payload list" where
  "personal_events roundID now s =
     (case lookup (\<lambda>r. r_id r = roundID) (rounds s) of
        None \<Rightarrow> []
      | Some r \<Rightarrow>
          (case type_of s r of
             None \<Rightarrow> []
           | Some t \<Rightarrow>
               let decided = decided_bets roundID now s;
                   us = sort_key (map code) (remdups (map b_user decided))
               in map (\<lambda>i. user_payload s r (gt_code t) now decided (the (user_by_id s i))) us))"

definition result_payload :: "SettlementResult \<Rightarrow> payload" where
  "result_payload x =
     PObj [(''round_id'', PStr (sr_round x)), (''outcome'', PJson (encode_strings (sr_outcome x))),
       (''won_bet_count'', PInt (sr_won x)), (''lost_bet_count'', PInt (sr_lost x)),
       (''payout_minor'', PInt (sr_payout x)), (''settled_at'', PTime (sr_settled x))]"

section \<open>settle.go: SettleRound\<close>

text \<open>The finished round answers a repeated call from the stored rows.\<close>

definition settledResult :: "round_row \<Rightarrow> string list \<Rightarrow> db \<Rightarrow> error + SettlementResult" where
  "settledResult r outcome s =
     (let of_status = (\<lambda>st. filter (\<lambda>b. b_round b = r_id r \<and> b_status b = st) (bets s));
          total = sum_list (map b_payout (of_status BetWon))
      in if \<not> int64 total then Inl (DB OutOfRange)
         else Inr \<lparr>sr_round = r_id r, sr_outcome = outcome, sr_won = int (length (of_status BetWon)),
                sr_lost = int (length (of_status BetLost)), sr_payout = total,
                sr_settled = (case r_settled r of None \<Rightarrow> zero_time | Some t \<Rightarrow> t)\<rparr>)"

definition settled_row :: "string list \<Rightarrow> int \<Rightarrow> round_row \<Rightarrow> round_row" where
  "settled_row outcome now r =
     r\<lparr>r_status := RoundSettled, r_outcome := Some (encode_strings outcome), r_settled := Some now, r_version := r_version r + 1\<rparr>"

definition settle_writes :: "task_hook option \<Rightarrow> string \<Rightarrow> string list \<Rightarrow> Rules \<Rightarrow> SettlementResult tx" where
  "settle_writes hook roundID outcome rules s =
     bindE (if sharedLuluRules rules then loadLuluPlaysTx roundID s else Inr []) (\<lambda>plays.
     bindE (prepare_bets rules plays outcome s (accepted_bets roundID s)) (\<lambda>abets.
     bindE (ensure_wallets (recipients abets) s) (\<lambda>s.
     bindE (settle_bets hook rules plays outcome abets
              \<lparr>sr_round = roundID, sr_outcome = outcome, sr_won = 0, sr_lost = 0, sr_payout = 0, sr_settled = clock s\<rparr> s) (\<lambda>r.
     bindE (insert_events roundID ''game.bet.settled'' (personal_events roundID (sr_settled (fst r)) (snd r)) (snd r)) (\<lambda>s.
     bindE (insert_outbox ''round'' roundID ''game.round.settled'' (result_payload (fst r))
              (set_round roundID (settled_row outcome (sr_settled (fst r))) s)) (\<lambda>s.
     Inr (fst r, s)))))))"

definition SettleRound :: "task_hook option \<Rightarrow> string \<Rightarrow> string list \<Rightarrow> Rules \<Rightarrow> SettlementResult tx" where
  "SettleRound hook roundID outcome rules s =
     (if outcome = [] \<or> [] \<in> set outcome then Inl (Settlement ErrInvalidOutcome)
      else bindE (validateRules rules) (\<lambda>_.
      if \<not> set outcome \<subseteq> set (Outcomes rules) then Inl (Settlement ErrOutcomeOutsidePool)
      else bindE (orErr (Game ErrRoundNotFound) (lookup (\<lambda>r. r_id r = roundID) (rounds s))) (\<lambda>r.
      if r_status r = RoundSettled then
        bindE (orErr JsonError (decode_strings (r_outcome r))) (\<lambda>old.
        if old \<noteq> outcome then Inl (Settlement ErrSettlementOutcomeMismatch)
        else bindE (settledResult r old s) (\<lambda>x. Inr (x, s)))
      else if r_status r = RoundClosed then
        settle_writes hook roundID outcome rules
          (set_round roundID (\<lambda>r. r\<lparr>r_status := RoundSettling, r_version := r_version r + 1\<rparr>) s)
      else if r_status r = RoundSettling then settle_writes hook roundID outcome rules s
      else Inl (Game ErrInvalidTransition))))"

section \<open>refund.go\<close>

definition refunded_row :: "int \<Rightarrow> int \<Rightarrow> bet_row \<Rightarrow> bet_row" where
  "refunded_row now after b = b\<lparr>b_status := BetRefunded, b_settled := Some now, b_after := Some after\<rparr>"

definition refund_bet :: "bet_row \<Rightarrow> db \<Rightarrow> error + db" where
  "refund_bet b s =
     bindE (orErr (DB NoRows) (wallet_by_id s (b_wallet b))) (\<lambda>w.
     if b_simulated b then Inr (set_bet (b_id b) (refunded_row (clock s) (w_available w)) s)
     else let after = wrap64 (w_available w + b_stake b) in
       bindE (set_available (b_wallet b) after s) (\<lambda>s.
       insert_ledger (b_wallet b) ''refund'' (b_id b) ''refund'' (b_stake b) after
         (set_bet (b_id b) (refunded_row (clock s) after) s)))"

fun refund_bets :: "bet_row list \<Rightarrow> db \<Rightarrow> error + db" where
  "refund_bets [] s = Inr s"
| "refund_bets (b # bs) s = bindE (refund_bet b s) (refund_bets bs)"

definition CancelRound :: "string \<Rightarrow> int tx" where
  "CancelRound roundID s =
     bindE (orErr (Game ErrRoundNotFound) (lookup (\<lambda>r. r_id r = roundID) (rounds s))) (\<lambda>r.
     if r_status r = RoundCancelled then Inr (0, s)
     else if r_status r \<noteq> RoundOpen \<and> r_status r \<noteq> RoundClosed then Inl (Game ErrInvalidTransition)
     else let bs = accepted_bets roundID s in
       bindE (refund_bets bs s) (\<lambda>s.
       bindE (insert_outbox ''round'' roundID ''game.round.cancelled''
                (PObj [(''round_id'', PStr roundID), (''refunded_bet_count'', PInt (int (length bs)))])
                (set_round roundID (\<lambda>r. r\<lparr>r_status := RoundCancelled, r_version := r_version r + 1\<rparr>) s)) (\<lambda>s.
       Inr (int (length bs), s))))"

section \<open>settle_due.go\<close>

definition draw_confirmed :: "db \<Rightarrow> game_type_row \<Rightarrow> int \<Rightarrow> bool" where
  "draw_confirmed s t sequence \<longleftrightarrow>
     list_ex (\<lambda>d. Some (ed_game d) = Option.bind (json_member (gt_rules t) ''extras'') (\<lambda>x. json_text x ''external_game'')
        \<and> ed_round d = sequence \<and> ed_status d = DrawConfirmed) (draws s)"

definition due_priority :: "db \<Rightarrow> game_type_row \<Rightarrow> int \<Rightarrow> int" where
  "due_priority s t sequence =
     (if json_text (gt_rules t) ''source'' = Some ''lulu_ws'' \<and> draw_confirmed s t sequence then 0
      else if json_text (gt_rules t) ''source'' = Some ''tron_hash'' then 1 else 2)"

definition due_settlements :: "int \<Rightarrow> db \<Rightarrow> (round_row \<times> game_type_row) list" where
  "due_settlements limit s =
     (let due = concat (map (\<lambda>r. case type_of s r of None \<Rightarrow> [] | Some t \<Rightarrow> [(r, t)])
            (filter (\<lambda>r. r_status r \<in> {RoundClosed, RoundSettling} \<and> r_result_at r \<le> clock s) (rounds s)))
      in take (nat limit)
           (sort_key (\<lambda>(r, t). due_priority s t (r_seq r))
             (sort_key (\<lambda>(r, t). r_result_at r) (sort_key (\<lambda>(r, t). map code (r_id r)) due))))"

text \<open>
  Each round is settled in a transaction of its own; the result source is the argument. The answer
  lists the settled rounds and the errors, each with its round.
\<close>

fun settle_due_loop :: "(db \<Rightarrow> Round \<Rightarrow> Rules \<Rightarrow> error + string list) \<Rightarrow> task_hook option \<Rightarrow> (round_row \<times> game_type_row) list
    \<Rightarrow> db \<Rightarrow> (string \<times> SettlementResult) list \<times> (string \<times> error) list \<times> db" where
  "settle_due_loop source hook [] s = ([], [], s)"
| "settle_due_loop source hook ((r, t) # due) s =
     (let fail = (\<lambda>e (xs, es, s). (xs, (r_id r, e) # es, s)) in
      case ParseRules (Some (gt_rules t)) of
        Inl e \<Rightarrow> fail e (settle_due_loop source hook due s)
      | Inr rules \<Rightarrow>
          (case source s ((row_round s r)\<lparr>SettledAt := None\<rparr>) rules of
             Inl e \<Rightarrow>
               if e = Settlement ErrBlockNotFound then settle_due_loop source hook due s
               else if e = Settlement ErrRateLimited then ([], [(r_id r, e)], s)
               else fail e (settle_due_loop source hook due s)
           | Inr outcome \<Rightarrow>
               (case SettleRound hook (r_id r) outcome rules s of
                  Inl e \<Rightarrow> fail e (settle_due_loop source hook due s)
                | Inr (x, s') \<Rightarrow> (case settle_due_loop source hook due s' of (xs, es, s'') \<Rightarrow> ((r_id r, x) # xs, es, s'')))))"

definition SettleDueRounds :: "(db \<Rightarrow> Round \<Rightarrow> Rules \<Rightarrow> error + string list) \<Rightarrow> task_hook option \<Rightarrow> int \<Rightarrow> db
    \<Rightarrow> (string \<times> SettlementResult) list \<times> (string \<times> error) list \<times> db" where
  "SettleDueRounds source hook limit s =
     (if limit \<le> 0 then ([], [], s) else settle_due_loop source hook (due_settlements limit s) s)"


section \<open>What paying the agents leaves alone\<close>

text \<open>Paying commissions and rebates, creating the wallets for them and the task hook write these
  tables, and only commission entries to the ledger.\<close>

definition aside :: "db \<Rightarrow> db \<Rightarrow> bool" where
  "aside s s' \<longleftrightarrow>
     s' = s\<lparr>wallets := wallets s', ledger := ledger s', outbox := outbox s', next_uuid := next_uuid s', commissions := commissions s',
            allocations := allocations s', task_progress := task_progress s'\<rparr>
     \<and> (\<exists>new. ledger s' = ledger s @ new \<and> (\<forall>e \<in> set new. l_btype e = ''commission''))
     \<and> (\<exists>new. map w_id (wallets s') = map w_id (wallets s) @ new)"

named_theorems asides \<open>statements that only pay agents\<close>

lemma aside_refl [simp]: "aside s s"
  by (simp add: aside_def)

lemma aside_trans:
  assumes "aside s t" "aside t u"
  shows "aside s u"
proof -
  have "u = s\<lparr>wallets := wallets u, ledger := ledger u, outbox := outbox u, next_uuid := next_uuid u, commissions := commissions u,
            allocations := allocations u, task_progress := task_progress u\<rparr>"
    using assms unfolding aside_def by (cases s; cases t; cases u) simp
  moreover have "\<exists>new. ledger u = ledger s @ new \<and> (\<forall>e \<in> set new. l_btype e = ''commission'')"
    using assms unfolding aside_def by (metis Un_iff append.assoc set_append)
  moreover have "\<exists>new. map w_id (wallets u) = map w_id (wallets s) @ new"
    using assms unfolding aside_def by (metis append.assoc)
  ultimately show ?thesis by (simp only: aside_def)
qed

lemma aside_frame:
  assumes "aside s s'"
  shows "clock s' = clock s" "bets s' = bets s" "rounds s' = rounds s" "users s' = users s" "game_types s' = game_types s"
    "lulu_plays s' = lulu_plays s" "voids s' = voids s" "uuids s' = uuids s"
    "placements s' = placements s"
  by (subst assms [unfolded aside_def, THEN conjunct1], simp)+

lemma money_only_aside:
  "money_only s s' \<Longrightarrow> ledger s' = ledger s \<Longrightarrow> map w_id (wallets s') = map w_id (wallets s) @ new \<Longrightarrow> aside s s'"
  unfolding aside_def money_only_def by (cases s; cases s') simp

lemma aside_uuid [simp]: "aside (s\<lparr>next_uuid := n\<rparr>) s' = aside s s'"
  unfolding aside_def by (cases s; cases s') auto

lemma aside_ledger: "insert_ledger w ''commission'' i et am v s = Inr s' \<Longrightarrow> aside s s'"
proof -
  assume a: "insert_ledger w ''commission'' i et am v s = Inr s'"
  then obtain x where "wallet_by_id s w = Some x"
    by (auto simp: insert_ledger_def insert_ledger_row_def new_uuid_def split: option.splits)
  then show "aside s s'" using insert_ledger_Inr [OF a] by (auto simp: aside_def)
qed

lemma aside_commission [asides]: "insert_commission b u c am s = Inr (r, s') \<Longrightarrow> aside s s'"
  by (auto simp: insert_commission_def new_uuid_def aside_def Let_def split: if_splits)

lemma aside_allocation [asides]: "insert_allocation a s = Inr s' \<Longrightarrow> aside s s'"
  by (auto simp: insert_allocation_def aside_def split: if_splits)

lemma aside_set_available [asides]: "set_available w v s = Inr s' \<Longrightarrow> aside s s'"
  by (rule money_only_aside [of _ _ "[]"])
    (use set_available_money_only in blast, use set_available_money_only in blast,
     auto simp: set_available_def map_modify_inv split: if_splits)

lemma aside_insert_wallet [asides]: "insert_wallet w u c s = Inr s' \<Longrightarrow> aside s s'"
  by (rule money_only_aside [of _ _ "[w]"])
    (use insert_wallet_money_only in blast, use insert_wallet_money_only in blast, auto simp: insert_wallet_def split: if_splits)

lemma aside_pay_writes [asides]: "pay_writes b i w a s = Inr (u, s') \<Longrightarrow> aside s s'"
  unfolding pay_writes_def Let_def
  by (auto simp: bindE_eq_Inr dest!: aside_set_available aside_ledger aside_allocation intro: aside_trans)

lemma aside_PayTx [asides]: "PayTx b c a s = Inr (u, s') \<Longrightarrow> aside s s'"
  unfolding PayTx_def
  by (auto simp: bindE_eq_Inr orErr_eq_Inr split: if_splits option.splits
      dest!: aside_commission aside_pay_writes intro: aside_trans)

lemma aside_beneficiary [asides]: "beneficiary_wallet u c s = Inr (w, s') \<Longrightarrow> aside s s'"
  unfolding beneficiary_wallet_def Let_def
  by (auto simp: bindE_eq_Inr new_uuid_def split: option.splits dest!: aside_insert_wallet)

lemma aside_commission_writes [asides]: "commission_writes i w am s = Inr (u, s') \<Longrightarrow> aside s s'"
  unfolding commission_writes_def Let_def
  by (auto simp: bindE_eq_Inr split: if_splits dest!: aside_set_available aside_ledger intro: aside_trans)

lemma aside_applyCommission [asides]: "applyCommission b u c stake s = Inr (r, s') \<Longrightarrow> aside s s'"
  unfolding applyCommission_def Let_def
  by (auto simp: bindE_eq_Inr split: if_splits option.splits
      dest!: aside_commission aside_beneficiary aside_commission_writes intro: aside_trans)

lemma pay_all_Inr: "pay_all b c as s = Inr s' \<Longrightarrow> aside s s' \<and> (books_ok s \<longrightarrow> books_ok s')"
proof (induction as arbitrary: s)
  case (Cons a as)
  then obtain u t where "PayTx b c a s = Inr (u, t)" "pay_all b c as t = Inr s'" by (auto simp: bindE_eq_Inr)
  then show ?case using Cons.IH aside_PayTx PayTx_books aside_trans by blast
qed simp

lemma pay_agents_Inr: "pay_agents ab s = Inr s' \<Longrightarrow> aside s s' \<and> (books_ok s \<longrightarrow> books_ok s')"
  by (auto simp: pay_agents_def Let_def bindE_eq_Inr split: if_splits dest: pay_all_Inr aside_applyCommission applyCommission_books)

lemma ensure_wallets_Inr: "ensure_wallets rs s = Inr s' \<Longrightarrow> aside s s' \<and> (books_ok s \<longrightarrow> books_ok s')"
proof (induction rs arbitrary: s)
  case (Cons r rs)
  obtain u c where r: "r = (u, c)" by (cases r)
  show ?case
  proof (cases "wallet_of s u c = None")
    case True
    let ?t = "s\<lparr>next_uuid := Suc (next_uuid s)\<rparr>"
    obtain t where t: "insert_wallet (uuids s (next_uuid s)) u c ?t = Inr t" "ensure_wallets rs t = Inr s'"
      using Cons.prems r True by (auto simp: new_uuid_def Let_def bindE_eq_Inr)
    have "books_ok t" if "books_ok s"
      using books_insert_wallet [of "\<lambda>_. (0, 0)" ?t _ u c t] t(1) books_ok_cong [OF that, of ?t] by (simp add: books_ok_def)
    moreover have "aside s t" using aside_insert_wallet [OF t(1)] by simp
    ultimately show ?thesis using Cons.IH [OF t(2)] aside_trans by blast
  qed (use Cons r in auto)
qed simp

section \<open>What deciding the bets writes\<close>

text \<open>The prize of a bet: the exact quotient of stake and odds for a winner.\<close>

definition is_winner :: "Rules \<Rightarrow> (string \<times> LuluPlay) list \<Rightarrow> string list \<Rightarrow> bet_row \<Rightarrow> bool" where
  "is_winner rules plays outcome b \<longleftrightarrow> bet_wins rules plays outcome b = Inr True"

definition prize :: "Rules \<Rightarrow> (string \<times> LuluPlay) list \<Rightarrow> string list \<Rightarrow> bet_row \<Rightarrow> int" where
  "prize rules plays outcome b =
     (if is_winner rules plays outcome b then b_stake b * fst (bet_odds rules b outcome) div snd (bet_odds rules b outcome) else 0)"

definition decided_row :: "Rules \<Rightarrow> (string \<times> LuluPlay) list \<Rightarrow> string list \<Rightarrow> int \<Rightarrow> bet_row \<Rightarrow> bet_row \<Rightarrow> bool" where
  "decided_row rules plays outcome now b b' \<longleftrightarrow>
     (\<exists>after. b' = (if is_winner rules plays outcome b then won_row now (prize rules plays outcome b) after b else lost_row now after b))"

text \<open>The settlement entries among ledger rows, as wallet, bet and amount.\<close>

definition entries_of :: "string \<Rightarrow> ledger_row list \<Rightarrow> (string \<times> string \<times> int) list" where
  "entries_of kind es = map (\<lambda>e. (l_wallet e, l_bid e, l_amount e)) (filter (\<lambda>e. l_btype e = kind) es)"

definition prizes :: "Rules \<Rightarrow> (string \<times> LuluPlay) list \<Rightarrow> string list \<Rightarrow> bet_row list \<Rightarrow> (string \<times> string \<times> int) list" where
  "prizes rules plays outcome bs =
     map (\<lambda>b. (b_wallet b, b_id b, prize rules plays outcome b))
       (filter (\<lambda>b. is_winner rules plays outcome b \<and> \<not> b_simulated b) bs)"

lemma entries_of_simps [simp]:
  "entries_of kind [] = []"
  "entries_of kind (es @ fs) = entries_of kind es @ entries_of kind fs"
  "entries_of kind (e # es) = (if l_btype e = kind then [(l_wallet e, l_bid e, l_amount e)] else []) @ entries_of kind es"
  by (simp_all add: entries_of_def)

lemma entries_of_none: "\<forall>e \<in> set es. l_btype e \<noteq> kind \<Longrightarrow> entries_of kind es = []"
  by (simp add: entries_of_def filter_empty_conv)

lemma prizes_simps [simp]:
  "prizes rules plays outcome [] = []"
  "prizes rules plays outcome (b # bs) =
     (if is_winner rules plays outcome b \<and> \<not> b_simulated b then [(b_wallet b, b_id b, prize rules plays outcome b)] else [])
     @ prizes rules plays outcome bs"
  by (simp_all add: prizes_def)

lemma wrap64_add_left: "wrap64 (wrap64 a + b) = wrap64 (a + b)"
proof -
  have shift: "x - 9223372036854775808 + b + 9223372036854775808 = x + b" for x :: int by simp
  have swap: "a + b + 9223372036854775808 = (a + 9223372036854775808) + b" by simp
  show ?thesis unfolding wrap64_def shift swap mod_add_left_eq ..
qed

lemma wrap64_add_right: "wrap64 (b + wrap64 a) = wrap64 (b + a)"
  using wrap64_add_left [of a b] by (simp add: add.commute)

lemma checked_payout_Inr:
  assumes "checked_payout stake (m, d) = Inr p" "0 \<le> stake"
  shows "0 < m \<and> 0 < d \<and> p = stake * m div d \<and> 0 \<le> p \<and> p \<le> max_int64"
proof -
  have md: "0 < m" "0 < d" "stake \<le> go_div max_int64 m" "p = go_div (wrap64 (stake * m)) d"
    using assms(1) by (auto simp: checked_payout_def split: if_splits)
  have "stake \<le> max_int64 div m" using md(1,3) by (simp add: go_div_pos max_int64_def)
  then have "stake * m \<le> max_int64" using md(1) mult_right_mono [of stake "max_int64 div m" m] div_mod_decomp_int [of max_int64 m]
      pos_mod_sign [OF md(1), of max_int64] by linarith
  moreover have "0 \<le> stake * m" using assms(2) md(1) by simp
  ultimately have "int64 (stake * m)" by (simp add: int64_def max_int64_def)
  then have p: "p = stake * m div d" using md(2,4) \<open>0 \<le> stake * m\<close> by (simp add: go_div_pos)
  have "stake * m div d \<le> stake * m" using \<open>0 \<le> stake * m\<close> md(2) zdiv_mono2 [of "stake * m" 1 d] by simp
  then show ?thesis using p md \<open>0 \<le> stake * m\<close> \<open>stake * m \<le> max_int64\<close> by (simp add: pos_imp_zdiv_nonneg_iff)
qed


text \<open>\<open>grows kind s s' new\<close>: the ledger grew, its entries of a kind are \<open>new\<close>.\<close>

definition grows :: "string \<Rightarrow> db \<Rightarrow> db \<Rightarrow> (string \<times> string \<times> int) list \<Rightarrow> bool" where
  "grows kind s s' new \<longleftrightarrow> (\<exists>es. ledger s' = ledger s @ es \<and> entries_of kind es = new)"

lemma grows_refl: "ledger s' = ledger s \<Longrightarrow> grows kind s s' []"
  by (simp add: grows_def)

lemma grows_trans: "grows kind s t xs \<Longrightarrow> grows kind t u ys \<Longrightarrow> grows kind s u (xs @ ys)"
  unfolding grows_def by (metis append.assoc entries_of_simps(2))

lemma grows_aside: "aside s s' \<Longrightarrow> kind \<noteq> ''commission'' \<Longrightarrow> grows kind s s' []"
  unfolding aside_def grows_def using entries_of_none by metis

text \<open>What a settlement step may change besides bets.\<close>

definition decides :: "db \<Rightarrow> db \<Rightarrow> bool" where
  "decides s s' \<longleftrightarrow> clock s' = clock s \<and> rounds s' = rounds s \<and> users s' = users s \<and> game_types s' = game_types s
     \<and> placements s' = placements s \<and> (\<exists>new. map w_id (wallets s') = map w_id (wallets s) @ new)"

lemma decides_refl [simp]: "decides s s"
  by (simp add: decides_def)

lemma decides_trans: "decides s t \<Longrightarrow> decides t u \<Longrightarrow> decides s u"
  unfolding decides_def by (metis append.assoc)

lemma aside_decides: "aside s s' \<Longrightarrow> decides s s'"
  by (simp add: decides_def aside_frame) (simp only: aside_def)

lemma set_bet_frame [simp]:
  "wallets (set_bet i g s) = wallets s" "ledger (set_bet i g s) = ledger s" "bets (set_bet i g s) = modify (\<lambda>b. b_id b = i) g (bets s)"
  "wallet_by_id (set_bet i g s) w = wallet_by_id s w" "decides s (set_bet i g s)" "clock (set_bet i g s) = clock s"
  by (simp_all add: set_bet_def decides_def wallet_by_id_def)

lemma money_only_decides:
  "money_only s s' \<Longrightarrow> map w_id (wallets s') = map w_id (wallets s) \<Longrightarrow> decides s s' \<and> bets s' = bets s"
  by (auto simp: decides_def dest: money_onlyD)

lemma set_available_ids: "set_available w v s = Inr s' \<Longrightarrow> map w_id (wallets s') = map w_id (wallets s)"
  by (auto simp: set_available_def map_modify_inv split: if_splits)

text \<open>Crediting a bet: wallet row, bet row, ledger entry.\<close>

lemma credit_bet:
  assumes "books_ok s" "wallet_by_id s wid = Some w" "0 \<le> amount" "w_available w + amount \<le> max_int64"
    and "set_available wid (w_available w + amount) s = Inr s1"
    and "insert_ledger wid kind bid et amount (w_available w + amount) (set_bet i g s1) = Inr s2"
  shows "books_ok s2 \<and> decides s s2 \<and> bets s2 = modify (\<lambda>b. b_id b = i) g (bets s) \<and> grows kind s s2 [(wid, bid, amount)]"
proof -
  have ok: "wallets_ok s" using assms(1) by (rule books_ok_wallets_ok)
  have b: "books_ok s2"
    by (rule books_move [OF assms(1,2,5,4) _ _ assms(6)]) simp_all
  note m1 = set_available_money_only [OF assms(5)] and m2 = insert_ledger_money_only [OF assms(6)]
  have d: "decides s s2" "bets s2 = modify (\<lambda>b. b_id b = i) g (bets s)"
    using money_only_decides [of s s1] money_only_decides [of "set_bet i g s1" s2] m1 m2 set_available_ids [OF assms(5)]
    by (auto simp: decides_def set_bet_def)
  have "moved s w (w_available w + amount) kind bid et s2"
    by (rule movedI [OF ok assms(2,5) _ _ assms(6)]) simp_all
  then have "grows kind s s2 [(wid, bid, amount)]"
    using wallet_by_id_mem [OF assms(2)] by (auto simp: moved_def grows_def)
  with b d show ?thesis by simp
qed

context bet_task_hook
begin

lemma run_hook_Inr:
  assumes "run_hook hook ab s = Inr s'"
  shows "tasks_only s s' \<and> wallets s' = wallets s \<and> ledger s' = ledger s"
proof -
  have "tasks_only s s'" using assms hook_frame by (auto simp: run_hook_def split: option.splits if_splits)
  moreover have "wallets s' = wallets s \<and> ledger s' = ledger s"
    by (subst (1 2) calculation [unfolded tasks_only_def]) simp
  ultimately show ?thesis by blast
qed

text \<open>One bet: decided exactly as \<open>decided_row\<close> says, and credited exactly when it is a real winner.\<close>

lemma settle_bet_Inr:
  assumes "books_ok s" "settle_bet hook rules plays outcome ab result s = Inr (result', s')"
  defines "b \<equiv> ab_bet ab"
  assumes "0 \<le> b_stake b"
  shows "books_ok s' \<and> decides s s' \<and> (\<exists>won. bet_wins rules plays outcome b = Inr won)
    \<and> (\<exists>g. bets s' = modify (\<lambda>x. b_id x = b_id b) g (bets s) \<and> decided_row rules plays outcome (sr_settled result) b (g b))
    \<and> grows ''settlement'' s s' (prizes rules plays outcome [b])
    \<and> result' = (if is_winner rules plays outcome b
         then result\<lparr>sr_won := sr_won result + 1, sr_payout := wrap64 (sr_payout result + prize rules plays outcome b)\<rparr>
         else result\<lparr>sr_lost := sr_lost result + 1\<rparr>)"
proof -
  let ?now = "sr_settled result"
  obtain s1 w won s2 where s1: "pay_agents ab s = Inr s1" and w: "wallet_by_id s1 (b_wallet b) = Some w"
    and won: "bet_wins rules plays outcome b = Inr won" and s2: "run_hook hook ab s1 = Inr s2"
    and rest: "(if \<not> won then Inr (result\<lparr>sr_lost := sr_lost result + 1\<rparr>, set_bet (b_id b) (lost_row ?now (w_available w)) s2)
      else bindE (checked_payout (b_stake b) (bet_odds rules b outcome)) (\<lambda>payout.
        let counted = result\<lparr>sr_won := sr_won result + 1, sr_payout := wrap64 (sr_payout result + payout)\<rparr> in
        if b_simulated b then Inr (counted, set_bet (b_id b) (won_row ?now payout (w_available w)) s2)
        else if w_available w > wrap64 (max_int64 - payout) then Inl (Settlement ErrPayoutOverflow)
        else let after = wrap64 (w_available w + payout) in
          bindE (set_available (b_wallet b) after s2) (\<lambda>s.
          bindE (insert_ledger (b_wallet b) ''settlement'' (b_id b) ''settlement_credit'' payout after
                   (set_bet (b_id b) (won_row ?now payout after) s)) (\<lambda>s.
          Inr (counted, s))))) = Inr (result', s')"
    using assms(2) unfolding settle_bet_def b_def [symmetric] Let_def bindE_eq_Inr orErr_eq_Inr by blast
  note p = pay_agents_Inr [OF s1] and h = run_hook_Inr [OF s2]
  have b2: "books_ok s2" using p h assms(1) books_ok_cong by blast
  have "aside s1 s2" using h by (auto simp: aside_def tasks_only_def) (cases s1; cases s2; simp)+
  then have a2: "aside s s2" using p aside_trans by blast
  have w2: "wallet_by_id s2 (b_wallet b) = Some w" using w h wallet_by_id_cong by metis
  have f2: "decides s s2" "bets s2 = bets s" "grows ''settlement'' s s2 []"
    using a2 aside_decides aside_frame grows_aside by (blast, blast, simp)
  show ?thesis
  proof (cases won)
    case False
    then have "is_winner rules plays outcome b = False" using won by (simp add: is_winner_def)
    moreover have "s' = set_bet (b_id b) (lost_row ?now (w_available w)) s2" "result' = result\<lparr>sr_lost := sr_lost result + 1\<rparr>"
      using rest False by simp_all
    ultimately show ?thesis
      using b2 f2 won books_ok_cong [OF b2] decides_trans grows_trans [OF f2(3) grows_refl, of s']
      by (auto simp: decided_row_def intro: decides_trans)
  next
    case True
    then have win: "is_winner rules plays outcome b" using won by (simp add: is_winner_def)
    obtain m d where md: "bet_odds rules b outcome = (m, d)" by (cases "bet_odds rules b outcome")
    obtain q where q: "checked_payout (b_stake b) (m, d) = Inr q" using rest True md by (auto simp: bindE_eq_Inr)
    note pay = checked_payout_Inr [OF q assms(4)]
    then have prize: "prize rules plays outcome b = q" using win md by (simp add: prize_def)
    note rest' = rest [unfolded md q, simplified True, simplified]
    show ?thesis
    proof (cases "b_simulated b")
      case True
      then have "s' = set_bet (b_id b) (won_row ?now q (w_available w)) s2"
        "result' = result\<lparr>sr_won := sr_won result + 1, sr_payout := wrap64 (sr_payout result + q)\<rparr>"
        using rest' by (simp_all add: Let_def)
      then show ?thesis
        using b2 f2 won win prize True books_ok_cong [OF b2] grows_trans [OF f2(3) grows_refl, of s']
        by (auto simp: decided_row_def intro: decides_trans)
    next
      case False
      have wr: "0 \<le> w_available w \<and> w_available w \<le> max_int64"
        using wallets_ok_range [OF books_ok_wallets_ok [OF b2] w2] by (simp add: in_range_def)
      have i1: "int64 (max_int64 - q)" using pay unfolding int64_def max_int64_def by linarith
      have le: "w_available w + q \<le> max_int64" using rest' False i1 by (auto split: if_splits)
      have i2: "int64 (w_available w + q)" using le wr pay unfolding int64_def max_int64_def by linarith
      obtain s3 where s3: "set_available (b_wallet b) (w_available w + q) s2 = Inr s3"
        and s4: "insert_ledger (b_wallet b) ''settlement'' (b_id b) ''settlement_credit'' q (w_available w + q)
                   (set_bet (b_id b) (won_row ?now q (w_available w + q)) s3) = Inr s'"
        and r: "result' = result\<lparr>sr_won := sr_won result + 1, sr_payout := wrap64 (sr_payout result + q)\<rparr>"
        using rest' False i1 i2 by (auto simp: Let_def bindE_eq_Inr split: if_splits)
      note c = credit_bet [OF b2 w2 _ le s3 s4]
      then show ?thesis
        using f2 won win prize False pay r decides_trans grows_trans [OF f2(3), of s']
        by (auto simp: decided_row_def intro: decides_trans)
    qed
  qed
qed

end


definition tally :: "Rules \<Rightarrow> (string \<times> LuluPlay) list \<Rightarrow> string list \<Rightarrow> bet_row list \<Rightarrow> SettlementResult \<Rightarrow> SettlementResult" where
  "tally rules plays outcome bs result =
     result\<lparr>sr_won := sr_won result + int (length (filter (is_winner rules plays outcome) bs)),
            sr_lost := sr_lost result + int (length (filter (\<lambda>b. \<not> is_winner rules plays outcome b) bs)),
            sr_payout := wrap64 (sr_payout result + sum_list (map (prize rules plays outcome) bs))\<rparr>"

text \<open>The rows of a list are rewritten, all others stay.\<close>

definition rewritten :: "bet_row list \<Rightarrow> (bet_row \<Rightarrow> bet_row \<Rightarrow> bool) \<Rightarrow> db \<Rightarrow> db \<Rightarrow> bool" where
  "rewritten bs R s s' \<longleftrightarrow> list_all2 (\<lambda>b b'. if b \<in> set bs then R b b' else b' = b) (bets s) (bets s')"

lemma rewritten_Nil: "bets s' = bets s \<Longrightarrow> rewritten [] R s s'"
  by (simp add: rewritten_def list.rel_refl)

lemma rewritten_Cons:
  assumes "bets t = modify (\<lambda>x. b_id x = b_id b) g (bets s)" "R b (g b)" "b_id (g b) = b_id b"
    and "distinct (map b_id (bets s))" "distinct (map b_id (b # bs))" "set (b # bs) \<subseteq> set (bets s)"
    and "rewritten bs R t s'"
  shows "rewritten (b # bs) R s s'"
proof -
  have eq: "x = b" if "x \<in> set (bets s)" "b_id x = b_id b" for x
    using that distinct_key_eq [OF assms(4) that(1), of b] assms(6) by simp
  have gb: "g b \<notin> set bs" using assms(3,5) by (auto simp: image_iff)
  have "list_all2 (\<lambda>x x'. (if x = b then x' = g b else x' = x)) (bets s) (bets t)"
    unfolding assms(1) modify_def list.rel_map by (rule list.rel_refl_strong) (use eq in auto)
  moreover have "list_all2 (\<lambda>x x'. if x \<in> set bs then R x x' else x' = x) (bets t) (bets s')"
    using assms(7) by (simp add: rewritten_def)
  moreover have "b \<notin> set bs" using assms(5) by auto
  ultimately show ?thesis unfolding rewritten_def
    by (rule_tac list_all2_trans [of "\<lambda>x x'. if x = b then x' = g b else x' = x" "\<lambda>x x'. if x \<in> set bs then R x x' else x' = x"])
      (use gb assms(2) in \<open>auto split: if_splits\<close>)
qed

lemma rewritten_mem: "bets t = modify (\<lambda>x. b_id x = i) g (bets s) \<Longrightarrow> b \<in> set (bets s) \<Longrightarrow> b_id b \<noteq> i \<Longrightarrow> b \<in> set (bets t)"
  by (auto simp: set_modify)

lemma decided_id: "decided_row rules plays outcome now b b' \<Longrightarrow> b_id b' = b_id b"
  by (auto simp: decided_row_def won_row_def lost_row_def)

context bet_task_hook
begin

lemma settle_bets_Inr:
  assumes "books_ok s" "settle_bets hook rules plays outcome abets result s = Inr (result', s')" "int64 (sr_payout result)"
  defines "bs \<equiv> map ab_bet abets"
  assumes "\<forall>b \<in> set bs. 0 \<le> b_stake b" "distinct (map b_id (bets s))" "distinct (map b_id bs)" "set bs \<subseteq> set (bets s)"
  shows "books_ok s' \<and> decides s s' \<and> (\<forall>b \<in> set bs. \<exists>won. bet_wins rules plays outcome b = Inr won)
    \<and> rewritten bs (decided_row rules plays outcome (sr_settled result)) s s'
    \<and> grows ''settlement'' s s' (prizes rules plays outcome bs)
    \<and> result' = tally rules plays outcome bs result"
  using assms(1-3,5-8) unfolding bs_def
proof (induction abets arbitrary: s result)
  case Nil
  then show ?case by (simp add: rewritten_Nil grows_refl tally_def)
next
  case (Cons ab abets)
  let ?b = "ab_bet ab" and ?now = "sr_settled result"
  obtain r t where 1: "settle_bet hook rules plays outcome ab result s = Inr (r, t)"
    and 2: "settle_bets hook rules plays outcome abets r t = Inr (result', s')"
    using Cons.prems(2) by (auto simp: bindE_eq_Inr)
  have st: "0 \<le> b_stake ?b" using Cons.prems(4) by simp
  note one = settle_bet_Inr [OF Cons.prems(1) 1 st]
  then obtain g where g: "bets t = modify (\<lambda>x. b_id x = b_id ?b) g (bets s)" "decided_row rules plays outcome ?now ?b (g ?b)" by blast
  have gid: "b_id (g ?b) = b_id ?b" using decided_id [OF g(2)] .
  have r: "sr_settled r = ?now" "int64 (sr_payout r)" "r = tally rules plays outcome [?b] result"
    using one Cons.prems(3) by (auto simp: tally_def prize_def)
  have ids: "map b_id (bets t) = map b_id (bets s)"
    unfolding g(1) modify_def map_map o_def
    by (rule map_cong [OF refl]) (use gid distinct_key_eq [OF Cons.prems(5), of _ ?b] Cons.prems(7) in force)
  have sub: "set (map ab_bet abets) \<subseteq> set (bets t)"
  proof
    fix b assume b: "b \<in> set (map ab_bet abets)"
    then have "b_id b \<in> set (map b_id (map ab_bet abets))" "b \<in> set (bets s)" using Cons.prems(7) by auto
    moreover have "b_id ?b \<notin> set (map b_id (map ab_bet abets))" using Cons.prems(6) by simp
    ultimately show "b \<in> set (bets t)" using rewritten_mem [OF g(1)] by metis
  qed
  note rest = Cons.IH [OF _ 2 r(2), unfolded ids]
  have rest': "books_ok s' \<and> decides t s' \<and> (\<forall>b \<in> set (map ab_bet abets). \<exists>won. bet_wins rules plays outcome b = Inr won)
    \<and> rewritten (map ab_bet abets) (decided_row rules plays outcome ?now) t s'
    \<and> grows ''settlement'' t s' (prizes rules plays outcome (map ab_bet abets))
    \<and> result' = tally rules plays outcome (map ab_bet abets) r"
    using rest one Cons.prems(4-7) sub r(1) by simp
  have "distinct (map b_id (?b # map ab_bet abets))" "set (?b # map ab_bet abets) \<subseteq> set (bets s)"
    "rewritten (map ab_bet abets) (decided_row rules plays outcome ?now) t s'"
    using Cons.prems(6,7) rest' by simp_all
  then have "rewritten (?b # map ab_bet abets) (decided_row rules plays outcome ?now) s s'"
    by (rule rewritten_Cons [where R = "decided_row rules plays outcome ?now", OF g gid Cons.prems(5)])
  then have "rewritten (map ab_bet (ab # abets)) (decided_row rules plays outcome ?now) s s'" by simp
  moreover have "grows ''settlement'' s s' (prizes rules plays outcome (map ab_bet (ab # abets)))"
    using grows_trans [of _ s t "prizes rules plays outcome [?b]" s' "prizes rules plays outcome (map ab_bet abets)"] one rest' by simp
  moreover have "result' = tally rules plays outcome (map ab_bet (ab # abets)) result"
    using rest' r(3) by (auto simp: tally_def wrap64_add_left wrap64_add_right algebra_simps)
  moreover have "decides s s'" using one rest' decides_trans by blast
  ultimately show ?case using one rest' by (simp add: settle_bet_def)
qed

end


section \<open>The whole settlement\<close>

text \<open>What the tables guarantee of bets: keys, a positive BIGINT stake and a wallet (a foreign key).\<close>

definition bets_ok :: "db \<Rightarrow> bool" where
  "bets_ok s \<longleftrightarrow> distinct (map b_id (bets s)) \<and> (\<forall>b \<in> set (bets s). 0 < b_stake b \<and> b_stake b \<le> max_int64 \<and> wallet_by_id s (b_wallet b) \<noteq> None)"

definition plays_of :: "Rules \<Rightarrow> string \<Rightarrow> db \<Rightarrow> (string \<times> LuluPlay) list" where
  "plays_of rules roundID s = (if sharedLuluRules rules then (case loadLuluPlaysTx roundID s of Inl e \<Rightarrow> [] | Inr m \<Rightarrow> m) else [])"

definition empty_result :: "string \<Rightarrow> string list \<Rightarrow> int \<Rightarrow> SettlementResult" where
  "empty_result roundID outcome now = \<lparr>sr_round = roundID, sr_outcome = outcome, sr_won = 0, sr_lost = 0, sr_payout = 0, sr_settled = now\<rparr>"

lemma accepted_bets_set: "set (accepted_bets roundID s) = {b \<in> set (bets s). of_round roundID b \<and> wallet_by_id s (b_wallet b) \<noteq> None}"
  by (auto simp: accepted_bets_def)

lemma accepted_bets_ids: "distinct (map b_id (bets s)) \<Longrightarrow> distinct (map b_id (accepted_bets roundID s))"
  by (auto simp: accepted_bets_def distinct_map inj_on_def)

lemma mset_accepted: "bets_ok s \<Longrightarrow> mset (accepted_bets roundID s) = mset (filter (of_round roundID) (bets s))"
  unfolding accepted_bets_def mset_sort by (rule arg_cong [where f = mset], rule filter_cong) (auto simp: bets_ok_def)

lemma prepare_bets_map: "prepare_bets rules plays outcome s bs = Inr abets \<Longrightarrow> map ab_bet abets = bs"
proof (induction bs arbitrary: abets)
  case (Cons b bs)
  then obtain ab r where "prepare_bet rules plays outcome s b = Inr ab" "prepare_bets rules plays outcome s bs = Inr r" "abets = ab # r"
    by (auto simp: bindE_eq_Inr)
  moreover have "ab_bet ab = b"
    using calculation(1) by (auto simp: prepare_bet_def Let_def bindE_eq_Inr split: if_splits)
  ultimately show ?case using Cons.IH by simp
qed simp

lemma insert_events_Inr: "insert_events i k ps s = Inr s' \<Longrightarrow> money_only s s' \<and> wallets s' = wallets s \<and> ledger s' = ledger s"
proof (induction ps arbitrary: s)
  case (Cons p ps)
  then obtain t where "insert_outbox ''round'' i k p s = Inr t" "insert_events i k ps t = Inr s'" by (auto simp: bindE_eq_Inr)
  then show ?case using Cons.IH insert_outbox_money_only money_only_trans by fastforce
qed simp

lemma set_round_frame [simp]:
  "wallets (set_round i g s) = wallets s" "ledger (set_round i g s) = ledger s" "bets (set_round i g s) = bets s" "placements (set_round i g s) = placements s" "clock (set_round i g s) = clock s"
  "rounds (set_round i g s) = modify (\<lambda>r. r_id r = i) g (rounds s)" "wallet_by_id (set_round i g s) w = wallet_by_id s w"
  "lulu_plays (set_round i g s) = lulu_plays s" "accepted_bets i (set_round i g s) = accepted_bets i s"
  by (simp_all add: set_round_def wallet_by_id_def accepted_bets_def)

lemma modify_ex: "(\<And>r. Q (g r) = Q r) \<Longrightarrow> (\<exists>r \<in> set (modify P g rs). Q r) = (\<exists>r \<in> set rs. Q r)"
  by (induction rs) auto

lemma plays_set_round:
  assumes "\<And>r. r_id (g r) = r_id r \<and> r_type (g r) = r_type r"
  shows "loadLuluPlaysTx i (set_round i g s) = loadLuluPlaysTx i s"
proof -
  have "(\<exists>r \<in> set (modify (\<lambda>r. r_id r = i) g (rounds s)). r_id r = i \<and> r_type r = t) = (\<exists>r \<in> set (rounds s). r_id r = i \<and> r_type r = t)" for t
    by (rule modify_ex) (simp add: assms)
  then show ?thesis by (simp add: loadLuluPlaysTx_def)
qed

context bet_task_hook
begin

lemma settle_writes_Inr:
  assumes "books_ok s" "bets_ok s" "settle_writes hook roundID outcome rules s = Inr (x, s')"
  defines "plays \<equiv> plays_of rules roundID s" and "bs \<equiv> accepted_bets roundID s"
  shows "books_ok s' \<and> clock s' = clock s \<and> (\<forall>b \<in> set bs. \<exists>won. bet_wins rules plays outcome b = Inr won)
    \<and> rewritten bs (decided_row rules plays outcome (clock s)) s s' \<and> grows ''settlement'' s s' (prizes rules plays outcome bs)
    \<and> x = tally rules plays outcome bs (empty_result roundID outcome (clock s))
    \<and> placements s' = placements s \<and> (\<exists>new. map w_id (wallets s') = map w_id (wallets s) @ new)
    \<and> rounds s' = modify (\<lambda>r. r_id r = roundID) (settled_row outcome (clock s)) (rounds s)"
proof -
  obtain ps abets s1 s2 s3 where ps: "(if sharedLuluRules rules then loadLuluPlaysTx roundID s else Inr []) = Inr ps"
    and prep: "prepare_bets rules ps outcome s bs = Inr abets"
    and s1: "ensure_wallets (recipients abets) s = Inr s1"
    and s2: "settle_bets hook rules ps outcome abets (empty_result roundID outcome (clock s1)) s1 = Inr (x, s2)"
    and s3: "insert_events roundID ''game.bet.settled'' (personal_events roundID (sr_settled x) s2) s2 = Inr s3"
    and s4: "insert_outbox ''round'' roundID ''game.round.settled'' (result_payload x)
              (set_round roundID (settled_row outcome (sr_settled x)) s3) = Inr s'"
    using assms(3) by (auto simp: settle_writes_def bindE_eq_Inr empty_result_def bs_def)
  have ps': "ps = plays" using ps by (auto simp: plays_def plays_of_def split: if_splits)
  note a = ensure_wallets_Inr [OF s1]
  then have f1: "clock s1 = clock s" "bets s1 = bets s" "decides s s1" "grows ''settlement'' s s1 []"
    using aside_frame aside_decides grows_aside by auto
  have b: "map ab_bet abets = bs" by (rule prepare_bets_map [OF prep])
  have d: "\<forall>b \<in> set (map ab_bet abets). 0 \<le> b_stake b" "distinct (map b_id (bets s1))" "distinct (map b_id (map ab_bet abets))"
    "set (map ab_bet abets) \<subseteq> set (bets s1)"
    using assms(2) unfolding b bs_def f1(2) by (auto simp: bets_ok_def accepted_bets_set accepted_bets_ids order_less_imp_le)
  have b1: "books_ok s1" using a assms(1) by blast
  have i0: "int64 (sr_payout (empty_result roundID outcome (clock s1)))" by (simp add: empty_result_def int64_def)
  note main = settle_bets_Inr [OF b1 s2 i0 d, unfolded b ps']
  have now: "sr_settled x = clock s" using main f1(1) by (simp add: tally_def empty_result_def)
  note e = insert_events_Inr [OF s3] and o = insert_outbox_money_only [OF s4]
  then have "money_only s2 s3" "money_only (set_round roundID (settled_row outcome (sr_settled x)) s3) s'" by auto
  then have f4: "wallets s' = wallets s2" "ledger s' = ledger s2" "clock s' = clock s2" "bets s' = bets s2" "placements s' = placements s2"
    "rounds s' = modify (\<lambda>r. r_id r = roundID) (settled_row outcome (sr_settled x)) (rounds s2)"
    using e o money_onlyD [of s2 s3] money_onlyD [of "set_round roundID (settled_row outcome (sr_settled x)) s3" s'] by simp_all
  have "rewritten bs (decided_row rules plays outcome (clock s)) s s'"
    using main f1(2) f4(4) by (simp add: rewritten_def empty_result_def f1(1))
  moreover have "grows ''settlement'' s s' (prizes rules plays outcome bs)"
    using grows_trans [OF f1(4)] main f4(2) by (auto simp: grows_def)
  ultimately show ?thesis
    using main f1 f4 now books_ok_cong [of s2 s'] by (auto simp: decides_def)
qed

lemma SettleRound_Inr:
  assumes "books_ok s" "bets_ok s" "SettleRound hook roundID outcome rules s = Inr (x, s')"
    and "lookup (\<lambda>r. r_id r = roundID) (rounds s) = Some r" "r_status r \<noteq> RoundSettled"
  defines "plays \<equiv> plays_of rules roundID s" and "bs \<equiv> accepted_bets roundID s"
  shows "books_ok s' \<and> clock s' = clock s \<and> (\<forall>b \<in> set bs. \<exists>won. bet_wins rules plays outcome b = Inr won)
    \<and> rewritten bs (decided_row rules plays outcome (clock s)) s s' \<and> grows ''settlement'' s s' (prizes rules plays outcome bs)
    \<and> x = tally rules plays outcome bs (empty_result roundID outcome (clock s))
    \<and> (r_status r = RoundClosed \<or> r_status r = RoundSettling)
    \<and> placements s' = placements s \<and> (\<exists>new. map w_id (wallets s') = map w_id (wallets s) @ new)
    \<and> (\<exists>k. rounds s' = modify (\<lambda>r. r_id r = roundID) (\<lambda>r. settled_row outcome (clock s) (r\<lparr>r_status := RoundSettling, r_version := r_version r + k\<rparr>)) (rounds s))
    \<and> outcome \<noteq> [] \<and> [] \<notin> set outcome \<and> validateRules rules = Inr () \<and> set outcome \<subseteq> set (Outcomes rules)"
proof -
  let ?mark = "\<lambda>r. r\<lparr>r_status := RoundSettling, r_version := r_version r + 1\<rparr>"
  let ?t = "set_round roundID ?mark s"
  have v: "outcome \<noteq> [] \<and> [] \<notin> set outcome \<and> validateRules rules = Inr () \<and> set outcome \<subseteq> set (Outcomes rules)"
    using assms(3) by (auto simp: SettleRound_def bindE_eq_Inr split: if_splits)
  have go: "(r_status r = RoundClosed \<and> settle_writes hook roundID outcome rules ?t = Inr (x, s'))
     \<or> (r_status r = RoundSettling \<and> settle_writes hook roundID outcome rules s = Inr (x, s'))"
    using assms(3-5) v by (auto simp: SettleRound_def split: if_splits)
  then show ?thesis
  proof (elim disjE conjE)
    assume c: "r_status r = RoundClosed" and w: "settle_writes hook roundID outcome rules ?t = Inr (x, s')"
    have t: "books_ok ?t" "bets_ok ?t" using assms(1,2) books_ok_cong [of s ?t] by (simp_all add: bets_ok_def)
    have p: "plays_of rules roundID ?t = plays"
      using plays_set_round [of ?mark roundID s] by (simp add: plays_of_def plays_def)
    note m = settle_writes_Inr [OF t w, unfolded p]
    have "modify (\<lambda>r. r_id r = roundID) (settled_row outcome (clock s)) (modify (\<lambda>r. r_id r = roundID) ?mark (rounds s))
        = modify (\<lambda>r. r_id r = roundID) (settled_row outcome (clock s) \<circ> ?mark) (rounds s)"
      by (rule modify_twice) simp
    then have "\<exists>k. rounds s' = modify (\<lambda>r. r_id r = roundID)
        (\<lambda>r. settled_row outcome (clock s) (r\<lparr>r_status := RoundSettling, r_version := r_version r + k\<rparr>)) (rounds s)"
      using m by (intro exI [of _ 1]) (simp add: o_def)
    then show ?thesis using m c v by (simp add: bs_def rewritten_def grows_def)
  next
    assume c: "r_status r = RoundSettling" and w: "settle_writes hook roundID outcome rules s = Inr (x, s')"
    note m = settle_writes_Inr [OF assms(1,2) w]
    have "settled_row outcome (clock s) = (\<lambda>r. settled_row outcome (clock s) (r\<lparr>r_status := RoundSettling, r_version := r_version r + 0\<rparr>))"
      by (simp add: settled_row_def fun_eq_iff)
    then have "\<exists>k. rounds s' = modify (\<lambda>r. r_id r = roundID)
        (\<lambda>r. settled_row outcome (clock s) (r\<lparr>r_status := RoundSettling, r_version := r_version r + k\<rparr>)) (rounds s)"
      using m by (intro exI [of _ 0]) simp
    then show ?thesis using m c v by (simp add: bs_def plays_def)
  qed
qed

end


text \<open>Rewriting one round whose status allows it is a move of the round table.\<close>

lemma rounds_move_one:
  assumes "round_keys s" "lookup (\<lambda>r. r_id r = i) (rounds s) = Some r" "rounds s' = modify (\<lambda>r. r_id r = i) g (rounds s)" "moves r (g r)"
  shows "rounds_move s s' \<and> round_keys s' \<and> lookup (\<lambda>r. r_id r = i) (rounds s') = Some (g r)"
proof -
  have r: "r \<in> set (rounds s)" "r_id r = i" using lookup_SomeD [OF assms(2)] by auto
  have uniq: "q = r" if "q \<in> set (rounds s)" "r_id q = i" for q
    using that r distinct_key_eq [of r_id "rounds s" q r] assms(1) by (simp add: round_keys_def)
  have mv: "moves q (g q)" if "q \<in> set (rounds s)" "r_id q = i" for q using uniq [OF that] assms(4) by simp
  have k: "round_keys s'" using moves_keys [OF assms(3) mv] assms(1) by simp
  have "g r \<in> set (rounds s')" using r unfolding assms(3) set_modify by force
  moreover have "r_id (g r) = i" using assms(4) r(2) by (simp add: moves_def same_round_def)
  ultimately have "lookup (\<lambda>r. r_id r = i) (rounds s') = Some (g r)"
    using lookup_key_unique [of r_id "rounds s'" "g r"] k by (simp add: round_keys_def)
  then show ?thesis using rounds_move_modify [OF assms(3) mv] k by simp
qed

lemma settled_moves: "r_status r = RoundClosed \<or> r_status r = RoundSettling \<Longrightarrow> moves r (settled_row outcome now (r\<lparr>r_status := RoundSettling, r_version := v\<rparr>))"
  using rtranclp_trans [of round_next RoundClosed RoundSettling RoundSettled]
  by (auto simp: moves_def same_round_def settled_row_def)

section \<open>What a cancellation writes\<close>

lemma refund_bet_Inr:
  assumes "books_ok s" "refund_bet b s = Inr s'" "0 < b_stake b" "b_stake b \<le> max_int64"
  shows "books_ok s' \<and> decides s s' \<and> (\<exists>after. bets s' = modify (\<lambda>x. b_id x = b_id b) (refunded_row (clock s) after) (bets s))
    \<and> grows ''refund'' s s' (if b_simulated b then [] else [(b_wallet b, b_id b, b_stake b)])"
proof -
  obtain w where w: "wallet_by_id s (b_wallet b) = Some w"
    using assms(2) by (auto simp: refund_bet_def bindE_eq_Inr orErr_eq_Inr)
  show ?thesis
  proof (cases "b_simulated b")
    case True
    then have "s' = set_bet (b_id b) (refunded_row (clock s) (w_available w)) s" using assms(2) w by (simp add: refund_bet_def)
    then show ?thesis using True assms(1) books_ok_cong [OF assms(1)] by (auto simp: grows_refl)
  next
    case False
    let ?v = "wrap64 (w_available w + b_stake b)"
    obtain s1 where s1: "set_available (b_wallet b) ?v s = Inr s1"
      and s2: "insert_ledger (b_wallet b) ''refund'' (b_id b) ''refund'' (b_stake b) ?v
         (set_bet (b_id b) (refunded_row (clock s1) ?v) s1) = Inr s'"
      using assms(2) w False by (auto simp: refund_bet_def Let_def bindE_eq_Inr)
    have ok: "wallets_ok s" using assms(1) by (rule books_ok_wallets_ok)
    have "0 \<le> w_available w" "w_available w \<le> max_int64" using wallets_ok_range [OF ok w] by (simp_all add: in_range_def)
    moreover have "0 \<le> ?v" using set_available_Inr [OF ok w s1] by simp
    ultimately have le: "w_available w + b_stake b \<le> max_int64"
      using wrap64_add_nonneg_iff [of "w_available w" "b_stake b"] assms(3,4) by (simp add: int64_def max_int64_def)
    then have "int64 (w_available w + b_stake b)"
      using \<open>0 \<le> w_available w\<close> assms(3) by (simp add: int64_def max_int64_def)
    then have v: "?v = w_available w + b_stake b" by simp
    have "clock s1 = clock s" using set_available_money_only [OF s1] money_onlyD by blast
    then show ?thesis
      using credit_bet [OF assms(1) w _ le s1 [unfolded v] s2 [unfolded v]] assms(3) False by auto
  qed
qed

lemma refund_bets_Inr:
  assumes "books_ok s" "refund_bets bs s = Inr s'" "\<forall>b \<in> set bs. 0 < b_stake b \<and> b_stake b \<le> max_int64"
    and "distinct (map b_id (bets s))" "distinct (map b_id bs)" "set bs \<subseteq> set (bets s)"
  shows "books_ok s' \<and> decides s s' \<and> rewritten bs (\<lambda>b b'. \<exists>after. b' = refunded_row (clock s) after b) s s'
    \<and> grows ''refund'' s s' (map (\<lambda>b. (b_wallet b, b_id b, b_stake b)) (filter (\<lambda>b. \<not> b_simulated b) bs))"
  using assms
proof (induction bs arbitrary: s)
  case Nil
  then show ?case by (simp add: rewritten_Nil grows_refl)
next
  case (Cons b bs)
  let ?R = "\<lambda>b b'. \<exists>after. b' = refunded_row (clock s) after b"
  obtain t where t: "refund_bet b s = Inr t" "refund_bets bs t = Inr s'" using Cons.prems(2) by (auto simp: bindE_eq_Inr)
  note one = refund_bet_Inr [OF Cons.prems(1) t(1)]
  obtain after where g: "bets t = modify (\<lambda>x. b_id x = b_id b) (refunded_row (clock s) after) (bets s)" using one Cons.prems(3) by auto
  have ids: "map b_id (bets t) = map b_id (bets s)" unfolding g by (rule map_modify_inv) (simp add: refunded_row_def)
  have sub: "set bs \<subseteq> set (bets t)"
  proof
    fix x assume x: "x \<in> set bs"
    then have "b_id x \<in> set (map b_id bs)" "x \<in> set (bets s)" using Cons.prems(6) by auto
    moreover have "b_id b \<notin> set (map b_id bs)" using Cons.prems(5) by simp
    ultimately show "x \<in> set (bets t)" using rewritten_mem [OF g] by metis
  qed
  have rest: "books_ok s' \<and> decides t s' \<and> rewritten bs (\<lambda>b b'. \<exists>after. b' = refunded_row (clock t) after b) t s'
    \<and> grows ''refund'' t s' (map (\<lambda>b. (b_wallet b, b_id b, b_stake b)) (filter (\<lambda>b. \<not> b_simulated b) bs))"
    using Cons.IH [OF _ t(2)] one Cons.prems(3-5) ids sub by simp
  have "clock t = clock s" using one Cons.prems(3) by (simp add: decides_def)
  then have "rewritten bs ?R t s'" using rest by simp
  moreover have "b_id (refunded_row (clock s) after b) = b_id b" by (simp add: refunded_row_def)
  ultimately have "rewritten (b # bs) ?R s s'"
    by (intro rewritten_Cons [where R = ?R and b = b, OF g _ _ Cons.prems(4-6)]) auto
  moreover have "grows ''refund'' s s' ((if b_simulated b then [] else [(b_wallet b, b_id b, b_stake b)])
      @ map (\<lambda>b. (b_wallet b, b_id b, b_stake b)) (filter (\<lambda>b. \<not> b_simulated b) bs))"
    by (rule grows_trans [where t = t]) (use one rest Cons.prems(3) in simp_all)
  moreover have "decides s s'" using one rest Cons.prems(3) decides_trans by auto
  ultimately show ?case using rest by (cases "b_simulated b") simp_all
qed

lemma CancelRound_Inr:
  assumes "books_ok s" "bets_ok s" "CancelRound roundID s = Inr (n, s')" "lookup (\<lambda>r. r_id r = roundID) (rounds s) = Some r"
    and "r_status r \<noteq> RoundCancelled"
  defines "bs \<equiv> accepted_bets roundID s"
  shows "books_ok s' \<and> n = int (length bs) \<and> (r_status r = RoundOpen \<or> r_status r = RoundClosed)
    \<and> rewritten bs (\<lambda>b b'. \<exists>after. b' = refunded_row (clock s) after b) s s'
    \<and> grows ''refund'' s s' (map (\<lambda>b. (b_wallet b, b_id b, b_stake b)) (filter (\<lambda>b. \<not> b_simulated b) bs))
    \<and> rounds s' = modify (\<lambda>r. r_id r = roundID) (\<lambda>r. r\<lparr>r_status := RoundCancelled, r_version := r_version r + 1\<rparr>) (rounds s)
    \<and> placements s' = placements s \<and> (\<exists>new. map w_id (wallets s') = map w_id (wallets s) @ new)"
proof -
  let ?g = "\<lambda>r. r\<lparr>r_status := RoundCancelled, r_version := r_version r + 1\<rparr>"
  obtain s1 p where st: "r_status r = RoundOpen \<or> r_status r = RoundClosed" and s1: "refund_bets bs s = Inr s1"
    and s2: "insert_outbox ''round'' roundID ''game.round.cancelled'' p (set_round roundID ?g s1) = Inr s'" and n: "n = int (length bs)"
    using assms(3-5) by (auto simp: CancelRound_def Let_def bindE_eq_Inr bs_def split: if_splits)
  have d: "\<forall>b \<in> set bs. 0 < b_stake b \<and> b_stake b \<le> max_int64" "distinct (map b_id (bets s))" "distinct (map b_id bs)" "set bs \<subseteq> set (bets s)"
    using assms(2) unfolding bs_def by (auto simp: bets_ok_def accepted_bets_set accepted_bets_ids)
  note m = refund_bets_Inr [OF assms(1) s1 d]
  have o: "money_only (set_round roundID ?g s1) s'" "wallets s' = wallets s1" "ledger s' = ledger s1"
    using insert_outbox_money_only [OF s2] by auto
  have "books_ok s'" using m o books_ok_cong by blast
  then show ?thesis using m st n o money_onlyD [OF o(1)] by (simp add: rewritten_def grows_def decides_def)
qed


section \<open>Answers to repeated calls\<close>

lemma rewritten_filter:
  assumes "rewritten bs R s s'" "\<And>b b'. b \<in> set (bets s) \<Longrightarrow> b \<in> set bs \<Longrightarrow> R b b' \<Longrightarrow> Q b' = P b \<and> (P b \<longrightarrow> f b' = g b)"
    and "\<And>b. b \<in> set (bets s) \<Longrightarrow> b \<notin> set bs \<Longrightarrow> \<not> Q b"
  shows "map f (filter Q (bets s')) = map g (filter (\<lambda>b. b \<in> set bs \<and> P b) (bets s))"
proof -
  have "list_all2 (\<lambda>b b'. b \<in> set (bets s) \<and> (if b \<in> set bs then R b b' else b' = b)) (bets s) (bets s')"
    using assms(1) unfolding rewritten_def by (rule list.rel_mono_strong) auto
  then show ?thesis
    by (induction rule: list_all2_induct) (use assms(2,3) in \<open>auto split: if_splits\<close>)
qed

lemma mset_sum_list: "mset xs = mset ys \<Longrightarrow> sum_list (map f xs) = (sum_list (map f ys) :: int)"
  by (metis mset_map sum_mset_sum_list)

lemma accepted_filter:
  assumes "bets_ok s" "\<And>b. P b \<Longrightarrow> of_round roundID b"
  shows "length (filter P (accepted_bets roundID s)) = length (filter P (bets s))"
    "sum_list (map f (filter P (accepted_bets roundID s))) = (sum_list (map f (filter P (bets s))) :: int)"
proof -
  have m: "mset (filter P (accepted_bets roundID s)) = mset (filter P (bets s))"
    unfolding mset_filter mset_accepted [OF assms(1)]
    by (simp add: filter_filter_mset) (rule filter_mset_cong, simp, use assms(2) in blast)
  show "length (filter P (accepted_bets roundID s)) = length (filter P (bets s))"
    using arg_cong [OF m, of size] by (simp only: size_mset)
  show "sum_list (map f (filter P (accepted_bets roundID s))) = sum_list (map f (filter P (bets s)))"
    by (rule mset_sum_list [OF m])
qed


text \<open>The stored rows of a round just settled answer with the result of the settlement.\<close>

lemma settledResult_rewritten:
  assumes "bets_ok s" "rewritten (accepted_bets roundID s) (decided_row rules plays outcome now) s s'"
    and "\<forall>b \<in> set (bets s). b_round b = roundID \<longrightarrow> b_status b \<noteq> BetWon \<and> b_status b \<noteq> BetLost"
    and "int64 (sum_list (map (prize rules plays outcome) (accepted_bets roundID s)))"
    and "r_id r = roundID" "r_settled r = Some now"
  shows "settledResult r outcome s' = Inr (tally rules plays outcome (accepted_bets roundID s) (empty_result roundID outcome now))"
proof -
  let ?bs = "accepted_bets roundID s" and ?W = "is_winner rules plays outcome" and ?p = "prize rules plays outcome"
  have rd: "b_round b = roundID" if "b \<in> set ?bs" for b using that by (auto simp: accepted_bets_set of_round_def)
  have dec: "b_round b' = roundID \<and> b_id b' = b_id b \<and> b_status b' = (if ?W b then BetWon else BetLost) \<and> (?W b \<longrightarrow> b_payout b' = ?p b)"
    if "b \<in> set ?bs" "decided_row rules plays outcome now b b'" for b b'
    using that(2) rd [OF that(1)] unfolding decided_row_def by (cases "?W b") (auto simp: won_row_def lost_row_def)
  have old: "\<not> (b_round b = roundID \<and> b_status b = BetWon)" "\<not> (b_round b = roundID \<and> b_status b = BetLost)" if "b \<in> set (bets s)" for b
    using assms(3) that by blast+
  have won: "map b_payout (filter (\<lambda>b. b_round b = roundID \<and> b_status b = BetWon) (bets s'))
      = map ?p (filter (\<lambda>b. b \<in> set ?bs \<and> ?W b) (bets s))"
    by (rule rewritten_filter [OF assms(2)]) (use dec in simp, use old in blast)
  have lost: "map b_id (filter (\<lambda>b. b_round b = roundID \<and> b_status b = BetLost) (bets s'))
      = map b_id (filter (\<lambda>b. b \<in> set ?bs \<and> \<not> ?W b) (bets s))"
    by (rule rewritten_filter [OF assms(2)]) (use dec in simp, use old in blast)
  have own: "filter (\<lambda>b. b \<in> set ?bs \<and> P b) ?bs = filter P ?bs" for P by (rule filter_cong) auto
  have acc: "length (filter (\<lambda>b. b \<in> set ?bs \<and> P b) (bets s)) = length (filter P ?bs)"
    "sum_list (map f (filter (\<lambda>b. b \<in> set ?bs \<and> P b) (bets s))) = (sum_list (map f (filter P ?bs)) :: int)" for P f
  proof -
    have o: "of_round roundID b" if "b \<in> set ?bs \<and> P b" for b using that by (simp add: accepted_bets_set)
    show "length (filter (\<lambda>b. b \<in> set ?bs \<and> P b) (bets s)) = length (filter P ?bs)"
      "sum_list (map f (filter (\<lambda>b. b \<in> set ?bs \<and> P b) (bets s))) = sum_list (map f (filter P ?bs))"
      using accepted_filter [where P = "\<lambda>b. b \<in> set ?bs \<and> P b", OF assms(1) o] unfolding own by (simp, metis)
  qed
  have "length (filter (\<lambda>b. b_round b = roundID \<and> b_status b = BetWon) (bets s')) = length (filter ?W ?bs)"
    using arg_cong [OF won, of length] by (simp add: acc)
  moreover have "length (filter (\<lambda>b. b_round b = roundID \<and> b_status b = BetLost) (bets s')) = length (filter (\<lambda>b. \<not> ?W b) ?bs)"
    using arg_cong [OF lost, of length] by (simp add: acc)
  moreover have "sum_list (map b_payout (filter (\<lambda>b. b_round b = roundID \<and> b_status b = BetWon) (bets s'))) = sum_list (map ?p ?bs)"
  proof -
    have "sum_list (map ?p (filter ?W ?bs)) = sum_list (map ?p ?bs)" by (rule sum_list_map_filter) (simp add: prize_def)
    then show ?thesis by (simp only: won acc)
  qed
  ultimately show ?thesis using assms(4-6) by (simp add: settledResult_def tally_def empty_result_def Let_def)
qed

section \<open>Batches\<close>

lemma wallet_ids_grow:
  "map w_id (wallets s') = map w_id (wallets s) @ new \<Longrightarrow> wallet_by_id s i \<noteq> None \<Longrightarrow> wallet_by_id s' i \<noteq> None"
  unfolding wallet_by_id_def lookup_None_iff by (metis Un_iff image_iff set_append set_map)

lemma rewritten_bets_ok:
  assumes "bets_ok s" "rewritten bs R s s'" "map w_id (wallets s') = map w_id (wallets s) @ new"
    and "\<And>b b'. R b b' \<Longrightarrow> b_id b' = b_id b \<and> b_stake b' = b_stake b \<and> b_wallet b' = b_wallet b"
  shows "bets_ok s'"
proof -
  have all: "list_all2 (\<lambda>b b'. b_id b' = b_id b \<and> b_stake b' = b_stake b \<and> b_wallet b' = b_wallet b) (bets s) (bets s')"
    using assms(2) unfolding rewritten_def by (rule list.rel_mono_strong) (use assms(4) in \<open>auto split: if_splits\<close>)
  then have ids: "map b_id (bets s') = map b_id (bets s)" by (induction rule: list_all2_induct) auto
  have "\<exists>b \<in> set (bets s). b_stake b' = b_stake b \<and> b_wallet b' = b_wallet b" if "b' \<in> set (bets s')" for b'
    using all that by (induction rule: list_all2_induct) auto
  then show ?thesis using assms(1) ids wallet_ids_grow [OF assms(3)] unfolding bets_ok_def by metis
qed

lemma decided_same: "decided_row rules plays outcome now b b' \<Longrightarrow> b_id b' = b_id b \<and> b_stake b' = b_stake b \<and> b_wallet b' = b_wallet b"
  by (auto simp: decided_row_def won_row_def lost_row_def)

text \<open>\<open>platform_ok\<close> collects what every settlement keeps.\<close>

definition platform_ok :: "db \<Rightarrow> bool" where
  "platform_ok s \<longleftrightarrow> books_ok s \<and> bets_ok s \<and> round_keys s"

definition round_settled :: "db \<Rightarrow> string \<Rightarrow> bool" where
  "round_settled s i \<longleftrightarrow> (\<exists>r. lookup (\<lambda>r. r_id r = i) (rounds s) = Some r \<and> r_status r = RoundSettled)"

lemma round_settled_moves:
  assumes "round_settled s i" "rounds_move s s'" "round_keys s'"
  shows "round_settled s' i"
proof -
  obtain r where r: "lookup (\<lambda>r. r_id r = i) (rounds s) = Some r" "r_status r = RoundSettled" using assms(1) by (auto simp: round_settled_def)
  obtain r' where r': "r' \<in> set (rounds s')" "moves r r'" using rounds_move_row [OF assms(2)] lookup_SomeD [OF r(1)] by blast
  then have "r_id r' = i" "r_status r' = RoundSettled"
    using lookup_SomeD [OF r(1)] r(2) round_final by (auto simp: moves_def same_round_def)
  then show ?thesis
    using lookup_key_unique [of r_id "rounds s'" r'] r'(1) assms(3) by (auto simp: round_settled_def round_keys_def)
qed

context bet_task_hook
begin

lemma SettleRound_keeps:
  assumes "platform_ok s" "SettleRound hook i outcome rules s = Inr (x, s')"
  shows "platform_ok s' \<and> rounds_move s s' \<and> round_settled s' i"
proof -
  obtain r where r: "lookup (\<lambda>r. r_id r = i) (rounds s) = Some r"
    using assms(2) by (auto simp: SettleRound_def bindE_eq_Inr orErr_eq_Inr split: if_splits)
  have ok: "books_ok s" "bets_ok s" "round_keys s" using assms(1) by (simp_all add: platform_ok_def)
  show ?thesis
  proof (cases "r_status r = RoundSettled")
    case True
    then have "s' = s" using assms(2) r by (auto simp: SettleRound_def bindE_eq_Inr split: if_splits)
    then show ?thesis using assms(1) r True by (auto simp: round_settled_def)
  next
    case False
    note m = SettleRound_Inr [OF ok(1,2) assms(2) r False]
    obtain k new where k: "rounds s' = modify (\<lambda>r. r_id r = i)
        (\<lambda>r. settled_row outcome (clock s) (r\<lparr>r_status := RoundSettling, r_version := r_version r + k\<rparr>)) (rounds s)"
      and new: "map w_id (wallets s') = map w_id (wallets s) @ new" using m by blast
    have "moves r (settled_row outcome (clock s) (r\<lparr>r_status := RoundSettling, r_version := r_version r + k\<rparr>))"
      using m settled_moves by blast
    note mv = rounds_move_one [OF ok(3) r k this]
    have "bets_ok s'" by (rule rewritten_bets_ok [OF ok(2) _ new decided_same]) (use m in blast)
    then show ?thesis using m mv by (simp add: platform_ok_def round_settled_def settled_row_def)
  qed
qed

text \<open>A batch keeps everything, reports only settled rounds, and leaves no due round unmentioned unless
  the upstream limited the rate or the target block does not exist yet.\<close>

lemma settle_due_loop_keeps:
  assumes "platform_ok s" "settle_due_loop source hook due s = (xs, es, s')"
  shows "platform_ok s' \<and> rounds_move s s' \<and> (\<forall>i \<in> fst ` set xs. round_settled s' i)
    \<and> (Settlement ErrRateLimited \<in> snd ` set es
       \<or> (\<forall>(r, t) \<in> set due. r_id r \<in> fst ` set xs \<or> r_id r \<in> fst ` set es
            \<or> (\<exists>s rules. source s ((row_round s r)\<lparr>SettledAt := None\<rparr>) rules = Inl (Settlement ErrBlockNotFound))))"
  using assms
proof (induction due arbitrary: s xs es s')
  case Nil
  then show ?case by simp
next
  case (Cons d due)
  obtain r t where d: "d = (r, t)" by (cases d)
  obtain ys fs u where rest: "settle_due_loop source hook due s = (ys, fs, u)" by (cases "settle_due_loop source hook due s")
  note same = Cons.IH [OF Cons.prems(1) rest]
  show ?case
  proof (cases "ParseRules (Some (gt_rules t))")
    case (Inl e)
    then have "xs = ys" "es = (r_id r, e) # fs" "s' = u" using Cons.prems(2) d rest by simp_all
    then show ?thesis using same d by auto
  next
    case (Inr rules)
    note rules = Inr
    show ?thesis
    proof (cases "source s ((row_round s r)\<lparr>SettledAt := None\<rparr>) rules")
      case (Inl e)
      then consider "e = Settlement ErrBlockNotFound" "xs = ys" "es = fs" "s' = u" | "e = Settlement ErrRateLimited" "xs = []" "es = [(r_id r, e)]" "s' = s"
        | "xs = ys" "es = (r_id r, e) # fs" "s' = u"
        using Cons.prems(2) d rest rules by (auto split: if_splits)
      then show ?thesis
      proof cases
        case 1
        then have "\<exists>s rules. source s ((row_round s r)\<lparr>SettledAt := None\<rparr>) rules = Inl (Settlement ErrBlockNotFound)" using Inl by blast
        then show ?thesis using same d 1(2-4) by auto
      qed (use same d Cons.prems(1) in auto)
    next
      case (Inr outcome)
      show ?thesis
      proof (cases "SettleRound hook (r_id r) outcome rules s")
        case (Inl e)
        then have "xs = ys" "es = (r_id r, e) # fs" "s' = u" using Cons.prems(2) d rest rules Inr by simp_all
        then show ?thesis using same d by auto
      next
        case outcome: (Inr p)
        obtain x s1 where p: "p = (x, s1)" by (cases p)
        obtain zs gs v where rest1: "settle_due_loop source hook due s1 = (zs, gs, v)" by (cases "settle_due_loop source hook due s1")
        have r: "xs = (r_id r, x) # zs" "es = gs" "s' = v" using Cons.prems(2) d rules Inr outcome p rest1 by simp_all
        note k = SettleRound_keeps [OF Cons.prems(1) outcome [unfolded p]]
        have k1: "platform_ok s1" using k by blast
        note k2 = Cons.IH [OF k1 rest1]
        have "round_settled v (r_id r)" using round_settled_moves [of s1 "r_id r" v] k k2 by (simp add: platform_ok_def)
        moreover have "rounds_move s v" using k k2 rounds_move_trans by blast
        ultimately show ?thesis using k2 r d by auto
      qed
    qed
  qed
qed

end

section \<open>Properties\<close>

text \<open>A closed round with three bets at odds 1.94: a winner, a loser and a simulated winner.\<close>

definition sample_settle_bet :: bet_row where
  "sample_settle_bet = \<lparr>b_id = ''b1'', b_request = ''q1'', b_round = ''r1'', b_user = ''alice'', b_wallet = ''wa'', b_room = None,
     b_mode = None, b_selection = pick_of ''odd'', b_stake = 100, b_mult = None, b_div = None, b_status = BetAccepted,
     b_payout = 0, b_after = None, b_simulated = False, b_robot = None, b_rebate_version = 1, b_merge = False, b_count = 1,
     b_created = 500, b_last = None, b_settled = None\<rparr>"

definition sample_settle_db :: db where
  "sample_settle_db = sample_db\<lparr>
     game_types := [\<lparr>gt_id = ''game'', gt_code = ''oddeven'', gt_name = ''Odd or even'', gt_enabled = True, gt_rules = sample_rules_doc,
        gt_room = None, gt_interval = None, gt_close_before = 0\<rparr>],
     rounds := [\<lparr>r_id = ''r1'', r_type = ''game'', r_seq = 1, r_status = RoundClosed, r_closes = 900, r_result_at = 950,
                 r_outcome = None, r_settled = None, r_version = 1\<rparr>],
     bets := [sample_settle_bet,
        sample_settle_bet\<lparr>b_id := ''b2'', b_user := ''bob'', b_wallet := ''wb'', b_selection := pick_of ''even'', b_stake := 50\<rparr>,
        sample_settle_bet\<lparr>b_id := ''b3'', b_user := ''robot'', b_wallet := ''wr'', b_simulated := True\<rparr>]\<rparr>"

lemma sample_settle_ok: "books_ok sample_settle_db" "bets_ok sample_settle_db" "round_keys sample_settle_db"
proof -
  show "books_ok sample_settle_db" using books_ok_cong [OF sample_books_ok] by (simp add: sample_settle_db_def)
  show "bets_ok sample_settle_db"
    by (simp add: bets_ok_def sample_settle_db_def sample_settle_bet_def sample_db_def wallet_by_id_def max_int64_def)
  show "round_keys sample_settle_db" by (simp add: round_keys_def sample_settle_db_def)
qed

lemma sample_settle_round:
  "\<exists>r. lookup (\<lambda>r. r_id r = ''r1'') (rounds sample_settle_db) = Some r \<and> r_status r = RoundClosed"
  by (simp add: sample_settle_db_def)

lemma sample_settle_run:
  "\<exists>x s'. SettleRound (Some OnBetSettled) ''r1'' [''odd''] sample_rules sample_settle_db = Inr (x, s') \<and> sr_won x = 2 \<and> sr_payout x = 388"
proof -
  have "case SettleRound (Some OnBetSettled) ''r1'' [''odd''] sample_rules sample_settle_db of
      Inl e \<Rightarrow> False | Inr (x, s') \<Rightarrow> sr_won x = 2 \<and> sr_payout x = 388" by code_simp
  then show ?thesis by (auto split: sum.splits)
qed

lemma sample_settle_prizes:
  "prizes sample_rules (plays_of sample_rules ''r1'' sample_settle_db) [''odd''] (accepted_bets ''r1'' sample_settle_db) = [(''wa'', ''b1'', 194)]
   \<and> sum_list (map (prize sample_rules (plays_of sample_rules ''r1'' sample_settle_db) [''odd'']) (accepted_bets ''r1'' sample_settle_db)) = 388"
  by code_simp

lemma sample_cancel_run: "\<exists>n s'. CancelRound ''r1'' sample_settle_db = Inr (n, s')"
proof -
  have "case CancelRound ''r1'' sample_settle_db of Inl e \<Rightarrow> False | Inr (n, s') \<Rightarrow> True" by code_simp
  then show ?thesis by (auto split: sum.splits)
qed

text \<open>C1: A successful first settlement decides every accepted bet of the round and no other bet, marks it won or
  lost as the rules say, and credits each real winner exactly once with the exact quotient of stake and odds: these are the
  settlement entries the ledger gains, in this order. The result counts them, the books still balance, and the round has
  moved forward to settled with the outcome stored.\<close>

theorem settlement_exact:
  assumes "books_ok s" "bets_ok s" "round_keys s" "SettleRound (Some OnBetSettled) roundID outcome rules s = Inr (x, s')"
    and "lookup (\<lambda>r. r_id r = roundID) (rounds s) = Some r" "r_status r \<noteq> RoundSettled"
  defines "plays \<equiv> plays_of rules roundID s" and "bs \<equiv> accepted_bets roundID s"
  shows "books_ok s' \<and> distinct bs \<and> set bs = {b \<in> set (bets s). b_round b = roundID \<and> b_status b = BetAccepted}
    \<and> rewritten bs (decided_row rules plays outcome (clock s)) s s'
    \<and> grows ''settlement'' s s' (prizes rules plays outcome bs)
    \<and> x = tally rules plays outcome bs (empty_result roundID outcome (clock s))
    \<and> rounds_move s s'
    \<and> (\<exists>r'. lookup (\<lambda>r. r_id r = roundID) (rounds s') = Some r' \<and> r_status r' = RoundSettled \<and> decode_strings (r_outcome r') = Some outcome)"
proof -
  note m = task_hook.SettleRound_Inr [OF assms(1,2,4-6)]
  obtain k where k: "rounds s' = modify (\<lambda>r. r_id r = roundID)
      (\<lambda>r. settled_row outcome (clock s) (r\<lparr>r_status := RoundSettling, r_version := r_version r + k\<rparr>)) (rounds s)" using m by blast
  have "moves r (settled_row outcome (clock s) (r\<lparr>r_status := RoundSettling, r_version := r_version r + k\<rparr>))"
    using m settled_moves by blast
  note mv = rounds_move_one [OF assms(3,5) k this]
  have "set bs = {b \<in> set (bets s). b_round b = roundID \<and> b_status b = BetAccepted}"
    using assms(2) by (auto simp: bs_def accepted_bets_set of_round_def bets_ok_def)
  moreover have "distinct bs" using accepted_bets_ids [of s roundID] assms(2) by (simp add: bs_def bets_ok_def distinct_map)
  ultimately show ?thesis using m mv unfolding plays_def bs_def by (simp add: settled_row_def)
qed

theorem settlement_exact_witness:
  "\<exists>x s'. SettleRound (Some OnBetSettled) ''r1'' [''odd''] sample_rules sample_settle_db = Inr (x, s') \<and> books_ok s'
     \<and> grows ''settlement'' sample_settle_db s' [(''wa'', ''b1'', 194)] \<and> rounds_move sample_settle_db s'"
proof -
  obtain x s' where run: "SettleRound (Some OnBetSettled) ''r1'' [''odd''] sample_rules sample_settle_db = Inr (x, s')"
    using sample_settle_run by blast
  obtain r where r: "lookup (\<lambda>r. r_id r = ''r1'') (rounds sample_settle_db) = Some r" "r_status r \<noteq> RoundSettled"
    using sample_settle_round by auto
  show ?thesis using settlement_exact [OF sample_settle_ok run r] run sample_settle_prizes by auto
qed

text \<open>C6: Repeating the call after a settlement changes nothing and returns the same result, so no bet is paid
  twice; naming another outcome is refused.\<close>

theorem settlement_repeat:
  assumes "books_ok s" "bets_ok s" "round_keys s" "SettleRound (Some OnBetSettled) roundID outcome rules s = Inr (x, s')"
    and "lookup (\<lambda>r. r_id r = roundID) (rounds s) = Some r" "r_status r \<noteq> RoundSettled"
    and "\<forall>b \<in> set (bets s). b_round b = roundID \<longrightarrow> b_status b \<noteq> BetWon \<and> b_status b \<noteq> BetLost"
    and "int64 (sum_list (map (prize rules (plays_of rules roundID s) outcome) (accepted_bets roundID s)))"
  shows "SettleRound (Some OnBetSettled) roundID outcome rules s' = Inr (x, s')
    \<and> (outcome' \<noteq> outcome \<and> outcome' \<noteq> [] \<and> [] \<notin> set outcome' \<and> set outcome' \<subseteq> set (Outcomes rules)
        \<longrightarrow> SettleRound (Some OnBetSettled) roundID outcome' rules s' = Inl (Settlement ErrSettlementOutcomeMismatch))"
proof -
  note m = task_hook.SettleRound_Inr [OF assms(1,2,4-6)]
  obtain k where k: "rounds s' = modify (\<lambda>r. r_id r = roundID)
      (\<lambda>r. settled_row outcome (clock s) (r\<lparr>r_status := RoundSettling, r_version := r_version r + k\<rparr>)) (rounds s)" using m by blast
  let ?r = "settled_row outcome (clock s) (r\<lparr>r_status := RoundSettling, r_version := r_version r + k\<rparr>)"
  have "moves r ?r" using m settled_moves by blast
  then have l: "lookup (\<lambda>r. r_id r = roundID) (rounds s') = Some ?r" using rounds_move_one [OF assms(3,5) k] by blast
  have "r_id ?r = roundID" "r_settled ?r = Some (clock s)" "r_status ?r = RoundSettled" "r_outcome ?r = Some (encode_strings outcome)"
    using lookup_SomeD [OF assms(5)] by (simp_all add: settled_row_def)
  moreover have "settledResult ?r outcome s' = Inr x"
    using settledResult_rewritten [OF assms(2) _ assms(7,8), of "clock s" s' ?r] m calculation by blast
  ultimately show ?thesis using m l by (auto simp: SettleRound_def)
qed

theorem settlement_repeat_witness:
  "\<exists>x s'. SettleRound (Some OnBetSettled) ''r1'' [''odd''] sample_rules sample_settle_db = Inr (x, s')
     \<and> SettleRound (Some OnBetSettled) ''r1'' [''odd''] sample_rules s' = Inr (x, s')
     \<and> SettleRound (Some OnBetSettled) ''r1'' [''even''] sample_rules s' = Inl (Settlement ErrSettlementOutcomeMismatch)"
proof -
  obtain x s' where run: "SettleRound (Some OnBetSettled) ''r1'' [''odd''] sample_rules sample_settle_db = Inr (x, s')"
    using sample_settle_run by blast
  obtain r where r: "lookup (\<lambda>r. r_id r = ''r1'') (rounds sample_settle_db) = Some r" "r_status r \<noteq> RoundSettled"
    using sample_settle_round by auto
  have fresh: "\<forall>b \<in> set (bets sample_settle_db). b_round b = ''r1'' \<longrightarrow> b_status b \<noteq> BetWon \<and> b_status b \<noteq> BetLost"
    by (simp add: sample_settle_db_def sample_settle_bet_def)
  have range: "int64 (sum_list (map (prize sample_rules (plays_of sample_rules ''r1'' sample_settle_db) [''odd'']) (accepted_bets ''r1'' sample_settle_db)))"
    using sample_settle_prizes by (simp add: int64_def)
  show ?thesis using settlement_repeat [OF sample_settle_ok run r fresh range, of "[''even'']"] run by (auto simp: sample_rules_def)
qed

text \<open>C10: Cancelling an open or closed round gives every real accepted bet exactly its stake back, once, marks all of
  them refunded and keeps the books; cancelling again does nothing, and the round can no longer be settled.\<close>

theorem cancellation_exact:
  assumes "books_ok s" "bets_ok s" "round_keys s" "CancelRound roundID s = Inr (n, s')"
    and "lookup (\<lambda>r. r_id r = roundID) (rounds s) = Some r" "r_status r \<noteq> RoundCancelled"
  defines "bs \<equiv> accepted_bets roundID s"
  shows "books_ok s' \<and> n = int (length bs) \<and> rewritten bs (\<lambda>b b'. \<exists>after. b' = refunded_row (clock s) after b) s s'
    \<and> grows ''refund'' s s' (map (\<lambda>b. (b_wallet b, b_id b, b_stake b)) (filter (\<lambda>b. \<not> b_simulated b) bs))
    \<and> rounds_move s s' \<and> CancelRound roundID s' = Inr (0, s')
    \<and> (\<exists>e. SettleRound hook roundID outcome rules s' = Inl e)"
proof -
  let ?g = "\<lambda>r. r\<lparr>r_status := RoundCancelled, r_version := r_version r + 1\<rparr>"
  note m = CancelRound_Inr [OF assms(1,2,4-6)]
  have "moves r (?g r)" using m by (auto simp: moves_def same_round_def)
  then have mv: "rounds_move s s'" "lookup (\<lambda>r. r_id r = roundID) (rounds s') = Some (?g r)"
    using rounds_move_one [OF assms(3,5), of s' ?g] m by auto
  have "CancelRound roundID s' = Inr (0, s')" using mv by (simp add: CancelRound_def)
  moreover have "\<exists>e. SettleRound hook roundID outcome rules s' = Inl e"
    using mv by (cases "validateRules rules") (simp_all add: SettleRound_def)
  ultimately show ?thesis using m mv(1) unfolding bs_def by blast
qed


theorem cancellation_exact_witness:
  "\<exists>n s'. CancelRound ''r1'' sample_settle_db = Inr (n, s') \<and> books_ok s' \<and> CancelRound ''r1'' s' = Inr (0, s')"
proof -
  obtain n s' where run: "CancelRound ''r1'' sample_settle_db = Inr (n, s')" using sample_cancel_run by blast
  obtain r where r: "lookup (\<lambda>r. r_id r = ''r1'') (rounds sample_settle_db) = Some r" "r_status r \<noteq> RoundCancelled"
    using sample_settle_round by auto
  show ?thesis using cancellation_exact [OF sample_settle_ok run r] run by blast
qed


text \<open>C20: A batch of due settlements, whatever the result source answers, keeps the books, the bets and the round keys,
  moves rounds forward only, and reports as settled only settled rounds; unless the upstream limits the rate, every round of the
  batch is settled, reported as failed, or waits for its block.\<close>

theorem batch_settlement:
  assumes "platform_ok s" "SettleDueRounds source (Some OnBetSettled) limit s = (xs, es, s')"
  shows "platform_ok s' \<and> rounds_move s s' \<and> (\<forall>i \<in> fst ` set xs. round_settled s' i)
    \<and> (Settlement ErrRateLimited \<in> snd ` set es
       \<or> (\<forall>(r, t) \<in> set (due_settlements limit s). r_id r \<in> fst ` set xs \<or> r_id r \<in> fst ` set es
            \<or> (\<exists>s rules. source s ((row_round s r)\<lparr>SettledAt := None\<rparr>) rules = Inl (Settlement ErrBlockNotFound))))"
proof (cases "limit \<le> 0")
  case True
  then have "due_settlements limit s = []" "xs = []" "es = []" "s' = s" using assms(2) by (auto simp: SettleDueRounds_def due_settlements_def Let_def)
  then show ?thesis using assms(1) by simp
next
  case False
  then show ?thesis using task_hook.settle_due_loop_keeps [OF assms(1), of source "due_settlements limit s" xs es s'] assms(2)
    by (simp add: SettleDueRounds_def)
qed

theorem batch_settlement_witness:
  "platform_ok (snd (snd (SettleDueRounds (\<lambda>_ _ _. Inr [''even'']) (Some OnBetSettled) 10 sample_settle_db)))"
proof -
  obtain xs es s' where r: "SettleDueRounds (\<lambda>_ _ _. Inr [''even'']) (Some OnBetSettled) 10 sample_settle_db = (xs, es, s')"
    by (cases "SettleDueRounds (\<lambda>_ _ _. Inr [''even'']) (Some OnBetSettled) 10 sample_settle_db")
  have "platform_ok sample_settle_db" using sample_settle_ok by (simp add: platform_ok_def)
  from batch_settlement [OF this r] r show ?thesis by simp
qed


end
