(* ===== verification/Wallet_Amount.thy ===== *)
theory Wallet_Amount
  imports Go_Strings
begin

text \<open>
  Decimal money text and integer minor units: \<^verbatim>\<open>internal/domain/wallet/amount.go\<close>,
  \<^verbatim>\<open>internal/platform/pqpa/amount.go\<close> and \<^verbatim>\<open>internal/application/chain/amount.go\<close>. The lemmas
  show that formatting and parsing are exact inverses over the whole positive 64-bit range,
  that parsing never rounds, and that the three independent implementations agree.
\<close>

section \<open>wallet/amount.go\<close>

text \<open>The pattern \<^verbatim>\<open>^(0|[1-9][0-9]*)(\.[0-9]{1,18})?$\<close>.\<close>

definition integer_part :: "string \<Rightarrow> bool" where
  "integer_part s \<longleftrightarrow> s = ''0'' \<or> (s \<noteq> [] \<and> hd s \<noteq> CHR ''0'' \<and> list_all is_digit s)"

definition decimalPattern :: "string \<Rightarrow> bool" where
  "decimalPattern s =
     (case split_first dot s of
        (i, None) \<Rightarrow> integer_part i
      | (i, Some f) \<Rightarrow> integer_part i \<and> 1 \<le> length f \<and> length f \<le> 18 \<and> list_all is_digit f)"

definition ValidDisplayAmount :: "string \<Rightarrow> bool" where
  "ValidDisplayAmount v =
     (let v = trim_space v; cut = (\<lambda>c. c = CHR ''0'' \<or> c = dot)
      in decimalPattern v \<and> trim_right cut (trim_left cut v) \<noteq> [])"

definition FormatDisplayAmount :: "int \<Rightarrow> int \<Rightarrow> error + string" where
  "FormatDisplayAmount minor decimals =
     (if decimals < 0 \<or> decimals > 18 then Inl (Wallet ErrInvalidDisplayAmount)
      else let digits = format_int minor;
               negative = has_prefix digits ''-'';
               sign = (if negative then ''-'' else []);
               digits = (if negative then tl digits else digits);
               d = nat decimals
           in if decimals = 0 then Inr (sign @ digits)
              else let digits = (if length digits \<le> d
                                 then replicate (d - length digits + 1) CHR ''0'' @ digits else digits);
                       k = length digits - d
                   in Inr (sign @ take k digits @ [dot] @ drop k digits))"

definition decimalDigits :: "string \<Rightarrow> bool" where
  "decimalDigits v \<longleftrightarrow> v \<noteq> [] \<and> list_all is_digit v"

definition decimalDigitsOrEmpty :: "string \<Rightarrow> bool" where
  "decimalDigitsOrEmpty v \<longleftrightarrow> v = [] \<or> decimalDigits v"

definition ParseDisplayAmount :: "string \<Rightarrow> int \<Rightarrow> error + int" where
  "ParseDisplayAmount v decimals =
     (let v = trim_space v in
      if \<not> ValidDisplayAmount v \<or> decimals < 0 \<or> decimals > 18
      then Inl (Wallet ErrInvalidDisplayAmount)
      else let parts = split_first dot v;
               integer = fst parts;
               fraction = (case snd parts of None \<Rightarrow> [] | Some f \<Rightarrow> f);
               integer = (if integer = [] then ''0'' else integer)
           in if \<not> decimalDigits integer \<or> \<not> decimalDigitsOrEmpty fraction
                 \<or> length fraction > nat decimals
              then Inl (Wallet ErrInvalidDisplayAmount)
              else let digits = trim_left (\<lambda>c. c = CHR ''0'')
                         (integer @ fraction @ replicate (nat decimals - length fraction) CHR ''0'')
                   in if digits = [] then Inl (Wallet ErrInvalidDisplayAmount)
                      else case parse_int64 digits of
                             None \<Rightarrow> Inl (Wallet ErrInvalidDisplayAmount)
                           | Some minor \<Rightarrow> if minor \<le> 0 then Inl (Wallet ErrInvalidDisplayAmount)
                                           else Inr minor)"

section \<open>Shape of formatted amounts\<close>

lemma integer_part_digits: "integer_part i \<Longrightarrow> list_all is_digit i \<and> i \<noteq> []"
  by (auto simp: integer_part_def)

lemma integer_part_format_nat: "integer_part (format_nat n)"
  using format_nat_hd [of n] format_nat_digits [of n]
  by (cases "n = 0") (auto simp: integer_part_def format_nat_0)

lemma format_int_unsigned: "0 \<le> m \<Longrightarrow> format_int m = format_nat (nat m)"
  by (simp add: format_int_def)

lemma no_sign_format_nat: "\<not> has_prefix (format_nat n) ''-''"
proof -
  have "is_digit (hd (format_nat n))"
    using format_nat_digits [of n] by (cases "format_nat n") auto
  then have "hd (format_nat n) \<noteq> CHR ''-''" by auto
  then show ?thesis by (cases "format_nat n") auto
qed

text \<open>A padded digit string split \<open>d\<close> places from its right end.\<close>

definition split_scaled :: "nat \<Rightarrow> nat \<Rightarrow> string \<times> string" where
  "split_scaled d n =
     (let s = format_nat n;
          s = (if length s \<le> d then replicate (d - length s + 1) CHR ''0'' @ s else s);
          k = length s - d
      in (take k s, drop k s))"

lemma split_scaled_shape:
  assumes "split_scaled d n = (i, f)"
  shows "length f = d \<and> list_all is_digit f \<and> integer_part i \<and> dec_val i * 10 ^ d + dec_val f = n"
proof -
  let ?s = "format_nat n"
  let ?p = "if length ?s \<le> d then replicate (d - length ?s + 1) CHR ''0'' @ ?s else ?s"
  let ?k = "length ?p - d"
  have i: "i = take ?k ?p" and f: "f = drop ?k ?p"
    using assms by (auto simp: split_scaled_def Let_def)
  have len: "d < length ?p" by auto
  then have lenf: "length f = d" using f by simp
  have digits: "list_all is_digit ?p"
    using format_nat_digits [of n] by (auto simp: list_all_iff in_set_replicate)
  have val: "dec_val ?p = n"
    using dec_val_zeros [of "d - length ?s + 1" ?s] by simp
  have "list_all is_digit f" using digits f by (auto simp: list_all_iff dest: in_set_dropD)
  moreover have "integer_part i"
  proof (cases "length ?s \<le> d")
    case True
    then have "?k = 1" by simp
    with True i show ?thesis by (simp add: integer_part_def)
  next
    case False
    then have i': "i = take (length ?s - d) ?s" and "length ?s - d \<noteq> 0" using i by auto
    then have ne: "i \<noteq> []" and hd: "hd i = hd ?s" by auto
    show ?thesis
    proof (cases "n = 0")
      case True
      with False i' show ?thesis by (simp add: format_nat_0 integer_part_def)
    next
      case n: False
      have "list_all is_digit i"
        using format_nat_digits [of n] i' by (auto simp: list_all_iff dest: in_set_takeD)
      with ne hd format_nat_hd [of n] n show ?thesis by (simp add: integer_part_def)
    qed
  qed
  moreover have "dec_val i * 10 ^ d + dec_val f = n"
    using dec_val_drop_take [of ?k ?p] i f lenf len val by simp
  ultimately show ?thesis using lenf by simp
qed

lemma FormatDisplayAmount_nonneg:
  assumes "0 \<le> m" "0 \<le> d" "d \<le> 18" "split_scaled (nat d) (nat m) = (i, f)"
  shows "FormatDisplayAmount m d = Inr (if d = 0 then i else i @ [dot] @ f)"
  using assms no_sign_format_nat [of "nat m"]
  by (auto simp: FormatDisplayAmount_def split_scaled_def format_int_unsigned Let_def)

lemma FormatDisplayAmount_neg:
  assumes "m < 0" "0 \<le> d" "d \<le> 18" "split_scaled (nat d) (nat (- m)) = (i, f)"
  shows "FormatDisplayAmount m d = Inr (''-'' @ (if d = 0 then i else i @ [dot] @ f))"
  using assms by (auto simp: FormatDisplayAmount_def split_scaled_def format_int_def Let_def)

section \<open>Parsing a well-formed amount\<close>

text \<open>The text of an amount with integer part \<open>i\<close> and, when it is not empty, fraction \<open>f\<close>.\<close>

definition amount_text :: "string \<Rightarrow> string \<Rightarrow> string" where
  "amount_text i f = (if f = [] then i else i @ [dot] @ f)"

lemma amount_text_no_space:
  "list_all is_digit i \<Longrightarrow> list_all is_digit f \<Longrightarrow> trim_space (amount_text i f) = amount_text i f"
  by (rule trim_space_id)
    (auto simp: amount_text_def list_all_iff split: if_splits)

lemma split_first_amount_text:
  "list_all is_digit i \<Longrightarrow>
   split_first dot (amount_text i f) = (i, if f = [] then None else Some f)"
  by (auto simp: amount_text_def split_first_plain split_first_sep dot_not_in_digits)

lemma cut_not_empty:
  assumes "c \<in> set s" "\<not> P c"
  shows "trim_right P (trim_left P s) \<noteq> []"
proof -
  have "trim_left P s \<noteq> []" using assms by (auto simp: trim_left_def)
  then have "\<not> P (hd (trim_left P s))" by (simp add: trim_left_def hd_dropWhile)
  with \<open>trim_left P s \<noteq> []\<close> have "\<exists>x \<in> set (rev (trim_left P s)). \<not> P x"
    by (metis hd_in_set set_rev)
  then show ?thesis by (simp add: trim_right_def)
qed

lemma ValidDisplayAmount_text:
  assumes "integer_part i" "list_all is_digit f" "length f \<le> 18" "0 < dec_val (i @ f)"
  shows "ValidDisplayAmount (amount_text i f)"
proof -
  have di: "list_all is_digit i" using assms(1) integer_part_digits by blast
  then have "list_all is_digit (i @ f)" using assms(2) by simp
  then obtain c where "c \<in> set (i @ f)" "c \<noteq> CHR ''0''"
    using assms(4) dec_val_pos_iff by blast
  moreover have "c \<noteq> dot" using \<open>c \<in> set (i @ f)\<close> \<open>list_all is_digit (i @ f)\<close>
    by (meson list_all_iff is_digit_not_dot)
  moreover have "c \<in> set (amount_text i f)"
    using \<open>c \<in> set (i @ f)\<close> by (auto simp: amount_text_def)
  ultimately have cut: "trim_right (\<lambda>c. c = CHR ''0'' \<or> c = dot)
      (trim_left (\<lambda>c. c = CHR ''0'' \<or> c = dot) (amount_text i f)) \<noteq> []"
    by (intro cut_not_empty) auto
  have "decimalPattern (amount_text i f)"
    using assms di by (cases f) (auto simp: decimalPattern_def split_first_amount_text)
  with cut show ?thesis
    using di assms(2) by (simp add: ValidDisplayAmount_def amount_text_no_space Let_def)
qed

lemma trimmed_digits:
  assumes "list_all is_digit s" "0 < dec_val s"
  defines "t \<equiv> trim_left (\<lambda>c. c = CHR ''0'') s"
  shows "t \<noteq> [] \<and> parse_int64 t = (if int (dec_val s) \<le> max_int64 then Some (int (dec_val s)) else None)"
proof -
  have v: "dec_val t = dec_val s" unfolding t_def by (rule dec_val_trim_zeros)
  then have "t \<noteq> []" using assms(2) by auto
  moreover have "list_all is_digit t"
    using assms(1) unfolding t_def by (auto simp: list_all_iff trim_left_def dest: set_dropWhileD)
  ultimately show ?thesis using parse_int64_digits [of t] v by simp
qed

lemma ParseDisplayAmount_text:
  assumes "integer_part i" "list_all is_digit f" "length f \<le> d" "d \<le> 18"
    and pos: "0 < dec_val (i @ f)" and n: "n = dec_val (i @ f) * 10 ^ (d - length f)"
  shows "ParseDisplayAmount (amount_text i f) (int d)
       = (if int n \<le> max_int64 then Inr (int n) else Inl (Wallet ErrInvalidDisplayAmount))"
proof -
  let ?s = "i @ f @ replicate (d - length f) CHR ''0''"
  have di: "list_all is_digit i" and ne: "i \<noteq> []" using assms(1) integer_part_digits by blast+
  have ds: "list_all is_digit ?s" using di assms(2) by (auto simp: list_all_iff in_set_replicate)
  have vs: "dec_val ?s = n" using dec_val_append_zeros [of "i @ f"] n by simp
  then have "0 < dec_val ?s" using pos n by simp
  note tr = trimmed_digits [OF ds this]
  have "decimalDigits i" using di ne by (simp add: decimalDigits_def)
  moreover have "decimalDigitsOrEmpty f" using assms(2) by (simp add: decimalDigitsOrEmpty_def decimalDigits_def)
  moreover have "(case snd (split_first dot (amount_text i f)) of None \<Rightarrow> [] | Some f \<Rightarrow> f) = f"
    using di by (simp add: split_first_amount_text)
  ultimately show ?thesis
    using assms(3,4) di ne tr vs ValidDisplayAmount_text [OF assms(1,2) _ pos] assms(2) \<open>0 < dec_val ?s\<close>
    by (simp add: ParseDisplayAmount_def amount_text_no_space split_first_amount_text Let_def)
qed

lemma parse_int64_digits_Some:
  "list_all is_digit s \<Longrightarrow> s \<noteq> [] \<Longrightarrow> parse_int64 s = Some m \<Longrightarrow>
   m = int (dec_val s) \<and> m \<le> max_int64"
  by (auto simp: parse_int64_digits split: if_splits)

text \<open>A parsed amount is exactly the number the text denotes, scaled; nothing is rounded.\<close>

lemma ParseDisplayAmount_SomeD:
  assumes "ParseDisplayAmount v d = Inr m" "split_first dot (trim_space v) = (i, fo)"
    and f: "f = (case fo of None \<Rightarrow> [] | Some f \<Rightarrow> f)"
  shows "0 \<le> d \<and> d \<le> 18 \<and> 0 < m \<and> m \<le> max_int64 \<and> length f \<le> nat d \<and>
         list_all is_digit f \<and> m = int (dec_val (i @ f)) * 10 ^ (nat d - length f)"
proof -
  let ?i = "if i = [] then ''0'' else i"
  let ?s = "?i @ f @ replicate (nat d - length f) CHR ''0''"
  let ?t = "trim_left (\<lambda>c. c = CHR ''0'') ?s"
  have h: "0 \<le> d" "d \<le> 18" "decimalDigits ?i" "decimalDigitsOrEmpty f" "length f \<le> nat d" "?t \<noteq> []"
    "parse_int64 ?t = Some m" "0 < m"
    using assms by (auto simp: ParseDisplayAmount_def Let_def split: if_splits option.splits)
  have df: "list_all is_digit f" using h(4) by (auto simp: decimalDigitsOrEmpty_def decimalDigits_def)
  moreover have "list_all is_digit ?i" using h(3) by (simp add: decimalDigits_def)
  ultimately have ds: "list_all is_digit ?s" by (auto simp: list_all_iff in_set_replicate)
  then have "list_all is_digit ?t" by (auto simp: list_all_iff trim_left_def dest: set_dropWhileD)
  then have "m = int (dec_val ?s)" "m \<le> max_int64"
    using parse_int64_digits_Some [OF _ h(6,7)] dec_val_trim_zeros [of ?s] by auto
  moreover have "dec_val ?s = dec_val (i @ f) * 10 ^ (nat d - length f)"
    using dec_val_append_zeros [of "?i @ f"] dec_val_zero_Cons [of f] by (cases "i = []") simp_all
  ultimately show ?thesis using h df by simp
qed

section \<open>pqpa/amount.go\<close>

text \<open>The loop \<^verbatim>\<open>for range decimals { scale *= 10 }\<close>.\<close>

fun scale10 :: "nat \<Rightarrow> int" where
  "scale10 0 = 1"
| "scale10 (Suc n) = wrap64 (scale10 n * 10)"

lemma scale10_eq: "n \<le> 18 \<Longrightarrow> scale10 n = 10 ^ n"
proof (induction n)
  case 0
  then show ?case by simp
next
  case (Suc n)
  have "(10::int) ^ Suc n \<le> 10 ^ 18" using Suc.prems by (intro power_increasing) auto
  moreover have "(10::int) ^ 18 = 1000000000000000000" by simp
  moreover have "(0::int) \<le> 10 ^ Suc n" by simp
  ultimately have "int64 (10 ^ Suc n)" unfolding int64_def by linarith
  then have "wrap64 (10 ^ Suc n) = 10 ^ Suc n" by (rule wrap64_id)
  with Suc show ?case by (simp add: mult.commute)
qed

definition leftPad :: "string \<Rightarrow> nat \<Rightarrow> string" where
  "leftPad v n = (if length v \<ge> n then v else replicate (n - length v) CHR ''0'' @ v)"

definition FormatMinorAmount :: "int \<Rightarrow> int \<Rightarrow> error + string" where
  "FormatMinorAmount minor decimals =
     (if minor < 0 \<or> decimals < 0 \<or> decimals > 18 then Inl ErrInvalidDecimalAmount
      else if decimals = 0 then Inr (format_int minor)
      else let scale = scale10 (nat decimals);
               whole = go_div minor scale;
               fraction = go_mod minor scale
           in Inr (format_int whole @ [dot] @ leftPad (format_int fraction) (nat decimals)))"

definition ParseMinorAmount :: "string \<Rightarrow> int \<Rightarrow> error + int" where
  "ParseMinorAmount v decimals =
     (if decimals < 0 \<or> decimals > 18 then Inl ErrInvalidDecimalAmount
      else let v = trim_space v in
      if v = [] \<or> has_prefix v ''-'' \<or> has_prefix v ''+'' then Inl ErrInvalidDecimalAmount
      else let parts = split_all dot v in
      if length parts > 2 \<or> hd parts = [] then Inl ErrInvalidDecimalAmount
      else let fraction = (if length parts = 2 then parts ! 1 else []) in
      if length fraction > nat decimals then Inl ErrInvalidDecimalAmount
      else if list_ex (\<lambda>part. \<not> (part = [] \<and> decimals \<noteq> 0) \<and> \<not> list_all is_digit part) parts
      then Inl ErrInvalidDecimalAmount
      else let scale = scale10 (nat decimals) in
      case parse_int64 (hd parts) of
        None \<Rightarrow> Inl ErrInvalidDecimalAmount
      | Some whole \<Rightarrow>
          if whole > go_div max_int64 scale then Inl ErrInvalidDecimalAmount
          else let fraction = fraction @ replicate (nat decimals - length fraction) CHR ''0'' in
          case (if fraction = [] then Some 0 else parse_int64 fraction) of
            None \<Rightarrow> Inl ErrInvalidDecimalAmount
          | Some fractionMinor \<Rightarrow>
              if wrap64 (whole * scale) > wrap64 (max_int64 - fractionMinor)
              then Inl ErrInvalidDecimalAmount
              else Inr (wrap64 (wrap64 (whole * scale) + fractionMinor)))"

section \<open>chain/amount.go\<close>

definition parseDecimalMinor :: "string \<Rightarrow> int \<Rightarrow> error + int" where
  "parseDecimalMinor v decimals =
     (if decimals < 0 \<or> decimals > 18 then Inl (Chain ChainInvalidAmount)
      else let parts = split_all dot (trim_space v) in
      if length parts > 2 \<or> length parts = 0 \<or> hd parts = [] then Inl (Chain ChainInvalidAmount)
      else let fraction = (if length parts = 2 then parts ! 1 else []) in
      if length fraction > nat decimals then Inl (Chain ChainInvalidAmount)
      else if list_ex (\<lambda>part. \<not> list_all is_digit part) parts then Inl (Chain ChainInvalidAmount)
      else let scale = scale10 (nat decimals) in
      case parse_int64 (hd parts) of
        None \<Rightarrow> Inl (Chain ChainInvalidAmount)
      | Some whole \<Rightarrow>
          if whole > go_div max_int64 scale then Inl (Chain ChainInvalidAmount)
          else let fraction = fraction @ replicate (nat decimals - length fraction) CHR ''0'' in
          case (if fraction \<noteq> [] then parse_int64 fraction else Some 0) of
            None \<Rightarrow> Inl (Chain ChainInvalidAmount)
          | Some tail \<Rightarrow>
              if wrap64 (whole * scale) > wrap64 (max_int64 - tail)
              then Inl (Chain ChainInvalidAmount)
              else Inr (wrap64 (wrap64 (whole * scale) + tail)))"

definition parsePlatformDeposit :: "string \<Rightarrow> int \<Rightarrow> int \<Rightarrow> error + int" where
  "parsePlatformDeposit v chainDecimals platformDecimals =
     (let v = trim_space v in
      if chainDecimals < 0 \<or> chainDecimals > 18 \<or> \<not> ValidDisplayAmount v
      then Inl (Chain ChainInvalidAmount)
      else let parse = (\<lambda>v. case ParseDisplayAmount v platformDecimals of
                              Inl e \<Rightarrow> Inl (Chain ChainInvalidAmount) | Inr m \<Rightarrow> Inr m)
           in case split_first dot v of
                (i, None) \<Rightarrow> parse v
              | (i, Some f) \<Rightarrow>
                  if length f > nat chainDecimals then Inl (Chain ChainInvalidAmount)
                  else parse (trim_right (\<lambda>c. c = dot) (trim_right (\<lambda>c. c = CHR ''0'') v)))"

section \<open>The three parsers agree\<close>

lemma format_nat_integer_part: "integer_part i \<Longrightarrow> format_nat (dec_val i) = i"
  by (rule format_nat_dec_val) (auto simp: integer_part_def)

lemma leftPad_value: "dec_val (leftPad s n) = dec_val s"
  by (simp add: leftPad_def dec_val_zeros)

lemma split_scaled_eq:
  assumes "0 < d"
  shows "split_scaled d n = (format_nat (n div 10 ^ d), leftPad (format_nat (n mod 10 ^ d)) d)"
proof -
  obtain i f where s: "split_scaled d n = (i, f)" by force
  note sh = split_scaled_shape [OF s]
  then have lf: "dec_val f < 10 ^ d" using dec_val_bound [of f] by auto
  have n: "n = dec_val i * 10 ^ d + dec_val f" using sh by simp
  have "n div 10 ^ d = dec_val i" "n mod 10 ^ d = dec_val f"
    using lf unfolding n by auto
  moreover have "format_nat (dec_val i) = i"
    using sh by (intro format_nat_integer_part) simp
  moreover have "leftPad (format_nat (dec_val f)) d = f"
  proof (rule dec_val_inject)
    have "length (format_nat (dec_val f)) \<le> d" using length_format_nat [OF lf assms] .
    then show "length (leftPad (format_nat (dec_val f)) d) = length f"
      using sh by (auto simp: leftPad_def)
    show "list_all is_digit (leftPad (format_nat (dec_val f)) d)"
      using format_nat_digits by (auto simp: leftPad_def list_all_iff in_set_replicate)
  qed (use sh in \<open>simp_all add: leftPad_value\<close>)
  ultimately show ?thesis using s by simp
qed

lemma FormatMinorAmount_eq_display:
  assumes "0 \<le> m" "0 \<le> d" "d \<le> 18"
  shows "FormatMinorAmount m d = FormatDisplayAmount m d"
proof -
  obtain i f where s: "split_scaled (nat d) (nat m) = (i, f)" by force
  show ?thesis
  proof (cases "d = 0")
    case True
    then have "i = format_nat (nat m)" using s by (auto simp: split_scaled_def Let_def)
    with True assms s show ?thesis
      by (simp add: FormatMinorAmount_def FormatDisplayAmount_nonneg format_int_unsigned)
  next
    case False
    then have p: "scale10 (nat d) = int (10 ^ nat d)" using assms by (simp add: scale10_eq)
    have "go_div m (scale10 (nat d)) = int (nat m div 10 ^ nat d)"
      "go_mod m (scale10 (nat d)) = int (nat m mod 10 ^ nat d)"
      using assms unfolding p by (simp_all add: go_arith zdiv_int zmod_int)
    then have "FormatMinorAmount m d = Inr (format_nat (nat m div 10 ^ nat d) @ [dot] @
        leftPad (format_nat (nat m mod 10 ^ nat d)) (nat d))"
      using False assms by (simp add: FormatMinorAmount_def Let_def format_int_unsigned)
    with False assms s show ?thesis
      by (simp add: FormatDisplayAmount_nonneg split_scaled_eq)
  qed
qed

text \<open>Both integer parsers on a well-formed text: the value, unless it exceeds the range.\<close>

lemma div_scale_le: "0 < s \<Longrightarrow> (w::int) \<le> m div s \<longleftrightarrow> w * s \<le> m"
proof
  assume "0 < s" "w \<le> m div s"
  then have "w * s \<le> m div s * s" by simp
  also have "\<dots> \<le> m" using \<open>0 < s\<close> by (simp add: minus_mod_eq_div_mult [symmetric])
  finally show "w * s \<le> m" .
next
  assume "0 < s" "w * s \<le> m"
  then have "w * s div s \<le> m div s" by (intro zdiv_mono1)
  then show "w \<le> m div s" using \<open>0 < s\<close> by simp
qed

lemma scaled_value:
  assumes "d \<le> 18" "0 \<le> w" "w \<le> max_int64" "0 \<le> t" "t \<le> max_int64"
  shows "(if w > go_div max_int64 (scale10 d) then Inl e
          else if wrap64 (w * scale10 d) > wrap64 (max_int64 - t) then Inl e
          else Inr (wrap64 (wrap64 (w * scale10 d) + t)))
       = (if w * 10 ^ d + t \<le> max_int64 then Inr (w * 10 ^ d + t) else Inl e)"
proof -
  have s: "scale10 d = 10 ^ d" using assms by (simp add: scale10_eq)
  have c: "w > go_div max_int64 (scale10 d) \<longleftrightarrow> \<not> w * 10 ^ d \<le> max_int64"
  proof -
    have p: "(0::int) < 10 ^ d" by simp
    have "go_div max_int64 (10 ^ d) = max_int64 div 10 ^ d"
      by (rule go_div_pos) (simp_all add: max_int64_def)
    then show ?thesis unfolding s using div_scale_le [OF p, of w max_int64] by (metis not_le)
  qed
  have t: "wrap64 (max_int64 - t) = max_int64 - t"
    using assms by (intro wrap64_id) (simp add: int64_def max_int64_def)
  show ?thesis
  proof (cases "w * 10 ^ d \<le> max_int64")
    case True
    then have "int64 (w * 10 ^ d)" using assms(2) by (simp add: int64_def max_int64_def order_trans [of _ 0])
    moreover have "w * 10 ^ d + t \<le> max_int64 \<Longrightarrow> int64 (w * 10 ^ d + t)"
      using assms(2,4) by (simp add: int64_def max_int64_def order_trans [of _ 0])
    ultimately show ?thesis using c True t by (auto simp: s)
  next
    case False
    then show ?thesis using c assms(4) by simp
  qed
qed

lemma dot_split_amount_text:
  "list_all is_digit i \<Longrightarrow> list_all is_digit f \<Longrightarrow>
   split_all dot (amount_text i f) = (if f = [] then [i] else [i, f])"
  by (simp add: amount_text_def split_all_plain split_all_sep dot_not_in_digits)

lemma fraction_value:
  assumes "list_all is_digit f" "length f \<le> d" "d \<le> 18"
  defines "g \<equiv> f @ replicate (d - length f) CHR ''0''"
  shows "(if g = [] then Some 0 else parse_int64 g) = Some (int (dec_val f * 10 ^ (d - length f)))
       \<and> int (dec_val f * 10 ^ (d - length f)) \<le> max_int64"
proof -
  have dg: "list_all is_digit g" using assms(1) by (auto simp: g_def list_all_iff in_set_replicate)
  have lg: "length g = d" using assms(2) by (simp add: g_def)
  have vg: "dec_val g = dec_val f * 10 ^ (d - length f)" unfolding g_def by (rule dec_val_append_zeros)
  have "dec_val g < 10 ^ d" using dec_val_bound [OF dg] lg by simp
  also have "(10::nat) ^ d \<le> 10 ^ 18" using assms(3) by (intro power_increasing) auto
  finally have "int (dec_val g) < 10 ^ 18" by (metis of_nat_less_iff of_nat_numeral of_nat_power)
  then have le: "int (dec_val g) \<le> max_int64" by (simp add: max_int64_def)
  show ?thesis
  proof (cases "g = []")
    case True
    then have "dec_val g = 0" by simp
    with True vg show ?thesis by (simp add: max_int64_def)
  next
    case False
    then show ?thesis using parse_int64_digits [OF dg False] le vg by simp
  qed
qed

text \<open>The part the two functions share once the text has been split.\<close>

definition minor_core :: "error \<Rightarrow> string \<Rightarrow> string \<Rightarrow> nat \<Rightarrow> error + int" where
  "minor_core e i f d =
     (case parse_int64 i of
        None \<Rightarrow> Inl e
      | Some w \<Rightarrow>
          if w > go_div max_int64 (scale10 d) then Inl e
          else (case (if f @ replicate (d - length f) CHR ''0'' = [] then Some 0
                      else parse_int64 (f @ replicate (d - length f) CHR ''0'')) of
                  None \<Rightarrow> Inl e
                | Some t \<Rightarrow>
                    if wrap64 (w * scale10 d) > wrap64 (max_int64 - t) then Inl e
                    else Inr (wrap64 (wrap64 (w * scale10 d) + t))))"

lemma minor_core_value:
  assumes "list_all is_digit i" "i \<noteq> []" "list_all is_digit f" "length f \<le> d" "d \<le> 18"
    and n: "n = dec_val i * 10 ^ d + dec_val f * 10 ^ (d - length f)"
  shows "minor_core e i f d = (if int n \<le> max_int64 then Inr (int n) else Inl e)"
proof -
  let ?w = "int (dec_val i)" and ?t = "int (dec_val f * 10 ^ (d - length f))"
  have sum: "?w * 10 ^ d + ?t = int n" unfolding n by simp
  show ?thesis
  proof (cases "?w \<le> max_int64")
    case True
    then have "parse_int64 i = Some ?w" using parse_int64_digits [OF assms(1,2)] by simp
    then have "minor_core e i f d = (if ?w > go_div max_int64 (scale10 d) then Inl e
          else if wrap64 (?w * scale10 d) > wrap64 (max_int64 - ?t) then Inl e
          else Inr (wrap64 (wrap64 (?w * scale10 d) + ?t)))"
      using fraction_value [OF assms(3,4,5)] by (simp only: minor_core_def option.case)
    then show ?thesis
      using scaled_value [OF assms(5), of ?w ?t e] True fraction_value [OF assms(3,4,5)] sum by simp
  next
    case False
    have "dec_val i \<le> n" using n by (simp add: trans_le_add1)
    then have "\<not> int n \<le> max_int64" using False by linarith
    moreover have "parse_int64 i = None" using False parse_int64_digits [OF assms(1,2)] by simp
    ultimately show ?thesis by (simp add: minor_core_def)
  qed
qed

lemma minor_core_error:
  "(case minor_core e i f d of Inl _ \<Rightarrow> Inl e' | Inr m \<Rightarrow> Inr m) = minor_core e' i f d"
  unfolding minor_core_def by (auto split: option.splits)

lemma ParseMinorAmount_core:
  fixes v :: string
  assumes "0 \<le> d" "d \<le> 18"
  defines "v' \<equiv> trim_space v"
  defines "p \<equiv> split_all dot v'"
  defines "f \<equiv> if length p = 2 then p ! 1 else []"
  shows "ParseMinorAmount v d =
    (if v' = [] \<or> has_prefix v' ''-'' \<or> has_prefix v' ''+'' \<or> length p > 2 \<or> hd p = []
        \<or> length f > nat d \<or> list_ex (\<lambda>part. \<not> list_all is_digit part) p
     then Inl ErrInvalidDecimalAmount else minor_core ErrInvalidDecimalAmount (hd p) f (nat d))"
proof -
  have dig: "(\<lambda>part. \<not> (part = [] \<and> d \<noteq> 0) \<and> \<not> list_all is_digit part) = (\<lambda>part. \<not> list_all is_digit part)"
    by auto
  show ?thesis
    unfolding ParseMinorAmount_def minor_core_def dig Let_def f_def [symmetric] p_def [symmetric] v'_def [symmetric]
    using assms(1,2) by simp
qed

lemma parseDecimalMinor_core:
  fixes v :: string
  assumes "0 \<le> d" "d \<le> 18"
  defines "p \<equiv> split_all dot (trim_space v)"
  defines "f \<equiv> if length p = 2 then p ! 1 else []"
  shows "parseDecimalMinor v d =
    (if length p > 2 \<or> hd p = [] \<or> length f > nat d \<or> list_ex (\<lambda>part. \<not> list_all is_digit part) p
     then Inl (Chain ChainInvalidAmount) else minor_core (Chain ChainInvalidAmount) (hd p) f (nat d))"
proof -
  have ne: "length p \<noteq> 0" unfolding p_def by (simp add: split_all_nonempty)
  have sw: "\<And>x y z. (if x \<noteq> [] then y else z) = (if x = [] then z else y)" by auto
  show ?thesis
    unfolding parseDecimalMinor_def minor_core_def Let_def sw f_def [symmetric] p_def [symmetric]
    using assms(1,2) ne by simp
qed

lemma amount_text_parts:
  fixes i f :: string
  assumes "list_all is_digit i" "i \<noteq> []" "list_all is_digit f"
  defines "p \<equiv> split_all dot (trim_space (amount_text i f))"
  shows "length p \<le> 2 \<and> hd p = i \<and> (if length p = 2 then p ! 1 else []) = f
       \<and> \<not> list_ex (\<lambda>part. \<not> list_all is_digit part) p"
  using assms by (auto simp: p_def amount_text_no_space dot_split_amount_text)

lemma ParseMinorAmount_text:
  assumes "list_all is_digit i" "i \<noteq> []" "list_all is_digit f" "length f \<le> d" "d \<le> 18"
  shows "ParseMinorAmount (amount_text i f) (int d) = minor_core ErrInvalidDecimalAmount i f d"
proof -
  let ?v = "amount_text i f"
  have hd: "is_digit (hd i)" using assms(1,2) by (cases i) auto
  then have "\<not> has_prefix ?v ''-''" "\<not> has_prefix ?v ''+''" "?v \<noteq> []"
    using assms(2) by (cases i; auto simp: amount_text_def)+
  then show ?thesis
    using amount_text_parts [OF assms(1,2,3)] assms
    by (simp add: ParseMinorAmount_core amount_text_no_space del: One_nat_def)
qed

lemma signed_not_digits:
  assumes "v = [] \<or> has_prefix v ''-'' \<or> has_prefix v ''+''"
  shows "hd (split_all dot v) = [] \<or> list_ex (\<lambda>part. \<not> list_all is_digit part) (split_all dot v)"
proof (cases v)
  case Nil
  then show ?thesis by simp
next
  case (Cons c r)
  with assms have "c = CHR ''-'' \<or> c = CHR ''+''" by auto
  then have "\<not> is_digit c" "c \<noteq> dot" by (auto simp: is_digit_def code_def)
  with Cons show ?thesis by (cases "split_all dot r") auto
qed

lemma ParseMinorAmount_agrees:
  "ParseMinorAmount v d = (case parseDecimalMinor v d of Inl e \<Rightarrow> Inl ErrInvalidDecimalAmount | Inr m \<Rightarrow> Inr m)"
proof (cases "0 \<le> d \<and> d \<le> 18")
  case False
  then show ?thesis by (auto simp: ParseMinorAmount_def parseDecimalMinor_def)
next
  case True
  then show ?thesis
    using signed_not_digits [of "trim_space v"]
    by (auto simp: ParseMinorAmount_core parseDecimalMinor_core minor_core_error simp del: One_nat_def)
qed

section \<open>Deposits: trailing zeros beyond the platform precision\<close>

lemma trim_zeros_fraction:
  assumes "list_all is_digit i" "i \<noteq> []" "list_all is_digit f" "f \<noteq> []"
  defines "g \<equiv> trim_right (\<lambda>c. c = CHR ''0'') f"
  shows "trim_right (\<lambda>c. c = dot) (trim_right (\<lambda>c. c = CHR ''0'') (amount_text i f)) = amount_text i g
       \<and> f = g @ replicate (length f - length g) CHR ''0'' \<and> length g \<le> length f"
proof -
  let ?z = "rev (takeWhile (\<lambda>c. c = CHR ''0'') (rev f))"
  have f: "f = g @ ?z"
    unfolding g_def trim_right_def by (metis rev_append rev_rev_ident takeWhile_dropWhile_id)
  have z: "\<And>c. c \<in> set ?z \<Longrightarrow> c = CHR ''0''" by (auto dest: set_takeWhileD)
  then have "?z = replicate (length ?z) CHR ''0''" by (metis replicate_eqI)
  moreover have "length ?z = length f - length g" using f by (metis add_diff_cancel_left' length_append)
  ultimately have fz: "f = g @ replicate (length f - length g) CHR ''0''" using f by metis
  have ai: "last i \<noteq> dot" using assms(1,2) dot_not_in_digits last_in_set by metis
  have "trim_right (\<lambda>c. c = CHR ''0'') (amount_text i f) = i @ [dot] @ g"
  proof -
    have "amount_text i f = (i @ [dot] @ g) @ ?z" using f assms(4) by (simp add: amount_text_def)
    then have e: "trim_right (\<lambda>c. c = CHR ''0'') (amount_text i f) = trim_right (\<lambda>c. c = CHR ''0'') (i @ [dot] @ g)"
      using trim_right_app_all [of ?z "\<lambda>c. c = CHR ''0''" "i @ [dot] @ g"] z by simp
    have "g \<noteq> [] \<Longrightarrow> last g \<noteq> CHR ''0''"
      unfolding g_def trim_right_def by (metis (full_types) hd_dropWhile last_rev rev_is_Nil_conv)
    then show ?thesis unfolding e by (intro trim_right_id) auto
  qed
  moreover have "trim_right (\<lambda>c. c = dot) (i @ [dot] @ g) = amount_text i g"
  proof (cases "g = []")
    case True
    then show ?thesis
      using trim_right_app_all [of "[dot]" "\<lambda>c. c = dot" i] trim_right_id [OF assms(2), of "\<lambda>c. c = dot"] ai
      by (simp add: amount_text_def)
  next
    case False
    have "last g \<in> set f" using False f by (metis Un_iff last_in_set set_append)
    then have "last g \<noteq> dot" using assms(3) dot_not_in_digits by metis
    with False show ?thesis by (simp add: amount_text_def trim_right_id)
  qed
  moreover have "length g \<le> length f" using f by (metis le_add1 length_append)
  ultimately show ?thesis using fz by auto
qed

lemma split_first_NoneD: "split_first dot v = (i, None) \<Longrightarrow> v = i \<and> dot \<notin> set i"
  by (induction v arbitrary: i) (auto split: if_splits prod.splits)

lemma split_first_SomeD: "split_first dot v = (i, Some f) \<Longrightarrow> v = i @ [dot] @ f \<and> dot \<notin> set i"
  by (induction v arbitrary: i) (auto split: if_splits prod.splits)

lemma trim_right_last: "trim_right P v \<noteq> [] \<Longrightarrow> \<not> P (last (trim_right P v))"
  unfolding trim_right_def using hd_dropWhile [of P "rev v"] by (simp add: last_rev)

lemma trim_left_hd: "trim_left P v \<noteq> [] \<Longrightarrow> \<not> P (hd (trim_left P v))"
  unfolding trim_left_def by (rule hd_dropWhile)

lemma trim_right_hd: "trim_right P v \<noteq> [] \<Longrightarrow> hd (trim_right P v) = hd v"
proof -
  assume ne: "trim_right P v \<noteq> []"
  have "v = trim_right P v @ rev (takeWhile P (rev v))"
    unfolding trim_right_def by (metis rev_append rev_rev_ident takeWhile_dropWhile_id)
  with ne show ?thesis by (metis hd_append2)
qed

lemma trim_space_idem: "trim_space (trim_space v) = trim_space v"
proof (cases "trim_space v = []")
  case True
  then show ?thesis by simp
next
  case False
  let ?t = "trim_space v"
  have l: "\<not> is_space (last ?t)" using False trim_right_last unfolding trim_space_def by blast
  have ne: "trim_left is_space v \<noteq> []" using False by (auto simp: trim_space_def trim_right_def)
  have "hd ?t = hd (trim_left is_space v)"
    using False trim_right_hd unfolding trim_space_def by blast
  then have h: "\<not> is_space (hd ?t)" using trim_left_hd [OF ne] by simp
  have "trim_left is_space ?t = ?t" using False h by (rule trim_left_id)
  moreover have "trim_right is_space ?t = ?t" using False l by (rule trim_right_id)
  ultimately show ?thesis by (metis trim_space_def)
qed

lemma ValidDisplayAmount_split:
  assumes "ValidDisplayAmount v" "split_first dot (trim_space v) = (i, fo)"
  shows "list_all is_digit i \<and> i \<noteq> [] \<and> (\<forall>f. fo = Some f \<longrightarrow> list_all is_digit f \<and> f \<noteq> [])"
  using assms integer_part_digits [of i]
  by (auto simp: ValidDisplayAmount_def decimalPattern_def Let_def split: option.splits)

lemma parsePlatformDeposit_SomeD:
  assumes "parsePlatformDeposit v cd pd = Inr m" "split_first dot (trim_space v) = (i, fo)"
    and f: "f = (case fo of None \<Rightarrow> [] | Some f \<Rightarrow> f)"
  shows "length f \<le> nat cd \<and> 0 < m \<and> m \<le> max_int64 \<and> m * 10 ^ length f = int (dec_val (i @ f)) * 10 ^ nat pd"
proof -
  have v: "ValidDisplayAmount (trim_space v)" "0 \<le> cd"
    using assms(1) by (auto simp: parsePlatformDeposit_def Let_def split: if_splits)
  note di = ValidDisplayAmount_split [of "trim_space v", unfolded trim_space_idem, OF v(1) assms(2)]
  show ?thesis
  proof (cases fo)
    case None
    then have "ParseDisplayAmount (trim_space v) pd = Inr m"
      using assms(1,2) by (auto simp: parsePlatformDeposit_def Let_def split: if_splits sum.splits)
    then show ?thesis
      using ParseDisplayAmount_SomeD [of "trim_space v" pd m i fo f, unfolded trim_space_idem] assms(2) f None v(2)
      by simp
  next
    case (Some h)
    then have fh: "f = h" using f by simp
    have dh: "list_all is_digit h" "h \<noteq> []" using di Some by auto
    have tv: "trim_space v = amount_text i h"
      using split_first_SomeD [of "trim_space v" i h] assms(2) Some dh by (simp add: amount_text_def)
    define g where "g = trim_right (\<lambda>c. c = CHR ''0'') h"
    note tz = trim_zeros_fraction [of i h, folded g_def]
    have dg: "list_all is_digit g" using dh tz di by (metis list_all_append)
    have len: "length h \<le> nat cd" and "ParseDisplayAmount (amount_text i g) pd = Inr m"
      using assms(1,2) Some tz di dh
      by (auto simp: parsePlatformDeposit_def Let_def tv split: if_splits sum.splits)
    moreover have sg: "split_first dot (trim_space (amount_text i g)) = (i, if g = [] then None else Some g)"
      using di dg by (simp add: amount_text_no_space split_first_amount_text)
    moreover have fg: "g = (case (if g = [] then None else Some g) of None \<Rightarrow> [] | Some f \<Rightarrow> f)" by simp
    ultimately have r: "0 < m" "m \<le> max_int64" "length g \<le> nat pd"
      "m = int (dec_val (i @ g)) * 10 ^ (nat pd - length g)"
      using ParseDisplayAmount_SomeD [OF _ sg fg] by auto
    let ?k = "length h - length g"
    have hg: "h = g @ replicate ?k CHR ''0''" "length g \<le> length h" using tz di dh by auto
    have "dec_val (i @ h) = dec_val ((i @ g) @ replicate ?k CHR ''0'')" using hg(1) by simp
    then have vh: "dec_val (i @ h) = dec_val (i @ g) * 10 ^ ?k" by (simp only: dec_val_append_zeros)
    have "nat pd - length g + length h = ?k + nat pd" using r(3) hg(2) by simp
    then have "(10::int) ^ (nat pd - length g) * 10 ^ length h = 10 ^ ?k * 10 ^ nat pd"
      by (simp only: power_add [symmetric])
    then show ?thesis using r len vh fh by (simp add: mult.assoc)
  qed
qed

section \<open>Properties\<close>

text \<open>C40: an amount formatted with \<^verbatim>\<open>wallet.FormatDisplayAmount\<close> parses back to the same number of
  minor units, for every positive 64-bit amount and every supported precision.\<close>

theorem amount_roundtrip:
  assumes "0 < m" "m \<le> max_int64" "0 \<le> d" "d \<le> 18"
  shows "bindE (FormatDisplayAmount m d) (\<lambda>s. ParseDisplayAmount s d) = Inr m"
proof -
  obtain i f where s: "split_scaled (nat d) (nat m) = (i, f)" by force
  note sh = split_scaled_shape [OF s]
  have v: "dec_val (i @ f) = nat m" using sh by (simp add: dec_val_append)
  have "FormatDisplayAmount m d = Inr (amount_text i f)"
    using FormatDisplayAmount_nonneg [OF _ assms(3,4) s] assms sh by (auto simp: amount_text_def)
  moreover have "ParseDisplayAmount (amount_text i f) (int (nat d))
      = (if int (nat m) \<le> max_int64 then Inr (int (nat m)) else Inl (Wallet ErrInvalidDisplayAmount))"
  proof (rule ParseDisplayAmount_text)
    show "0 < dec_val (i @ f)" unfolding v using assms(1) by simp
    show "nat m = dec_val (i @ f) * 10 ^ (nat d - length f)" unfolding v using sh by simp
  qed (use sh assms(3,4) in auto)
  ultimately show ?thesis using assms by simp
qed

theorem amount_roundtrip_witness:
  "(0::int) < 1940000 \<and> bindE (FormatDisplayAmount 1940000 6) (\<lambda>s. ParseDisplayAmount s 6) = Inr 1940000"
  using amount_roundtrip [of 1940000 6] by (simp add: max_int64_def)

text \<open>whatever \<^verbatim>\<open>wallet.ParseDisplayAmount\<close> accepts is exactly the decimal number written: with
  \<open>f\<close> the digits after the point, the result times ten to the length of \<open>f\<close> is the digit
  string read as a number, scaled by the currency; it is positive and fits 64 bits, and text
  with more decimals than the currency is rejected, never rounded.\<close>

theorem ParseDisplayAmount_exact:
  assumes "ParseDisplayAmount v d = Inr m" "split_first dot (trim_space v) = (i, fo)"
  defines "f \<equiv> (case fo of None \<Rightarrow> [] | Some f \<Rightarrow> f)"
  shows "0 < m \<and> m \<le> max_int64 \<and> length f \<le> nat d \<and>
         m = int (dec_val (i @ f)) * 10 ^ (nat d - length f)"
  using ParseDisplayAmount_SomeD [OF assms(1,2), of f] by (simp add: f_def)

theorem ParseDisplayAmount_exact_witness:
  "ParseDisplayAmount '' 1.25 '' 3 = Inr 1250 \<and> (1250::int) = int (dec_val ''125'') * 10 ^ 1"
proof -
  have p: "ParseDisplayAmount '' 1.25 '' 3 = Inr 1250" by code_simp
  have s: "split_first dot (trim_space '' 1.25 '') = (''1'', Some ''25'')" by code_simp
  show ?thesis using p ParseDisplayAmount_exact [OF p s] by simp
qed

text \<open>the gateway's own formatter and parser (\<^verbatim>\<open>pqpa.FormatMinorAmount\<close>, \<^verbatim>\<open>pqpa.ParseMinorAmount\<close>)
  round-trip every non-negative 64-bit amount, zero included, and print exactly the text that
  \<^verbatim>\<open>wallet.FormatDisplayAmount\<close> prints.\<close>

theorem pqpa_roundtrip:
  assumes "0 \<le> m" "m \<le> max_int64" "0 \<le> d" "d \<le> 18"
  shows "bindE (FormatMinorAmount m d) (\<lambda>s. ParseMinorAmount s d) = Inr m
       \<and> FormatMinorAmount m d = FormatDisplayAmount m d"
proof -
  obtain i f where s: "split_scaled (nat d) (nat m) = (i, f)" by force
  note sh = split_scaled_shape [OF s]
  have ip: "list_all is_digit i" "i \<noteq> []" using sh integer_part_digits by blast+
  have eq: "FormatMinorAmount m d = FormatDisplayAmount m d"
    using FormatMinorAmount_eq_display assms by simp
  have "FormatDisplayAmount m d = Inr (amount_text i f)"
    using FormatDisplayAmount_nonneg [OF assms(1,3,4) s] sh assms by (auto simp: amount_text_def)
  then show ?thesis
    using ParseMinorAmount_text [of i f "nat d"] minor_core_value [of i f "nat d" "nat m"] sh ip assms eq by simp
qed

theorem pqpa_roundtrip_witness:
  "bindE (FormatMinorAmount 5 18) (\<lambda>s. ParseMinorAmount s 18) = Inr 5"
  by (rule conjunct1 [OF pqpa_roundtrip]) (simp_all add: max_int64_def)

text \<open>the two hand-written decimal parsers of the payment path, \<^verbatim>\<open>pqpa.ParseMinorAmount\<close> and
  \<^verbatim>\<open>chain.parseDecimalMinor\<close>, accept the same texts and return the same amounts on every input;
  they differ only in the error value.\<close>

theorem decimal_parsers_agree:
  "ParseMinorAmount v d =
     (case parseDecimalMinor v d of Inl e \<Rightarrow> Inl ErrInvalidDecimalAmount | Inr m \<Rightarrow> Inr m)"
  by (rule ParseMinorAmount_agrees)

text \<open>\<^verbatim>\<open>chain.parsePlatformDeposit\<close> credits exactly the amount the network reports: it refuses more
  decimals than the chain has, drops only trailing zeros, and the credited minor units equal
  the reported decimal scaled to the platform precision.\<close>

theorem parsePlatformDeposit_exact:
  assumes "parsePlatformDeposit v cd pd = Inr m" "split_first dot (trim_space v) = (i, fo)"
  defines "f \<equiv> (case fo of None \<Rightarrow> [] | Some f \<Rightarrow> f)"
  shows "length f \<le> nat cd \<and> 0 < m \<and> m \<le> max_int64 \<and>
         m * 10 ^ length f = int (dec_val (i @ f)) * 10 ^ nat pd"
  using parsePlatformDeposit_SomeD [OF assms(1,2), of f] by (simp add: f_def)

theorem parsePlatformDeposit_exact_witness:
  "parsePlatformDeposit ''12.5000'' 18 2 = Inr 1250 \<and> (1250::int) * 10 ^ 4 = int (dec_val ''125000'') * 10 ^ 2"
proof -
  have p: "parsePlatformDeposit ''12.5000'' 18 2 = Inr 1250" by code_simp
  have s: "split_first dot (trim_space ''12.5000'') = (''12'', Some ''5000'')" by code_simp
  show ?thesis using p parsePlatformDeposit_exact [OF p s] by simp
qed

end
