(* ===== verification/Betting.thy ===== *)
theory Betting
  imports Settlement Wallet_Amount
begin

text \<open>
  Placing and cancelling bets: \<^verbatim>\<open>internal/application/betting\<close> (\<^verbatim>\<open>service.go\<close>,
  \<^verbatim>\<open>lulu_maintenance.go\<close>). A request is checked against the round, the play and its limits, debits
  the wallet once, and is merged into an identical pending bet; every accepted request leaves a placement
  that answers repeated requests. A selection is a parsed document, \<open>None\<close> for text that is not JSON;
  stored selections are JSONB. All reads of the clock inside a request see one instant.
\<close>

section \<open>Requests and results\<close>

record PlaceBetRequest =
  RobotPlanID :: string
  ClientRequestID :: string
  BetRoundID :: string
  BetAccountID :: string
  BetCurrency :: string
  GameRoomID :: string
  PlayMode :: string
  Selection :: "json option"
  StakeMinor :: int

record PlacedBet =
  pb_id :: string
  pb_request :: string
  pb_round :: string
  pb_account :: string
  pb_game :: string
  pb_game_name :: string
  pb_sequence :: int
  pb_currency :: string
  pb_room :: string
  pb_room_code :: string
  pb_room_name :: string
  pb_mode :: string
  pb_selection :: json
  pb_stake :: int
  pb_mult :: int
  pb_div :: int
  pb_rate :: string
  pb_status :: string
  pb_payout :: int
  pb_after_bet :: "int option"
  pb_after_refund :: "int option"
  pb_after_settlement :: "int option"
  pb_placed :: int
  pb_settled :: "int option"
  pb_decimals :: int
  pb_stake_text :: string
  pb_payout_text :: string
  pb_count :: int
  pb_last :: int

record PublicPlayer =
  pl_user :: int
  pl_name :: string
  pl_avatar :: string
  pl_virtual :: bool

text \<open>A \<^verbatim>\<open>PublicBet\<close> is the order as everybody may see it: without account, request and balances.\<close>

record PublicBet =
  pub_bet :: PlacedBet
  pub_player :: PublicPlayer

definition status_text :: "bet_status \<Rightarrow> string" where
  "status_text st = (case st of BetAccepted \<Rightarrow> ''accepted'' | BetCancelled \<Rightarrow> ''cancelled'' | BetLost \<Rightarrow> ''lost''
     | BetWon \<Rightarrow> ''won'' | BetRefunded \<Rightarrow> ''refunded'' | BetVoided \<Rightarrow> ''voided'')"

definition text_of :: "string option \<Rightarrow> string" where
  "text_of t = (case t of None \<Rightarrow> [] | Some v \<Rightarrow> v)"

definition nullif :: "string \<Rightarrow> string option" where
  "nullif v = (if v = [] then None else Some v)"

section \<open>Reading an order\<close>

text \<open>\<^verbatim>\<open>big.Rat.FloatString(6)\<close> of a positive fraction rounds half away from zero; trailing zeros go.\<close>

definition formatPayoutRate :: "int \<Rightarrow> int \<Rightarrow> string" where
  "formatPayoutRate multiplier divisor =
     (if multiplier \<le> 0 \<or> divisor \<le> 0 then []
      else let n = nat ((2 * multiplier * 1000000 + divisor) div (2 * divisor));
               text = format_nat (n div 1000000) @ [dot] @ leftPad (format_nat (n mod 1000000)) 6
           in trim_right (\<lambda>c. c = dot) (trim_right (\<lambda>c. c = CHR ''0'') text))"

text \<open>The balance after the latest debit of the bet.\<close>

definition debit_time :: "db \<Rightarrow> ledger_row \<Rightarrow> int" where
  "debit_time s e =
     (case Option.bind (l_placement e) (\<lambda>p. lookup (\<lambda>r. p_id r = p) (placements s)) of
        None \<Rightarrow> l_at e | Some p \<Rightarrow> p_at p)"

definition debit_after :: "db \<Rightarrow> bet_row \<Rightarrow> int option" where
  "debit_after s b =
     (case rev (sort_key (debit_time s) (sort_key (\<lambda>e. map code (l_id e))
             (filter (\<lambda>e. l_wallet e = b_wallet b \<and> l_btype e = ''bet'' \<and> l_bid e = b_id b \<and> l_etype e = ''bet_debit'') (ledger s)))) of
        [] \<Rightarrow> None | e # _ \<Rightarrow> Some (l_after e))"

definition or_zero :: "int option \<Rightarrow> int" where
  "or_zero v = (case v of None \<Rightarrow> 0 | Some x \<Rightarrow> x)"

text \<open>The joins of \<^verbatim>\<open>placedBetSelect\<close>: wallet, currency, round and game type must exist.\<close>

definition bet_joins :: "db \<Rightarrow> bet_row \<Rightarrow> (wallet_row \<times> currency_row \<times> round_row \<times> game_type_row) option" where
  "bet_joins s b =
     Option.bind (wallet_by_id s (b_wallet b)) (\<lambda>w.
     Option.bind (lookup (\<lambda>c. c_code c = w_currency w) (currencies s)) (\<lambda>c.
     Option.bind (lookup (\<lambda>r. r_id r = b_round b) (rounds s)) (\<lambda>r.
     Option.bind (type_of s r) (\<lambda>t. Some (w, c, r, t)))))"

definition game_room :: "db \<Rightarrow> bet_row \<Rightarrow> game_room_row option" where
  "game_room s b = Option.bind (b_room b) (\<lambda>i. lookup (\<lambda>g. gr_id g = i) (game_rooms s))"

definition scanPlacedBet :: "db \<Rightarrow> bet_row \<Rightarrow> error + PlacedBet" where
  "scanPlacedBet s b =
     bindE (orErr (DB NoRows) (bet_joins s b)) (\<lambda>(w, c, r, t).
     bindE (FormatDisplayAmount (b_stake b) (c_decimals c)) (\<lambda>stake.
     bindE (FormatDisplayAmount (b_payout b) (c_decimals c)) (\<lambda>payout.
     Inr \<lparr>pb_id = b_id b, pb_request = b_request b, pb_round = b_round b, pb_account = b_user b, pb_game = gt_code t,
          pb_game_name = gt_name t, pb_sequence = r_seq r, pb_currency = w_currency w, pb_room = text_of (b_room b),
          pb_room_code = (case game_room s b of None \<Rightarrow> [] | Some g \<Rightarrow> gr_code g),
          pb_room_name = (case game_room s b of None \<Rightarrow> [] | Some g \<Rightarrow> gr_name g), pb_mode = mode_of b,
          pb_selection = b_selection b, pb_stake = b_stake b, pb_mult = or_zero (b_mult b), pb_div = or_zero (b_div b),
          pb_rate = formatPayoutRate (or_zero (b_mult b)) (or_zero (b_div b)), pb_status = status_text (b_status b),
          pb_payout = b_payout b, pb_after_bet = debit_after s b, pb_after_refund = None, pb_after_settlement = b_after b,
          pb_placed = b_created b, pb_settled = b_settled b, pb_decimals = c_decimals c, pb_stake_text = stake,
          pb_payout_text = payout, pb_count = b_count b,
          pb_last = (case b_last b of None \<Rightarrow> b_created b | Some t \<Rightarrow> t)\<rparr>)))"

definition avatar_url :: "user_row \<Rightarrow> string" where
  "avatar_url u =
     (case u_avatar u of
        None \<Rightarrow> []
      | Some a \<Rightarrow> if has_prefix a ''uploads/''
                  then ''/v1/avatars/'' @ format_int (u_public_id u) @ ''?v='' @ last (split_all (CHR ''/'') a)
                  else a)"

definition scanPublicBet :: "db \<Rightarrow> bet_row \<Rightarrow> error + PublicBet" where
  "scanPublicBet s b =
     bindE (orErr (DB NoRows) (user_by_id s (b_user b))) (\<lambda>u.
     bindE (scanPlacedBet s b) (\<lambda>p.
     Inr \<lparr>pub_bet = p\<lparr>pb_request := [], pb_account := [], pb_after_bet := None, pb_after_settlement := None\<rparr>,
          pub_player = \<lparr>pl_user = u_public_id u, pl_name = u_name u, pl_avatar = avatar_url u, pl_virtual = u_virtual u\<rparr>\<rparr>))"

definition bet_by_id :: "db \<Rightarrow> string \<Rightarrow> bet_row option" where
  "bet_by_id s i = lookup (\<lambda>b. b_id b = i) (bets s)"

definition bet_Find :: "string \<Rightarrow> db \<Rightarrow> error + PlacedBet" where
  "bet_Find i s =
     (case bindE (orErr (DB NoRows) (bet_by_id s i)) (scanPlacedBet s) of
        Inl e \<Rightarrow> Inl (if e = DB NoRows then Betting ErrBetNotFound else e)
      | Inr p \<Rightarrow> Inr p)"

definition page_limit :: "int \<Rightarrow> nat" where
  "page_limit limit = (if limit \<le> 0 \<or> limit > 100 then 50 else nat limit)"

text \<open>Pages of the listings: newest first, by \<^verbatim>\<open>created_at\<close> and \<^verbatim>\<open>id\<close>.\<close>

definition newest_page :: "int \<Rightarrow> int \<Rightarrow> bet_row list \<Rightarrow> bet_row list" where
  "newest_page limit offset bs =
     take (page_limit limit) (drop (nat (max 0 offset)) (rev (sort_key b_created (sort_key (\<lambda>b. map code (b_id b)) bs))))"

fun scan_all :: "('a \<Rightarrow> error + 'b) \<Rightarrow> 'a list \<Rightarrow> error + 'b list" where
  "scan_all f [] = Inr []"
| "scan_all f (x # xs) = bindE (f x) (\<lambda>y. bindE (scan_all f xs) (\<lambda>ys. Inr (y # ys)))"

definition ListUserBets :: "string \<Rightarrow> string \<Rightarrow> string list \<Rightarrow> int \<Rightarrow> int \<Rightarrow> db \<Rightarrow> error + PlacedBet list" where
  "ListUserBets user status statuses limit offset s =
     scan_all (scanPlacedBet s) (newest_page limit offset (filter (\<lambda>b. b_user b = user \<and> bet_joins s b \<noteq> None
        \<and> (if status \<noteq> [] then status_text (b_status b) = status
           else statuses = [] \<or> status_text (b_status b) \<in> set statuses)) (bets s)))"

record PublicBetQuery =
  q_game :: string
  q_currency :: string
  q_status :: string
  q_player :: string
  q_limit :: int
  q_offset :: int

definition ListPublicBets :: "PublicBetQuery \<Rightarrow> db \<Rightarrow> error + PublicBet list" where
  "ListPublicBets q s =
     (let currency = to_upper (trim_space (q_currency q)); game = trim_space (q_game q); status = trim_space (q_status q);
          player = (if trim_space (q_player q) = [] then ''all'' else trim_space (q_player q))
      in scan_all (scanPublicBet s) (newest_page (q_limit q) (q_offset q) (filter (\<lambda>b.
           (case (user_by_id s (b_user b), bet_joins s b) of
              (Some u, Some (w, c, r, t)) \<Rightarrow>
                (game = [] \<or> gt_code t = game) \<and> (currency = [] \<or> w_currency w = currency)
                \<and> (status = [] \<or> status_text (b_status b) = status)
                \<and> (player = ''all'' \<or> (player = ''real'' \<and> \<not> u_virtual u) \<or> (player = ''virtual'' \<and> u_virtual u))
            | _ \<Rightarrow> False)) (bets s))))"

section \<open>lulu_maintenance.go\<close>

definition luluPrimeTime :: "int \<Rightarrow> bool" where
  "luluPrimeTime now \<longleftrightarrow> beijing_hour now = 20"

definition luluXDYRestrictedPlays :: "int \<Rightarrow> string list" where
  "luluXDYRestrictedPlays now = (if luluPrimeTime now then [''direct'', ''up_down'', ''left_right''] else [])"

section \<open>Repeated requests\<close>

definition request_matches :: "PlaceBetRequest \<Rightarrow> placement_row \<Rightarrow> bool" where
  "request_matches q p \<longleftrightarrow> p_round p = BetRoundID q \<and> p_currency p = BetCurrency q \<and> p_room p = nullif (GameRoomID q)
     \<and> text_of (p_mode p) = PlayMode q \<and> map_option jsonb (Selection q) = Some (p_selection p) \<and> p_stake p = StakeMinor q
     \<and> p_robot p = nullif (RobotPlanID q)"

definition placement_of :: "db \<Rightarrow> string \<Rightarrow> string \<Rightarrow> placement_row option" where
  "placement_of s user request = lookup (\<lambda>p. p_user p = user \<and> p_request p = request) (placements s)"

definition findPlacement :: "PlaceBetRequest \<Rightarrow> db \<Rightarrow> error + PlacedBet" where
  "findPlacement q s =
     bindE (orErr (DB NoRows) (placement_of s (BetAccountID q) (ClientRequestID q))) (\<lambda>p.
     if \<not> request_matches q p then Inl (Betting ErrRequestConflict)
     else bindE (orErr (DB NoRows) (bet_by_id s (p_bet p))) (\<lambda>b.
          bindE (scanPlacedBet s b) (\<lambda>x. Inr (x\<lparr>pb_request := ClientRequestID q\<rparr>))))"

definition findBet :: "string \<Rightarrow> string \<Rightarrow> db \<Rightarrow> error + PlacedBet" where
  "findBet account request s =
     bindE (orErr (DB NoRows) (lookup (\<lambda>b. b_user b = account \<and> b_request b = request) (bets s))) (scanPlacedBet s)"

definition cancelledBetResult :: "string \<Rightarrow> string \<Rightarrow> string \<Rightarrow> db \<Rightarrow> error + PlacedBet" where
  "cancelledBetResult user request betID s =
     bindE (findBet user request s) (\<lambda>p.
     bindE (orErr (DB NoRows) (lookup (\<lambda>e. l_btype e = ''bet_cancel'' \<and> l_bid e = betID \<and> l_etype e = ''bet_refund'') (ledger s))) (\<lambda>e.
     Inr (p\<lparr>pb_after_refund := Some (l_after e)\<rparr>)))"

section \<open>What a request must satisfy\<close>

definition sharedHashRules :: "Rules \<Rightarrow> bool" where
  "sharedHashRules rules \<longleftrightarrow> Option.bind (Extras rules) (field ''hash_shared'' dec_bool False) = Some True"

definition validHashSelection :: "string \<Rightarrow> json option \<Rightarrow> bool" where
  "validHashSelection mode raw =
     (case decode_pick raw of
        None \<Rightarrow> False
      | Some pick \<Rightarrow>
          if mode = ''guess'' \<or> mode = ''dodge'' then length pick = 1 \<and> is_digit (hd pick)
          else if mode = ''road'' then pick \<in> {''big'', ''small'', ''odd'', ''even''}
          else False)"

definition place_normalize :: "PlaceBetRequest \<Rightarrow> PlaceBetRequest" where
  "place_normalize q = q\<lparr>BetCurrency := to_upper (trim_space (BetCurrency q)), PlayMode := to_lower (trim_space (PlayMode q))\<rparr>"

text \<open>The account, and the round with its rules.\<close>

definition check_account :: "bool \<Rightarrow> user_row \<Rightarrow> error + unit" where
  "check_account requireRobot u =
     (if requireRobot \<and> \<not> u_virtual u then Inl (Betting ErrBettingBanned)
      else if u_status u = ''disabled'' then Inl (Betting ErrAccountDisabled)
      else if u_status u = ''bet_banned'' then Inl (Betting ErrBettingBanned)
      else Inr ())"

definition check_round :: "PlaceBetRequest \<Rightarrow> db \<Rightarrow> error + (round_row \<times> game_type_row \<times> Rules)" where
  "check_round q s =
     bindE (orErr (Betting BetRoundNotFound) (lookup (\<lambda>r. r_id r = BetRoundID q) (rounds s))) (\<lambda>r.
     bindE (orErr (Betting BetRoundNotFound) (type_of s r)) (\<lambda>t.
     if r_status r \<noteq> RoundOpen \<or> \<not> clock s < r_closes r then Inl (Game ErrBettingClosed)
     else bindE (ParseRules (Some (gt_rules t))) (\<lambda>rules.
     if gt_code t = ''lulu-xdy'' \<and> PlayMode q \<in> set (luluXDYRestrictedPlays (clock s)) then Inl (Betting ErrLuluXDYBettingClosed)
     else if Source rules = ''lulu_ws'' then
       if list_ex (\<lambda>p. r_type p = r_type r \<and> r_seq p > r_seq r \<and> unfinished p) (rounds s)
       then Inl (Game ErrBettingClosed) else Inr (r, t, rules)
     else if list_ex (\<lambda>p. r_type p = r_type r \<and> r_seq p < r_seq r \<and> unfinished p) (rounds s)
       then Inl (Game ErrBettingClosed) else Inr (r, t, rules))))"

definition different_room :: "PlaceBetRequest \<Rightarrow> db \<Rightarrow> bool" where
  "different_room q s \<longleftrightarrow> list_ex (\<lambda>b. b_round b = BetRoundID q \<and> b_user b = BetAccountID q \<and> b_status b = BetAccepted
     \<and> b_room b \<noteq> Some (GameRoomID q)) (bets s)"

text \<open>The room serves the game and is enabled. Pairs of \<^verbatim>\<open>game_room_types\<close> are room and game type.\<close>

definition room_serves :: "db \<Rightarrow> string \<Rightarrow> string \<Rightarrow> bool" where
  "room_serves s room gtype \<longleftrightarrow> (room, gtype) \<in> set (game_room_types s)
     \<and> list_ex (\<lambda>g. gr_id g = room \<and> gr_enabled g) (game_rooms s)"

text \<open>SQL's \<^verbatim>\<open>=\<close> of two texts that may be NULL.\<close>

definition same_pick :: "json \<Rightarrow> json \<Rightarrow> bool" where
  "same_pick a b \<longleftrightarrow> json_text a ''pick'' \<noteq> None \<and> json_text a ''pick'' = json_text b ''pick''"

definition existing_stake :: "PlaceBetRequest \<Rightarrow> json \<Rightarrow> db \<Rightarrow> int" where
  "existing_stake q sel s = sum_list (map b_stake (filter (\<lambda>b. b_round b = BetRoundID q \<and> b_user b = BetAccountID q
     \<and> b_room b = Some (GameRoomID q) \<and> b_mode b = Some (PlayMode q) \<and> same_pick (b_selection b) (jsonb sel)
     \<and> b_status b = BetAccepted \<and> wallet_currency s (b_wallet b) = BetCurrency q) (bets s)))"

definition hash_odds :: "string \<Rightarrow> hash_config_row \<Rightarrow> int \<times> int \<times> int" where
  "hash_odds mode c =
     (if mode = ''guess'' then (hc_guess_max c, hc_guess_mult c, hc_guess_div c)
      else if mode = ''dodge'' then (hc_dodge_max c, hc_dodge_mult c, hc_dodge_div c)
      else (hc_road_max c, hc_road_mult c, hc_road_div c))"

text \<open>The three kinds of play, each giving the odds that are frozen with the bet.\<close>

definition hash_terms :: "PlaceBetRequest \<Rightarrow> json \<Rightarrow> round_row \<Rightarrow> db \<Rightarrow> error + (int \<times> int)" where
  "hash_terms q sel r s =
     (if GameRoomID q = [] \<or> \<not> validHashSelection (PlayMode q) (Some sel) then Inl (Betting ErrHashRoomRequired)
      else if \<not> room_serves s (GameRoomID q) (r_type r) then Inl (Betting ErrHashRoomRequired)
      else bindE (orErr (Betting ErrHashRoomRequired)
             (lookup (\<lambda>c. hc_room c = GameRoomID q \<and> hc_currency c = BetCurrency q) (hash_configs s))) (\<lambda>c.
      case hash_odds (PlayMode q) c of (maxStake, multiplier, divisor) \<Rightarrow>
        if StakeMinor q < hc_min c then Inl (Betting ErrStakeOutsideLimits)
        else if different_room q s then Inl (Betting ErrHashRoomConflict)
        else let existing = existing_stake q sel s in
          if \<not> int64 existing then Inl (DB OutOfRange)
          else if existing > max_int64 - StakeMinor q \<or> existing + StakeMinor q > maxStake then Inl (Betting ErrStakeOutsideLimits)
          else Inr (multiplier, divisor)))"

definition price_of :: "lulu_price_row list \<Rightarrow> PlaceBetRequest \<Rightarrow> string \<Rightarrow> lulu_price_row option" where
  "price_of prices q gtype = lookup (\<lambda>c. lc_type c = gtype \<and> lc_room c = GameRoomID q \<and> lc_play c = PlayMode q
     \<and> lc_currency c = BetCurrency q) prices"

definition lulu_terms :: "PlaceBetRequest \<Rightarrow> json \<Rightarrow> round_row \<Rightarrow> game_type_row \<Rightarrow> db \<Rightarrow> error + (int \<times> int)" where
  "lulu_terms q sel r t s =
     (if GameRoomID q = [] \<or> PlayMode q = [] then Inl (Betting ErrHashRoomRequired)
      else if \<not> room_serves s (GameRoomID q) (r_type r) then Inl (Betting ErrHashRoomRequired)
      else bindE (orErr (Betting ErrHashRoomRequired)
             (lookup (\<lambda>p. lp_type p = r_type r \<and> lp_code p = PlayMode q \<and> lp_enabled p) (lulu_plays s))) (\<lambda>p.
      bindE (orErr (Betting ErrHashRoomRequired) (price_of (lulu_prices s) q (r_type r))) (\<lambda>daily.
      bindE (if gt_code t = ''lulu-xdy'' \<and> luluPrimeTime (clock s) then
               (case price_of (prime_prices s) q (r_type r) of
                  None \<Rightarrow> Inl (Betting ErrLuluXDYBettingClosed)
                | Some c \<Rightarrow> if \<not> lc_on c then Inl (Betting ErrLuluXDYBettingClosed) else Inr c)
             else Inr daily) (\<lambda>c.
      case (decode_strings (Some (lp_outcomes p)), dec_map (dec_slice dec_string []) [] (lp_result_map p) []) of
        (Some outcomes, Some results) \<Rightarrow>
          if \<not> lulu_SelectionAllowed \<lparr>PlayCode = [], PlayOutcomes = outcomes, PlayResultMap = results, PlayDodge = lp_dodge p\<rparr> sel
          then Inl (Betting ErrSelectionOutsidePlay)
          else if StakeMinor q < lc_min c \<or> StakeMinor q > lc_max c then Inl (Betting ErrStakeOutsideLimits)
          else if different_room q s then Inl (Betting ErrHashRoomConflict)
          else Inr (lc_mult c, lc_div c)
      | _ \<Rightarrow> Inl (Betting ErrSelectionOutsidePlay)))))"

definition plain_terms :: "PlaceBetRequest \<Rightarrow> json \<Rightarrow> Rules \<Rightarrow> error + (int \<times> int)" where
  "plain_terms q sel rules =
     (if \<not> SelectionAllowed rules sel then Inl (Betting ErrSelectionOutsidePlay)
      else case map_of (BetLimits rules) (BetCurrency q) of
        Some limit \<Rightarrow>
          if StakeMinor q < MinStakeMinor limit \<or> StakeMinor q > MaxStakeMinor limit then Inl (Betting ErrStakeOutsideLimits)
          else Inr (PayoutMultiplier rules, PayoutScale rules)
      | None \<Rightarrow> Inr (PayoutMultiplier rules, PayoutScale rules))"

definition play_terms :: "PlaceBetRequest \<Rightarrow> json \<Rightarrow> round_row \<Rightarrow> game_type_row \<Rightarrow> Rules \<Rightarrow> db \<Rightarrow> error + (int \<times> int)" where
  "play_terms q sel r t rules s =
     (if sharedHashRules rules then hash_terms q sel r s
      else if sharedLuluRules rules then lulu_terms q sel r t s
      else plain_terms q sel rules)"


section \<open>Placing a bet\<close>

definition public_payload :: "PublicBet \<Rightarrow> payload" where
  "public_payload x =
     (let p = pub_bet x; u = pub_player x in
      PObj [(''placement_count'', PInt (pb_count p)), (''last_placed_at'', PTime (pb_last p)), (''decimals'', PInt (pb_decimals p)),
        (''stake'', PStr (pb_stake_text p)), (''payout'', PStr (pb_payout_text p)), (''bet_id'', PStr (pb_id p)),
        (''player'', PObj [(''user_id'', PInt (pl_user u)), (''display_name'', PStr (pl_name u)), (''avatar_url'', PStr (pl_avatar u)),
           (''is_virtual'', PBool (pl_virtual u))]),
        (''round_id'', PStr (pb_round p)), (''game_type'', PStr (pb_game p)), (''game_name'', PStr (pb_game_name p)),
        (''round_sequence'', PInt (pb_sequence p)), (''currency'', PStr (pb_currency p)), (''game_room_id'', PStr (pb_room p)),
        (''game_room_code'', PStr (pb_room_code p)), (''game_room_name'', PStr (pb_room_name p)), (''play_mode'', PStr (pb_mode p)),
        (''selection'', PJson (pb_selection p)), (''stake_minor'', PInt (pb_stake p)), (''payout_multiplier'', PInt (pb_mult p)),
        (''payout_divisor'', PInt (pb_div p)), (''payout_rate'', PStr (pb_rate p)), (''status'', PStr (pb_status p)),
        (''payout_minor'', PInt (pb_payout p)), (''placed_at'', PTime (pb_placed p)),
        (''settled_at'', (case pb_settled p of None \<Rightarrow> PNull | Some t \<Rightarrow> PTime t))])"

text \<open>The modes the CHECK constraint of \<^verbatim>\<open>bets.play_mode\<close> admits (\<^verbatim>\<open>migrations/0089\<close>).\<close>

definition stored_modes :: "string list" where
  "stored_modes = [''guess'', ''dodge'', ''road'', ''direct'', ''up_down'', ''left_right'', ''odd_even'', ''winner'']"

text \<open>\<^verbatim>\<open>INSERT INTO bets\<close> with its keys: the id, user and request, plan and round, and one mergeable
  pending order per user, round, wallet, room, mode and selection (\<^verbatim>\<open>migrations/0092\<close>).\<close>

definition mergeable :: "bet_row \<Rightarrow> bet_row \<Rightarrow> bool" where
  "mergeable b c \<longleftrightarrow> b_status c = BetAccepted \<and> b_merge c \<and> b_user c = b_user b \<and> b_round c = b_round b \<and> b_wallet c = b_wallet b
     \<and> b_room c = b_room b \<and> b_mode c = b_mode b \<and> b_selection c = b_selection b"

definition insert_bet :: "bet_row \<Rightarrow> db \<Rightarrow> error + db" where
  "insert_bet b s =
     (if b_stake b \<le> 0 \<or> (case b_mode b of None \<Rightarrow> False | Some m \<Rightarrow> m \<notin> set stored_modes)
         \<or> or_zero (b_mult b) \<le> 0 \<or> or_zero (b_div b) \<le> 0 then Inl (DB Check)
      else if list_ex (\<lambda>c. b_id c = b_id b \<or> (b_user c = b_user b \<and> b_request c = b_request b)
             \<or> (b_robot b \<noteq> None \<and> b_robot c = b_robot b \<and> b_round c = b_round b) \<or> mergeable b c) (bets s) then Inl (DB Unique)
      else if (case b_room b of None \<Rightarrow> False | Some i \<Rightarrow> \<not> list_ex (\<lambda>g. gr_id g = i) (game_rooms s))
             \<or> (case b_robot b of None \<Rightarrow> False | Some i \<Rightarrow> \<not> list_ex (\<lambda>p. rb_id p = i) (robot_plans s)) then Inl (DB ForeignKey)
      else Inr (s\<lparr>bets := bets s @ [b]\<rparr>))"

definition insert_placement :: "placement_row \<Rightarrow> db \<Rightarrow> error + db" where
  "insert_placement p s =
     (if list_ex (\<lambda>x. p_id x = p_id p \<or> (p_user x = p_user p \<and> p_request x = p_request p)
           \<or> (p_robot p \<noteq> None \<and> p_robot x = p_robot p \<and> p_round x = p_round p)) (placements s) then Inl (DB Unique)
      else if (case p_room p of None \<Rightarrow> False | Some i \<Rightarrow> \<not> list_ex (\<lambda>g. gr_id g = i) (game_rooms s))
             \<or> (case p_robot p of None \<Rightarrow> False | Some i \<Rightarrow> \<not> list_ex (\<lambda>x. rb_id x = i) (robot_plans s)) then Inl (DB ForeignKey)
      else Inr (s\<lparr>placements := placements s @ [p]\<rparr>))"

text \<open>The pending order an identical request is added to.\<close>

definition pending_order :: "PlaceBetRequest \<Rightarrow> json \<Rightarrow> string \<Rightarrow> bool \<Rightarrow> db \<Rightarrow> bet_row option" where
  "pending_order q sel wid simulated s =
     lookup (\<lambda>b. b_user b = BetAccountID q \<and> b_round b = BetRoundID q \<and> b_wallet b = wid \<and> b_room b = nullif (GameRoomID q)
        \<and> b_mode b = nullif (PlayMode q) \<and> b_selection b = jsonb sel \<and> b_status b = BetAccepted \<and> b_merge b
        \<and> b_simulated b = simulated) (bets s)"

definition new_bet :: "PlaceBetRequest \<Rightarrow> json \<Rightarrow> string \<Rightarrow> bool \<Rightarrow> int \<times> int \<Rightarrow> string \<Rightarrow> int \<Rightarrow> bet_row" where
  "new_bet q sel wid simulated odds i now =
     \<lparr>b_id = i, b_request = ClientRequestID q, b_round = BetRoundID q, b_user = BetAccountID q, b_wallet = wid,
      b_room = nullif (GameRoomID q), b_mode = nullif (PlayMode q), b_selection = jsonb sel, b_stake = StakeMinor q,
      b_mult = Some (fst odds), b_div = Some (snd odds), b_status = BetAccepted, b_payout = 0, b_after = None,
      b_simulated = simulated, b_robot = nullif (RobotPlanID q), b_rebate_version = 1, b_merge = True, b_count = 1,
      b_created = now, b_last = Some now, b_settled = None\<rparr>"

text \<open>The order row: the pending one with the stake added, or a new one. \<open>fresh\<close> is the id drawn for it.\<close>

definition write_order :: "PlaceBetRequest \<Rightarrow> json \<Rightarrow> string \<Rightarrow> bool \<Rightarrow> int \<times> int \<Rightarrow> string \<Rightarrow> bet_row option \<Rightarrow> db \<Rightarrow> error + db" where
  "write_order q sel wid simulated odds fresh pending s =
     (case pending of
        Some b \<Rightarrow> Inr (set_bet (b_id b) (\<lambda>x. x\<lparr>b_stake := b_stake b + StakeMinor q, b_count := b_count x + 1, b_last := Some (clock s)\<rparr>) s)
      | None \<Rightarrow> insert_bet (new_bet q sel wid simulated odds fresh (clock s)) s)"

definition placement_row_of :: "PlaceBetRequest \<Rightarrow> json \<Rightarrow> string \<Rightarrow> string \<Rightarrow> int \<Rightarrow> placement_row" where
  "placement_row_of q sel i betID now =
     \<lparr>p_id = i, p_bet = betID, p_user = BetAccountID q, p_round = BetRoundID q, p_request = ClientRequestID q,
      p_currency = BetCurrency q, p_room = nullif (GameRoomID q), p_mode = nullif (PlayMode q), p_selection = jsonb sel,
      p_stake = StakeMinor q, p_robot = nullif (RobotPlanID q), p_at = now\<rparr>"

definition debit_ledger :: "string \<Rightarrow> string \<Rightarrow> int \<Rightarrow> int \<Rightarrow> string \<Rightarrow> db \<Rightarrow> error + db" where
  "debit_ledger wid betID stake after placement s =
     (let (i, s) = new_uuid s in
      insert_ledger_row \<lparr>l_id = i, l_wallet = wid, l_btype = ''bet'', l_bid = betID, l_etype = ''bet_debit'', l_amount = - stake,
        l_after = after, l_avail_delta = - stake, l_frozen_delta = 0, l_frozen_after = 0, l_placement = Some placement,
        l_remark = [], l_operator = None, l_at = clock s\<rparr> s)"

definition placed_event :: "string \<Rightarrow> string \<Rightarrow> int \<Rightarrow> db \<Rightarrow> error + db" where
  "placed_event betID placement stake s =
     bindE (orErr (DB NoRows) (bet_by_id s betID)) (\<lambda>b.
     bindE (scanPublicBet s b) (\<lambda>x.
     bindE (FormatDisplayAmount stake (pb_decimals (pub_bet x))) (\<lambda>added.
     insert_outbox ''bet'' betID ''game.bet.placed''
       (PObj [(''bet'', public_payload x), (''placement_id'', PStr placement), (''added_stake'', PStr added)]) s)))"

text \<open>Everything the request writes, once it has passed the checks.\<close>

definition place_writes :: "PlaceBetRequest \<Rightarrow> json \<Rightarrow> Rules \<Rightarrow> int \<times> int \<Rightarrow> wallet_row \<Rightarrow> bool \<Rightarrow> db \<Rightarrow> error + db" where
  "place_writes q sel rules odds w simulated s =
     (let (fresh, s) = new_uuid s;
          pending = pending_order q sel (w_id w) simulated s;
          betID = (case pending of Some b \<Rightarrow> b_id b | None \<Rightarrow> fresh)
      in if (case pending of Some b \<Rightarrow> b_stake b > max_int64 - StakeMinor q | None \<Rightarrow> False) then Inl (Betting ErrStakeOutsideLimits)
      else bindE (if simulated then Inr s else set_available (w_id w) (w_available w - StakeMinor q) s) (\<lambda>s.
      bindE (write_order q sel (w_id w) simulated odds fresh pending s) (\<lambda>s.
      bindE (if (sharedHashRules rules \<or> sharedLuluRules rules) \<and> pending = None
             then bindE (SnapshotTx betID s) (\<lambda>r. Inr (snd r)) else Inr s) (\<lambda>s.
      let (placement, s) = new_uuid s in
      bindE (insert_placement (placement_row_of q sel placement betID (clock s)) s) (\<lambda>s.
      bindE (if simulated then Inr s
             else debit_ledger (w_id w) betID (StakeMinor q) (w_available w - StakeMinor q) placement s) (\<lambda>s.
      placed_event betID placement (StakeMinor q) s))))))"

definition place_new :: "bool \<Rightarrow> PlaceBetRequest \<Rightarrow> json \<Rightarrow> db \<Rightarrow> error + db" where
  "place_new requireRobot q sel s =
     bindE (orErr (DB NoRows) (user_by_id s (BetAccountID q))) (\<lambda>u.
     bindE (check_account requireRobot u) (\<lambda>_.
     bindE (check_round q s) (\<lambda>(r, t, rules).
     bindE (play_terms q sel r t rules s) (\<lambda>odds.
     bindE (orErr (Wallet ErrWalletNotFound) (wallet_of s (BetAccountID q) (BetCurrency q))) (\<lambda>w.
     if \<not> u_virtual u \<and> w_available w < StakeMinor q then Inl (Wallet ErrInsufficientFunds)
     else place_writes q sel rules odds w (u_virtual u) s)))))"

definition placeBetTx :: "bool \<Rightarrow> PlaceBetRequest \<Rightarrow> PlacedBet tx" where
  "placeBetTx requireRobot request s =
     (let q = place_normalize request in
      if StakeMinor q \<le> 0 then Inl (Game ErrInvalidStake)
      else case Selection q of
        None \<Rightarrow> Inl (Betting ErrInvalidSelection)
      | Some sel \<Rightarrow>
          (case findPlacement q s of
             Inr p \<Rightarrow> Inr (p, s)
           | Inl e \<Rightarrow>
               if e \<noteq> DB NoRows then Inl e
               else bindE (place_new requireRobot q sel s) (\<lambda>s.
                    bindE (findPlacement q s) (\<lambda>p. Inr (p, s)))))"

definition PlaceBet :: "PlaceBetRequest \<Rightarrow> PlacedBet tx" where
  "PlaceBet request = placeBetTx False request"

definition PlaceRobotBetTx :: "PlaceBetRequest \<Rightarrow> PlacedBet tx" where
  "PlaceRobotBetTx request = placeBetTx True request"

section \<open>Cancelling a bet\<close>

definition cancelled_row :: "int \<Rightarrow> int \<Rightarrow> bet_row \<Rightarrow> bet_row" where
  "cancelled_row now after b = b\<lparr>b_status := BetCancelled, b_settled := Some now, b_after := Some after\<rparr>"

definition cancel_event :: "string \<Rightarrow> db \<Rightarrow> error + db" where
  "cancel_event betID s =
     bindE (orErr (DB NoRows) (bet_by_id s betID)) (\<lambda>b.
     bindE (scanPublicBet s b) (\<lambda>x.
     insert_outbox ''bet'' betID ''game.bet.cancelled'' (PObj [(''bet'', public_payload x)]) s))"

definition CancelBet :: "string \<Rightarrow> string \<Rightarrow> PlacedBet tx" where
  "CancelBet betID userID s =
     bindE (orErr (Betting ErrBetNotFound) (lookup (\<lambda>b. b_id b = betID \<and> b_user b = userID) (bets s))) (\<lambda>b.
     bindE (orErr (Betting ErrBetNotFound) (wallet_by_id s (b_wallet b))) (\<lambda>w.
     bindE (orErr (Betting ErrBetNotFound) (lookup (\<lambda>r. r_id r = b_round b) (rounds s))) (\<lambda>r.
     if b_simulated b then
       bindE (if b_status b = BetAccepted \<and> clock s < r_closes r
              then cancel_event betID (set_bet betID (cancelled_row (clock s) (w_available w)) s)
              else if b_status b \<noteq> BetCancelled then Inl (Betting ErrBetCancellationClosed)
              else Inr s) (\<lambda>s.
       bindE (findBet userID (b_request b) s) (\<lambda>p. Inr (p, s)))
     else if b_status b = BetCancelled then
       bindE (cancelledBetResult (b_user b) (b_request b) betID s) (\<lambda>p. Inr (p, s))
     else if b_status b \<noteq> BetAccepted \<or> \<not> clock s < r_closes r then Inl (Betting ErrBetCancellationClosed)
     else if w_available w > wrap64 (max_int64 - b_stake b) then Inl (Betting CancelRefundOverflow)
     else let after = wrap64 (w_available w + b_stake b) in
       bindE (set_available (w_id w) after s) (\<lambda>s.
       bindE (insert_ledger (w_id w) ''bet_cancel'' betID ''bet_refund'' (b_stake b) after
                (set_bet betID (cancelled_row (clock s) after) s)) (\<lambda>s.
       bindE (cancel_event betID s) (\<lambda>s.
       bindE (cancelledBetResult userID (b_request b) betID s) (\<lambda>p. Inr (p, s))))))))"


section \<open>What placing writes\<close>

text \<open>The order a request ends up in: a pending order grown by the stake, or a new one.\<close>

definition grown_order :: "PlaceBetRequest \<Rightarrow> bet_row \<Rightarrow> int \<Rightarrow> bet_row \<Rightarrow> bet_row" where
  "grown_order q b now x = x\<lparr>b_stake := b_stake b + StakeMinor q, b_count := b_count x + 1, b_last := Some now\<rparr>"

definition order_added :: "PlaceBetRequest \<Rightarrow> int \<times> int \<Rightarrow> bool \<Rightarrow> string \<Rightarrow> db \<Rightarrow> db \<Rightarrow> bool" where
  "order_added q odds simulated betID s s' \<longleftrightarrow>
     (\<exists>b \<in> set (bets s). b_id b = betID \<and> b_status b = BetAccepted \<and> b_user b = BetAccountID q \<and> b_round b = BetRoundID q
        \<and> b_simulated b = simulated \<and> b_merge b \<and> b_stake b + StakeMinor q \<le> max_int64
        \<and> bets s' = modify (\<lambda>x. b_id x = betID) (grown_order q b (clock s)) (bets s))
   \<or> ((\<forall>b \<in> set (bets s). b_id b \<noteq> betID)
      \<and> (\<exists>n. bets s' = bets s @ [n] \<and> b_id n = betID \<and> b_status n = BetAccepted \<and> b_user n = BetAccountID q
            \<and> b_round n = BetRoundID q \<and> b_simulated n = simulated \<and> b_mult n = Some (fst odds) \<and> b_div n = Some (snd odds)
            \<and> b_request n = ClientRequestID q \<and> b_settled n = None \<and> b_stake n = StakeMinor q \<and> b_count n = 1 \<and> b_payout n = 0
            \<and> b_wallet n \<in> w_id ` set (wallets s)))"

text \<open>Tables a request never touches, and those it only appends to.\<close>

definition placed_frame :: "db \<Rightarrow> db \<Rightarrow> bool" where
  "placed_frame s s' \<longleftrightarrow> clock s' = clock s \<and> rounds s' = rounds s \<and> users s' = users s \<and> game_types s' = game_types s
     \<and> currencies s' = currencies s \<and> commissions s' = commissions s \<and> robot_plans s' = robot_plans s \<and> map w_id (wallets s') = map w_id (wallets s)"

lemma placed_frame_refl [simp]: "placed_frame s s"
  by (simp add: placed_frame_def)

lemma placed_frame_trans: "placed_frame s t \<Longrightarrow> placed_frame t u \<Longrightarrow> placed_frame s u"
  by (simp add: placed_frame_def)

lemma money_only_placed: "money_only s s' \<Longrightarrow> map w_id (wallets s') = map w_id (wallets s) \<Longrightarrow> placed_frame s s'"
  by (simp add: placed_frame_def money_onlyD)

lemma SnapshotTx_frame:
  assumes "SnapshotTx i s = Inr (u, s')"
  shows "placed_frame s s' \<and> wallets s' = wallets s \<and> ledger s' = ledger s \<and> placements s' = placements s
    \<and> bets s' = modify (\<lambda>b. b_id b = i) (\<lambda>b. b\<lparr>b_rebate_version := 2\<rparr>) (bets s)"
  using assms by (auto simp: SnapshotTx_def insert_snapshot_def bindE_eq_Inr placed_frame_def split: if_splits)

lemma placed_event_frame:
  assumes "placed_event i p stake s = Inr s'"
  shows "money_only s s' \<and> wallets s' = wallets s \<and> ledger s' = ledger s"
proof -
  obtain v where "insert_outbox ''bet'' i ''game.bet.placed'' v s = Inr s'"
    using assms unfolding placed_event_def bindE_eq_Inr by blast
  then show ?thesis by (rule insert_outbox_money_only)
qed

lemma debit_ledger_Inr:
  assumes "debit_ledger wid betID stake after p s = Inr s'"
  obtains w e where "wallet_by_id s wid = Some w" "ledger s' = ledger s @ [e]" "l_wallet e = wid" "l_btype e = ''bet''" "l_bid e = betID"
    "l_etype e = ''bet_debit''" "l_amount e = - stake" "l_after e = after" "l_avail_delta e = - stake" "l_frozen_delta e = 0"
    "l_frozen_after e = w_frozen w" "l_placement e = Some p" "wallets s' = wallets s" "money_only s s'"
proof -
  let ?t = "s\<lparr>next_uuid := Suc (next_uuid s)\<rparr>"
  obtain e where i: "insert_ledger_row e ?t = Inr s'" and e: "l_wallet e = wid" "l_btype e = ''bet''" "l_bid e = betID"
    "l_etype e = ''bet_debit''" "l_amount e = - stake" "l_after e = after" "l_avail_delta e = - stake" "l_frozen_delta e = 0" "l_placement e = Some p"
    using assms unfolding debit_ledger_def by (auto simp: new_uuid_def Let_def)
  obtain w ev where w: "wallet_by_id ?t (l_wallet e) = Some w"
    and s': "s' = ?t\<lparr>next_uuid := Suc (next_uuid ?t), ledger := ledger ?t @ [e\<lparr>l_frozen_after := w_frozen w\<rparr>], outbox := outbox ?t @ [ev]\<rparr>"
    using i by (rule insert_ledger_row_Inr)
  show thesis
    by (rule that [of w "e\<lparr>l_frozen_after := w_frozen w\<rparr>"]) (use w s' e in \<open>simp_all add: money_only_def\<close>)
qed

lemma insert_placement_Inr:
  "insert_placement p s = Inr s' \<Longrightarrow> s' = s\<lparr>placements := placements s @ [p]\<rparr>
     \<and> (\<forall>x \<in> set (placements s). p_id x \<noteq> p_id p \<and> \<not> (p_user x = p_user p \<and> p_request x = p_request p))"
  by (auto simp: insert_placement_def list_ex_iff split: if_splits)

text \<open>The first half: wallet and order.\<close>

lemma write_order_Inr:
  assumes "write_order q sel wid simulated odds fresh (pending_order q sel wid simulated s) s1 = Inr s2"
    and "bets s1 = bets s" "clock s1 = clock s" "w \<in> set (wallets s)" "w_id w = wid"
    and "\<not> (case pending_order q sel wid simulated s of Some b \<Rightarrow> b_stake b > max_int64 - StakeMinor q | None \<Rightarrow> False)"
  defines "betID \<equiv> (case pending_order q sel wid simulated s of Some b \<Rightarrow> b_id b | None \<Rightarrow> fresh)"
  shows "order_added q odds simulated betID s s2 \<and> wallets s2 = wallets s1 \<and> ledger s2 = ledger s1 \<and> placements s2 = placements s1 \<and> placed_frame s1 s2
    \<and> (pending_order q sel wid simulated s = None \<longrightarrow> (\<forall>b \<in> set (bets s). b_id b \<noteq> betID))"
proof (cases "pending_order q sel wid simulated s")
  case (Some b)
  then have b: "b \<in> set (bets s)" "b_user b = BetAccountID q" "b_round b = BetRoundID q" "b_status b = BetAccepted"
    "b_simulated b = simulated" "b_merge b"
    by (auto simp: pending_order_def dest: lookup_SomeD)
  have "s2 = set_bet (b_id b) (grown_order q b (clock s)) s1"
    using assms(1,3) Some by (simp add: write_order_def grown_order_def [abs_def])
  then show ?thesis using b Some assms(2,6)
    by (auto simp: order_added_def betID_def placed_frame_def set_bet_def intro!: bexI [of _ b])
next
  case None
  then have s2: "insert_bet (new_bet q sel wid simulated odds fresh (clock s)) s1 = Inr s2"
    using assms(1,3) by (simp add: write_order_def)
  then have "s2 = s1\<lparr>bets := bets s @ [new_bet q sel wid simulated odds fresh (clock s)]\<rparr>" "\<forall>b \<in> set (bets s). b_id b \<noteq> fresh"
    using assms(2) by (auto simp: insert_bet_def list_ex_iff new_bet_def split: if_splits)
  then show ?thesis using None assms(4,5) by (auto simp: order_added_def betID_def placed_frame_def new_bet_def)
qed

lemma modify_append_new: "\<forall>b \<in> set bs. k b \<noteq> i \<Longrightarrow> modify (\<lambda>b. k b = i) g (bs @ [n]) = bs @ [if k n = i then g n else n]"
  by (induction bs) auto

lemma order_added_snapshot:
  assumes "order_added q odds simulated i s t" "pending = None \<longrightarrow> (\<forall>b \<in> set (bets s). b_id b \<noteq> i)" "clock t = clock s"
    and "bets u = modify (\<lambda>b. b_id b = i) (\<lambda>b. b\<lparr>b_rebate_version := 2\<rparr>) (bets t)" "pending = None"
  shows "order_added q odds simulated i s u"
  using assms modify_append_new [of "bets s" b_id i] unfolding order_added_def by fastforce



lemma snapshot_if:
  assumes "(if c \<and> pending = None then bindE (SnapshotTx i t) (\<lambda>r. Inr (snd r)) else Inr t) = Inr u"
    and "order_added q odds simulated i s t" "pending = None \<longrightarrow> (\<forall>b \<in> set (bets s). b_id b \<noteq> i)" "clock t = clock s"
  shows "order_added q odds simulated i s u \<and> placed_frame t u \<and> wallets u = wallets t \<and> ledger u = ledger t \<and> placements u = placements t"
proof (cases "c \<and> pending = None")
  case True
  then obtain r where r: "SnapshotTx i t = Inr (r, u)" using assms(1) by (auto simp: bindE_eq_Inr)
  show ?thesis using SnapshotTx_frame [OF r] order_added_snapshot [OF assms(2,3,4)] True by blast
next
  case False
  then show ?thesis using assms by auto
qed

text \<open>Everything a request writes.\<close>

definition placed_with :: "PlaceBetRequest \<Rightarrow> json \<Rightarrow> int \<times> int \<Rightarrow> wallet_row \<Rightarrow> bool \<Rightarrow> string \<Rightarrow> string \<Rightarrow> db \<Rightarrow> db \<Rightarrow> bool" where
  "placed_with q sel odds w simulated betID placement s s' \<longleftrightarrow>
     placements s' = placements s @ [placement_row_of q sel placement betID (clock s)]
     \<and> (\<forall>p \<in> set (placements s). p_id p \<noteq> placement \<and> \<not> (p_user p = BetAccountID q \<and> p_request p = ClientRequestID q))
     \<and> order_added q odds simulated betID s s' \<and> placed_frame s s'
     \<and> (if simulated then wallets s' = wallets s \<and> ledger s' = ledger s
        else 0 \<le> w_available w - StakeMinor q \<and> moved s w (w_available w - StakeMinor q) ''bet'' betID ''bet_debit'' s')"

lemma debit_moved:
  assumes "wallets_ok s" "wallet_by_id s (w_id w) = Some w" "set_available (w_id w) (w_available w - stake) s = Inr s1"
    and "wallets s2 = wallets s1" "ledger s2 = ledger s1"
    and "debit_ledger (w_id w) betID stake (w_available w - stake) p s2 = Inr s3"
  shows "0 \<le> w_available w - stake \<and> moved s w (w_available w - stake) ''bet'' betID ''bet_debit'' s3"
proof -
  have s1: "0 \<le> w_available w - stake" "s1 = wallet_update (w_id w) (w_available w - stake) (w_frozen w) s"
    using set_available_Inr [OF assms(1-3)] by simp_all
  obtain u e where u: "wallet_by_id s2 (w_id w) = Some u" and e: "ledger s3 = ledger s2 @ [e]" "l_wallet e = w_id w" "l_btype e = ''bet''"
    "l_bid e = betID" "l_etype e = ''bet_debit''" "l_amount e = - stake" "l_after e = w_available w - stake" "l_avail_delta e = - stake"
    "l_frozen_delta e = 0" "l_frozen_after e = w_frozen u" "wallets s3 = wallets s2"
    using assms(6) by (rule debit_ledger_Inr)
  have "w_frozen u = w_frozen w"
    using u wallet_by_id_update [OF assms(2), of "w_available w - stake" "w_frozen w" "w_id w"] wallet_by_id_cong [OF assms(4)] s1(2) by auto
  then show ?thesis using e s1 assms(4,5) by (simp add: moved_def)
qed


lemma place_writes_Inr:
  assumes "wallets_ok s" "wallet_by_id s (w_id w) = Some w" "place_writes q sel rules odds w simulated s = Inr s'"
  shows "\<exists>betID placement. placed_with q sel odds w simulated betID placement s s'"
proof -
  let ?s0 = "s\<lparr>next_uuid := Suc (next_uuid s)\<rparr>"
  let ?fresh = "uuids s (next_uuid s)"
  let ?pending = "pending_order q sel (w_id w) simulated ?s0"
  let ?id = "case ?pending of Some b \<Rightarrow> b_id b | None \<Rightarrow> ?fresh"
  let ?v = "w_available w - StakeMinor q"
  from assms(3) obtain s1 s2 s3 s5 s6 where
        lim: "\<not> (case ?pending of Some b \<Rightarrow> b_stake b > max_int64 - StakeMinor q | None \<Rightarrow> False)"
    and av: "(if simulated then Inr ?s0 else set_available (w_id w) ?v ?s0) = Inr s1"
    and wo: "write_order q sel (w_id w) simulated odds ?fresh ?pending s1 = Inr s2"
    and sn: "(if (sharedHashRules rules \<or> sharedLuluRules rules) \<and> ?pending = None
              then bindE (SnapshotTx ?id s2) (\<lambda>r. Inr (snd r)) else Inr s2) = Inr s3"
    and pl: "insert_placement (placement_row_of q sel (uuids s3 (next_uuid s3)) ?id (clock s3)) (s3\<lparr>next_uuid := Suc (next_uuid s3)\<rparr>) = Inr s5"
    and db: "(if simulated then Inr s5 else debit_ledger (w_id w) ?id (StakeMinor q) ?v (uuids s3 (next_uuid s3)) s5) = Inr s6"
    and ev: "placed_event ?id (uuids s3 (next_uuid s3)) (StakeMinor q) s6 = Inr s'"
    unfolding place_writes_def new_uuid_def Let_def prod.case bindE_eq_Inr if_Inl_eq_Inr by auto
  have f1: "bets s1 = bets s" "clock s1 = clock s" "ledger s1 = ledger s" "placements s1 = placements s" "placed_frame s s1"
    "simulated \<Longrightarrow> wallets s1 = wallets s"
    using av set_available_money_only [of "w_id w" ?v ?s0 s1] set_available_ids [of "w_id w" ?v ?s0 s1]
    by (auto simp: placed_frame_def money_onlyD split: if_splits)
  have f2: "order_added q odds simulated ?id ?s0 s2" "wallets s2 = wallets s1" "ledger s2 = ledger s1" "placements s2 = placements s1" "placed_frame s1 s2"
    "?pending = None \<longrightarrow> (\<forall>b \<in> set (bets ?s0). b_id b \<noteq> ?id)"
    using write_order_Inr [OF wo, of w] f1 lim wallet_by_id_mem [OF assms(2)] by auto
  have c2: "clock s2 = clock ?s0" using f1(5) f2(5) by (simp add: placed_frame_def)
  note f3 = snapshot_if [OF sn f2(1) f2(6) c2]
  note p = insert_placement_Inr [OF pl]
  have f5: "bets s5 = bets s3" "wallets s5 = wallets s3" "ledger s5 = ledger s3" "placed_frame s3 s5" using p by (simp_all add: placed_frame_def)
  have f6: "bets s6 = bets s5" "placements s6 = placements s5" "placed_frame s5 s6" "simulated \<Longrightarrow> wallets s6 = wallets s5 \<and> ledger s6 = ledger s5"
    using db by (auto simp: money_onlyD placed_frame_def split: if_splits elim!: debit_ledger_Inr)
  note f7 = placed_event_frame [OF ev]
  have p7: "placements s' = placements s6" "bets s' = bets s6" using money_onlyD [OF conjunct1 [OF f7]] by blast+
  have fr: "placed_frame s s6" using f1(5) f2(5) f3 f5(4) f6(3) placed_frame_trans by blast
  then have "placed_frame s s'" using f7 money_only_placed placed_frame_trans by metis
  moreover have "clock s3 = clock s" using f1(5) f2(5) f3 by (simp add: placed_frame_def)
  then have "placements s' = placements s @ [placement_row_of q sel (uuids s3 (next_uuid s3)) ?id (clock s)]"
    using p7(1) f6(2) p f3 f2(4) f1(4) by simp
  moreover have "\<forall>x \<in> set (placements s). p_id x \<noteq> uuids s3 (next_uuid s3) \<and> \<not> (p_user x = BetAccountID q \<and> p_request x = ClientRequestID q)"
    using p f3 f2(4) f1(4) by (auto simp: placement_row_of_def)
  moreover have "order_added q odds simulated ?id s s'"
    using f3 p7(2) f6(1) f5(1) by (simp add: order_added_def)
  moreover have "wallets s' = wallets s \<and> ledger s' = ledger s" if simulated
    using that f7 f6(4) f5 f3 f2 f1 by simp
  moreover have "0 \<le> ?v \<and> moved s w ?v ''bet'' ?id ''bet_debit'' s'" if "\<not> simulated"
  proof -
    have "wallets s5 = wallets s1" "ledger s5 = ledger s1" using f5 f3 f2 by simp_all
    then have "0 \<le> ?v \<and> moved ?s0 w ?v ''bet'' ?id ''bet_debit'' s6"
      using debit_moved [of ?s0 w "StakeMinor q" s1 s5] assms(1,2) av db that by (simp add: wallets_ok_def)
    then show ?thesis using f7 moved_cong2 [of s' s6 ?s0] moved_cong [of s ?s0 w ?v "''bet''" ?id "''bet_debit''" s'] by simp
  qed
  ultimately show ?thesis unfolding placed_with_def by (intro exI [of _ ?id] exI [of _ "uuids s3 (next_uuid s3)"]) auto
qed


section \<open>Placing: the whole request\<close>

definition admitted :: "bool \<Rightarrow> PlaceBetRequest \<Rightarrow> json \<Rightarrow> db \<Rightarrow> user_row \<Rightarrow> wallet_row \<Rightarrow> int \<times> int \<Rightarrow> bool" where
  "admitted robot q sel s u w odds \<longleftrightarrow> user_by_id s (BetAccountID q) = Some u \<and> check_account robot u = Inr ()
     \<and> (\<exists>r t rules. check_round q s = Inr (r, t, rules) \<and> play_terms q sel r t rules s = Inr odds)
     \<and> wallet_of s (BetAccountID q) (BetCurrency q) = Some w \<and> (u_virtual u \<or> StakeMinor q \<le> w_available w)"

lemma check_round_Inr:
  "check_round q s = Inr (r, t, rules) \<Longrightarrow>
   lookup (\<lambda>r. r_id r = BetRoundID q) (rounds s) = Some r \<and> r_status r = RoundOpen \<and> clock s < r_closes r"
  by (auto simp: check_round_def bindE_eq_Inr orErr_eq_Inr split: if_splits)

lemma place_new_Inr:
  assumes "wallets_ok s" "place_new robot q sel s = Inr s'"
  obtains u w odds betID placement where "admitted robot q sel s u w odds" "placed_with q sel odds w (u_virtual u) betID placement s s'"
proof -
  obtain u r t rules odds w where a: "user_by_id s (BetAccountID q) = Some u" "check_account robot u = Inr ()"
    "check_round q s = Inr (r, t, rules)" "play_terms q sel r t rules s = Inr odds"
    "wallet_of s (BetAccountID q) (BetCurrency q) = Some w" "u_virtual u \<or> StakeMinor q \<le> w_available w"
    and wr: "place_writes q sel rules odds w (u_virtual u) s = Inr s'"
    using assms(2) unfolding place_new_def bindE_eq_Inr orErr_eq_Inr if_Inl_eq_Inr
    by (auto simp: bindE_eq_Inr orErr_eq_Inr split: if_splits)
  obtain betID placement where "placed_with q sel odds w (u_virtual u) betID placement s s'"
    using place_writes_Inr [OF assms(1) wallet_of_by_id [OF assms(1) a(5)] wr] by blast
  then show thesis using that [of u w odds betID placement] a unfolding admitted_def by blast
qed

lemma placed_none: "placed_with q sel odds w sim betID placement s s' \<Longrightarrow> placement_of s (BetAccountID q) (ClientRequestID q) = None"
  by (auto simp: placed_with_def placement_of_def lookup_None_iff)

lemma placeBetTx_Inr:
  assumes "wallets_ok s" "placeBetTx robot request s = Inr (p, s')"
  defines "q \<equiv> place_normalize request"
  obtains (again) "s' = s" "findPlacement q s = Inr p" "0 < StakeMinor q"
  | (fresh) sel u w odds betID placement where "Selection q = Some sel" "0 < StakeMinor q" "admitted robot q sel s u w odds"
      "placed_with q sel odds w (u_virtual u) betID placement s s'" "findPlacement q s' = Inr p"
proof -
  obtain sel where sel: "Selection q = Some sel" "0 < StakeMinor q"
    using assms(2) by (auto simp: placeBetTx_def Let_def q_def split: if_splits option.splits)
  have r: "(case findPlacement q s of Inr p \<Rightarrow> Inr (p, s)
      | Inl e \<Rightarrow> if e \<noteq> DB NoRows then Inl e else bindE (place_new robot q sel s) (\<lambda>s. bindE (findPlacement q s) (\<lambda>p. Inr (p, s)))) = Inr (p, s')"
    using assms(2) sel unfolding placeBetTx_def q_def Let_def by simp
  show thesis
  proof (cases "findPlacement q s")
    case (Inl e)
    then have n: "place_new robot q sel s = Inr s'" "findPlacement q s' = Inr p" using r by (auto simp: bindE_eq_Inr split: if_splits)
    show ?thesis using n(1) by (rule place_new_Inr [OF assms(1)]) (rule fresh [OF sel _ _ n(2)])
  next
    case (Inr x)
    then show ?thesis using r again sel by simp
  qed
qed

text \<open>The content of a request, as its placement remembers it.\<close>

definition same_request :: "PlaceBetRequest \<Rightarrow> PlaceBetRequest \<Rightarrow> bool" where
  "same_request q q' \<longleftrightarrow> BetRoundID q' = BetRoundID q \<and> BetCurrency q' = BetCurrency q \<and> GameRoomID q' = GameRoomID q
     \<and> PlayMode q' = PlayMode q \<and> map_option jsonb (Selection q') = map_option jsonb (Selection q) \<and> StakeMinor q' = StakeMinor q
     \<and> RobotPlanID q' = RobotPlanID q"

lemma nullif_inject [simp]: "nullif a = nullif b \<longleftrightarrow> a = b"
  by (auto simp: nullif_def)

lemma request_matches_same:
  "request_matches q p \<Longrightarrow> request_matches q' p \<longleftrightarrow> same_request q q'"
  unfolding request_matches_def same_request_def by (metis nullif_inject)

lemma findPlacement_Inr:
  "findPlacement q s = Inr x \<Longrightarrow>
   \<exists>p b. placement_of s (BetAccountID q) (ClientRequestID q) = Some p \<and> request_matches q p \<and> bet_by_id s (p_bet p) = Some b"
  by (auto simp: findPlacement_def bindE_eq_Inr orErr_eq_Inr split: if_splits)

lemma findPlacement_other:
  assumes "findPlacement q s = Inr x" "BetAccountID q' = BetAccountID q" "ClientRequestID q' = ClientRequestID q"
  shows "findPlacement q' s = (if same_request q q' then Inr x else Inl (Betting ErrRequestConflict))"
proof -
  obtain p where p: "placement_of s (BetAccountID q) (ClientRequestID q) = Some p" "request_matches q p"
    using findPlacement_Inr [OF assms(1)] by blast
  show ?thesis using assms p request_matches_same [OF p(2), of q'] by (simp add: findPlacement_def)
qed


section \<open>Orders and placements\<close>

text \<open>Every order is the sum of its placements.\<close>

definition placed_on :: "db \<Rightarrow> string \<Rightarrow> placement_row list" where
  "placed_on s i = filter (\<lambda>p. p_bet p = i) (placements s)"

definition orders_ok :: "db \<Rightarrow> bool" where
  "orders_ok s \<longleftrightarrow> (\<forall>p \<in> set (placements s). p_bet p \<in> b_id ` set (bets s))
     \<and> (\<forall>b \<in> set (bets s). b_stake b = sum_list (map p_stake (placed_on s (b_id b))) \<and> b_count b = int (length (placed_on s (b_id b))))"

lemma placed_on_append:
  "placements s' = placements s @ [p] \<Longrightarrow> placed_on s' i = placed_on s i @ (if p_bet p = i then [p] else [])"
  by (simp add: placed_on_def)

lemma placement_row_simps [simp]:
  "p_bet (placement_row_of q sel i betID now) = betID" "p_stake (placement_row_of q sel i betID now) = StakeMinor q"
  "p_user (placement_row_of q sel i betID now) = BetAccountID q" "p_request (placement_row_of q sel i betID now) = ClientRequestID q"
  by (simp_all add: placement_row_of_def)

lemma grown_order_simps [simp]:
  "b_id (grown_order q b now x) = b_id x" "b_stake (grown_order q b now x) = b_stake b + StakeMinor q"
  "b_count (grown_order q b now x) = b_count x + 1" "b_wallet (grown_order q b now x) = b_wallet x" "b_status (grown_order q b now x) = b_status x"
  by (simp_all add: grown_order_def)

lemma same_order: "bets_ok s \<Longrightarrow> b \<in> set (bets s) \<Longrightarrow> x \<in> set (bets s) \<Longrightarrow> b_id x = b_id b \<Longrightarrow> x = b"
  unfolding bets_ok_def by (meson distinct_key_eq)

lemma placed_orders_ok:
  assumes "bets_ok s" "orders_ok s" "placed_with q sel odds w sim betID placement s s'"
  shows "orders_ok s'"
proof -
  have pl: "placements s' = placements s @ [placement_row_of q sel placement betID (clock s)]" and oa: "order_added q odds sim betID s s'"
    using assms(3) by (simp_all add: placed_with_def)
  note on = placed_on_append [OF pl, simplified]
  consider (grown) b where "b \<in> set (bets s)" "b_id b = betID" "bets s' = modify (\<lambda>x. b_id x = betID) (grown_order q b (clock s)) (bets s)"
    | (new) n where "\<forall>b \<in> set (bets s). b_id b \<noteq> betID" "bets s' = bets s @ [n]" "b_id n = betID" "b_stake n = StakeMinor q" "b_count n = 1"
    using oa unfolding order_added_def by blast
  then show ?thesis
  proof cases
    case grown
    have "map b_id (bets s') = map b_id (bets s)" unfolding grown(3) by (rule map_modify_inv) simp
    then have ids: "b_id ` set (bets s') = b_id ` set (bets s)" by (metis list.set_map)
    have "b_stake x' = sum_list (map p_stake (placed_on s' (b_id x'))) \<and> b_count x' = int (length (placed_on s' (b_id x')))"
      if x': "x' \<in> set (bets s')" for x'
    proof -
      obtain x where x: "x \<in> set (bets s)" "x' = (if b_id x = betID then grown_order q b (clock s) x else x)"
        using x' unfolding grown(3) set_modify by auto
      show ?thesis using x assms(2) same_order [OF assms(1) grown(1) x(1)] grown(2)
        by (cases "b_id x = betID") (simp_all add: on orders_ok_def)
    qed
    moreover have "p_bet p \<in> b_id ` set (bets s')" if "p \<in> set (placements s')" for p
      using that assms(2) grown(1,2) unfolding ids pl orders_ok_def by auto
    ultimately show ?thesis unfolding orders_ok_def by blast
  next
    case new
    have "placed_on s betID = []" using new(1) assms(2) by (force simp: orders_ok_def placed_on_def filter_empty_conv)
    then show ?thesis using assms(2) new unfolding orders_ok_def by (auto simp: on pl)
  qed
qed

lemma placed_bets_ok:
  assumes "bets_ok s" "placed_with q sel odds w sim betID placement s s'" "0 < StakeMinor q" "StakeMinor q \<le> max_int64"
  shows "bets_ok s'"
proof -
  have oa: "order_added q odds sim betID s s'" and ids: "map w_id (wallets s') = map w_id (wallets s)"
    using assms(2) by (simp_all add: placed_with_def placed_frame_def)
  have wa: "wallet_by_id s' i \<noteq> None \<longleftrightarrow> i \<in> set (map w_id (wallets s))" for i
    unfolding ids [symmetric] by (auto simp: wallet_by_id_def lookup_None_iff)
  have wb: "wallet_by_id s i \<noteq> None \<longleftrightarrow> i \<in> set (map w_id (wallets s))" for i
    by (auto simp: wallet_by_id_def lookup_None_iff)
  consider (grown) b where "b \<in> set (bets s)" "b_id b = betID" "b_stake b + StakeMinor q \<le> max_int64"
      "bets s' = modify (\<lambda>x. b_id x = betID) (grown_order q b (clock s)) (bets s)"
    | (new) n where "\<forall>b \<in> set (bets s). b_id b \<noteq> betID" "bets s' = bets s @ [n]" "b_id n = betID" "b_stake n = StakeMinor q"
      "b_wallet n \<in> w_id ` set (wallets s)"
    using oa unfolding order_added_def by blast
  then show ?thesis
  proof cases
    case grown
    have "map b_id (bets s') = map b_id (bets s)" unfolding grown(4) by (rule map_modify_inv) simp
    moreover have "0 < b_stake b" using assms(1) grown(1) by (simp add: bets_ok_def)
    ultimately show ?thesis using assms(1,3) grown unfolding bets_ok_def wa wb by (auto simp: set_modify)
  next
    case new
    then show ?thesis using assms(1,3,4) unfolding bets_ok_def wa wb by auto
  qed
qed


lemma placed_money:
  assumes "books_ok s" "admitted robot q sel s u w odds" "0 < StakeMinor q"
    and "placed_with q sel odds w (u_virtual u) betID placement s s'"
  shows "books_ok s'
     \<and> (\<forall>a c. balance_of s' a c = balance_of s a c
          - (if (a, c) = (BetAccountID q, BetCurrency q) \<and> \<not> u_virtual u then StakeMinor q else 0))
     \<and> (if u_virtual u then ledger s' = ledger s else grows ''bet'' s s' [(w_id w, betID, - StakeMinor q)])"
proof (cases "u_virtual u")
  case True
  then have "wallets s' = wallets s" "ledger s' = ledger s" using assms(4) by (simp_all add: placed_with_def)
  then show ?thesis using books_ok_cong [OF assms(1)] True by (simp add: balance_of_def wallet_of_def)
next
  case False
  let ?v = "w_available w - StakeMinor q"
  have m: "0 \<le> ?v" "moved s w ?v ''bet'' betID ''bet_debit'' s'" using assms(4) False by (simp_all add: placed_with_def)
  have w: "wallet_of s (BetAccountID q) (BetCurrency q) = Some w" using assms(2) by (simp add: admitted_def)
  have ok: "wallets_ok s" using books_ok_wallets_ok [OF assms(1)] .
  have r: "in_range ?v" using wallet_of_range [OF ok w] m(1) assms(3) by (simp add: in_range_def)
  note b = moved_books [OF assms(1) wallet_of_by_id [OF ok w] m(2) r]
  have "grows ''bet'' s s' [(w_id w, betID, - StakeMinor q)]" using m(2) by (auto simp: moved_def grows_def entries_of_def)
  then show ?thesis using b False w by (auto simp: balance_of_def moved_wallet_of [OF ok w m(2)])
qed


text \<open>What the whole of a platform state satisfies once bets are placed through the service.\<close>

definition betting_ok :: "db \<Rightarrow> bool" where
  "betting_ok s \<longleftrightarrow> platform_ok s \<and> orders_ok s"

lemma placeBetTx_keeps:
  assumes "betting_ok s" "placeBetTx robot request s = Inr (p, s')" "StakeMinor request \<le> max_int64"
  shows "betting_ok s' \<and> rounds s' = rounds s"
proof -
  have ok: "books_ok s" "bets_ok s" "round_keys s" "orders_ok s" using assms(1) by (simp_all add: betting_ok_def platform_ok_def)
  have le: "StakeMinor (place_normalize request) \<le> max_int64" using assms(3) by (simp add: place_normalize_def)
  show ?thesis
  proof (cases rule: placeBetTx_Inr [OF books_ok_wallets_ok [OF ok(1)] assms(2), case_names again fresh])
    case again
    then show ?thesis using assms(1) by simp
  next
    case (fresh sel u w odds betID placement)
    have "rounds s' = rounds s" using fresh(4) by (simp add: placed_with_def placed_frame_def)
    then show ?thesis
      using placed_money [OF ok(1) fresh(3,2,4)] placed_bets_ok [OF ok(2) fresh(4,2) le] placed_orders_ok [OF ok(2,4) fresh(4)] ok(3)
      by (simp add: betting_ok_def platform_ok_def round_keys_def)
  qed
qed

section \<open>Cancelling\<close>

definition cancelled_bet :: "bet_row \<Rightarrow> db \<Rightarrow> db \<Rightarrow> bool" where
  "cancelled_bet b s s' \<longleftrightarrow>
     (\<exists>after. bets s' = modify (\<lambda>x. b_id x = b_id b) (cancelled_row (clock s) after) (bets s))
     \<and> placements s' = placements s \<and> placed_frame s s'
     \<and> (if b_simulated b then wallets s' = wallets s \<and> ledger s' = ledger s
        else \<exists>w. wallet_by_id s (b_wallet b) = Some w \<and> w_available w + b_stake b \<le> max_int64
               \<and> moved s w (w_available w + b_stake b) ''bet_cancel'' (b_id b) ''bet_refund'' s')"

lemma cancel_event_frame:
  assumes "cancel_event i s = Inr s'"
  shows "money_only s s' \<and> wallets s' = wallets s \<and> ledger s' = ledger s"
proof -
  obtain v where "insert_outbox ''bet'' i ''game.bet.cancelled'' v s = Inr s'"
    using assms unfolding cancel_event_def bindE_eq_Inr by blast
  then show ?thesis by (rule insert_outbox_money_only)
qed

lemma set_bet_simps [simp]:
  "wallets (set_bet i g s) = wallets s" "ledger (set_bet i g s) = ledger s" "placements (set_bet i g s) = placements s"
  "placed_frame (set_bet i g s) s' = placed_frame s s'" "placed_frame s (set_bet i g s') = placed_frame s s'"
  by (simp_all add: set_bet_def placed_frame_def)

lemma cancel_real:
  assumes "wallets_ok s" "wallet_by_id s (b_wallet b) = Some w" "after = w_available w + b_stake b" "after \<le> max_int64" "\<not> b_simulated b"
    and "set_available (w_id w) after s = Inr s1"
    and "insert_ledger (w_id w) ''bet_cancel'' (b_id b) ''bet_refund'' (b_stake b) after (set_bet (b_id b) (cancelled_row (clock s1) after) s1) = Inr s2"
    and "cancel_event (b_id b) s2 = Inr s'"
  shows "cancelled_bet b s s'"
proof -
  have id: "wallet_by_id s (w_id w) = Some w" using wallet_by_id_self [OF assms(2)] .
  let ?t = "set_bet (b_id b) (cancelled_row (clock s1) after) s1"
  have f1: "money_only s s1" "map w_id (wallets s1) = map w_id (wallets s)"
    using set_available_money_only [OF assms(6)] set_available_ids [OF assms(6)] by simp_all
  have f2: "money_only ?t s2" "wallets s2 = wallets s1" using insert_ledger_money_only [OF assms(7)] by simp_all
  note f3 = cancel_event_frame [OF assms(8)]
  have m2: "moved s w after ''bet_cancel'' (b_id b) ''bet_refund'' s2"
    by (rule movedI [OF assms(1) id assms(6) _ _ assms(7)]) (simp_all add: assms(3))
  have "moved s w after ''bet_cancel'' (b_id b) ''bet_refund'' s'"
    using m2 f3 moved_cong2 [of s' s2 s w after] by blast
  moreover have "clock s1 = clock s" "bets s1 = bets s" "placements s1 = placements s" using money_onlyD [OF f1(1)] by blast+
  moreover have "bets s' = bets ?t" "placements s' = placements ?t"
    using money_onlyD [OF f2(1)] money_onlyD [OF conjunct1 [OF f3]] by metis+
  moreover have "placed_frame s s'"
  proof -
    have "placed_frame s s1" using money_only_placed f1 by blast
    moreover have "placed_frame ?t s2" by (rule money_only_placed [OF f2(1)]) (simp add: f2(2))
    moreover have "placed_frame s2 s'" using money_only_placed f3 by metis
    ultimately show ?thesis using placed_frame_trans by (metis set_bet_simps(4))
  qed
  ultimately show ?thesis using assms(2-5) by (auto simp: cancelled_bet_def set_bet_def)
qed

lemma CancelBet_Inr:
  assumes "books_ok s" "bets_ok s" "CancelBet betID user s = Inr (p, s')"
  obtains (again) b where "lookup (\<lambda>b. b_id b = betID \<and> b_user b = user) (bets s) = Some b" "b_status b = BetCancelled" "s' = s"
  | (cancelled) b r where "lookup (\<lambda>b. b_id b = betID \<and> b_user b = user) (bets s) = Some b" "b_status b = BetAccepted"
      "lookup (\<lambda>r. r_id r = b_round b) (rounds s) = Some r" "clock s < r_closes r" "cancelled_bet b s s'"
      "(if b_simulated b then findBet user (b_request b) s' else cancelledBetResult user (b_request b) betID s') = Inr p"
proof -
  obtain b w r where b: "lookup (\<lambda>b. b_id b = betID \<and> b_user b = user) (bets s) = Some b"
    and w: "wallet_by_id s (b_wallet b) = Some w" and r: "lookup (\<lambda>r. r_id r = b_round b) (rounds s) = Some r"
    using assms(3) unfolding CancelBet_def bindE_eq_Inr orErr_eq_Inr by blast
  have id: "b_id b = betID" "b_user b = user" "b \<in> set (bets s)" using lookup_SomeD [OF b] by simp_all
  have run: "CancelBet betID user s = Inr (p, s')" using assms(3) .
  show thesis
  proof (cases "b_status b = BetCancelled")
    case True
    then have "s' = s" using run by (auto simp: CancelBet_def b w r bindE_eq_Inr split: if_splits)
    then show ?thesis using again b True by blast
  next
    case nc: False
    have acc: "b_status b = BetAccepted" "clock s < r_closes r"
      using run nc by (auto simp: CancelBet_def b w r bindE_eq_Inr split: if_splits)
    show ?thesis
    proof (cases "b_simulated b")
      case True
      obtain v where ev: "cancel_event betID (set_bet betID (cancelled_row (clock s) (w_available w)) s) = Inr v"
        and fin: "findBet user (b_request b) v = Inr p" "s' = v"
        using run nc acc True by (auto simp: CancelBet_def b w r bindE_eq_Inr split: if_splits)
      note f = cancel_event_frame [OF ev]
      have "bets v = modify (\<lambda>x. b_id x = betID) (cancelled_row (clock s) (w_available w)) (bets s)" "placements v = placements s"
        using money_onlyD [OF conjunct1 [OF f]] by (simp_all add: set_bet_def)
      moreover have "placed_frame s v" using money_only_placed [OF conjunct1 [OF f]] f by simp
      ultimately have "cancelled_bet b s v" using f True id by (auto simp: cancelled_bet_def)
      then show ?thesis using cancelled [OF b acc(1) r acc(2)] True fin by simp
    next
      case False
      let ?after = "w_available w + b_stake b"
      have st: "0 < b_stake b" "b_stake b \<le> max_int64" "in_range (w_available w)"
        using assms(2) id wallets_ok_range [OF books_ok_wallets_ok [OF assms(1)] w] by (simp_all add: bets_ok_def)
      have wr: "wrap64 (max_int64 - b_stake b) = max_int64 - b_stake b" by (rule wrap64_id) (use st in \<open>simp add: int64_def max_int64_def\<close>)
      have le: "?after \<le> max_int64" using run nc acc False wr by (auto simp: CancelBet_def b w r split: if_splits)
      have wa: "wrap64 ?after = ?after" by (rule wrap64_id) (use st le in \<open>simp add: int64_def max_int64_def in_range_def\<close>)
      obtain s1 s2 where "set_available (w_id w) ?after s = Inr s1"
        "insert_ledger (w_id w) ''bet_cancel'' betID ''bet_refund'' (b_stake b) ?after (set_bet betID (cancelled_row (clock s1) ?after) s1) = Inr s2"
        "cancel_event betID s2 = Inr s'" "cancelledBetResult user (b_request b) betID s' = Inr p"
        using run nc acc False wr wa le by (auto simp: CancelBet_def b w r Let_def bindE_eq_Inr split: if_splits)
      then show ?thesis
        using cancelled [OF b acc(1) r acc(2)] cancel_real [OF books_ok_wallets_ok [OF assms(1)] w refl le False] False id(1) by simp
    qed
  qed
qed


lemma cancelled_row_simps [simp]:
  "b_id (cancelled_row now after b) = b_id b" "b_stake (cancelled_row now after b) = b_stake b" "b_count (cancelled_row now after b) = b_count b"
  "b_wallet (cancelled_row now after b) = b_wallet b" "b_status (cancelled_row now after b) = BetCancelled" "b_user (cancelled_row now after b) = b_user b"
  "b_simulated (cancelled_row now after b) = b_simulated b" "b_request (cancelled_row now after b) = b_request b"
  "b_round (cancelled_row now after b) = b_round b"
  by (simp_all add: cancelled_row_def)

text \<open>A rewrite of bets that keeps id, stake, count and wallet keeps bets and orders in order.\<close>

definition same_stake :: "bet_row \<Rightarrow> bet_row \<Rightarrow> bool" where
  "same_stake b b' \<longleftrightarrow> b_id b' = b_id b \<and> b_stake b' = b_stake b \<and> b_count b' = b_count b \<and> b_wallet b' = b_wallet b"

lemma same_stakes_orders:
  assumes "orders_ok s" "list_all2 same_stake (bets s) (bets s')" "placements s' = placements s"
  shows "orders_ok s'"
proof -
  have "map b_id (bets s') = map b_id (bets s)" using assms(2) by (induction rule: list_all2_induct) (auto simp: same_stake_def)
  then have "b_id ` set (bets s') = b_id ` set (bets s)" by (metis list.set_map)
  moreover have "\<exists>b \<in> set (bets s). same_stake b b'" if "b' \<in> set (bets s')" for b'
    using assms(2) that by (induction rule: list_all2_induct) auto
  ultimately show ?thesis using assms(1,3) unfolding orders_ok_def placed_on_def same_stake_def by metis
qed

lemma same_stakes_bets:
  assumes "bets_ok s" "list_all2 same_stake (bets s) (bets s')" "map w_id (wallets s') = map w_id (wallets s) @ new"
  shows "bets_ok s'"
  by (rule rewritten_bets_ok [of s "bets s" same_stake s' new])
    (use assms list_all2_conv_all_nth [of same_stake] in \<open>auto simp: rewritten_def same_stake_def list_all2_conv_all_nth\<close>)

lemma rewritten_stakes:
  "rewritten bs R s s' \<Longrightarrow> (\<And>b b'. R b b' \<Longrightarrow> same_stake b b') \<Longrightarrow> list_all2 same_stake (bets s) (bets s')"
  unfolding rewritten_def by (erule list.rel_mono_strong) (auto simp: same_stake_def split: if_splits)

lemma modify_stakes:
  "(\<And>b. same_stake b (g b)) \<Longrightarrow> list_all2 same_stake bs (modify P g bs)"
  by (induction bs) (auto simp: same_stake_def)

lemma decided_stake: "decided_row rules plays outcome now b b' \<Longrightarrow> same_stake b b'"
  by (auto simp: decided_row_def same_stake_def won_row_def lost_row_def split: if_splits)

lemma refunded_stake: "\<exists>after. b' = refunded_row now after b \<Longrightarrow> same_stake b b'"
  by (auto simp: same_stake_def refunded_row_def)

lemma cancelled_keeps:
  assumes "betting_ok s" "b \<in> set (bets s)" "cancelled_bet b s s'"
  shows "betting_ok s' \<and> rounds s' = rounds s"
proof -
  have ok: "books_ok s" "bets_ok s" "round_keys s" "orders_ok s" using assms(1) by (simp_all add: betting_ok_def platform_ok_def)
  obtain after where b': "bets s' = modify (\<lambda>x. b_id x = b_id b) (cancelled_row (clock s) after) (bets s)"
    using assms(3) unfolding cancelled_bet_def by blast
  have fr: "placements s' = placements s" "placed_frame s s'" using assms(3) by (simp_all add: cancelled_bet_def)
  have st: "list_all2 same_stake (bets s) (bets s')" unfolding b' by (rule modify_stakes) (simp add: same_stake_def)
  have "books_ok s'"
  proof (cases "b_simulated b")
    case True
    then show ?thesis using assms(3) books_ok_cong [OF ok(1)] by (simp add: cancelled_bet_def)
  next
    case False
    then obtain w where w: "wallet_by_id s (b_wallet b) = Some w" "w_available w + b_stake b \<le> max_int64"
      "moved s w (w_available w + b_stake b) ''bet_cancel'' (b_id b) ''bet_refund'' s'" using assms(3) by (auto simp: cancelled_bet_def)
    have "in_range (w_available w + b_stake b)"
      using w(2) wallets_ok_range [OF books_ok_wallets_ok [OF ok(1)] w(1)] ok(2) assms(2) by (auto simp: bets_ok_def in_range_def)
    then show ?thesis using moved_books [OF ok(1) wallet_by_id_self [OF w(1)] w(3)] by simp
  qed
  moreover have "bets_ok s'" by (rule same_stakes_bets [OF ok(2) st, of "[]"]) (use fr(2) in \<open>simp add: placed_frame_def\<close>)
  ultimately show ?thesis using same_stakes_orders [OF ok(4) st fr(1)] fr(2) ok(3)
    by (simp add: betting_ok_def platform_ok_def placed_frame_def round_keys_def)
qed

lemma CancelBet_keeps:
  assumes "betting_ok s" "CancelBet betID user s = Inr (p, s')"
  shows "betting_ok s' \<and> rounds s' = rounds s"
proof -
  have ok: "books_ok s" "bets_ok s" using assms(1) by (simp_all add: betting_ok_def platform_ok_def)
  show ?thesis
  proof (cases rule: CancelBet_Inr [OF ok assms(2), case_names again cancelled])
    case again
    then show ?thesis using assms(1) by simp
  next
    case (cancelled b r)
    then show ?thesis using cancelled_keeps [OF assms(1) _ cancelled(5)] lookup_SomeD [OF cancelled(1)] by blast
  qed
qed


section \<open>Operations on bets, in any order\<close>

lemma SettleRound_betting:
  assumes "betting_ok s" "SettleRound (Some OnBetSettled) i outcome rules s = Inr (x, s')"
  shows "betting_ok s' \<and> rounds_move s s'"
proof -
  note k = task_hook.SettleRound_keeps [OF conjunct1 [OF assms(1) [unfolded betting_ok_def]] assms(2)]
  obtain r where r: "lookup (\<lambda>r. r_id r = i) (rounds s) = Some r"
    using assms(2) by (auto simp: SettleRound_def bindE_eq_Inr orErr_eq_Inr split: if_splits)
  have ok: "books_ok s" "bets_ok s" "orders_ok s" using assms(1) by (simp_all add: betting_ok_def platform_ok_def)
  have "orders_ok s'"
  proof (cases "r_status r = RoundSettled")
    case True
    then have "s' = s" using assms(2) r by (auto simp: SettleRound_def bindE_eq_Inr split: if_splits)
    then show ?thesis using ok by simp
  next
    case False
    note m = task_hook.SettleRound_Inr [OF ok(1,2) assms(2) r False]
    have st: "list_all2 same_stake (bets s) (bets s')" by (rule rewritten_stakes [OF _ decided_stake]) (use m in blast)
    show ?thesis by (rule same_stakes_orders [OF ok(3) st]) (use m in blast)
  qed
  then show ?thesis using k by (simp add: betting_ok_def)
qed

lemma CancelRound_betting:
  assumes "betting_ok s" "CancelRound i s = Inr (n, s')"
  shows "betting_ok s' \<and> rounds_move s s'"
proof -
  have ok: "books_ok s" "bets_ok s" "round_keys s" "orders_ok s" using assms(1) by (simp_all add: betting_ok_def platform_ok_def)
  obtain r where r: "lookup (\<lambda>r. r_id r = i) (rounds s) = Some r"
    using assms(2) by (auto simp: CancelRound_def bindE_eq_Inr orErr_eq_Inr split: if_splits)
  show ?thesis
  proof (cases "r_status r = RoundCancelled")
    case True
    then show ?thesis using assms r by (simp add: CancelRound_def)
  next
    case False
    let ?g = "\<lambda>r. r\<lparr>r_status := RoundCancelled, r_version := r_version r + 1\<rparr>"
    note m = CancelRound_Inr [OF ok(1,2) assms(2) r False]
    obtain new where new: "map w_id (wallets s') = map w_id (wallets s) @ new" using m by blast
    have st: "list_all2 same_stake (bets s) (bets s')" by (rule rewritten_stakes [OF _ refunded_stake]) (use m in blast)+
    have "moves r (?g r)" using m by (auto simp: moves_def same_round_def)
    then have mv: "rounds_move s s' \<and> round_keys s'" using rounds_move_one [OF ok(3) r, of s' ?g] m by simp
    have "orders_ok s'" by (rule same_stakes_orders [OF ok(4) st]) (use m in blast)
    then show ?thesis using m mv same_stakes_bets [OF ok(2) st new] by (simp add: betting_ok_def platform_ok_def)
  qed
qed

datatype betting_call =
    Place bool PlaceBetRequest
  | Withdraw_Bet string string
  | Settle string "string list" Rules
  | Void_Round string

definition perform :: "betting_call \<Rightarrow> unit tx" where
  "perform c s =
     (case c of
        Place robot request \<Rightarrow>
          if StakeMinor request \<le> max_int64 then bindE (placeBetTx robot request s) (\<lambda>r. Inr ((), snd r)) else Inl (Game ErrInvalidStake)
      | Withdraw_Bet betID user \<Rightarrow> bindE (CancelBet betID user s) (\<lambda>r. Inr ((), snd r))
      | Settle i outcome rules \<Rightarrow> bindE (SettleRound (Some OnBetSettled) i outcome rules s) (\<lambda>r. Inr ((), snd r))
      | Void_Round i \<Rightarrow> bindE (CancelRound i s) (\<lambda>r. Inr ((), snd r)))"

text \<open>The contract all of them meet.\<close>

locale betting_operation =
  fixes run :: "'x \<Rightarrow> 'r tx"
  assumes keeps_betting: "betting_ok s \<Longrightarrow> run x s = Inr (r, s') \<Longrightarrow> betting_ok s' \<and> rounds_move s s'"
begin

lemma attempt_betting: "betting_ok s \<Longrightarrow> betting_ok (attempt (run x) s) \<and> rounds_move s (attempt (run x) s)"
  by (auto simp: attempt_def dest: keeps_betting split: sum.splits)

lemma attempts_betting:
  "betting_ok s \<Longrightarrow> betting_ok (fold (\<lambda>x. attempt (run x)) xs s) \<and> rounds_move s (fold (\<lambda>x. attempt (run x)) xs s)"
  by (induction xs arbitrary: s) (use attempt_betting rounds_move_trans in \<open>simp_all, blast\<close>)

end

interpretation betting: betting_operation perform
proof unfold_locales
  fix s s' :: db and c and r :: unit
  assume s: "betting_ok s" and run: "perform c s = Inr (r, s')"
  have same: "rounds t = rounds s \<Longrightarrow> rounds_move s t" for t by (rule rounds_move_cong) simp
  show "betting_ok s' \<and> rounds_move s s'"
  proof (cases c)
    case (Place robot request)
    then obtain p where "placeBetTx robot request s = Inr (p, s')" "StakeMinor request \<le> max_int64"
      using run by (auto simp: perform_def bindE_eq_Inr split: if_splits)
    then show ?thesis using placeBetTx_keeps [OF s] same by blast
  next
    case (Withdraw_Bet betID user)
    then obtain p where "CancelBet betID user s = Inr (p, s')" using run by (auto simp: perform_def bindE_eq_Inr)
    then show ?thesis using CancelBet_keeps [OF s] same by blast
  next
    case (Settle i outcome rules)
    then obtain x where "SettleRound (Some OnBetSettled) i outcome rules s = Inr (x, s')" using run by (auto simp: perform_def bindE_eq_Inr)
    then show ?thesis using SettleRound_betting [OF s] by blast
  next
    case (Void_Round i)
    then obtain n where "CancelRound i s = Inr (n, s')" using run by (auto simp: perform_def bindE_eq_Inr)
    then show ?thesis using CancelRound_betting [OF s] by blast
  qed
qed


section \<open>Properties\<close>

definition sample_request :: PlaceBetRequest where
  "sample_request = \<lparr>RobotPlanID = [], ClientRequestID = ''q1'', BetRoundID = ''r1'', BetAccountID = ''alice'', BetCurrency = '' points'',
     GameRoomID = [], PlayMode = [], Selection = Some (pick_of ''odd''), StakeMinor = 100\<rparr>"

definition sample_open_db :: db where
  "sample_open_db = sample_settle_db\<lparr>bets := [],
     rounds := [\<lparr>r_id = ''r1'', r_type = ''game'', r_seq = 1, r_status = RoundOpen, r_closes = 2000, r_result_at = 2100,
                 r_outcome = None, r_settled = None, r_version = 1\<rparr>]\<rparr>"

lemma sample_open_ok: "betting_ok sample_open_db"
proof -
  have "books_ok sample_open_db" using books_ok_cong [OF sample_settle_ok(1)] by (simp add: sample_open_db_def)
  moreover have "bets_ok sample_open_db" "round_keys sample_open_db" "orders_ok sample_open_db"
    by (simp_all add: bets_ok_def round_keys_def orders_ok_def sample_open_db_def sample_settle_db_def sample_db_def empty_db_def)
  ultimately show ?thesis by (simp add: betting_ok_def platform_ok_def)
qed

lemma sample_open_parts: "books_ok sample_open_db" "bets_ok sample_open_db"
  using sample_open_ok by (simp_all add: betting_ok_def platform_ok_def)

lemma sample_place: "\<exists>p s'. placeBetTx False sample_request sample_open_db = Inr (p, s') \<and> pb_stake p = 100 \<and> pb_after_bet p = Some 900"
proof -
  have "case placeBetTx False sample_request sample_open_db of Inl e \<Rightarrow> False | Inr (p, s') \<Rightarrow> pb_stake p = 100 \<and> pb_after_bet p = Some 900"
    by code_simp
  then show ?thesis by (auto split: sum.splits)
qed

definition sample_placed_db :: db where
  "sample_placed_db = attempt (placeBetTx False sample_request) sample_open_db"

lemma sample_cancel_bet:
  "\<exists>i p s'. map b_id (bets sample_placed_db) = [i] \<and> CancelBet i ''alice'' sample_placed_db = Inr (p, s') \<and> pb_after_refund p = Some 1000"
proof -
  have "case CancelBet (b_id (hd (bets sample_placed_db))) ''alice'' sample_placed_db of Inl e \<Rightarrow> False | Inr (p, s') \<Rightarrow> pb_after_refund p = Some 1000"
    by code_simp
  moreover have "length (bets sample_placed_db) = 1" by code_simp
  ultimately show ?thesis by (cases "bets sample_placed_db") (auto split: sum.splits)
qed


text \<open>C2: A first successful request was admitted: the account may bet, the round was open and before its closing time,
  the play's terms gave the odds, and a real account had the stake. It then writes one placement, grows the identical pending order
  or opens a new one at those odds, and takes exactly the stake from the wallet with one ledger entry, or no money at all for a
  virtual account. Books, bets and order totals stay in order and the answer is the stored placement.\<close>

theorem place_bet_exact:
  assumes "betting_ok s" "placeBetTx robot request s = Inr (p, s')" "StakeMinor request \<le> max_int64"
  defines "q \<equiv> place_normalize request"
  assumes "placement_of s (BetAccountID q) (ClientRequestID q) = None"
  shows "\<exists>sel u w odds r betID placement. Selection q = Some sel \<and> 0 < StakeMinor q \<and> admitted robot q sel s u w odds
     \<and> lookup (\<lambda>r. r_id r = BetRoundID q) (rounds s) = Some r \<and> r_status r = RoundOpen \<and> clock s < r_closes r
     \<and> placements s' = placements s @ [placement_row_of q sel placement betID (clock s)] \<and> order_added q odds (u_virtual u) betID s s'
     \<and> (\<forall>a c. balance_of s' a c = balance_of s a c
          - (if (a, c) = (BetAccountID q, BetCurrency q) \<and> \<not> u_virtual u then StakeMinor q else 0))
     \<and> (if u_virtual u then ledger s' = ledger s else grows ''bet'' s s' [(w_id w, betID, - StakeMinor q)])
     \<and> betting_ok s' \<and> rounds s' = rounds s \<and> findPlacement q s' = Inr p"
proof -
  have ok: "books_ok s" using assms(1) by (simp add: betting_ok_def platform_ok_def)
  note keep = placeBetTx_keeps [OF assms(1-3)]
  show ?thesis
  proof (cases rule: placeBetTx_Inr [OF books_ok_wallets_ok [OF ok] assms(2), folded q_def, case_names again fresh])
    case again
    then show ?thesis using assms(5) findPlacement_Inr [of q s p] by auto
  next
    case (fresh sel u w odds betID placement)
    obtain r where r: "lookup (\<lambda>r. r_id r = BetRoundID q) (rounds s) = Some r" "r_status r = RoundOpen" "clock s < r_closes r"
      using fresh(3) check_round_Inr unfolding admitted_def by blast
    have wr: "placements s' = placements s @ [placement_row_of q sel placement betID (clock s)]" "order_added q odds (u_virtual u) betID s s'"
      using fresh(4) by (simp_all add: placed_with_def)
    show ?thesis using placed_money [OF ok fresh(3,2,4)] fresh keep r wr by blast
  qed
qed

theorem place_bet_exact_witness:
  "\<exists>p s'. placeBetTx False sample_request sample_open_db = Inr (p, s') \<and> betting_ok s' \<and> length (placements s') = 1"
proof -
  obtain p s' where run: "placeBetTx False sample_request sample_open_db = Inr (p, s')" using sample_place by blast
  have m: "StakeMinor sample_request \<le> max_int64" by (simp add: sample_request_def max_int64_def)
  have n: "placement_of sample_open_db (BetAccountID (place_normalize sample_request)) (ClientRequestID (place_normalize sample_request)) = None"
    and e: "placements sample_open_db = []"
    by (simp_all add: placement_of_def sample_open_db_def sample_settle_db_def sample_db_def empty_db_def)
  show ?thesis using place_bet_exact [OF sample_open_ok run m n] run e by auto
qed

text \<open>C11: A request is idempotent: once a request succeeded, a request of the same account with the same client id either has the
  same content, and gets the same answer without any change, or is refused as a conflict.\<close>

theorem place_bet_idempotent:
  assumes "betting_ok s" "placeBetTx robot request s = Inr (p, s')"
    and "BetAccountID request' = BetAccountID request" "ClientRequestID request' = ClientRequestID request"
    and "0 < StakeMinor request'" "Selection request' \<noteq> None"
  shows "placeBetTx robot' request' s' =
     (if same_request (place_normalize request) (place_normalize request') then Inr (p, s') else Inl (Betting ErrRequestConflict))"
proof -
  let ?q = "place_normalize request" and ?q' = "place_normalize request'"
  have ok: "books_ok s" using assms(1) by (simp add: betting_ok_def platform_ok_def)
  have f: "findPlacement ?q s' = Inr p"
    by (cases rule: placeBetTx_Inr [OF books_ok_wallets_ok [OF ok] assms(2)]) simp_all
  have "findPlacement ?q' s' = (if same_request ?q ?q' then Inr p else Inl (Betting ErrRequestConflict))"
    by (rule findPlacement_other [OF f]) (simp_all add: place_normalize_def assms(3,4))
  then show ?thesis using assms(5,6) by (auto simp: placeBetTx_def place_normalize_def Let_def)
qed

theorem place_bet_idempotent_witness:
  "\<exists>p s'. placeBetTx False sample_request sample_open_db = Inr (p, s')
     \<and> placeBetTx True (sample_request\<lparr>StakeMinor := 50\<rparr>) s' = Inl (Betting ErrRequestConflict)"
proof -
  obtain p s' where run: "placeBetTx False sample_request sample_open_db = Inr (p, s')" using sample_place by blast
  show ?thesis using place_bet_idempotent [OF sample_open_ok run, of "sample_request\<lparr>StakeMinor := 50\<rparr>" True] run
    by (simp add: sample_request_def same_request_def place_normalize_def)
qed

text \<open>C9: Placing, cancelling, settling and voiding, in any order, with any arguments and whatever each call answers, keep the platform
  in order: the books balance, every order is the sum of its placements, and rounds only move forward.\<close>

theorem betting_run:
  assumes "betting_ok s" "s' = fold (\<lambda>c. attempt (perform c)) calls s"
  shows "books_ok s' \<and> orders_ok s' \<and> bets_ok s' \<and> rounds_move s s'
    \<and> (\<forall>i w. wallet_by_id s' i = Some w \<longrightarrow> w_available w = sum_list (map l_avail_delta (entries s' i)))"
proof -
  note k = betting.attempts_betting [OF assms(1), of calls, folded assms(2)]
  then have "books_ok s'" by (simp add: betting_ok_def platform_ok_def)
  then show ?thesis using k books_ok_balance by (auto simp: betting_ok_def platform_ok_def)
qed

theorem betting_run_witness:
  "orders_ok (fold (\<lambda>c. attempt (perform c)) [Place False sample_request, Settle ''r1'' [''odd''] sample_rules, Void_Round ''r1''] sample_open_db)"
  using betting_run [OF sample_open_ok refl] by blast

text \<open>C12: A player's cancellation happens before the closing time and only for an accepted bet of that player; it marks that order
  cancelled and returns a real stake exactly once with one ledger entry; virtual bets move no money; and a repeated cancellation
  changes nothing and gives the same answer.\<close>

theorem cancel_bet_exact:
  assumes "betting_ok s" "CancelBet betID user s = Inr (p, s')" "lookup (\<lambda>b. b_id b = betID \<and> b_user b = user) (bets s) = Some b"
    and "b_status b \<noteq> BetCancelled"
  shows "b_status b = BetAccepted \<and> (\<exists>r. lookup (\<lambda>r. r_id r = b_round b) (rounds s) = Some r \<and> clock s < r_closes r)
     \<and> (\<exists>after. bets s' = modify (\<lambda>x. b_id x = betID) (cancelled_row (clock s) after) (bets s))
     \<and> (if b_simulated b then wallets s' = wallets s \<and> ledger s' = ledger s
        else grows ''bet_cancel'' s s' [(b_wallet b, betID, b_stake b)]
          \<and> (\<exists>w w'. wallet_by_id s (b_wallet b) = Some w \<and> wallet_by_id s' (b_wallet b) = Some w' \<and> w_available w' = w_available w + b_stake b))
     \<and> betting_ok s' \<and> CancelBet betID user s' = Inr (p, s')"
proof -
  have ok: "books_ok s" "bets_ok s" using assms(1) by (simp_all add: betting_ok_def platform_ok_def)
  obtain r where b: "b_status b = BetAccepted" and r: "lookup (\<lambda>r. r_id r = b_round b) (rounds s) = Some r" "clock s < r_closes r"
    and c: "cancelled_bet b s s'"
    and fin: "(if b_simulated b then findBet user (b_request b) s' else cancelledBetResult user (b_request b) betID s') = Inr p"
    by (cases rule: CancelBet_Inr [OF ok assms(2)]) (use assms(3,4) in auto)
  have id: "b_id b = betID" "b_user b = user" "b \<in> set (bets s)" using lookup_SomeD [OF assms(3)] by simp_all
  obtain after where m: "bets s' = modify (\<lambda>x. b_id x = betID) (cancelled_row (clock s) after) (bets s)"
    using c id unfolding cancelled_bet_def by blast
  have "lookup (\<lambda>b. b_id b = betID \<and> b_user b = user) (bets s') = Some (cancelled_row (clock s) after b)"
    using assms(3) id(1) unfolding m by (simp add: lookup_modify_pres)
  moreover have "map w_id (wallets s') = map w_id (wallets s)" "rounds s' = rounds s" using c by (simp_all add: cancelled_bet_def placed_frame_def)
  then obtain w where "wallet_by_id s' (b_wallet b) = Some w" "rounds s' = rounds s"
    using wallet_ids_grow [of s' s "[]" "b_wallet b"] ok(2) id(3) by (fastforce simp: bets_ok_def)
  ultimately have again: "CancelBet betID user s' = Inr (p, s')" using fin r(1) id(2)
    by (cases "b_simulated b") (simp_all add: CancelBet_def)
  have "if b_simulated b then wallets s' = wallets s \<and> ledger s' = ledger s
        else grows ''bet_cancel'' s s' [(b_wallet b, betID, b_stake b)]
          \<and> (\<exists>w w'. wallet_by_id s (b_wallet b) = Some w \<and> wallet_by_id s' (b_wallet b) = Some w' \<and> w_available w' = w_available w + b_stake b)"
  proof (cases "b_simulated b")
    case False
    then obtain w where w: "wallet_by_id s (b_wallet b) = Some w" "moved s w (w_available w + b_stake b) ''bet_cancel'' betID ''bet_refund'' s'"
      using c id by (auto simp: cancelled_bet_def)
    have "w_id w = b_wallet b" using wallet_by_id_mem [OF w(1)] by simp
    then show ?thesis using False w moved_wallet [OF wallet_by_id_self [OF w(1)] w(2)]
      by (auto simp: moved_def grows_def entries_of_def)
  qed (use c in \<open>simp add: cancelled_bet_def\<close>)
  then show ?thesis using b r m again CancelBet_keeps [OF assms(1,2)] by blast
qed

theorem cancel_bet_exact_witness:
  "\<exists>i p s'. CancelBet i ''alice'' sample_placed_db = Inr (p, s') \<and> betting_ok s' \<and> CancelBet i ''alice'' s' = Inr (p, s')"
proof -
  obtain i p s' where i: "map b_id (bets sample_placed_db) = [i]" and run: "CancelBet i ''alice'' sample_placed_db = Inr (p, s')"
    using sample_cancel_bet by (elim exE conjE)
  have m: "StakeMinor sample_request \<le> max_int64" by (simp add: sample_request_def max_int64_def)
  obtain x t where "placeBetTx False sample_request sample_open_db = Inr (x, t)" using sample_place by blast
  then have ok: "betting_ok sample_placed_db" using placeBetTx_keeps [OF sample_open_ok _ m] by (simp add: sample_placed_db_def attempt_def)
  have "list_all (\<lambda>b. b_user b = ''alice'' \<and> b_status b = BetAccepted) (bets sample_placed_db)" by code_simp
  then obtain b where b: "lookup (\<lambda>b. b_id b = i \<and> b_user b = ''alice'') (bets sample_placed_db) = Some b" "b_status b \<noteq> BetCancelled"
    using i by (cases "bets sample_placed_db") auto
  show ?thesis using cancel_bet_exact [OF ok run b] run by blast
qed


lemma digit_text: "is_digit c \<Longrightarrow> \<exists>d. 0 \<le> d \<and> d \<le> 9 \<and> [c] = format_int d"
proof -
  assume c: "is_digit c"
  let ?d = "int (code c) - 48"
  have d: "0 \<le> ?d" "?d \<le> 9" using c by (simp_all add: is_digit_def)
  have "48 + nat ?d = code c" using d by linarith
  then have "digit_char (nat ?d) = c" unfolding digit_char_def by (simp add: code_def)
  then have "format_int ?d = [c]" using d by (simp add: format_int_def format_nat.simps)
  then show ?thesis using d by (intro exI [of _ ?d]) simp
qed

lemma format_digits: "map format_int [0..9] = [''0'', ''1'', ''2'', ''3'', ''4'', ''5'', ''6'', ''7'', ''8'', ''9'']"
  by code_simp

lemma winning_digits: "map (winning_digit \<circ> sharedHashOutcome) [0..9] = map format_int [0..9]"
  by code_simp

lemma road_outcomes:
  "map (\<lambda>d. containsOutcome (sharedHashOutcome d) ''big'') [0..9] = map (\<lambda>d. d \<ge> 5) [0..9]"
  "map (\<lambda>d. containsOutcome (sharedHashOutcome d) ''small'') [0..9] = map (\<lambda>d. d < 5) [0..9]"
  "map (\<lambda>d. containsOutcome (sharedHashOutcome d) ''odd'') [0..9] = map (\<lambda>d. d mod 2 = 1) [0..9]"
  "map (\<lambda>d. containsOutcome (sharedHashOutcome d) ''even'') [0..9] = map (\<lambda>d. d mod 2 = 0) [0..9]"
  by code_simp+


lemma filter_map_cong: "map P xs = map Q xs \<Longrightarrow> filter P xs = filter Q xs"
  by (rule filter_cong) (simp_all add: map_eq_conv)

lemma digit_picks: "k \<in> set [0..9] \<Longrightarrow> filter (\<lambda>d. format_int k = format_int d) [0..9] = [k]"
proof -
  have "list_all (\<lambda>k. filter (\<lambda>d. format_int k = format_int d) [0..9] = [k]) [0..9]" by code_simp
  then show "k \<in> set [0..9] \<Longrightarrow> ?thesis" by (simp add: list_all_iff)
qed

lemma length_filter_not: "length (filter (\<lambda>x. \<not> P x) xs) = length xs - length (filter P xs)"
  using sum_length_filter_compl [of P xs] by simp

text \<open>The odds the shared hash game is priced for: of the ten digits a block can show, an accepted guess wins on one, a dodge on
  nine, and every road bet on five.\<close>

theorem hash_fair_odds:
  assumes "validHashSelection mode (Some sel)"
  shows "length (filter (\<lambda>d. hashSelectionWins mode sel (sharedHashOutcome d)) [0..9])
    = (if mode = ''guess'' then 1 else if mode = ''dodge'' then 9 else 5)"
proof -
  have w: "winning_digit (sharedHashOutcome d) = format_int d" "format_int d \<noteq> []" if "d \<in> set [0..9]" for d
    using winning_digits that by (auto simp: map_eq_conv format_int_def)
  obtain pick where pick: "decode_pick (Some sel) = Some pick" using assms by (auto simp: validHashSelection_def split: option.splits)
  consider (digit) k where "mode = ''guess'' \<or> mode = ''dodge''" "k \<in> set [0..9]" "pick = format_int k"
    | (road) "mode = ''road''" "pick \<in> {''big'', ''small'', ''odd'', ''even''}"
  proof (cases "mode = ''guess'' \<or> mode = ''dodge''")
    case True
    then have "\<exists>c. pick = [c] \<and> is_digit c" using assms pick by (auto simp: validHashSelection_def length_Suc_conv)
    then obtain c k where "pick = [c]" "0 \<le> k" "k \<le> 9" "[c] = format_int k" using digit_text by blast
    then show thesis using digit [OF True, of k] by simp
  next
    case False
    then show thesis using assms pick road by (auto simp: validHashSelection_def split: if_splits)
  qed
  then show ?thesis
  proof cases
    case digit
    have g: "length (filter (\<lambda>d. pick = winning_digit (sharedHashOutcome d)) [0..9]) = 1"
      using digit_picks [OF digit(2)] w digit(3) by (metis (mono_tags, lifting) filter_cong length_Cons list.size(3) One_nat_def)
    have p: "pick \<noteq> []" using w digit by simp
    have "filter (\<lambda>d. hashSelectionWins ''guess'' sel (sharedHashOutcome d)) [0..9] = filter (\<lambda>d. pick = winning_digit (sharedHashOutcome d)) [0..9]"
      by (rule filter_cong [OF refl]) (use w p in \<open>simp add: hashSelectionWins_def pick Let_def\<close>)
    moreover have "filter (\<lambda>d. hashSelectionWins ''dodge'' sel (sharedHashOutcome d)) [0..9] = filter (\<lambda>d. \<not> pick = winning_digit (sharedHashOutcome d)) [0..9]"
      by (rule filter_cong [OF refl]) (use w p in \<open>simp add: hashSelectionWins_def pick Let_def\<close>)
    moreover have "length [0..9::int] = 10" by code_simp
    ultimately show ?thesis using g digit(1) length_filter_not [of "\<lambda>d. pick = winning_digit (sharedHashOutcome d)" "[0..9]"] by auto
  next
    case road
    have n: "length (filter (\<lambda>d. d \<ge> 5) [0..9::int]) = 5 \<and> length (filter (\<lambda>d. d < 5) [0..9::int]) = 5
      \<and> length (filter (\<lambda>d. d mod 2 = 1) [0..9::int]) = 5 \<and> length (filter (\<lambda>d. d mod 2 = 0) [0..9::int]) = 5" by code_simp
    have "filter (\<lambda>d. hashSelectionWins mode sel (sharedHashOutcome d)) [0..9] = filter (\<lambda>d. containsOutcome (sharedHashOutcome d) pick) [0..9]"
      using road by (auto simp: hashSelectionWins_def pick)
    then show ?thesis using road(2) n road_outcomes [THEN filter_map_cong] road(1) by auto
  qed
qed

theorem hash_fair_odds_witness:
  "length (filter (\<lambda>d. hashSelectionWins ''dodge'' (pick_of ''5'') (sharedHashOutcome d)) [0..9]) = 9"
proof -
  have "validHashSelection ''dodge'' (Some (pick_of ''5''))" by code_simp
  then show ?thesis using hash_fair_odds by simp
qed


text \<open>A shared hash game whose room takes at most 100 on one guess.\<close>

definition sample_hash_db :: db where
  "sample_hash_db = sample_open_db\<lparr>
     game_types := [\<lparr>gt_id = ''game'', gt_code = ''hash'', gt_name = ''Hash'', gt_enabled = True,
        gt_rules = JObj [(''outcomes'', JArr (map JStr [''0'', ''big''])), (''payout_multiplier'', JNum ''98''), (''payout_divisor'', JNum ''10''),
           (''extras'', JObj [(''hash_shared'', JBool True)])],
        gt_room = None, gt_interval = None, gt_close_before = 0\<rparr>],
     game_rooms := [\<lparr>gr_id = ''room'', gr_code = ''R1'', gr_name = ''Room'', gr_kind = ''hash'', gr_enabled = True\<rparr>],
     game_room_types := [(''room'', ''game'')],
     hash_configs := [\<lparr>hc_room = ''room'', hc_currency = ''POINTS'', hc_guess_mult = 98, hc_guess_div = 10, hc_dodge_mult = 108,
        hc_dodge_div = 100, hc_road_mult = 19, hc_road_div = 10, hc_guess_max = 100, hc_dodge_max = 100, hc_road_max = 100, hc_min = 1\<rparr>]\<rparr>"

definition hash_request :: "string \<Rightarrow> string \<Rightarrow> PlaceBetRequest" where
  "hash_request member request = sample_request\<lparr>ClientRequestID := request, GameRoomID := ''room'', PlayMode := ''guess'',
     Selection := Some (JObj [(member, JStr ''5'')])\<rparr>"

text \<open>The stake of the accepted orders of an account in a round.\<close>

definition staked :: "db \<Rightarrow> string \<Rightarrow> string \<Rightarrow> int" where
  "staked s user roundID = sum_list (map b_stake (filter (\<lambda>b. b_user b = user \<and> b_round b = roundID \<and> b_status b = BetAccepted) (bets s)))"

lemma sample_hash_ok: "betting_ok sample_hash_db"
proof -
  have ok: "books_ok sample_open_db" "bets_ok sample_open_db" "round_keys sample_open_db" "orders_ok sample_open_db"
    using sample_open_ok by (simp_all add: betting_ok_def platform_ok_def)
  have "books_ok sample_hash_db" using books_ok_cong [OF ok(1)] by (simp add: sample_hash_db_def)
  moreover have "bets_ok sample_hash_db" "round_keys sample_hash_db" "orders_ok sample_hash_db"
    using ok by (simp_all add: bets_ok_def round_keys_def orders_ok_def placed_on_def sample_hash_db_def wallet_by_id_def)
  ultimately show ?thesis by (simp add: betting_ok_def platform_ok_def)
qed

lemma only_Inl: "(case f of Inl e \<Rightarrow> e = x | Inr r \<Rightarrow> False) \<longleftrightarrow> f = Inl x"
  by (cases f) auto

lemma only_Inr: "(case f of Inl e \<Rightarrow> False | Inr (p, s) \<Rightarrow> P p s) \<longleftrightarrow> (\<exists>p s. f = Inr (p, s) \<and> P p s)"
  by (cases f) auto

lemma hash_run_exact:
  "case placeBetTx False (hash_request ''pick'' ''q1'') sample_hash_db of Inl e \<Rightarrow> False
   | Inr (p, s) \<Rightarrow> (case placeBetTx False (hash_request ''pick'' ''q2'') s of Inl e \<Rightarrow> e = Betting ErrStakeOutsideLimits | Inr r \<Rightarrow> False)"
  by code_simp

lemma hash_run_case:
  "case placeBetTx False (hash_request ''Pick'' ''q1'') sample_hash_db of Inl e \<Rightarrow> False
   | Inr (p, s) \<Rightarrow> (case placeBetTx False (hash_request ''Pick'' ''q2'') s of Inl e \<Rightarrow> False
   | Inr (p', s') \<Rightarrow> staked s' ''alice'' ''r1'' = 200)"
  by code_simp


text \<open>C39: The per-pick maximum of the hash rooms counts the stakes already placed on the same pick by the JSON text at the member
  named \<^verbatim>\<open>pick\<close>, while the selection check and the settlement read the member whatever its case. A selection spelled
  \<^verbatim>\<open>Pick\<close> is accepted but never counted: the same guess repeated under that spelling passes the maximum that
  stops it under the other.\<close>

theorem hash_limit_bypass:
  assumes "json_text (jsonb sel) ''pick'' = None"
  shows "existing_stake q sel s = 0
    \<and> (\<exists>p s1. placeBetTx False (hash_request ''pick'' ''q1'') sample_hash_db = Inr (p, s1)
          \<and> placeBetTx False (hash_request ''pick'' ''q2'') s1 = Inl (Betting ErrStakeOutsideLimits))
    \<and> (\<exists>p s1 p' s2. placeBetTx False (hash_request ''Pick'' ''q1'') sample_hash_db = Inr (p, s1)
          \<and> placeBetTx False (hash_request ''Pick'' ''q2'') s1 = Inr (p', s2)
          \<and> staked s2 ''alice'' ''r1'' = 2 * hc_guess_max (hd (hash_configs sample_hash_db)))"
proof (intro conjI)
  have "\<not> same_pick x (jsonb sel)" for x using assms by (auto simp: same_pick_def)
  then show "existing_stake q sel s = 0" by (simp add: existing_stake_def)
  show "\<exists>p s1. placeBetTx False (hash_request ''pick'' ''q1'') sample_hash_db = Inr (p, s1)
          \<and> placeBetTx False (hash_request ''pick'' ''q2'') s1 = Inl (Betting ErrStakeOutsideLimits)"
    using hash_run_exact unfolding only_Inl only_Inr by blast
  have "hc_guess_max (hd (hash_configs sample_hash_db)) = 100" by (simp add: sample_hash_db_def)
  then show "\<exists>p s1 p' s2. placeBetTx False (hash_request ''Pick'' ''q1'') sample_hash_db = Inr (p, s1)
          \<and> placeBetTx False (hash_request ''Pick'' ''q2'') s1 = Inr (p', s2)
          \<and> staked s2 ''alice'' ''r1'' = 2 * hc_guess_max (hd (hash_configs sample_hash_db))"
    using hash_run_case unfolding only_Inr by auto
qed

theorem hash_limit_bypass_witness:
  "existing_stake (hash_request ''Pick'' ''q2'') (JObj [(''Pick'', JStr ''5'')]) sample_hash_db = 0"
proof -
  have "json_text (jsonb (JObj [(''Pick'', JStr ''5'')])) ''pick'' = None" by code_simp
  then show ?thesis using hash_limit_bypass by blast
qed

text \<open>In a game with general rules the play mode of a request is never checked, and the terms are those of the rules; the settlement
  however decides every bet with a mode by the hash plays. A guess sent with the mode \<^verbatim>\<open>dodge\<close> is thus accepted at
  the odds of the guess and wins on every other digit.\<close>

theorem play_mode_unchecked:
  assumes "\<not> sharedHashRules rules" "\<not> sharedLuluRules rules" "is_digit c" "is_digit d" "c \<noteq> d"
    and "MatchField rules \<in> {[], ''pick''}" "\<not> DodgeMode rules"
  shows "play_terms (q\<lparr>PlayMode := ''dodge''\<rparr>) (pick_of [c]) r t rules s = play_terms (q\<lparr>PlayMode := []\<rparr>) (pick_of [c]) r t rules s
    \<and> selectionWins rules plays [] (pick_of [c]) now [[d]] = Inr False
    \<and> selectionWins rules plays ''dodge'' (pick_of [c]) now [[d]] = Inr True"
proof -
  have "SelectionWins rules (pick_of [c]) [[d]] = False"
    using SelectionWins_pick [OF assms(6), of "[c]" "[[d]]"] assms(5,7) by simp
  moreover have "winning_digit [[d]] = [d]" using assms(4) by (simp add: winning_digit_def)
  ultimately show ?thesis using assms(1,2,5) by (simp add: play_terms_def plain_terms_def selectionWins_def hashSelectionWins_def Let_def split: option.splits)
qed

theorem play_mode_unchecked_witness:
  "selectionWins sample_rules [] ''dodge'' (pick_of ''3'') 0 [''7''] = Inr True \<and> selectionWins sample_rules [] [] (pick_of ''3'') 0 [''7''] = Inr False"
proof -
  have "\<not> sharedHashRules sample_rules" "\<not> sharedLuluRules sample_rules"
    by (simp_all add: sharedHashRules_def sharedLuluRules_def sample_rules_def)
  then show ?thesis
    using play_mode_unchecked [of sample_rules "CHR ''3''" "CHR ''7''"] by (simp add: is_digit_def code_def sample_rules_def)
qed

end
