(* ===== verification/Wallet_Repo.thy ===== *)
theory Wallet_Repo
  imports Books
begin

text \<open>
  The wallet repositories: \<^verbatim>\<open>internal/domain/wallet/ledger.go\<close> (the interface), \<^verbatim>\<open>memory.go\<close> and
  \<^verbatim>\<open>postgres.go\<close>, and \<^verbatim>\<open>currency.go\<close>. The interface is the locale \<open>wallet_repository\<close>; it is
  interpreted on both implementations, so the retry and balance lemmas proved in it hold for
  the in-memory and for the PostgreSQL repository.
\<close>

section \<open>ledger.go\<close>

datatype EntryType =
    EntryBetDebit | EntrySettlementCredit | EntryRefund | EntryDeposit | EntryWithdrawal | EntryCommission

fun entry_code :: "EntryType \<Rightarrow> string" where
  "entry_code EntryBetDebit = ''bet_debit''"
| "entry_code EntrySettlementCredit = ''settlement_credit''"
| "entry_code EntryRefund = ''refund''"
| "entry_code EntryDeposit = ''deposit''"
| "entry_code EntryWithdrawal = ''withdrawal''"
| "entry_code EntryCommission = ''commission''"

record LedgerEntry =
  EntryID :: string
  AccountID :: string
  BusinessID :: string
  Type :: EntryType
  AmountMinor :: int
  Currency :: string
  OccurredAt :: int

record AccountBalance =
  BalanceAccount :: string
  BalanceCurrency :: string
  AvailableMinor :: int
  FrozenMinor :: int

section \<open>memory.go\<close>

text \<open>The two Go maps, and the sources of \<^verbatim>\<open>newID\<close> and \<^verbatim>\<open>time.Now\<close>.\<close>

record MemoryRepository =
  balances :: "string \<rightharpoonup> AccountBalance"
  mem_entries :: "string \<rightharpoonup> LedgerEntry"
  mem_ids :: "nat \<Rightarrow> string"
  mem_next :: nat
  mem_now :: int

definition NewMemoryRepository :: "(nat \<Rightarrow> string) \<Rightarrow> int \<Rightarrow> MemoryRepository" where
  "NewMemoryRepository ids now = \<lparr>balances = Map.empty, mem_entries = Map.empty, mem_ids = ids, mem_next = 0, mem_now = now\<rparr>"

definition balanceKey :: "string \<Rightarrow> string \<Rightarrow> string" where
  "balanceKey accountID currency = accountID @ '':'' @ currency"

definition idempotencyKey :: "string \<Rightarrow> string \<Rightarrow> EntryType \<Rightarrow> string" where
  "idempotencyKey accountID businessID entryType = accountID @ '':'' @ businessID @ '':'' @ entry_code entryType"

definition Seed :: "string \<Rightarrow> string \<Rightarrow> int \<Rightarrow> MemoryRepository \<Rightarrow> MemoryRepository" where
  "Seed accountID currency available r =
     r\<lparr>balances := (balances r)(balanceKey accountID currency \<mapsto>
        \<lparr>BalanceAccount = accountID, BalanceCurrency = currency, AvailableMinor = available, FrozenMinor = 0\<rparr>)\<rparr>"

definition mem_DebitForBet :: "string \<Rightarrow> string \<Rightarrow> int \<Rightarrow> string \<Rightarrow> MemoryRepository \<Rightarrow> error + (LedgerEntry \<times> MemoryRepository)" where
  "mem_DebitForBet accountID businessID amount currency r =
     (if amount \<le> 0 then Inl (Wallet ErrInvalidAmount)
      else let entryKey = idempotencyKey accountID businessID EntryBetDebit in
      case mem_entries r entryKey of
        Some e \<Rightarrow> Inr (e, r)
      | None \<Rightarrow>
          (case balances r (balanceKey accountID currency) of
             None \<Rightarrow> Inl (Wallet ErrWalletNotFound)
           | Some balance \<Rightarrow>
               if AvailableMinor balance < amount then Inl (Wallet ErrInsufficientFunds)
               else let balance = balance\<lparr>AvailableMinor := wrap64 (AvailableMinor balance - amount)\<rparr>;
                        e = \<lparr>EntryID = mem_ids r (mem_next r), AccountID = accountID, BusinessID = businessID,
                             Type = EntryBetDebit, AmountMinor = wrap64 (- amount), Currency = currency, OccurredAt = mem_now r\<rparr>
                    in Inr (e, r\<lparr>balances := (balances r)(balanceKey accountID currency \<mapsto> balance),
                                mem_entries := (mem_entries r)(entryKey \<mapsto> e), mem_next := Suc (mem_next r)\<rparr>)))"

definition mem_CreditSettlement :: "string \<Rightarrow> string \<Rightarrow> int \<Rightarrow> string \<Rightarrow> MemoryRepository \<Rightarrow> error + (LedgerEntry \<times> MemoryRepository)" where
  "mem_CreditSettlement accountID businessID amount currency r =
     (if amount \<le> 0 then Inl (Wallet ErrInvalidAmount)
      else let entryKey = idempotencyKey accountID businessID EntrySettlementCredit in
      case mem_entries r entryKey of
        Some e \<Rightarrow> Inr (e, r)
      | None \<Rightarrow>
          (case balances r (balanceKey accountID currency) of
             None \<Rightarrow> Inl (Wallet ErrWalletNotFound)
           | Some balance \<Rightarrow>
               let balance = balance\<lparr>AvailableMinor := wrap64 (AvailableMinor balance + amount)\<rparr>;
                   e = \<lparr>EntryID = mem_ids r (mem_next r), AccountID = accountID, BusinessID = businessID,
                        Type = EntrySettlementCredit, AmountMinor = amount, Currency = currency, OccurredAt = mem_now r\<rparr>
               in Inr (e, r\<lparr>balances := (balances r)(balanceKey accountID currency \<mapsto> balance),
                           mem_entries := (mem_entries r)(entryKey \<mapsto> e), mem_next := Suc (mem_next r)\<rparr>)))"

definition mem_Balance :: "string \<Rightarrow> string \<Rightarrow> MemoryRepository \<Rightarrow> error + AccountBalance" where
  "mem_Balance accountID currency r = orErr (Wallet ErrWalletNotFound) (balances r (balanceKey accountID currency))"

section \<open>postgres.go\<close>

definition findEntry :: "string \<Rightarrow> string \<Rightarrow> string \<Rightarrow> string \<Rightarrow> EntryType \<Rightarrow> db \<Rightarrow> LedgerEntry option" where
  "findEntry accountID businessID currency businessType entryType s =
     (case wallet_of s accountID currency of
        None \<Rightarrow> None
      | Some w \<Rightarrow> map_option
          (\<lambda>e. \<lparr>EntryID = l_id e, AccountID = w_user w, BusinessID = l_bid e, Type = entryType,
                AmountMinor = l_amount e, Currency = w_currency w, OccurredAt = l_at e\<rparr>)
          (lookup (\<lambda>e. l_wallet e = w_id w \<and> l_btype e = businessType \<and> l_bid e = businessID
                     \<and> l_etype e = entry_code entryType) (ledger s)))"

definition mutate :: "string \<Rightarrow> string \<Rightarrow> int \<Rightarrow> string \<Rightarrow> string \<Rightarrow> EntryType \<Rightarrow> int \<Rightarrow> LedgerEntry tx" where
  "mutate accountID businessID amount currency businessType entryType delta s =
     (if amount \<le> 0 then Inl (Wallet ErrInvalidAmount)
      else case findEntry accountID businessID currency businessType entryType s of
        Some e \<Rightarrow> Inr (e, s)
      | None \<Rightarrow>
          bindE (orErr (Wallet ErrWalletNotFound) (wallet_of s accountID currency)) (\<lambda>w.
          case findEntry accountID businessID currency businessType entryType s of
            Some e \<Rightarrow> Inr (e, s)
          | None \<Rightarrow>
              if wrap64 (w_available w + delta) < 0 then Inl (Wallet ErrInsufficientFunds)
              else let available = wrap64 (w_available w + delta) in
              bindE (set_available (w_id w) available s) (\<lambda>s1.
              bindE (insert_ledger (w_id w) businessType businessID (entry_code entryType) delta available s1) (\<lambda>s2.
              Inr (\<lparr>EntryID = uuids s1 (next_uuid s1), AccountID = accountID, BusinessID = businessID, Type = entryType,
                    AmountMinor = delta, Currency = currency, OccurredAt = clock s1\<rparr>, s2)))))"

definition pg_DebitForBet :: "string \<Rightarrow> string \<Rightarrow> int \<Rightarrow> string \<Rightarrow> LedgerEntry tx" where
  "pg_DebitForBet accountID businessID amount currency s =
     mutate accountID businessID amount currency ''bet'' EntryBetDebit (wrap64 (- amount)) s"

definition pg_CreditSettlement :: "string \<Rightarrow> string \<Rightarrow> int \<Rightarrow> string \<Rightarrow> LedgerEntry tx" where
  "pg_CreditSettlement accountID businessID amount currency s =
     mutate accountID businessID amount currency ''settlement'' EntrySettlementCredit amount s"

definition pg_Balance :: "string \<Rightarrow> string \<Rightarrow> db \<Rightarrow> error + AccountBalance" where
  "pg_Balance accountID currency s =
     orErr (Wallet ErrWalletNotFound)
       (map_option (\<lambda>w. \<lparr>BalanceAccount = w_user w, BalanceCurrency = w_currency w,
                         AvailableMinor = w_available w, FrozenMinor = w_frozen w\<rparr>)
         (wallet_of s accountID currency))"

section \<open>currency.go\<close>

definition ResolveDecimals :: "db \<Rightarrow> string \<Rightarrow> bool \<Rightarrow> error + int" where
  "ResolveDecimals s currency enabledOnly =
     (case lookup (\<lambda>c. c_code c = to_upper (trim_space currency)) (currencies s) of
        None \<Rightarrow> Inl (Wallet ErrUnknownCurrency)
      | Some c \<Rightarrow> if enabledOnly \<and> \<not> c_enabled c then Inl (Wallet ErrCurrencyDisabled)
                  else Inr (c_decimals c))"

section \<open>The interface\<close>

text \<open>
  \<open>entry\<close> observes the entry a repository has recorded for a business id, \<open>inv\<close> is the
  repository's invariant and \<open>supplied\<close> says that its id source yields unused ids. Ids and
  currency codes are \<open>plain\<close>: they have no colon (they are UUIDs and upper-case codes), which
  the key strings of the in-memory repository rely on.
\<close>

definition plain :: "string \<Rightarrow> bool" where
  "plain v \<longleftrightarrow> CHR '':'' \<notin> set v"

locale wallet_repository =
  fixes DebitForBet CreditSettlement :: "string \<Rightarrow> string \<Rightarrow> int \<Rightarrow> string \<Rightarrow> 's \<Rightarrow> error + (LedgerEntry \<times> 's)"
    and Balance :: "string \<Rightarrow> string \<Rightarrow> 's \<Rightarrow> error + AccountBalance"
    and entry :: "string \<Rightarrow> string \<Rightarrow> string \<Rightarrow> EntryType \<Rightarrow> 's \<Rightarrow> LedgerEntry option"
    and inv :: "'s \<Rightarrow> bool" and supplied :: "'s \<Rightarrow> bool"
  assumes debit_inv: "inv s \<Longrightarrow> DebitForBet a b n c s = Inr (e, s') \<Longrightarrow> inv s'"
    and credit_inv: "inv s \<Longrightarrow> CreditSettlement a b n c s = Inr (e, s') \<Longrightarrow>
          (\<And>bal. Balance a c s = Inr bal \<Longrightarrow> AvailableMinor bal + n \<le> max_int64) \<Longrightarrow> inv s'"
    and balance_range: "inv s \<Longrightarrow> Balance a c s = Inr bal \<Longrightarrow> in_range (AvailableMinor bal)"
    and debit_nonpositive: "n \<le> 0 \<Longrightarrow> DebitForBet a b n c s = Inl (Wallet ErrInvalidAmount)"
    and credit_nonpositive: "n \<le> 0 \<Longrightarrow> CreditSettlement a b n c s = Inl (Wallet ErrInvalidAmount)"
    and debit_repeat: "0 < n \<Longrightarrow> entry a b c EntryBetDebit s = Some e \<Longrightarrow> DebitForBet a b n c s = Inr (e, s)"
    and credit_repeat: "0 < n \<Longrightarrow> entry a b c EntrySettlementCredit s = Some e \<Longrightarrow> CreditSettlement a b n c s = Inr (e, s)"
    and debit_unknown: "0 < n \<Longrightarrow> entry a b c EntryBetDebit s = None \<Longrightarrow> Balance a c s = Inl x \<Longrightarrow>
          DebitForBet a b n c s = Inl (Wallet ErrWalletNotFound)"
    and debit_insufficient: "inv s \<Longrightarrow> 0 < n \<Longrightarrow> n \<le> max_int64 \<Longrightarrow> entry a b c EntryBetDebit s = None \<Longrightarrow>
          Balance a c s = Inr bal \<Longrightarrow> AvailableMinor bal < n \<Longrightarrow>
          DebitForBet a b n c s = Inl (Wallet ErrInsufficientFunds)"
    and debit_effect: "inv s \<Longrightarrow> 0 < n \<Longrightarrow> n \<le> max_int64 \<Longrightarrow> entry a b c EntryBetDebit s = None \<Longrightarrow>
          DebitForBet a b n c s = Inr (e, s') \<Longrightarrow>
          \<exists>bal. Balance a c s = Inr bal \<and> n \<le> AvailableMinor bal
            \<and> Balance a c s' = Inr (bal\<lparr>AvailableMinor := AvailableMinor bal - n\<rparr>)
            \<and> entry a b c EntryBetDebit s' = Some e \<and> AmountMinor e = - n"
    and debit_other: "inv s \<Longrightarrow> DebitForBet a b n c s = Inr (e, s') \<Longrightarrow> plain a \<Longrightarrow> plain a' \<Longrightarrow>
          (a', c') \<noteq> (a, c) \<Longrightarrow> Balance a' c' s' = Balance a' c' s"
    and credit_effect: "inv s \<Longrightarrow> 0 < n \<Longrightarrow> n \<le> max_int64 \<Longrightarrow> entry a b c EntrySettlementCredit s = None \<Longrightarrow>
          (\<And>bal. Balance a c s = Inr bal \<Longrightarrow> AvailableMinor bal + n \<le> max_int64) \<Longrightarrow>
          CreditSettlement a b n c s = Inr (e, s') \<Longrightarrow>
          \<exists>bal. Balance a c s = Inr bal
            \<and> Balance a c s' = Inr (bal\<lparr>AvailableMinor := AvailableMinor bal + n\<rparr>)
            \<and> entry a b c EntrySettlementCredit s' = Some e \<and> AmountMinor e = n"
    and debit_keeps_credits: "inv s \<Longrightarrow> DebitForBet a b n c s = Inr (e, s') \<Longrightarrow>
          entry a b' c' EntrySettlementCredit s' = entry a b' c' EntrySettlementCredit s"
    and debit_live: "inv s \<Longrightarrow> supplied s \<Longrightarrow> 0 < n \<Longrightarrow> n \<le> max_int64 \<Longrightarrow> Balance a c s = Inr bal \<Longrightarrow>
          n \<le> AvailableMinor bal \<Longrightarrow> \<exists>e s'. DebitForBet a b n c s = Inr (e, s')"
begin

text \<open>A retry of a debit, with whatever amount, returns the first entry and changes nothing.\<close>

lemma debit_retry:
  assumes "inv s" "0 < n" "n \<le> max_int64" "DebitForBet a b n c s = Inr (e, s')" "0 < m"
  shows "DebitForBet a b m c s' = Inr (e, s')"
proof (cases "entry a b c EntryBetDebit s")
  case None
  then show ?thesis using debit_effect [OF assms(1,2,3) None assms(4)] debit_repeat [OF assms(5)] by blast
next
  case (Some x)
  then have "x = e \<and> s' = s" using debit_repeat [OF assms(2) Some] assms(4) by simp
  then show ?thesis using debit_repeat [OF assms(5), of a b c s] Some by simp
qed

text \<open>A bet followed by its settlement: the balance moves by the payout less the stake.\<close>

lemma bet_then_settle:
  assumes "inv s" "0 < n" "n \<le> max_int64" "0 < m" "m \<le> max_int64"
    and "entry a b c EntryBetDebit s = None" "entry a b c EntrySettlementCredit s = None"
    and "DebitForBet a b n c s = Inr (e, s1)" "CreditSettlement a b m c s1 = Inr (f, s2)"
    and "Balance a c s = Inr bal" "AvailableMinor bal - n + m \<le> max_int64"
  shows "\<exists>bal2. Balance a c s2 = Inr bal2 \<and> AvailableMinor bal2 = AvailableMinor bal - n + m \<and> 0 \<le> AvailableMinor bal - n"
proof -
  have b1: "Balance a c s1 = Inr (bal\<lparr>AvailableMinor := AvailableMinor bal - n\<rparr>)" and le: "n \<le> AvailableMinor bal"
    using debit_effect [OF assms(1,2,3,6,8)] assms(10) by auto
  have "entry a b c EntrySettlementCredit s1 = None"
    using debit_keeps_credits [OF assms(1,8)] assms(7) by simp
  from credit_effect [OF debit_inv [OF assms(1,8)] assms(4,5) this _ assms(9)] b1 assms(11)
  show ?thesis using le by auto
qed

end

section \<open>The in-memory repository implements it\<close>

definition mem_inv :: "MemoryRepository \<Rightarrow> bool" where
  "mem_inv r \<longleftrightarrow> (\<forall>bal \<in> ran (balances r). in_range (AvailableMinor bal))"

definition mem_entry :: "string \<Rightarrow> string \<Rightarrow> string \<Rightarrow> EntryType \<Rightarrow> MemoryRepository \<Rightarrow> LedgerEntry option" where
  "mem_entry a b c t r = mem_entries r (idempotencyKey a b t)"

lemma colon_inject:
  assumes "CHR '':'' \<notin> set a" "CHR '':'' \<notin> set a'" "a @ CHR '':'' # c = a' @ CHR '':'' # c'"
  shows "a = a' \<and> c = c'"
  using assms
proof (induction a arbitrary: a')
  case Nil
  then show ?case by (cases a') auto
next
  case (Cons x a)
  then show ?case by (cases a') auto
qed

lemma balanceKey_inject: "plain a \<Longrightarrow> plain a' \<Longrightarrow> balanceKey a c = balanceKey a' c' \<Longrightarrow> a = a' \<and> c = c'"
  unfolding balanceKey_def plain_def append.simps by (rule colon_inject)

lemma append_last5: "xs @ u = ys @ v \<Longrightarrow> 5 \<le> length u \<Longrightarrow> 5 \<le> length v \<Longrightarrow> take 5 (rev u) = take 5 (rev v)"
proof -
  assume a: "xs @ u = ys @ v" "5 \<le> length u" "5 \<le> length v"
  have "take 5 (rev u @ rev xs) = take 5 (rev v @ rev ys)" using arg_cong [OF a(1), of rev] by simp
  then show ?thesis using a(2,3) by simp
qed

lemma idempotencyKey_kind: "idempotencyKey a b EntryBetDebit \<noteq> idempotencyKey a' b' EntrySettlementCredit"
proof
  assume "idempotencyKey a b EntryBetDebit = idempotencyKey a' b' EntrySettlementCredit"
  then have "(a @ '':'' @ b @ '':'') @ ''bet_debit'' = (a' @ '':'' @ b' @ '':'') @ ''settlement_credit''"
    by (simp add: idempotencyKey_def)
  then have "take 5 (rev ''bet_debit'') = take 5 (rev ''settlement_credit'')"
    by (rule append_last5) simp_all
  then show False by simp
qed

lemma mem_inv_get: "mem_inv r \<Longrightarrow> balances r k = Some bal \<Longrightarrow> in_range (AvailableMinor bal)"
  by (auto simp: mem_inv_def ran_def)

lemma mem_inv_put:
  "mem_inv r \<Longrightarrow> in_range (AvailableMinor bal) \<Longrightarrow> mem_inv (r\<lparr>balances := (balances r)(k \<mapsto> bal), mem_entries := es, mem_next := n\<rparr>)"
  by (auto simp: mem_inv_def ran_def)

lemma mem_debit_new:
  assumes "mem_inv r" "0 < n" "mem_entries r (idempotencyKey a b EntryBetDebit) = None"
    and "balances r (balanceKey a c) = Some bal" "n \<le> AvailableMinor bal"
  shows "\<exists>e. AmountMinor e = - n \<and> mem_DebitForBet a b n c r =
    Inr (e, r\<lparr>balances := (balances r)(balanceKey a c \<mapsto> bal\<lparr>AvailableMinor := AvailableMinor bal - n\<rparr>),
              mem_entries := (mem_entries r)(idempotencyKey a b EntryBetDebit \<mapsto> e), mem_next := Suc (mem_next r)\<rparr>)"
proof -
  have "int64 (AvailableMinor bal - n)" "int64 (- n)"
    using mem_inv_get [OF assms(1,4)] assms(2,5) by (auto simp: in_range_def int64_def max_int64_def)
  then show ?thesis using assms by (simp add: mem_DebitForBet_def Let_def)
qed

lemma mem_debit_Inr:
  assumes "mem_inv r" "mem_DebitForBet a b n c r = Inr (e, r')"
  shows "0 < n \<and> (mem_entries r (idempotencyKey a b EntryBetDebit) = Some e \<and> r' = r
     \<or> mem_entries r (idempotencyKey a b EntryBetDebit) = None \<and>
       (\<exists>bal. balances r (balanceKey a c) = Some bal \<and> n \<le> AvailableMinor bal \<and> AmountMinor e = - n \<and>
         r' = r\<lparr>balances := (balances r)(balanceKey a c \<mapsto> bal\<lparr>AvailableMinor := AvailableMinor bal - n\<rparr>),
                mem_entries := (mem_entries r)(idempotencyKey a b EntryBetDebit \<mapsto> e), mem_next := Suc (mem_next r)\<rparr>))"
proof -
  have n: "0 < n" using assms(2) by (simp add: mem_DebitForBet_def split: if_splits)
  show ?thesis
  proof (cases "mem_entries r (idempotencyKey a b EntryBetDebit)")
    case None
    then obtain bal where bal: "balances r (balanceKey a c) = Some bal" "n \<le> AvailableMinor bal"
      using assms(2) n by (auto simp: mem_DebitForBet_def Let_def split: option.splits if_splits)
    show ?thesis using mem_debit_new [OF assms(1) n None bal] assms(2) n None bal by auto
  next
    case (Some x)
    then show ?thesis using assms(2) n by (auto simp: mem_DebitForBet_def Let_def)
  qed
qed

lemma mem_credit_Inr:
  assumes "mem_CreditSettlement a b n c r = Inr (e, r')"
  shows "0 < n \<and> (mem_entries r (idempotencyKey a b EntrySettlementCredit) = Some e \<and> r' = r
     \<or> mem_entries r (idempotencyKey a b EntrySettlementCredit) = None \<and>
       (\<exists>bal. balances r (balanceKey a c) = Some bal \<and> AmountMinor e = n \<and>
         r' = r\<lparr>balances := (balances r)(balanceKey a c \<mapsto> bal\<lparr>AvailableMinor := wrap64 (AvailableMinor bal + n)\<rparr>),
                mem_entries := (mem_entries r)(idempotencyKey a b EntrySettlementCredit \<mapsto> e), mem_next := Suc (mem_next r)\<rparr>))"
  using assms by (auto simp: mem_CreditSettlement_def Let_def split: option.splits if_splits)

interpretation mem: wallet_repository mem_DebitForBet mem_CreditSettlement mem_Balance mem_entry mem_inv "\<lambda>_. True"
proof
  fix s s' :: MemoryRepository and a b c a' b' c' :: string and n :: int and e bal x
  show "mem_inv s'" if "mem_inv s" "mem_DebitForBet a b n c s = Inr (e, s')"
  proof -
    have "in_range (AvailableMinor bal - n)" if "balances s k = Some bal" "n \<le> AvailableMinor bal" "0 < n" for bal k
      using mem_inv_get [OF \<open>mem_inv s\<close> that(1)] that by (auto simp: in_range_def)
    then show ?thesis using mem_debit_Inr [OF that] that(1) mem_inv_put by fastforce
  qed
  show "mem_inv s'" if "mem_inv s" "mem_CreditSettlement a b n c s = Inr (e, s')"
    "\<And>bal. mem_Balance a c s = Inr bal \<Longrightarrow> AvailableMinor bal + n \<le> max_int64"
  proof -
    have "in_range (wrap64 (AvailableMinor bal + n))" if "balances s (balanceKey a c) = Some bal" "0 < n" for bal
    proof -
      have "in_range (AvailableMinor bal + n)"
        using mem_inv_get [OF \<open>mem_inv s\<close> that(1)] that(2) \<open>\<And>bal. mem_Balance a c s = Inr bal \<Longrightarrow> AvailableMinor bal + n \<le> max_int64\<close> [of bal] that(1)
        by (auto simp: in_range_def mem_Balance_def)
      then show ?thesis by (simp add: in_range_def int64_def max_int64_def)
    qed
    then show ?thesis using mem_credit_Inr [OF that(2)] that(1) mem_inv_put by fastforce
  qed
  show "in_range (AvailableMinor bal)" if "mem_inv s" "mem_Balance a c s = Inr bal"
    using that mem_inv_get by (auto simp: mem_Balance_def tx_simps)
  show "n \<le> 0 \<Longrightarrow> mem_DebitForBet a b n c s = Inl (Wallet ErrInvalidAmount)"
    "n \<le> 0 \<Longrightarrow> mem_CreditSettlement a b n c s = Inl (Wallet ErrInvalidAmount)"
    by (simp_all add: mem_DebitForBet_def mem_CreditSettlement_def)
  show "0 < n \<Longrightarrow> mem_entry a b c EntryBetDebit s = Some e \<Longrightarrow> mem_DebitForBet a b n c s = Inr (e, s)"
    "0 < n \<Longrightarrow> mem_entry a b c EntrySettlementCredit s = Some e \<Longrightarrow> mem_CreditSettlement a b n c s = Inr (e, s)"
    by (simp_all add: mem_DebitForBet_def mem_CreditSettlement_def mem_entry_def Let_def)
  show "0 < n \<Longrightarrow> mem_entry a b c EntryBetDebit s = None \<Longrightarrow> mem_Balance a c s = Inl x \<Longrightarrow>
      mem_DebitForBet a b n c s = Inl (Wallet ErrWalletNotFound)"
    by (cases "balances s (balanceKey a c)") (simp_all add: mem_DebitForBet_def mem_entry_def mem_Balance_def Let_def)
  show "mem_inv s \<Longrightarrow> 0 < n \<Longrightarrow> n \<le> max_int64 \<Longrightarrow> mem_entry a b c EntryBetDebit s = None \<Longrightarrow>
      mem_Balance a c s = Inr bal \<Longrightarrow> AvailableMinor bal < n \<Longrightarrow> mem_DebitForBet a b n c s = Inl (Wallet ErrInsufficientFunds)"
    by (simp add: mem_DebitForBet_def mem_entry_def mem_Balance_def Let_def tx_simps)
  show "\<exists>bal. mem_Balance a c s = Inr bal \<and> n \<le> AvailableMinor bal
        \<and> mem_Balance a c s' = Inr (bal\<lparr>AvailableMinor := AvailableMinor bal - n\<rparr>)
        \<and> mem_entry a b c EntryBetDebit s' = Some e \<and> AmountMinor e = - n"
    if "mem_inv s" "0 < n" "mem_entry a b c EntryBetDebit s = None" "mem_DebitForBet a b n c s = Inr (e, s')"
    using mem_debit_Inr [OF that(1,4)] that(3) by (auto simp: mem_entry_def mem_Balance_def)
  show "mem_Balance a' c' s' = mem_Balance a' c' s"
    if "mem_inv s" "mem_DebitForBet a b n c s = Inr (e, s')" "plain a" "plain a'" "(a', c') \<noteq> (a, c)"
    using mem_debit_Inr [OF that(1,2)] balanceKey_inject [OF that(4,3), of c' c] that(5)
    by (auto simp: mem_Balance_def)
  show "\<exists>bal. mem_Balance a c s = Inr bal \<and> mem_Balance a c s' = Inr (bal\<lparr>AvailableMinor := AvailableMinor bal + n\<rparr>)
        \<and> mem_entry a b c EntrySettlementCredit s' = Some e \<and> AmountMinor e = n"
    if "mem_inv s" "0 < n" "n \<le> max_int64" "mem_entry a b c EntrySettlementCredit s = None"
      "\<And>bal. mem_Balance a c s = Inr bal \<Longrightarrow> AvailableMinor bal + n \<le> max_int64" "mem_CreditSettlement a b n c s = Inr (e, s')"
  proof -
    note asm = that
    obtain bal where b: "balances s (balanceKey a c) = Some bal" "AmountMinor e = n"
      "s' = s\<lparr>balances := (balances s)(balanceKey a c \<mapsto> bal\<lparr>AvailableMinor := wrap64 (AvailableMinor bal + n)\<rparr>),
              mem_entries := (mem_entries s)(idempotencyKey a b EntrySettlementCredit \<mapsto> e), mem_next := Suc (mem_next s)\<rparr>"
      using mem_credit_Inr [OF asm(6)] asm(4) by (auto simp: mem_entry_def)
    have "int64 (AvailableMinor bal + n)"
      using mem_inv_get [OF asm(1) b(1)] asm(2) asm(5) [of bal] b(1)
      by (auto simp: mem_Balance_def in_range_def int64_def max_int64_def)
    then show ?thesis using b by (simp add: mem_Balance_def mem_entry_def)
  qed
  show "mem_entry a b' c' EntrySettlementCredit s' = mem_entry a b' c' EntrySettlementCredit s"
    if "mem_inv s" "mem_DebitForBet a b n c s = Inr (e, s')"
    using mem_debit_Inr [OF that] idempotencyKey_kind [of a b a b'] by (auto simp: mem_entry_def)
  show "\<exists>e s'. mem_DebitForBet a b n c s = Inr (e, s')"
    if "mem_inv s" "0 < n" "mem_Balance a c s = Inr bal" "n \<le> AvailableMinor bal"
    using that by (simp add: mem_DebitForBet_def mem_Balance_def Let_def tx_simps split: option.splits)
qed

section \<open>The PostgreSQL repository implements it\<close>

fun business_type :: "EntryType \<Rightarrow> string" where
  "business_type EntryBetDebit = ''bet''"
| "business_type _ = ''settlement''"

definition pg_entry :: "string \<Rightarrow> string \<Rightarrow> string \<Rightarrow> EntryType \<Rightarrow> db \<Rightarrow> LedgerEntry option" where
  "pg_entry a b c t s = findEntry a b c (business_type t) t s"

definition pg_supplied :: "db \<Rightarrow> bool" where
  "pg_supplied s \<longleftrightarrow> (\<forall>e \<in> set (ledger s). l_id e \<noteq> uuids s (next_uuid s))
     \<and> (\<forall>e \<in> set (outbox s). o_id e \<noteq> uuids s (Suc (next_uuid s)))"

lemma mutate_repeat:
  "0 < n \<Longrightarrow> findEntry a b c bt t s = Some e \<Longrightarrow> mutate a b n c bt t d s = Inr (e, s)"
  by (simp add: mutate_def)

lemma wrap64_balance:
  assumes "in_range a" "int64 d" "0 \<le> wrap64 (a + d)"
  shows "wrap64 (a + d) = a + d \<and> in_range (a + d)"
proof (cases "0 \<le> d")
  case True
  have "a + d \<le> max_int64"
    using wrap64_add_nonneg_iff [of a d] assms True by (simp add: in_range_def int64_def max_int64_def)
  then show ?thesis using assms True by (simp add: in_range_def int64_def max_int64_def)
next
  case False
  then have "int64 (a + d)" using assms by (simp add: in_range_def int64_def max_int64_def)
  then show ?thesis using assms False by (simp add: in_range_def)
qed

lemma mutate_new:
  assumes "books_ok s" "findEntry a b c bt t s = None" "mutate a b n c bt t d s = Inr (e, s')"
    and d: "int64 d"
  obtains w where "0 < n" "wallet_of s a c = Some w" "in_range (w_available w + d)"
    "moved s w (w_available w + d) bt b (entry_code t) s'" "AmountMinor e = d"
    "findEntry a b c bt t s' = Some e"
proof -
  have ok: "wallets_ok s" using assms(1) by (rule books_ok_wallets_ok)
  let ?v = "\<lambda>w. wrap64 (w_available w + d)"
  from assms(2,3) obtain w s1 where n: "0 < n" and w: "wallet_of s a c = Some w" and nn: "0 \<le> ?v w"
    and s1: "set_available (w_id w) (?v w) s = Inr s1" and s2: "insert_ledger (w_id w) bt b (entry_code t) d (?v w) s1 = Inr s'"
    and e: "e = \<lparr>EntryID = uuids s1 (next_uuid s1), AccountID = a, BusinessID = b, Type = t, AmountMinor = d,
                 Currency = c, OccurredAt = clock s1\<rparr>"
    by (auto simp: mutate_def Let_def tx_simps split: if_splits)
  have wid: "wallet_by_id s (w_id w) = Some w" using wallet_of_by_id [OF ok w] .
  have v: "?v w = w_available w + d" "in_range (w_available w + d)"
    using wrap64_balance [OF _ d nn] wallet_of_range [OF ok w] by auto
  have m: "moved s w (w_available w + d) bt b (entry_code t) s'"
    using movedI [OF ok wid s1 refl refl s2] v(1) by simp
  let ?w = "w\<lparr>w_available := w_available w + d, w_version := w_version w + 1, w_updated := clock s\<rparr>"
  have w': "wallet_of s' a c = Some ?w" using moved_wallet_of [OF ok w m, of a c] by simp
  have su: "s1 = wallet_update (w_id w) (?v w) (w_frozen w) s" using set_available_Inr [OF ok wid s1] by simp
  have "\<exists>u. wallet_by_id s1 (w_id w) = Some u" using wallet_by_id_update [OF wid] by (auto simp: su)
  then obtain u where u: "wallet_by_id s1 (w_id w) = Some u" by blast
  obtain r where "ledger s' = ledger s1 @ [r]" and r: "l_id r = uuids s1 (next_uuid s1)" "l_wallet r = w_id w"
    "l_btype r = bt" "l_bid r = b" "l_etype r = entry_code t" "l_amount r = d" "l_at r = clock s1"
    using insert_ledger_Inr [OF s2 u] by auto
  then have l: "ledger s' = ledger s @ [r]" by (simp add: su)
  have "lookup (\<lambda>e. l_wallet e = w_id w \<and> l_btype e = bt \<and> l_bid e = b \<and> l_etype e = entry_code t) (ledger s) = None"
    using assms(2) w by (simp add: findEntry_def)
  then have "findEntry a b c bt t s' = Some e"
    using w' l r e wallet_of_mem [OF w] by (simp add: findEntry_def lookup_append)
  with n w v m e show thesis by (intro that) simp_all
qed

lemma mutate_books:
  assumes "books_ok s" "mutate a b n c bt t d s = Inr (e, s')" "int64 d"
  shows "books_ok s'"
proof (cases "findEntry a b c bt t s")
  case None
  obtain w where "wallet_of s a c = Some w" "in_range (w_available w + d)"
    "moved s w (w_available w + d) bt b (entry_code t) s'"
    using assms(1) None assms(2,3) by (rule mutate_new)
  then show ?thesis using moved_books [OF assms(1)] wallet_of_by_id [OF books_ok_wallets_ok [OF assms(1)]] by blast
next
  case (Some x)
  then show ?thesis using assms(1,2) by (auto simp: mutate_def split: if_splits)
qed

lemma mutate_live:
  assumes "books_ok s" "pg_supplied s" "wallet_of s a c = Some w" "findEntry a b c bt t s = None"
    and "0 < n" "in_range (w_available w + d)"
  shows "\<exists>e s'. mutate a b n c bt t d s = Inr (e, s')"
proof -
  have ok: "wallets_ok s" using assms(1) by (rule books_ok_wallets_ok)
  have wid: "wallet_by_id s (w_id w) = Some w" using wallet_of_by_id [OF ok assms(3)] .
  have v: "wrap64 (w_available w + d) = w_available w + d"
    using assms(6) by (intro wrap64_id) (simp add: in_range_def int64_def max_int64_def)
  obtain s1 where s1: "set_available (w_id w) (w_available w + d) s = Inr s1"
    using assms(6) by (simp add: set_available_def in_range_def)
  have su: "s1 = wallet_update (w_id w) (w_available w + d) (w_frozen w) s" using set_available_Inr [OF ok wid s1] by simp
  have w1: "\<exists>u. wallet_by_id s1 (w_id w) = Some u" using wallet_by_id_update [OF wid] by (auto simp: su)
  have none: "\<not> (l_wallet e = w_id w \<and> l_btype e = bt \<and> l_bid e = b \<and> l_etype e = entry_code t)" if "e \<in> set (ledger s)" for e
    using assms(4) that by (simp add: findEntry_def assms(3) lookup_None_iff)
  have "\<exists>s2. insert_ledger (w_id w) bt b (entry_code t) d (w_available w + d) s1 = Inr s2"
    using w1 assms(2) none
    by (auto simp: insert_ledger_def new_uuid_def insert_ledger_row_def wallet_by_id_def lookup_None_iff ledger_conflict_def
        su insert_outbox_def pg_supplied_def wallet_update_def Let_def)
  then show ?thesis using assms(3-6) s1 v by (auto simp: mutate_def in_range_def Let_def)
qed

lemma neg_amount: "0 < n \<Longrightarrow> n \<le> max_int64 \<Longrightarrow> wrap64 (- n) = - n"
  by (simp add: int64_def max_int64_def)

lemma pg_debit_new:
  assumes "books_ok s" "pg_entry a b c EntryBetDebit s = None" "pg_DebitForBet a b n c s = Inr (e, s')"
  obtains w where "0 < n" "wallet_of s a c = Some w" "in_range (w_available w + wrap64 (- n))"
    "moved s w (w_available w + wrap64 (- n)) ''bet'' b ''bet_debit'' s'" "AmountMinor e = wrap64 (- n)"
    "pg_entry a b c EntryBetDebit s' = Some e"
  using mutate_new [of s a b c "''bet''" EntryBetDebit n "wrap64 (- n)" e s'] assms
  by (auto simp: pg_entry_def pg_DebitForBet_def)

lemma pg_credit_new:
  assumes "books_ok s" "pg_entry a b c EntrySettlementCredit s = None" "pg_CreditSettlement a b n c s = Inr (e, s')" "int64 n"
  obtains w where "0 < n" "wallet_of s a c = Some w" "in_range (w_available w + n)"
    "moved s w (w_available w + n) ''settlement'' b ''settlement_credit'' s'" "AmountMinor e = n"
    "pg_entry a b c EntrySettlementCredit s' = Some e"
  using mutate_new [of s a b c "''settlement''" EntrySettlementCredit n n e s'] assms
  by (auto simp: pg_entry_def pg_CreditSettlement_def)

lemma pg_Balance_Inr: "pg_Balance a c s = Inr bal \<longleftrightarrow>
    (\<exists>w. wallet_of s a c = Some w \<and> bal = \<lparr>BalanceAccount = w_user w, BalanceCurrency = w_currency w,
       AvailableMinor = w_available w, FrozenMinor = w_frozen w\<rparr>)"
  by (auto simp: pg_Balance_def tx_simps)

lemma pg_repeat:
  "0 < n \<Longrightarrow> pg_entry a b c EntryBetDebit s = Some e \<Longrightarrow> pg_DebitForBet a b n c s = Inr (e, s)"
  "0 < n \<Longrightarrow> pg_entry a b c EntrySettlementCredit s = Some e \<Longrightarrow> pg_CreditSettlement a b n c s = Inr (e, s)"
  by (simp_all add: pg_entry_def pg_DebitForBet_def pg_CreditSettlement_def mutate_repeat)

lemma pg_positive: "pg_DebitForBet a b n c s = Inr (e, s') \<Longrightarrow> 0 < n" "pg_CreditSettlement a b n c s = Inr (e, s') \<Longrightarrow> 0 < n"
  by (auto simp: pg_DebitForBet_def pg_CreditSettlement_def mutate_def split: if_splits)

interpretation pg: wallet_repository pg_DebitForBet pg_CreditSettlement pg_Balance pg_entry books_ok pg_supplied
proof
  fix s s' :: db and a b c a' b' c' :: string and n :: int and e bal x
  show "books_ok s \<Longrightarrow> pg_DebitForBet a b n c s = Inr (e, s') \<Longrightarrow> books_ok s'"
    unfolding pg_DebitForBet_def by (erule (1) mutate_books) simp
  show "books_ok s'" if asm: "books_ok s" "pg_CreditSettlement a b n c s = Inr (e, s')"
    "\<And>bal. pg_Balance a c s = Inr bal \<Longrightarrow> AvailableMinor bal + n \<le> max_int64"
  proof (cases "pg_entry a b c EntrySettlementCredit s")
    case None
    have n: "0 < n" using asm(2) pg_positive by blast
    have "\<exists>w. wallet_of s a c = Some w"
      using asm(2) None n by (auto simp: pg_CreditSettlement_def mutate_def pg_entry_def tx_simps)
    then obtain w where w: "wallet_of s a c = Some w" by blast
    then have "w_available w + n \<le> max_int64" using asm(3) by (auto simp: pg_Balance_Inr)
    moreover have "in_range (w_available w)" using wallet_of_range [OF books_ok_wallets_ok [OF asm(1)] w] by simp
    ultimately have "int64 n" using n by (simp add: in_range_def int64_def max_int64_def)
    then show ?thesis using mutate_books [OF asm(1)] asm(2) by (simp add: pg_CreditSettlement_def)
  next
    case (Some y)
    then show ?thesis using asm pg_repeat(2) [OF _ Some] pg_positive(2) [OF asm(2)] by simp
  qed
  show "in_range (AvailableMinor bal)" if asm: "books_ok s" "pg_Balance a c s = Inr bal"
    using asm wallet_of_range [OF books_ok_wallets_ok] by (auto simp: pg_Balance_Inr)
  show "n \<le> 0 \<Longrightarrow> pg_DebitForBet a b n c s = Inl (Wallet ErrInvalidAmount)"
    "n \<le> 0 \<Longrightarrow> pg_CreditSettlement a b n c s = Inl (Wallet ErrInvalidAmount)"
    by (simp_all add: pg_DebitForBet_def pg_CreditSettlement_def mutate_def)
  show "0 < n \<Longrightarrow> pg_entry a b c EntryBetDebit s = Some e \<Longrightarrow> pg_DebitForBet a b n c s = Inr (e, s)"
    "0 < n \<Longrightarrow> pg_entry a b c EntrySettlementCredit s = Some e \<Longrightarrow> pg_CreditSettlement a b n c s = Inr (e, s)"
    by (rule pg_repeat; assumption)+
  show "0 < n \<Longrightarrow> pg_entry a b c EntryBetDebit s = None \<Longrightarrow> pg_Balance a c s = Inl x \<Longrightarrow>
      pg_DebitForBet a b n c s = Inl (Wallet ErrWalletNotFound)"
    by (cases "wallet_of s a c") (simp_all add: pg_DebitForBet_def mutate_def pg_entry_def pg_Balance_def)
  show "pg_DebitForBet a b n c s = Inl (Wallet ErrInsufficientFunds)"
    if asm: "books_ok s" "0 < n" "n \<le> max_int64" "pg_entry a b c EntryBetDebit s = None" "pg_Balance a c s = Inr bal" "AvailableMinor bal < n"
  proof -
    obtain w where w: "wallet_of s a c = Some w" "w_available w < n" using asm(5,6) by (auto simp: pg_Balance_Inr)
    then have "in_range (w_available w)" using wallet_of_range [OF books_ok_wallets_ok [OF asm(1)]] by blast
    then have "int64 (w_available w - n)" using asm(2,3) by (simp add: in_range_def int64_def max_int64_def)
    then show ?thesis using asm(2,3,4) w by (simp add: pg_DebitForBet_def mutate_def pg_entry_def neg_amount)
  qed
  show "\<exists>bal. pg_Balance a c s = Inr bal \<and> n \<le> AvailableMinor bal
        \<and> pg_Balance a c s' = Inr (bal\<lparr>AvailableMinor := AvailableMinor bal - n\<rparr>)
        \<and> pg_entry a b c EntryBetDebit s' = Some e \<and> AmountMinor e = - n"
    if asm: "books_ok s" "0 < n" "n \<le> max_int64" "pg_entry a b c EntryBetDebit s = None" "pg_DebitForBet a b n c s = Inr (e, s')"
  proof -
    obtain w where w: "wallet_of s a c = Some w" "in_range (w_available w + wrap64 (- n))"
      "moved s w (w_available w + wrap64 (- n)) ''bet'' b ''bet_debit'' s'" "AmountMinor e = wrap64 (- n)"
      "pg_entry a b c EntryBetDebit s' = Some e"
      using asm(1,4,5) by (rule pg_debit_new)
    then show ?thesis
      using neg_amount [OF asm(2,3)] moved_wallet_of [OF books_ok_wallets_ok [OF asm(1)] w(1,3), of a c]
      by (auto simp: pg_Balance_Inr in_range_def)
  qed
  show "pg_Balance a' c' s' = pg_Balance a' c' s"
    if asm: "books_ok s" "pg_DebitForBet a b n c s = Inr (e, s')" "(a', c') \<noteq> (a, c)"
  proof (cases "pg_entry a b c EntryBetDebit s")
    case None
    obtain w where w: "wallet_of s a c = Some w" "moved s w (w_available w + wrap64 (- n)) ''bet'' b ''bet_debit'' s'"
      using asm(1) None asm(2) by (rule pg_debit_new)
    have "wallet_of s' a' c' = wallet_of s a' c'"
      using moved_wallet_of [OF books_ok_wallets_ok [OF asm(1)] w, of a' c'] asm(3) by auto
    then show ?thesis by (simp add: pg_Balance_def)
  next
    case (Some y)
    then show ?thesis using asm pg_repeat(1) [OF _ Some] pg_positive(1) [OF asm(2)] by simp
  qed
  show "\<exists>bal. pg_Balance a c s = Inr bal \<and> pg_Balance a c s' = Inr (bal\<lparr>AvailableMinor := AvailableMinor bal + n\<rparr>)
        \<and> pg_entry a b c EntrySettlementCredit s' = Some e \<and> AmountMinor e = n"
    if asm: "books_ok s" "0 < n" "n \<le> max_int64" "pg_entry a b c EntrySettlementCredit s = None" "pg_CreditSettlement a b n c s = Inr (e, s')"
  proof -
    have "int64 n" using asm(2,3) by (simp add: int64_def max_int64_def)
    obtain w where w: "wallet_of s a c = Some w"
      "moved s w (w_available w + n) ''settlement'' b ''settlement_credit'' s'" "AmountMinor e = n"
      "pg_entry a b c EntrySettlementCredit s' = Some e"
      using asm(1,4,5) \<open>int64 n\<close> by (rule pg_credit_new)
    then show ?thesis
      using moved_wallet_of [OF books_ok_wallets_ok [OF asm(1)] w(1,2), of a c] by (auto simp: pg_Balance_Inr)
  qed
  show "pg_entry a b' c' EntrySettlementCredit s' = pg_entry a b' c' EntrySettlementCredit s"
    if asm: "books_ok s" "pg_DebitForBet a b n c s = Inr (e, s')"
  proof (cases "pg_entry a b c EntryBetDebit s")
    case None
    obtain w where w: "wallet_of s a c = Some w" and m: "moved s w (w_available w + wrap64 (- n)) ''bet'' b ''bet_debit'' s'"
      using asm(1) None asm(2) by (rule pg_debit_new)
    obtain r where r: "ledger s' = ledger s @ [r]" "l_btype r = ''bet''" using m by (auto simp: moved_def)
    have "map_option (\<lambda>u. (w_id u, w_user u, w_currency u)) (wallet_of s' a c') = map_option (\<lambda>u. (w_id u, w_user u, w_currency u)) (wallet_of s a c')"
      using moved_wallet_of [OF books_ok_wallets_ok [OF asm(1)] w m, of a c'] w by simp
    then show ?thesis
      using r unfolding pg_entry_def findEntry_def
      by (cases "wallet_of s a c'"; cases "wallet_of s' a c'") (auto simp: lookup_append split: option.splits)
  next
    case (Some y)
    then show ?thesis using asm pg_repeat(1) [OF _ Some] pg_positive(1) [OF asm(2)] by simp
  qed
  show "\<exists>e s'. pg_DebitForBet a b n c s = Inr (e, s')"
    if asm: "books_ok s" "pg_supplied s" "0 < n" "n \<le> max_int64" "pg_Balance a c s = Inr bal" "n \<le> AvailableMinor bal"
  proof (cases "pg_entry a b c EntryBetDebit s")
    case None
    obtain w where w: "wallet_of s a c = Some w" "n \<le> w_available w" using asm(5,6) by (auto simp: pg_Balance_Inr)
    have "in_range (w_available w)" using wallet_of_range [OF books_ok_wallets_ok [OF asm(1)] w(1)] by simp
    then have "in_range (w_available w + - n)" using w(2) asm(3) by (simp add: in_range_def)
    then show ?thesis
      using mutate_live [OF asm(1,2) w(1) _ asm(3)] None neg_amount [OF asm(3,4)]
      by (simp add: pg_DebitForBet_def pg_entry_def)
  next
    case (Some y)
    then show ?thesis using pg_repeat(1) [OF asm(3) Some] by blast
  qed
qed

section \<open>Properties\<close>

text \<open>a first debit of the PostgreSQL repository takes exactly the amount from the wallet of that
  account and currency, never below zero, leaves every other wallet alone, records an entry of
  minus the amount, and the ledger still adds up to every balance.\<close>

theorem postgres_debit:
  assumes "books_ok s" "0 < n" "n \<le> max_int64" "findEntry a b c ''bet'' EntryBetDebit s = None"
    and "pg_DebitForBet a b n c s = Inr (e, s')"
  shows "books_ok s' \<and> AmountMinor e = - n
       \<and> (\<exists>w w'. wallet_of s a c = Some w \<and> n \<le> w_available w \<and> wallet_of s' a c = Some w' \<and> w_available w' = w_available w - n)
       \<and> (\<forall>a' c'. (a', c') \<noteq> (a, c) \<longrightarrow> wallet_of s' a' c' = wallet_of s a' c')"
proof -
  obtain w where w: "wallet_of s a c = Some w" "in_range (w_available w + wrap64 (- n))"
    "moved s w (w_available w + wrap64 (- n)) ''bet'' b ''bet_debit'' s'" "AmountMinor e = wrap64 (- n)"
    using pg_debit_new [OF assms(1) _ assms(5)] assms(4) by (auto simp: pg_entry_def)
  note m = moved_wallet_of [OF books_ok_wallets_ok [OF assms(1)] w(1,3)]
  show ?thesis
    using m [of a c] m w pg.debit_inv [OF assms(1,5)] neg_amount [OF assms(2,3)] by (auto simp: in_range_def)
qed

theorem postgres_debit_witness:
  "books_ok sample_db \<and> (\<exists>e s'. pg_DebitForBet ''alice'' ''bet-1'' 300 ''POINTS'' sample_db = Inr (e, s') \<and> AmountMinor e = - 300 \<and> books_ok s')"
proof -
  have "case pg_DebitForBet ''alice'' ''bet-1'' 300 ''POINTS'' sample_db of Inl e \<Rightarrow> False | Inr x \<Rightarrow> True" by code_simp
  then obtain e s' where r: "pg_DebitForBet ''alice'' ''bet-1'' 300 ''POINTS'' sample_db = Inr (e, s')"
    by (auto split: sum.splits)
  have "findEntry ''alice'' ''bet-1'' ''POINTS'' ''bet'' EntryBetDebit sample_db = None" by code_simp
  then show ?thesis using postgres_debit [OF sample_books_ok _ _ _ r] r sample_books_ok by (simp add: max_int64_def)
qed

text \<open>both repositories are idempotent by business id: once a debit has succeeded, every retry, with
  whatever positive amount, returns the recorded entry and changes nothing.\<close>

theorem wallet_debit_retry:
  assumes "0 < n" "n \<le> max_int64" "0 < m"
  shows "(books_ok s \<longrightarrow> pg_DebitForBet a b n c s = Inr (e, s') \<longrightarrow> pg_DebitForBet a b m c s' = Inr (e, s'))
       \<and> (mem_inv r \<longrightarrow> mem_DebitForBet a b n c r = Inr (e, r') \<longrightarrow> mem_DebitForBet a b m c r' = Inr (e, r'))"
  using pg.debit_retry mem.debit_retry assms by blast

definition sample_repo :: MemoryRepository where
  "sample_repo = Seed ''alice'' ''POINTS'' 1000 (NewMemoryRepository (\<lambda>n. CHR ''e'' # format_nat n) 0)"

theorem wallet_debit_retry_witness:
  "\<exists>e r'. mem_DebitForBet ''alice'' ''bet-1'' 300 ''POINTS'' sample_repo = Inr (e, r')
        \<and> mem_DebitForBet ''alice'' ''bet-1'' 999 ''POINTS'' r' = Inr (e, r')"
proof -
  have i: "mem_inv sample_repo"
    by (simp add: mem_inv_def sample_repo_def Seed_def NewMemoryRepository_def in_range_def max_int64_def)
  obtain e r' where r: "mem_DebitForBet ''alice'' ''bet-1'' 300 ''POINTS'' sample_repo = Inr (e, r')"
    by (simp add: mem_DebitForBet_def sample_repo_def Seed_def NewMemoryRepository_def Let_def)
  have "mem_DebitForBet ''alice'' ''bet-1'' 999 ''POINTS'' r' = Inr (e, r')"
    using wallet_debit_retry [of 300 999 undefined "''alice''" "''bet-1''" "''POINTS''" e undefined sample_repo r'] i r
    by (simp add: max_int64_def)
  with r show ?thesis by blast
qed

text \<open>a bet and its settlement through the PostgreSQL repository move the balance by the payout less
  the stake, and the balance between the two is not negative.\<close>

theorem postgres_bet_then_settle:
  assumes "books_ok s" "0 < n" "n \<le> max_int64" "0 < m" "m \<le> max_int64"
    and "findEntry a b c ''bet'' EntryBetDebit s = None" "findEntry a b c ''settlement'' EntrySettlementCredit s = None"
    and "pg_DebitForBet a b n c s = Inr (e, s1)" "pg_CreditSettlement a b m c s1 = Inr (f, s2)"
    and "pg_Balance a c s = Inr bal" "AvailableMinor bal - n + m \<le> max_int64"
  shows "\<exists>bal2. pg_Balance a c s2 = Inr bal2 \<and> AvailableMinor bal2 = AvailableMinor bal - n + m \<and> 0 \<le> AvailableMinor bal - n"
  using pg.bet_then_settle [of s n m a b c e s1 f s2 bal] assms by (simp add: pg_entry_def)

theorem postgres_bet_then_settle_witness:
  "\<exists>e s1 f s2 bal. pg_DebitForBet ''alice'' ''bet-1'' 300 ''POINTS'' sample_db = Inr (e, s1)
     \<and> pg_CreditSettlement ''alice'' ''bet-1'' 582 ''POINTS'' s1 = Inr (f, s2)
     \<and> pg_Balance ''alice'' ''POINTS'' s2 = Inr bal \<and> AvailableMinor bal = 1282"
proof -
  have "case pg_DebitForBet ''alice'' ''bet-1'' 300 ''POINTS'' sample_db of Inl e \<Rightarrow> False
        | Inr x \<Rightarrow> (case pg_CreditSettlement ''alice'' ''bet-1'' 582 ''POINTS'' (snd x) of Inl e \<Rightarrow> False | Inr y \<Rightarrow> True)"
    by code_simp
  then obtain e s1 f s2 where d: "pg_DebitForBet ''alice'' ''bet-1'' 300 ''POINTS'' sample_db = Inr (e, s1)"
    and c: "pg_CreditSettlement ''alice'' ''bet-1'' 582 ''POINTS'' s1 = Inr (f, s2)"
    by (auto split: sum.splits)
  obtain bal where b: "pg_Balance ''alice'' ''POINTS'' sample_db = Inr bal" "AvailableMinor bal = 1000"
    by (simp add: pg_Balance_def wallet_of_def sample_db_def empty_db_def)
  have n: "findEntry ''alice'' ''bet-1'' ''POINTS'' ''bet'' EntryBetDebit sample_db = None"
    "findEntry ''alice'' ''bet-1'' ''POINTS'' ''settlement'' EntrySettlementCredit sample_db = None" by code_simp+
  show ?thesis using postgres_bet_then_settle [OF sample_books_ok _ _ _ _ n d c b(1)] b(2) d c by (auto simp: max_int64_def)
qed

text \<open>the in-memory repository keys its entries by account and business id only: after a debit in one
  currency, a debit of the same business id in another currency returns the first entry and
  takes nothing, while the PostgreSQL repository looks the entry up per currency and debits.\<close>

theorem memory_debit_ignores_currency:
  assumes "mem_inv r" "mem_DebitForBet a b n c r = Inr (e, r')" "0 < m"
  shows "mem_DebitForBet a b m c' r' = Inr (e, r')"
proof -
  have "mem_entries r' (idempotencyKey a b EntryBetDebit) = Some e" using mem_debit_Inr [OF assms(1,2)] by auto
  then show ?thesis using assms(3) by (simp add: mem_DebitForBet_def Let_def)
qed

theorem memory_debit_ignores_currency_witness:
  "\<exists>e r'. mem_DebitForBet ''alice'' ''bet-1'' 300 ''POINTS'' sample_repo = Inr (e, r')
        \<and> mem_DebitForBet ''alice'' ''bet-1'' 5 ''USDT'' r' = Inr (e, r')"
proof -
  have i: "mem_inv sample_repo"
    by (simp add: mem_inv_def sample_repo_def Seed_def NewMemoryRepository_def in_range_def max_int64_def)
  obtain e r' where r: "mem_DebitForBet ''alice'' ''bet-1'' 300 ''POINTS'' sample_repo = Inr (e, r')"
    by (simp add: mem_DebitForBet_def sample_repo_def Seed_def NewMemoryRepository_def Let_def)
  with memory_debit_ignores_currency [OF i r, of 5 "''USDT''"] show ?thesis by auto
qed

end
