(* ===== verification/Credit.thy ===== *)
theory Credit
  imports Wallet_Repo Wallet_Amount
begin

text \<open>
  Balances outside betting: \<^verbatim>\<open>internal/application/credit\<close> (\<^verbatim>\<open>service.go\<close>, \<^verbatim>\<open>adjustment.go\<close>, \<^verbatim>\<open>spin.go\<close>,
  \<^verbatim>\<open>spin_config.go\<close>, \<^verbatim>\<open>spin_management.go\<close>). Operators adjust a wallet, players ask for the withdrawal of points, spend
  stamina and draw prizes; tasks pay rewards. The random source of a draw is a parameter: \<open>random n\<close> answers
  \<^verbatim>\<open>rand.Int(rand.Reader, n)\<close>.
\<close>

section \<open>service.go: wallet and ledger\<close>

definition validCurrency :: "string \<Rightarrow> bool" where
  "validCurrency v \<longleftrightarrow> trim_space v \<noteq> []"

text \<open>\<^verbatim>\<open>INSERT INTO wallets ... ON CONFLICT(user_id,currency) DO NOTHING\<close>.\<close>

definition wallet_row_for :: "string \<Rightarrow> string \<Rightarrow> db \<Rightarrow> error + db" where
  "wallet_row_for user currency s =
     (let (i, s) = new_uuid s in if wallet_of s user currency \<noteq> None then Inr s else insert_wallet i user currency s)"

text \<open>A \<^verbatim>\<open>bigint\<close> sum out of range is an error of PostgreSQL.\<close>

definition addBalance :: "string \<Rightarrow> string \<Rightarrow> int \<Rightarrow> int tx" where
  "addBalance user currency delta s =
     bindE (wallet_row_for user currency s) (\<lambda>s.
     bindE (orErr (DB NoRows) (wallet_of s user currency)) (\<lambda>w.
     if \<not> int64 (w_available w + delta) then Inl (DB OutOfRange)
     else bindE (set_available (w_id w) (w_available w + delta) s) (\<lambda>s. Inr (w_available w + delta, s))))"

definition deductBalance :: "string \<Rightarrow> string \<Rightarrow> int \<Rightarrow> int tx" where
  "deductBalance user currency amount s =
     (case wallet_of s user currency of
        None \<Rightarrow> Inl (Credit CreditInsufficientBalance)
      | Some w \<Rightarrow>
          if w_available w < amount then Inl (Credit CreditInsufficientBalance)
          else if \<not> int64 (w_available w - amount) then Inl (DB OutOfRange)
          else bindE (set_available (w_id w) (w_available w - amount) s) (\<lambda>s. Inr (w_available w - amount, s)))"

definition ledger_deltas :: "string \<Rightarrow> int \<Rightarrow> int \<times> int" where
  "ledger_deltas bizType amount =
     (if bizType = ''point_withdrawal'' then (amount, - amount)
      else if bizType = ''point_withdrawal_debit'' then (0, amount)
      else if bizType = ''point_withdrawal_unfreeze'' then (amount, - amount)
      else (amount, 0))"

definition writeLedger :: "string \<Rightarrow> string \<Rightarrow> string \<Rightarrow> string \<Rightarrow> int \<Rightarrow> int \<Rightarrow> string \<Rightarrow> string \<Rightarrow> db \<Rightarrow> error + db" where
  "writeLedger user currency bizType bizID amount after remark operator s =
     bindE (orErr (DB NoRows) (wallet_of s user currency)) (\<lambda>w.
     let (i, s) = new_uuid s in
     insert_ledger_row \<lparr>l_id = i, l_wallet = w_id w, l_btype = bizType, l_bid = bizID, l_etype = bizType,
       l_amount = amount, l_after = after, l_avail_delta = fst (ledger_deltas bizType amount),
       l_frozen_delta = snd (ledger_deltas bizType amount), l_frozen_after = 0, l_placement = None, l_remark = remark,
       l_operator = (if operator = [] then None else Some operator), l_at = clock s\<rparr> s)"

definition RewardCurrency :: "string \<Rightarrow> string \<Rightarrow> string \<Rightarrow> string \<Rightarrow> int \<Rightarrow> string \<Rightarrow> int tx" where
  "RewardCurrency user currency bizType bizID amount remark s =
     (let currency = to_upper (trim_space currency) in
      if \<not> validCurrency currency then Inl (Credit CreditInvalidCurrency)
      else if amount \<le> 0 then Inl (Credit CreditInvalidAmount)
      else bindE (addBalance user currency amount s) (\<lambda>(after, s).
           bindE (writeLedger user currency bizType bizID amount after remark [] s) (\<lambda>s. Inr (after, s))))"

definition RewardStamina :: "string \<Rightarrow> string \<Rightarrow> string \<Rightarrow> int \<Rightarrow> string \<Rightarrow> int tx" where
  "RewardStamina user bizType bizID amount remark = RewardCurrency user ''STAMINA'' bizType bizID amount remark"

section \<open>service.go: stamina\<close>

record ConsumeStaminaInput =
  cs_user :: string
  cs_amount :: int
  cs_activity :: string
  cs_remark :: string

record ConsumeResult =
  cn_user :: string
  cn_amount :: int
  cn_after :: int
  cn_consumed :: bool
  cn_at :: int

definition findStaminaLedger :: "string \<Rightarrow> string \<Rightarrow> string \<Rightarrow> db \<Rightarrow> ledger_row option" where
  "findStaminaLedger user bizType bizID s =
     lookup (\<lambda>e. l_btype e = bizType \<and> l_bid e = bizID
       \<and> list_ex (\<lambda>w. w_id w = l_wallet e \<and> w_user w = user \<and> w_currency w = ''STAMINA'') (wallets s)) (ledger s)"

definition ConsumeStamina :: "ConsumeStaminaInput \<Rightarrow> ConsumeResult tx" where
  "ConsumeStamina i s =
     (if cs_amount i \<le> 0 then Inl (Credit CreditInvalidAmount)
      else if cs_user i = [] \<or> cs_activity i = [] then Inl (Credit CreditUserNotFound)
      else let bizID = ''consume:'' @ cs_activity i in
        case findStaminaLedger (cs_user i) ''activity_consume'' bizID s of
          Some e \<Rightarrow> Inr (\<lparr>cn_user = cs_user i, cn_amount = wrap64 (- l_amount e), cn_after = l_after e, cn_consumed = False, cn_at = l_at e\<rparr>, s)
        | None \<Rightarrow>
            bindE (deductBalance (cs_user i) ''STAMINA'' (cs_amount i) s) (\<lambda>(after, s).
            bindE (writeLedger (cs_user i) ''STAMINA'' ''activity_consume'' bizID (- cs_amount i) after (cs_remark i) [] s) (\<lambda>s.
            Inr (\<lparr>cn_user = cs_user i, cn_amount = cs_amount i, cn_after = after, cn_consumed = True, cn_at = clock s\<rparr>, s))))"

section \<open>service.go: withdrawals of points\<close>

record PointWithdrawal =
  pt_id :: string
  pt_user :: string
  pt_request :: string
  pt_amount :: int
  pt_status :: string
  pt_created :: int

definition point_withdrawal_of :: "point_withdrawal_row \<Rightarrow> PointWithdrawal" where
  "point_withdrawal_of p = \<lparr>pt_id = pw_id p, pt_user = pw_user p, pt_request = pw_request p, pt_amount = pw_amount p,
     pt_status = pw_status p, pt_created = pw_created p\<rparr>"

definition insert_point_withdrawal :: "point_withdrawal_row \<Rightarrow> db \<Rightarrow> error + db" where
  "insert_point_withdrawal p s =
     (if pw_amount p \<le> 0 then Inl (DB Check)
      else if list_ex (\<lambda>x. pw_id x = pw_id p \<or> (pw_user x = pw_user p \<and> pw_request x = pw_request p)) (point_withdrawals s) then Inl (DB Unique)
      else if user_by_id s (pw_user p) = None then Inl (DB ForeignKey)
      else Inr (s\<lparr>point_withdrawals := point_withdrawals s @ [p]\<rparr>))"

definition RequestPointWithdrawal :: "string \<Rightarrow> string \<Rightarrow> int \<Rightarrow> string \<Rightarrow> PointWithdrawal tx" where
  "RequestPointWithdrawal user request amount remark s =
     (if user = [] \<or> request = [] then Inl (Credit CreditUserNotFound)
      else if amount \<le> 0 then Inl (Credit CreditInvalidAmount)
      else case lookup (\<lambda>p. pw_user p = user \<and> pw_request p = request) (point_withdrawals s) of
        Some p \<Rightarrow> Inr (point_withdrawal_of p, s)
      | None \<Rightarrow>
          bindE (orErr (DB NoRows) (user_by_id s user)) (\<lambda>u.
          if u_virtual u then Inl (Credit CreditVirtualWithdrawal)
          else bindE (orErr (Credit CreditUserNotFound) (wallet_of s user ''POINTS'')) (\<lambda>w.
          if w_available w < amount then Inl (Credit CreditInsufficientBalance)
          else bindE (set_balances (w_id w) (w_available w - amount) (wrap64 (w_frozen w + amount)) s) (\<lambda>s.
          let (i, s) = new_uuid s;
              p = \<lparr>pw_id = i, pw_user = user, pw_wallet = w_id w, pw_request = request, pw_amount = amount,
                   pw_status = ''requested'', pw_remark = remark, pw_reviewer = None, pw_created = clock s\<rparr> in
          bindE (insert_point_withdrawal p s) (\<lambda>s.
          bindE (writeLedger user ''POINTS'' ''point_withdrawal'' i (- amount) (w_available w - amount) remark [] s) (\<lambda>s.
          Inr (point_withdrawal_of p, s)))))))"

definition ReviewPointWithdrawal :: "string \<Rightarrow> string \<Rightarrow> bool \<Rightarrow> unit tx" where
  "ReviewPointWithdrawal i reviewer approved s =
     bindE (orErr (Credit ErrPointWithdrawalNotFound) (lookup (\<lambda>p. pw_id p = i) (point_withdrawals s))) (\<lambda>p.
     bindE (orErr (Credit ErrPointWithdrawalNotFound) (wallet_by_id s (pw_wallet p))) (\<lambda>w.
     if pw_status p \<noteq> ''requested'' \<or> w_frozen w < pw_amount p then Inl (Credit ErrPointWithdrawalState)
     else let after = (if approved then w_available w else wrap64 (w_available w + pw_amount p));
              (status, entry, amount) = (if approved then (''approved'', ''point_withdrawal_debit'', - pw_amount p)
                                         else (''rejected'', ''point_withdrawal_unfreeze'', pw_amount p)) in
       bindE (set_balances (w_id w) after (w_frozen w - pw_amount p) s) (\<lambda>s.
       if user_by_id s reviewer = None then Inl (DB ForeignKey)
       else bindE (writeLedger (pw_user p) ''POINTS'' entry i amount after [] reviewer
              (s\<lparr>point_withdrawals := modify (\<lambda>x. pw_id x = i) (\<lambda>x. x\<lparr>pw_status := status, pw_reviewer := Some reviewer\<rparr>) (point_withdrawals s)\<rparr>))
         (\<lambda>s. Inr ((), s)))))"

definition ListPointWithdrawals :: "string \<Rightarrow> string \<Rightarrow> int \<Rightarrow> db \<Rightarrow> PointWithdrawal list" where
  "ListPointWithdrawals user status limit s =
     map point_withdrawal_of (take (if limit \<le> 0 \<or> limit > 100 then 50 else nat limit) (rev (sort_key pw_created
       (filter (\<lambda>p. (user = [] \<or> pw_user p = user) \<and> (status = [] \<or> pw_status p = status)) (point_withdrawals s)))))"

section \<open>service.go: reading balances\<close>

record BalanceInfo =
  bi_user :: string
  bi_currency :: string
  bi_available :: int
  bi_frozen :: int
  bi_decimals :: int
  bi_available_text :: string
  bi_frozen_text :: string

text \<open>A formatting error leaves the text empty.\<close>

definition shown :: "int \<Rightarrow> int \<Rightarrow> string" where
  "shown amount decimals = (case FormatDisplayAmount amount decimals of Inl e \<Rightarrow> [] | Inr t \<Rightarrow> t)"

definition credit_Balance :: "string \<Rightarrow> string \<Rightarrow> db \<Rightarrow> error + BalanceInfo" where
  "credit_Balance user currency s =
     bindE (orErr (Credit CreditUserNotFound) (wallet_of s user currency)) (\<lambda>w.
     bindE (orErr (Credit CreditUserNotFound) (lookup (\<lambda>c. c_code c = w_currency w) (currencies s))) (\<lambda>c.
     Inr \<lparr>bi_user = user, bi_currency = currency, bi_available = w_available w, bi_frozen = w_frozen w, bi_decimals = c_decimals c,
          bi_available_text = shown (w_available w) (c_decimals c), bi_frozen_text = shown (w_frozen w) (c_decimals c)\<rparr>))"

definition Balances :: "string \<Rightarrow> db \<Rightarrow> BalanceInfo list" where
  "Balances user s =
     (if user_by_id s user = None then []
      else map (\<lambda>c. let w = wallet_of s user (c_code c);
                        a = (case w of None \<Rightarrow> 0 | Some w \<Rightarrow> w_available w); f = (case w of None \<Rightarrow> 0 | Some w \<Rightarrow> w_frozen w)
                    in \<lparr>bi_user = user, bi_currency = c_code c, bi_available = a, bi_frozen = f, bi_decimals = c_decimals c,
                        bi_available_text = shown a (c_decimals c), bi_frozen_text = shown f (c_decimals c)\<rparr>)
             (sort_key (\<lambda>c. map code (c_code c)) (filter (\<lambda>c. c_enabled c \<or> wallet_of s user (c_code c) \<noteq> None) (currencies s))))"

definition listLedger :: "string \<Rightarrow> string \<Rightarrow> int \<Rightarrow> int \<Rightarrow> db \<Rightarrow> ledger_row list" where
  "listLedger currency user limit offset s =
     take (if limit \<le> 0 \<or> limit > 100 then 50 else nat limit) (drop (nat offset) (rev (sort_key l_at (sort_key (\<lambda>e. map code (l_id e))
       (filter (\<lambda>e. case wallet_by_id s (l_wallet e) of None \<Rightarrow> False | Some w \<Rightarrow> w_user w = user \<and> w_currency w = currency) (ledger s))))))"

section \<open>adjustment.go\<close>

record AdjustmentInput =
  ai_user :: string
  ai_currency :: string
  ai_action :: string
  ai_amount :: string
  ai_remark :: string
  ai_request :: string
  ai_operator :: string

definition adjustmentDirection :: "string \<Rightarrow> int option" where
  "adjustmentDirection action =
     (if action = ''credit'' \<or> action = ''reward'' then Some 1
      else if action = ''debit'' \<or> action = ''penalty'' then Some (- 1) else None)"

definition may_adjust :: "string \<Rightarrow> db \<Rightarrow> bool" where
  "may_adjust actor s \<longleftrightarrow> list_ex (\<lambda>u. u_id u = actor \<and> u_status u = ''active'') (users s)
     \<and> list_ex (\<lambda>r. fst r = actor \<and> snd r \<in> {''admin'', ''operator''}) (user_roles s)"

text \<open>Entries of the interface that used the request id as the business id; one row with its count.\<close>

definition legacy_entries :: "string \<Rightarrow> string \<Rightarrow> db \<Rightarrow> (ledger_row \<times> wallet_row) list" where
  "legacy_entries operator request s =
     concat (map (\<lambda>e. case wallet_by_id s (l_wallet e) of None \<Rightarrow> [] | Some w \<Rightarrow> [(e, w)])
       (filter (\<lambda>e. l_operator e = Some operator \<and> l_btype e = ''admin_credit'' \<and> l_bid e = request
          \<and> \<not> list_ex (\<lambda>a. aj_id a = l_bid e) (adjustments s)) (ledger s)))"

definition replay_adjustment :: "AdjustmentInput \<Rightarrow> int \<Rightarrow> adjustment_row \<Rightarrow> error + adjustment_result" where
  "replay_adjustment i amount a =
     (if aj_user a \<noteq> ai_user i \<or> aj_currency a \<noteq> ai_currency i \<or> aj_action a \<noteq> ai_action i \<or> aj_amount a \<noteq> amount
         \<or> aj_remark a \<noteq> ai_remark i then Inl (Credit ErrAdjustmentConflict)
      else Inr ((aj_result a)\<lparr>ar_duplicate := True\<rparr>))"

definition replay_legacy :: "AdjustmentInput \<Rightarrow> int \<Rightarrow> (ledger_row \<times> wallet_row) list \<Rightarrow> error + adjustment_result" where
  "replay_legacy i amount rows =
     (case rows of
        [(e, w)] \<Rightarrow>
          if ai_action i \<noteq> ''credit'' \<or> w_user w \<noteq> ai_user i \<or> w_currency w \<noteq> ai_currency i \<or> l_amount e \<noteq> amount
             \<or> l_remark e \<noteq> ai_remark i then Inl (Credit ErrAdjustmentConflict)
          else Inr \<lparr>ar_operation = l_id e, ar_user = w_user w, ar_currency = w_currency w, ar_action = ''credit'', ar_amount = amount,
                    ar_delta = amount, ar_before = wrap64 (l_after e - amount), ar_after = l_after e, ar_frozen = l_frozen_after e,
                    ar_duplicate = True, ar_at = l_at e\<rparr>
      | _ \<Rightarrow> Inl (Credit ErrAdjustmentConflict))"

definition insert_adjustment :: "adjustment_row \<Rightarrow> db \<Rightarrow> error + db" where
  "insert_adjustment a s =
     (if aj_amount a \<le> 0 then Inl (DB Check)
      else if list_ex (\<lambda>x. aj_id x = aj_id a \<or> (aj_operator x = aj_operator a \<and> aj_request x = aj_request a)) (adjustments s)
      then Inl (DB Unique)
      else Inr (s\<lparr>adjustments := adjustments s @ [a]\<rparr>))"

definition adjustment_payload :: "adjustment_result \<Rightarrow> payload" where
  "adjustment_payload r =
     PObj [(''operation_id'', PStr (ar_operation r)), (''user_id'', PStr (ar_user r)), (''currency'', PStr (ar_currency r)),
       (''action'', PStr (ar_action r)), (''amount_minor'', PInt (ar_amount r)), (''delta_minor'', PInt (ar_delta r)),
       (''balance_before_minor'', PInt (ar_before r)), (''balance_after_minor'', PInt (ar_after r)),
       (''frozen_minor'', PInt (ar_frozen r)), (''duplicate'', PBool (ar_duplicate r)), (''occurred_at'', PTime (ar_at r))]"

definition adjust_writes :: "AdjustmentInput \<Rightarrow> int \<Rightarrow> int \<Rightarrow> adjustment_result tx" where
  "adjust_writes i direction amount s =
     bindE (wallet_row_for (ai_user i) (ai_currency i) s) (\<lambda>s.
     bindE (orErr (DB NoRows) (wallet_of s (ai_user i) (ai_currency i))) (\<lambda>w.
     let before = w_available w; frozen = w_frozen w in
     if direction < 0 \<and> before < amount then Inl (Credit CreditInsufficientBalance)
     else if direction > 0 \<and> (before > max_int64 - frozen \<or> amount > wrap64 (max_int64 - frozen - before)) then Inl (Credit CreditInvalidAmount)
     else let after = wrap64 (before + direction * amount) in
       bindE (set_available (w_id w) after s) (\<lambda>s.
       let (op', s) = new_uuid s;
           out = \<lparr>ar_operation = op', ar_user = ai_user i, ar_currency = ai_currency i, ar_action = ai_action i, ar_amount = amount,
                  ar_delta = direction * amount, ar_before = before, ar_after = after, ar_frozen = frozen, ar_duplicate = False, ar_at = clock s\<rparr> in
       bindE (writeLedger (ai_user i) (ai_currency i) (''admin_'' @ ai_action i) op' (direction * amount) after (ai_remark i) (ai_operator i) s) (\<lambda>s.
       bindE (insert_adjustment \<lparr>aj_id = op', aj_operator = ai_operator i, aj_request = ai_request i, aj_user = ai_user i,
                aj_currency = ai_currency i, aj_action = ai_action i, aj_amount = amount, aj_remark = ai_remark i, aj_result = out\<rparr> s) (\<lambda>s.
       bindE (insert_audit (ai_operator i) (''admin.wallet.'' @ ai_action i) ''user'' (ai_user i) (adjustment_payload out) s) (\<lambda>s.
       Inr (out, s)))))))"

definition AdjustWallet :: "AdjustmentInput \<Rightarrow> adjustment_result tx" where
  "AdjustWallet inp s =
     (case adjustmentDirection (ai_action inp) of
        None \<Rightarrow> Inl (Credit ErrInvalidAdjustment)
      | Some direction \<Rightarrow>
          if ai_user inp = [] \<or> ai_request inp = [] \<or> length (ai_request inp) > 128 \<or> length (ai_remark inp) > 2000
          then Inl (Credit ErrInvalidAdjustment)
          else if ai_operator inp = [] then Inl (Credit ErrAdjustmentForbidden)
          else let i = inp\<lparr>ai_currency := to_upper (trim_space (ai_currency inp))\<rparr> in
          if \<not> validCurrency (ai_currency i) then Inl (Credit CreditInvalidCurrency)
          else if \<not> ValidDisplayAmount (ai_amount i) then Inl (Credit CreditInvalidAmount)
          else if \<not> may_adjust (ai_operator i) s then Inl (Credit ErrAdjustmentForbidden)
          else case ResolveDecimals s (ai_currency i) False of
            Inl e \<Rightarrow> Inl (if e = Wallet ErrUnknownCurrency then Credit CreditInvalidCurrency else e)
          | Inr decimals \<Rightarrow>
          (case ParseDisplayAmount (ai_amount i) decimals of
            Inl e \<Rightarrow> Inl (Credit CreditInvalidAmount)
          | Inr amount \<Rightarrow>
          (case lookup (\<lambda>a. aj_operator a = ai_operator i \<and> aj_request a = ai_request i) (adjustments s) of
            Some a \<Rightarrow> bindE (replay_adjustment i amount a) (\<lambda>r. Inr (r, s))
          | None \<Rightarrow>
          if legacy_entries (ai_operator i) (ai_request i) s \<noteq> []
          then bindE (replay_legacy i amount (legacy_entries (ai_operator i) (ai_request i) s)) (\<lambda>r. Inr (r, s))
          else case ResolveDecimals s (ai_currency i) True of
            Inl e \<Rightarrow> Inl (if e = Wallet ErrCurrencyDisabled then Credit CreditInvalidCurrency else e)
          | Inr _ \<Rightarrow>
          bindE (orErr (Credit CreditUserNotFound) (user_by_id s (ai_user i))) (\<lambda>u.
          if u_virtual u \<and> direction < 0 then Inl (Credit CreditVirtualWithdrawal)
          else adjust_writes i direction amount s))))"

record CreditResult =
  cd_user :: string
  cd_currency :: string
  cd_amount :: int
  cd_after :: int
  cd_credited :: bool
  cd_at :: int

definition AdminCredit :: "AdjustmentInput \<Rightarrow> CreditResult tx" where
  "AdminCredit i s =
     (if ai_user i = [] \<or> ai_request i = [] then Inl (Credit CreditUserNotFound)
      else if \<not> validCurrency (ai_currency i) then Inl (Credit CreditInvalidCurrency)
      else if \<not> ValidDisplayAmount (ai_amount i) then Inl (Credit CreditInvalidAmount)
      else bindE (AdjustWallet (i\<lparr>ai_action := ''credit''\<rparr>) s) (\<lambda>(r, s).
           Inr (\<lparr>cd_user = ar_user r, cd_currency = ar_currency r, cd_amount = ar_amount r, cd_after = ar_after r,
                 cd_credited = \<not> ar_duplicate r, cd_at = ar_at r\<rparr>, s)))"


section \<open>What a posting does\<close>

definition frozen_of :: "db \<Rightarrow> string \<Rightarrow> string \<Rightarrow> int" where
  "frozen_of s u c = (case wallet_of s u c of None \<Rightarrow> 0 | Some w \<Rightarrow> w_frozen w)"

text \<open>The balances of one wallet change by the given amounts, those of all others stay.\<close>

definition moved_by :: "db \<Rightarrow> string \<Rightarrow> string \<Rightarrow> int \<Rightarrow> int \<Rightarrow> db \<Rightarrow> bool" where
  "moved_by s u c d f s' \<longleftrightarrow>
     (\<forall>a b. balance_of s' a b = balance_of s a b + (if (a, b) = (u, c) then d else 0)
          \<and> frozen_of s' a b = frozen_of s a b + (if (a, b) = (u, c) then f else 0))"

definition new_entry :: "db \<Rightarrow> string \<Rightarrow> string \<Rightarrow> int \<Rightarrow> db \<Rightarrow> bool" where
  "new_entry s bt bid am s' \<longleftrightarrow> (\<exists>e. ledger s' = ledger s @ [e] \<and> l_btype e = bt \<and> l_bid e = bid \<and> l_amount e = am)"

lemma moved_by_trans: "moved_by s u c d f t \<Longrightarrow> moved_by t u' c' d' f' s' \<Longrightarrow>
   balance_of s' a b = balance_of s a b + (if (a, b) = (u, c) then d else 0) + (if (a, b) = (u', c') then d' else 0)"
  by (simp add: moved_by_def)

lemma moved_by_cong:
  "wallets t = wallets s \<Longrightarrow> moved_by t u c d f s' = moved_by s u c d f s'"
  "wallets s' = wallets t' \<Longrightarrow> moved_by s u c d f s' = moved_by s u c d f t'"
  by (simp_all add: moved_by_def balance_of_def frozen_of_def wallet_of_def)

lemma writeLedger_row:
  assumes "writeLedger u c bt bid am v r op s = Inr s'"
  obtains w e where "wallet_of s u c = Some w" "ledger s' = ledger s @ [e]" "wallets s' = wallets s" "money_only s s'"
    "l_wallet e = w_id w" "l_btype e = bt" "l_bid e = bid" "l_amount e = am" "l_after e = v" "l_avail_delta e = fst (ledger_deltas bt am)"
    "l_frozen_delta e = snd (ledger_deltas bt am)" "\<exists>x. wallet_by_id s (w_id w) = Some x \<and> l_frozen_after e = w_frozen x"
proof -
  obtain w where w: "wallet_of s u c = Some w" using assms by (auto simp: writeLedger_def bindE_eq_Inr orErr_eq_Inr)
  let ?t = "s\<lparr>next_uuid := Suc (next_uuid s)\<rparr>"
  obtain e where i: "insert_ledger_row e ?t = Inr s'" and e: "l_wallet e = w_id w" "l_btype e = bt" "l_bid e = bid" "l_amount e = am" "l_after e = v"
    "l_avail_delta e = fst (ledger_deltas bt am)" "l_frozen_delta e = snd (ledger_deltas bt am)"
    using assms w by (auto simp: writeLedger_def new_uuid_def Let_def)
  obtain x ev where x: "wallet_by_id ?t (l_wallet e) = Some x"
    and s': "s' = ?t\<lparr>next_uuid := Suc (next_uuid ?t), ledger := ledger ?t @ [e\<lparr>l_frozen_after := w_frozen x\<rparr>], outbox := outbox ?t @ [ev]\<rparr>"
    using i by (rule insert_ledger_row_Inr)
  show thesis
    by (rule that [of w "e\<lparr>l_frozen_after := w_frozen x\<rparr>"]) (use w x s' e in \<open>simp_all add: money_only_def wallet_by_id_def\<close>)
qed

lemma wallet_update_of:
  assumes "wallets_ok s" "wallet_of s u c = Some w"
  shows "wallet_of (wallet_update (w_id w) v f s) a b
    = (if (a, b) = (u, c) then Some (w\<lparr>w_available := v, w_frozen := f, w_version := w_version w + 1, w_updated := clock s\<rparr>) else wallet_of s a b)"
proof -
  have "x = w" if "wallet_of s a b = Some x" "w_id x = w_id w" for x
    using that assms(1) wallet_of_mem [OF that(1)] wallet_of_mem [OF assms(2)] distinct_key_eq [of w_id "wallets s" x w]
    by (auto simp: wallets_ok_def)
  moreover have "w_user w = u" "w_currency w = c" using wallet_of_mem [OF assms(2)] by auto
  ultimately show ?thesis
    unfolding wallet_of_update by (cases "wallet_of s a b") (use assms(2) in \<open>auto dest: wallet_of_mem\<close>)
qed

text \<open>A wallet row written together with its ledger entry.\<close>

lemma posting:
  assumes "books_ok s" "wallet_of s u c = Some w" "in_range v" "in_range f"
    and "wallets t = wallets (wallet_update (w_id w) v f s)" "ledger t = ledger s"
    and "writeLedger u c bt bid am v r op t = Inr s'" "ledger_deltas bt am = (v - w_available w, f - w_frozen w)"
  shows "books_ok s' \<and> moved_by s u c (v - w_available w) (f - w_frozen w) s' \<and> new_entry s bt bid am s' \<and> money_only t s'
    \<and> wallets s' = wallets t"
proof -
  have ok: "wallets_ok s" using books_ok_wallets_ok [OF assms(1)] .
  let ?w = "w\<lparr>w_available := v, w_frozen := f, w_version := w_version w + 1, w_updated := clock s\<rparr>"
  have wt: "wallet_of t a b = (if (a, b) = (u, c) then Some ?w else wallet_of s a b)" for a b
    using wallet_update_of [OF ok assms(2), of v f a b] assms(5) by (simp add: wallet_of_def)
  obtain x e where x: "wallet_of t u c = Some x" and e: "ledger s' = ledger t @ [e]" "wallets s' = wallets t" "money_only t s'" "l_wallet e = w_id x"
    "l_btype e = bt" "l_bid e = bid" "l_amount e = am" "l_after e = v" "l_avail_delta e = fst (ledger_deltas bt am)"
    "l_frozen_delta e = snd (ledger_deltas bt am)" and fa: "\<exists>y. wallet_by_id t (w_id x) = Some y \<and> l_frozen_after e = w_frozen y"
    using assms(7) by (rule writeLedger_row)
  have "x = ?w" using x wt by simp
  moreover have "wallet_by_id t (w_id w) = Some ?w"
    using wallet_by_id_update [OF wallet_of_by_id [OF ok assms(2)], of v f "w_id w"] wallet_by_id_cong [OF assms(5)] by simp
  ultimately have sh: "shifted s w v f s'" using e fa assms(5,6,8) by (auto simp: shifted_def)
  have "books_ok s'" by (rule shifted_books [OF assms(1) wallet_of_by_id [OF ok assms(2)] sh assms(3,4)])
  moreover have "wallet_of s' a b = wallet_of t a b" for a b using e(2) by (simp add: wallet_of_def)
  then have "moved_by s u c (v - w_available w) (f - w_frozen w) s'"
    using assms(2) by (auto simp: moved_by_def balance_of_def frozen_of_def wt)
  ultimately show ?thesis using e assms(6) by (auto simp: new_entry_def)
qed

lemma wallet_row_for_Inr:
  assumes "books_ok s" "wallet_row_for u c s = Inr s'"
  shows "books_ok s' \<and> moved_by s u c 0 0 s' \<and> ledger s' = ledger s \<and> money_only s s'"
proof (cases "wallet_of s u c")
  case None
  let ?t = "s\<lparr>next_uuid := Suc (next_uuid s)\<rparr>"
  have i: "insert_wallet (uuids s (next_uuid s)) u c ?t = Inr s'" using assms(2) None by (simp add: wallet_row_for_def new_uuid_def wallet_of_def)
  have b: "books (\<lambda>_. (0, 0)) ?t" using assms(1) books_cong [of ?t s] by (simp add: books_ok_def)
  obtain w where w: "wallets s' = wallets s @ [w]" "w_user w = u" "w_currency w = c" "w_available w = 0" "w_frozen w = 0" "ledger s' = ledger s"
    using i by (auto simp: insert_wallet_def split: if_splits)
  have "wallet_of s' a b = (if (a, b) = (u, c) then Some w else wallet_of s a b)" for a b
    using None w by (auto simp: wallet_of_def lookup_append split: option.splits)
  then show ?thesis using books_insert_wallet [OF b i] insert_wallet_money_only [OF i] w None
    by (auto simp: books_ok_def moved_by_def balance_of_def frozen_of_def money_only_def)
next
  case (Some w)
  then have "s' = s\<lparr>next_uuid := Suc (next_uuid s)\<rparr>" using assms(2) by (simp add: wallet_row_for_def new_uuid_def wallet_of_def)
  then show ?thesis using assms(1) books_ok_cong [OF assms(1), of s'] by (simp add: moved_by_def balance_of_def frozen_of_def wallet_of_def money_only_def)
qed

lemma set_available_update:
  assumes "wallets_ok s" "wallet_of s u c = Some w" "set_available (w_id w) v s = Inr t"
  shows "0 \<le> v \<and> t = wallet_update (w_id w) v (w_frozen w) s"
  using set_available_Inr [OF assms(1) wallet_of_by_id [OF assms(1,2)] assms(3)] .

text \<open>A reward: the wallet is created if it is missing, the balance grows by the amount, one entry records it.\<close>

lemma credit_posting:
  assumes "books_ok s" "addBalance u c d s = Inr (v, t)" "wallets t' = wallets t" "ledger t' = ledger t" "money_only t t'"
    and "writeLedger u c bt bid d v r op t' = Inr s'" "ledger_deltas bt d = (d, 0)"
  shows "books_ok s' \<and> moved_by s u c d 0 s' \<and> new_entry s bt bid d s' \<and> money_only s s' \<and> v = balance_of s u c + d \<and> v \<le> max_int64"
proof -
  obtain s1 w where s1: "wallet_row_for u c s = Inr s1" and w: "wallet_of s1 u c = Some w" and r: "int64 (w_available w + d)"
    and v: "v = w_available w + d" and t: "set_available (w_id w) v s1 = Inr t"
    using assms(2) by (auto simp: addBalance_def bindE_eq_Inr orErr_eq_Inr split: if_splits)
  note a = wallet_row_for_Inr [OF assms(1) s1]
  have ok: "wallets_ok s1" using a books_ok_wallets_ok by blast
  note u = set_available_update [OF ok w t]
  have rv: "in_range v" "in_range (w_frozen w)" using u r v wallet_of_range [OF ok w] by (auto simp: in_range_def int64_def max_int64_def)
  have p: "books_ok s' \<and> moved_by s1 u c (v - w_available w) (w_frozen w - w_frozen w) s' \<and> new_entry s1 bt bid d s' \<and> money_only t' s' \<and> wallets s' = wallets t'"
    by (rule posting [OF _ w rv _ _ assms(6)]) (use a u assms(3,4,7) v in simp_all)
  have "moved_by s u c d 0 s'" using p a v by (simp add: moved_by_def)
  moreover have "balance_of s u c = balance_of s1 u c" using a by (simp add: moved_by_def)
  then have "balance_of s u c = w_available w" using w by (simp add: balance_of_def)
  moreover have "money_only s s'"
    using set_available_money_only [OF t] a p assms(5) money_only_trans [of s s1 t] money_only_trans [of s t t'] money_only_trans [of s t' s'] by blast
  ultimately show ?thesis using p a v rv by (simp add: new_entry_def in_range_def)
qed

text \<open>A charge.\<close>

lemma debit_posting:
  assumes "books_ok s" "0 \<le> d" "deductBalance u c d s = Inr (v, t)" "wallets t' = wallets t" "ledger t' = ledger t" "money_only t t'"
    and "writeLedger u c bt bid (- d) v r op t' = Inr s'" "ledger_deltas bt (- d) = (- d, 0)"
  shows "books_ok s' \<and> moved_by s u c (- d) 0 s' \<and> new_entry s bt bid (- d) s' \<and> money_only s s' \<and> v = balance_of s u c - d \<and> 0 \<le> v"
proof -
  obtain w where w: "wallet_of s u c = Some w" and v: "v = w_available w - d" "d \<le> w_available w" and t: "set_available (w_id w) v s = Inr t"
    using assms(3) by (auto simp: deductBalance_def bindE_eq_Inr split: option.splits if_splits)
  have ok: "wallets_ok s" using books_ok_wallets_ok [OF assms(1)] .
  note u = set_available_update [OF ok w t]
  have rv: "in_range v" "in_range (w_frozen w)" using u v assms(2) wallet_of_range [OF ok w] by (auto simp: in_range_def)
  have p: "books_ok s' \<and> moved_by s u c (v - w_available w) (w_frozen w - w_frozen w) s' \<and> new_entry s bt bid (- d) s' \<and> money_only t' s' \<and> wallets s' = wallets t'"
    by (rule posting [OF assms(1) w rv _ _ assms(7)]) (use u assms(4,5,8) v in simp_all)
  have "money_only s s'" using set_available_money_only [OF t] p assms(6) money_only_trans [of s t t'] money_only_trans [of s t' s'] by blast
  then show ?thesis using p v u w by (simp add: balance_of_def)
qed


lemma ledger_deltas_plain: "bt \<noteq> ''point_withdrawal'' \<Longrightarrow> bt \<noteq> ''point_withdrawal_debit'' \<Longrightarrow> bt \<noteq> ''point_withdrawal_unfreeze'' \<Longrightarrow>
   ledger_deltas bt am = (am, 0)"
  by (simp add: ledger_deltas_def)

section \<open>What the operations do\<close>

lemma RewardCurrency_Inr:
  assumes "books_ok s" "RewardCurrency u c bt bid am r s = Inr (v, s')" "ledger_deltas bt am = (am, 0)"
  defines "c' \<equiv> to_upper (trim_space c)"
  shows "0 < am \<and> books_ok s' \<and> moved_by s u c' am 0 s' \<and> new_entry s bt bid am s' \<and> money_only s s' \<and> v = balance_of s u c' + am \<and> v \<le> max_int64"
proof -
  obtain t where t: "0 < am" "addBalance u c' am s = Inr (v, t)" "writeLedger u c' bt bid am v r [] t = Inr s'"
    using assms(2) by (auto simp: RewardCurrency_def Let_def bindE_eq_Inr c'_def split: if_splits)
  show ?thesis using credit_posting [OF assms(1) t(2) refl refl money_only_refl t(3) assms(3)] t(1) by blast
qed

definition consumed :: "db \<Rightarrow> ConsumeStaminaInput \<Rightarrow> bool" where
  "consumed s i \<longleftrightarrow> findStaminaLedger (cs_user i) ''activity_consume'' (''consume:'' @ cs_activity i) s \<noteq> None"

lemma ConsumeStamina_Inr:
  assumes "books_ok s" "ConsumeStamina i s = Inr (r, s')"
  shows "if consumed s i then s' = s \<and> \<not> cn_consumed r
    else books_ok s' \<and> moved_by s (cs_user i) ''STAMINA'' (- cs_amount i) 0 s' \<and> cn_consumed r \<and> cn_after r = balance_of s (cs_user i) ''STAMINA'' - cs_amount i
       \<and> new_entry s ''activity_consume'' (''consume:'' @ cs_activity i) (- cs_amount i) s' \<and> 0 \<le> cn_after r \<and> money_only s s'"
proof (cases "findStaminaLedger (cs_user i) ''activity_consume'' (''consume:'' @ cs_activity i) s")
  case (Some e)
  then show ?thesis using assms(2) by (auto simp: ConsumeStamina_def consumed_def Let_def split: if_splits)
next
  case None
  then obtain v t where t: "0 < cs_amount i" "deductBalance (cs_user i) ''STAMINA'' (cs_amount i) s = Inr (v, t)"
    "writeLedger (cs_user i) ''STAMINA'' ''activity_consume'' (''consume:'' @ cs_activity i) (- cs_amount i) v (cs_remark i) [] t = Inr s'"
    and r: "cn_consumed r" "cn_after r = v"
    using assms(2) by (auto simp: ConsumeStamina_def Let_def bindE_eq_Inr split: if_splits)
  have p: "0 \<le> cs_amount i" using t(1) by simp
  show ?thesis
    using debit_posting [OF assms(1) p t(2) refl refl money_only_refl t(3) ledger_deltas_plain] r None by (simp add: consumed_def)
qed


lemma set_balances_update:
  assumes "wallets_ok s" "wallet_of s u c = Some w" "set_balances (w_id w) v f s = Inr t"
  shows "0 \<le> v \<and> 0 \<le> f \<and> t = wallet_update (w_id w) v f s"
  using set_balances_Inr [OF wallet_of_by_id [OF assms(1,2)] assms(3)] .

text \<open>A point withdrawal names the POINTS wallet of its user; ids are unique.\<close>

definition points_ok :: "db \<Rightarrow> bool" where
  "points_ok s \<longleftrightarrow> distinct (map pw_id (point_withdrawals s))
     \<and> (\<forall>p \<in> set (point_withdrawals s). 0 < pw_amount p \<and> pw_amount p \<le> max_int64
          \<and> (\<exists>w. wallet_of s (pw_user p) ''POINTS'' = Some w \<and> w_id w = pw_wallet p))"

lemma wallet_update_keeps_of:
  assumes "wallets_ok s" "wallet_of s u c = Some w" "wallets t = wallets (wallet_update (w_id w) v f s)" "wallet_of s a b = Some x"
  shows "\<exists>y. wallet_of t a b = Some y \<and> w_id y = w_id x"
  using wallet_update_of [OF assms(1,2), of v f a b] assms(2-4) by (cases "(a, b) = (u, c)") (auto simp: wallet_of_def)

lemma frozen_sum: "in_range f \<Longrightarrow> 0 < a \<Longrightarrow> a \<le> max_int64 \<Longrightarrow> 0 \<le> wrap64 (f + a) \<Longrightarrow> wrap64 (f + a) = f + a \<and> f + a \<le> max_int64"
  using wrap64_add_nonneg_iff [of f a] by (auto simp: in_range_def int64_def max_int64_def)

lemma RequestPointWithdrawal_Inr:
  assumes "books_ok s" "points_ok s" "RequestPointWithdrawal u req a r s = Inr (p, s')" "a \<le> max_int64"
    and "lookup (\<lambda>p. pw_user p = u \<and> pw_request p = req) (point_withdrawals s) = None"
  shows "\<exists>row. p = point_withdrawal_of row \<and> pw_user row = u \<and> pw_request row = req \<and> pw_amount row = a \<and> pw_status row = ''requested''
     \<and> point_withdrawals s' = point_withdrawals s @ [row] \<and> 0 < a \<and> a \<le> balance_of s u ''POINTS''
     \<and> books_ok s' \<and> points_ok s' \<and> moved_by s u ''POINTS'' (- a) a s' \<and> new_entry s ''point_withdrawal'' (pw_id row) (- a) s'"
proof -
  obtain x w t where x: "user_by_id s u = Some x" "\<not> u_virtual x" and w: "wallet_of s u ''POINTS'' = Some w" "a \<le> w_available w" and a: "0 < a"
    and t: "set_balances (w_id w) (w_available w - a) (wrap64 (w_frozen w + a)) s = Inr t"
    and rest: "(let (i, s) = new_uuid t;
              p = \<lparr>pw_id = i, pw_user = u, pw_wallet = w_id w, pw_request = req, pw_amount = a,
                   pw_status = ''requested'', pw_remark = r, pw_reviewer = None, pw_created = clock s\<rparr> in
          bindE (insert_point_withdrawal p s) (\<lambda>s.
          bindE (writeLedger u ''POINTS'' ''point_withdrawal'' i (- a) (w_available w - a) r [] s) (\<lambda>s.
          Inr (point_withdrawal_of p, s)))) = Inr (p, s')"
    using assms(3,5) unfolding RequestPointWithdrawal_def by (auto simp: bindE_eq_Inr orErr_eq_Inr split: if_splits)
  let ?row = "\<lparr>pw_id = uuids t (next_uuid t), pw_user = u, pw_wallet = w_id w, pw_request = req, pw_amount = a,
                   pw_status = ''requested'', pw_remark = r, pw_reviewer = None, pw_created = clock t\<rparr>"
  obtain t2 where ins: "insert_point_withdrawal ?row (t\<lparr>next_uuid := Suc (next_uuid t)\<rparr>) = Inr t2"
    and wl: "writeLedger u ''POINTS'' ''point_withdrawal'' (pw_id ?row) (- a) (w_available w - a) r [] t2 = Inr s'" and p: "p = point_withdrawal_of ?row"
    using rest by (auto simp: new_uuid_def Let_def bindE_eq_Inr)
  have ok: "wallets_ok s" using books_ok_wallets_ok [OF assms(1)] .
  note range = wallet_of_range [OF ok w(1)]
  note u = set_balances_update [OF ok w(1) t]
  have f: "wrap64 (w_frozen w + a) = w_frozen w + a" "w_frozen w + a \<le> max_int64" using frozen_sum [of "w_frozen w" a] range a assms(4) u by auto
  have t2: "wallets t2 = wallets t" "ledger t2 = ledger t" "point_withdrawals t2 = point_withdrawals t @ [?row]"
    "\<forall>y \<in> set (point_withdrawals t). pw_id y \<noteq> pw_id ?row"
    using ins by (auto simp: insert_point_withdrawal_def list_ex_iff split: if_splits)
  have rv: "in_range (w_available w - a)" "in_range (w_frozen w + a)" using range w(2) a f by (auto simp: in_range_def)
  have po: "books_ok s' \<and> moved_by s u ''POINTS'' (w_available w - a - w_available w) (w_frozen w + a - w_frozen w) s'
      \<and> new_entry s ''point_withdrawal'' (pw_id ?row) (- a) s' \<and> money_only t2 s' \<and> wallets s' = wallets t2"
    by (rule posting [OF assms(1) w(1) rv _ _ wl]) (use t2 u f in \<open>simp_all add: ledger_deltas_def\<close>)
  have pw: "point_withdrawals t = point_withdrawals s" using u by (simp add: wallet_update_def)
  have s': "point_withdrawals s' = point_withdrawals s @ [?row]" using po t2(3) pw money_onlyD [of t2 s'] by simp
  have ws: "wallets s' = wallets (wallet_update (w_id w) (w_available w - a) (w_frozen w + a) s)" using po t2 u f by simp
  note keep = wallet_update_keeps_of [OF ok w(1) ws]
  have "points_ok s'" using assms(2) a assms(4) t2(4) keep keep [OF w(1)] unfolding points_ok_def s' pw by fastforce
  then show ?thesis using po p s' a w by (intro exI [of _ ?row]) (simp add: balance_of_def)
qed

lemma ReviewPointWithdrawal_Inr:
  assumes "books_ok s" "points_ok s" "ReviewPointWithdrawal i rv ok s = Inr (u, s')"
  shows "\<exists>p \<in> set (point_withdrawals s). pw_id p = i \<and> pw_status p = ''requested'' \<and> books_ok s' \<and> points_ok s'
     \<and> point_withdrawals s' = modify (\<lambda>x. pw_id x = i) (\<lambda>x. x\<lparr>pw_status := if ok then ''approved'' else ''rejected'', pw_reviewer := Some rv\<rparr>) (point_withdrawals s)
     \<and> moved_by s (pw_user p) ''POINTS'' (if ok then 0 else pw_amount p) (- pw_amount p) s'"
proof -
  let ?st = "if ok then ''approved'' else ''rejected''"
  let ?et = "if ok then ''point_withdrawal_debit'' else ''point_withdrawal_unfreeze''"
  obtain p w where p: "lookup (\<lambda>p. pw_id p = i) (point_withdrawals s) = Some p" and w: "wallet_by_id s (pw_wallet p) = Some w"
    and st: "pw_status p = ''requested''" "pw_amount p \<le> w_frozen w"
    using assms(3) unfolding ReviewPointWithdrawal_def by (auto simp: bindE_eq_Inr orErr_eq_Inr split: if_splits)
  let ?v = "if ok then w_available w else wrap64 (w_available w + pw_amount p)"
  let ?am = "if ok then - pw_amount p else pw_amount p"
  let ?g = "\<lambda>x. x\<lparr>pw_status := ?st, pw_reviewer := Some rv\<rparr>"
  obtain t where t: "set_balances (w_id w) ?v (w_frozen w - pw_amount p) s = Inr t"
    and wl: "writeLedger (pw_user p) ''POINTS'' ?et i ?am ?v [] rv (t\<lparr>point_withdrawals := modify (\<lambda>x. pw_id x = i) ?g (point_withdrawals t)\<rparr>) = Inr s'"
    using assms(3) p w st unfolding ReviewPointWithdrawal_def by (auto simp: bindE_eq_Inr Let_def split: if_splits)
  let ?t2 = "t\<lparr>point_withdrawals := modify (\<lambda>x. pw_id x = i) ?g (point_withdrawals t)\<rparr>"
  have pm: "p \<in> set (point_withdrawals s)" "pw_id p = i" using lookup_SomeD [OF p] by simp_all
  obtain x where x: "wallet_of s (pw_user p) ''POINTS'' = Some x" "w_id x = pw_wallet p" and am: "0 < pw_amount p" "pw_amount p \<le> max_int64"
    using assms(2) pm by (auto simp: points_ok_def)
  have wok: "wallets_ok s" using books_ok_wallets_ok [OF assms(1)] .
  have "x = w" using wallet_of_by_id [OF wok x(1)] x(2) w by simp
  note x = x [unfolded this]
  note range = wallet_of_range [OF wok x(1)]
  note u = set_balances_update [OF wok x(1) t]
  have v: "?v = w_available w + (if ok then 0 else pw_amount p)" "in_range ?v"
    using frozen_sum [of "w_available w" "pw_amount p"] range am u by (auto simp: in_range_def)
  have rf: "in_range (w_frozen w - pw_amount p)" using range st(2) am by (simp add: in_range_def)
  have po: "books_ok s' \<and> moved_by s (pw_user p) ''POINTS'' (?v - w_available w) (w_frozen w - pw_amount p - w_frozen w) s'
      \<and> new_entry s ?et i ?am s' \<and> money_only ?t2 s' \<and> wallets s' = wallets ?t2"
    by (rule posting [OF assms(1) x(1) v(2) rf _ _ wl]) (use u v(1) in \<open>auto simp: ledger_deltas_def\<close>)
  have s': "point_withdrawals s' = modify (\<lambda>x. pw_id x = i) ?g (point_withdrawals s)"
    using po u money_onlyD [of ?t2 s'] by (simp add: wallet_update_def)
  have ws: "wallets s' = wallets (wallet_update (w_id w) ?v (w_frozen w - pw_amount p) s)" using po u by simp
  have "map pw_id (point_withdrawals s') = map pw_id (point_withdrawals s)" unfolding s' by (rule map_modify_inv) simp
  moreover have "\<exists>y \<in> set (point_withdrawals s). pw_amount y' = pw_amount y \<and> pw_user y' = pw_user y \<and> pw_wallet y' = pw_wallet y"
    if "y' \<in> set (point_withdrawals s')" for y'
    using that unfolding s' set_modify by (auto split: if_splits)
  ultimately have "points_ok s'" using assms(2) wallet_update_keeps_of [OF wok x(1) ws] unfolding points_ok_def by metis
  then show ?thesis using po s' pm st v(1) by (intro bexI [of _ p]) auto
qed


text \<open>A second review of a reviewed request is refused.\<close>

lemma ReviewPointWithdrawal_again:
  assumes "books_ok s" "points_ok s" "p \<in> set (point_withdrawals s)" "pw_id p = i" "pw_status p \<noteq> ''requested''"
  shows "ReviewPointWithdrawal i rv ok s = Inl (Credit ErrPointWithdrawalState)"
proof -
  have l: "lookup (\<lambda>p. pw_id p = i) (point_withdrawals s) = Some p"
    using lookup_key_unique [of pw_id "point_withdrawals s" p] assms(2-4) by (simp add: points_ok_def)
  obtain w where w: "wallet_of s (pw_user p) ''POINTS'' = Some w" "w_id w = pw_wallet p" using assms(2,3) by (auto simp: points_ok_def)
  have "wallet_by_id s (pw_wallet p) = Some w" using wallet_of_by_id [OF books_ok_wallets_ok [OF assms(1)] w(1)] w(2) by simp
  then show ?thesis using l assms(5) by (simp add: ReviewPointWithdrawal_def)
qed

lemma RequestPointWithdrawal_again:
  assumes "row \<in> set (point_withdrawals s)" "pw_user row = u" "pw_request row = req" "u \<noteq> []" "req \<noteq> []" "0 < a"
    and "\<And>x. x \<in> set (point_withdrawals s) \<Longrightarrow> pw_user x = u \<Longrightarrow> pw_request x = req \<Longrightarrow> x = row"
  shows "RequestPointWithdrawal u req a r s = Inr (point_withdrawal_of row, s)"
proof -
  obtain x where x: "lookup (\<lambda>p. pw_user p = u \<and> pw_request p = req) (point_withdrawals s) = Some x"
    using assms(1-3) by (cases "lookup (\<lambda>p. pw_user p = u \<and> pw_request p = req) (point_withdrawals s)") (auto simp: lookup_None_iff)
  have "x = row" using lookup_SomeD [OF x] assms(7) by blast
  then show ?thesis using x assms(4-6) by (simp add: RequestPointWithdrawal_def)
qed

text \<open>C27: The withdrawal of points. A first request freezes exactly its amount, which was available; the same request again,
  with any amount, is answered by the first one and changes nothing; a review consumes the frozen amount or gives it back,
  and no second review succeeds.\<close>

theorem point_withdrawal_exact:
  assumes "books_ok s" "points_ok s" "RequestPointWithdrawal u req a r s = Inr (p, s')" "a \<le> max_int64"
    and "lookup (\<lambda>p. pw_user p = u \<and> pw_request p = req) (point_withdrawals s) = None"
  shows "0 < a \<and> a \<le> balance_of s u ''POINTS'' \<and> pt_amount p = a \<and> moved_by s u ''POINTS'' (- a) a s' \<and> books_ok s' \<and> points_ok s'
    \<and> (\<forall>a' r'. 0 < a' \<longrightarrow> RequestPointWithdrawal u req a' r' s' = Inr (p, s'))
    \<and> (\<forall>rv ok x s''. ReviewPointWithdrawal (pt_id p) rv ok s' = Inr (x, s'') \<longrightarrow>
         moved_by s u ''POINTS'' (if ok then - a else 0) 0 s'' \<and> books_ok s'' \<and> points_ok s''
         \<and> (\<forall>rv' ok'. ReviewPointWithdrawal (pt_id p) rv' ok' s'' = Inl (Credit ErrPointWithdrawalState)))"
proof -
  obtain row where row: "p = point_withdrawal_of row" "pw_user row = u" "pw_request row = req" "pw_amount row = a" "pw_status row = ''requested''"
    "point_withdrawals s' = point_withdrawals s @ [row]" "0 < a" "a \<le> balance_of s u ''POINTS''"
    and ok: "books_ok s'" "points_ok s'" "moved_by s u ''POINTS'' (- a) a s'"
    using RequestPointWithdrawal_Inr [OF assms] by blast
  have ne: "u \<noteq> []" "req \<noteq> []" using assms(3) by (auto simp: RequestPointWithdrawal_def split: if_splits)
  have only: "x = row" if "x \<in> set (point_withdrawals s')" "pw_user x = u" "pw_request x = req" for x
    using that row(6) assms(5) by (auto simp: lookup_None_iff)
  have mem: "row \<in> set (point_withdrawals s')" by (simp add: row(6))
  have again: "RequestPointWithdrawal u req a' r' s' = Inr (p, s')" if "0 < a'" for a' r'
    unfolding row(1) by (rule RequestPointWithdrawal_again [OF mem row(2,3) ne that only])
  have id: "pt_id p = pw_id row" by (simp add: row(1) point_withdrawal_of_def)
  have review: "moved_by s u ''POINTS'' (if k then - a else 0) 0 s'' \<and> books_ok s'' \<and> points_ok s''
         \<and> (\<forall>rv' ok'. ReviewPointWithdrawal (pt_id p) rv' ok' s'' = Inl (Credit ErrPointWithdrawalState))"
    if reviewed: "ReviewPointWithdrawal (pt_id p) rv k s' = Inr (x, s'')" for rv k x s''
  proof -
    obtain q where q: "q \<in> set (point_withdrawals s')" "pw_id q = pw_id row" and ok2: "books_ok s''" "points_ok s''"
      and up: "point_withdrawals s'' = modify (\<lambda>x. pw_id x = pt_id p) (\<lambda>x. x\<lparr>pw_status := if k then ''approved'' else ''rejected'', pw_reviewer := Some rv\<rparr>) (point_withdrawals s')"
      and mv: "moved_by s' (pw_user q) ''POINTS'' (if k then 0 else pw_amount q) (- pw_amount q) s''"
      using ReviewPointWithdrawal_Inr [OF ok(1,2) reviewed] unfolding id by blast
    have "q = row" using distinct_key_eq [of pw_id "point_withdrawals s'" q row] q ok(2) row(6) by (auto simp: points_ok_def)
    then have "moved_by s u ''POINTS'' (if k then - a else 0) 0 s''" using mv ok(3) row by (simp add: moved_by_def)
    moreover have "row\<lparr>pw_status := if k then ''approved'' else ''rejected'', pw_reviewer := Some rv\<rparr> \<in> set (point_withdrawals s'')"
      unfolding up set_modify id row(6) by force
    then have "ReviewPointWithdrawal (pt_id p) rv' ok' s'' = Inl (Credit ErrPointWithdrawalState)" for rv' ok'
      by (rule ReviewPointWithdrawal_again [OF ok2]) (simp_all add: id)
    ultimately show ?thesis using ok2 by blast
  qed
  have "pt_amount p = a" by (simp add: row point_withdrawal_of_def)
  moreover have "\<forall>a' r'. 0 < a' \<longrightarrow> RequestPointWithdrawal u req a' r' s' = Inr (p, s')" using again by blast
  moreover have "\<forall>rv k x s''. ReviewPointWithdrawal (pt_id p) rv k s' = Inr (x, s'') \<longrightarrow>
         moved_by s u ''POINTS'' (if k then - a else 0) 0 s'' \<and> books_ok s'' \<and> points_ok s''
         \<and> (\<forall>rv' ok'. ReviewPointWithdrawal (pt_id p) rv' ok' s'' = Inl (Credit ErrPointWithdrawalState))" using review by blast
  ultimately show ?thesis using row(7,8) ok by (intro conjI)
qed

lemma sample_points_ok: "points_ok sample_db"
  by (simp add: points_ok_def sample_db_def empty_db_def)

theorem point_withdrawal_exact_witness:
  "\<exists>p s' s''. RequestPointWithdrawal ''alice'' ''q'' 400 [] sample_db = Inr (p, s')
     \<and> moved_by sample_db ''alice'' ''POINTS'' (- 400) 400 s' \<and> ReviewPointWithdrawal (pt_id p) ''bob'' False s' = Inr ((), s'')
     \<and> moved_by sample_db ''alice'' ''POINTS'' 0 0 s''"
proof -
  have "case RequestPointWithdrawal ''alice'' ''q'' 400 [] sample_db of Inl e \<Rightarrow> False
     | Inr (p, s') \<Rightarrow> (case ReviewPointWithdrawal (pt_id p) ''bob'' False s' of Inl e \<Rightarrow> False | Inr _ \<Rightarrow> True)" by code_simp
  then obtain p s' where run: "RequestPointWithdrawal ''alice'' ''q'' 400 [] sample_db = Inr (p, s')"
    and "case ReviewPointWithdrawal (pt_id p) ''bob'' False s' of Inl e \<Rightarrow> False | Inr _ \<Rightarrow> True"
    by (cases "RequestPointWithdrawal ''alice'' ''q'' 400 [] sample_db") auto
  then obtain x s'' where rev: "ReviewPointWithdrawal (pt_id p) ''bob'' False s' = Inr (x, s'')"
    by (cases "ReviewPointWithdrawal (pt_id p) ''bob'' False s'") auto
  have n: "lookup (\<lambda>p. pw_user p = ''alice'' \<and> pw_request p = ''q'') (point_withdrawals sample_db) = None"
    by (simp add: sample_db_def empty_db_def)
  have m: "400 \<le> max_int64" by (simp add: max_int64_def)
  have "moved_by sample_db ''alice'' ''POINTS'' (- 400) 400 s' \<and> moved_by sample_db ''alice'' ''POINTS'' (if False then - 400 else 0) 0 s''"
    using point_withdrawal_exact [OF sample_books_ok sample_points_ok run m n] rev by blast
  then show ?thesis using run rev by auto
qed


lemma adjust_writes_Inr:
  assumes "books_ok s" "adjust_writes i d a s = Inr (r, s')" "d = 1 \<or> d = - 1"
  shows "0 < a \<and> books_ok s' \<and> moved_by s (ai_user i) (ai_currency i) (d * a) 0 s' \<and> new_entry s (''admin_'' @ ai_action i) (ar_operation r) (d * a) s'
    \<and> \<not> ar_duplicate r \<and> ar_amount r = a \<and> ar_before r = balance_of s (ai_user i) (ai_currency i) \<and> ar_after r = balance_of s' (ai_user i) (ai_currency i)
    \<and> users s' = users s \<and> user_roles s' = user_roles s \<and> currencies s' = currencies s
    \<and> (\<exists>row. adjustments s' = adjustments s @ [row] \<and> aj_operator row = ai_operator i \<and> aj_request row = ai_request i \<and> aj_user row = ai_user i
         \<and> aj_currency row = ai_currency i \<and> aj_action row = ai_action i \<and> aj_amount row = a \<and> aj_remark row = ai_remark i \<and> aj_result row = r)"
proof -
  obtain s1 w where s1: "wallet_row_for (ai_user i) (ai_currency i) s = Inr s1" and w: "wallet_of s1 (ai_user i) (ai_currency i) = Some w"
    and lo: "d < 0 \<Longrightarrow> a \<le> w_available w"
    and hi: "d > 0 \<Longrightarrow> w_available w \<le> max_int64 - w_frozen w \<and> a \<le> wrap64 (max_int64 - w_frozen w - w_available w)"
    and rest: "(let after = wrap64 (w_available w + d * a) in
       bindE (set_available (w_id w) after s1) (\<lambda>s.
       let (op', s) = new_uuid s;
           out = \<lparr>ar_operation = op', ar_user = ai_user i, ar_currency = ai_currency i, ar_action = ai_action i, ar_amount = a,
                  ar_delta = d * a, ar_before = w_available w, ar_after = after, ar_frozen = w_frozen w, ar_duplicate = False, ar_at = clock s\<rparr> in
       bindE (writeLedger (ai_user i) (ai_currency i) (''admin_'' @ ai_action i) op' (d * a) after (ai_remark i) (ai_operator i) s) (\<lambda>s.
       bindE (insert_adjustment \<lparr>aj_id = op', aj_operator = ai_operator i, aj_request = ai_request i, aj_user = ai_user i,
                aj_currency = ai_currency i, aj_action = ai_action i, aj_amount = a, aj_remark = ai_remark i, aj_result = out\<rparr> s) (\<lambda>s.
       bindE (insert_audit (ai_operator i) (''admin.wallet.'' @ ai_action i) ''user'' (ai_user i) (adjustment_payload out) s) (\<lambda>s.
       Inr (out, s)))))) = Inr (r, s')"
    using assms(2) unfolding adjust_writes_def by (auto simp: Let_def [of "w_available _"] Let_def [of "w_frozen _"] bindE_eq_Inr orErr_eq_Inr split: if_splits)
  note A = wallet_row_for_Inr [OF assms(1) s1]
  have ok: "wallets_ok s1" using A books_ok_wallets_ok by blast
  note range = wallet_of_range [OF ok w]
  let ?v = "wrap64 (w_available w + d * a)"
  obtain t t2 t3 op where t: "set_available (w_id w) ?v s1 = Inr t"
    and wl: "writeLedger (ai_user i) (ai_currency i) (''admin_'' @ ai_action i) op (d * a) ?v (ai_remark i) (ai_operator i) (t\<lparr>next_uuid := Suc (next_uuid t)\<rparr>) = Inr t2"
    and ins: "insert_adjustment \<lparr>aj_id = op, aj_operator = ai_operator i, aj_request = ai_request i, aj_user = ai_user i,
                aj_currency = ai_currency i, aj_action = ai_action i, aj_amount = a, aj_remark = ai_remark i, aj_result = r\<rparr> t2 = Inr t3"
    and au: "insert_audit (ai_operator i) (''admin.wallet.'' @ ai_action i) ''user'' (ai_user i) (adjustment_payload r) t3 = Inr s'"
    and r: "ar_operation r = op" "\<not> ar_duplicate r" "ar_amount r = a" "ar_before r = w_available w" "ar_after r = ?v"
    using rest by (auto simp: new_uuid_def Let_def bindE_eq_Inr)
  have pos: "0 < a" and t3: "t3 = t2\<lparr>adjustments := adjustments t2 @ [\<lparr>aj_id = op, aj_operator = ai_operator i, aj_request = ai_request i, aj_user = ai_user i,
                aj_currency = ai_currency i, aj_action = ai_action i, aj_amount = a, aj_remark = ai_remark i, aj_result = r\<rparr>]\<rparr>"
    using ins by (auto simp: insert_adjustment_def split: if_splits)
  note u = set_available_update [OF ok w t]
  have v: "?v = w_available w + d * a" "in_range ?v"
  proof -
    have "0 \<le> w_available w + d * a \<and> w_available w + d * a \<le> max_int64"
      using assms(3) lo hi range pos by (auto simp: in_range_def int64_def max_int64_def)
    then show "?v = w_available w + d * a" "in_range ?v" by (auto simp: in_range_def int64_def max_int64_def)
  qed
  have rf: "in_range (w_frozen w)" using range by simp
  have P: "books_ok t2 \<and> moved_by s1 (ai_user i) (ai_currency i) (?v - w_available w) (w_frozen w - w_frozen w) t2
      \<and> new_entry s1 (''admin_'' @ ai_action i) op (d * a) t2 \<and> money_only (t\<lparr>next_uuid := Suc (next_uuid t)\<rparr>) t2 \<and> wallets t2 = wallets (t\<lparr>next_uuid := Suc (next_uuid t)\<rparr>)"
    by (rule posting [OF _ w v(2) rf _ _ wl]) (use A u v(1) in \<open>simp_all add: ledger_deltas_plain\<close>)
  have s': "wallets s' = wallets t2" "ledger s' = ledger t2" "adjustments s' = adjustments t3" "users s' = users t2" "user_roles s' = user_roles t2" "currencies s' = currencies t2"
    using au t3 by (auto simp: insert_audit_def new_uuid_def Let_def split: if_splits)
  have "money_only s t" using A set_available_money_only [OF t] money_only_trans by blast
  then have m: "users t2 = users s" "user_roles t2 = user_roles s" "currencies t2 = currencies s" "adjustments t2 = adjustments s"
    using P money_onlyD [of s t] money_onlyD [of "t\<lparr>next_uuid := Suc (next_uuid t)\<rparr>" t2] by simp_all
  have "moved_by s (ai_user i) (ai_currency i) (d * a) 0 t2" using P A v(1) by (simp add: moved_by_def)
  then have mv: "moved_by s (ai_user i) (ai_currency i) (d * a) 0 s'" by (simp only: moved_by_cong(2) [OF s'(1)])
  have "books_ok s'" by (rule books_ok_cong [of t2]) (use P s' in simp_all)
  moreover have b: "w_available w = balance_of s (ai_user i) (ai_currency i)"
  proof -
    have "balance_of s1 (ai_user i) (ai_currency i) = balance_of s (ai_user i) (ai_currency i)" using A by (simp add: moved_by_def)
    then show ?thesis using w by (simp add: balance_of_def)
  qed
  moreover have "?v = balance_of s' (ai_user i) (ai_currency i)" using mv b v(1) by (simp add: moved_by_def)
  moreover have "new_entry s (''admin_'' @ ai_action i) (ar_operation r) (d * a) s'" using P A s'(2) r(1) by (simp add: new_entry_def)
  moreover have "\<exists>row. adjustments s' = adjustments s @ [row] \<and> aj_operator row = ai_operator i \<and> aj_request row = ai_request i \<and> aj_user row = ai_user i
         \<and> aj_currency row = ai_currency i \<and> aj_action row = ai_action i \<and> aj_amount row = a \<and> aj_remark row = ai_remark i \<and> aj_result row = r"
    using s'(3) t3 m(4) by simp
  moreover have "users s' = users s" "user_roles s' = user_roles s" "currencies s' = currencies s" using s'(4-6) m by simp_all
  moreover have "ar_before r = balance_of s (ai_user i) (ai_currency i)" "ar_after r = balance_of s' (ai_user i) (ai_currency i)"
    using r calculation by presburger+
  ultimately show ?thesis using mv r pos by (intro conjI)
qed


text \<open>What a successful adjustment was: a replay, or new writes for the normalised request.\<close>

definition adjustment_normal :: "AdjustmentInput \<Rightarrow> AdjustmentInput" where
  "adjustment_normal i = i\<lparr>ai_currency := to_upper (trim_space (ai_currency i))\<rparr>"

definition adjustment_known :: "db \<Rightarrow> AdjustmentInput \<Rightarrow> bool" where
  "adjustment_known s i \<longleftrightarrow> lookup (\<lambda>a. aj_operator a = ai_operator i \<and> aj_request a = ai_request i) (adjustments s) \<noteq> None
     \<or> legacy_entries (ai_operator i) (ai_request i) s \<noteq> []"

lemma AdjustWallet_Inr:
  assumes "AdjustWallet i s = Inr (r, s')" "\<not> adjustment_known s i"
  obtains d a n where "adjustmentDirection (ai_action i) = Some d" "ResolveDecimals s (ai_currency (adjustment_normal i)) False = Inr n"
    "ParseDisplayAmount (ai_amount i) n = Inr a" "adjust_writes (adjustment_normal i) d a s = Inr (r, s')"
  using assms unfolding AdjustWallet_def adjustment_known_def adjustment_normal_def [symmetric] Let_def
  by (auto simp: adjustment_normal_def bindE_eq_Inr orErr_eq_Inr split: option.splits sum.splits if_splits)


text \<open>A request an adjustment is recorded for is answered by that record or refused.\<close>

lemma AdjustWallet_recorded:
  assumes "lookup (\<lambda>a. aj_operator a = ai_operator j \<and> aj_request a = ai_request j) (adjustments s) = Some row" "AdjustWallet j s = Inr (r, s')"
  shows "s' = s \<and> ai_user j = aj_user row \<and> ai_currency (adjustment_normal j) = aj_currency row \<and> ai_action j = aj_action row
    \<and> ai_remark j = aj_remark row \<and> r = (aj_result row)\<lparr>ar_duplicate := True\<rparr>
    \<and> (\<exists>n. ResolveDecimals s (ai_currency (adjustment_normal j)) False = Inr n \<and> ParseDisplayAmount (ai_amount j) n = Inr (aj_amount row))"
  using assms unfolding AdjustWallet_def adjustment_normal_def [symmetric] Let_def
  by (auto simp: adjustment_normal_def replay_adjustment_def bindE_eq_Inr orErr_eq_Inr split: option.splits sum.splits if_splits)

lemma AdjustWallet_again:
  assumes "AdjustWallet i s = Inr (r, s')" "\<not> adjustment_known s i" "ResolveDecimals s (ai_currency (adjustment_normal i)) False = Inr n"
    "ParseDisplayAmount (ai_amount i) n = Inr a" "users t = users s" "user_roles t = user_roles s" "currencies t = currencies s"
    and "lookup (\<lambda>x. aj_operator x = ai_operator i \<and> aj_request x = ai_request i) (adjustments t) = Some row"
    and "aj_user row = ai_user i" "aj_currency row = ai_currency (adjustment_normal i)" "aj_action row = ai_action i" "aj_amount row = a" "aj_remark row = ai_remark i"
  shows "AdjustWallet i t = Inr ((aj_result row)\<lparr>ar_duplicate := True\<rparr>, t)"
proof -
  have m: "may_adjust (ai_operator i) t = may_adjust (ai_operator i) s" using assms(5,6) by (simp add: may_adjust_def)
  have rd: "ResolveDecimals t (ai_currency (adjustment_normal i)) False = Inr n" using assms(3,7) by (simp add: ResolveDecimals_def)
  have "replay_adjustment (adjustment_normal i) a row = Inr ((aj_result row)\<lparr>ar_duplicate := True\<rparr>)"
    using assms(9-13) by (simp add: replay_adjustment_def adjustment_normal_def)
  then show ?thesis
    using assms(1,4,8) m rd unfolding AdjustWallet_def adjustment_normal_def [symmetric] Let_def
    by (auto simp: adjustment_normal_def split: option.splits if_splits)
qed

text \<open>C28: An adjustment of a wallet is exact and recorded once. A request that is not yet known moves the signed amount on the
  wallet of the user in the normalised currency: the amount is the one the request spells, read with the decimals of that
  currency, and the sign is that of its action. There is one \<^verbatim>\<open>admin_\<close> entry of it and every other balance stays. The request sent
  again is answered by the recorded result, marked as a duplicate, without a change; and a later request of the operator under the
  same id that names another user, currency, action, amount or remark never succeeds.\<close>

theorem adjustment_exact:
  assumes "books_ok s" "AdjustWallet i s = Inr (r, s')" "\<not> adjustment_known s i"
  defines "c \<equiv> ai_currency (adjustment_normal i)"
  shows "\<exists>d a n. adjustmentDirection (ai_action i) = Some d \<and> ResolveDecimals s c False = Inr n \<and> ParseDisplayAmount (ai_amount i) n = Inr a
    \<and> 0 < a \<and> ar_amount r = a \<and> books_ok s' \<and> moved_by s (ai_user i) c (d * a) 0 s'
    \<and> new_entry s (''admin_'' @ ai_action i) (ar_operation r) (d * a) s' \<and> ar_before r = balance_of s (ai_user i) c \<and> ar_after r = balance_of s' (ai_user i) c
    \<and> AdjustWallet i s' = Inr (r\<lparr>ar_duplicate := True\<rparr>, s')
    \<and> (\<forall>j x t. ai_operator j = ai_operator i \<longrightarrow> ai_request j = ai_request i \<longrightarrow> AdjustWallet j s' = Inr (x, t) \<longrightarrow>
         t = s' \<and> x = r\<lparr>ar_duplicate := True\<rparr> \<and> ai_user j = ai_user i \<and> ai_currency (adjustment_normal j) = c \<and> ai_action j = ai_action i
         \<and> ParseDisplayAmount (ai_amount j) n = Inr a \<and> ai_remark j = ai_remark i)"
proof -
  obtain d a n where d: "adjustmentDirection (ai_action i) = Some d" and n: "ResolveDecimals s c False = Inr n" "ParseDisplayAmount (ai_amount i) n = Inr a"
    and w: "adjust_writes (adjustment_normal i) d a s = Inr (r, s')"
    using AdjustWallet_Inr [OF assms(2,3)] unfolding c_def by blast
  have dd: "d = 1 \<or> d = - 1" using d by (auto simp: adjustmentDirection_def split: if_splits)
  have same: "ai_user (adjustment_normal i) = ai_user i" "ai_action (adjustment_normal i) = ai_action i" "ai_remark (adjustment_normal i) = ai_remark i"
    "ai_operator (adjustment_normal i) = ai_operator i" "ai_request (adjustment_normal i) = ai_request i"
    by (simp_all add: adjustment_normal_def)
  note A = adjust_writes_Inr [OF assms(1) w dd, unfolded same c_def [symmetric]]
  obtain row where row: "adjustments s' = adjustments s @ [row]" "aj_operator row = ai_operator i" "aj_request row = ai_request i" "aj_user row = ai_user i"
    "aj_currency row = c" "aj_action row = ai_action i" "aj_amount row = a" "aj_remark row = ai_remark i" "aj_result row = r"
    using A by blast
  have l: "lookup (\<lambda>x. aj_operator x = ai_operator i \<and> aj_request x = ai_request i) (adjustments s') = Some row"
    using assms(3) row(1-3) by (auto simp: adjustment_known_def lookup_append)
  have "AdjustWallet i s' = Inr (r\<lparr>ar_duplicate := True\<rparr>, s')"
    using AdjustWallet_again [OF assms(2,3) n(1) [unfolded c_def] n(2) _ _ _ l row(4) row(5) [unfolded c_def] row(6-8)] A row(9) by simp
  moreover have "t = s' \<and> x = r\<lparr>ar_duplicate := True\<rparr> \<and> ai_user j = ai_user i \<and> ai_currency (adjustment_normal j) = c \<and> ai_action j = ai_action i
      \<and> ParseDisplayAmount (ai_amount j) n = Inr a \<and> ai_remark j = ai_remark i"
    if "ai_operator j = ai_operator i" "ai_request j = ai_request i" "AdjustWallet j s' = Inr (x, t)" for j x t
  proof -
    have rd: "ResolveDecimals s' c False = Inr n" using n(1) A by (simp add: ResolveDecimals_def)
    note q = AdjustWallet_recorded [OF l [folded that(1,2)] that(3)]
    then obtain m where "ResolveDecimals s' c False = Inr m" "ParseDisplayAmount (ai_amount j) m = Inr a" using row by auto
    then show ?thesis using q row rd by simp
  qed
  moreover have "0 < a \<and> ar_amount r = a \<and> books_ok s' \<and> moved_by s (ai_user i) c (d * a) 0 s'
    \<and> new_entry s (''admin_'' @ ai_action i) (ar_operation r) (d * a) s' \<and> ar_before r = balance_of s (ai_user i) c \<and> ar_after r = balance_of s' (ai_user i) c"
    using A by blast
  ultimately show ?thesis using d n by blast
qed

definition sample_adjustment :: AdjustmentInput where
  "sample_adjustment = \<lparr>ai_user = ''alice'', ai_currency = '' points '', ai_action = ''penalty'', ai_amount = ''0.25'', ai_remark = ''late'',
     ai_request = ''r1'', ai_operator = ''bob''\<rparr>"

definition sample_operator_db :: db where
  "sample_operator_db = sample_db\<lparr>user_roles := [(''bob'', ''operator'')]\<rparr>"

theorem adjustment_exact_witness:
  "\<exists>r s'. AdjustWallet sample_adjustment sample_operator_db = Inr (r, s') \<and> moved_by sample_operator_db ''alice'' ''POINTS'' (- 250) 0 s'
     \<and> AdjustWallet sample_adjustment s' = Inr (r\<lparr>ar_duplicate := True\<rparr>, s')
     \<and> \<not> (\<exists>x t. AdjustWallet (sample_adjustment\<lparr>ai_remark := ''other''\<rparr>) s' = Inr (x, t))"
proof -
  have "case AdjustWallet sample_adjustment sample_operator_db of Inl e \<Rightarrow> False | Inr (r, t) \<Rightarrow> ar_after r - ar_before r = - 250" by code_simp
  then obtain r s' where run: "AdjustWallet sample_adjustment sample_operator_db = Inr (r, s')" and am: "ar_after r - ar_before r = - 250"
    by (cases "AdjustWallet sample_adjustment sample_operator_db") auto
  have k: "\<not> adjustment_known sample_operator_db sample_adjustment"
    by (simp add: adjustment_known_def legacy_entries_def sample_operator_db_def sample_db_def empty_db_def sample_adjustment_def)
  have ok: "books_ok sample_operator_db" by (rule books_ok_cong [OF sample_books_ok]) (simp_all add: sample_operator_db_def)
  have c: "ai_currency (adjustment_normal sample_adjustment) = ''POINTS''" by code_simp
  have u: "ai_user sample_adjustment = ''alice''" by (simp add: sample_adjustment_def)
  note T = adjustment_exact [OF ok run k, unfolded c u]
  obtain d a n where m: "moved_by sample_operator_db ''alice'' ''POINTS'' (d * a) 0 s'"
    and b: "ar_before r = balance_of sample_operator_db ''alice'' ''POINTS''" "ar_after r = balance_of s' ''alice'' ''POINTS''"
    and again: "AdjustWallet sample_adjustment s' = Inr (r\<lparr>ar_duplicate := True\<rparr>, s')"
    and other: "\<forall>j x t. ai_operator j = ai_operator sample_adjustment \<longrightarrow> ai_request j = ai_request sample_adjustment \<longrightarrow> AdjustWallet j s' = Inr (x, t) \<longrightarrow>
      ai_remark j = ai_remark sample_adjustment \<and> ParseDisplayAmount (ai_amount j) n = Inr a"
    and n: "ResolveDecimals sample_operator_db ''POINTS'' False = Inr n" "ParseDisplayAmount (ai_amount sample_adjustment) n = Inr a"
    using T by (elim exE conjE) blast
  have da: "d * a = - 250" using m b am by (simp add: moved_by_def)
  have "\<not> (\<exists>x t. AdjustWallet (sample_adjustment\<lparr>ai_remark := ''other''\<rparr>) s' = Inr (x, t))"
    using other [rule_format, of "sample_adjustment\<lparr>ai_remark := ''other''\<rparr>"] by (auto simp: sample_adjustment_def)
  then show ?thesis using run m again da by auto
qed

end
