(* ===== verification/Robot_Plans.thy ===== *)
theory Robot_Plans
  imports Betting Credit
begin

text \<open>
  Robot plans: \<^verbatim>\<open>internal/application/virtualbot\<close>. An operator writes plans for virtual players (\<^verbatim>\<open>plans.go\<close>); the worker runs
  the due ones (\<^verbatim>\<open>service.go\<close>), which place simulated bets through the betting service. \<open>parses\<close> is \<^verbatim>\<open>uuid.Parse\<close> answering
  without an error, \<open>rnd k n\<close> the \<open>k\<close>-th number of a run that \<^verbatim>\<open>rand.Int\<close> draws below \<open>n\<close>. Login names and \<^verbatim>\<open>updated_at\<close> are left out.
\<close>

section \<open>plans.go: validation\<close>

record RobotPlan =
  pn_id :: string
  pn_input :: plan_input
  pn_name :: string
  pn_virtual :: bool
  pn_user_status :: string
  pn_next :: "int option"
  pn_seen :: "int option"
  pn_checked :: "int option"
  pn_status :: string
  pn_error :: string
  pn_last_bet :: "string option"
  pn_created :: int

definition hash_games :: "string list" where
  "hash_games = [''hash_9'', ''hash_13'', ''hash_17'', ''hash_19'', ''hash_23'', ''hash_29'']"

definition valid_pick :: "string \<times> string \<Rightarrow> bool" where
  "valid_pick v =
     (if fst v = ''road'' then snd v \<in> {''odd'', ''even'', ''big'', ''small''}
      else if fst v = ''guess'' \<or> fst v = ''dodge'' then length (snd v) = 1 \<and> is_digit (hd (snd v))
      else False)"

fun valid_picks :: "(string \<times> string) list \<Rightarrow> (string \<times> string) list \<Rightarrow> bool" where
  "valid_picks seen [] = True"
| "valid_picks seen (v # vs) = (v \<notin> set seen \<and> valid_pick v \<and> valid_picks (v # seen) vs)"

definition validatePlan :: "(string \<Rightarrow> bool) \<Rightarrow> plan_input \<Rightarrow> error + unit" where
  "validatePlan parses inp =
     (if \<not> parses (pi_room inp) then Inl (Robot ErrInvalidPlan)
      else if pi_user inp < 10001 \<or> pi_currency inp = [] \<or> pi_min inp \<le> 0 \<or> pi_max inp < pi_min inp \<or> pi_max inp > go_div max_int64 100000
      then Inl (Robot ErrInvalidPlan)
      else if pi_skip_min inp < 1 \<or> pi_skip_max inp < pi_skip_min inp \<or> pi_skip_max inp > 10000 \<or> pi_selections inp = []
              \<or> length (pi_selections inp) > 24 then Inl (Robot ErrInvalidPlan)
      else if pi_game inp \<notin> set hash_games then Inl (Robot ErrInvalidPlan)
      else if \<not> valid_picks [] (pi_selections inp) then Inl (Robot ErrInvalidPlan)
      else Inr ())"

definition robot_authorize :: "string \<Rightarrow> db \<Rightarrow> error + unit" where
  "robot_authorize actor s =
     (if list_ex (\<lambda>u. u_id u = actor \<and> u_status u = ''active''
          \<and> list_ex (\<lambda>r. fst r = actor \<and> snd r \<in> {''admin'', ''operator''}) (user_roles s)) (users s)
      then Inr () else Inl (Robot PlanForbidden))"

definition auditPlan :: "string \<Rightarrow> string \<Rightarrow> string \<Rightarrow> db \<Rightarrow> error + db" where
  "auditPlan actor action i s = insert_audit actor action ''robot_plan'' i (PObj []) s"

text \<open>The EXISTS query over room, game, configuration and currency.\<close>

definition plan_room_ok :: "plan_input \<Rightarrow> string \<Rightarrow> db \<Rightarrow> bool" where
  "plan_room_ok inp mode s \<longleftrightarrow>
     list_ex (\<lambda>r. gr_id r = pi_room inp \<and> gr_enabled r \<and> gr_kind r = ''hash'') (game_rooms s)
     \<and> list_ex (\<lambda>t. gt_code t = pi_game inp \<and> gt_enabled t \<and> (pi_room inp, gt_id t) \<in> set (game_room_types s)) (game_types s)
     \<and> list_ex (\<lambda>c. hc_room c = pi_room inp \<and> hc_currency c = pi_currency inp \<and> pi_min inp \<ge> hc_min c \<and> pi_max inp \<le>
          (if mode = ''guess'' then hc_guess_max c else if mode = ''dodge'' then hc_dodge_max c else hc_road_max c)) (hash_configs s)
     \<and> list_ex (\<lambda>c. c_code c = pi_currency inp \<and> c_enabled c) (currencies s)"

definition validatePlanDB :: "(string \<Rightarrow> bool) \<Rightarrow> plan_input \<Rightarrow> db \<Rightarrow> error + string" where
  "validatePlanDB parses inp s =
     bindE (validatePlan parses inp) (\<lambda>_.
     bindE (orErr (Robot ErrInvalidPlan) (lookup (\<lambda>u. u_public_id u = pi_user inp \<and> u_virtual u) (users s))) (\<lambda>u.
     if list_all (\<lambda>pick. plan_room_ok inp (fst pick) s) (pi_selections inp) then Inr (u_id u) else Inl (Robot ErrInvalidPlan)))"

section \<open>plans.go: reading and writing plans\<close>

text \<open>A row of \<^verbatim>\<open>planSelect\<close>: the player's public id is read from \<^verbatim>\<open>users\<close>.\<close>

definition scanPlan :: "db \<Rightarrow> robot_plan_row option \<Rightarrow> error + RobotPlan" where
  "scanPlan s row =
     (case row of None \<Rightarrow> Inl (Robot ErrPlanNotFound)
      | Some p \<Rightarrow> (case user_by_id s (rb_user p) of None \<Rightarrow> Inl (Robot ErrPlanNotFound)
          | Some u \<Rightarrow> Inr \<lparr>pn_id = rb_id p, pn_input = (rb_plan p)\<lparr>pi_user := u_public_id u\<rparr>, pn_name = u_name u, pn_virtual = u_virtual u,
              pn_user_status = u_status u, pn_next = rb_next p, pn_seen = rb_seen p, pn_checked = rb_checked p, pn_status = rb_status p,
              pn_error = rb_error p, pn_last_bet = rb_last_bet p, pn_created = rb_created p\<rparr>))"

definition plan_row :: "db \<Rightarrow> string \<Rightarrow> robot_plan_row option" where
  "plan_row s i = lookup (\<lambda>p. rb_id p = i) (robot_plans s)"

definition live_plan :: "db \<Rightarrow> string \<Rightarrow> robot_plan_row option" where
  "live_plan s i = lookup (\<lambda>p. rb_id p = i \<and> \<not> rb_deleted p) (robot_plans s)"

definition GetPlan :: "(string \<Rightarrow> bool) \<Rightarrow> string \<Rightarrow> db \<Rightarrow> error + RobotPlan" where
  "GetPlan parses i s = (if \<not> parses i then Inl (Robot ErrPlanNotFound) else scanPlan s (live_plan s i))"

definition normal_plan :: "plan_input \<Rightarrow> plan_input" where
  "normal_plan inp = inp\<lparr>pi_currency := to_upper (trim_space (pi_currency inp))\<rparr>"

definition set_plan :: "string \<Rightarrow> (robot_plan_row \<Rightarrow> robot_plan_row) \<Rightarrow> db \<Rightarrow> db" where
  "set_plan i f s = s\<lparr>robot_plans := modify (\<lambda>p. rb_id p = i) f (robot_plans s)\<rparr>"

definition insert_plan :: "robot_plan_row \<Rightarrow> db \<Rightarrow> error + db" where
  "insert_plan p s =
     (if list_ex (\<lambda>x. rb_id x = rb_id p \<or> rb_operator x = rb_operator p \<and> rb_request x = rb_request p) (robot_plans s) then Inl (DB Unique)
      else if user_by_id s (rb_user p) = None \<or> user_by_id s (rb_operator p) = None
              \<or> \<not> list_ex (\<lambda>g. gr_id g = pi_room (rb_plan p)) (game_rooms s) then Inl (DB ForeignKey)
      else Inr (s\<lparr>robot_plans := robot_plans s @ [p]\<rparr>))"

text \<open>Two requests have the same JSON exactly when they have the same fields.\<close>

definition CreatePlan :: "(string \<Rightarrow> bool) \<Rightarrow> string \<Rightarrow> string \<Rightarrow> plan_input \<Rightarrow> RobotPlan tx" where
  "CreatePlan parses actor key input s =
     (let inp = normal_plan input in
      if key = [] \<or> length key > 128 then Inl (Robot ErrInvalidPlan)
      else bindE (validatePlan parses inp) (\<lambda>_.
      bindE (robot_authorize actor s) (\<lambda>_.
      case lookup (\<lambda>p. rb_operator p = actor \<and> rb_request p = key) (robot_plans s) of
        Some old \<Rightarrow>
          if rb_create old \<noteq> inp \<or> rb_deleted old then Inl (Robot ErrPlanConflict)
          else bindE (scanPlan s (plan_row s (rb_id old))) (\<lambda>v. Inr (v, s))
      | None \<Rightarrow>
          bindE (validatePlanDB parses inp s) (\<lambda>user.
          let (i, s) = new_uuid s in
          bindE (insert_plan \<lparr>rb_id = i, rb_user = user, rb_operator = actor, rb_request = key, rb_create = inp, rb_plan = inp,
                   rb_deleted = False, rb_next = None, rb_seen = None, rb_checked = None, rb_status = ''ready'', rb_error = [],
                   rb_last_bet = None, rb_created = clock s\<rparr> s) (\<lambda>s.
          bindE (auditPlan actor ''robot_plan.create'' i s) (\<lambda>s.
          bindE (scanPlan s (plan_row s i)) (\<lambda>v. Inr (v, s))))))))"

definition restarted :: "string \<Rightarrow> robot_plan_row \<Rightarrow> robot_plan_row" where
  "restarted status p = p\<lparr>rb_next := None, rb_seen := None, rb_checked := None, rb_status := status, rb_error := []\<rparr>"

definition UpdatePlan :: "(string \<Rightarrow> bool) \<Rightarrow> string \<Rightarrow> string \<Rightarrow> plan_input \<Rightarrow> RobotPlan tx" where
  "UpdatePlan parses actor i input s =
     (let inp = normal_plan input in
      if \<not> parses i then Inl (Robot ErrPlanNotFound)
      else bindE (robot_authorize actor s) (\<lambda>_.
      bindE (scanPlan s (live_plan s i)) (\<lambda>old.
      if pi_user inp \<noteq> pi_user (pn_input old) then Inl (Robot ErrInvalidPlan)
      else bindE (validatePlanDB parses inp s) (\<lambda>_.
      bindE (auditPlan actor ''robot_plan.update'' i (set_plan i (\<lambda>p. (restarted ''ready'' p)\<lparr>rb_plan := inp\<rparr>) s)) (\<lambda>s.
      bindE (scanPlan s (plan_row s i)) (\<lambda>v. Inr (v, s)))))))"

definition SetPlanEnabled :: "(string \<Rightarrow> bool) \<Rightarrow> string \<Rightarrow> string \<Rightarrow> bool \<Rightarrow> RobotPlan tx" where
  "SetPlanEnabled parses actor i enabled s =
     (if \<not> parses i then Inl (Robot ErrPlanNotFound)
      else bindE (robot_authorize actor s) (\<lambda>_.
      bindE (scanPlan s (live_plan s i)) (\<lambda>old.
      bindE (if enabled then bindE (validatePlanDB parses (pn_input old) s) (\<lambda>_. Inr ()) else Inr ()) (\<lambda>_.
      bindE (if pi_enabled (pn_input old) \<noteq> enabled
             then auditPlan actor ''robot_plan.enabled'' i
                    (set_plan i (\<lambda>p. (restarted (if enabled then ''ready'' else ''stopped'') p)\<lparr>rb_plan := (rb_plan p)\<lparr>pi_enabled := enabled\<rparr>\<rparr>) s)
             else Inr s) (\<lambda>s.
      bindE (scanPlan s (plan_row s i)) (\<lambda>v. Inr (v, s)))))))"

definition DeletePlan :: "(string \<Rightarrow> bool) \<Rightarrow> string \<Rightarrow> string \<Rightarrow> db \<Rightarrow> error + db" where
  "DeletePlan parses actor i s =
     (if \<not> parses i then Inl (Robot ErrPlanNotFound)
      else bindE (robot_authorize actor s) (\<lambda>_.
      if live_plan s i = None then Inr s
      else auditPlan actor ''robot_plan.delete'' i
             (set_plan i (\<lambda>p. p\<lparr>rb_plan := (rb_plan p)\<lparr>pi_enabled := False\<rparr>, rb_deleted := True, rb_status := ''deleted''\<rparr>) s)))"

section \<open>service.go: running the due plans\<close>

definition randomBetween :: "(int \<Rightarrow> int) \<Rightarrow> int \<Rightarrow> int \<Rightarrow> error + int" where
  "randomBetween rnd mn mx =
     (if mn < 0 \<or> mx < mn \<or> mx - mn = max_int64 then Inl (Robot ErrInvalidPlan) else Inr (mn + rnd (mx - mn + 1)))"

text \<open>The clock counts microseconds: a plan rests one second after a check.\<close>

definition plan_due :: "db \<Rightarrow> robot_plan_row \<Rightarrow> bool" where
  "plan_due s p \<longleftrightarrow> pi_enabled (rb_plan p) \<and> \<not> rb_deleted p
     \<and> (case user_by_id s (rb_user p) of None \<Rightarrow> False | Some u \<Rightarrow> u_virtual u \<and> u_status u = ''active'')
     \<and> (case rb_checked p of None \<Rightarrow> True | Some t \<Rightarrow> t < clock s - 1000000)"

definition due_plans :: "db \<Rightarrow> robot_plan_row list" where
  "due_plans s =
     (let ps = sort_key (\<lambda>p. map code (rb_id p)) (filter (plan_due s) (robot_plans s)) in
      filter (\<lambda>p. rb_checked p = None) ps @ sort_key (\<lambda>p. the (rb_checked p)) (filter (\<lambda>p. rb_checked p \<noteq> None) ps))"

text \<open>The open round of a game with the lowest sequence.\<close>

definition next_open_round :: "string \<Rightarrow> db \<Rightarrow> round_row option" where
  "next_open_round game s =
     (case sort_key r_seq (filter (\<lambda>r. r_status r = RoundOpen \<and> r_closes r > clock s
        \<and> list_ex (\<lambda>t. gt_id t = r_type r \<and> gt_code t = game \<and> gt_enabled t) (game_types s)) (rounds s)) of
        [] \<Rightarrow> None | r # rs \<Rightarrow> Some r)"

definition round_step :: "string \<Rightarrow> int option" where
  "round_step game = parse_int64 (if take 5 game = ''hash_'' then drop 5 game else game)"

definition no_round_text :: string where
  "no_round_text = map char_of [230 :: nat, 154, 130, 230, 151, 160, 229, 143, 175, 230, 138, 149, 230, 179, 168, 232, 189, 174, 230, 172, 161]"

definition bad_game_text :: string where
  "bad_game_text = map char_of [230 :: nat, 184, 184, 230, 136, 143, 231, 177, 187, 229, 158, 139, 230, 151, 160, 230, 149, 136]"

definition sequence_range_text :: string where
  "sequence_range_text = map char_of [230 :: nat, 156, 159, 229, 143, 183, 232, 182, 133, 229, 135, 186, 232, 140, 131, 229, 155, 180]"

definition stale_room_text :: string where
  "stale_room_text = map char_of [230 :: nat, 136, 191, 233, 151, 180, 227, 128, 129, 229, 184, 129, 231, 167, 141, 227, 128, 129, 231, 142, 169, 230, 179, 149, 230, 136, 150, 233, 135, 145, 233, 162, 157, 233, 133, 141, 231, 189, 174, 229, 183, 178, 229, 164, 177, 230, 149, 136]"

definition bet_closed_text :: string where
  "bet_closed_text = map char_of [230 :: nat, 156, 172, 230, 156, 159, 229, 183, 178, 229, 176, 129, 231, 155, 152]"

definition bet_limit_text :: string where
  "bet_limit_text = map char_of [230 :: nat, 138, 149, 230, 179, 168, 233, 135, 145, 233, 162, 157, 232, 182, 133, 232, 191, 135, 230, 136, 191, 233, 151, 180, 233, 153, 144, 233, 162, 157]"

definition other_room_text :: string where
  "other_room_text = map char_of [229 :: nat, 144, 140, 228, 184, 128, 231, 142, 169, 229, 174, 182, 230, 156, 172, 230, 156, 159, 229, 183, 178, 228, 189, 191, 231, 148, 168, 229, 133, 182, 228, 187, 150, 232, 181, 148, 231, 142, 135, 230, 136, 191, 233, 151, 180]"

definition bet_account_text :: string where
  "bet_account_text = map char_of [232 :: nat, 180, 166, 229, 143, 183, 229, 183, 178, 231, 166, 129, 231, 148, 168, 230, 136, 150, 231, 166, 129, 230, 173, 162, 230, 138, 149, 230, 179, 168]"

definition bet_room_text :: string where
  "bet_room_text = map char_of [230 :: nat, 136, 191, 233, 151, 180, 230, 136, 150, 231, 142, 169, 230, 179, 149, 228, 184, 141, 229, 143, 175, 231, 148, 168]"

definition bet_failure :: "error \<Rightarrow> string option" where
  "bet_failure e =
     (if e = Game ErrBettingClosed then Some bet_closed_text
      else if e = Betting ErrStakeOutsideLimits then Some bet_limit_text
      else if e = Betting ErrHashRoomConflict then Some other_room_text
      else if e = Betting ErrAccountDisabled \<or> e = Betting ErrBettingBanned then Some bet_account_text
      else if e = Betting ErrHashRoomRequired then Some bet_room_text
      else None)"

definition plan_finish :: "string \<Rightarrow> string \<Rightarrow> string \<Rightarrow> int \<Rightarrow> db \<Rightarrow> int \<times> db" where
  "plan_finish i status message n s =
     (n, set_plan i (\<lambda>p. p\<lparr>rb_checked := Some (clock s), rb_status := status, rb_error := message\<rparr>) s)"

definition robot_request :: "string \<Rightarrow> string \<Rightarrow> string \<Rightarrow> plan_input \<Rightarrow> string \<times> string \<Rightarrow> int \<Rightarrow> PlaceBetRequest" where
  "robot_request i roundID user inp pick amount =
     \<lparr>RobotPlanID = i, ClientRequestID = ''robot-'' @ i @ ''-'' @ roundID, BetRoundID = roundID, BetAccountID = user,
      BetCurrency = pi_currency inp, GameRoomID = pi_room inp, PlayMode = fst pick,
      Selection = Some (JObj [(''pick'', JStr (snd pick))]), StakeMinor = amount\<rparr>"

text \<open>The nested transaction: the wallet of the player, the checks of the plan and the bet.\<close>

definition robot_wallet :: "string \<Rightarrow> string \<Rightarrow> db \<Rightarrow> error + db" where
  "robot_wallet user currency s =
     (if list_ex (\<lambda>c. c_code c = currency \<and> c_enabled c) (currencies s) then wallet_row_for user currency s else Inr s)"

definition plan_bet :: "(string \<Rightarrow> bool) \<Rightarrow> string \<Rightarrow> RobotPlan \<Rightarrow> round_row \<Rightarrow> string \<times> string \<Rightarrow> int \<Rightarrow> int tx" where
  "plan_bet parses i v r pick amount s =
     (let inp = pn_input v in
      bindE (orErr (DB NoRows) (lookup (\<lambda>u. u_public_id u = pi_user inp \<and> u_virtual u) (users s))) (\<lambda>u.
      bindE (robot_wallet (u_id u) (pi_currency inp) s) (\<lambda>t.
      case validatePlanDB parses inp t of
        Inl e \<Rightarrow> if e \<noteq> Robot ErrInvalidPlan then Inl e else Inr (plan_finish i ''failed'' stale_room_text 0 s)
      | Inr x \<Rightarrow>
          (case PlaceRobotBetTx (robot_request i (r_id r) (u_id u) inp pick amount) t of
             Inl e \<Rightarrow> (case bet_failure e of None \<Rightarrow> Inl e | Some message \<Rightarrow> Inr (plan_finish i ''failed'' message 0 s))
           | Inr (bet, t) \<Rightarrow> Inr (plan_finish i ''placed'' [] 1 (set_plan i (\<lambda>p. p\<lparr>rb_last_bet := Some (pb_id bet)\<rparr>) t))))))"

definition runPlan :: "(string \<Rightarrow> bool) \<Rightarrow> (nat \<Rightarrow> int \<Rightarrow> int) \<Rightarrow> string \<Rightarrow> int tx" where
  "runPlan parses rnd i s =
     (case lookup (\<lambda>p. rb_id p = i \<and> plan_due s p) (robot_plans s) of
        None \<Rightarrow> Inr (0, s)
      | Some row \<Rightarrow>
          bindE (scanPlan s (Some row)) (\<lambda>v. let inp = pn_input v in
          case next_open_round (pi_game inp) s of
            None \<Rightarrow> Inr (plan_finish i ''waiting_round'' no_round_text 0 s)
          | Some r \<Rightarrow>
              let sq = r_seq r; step = (case round_step (pi_game inp) of None \<Rightarrow> 0 | Some n \<Rightarrow> n) in
              if step \<le> 0 then Inr (plan_finish i ''failed'' bad_game_text 0 s)
              else if (case pn_next v of None \<Rightarrow> False | Some n \<Rightarrow> n > sq) then Inr (plan_finish i ''waiting_round'' [] 0 s)
              else bindE (randomBetween (rnd 0) (pi_skip_min inp) (pi_skip_max inp)) (\<lambda>skip.
              if sq > wrap64 (max_int64 - wrap64 (step * skip)) then Inr (plan_finish i ''failed'' sequence_range_text 0 s)
              else let t = set_plan i (\<lambda>p. p\<lparr>rb_next := Some (wrap64 (sq + wrap64 (step * skip))), rb_seen := Some sq\<rparr>) s in
              if (case pn_next v of None \<Rightarrow> True | Some n \<Rightarrow> n < sq) then Inr (plan_finish i ''scheduled'' [] 0 t)
              else bindE (randomBetween (rnd 1) 0 (int (length (pi_selections inp)) - 1)) (\<lambda>idx.
              bindE (randomBetween (rnd 2) (pi_min inp) (pi_max inp)) (\<lambda>amount.
              plan_bet parses i v r (pi_selections inp ! nat idx) amount t)))))"

text \<open>Each plan has its own transaction: what ran before an error stays.\<close>

fun run_plans :: "(string \<Rightarrow> bool) \<Rightarrow> (string \<Rightarrow> nat \<Rightarrow> int \<Rightarrow> int) \<Rightarrow> string list \<Rightarrow> int \<Rightarrow> db \<Rightarrow> error option \<times> int \<times> db" where
  "run_plans parses rnd [] n s = (None, n, s)"
| "run_plans parses rnd (i # is) n s =
     (case runPlan parses (rnd i) i s of
        Inl e \<Rightarrow> (Some e, n, s)
      | Inr (m, s) \<Rightarrow> run_plans parses rnd is (n + m) s)"

definition RunDue :: "(string \<Rightarrow> bool) \<Rightarrow> (string \<Rightarrow> nat \<Rightarrow> int \<Rightarrow> int) \<Rightarrow> int \<Rightarrow> db \<Rightarrow> error option \<times> int \<times> db" where
  "RunDue parses rnd limit s =
     run_plans parses rnd (map rb_id (take (if limit < 1 \<or> limit > 100 then 50 else nat limit) (due_plans s))) 0 s"


section \<open>What a run may do\<close>

definition real_bets :: "db \<Rightarrow> bet_row list" where
  "real_bets s = filter (\<lambda>b. \<not> b_simulated b) (bets s)"

text \<open>No money moves and no real bet appears or changes.\<close>

definition quiet :: "db \<Rightarrow> db \<Rightarrow> bool" where
  "quiet s s' \<longleftrightarrow> ledger s' = ledger s \<and> real_bets s' = real_bets s
     \<and> (\<forall>u c. balance_of s' u c = balance_of s u c \<and> frozen_of s' u c = frozen_of s u c)"

lemma quiet_refl [simp]: "quiet s s"
  by (simp add: quiet_def)

lemma quiet_trans: "quiet s t \<Longrightarrow> quiet t u \<Longrightarrow> quiet s u"
  by (simp add: quiet_def)

definition plans_ok :: "(string \<Rightarrow> bool) \<Rightarrow> db \<Rightarrow> bool" where
  "plans_ok parses s \<longleftrightarrow> (\<forall>p \<in> set (robot_plans s). validatePlan parses (rb_plan p) = Inr ())"

definition robots_ok :: "(string \<Rightarrow> bool) \<Rightarrow> db \<Rightarrow> bool" where
  "robots_ok parses s \<longleftrightarrow> betting_ok s \<and> plans_ok parses s"

lemma betting_ok_cong:
  assumes "betting_ok s" "wallets s' = wallets s" "ledger s' = ledger s" "bets s' = bets s" "placements s' = placements s" "rounds s' = rounds s"
  shows "betting_ok s' \<and> quiet s s'"
proof -
  have "bets_ok s' = bets_ok s" by (simp add: bets_ok_def wallet_by_id_def assms(2,4))
  moreover have "round_keys s' = round_keys s" by (simp add: round_keys_def assms(6))
  moreover have "orders_ok s' = orders_ok s" by (simp add: orders_ok_def placed_on_def assms(4,5))
  ultimately have "betting_ok s'" using assms(1) books_ok_cong [OF _ assms(2,3)] by (simp add: betting_ok_def platform_ok_def)
  then show ?thesis using assms(2-4) by (simp add: quiet_def real_bets_def balance_of_def frozen_of_def wallet_of_def)
qed

lemma set_plan_simps [simp]:
  "wallets (set_plan i f s) = wallets s" "ledger (set_plan i f s) = ledger s" "bets (set_plan i f s) = bets s"
  "placements (set_plan i f s) = placements s" "rounds (set_plan i f s) = rounds s" "users (set_plan i f s) = users s"
  "robot_plans (set_plan i f s) = modify (\<lambda>p. rb_id p = i) f (robot_plans s)" "clock (set_plan i f s) = clock s"
  by (simp_all add: set_plan_def)

lemma valid_enabled [simp]: "validatePlan parses (inp\<lparr>pi_enabled := e\<rparr>) = validatePlan parses inp"
  by (simp add: validatePlan_def)

lemma robots_set_plan:
  assumes "robots_ok parses s" "\<And>p. validatePlan parses (rb_plan p) = Inr () \<Longrightarrow> validatePlan parses (rb_plan (f p)) = Inr ()"
  shows "robots_ok parses (set_plan i f s) \<and> quiet s (set_plan i f s)"
proof -
  have "betting_ok (set_plan i f s) \<and> quiet s (set_plan i f s)" by (rule betting_ok_cong) (use assms(1) in \<open>simp_all add: robots_ok_def\<close>)
  moreover have "plans_ok parses (set_plan i f s)" using assms by (auto simp: robots_ok_def plans_ok_def set_modify)
  ultimately show ?thesis by (simp add: robots_ok_def)
qed

lemma valid_plan:
  assumes "validatePlan parses inp = Inr ()"
  shows "0 < pi_min inp \<and> pi_min inp \<le> pi_max inp \<and> pi_max inp \<le> 92233720368547 \<and> 1 \<le> pi_skip_min inp \<and> pi_skip_min inp \<le> pi_skip_max inp
    \<and> pi_skip_max inp \<le> 10000 \<and> pi_selections inp \<noteq> [] \<and> length (pi_selections inp) \<le> 24 \<and> pi_game inp \<in> set hash_games"
proof -
  have "go_div max_int64 100000 = 92233720368547" by (simp add: max_int64_def go_div_pos)
  then show ?thesis using assms by (simp add: validatePlan_def not_less split: if_splits)
qed

lemma valid_picks_all: "valid_picks seen vs \<Longrightarrow> v \<in> set vs \<Longrightarrow> valid_pick v"
  by (induction seen vs rule: valid_picks.induct) auto

lemma plan_pick_valid: "validatePlan parses inp = Inr () \<Longrightarrow> v \<in> set (pi_selections inp) \<Longrightarrow> valid_pick v"
  using valid_picks_all by (auto simp: validatePlan_def split: if_splits)

lemma valid_step:
  assumes "validatePlan parses inp = Inr ()"
  obtains n where "round_step (pi_game inp) = Some n" "0 < n" "n \<le> 29"
proof -
  have "list_all (\<lambda>g. case round_step g of Some n \<Rightarrow> 0 < n \<and> n \<le> 29 | None \<Rightarrow> False) hash_games" by code_simp
  then show thesis using valid_plan [OF assms] that by (auto simp: list_all_iff split: option.splits)
qed

section \<open>Bets of robots\<close>

lemma robot_bet_quiet:
  assumes "betting_ok s" "PlaceRobotBetTx q s = Inr (p, s')" "StakeMinor q \<le> max_int64"
  shows "betting_ok s' \<and> quiet s s' \<and> robot_plans s' = robot_plans s \<and> users s' = users s \<and> clock s' = clock s"
proof -
  have run: "placeBetTx True q s = Inr (p, s')" using assms(2) by (simp add: PlaceRobotBetTx_def)
  have ok: "books_ok s" "bets_ok s" using assms(1) by (simp_all add: betting_ok_def platform_ok_def)
  note k = placeBetTx_keeps [OF assms(1) run assms(3)]
  show ?thesis
  proof (cases rule: placeBetTx_Inr [OF books_ok_wallets_ok [OF ok(1)] run, case_names again fresh])
    case again
    then show ?thesis using assms(1) by simp
  next
    case (fresh sel u w odds betID placement)
    have v: "u_virtual u" using fresh(3) by (simp add: admitted_def check_account_def split: if_splits)
    have w: "wallets s' = wallets s" "ledger s' = ledger s" and fr: "placed_frame s s'" and oa: "order_added (place_normalize q) odds True betID s s'"
      using fresh(4) v by (simp_all add: placed_with_def)
    have sim: "b_simulated x" if "b_id x = betID" "x \<in> set (bets s)" "bets s' = modify (\<lambda>x. b_id x = betID) g (bets s)" "b \<in> set (bets s)" "b_id b = betID" "b_simulated b" for x b g
      using same_order [OF ok(2) that(4,2)] that by simp
    have "real_bets s' = real_bets s"
      using oa unfolding order_added_def
    proof (elim disjE bexE conjE exE)
      fix b assume b: "b \<in> set (bets s)" "b_id b = betID" "b_simulated b = True" "bets s' = modify (\<lambda>x. b_id x = betID) (grown_order (place_normalize q) b (clock s)) (bets s)"
      have "filter (\<lambda>b. \<not> b_simulated b) (modify (\<lambda>x. b_id x = betID) (grown_order (place_normalize q) b (clock s)) bs) = filter (\<lambda>b. \<not> b_simulated b) bs"
        if "\<forall>x \<in> set bs. b_id x = betID \<longrightarrow> b_simulated x" for bs
        using that by (induction bs) (auto simp: grown_order_def)
      then show ?thesis using sim b by (simp add: real_bets_def)
    qed (simp add: real_bets_def)
    then show ?thesis using k w fr by (simp add: quiet_def placed_frame_def balance_of_def frozen_of_def wallet_of_def)
  qed
qed

lemma robot_wallet_quiet:
  assumes "betting_ok s" "robot_wallet u c s = Inr s'"
  shows "betting_ok s' \<and> quiet s s' \<and> robot_plans s' = robot_plans s \<and> users s' = users s \<and> clock s' = clock s \<and> rounds s' = rounds s \<and> placements s' = placements s \<and> bets s' = bets s"
proof (cases "list_ex (\<lambda>r. c_code r = c \<and> c_enabled r) (currencies s)")
  case True
  then have r: "wallet_row_for u c s = Inr s'" using assms(2) by (simp add: robot_wallet_def)
  have ok: "books_ok s" "bets_ok s" "round_keys s" "orders_ok s" using assms(1) by (simp_all add: betting_ok_def platform_ok_def)
  note w = wallet_row_for_Inr [OF ok(1) r]
  have m: "money_only s s'" using w by simp
  have "wallet_by_id s i \<noteq> None \<longrightarrow> wallet_by_id s' i \<noteq> None" for i
    using r by (auto simp: wallet_row_for_def new_uuid_def insert_wallet_def wallet_by_id_def lookup_append split: if_splits option.splits)
  then have "bets_ok s'" using ok(2) money_onlyD [OF m] by (simp add: bets_ok_def)
  moreover have "round_keys s'" "orders_ok s'" using ok(3,4) money_onlyD [OF m] by (simp_all add: round_keys_def orders_ok_def placed_on_def)
  ultimately show ?thesis using w money_onlyD [OF m] by (simp add: betting_ok_def platform_ok_def quiet_def real_bets_def moved_by_def)
next
  case False
  then show ?thesis using assms by (simp add: robot_wallet_def)
qed


text \<open>A run that places nothing only touches its plan.\<close>

definition plan_touched :: "string \<Rightarrow> db \<Rightarrow> db \<Rightarrow> bool" where
  "plan_touched i s s' \<longleftrightarrow> (\<exists>f. s' = set_plan i f s \<and> (\<forall>p. rb_plan (f p) = rb_plan p))"

lemma plan_touched_refl: "plan_touched i s s"
proof -
  have "set_plan i id s = s" by (simp add: set_plan_def modify_def map_idI)
  then show ?thesis unfolding plan_touched_def by (intro exI [of _ id]) simp
qed

lemma set_plan_twice: "(\<And>p. rb_id (f p) = rb_id p) \<Longrightarrow> set_plan i g (set_plan i f s) = set_plan i (g \<circ> f) s"
  by (simp add: set_plan_def modify_twice)

lemma finish_touched: "plan_finish i st m n s = (k, s') \<Longrightarrow> k = n \<and> plan_touched i s s'"
  by (auto simp: plan_finish_def plan_touched_def)

lemma finish_touched2:
  assumes "plan_finish i st m n (set_plan i f s) = (k, s')" "\<And>p. rb_plan (f p) = rb_plan p \<and> rb_id (f p) = rb_id p"
  shows "k = n \<and> plan_touched i s s'"
proof -
  have "s' = set_plan i ((\<lambda>p. p\<lparr>rb_checked := Some (clock s), rb_status := st, rb_error := m\<rparr>) \<circ> f) s" "k = n"
    using assms by (simp_all add: plan_finish_def set_plan_twice)
  moreover have "\<forall>p. rb_plan (((\<lambda>p. p\<lparr>rb_checked := Some (clock s), rb_status := st, rb_error := m\<rparr>) \<circ> f) p) = rb_plan p" using assms(2) by simp
  ultimately show ?thesis unfolding plan_touched_def by blast
qed

text \<open>The state after a plan has placed its bet.\<close>

definition robot_placed :: "(string \<Rightarrow> bool) \<Rightarrow> string \<Rightarrow> RobotPlan \<Rightarrow> round_row \<Rightarrow> string \<times> string \<Rightarrow> int \<Rightarrow> db \<Rightarrow> db \<Rightarrow> bool" where
  "robot_placed parses i v r pick amount t s' \<longleftrightarrow> (\<exists>u t1 bet t2. lookup (\<lambda>u. u_public_id u = pi_user (pn_input v) \<and> u_virtual u) (users t) = Some u
     \<and> robot_wallet (u_id u) (pi_currency (pn_input v)) t = Inr t1
     \<and> PlaceRobotBetTx (robot_request i (r_id r) (u_id u) (pn_input v) pick amount) t1 = Inr (bet, t2)
     \<and> s' = set_plan i (\<lambda>p. p\<lparr>rb_last_bet := Some (pb_id bet), rb_checked := Some (clock t2), rb_status := ''placed'', rb_error := []\<rparr>) t2)"

lemma plan_bet_Inr:
  assumes "plan_bet parses i v r pick amount t = Inr (n, s')"
  shows "(n = 0 \<and> (\<exists>m. plan_finish i ''failed'' m 0 t = (0, s'))) \<or> (n = 1 \<and> robot_placed parses i v r pick amount t s')"
proof -
  obtain u t1 where u: "lookup (\<lambda>u. u_public_id u = pi_user (pn_input v) \<and> u_virtual u) (users t) = Some u"
      "robot_wallet (u_id u) (pi_currency (pn_input v)) t = Inr t1"
    and r: "(case validatePlanDB parses (pn_input v) t1 of
        Inl e \<Rightarrow> if e \<noteq> Robot ErrInvalidPlan then Inl e else Inr (plan_finish i ''failed'' stale_room_text 0 t)
      | Inr x \<Rightarrow>
          (case PlaceRobotBetTx (robot_request i (r_id r) (u_id u) (pn_input v) pick amount) t1 of
             Inl e \<Rightarrow> (case bet_failure e of None \<Rightarrow> Inl e | Some message \<Rightarrow> Inr (plan_finish i ''failed'' message 0 t))
           | Inr (bet, t) \<Rightarrow> Inr (plan_finish i ''placed'' [] 1 (set_plan i (\<lambda>p. p\<lparr>rb_last_bet := Some (pb_id bet)\<rparr>) t)))) = Inr (n, s')"
    using assms unfolding plan_bet_def Let_def bindE_eq_Inr orErr_eq_Inr by blast
  show ?thesis
  proof (cases "validatePlanDB parses (pn_input v) t1")
    case (Inl e)
    then show ?thesis using r by (auto simp: plan_finish_def split: if_splits)
  next
    case valid: (Inr x)
    show ?thesis
    proof (cases "PlaceRobotBetTx (robot_request i (r_id r) (u_id u) (pn_input v) pick amount) t1")
      case (Inl e)
      then show ?thesis using r valid by (auto simp: plan_finish_def split: option.splits)
    next
      case (Inr b)
      obtain bet t2 where b: "b = (bet, t2)" by (cases b)
      have "(n, s') = plan_finish i ''placed'' [] 1 (set_plan i (\<lambda>p. p\<lparr>rb_last_bet := Some (pb_id bet)\<rparr>) t2)" using r valid Inr b by simp
      then have "n = 1" "s' = set_plan i (\<lambda>p. p\<lparr>rb_last_bet := Some (pb_id bet), rb_checked := Some (clock t2), rb_status := ''placed'', rb_error := []\<rparr>) t2"
        by (simp_all add: plan_finish_def set_plan_twice o_def)
      then show ?thesis using u Inr b unfolding robot_placed_def by blast
    qed
  qed
qed

definition scheduled_row :: "int \<Rightarrow> int \<Rightarrow> robot_plan_row \<Rightarrow> robot_plan_row" where
  "scheduled_row sq nx p = p\<lparr>rb_next := Some nx, rb_seen := Some sq\<rparr>"

lemma scheduled_row_simps [simp]:
  "rb_id (scheduled_row sq nx p) = rb_id p" "rb_plan (scheduled_row sq nx p) = rb_plan p" "rb_next (scheduled_row sq nx p) = Some nx"
  "rb_seen (scheduled_row sq nx p) = Some sq" "rb_user (scheduled_row sq nx p) = rb_user p"
  by (simp_all add: scheduled_row_def)

lemma runPlan_Inr:
  assumes "runPlan parses rnd i s = Inr (n, s')"
  shows "(n = 0 \<and> plan_touched i s s')
    \<or> (n = 1 \<and> (\<exists>row v r step skip idx amount. lookup (\<lambda>p. rb_id p = i \<and> plan_due s p) (robot_plans s) = Some row \<and> scanPlan s (Some row) = Inr v
        \<and> next_open_round (pi_game (pn_input v)) s = Some r \<and> round_step (pi_game (pn_input v)) = Some step \<and> 0 < step \<and> pn_next v = Some (r_seq r)
        \<and> randomBetween (rnd 0) (pi_skip_min (pn_input v)) (pi_skip_max (pn_input v)) = Inr skip
        \<and> \<not> r_seq r > wrap64 (max_int64 - wrap64 (step * skip))
        \<and> randomBetween (rnd 1) 0 (int (length (pi_selections (pn_input v))) - 1) = Inr idx
        \<and> randomBetween (rnd 2) (pi_min (pn_input v)) (pi_max (pn_input v)) = Inr amount
        \<and> robot_placed parses i v r (pi_selections (pn_input v) ! nat idx) amount
            (set_plan i (scheduled_row (r_seq r) (wrap64 (r_seq r + wrap64 (step * skip)))) s) s'))"
proof (cases "lookup (\<lambda>p. rb_id p = i \<and> plan_due s p) (robot_plans s)")
  case None
  then show ?thesis using assms plan_touched_refl by (simp add: runPlan_def)
next
  case row: (Some row)
  obtain v where v: "scanPlan s (Some row) = Inr v" using assms row by (auto simp: runPlan_def bindE_eq_Inr)
  show ?thesis
  proof (cases "next_open_round (pi_game (pn_input v)) s")
    case None
    then show ?thesis using assms row v finish_touched by (auto simp: runPlan_def Let_def)
  next
    case r: (Some r)
    define step where "step = (case round_step (pi_game (pn_input v)) of None \<Rightarrow> 0 | Some n \<Rightarrow> n)"
    show ?thesis
    proof (cases "step \<le> 0 \<or> (case pn_next v of None \<Rightarrow> False | Some n \<Rightarrow> n > r_seq r)")
      case True
      then show ?thesis using assms row v r finish_touched by (auto simp: runPlan_def Let_def step_def [symmetric] split: if_splits)
    next
      case go: False
      then have st: "round_step (pi_game (pn_input v)) = Some step" "0 < step" by (auto simp: step_def split: option.splits)
      have g: "(step \<le> 0) = False" "(case pn_next v of None \<Rightarrow> False | Some n \<Rightarrow> n > r_seq r) = False" using go by simp_all
      obtain skip where skip: "randomBetween (rnd 0) (pi_skip_min (pn_input v)) (pi_skip_max (pn_input v)) = Inr skip"
        using assms row v r go by (auto simp: runPlan_def Let_def step_def [symmetric] bindE_eq_Inr)
      let ?t = "set_plan i (scheduled_row (r_seq r) (wrap64 (r_seq r + wrap64 (step * skip)))) s"
      have run: "(if r_seq r > wrap64 (max_int64 - wrap64 (step * skip)) then Inr (plan_finish i ''failed'' sequence_range_text 0 s)
          else if (case pn_next v of None \<Rightarrow> True | Some n \<Rightarrow> n < r_seq r) then Inr (plan_finish i ''scheduled'' [] 0 ?t)
          else bindE (randomBetween (rnd 1) 0 (int (length (pi_selections (pn_input v))) - 1)) (\<lambda>idx.
               bindE (randomBetween (rnd 2) (pi_min (pn_input v)) (pi_max (pn_input v))) (\<lambda>amount.
               plan_bet parses i v r (pi_selections (pn_input v) ! nat idx) amount ?t))) = Inr (n, s')"
        using assms unfolding runPlan_def row option.case v bindE_Inr Let_def r step_def [symmetric] g if_False skip scheduled_row_def [abs_def] .
      show ?thesis
      proof (cases "r_seq r > wrap64 (max_int64 - wrap64 (step * skip))")
        case True
        then show ?thesis using run finish_touched by (auto simp del: wrap64_id)
      next
        case range: False
        show ?thesis
        proof (cases "case pn_next v of None \<Rightarrow> True | Some n \<Rightarrow> n < r_seq r")
          case True
          then have "plan_finish i ''scheduled'' [] 0 ?t = (n, s')" using run range by simp
          then show ?thesis using finish_touched2 [of i _ _ _ _ s n s'] by auto
        next
          case False
          then have nx: "pn_next v = Some (r_seq r)" using go by (auto split: option.splits)
          obtain idx amount where b: "randomBetween (rnd 1) 0 (int (length (pi_selections (pn_input v))) - 1) = Inr idx"
            "randomBetween (rnd 2) (pi_min (pn_input v)) (pi_max (pn_input v)) = Inr amount"
            and p: "plan_bet parses i v r (pi_selections (pn_input v) ! nat idx) amount ?t = Inr (n, s')"
            using run range False unfolding bindE_eq_Inr by (auto simp: bindE_eq_Inr)
          consider "n = 0" "\<exists>m. plan_finish i ''failed'' m 0 ?t = (0, s')" | "n = 1" "robot_placed parses i v r (pi_selections (pn_input v) ! nat idx) amount ?t s'"
            using plan_bet_Inr [OF p] by blast
          then show ?thesis
          proof cases
            case 1
            then show ?thesis using finish_touched2 [of i _ _ _ _ s 0 s'] by auto
          next
            case 2
            then show ?thesis using row v r st nx skip range b by blast
          qed
        qed
      qed
    qed
  qed
qed


section \<open>The operations keep the invariant\<close>

lemma audit_robots:
  assumes "robots_ok parses s" "auditPlan a ac i s = Inr s'"
  shows "robots_ok parses s' \<and> quiet s s'"
proof -
  have e: "wallets s' = wallets s" "ledger s' = ledger s" "bets s' = bets s" "placements s' = placements s" "rounds s' = rounds s" "robot_plans s' = robot_plans s"
    using assms(2) by (auto simp: auditPlan_def insert_audit_def new_uuid_def Let_def split: if_splits)
  have "betting_ok s' \<and> quiet s s'" by (rule betting_ok_cong) (use assms(1) e in \<open>simp_all add: robots_ok_def\<close>)
  then show ?thesis using assms(1) e by (simp add: robots_ok_def plans_ok_def)
qed

lemma validatePlanDB_valid: "validatePlanDB parses inp s = Inr u \<Longrightarrow> validatePlan parses inp = Inr ()"
  by (auto simp: validatePlanDB_def bindE_eq_Inr)

lemma CreatePlan_robots:
  assumes "robots_ok parses s" "CreatePlan parses actor key input s = Inr (v, s')"
  shows "robots_ok parses s' \<and> quiet s s'"
proof (cases "lookup (\<lambda>p. rb_operator p = actor \<and> rb_request p = key) (robot_plans s)")
  case (Some old)
  then show ?thesis using assms by (auto simp: CreatePlan_def Let_def bindE_eq_Inr split: if_splits)
next
  case None
  let ?s = "s\<lparr>next_uuid := Suc (next_uuid s)\<rparr>"
  obtain u p s1 s2 where u: "validatePlanDB parses (normal_plan input) s = Inr u"
    and p: "insert_plan p ?s = Inr s1" "rb_plan p = normal_plan input" and a: "auditPlan actor ''robot_plan.create'' (rb_id p) s1 = Inr s'"
    using assms(2) None unfolding CreatePlan_def Let_def new_uuid_def if_Inl_eq_Inr bindE_eq_Inr by (auto simp: bindE_eq_Inr)
  have s1: "s1 = ?s\<lparr>robot_plans := robot_plans s @ [p]\<rparr>" using p(1) by (auto simp: insert_plan_def split: if_splits)
  have "betting_ok s1 \<and> quiet s s1" by (rule betting_ok_cong) (use assms(1) s1 in \<open>simp_all add: robots_ok_def\<close>)
  moreover have "plans_ok parses s1" using assms(1) validatePlanDB_valid [OF u] p(2) by (auto simp: s1 robots_ok_def plans_ok_def)
  ultimately have "robots_ok parses s1" "quiet s s1" by (simp_all add: robots_ok_def)
  then show ?thesis using audit_robots [OF _ a] quiet_trans by blast
qed

lemma UpdatePlan_robots:
  assumes "robots_ok parses s" "UpdatePlan parses actor i input s = Inr (v, s')"
  shows "robots_ok parses s' \<and> quiet s s'"
proof -
  obtain u where u: "validatePlanDB parses (normal_plan input) s = Inr u"
    and a: "auditPlan actor ''robot_plan.update'' i (set_plan i (\<lambda>p. (restarted ''ready'' p)\<lparr>rb_plan := normal_plan input\<rparr>) s) = Inr s'"
    using assms(2) unfolding UpdatePlan_def Let_def if_Inl_eq_Inr bindE_eq_Inr by (auto simp: bindE_eq_Inr)
  have "robots_ok parses (set_plan i (\<lambda>p. (restarted ''ready'' p)\<lparr>rb_plan := normal_plan input\<rparr>) s) \<and> quiet s (set_plan i (\<lambda>p. (restarted ''ready'' p)\<lparr>rb_plan := normal_plan input\<rparr>) s)"
    by (rule robots_set_plan [OF assms(1)]) (use validatePlanDB_valid [OF u] in simp)
  then show ?thesis using audit_robots [OF _ a] quiet_trans by blast
qed

lemma SetPlanEnabled_robots:
  assumes "robots_ok parses s" "SetPlanEnabled parses actor i e s = Inr (v, s')"
  shows "robots_ok parses s' \<and> quiet s s'"
proof -
  let ?t = "set_plan i (\<lambda>p. (restarted (if e then ''ready'' else ''stopped'') p)\<lparr>rb_plan := (rb_plan p)\<lparr>pi_enabled := e\<rparr>\<rparr>) s"
  obtain old :: RobotPlan where a: "(if pi_enabled (pn_input old) \<noteq> e then auditPlan actor ''robot_plan.enabled'' i ?t else Inr s) = Inr s'"
    using assms(2) unfolding SetPlanEnabled_def Let_def if_Inl_eq_Inr bindE_eq_Inr sum.inject prod.inject by blast
  have "robots_ok parses ?t \<and> quiet s ?t" by (rule robots_set_plan [OF assms(1)]) simp
  then show ?thesis using a assms(1) audit_robots [of parses ?t actor "''robot_plan.enabled''" i s'] quiet_trans by (auto split: if_splits)
qed

lemma DeletePlan_robots:
  assumes "robots_ok parses s" "DeletePlan parses actor i s = Inr s'"
  shows "robots_ok parses s' \<and> quiet s s'"
proof (cases "live_plan s i = None")
  case True
  then show ?thesis using assms by (auto simp: DeletePlan_def bindE_eq_Inr split: if_splits)
next
  case False
  let ?t = "set_plan i (\<lambda>p. p\<lparr>rb_plan := (rb_plan p)\<lparr>pi_enabled := False\<rparr>, rb_deleted := True, rb_status := ''deleted''\<rparr>) s"
  have a: "auditPlan actor ''robot_plan.delete'' i ?t = Inr s'" using assms(2) False by (auto simp: DeletePlan_def bindE_eq_Inr split: if_splits)
  have "robots_ok parses ?t \<and> quiet s ?t" by (rule robots_set_plan [OF assms(1)]) simp
  then show ?thesis using audit_robots [OF _ a] quiet_trans by blast
qed

definition random_ok :: "(nat \<Rightarrow> int \<Rightarrow> int) \<Rightarrow> bool" where
  "random_ok rnd \<longleftrightarrow> (\<forall>k n. 0 < n \<longrightarrow> 0 \<le> rnd k n \<and> rnd k n < n)"

lemma randomBetween_range: "random_ok rnd \<Longrightarrow> randomBetween (rnd k) a b = Inr x \<Longrightarrow> a \<le> x \<and> x \<le> b"
  unfolding random_ok_def randomBetween_def by (auto split: if_splits dest!: spec [of _ k] spec [of _ "b - a + 1"])

lemma scanned:
  assumes "scanPlan s (Some row) = Inr v"
  obtains u where "user_by_id s (rb_user row) = Some u" "pn_input v = (rb_plan row)\<lparr>pi_user := u_public_id u\<rparr>" "pn_next v = rb_next row"
  using assms by (auto simp: scanPlan_def split: option.splits)

lemma robot_placed_quiet:
  assumes "robots_ok parses t" "robot_placed parses i v r pick amount t s'" "amount \<le> max_int64"
  shows "robots_ok parses s' \<and> quiet t s'"
proof -
  obtain u :: user_row and t1 and bet :: PlacedBet and t2 :: db where w: "robot_wallet (u_id u) (pi_currency (pn_input v)) t = Inr t1"
    and b: "PlaceRobotBetTx (robot_request i (r_id r) (u_id u) (pn_input v) pick amount) t1 = Inr (bet, t2)"
    and s': "s' = set_plan i (\<lambda>p. p\<lparr>rb_last_bet := Some (pb_id bet), rb_checked := Some (clock t2), rb_status := ''placed'', rb_error := []\<rparr>) t2"
    using assms(2) unfolding robot_placed_def by blast
  have 1: "betting_ok t1 \<and> quiet t t1 \<and> robot_plans t1 = robot_plans t" using robot_wallet_quiet [OF _ w] assms(1) by (simp add: robots_ok_def)
  have 2: "betting_ok t2 \<and> quiet t1 t2 \<and> robot_plans t2 = robot_plans t1" using robot_bet_quiet [OF _ b] 1 assms(3) by (simp add: robot_request_def)
  have "robots_ok parses t2" using 1 2 assms(1) by (simp add: robots_ok_def plans_ok_def)
  then have "robots_ok parses s' \<and> quiet t2 s'" unfolding s' by (rule robots_set_plan) simp
  then show ?thesis using 1 2 quiet_trans by blast
qed

lemma runPlan_robots:
  assumes "robots_ok parses s" "runPlan parses rnd i s = Inr (n, s')" "random_ok rnd"
  shows "robots_ok parses s' \<and> quiet s s'"
  using runPlan_Inr [OF assms(2)]
proof (elim disjE conjE exE)
  assume "plan_touched i s s'"
  then obtain f where "s' = set_plan i f s" "\<forall>p. rb_plan (f p) = rb_plan p" unfolding plan_touched_def by blast
  then show ?thesis using robots_set_plan [OF assms(1), of f i] by simp
next
  fix row v r step skip idx amount
  assume row: "lookup (\<lambda>p. rb_id p = i \<and> plan_due s p) (robot_plans s) = Some row" and v: "scanPlan s (Some row) = Inr v"
    and am: "randomBetween (rnd 2) (pi_min (pn_input v)) (pi_max (pn_input v)) = Inr amount"
    and p: "robot_placed parses i v r (pi_selections (pn_input v) ! nat idx) amount (set_plan i (scheduled_row (r_seq r) (wrap64 (r_seq r + wrap64 (step * skip)))) s) s'"
  let ?t = "set_plan i (scheduled_row (r_seq r) (wrap64 (r_seq r + wrap64 (step * skip)))) s"
  have t: "robots_ok parses ?t \<and> quiet s ?t" by (rule robots_set_plan [OF assms(1)]) simp
  have "validatePlan parses (rb_plan row) = Inr ()" using assms(1) lookup_SomeD [OF row] by (simp add: robots_ok_def plans_ok_def)
  then have "pi_max (rb_plan row) \<le> max_int64" using valid_plan by (fastforce simp: max_int64_def)
  moreover have "amount \<le> pi_max (pn_input v)" using randomBetween_range [OF assms(3) am] by simp
  moreover have "pi_max (pn_input v) = pi_max (rb_plan row)" using v by (auto elim!: scanned)
  ultimately show ?thesis using robot_placed_quiet [OF _ p] t quiet_trans by fastforce
qed

lemma run_plans_robots:
  assumes "robots_ok parses s" "\<And>i. random_ok (rnd i)"
  shows "robots_ok parses (snd (snd (run_plans parses rnd is n s))) \<and> quiet s (snd (snd (run_plans parses rnd is n s)))"
  using assms(1)
proof (induction "is" arbitrary: n s)
  case (Cons i "is")
  show ?case
  proof (cases "runPlan parses (rnd i) i s")
    case (Inl e)
    then show ?thesis using Cons.prems by simp
  next
    case (Inr x)
    obtain m t where x: "x = (m, t)" by (cases x)
    note k = runPlan_robots [OF Cons.prems Inr [unfolded x] assms(2)]
    then show ?thesis using Cons.IH [of t "n + m"] Inr x quiet_trans by auto
  qed
qed simp


lemma scanPlacedBet_id: "scanPlacedBet s b = Inr y \<Longrightarrow> pb_id y = b_id b"
  by (auto simp: scanPlacedBet_def bindE_eq_Inr)

lemma findPlacement_bet:
  assumes "findPlacement q s = Inr p" "placement_of s (BetAccountID q) (ClientRequestID q) = Some x"
  shows "request_matches q x \<and> pb_id p = p_bet x \<and> (\<exists>b. bet_by_id s (p_bet x) = Some b)"
proof -
  obtain b y where b: "bet_by_id s (p_bet x) = Some b" "scanPlacedBet s b = Inr y" "p = y\<lparr>pb_request := ClientRequestID q\<rparr>" and m: "request_matches q x"
    using assms by (auto simp: findPlacement_def bindE_eq_Inr orErr_eq_Inr split: if_splits)
  have "b_id b = p_bet x" using b(1) lookup_SomeD by (fastforce simp: bet_by_id_def)
  then show ?thesis using b m scanPlacedBet_id by simp
qed

lemma robot_bet_placement:
  assumes "wallets_ok s" "PlaceRobotBetTx q s = Inr (p, s')"
  shows "\<exists>x \<in> set (placements s'). (placements s' = placements s \<or> placements s' = placements s @ [x])
    \<and> request_matches (place_normalize q) x \<and> p_user x = BetAccountID q \<and> p_request x = ClientRequestID q
    \<and> p_bet x = pb_id p \<and> (\<exists>b. bet_by_id s' (p_bet x) = Some b)"
proof -
  have run: "placeBetTx True q s = Inr (p, s')" using assms(2) by (simp add: PlaceRobotBetTx_def)
  have keys: "BetAccountID (place_normalize q) = BetAccountID q" "ClientRequestID (place_normalize q) = ClientRequestID q" by (simp_all add: place_normalize_def)
  have f: "findPlacement (place_normalize q) s' = Inr p" and grown: "placements s' = placements s \<or> (\<exists>y. placements s' = placements s @ [y]
      \<and> (\<forall>z \<in> set (placements s). \<not> (p_user z = BetAccountID q \<and> p_request z = ClientRequestID q)))"
    by (cases rule: placeBetTx_Inr [OF assms(1) run]; auto simp: placed_with_def keys)+
  obtain x where x: "placement_of s' (BetAccountID q) (ClientRequestID q) = Some x" using findPlacement_Inr [OF f] keys by auto
  then have m: "x \<in> set (placements s')" "p_user x = BetAccountID q" "p_request x = ClientRequestID q" by (auto simp: placement_of_def dest!: lookup_SomeD)
  then have "placements s' = placements s \<or> placements s' = placements s @ [x]" using grown by auto
  then show ?thesis using m findPlacement_bet [OF f] x keys by auto
qed

lemma robot_mode:
  assumes "valid_pick pick"
  shows "to_lower (trim_space (fst pick)) = fst pick"
proof -
  have "list_all (\<lambda>m. to_lower (trim_space m) = m) [''road'', ''guess'', ''dodge'']" by code_simp
  then show ?thesis using assms by (auto simp: valid_pick_def split: if_splits)
qed

lemma next_round_member: "next_open_round game s = Some r \<Longrightarrow> r \<in> set (rounds s)"
proof -
  let ?rs = "filter (\<lambda>r. r_status r = RoundOpen \<and> r_closes r > clock s
        \<and> list_ex (\<lambda>t. gt_id t = r_type r \<and> gt_code t = game \<and> gt_enabled t) (game_types s)) (rounds s)"
  assume "next_open_round game s = Some r"
  then obtain rs where "sort_key r_seq ?rs = r # rs" unfolding next_open_round_def by (auto split: list.splits)
  then have "r \<in> set (sort_key r_seq ?rs)" by simp
  then show "r \<in> set (rounds s)" by simp
qed

lemma robot_later:
  assumes "validatePlan parses inp = Inr ()" "round_step (pi_game inp) = Some step" "0 < step" "pi_skip_min inp \<le> skip" "skip \<le> pi_skip_max inp"
    and "\<not> sq > wrap64 (max_int64 - wrap64 (step * skip))" "0 \<le> sq"
  shows "wrap64 (sq + wrap64 (step * skip)) = sq + step * skip"
proof -
  obtain n where "round_step (pi_game inp) = Some n" "n \<le> 29" using valid_step [OF assms(1)] by blast
  then have s: "step \<le> 29" using assms(2) by simp
  have k: "1 \<le> skip" "skip \<le> 10000" using valid_plan [OF assms(1)] assms(4,5) by simp_all
  have m: "0 \<le> step * skip" "step * skip \<le> 290000" using assms(3) s k mult_mono [of step 29 skip 10000] by simp_all
  then have w: "wrap64 (step * skip) = step * skip" "wrap64 (max_int64 - step * skip) = max_int64 - step * skip"
    by (simp_all add: int64_def max_int64_def)
  then have "sq + step * skip \<le> max_int64" using assms(6) by simp
  then show ?thesis using m w assms(7) by (simp add: int64_def max_int64_def)
qed

lemma robot_placed_facts:
  assumes "robots_ok parses s" "robot_placed parses i v r pick amount (set_plan i (scheduled_row sq nx) s) s'"
    and "valid_pick pick" "lookup (\<lambda>p. rb_id p = i \<and> plan_due s p) (robot_plans s) = Some row"
  shows "\<exists>q x u. plan_row s' i = Some q \<and> rb_next q = Some nx \<and> rb_last_bet q = Some (p_bet x)
    \<and> x \<in> set (placements s') \<and> (placements s' = placements s \<or> placements s' = placements s @ [x]) \<and> (\<exists>b. bet_by_id s' (p_bet x) = Some b)
    \<and> p_robot x = nullif i \<and> p_round x = r_id r \<and> p_request x = ''robot-'' @ i @ ''-'' @ r_id r \<and> p_stake x = amount
    \<and> p_room x = nullif (pi_room (pn_input v)) \<and> p_currency x = to_upper (trim_space (pi_currency (pn_input v))) \<and> text_of (p_mode x) = fst pick
    \<and> p_selection x = JObj [(''pick'', JStr (snd pick))]
    \<and> p_user x = u_id u \<and> lookup (\<lambda>u. u_public_id u = pi_user (pn_input v) \<and> u_virtual u) (users s) = Some u"
proof -
  let ?t = "set_plan i (scheduled_row sq nx) s"
  have t: "robots_ok parses ?t" using robots_set_plan [OF assms(1), of "scheduled_row sq nx" i] by simp
  obtain u :: user_row and t1 and bet :: PlacedBet and t2 :: db
    where u: "lookup (\<lambda>u. u_public_id u = pi_user (pn_input v) \<and> u_virtual u) (users ?t) = Some u"
    and w: "robot_wallet (u_id u) (pi_currency (pn_input v)) ?t = Inr t1"
    and b: "PlaceRobotBetTx (robot_request i (r_id r) (u_id u) (pn_input v) pick amount) t1 = Inr (bet, t2)"
    and s': "s' = set_plan i (\<lambda>p. p\<lparr>rb_last_bet := Some (pb_id bet), rb_checked := Some (clock t2), rb_status := ''placed'', rb_error := []\<rparr>) t2"
    using assms(2) unfolding robot_placed_def by blast
  have 1: "betting_ok t1 \<and> robot_plans t1 = robot_plans ?t \<and> placements t1 = placements ?t" using robot_wallet_quiet [OF _ w] t by (simp add: robots_ok_def)
  then have ok: "wallets_ok t1" by (simp add: betting_ok_def platform_ok_def books_ok_wallets_ok)
  have k: "placed_frame t1 t2 \<or> t2 = t1"
  proof (cases rule: placeBetTx_Inr [OF ok b [unfolded PlaceRobotBetTx_def], case_names again fresh])
    case (fresh sel u w odds betID placement)
    then show ?thesis by (simp add: placed_with_def)
  qed simp
  then have plans: "robot_plans t2 = robot_plans ?t" using 1 by (auto simp: placed_frame_def)
  obtain x where x: "x \<in> set (placements t2)" "placements t2 = placements t1 \<or> placements t2 = placements t1 @ [x]"
    "request_matches (place_normalize (robot_request i (r_id r) (u_id u) (pn_input v) pick amount)) x" "p_user x = u_id u"
    "p_request x = ''robot-'' @ i @ ''-'' @ r_id r" "p_bet x = pb_id bet" "\<exists>b. bet_by_id t2 (p_bet x) = Some b"
    using robot_bet_placement [OF ok b] by (auto simp: robot_request_def)
  have row: "\<exists>p. lookup (\<lambda>p. rb_id p = i) (robot_plans s) = Some p"
    using lookup_SomeD [OF assms(4)] by (auto simp: lookup_None_iff not_None_eq [symmetric] simp del: not_None_eq)
  have pr: "\<exists>q. plan_row s' i = Some q \<and> rb_next q = Some nx \<and> rb_last_bet q = Some (p_bet x)"
    using row by (auto simp: s' plan_row_def plans lookup_modify_key x(6))
  have f: "p_robot x = nullif i \<and> p_round x = r_id r \<and> p_stake x = amount \<and> text_of (p_mode x) = fst pick
    \<and> p_room x = nullif (pi_room (pn_input v)) \<and> p_currency x = to_upper (trim_space (pi_currency (pn_input v)))
    \<and> p_selection x = JObj [(''pick'', JStr (snd pick))]"
    using x(3) robot_mode [OF assms(3)] by (simp add: request_matches_def place_normalize_def robot_request_def)
  have l: "lookup (\<lambda>u. u_public_id u = pi_user (pn_input v) \<and> u_virtual u) (users s) = Some u" using u by simp
  have pl: "x \<in> set (placements s')" "placements s' = placements s \<or> placements s' = placements s @ [x]" using x(1,2) 1 s' by simp_all
  have "\<exists>b. bet_by_id s' (p_bet x) = Some b" using x(7) by (simp add: s' bet_by_id_def)
  then show ?thesis using pr f l pl x(4,5) by blast
qed

section \<open>Properties\<close>

datatype robot_call =
    RCreate string string plan_input
  | RUpdate string string plan_input
  | REnable string string bool
  | RDelete string string
  | RRun "string \<Rightarrow> nat \<Rightarrow> int \<Rightarrow> int" int
  | RTick nat

definition robot_run :: "(string \<Rightarrow> bool) \<Rightarrow> robot_call \<Rightarrow> db \<Rightarrow> db" where
  "robot_run parses call s =
     (case call of
        RCreate actor key inp \<Rightarrow> attempt (CreatePlan parses actor key inp) s
      | RUpdate actor i inp \<Rightarrow> attempt (UpdatePlan parses actor i inp) s
      | REnable actor i e \<Rightarrow> attempt (SetPlanEnabled parses actor i e) s
      | RDelete actor i \<Rightarrow> (case DeletePlan parses actor i s of Inl e \<Rightarrow> s | Inr s' \<Rightarrow> s')
      | RRun rnd limit \<Rightarrow> snd (snd (RunDue parses rnd limit s))
      | RTick d \<Rightarrow> s\<lparr>clock := clock s + int d\<rparr>)"

text \<open>The random numbers of a run are below their bounds.\<close>

definition fair_call :: "robot_call \<Rightarrow> bool" where
  "fair_call call \<longleftrightarrow> (case call of RRun rnd limit \<Rightarrow> (\<forall>i. random_ok (rnd i)) | _ \<Rightarrow> True)"

lemma robot_run_keeps:
  assumes "robots_ok parses s" "fair_call call"
  shows "robots_ok parses (robot_run parses call s) \<and> quiet s (robot_run parses call s)"
proof (cases call)
  case (RTick d)
  have "betting_ok (s\<lparr>clock := clock s + int d\<rparr>) \<and> quiet s (s\<lparr>clock := clock s + int d\<rparr>)"
    by (rule betting_ok_cong) (use assms(1) in \<open>simp_all add: robots_ok_def\<close>)
  then show ?thesis using assms(1) RTick by (simp add: robot_run_def robots_ok_def plans_ok_def)
next
  case (RRun rnd limit)
  then show ?thesis using run_plans_robots [OF assms(1)] assms(2) by (simp add: robot_run_def RunDue_def fair_call_def)
next
  case (RCreate a k i)
  then show ?thesis using CreatePlan_robots [OF assms(1)] assms(1) by (auto simp: robot_run_def attempt_def split: sum.splits)
next
  case (RUpdate a k i)
  then show ?thesis using UpdatePlan_robots [OF assms(1)] assms(1) by (auto simp: robot_run_def attempt_def split: sum.splits)
next
  case (REnable a i e)
  then show ?thesis using SetPlanEnabled_robots [OF assms(1)] assms(1) by (auto simp: robot_run_def attempt_def split: sum.splits)
next
  case (RDelete a i)
  then show ?thesis using DeletePlan_robots [OF assms(1)] assms(1) by (auto simp: robot_run_def split: sum.splits)
qed

text \<open>C13: Robots never move money. Whatever plans are created, changed, switched and deleted and however often the due ones run,
  no ledger entry appears, no balance of any wallet changes, and no bet of a real player appears or changes; every stored plan
  stays within the limits of the validation and orders, placements and rounds stay in order.\<close>

theorem robots_never_pay:
  assumes "robots_ok parses s" "\<forall>call \<in> set calls. fair_call call"
  shows "robots_ok parses (fold (robot_run parses) calls s) \<and> quiet s (fold (robot_run parses) calls s)"
  using assms
proof (induction calls arbitrary: s)
  case (Cons c calls)
  have k: "robots_ok parses (robot_run parses c s)" "quiet s (robot_run parses c s)" using robot_run_keeps Cons.prems by auto
  then show ?case using Cons.IH [OF k(1)] Cons.prems(2) quiet_trans by auto
qed simp

text \<open>C14: A run of a plan either places nothing and touches only the plan's row, keeping what the plan says, or it is exactly the turn
  the plan waited for. Then the earliest open round of its game is the one it was scheduled for; the placement is for the plan's own account,
  which is virtual, in the plan's room and currency, under the request id of this plan and round, with a stake within the plan's limits and
  one of its picks; the plan records the bet of this placement and is scheduled for a later round, between the least and the most rounds it
  may skip. Public numbers of users are unique.\<close>

theorem robot_turn:
  assumes "robots_ok parses s" "random_ok rnd" "runPlan parses rnd i s = Inr (n, s')" "\<forall>r \<in> set (rounds s). 0 \<le> r_seq r"
    and "distinct (map u_public_id (users s))"
  shows "(n = 0 \<and> (\<exists>f. s' = set_plan i f s \<and> (\<forall>p. rb_plan (f p) = rb_plan p)))
    \<or> (n = 1 \<and> (\<exists>p r step skip q x pick. lookup (\<lambda>p. rb_id p = i \<and> plan_due s p) (robot_plans s) = Some p
        \<and> next_open_round (pi_game (rb_plan p)) s = Some r \<and> rb_next p = Some (r_seq r)
        \<and> round_step (pi_game (rb_plan p)) = Some step \<and> 0 < step \<and> pi_skip_min (rb_plan p) \<le> skip \<and> skip \<le> pi_skip_max (rb_plan p)
        \<and> plan_row s' i = Some q \<and> rb_next q = Some (r_seq r + step * skip) \<and> rb_last_bet q = Some (p_bet x)
        \<and> x \<in> set (placements s') \<and> (placements s' = placements s \<or> placements s' = placements s @ [x]) \<and> (\<exists>b. bet_by_id s' (p_bet x) = Some b)
        \<and> p_user x = rb_user p \<and> (\<exists>u. user_by_id s (rb_user p) = Some u \<and> u_virtual u)
        \<and> p_room x = nullif (pi_room (rb_plan p)) \<and> p_currency x = to_upper (trim_space (pi_currency (rb_plan p)))
        \<and> p_robot x = nullif i \<and> p_round x = r_id r \<and> p_request x = ''robot-'' @ i @ ''-'' @ r_id r
        \<and> pi_min (rb_plan p) \<le> p_stake x \<and> p_stake x \<le> pi_max (rb_plan p)
        \<and> pick \<in> set (pi_selections (rb_plan p)) \<and> text_of (p_mode x) = fst pick \<and> p_selection x = JObj [(''pick'', JStr (snd pick))]))"
  using runPlan_Inr [OF assms(3)]
proof (elim disjE conjE exE)
  assume "n = 0" "plan_touched i s s'"
  then show ?thesis by (auto simp: plan_touched_def)
next
  fix row v r step skip idx amount
  assume n: "n = 1" and row: "lookup (\<lambda>p. rb_id p = i \<and> plan_due s p) (robot_plans s) = Some row" and v: "scanPlan s (Some row) = Inr v"
    and r: "next_open_round (pi_game (pn_input v)) s = Some r" and st: "round_step (pi_game (pn_input v)) = Some step" "0 < step"
    and nx: "pn_next v = Some (r_seq r)" and sk: "randomBetween (rnd 0) (pi_skip_min (pn_input v)) (pi_skip_max (pn_input v)) = Inr skip"
    and range: "\<not> r_seq r > wrap64 (max_int64 - wrap64 (step * skip))"
    and ix: "randomBetween (rnd 1) 0 (int (length (pi_selections (pn_input v))) - 1) = Inr idx"
    and am: "randomBetween (rnd 2) (pi_min (pn_input v)) (pi_max (pn_input v)) = Inr amount"
    and pl: "robot_placed parses i v r (pi_selections (pn_input v) ! nat idx) amount (set_plan i (scheduled_row (r_seq r) (wrap64 (r_seq r + wrap64 (step * skip)))) s) s'"
  let ?pick = "pi_selections (rb_plan row) ! nat idx"
  have ok: "validatePlan parses (rb_plan row) = Inr ()" using assms(1) lookup_SomeD [OF row] by (simp add: robots_ok_def plans_ok_def)
  obtain own where own: "user_by_id s (rb_user row) = Some own" "pn_input v = (rb_plan row)\<lparr>pi_user := u_public_id own\<rparr>" "pn_next v = rb_next row"
    using v by (rule scanned)
  have inp: "pi_game (pn_input v) = pi_game (rb_plan row)" "pi_selections (pn_input v) = pi_selections (rb_plan row)" "rb_next row = Some (r_seq r)"
    using own nx by simp_all
  note rg = randomBetween_range [OF assms(2)]
  have skip: "pi_skip_min (rb_plan row) \<le> skip" "skip \<le> pi_skip_max (rb_plan row)" using rg [OF sk] own by simp_all
  have amount: "pi_min (rb_plan row) \<le> amount" "amount \<le> pi_max (rb_plan row)" using rg [OF am] own by simp_all
  have pick: "?pick \<in> set (pi_selections (rb_plan row))" using rg [OF ix] inp by (intro nth_mem) auto
  have later: "wrap64 (r_seq r + wrap64 (step * skip)) = r_seq r + step * skip"
    using robot_later [OF ok _ st(2) skip range] st(1) inp(1) next_round_member [OF r] assms(4) by auto
  obtain q x u where f: "plan_row s' i = Some q" "rb_next q = Some (r_seq r + step * skip)" "rb_last_bet q = Some (p_bet x)" "x \<in> set (placements s')"
    "placements s' = placements s \<or> placements s' = placements s @ [x]" "\<exists>b. bet_by_id s' (p_bet x) = Some b" "p_robot x = nullif i" "p_round x = r_id r"
    "p_request x = ''robot-'' @ i @ ''-'' @ r_id r" "p_stake x = amount" "p_room x = nullif (pi_room (pn_input v))"
    "p_currency x = to_upper (trim_space (pi_currency (pn_input v)))" "text_of (p_mode x) = fst ?pick" "p_selection x = JObj [(''pick'', JStr (snd ?pick))]"
    and u: "p_user x = u_id u" "lookup (\<lambda>u. u_public_id u = pi_user (pn_input v) \<and> u_virtual u) (users s) = Some u"
    using robot_placed_facts [OF assms(1) pl _ row] plan_pick_valid [OF ok pick] unfolding later inp(2) by blast
  have own_mem: "own \<in> set (users s)" "u_id own = rb_user row" using lookup_SomeD [OF own(1) [unfolded user_by_id_def]] by simp_all
  have "u = own" using lookup_SomeD [OF u(2)] own(2) own_mem(1) distinct_key_eq [OF assms(5), of u own] by simp
  then have "p_user x = rb_user row" "u_virtual own" using u lookup_SomeD [OF u(2)] own_mem(2) by simp_all
  moreover have "next_open_round (pi_game (rb_plan row)) s = Some r" "round_step (pi_game (rb_plan row)) = Some step" using r st inp(1) by simp_all
  moreover have "pi_min (rb_plan row) \<le> p_stake x" "p_stake x \<le> pi_max (rb_plan row)" using amount f(10) by simp_all
  moreover have "p_room x = nullif (pi_room (rb_plan row))" "p_currency x = to_upper (trim_space (pi_currency (rb_plan row)))" using f(11,12) own by simp_all
  ultimately show ?thesis using n row inp(3) st(2) skip pick f own(1) by blast
qed


text \<open>A database in which a robot may play one hash game in one room.\<close>

definition sample_robot_plan :: plan_input where
  "sample_robot_plan = \<lparr>pi_user = 10003, pi_enabled = True, pi_game = ''hash_9'', pi_room = ''room'', pi_currency = ''points'', pi_min = 10, pi_max = 90,
     pi_selections = [(''road'', ''odd''), (''guess'', ''7'')], pi_skip_min = 1, pi_skip_max = 3\<rparr>"

definition sample_robot_db :: db where
  "sample_robot_db = sample_hash_db\<lparr>user_roles := [(''bob'', ''operator'')],
     game_types := map (\<lambda>t. t\<lparr>gt_code := ''hash_9''\<rparr>) (game_types sample_hash_db)\<rparr>"

definition sample_random :: "string \<Rightarrow> nat \<Rightarrow> int \<Rightarrow> int" where
  "sample_random i k n = (if 0 < n then int k mod n else 0)"

lemma sample_random_ok: "random_ok (sample_random i)"
  by (simp add: random_ok_def sample_random_def)

lemma sample_robot_ok: "robots_ok parses sample_robot_db"
proof -
  have "betting_ok sample_robot_db \<and> quiet sample_hash_db sample_robot_db"
    by (rule betting_ok_cong [OF sample_hash_ok]) (simp_all add: sample_robot_db_def)
  moreover have "robot_plans sample_robot_db = []"
    by (simp add: sample_robot_db_def sample_hash_db_def sample_open_db_def sample_settle_db_def sample_db_def empty_db_def)
  ultimately show ?thesis by (simp add: robots_ok_def plans_ok_def)
qed

definition sample_robot_calls :: "robot_call list" where
  "sample_robot_calls = [RCreate ''bob'' ''k1'' sample_robot_plan, RRun sample_random 0, RDelete ''eve'' ''x'']"

theorem robots_never_pay_witness:
  "robots_ok (\<lambda>_. True) (fold (robot_run (\<lambda>_. True)) sample_robot_calls sample_robot_db)
    \<and> map (\<lambda>p. (rb_status p, rb_next p)) (robot_plans (fold (robot_run (\<lambda>_. True)) sample_robot_calls sample_robot_db)) = [(''scheduled'', Some 10)]"
proof
  have "\<forall>call \<in> set sample_robot_calls. fair_call call" by (simp add: sample_robot_calls_def fair_call_def sample_random_ok)
  then show "robots_ok (\<lambda>_. True) (fold (robot_run (\<lambda>_. True)) sample_robot_calls sample_robot_db)"
    by (rule robots_never_pay [OF sample_robot_ok, THEN conjunct1])
qed code_simp


text \<open>The plan waits for the round that is open.\<close>

definition sample_turn_db :: db where
  "sample_turn_db = sample_robot_db\<lparr>robot_plans := [\<lparr>rb_id = ''p1'', rb_user = ''robot'', rb_operator = ''bob'', rb_request = ''k1'',
     rb_create = normal_plan sample_robot_plan, rb_plan = normal_plan sample_robot_plan, rb_deleted = False, rb_next = Some 1, rb_seen = None,
     rb_checked = None, rb_status = ''scheduled'', rb_error = [], rb_last_bet = None, rb_created = 0\<rparr>]\<rparr>"

lemma sample_turn_ok: "robots_ok (\<lambda>_. True) sample_turn_db"
proof -
  have "betting_ok sample_turn_db \<and> quiet sample_robot_db sample_turn_db"
    by (rule betting_ok_cong) (use sample_robot_ok in \<open>simp_all add: robots_ok_def sample_turn_db_def\<close>)
  moreover have "list_all (\<lambda>p. validatePlan (\<lambda>_. True) (rb_plan p) = Inr ()) (robot_plans sample_turn_db)" by code_simp
  ultimately show ?thesis by (simp add: robots_ok_def plans_ok_def list_all_iff)
qed

theorem robot_turn_witness:
  "\<exists>s'. runPlan (\<lambda>_. True) (sample_random ''p1'') ''p1'' sample_turn_db = Inr (1, s') \<and> (\<exists>x \<in> set (placements s'). p_round x = ''r1'' \<and> p_stake x = 12)"
proof -
  have "case runPlan (\<lambda>_. True) (sample_random ''p1'') ''p1'' sample_turn_db of Inl e \<Rightarrow> False | Inr (n, s') \<Rightarrow> n = 1 \<and> map p_stake (placements s') = [12]"
    by code_simp
  then obtain s' where s': "runPlan (\<lambda>_. True) (sample_random ''p1'') ''p1'' sample_turn_db = Inr (1, s')" and p: "map p_stake (placements s') = [12]"
    by (auto split: sum.splits)
  have q: "\<forall>r \<in> set (rounds sample_turn_db). 0 \<le> r_seq r" and d: "distinct (map u_public_id (users sample_turn_db))" by code_simp+
  obtain p r x where p1: "lookup (\<lambda>p. rb_id p = ''p1'' \<and> plan_due sample_turn_db p) (robot_plans sample_turn_db) = Some p"
    and r0: "next_open_round (pi_game (rb_plan p)) sample_turn_db = Some r" and x: "x \<in> set (placements s')" "p_round x = r_id r"
    using robot_turn [OF sample_turn_ok sample_random_ok s' q d] by (elim disjE) (simp, blast)
  have "list_all (\<lambda>p. pi_game (rb_plan p) = ''hash_9'') (robot_plans sample_turn_db)" by code_simp
  then have r: "next_open_round ''hash_9'' sample_turn_db = Some r" using r0 lookup_SomeD [OF p1] by (simp add: list_all_iff)
  have "case next_open_round ''hash_9'' sample_turn_db of None \<Rightarrow> False | Some r \<Rightarrow> r_id r = ''r1''" by code_simp
  then have "p_round x = ''r1''" using x r by simp
  moreover have "p_stake x = 12" using p x(1) by (cases "placements s'") auto
  ultimately show ?thesis using s' x by blast
qed

end
