(* ===== verification/Postings.thy ===== *)
theory Postings
  imports Credit
begin

text \<open>
  One posting with free deltas: a wallet row is rewritten and the ledger entry with the same deltas is inserted. The
  handlers of \<open>Lulu_Orders\<close> and \<open>Agents\<close> rest on it.
\<close>

lemma posting_row:
  assumes "books_ok s" "wallet_of s u c = Some w" "in_range v" "in_range f"
    and "wallets t = wallets (wallet_update (w_id w) v f s)" "ledger t = ledger s"
    and "insert_ledger_row e t = Inr s'" "l_wallet e = w_id w" "l_after e = v"
    and "l_avail_delta e = v - w_available w" "l_frozen_delta e = f - w_frozen w"
  shows "books_ok s' \<and> moved_by s u c (v - w_available w) (f - w_frozen w) s' \<and> money_only t s' \<and> wallets s' = wallets t
    \<and> ledger s' = ledger s @ [e\<lparr>l_frozen_after := f\<rparr>]"
proof -
  have ok: "wallets_ok s" using books_ok_wallets_ok [OF assms(1)] .
  let ?w = "w\<lparr>w_available := v, w_frozen := f, w_version := w_version w + 1, w_updated := clock s\<rparr>"
  have wt: "wallet_of t a b = (if (a, b) = (u, c) then Some ?w else wallet_of s a b)" for a b
    using wallet_update_of [OF ok assms(2), of v f a b] assms(5) by (simp add: wallet_of_def)
  have i: "wallet_by_id t (w_id w) = Some ?w"
    using wallet_by_id_update [OF wallet_of_by_id [OF ok assms(2)], of v f "w_id w"] wallet_by_id_cong [OF assms(5)] by simp
  obtain x ev where x: "wallet_by_id t (l_wallet e) = Some x"
    and s': "s' = t\<lparr>next_uuid := Suc (next_uuid t), ledger := ledger t @ [e\<lparr>l_frozen_after := w_frozen x\<rparr>], outbox := outbox t @ [ev]\<rparr>"
    using assms(7) by (rule insert_ledger_row_Inr)
  have "x = ?w" using x i assms(8) by simp
  then have fx: "w_frozen x = f" by simp
  have w: "wallets s' = wallets t" and l: "ledger s' = ledger s @ [e\<lparr>l_frozen_after := f\<rparr>]" using s' assms(6) fx by simp_all
  have "shifted s w v f s'" using w l assms(5,8-11) by (auto simp: shifted_def)
  then have "books_ok s'" using shifted_books [OF assms(1) wallet_of_by_id [OF ok assms(2)] _ assms(3,4)] by blast
  moreover have "wallet_of s' a b = wallet_of t a b" for a b using w by (simp add: wallet_of_def)
  then have "moved_by s u c (v - w_available w) (f - w_frozen w) s'"
    using assms(2) by (auto simp: moved_by_def balance_of_def frozen_of_def wt)
  moreover have "money_only t s'" using insert_ledger_row_money_only [OF assms(7)] by blast
  ultimately show ?thesis using w l by blast
qed

lemma plain_posting:
  assumes "books_ok s" "wallet_of s u c = Some w" "set_available (w_id w) v s = Inr s1" "v \<le> max_int64"
    and "wallets t = wallets s1" "ledger t = ledger s1"
    and "insert_ledger (w_id w) bt bid et (v - w_available w) v t = Inr s'"
  shows "books_ok s' \<and> moved_by s u c (v - w_available w) 0 s' \<and> new_entry s bt bid (v - w_available w) s' \<and> money_only t s' \<and> 0 \<le> v"
proof -
  have ok: "wallets_ok s" using books_ok_wallets_ok [OF assms(1)] .
  note a = set_available_update [OF ok assms(2,3)]
  let ?e = "\<lparr>l_id = uuids t (next_uuid t), l_wallet = w_id w, l_btype = bt, l_bid = bid, l_etype = et,
        l_amount = v - w_available w, l_after = v, l_avail_delta = v - w_available w, l_frozen_delta = 0,
        l_frozen_after = 0, l_placement = None, l_remark = [], l_operator = None, l_at = clock t\<rparr>"
  have i: "insert_ledger_row ?e (t\<lparr>next_uuid := Suc (next_uuid t)\<rparr>) = Inr s'"
    using assms(7) by (simp add: insert_ledger_def new_uuid_def)
  have "books_ok s' \<and> moved_by s u c (v - w_available w) (w_frozen w - w_frozen w) s' \<and> money_only (t\<lparr>next_uuid := Suc (next_uuid t)\<rparr>) s'
      \<and> wallets s' = wallets (t\<lparr>next_uuid := Suc (next_uuid t)\<rparr>) \<and> ledger s' = ledger s @ [?e\<lparr>l_frozen_after := w_frozen w\<rparr>]"
    by (rule posting_row [OF assms(1,2) _ _ _ _ i]) (use a assms(4-6) wallet_of_range [OF ok assms(2)] in \<open>simp_all add: in_range_def\<close>)
  then show ?thesis using a insert_ledger_money_only [OF assms(7)] by (simp add: new_entry_def)
qed

definition wallets_kept :: "db \<Rightarrow> db \<Rightarrow> bool" where
  "wallets_kept d d' \<longleftrightarrow> (\<forall>w \<in> set (wallets d). \<exists>v \<in> set (wallets d'). w_id v = w_id w \<and> w_user v = w_user w \<and> w_currency v = w_currency w)"

lemma wallets_kept_same: "wallets d' = wallets d \<Longrightarrow> wallets_kept d d'"
  by (auto simp: wallets_kept_def)

lemma wallets_kept_trans: "wallets_kept a b \<Longrightarrow> wallets_kept b c \<Longrightarrow> wallets_kept a c"
  unfolding wallets_kept_def by metis

lemma wallets_kept_update: "wallets d' = wallets (wallet_update i v f d) \<Longrightarrow> wallets_kept d d'"
  unfolding wallets_kept_def
proof
  fix w assume "w \<in> set (wallets d)" and d': "wallets d' = wallets (wallet_update i v f d)"
  then have "(if w_id w = i then w\<lparr>w_available := v, w_frozen := f, w_version := w_version w + 1, w_updated := clock d\<rparr> else w) \<in> set (wallets d')"
    by (auto simp: wallet_update_def set_modify)
  then show "\<exists>u \<in> set (wallets d'). w_id u = w_id w \<and> w_user u = w_user w \<and> w_currency u = w_currency w" by (rule rev_bexI) simp
qed

lemma wallet_row_for_kept: "wallet_row_for u c s = Inr s' \<Longrightarrow> wallets_kept s s'"
  by (auto simp: wallet_row_for_def new_uuid_def Let_def insert_wallet_def wallets_kept_def split: if_splits)

end
