(* ===== verification/Agents.thy ===== *)
theory Agents
  imports Postings Rebate
begin

text \<open>
  Agents: \<^verbatim>\<open>internal/application/agent\<close> (\<^verbatim>\<open>service.go\<close>, \<^verbatim>\<open>self_service.go\<close>). A player is bound once to the agent above him;
  the relations form a forest with a materialised path per row. Operators grant and reverse commissions, agents raise
  the level of their direct players. \<open>agent_db\<close> is the database with the \<^verbatim>\<open>path\<close> column of \<^verbatim>\<open>agent_relations\<close> and the table
  \<^verbatim>\<open>commission_adjustments\<close> beside it; a path is the list of its labels.
\<close>

record commission_adjustment =
  ca2_id :: string
  ca2_request :: string
  ca2_agent :: string
  ca2_currency :: string
  ca2_amount :: int
  ca2_remark :: string
  ca2_operator :: string

record agent_db =
  ag_db :: db
  ag_paths :: "(string \<times> string list) list"
  ag_adjustments :: "commission_adjustment list"

section \<open>service.go: relations\<close>

definition parent_row :: "db \<Rightarrow> string \<Rightarrow> string option option" where
  "parent_row s u = map_option snd (lookup (\<lambda>r. fst r = u) (agent_parents s))"

text \<open>The recursive statement over the ancestors of a user, himself included. A user has one parent, so more steps than
  rows reach nobody new: the number of rows bounds the walk.\<close>

fun ancestors :: "db \<Rightarrow> nat \<Rightarrow> string \<Rightarrow> string list" where
  "ancestors s 0 u = [u]"
| "ancestors s (Suc n) u = u # (case parent_row s u of Some (Some p) \<Rightarrow> ancestors s n p | _ \<Rightarrow> [])"

definition would_cycle :: "db \<Rightarrow> string \<Rightarrow> string \<Rightarrow> bool" where
  "would_cycle s user parent \<longleftrightarrow> user \<in> set (ancestors s (length (agent_parents s)) parent)"

definition path_label :: "string \<Rightarrow> string" where
  "path_label i = map (\<lambda>c. if c = CHR ''-'' then CHR ''_'' else c) i"

definition containsPathLabel :: "string list \<Rightarrow> string \<Rightarrow> bool" where
  "containsPathLabel path label = list_ex (\<lambda>x. x = label) path"

definition path_of :: "agent_db \<Rightarrow> string \<Rightarrow> string list" where
  "path_of s u = (case lookup (\<lambda>r. fst r = u) (ag_paths s) of None \<Rightarrow> [] | Some r \<Rightarrow> snd r)"

text \<open>\<^verbatim>\<open>UPDATE agent_relations SET path=prefix||path WHERE path <@ label\<close>: the paths that begin with the label.\<close>

definition prefix_paths :: "string \<Rightarrow> string list \<Rightarrow> (string \<times> string list) list \<Rightarrow> (string \<times> string list) list" where
  "prefix_paths label prefix ps = map (\<lambda>(u, p). (u, if take 1 p = [label] then prefix @ p else p)) ps"

definition put_row :: "'a \<Rightarrow> 'b \<Rightarrow> ('a \<times> 'b) list \<Rightarrow> ('a \<times> 'b) list" where
  "put_row k v rs = (if list_ex (\<lambda>r. fst r = k) rs then modify (\<lambda>r. fst r = k) (\<lambda>r. (k, v)) rs else rs @ [(k, v)])"

definition ensureRealRelationUsers :: "string \<Rightarrow> string \<Rightarrow> db \<Rightarrow> error + unit" where
  "ensureRealRelationUsers user parent s =
     (let rows = filter (\<lambda>u. u_id u = user \<or> u_id u = parent) (users s) in
      if list_ex u_virtual rows then Inl (Agent ErrVirtualRelation)
      else if length rows \<noteq> 2 then Inl (Agent ErrRelationUserNotFound) else Inr ())"

definition bindTx :: "string \<Rightarrow> string \<Rightarrow> agent_db \<Rightarrow> error + agent_db" where
  "bindTx user parent s =
     (let parentPath = path_of s parent; userLabel = path_label user; parentLabel = path_label parent in
      if (case parent_row (ag_db s) user of Some (Some p) \<Rightarrow> True | _ \<Rightarrow> False) then Inl (Agent ErrRelationExists)
      else if would_cycle (ag_db s) user parent then Inl (Agent ErrInvalidRelation)
      else if parentPath \<noteq> [] \<and> containsPathLabel parentPath userLabel then Inl (Agent ErrInvalidRelation)
      else let prefix = (if parentPath \<noteq> [] then parentPath else [parentLabel]);
               path = prefix @ [userLabel] in
        Inr (s\<lparr>ag_db := (ag_db s)\<lparr>agent_parents := put_row user (Some parent) (agent_parents (ag_db s))\<rparr>,
               ag_paths := put_row user path (prefix_paths userLabel prefix (ag_paths s))\<rparr>))"

definition agent_Bind :: "string \<Rightarrow> string \<Rightarrow> agent_db \<Rightarrow> error + agent_db" where
  "agent_Bind user parent s =
     (if user = [] \<or> parent = [] \<or> user = parent then Inl (Agent ErrInvalidRelation)
      else case ensureRealRelationUsers user parent (ag_db s) of
        Inl e \<Rightarrow> Inl (if e = Agent ErrRelationUserNotFound then Agent ErrInvalidRelation else e)
      | Inr x \<Rightarrow> bindTx user parent s)"

definition AdminBind :: "string \<Rightarrow> int \<Rightarrow> int \<Rightarrow> agent_db \<Rightarrow> error + agent_db" where
  "AdminBind actor userPublic parentPublic s =
     (if actor = [] \<or> userPublic < 10001 \<or> parentPublic < 10001 \<or> userPublic = parentPublic then Inl (Agent ErrInvalidRelation)
      else if \<not> list_ex (\<lambda>u. u_id u = actor \<and> u_status u = ''active''
                \<and> list_ex (\<lambda>r. fst r = actor \<and> snd r \<in> {''admin'', ''operator''}) (user_roles (ag_db s))) (users (ag_db s))
      then Inl (Agent ErrAdminBindForbidden)
      else bindE (orErr (Agent ErrRelationUserNotFound) (lookup (\<lambda>u. u_public_id u = userPublic) (users (ag_db s)))) (\<lambda>u.
      bindE (orErr (Agent ErrRelationUserNotFound) (lookup (\<lambda>u. u_public_id u = parentPublic) (users (ag_db s)))) (\<lambda>p.
      bindE (ensureRealRelationUsers (u_id u) (u_id p) (ag_db s)) (\<lambda>_.
      bindE (bindTx (u_id u) (u_id p) s) (\<lambda>s.
      bindE (insert_audit actor ''admin.agent.bind'' ''user'' (u_id u)
               (PObj [(''user_id'', PInt userPublic), (''parent_user_id'', PInt parentPublic)]) (ag_db s)) (\<lambda>d.
      Inr (s\<lparr>ag_db := d\<rparr>)))))))"

text \<open>The row of a user without a parent answers as no relation.\<close>

definition GetRelation :: "string \<Rightarrow> agent_db \<Rightarrow> string \<times> string" where
  "GetRelation user s = (user, case parent_row (ag_db s) user of Some (Some p) \<Rightarrow> p | _ \<Rightarrow> [])"

definition SetCommissionRate :: "string \<Rightarrow> int \<Rightarrow> string \<Rightarrow> agent_db \<Rightarrow> error + agent_db" where
  "SetCommissionRate agent rate operator s =
     (if agent = [] \<or> operator = [] \<or> rate < 0 \<or> rate > 10000 then Inl (Agent ErrInvalidCommissionRate)
      else if user_by_id (ag_db s) agent = None \<or> user_by_id (ag_db s) operator = None then Inl (DB ForeignKey)
      else Inr (s\<lparr>ag_db := (ag_db s)\<lparr>agent_rates := put_row agent rate (agent_rates (ag_db s))\<rparr>\<rparr>))"

section \<open>service.go: commissions\<close>

definition ReverseCommission :: "string \<Rightarrow> db \<Rightarrow> error + db" where
  "ReverseCommission i s =
     bindE (orErr (Agent ErrCommissionNotFound) (lookup (\<lambda>c. ce_id c = i) (commissions s))) (\<lambda>c.
     if ce_status c \<noteq> ''paid'' then Inl (Agent ErrCommissionState)
     else bindE (orErr (DB NoRows) (wallet_of s (ce_user c) (ce_currency c))) (\<lambda>w.
     if w_available w < ce_amount c then Inl (Agent ErrInsufficientCommissionBalance)
     else let available = wrap64 (w_available w - ce_amount c) in
       bindE (set_available (w_id w) available s) (\<lambda>s.
       insert_ledger (w_id w) ''commission'' i ''commission_reversal'' (wrap64 (- ce_amount c)) available
         (s\<lparr>commissions := modify (\<lambda>c. ce_id c = i) (\<lambda>c. c\<lparr>ce_status := ''reversed''\<rparr>) (commissions s)\<rparr>))))"

definition insert_adjustment :: "commission_adjustment \<Rightarrow> agent_db \<Rightarrow> error + agent_db" where
  "insert_adjustment a s =
     (if list_ex (\<lambda>x. ca2_id x = ca2_id a \<or> ca2_request x = ca2_request a) (ag_adjustments s) then Inl (DB Unique)
      else if user_by_id (ag_db s) (ca2_agent a) = None \<or> user_by_id (ag_db s) (ca2_operator a) = None then Inl (DB ForeignKey)
      else Inr (s\<lparr>ag_adjustments := ag_adjustments s @ [a]\<rparr>))"

text \<open>The wallet, created when it is missing.\<close>

definition grant_wallet :: "string \<Rightarrow> string \<Rightarrow> wallet_row tx" where
  "grant_wallet user currency s =
     (case wallet_of s user currency of
        Some w \<Rightarrow> Inr (w, s)
      | None \<Rightarrow> let (i, s) = new_uuid s in
          bindE (insert_wallet i user currency s) (\<lambda>s.
          bindE (orErr (DB NoRows) (wallet_of s user currency)) (\<lambda>w. Inr (w, s))))"

definition GrantCommission :: "string \<Rightarrow> string \<Rightarrow> string \<Rightarrow> int \<Rightarrow> string \<Rightarrow> string \<Rightarrow> agent_db \<Rightarrow> error + (string \<times> agent_db)" where
  "GrantCommission request agent currency amount remark operator s =
     (if request = [] \<or> agent = [] \<or> currency \<notin> {''POINTS'', ''USDT'', ''JADE'', ''ORIGIN_STONE''} \<or> amount \<le> 0 \<or> operator = []
      then Inl (Agent ErrInvalidCommissionAdjustment)
      else case lookup (\<lambda>x. ca2_request x = request) (ag_adjustments s) of
        Some x \<Rightarrow> Inr (ca2_id x, s)
      | None \<Rightarrow>
          bindE (grant_wallet agent currency (ag_db s)) (\<lambda>(w, d).
          let (i, d) = new_uuid d; available = wrap64 (w_available w + amount) in
          bindE (set_available (w_id w) available d) (\<lambda>d.
          bindE (insert_adjustment \<lparr>ca2_id = i, ca2_request = request, ca2_agent = agent, ca2_currency = currency, ca2_amount = amount,
                   ca2_remark = remark, ca2_operator = operator\<rparr> (s\<lparr>ag_db := d\<rparr>)) (\<lambda>s.
          bindE (insert_ledger (w_id w) ''commission_adjustment'' i ''commission_manual_credit'' amount available (ag_db s)) (\<lambda>d.
          Inr (i, s\<lparr>ag_db := d\<rparr>))))))"

section \<open>self_service.go\<close>

text \<open>A missing level counts as zero. The owner and the player may be the same row.\<close>

definition level_of :: "user_row \<Rightarrow> int" where
  "level_of u = (case u_level u of None \<Rightarrow> 0 | Some l \<Rightarrow> l)"

definition SetDirectPlayerLevel :: "string \<Rightarrow> int \<Rightarrow> int \<Rightarrow> agent_db \<Rightarrow> error + agent_db" where
  "SetDirectPlayerLevel owner target level s =
     (if level < 0 \<or> level > 6 then Inl (Agent ErrChildLevelInvalid)
      else if owner = [] \<or> target < 10001 then Inl (Agent ErrChildLevelForbidden)
      else case (user_by_id (ag_db s) owner, lookup (\<lambda>u. u_public_id u = target) (users (ag_db s))) of
        (Some u, Some c) \<Rightarrow>
          if u_virtual u \<or> u_status u \<noteq> ''active'' \<or> u_virtual c \<or> u_status c = ''disabled'' \<or> u_id c = owner \<or> level_of u < 1
             \<or> level \<ge> level_of u \<or> level_of c \<ge> level_of u \<or> level \<le> level_of c then Inl (Agent ErrChildLevelForbidden)
          else (case parent_row (ag_db s) (u_id c) of
            None \<Rightarrow> Inl (Agent ErrChildLevelForbidden)
          | Some None \<Rightarrow> Inl (DB NullValue)
          | Some (Some p) \<Rightarrow>
              if p \<noteq> owner then Inl (Agent ErrChildLevelForbidden)
              else let d = (ag_db s)\<lparr>users := modify (\<lambda>x. u_id x = u_id c) (\<lambda>x. x\<lparr>u_level := (if level = 0 then None else Some level)\<rparr>) (users (ag_db s)),
                     agent_rates := (if level > 0 \<and> \<not> list_ex (\<lambda>r. fst r = u_id c) (agent_rates (ag_db s))
                       then agent_rates (ag_db s) @ [(u_id c, 0)] else agent_rates (ag_db s))\<rparr> in
                bindE (insert_audit owner ''agent.direct_player.level.update'' ''user'' (u_id c)
                         (PObj [(''old_level'', PInt (level_of c)), (''agent_level'', PInt level)]) d) (\<lambda>d.
                Inr (s\<lparr>ag_db := d\<rparr>)))
      | _ \<Rightarrow> Inl (Agent ErrChildLevelForbidden))"

section \<open>The cycle check is exact\<close>

definition links :: "db \<Rightarrow> (string \<times> string) set" where
  "links s = {(u, p). parent_row s u = Some (Some p)}"

lemma links_rows: "(u, p) \<in> links s \<Longrightarrow> (u, Some p) \<in> set (agent_parents s)"
  using lookup_SomeD by (fastforce simp: links_def parent_row_def)

lemma links_finite: "finite (links s)" and links_card: "card (links s) \<le> length (agent_parents s)"
proof -
  let ?g = "\<lambda>r. (fst r, the (snd r))"
  have sub: "links s \<subseteq> ?g ` set (agent_parents s)" using links_rows by force
  then show "finite (links s)" by (rule finite_subset) simp
  have "card (links s) \<le> card (?g ` set (agent_parents s))" by (rule card_mono [OF _ sub]) simp
  also have "\<dots> \<le> card (set (agent_parents s))" by (rule card_image_le) simp
  also have "\<dots> \<le> length (agent_parents s)" by (rule card_length)
  finally show "card (links s) \<le> length (agent_parents s)" .
qed

lemma ancestors_relpow: "v \<in> set (ancestors s n u) \<longleftrightarrow> (\<exists>k \<le> n. (u, v) \<in> links s ^^ k)"
proof (induction n arbitrary: u)
  case (Suc n)
  show ?case
  proof (cases "parent_row s u")
    case None
    have "(u, v) \<in> links s ^^ k \<longleftrightarrow> k = 0 \<and> v = u" for k
      using None relpow_Suc_D2 [of u v _ "links s"] by (cases k) (auto simp: links_def simp del: relpow.simps(2))
    then show ?thesis using None by auto
  next
    case (Some o')
    show ?thesis
    proof (cases o')
      case None
      have "(u, v) \<in> links s ^^ k \<longleftrightarrow> k = 0 \<and> v = u" for k
        using Some None relpow_Suc_D2 [of u v _ "links s"] by (cases k) (auto simp: links_def simp del: relpow.simps(2))
      then show ?thesis using Some None by auto
    next
      case p: (Some p)
      have step: "(u, v) \<in> links s ^^ Suc k \<longleftrightarrow> (p, v) \<in> links s ^^ k" for k
      proof
        assume "(u, v) \<in> links s ^^ Suc k"
        then obtain q where "(u, q) \<in> links s" "(q, v) \<in> links s ^^ k" by (blast dest: relpow_Suc_D2)
        then show "(p, v) \<in> links s ^^ k" using Some p by (simp add: links_def)
      next
        assume "(p, v) \<in> links s ^^ k"
        moreover have "(u, p) \<in> links s" using Some p by (simp add: links_def)
        ultimately show "(u, v) \<in> links s ^^ Suc k" by (rule relpow_Suc_I2 [rotated])
      qed
      have "(\<exists>k \<le> Suc n. (u, v) \<in> links s ^^ k) \<longleftrightarrow> v = u \<or> (\<exists>k \<le> n. (p, v) \<in> links s ^^ k)"
      proof
        assume "\<exists>k \<le> Suc n. (u, v) \<in> links s ^^ k"
        then obtain k where k: "k \<le> Suc n" "(u, v) \<in> links s ^^ k" by blast
        then show "v = u \<or> (\<exists>k \<le> n. (p, v) \<in> links s ^^ k)" using step by (cases k) auto
      next
        assume "v = u \<or> (\<exists>k \<le> n. (p, v) \<in> links s ^^ k)"
        then show "\<exists>k \<le> Suc n. (u, v) \<in> links s ^^ k"
        proof
          assume "v = u"
          then show ?thesis by (intro exI [of _ 0]) simp
        next
          assume "\<exists>k \<le> n. (p, v) \<in> links s ^^ k"
          then obtain k where "k \<le> n" "(p, v) \<in> links s ^^ k" by blast
          then show ?thesis using step by (intro exI [of _ "Suc k"]) blast
        qed
      qed
      then show ?thesis using Some p Suc.IH [of p] by simp
    qed
  qed
qed auto

lemma would_cycle_iff: "would_cycle s user parent \<longleftrightarrow> (parent, user) \<in> (links s)\<^sup>*"
proof -
  have "(\<exists>k \<le> length (agent_parents s). (parent, user) \<in> links s ^^ k) \<longleftrightarrow> (parent, user) \<in> (links s)\<^sup>*"
  proof
    assume "(parent, user) \<in> (links s)\<^sup>*"
    then show "\<exists>k \<le> length (agent_parents s). (parent, user) \<in> links s ^^ k"
      using rtrancl_finite_eq_relpow [OF links_finite] links_card order_trans by blast
  qed (use relpow_imp_rtrancl in blast)
  then show ?thesis by (simp add: would_cycle_def ancestors_relpow)
qed

section \<open>The relations form a forest\<close>

lemma fst_put_row: "map fst (put_row k v rs) = (if k \<in> fst ` set rs then map fst rs else map fst rs @ [k])"
  by (auto simp: put_row_def list_ex_iff modify_def)

lemma distinct_put_row: "distinct (map fst rs) \<Longrightarrow> distinct (map fst (put_row k v rs))"
  by (auto simp: fst_put_row)

lemma lookup_put_row: "lookup (\<lambda>r. fst r = i) (put_row k v rs) = (if i = k then Some (k, v) else lookup (\<lambda>r. fst r = i) rs)"
proof (cases "list_ex (\<lambda>r. fst r = k) rs")
  case True
  have "lookup (\<lambda>r. fst r = k) (modify (\<lambda>r. fst r = k) (\<lambda>r. (k, v)) rs) = Some (k, v)"
    using True by (induction rs) auto
  moreover have "i \<noteq> k \<Longrightarrow> lookup (\<lambda>r. fst r = i) (modify (\<lambda>r. fst r = k) (\<lambda>r. (k, v)) rs) = lookup (\<lambda>r. fst r = i) rs"
    by (induction rs) auto
  ultimately show ?thesis using True by (simp add: put_row_def)
next
  case False
  then have "lookup (\<lambda>r. fst r = k) rs = None" by (auto simp: lookup_None_iff list_ex_iff)
  then show ?thesis using False by (auto simp: put_row_def lookup_append split: option.splits)
qed

lemma parent_row_put: "parent_row (s\<lparr>agent_parents := put_row u x (agent_parents s)\<rparr>) i = (if i = u then Some x else parent_row s i)"
  by (simp add: parent_row_def lookup_put_row)

lemma path_prefix:
  "lookup (\<lambda>r. fst r = i) (prefix_paths l pre ps) = map_option (\<lambda>r. (fst r, if take 1 (snd r) = [l] then pre @ snd r else snd r)) (lookup (\<lambda>r. fst r = i) ps)"
  by (induction ps) (auto simp: prefix_paths_def)

definition bound :: "agent_db \<Rightarrow> string \<Rightarrow> bool" where
  "bound s u \<longleftrightarrow> (\<exists>p. (u, p) \<in> links (ag_db s))"

text \<open>The path of a bound user is the path of the parent, or the parent alone when it has none, and the user's label.\<close>

definition paths_ok :: "agent_db \<Rightarrow> bool" where
  "paths_ok s \<longleftrightarrow> (\<forall>u. if bound s u then (\<exists>p. (u, p) \<in> links (ag_db s)
        \<and> path_of s u = (if bound s p then path_of s p else [path_label p]) @ [path_label u])
      else path_of s u = [])"

definition plain_id :: "string \<Rightarrow> bool" where
  "plain_id i \<longleftrightarrow> CHR ''_'' \<notin> set i"

definition forest_ok :: "agent_db \<Rightarrow> bool" where
  "forest_ok s \<longleftrightarrow> acyclic (links (ag_db s)) \<and> paths_ok s \<and> (\<forall>u \<in> set (users (ag_db s)). plain_id (u_id u))
     \<and> (\<forall>u p. (u, p) \<in> links (ag_db s) \<longrightarrow> u \<in> u_id ` set (users (ag_db s)) \<and> p \<in> u_id ` set (users (ag_db s)))"

lemma path_label_inject: "plain_id i \<Longrightarrow> plain_id j \<Longrightarrow> path_label i = path_label j \<longleftrightarrow> i = j"
proof
  assume a: "plain_id i" "plain_id j" "path_label i = path_label j"
  have unlabel: "map (\<lambda>c. if c = CHR ''_'' then CHR ''-'' else c) (path_label k) = k" if "plain_id k" for k
    using that by (induction k) (auto simp: path_label_def plain_id_def)
  show "i = j" using unlabel [OF a(1)] unlabel [OF a(2)] a(3) by metis
qed simp

lemma bindTx_Inr:
  assumes "bindTx u p s = Inr s'"
  defines "pre \<equiv> if path_of s p \<noteq> [] then path_of s p else [path_label p]"
  shows "\<not> bound s u \<and> (p, u) \<notin> (links (ag_db s))\<^sup>* \<and> path_label u \<notin> set (path_of s p)
    \<and> s' = s\<lparr>ag_db := (ag_db s)\<lparr>agent_parents := put_row u (Some p) (agent_parents (ag_db s))\<rparr>,
          ag_paths := put_row u (pre @ [path_label u]) (prefix_paths (path_label u) pre (ag_paths s))\<rparr>"
  using assms(1) would_cycle_iff [of "ag_db s" u p]
  by (auto simp: bindTx_def Let_def pre_def bound_def links_def containsPathLabel_def list_ex_iff split: if_splits option.splits)

lemma bindTx_links:
  assumes "bindTx u p s = Inr s'"
  shows "links (ag_db s') = insert (u, p) (links (ag_db s))"
proof -
  have s': "ag_db s' = (ag_db s)\<lparr>agent_parents := put_row u (Some p) (agent_parents (ag_db s))\<rparr>" and nb: "\<not> bound s u"
    using bindTx_Inr [OF assms] by simp_all
  show ?thesis using nb unfolding s' by (auto simp: links_def parent_row_put bound_def split: if_splits)
qed

lemma path_of_bind:
  assumes "bindTx u p s = Inr s'"
  defines "pre \<equiv> if path_of s p \<noteq> [] then path_of s p else [path_label p]"
  shows "path_of s' i = (if i = u then pre @ [path_label u] else if take 1 (path_of s i) = [path_label u] then pre @ path_of s i else path_of s i)"
  using bindTx_Inr [OF assms(1)] unfolding pre_def [symmetric]
  by (auto simp: path_of_def lookup_put_row path_prefix split: option.splits)

lemma bindTx_forest:
  assumes ok: "forest_ok s" and run: "bindTx u p s = Inr s'" and us: "u \<in> u_id ` set (users (ag_db s))" "p \<in> u_id ` set (users (ag_db s))"
  shows "forest_ok s'"
proof -
  let ?pre = "if path_of s p \<noteq> [] then path_of s p else [path_label p]"
  have A: "acyclic (links (ag_db s))" and P: "paths_ok s" using ok by (simp_all add: forest_ok_def)
  note B = bindTx_Inr [OF run] and L = bindTx_links [OF run] and W = path_of_bind [OF run]
  have usr: "users (ag_db s') = users (ag_db s)" using B by simp
  have bd: "bound s' i \<longleftrightarrow> i = u \<or> bound s i" for i using L by (auto simp: bound_def)
  have ne: "path_of s i \<noteq> [] \<longleftrightarrow> bound s i" for i using P unfolding paths_ok_def by (metis append_is_Nil_conv not_Cons_self2)
  have pu: "p \<noteq> u" using B by auto
  have lab: "path_label i = path_label u \<longleftrightarrow> i = u" if "i \<in> u_id ` set (users (ag_db s))" for i
    using path_label_inject that us(1) ok by (auto simp: forest_ok_def)
  have pp: "path_of s' p = path_of s p"
  proof -
    have "take 1 (path_of s p) \<noteq> [path_label u]" using B by (cases "path_of s p") auto
    then show ?thesis using W [of p] pu by simp
  qed
  have "paths_ok s'"
    unfolding paths_ok_def
  proof (intro allI)
    fix v
    show "if bound s' v then \<exists>q. (v, q) \<in> links (ag_db s') \<and> path_of s' v = (if bound s' q then path_of s' q else [path_label q]) @ [path_label v]
      else path_of s' v = []"
    proof (cases "v = u")
      case True
      have "path_of s' u = (if bound s' p then path_of s' p else [path_label p]) @ [path_label u]" using W [of u] ne [of p] bd [of p] pp pu by simp
      then show ?thesis using True bd [of u] L by auto
    next
      case False
      show ?thesis
      proof (cases "bound s v")
        case nb: False
        then have "path_of s v = []" using ne by blast
        then show ?thesis using False nb bd W [of v] by simp
      next
        case True
        then obtain q where q: "(v, q) \<in> links (ag_db s)" "path_of s v = (if bound s q then path_of s q else [path_label q]) @ [path_label v]"
          using P unfolding paths_ok_def by meson
        have qs: "q \<in> u_id ` set (users (ag_db s))" using q(1) ok by (auto simp: forest_ok_def)
        have "path_of s' v = (if bound s' q then path_of s' q else [path_label q]) @ [path_label v]"
        proof (cases "bound s q")
          case bq: True
          then have "q \<noteq> u" using B by auto
          have t: "take 1 (path_of s v) = take 1 (path_of s q)" using q(2) bq ne [of q] by (cases "path_of s q") auto
          show ?thesis using W [of v] W [of q] False \<open>q \<noteq> u\<close> t bd [of q] bq q(2) by auto
        next
          case nq: False
          have t: "take 1 (path_of s v) = [path_label q]" using q(2) nq by simp
          show ?thesis
          proof (cases "q = u")
            case True
            then show ?thesis using W [of v] W [of u] t False bd [of u] q(2) nq by simp
          next
            case False
            then have "path_label q \<noteq> path_label u" using lab [OF qs] by simp
            then show ?thesis using W [of v] t \<open>v \<noteq> u\<close> bd [of q] False nq q(2) by simp
          qed
        qed
        then show ?thesis using True bd [of v] L q(1) by auto
      qed
    qed
  qed
  moreover have "acyclic (links (ag_db s'))" using A B L by (simp add: acyclic_insert)
  ultimately show ?thesis using ok usr L us by (auto simp: forest_ok_def)
qed

definition kept_forest :: "agent_db \<Rightarrow> agent_db \<Rightarrow> bool" where
  "kept_forest s s' \<longleftrightarrow> agent_parents (ag_db s') = agent_parents (ag_db s) \<and> ag_paths s' = ag_paths s
     \<and> u_id ` set (users (ag_db s')) = u_id ` set (users (ag_db s))"

lemma kept_forest_ok:
  assumes "forest_ok s" "kept_forest s s'"
  shows "forest_ok s' \<and> links (ag_db s') = links (ag_db s)"
proof -
  have l: "links (ag_db s') = links (ag_db s)" using assms(2) by (simp add: kept_forest_def links_def parent_row_def)
  have p: "path_of s' = path_of s" using assms(2) by (simp add: kept_forest_def path_of_def fun_eq_iff)
  have b: "bound s' = bound s" using l by (simp add: bound_def fun_eq_iff)
  have F: "forest_ok t \<longleftrightarrow> acyclic (links (ag_db t)) \<and> paths_ok t \<and> (\<forall>i \<in> u_id ` set (users (ag_db t)). plain_id i)
     \<and> (\<forall>u p. (u, p) \<in> links (ag_db t) \<longrightarrow> u \<in> u_id ` set (users (ag_db t)) \<and> p \<in> u_id ` set (users (ag_db t)))" for t
    by (simp add: forest_ok_def)
  have "paths_ok s' = paths_ok s" by (simp add: paths_ok_def l p b)
  then have "forest_ok s' = forest_ok s" using assms(2) unfolding F l kept_forest_def by metis
  then show ?thesis using assms(1) l by simp
qed

lemma insert_audit_keeps: "insert_audit a ac tt ti p s = Inr s' \<Longrightarrow> agent_parents s' = agent_parents s \<and> users s' = users s \<and> commissions s' = commissions s"
  by (auto simp: insert_audit_def new_uuid_def Let_def split: if_splits)

lemma insert_ledger_keeps: "insert_ledger w bt bi et am af s = Inr s' \<Longrightarrow> agent_parents s' = agent_parents s \<and> users s' = users s \<and> commissions s' = commissions s"
  using insert_ledger_money_only money_onlyD by metis

lemma Reverse_keeps: "ReverseCommission i s = Inr s' \<Longrightarrow> agent_parents s' = agent_parents s \<and> users s' = users s"
  by (auto simp: ReverseCommission_def Let_def bindE_eq_Inr set_available_def split: if_splits dest!: insert_ledger_keeps)

lemma grant_wallet_keeps: "grant_wallet u c s = Inr (w, s') \<Longrightarrow> agent_parents s' = agent_parents s \<and> users s' = users s \<and> commissions s' = commissions s"
  by (auto simp: grant_wallet_def new_uuid_def Let_def bindE_eq_Inr insert_wallet_def split: option.splits if_splits)

lemma Grant_keeps: "GrantCommission rq a c am r op s = Inr (i, s') \<Longrightarrow> kept_forest s s'"
  by (auto simp: GrantCommission_def Let_def new_uuid_def bindE_eq_Inr set_available_def insert_adjustment_def kept_forest_def
      split: if_splits option.splits dest!: insert_ledger_keeps grant_wallet_keeps)

lemma Grant_users: "GrantCommission rq a c am r op s = Inr (i, s') \<Longrightarrow> users (ag_db s') = users (ag_db s) \<and> commissions (ag_db s') = commissions (ag_db s)"
  by (auto simp: GrantCommission_def Let_def new_uuid_def bindE_eq_Inr set_available_def insert_adjustment_def
      split: if_splits option.splits dest!: insert_ledger_keeps grant_wallet_keeps)

lemma Level_Inr:
  assumes "SetDirectPlayerLevel owner target level s = Inr s'"
  shows "\<exists>c x a d. kept_forest s (s\<lparr>ag_db := d\<rparr>) \<and> insert_audit owner ''agent.direct_player.level.update'' ''user'' c x d = Inr a \<and> s' = s\<lparr>ag_db := a\<rparr> \<and> commissions d = commissions (ag_db s)
    \<and> distinct (map u_public_id (users d)) = distinct (map u_public_id (users (ag_db s))) \<and> map u_id (users d) = map u_id (users (ag_db s))"
proof -
  have ids: "map u_id (modify P (\<lambda>x. x\<lparr>u_level := l\<rparr>) us) = map u_id us" "map u_public_id (modify P (\<lambda>x. x\<lparr>u_level := l\<rparr>) us) = map u_public_id us"
    for P l us by (simp_all add: map_modify_inv)
  have img: "u_id ` set (modify P (\<lambda>x. x\<lparr>u_level := l\<rparr>) us) = u_id ` set us" for P l us using ids(1) by (metis set_map)
  obtain u where u: "user_by_id (ag_db s) owner = Some u"
    using assms by (cases "user_by_id (ag_db s) owner") (simp_all add: SetDirectPlayerLevel_def split: if_splits)
  obtain c where c: "lookup (\<lambda>u. u_public_id u = target) (users (ag_db s)) = Some c"
    using assms u by (cases "lookup (\<lambda>u. u_public_id u = target) (users (ag_db s))") (simp_all add: SetDirectPlayerLevel_def split: if_splits)
  obtain q where q: "parent_row (ag_db s) (u_id c) = Some (Some q)"
    using assms unfolding SetDirectPlayerLevel_def if_Inl_eq_Inr u c prod.case option.case by (auto split: option.splits)
  define d where "d = (ag_db s)\<lparr>users := modify (\<lambda>x. u_id x = u_id c) (\<lambda>x. x\<lparr>u_level := (if level = 0 then None else Some level)\<rparr>) (users (ag_db s)),
      agent_rates := (if level > 0 \<and> \<not> list_ex (\<lambda>r. fst r = u_id c) (agent_rates (ag_db s))
                       then agent_rates (ag_db s) @ [(u_id c, 0)] else agent_rates (ag_db s))\<rparr>"
  obtain a where a: "insert_audit owner ''agent.direct_player.level.update'' ''user'' (u_id c)
        (PObj [(''old_level'', PInt (level_of c)), (''agent_level'', PInt level)]) d = Inr a" "s' = s\<lparr>ag_db := a\<rparr>"
    using assms unfolding SetDirectPlayerLevel_def if_Inl_eq_Inr Let_def u c q prod.case option.case bindE_eq_Inr d_def [symmetric]
    by (elim conjE exE) simp
  have "kept_forest s (s\<lparr>ag_db := d\<rparr>)" by (simp add: kept_forest_def d_def img)
  moreover have "map u_public_id (users d) = map u_public_id (users (ag_db s))" "map u_id (users d) = map u_id (users (ag_db s))"
    by (simp_all add: d_def ids)
  moreover have "commissions d = commissions (ag_db s)" by (simp add: d_def)
  ultimately show ?thesis using a by metis
qed

lemma Level_keeps:
  assumes "SetDirectPlayerLevel owner target level s = Inr s'"
  shows "kept_forest s s'"
  using Level_Inr [OF assms] by (auto simp: kept_forest_def dest!: insert_audit_keeps)

lemma ensure_users:
  assumes "ensureRealRelationUsers u p s = Inr ()" "u \<noteq> p" "distinct (map u_id (users s))"
  shows "u \<in> u_id ` set (users s) \<and> p \<in> u_id ` set (users s)"
proof -
  let ?f = "filter (\<lambda>x. u_id x = u \<or> u_id x = p) (users s)"
  have two: "length ?f = 2" using assms(1) by (auto simp: ensureRealRelationUsers_def Let_def split: if_splits)
  have d: "distinct (map u_id ?f)" using assms(3) by (simp add: distinct_map_filter)
  have "card (u_id ` set ?f) = 2" using two distinct_card [OF d] by simp
  moreover have "u_id ` set ?f \<subseteq> {u, p}" by auto
  moreover have "card {u, p} = 2" using assms(2) by simp
  ultimately have "u_id ` set ?f = {u, p}" by (intro card_subset_eq) simp_all
  then show ?thesis by auto
qed

section \<open>Properties\<close>

datatype agent_call =
    BindCall string string
  | AdminBindCall string int int
  | LevelCall string int int
  | RateCall string int string
  | ReverseCall string
  | GrantCall string string string int string string

definition agent_run :: "agent_call \<Rightarrow> agent_db \<Rightarrow> agent_db" where
  "agent_run call s =
     (case (case call of
        BindCall u p \<Rightarrow> agent_Bind u p s
      | AdminBindCall a u p \<Rightarrow> AdminBind a u p s
      | LevelCall o' t l \<Rightarrow> SetDirectPlayerLevel o' t l s
      | RateCall a r o' \<Rightarrow> SetCommissionRate a r o' s
      | ReverseCall i \<Rightarrow> bindE (ReverseCommission i (ag_db s)) (\<lambda>d. Inr (s\<lparr>ag_db := d\<rparr>))
      | GrantCall rq a c am r o' \<Rightarrow> bindE (GrantCommission rq a c am r o' s) (\<lambda>(i, s). Inr s)) of
      Inl e \<Rightarrow> s | Inr s' \<Rightarrow> s')"

definition users_keyed :: "agent_db \<Rightarrow> bool" where
  "users_keyed s \<longleftrightarrow> distinct (map u_id (users (ag_db s))) \<and> distinct (map u_public_id (users (ag_db s)))"


lemma agent_Bind_keeps:
  assumes "agent_Bind u p s = Inr s'" "forest_ok s" "users_keyed s"
  shows "forest_ok s' \<and> users_keyed s' \<and> links (ag_db s) \<subseteq> links (ag_db s')"
proof -
  have b: "bindTx u p s = Inr s'" and e: "ensureRealRelationUsers u p (ag_db s) = Inr ()" and n: "u \<noteq> p"
    using assms(1) by (auto simp: agent_Bind_def split: if_splits sum.splits)
  have us: "u \<in> u_id ` set (users (ag_db s))" "p \<in> u_id ` set (users (ag_db s))"
    using ensure_users [OF e n] assms(3) by (simp_all add: users_keyed_def)
  show ?thesis using bindTx_forest [OF assms(2) b us] bindTx_links [OF b] bindTx_Inr [OF b] assms(3) by (auto simp: users_keyed_def)
qed

lemma AdminBind_keeps:
  assumes "AdminBind a up pp s = Inr s'" "forest_ok s" "users_keyed s"
  shows "forest_ok s' \<and> users_keyed s' \<and> links (ag_db s) \<subseteq> links (ag_db s')"
proof -
  obtain u p t d where l: "lookup (\<lambda>u. u_public_id u = up) (users (ag_db s)) = Some u" "lookup (\<lambda>u. u_public_id u = pp) (users (ag_db s)) = Some p"
    and e: "ensureRealRelationUsers (u_id u) (u_id p) (ag_db s) = Inr ()" and b: "bindTx (u_id u) (u_id p) s = Inr t"
    and d: "insert_audit a ''admin.agent.bind'' ''user'' (u_id u) (PObj [(''user_id'', PInt up), (''parent_user_id'', PInt pp)]) (ag_db t) = Inr d"
    and s': "s' = t\<lparr>ag_db := d\<rparr>" and n: "up \<noteq> pp"
    using assms(1) unfolding AdminBind_def if_Inl_eq_Inr bindE_eq_Inr orErr_eq_Inr by auto
  have k: "distinct (map u_id (users (ag_db s)))" using assms(3) by (simp add: users_keyed_def)
  have "u \<noteq> p" using lookup_SomeD [OF l(1)] lookup_SomeD [OF l(2)] n by auto
  then have ne: "u_id u \<noteq> u_id p" using lookup_SomeD [OF l(1)] lookup_SomeD [OF l(2)] distinct_key_eq [OF k] by blast
  note F = bindTx_forest [OF assms(2) b ensure_users [OF e ne k, THEN conjunct1] ensure_users [OF e ne k, THEN conjunct2]]
  note q = insert_audit_keeps [OF d]
  have "kept_forest t s'" using q s' by (simp add: kept_forest_def)
  note K = kept_forest_ok [OF F this]
  show ?thesis using K bindTx_links [OF b] bindTx_Inr [OF b] q s' assms(3) by (auto simp: users_keyed_def)
qed

lemma other_keeps:
  assumes "kept_forest s s'" "forest_ok s" "users_keyed s" "map u_id (users (ag_db s')) = map u_id (users (ag_db s))"
    "map u_public_id (users (ag_db s')) = map u_public_id (users (ag_db s))"
  shows "forest_ok s' \<and> users_keyed s' \<and> links (ag_db s) \<subseteq> links (ag_db s')"
  using kept_forest_ok [OF assms(2,1)] assms(3-5) by (simp add: users_keyed_def)


lemma agent_run_keeps:
  assumes "forest_ok s" "users_keyed s"
  shows "forest_ok (agent_run call s) \<and> users_keyed (agent_run call s) \<and> links (ag_db s) \<subseteq> links (ag_db (agent_run call s))"
proof (cases call)
  case (BindCall u p)
  then show ?thesis using assms agent_Bind_keeps [OF _ assms] by (simp add: agent_run_def split: sum.splits)
next
  case (AdminBindCall a u p)
  then show ?thesis using assms AdminBind_keeps [OF _ assms] by (simp add: agent_run_def split: sum.splits)
next
  case (LevelCall o' t l)
  have "forest_ok s' \<and> users_keyed s' \<and> links (ag_db s) \<subseteq> links (ag_db s')" if r: "SetDirectPlayerLevel o' t l s = Inr s'" for s'
  proof -
    obtain c x a d where d: "insert_audit o' ''agent.direct_player.level.update'' ''user'' c x d = Inr a" "s' = s\<lparr>ag_db := a\<rparr>"
      "distinct (map u_public_id (users d)) = distinct (map u_public_id (users (ag_db s)))" "map u_id (users d) = map u_id (users (ag_db s))"
      using Level_Inr [OF r] by blast
    show ?thesis using kept_forest_ok [OF assms(1) Level_keeps [OF r]] insert_audit_keeps [OF d(1)] d(2-4) assms(2) by (simp add: users_keyed_def)
  qed
  then show ?thesis using assms LevelCall by (simp add: agent_run_def split: sum.splits)
next
  case (RateCall a r o')
  have "forest_ok s' \<and> users_keyed s' \<and> links (ag_db s) \<subseteq> links (ag_db s')" if "SetCommissionRate a r o' s = Inr s'" for s'
    using that by (intro other_keeps [OF _ assms]) (auto simp: SetCommissionRate_def kept_forest_def split: if_splits)
  then show ?thesis using assms RateCall by (simp add: agent_run_def split: sum.splits)
next
  case (ReverseCall i)
  have "forest_ok s' \<and> users_keyed s' \<and> links (ag_db s) \<subseteq> links (ag_db s')"
    if "bindE (ReverseCommission i (ag_db s)) (\<lambda>d. Inr (s\<lparr>ag_db := d\<rparr>)) = Inr s'" for s'
    using that by (intro other_keeps [OF _ assms]) (auto simp: bindE_eq_Inr kept_forest_def dest: Reverse_keeps)
  then show ?thesis using assms ReverseCall by (simp add: agent_run_def split: sum.splits)
next
  case (GrantCall rq a c am r o')
  have "forest_ok s' \<and> users_keyed s' \<and> links (ag_db s) \<subseteq> links (ag_db s')"
    if "bindE (GrantCommission rq a c am r o' s) (\<lambda>(i, s). Inr s) = Inr s'" for s'
    using that by (intro other_keeps [OF _ assms]) (auto simp: bindE_eq_Inr dest: Grant_keeps Grant_users)
  then show ?thesis using assms GrantCall by (simp add: agent_run_def split: sum.splits)
qed


text \<open>C23: Whatever Bind, AdminBind, SetDirectPlayerLevel, SetCommissionRate, ReverseCommission and GrantCommission calls run,
  refused ones included, the relations stay a forest of existing users in which the materialised path of every bound user is
  his parent's path followed by his own label, and a relation once made is never changed or removed.\<close>

theorem agent_forest:
  assumes "forest_ok s" "users_keyed s"
  shows "forest_ok (fold agent_run calls s) \<and> links (ag_db s) \<subseteq> links (ag_db (fold agent_run calls s))"
proof -
  have "forest_ok (fold agent_run calls s) \<and> users_keyed (fold agent_run calls s) \<and> links (ag_db s) \<subseteq> links (ag_db (fold agent_run calls s))"
    using assms
  proof (induction calls arbitrary: s)
    case (Cons a calls)
    note k = agent_run_keeps [OF Cons.prems, of a]
    have "forest_ok (fold agent_run calls (agent_run a s)) \<and> users_keyed (fold agent_run calls (agent_run a s))
      \<and> links (ag_db (agent_run a s)) \<subseteq> links (ag_db (fold agent_run calls (agent_run a s)))" by (rule Cons.IH) (use k in simp_all)
    then show ?case using k by (simp, blast)
  qed simp
  then show ?thesis by simp
qed


section \<open>Commissions\<close>

lemma Reverse_Inr:
  assumes "ReverseCommission i s = Inr s'" "lookup (\<lambda>c. ce_id c = i) (commissions s) = Some c"
  obtains w s1 where "ce_status c = ''paid''" "wallet_of s (ce_user c) (ce_currency c) = Some w" "ce_amount c \<le> w_available w"
    "set_available (w_id w) (wrap64 (w_available w - ce_amount c)) s = Inr s1"
    "insert_ledger (w_id w) ''commission'' i ''commission_reversal'' (wrap64 (- ce_amount c)) (wrap64 (w_available w - ce_amount c))
         (s1\<lparr>commissions := modify (\<lambda>c. ce_id c = i) (\<lambda>c. c\<lparr>ce_status := ''reversed''\<rparr>) (commissions s1)\<rparr>) = Inr s'"
  using assms unfolding ReverseCommission_def if_Inl_eq_Inr Let_def bindE_eq_Inr orErr_eq_Inr by (auto simp: not_less)

definition reversed :: "string \<Rightarrow> db \<Rightarrow> bool" where
  "reversed i s \<longleftrightarrow> (\<exists>c. lookup (\<lambda>c. ce_id c = i) (commissions s) = Some c \<and> ce_status c = ''reversed'')"

lemma reversed_refused: "reversed i s \<Longrightarrow> ReverseCommission i s = Inl (Agent ErrCommissionState)"
  by (auto simp: reversed_def ReverseCommission_def)

lemma reversed_mark:
  "lookup (\<lambda>c. ce_id c = i) (modify (\<lambda>c. ce_id c = j) (\<lambda>c. c\<lparr>ce_status := x\<rparr>) cs)
    = map_option (\<lambda>c. if i = j then c\<lparr>ce_status := x\<rparr> else c) (lookup (\<lambda>c. ce_id c = i) cs)"
  by (induction cs) auto

lemma Reverse_commissions:
  assumes "ReverseCommission i s = Inr s'"
  shows "commissions s' = modify (\<lambda>c. ce_id c = i) (\<lambda>c. c\<lparr>ce_status := ''reversed''\<rparr>) (commissions s) \<and> reversed i s'"
proof -
  obtain c where c: "lookup (\<lambda>c. ce_id c = i) (commissions s) = Some c" using assms by (auto simp: ReverseCommission_def bindE_eq_Inr orErr_eq_Inr)
  obtain w s1 where "ce_status c = ''paid''" "wallet_of s (ce_user c) (ce_currency c) = Some w" "ce_amount c \<le> w_available w"
    "set_available (w_id w) (wrap64 (w_available w - ce_amount c)) s = Inr s1"
    "insert_ledger (w_id w) ''commission'' i ''commission_reversal'' (wrap64 (- ce_amount c)) (wrap64 (w_available w - ce_amount c))
         (s1\<lparr>commissions := modify (\<lambda>c. ce_id c = i) (\<lambda>c. c\<lparr>ce_status := ''reversed''\<rparr>) (commissions s1)\<rparr>) = Inr s'"
    using assms c by (rule Reverse_Inr)
  then have "commissions s' = modify (\<lambda>c. ce_id c = i) (\<lambda>c. c\<lparr>ce_status := ''reversed''\<rparr>) (commissions s)"
    by (auto simp: set_available_def split: if_splits dest!: insert_ledger_keeps)
  then show ?thesis using c by (simp add: reversed_def reversed_mark)
qed

lemma agent_run_reversed: "reversed i (ag_db s) \<Longrightarrow> reversed i (ag_db (agent_run call s))"
proof (cases call)
  case (ReverseCall j)
  assume r: "reversed i (ag_db s)"
  show ?thesis
  proof (cases "ReverseCommission j (ag_db s)")
    case (Inr d)
    have "reversed i d"
      by (cases "i = j") (use r Reverse_commissions [OF Inr] in \<open>auto simp: reversed_def reversed_mark\<close>)
    then show ?thesis using ReverseCall Inr by (simp add: agent_run_def)
  qed (use r ReverseCall in \<open>simp add: agent_run_def\<close>)
next
  case (LevelCall o' t l)
  assume r: "reversed i (ag_db s)"
  show ?thesis
  proof (cases "SetDirectPlayerLevel o' t l s")
    case (Inr s')
    have "commissions (ag_db s') = commissions (ag_db s)" using Level_Inr [OF Inr] by (auto dest!: insert_audit_keeps)
    then show ?thesis using r LevelCall Inr by (simp add: agent_run_def reversed_def)
  qed (use r LevelCall in \<open>simp add: agent_run_def\<close>)
qed (auto simp: agent_run_def reversed_def bindE_eq_Inr agent_Bind_def SetCommissionRate_def AdminBind_def orErr_eq_Inr
     split: sum.splits if_splits dest!: bindTx_Inr Grant_users insert_audit_keeps)


lemma reversed_stays: "reversed i (ag_db s) \<Longrightarrow> reversed i (ag_db (fold agent_run calls s))"
  by (induction calls arbitrary: s) (simp_all add: agent_run_reversed)

text \<open>A successful ReverseCommission takes exactly the commission out of the wallet it was paid to, records it as one
  ledger entry, never drives the wallet below zero and keeps the books of every wallet. Whatever agent calls run afterwards,
  reversing the same commission again is refused with the state error.\<close>

theorem commission_reversed_once:
  assumes "books_ok s" "ReverseCommission i s = Inr s'" "lookup (\<lambda>c. ce_id c = i) (commissions s) = Some c" "0 \<le> ce_amount c"
  shows "books_ok s' \<and> moved_by s (ce_user c) (ce_currency c) (- ce_amount c) 0 s' \<and> new_entry s ''commission'' i (- ce_amount c) s'
    \<and> 0 \<le> balance_of s' (ce_user c) (ce_currency c)
    \<and> ReverseCommission i (ag_db (fold agent_run calls (a\<lparr>ag_db := s'\<rparr>))) = Inl (Agent ErrCommissionState)"
proof -
  obtain w s1 where "ce_status c = ''paid''" and w: "wallet_of s (ce_user c) (ce_currency c) = Some w" and le: "ce_amount c \<le> w_available w"
    and s1: "set_available (w_id w) (wrap64 (w_available w - ce_amount c)) s = Inr s1"
    and i: "insert_ledger (w_id w) ''commission'' i ''commission_reversal'' (wrap64 (- ce_amount c)) (wrap64 (w_available w - ce_amount c))
         (s1\<lparr>commissions := modify (\<lambda>c. ce_id c = i) (\<lambda>c. c\<lparr>ce_status := ''reversed''\<rparr>) (commissions s1)\<rparr>) = Inr s'"
    using assms(2,3) by (rule Reverse_Inr)
  have r: "in_range (w_available w)" using wallet_of_range [OF books_ok_wallets_ok [OF assms(1)] w] by simp
  let ?v = "w_available w - ce_amount c"
  have v: "wrap64 ?v = ?v" "wrap64 (- ce_amount c) = ?v - w_available w" "?v \<le> max_int64"
    using r le assms(4) by (simp_all add: int64_def in_range_def max_int64_def)
  have "books_ok s' \<and> moved_by s (ce_user c) (ce_currency c) (?v - w_available w) 0 s' \<and> new_entry s ''commission'' i (?v - w_available w) s'
      \<and> money_only (s1\<lparr>commissions := modify (\<lambda>c. ce_id c = i) (\<lambda>c. c\<lparr>ce_status := ''reversed''\<rparr>) (commissions s1)\<rparr>) s' \<and> 0 \<le> ?v"
    by (rule plain_posting [OF assms(1) w s1 [unfolded v(1)] v(3) _ _ i [unfolded v(1,2)]]) simp_all
  moreover from this have "0 \<le> balance_of s' (ce_user c) (ce_currency c)" using w by (simp add: moved_by_def balance_of_def)
  moreover have "reversed i (ag_db (a\<lparr>ag_db := s'\<rparr>))" using Reverse_commissions [OF assms(2)] by simp
  ultimately show ?thesis using reversed_refused [OF reversed_stays] by simp
qed


text \<open>A database of agents: nobody is bound yet, one commission was paid to alice.\<close>

definition sample_agents :: agent_db where
  "sample_agents = \<lparr>ag_db = sample_db\<lparr>user_roles := [(''bob'', ''admin'')],
       commissions := [\<lparr>ce_id = ''c1'', ce_bet = ''b1'', ce_user = ''alice'', ce_currency = ''POINTS'', ce_amount = 300, ce_status = ''paid''\<rparr>]\<rparr>,
     ag_paths = [], ag_adjustments = []\<rparr>"

lemma sample_agents_ok: "forest_ok sample_agents" "users_keyed sample_agents" "books_ok (ag_db sample_agents)"
proof -
  have l: "links (ag_db sample_agents) = {}" by (simp add: links_def parent_row_def sample_agents_def sample_db_def empty_db_def)
  then have "acyclic (links (ag_db sample_agents))" by (simp add: acyclic_def)
  moreover have "paths_ok sample_agents" using l by (simp add: paths_ok_def bound_def path_of_def sample_agents_def)
  moreover have "\<forall>u \<in> set (users (ag_db sample_agents)). plain_id (u_id u)" by code_simp
  ultimately show "forest_ok sample_agents" using l by (simp add: forest_ok_def)
  show "users_keyed sample_agents" by (simp add: users_keyed_def sample_agents_def sample_db_def)
  show "books_ok (ag_db sample_agents)" by (rule books_ok_cong [OF sample_books_ok]) (simp_all add: sample_agents_def)
qed

theorem agent_forest_witness:
  "forest_ok (fold agent_run [AdminBindCall ''bob'' 10001 10002, BindCall ''bob'' ''alice''] sample_agents)
    \<and> agent_parents (ag_db (fold agent_run [AdminBindCall ''bob'' 10001 10002, BindCall ''bob'' ''alice''] sample_agents)) = [(''alice'', Some ''bob'')]"
proof
  show "forest_ok (fold agent_run [AdminBindCall ''bob'' 10001 10002, BindCall ''bob'' ''alice''] sample_agents)"
    by (rule agent_forest [OF sample_agents_ok(1,2), THEN conjunct1])
qed code_simp

theorem commission_reversed_once_witness:
  "\<exists>s'. ReverseCommission ''c1'' (ag_db sample_agents) = Inr s' \<and> moved_by (ag_db sample_agents) ''alice'' ''POINTS'' (- 300) 0 s'
    \<and> ReverseCommission ''c1'' s' = Inl (Agent ErrCommissionState)"
proof -
  have "case ReverseCommission ''c1'' (ag_db sample_agents) of Inl e \<Rightarrow> False | Inr s' \<Rightarrow> True" by code_simp
  then obtain s' where s': "ReverseCommission ''c1'' (ag_db sample_agents) = Inr s'" by (auto split: sum.splits)
  let ?c = "\<lparr>ce_id = ''c1'', ce_bet = ''b1'', ce_user = ''alice'', ce_currency = ''POINTS'', ce_amount = 300, ce_status = ''paid''\<rparr>"
  have c: "lookup (\<lambda>c. ce_id c = ''c1'') (commissions (ag_db sample_agents)) = Some ?c" by (simp add: sample_agents_def)
  show ?thesis using commission_reversed_once [OF sample_agents_ok(3) s' c, of "[]" sample_agents] s' by simp
qed

lemma bindTx_adjustments: "bindTx u p s = Inr s' \<Longrightarrow> ag_adjustments s' = ag_adjustments s"
  using bindTx_Inr [of u p s s'] by simp

lemma Level_adjustments: "SetDirectPlayerLevel o' t l s = Inr s' \<Longrightarrow> ag_adjustments s' = ag_adjustments s"
  using Level_Inr [of o' t l s s'] by auto

lemma Grant_Inr_ex:
  assumes "GrantCommission rq a c am r op s = Inr (i, s')" "lookup (\<lambda>x. ca2_request x = rq) (ag_adjustments s) = None"
  shows "\<exists>w d d1 x. 0 < am \<and> grant_wallet a c (ag_db s) = Inr (w, d)
    \<and> set_available (w_id w) (wrap64 (w_available w + am)) (d\<lparr>next_uuid := Suc (next_uuid d)\<rparr>) = Inr d1
    \<and> ca2_id x = i \<and> ca2_request x = rq \<and> ag_adjustments s' = ag_adjustments s @ [x]
    \<and> insert_ledger (w_id w) ''commission_adjustment'' i ''commission_manual_credit'' am (wrap64 (w_available w + am)) d1 = Inr (ag_db s')"
  using assms(1) unfolding GrantCommission_def if_Inl_eq_Inr assms(2) option.case Let_def new_uuid_def bindE_eq_Inr insert_adjustment_def
  by (elim conjE exE, clarsimp simp: bindE_eq_Inr if_Inl_eq_Inr not_le simp del: in_set_conv_decomp)

lemma Grant_adjustments:
  assumes "GrantCommission rq a c am r op s = Inr (i, s')"
  shows "\<exists>xs. ag_adjustments s' = ag_adjustments s @ xs"
proof (cases "lookup (\<lambda>x. ca2_request x = rq) (ag_adjustments s)")
  case None
  then show ?thesis using Grant_Inr_ex [OF assms] by blast
next
  case (Some x)
  then show ?thesis using assms unfolding GrantCommission_def if_Inl_eq_Inr by simp
qed

lemma agent_run_adjustments: "\<exists>xs. ag_adjustments (agent_run call s) = ag_adjustments s @ xs"
  by (cases call) (auto simp: agent_run_def bindE_eq_Inr agent_Bind_def SetCommissionRate_def AdminBind_def orErr_eq_Inr
     split: sum.splits if_splits dest!: bindTx_adjustments Level_adjustments Grant_adjustments)

lemma fold_adjustments: "\<exists>xs. ag_adjustments (fold agent_run calls s) = ag_adjustments s @ xs"
proof (induction calls arbitrary: s)
  case (Cons a calls)
  obtain xs where "ag_adjustments (agent_run a s) = ag_adjustments s @ xs" using agent_run_adjustments by blast
  then show ?case using Cons [of "agent_run a s"] by auto
qed simp

lemma grant_wallet_Inr:
  assumes "grant_wallet u c s = Inr (w, t)" "books_ok s"
  shows "books_ok t \<and> moved_by s u c 0 0 t \<and> ledger t = ledger s \<and> wallet_of t u c = Some w"
proof (cases "wallet_of s u c")
  case None
  then have "wallet_row_for u c s = Inr t" "wallet_of t u c = Some w"
    using assms(1) by (auto simp: grant_wallet_def wallet_row_for_def new_uuid_def Let_def bindE_eq_Inr orErr_eq_Inr wallet_of_def)
  then show ?thesis using wallet_row_for_Inr [OF assms(2)] by simp
next
  case (Some x)
  then show ?thesis using assms by (simp add: grant_wallet_def moved_by_def)
qed

text \<open>The first GrantCommission of a request id credits exactly the granted amount to the one wallet, creating it when it
  is missing, records it in one ledger entry and keeps the books. After any further agent calls the same request answers with
  the same adjustment id and changes nothing.\<close>

theorem commission_granted_once:
  assumes "books_ok (ag_db s)" "GrantCommission rq a c am r op s = Inr (i, s')" "lookup (\<lambda>x. ca2_request x = rq) (ag_adjustments s) = None"
    and "am \<le> max_int64"
  shows "books_ok (ag_db s') \<and> moved_by (ag_db s) a c am 0 (ag_db s') \<and> new_entry (ag_db s) ''commission_adjustment'' i am (ag_db s')
    \<and> GrantCommission rq a c am r op (fold agent_run calls s') = Inr (i, fold agent_run calls s')"
proof -
  obtain w d d1 x where am: "0 < am" and w: "grant_wallet a c (ag_db s) = Inr (w, d)"
    and d1: "set_available (w_id w) (wrap64 (w_available w + am)) (d\<lparr>next_uuid := Suc (next_uuid d)\<rparr>) = Inr d1"
    and x: "ca2_id x = i" "ca2_request x = rq" "ag_adjustments s' = ag_adjustments s @ [x]"
    and l: "insert_ledger (w_id w) ''commission_adjustment'' i ''commission_manual_credit'' am (wrap64 (w_available w + am)) d1 = Inr (ag_db s')"
    using Grant_Inr_ex [OF assms(2,3)] by (elim exE conjE)
  note g = grant_wallet_Inr [OF w assms(1)]
  let ?d = "d\<lparr>next_uuid := Suc (next_uuid d)\<rparr>"
  let ?v = "w_available w + am"
  have b: "books_ok ?d" by (rule books_ok_cong [of d]) (use g in simp_all)
  have wd: "wallet_of ?d a c = Some w" using g by simp
  note r = wallet_of_range [OF books_ok_wallets_ok [OF b] wd]
  have "0 \<le> wrap64 ?v" using set_available_update [OF books_ok_wallets_ok [OF b] wd d1] by simp
  then have v: "wrap64 ?v = ?v" "?v \<le> max_int64" using frozen_sum [of "w_available w" am] r am assms(4) by simp_all
  have "books_ok (ag_db s') \<and> moved_by ?d a c (?v - w_available w) 0 (ag_db s') \<and> new_entry ?d ''commission_adjustment'' i (?v - w_available w) (ag_db s')
     \<and> money_only d1 (ag_db s') \<and> 0 \<le> ?v"
    by (rule plain_posting [OF b wd d1 [unfolded v(1)] v(2), of d1]) (use l v in simp_all)
  moreover have "moved_by ?d a c am 0 (ag_db s') = moved_by d a c am 0 (ag_db s')" by (rule moved_by_cong(1)) simp
  moreover obtain xs where "ag_adjustments (fold agent_run calls s') = ag_adjustments s' @ xs" using fold_adjustments by blast
  then have "lookup (\<lambda>y. ca2_request y = rq) (ag_adjustments (fold agent_run calls s')) = Some x" using x assms(3) by (simp add: lookup_append)
  then have "GrantCommission rq a c am r op (fold agent_run calls s') = Inr (i, fold agent_run calls s')"
    using assms(2) x(1) unfolding GrantCommission_def if_Inl_eq_Inr by simp
  ultimately show ?thesis using g by (auto simp: moved_by_def new_entry_def)
qed


theorem commission_granted_once_witness:
  "\<exists>i s'. GrantCommission ''q1'' ''bob'' ''JADE'' 70 ''bonus'' ''bob'' sample_agents = Inr (i, s')
    \<and> moved_by (ag_db sample_agents) ''bob'' ''JADE'' 70 0 (ag_db s')
    \<and> GrantCommission ''q1'' ''bob'' ''JADE'' 70 ''bonus'' ''bob'' s' = Inr (i, s')"
proof -
  have "case GrantCommission ''q1'' ''bob'' ''JADE'' 70 ''bonus'' ''bob'' sample_agents of Inl e \<Rightarrow> False | Inr r \<Rightarrow> True" by code_simp
  then obtain i s' where s': "GrantCommission ''q1'' ''bob'' ''JADE'' 70 ''bonus'' ''bob'' sample_agents = Inr (i, s')"
    by (auto split: sum.splits)
  have n: "lookup (\<lambda>x. ca2_request x = ''q1'') (ag_adjustments sample_agents) = None" by (simp add: sample_agents_def)
  show ?thesis using commission_granted_once [OF sample_agents_ok(3) s' n, of "[]"] s' by (simp add: max_int64_def)
qed

end
