(* ===== verification/Login.thy ===== *)
theory Login
  imports Agents
begin

text \<open>
  Accounts and sessions: \<^verbatim>\<open>internal/application/auth\<close> over \<^verbatim>\<open>internal/domain/identity\<close> (\<^verbatim>\<open>postgres.go\<close>, \<^verbatim>\<open>login_guard.go\<close>), wired as in
  \<^verbatim>\<open>cmd/api\<close>: with sessions, registration and login protection. The tables of accounts stand beside those of \<open>agent_db\<close>, because a
  registration also binds the player to the agent who invited him. Parameters: \<open>verify\<close> and \<open>hash\<close> are \<^verbatim>\<open>VerifyPassword\<close> and \<^verbatim>\<open>HashPassword\<close>
  (argon2), \<open>digest\<close> is \<^verbatim>\<open>hashRefreshToken\<close>, \<open>token\<close> the random refresh token of a call, \<open>parses\<close> is \<^verbatim>\<open>uuid.Parse\<close> without an error. An
  access token is the record of its claims; its JSON, Base64 and HMAC are left out. Times and durations count microseconds.
\<close>

section \<open>State\<close>

record identity_row =
  ai_user :: string
  ai_subject :: string
  ai_hash :: string

record session_row =
  se_id :: string
  se_user :: string
  se_hash :: string
  se_admin :: bool
  se_expires :: "int option"
  se_revoked :: "int option"

record guard_row =
  lg_name :: string
  lg_failures :: int
  lg_window :: int
  lg_locked :: "int option"

text \<open>Beside the rows: login names and second passwords of users, the currencies of a registration, the sequence of public ids.\<close>

record auth_db =
  au_agents :: agent_db
  au_identities :: "identity_row list"
  au_sessions :: "session_row list"
  au_guards :: "guard_row list"
  au_logins :: "(string \<times> string) list"
  au_seconds :: "(string \<times> string) list"
  au_registration :: "string list"
  au_public_next :: int

abbreviation au_db :: "auth_db \<Rightarrow> db" where
  "au_db s \<equiv> ag_db (au_agents s)"

definition set_db :: "db \<Rightarrow> auth_db \<Rightarrow> auth_db" where
  "set_db d s = s\<lparr>au_agents := (au_agents s)\<lparr>ag_db := d\<rparr>\<rparr>"

abbreviation now :: "auth_db \<Rightarrow> int" where
  "now s \<equiv> clock (au_db s)"

section \<open>login_guard.go\<close>

record LoginProtectionPolicy =
  MaxFailures :: int
  Window :: int
  Lockout :: int

definition policy_valid :: "LoginProtectionPolicy \<Rightarrow> bool" where
  "policy_valid p \<longleftrightarrow> \<not> MaxFailures p \<le> 0 \<and> \<not> (Window p \<le> 0 \<or> Lockout p \<le> 0)"

definition guard_of :: "auth_db \<Rightarrow> string \<Rightarrow> guard_row option" where
  "guard_of s name = lookup (\<lambda>g. lg_name g = name) (au_guards s)"

definition LoginBlocked :: "string \<Rightarrow> int \<Rightarrow> auth_db \<Rightarrow> bool" where
  "LoginBlocked name t s =
     (case guard_of s name of None \<Rightarrow> False | Some g \<Rightarrow> (case lg_locked g of None \<Rightarrow> False | Some until \<Rightarrow> until > t))"

definition put_guard :: "guard_row \<Rightarrow> guard_row list \<Rightarrow> guard_row list" where
  "put_guard g gs = (if list_ex (\<lambda>x. lg_name x = lg_name g) gs then modify (\<lambda>x. lg_name x = lg_name g) (\<lambda>x. g) gs else gs @ [g])"

definition RecordLoginFailure :: "string \<Rightarrow> int \<Rightarrow> LoginProtectionPolicy \<Rightarrow> auth_db \<Rightarrow> bool \<times> auth_db" where
  "RecordLoginFailure name t p s =
     (let (failures, started, locked) = (case guard_of s name of None \<Rightarrow> (0, t, None) | Some g \<Rightarrow> (lg_failures g, lg_window g, lg_locked g));
          (failures, started, locked) =
            (if (case locked of None \<Rightarrow> False | Some until \<Rightarrow> \<not> until > t) \<or> t - started \<ge> Window p then (0, t, None) else (failures, started, locked));
          failures = failures + 1;
          blocked = (case locked of None \<Rightarrow> False | Some until \<Rightarrow> until > t);
          (locked, blocked) = (if failures \<ge> MaxFailures p then (Some (t + Lockout p), True) else (locked, blocked))
      in (blocked, s\<lparr>au_guards := put_guard \<lparr>lg_name = name, lg_failures = failures, lg_window = started, lg_locked = locked\<rparr> (au_guards s)\<rparr>))"

definition ClearLoginFailures :: "string \<Rightarrow> auth_db \<Rightarrow> auth_db" where
  "ClearLoginFailures name s = s\<lparr>au_guards := filter (\<lambda>g. lg_name g \<noteq> name) (au_guards s)\<rparr>"

section \<open>access_token.go: the claims\<close>

record AccessTokenClaims =
  SessionID_claim :: string
  Subject :: string
  Roles :: "string list"
  IssuedAt :: int
  ExpiresAt :: int

definition unix :: "int \<Rightarrow> int" where
  "unix t = t div 1000000"

definition IssueAccessToken :: "nat \<Rightarrow> string \<Rightarrow> string list \<Rightarrow> int \<Rightarrow> int \<Rightarrow> string \<Rightarrow> error + AccessTokenClaims" where
  "IssueAccessToken secret subject roles issued lifetime sid =
     (if secret < 32 \<or> subject = [] \<or> lifetime < 0 then Inl (Auth ErrInvalidAccessToken)
      else if lifetime = 0 \<and> sid = [] then Inl (Auth ErrInvalidAccessToken)
      else Inr \<lparr>SessionID_claim = sid, Subject = subject, Roles = roles, IssuedAt = unix issued,
                ExpiresAt = (if lifetime > 0 then unix (issued + lifetime) else 0)\<rparr>)"

text \<open>What \<^verbatim>\<open>VerifyAccessToken\<close> asks of the claims of a token with a right signature.\<close>

definition claims_valid :: "AccessTokenClaims \<Rightarrow> int \<Rightarrow> bool" where
  "claims_valid c t \<longleftrightarrow> \<not> (Subject c = [] \<or> ExpiresAt c < 0 \<or> (ExpiresAt c > 0 \<and> ExpiresAt c \<le> unix t)
     \<or> (ExpiresAt c = 0 \<and> SessionID_claim c = []) \<or> IssuedAt c > unix t)"

definition HasRole :: "AccessTokenClaims \<Rightarrow> string list \<Rightarrow> bool" where
  "HasRole c roles = list_ex (\<lambda>wanted. list_ex (\<lambda>owned. owned = wanted) (Roles c)) roles"

section \<open>postgres.go: sessions\<close>

definition active_user :: "auth_db \<Rightarrow> string \<Rightarrow> bool" where
  "active_user s u \<longleftrightarrow> (case user_by_id (au_db s) u of None \<Rightarrow> False | Some r \<Rightarrow> u_status r = ''active'')"

definition live :: "auth_db \<Rightarrow> session_row \<Rightarrow> bool" where
  "live s e \<longleftrightarrow> se_revoked e = None \<and> (case se_expires e of None \<Rightarrow> True | Some t \<Rightarrow> t > now s)"

definition insert_session :: "session_row \<Rightarrow> auth_db \<Rightarrow> error + auth_db" where
  "insert_session e s =
     (if list_ex (\<lambda>x. se_id x = se_id e \<or> se_hash x = se_hash e \<or> (se_user x = se_user e \<and> se_revoked x = None)) (au_sessions s) then Inl (DB Unique)
      else Inr (s\<lparr>au_sessions := au_sessions s @ [e]\<rparr>))"

definition CreateSession :: "string \<Rightarrow> string \<Rightarrow> bool \<Rightarrow> int option \<Rightarrow> auth_db \<Rightarrow> error + auth_db" where
  "CreateSession user tokenHash admin expires s =
     (if \<not> active_user s user then Inl (DB NoRows)
      else let s = s\<lparr>au_sessions := modify (\<lambda>e. se_user e = user \<and> se_revoked e = None) (\<lambda>e. e\<lparr>se_revoked := Some (now s)\<rparr>) (au_sessions s)\<rparr>;
               (i, d) = new_uuid (au_db s) in
        insert_session \<lparr>se_id = i, se_user = user, se_hash = tokenHash, se_admin = admin, se_expires = expires, se_revoked = None\<rparr> (set_db d s))"

definition SessionID :: "string \<Rightarrow> auth_db \<Rightarrow> error + string" where
  "SessionID tokenHash s = bindE (orErr (DB NoRows) (lookup (\<lambda>e. se_hash e = tokenHash \<and> live s e) (au_sessions s))) (\<lambda>e. Inr (se_id e))"

definition ValidateSession :: "(string \<Rightarrow> bool) \<Rightarrow> AccessTokenClaims \<Rightarrow> auth_db \<Rightarrow> error + unit" where
  "ValidateSession parses c s =
     (if \<not> parses (SessionID_claim c) then Inl (Auth ErrInvalidAccessToken)
      else if \<not> parses (Subject c) then Inl (Auth ErrInvalidAccessToken)
      else if list_ex (\<lambda>e. se_id e = SessionID_claim c \<and> se_user e = Subject c \<and> live s e \<and> active_user s (se_user e)) (au_sessions s) then Inr ()
      else Inl (Auth ErrInvalidAccessToken))"

definition RotateSession :: "string \<Rightarrow> string \<Rightarrow> bool \<Rightarrow> int option \<Rightarrow> auth_db \<Rightarrow> error + (string \<times> auth_db)" where
  "RotateSession old new admin expires s =
     (case lookup (\<lambda>e. se_hash e = old \<and> live s e \<and> se_admin e = admin \<and> active_user s (se_user e)) (au_sessions s) of
        None \<Rightarrow> Inl (Auth ErrIdentityNotFound)
      | Some e \<Rightarrow>
          if list_ex (\<lambda>x. se_hash x = new \<and> se_id x \<noteq> se_id e) (au_sessions s) then Inl (DB Unique)
          else Inr (se_user e, s\<lparr>au_sessions := modify (\<lambda>x. se_id x = se_id e) (\<lambda>x. x\<lparr>se_hash := new, se_expires := expires\<rparr>) (au_sessions s)\<rparr>))"

definition RevokeSession :: "string \<Rightarrow> auth_db \<Rightarrow> error + auth_db" where
  "RevokeSession tokenHash s =
     (if \<not> list_ex (\<lambda>e. se_hash e = tokenHash \<and> se_revoked e = None) (au_sessions s) then Inl (Auth ErrIdentityNotFound)
      else Inr (s\<lparr>au_sessions := modify (\<lambda>e. se_hash e = tokenHash \<and> se_revoked e = None) (\<lambda>e. e\<lparr>se_revoked := Some (now s)\<rparr>) (au_sessions s)\<rparr>))"

section \<open>postgres.go: accounts\<close>

definition FindPasswordCredentials :: "string \<Rightarrow> auth_db \<Rightarrow> (string \<times> string \<times> string) option" where
  "FindPasswordCredentials name s =
     (case lookup (\<lambda>a. ai_subject a = name) (au_identities s) of None \<Rightarrow> None
      | Some a \<Rightarrow> map_option (\<lambda>u. (u_id u, u_status u, ai_hash a)) (user_by_id (au_db s) (ai_user a)))"

definition PublicUserID :: "string \<Rightarrow> auth_db \<Rightarrow> error + int" where
  "PublicUserID user s = bindE (orErr (Auth ErrIdentityNotFound) (user_by_id (au_db s) user)) (\<lambda>u. Inr (u_public_id u))"

definition InternalUserIDByPublicID :: "int \<Rightarrow> auth_db \<Rightarrow> error + string" where
  "InternalUserIDByPublicID p s =
     bindE (orErr (Auth ErrIdentityNotFound) (lookup (\<lambda>u. u_public_id u = p) (users (au_db s)))) (\<lambda>u. Inr (u_id u))"

definition UserRoles :: "string \<Rightarrow> auth_db \<Rightarrow> string list" where
  "UserRoles user s = sort_key (map code) (map snd (filter (\<lambda>r. fst r = user) (user_roles (au_db s))))"

definition PasswordHashByUserID :: "string \<Rightarrow> auth_db \<Rightarrow> error + string" where
  "PasswordHashByUserID user s = bindE (orErr (Auth ErrIdentityNotFound) (lookup (\<lambda>a. ai_user a = user) (au_identities s))) (\<lambda>a. Inr (ai_hash a))"

definition UpdatePasswordHash :: "string \<Rightarrow> string \<Rightarrow> auth_db \<Rightarrow> error + auth_db" where
  "UpdatePasswordHash user h s =
     (if \<not> list_ex (\<lambda>a. ai_user a = user) (au_identities s) then Inl (Auth ErrIdentityNotFound)
      else Inr (s\<lparr>au_identities := modify (\<lambda>a. ai_user a = user) (\<lambda>a. a\<lparr>ai_hash := h\<rparr>) (au_identities s),
                  au_sessions := filter (\<lambda>e. se_user e \<noteq> user) (au_sessions s)\<rparr>))"

definition SecondaryPasswordHashByUserID :: "string \<Rightarrow> auth_db \<Rightarrow> error + string" where
  "SecondaryPasswordHashByUserID user s =
     (case user_by_id (au_db s) user of None \<Rightarrow> Inl (Auth ErrIdentityNotFound)
      | Some u \<Rightarrow> (case lookup (\<lambda>r. fst r = user) (au_seconds s) of
           None \<Rightarrow> Inl (Auth ErrIdentityNotFound)
         | Some r \<Rightarrow> if snd r = [] then Inl (Auth ErrIdentityNotFound) else Inr (snd r)))"

definition UpdateSecondaryPasswordHash :: "string \<Rightarrow> string \<Rightarrow> auth_db \<Rightarrow> error + auth_db" where
  "UpdateSecondaryPasswordHash user h s =
     (if user_by_id (au_db s) user = None then Inl (Auth ErrIdentityNotFound)
      else Inr (s\<lparr>au_seconds := put_row user h (au_seconds s)\<rparr>))"

text \<open>\<^verbatim>\<open>INSERT INTO users(id,login_name,display_name)\<close> with the defaults of its other columns; the number comes from a sequence that
  ends at 99999. Every violated key answers as a taken login name.\<close>

definition insert_user :: "string \<Rightarrow> string \<Rightarrow> string \<Rightarrow> auth_db \<Rightarrow> error + auth_db" where
  "insert_user i loginName displayName s =
     (let p = au_public_next s; d = au_db s in
      if p > 99999 then Inl (DB OutOfRange)
      else if user_by_id d i \<noteq> None \<or> list_ex (\<lambda>r. snd r = loginName) (au_logins s) \<or> list_ex (\<lambda>u. u_public_id u = p) (users d)
      then Inl (Auth ErrLoginNameTaken)
      else Inr ((set_db (d\<lparr>users := users d @ [\<lparr>u_id = i, u_status = ''active'', u_virtual = False, u_level = None, u_public_id = p,
                   u_name = displayName, u_avatar = None\<rparr>]\<rparr>) s)\<lparr>au_logins := au_logins s @ [(i, loginName)], au_public_next := p + 1\<rparr>))"

definition insert_identity :: "string \<Rightarrow> string \<Rightarrow> string \<Rightarrow> auth_db \<Rightarrow> error + auth_db" where
  "insert_identity user subject h s =
     (if list_ex (\<lambda>a. ai_subject a = subject) (au_identities s) then Inl (Auth ErrLoginNameTaken)
      else Inr (s\<lparr>au_identities := au_identities s @ [\<lparr>ai_user = user, ai_subject = subject, ai_hash = h\<rparr>]\<rparr>))"

text \<open>The rooms of \<^verbatim>\<open>ensure_user_customer_service_rooms\<close> for a player who has none yet.\<close>

definition service_rooms :: "string \<Rightarrow> db \<Rightarrow> db" where
  "service_rooms user d =
     (let (a, d) = new_uuid d; (b, d) = new_uuid d in
      d\<lparr>chat_rooms := chat_rooms d @ [\<lparr>cr_id = a, cr_type = ''customer_service''\<rparr>, \<lparr>cr_id = b, cr_type = ''customer_service''\<rparr>],
        chat_members := chat_members d @ [(a, user), (b, user)]\<rparr>)"

fun insert_wallets :: "string \<Rightarrow> string list \<Rightarrow> db \<Rightarrow> error + db" where
  "insert_wallets user [] d = Inr d"
| "insert_wallets user (c # cs) d = (let (i, d) = new_uuid d in bindE (insert_wallet i user c d) (insert_wallets user cs))"

text \<open>The rows of a new account: the user, his password, his role, the rooms of a player and empty wallets.\<close>

definition insert_account :: "string \<Rightarrow> string \<Rightarrow> string \<Rightarrow> string \<Rightarrow> string \<Rightarrow> auth_db \<Rightarrow> error + auth_db" where
  "insert_account user loginName displayName h roleCode s =
     bindE (insert_user user loginName displayName s) (\<lambda>s.
     let (identityID, d) = new_uuid (au_db s) in
     bindE (insert_identity user loginName h (set_db d s)) (\<lambda>s.
     let d = (au_db s)\<lparr>user_roles := user_roles (au_db s) @ [(user, roleCode)]\<rparr>;
         d = (if roleCode = ''player'' then service_rooms user d else d) in
     bindE (insert_wallets user (map c_code (filter (\<lambda>c. c_enabled c \<and> c_code c \<in> set (au_registration s)) (currencies d))) d) (\<lambda>d.
     Inr (set_db d s))))"

definition insert_relation :: "string \<Rightarrow> string \<Rightarrow> string list \<Rightarrow> auth_db \<Rightarrow> error + auth_db" where
  "insert_relation user parent parentPath s =
     (let path = (if parentPath \<noteq> [] then parentPath else [path_label parent]) @ [path_label user]; a = au_agents s; d = au_db s in
      if list_ex (\<lambda>r. fst r = user) (agent_parents d) then Inl (DB Unique)
      else Inr (s\<lparr>au_agents := a\<lparr>ag_db := d\<lparr>agent_parents := agent_parents d @ [(user, Some parent)]\<rparr>,
                                  ag_paths := put_row user path (ag_paths a)\<rparr>\<rparr>))"

definition RegisterPasswordUser :: "string \<Rightarrow> string \<Rightarrow> string \<Rightarrow> string \<Rightarrow> int \<Rightarrow> auth_db \<Rightarrow> error + (string \<times> auth_db)" where
  "RegisterPasswordUser loginName displayName h roleCode invite s =
     (if invite < 10001 then Inl (Auth ErrInvitationCodeNotFound)
      else bindE (orErr (Auth ErrInvitationCodeNotFound)
             (lookup (\<lambda>u. u_public_id u = invite \<and> u_level u \<noteq> None) (users (au_db s)))) (\<lambda>parent.
      let parentPath = path_of (au_agents s) (u_id parent);
          (roleID, d) = new_uuid (au_db s); (user, d) = new_uuid d in
      bindE (insert_account user loginName displayName h roleCode (set_db d s)) (\<lambda>s.
      bindE (insert_relation user (u_id parent) parentPath s) (\<lambda>s. Inr (user, s)))))"

definition CreateFirstAdmin :: "string \<Rightarrow> string \<Rightarrow> string \<Rightarrow> auth_db \<Rightarrow> error + (string \<times> auth_db)" where
  "CreateFirstAdmin loginName displayName h s =
     (if list_ex (\<lambda>r. snd r = ''admin'') (user_roles (au_db s)) then Inl (Auth ErrAdminAlreadyExists)
      else let (roleID, d) = new_uuid (au_db s); (user, d) = new_uuid d in
      bindE (insert_user user loginName displayName (set_db d s)) (\<lambda>s.
      let (identityID, d) = new_uuid (au_db s) in
      bindE (case insert_identity user loginName h (set_db d s) of Inl e \<Rightarrow> Inl (DB Unique) | Inr s \<Rightarrow> Inr s) (\<lambda>s.
      bindE (insert_audit user ''auth.bootstrap_admin'' ''user'' user (PObj [(''login_name'', PStr loginName)])
               ((au_db s)\<lparr>user_roles := user_roles (au_db s) @ [(user, ''admin'')]\<rparr>)) (\<lambda>d.
      Inr (user, set_db d s)))))"

section \<open>display_name.go\<close>

definition utf8 :: "nat list \<Rightarrow> string" where
  "utf8 = map char_of"

definition restrictedDisplayNameTerms :: "string list" where
  "restrictedDisplayNameTerms =
    [utf8 [233, 163, 142, 228, 186, 145], utf8 [228, 184, 138, 229, 136, 134], utf8 [228, 184, 139, 229, 136, 134], utf8 [229, 174, 162, 230, 156, 141],
     utf8 [231, 174, 161, 231, 144, 134, 229, 145, 152], utf8 [231, 174, 161, 231, 144, 134], utf8 [229, 174, 152, 230, 150, 185], utf8 [229, 185, 179, 229, 143, 176],
     utf8 [231, 179, 187, 231, 187, 159], utf8 [232, 191, 144, 232, 144, 165], ''GM'', ''admin'',
     ''administrator'', ''service'', ''system'', ''official'',
     ''lulu'', utf8 [229, 186, 132, 229, 174, 182], utf8 [232, 141, 183, 229, 174, 152], utf8 [229, 141, 154, 229, 189, 169],
     utf8 [232, 181, 140], utf8 [228, 184, 139, 230, 179, 168], utf8 [231, 155, 152, 229, 143, 163], utf8 [232, 181, 148, 231, 142, 135],
     utf8 [230, 137, 147, 230, 176, 180], utf8 [230, 176, 180, 228, 189, 141], utf8 [230, 187, 154, 231, 155, 152], utf8 [228, 191, 161, 231, 148, 168, 231, 155, 152],
     utf8 [231, 142, 176, 233, 135, 145, 231, 155, 152], utf8 [229, 135, 186, 230, 172, 190], utf8 [229, 133, 165, 230, 172, 190], utf8 [229, 133, 133, 229, 128, 188],
     utf8 [229, 155, 158, 230, 148, 182], utf8 [229, 143, 152, 231, 142, 176], utf8 [232, 191, 148, 230, 176, 180], utf8 [232, 191, 148, 231, 130, 185],
     utf8 [228, 187, 163, 231, 144, 134], utf8 [230, 142, 168, 229, 185, 191], utf8 [228, 187, 163, 229, 133, 133], utf8 [229, 133, 145, 230, 141, 162],
     utf8 [230, 180, 151, 231, 160, 129], utf8 [231, 160, 129, 229, 134, 156], utf8 [232, 181, 140, 231, 144, 131], utf8 [230, 163, 139, 231, 137, 140],
     utf8 [232, 181, 140, 229, 156, 186], utf8 [229, 168, 177, 228, 185, 144, 229, 159, 142], utf8 [231, 168, 179, 232, 181, 162], utf8 [229, 191, 133, 228, 184, 173],
     utf8 [229, 140, 133, 232, 181, 162], ''root'', ''master'', ''op'',
     ''operator'', ''moderator'', ''mod'', ''manager'',
     ''help'', ''support'', ''bot'', utf8 [229, 190, 174, 228, 191, 161],
     ''wx'', ''vx'', ''qq'', utf8 [229, 138, 160, 230, 136, 145],
     utf8 [232, 129, 148, 231, 179, 187], utf8 [231, 167, 129, 232, 129, 138], utf8 [230, 137, 171, 231, 160, 129], utf8 [229, 174, 162, 230, 156, 141, 229, 143, 183],
     utf8 [229, 174, 162, 230, 156, 141, 229, 190, 174, 228, 191, 161]]"

fun go_contains :: "string \<Rightarrow> string \<Rightarrow> bool" where
  "go_contains [] sub = (sub = [])"
| "go_contains (c # cs) sub = (has_prefix (c # cs) sub \<or> go_contains cs sub)"

text \<open>\<^verbatim>\<open>ToLower\<close> as far as the terms can see: of the letters outside ASCII only the Kelvin sign and the dotted capital I have an
  ASCII lower case.\<close>

fun lower_name :: "string \<Rightarrow> string" where
  "lower_name (a # b # c # cs) =
     (if [a, b, c] = utf8 [226, 132, 170] then CHR ''k'' # lower_name cs
      else if [a, b] = utf8 [196, 176] then CHR ''i'' # lower_name (c # cs)
      else lower_char a # lower_name (b # c # cs))"
| "lower_name [a, b] = (if [a, b] = utf8 [196, 176] then ''i'' else [lower_char a, lower_char b])"
| "lower_name [a] = [lower_char a]"
| "lower_name [] = []"

definition HasRestrictedDisplayNameTerm :: "string \<Rightarrow> bool" where
  "HasRestrictedDisplayNameTerm displayName =
     (let name = trim_space displayName in
      name \<noteq> [] \<and> list_ex (\<lambda>term. go_contains (lower_name name) (to_lower term)) restrictedDisplayNameTerms)"

section \<open>service.go\<close>

record auth_service =
  as_secret :: nat
  as_ttl :: int
  as_refresh :: int
  as_permanent :: bool
  as_policy :: LoginProtectionPolicy

record LoginResult =
  AccessToken :: AccessTokenClaims
  RefreshToken :: string
  ExpiresIn :: int
  ResultUser :: string
  PublicUser :: int
  ResultRoles :: "string list"

definition sessionExpiresAt :: "auth_service \<Rightarrow> auth_db \<Rightarrow> int option" where
  "sessionExpiresAt sv s = (if as_permanent sv then None else Some (now s + as_refresh sv))"

definition accessLifetime :: "auth_service \<Rightarrow> int" where
  "accessLifetime sv = (if as_permanent sv then 0 else as_ttl sv)"

fun playerLoginAllowed :: "bool \<Rightarrow> string list \<Rightarrow> bool" where
  "playerLoginAllowed hasPlayer [] = hasPlayer"
| "playerLoginAllowed hasPlayer (r # rs) =
     (if r = ''admin'' \<or> r = ''operator'' then False else playerLoginAllowed (hasPlayer \<or> r = ''player'') rs)"

definition adminLoginAllowed :: "string list \<Rightarrow> bool" where
  "adminLoginAllowed roles = list_ex (\<lambda>r. r = ''admin'' \<or> r = ''operator'') roles"

definition audienceAllowsRoles :: "bool \<Rightarrow> string list \<Rightarrow> bool" where
  "audienceAllowsRoles admin roles = (if admin then adminLoginAllowed roles else playerLoginAllowed False roles)"

definition sessionAccessToken :: "auth_service \<Rightarrow> string \<Rightarrow> string list \<Rightarrow> string \<Rightarrow> auth_db \<Rightarrow> error + AccessTokenClaims" where
  "sessionAccessToken sv user roles h s =
     bindE (SessionID h s) (\<lambda>sid. IssueAccessToken (as_secret sv) user roles (now s) (accessLifetime sv) sid)"

text \<open>Every repository call is a transaction of its own: a later error does not undo it.\<close>

definition attachRefreshToken :: "auth_service \<Rightarrow> (string \<Rightarrow> string) \<Rightarrow> string \<Rightarrow> LoginResult \<Rightarrow> bool \<Rightarrow> auth_db \<Rightarrow> (error + LoginResult) \<times> auth_db" where
  "attachRefreshToken sv digest token res admin s =
     (if as_refresh sv \<le> 0 then (Inl (Auth ErrAuthNotConfigured), s)
      else case CreateSession (ResultUser res) (digest token) admin (sessionExpiresAt sv s) s of
        Inl e \<Rightarrow> (Inl e, s)
      | Inr s \<Rightarrow> (bindE (sessionAccessToken sv (ResultUser res) (ResultRoles res) (digest token) s) (\<lambda>c.
            Inr (res\<lparr>AccessToken := c, RefreshToken := token, ExpiresIn := accessLifetime sv div 1000000\<rparr>)), s))"

text \<open>The token that is issued before the session is replaced by the one of the session, but its errors count.\<close>

definition issue_result :: "auth_service \<Rightarrow> (string \<Rightarrow> string) \<Rightarrow> string \<Rightarrow> string \<Rightarrow> string list \<Rightarrow> bool \<Rightarrow> auth_db \<Rightarrow> (error + LoginResult) \<times> auth_db" where
  "issue_result sv digest token user roles admin s =
     (case PublicUserID user s of
        Inl e \<Rightarrow> (Inl e, s)
      | Inr p \<Rightarrow> (case IssueAccessToken (as_secret sv) user roles (now s) (as_ttl sv) [] of
          Inl e \<Rightarrow> (Inl e, s)
        | Inr c \<Rightarrow> attachRefreshToken sv digest token \<lparr>AccessToken = c, RefreshToken = [], ExpiresIn = as_ttl sv div 1000000,
              ResultUser = user, PublicUser = p, ResultRoles = roles\<rparr> admin s))"

definition recordLoginFailure :: "auth_service \<Rightarrow> string \<Rightarrow> auth_db \<Rightarrow> (error + LoginResult) \<times> auth_db" where
  "recordLoginFailure sv name s =
     (let (blocked, s) = RecordLoginFailure name (now s) (as_policy sv) s in
      (Inl (Auth (if blocked then ErrTooManyLoginAttempts else ErrInvalidCredentials)), s))"

definition auth_login :: "auth_service \<Rightarrow> (string \<Rightarrow> string \<Rightarrow> bool) \<Rightarrow> (string \<Rightarrow> string) \<Rightarrow> string \<Rightarrow> string \<Rightarrow> string \<Rightarrow> bool \<Rightarrow> auth_db
    \<Rightarrow> (error + LoginResult) \<times> auth_db" where
  "auth_login sv verify digest token loginName password admin s =
     (let name = trim_space loginName in
      if as_secret sv < 32 \<or> as_ttl sv \<le> 0 then (Inl (Auth ErrAuthNotConfigured), s)
      else if length name > 128 then (Inl (Auth ErrInvalidCredentials), s)
      else if \<not> policy_valid (as_policy sv) then (Inl (Auth ErrAuthNotConfigured), s)
      else if LoginBlocked name (now s) s then (Inl (Auth ErrTooManyLoginAttempts), s)
      else case FindPasswordCredentials name s of
        None \<Rightarrow> recordLoginFailure sv name s
      | Some (user, status, h) \<Rightarrow>
          if \<not> verify h password then recordLoginFailure sv name s
          else let s = ClearLoginFailures name s in
            if status \<noteq> ''active'' then (Inl (Auth AuthAccountDisabled), s)
            else let roles = UserRoles user s in
              if \<not> audienceAllowsRoles admin roles then (Inl (Auth ErrInvalidCredentials), s)
              else issue_result sv digest token user roles admin s)"

definition login_name_char :: "char \<Rightarrow> bool" where
  "login_name_char c \<longleftrightarrow> is_digit c \<or> (65 \<le> code c \<and> code c \<le> 90) \<or> (97 \<le> code c \<and> code c \<le> 122) \<or> c = CHR ''_'' \<or> c = CHR ''-''"

definition loginNamePattern :: "string \<Rightarrow> bool" where
  "loginNamePattern n \<longleftrightarrow> 3 \<le> length n \<and> length n \<le> 32 \<and> list_all login_name_char n"

definition auth_Register :: "auth_service \<Rightarrow> (string \<Rightarrow> string) \<Rightarrow> (string \<Rightarrow> string) \<Rightarrow> string \<Rightarrow> string \<Rightarrow> string \<Rightarrow> string \<Rightarrow> string \<Rightarrow> auth_db
    \<Rightarrow> (error + LoginResult) \<times> auth_db" where
  "auth_Register sv hash digest token loginName displayName password invitationCode s =
     (if as_secret sv < 32 \<or> as_ttl sv \<le> 0 then (Inl (Auth ErrAuthNotConfigured), s)
      else if \<not> loginNamePattern loginName then (Inl (Auth ErrInvalidLoginName), s)
      else if trim_space password = [] then (Inl (Auth ErrInvalidPassword), s)
      else if HasRestrictedDisplayNameTerm displayName then (Inl (Auth ErrRestrictedDisplayName), s)
      else case parse_int64 (trim_space invitationCode) of
        None \<Rightarrow> (Inl (Auth ErrInvalidInvitationCode), s)
      | Some invite \<Rightarrow>
          if invite < 10001 then (Inl (Auth ErrInvalidInvitationCode), s)
          else case RegisterPasswordUser loginName (if displayName = [] then loginName else displayName) (hash password) ''player'' invite s of
            Inl e \<Rightarrow> (Inl e, s)
          | Inr (user, s) \<Rightarrow> issue_result sv digest token user [''player''] False s)"

definition auth_refresh :: "auth_service \<Rightarrow> (string \<Rightarrow> string) \<Rightarrow> string \<Rightarrow> string \<Rightarrow> bool \<Rightarrow> auth_db \<Rightarrow> (error + LoginResult) \<times> auth_db" where
  "auth_refresh sv digest newToken refreshToken admin s =
     (if as_refresh sv \<le> 0 \<or> as_secret sv < 32 then (Inl (Auth ErrAuthNotConfigured), s)
      else case RotateSession (digest refreshToken) (digest newToken) admin (sessionExpiresAt sv s) s of
        Inl e \<Rightarrow> (Inl (Auth ErrInvalidRefreshToken), s)
      | Inr (user, s) \<Rightarrow>
          let roles = UserRoles user s in
          if \<not> audienceAllowsRoles admin roles
          then (Inl (Auth ErrInvalidRefreshToken), case RevokeSession (digest newToken) s of Inl e \<Rightarrow> s | Inr s \<Rightarrow> s)
          else (bindE (PublicUserID user s) (\<lambda>p.
                bindE (sessionAccessToken sv user roles (digest newToken) s) (\<lambda>c.
                Inr \<lparr>AccessToken = c, RefreshToken = newToken, ExpiresIn = accessLifetime sv div 1000000, ResultUser = user, PublicUser = p,
                      ResultRoles = roles\<rparr>)), s))"

definition auth_Logout :: "(string \<Rightarrow> string) \<Rightarrow> string \<Rightarrow> auth_db \<Rightarrow> error + auth_db" where
  "auth_Logout digest refreshToken s =
     (if refreshToken = [] then Inl (Auth ErrInvalidRefreshToken)
      else case RevokeSession (digest refreshToken) s of Inl e \<Rightarrow> Inl (Auth ErrInvalidRefreshToken) | Inr s \<Rightarrow> Inr s)"

definition ChangePassword :: "(string \<Rightarrow> string \<Rightarrow> bool) \<Rightarrow> (string \<Rightarrow> string) \<Rightarrow> string \<Rightarrow> string \<Rightarrow> string \<Rightarrow> auth_db \<Rightarrow> error + auth_db" where
  "ChangePassword verify hash user current new s =
     (if trim_space new = [] then Inl (Auth ErrInvalidPassword)
      else case PasswordHashByUserID user s of
        Inl e \<Rightarrow> Inl (Auth ErrInvalidCredentials)
      | Inr h \<Rightarrow> if \<not> verify h current then Inl (Auth ErrInvalidCredentials) else UpdatePasswordHash user (hash new) s)"

definition SetSecondaryPassword :: "(string \<Rightarrow> string) \<Rightarrow> string \<Rightarrow> string \<Rightarrow> auth_db \<Rightarrow> error + auth_db" where
  "SetSecondaryPassword hash user new s =
     (if trim_space new = [] then Inl (Auth ErrInvalidPassword)
      else case SecondaryPasswordHashByUserID user s of
        Inr h \<Rightarrow> Inl (Auth ErrSecondaryPasswordAlreadySet)
      | Inl e \<Rightarrow> if e \<noteq> Auth ErrIdentityNotFound then Inl e else UpdateSecondaryPasswordHash user (hash new) s)"

definition VerifySecondaryPassword :: "(string \<Rightarrow> string \<Rightarrow> bool) \<Rightarrow> string \<Rightarrow> string \<Rightarrow> auth_db \<Rightarrow> error + unit" where
  "VerifySecondaryPassword verify user password s =
     (case SecondaryPasswordHashByUserID user s of
        Inl e \<Rightarrow> Inl (if e = Auth ErrIdentityNotFound then Auth ErrSecondaryPasswordNotSet else Auth ErrInvalidCredentials)
      | Inr h \<Rightarrow> if \<not> verify h password then Inl (Auth ErrInvalidCredentials) else Inr ())"

definition ChangeSecondaryPassword :: "(string \<Rightarrow> string \<Rightarrow> bool) \<Rightarrow> (string \<Rightarrow> string) \<Rightarrow> string \<Rightarrow> string \<Rightarrow> string \<Rightarrow> auth_db \<Rightarrow> error + auth_db" where
  "ChangeSecondaryPassword verify hash user current new s =
     (if trim_space new = [] then Inl (Auth ErrInvalidPassword)
      else bindE (VerifySecondaryPassword verify user current s) (\<lambda>_. UpdateSecondaryPasswordHash user (hash new) s))"


section \<open>One session per user\<close>

definition sessions_ok :: "auth_db \<Rightarrow> bool" where
  "sessions_ok s \<longleftrightarrow> distinct (map se_id (au_sessions s)) \<and> distinct (map se_hash (au_sessions s))
     \<and> (\<forall>e \<in> set (au_sessions s). \<forall>f \<in> set (au_sessions s). se_user e = se_user f \<and> se_revoked e = None \<and> se_revoked f = None \<longrightarrow> e = f)"

text \<open>The digests of the tokens that still open a session.\<close>

definition open_hashes :: "auth_db \<Rightarrow> string set" where
  "open_hashes s = se_hash ` {e \<in> set (au_sessions s). se_revoked e = None}"

definition session_step :: "string set \<Rightarrow> auth_db \<Rightarrow> auth_db \<Rightarrow> bool" where
  "session_step new s s' \<longleftrightarrow> (sessions_ok s \<longrightarrow> sessions_ok s') \<and> open_hashes s' \<subseteq> open_hashes s \<union> new"

lemma session_step_same: "au_sessions s' = au_sessions s \<Longrightarrow> session_step new s s'"
  by (simp add: session_step_def sessions_ok_def open_hashes_def)

lemma session_step_trans: "session_step a s t \<Longrightarrow> session_step b t u \<Longrightarrow> session_step (a \<union> b) s u"
  unfolding session_step_def by blast

lemma session_step_mono: "session_step a s t \<Longrightarrow> a \<subseteq> b \<Longrightarrow> session_step b s t"
  unfolding session_step_def by blast

lemma set_db_sessions [simp]: "au_sessions (set_db d s) = au_sessions s" "au_db (set_db d s) = d"
  by (simp_all add: set_db_def)

definition revoke :: "(session_row \<Rightarrow> bool) \<Rightarrow> int \<Rightarrow> session_row list \<Rightarrow> session_row list" where
  "revoke P t es = modify (\<lambda>e. P e \<and> se_revoked e = None) (\<lambda>e. e\<lparr>se_revoked := Some t\<rparr>) es"

lemma revoke_facts:
  "map se_id (revoke P t es) = map se_id es" "map se_hash (revoke P t es) = map se_hash es"
  "{e \<in> set (revoke P t es). se_revoked e = None} = {e \<in> set es. se_revoked e = None \<and> \<not> P e}"
proof -
  have "filter (\<lambda>e. se_revoked e = None) (revoke P t es) = filter (\<lambda>e. se_revoked e = None \<and> \<not> P e) es" by (induction es) (auto simp: revoke_def)
  then show "{e \<in> set (revoke P t es). se_revoked e = None} = {e \<in> set es. se_revoked e = None \<and> \<not> P e}" by (metis set_filter)
qed (simp_all add: revoke_def map_modify_inv)

lemma revoke_step:
  assumes "au_sessions s' = revoke P t (au_sessions s)"
  shows "session_step {} s s'"
proof -
  have m: "{e \<in> set (au_sessions s'). se_revoked e = None} = {e \<in> set (au_sessions s). se_revoked e = None \<and> \<not> P e}"
    unfolding assms by (rule revoke_facts)
  then have "e \<in> set (au_sessions s) \<and> se_revoked e = None" if "e \<in> set (au_sessions s')" "se_revoked e = None" for e using that by blast
  then show ?thesis using m by (auto simp: session_step_def sessions_ok_def open_hashes_def revoke_facts assms)
qed

lemma CreateSession_Inr:
  assumes "CreateSession u h a x s = Inr s'"
  obtains e where "au_sessions s' = revoke (\<lambda>e. se_user e = u) (now s) (au_sessions s) @ [e]" "se_user e = u" "se_hash e = h" "se_revoked e = None"
    "\<forall>x \<in> set (au_sessions s). se_id x \<noteq> se_id e \<and> se_hash x \<noteq> h" "active_user s u" "se_admin e = a"
proof -
  define es where "es = revoke (\<lambda>e. se_user e = u) (now s) (au_sessions s)"
  define t where "t = set_db (snd (new_uuid (au_db s))) (s\<lparr>au_sessions := es\<rparr>)"
  let ?e = "\<lparr>se_id = fst (new_uuid (au_db s)), se_user = u, se_hash = h, se_admin = a, se_expires = x, se_revoked = None\<rparr>"
  have act: "active_user s u" using assms by (simp add: CreateSession_def split: if_splits)
  have i: "insert_session ?e t = Inr s'"
    using assms act by (simp add: CreateSession_def Let_def es_def revoke_def t_def case_prod_beta)
  then have s': "au_sessions s' = es @ [?e]" and n: "\<forall>x \<in> set es. se_id x \<noteq> se_id ?e \<and> se_hash x \<noteq> h"
    by (auto simp: insert_session_def t_def list_ex_iff split: if_splits)
  have "\<forall>x \<in> set (map se_id es). x \<noteq> se_id ?e" "\<forall>x \<in> set (map se_hash es). x \<noteq> h" using n by auto
  then have "\<forall>x \<in> set (au_sessions s). se_id x \<noteq> se_id ?e \<and> se_hash x \<noteq> h" unfolding es_def revoke_facts by simp
  then show thesis using that [of ?e] s' act by (simp add: es_def)
qed

lemma CreateSession_step:
  assumes "CreateSession u h a x s = Inr s'"
  shows "session_step {h} s s' \<and> (\<forall>e \<in> set (au_sessions s'). se_user e = u \<and> se_revoked e = None \<longrightarrow> se_hash e = h)"
proof -
  obtain e where s': "au_sessions s' = revoke (\<lambda>e. se_user e = u) (now s) (au_sessions s) @ [e]" "se_user e = u" "se_hash e = h" "se_revoked e = None"
    "\<forall>x \<in> set (au_sessions s). se_id x \<noteq> se_id e \<and> se_hash x \<noteq> h"
    using assms by (rule CreateSession_Inr)
  let ?es = "revoke (\<lambda>e. se_user e = u) (now s) (au_sessions s)"
  have m: "\<forall>x \<in> set ?es. se_revoked x = None \<longrightarrow> x \<in> set (au_sessions s) \<and> se_user x \<noteq> u"
    using revoke_facts(3) [of "\<lambda>e. se_user e = u" "now s" "au_sessions s"] by blast
  have "se_id e \<notin> set (map se_id ?es)" "se_hash e \<notin> set (map se_hash ?es)" using s'(3,5) unfolding revoke_facts by auto
  then have "sessions_ok s \<longrightarrow> sessions_ok s'" using s'(1,2) m unfolding sessions_ok_def by (auto simp: revoke_facts)
  moreover have "open_hashes s' \<subseteq> open_hashes s \<union> {h}" using s'(1,3) m unfolding open_hashes_def by fastforce
  ultimately show ?thesis using s' m by (auto simp: session_step_def)
qed

lemma RotateSession_step:
  assumes "RotateSession old new a x s = Inr (u, s')"
  shows "session_step {new} s s' \<and> (sessions_ok s \<and> new \<noteq> old \<longrightarrow> old \<notin> open_hashes s')"
proof -
  obtain e where e: "lookup (\<lambda>e. se_hash e = old \<and> live s e \<and> se_admin e = a \<and> active_user s (se_user e)) (au_sessions s) = Some e"
    and n: "\<forall>y \<in> set (au_sessions s). se_hash y = new \<longrightarrow> se_id y = se_id e"
    and s': "au_sessions s' = modify (\<lambda>y. se_id y = se_id e) (\<lambda>y. y\<lparr>se_hash := new, se_expires := x\<rparr>) (au_sessions s)"
    using assms by (auto simp: RotateSession_def list_ex_iff split: option.splits if_splits)
  have em: "e \<in> set (au_sessions s)" "se_hash e = old" "se_revoked e = None" using lookup_SomeD [OF e] by (simp_all add: live_def)
  have ids: "map se_id (au_sessions s') = map se_id (au_sessions s)" unfolding s' by (rule map_modify_inv) simp
  have mem: "y' \<in> set (au_sessions s') \<longleftrightarrow> (\<exists>y \<in> set (au_sessions s). y' = (if se_id y = se_id e then y\<lparr>se_hash := new, se_expires := x\<rparr> else y))" for y'
    unfolding s' set_modify by auto
  have "distinct (map se_hash (au_sessions s'))" if ok: "sessions_ok s"
  proof -
    have d: "distinct (map se_id (au_sessions s))" "distinct (map se_hash (au_sessions s))" using ok by (simp_all add: sessions_ok_def)
    have hm: "map se_hash (modify (\<lambda>y. se_id y = se_id e) (\<lambda>y. y\<lparr>se_hash := new, se_expires := x\<rparr>) es)
        = map (\<lambda>z. if se_id z = se_id e then new else se_hash z) es" for es by (induction es) auto
    have "distinct (map se_hash (modify (\<lambda>y. se_id y = se_id e) (\<lambda>y. y\<lparr>se_hash := new, se_expires := x\<rparr>) es))"
      if "distinct (map se_id es)" "distinct (map se_hash es)" "\<forall>y \<in> set es. se_hash y = new \<longrightarrow> se_id y = se_id e" for es
      using that
    proof (induction es)
      case (Cons y es)
      have hy: "se_hash y \<notin> set (map se_hash es)" and iy: "se_id y \<notin> set (map se_id es)" using Cons.prems by simp_all
      have IH: "distinct (map se_hash (modify (\<lambda>y. se_id y = se_id e) (\<lambda>y. y\<lparr>se_hash := new, se_expires := x\<rparr>) es))"
        using Cons.IH Cons.prems by simp
      show ?case
      proof (cases "se_id y = se_id e")
        case True
        then have same: "modify (\<lambda>y. se_id y = se_id e) (\<lambda>y. y\<lparr>se_hash := new, se_expires := x\<rparr>) es = es"
          using iy by (intro modify_none) force
        have "new \<notin> se_hash ` set es"
        proof
          assume "new \<in> se_hash ` set es"
          then obtain z where z: "z \<in> set es" "se_hash z = new" by blast
          then have "se_id z = se_id y" using Cons.prems(3) True by simp
          then show False using z(1) iy by (metis image_eqI set_map)
        qed
        then show ?thesis using True IH by (simp add: same)
      next
        case False
        have "se_hash y \<notin> se_hash ` set (modify (\<lambda>y. se_id y = se_id e) (\<lambda>y. y\<lparr>se_hash := new, se_expires := x\<rparr>) es)"
        proof
          assume "se_hash y \<in> se_hash ` set (modify (\<lambda>y. se_id y = se_id e) (\<lambda>y. y\<lparr>se_hash := new, se_expires := x\<rparr>) es)"
          then have "se_hash y \<in> set (map (\<lambda>z. if se_id z = se_id e then new else se_hash z) es)" unfolding set_map [symmetric] hm .
          then obtain z where z: "z \<in> set es" "se_hash y = (if se_id z = se_id e then new else se_hash z)" by auto
          show False
          proof (cases "se_id z = se_id e")
            case True
            then have "se_hash y = new" using z(2) by simp
            then show False using Cons.prems(3) False by simp
          next
            case nz: False
            then have "se_hash y = se_hash z" using z(2) by simp
            then have "se_hash y \<in> set (map se_hash es)" using z(1) by simp
            then show False using hy by simp
          qed
        qed
        then show ?thesis using False IH by simp
      qed
    qed simp
    then show ?thesis unfolding s' using d n by blast
  qed
  moreover have "\<forall>y \<in> set (au_sessions s'). \<forall>z \<in> set (au_sessions s'). se_user y = se_user z \<and> se_revoked y = None \<and> se_revoked z = None \<longrightarrow> y = z"
    if ok: "sessions_ok s"
  proof (intro ballI impI)
    fix y' z' assume y': "y' \<in> set (au_sessions s')" and z': "z' \<in> set (au_sessions s')" and same: "se_user y' = se_user z' \<and> se_revoked y' = None \<and> se_revoked z' = None"
    obtain y z where yz: "y \<in> set (au_sessions s)" "y' = (if se_id y = se_id e then y\<lparr>se_hash := new, se_expires := x\<rparr> else y)"
      "z \<in> set (au_sessions s)" "z' = (if se_id z = se_id e then z\<lparr>se_hash := new, se_expires := x\<rparr> else z)"
      using y' z' unfolding mem by blast
    have "se_user y = se_user z \<and> se_revoked y = None \<and> se_revoked z = None" using yz same by (auto split: if_splits)
    then have "y = z" using ok yz(1,3) unfolding sessions_ok_def by blast
    then show "y' = z'" using yz by simp
  qed
  ultimately have "sessions_ok s \<longrightarrow> sessions_ok s'" using ids by (simp add: sessions_ok_def)
  moreover have "open_hashes s' \<subseteq> open_hashes s \<union> {new}" unfolding open_hashes_def by (auto simp: mem split: if_splits)
  moreover have "old \<notin> open_hashes s'" if ok: "sessions_ok s" "new \<noteq> old"
  proof
    assume "old \<in> open_hashes s'"
    then obtain y' where y': "y' \<in> set (au_sessions s')" "se_hash y' = old" unfolding open_hashes_def by blast
    obtain y where y0: "y \<in> set (au_sessions s)" "y' = (if se_id y = se_id e then y\<lparr>se_hash := new, se_expires := x\<rparr> else y)"
      using y'(1) unfolding mem by blast
    have "se_id y \<noteq> se_id e" using y0(2) y'(2) ok(2) by (cases "se_id y = se_id e") simp_all
    then have y: "y \<in> set (au_sessions s)" "se_id y \<noteq> se_id e" "se_hash y = old" using y0 y'(2) by simp_all
    then have "y = e" using ok(1) em distinct_key_eq [of se_hash "au_sessions s" y e] by (simp add: sessions_ok_def)
    then show False using y by simp
  qed
  ultimately show ?thesis by (simp add: session_step_def)
qed

lemma RevokeSession_step:
  assumes "RevokeSession h s = Inr s'"
  shows "session_step {} s s' \<and> h \<notin> open_hashes s'"
proof -
  have s': "au_sessions s' = revoke (\<lambda>e. se_hash e = h) (now s) (au_sessions s)"
    using assms by (auto simp: RevokeSession_def revoke_def split: if_splits)
  have "h \<notin> open_hashes s'" unfolding open_hashes_def s' revoke_facts by auto
  then show ?thesis using revoke_step [OF s'] by simp
qed

lemma UpdatePasswordHash_step:
  assumes "UpdatePasswordHash u h s = Inr s'"
  shows "session_step {} s s' \<and> (\<forall>e \<in> set (au_sessions s'). se_user e \<noteq> u)"
proof -
  have s': "au_sessions s' = filter (\<lambda>e. se_user e \<noteq> u) (au_sessions s)" using assms by (auto simp: UpdatePasswordHash_def split: if_splits)
  then show ?thesis unfolding session_step_def sessions_ok_def open_hashes_def by (auto simp: distinct_map_filter)
qed


section \<open>The service and its sessions\<close>

lemma issue_result_step:
  assumes "issue_result sv digest token u roles admin s = (r, s')"
  shows "session_step {digest token} s s'"
    and "r = Inr res \<Longrightarrow> ResultUser res = u \<and> (\<forall>e \<in> set (au_sessions s'). se_user e = u \<and> se_revoked e = None \<longrightarrow> se_hash e = digest token)"
proof -
  have "(s' = s \<and> (\<exists>e. r = Inl e)) \<or> (\<exists>x. CreateSession u (digest token) admin x s = Inr s' \<and> (\<forall>res. r = Inr res \<longrightarrow> ResultUser res = u))"
    using assms by (auto simp: issue_result_def attachRefreshToken_def bindE_eq_Inr split: sum.splits if_splits)
  then show "session_step {digest token} s s'"
    and "r = Inr res \<Longrightarrow> ResultUser res = u \<and> (\<forall>e \<in> set (au_sessions s'). se_user e = u \<and> se_revoked e = None \<longrightarrow> se_hash e = digest token)"
    using session_step_same [of s s] CreateSession_step by auto
qed

lemma recordLoginFailure_frame:
  "au_sessions (snd (recordLoginFailure sv name s)) = au_sessions s \<and> au_agents (snd (recordLoginFailure sv name s)) = au_agents s
    \<and> (\<exists>e. fst (recordLoginFailure sv name s) = Inl e)"
  by (simp add: recordLoginFailure_def RecordLoginFailure_def Let_def case_prod_beta)

lemma auth_login_cases:
  assumes "auth_login sv verify digest token name password admin s = (r, s')"
  shows "(au_sessions s' = au_sessions s \<and> (\<exists>e. r = Inl e))
    \<or> (\<exists>u roles. audienceAllowsRoles admin roles \<and> issue_result sv digest token u roles admin (ClearLoginFailures (trim_space name) s) = (r, s'))"
  using assms recordLoginFailure_frame [of sv "trim_space name" s]
  by (auto simp: auth_login_def Let_def ClearLoginFailures_def split: if_splits option.splits prod.splits)

lemma auth_login_step:
  assumes "auth_login sv verify digest token name password admin s = (r, s')"
  shows "session_step {digest token} s s'"
    and "r = Inr res \<Longrightarrow> \<forall>e \<in> set (au_sessions s'). se_user e = ResultUser res \<and> se_revoked e = None \<longrightarrow> se_hash e = digest token"
proof -
  let ?c = "ClearLoginFailures (trim_space name) s"
  have c: "session_step {} s ?c" by (rule session_step_same) (simp add: ClearLoginFailures_def)
  have "session_step {digest token} s s' \<and> (\<forall>res. r = Inr res \<longrightarrow> (\<forall>e \<in> set (au_sessions s'). se_user e = ResultUser res \<and> se_revoked e = None \<longrightarrow> se_hash e = digest token))"
    using auth_login_cases [OF assms]
  proof (elim disjE exE conjE)
    fix e assume "au_sessions s' = au_sessions s" "r = Inl e"
    then show ?thesis using session_step_same by simp
  next
    fix u roles assume i: "issue_result sv digest token u roles admin ?c = (r, s')"
    show ?thesis using session_step_trans [OF c issue_result_step(1) [OF i]] issue_result_step(2) [OF i] by auto
  qed
  then show "session_step {digest token} s s'"
    and "r = Inr res \<Longrightarrow> \<forall>e \<in> set (au_sessions s'). se_user e = ResultUser res \<and> se_revoked e = None \<longrightarrow> se_hash e = digest token"
    by auto
qed

lemma insert_account_sessions: "insert_account u l d h rc s = Inr s' \<Longrightarrow> au_sessions s' = au_sessions s"
  unfolding insert_account_def bindE_eq_Inr Let_def case_prod_beta
  by (auto simp: insert_user_def insert_identity_def Let_def split: if_splits)

lemma insert_relation_sessions: "insert_relation u p pp s = Inr s' \<Longrightarrow> au_sessions s' = au_sessions s"
  by (auto simp: insert_relation_def Let_def split: if_splits)

lemma RegisterPasswordUser_Inr:
  assumes "RegisterPasswordUser l n h rc invite s = Inr (u, s')"
  obtains p d s1 where "lookup (\<lambda>u. u_public_id u = invite \<and> u_level u \<noteq> None) (users (au_db s)) = Some p"
    "d = snd (new_uuid (snd (new_uuid (au_db s))))" "insert_account u l n h rc (set_db d s) = Inr s1"
    "insert_relation u (u_id p) (path_of (au_agents s) (u_id p)) s1 = Inr s'"
  using assms by (auto simp: RegisterPasswordUser_def bindE_eq_Inr Let_def case_prod_beta orErr_def split: if_splits option.splits)

lemma RegisterPasswordUser_sessions:
  assumes "RegisterPasswordUser l d h rc i s = Inr (u, s')"
  shows "au_sessions s' = au_sessions s"
  using assms by (rule RegisterPasswordUser_Inr) (simp add: insert_account_sessions insert_relation_sessions)

lemma auth_Register_cases:
  defines "dn l d \<equiv> if d = [] then l else d"
  shows "(snd (auth_Register sv hash digest token l d p code0 s) = s \<and> (\<exists>e. fst (auth_Register sv hash digest token l d p code0 s) = Inl e))
    \<or> (\<exists>i u t. RegisterPasswordUser l (dn l d) (hash p) ''player'' i s = Inr (u, t)
        \<and> auth_Register sv hash digest token l d p code0 s = issue_result sv digest token u [''player''] False t)"
proof (cases "as_secret sv < 32 \<or> as_ttl sv \<le> 0 \<or> \<not> loginNamePattern l \<or> trim_space p = [] \<or> HasRestrictedDisplayNameTerm d")
  case True
  then show ?thesis by (auto simp: auth_Register_def)
next
  case ok: False
  show ?thesis
  proof (cases "parse_int64 (trim_space code0)")
    case None
    then show ?thesis using ok by (simp add: auth_Register_def)
  next
    case (Some i)
    show ?thesis
    proof (cases "i < 10001")
      case True
      then show ?thesis using ok Some by (simp add: auth_Register_def)
    next
      case False
      have r: "auth_Register sv hash digest token l d p code0 s = (case RegisterPasswordUser l (dn l d) (hash p) ''player'' i s of
            Inl e \<Rightarrow> (Inl e, s) | Inr (user, s) \<Rightarrow> issue_result sv digest token user [''player''] False s)"
        unfolding auth_Register_def dn_def [symmetric] using ok Some False by simp
      show ?thesis
      proof (cases "RegisterPasswordUser l (dn l d) (hash p) ''player'' i s")
        case (Inl e)
        then show ?thesis using r by simp
      next
        case (Inr y)
        obtain u t where y: "y = (u, t)" by (cases y)
        have "auth_Register sv hash digest token l d p code0 s = issue_result sv digest token u [''player''] False t" using r Inr y by simp
        then show ?thesis using Inr y by blast
      qed
    qed
  qed
qed

lemma auth_Register_step:
  "session_step {digest token} s (snd (auth_Register sv hash digest token l d p code0 s))"
  using auth_Register_cases [of sv hash digest token l d p code0 s]
proof (elim disjE conjE exE)
  assume "snd (auth_Register sv hash digest token l d p code0 s) = s"
  then show ?thesis using session_step_same by simp
next
  fix i u t assume t: "RegisterPasswordUser l (if d = [] then l else d) (hash p) ''player'' i s = Inr (u, t)"
    and r: "auth_Register sv hash digest token l d p code0 s = issue_result sv digest token u [''player''] False t"
  have "session_step {} s t" by (rule session_step_same) (rule RegisterPasswordUser_sessions [OF t])
  then show ?thesis using session_step_trans [OF _ issue_result_step(1) [OF surjective_pairing]] r by simp
qed

lemma auth_refresh_cases:
  assumes "auth_refresh sv digest new old admin s = (r, s')"
  shows "(s' = s \<and> (\<exists>e. r = Inl e)) \<or> (\<exists>u t. RotateSession (digest old) (digest new) admin (sessionExpiresAt sv s) s = Inr (u, t)
      \<and> (s' = t \<or> (\<exists>e. r = Inl e) \<and> RevokeSession (digest new) t = Inr s'))"
proof (cases "as_refresh sv \<le> 0 \<or> as_secret sv < 32")
  case True
  then show ?thesis using assms by (auto simp: auth_refresh_def)
next
  case go: False
  show ?thesis
  proof (cases "RotateSession (digest old) (digest new) admin (sessionExpiresAt sv s) s")
    case (Inl e)
    then show ?thesis using assms go by (auto simp: auth_refresh_def)
  next
    case (Inr y)
    obtain u t where y: "y = (u, t)" by (cases y)
    show ?thesis
    proof (cases "audienceAllowsRoles admin (UserRoles u t)")
      case True
      then show ?thesis using assms go Inr y by (simp add: auth_refresh_def Let_def)
    next
      case False
      then show ?thesis using assms go Inr y by (cases "RevokeSession (digest new) t") (auto simp: auth_refresh_def Let_def)
    qed
  qed
qed

lemma auth_refresh_step:
  assumes "auth_refresh sv digest new old admin s = (r, s')"
  shows "session_step {digest new} s s'"
    and "r = Inr res \<Longrightarrow> sessions_ok s \<Longrightarrow> digest new \<noteq> digest old \<Longrightarrow> digest old \<notin> open_hashes s'"
proof -
  have "session_step {digest new} s s' \<and> (\<forall>res. r = Inr res \<longrightarrow> sessions_ok s \<and> digest new \<noteq> digest old \<longrightarrow> digest old \<notin> open_hashes s')"
    using auth_refresh_cases [OF assms]
  proof (elim disjE conjE exE)
    assume "s' = s"
    fix e assume "r = Inl e"
    then show ?thesis using \<open>s' = s\<close> session_step_same [of s s] by simp
  next
    fix u t assume "RotateSession (digest old) (digest new) admin (sessionExpiresAt sv s) s = Inr (u, t)" "s' = t"
    then show ?thesis using RotateSession_step by blast
  next
    fix u t e assume t: "RotateSession (digest old) (digest new) admin (sessionExpiresAt sv s) s = Inr (u, t)"
      and v: "RevokeSession (digest new) t = Inr s'" and e: "r = Inl e"
    have "session_step {digest new} s t" "session_step {} t s'" using RotateSession_step [OF t] RevokeSession_step [OF v] by simp_all
    then have "session_step {digest new} s s'" using session_step_trans [of "{digest new}" s t "{}" s'] by simp
    then show ?thesis using e by simp
  qed
  then show "session_step {digest new} s s'"
    and "r = Inr res \<Longrightarrow> sessions_ok s \<Longrightarrow> digest new \<noteq> digest old \<Longrightarrow> digest old \<notin> open_hashes s'"
    by auto
qed

section \<open>Calls\<close>

record auth_env =
  ae_service :: auth_service
  ae_verify :: "string \<Rightarrow> string \<Rightarrow> bool"
  ae_hash :: "string \<Rightarrow> string"
  ae_digest :: "string \<Rightarrow> string"

datatype auth_call =
    CLogin string string string bool
  | CRegister string string string string string
  | CRefresh string string bool
  | CLogout string
  | CChangePassword string string string
  | CSetSecondary string string
  | CChangeSecondary string string string
  | CTick nat

definition or_same :: "auth_db \<Rightarrow> error + auth_db \<Rightarrow> auth_db" where
  "or_same s r = (case r of Inl e \<Rightarrow> s | Inr s' \<Rightarrow> s')"

definition auth_run :: "auth_env \<Rightarrow> auth_call \<Rightarrow> auth_db \<Rightarrow> auth_db" where
  "auth_run env call s =
     (case call of
        CLogin token name password admin \<Rightarrow> snd (auth_login (ae_service env) (ae_verify env) (ae_digest env) token name password admin s)
      | CRegister token name display password invite \<Rightarrow>
          snd (auth_Register (ae_service env) (ae_hash env) (ae_digest env) token name display password invite s)
      | CRefresh new old admin \<Rightarrow> snd (auth_refresh (ae_service env) (ae_digest env) new old admin s)
      | CLogout old \<Rightarrow> or_same s (auth_Logout (ae_digest env) old s)
      | CChangePassword user current new \<Rightarrow> or_same s (ChangePassword (ae_verify env) (ae_hash env) user current new s)
      | CSetSecondary user new \<Rightarrow> or_same s (SetSecondaryPassword (ae_hash env) user new s)
      | CChangeSecondary user current new \<Rightarrow> or_same s (ChangeSecondaryPassword (ae_verify env) (ae_hash env) user current new s)
      | CTick d \<Rightarrow> set_db ((au_db s)\<lparr>clock := now s + int d\<rparr>) s)"

text \<open>The refresh token a call draws.\<close>

definition drawn :: "auth_call \<Rightarrow> string set" where
  "drawn call = (case call of CLogin token _ _ _ \<Rightarrow> {token} | CRegister token _ _ _ _ \<Rightarrow> {token} | CRefresh new _ _ \<Rightarrow> {new} | _ \<Rightarrow> {})"

lemma auth_Logout_step: "auth_Logout digest old s = Inr s' \<Longrightarrow> session_step {} s s' \<and> digest old \<notin> open_hashes s'"
  using RevokeSession_step by (auto simp: auth_Logout_def split: if_splits sum.splits)

lemma ChangePassword_step: "ChangePassword verify hash u c n s = Inr s' \<Longrightarrow> session_step {} s s' \<and> (\<forall>e \<in> set (au_sessions s'). se_user e \<noteq> u)"
  using UpdatePasswordHash_step by (auto simp: ChangePassword_def split: if_splits sum.splits)

lemma secondary_step:
  "SetSecondaryPassword hash u n s = Inr s' \<Longrightarrow> au_sessions s' = au_sessions s"
  "ChangeSecondaryPassword verify hash u c n s = Inr s' \<Longrightarrow> au_sessions s' = au_sessions s"
  by (auto simp: SetSecondaryPassword_def ChangeSecondaryPassword_def UpdateSecondaryPasswordHash_def bindE_eq_Inr split: if_splits sum.splits)

lemma auth_run_step: "session_step (ae_digest env ` drawn call) s (auth_run env call s)"
proof (cases call)
  case (CLogin t n p a)
  then show ?thesis using auth_login_step(1) [OF surjective_pairing] by (simp add: auth_run_def drawn_def)
next
  case (CRefresh n o' a)
  then show ?thesis using auth_refresh_step(1) [OF surjective_pairing] by (simp add: auth_run_def drawn_def)
next
  case (CRegister t n d p i)
  then show ?thesis using auth_Register_step by (simp add: auth_run_def drawn_def)
next
  case (CLogout o')
  then show ?thesis using auth_Logout_step [of "ae_digest env" o' s] session_step_same [of s s]
    by (auto simp: auth_run_def drawn_def or_same_def split: sum.splits)
next
  case (CChangePassword u c n)
  then show ?thesis using ChangePassword_step [of "ae_verify env" "ae_hash env" u c n s] session_step_same [of s s]
    by (auto simp: auth_run_def drawn_def or_same_def split: sum.splits)
next
  case (CSetSecondary u n)
  then show ?thesis using secondary_step(1) [of "ae_hash env" u n s] session_step_same
    by (auto simp: auth_run_def drawn_def or_same_def split: sum.splits)
next
  case (CChangeSecondary u c n)
  then show ?thesis using secondary_step(2) [of "ae_verify env" "ae_hash env" u c n s] session_step_same
    by (auto simp: auth_run_def drawn_def or_same_def split: sum.splits)
next
  case (CTick d)
  then show ?thesis by (simp add: auth_run_def drawn_def session_step_same)
qed


section \<open>Properties of sessions\<close>

lemma auth_run_sessions:
  assumes "sessions_ok s" "h \<notin> open_hashes s" "\<forall>token \<in> drawn call. ae_digest env token \<noteq> h"
  shows "sessions_ok (auth_run env call s) \<and> h \<notin> open_hashes (auth_run env call s)"
  using auth_run_step [of env call s] assms unfolding session_step_def by blast

lemma closed_forever:
  assumes "sessions_ok s" "h \<notin> open_hashes s" "\<forall>call \<in> set calls. \<forall>token \<in> drawn call. ae_digest env token \<noteq> h"
  shows "sessions_ok (fold (auth_run env) calls s) \<and> h \<notin> open_hashes (fold (auth_run env) calls s)"
  using assms
proof (induction calls arbitrary: s)
  case (Cons c calls)
  have "sessions_ok (auth_run env c s) \<and> h \<notin> open_hashes (auth_run env c s)" by (rule auth_run_sessions) (use Cons.prems in simp_all)
  then show ?case using Cons.IH [of "auth_run env c s"] Cons.prems(3) by simp
qed simp

lemma closed_refused:
  assumes "digest old \<notin> open_hashes s" "0 < as_refresh sv" "32 \<le> as_secret sv"
  shows "auth_refresh sv digest new old admin s = (Inl (Auth ErrInvalidRefreshToken), s)"
proof -
  have "lookup (\<lambda>e. se_hash e = digest old \<and> live s e \<and> se_admin e = admin \<and> active_user s (se_user e)) (au_sessions s) = None"
    unfolding lookup_None_iff
  proof (intro ballI notI)
    fix e assume "e \<in> set (au_sessions s)" "se_hash e = digest old \<and> live s e \<and> se_admin e = admin \<and> active_user s (se_user e)"
    then have "digest old \<in> open_hashes s" unfolding open_hashes_def by (intro image_eqI [of _ _ e]) (simp_all add: live_def)
    then show False using assms(1) by simp
  qed
  then show ?thesis using assms(2,3) by (simp add: auth_refresh_def RotateSession_def)
qed

text \<open>C16: A user never has two open sessions, and no two sessions share their id or their token, whatever logins, registrations,
  refreshes, logouts and password changes run.\<close>

theorem single_session:
  assumes "sessions_ok s"
  shows "sessions_ok (fold (auth_run env) calls s)"
  using assms
proof (induction calls arbitrary: s)
  case (Cons c calls)
  have "sessions_ok (auth_run env c s)" using auth_run_step [of env c s] Cons.prems by (simp add: session_step_def)
  then show ?case using Cons.IH by simp
qed simp

text \<open>The ways a refresh token is retired: it was exchanged, it was logged out, its user logged in again or changed the password.\<close>

inductive retires :: "auth_env \<Rightarrow> string \<Rightarrow> auth_db \<Rightarrow> auth_db \<Rightarrow> bool" for env token where
  exchanged: "auth_refresh (ae_service env) (ae_digest env) new token admin s = (Inr res, t) \<Longrightarrow> ae_digest env new \<noteq> ae_digest env token \<Longrightarrow> retires env token s t"
| logged_out: "auth_Logout (ae_digest env) token s = Inr t \<Longrightarrow> retires env token s t"
| replaced: "auth_login (ae_service env) (ae_verify env) (ae_digest env) new name password admin s = (Inr res, t) \<Longrightarrow>
    ae_digest env new \<noteq> ae_digest env token \<Longrightarrow> e \<in> set (au_sessions t) \<Longrightarrow> se_hash e = ae_digest env token \<Longrightarrow> se_user e = ResultUser res \<Longrightarrow>
    retires env token s t"
| password: "ChangePassword (ae_verify env) (ae_hash env) user current new s = Inr t \<Longrightarrow>
    e \<in> set (au_sessions s) \<Longrightarrow> se_hash e = ae_digest env token \<Longrightarrow> se_user e = user \<Longrightarrow> retires env token s t"

lemma ChangePassword_sessions:
  "ChangePassword verify hash u c n s = Inr t \<Longrightarrow> au_sessions t = filter (\<lambda>e. se_user e \<noteq> u) (au_sessions s)"
  by (auto simp: ChangePassword_def UpdatePasswordHash_def split: if_splits sum.splits)

lemma retires_closed:
  assumes "retires env token s t" "sessions_ok s"
  shows "sessions_ok t \<and> ae_digest env token \<notin> open_hashes t"
  using assms
proof (induction rule: retires.induct)
  case (exchanged new admin s res t)
  then show ?case using auth_refresh_step [OF exchanged.hyps(1)] by (simp add: session_step_def)
next
  case (logged_out s t)
  then show ?case using auth_Logout_step [OF logged_out.hyps(1)] by (simp add: session_step_def)
next
  case (replaced new name password admin s res t e)
  have ok: "sessions_ok t" using auth_login_step(1) [OF replaced.hyps(1)] replaced.prems by (simp add: session_step_def)
  have "ae_digest env token \<notin> open_hashes t"
  proof
    assume "ae_digest env token \<in> open_hashes t"
    then obtain x where x: "x \<in> set (au_sessions t)" "se_revoked x = None" "se_hash x = ae_digest env token" unfolding open_hashes_def by auto
    have "distinct (map se_hash (au_sessions t))" using ok by (simp add: sessions_ok_def)
    then have "x = e" using x replaced.hyps(3,4) distinct_key_eq [of se_hash "au_sessions t" x e] by simp
    then show False using auth_login_step(2) [OF replaced.hyps(1) refl] x replaced.hyps(2,5) by metis
  qed
  then show ?case using ok by simp
next
  case (password user current new s t e)
  have ok: "sessions_ok t" using ChangePassword_step [OF password.hyps(1)] password.prems by (simp add: session_step_def)
  have "ae_digest env token \<notin> open_hashes t"
  proof
    assume "ae_digest env token \<in> open_hashes t"
    then obtain x where x: "x \<in> set (au_sessions s)" "se_user x \<noteq> user" "se_hash x = ae_digest env token"
      unfolding open_hashes_def ChangePassword_sessions [OF password.hyps(1)] by auto
    have "distinct (map se_hash (au_sessions s))" using password.prems by (simp add: sessions_ok_def)
    then have "x = e" using x password.hyps(2,3) distinct_key_eq [of se_hash "au_sessions s" x e] by simp
    then show False using x(2) password.hyps(4) by simp
  qed
  then show ?case using ok by simp
qed

text \<open>C17: A refresh token works once. After it was exchanged or logged out, or its user logged in again or changed the password, it is
  refused and changes nothing, whatever calls ran since, as long as none of them drew a token with the same digest.\<close>

theorem refresh_token_once:
  assumes "sessions_ok s" "retires env token s t" "0 < as_refresh (ae_service env)" "32 \<le> as_secret (ae_service env)"
    and "\<forall>call \<in> set calls. \<forall>fresh \<in> drawn call. ae_digest env fresh \<noteq> ae_digest env token"
  shows "auth_refresh (ae_service env) (ae_digest env) new token admin (fold (auth_run env) calls t)
    = (Inl (Auth ErrInvalidRefreshToken), fold (auth_run env) calls t)"
proof -
  have t: "sessions_ok t" "ae_digest env token \<notin> open_hashes t" using retires_closed [OF assms(2,1)] by simp_all
  have "ae_digest env token \<notin> open_hashes (fold (auth_run env) calls t)" using closed_forever [OF t assms(5)] by simp
  then show ?thesis using assms(3,4) by (rule closed_refused)
qed


section \<open>Login protection\<close>

definition configured :: "auth_service \<Rightarrow> bool" where
  "configured sv \<longleftrightarrow> 32 \<le> as_secret sv \<and> 0 < as_ttl sv \<and> policy_valid (as_policy sv)"

lemma guard_put: "guard_of (s\<lparr>au_guards := put_guard g (au_guards s)\<rparr>) n = (if n = lg_name g then Some g else guard_of s n)"
proof (cases "list_ex (\<lambda>x. lg_name x = lg_name g) (au_guards s)")
  case True
  have "lookup (\<lambda>x. lg_name x = n) (modify (\<lambda>x. lg_name x = lg_name g) (\<lambda>x. g) gs) = (if n = lg_name g then Some g else lookup (\<lambda>x. lg_name x = n) gs)"
    if "list_ex (\<lambda>x. lg_name x = lg_name g) gs \<or> n \<noteq> lg_name g" for gs using that by (induction gs) auto
  then show ?thesis using True by (simp add: guard_of_def put_guard_def)
next
  case False
  then have "lookup (\<lambda>x. lg_name x = lg_name g) (au_guards s) = None" by (auto simp: lookup_None_iff list_ex_iff)
  then show ?thesis using False by (auto simp: guard_of_def put_guard_def lookup_append split: option.splits)
qed

definition wrong_password :: "auth_env \<Rightarrow> string \<Rightarrow> string \<Rightarrow> auth_db \<Rightarrow> bool" where
  "wrong_password env name password s \<longleftrightarrow>
     (case FindPasswordCredentials (trim_space name) s of None \<Rightarrow> True | Some (u, st, h) \<Rightarrow> \<not> ae_verify env h password)"

lemma wrong_cong:
  assumes "au_identities t = au_identities s" "users (au_db t) = users (au_db s)"
  shows "wrong_password env n p t = wrong_password env n p s"
proof -
  have u: "user_by_id (au_db t) = user_by_id (au_db s)" using assms(2) by (simp add: user_by_id_def fun_eq_iff)
  show ?thesis unfolding wrong_password_def FindPasswordCredentials_def u assms(1) by simp
qed

lemma wrong_login:
  assumes "configured (ae_service env)" "length (trim_space name) \<le> 128" "wrong_password env name password s" "\<not> LoginBlocked (trim_space name) (now s) s"
  shows "auth_run env (CLogin token name password admin) s = snd (RecordLoginFailure (trim_space name) (now s) (as_policy (ae_service env)) s)"
proof -
  have "auth_login (ae_service env) (ae_verify env) (ae_digest env) token name password admin s = recordLoginFailure (ae_service env) (trim_space name) s"
    using assms by (auto simp: auth_login_def Let_def configured_def wrong_password_def split: option.splits)
  then show ?thesis by (simp add: auth_run_def recordLoginFailure_def case_prod_beta)
qed

lemma recorded_frame:
  "au_agents (snd (RecordLoginFailure n t p s)) = au_agents s \<and> au_identities (snd (RecordLoginFailure n t p s)) = au_identities s"
  by (simp add: RecordLoginFailure_def Let_def case_prod_beta)

text \<open>An attempt: some time passes, then a login.\<close>

definition attempt_login :: "auth_env \<Rightarrow> string \<Rightarrow> nat \<times> string \<times> string \<times> bool \<Rightarrow> auth_db \<Rightarrow> auth_db" where
  "attempt_login env name a s = (case a of (d, token, password, admin) \<Rightarrow> auth_run env (CLogin token name password admin) (auth_run env (CTick d) s))"

definition locked_at :: "LoginProtectionPolicy \<Rightarrow> int \<Rightarrow> int \<Rightarrow> int option" where
  "locked_at p k t = (if k \<ge> MaxFailures p then Some (t + Lockout p) else None)"

lemma tick_simps [simp]:
  "au_identities (auth_run env (CTick d) s) = au_identities s" "users (au_db (auth_run env (CTick d) s)) = users (au_db s)"
  "now (auth_run env (CTick d) s) = now s + int d" "guard_of (auth_run env (CTick d) s) n = guard_of s n"
  by (simp_all add: auth_run_def set_db_def guard_of_def)

lemma attempt_first:
  assumes "configured (ae_service env)" "length (trim_space name) \<le> 128" "wrong_password env name (fst (snd (snd a))) s" "guard_of s (trim_space name) = None"
  defines "s' \<equiv> attempt_login env name a s"
  shows "guard_of s' (trim_space name) = Some \<lparr>lg_name = trim_space name, lg_failures = 1, lg_window = now s', lg_locked = locked_at (as_policy (ae_service env)) 1 (now s')\<rparr>
    \<and> au_identities s' = au_identities s \<and> users (au_db s') = users (au_db s) \<and> now s' = now s + int (fst a)"
proof -
  obtain d token password admin where a: "a = (d, token, password, admin)" by (cases a)
  let ?t = "auth_run env (CTick d) s"
  have w: "wrong_password env name password ?t" using assms(3) a wrong_cong [of ?t s] by simp
  have b: "\<not> LoginBlocked (trim_space name) (now ?t) ?t" using assms(4) by (simp add: LoginBlocked_def)
  have s': "s' = snd (RecordLoginFailure (trim_space name) (now ?t) (as_policy (ae_service env)) ?t)"
    unfolding s'_def a attempt_login_def prod.case by (rule wrong_login [OF assms(1,2) w b])
  have v: "policy_valid (as_policy (ae_service env))" using assms(1) by (simp add: configured_def)
  have "now s' = now ?t" unfolding s' using recorded_frame by metis
  moreover have "guard_of s' (trim_space name) = Some \<lparr>lg_name = trim_space name, lg_failures = 1, lg_window = now ?t, lg_locked = locked_at (as_policy (ae_service env)) 1 (now ?t)\<rparr>"
    unfolding s' using assms(4) v by (simp add: RecordLoginFailure_def guard_put locked_at_def policy_valid_def)
  ultimately show ?thesis using recorded_frame [of "trim_space name" "now ?t" "as_policy (ae_service env)" ?t] a by (simp add: s')
qed

lemma attempt_next:
  assumes "configured (ae_service env)" "length (trim_space name) \<le> 128" "wrong_password env name (fst (snd (snd a))) s"
    and "guard_of s (trim_space name) = Some \<lparr>lg_name = trim_space name, lg_failures = k, lg_window = t1, lg_locked = None\<rparr>"
    and "now s + int (fst a) - t1 < Window (as_policy (ae_service env))"
  defines "s' \<equiv> attempt_login env name a s"
  shows "guard_of s' (trim_space name) = Some \<lparr>lg_name = trim_space name, lg_failures = k + 1, lg_window = t1, lg_locked = locked_at (as_policy (ae_service env)) (k + 1) (now s')\<rparr>
    \<and> au_identities s' = au_identities s \<and> users (au_db s') = users (au_db s) \<and> now s' = now s + int (fst a)"
proof -
  obtain d token password admin where a: "a = (d, token, password, admin)" by (cases a)
  let ?t = "auth_run env (CTick d) s"
  have w: "wrong_password env name password ?t" using assms(3) a wrong_cong [of ?t s] by simp
  have b: "\<not> LoginBlocked (trim_space name) (now ?t) ?t" using assms(4) by (simp add: LoginBlocked_def)
  have s': "s' = snd (RecordLoginFailure (trim_space name) (now ?t) (as_policy (ae_service env)) ?t)"
    unfolding s'_def a attempt_login_def prod.case by (rule wrong_login [OF assms(1,2) w b])
  have "now s' = now ?t" unfolding s' using recorded_frame by metis
  moreover have "guard_of s' (trim_space name) = Some \<lparr>lg_name = trim_space name, lg_failures = k + 1, lg_window = t1, lg_locked = locked_at (as_policy (ae_service env)) (k + 1) (now ?t)\<rparr>"
    unfolding s' using assms(4,5) a by (simp add: RecordLoginFailure_def guard_put locked_at_def)
  ultimately show ?thesis using recorded_frame [of "trim_space name" "now ?t" "as_policy (ae_service env)" ?t] a by (simp add: s')
qed

lemma attempts_guard:
  assumes "configured (ae_service env)" "length (trim_space name) \<le> 128" "\<forall>a \<in> set as. wrong_password env name (fst (snd (snd a))) s"
    and "guard_of s (trim_space name) = Some \<lparr>lg_name = trim_space name, lg_failures = k, lg_window = t1, lg_locked = locked_at (as_policy (ae_service env)) k (now s)\<rparr>"
    and "now s + int (sum_list (map fst as)) - t1 < Window (as_policy (ae_service env))"
    and "k + int (length as) \<le> MaxFailures (as_policy (ae_service env))"
  defines "s' \<equiv> fold (attempt_login env name) as s"
  shows "guard_of s' (trim_space name) = Some \<lparr>lg_name = trim_space name, lg_failures = k + int (length as), lg_window = t1,
    lg_locked = locked_at (as_policy (ae_service env)) (k + int (length as)) (now s')\<rparr>"
  using assms(3-6) unfolding s'_def
proof (induction "as" arbitrary: s k)
  case (Cons a "as")
  let ?t = "attempt_login env name a s"
  have "lg_locked (the (guard_of s (trim_space name))) = None" using Cons.prems(2,4) by (simp add: locked_at_def)
  then have g: "guard_of s (trim_space name) = Some \<lparr>lg_name = trim_space name, lg_failures = k, lg_window = t1, lg_locked = None\<rparr>"
    using Cons.prems(2) by simp
  have n: "guard_of ?t (trim_space name) = Some \<lparr>lg_name = trim_space name, lg_failures = k + 1, lg_window = t1,
      lg_locked = locked_at (as_policy (ae_service env)) (k + 1) (now ?t)\<rparr>
    \<and> au_identities ?t = au_identities s \<and> users (au_db ?t) = users (au_db s) \<and> now ?t = now s + int (fst a)"
    by (rule attempt_next [OF assms(1,2) _ g]) (use Cons.prems(1,3) in auto)
  have "guard_of (fold (attempt_login env name) as ?t) (trim_space name) = Some \<lparr>lg_name = trim_space name, lg_failures = k + 1 + int (length as), lg_window = t1,
    lg_locked = locked_at (as_policy (ae_service env)) (k + 1 + int (length as)) (now (fold (attempt_login env name) as ?t))\<rparr>"
  proof (rule Cons.IH)
    show "\<forall>a \<in> set as. wrong_password env name (fst (snd (snd a))) ?t" using Cons.prems(1) n wrong_cong [of ?t s] by auto
  qed (use Cons.prems(3,4) n in auto)
  then show ?case by (simp add: algebra_simps)
qed simp

lemma attempts_from_none:
  assumes "configured (ae_service env)" "length (trim_space name) \<le> 128" "\<forall>x \<in> set (a # as). wrong_password env name (fst (snd (snd x))) s"
    and "guard_of s (trim_space name) = None" "int (sum_list (map fst as)) < Window (as_policy (ae_service env))"
    and "int (length (a # as)) \<le> MaxFailures (as_policy (ae_service env))"
  defines "t \<equiv> fold (attempt_login env name) (a # as) s"
  shows "\<exists>w. guard_of t (trim_space name) = Some \<lparr>lg_name = trim_space name, lg_failures = int (length (a # as)), lg_window = w,
    lg_locked = locked_at (as_policy (ae_service env)) (int (length (a # as))) (now t)\<rparr>"
proof -
  let ?t = "attempt_login env name a s"
  have f: "guard_of ?t (trim_space name) = Some \<lparr>lg_name = trim_space name, lg_failures = 1, lg_window = now ?t,
      lg_locked = locked_at (as_policy (ae_service env)) 1 (now ?t)\<rparr>
    \<and> au_identities ?t = au_identities s \<and> users (au_db ?t) = users (au_db s) \<and> now ?t = now s + int (fst a)"
    by (rule attempt_first [OF assms(1,2) _ assms(4)]) (use assms(3) in simp)
  have w: "\<forall>x \<in> set as. wrong_password env name (fst (snd (snd x))) ?t" using assms(3) f wrong_cong [of ?t s] by auto
  have "guard_of (fold (attempt_login env name) as ?t) (trim_space name) = Some \<lparr>lg_name = trim_space name, lg_failures = 1 + int (length as),
      lg_window = now ?t, lg_locked = locked_at (as_policy (ae_service env)) (1 + int (length as)) (now (fold (attempt_login env name) as ?t))\<rparr>"
    by (rule attempts_guard [OF assms(1,2) w]) (use f assms(5,6) in auto)
  then show ?thesis unfolding t_def by simp
qed

text \<open>C15: Wrong passwords lock a login name. The first \<open>MaxFailures - 1\<close> wrong attempts within the window leave it open, the next one locks
  it, and until the lockout is over every login of that name, with the right password too, is refused as too many attempts and changes
  nothing.\<close>

theorem login_lockout:
  assumes "configured (ae_service env)" "length (trim_space name) \<le> 128"
    and "\<forall>a \<in> set as. wrong_password env name (fst (snd (snd a))) s" "guard_of s (trim_space name) = None"
    and "int (sum_list (map fst (tl as))) < Window (as_policy (ae_service env))" "as \<noteq> []"
    and t: "t = fold (attempt_login env name) as s"
  shows "(int (length as) < MaxFailures (as_policy (ae_service env)) \<longrightarrow> \<not> LoginBlocked (trim_space name) (now t) t)
    \<and> (int (length as) = MaxFailures (as_policy (ae_service env)) \<longrightarrow> int d < Lockout (as_policy (ae_service env)) \<longrightarrow>
        auth_login (ae_service env) (ae_verify env) (ae_digest env) token name password admin (auth_run env (CTick d) t)
          = (Inl (Auth ErrTooManyLoginAttempts), auth_run env (CTick d) t))"
proof (cases "int (length as) \<le> MaxFailures (as_policy (ae_service env))")
  case True
  obtain a bs where as: "as = a # bs" using assms(6) by (cases "as") auto
  obtain w where g: "guard_of t (trim_space name) = Some \<lparr>lg_name = trim_space name, lg_failures = int (length as), lg_window = w,
      lg_locked = locked_at (as_policy (ae_service env)) (int (length as)) (now t)\<rparr>"
    using attempts_from_none [OF assms(1,2), of a bs s] assms(3-5) True unfolding t as by auto
  then show ?thesis using assms(1,2) by (auto simp: LoginBlocked_def locked_at_def auth_login_def configured_def Let_def)
qed auto


section \<open>Registration\<close>

lemma insert_wallets_Inr:
  assumes "books_ok d" "insert_wallets u cs d = Inr d'"
  shows "books_ok d' \<and> money_only d d' \<and> ledger d' = ledger d \<and> (\<forall>v c. balance_of d' v c = balance_of d v c)"
  using assms
proof (induction cs arbitrary: d)
  case (Cons c cs)
  let ?t = "d\<lparr>next_uuid := Suc (next_uuid d)\<rparr>"
  obtain e where e: "insert_wallet (uuids d (next_uuid d)) u c ?t = Inr e" "insert_wallets u cs e = Inr d'"
    using Cons.prems(2) by (auto simp: new_uuid_def bindE_eq_Inr)
  have b: "books (\<lambda>_. (0, 0)) ?t" using books_ok_cong [OF Cons.prems(1), of ?t] by (simp add: books_ok_def)
  have "books_ok e" using books_insert_wallet [OF b e(1)] by (simp add: books_ok_def)
  moreover have "balance_of e v x = balance_of d v x" for v x
    using e(1) by (auto simp: insert_wallet_def balance_of_def wallet_of_def lookup_append split: if_splits option.splits)
  moreover have "money_only d e \<and> ledger e = ledger d" using e(1) by (auto simp: insert_wallet_def money_only_def split: if_splits)
  ultimately show ?case using Cons.IH [OF _ e(2)] money_only_trans by (metis (no_types, lifting))
qed (simp add: money_only_def)

lemma insert_user_Inr:
  assumes "insert_user i l n s = Inr s'"
  shows "user_by_id (au_db s) i = None \<and> au_identities s' = au_identities s \<and> ag_paths (au_agents s') = ag_paths (au_agents s)
    \<and> au_registration s' = au_registration s
    \<and> au_db s' = (au_db s)\<lparr>users := users (au_db s) @ [\<lparr>u_id = i, u_status = ''active'', u_virtual = False, u_level = None,
        u_public_id = au_public_next s, u_name = n, u_avatar = None\<rparr>]\<rparr>"
  using assms by (auto simp: insert_user_def Let_def set_db_def split: if_splits)

lemma insert_identity_Inr:
  assumes "insert_identity u l h s = Inr s'"
  shows "lookup (\<lambda>a. ai_subject a = l) (au_identities s') = Some \<lparr>ai_user = u, ai_subject = l, ai_hash = h\<rparr> \<and> au_agents s' = au_agents s"
proof -
  have n: "lookup (\<lambda>a. ai_subject a = l) (au_identities s) = None" using assms by (auto simp: insert_identity_def list_ex_iff lookup_None_iff split: if_splits)
  show ?thesis using assms n by (auto simp: insert_identity_def lookup_append split: if_splits)
qed

lemma service_rooms_frame:
  "wallets (service_rooms u d) = wallets d \<and> ledger (service_rooms u d) = ledger d \<and> users (service_rooms u d) = users d
    \<and> user_roles (service_rooms u d) = user_roles d \<and> agent_parents (service_rooms u d) = agent_parents d"
  by (simp add: service_rooms_def new_uuid_def Let_def)

lemma insert_account_Inr:
  assumes "insert_account u l n h rc s = Inr s'" "books_ok (au_db s)"
  shows "user_by_id (au_db s) u = None \<and> books_ok (au_db s') \<and> (\<forall>v c. balance_of (au_db s') v c = balance_of (au_db s) v c)
    \<and> users (au_db s') = users (au_db s) @ [\<lparr>u_id = u, u_status = ''active'', u_virtual = False, u_level = None,
        u_public_id = au_public_next s, u_name = n, u_avatar = None\<rparr>]
    \<and> user_roles (au_db s') = user_roles (au_db s) @ [(u, rc)] \<and> agent_parents (au_db s') = agent_parents (au_db s)
    \<and> ag_paths (au_agents s') = ag_paths (au_agents s)
    \<and> lookup (\<lambda>a. ai_subject a = l) (au_identities s') = Some \<lparr>ai_user = u, ai_subject = l, ai_hash = h\<rparr>"
proof -
  obtain s1 s2 d2 d3 where s1: "insert_user u l n s = Inr s1" and s2: "insert_identity u l h (set_db (snd (new_uuid (au_db s1))) s1) = Inr s2"
    and d2: "d2 = (let d = (au_db s2)\<lparr>user_roles := user_roles (au_db s2) @ [(u, rc)]\<rparr> in if rc = ''player'' then service_rooms u d else d)"
    and d3: "insert_wallets u (map c_code (filter (\<lambda>c. c_enabled c \<and> c_code c \<in> set (au_registration s2)) (currencies d2))) d2 = Inr d3"
    and s': "s' = set_db d3 s2"
    using assms(1) unfolding insert_account_def bindE_eq_Inr Let_def case_prod_beta sum.inject by blast
  note i1 = insert_user_Inr [OF s1] and i2 = insert_identity_Inr [OF s2]
  have f2: "wallets d2 = wallets (au_db s) \<and> ledger d2 = ledger (au_db s) \<and> user_roles d2 = user_roles (au_db s) @ [(u, rc)]
    \<and> agent_parents d2 = agent_parents (au_db s) \<and> users d2 = users (au_db s1)"
    using i1 i2 unfolding d2 Let_def by (simp add: new_uuid_def set_db_def service_rooms_frame)
  have "books_ok d2" using books_ok_cong [OF assms(2)] f2 by simp
  note w = insert_wallets_Inr [OF this d3]
  then have mo: "money_only d2 d3" by simp
  have m: "users d3 = users d2" "user_roles d3 = user_roles d2" "agent_parents d3 = agent_parents d2" using money_onlyD [OF mo] by simp_all
  have "balance_of d2 = balance_of (au_db s)" using f2 by (simp add: balance_of_def wallet_of_def fun_eq_iff)
  then show ?thesis using w m f2 i1 i2 by (simp add: s' set_db_def)
qed

lemma insert_relation_Inr:
  assumes "insert_relation u p pp s = Inr s'"
  shows "parent_row (au_db s) u = None \<and> links (au_db s') = insert (u, p) (links (au_db s)) \<and> au_identities s' = au_identities s
    \<and> (\<forall>i. path_of (au_agents s') i = (if i = u then (if pp \<noteq> [] then pp else [path_label p]) @ [path_label u] else path_of (au_agents s) i))
    \<and> users (au_db s') = users (au_db s) \<and> user_roles (au_db s') = user_roles (au_db s) \<and> wallets (au_db s') = wallets (au_db s)
    \<and> ledger (au_db s') = ledger (au_db s)"
proof -
  have r: "parent_row (au_db s) u = None" and a: "agent_parents (au_db s') = agent_parents (au_db s) @ [(u, Some p)]"
    using assms by (auto simp: insert_relation_def Let_def parent_row_def lookup_None_iff list_ex_iff split: if_splits)
  have "parent_row (au_db s') i = (if i = u then Some (Some p) else parent_row (au_db s) i)" for i
    using r unfolding parent_row_def a by (simp add: lookup_append split: option.splits)
  then have "links (au_db s') = insert (u, p) (links (au_db s))" using r by (auto simp: links_def split: if_splits)
  then show ?thesis using assms r by (auto simp: insert_relation_def Let_def path_of_def lookup_put_row split: if_splits)
qed

lemma forest_new_leaf:
  assumes ok: "forest_ok s" and p: "p \<in> u_id ` set (users (ag_db s))" and u: "u \<notin> u_id ` set (users (ag_db s))" "plain_id u"
    and ids: "u_id ` set (users (ag_db s')) = insert u (u_id ` set (users (ag_db s)))"
    and L: "links (ag_db s') = insert (u, p) (links (ag_db s))"
    and W: "\<And>i. path_of s' i = (if i = u then (if path_of s p \<noteq> [] then path_of s p else [path_label p]) @ [path_label u] else path_of s i)"
  shows "forest_ok s'"
proof -
  have A: "acyclic (links (ag_db s))" and P: "paths_ok s" and plain: "\<forall>i \<in> u_id ` set (users (ag_db s)). plain_id i" using ok by (simp_all add: forest_ok_def)
  have ends: "(i, j) \<in> links (ag_db s) \<Longrightarrow> i \<noteq> u \<and> j \<noteq> u" for i j using ok u(1) by (auto simp: forest_ok_def)
  have pu: "p \<noteq> u" using p u(1) by blast
  have "(p, u) \<notin> (links (ag_db s))\<^sup>*" using pu ends by (metis rtranclE)
  then have A': "acyclic (links (ag_db s'))" using A L by (simp add: acyclic_insert)
  have bd: "bound s' i \<longleftrightarrow> i = u \<or> bound s i" for i using L by (auto simp: bound_def)
  have ne: "path_of s i \<noteq> [] \<longleftrightarrow> bound s i" for i using P unfolding paths_ok_def by (metis append_is_Nil_conv not_Cons_self2)
  have paths: "paths_ok s'"
    unfolding paths_ok_def
  proof (intro allI)
    fix v
    show "if bound s' v then \<exists>q. (v, q) \<in> links (ag_db s') \<and> path_of s' v = (if bound s' q then path_of s' q else [path_label q]) @ [path_label v]
      else path_of s' v = []"
    proof (cases "bound s' v")
      case False
      then show ?thesis using W [of v] bd [of v] ne [of v] by simp
    next
      case b: True
      show ?thesis
      proof (cases "v = u")
        case True
        then show ?thesis using b L W [of u] W [of p] pu bd [of p] ne [of p] by auto
      next
        case False
        then obtain q where q: "(v, q) \<in> links (ag_db s)" "path_of s v = (if bound s q then path_of s q else [path_label q]) @ [path_label v]"
          using P b bd unfolding paths_ok_def by meson
        then show ?thesis using b L False W [of v] W [of q] bd [of q] ends [OF q(1)] by auto
      qed
    qed
  qed
  have "\<forall>i \<in> u_id ` set (users (ag_db s')). plain_id i" unfolding ids using plain u(2) by simp
  then have "\<forall>i \<in> set (users (ag_db s')). plain_id (u_id i)" by simp
  moreover have "i \<in> u_id ` set (users (ag_db s')) \<and> j \<in> u_id ` set (users (ag_db s'))" if "(i, j) \<in> links (ag_db s')" for i j
    using that p ok unfolding L ids forest_ok_def by blast
  ultimately show ?thesis using A' paths unfolding forest_ok_def by blast
qed

text \<open>C18: A registration makes one new active player beneath the agent whose invitation number he gave, with the role, the login name and the
  password asked for. The relations stay a forest with right paths, the books stay balanced and no balance changes.\<close>

theorem registration:
  assumes "RegisterPasswordUser l n h rc invite s = Inr (u, s')" "books_ok (au_db s)" "forest_ok (au_agents s)" "plain_id u"
  shows "\<exists>p \<in> set (users (au_db s)). u_public_id p = invite \<and> u_level p \<noteq> None \<and> links (au_db s') = insert (u, u_id p) (links (au_db s))
    \<and> user_by_id (au_db s) u = None \<and> FindPasswordCredentials l s' = Some (u, ''active'', h) \<and> rc \<in> set (UserRoles u s')
    \<and> forest_ok (au_agents s') \<and> books_ok (au_db s') \<and> (\<forall>v c. balance_of (au_db s') v c = balance_of (au_db s) v c)"
proof -
  obtain p d s1 where p: "lookup (\<lambda>u. u_public_id u = invite \<and> u_level u \<noteq> None) (users (au_db s)) = Some p"
    and d: "d = snd (new_uuid (snd (new_uuid (au_db s))))" and s1: "insert_account u l n h rc (set_db d s) = Inr s1"
    and r: "insert_relation u (u_id p) (path_of (au_agents s) (u_id p)) s1 = Inr s'"
    using assms(1) by (rule RegisterPasswordUser_Inr)
  have z: "wallets d = wallets (au_db s)" "ledger d = ledger (au_db s)" "users d = users (au_db s)" "user_roles d = user_roles (au_db s)"
    "agent_parents d = agent_parents (au_db s)" by (simp_all add: d new_uuid_def)
  have "books_ok d" using books_ok_cong [OF assms(2)] z by simp
  note A = insert_account_Inr [OF s1, simplified set_db_sessions, OF \<open>books_ok d\<close>]
  note R = insert_relation_Inr [OF r] and P = lookup_SomeD [OF p]
  have new: "user_by_id (au_db s) u = None" using A z by (simp add: user_by_id_def)
  then have out: "u \<notin> u_id ` set (users (au_db s))" by (auto simp: user_by_id_def lookup_None_iff)
  have L: "links (au_db s') = insert (u, u_id p) (links (au_db s))" using R A z by (simp add: links_def parent_row_def)
  have "forest_ok (au_agents s')"
    by (rule forest_new_leaf [OF assms(3) imageI [OF conjunct1 [OF P]] out assms(4) _ L]) (use R A z in \<open>auto simp: path_of_def set_db_def\<close>)
  moreover have "books_ok (au_db s')" using books_ok_cong [of "au_db s1" "au_db s'"] A R by simp
  moreover have "balance_of (au_db s') v c = balance_of (au_db s) v c" for v c using A R z by (simp add: balance_of_def wallet_of_def)
  moreover have "user_by_id (au_db s') u = Some \<lparr>u_id = u, u_status = ''active'', u_virtual = False, u_level = None,
        u_public_id = au_public_next (set_db d s), u_name = n, u_avatar = None\<rparr>" using new A R z by (simp add: user_by_id_def lookup_append)
  moreover have "rc \<in> set (UserRoles u s')" using A R by (simp add: UserRoles_def)
  moreover have "FindPasswordCredentials l s' = Some (u, ''active'', h)" using calculation(4) A R by (simp add: FindPasswordCredentials_def)
  ultimately show ?thesis using P L new by (intro bexI [of _ p]) simp_all
qed


section \<open>A small database\<close>

text \<open>Alice plays, Bob is an agent and an administrator. Passwords are stored as they are, a digest puts a letter before the token.\<close>

definition sample_auth :: auth_db where
  "sample_auth = \<lparr>au_agents = sample_agents\<lparr>ag_db := (ag_db sample_agents)\<lparr>user_roles := [(''bob'', ''admin''), (''alice'', ''player'')]\<rparr>\<rparr>,
     au_identities = [\<lparr>ai_user = ''alice'', ai_subject = ''alice'', ai_hash = ''secret''\<rparr>, \<lparr>ai_user = ''bob'', ai_subject = ''bob'', ai_hash = ''hidden''\<rparr>],
     au_sessions = [], au_guards = [], au_logins = [(''alice'', ''alice''), (''bob'', ''bob'')], au_seconds = [], au_registration = [''POINTS''],
     au_public_next = 10004\<rparr>"

definition sample_env :: auth_env where
  "sample_env = \<lparr>ae_service = \<lparr>as_secret = 32, as_ttl = 3600000000, as_refresh = 86400000000, as_permanent = False,
       as_policy = \<lparr>MaxFailures = 3, Window = 600000000, Lockout = 900000000\<rparr>\<rparr>,
     ae_verify = (\<lambda>h p. h = p), ae_hash = (\<lambda>p. p), ae_digest = (\<lambda>t. CHR ''d'' # t)\<rparr>"

lemma sample_auth_ok: "sessions_ok sample_auth" "books_ok (au_db sample_auth)" "forest_ok (au_agents sample_auth)"
proof -
  show "sessions_ok sample_auth" by (simp add: sessions_ok_def sample_auth_def)
  show "books_ok (au_db sample_auth)" by (rule books_ok_cong [OF sample_agents_ok(3)]) (simp_all add: sample_auth_def)
  have "kept_forest sample_agents (au_agents sample_auth)" by (simp add: kept_forest_def sample_auth_def)
  then show "forest_ok (au_agents sample_auth)" using kept_forest_ok sample_agents_ok(1) by blast
qed

theorem single_session_witness:
  "sessions_ok (fold (auth_run sample_env) [CLogin ''t1'' ''alice'' ''secret'' False, CLogin ''t2'' ''alice'' ''secret'' False] sample_auth)
    \<and> map (\<lambda>e. (se_user e, se_hash e, se_revoked e = None))
        (au_sessions (fold (auth_run sample_env) [CLogin ''t1'' ''alice'' ''secret'' False, CLogin ''t2'' ''alice'' ''secret'' False] sample_auth))
      = [(''alice'', ''dt1'', False), (''alice'', ''dt2'', True)]"
proof
  show "sessions_ok (fold (auth_run sample_env) [CLogin ''t1'' ''alice'' ''secret'' False, CLogin ''t2'' ''alice'' ''secret'' False] sample_auth)"
    by (rule single_session [OF sample_auth_ok(1)])
qed code_simp

theorem refresh_token_once_witness:
  "\<exists>res t. auth_refresh (ae_service sample_env) (ae_digest sample_env) ''t2'' ''t1'' False
      (auth_run sample_env (CLogin ''t1'' ''alice'' ''secret'' False) sample_auth) = (Inr res, t)
    \<and> fst (auth_refresh (ae_service sample_env) (ae_digest sample_env) ''t3'' ''t1'' False (auth_run sample_env (CTick 5) t)) = Inl (Auth ErrInvalidRefreshToken)"
proof -
  let ?s = "auth_run sample_env (CLogin ''t1'' ''alice'' ''secret'' False) sample_auth"
  have "case auth_refresh (ae_service sample_env) (ae_digest sample_env) ''t2'' ''t1'' False ?s of (Inr res, t) \<Rightarrow> True | (Inl e, t) \<Rightarrow> False"
    by code_simp
  then obtain res t where t: "auth_refresh (ae_service sample_env) (ae_digest sample_env) ''t2'' ''t1'' False ?s = (Inr res, t)"
    by (auto split: prod.splits sum.splits)
  have s: "sessions_ok ?s" using auth_run_step [of sample_env "CLogin ''t1'' ''alice'' ''secret'' False" sample_auth] sample_auth_ok(1)
    unfolding session_step_def by blast
  have "retires sample_env ''t1'' ?s t" by (rule exchanged [OF t]) (simp add: sample_env_def)
  then show ?thesis using t refresh_token_once [OF s, of sample_env "''t1''" t "[CTick 5]" "''t3''" False] by (simp add: drawn_def sample_env_def)
qed

theorem login_lockout_witness:
  "fst (auth_login (ae_service sample_env) (ae_verify sample_env) (ae_digest sample_env) ''t2'' ''alice'' ''secret'' False
      (auth_run sample_env (CTick 5) (fold (attempt_login sample_env ''alice'') (replicate 3 (1, ''t1'', ''wrong'', False)) sample_auth)))
    = Inl (Auth ErrTooManyLoginAttempts)"
proof -
  have c: "configured (ae_service sample_env)" by (simp add: configured_def policy_valid_def sample_env_def)
  have n: "trim_space ''alice'' = ''alice''" by code_simp
  have w: "wrong_password sample_env ''alice'' ''wrong'' sample_auth" by code_simp
  show ?thesis
    using login_lockout [OF c, of "''alice''" "replicate 3 (1, ''t1'', ''wrong'', False)" sample_auth _ 5 "''t2''" "''secret''" False] w
    by (simp add: n guard_of_def sample_auth_def sample_env_def numeral_eq_Suc)
qed

theorem registration_witness:
  "\<exists>u s'. RegisterPasswordUser ''carol'' ''Carol'' ''pw'' ''player'' 10002 sample_auth = Inr (u, s') \<and> (u, ''bob'') \<in> links (au_db s')
    \<and> FindPasswordCredentials ''carol'' s' = Some (u, ''active'', ''pw'') \<and> forest_ok (au_agents s') \<and> books_ok (au_db s')"
proof -
  have "case RegisterPasswordUser ''carol'' ''Carol'' ''pw'' ''player'' 10002 sample_auth of Inl e \<Rightarrow> False | Inr (u, s') \<Rightarrow> plain_id u" by code_simp
  then obtain u s' where r: "RegisterPasswordUser ''carol'' ''Carol'' ''pw'' ''player'' 10002 sample_auth = Inr (u, s')" "plain_id u"
    by (auto split: sum.splits)
  have "\<forall>p \<in> set (users (au_db sample_auth)). u_public_id p = 10002 \<longrightarrow> u_id p = ''bob''" by code_simp
  then show ?thesis using registration [OF r(1) sample_auth_ok(2,3) r(2)] r(1) by auto
qed

text \<open>Without a display name the login name takes its place, and the restricted words are not asked of it.\<close>

lemma restricted_name_by_default:
  "HasRestrictedDisplayNameTerm ''admin''
    \<and> (case auth_Register (ae_service sample_env) (ae_hash sample_env) (ae_digest sample_env) ''t1'' ''admin'' [] ''pw'' ''10002'' sample_auth of
         (Inl e, t) \<Rightarrow> False
       | (Inr res, t) \<Rightarrow> map_option u_name (user_by_id (au_db t) (ResultUser res)) = Some ''admin'')"
  by code_simp

end
