(* ===== verification/Lulu_Orders.thy ===== *)
theory Lulu_Orders
  imports Postings "HOL-Library.Char_ord"
begin

text \<open>
  Lulu payment orders: \<^verbatim>\<open>internal/application/lulu\<close> (\<^verbatim>\<open>service.go\<close>, \<^verbatim>\<open>processor.go\<close>, \<^verbatim>\<open>config.go\<close>,
  \<^verbatim>\<open>transfers.go\<close>). Players pay stones into and out of an account of the upstream game. A deposit order is confirmed by
  the receipt the collector finds; a withdrawal order freezes the stones, waits for an approval, and is sent by the
  worker. \<open>lulu_db\<close> is the database with the tables of this service beside the shared ones. \<open>parses\<close> is
  \<^verbatim>\<open>uuid.Parse\<close> answering without an error, \<open>receiver\<close> and \<open>version\<close> are the fields \<^verbatim>\<open>Receiver\<close> and \<^verbatim>\<open>ConfigVersion\<close> of the
  service, the remote transfer and the remote list of receipts are parameters. Instants are microseconds.
\<close>

section \<open>Tables\<close>

datatype lulu_kind = LuluDeposit | LuluWithdrawal

datatype lulu_status = LRequested | LApproved | LSending | LUnknown | LConfirmed | LRejected | LFailed | LExpired

record lulu_order =
  lo_id :: string
  lo_user :: string
  lo_kind :: lulu_kind
  lo_request :: string
  lo_uid :: string
  lo_receiver :: string
  lo_amount :: int
  lo_status :: lulu_status
  lo_receipt :: "string option"
  lo_evidence :: string
  lo_reviewer :: "string option"
  lo_created :: int
  lo_updated :: int
  lo_expires :: int

record lulu_receipt =
  lr_id :: string
  lr_receiver :: string
  lr_sender :: string
  lr_amount :: int
  lr_occurred :: int
  lr_order :: "string option"

record lulu_config_row =
  lg_receiver :: string
  lg_enabled :: bool
  lg_version :: int
  lg_url :: string
  lg_start :: "int option"
  lg_token :: "string option"
  lg_protocol :: "string option"
  lg_updated :: int

record collector_row =
  lk_receiver :: string
  lk_scanned :: "int option"
  lk_success :: "int option"
  lk_error :: string
  lk_cycle :: string
  lk_down :: int
  lk_recovered :: int
  lk_down_ms :: int

record lulu_db =
  ls_db :: db
  lulu_orders :: "lulu_order list"
  lulu_receipts :: "lulu_receipt list"
  lulu_config :: lulu_config_row
  lulu_collectors :: "collector_row list"

section \<open>service.go\<close>

definition ORIGIN_STONE :: string where
  "ORIGIN_STONE = ''ORIGIN_STONE''"

definition stoneScale :: int where
  "stoneScale = 1000"

definition ValidUID :: "string \<Rightarrow> bool" where
  "ValidUID v \<longleftrightarrow> 3 \<le> length v \<and> length v \<le> 20 \<and> list_all is_digit v \<and> hd v \<noteq> CHR ''0''"

definition ParseAmount :: "string \<Rightarrow> error + int" where
  "ParseAmount v =
     (if v = [] \<or> \<not> list_all is_digit v then Inl (Lulu LuluInvalid)
      else case parse_int64 v of
        None \<Rightarrow> Inl (Lulu LuluInvalid)
      | Some n \<Rightarrow> if n \<le> 0 \<or> n > max_int64 div stoneScale then Inl (Lulu LuluInvalid) else Inr n)"

definition lulu_admin :: "(string \<Rightarrow> bool) \<Rightarrow> string \<Rightarrow> db \<Rightarrow> error + unit" where
  "lulu_admin parses actor s =
     (if parses actor \<and> list_ex (\<lambda>u. u_id u = actor \<and> u_status u = ''active''
            \<and> list_ex (\<lambda>r. fst r = actor \<and> snd r \<in> {''admin'', ''operator''}) (user_roles s)) (users s)
      then Inr () else Inl (Lulu LuluForbidden))"

definition lulu_player :: "(string \<Rightarrow> bool) \<Rightarrow> string \<Rightarrow> db \<Rightarrow> error + unit" where
  "lulu_player parses user s =
     (if parses user \<and> list_ex (\<lambda>u. u_id u = user \<and> u_status u = ''active'' \<and> \<not> u_virtual u
            \<and> list_ex (\<lambda>r. r = (user, ''player'')) (user_roles s)) (users s)
      then Inr () else Inl (Lulu LuluForbidden))"

text \<open>The remark begins with six Chinese characters, here as the bytes of their UTF-8 form.\<close>

definition lulu_remark :: string where
  "lulu_remark = map char_of [229 :: nat, 153, 156, 229, 153, 156, 229, 189, 169, 231, 159, 179, 229, 133, 145, 230, 141, 162] @ '' ORIGIN_STONE 1:1''"

definition lulu_balance :: "lulu_order \<Rightarrow> string \<Rightarrow> int \<Rightarrow> int \<Rightarrow> string \<Rightarrow> db \<Rightarrow> error + db" where
  "lulu_balance order typ da0 df0 actor s =
     (if da0 > max_int64 div stoneScale \<or> da0 < - (max_int64 div stoneScale) \<or> df0 > max_int64 div stoneScale \<or> df0 < - (max_int64 div stoneScale)
      then Inl (Lulu LuluInvalid)
      else let da = da0 * stoneScale; df = df0 * stoneScale in
        bindE (wallet_row_for (lo_user order) ORIGIN_STONE s) (\<lambda>s.
        bindE (orErr (DB NoRows) (wallet_of s (lo_user order) ORIGIN_STONE)) (\<lambda>w.
        if (da < 0 \<and> w_available w < - da) \<or> (df < 0 \<and> w_frozen w < - df) then Inl (Wallet ErrInsufficientFunds)
        else if (da > 0 \<and> w_available w > max_int64 - da) \<or> (df > 0 \<and> w_frozen w > max_int64 - df) then Inl (Lulu LuluInvalid)
        else bindE (set_balances (w_id w) (w_available w + da) (w_frozen w + df) s) (\<lambda>s.
          let (i, s) = new_uuid s in
          insert_ledger_row \<lparr>l_id = i, l_wallet = w_id w, l_btype = typ, l_bid = lo_id order, l_etype = typ,
            l_amount = (if da = 0 then df else da), l_after = w_available w + da, l_avail_delta = da, l_frozen_delta = df,
            l_frozen_after = 0, l_placement = None, l_remark = lulu_remark,
            l_operator = (if actor = [] then None else Some actor), l_at = clock s\<rparr> s))))"

record lulu_input =
  li_request :: string
  li_uid :: string
  li_amount :: string

definition lulu_kind_of :: "string \<Rightarrow> lulu_kind option" where
  "lulu_kind_of k = (if k = ''deposit'' then Some LuluDeposit else if k = ''withdrawal'' then Some LuluWithdrawal else None)"

text \<open>Six minutes, in microseconds: the window of a transfer.\<close>

definition lulu_window :: int where
  "lulu_window = 360000000"

definition update_order :: "string \<Rightarrow> (lulu_order \<Rightarrow> lulu_order) \<Rightarrow> lulu_db \<Rightarrow> lulu_db" where
  "update_order i g s = s\<lparr>lulu_orders := modify (\<lambda>x. lo_id x = i) (\<lambda>x. (g x)\<lparr>lo_updated := clock (ls_db s)\<rparr>) (lulu_orders s)\<rparr>"

definition order_by_id :: "lulu_db \<Rightarrow> string \<Rightarrow> lulu_order option" where
  "order_by_id s i = lookup (\<lambda>x. lo_id x = i) (lulu_orders s)"

text \<open>\<^verbatim>\<open>UPDATE lulu_orders SET status='expired'\<close> with the further condition of its three uses.\<close>

definition expire_orders :: "(lulu_order \<Rightarrow> bool) \<Rightarrow> lulu_db \<Rightarrow> lulu_db" where
  "expire_orders P s = s\<lparr>lulu_orders := modify (\<lambda>x. lo_kind x = LuluDeposit \<and> lo_status x = LRequested \<and> lo_expires x < clock (ls_db s) \<and> P x)
     (\<lambda>x. x\<lparr>lo_status := LExpired, lo_updated := clock (ls_db s)\<rparr>) (lulu_orders s)\<rparr>"

text \<open>The insert with the constraints of \<^verbatim>\<open>migrations/0069_lulu_transfers.sql\<close>; a violated key is reported as a conflict.\<close>

definition insert_order :: "lulu_order \<Rightarrow> lulu_db \<Rightarrow> error + lulu_db" where
  "insert_order order s =
     (if order_by_id s (lo_id order) \<noteq> None
        \<or> list_ex (\<lambda>x. lo_user x = lo_user order \<and> lo_kind x = lo_kind order \<and> lo_request x = lo_request order) (lulu_orders s)
        \<or> (lo_kind order = LuluDeposit \<and> list_ex (\<lambda>x. lo_kind x = LuluDeposit \<and> lo_status x = LRequested
             \<and> lo_receiver x = lo_receiver order \<and> lo_uid x = lo_uid order) (lulu_orders s))
      then Inl (Lulu LuluConflict)
      else if user_by_id (ls_db s) (lo_user order) = None then Inl (DB ForeignKey)
      else Inr (s\<lparr>lulu_orders := lulu_orders s @ [order]\<rparr>))"

text \<open>\<^verbatim>\<open>UPDATE lulu_receipts SET order_id\<close> and \<^verbatim>\<open>UPDATE lulu_orders SET status='confirmed',receipt_id\<close>; both links are unique.\<close>

definition link_receipt :: "string \<Rightarrow> string \<Rightarrow> lulu_db \<Rightarrow> error + lulu_db" where
  "link_receipt rid oid s =
     (if list_ex (\<lambda>r. lr_order r = Some oid \<and> lr_id r \<noteq> rid) (lulu_receipts s) then Inl (DB Unique)
      else Inr (s\<lparr>lulu_receipts := modify (\<lambda>r. lr_id r = rid) (\<lambda>r. r\<lparr>lr_order := Some oid\<rparr>) (lulu_receipts s)\<rparr>))"

definition confirm_order :: "string \<Rightarrow> string \<Rightarrow> lulu_db \<Rightarrow> error + lulu_db" where
  "confirm_order oid rid s =
     (if list_ex (\<lambda>x. lo_receipt x = Some rid \<and> lo_id x \<noteq> oid) (lulu_orders s) then Inl (DB Unique)
      else Inr (update_order oid (\<lambda>x. x\<lparr>lo_status := LConfirmed, lo_receipt := Some rid\<rparr>) s))"

definition post :: "lulu_order \<Rightarrow> string \<Rightarrow> int \<Rightarrow> int \<Rightarrow> string \<Rightarrow> lulu_db \<Rightarrow> error + lulu_db" where
  "post order typ da df actor s = bindE (lulu_balance order typ da df actor (ls_db s)) (\<lambda>d. Inr (s\<lparr>ls_db := d\<rparr>))"

text \<open>A deposit finds its receipt: link, credit, confirm. Both \<^verbatim>\<open>Create\<close> and \<^verbatim>\<open>RecordReceipt\<close> do this.\<close>

definition credit_receipt :: "lulu_order \<Rightarrow> string \<Rightarrow> int \<Rightarrow> lulu_db \<Rightarrow> error + lulu_db" where
  "credit_receipt order rid n s =
     bindE (link_receipt rid (lo_id order) s) (\<lambda>s.
     bindE (post order ''lulu_deposit'' n 0 [] s) (\<lambda>s.
     confirm_order (lo_id order) rid s))"

definition match_receipt :: "lulu_order \<Rightarrow> int \<Rightarrow> lulu_db \<Rightarrow> lulu_receipt option" where
  "match_receipt order n s =
     (case sort_key lr_occurred (sort_key lr_id (filter (\<lambda>r. lr_receiver r = lo_receiver order \<and> lr_sender r = lo_uid order \<and> lr_amount r = n
             \<and> lr_order r = None \<and> lo_created order - lulu_window \<le> lr_occurred r \<and> lr_occurred r \<le> lo_expires order) (lulu_receipts s))) of
        [] \<Rightarrow> None
      | r # rs \<Rightarrow> Some r)"

definition new_order :: "string \<Rightarrow> lulu_kind \<Rightarrow> lulu_input \<Rightarrow> int \<Rightarrow> lulu_db \<Rightarrow> (lulu_order \<times> lulu_db)" where
  "new_order user k i n s =
     (let (oid, d) = new_uuid (ls_db s); now = clock d in
      (\<lparr>lo_id = oid, lo_user = user, lo_kind = k, lo_request = li_request i, lo_uid = li_uid i, lo_receiver = lg_receiver (lulu_config s),
         lo_amount = n, lo_status = LRequested, lo_receipt = None, lo_evidence = [], lo_reviewer = None, lo_created = now,
         lo_updated = now, lo_expires = now + lulu_window\<rparr>, s\<lparr>ls_db := d\<rparr>))"

definition pending_deposit :: "lulu_input \<Rightarrow> lulu_db \<Rightarrow> lulu_order option" where
  "pending_deposit i s = lookup (\<lambda>x. lo_kind x = LuluDeposit \<and> lo_status x = LRequested
     \<and> lo_receiver x = lg_receiver (lulu_config s) \<and> lo_uid x = li_uid i) (lulu_orders s)"

text \<open>The seconds left of a pending deposit, rounded up and at least one.\<close>

definition seconds_left :: "lulu_order \<Rightarrow> lulu_db \<Rightarrow> int" where
  "seconds_left x s = max 1 ((lo_expires x - clock (ls_db s) + 999999) div 1000000)"

definition create_deposit :: "string \<Rightarrow> lulu_input \<Rightarrow> int \<Rightarrow> lulu_db \<Rightarrow> error + (lulu_order \<times> lulu_db)" where
  "create_deposit user i n s0 =
     (let s = expire_orders (\<lambda>x. lo_receiver x = lg_receiver (lulu_config s0) \<and> lo_uid x = li_uid i) s0 in
      case pending_deposit i s of
        Some x \<Rightarrow> Inl (Lulu (PendingDepositError (li_uid i) (seconds_left x s)))
      | None \<Rightarrow>
          let (order, s) = new_order user LuluDeposit i n s in
          bindE (insert_order order s) (\<lambda>s.
          case match_receipt order n s of
            None \<Rightarrow> Inr (order, s)
          | Some r \<Rightarrow> bindE (credit_receipt order (lr_id r) n s) (\<lambda>s.
              Inr (order\<lparr>lo_status := LConfirmed, lo_receipt := Some (lr_id r)\<rparr>, s))))"

definition create_withdrawal :: "string \<Rightarrow> lulu_input \<Rightarrow> int \<Rightarrow> lulu_db \<Rightarrow> error + (lulu_order \<times> lulu_db)" where
  "create_withdrawal user i n s =
     (let (order, s) = new_order user LuluWithdrawal i n s in
      bindE (insert_order order s) (\<lambda>s.
      bindE (post order ''lulu_withdrawal_freeze'' (- n) n [] s) (\<lambda>s. Inr (order, s))))"

definition lulu_Create :: "(string \<Rightarrow> bool) \<Rightarrow> string \<Rightarrow> string \<Rightarrow> lulu_input \<Rightarrow> lulu_db \<Rightarrow> error + (lulu_order \<times> lulu_db)" where
  "lulu_Create parses user kind i s =
     (case (ParseAmount (li_amount i), lulu_kind_of kind) of
        (Inr n, Some k) \<Rightarrow>
          if \<not> ValidUID (li_uid i) \<or> li_request i = [] \<or> length (li_request i) > 128 then Inl (Lulu LuluInvalid)
          else bindE (lulu_player parses user (ls_db s)) (\<lambda>_.
          case lookup (\<lambda>x. lo_user x = user \<and> lo_kind x = k \<and> lo_request x = li_request i) (lulu_orders s) of
            Some x \<Rightarrow> if lo_amount x \<noteq> n \<or> lo_uid x \<noteq> li_uid i then Inl (Lulu LuluConflict) else Inr (x, s)
          | None \<Rightarrow>
              if \<not> lg_enabled (lulu_config s) \<or> \<not> ValidUID (lg_receiver (lulu_config s)) then Inl (Lulu LuluDisabled)
              else if li_uid i = lg_receiver (lulu_config s) then Inl (Lulu ErrSameAccount)
              else bindE (ResolveDecimals (ls_db s) ORIGIN_STONE True) (\<lambda>_.
                case k of LuluDeposit \<Rightarrow> create_deposit user i n s | LuluWithdrawal \<Rightarrow> create_withdrawal user i n s))
      | _ \<Rightarrow> Inl (Lulu LuluInvalid))"

text \<open>The list expires overdue deposits before it reads.\<close>

definition lulu_status_of :: "string \<Rightarrow> lulu_status option" where
  "lulu_status_of v = (if v = ''requested'' then Some LRequested else if v = ''approved'' then Some LApproved
     else if v = ''sending'' then Some LSending else if v = ''unknown'' then Some LUnknown else if v = ''confirmed'' then Some LConfirmed
     else if v = ''rejected'' then Some LRejected else if v = ''failed'' then Some LFailed else if v = ''expired'' then Some LExpired else None)"

definition lulu_List :: "(string \<Rightarrow> bool) \<Rightarrow> string \<Rightarrow> string \<Rightarrow> string \<Rightarrow> string \<Rightarrow> int option \<Rightarrow> int option \<Rightarrow> int \<Rightarrow> int
    \<Rightarrow> lulu_db \<Rightarrow> error + (lulu_order list \<times> lulu_db)" where
  "lulu_List parses user actor kind status since till limit offset s =
     (if (status \<noteq> [] \<and> lulu_status_of status = None) \<or> limit < 1 \<or> limit > 100 \<or> offset < 0 \<or> (kind \<noteq> [] \<and> lulu_kind_of kind = None) then Inl (Lulu LuluInvalid)
      else bindE (if actor \<noteq> [] then lulu_admin parses actor (ls_db s) else lulu_player parses user (ls_db s)) (\<lambda>_.
        let s = expire_orders (\<lambda>x. user = [] \<or> lo_user x = user) s;
            hits = filter (\<lambda>x. (user = [] \<or> lo_user x = user) \<and> (kind = [] \<or> Some (lo_kind x) = lulu_kind_of kind)
              \<and> (status = [] \<or> Some (lo_status x) = lulu_status_of status) \<and> (case since of None \<Rightarrow> True | Some t \<Rightarrow> t \<le> lo_created x)
              \<and> (case till of None \<Rightarrow> True | Some t \<Rightarrow> lo_created x < t)) (lulu_orders s) in
        Inr (take (nat limit) (drop (nat offset) (rev (sort_key lo_created (sort_key lo_id hits)))), s)))"

text \<open>\<^verbatim>\<open>Order.Amount\<close> is text; an amount the parser refuses counts as zero.\<close>

definition order_amount :: "lulu_order \<Rightarrow> int" where
  "order_amount order = (case ParseAmount (format_nat (nat (lo_amount order))) of Inl e \<Rightarrow> 0 | Inr n \<Rightarrow> n)"

definition review_writes :: "lulu_order \<Rightarrow> string \<Rightarrow> string \<Rightarrow> string \<Rightarrow> lulu_status \<Rightarrow> lulu_db \<Rightarrow> error + (lulu_order \<times> lulu_db)" where
  "review_writes order actor action evidence target s =
     (let s = update_order (lo_id order) (\<lambda>x. x\<lparr>lo_status := target, lo_evidence := evidence, lo_reviewer := Some actor\<rparr>) s in
      bindE (insert_audit actor (''lulu.'' @ action) ''lulu_order'' (lo_id order) (PObj [(''evidence'', PStr evidence)]) (ls_db s)) (\<lambda>d.
      Inr (order\<lparr>lo_status := target, lo_evidence := evidence\<rparr>, s\<lparr>ls_db := d\<rparr>)))"

definition lulu_Review :: "(string \<Rightarrow> bool) \<Rightarrow> string \<Rightarrow> string \<Rightarrow> string \<Rightarrow> string \<Rightarrow> lulu_db \<Rightarrow> error + (lulu_order \<times> lulu_db)" where
  "lulu_Review parses i actor action evidence s =
     (if \<not> parses i \<or> trim_space evidence = [] \<or> length evidence > 2000 then Inl (Lulu LuluInvalid)
      else bindE (lulu_admin parses actor (ls_db s)) (\<lambda>_.
      bindE (orErr (Lulu LuluNotFound) (order_by_id s i)) (\<lambda>order.
      if lo_kind order \<noteq> LuluWithdrawal then Inl (Lulu LuluConflict)
      else let n = order_amount order in
        if action = ''approve'' then
          (if lo_status order = LApproved then Inr (order, s)
           else if lo_status order \<noteq> LRequested then Inl (Lulu LuluConflict)
           else if \<not> lg_enabled (lulu_config s) \<or> lo_receiver order \<noteq> lg_receiver (lulu_config s) then Inl (Lulu LuluDisabled)
           else review_writes order actor action evidence LApproved s)
        else if action = ''reject'' then
          (if lo_status order = LRejected then Inr (order, s)
           else if lo_status order \<noteq> LRequested then Inl (Lulu LuluConflict)
           else bindE (post order ''lulu_withdrawal_unfreeze'' n (- n) actor s) (review_writes order actor action evidence LRejected))
        else if action = ''confirm_paid'' then
          (if lo_status order = LConfirmed then Inr (order, s)
           else if lo_status order \<noteq> LUnknown then Inl (Lulu LuluConflict)
           else bindE (post order ''lulu_withdrawal_debit'' 0 (- n) actor s) (review_writes order actor action evidence LConfirmed))
        else if action = ''confirm_not_paid'' then
          (if lo_status order = LFailed then Inr (order, s)
           else if lo_status order \<noteq> LUnknown then Inl (Lulu LuluConflict)
           else bindE (post order ''lulu_withdrawal_unfreeze'' n (- n) actor s) (review_writes order actor action evidence LFailed))
        else Inl (Lulu LuluInvalid))))"

section \<open>processor.go\<close>

datatype TransferResult = TransferConfirmed | TransferUnknown | TransferFailed

text \<open>The zero \<^verbatim>\<open>time.Time\<close>, the first instant of the year one.\<close>

definition zero_time :: int where
  "zero_time = - 62135596800000000"

definition match_order :: "lulu_receipt \<Rightarrow> lulu_db \<Rightarrow> lulu_order option" where
  "match_order r s =
     (case sort_key lo_created (filter (\<lambda>x. lo_kind x = LuluDeposit \<and> (lo_status x = LRequested \<or> lo_status x = LExpired) \<and> lo_receiver x = lr_receiver r
             \<and> lo_uid x = lr_sender r \<and> lo_amount x = lr_amount r \<and> lo_created x - lulu_window \<le> lr_occurred r \<and> lr_occurred r \<le> lo_expires x)
          (lulu_orders s)) of
        [] \<Rightarrow> None
      | x # xs \<Rightarrow> Some x)"

definition store_receipt :: "lulu_receipt \<Rightarrow> lulu_db \<Rightarrow> lulu_db" where
  "store_receipt r s = (if list_ex (\<lambda>x. lr_id x = lr_id r) (lulu_receipts s) then s
     else s\<lparr>lulu_receipts := lulu_receipts s @ [r\<lparr>lr_order := None\<rparr>]\<rparr>)"

definition RecordReceipt :: "string \<Rightarrow> lulu_receipt \<Rightarrow> lulu_db \<Rightarrow> error + lulu_db" where
  "RecordReceipt receiver r s =
     (if lr_id r = [] \<or> length (lr_id r) > 256 \<or> \<not> ValidUID (lr_sender r) \<or> lr_receiver r \<noteq> receiver \<or> lr_amount r \<le> 0 \<or> lr_occurred r = zero_time
      then Inl (Lulu LuluInvalid)
      else let s = store_receipt r s in
        bindE (orErr (DB NoRows) (lookup (\<lambda>x. lr_id x = lr_id r) (lulu_receipts s))) (\<lambda>stored.
        if lr_receiver stored \<noteq> lr_receiver r \<or> lr_sender stored \<noteq> lr_sender r \<or> lr_amount stored \<noteq> lr_amount r \<or> lr_occurred stored \<noteq> lr_occurred r
        then Inl (Lulu LuluConflict)
        else if lr_order stored \<noteq> None then Inr s
        else case match_order r s of
          None \<Rightarrow> Inr s
        | Some order \<Rightarrow> credit_receipt order (lr_id r) (lr_amount r) s))"

definition lulu_active :: "string \<Rightarrow> int \<Rightarrow> lulu_db \<Rightarrow> bool" where
  "lulu_active receiver version s \<longleftrightarrow> lg_enabled (lulu_config s) \<and> lg_receiver (lulu_config s) = receiver
     \<and> (version = 0 \<or> lg_version (lulu_config s) = version)"

text \<open>\<^verbatim>\<open>Dispatch\<close> is two transactions around the remote transfer; \<open>dispatch_begin\<close> is the first one.\<close>

definition dispatch_begin :: "string \<Rightarrow> int \<Rightarrow> lulu_db \<Rightarrow> lulu_order option \<times> lulu_db" where
  "dispatch_begin receiver version s =
     (if \<not> lulu_active receiver version s then (None, s)
      else case sort_key lo_created (filter (\<lambda>x. lo_kind x = LuluWithdrawal \<and> lo_status x = LApproved \<and> lo_receiver x = receiver) (lulu_orders s)) of
        [] \<Rightarrow> (None, s)
      | x # xs \<Rightarrow> (Some x, update_order (lo_id x) (\<lambda>x. x\<lparr>lo_status := LSending\<rparr>) s))"

definition finish_transfer :: "string \<Rightarrow> TransferResult \<Rightarrow> lulu_db \<Rightarrow> error + lulu_db" where
  "finish_transfer i result s =
     bindE (orErr (Lulu LuluNotFound) (order_by_id s i)) (\<lambda>order.
     if lo_status order \<noteq> LSending then Inl (Lulu LuluConflict)
     else let n = order_amount order in
       case result of
         TransferConfirmed \<Rightarrow> bindE (post order ''lulu_withdrawal_debit'' 0 (- n) [] s) (\<lambda>s. Inr (update_order i (\<lambda>x. x\<lparr>lo_status := LConfirmed\<rparr>) s))
       | TransferFailed \<Rightarrow> bindE (post order ''lulu_withdrawal_unfreeze'' n (- n) [] s) (\<lambda>s. Inr (update_order i (\<lambda>x. x\<lparr>lo_status := LFailed\<rparr>) s))
       | TransferUnknown \<Rightarrow> Inr (update_order i (\<lambda>x. x\<lparr>lo_status := LUnknown\<rparr>) s))"

definition lulu_Dispatch :: "string \<Rightarrow> int \<Rightarrow> (lulu_order \<Rightarrow> TransferResult) \<Rightarrow> lulu_db \<Rightarrow> error option \<times> lulu_db" where
  "lulu_Dispatch receiver version transfer s =
     (case dispatch_begin receiver version s of
        (None, s) \<Rightarrow> (None, s)
      | (Some order, s) \<Rightarrow> (case finish_transfer (lo_id order) (transfer order) s of Inl e \<Rightarrow> (Some e, s) | Inr s \<Rightarrow> (None, s)))"

definition RecoverSending :: "string \<Rightarrow> lulu_db \<Rightarrow> lulu_db" where
  "RecoverSending receiver s = s\<lparr>lulu_orders := modify (\<lambda>x. lo_status x = LSending \<and> lo_kind x = LuluWithdrawal \<and> lo_receiver x = receiver)
     (\<lambda>x. x\<lparr>lo_status := LUnknown, lo_updated := clock (ls_db s)\<rparr>) (lulu_orders s)\<rparr>"

fun record_all :: "string \<Rightarrow> lulu_receipt list \<Rightarrow> lulu_db \<Rightarrow> error option \<times> lulu_db" where
  "record_all receiver [] s = (None, s)"
| "record_all receiver (r # rs) s = (case RecordReceipt receiver r s of Inl e \<Rightarrow> (Some e, s) | Inr s \<Rightarrow> record_all receiver rs s)"

definition ReconcileStored :: "string \<Rightarrow> lulu_db \<Rightarrow> error option \<times> lulu_db" where
  "ReconcileStored receiver s =
     record_all receiver (take 100 (sort_key lr_occurred (sort_key lr_id (filter (\<lambda>r. lr_receiver r = receiver \<and> lr_order r = None
        \<and> list_ex (\<lambda>x. lo_kind x = LuluDeposit \<and> (lo_status x = LRequested \<or> lo_status x = LExpired) \<and> lo_receiver x = lr_receiver r \<and> lo_uid x = lr_sender r
             \<and> lo_amount x = lr_amount r \<and> lo_created x - lulu_window \<le> lr_occurred r \<and> lr_occurred r \<le> lo_expires x) (lulu_orders s))
        (lulu_receipts s))))) s"

definition update_collector :: "string \<Rightarrow> (collector_row \<Rightarrow> collector_row) \<Rightarrow> lulu_db \<Rightarrow> lulu_db" where
  "update_collector receiver g s = s\<lparr>lulu_collectors := modify (\<lambda>c. lk_receiver c = receiver) g (lulu_collectors s)\<rparr>"

definition ensure_collector :: "string \<Rightarrow> lulu_db \<Rightarrow> lulu_db" where
  "ensure_collector receiver s = (if list_ex (\<lambda>c. lk_receiver c = receiver) (lulu_collectors s) then s
     else s\<lparr>lulu_collectors := lulu_collectors s @ [\<lparr>lk_receiver = receiver, lk_scanned = None, lk_success = None, lk_error = [], lk_cycle = [],
       lk_down = 0, lk_recovered = 0, lk_down_ms = 0\<rparr>]\<rparr>)"

text \<open>The messages of the collector, as UTF-8 bytes: the login is invalid, it is restored and the cycle succeeded, the
  cycle succeeded.\<close>

definition login_invalid_text :: string where
  "login_invalid_text = map char_of [229 :: nat, 153, 156, 229, 153, 156, 231, 153, 187, 229, 189, 149, 229, 183, 178, 229, 164, 177, 230, 149, 136, 239, 188, 140,
     232, 175, 183, 233, 135, 141, 230, 150, 176, 232, 142, 183, 229, 143, 150, 231, 159, 173, 228, 191, 161, 233, 170, 140, 232, 175, 129, 231, 160, 129, 231, 153, 187, 229, 189, 149]"

definition cycle_ok_text :: string where
  "cycle_ok_text = map char_of [233 :: nat, 135, 135, 233, 155, 134, 230, 136, 144, 229, 138, 159]"

definition login_restored_text :: string where
  "login_restored_text = map char_of [229 :: nat, 153, 156, 229, 153, 156, 231, 153, 187, 229, 189, 149, 229, 183, 178, 230, 129, 162, 229, 164, 141, 239, 188, 140] @ cycle_ok_text"

text \<open>\<open>receipts since\<close> is what the remote list hands to the callback and the error it ends with; a failed callback ends
  the call with its error.\<close>

definition Collect :: "string \<Rightarrow> int \<Rightarrow> (int \<Rightarrow> lulu_receipt list \<times> error option) \<Rightarrow> int \<Rightarrow> lulu_db \<Rightarrow> error option \<times> lulu_db" where
  "Collect receiver version receipts start s =
     (if \<not> lulu_active receiver version s then (None, s)
      else case ReconcileStored receiver s of
        (Some e, s) \<Rightarrow> (Some e, s)
      | (None, s) \<Rightarrow>
          if start = zero_time then (Some (Lulu LuluInvalid), s)
          else let s = ensure_collector receiver s in
            case lookup (\<lambda>c. lk_receiver c = receiver) (lulu_collectors s) of
              None \<Rightarrow> (Some (DB NoRows), s)
            | Some c \<Rightarrow>
                let since = (case lk_scanned c of None \<Rightarrow> start | Some t \<Rightarrow> if t - 600000000 > start then t - 600000000 else start);
                    now = clock (ls_db s); ms = now div 1000 in
                case (case record_all receiver (fst (receipts since)) s of (Some e, s) \<Rightarrow> (Some e, s) | (None, s) \<Rightarrow> (snd (receipts since), s)) of
                  (Some e, s) \<Rightarrow>
                    let message = (if e = Lulu ErrTokenInvalid then login_invalid_text else ''collection failed; cursor unchanged'') in
                    (Some e, update_collector receiver (\<lambda>c. c\<lparr>lk_error := message, lk_cycle := message,
                       lk_down := (if e = Lulu ErrTokenInvalid \<and> lk_down c = 0 then ms else lk_down c)\<rparr>) s)
                | (None, s) \<Rightarrow>
                    (None, update_collector receiver (\<lambda>c. c\<lparr>lk_scanned := Some now, lk_success := Some now, lk_error := [],
                       lk_cycle := (if lk_down c > 0 then login_restored_text else cycle_ok_text),
                       lk_recovered := (if lk_down c > 0 then ms else lk_recovered c),
                       lk_down_ms := (if lk_down c > 0 then max 0 (ms - lk_down c) else lk_down_ms c), lk_down := 0\<rparr>) s))"

definition ExpireDeposits :: "lulu_db \<Rightarrow> lulu_db" where
  "ExpireDeposits s = expire_orders (\<lambda>x. True) s"

record Health =
  he_cycle :: string
  he_down :: int
  he_recovered :: int
  he_down_ms :: int
  he_invalid :: bool
  he_receiver :: string
  he_success :: "int option"
  he_error :: string

definition lulu_Health :: "(string \<Rightarrow> bool) \<Rightarrow> string \<Rightarrow> lulu_db \<Rightarrow> error + Health" where
  "lulu_Health parses actor s =
     bindE (lulu_admin parses actor (ls_db s)) (\<lambda>_.
       let receiver = lg_receiver (lulu_config s) in
       Inr (case lookup (\<lambda>c. lk_receiver c = receiver) (lulu_collectors s) of
          None \<Rightarrow> \<lparr>he_cycle = [], he_down = 0, he_recovered = 0, he_down_ms = 0, he_invalid = False, he_receiver = receiver, he_success = None, he_error = []\<rparr>
        | Some c \<Rightarrow> \<lparr>he_cycle = lk_cycle c, he_down = lk_down c, he_recovered = lk_recovered c, he_down_ms = lk_down_ms c,
            he_invalid = (lk_down c > 0 \<or> lk_error c = login_invalid_text), he_receiver = receiver, he_success = lk_success c, he_error = lk_error c\<rparr>))"

section \<open>config.go, secrets.go\<close>

text \<open>What the code reads of \<^verbatim>\<open>url.Parse\<close>, which is a parameter, as are the length of a Base64 text and the cipher.\<close>

record url =
  url_scheme :: string
  url_host :: string
  url_user :: bool
  url_query :: string
  url_fragment :: string

definition validAPIURL :: "(string \<Rightarrow> url option) \<Rightarrow> string \<Rightarrow> bool" where
  "validAPIURL parse_url v = (case parse_url v of None \<Rightarrow> False
     | Some u \<Rightarrow> (url_scheme u = ''https'' \<or> url_scheme u = ''http'') \<and> url_host u \<noteq> [] \<and> \<not> url_user u \<and> url_query u = []
         \<and> url_fragment u = [] \<and> length v \<le> 2048)"

definition validToken :: "string \<Rightarrow> bool" where
  "validToken t \<longleftrightarrow> length t \<le> 16384 \<and> trim_space t = t \<and> \<not> list_ex (\<lambda>c. code c = 13 \<or> code c = 10) t"

definition validateStart :: "int option \<Rightarrow> int \<Rightarrow> bool" where
  "validateStart t now = (case t of None \<Rightarrow> True | Some v \<Rightarrow> v \<noteq> zero_time \<and> v \<le> now)"

definition ValidProtocolKey :: "(string \<Rightarrow> nat option) \<Rightarrow> string \<Rightarrow> bool" where
  "ValidProtocolKey decoded v = (decoded v = Some 24 \<or> decoded v = Some 32)"

record ConfigUpdate =
  cu_url :: "string option"
  cu_start :: "int option"
  cu_token :: string
  cu_protocol :: string
  cu_receiver :: string
  cu_enabled :: bool
  cu_version :: int

definition lulu_open :: "lulu_order \<Rightarrow> bool" where
  "lulu_open x \<longleftrightarrow> lo_status x = LRequested \<or> lo_status x = LApproved \<or> lo_status x = LSending \<or> lo_status x = LUnknown"

text \<open>\<open>None\<close> is a cipher that is not available.\<close>

definition seal :: "(string \<Rightarrow> string \<Rightarrow> string) option \<Rightarrow> string \<Rightarrow> string \<Rightarrow> error + string" where
  "seal cipher v purpose = (case cipher of None \<Rightarrow> Inl (Lulu ErrEncryption) | Some c \<Rightarrow> Inr (c (''lulu:'' @ purpose) v))"

definition config_allowed :: "ConfigUpdate \<Rightarrow> lulu_db \<Rightarrow> bool" where
  "config_allowed u s = (lg_receiver (lulu_config s) = cu_receiver u
     \<or> (\<not> lg_enabled (lulu_config s) \<and> \<not> list_ex lulu_open (lulu_orders s)))"

definition lulu_config_payload :: "lulu_config_row \<Rightarrow> payload" where
  "lulu_config_payload c = PObj [(''api_url'', PStr (lg_url c)), (''scan_start_at'', (case lg_start c of None \<Rightarrow> PNull | Some t \<Rightarrow> PTime t)),
     (''token_configured'', PBool (lg_token c \<noteq> None)), (''protocol_key_configured'', PBool (lg_protocol c \<noteq> None)),
     (''receiver_uid'', PStr (lg_receiver c)), (''enabled'', PBool (lg_enabled c)), (''version'', PInt (lg_version c)), (''updated_at'', PTime (lg_updated c))]"

definition next_config ::
  "(string \<Rightarrow> url option) \<Rightarrow> (string \<Rightarrow> nat option) \<Rightarrow> (string \<Rightarrow> string \<Rightarrow> string) option \<Rightarrow> ConfigUpdate \<Rightarrow> lulu_db \<Rightarrow> error + lulu_config_row" where
  "next_config parse_url decoded cipher u s =
     (let old = lulu_config s; now = clock (ls_db s);
          address = (case cu_url u of None \<Rightarrow> lg_url old | Some v \<Rightarrow> v);
          start = (case cu_start u of None \<Rightarrow> lg_start old | Some t \<Rightarrow> Some t) in
      if lg_version old \<noteq> cu_version u then Inl (Lulu ErrConfigConflict)
      else if \<not> config_allowed u s then Inl (Lulu ErrConfigConflict)
      else if (address \<noteq> [] \<and> \<not> validAPIURL parse_url address) \<or> \<not> validateStart start now \<or> \<not> validToken (cu_token u)
      then Inl (Lulu ErrConfigInvalid)
      else if lg_receiver old \<noteq> cu_receiver u \<and> cu_receiver u \<noteq> [] \<and> cu_token u = [] then Inl (Lulu ErrConfigInvalid)
      else if lg_url old \<noteq> address \<and> lg_enabled old then Inl (Lulu ErrConfigConflict)
      else if (case (lg_start old, start) of (Some a, Some b) \<Rightarrow> b > a | _ \<Rightarrow> False)
           \<and> list_ex (\<lambda>c. lk_receiver c = cu_receiver u \<and> lk_scanned c \<noteq> None) (lulu_collectors s)
      then Inl (Lulu ErrConfigConflict)
      else bindE (if cu_token u = [] then Inr None else bindE (seal cipher (cu_token u) ''token'') (\<lambda>c. Inr (Some c))) (\<lambda>token.
      bindE (if cu_protocol u = [] then Inr None
             else if \<not> ValidProtocolKey decoded (cu_protocol u) then Inl (Lulu ErrConfigInvalid)
             else bindE (seal cipher (cu_protocol u) ''protocol'') (\<lambda>c. Inr (Some c))) (\<lambda>key.
      if cu_enabled u \<and> (address = [] \<or> start = None \<or> (lg_token old = None \<and> token = None) \<or> (lg_protocol old = None \<and> key = None))
      then Inl (Lulu ErrConfigInvalid)
      else if cu_enabled u \<and> cipher = None then Inl (Lulu ErrEncryption)
      else if \<not> int64 (lg_version old + 1) then Inl (DB OutOfRange)
      else Inr \<lparr>lg_receiver = cu_receiver u, lg_enabled = cu_enabled u, lg_version = lg_version old + 1, lg_url = address,
             lg_start = start, lg_token = (case token of None \<Rightarrow> lg_token old | Some c \<Rightarrow> Some c),
             lg_protocol = (case key of None \<Rightarrow> lg_protocol old | Some c \<Rightarrow> Some c), lg_updated = now\<rparr>)))"

definition UpdateConfig_lulu ::
  "(string \<Rightarrow> bool) \<Rightarrow> (string \<Rightarrow> url option) \<Rightarrow> (string \<Rightarrow> nat option) \<Rightarrow> (string \<Rightarrow> string \<Rightarrow> string) option
    \<Rightarrow> string \<Rightarrow> ConfigUpdate \<Rightarrow> lulu_db \<Rightarrow> error + (lulu_config_row \<times> lulu_db)" where
  "UpdateConfig_lulu parses parse_url decoded cipher actor u s =
     (if cu_version u < 1 \<or> (cu_receiver u \<noteq> [] \<and> \<not> ValidUID (cu_receiver u)) \<or> (cu_enabled u \<and> \<not> ValidUID (cu_receiver u))
      then Inl (Lulu ErrConfigInvalid)
      else bindE (lulu_admin parses actor (ls_db s)) (\<lambda>_.
        bindE (next_config parse_url decoded cipher u s) (\<lambda>new.
        bindE (insert_audit actor ''lulu.config.update'' ''lulu_config'' ''singleton''
                 (PObj [(''before'', lulu_config_payload (lulu_config s)), (''after'', lulu_config_payload new),
                    (''token_changed'', PBool (cu_token u \<noteq> [])), (''protocol_key_changed'', PBool (cu_protocol u \<noteq> []))]) (ls_db s)) (\<lambda>d.
        Inr (new, s\<lparr>lulu_config := new, ls_db := d\<rparr>)))))"

section \<open>transfers.go\<close>

record TransferRecord =
  tr_id :: string
  tr_uid :: string
  tr_item :: int
  tr_amount :: string
  tr_occurred :: int
  tr_linked :: bool
  tr_order :: string
  tr_status :: "lulu_status option"
  tr_method :: string
  tr_reason :: string

definition unlinked :: "string \<Rightarrow> TransferRecord \<Rightarrow> TransferRecord" where
  "unlinked reason r = r\<lparr>tr_linked := False, tr_order := [], tr_status := None, tr_method := [], tr_reason := reason\<rparr>"

definition applyWithdrawalLink :: "(string \<times> lulu_status) list \<Rightarrow> TransferRecord \<Rightarrow> TransferRecord" where
  "applyWithdrawalLink candidates r =
     (if tr_item r \<noteq> 102201 then unlinked ''unsupported_item'' r
      else if \<not> has_prefix ''-'' (tr_amount r) then unlinked ''invalid_transfer_amount'' r
      else case ParseAmount (tl (tr_amount r)) of
        Inl e \<Rightarrow> unlinked ''invalid_transfer_amount'' r
      | Inr n \<Rightarrow>
          (case candidates of
             [] \<Rightarrow> unlinked ''no_matching_withdrawal'' r
           | [(i, st)] \<Rightarrow> r\<lparr>tr_linked := True, tr_order := i, tr_status := Some st, tr_method := ''account_uid_amount_completion_window'', tr_reason := []\<rparr>
           | _ \<Rightarrow> unlinked ''ambiguous_withdrawal'' r))"

definition debited_at :: "lulu_order \<Rightarrow> int \<Rightarrow> int \<Rightarrow> lulu_db \<Rightarrow> bool" where
  "debited_at x since till s = list_ex (\<lambda>e. l_bid e = lo_id x \<and> l_btype e = ''lulu_withdrawal_debit'' \<and> l_etype e = ''lulu_withdrawal_debit''
     \<and> l_operator e = None \<and> since \<le> l_at e \<and> l_at e \<le> till) (ledger (ls_db s))"

definition linkWithdrawal :: "string \<Rightarrow> lulu_db \<Rightarrow> TransferRecord \<Rightarrow> TransferRecord" where
  "linkWithdrawal receiver s r0 =
     (let r = applyWithdrawalLink [] r0 in
      if tr_reason r \<noteq> ''no_matching_withdrawal'' then r
      else applyWithdrawalLink (take 2 (map (\<lambda>x. (lo_id x, lo_status x)) (filter (\<lambda>x. lo_kind x = LuluWithdrawal \<and> lo_status x = LConfirmed
          \<and> lo_receiver x = receiver \<and> lo_uid x = tr_uid r \<and> Some (lo_amount x) = parse_int64 (tl (tr_amount r))
          \<and> debited_at x (tr_occurred r - 30000000) (tr_occurred r + 30000000) s) (lulu_orders s)))) r)"

definition linkDeposit :: "string \<Rightarrow> lulu_db \<Rightarrow> TransferRecord \<Rightarrow> TransferRecord" where
  "linkDeposit receiver s r =
     (case lookup (\<lambda>x. lr_id x = tr_id r \<and> lr_receiver x = receiver) (lulu_receipts s) of
        None \<Rightarrow> r\<lparr>tr_reason := ''no_matching_receipt''\<rparr>
      | Some x \<Rightarrow>
          (case Option.bind (lr_order x) (\<lambda>i. lookup (\<lambda>y. lo_id y = i \<and> lo_kind y = LuluDeposit) (lulu_orders s)) of
             None \<Rightarrow> r\<lparr>tr_reason := ''no_matching_receipt''\<rparr>
           | Some y \<Rightarrow> r\<lparr>tr_order := lo_id y, tr_status := Some (lo_status y), tr_linked := True, tr_method := ''receipt_id'', tr_reason := []\<rparr>))"

text \<open>Two transfers of one page never show the same inferred order.\<close>

definition drop_ambiguous :: "TransferRecord list \<Rightarrow> TransferRecord list" where
  "drop_ambiguous rs = map (\<lambda>r. if tr_linked r \<and> 1 < length (filter (\<lambda>q. tr_linked q \<and> tr_order q = tr_order r) rs)
     then unlinked ''ambiguous_transfer'' r else r) rs"

text \<open>\<open>records\<close> is the remote page, an error when the channel cannot be read.\<close>

definition Transfers :: "(string \<Rightarrow> bool) \<Rightarrow> (string \<Rightarrow> int \<Rightarrow> int \<Rightarrow> error + TransferRecord list) \<Rightarrow> string \<Rightarrow> string \<Rightarrow> int option \<Rightarrow> int option \<Rightarrow> int \<Rightarrow> int
    \<Rightarrow> lulu_db \<Rightarrow> error + TransferRecord list" where
  "Transfers parses records actor direction since till page size' s =
     (if (direction \<noteq> ''received'' \<and> direction \<noteq> ''sent'') \<or> page < 1 \<or> page > 1000 \<or> size' < 1 \<or> size' > 100 then Inl (Lulu LuluInvalid)
      else bindE (lulu_admin parses actor (ls_db s)) (\<lambda>_.
        if \<not> lg_enabled (lulu_config s) then Inl (Lulu LuluDisabled)
        else bindE (records direction page size') (\<lambda>items.
          let receiver = lg_receiver (lulu_config s);
              linked = map (if direction = ''sent'' then linkWithdrawal receiver s else linkDeposit receiver s) items;
              kept = filter (\<lambda>r. (case since of None \<Rightarrow> True | Some t \<Rightarrow> t \<le> tr_occurred r) \<and> (case till of None \<Rightarrow> True | Some t \<Rightarrow> tr_occurred r < t)) linked in
          Inr (if direction = ''sent'' then drop_ambiguous kept else kept))))"

section \<open>One posting\<close>

lemma stone_limit: "max_int64 div stoneScale = 9223372036854775"
  by (simp add: max_int64_def stoneScale_def)

lemma lulu_balance_exact:
  assumes "books_ok d" "lulu_balance x typ da df actor d = Inr d'"
  obtains e where "books_ok d'" "ledger d' = ledger d @ [e]" "l_bid e = lo_id x" "l_btype e = typ"
    "l_avail_delta e = da * stoneScale" "l_frozen_delta e = df * stoneScale" "moved_by d (lo_user x) ORIGIN_STONE (da * stoneScale) (df * stoneScale) d'"
    "money_only d d'" "wallets_kept d d'" "\<exists>w \<in> set (wallets d'). w_id w = l_wallet e \<and> w_user w = lo_user x \<and> w_currency w = ORIGIN_STONE"
proof -
  let ?u = "lo_user x" and ?a = "da * stoneScale" and ?f = "df * stoneScale"
  obtain d1 w d2 where d1: "wallet_row_for ?u ORIGIN_STONE d = Inr d1" and w: "wallet_of d1 ?u ORIGIN_STONE = Some w"
    and funds: "?a < 0 \<longrightarrow> - ?a \<le> w_available w" "?f < 0 \<longrightarrow> - ?f \<le> w_frozen w"
      "?a > 0 \<longrightarrow> w_available w \<le> max_int64 - ?a" "?f > 0 \<longrightarrow> w_frozen w \<le> max_int64 - ?f"
    and d2: "set_balances (w_id w) (w_available w + ?a) (w_frozen w + ?f) d1 = Inr d2"
    and ins: "insert_ledger_row \<lparr>l_id = uuids d2 (next_uuid d2), l_wallet = w_id w, l_btype = typ, l_bid = lo_id x, l_etype = typ,
            l_amount = (if ?a = 0 then ?f else ?a), l_after = w_available w + ?a, l_avail_delta = ?a, l_frozen_delta = ?f,
            l_frozen_after = 0, l_placement = None, l_remark = lulu_remark,
            l_operator = (if actor = [] then None else Some actor), l_at = clock d2\<rparr> (d2\<lparr>next_uuid := Suc (next_uuid d2)\<rparr>) = Inr d'"
    using assms(2) by (force simp: lulu_balance_def new_uuid_def Let_def bindE_eq_Inr orErr_eq_Inr not_less split: if_splits)
  have A: "books_ok d1 \<and> moved_by d ?u ORIGIN_STONE 0 0 d1 \<and> ledger d1 = ledger d \<and> money_only d d1"
    by (rule wallet_row_for_Inr [OF assms(1) d1])
  have ok: "wallets_ok d1" using A books_ok_wallets_ok by blast
  have wi: "wallet_by_id d1 (w_id w) = Some w" by (rule wallet_of_by_id [OF ok w])
  have u: "0 \<le> w_available w + ?a \<and> 0 \<le> w_frozen w + ?f \<and> d2 = wallet_update (w_id w) (w_available w + ?a) (w_frozen w + ?f) d1"
    by (rule set_balances_Inr [OF wi d2])
  have r: "in_range (w_available w)" "in_range (w_frozen w)" using wallet_of_range [OF ok w] by auto
  have v: "in_range (w_available w + ?a)" "in_range (w_frozen w + ?f)"
    using u r funds by (auto simp: in_range_def)
  let ?t = "d2\<lparr>next_uuid := Suc (next_uuid d2)\<rparr>"
  have wt: "wallets ?t = wallets (wallet_update (w_id w) (w_available w + ?a) (w_frozen w + ?f) d1)" and lt: "ledger ?t = ledger d1"
    using u by simp_all
  note p = posting_row [OF _ w v wt lt ins, simplified]
  have P: "books_ok d'" "moved_by d1 ?u ORIGIN_STONE ?a ?f d'" "money_only ?t d'" "wallets d' = wallets ?t" "\<exists>e. ledger d' = ledger d1 @ [e] \<and> l_bid e = lo_id x
      \<and> l_btype e = typ \<and> l_avail_delta e = ?a \<and> l_frozen_delta e = ?f \<and> l_wallet e = w_id w"
    using p A by auto
  obtain e where e: "ledger d' = ledger d1 @ [e]" "l_bid e = lo_id x" "l_btype e = typ" "l_avail_delta e = ?a" "l_frozen_delta e = ?f" "l_wallet e = w_id w"
    using P(5) by blast
  have mv: "moved_by d ?u ORIGIN_STONE ?a ?f d'" using P(2) A by (simp add: moved_by_def)
  have mo: "money_only d d'"
  proof -
    have "money_only d2 ?t" by (simp add: money_only_def)
    then show ?thesis using A P(3) set_balances_money_only [OF d2] money_only_trans by meson
  qed
  have k: "wallets_kept d d'"
    using wallets_kept_trans [OF wallet_row_for_kept [OF d1] wallets_kept_update [of d' "w_id w" _ _ d1]] P(4) wt by metis
  have m: "w \<in> set (wallets d1)" "w_user w = ?u" "w_currency w = ORIGIN_STONE" using wallet_of_mem [OF w] by auto
  have "\<exists>v \<in> set (wallets d'). w_id v = w_id w \<and> w_user v = ?u \<and> w_currency v = ORIGIN_STONE"
    using wallets_kept_update [of d' "w_id w" _ _ d1] P(4) wt m unfolding wallets_kept_def by metis
  then show thesis using that e P(1) A mv mo k by simp
qed

section \<open>Every order is backed by its ledger entries\<close>

text \<open>What the status of an order says about the money: the change of the available and of the frozen balance since it
  was created, in minor units.\<close>

definition due_avail :: "lulu_order \<Rightarrow> int" where
  "due_avail x = (case lo_kind x of
       LuluDeposit \<Rightarrow> if lo_status x = LConfirmed then lo_amount x * stoneScale else 0
     | LuluWithdrawal \<Rightarrow> if lulu_open x \<or> lo_status x = LConfirmed then - (lo_amount x * stoneScale) else 0)"

definition due_frozen :: "lulu_order \<Rightarrow> int" where
  "due_frozen x = (if lo_kind x = LuluWithdrawal \<and> lulu_open x then lo_amount x * stoneScale else 0)"

definition lulu_type :: "string \<Rightarrow> bool" where
  "lulu_type t \<longleftrightarrow> take 5 t = ''lulu_''"

definition lulu_entries :: "string \<Rightarrow> ledger_row list \<Rightarrow> ledger_row list" where
  "lulu_entries i es = filter (\<lambda>e. l_bid e = i \<and> lulu_type (l_btype e)) es"

definition posted_avail :: "string \<Rightarrow> ledger_row list \<Rightarrow> int" where
  "posted_avail i es = sum_list (map l_avail_delta (lulu_entries i es))"

definition posted_frozen :: "string \<Rightarrow> ledger_row list \<Rightarrow> int" where
  "posted_frozen i es = sum_list (map l_frozen_delta (lulu_entries i es))"

lemma posted_append [simp]:
  "posted_avail i (es @ fs) = posted_avail i es + posted_avail i fs" "posted_frozen i (es @ fs) = posted_frozen i es + posted_frozen i fs"
  by (simp_all add: posted_avail_def posted_frozen_def lulu_entries_def)

lemma posted_Nil [simp]: "posted_avail i [] = 0" "posted_frozen i [] = 0"
  by (simp_all add: posted_avail_def posted_frozen_def lulu_entries_def)

lemma posted_single [simp]:
  "posted_avail i [e] = (if l_bid e = i \<and> lulu_type (l_btype e) then l_avail_delta e else 0)"
  "posted_frozen i [e] = (if l_bid e = i \<and> lulu_type (l_btype e) then l_frozen_delta e else 0)"
  by (simp_all add: posted_avail_def posted_frozen_def lulu_entries_def)

lemma posted_other: "\<forall>e \<in> set es. lulu_type (l_btype e) \<longrightarrow> l_bid e \<noteq> i \<Longrightarrow> posted_avail i es = 0 \<and> posted_frozen i es = 0"
  by (induction es) (auto simp: posted_avail_def posted_frozen_def lulu_entries_def)

text \<open>The entry belongs to the stones of the player of an order.\<close>

definition entry_owned :: "lulu_db \<Rightarrow> ledger_row \<Rightarrow> bool" where
  "entry_owned s e \<longleftrightarrow> (\<exists>x \<in> set (lulu_orders s). lo_id x = l_bid e
     \<and> (\<exists>w \<in> set (wallets (ls_db s)). w_id w = l_wallet e \<and> w_user w = lo_user x \<and> w_currency w = ORIGIN_STONE))"

definition deposit_state :: "lulu_status \<Rightarrow> bool" where
  "deposit_state st \<longleftrightarrow> st = LRequested \<or> st = LConfirmed \<or> st = LExpired"

definition orders_backed :: "lulu_db \<Rightarrow> bool" where
  "orders_backed s \<longleftrightarrow> distinct (map lo_id (lulu_orders s))
     \<and> (\<forall>x \<in> set (lulu_orders s). 0 < lo_amount x \<and> lo_amount x \<le> max_int64 div stoneScale \<and> (lo_kind x = LuluDeposit \<longrightarrow> deposit_state (lo_status x))
          \<and> posted_avail (lo_id x) (ledger (ls_db s)) = due_avail x \<and> posted_frozen (lo_id x) (ledger (ls_db s)) = due_frozen x)
     \<and> (\<forall>e \<in> set (ledger (ls_db s)). lulu_type (l_btype e) \<longrightarrow> entry_owned s e)"

text \<open>Receipts and confirmed deposits correspond one to one.\<close>

definition receipt_of :: "lulu_receipt \<Rightarrow> lulu_order \<Rightarrow> bool" where
  "receipt_of r x \<longleftrightarrow> lo_kind x = LuluDeposit \<and> lo_status x = LConfirmed \<and> lo_receipt x = Some (lr_id r) \<and> lo_amount x = lr_amount r
     \<and> lo_uid x = lr_sender r \<and> lo_receiver x = lr_receiver r \<and> lo_created x - lulu_window \<le> lr_occurred r \<and> lr_occurred r \<le> lo_expires x"

definition receipts_linked :: "lulu_db \<Rightarrow> bool" where
  "receipts_linked s \<longleftrightarrow> distinct (map lr_id (lulu_receipts s))
     \<and> (\<forall>r \<in> set (lulu_receipts s). \<forall>i. lr_order r = Some i \<longrightarrow> (\<exists>x \<in> set (lulu_orders s). lo_id x = i \<and> receipt_of r x))
     \<and> (\<forall>x \<in> set (lulu_orders s). lo_kind x = LuluDeposit \<and> lo_status x = LConfirmed
          \<longrightarrow> (\<exists>r \<in> set (lulu_receipts s). lo_receipt x = Some (lr_id r) \<and> lr_order r = Some (lo_id x)))"

text \<open>An order in progress is paid through the configured account: the account is not exchanged under it.\<close>

definition account_fixed :: "lulu_db \<Rightarrow> bool" where
  "account_fixed s \<longleftrightarrow> (\<forall>x \<in> set (lulu_orders s). lulu_open x \<longrightarrow> lo_receiver x = lg_receiver (lulu_config s))"

definition lulu_ok :: "lulu_db \<Rightarrow> bool" where
  "lulu_ok s \<longleftrightarrow> books_ok (ls_db s) \<and> orders_backed s \<and> receipts_linked s \<and> account_fixed s"

definition same_order :: "lulu_order \<Rightarrow> lulu_order \<Rightarrow> bool" where
  "same_order x y \<longleftrightarrow> lo_id y = lo_id x \<and> lo_user y = lo_user x \<and> lo_kind y = lo_kind x \<and> lo_amount y = lo_amount x \<and> lo_uid y = lo_uid x
     \<and> lo_receiver y = lo_receiver x \<and> lo_created y = lo_created x \<and> lo_expires y = lo_expires x"

lemma entry_owned_id: "entry_owned s e \<Longrightarrow> l_bid e \<in> lo_id ` set (lulu_orders s)"
  unfolding entry_owned_def by (metis image_eqI)

lemma entry_owned_map:
  assumes "entry_owned s e" "lulu_orders s' = map h (lulu_orders s)" "\<And>x. x \<in> set (lulu_orders s) \<Longrightarrow> same_order x (h x)"
    and "wallets_kept (ls_db s) (ls_db s')"
  shows "entry_owned s' e"
proof -
  obtain x w where x: "x \<in> set (lulu_orders s)" "lo_id x = l_bid e" "w \<in> set (wallets (ls_db s))" "w_id w = l_wallet e" "w_user w = lo_user x" "w_currency w = ORIGIN_STONE"
    using assms(1) by (auto simp: entry_owned_def)
  obtain v where v: "v \<in> set (wallets (ls_db s'))" "w_id v = l_wallet e" "w_user v = lo_user x" "w_currency v = ORIGIN_STONE"
    using assms(4) x(3-) unfolding wallets_kept_def by metis
  have h: "h x \<in> set (lulu_orders s')" "lo_id (h x) = l_bid e" "lo_user (h x) = lo_user x" using assms(2,3) x(1,2) by (auto simp: same_order_def)
  then show ?thesis unfolding entry_owned_def using v h(3) by metis
qed

text \<open>Orders that change their status, together with the entries posted for them.\<close>

lemma orders_backed_map:
  assumes B: "orders_backed s" and o': "lulu_orders s' = map h (lulu_orders s)" and l': "ledger (ls_db s') = ledger (ls_db s) @ es"
    and k': "wallets_kept (ls_db s) (ls_db s')" and own: "\<And>e. e \<in> set es \<Longrightarrow> lulu_type (l_btype e) \<Longrightarrow> entry_owned s' e"
    and same: "\<And>x. x \<in> set (lulu_orders s) \<Longrightarrow> same_order x (h x)"
    and due: "\<And>x. x \<in> set (lulu_orders s) \<Longrightarrow> due_avail (h x) = due_avail x + posted_avail (lo_id x) es \<and> due_frozen (h x) = due_frozen x + posted_frozen (lo_id x) es"
    and dst: "\<And>x. x \<in> set (lulu_orders s) \<Longrightarrow> lo_kind x = LuluDeposit \<Longrightarrow> deposit_state (lo_status x) \<Longrightarrow> deposit_state (lo_status (h x))"
  shows "orders_backed s'"
  unfolding orders_backed_def
proof (intro conjI ballI impI)
  have ids: "map lo_id (lulu_orders s') = map lo_id (lulu_orders s)" using o' same by (auto simp: same_order_def)
  show "distinct (map lo_id (lulu_orders s'))" using B ids by (simp add: orders_backed_def)
next
  fix y assume "y \<in> set (lulu_orders s')"
  then obtain x where x: "x \<in> set (lulu_orders s)" "y = h x" using o' by auto
  then show "0 < lo_amount y" "lo_amount y \<le> max_int64 div stoneScale" "posted_avail (lo_id y) (ledger (ls_db s')) = due_avail y"
    "posted_frozen (lo_id y) (ledger (ls_db s')) = due_frozen y"
    using B same [OF x(1)] due [OF x(1)] l' by (auto simp: orders_backed_def same_order_def)
  show "lo_kind y = LuluDeposit \<Longrightarrow> deposit_state (lo_status y)"
    using B same [OF x(1)] dst [OF x(1)] x by (auto simp: orders_backed_def same_order_def)
next
  fix e assume "e \<in> set (ledger (ls_db s'))" "lulu_type (l_btype e)"
  then show "entry_owned s' e"
    using B l' own entry_owned_map [OF _ o' same k'] by (auto simp: orders_backed_def)
qed

lemma lulu_ok_map:
  assumes ok: "lulu_ok s" and o': "lulu_orders s' = map h (lulu_orders s)" and r': "lulu_receipts s' = lulu_receipts s"
    and c': "lulu_config s' = lulu_config s" and b': "books_ok (ls_db s')" and l': "ledger (ls_db s') = ledger (ls_db s) @ es"
    and k': "wallets_kept (ls_db s) (ls_db s')" and own: "\<And>e. e \<in> set es \<Longrightarrow> lulu_type (l_btype e) \<Longrightarrow> entry_owned s' e"
    and same: "\<And>x. x \<in> set (lulu_orders s) \<Longrightarrow> same_order x (h x)"
    and due: "\<And>x. x \<in> set (lulu_orders s) \<Longrightarrow> due_avail (h x) = due_avail x + posted_avail (lo_id x) es \<and> due_frozen (h x) = due_frozen x + posted_frozen (lo_id x) es"
    and dep: "\<And>x. x \<in> set (lulu_orders s) \<Longrightarrow> lo_kind x = LuluDeposit \<Longrightarrow> (lo_status (h x) = LConfirmed) = (lo_status x = LConfirmed) \<and> lo_receipt (h x) = lo_receipt x \<and> (deposit_state (lo_status x) \<longrightarrow> deposit_state (lo_status (h x)))"
    and still: "\<And>x. x \<in> set (lulu_orders s) \<Longrightarrow> lulu_open (h x) \<Longrightarrow> lulu_open x"
  shows "lulu_ok s'"
proof -
  have B: "orders_backed s" and R: "receipts_linked s" and A: "account_fixed s" using ok by (simp_all add: lulu_ok_def)
  have "orders_backed s'" using orders_backed_map [OF B o' l' k' own same due] dep by blast
  moreover have "receipts_linked s'"
    unfolding receipts_linked_def
  proof (intro conjI ballI allI impI)
    show "distinct (map lr_id (lulu_receipts s'))" using R r' by (simp add: receipts_linked_def)
  next
    fix r i assume "r \<in> set (lulu_receipts s')" "lr_order r = Some i"
    then obtain x where x: "x \<in> set (lulu_orders s)" "lo_id x = i" "receipt_of r x" using R r' unfolding receipts_linked_def by metis
    then have "lo_id (h x) = i \<and> receipt_of r (h x)" using same [OF x(1)] dep [OF x(1)] by (auto simp: receipt_of_def same_order_def)
    then show "\<exists>x \<in> set (lulu_orders s'). lo_id x = i \<and> receipt_of r x" using o' x(1) by auto
  next
    fix y assume "y \<in> set (lulu_orders s')" and y: "lo_kind y = LuluDeposit \<and> lo_status y = LConfirmed"
    then obtain x where x: "x \<in> set (lulu_orders s)" "y = h x" using o' by auto
    have "lo_kind x = LuluDeposit" using y x same [OF x(1)] by (simp add: same_order_def)
    then have "lo_status x = LConfirmed" "lo_receipt y = lo_receipt x" "lo_id y = lo_id x" using y x dep [OF x(1)] same [OF x(1)] by (auto simp: same_order_def)
    then show "\<exists>r \<in> set (lulu_receipts s'). lo_receipt y = Some (lr_id r) \<and> lr_order r = Some (lo_id y)"
      using R x \<open>lo_kind x = LuluDeposit\<close> r' by (simp add: receipts_linked_def)
  qed
  moreover have "account_fixed s'"
    using A still same c' o' by (fastforce simp: account_fixed_def same_order_def)
  ultimately show ?thesis using b' by (simp add: lulu_ok_def)
qed

lemma lulu_ok_insert:
  assumes ok: "lulu_ok s" and o': "lulu_orders s' = lulu_orders s @ [x]" and r': "lulu_receipts s' = lulu_receipts s"
    and c': "lulu_config s' = lulu_config s" and b': "books_ok (ls_db s')" and l': "ledger (ls_db s') = ledger (ls_db s) @ es"
    and k': "wallets_kept (ls_db s) (ls_db s')" and own: "\<And>e. e \<in> set es \<Longrightarrow> l_bid e = lo_id x \<and> entry_owned s' e"
    and new: "lo_id x \<notin> lo_id ` set (lulu_orders s)" and am: "0 < lo_amount x" "lo_amount x \<le> max_int64 div stoneScale"
    and due: "due_avail x = posted_avail (lo_id x) es" "due_frozen x = posted_frozen (lo_id x) es"
    and dep: "lo_status x = LRequested" and rec: "lo_receiver x = lg_receiver (lulu_config s)"
  shows "lulu_ok s'"
proof -
  have B: "orders_backed s" and R: "receipts_linked s" and A: "account_fixed s" using ok by (simp_all add: lulu_ok_def)
  have old: "entry_owned s' e" if "entry_owned s e" for e
    using that k' o' unfolding entry_owned_def wallets_kept_def by (metis Un_iff set_append)
  have fresh: "posted_avail (lo_id x) (ledger (ls_db s)) = 0 \<and> posted_frozen (lo_id x) (ledger (ls_db s)) = 0"
  proof (intro posted_other ballI impI)
    fix e assume "e \<in> set (ledger (ls_db s))" "lulu_type (l_btype e)"
    then have "l_bid e \<in> lo_id ` set (lulu_orders s)" using B entry_owned_id by (simp add: orders_backed_def)
    then show "l_bid e \<noteq> lo_id x" using new by metis
  qed
  have others: "posted_avail (lo_id y) es = 0 \<and> posted_frozen (lo_id y) es = 0" if "y \<in> set (lulu_orders s)" for y
    by (rule posted_other) (use own new that in auto)
  have "orders_backed s'"
    unfolding orders_backed_def
  proof (intro conjI ballI impI)
    show "distinct (map lo_id (lulu_orders s'))" using B o' new by (auto simp: orders_backed_def)
  next
    fix y assume "y \<in> set (lulu_orders s')"
    then consider "y = x" | "y \<in> set (lulu_orders s)" using o' by auto
    then show "0 < lo_amount y" "lo_amount y \<le> max_int64 div stoneScale" "posted_avail (lo_id y) (ledger (ls_db s')) = due_avail y"
      "posted_frozen (lo_id y) (ledger (ls_db s')) = due_frozen y"
      using B fresh others l' am due by (cases; simp add: orders_backed_def)+
    show "lo_kind y = LuluDeposit \<Longrightarrow> deposit_state (lo_status y)" using \<open>y \<in> set (lulu_orders s')\<close> B o' dep by (auto simp: orders_backed_def deposit_state_def)
  next
    fix e assume "e \<in> set (ledger (ls_db s'))" "lulu_type (l_btype e)"
    then show "entry_owned s' e" using B l' own old by (auto simp: orders_backed_def)
  qed
  moreover have "receipts_linked s'" using R o' r' dep by (auto simp: receipts_linked_def)
  moreover have "account_fixed s'" using A o' c' rec by (auto simp: account_fixed_def)
  ultimately show ?thesis using b' by (simp add: lulu_ok_def)
qed

lemma post_Inr:
  assumes "books_ok (ls_db s)" "post x typ da df actor s = Inr s'"
  obtains e where "books_ok (ls_db s')" "ledger (ls_db s') = ledger (ls_db s) @ [e]" "l_bid e = lo_id x" "l_btype e = typ"
    "l_avail_delta e = da * stoneScale" "l_frozen_delta e = df * stoneScale" "moved_by (ls_db s) (lo_user x) ORIGIN_STONE (da * stoneScale) (df * stoneScale) (ls_db s')"
    "money_only (ls_db s) (ls_db s')" "wallets_kept (ls_db s) (ls_db s')" "s' = s\<lparr>ls_db := ls_db s'\<rparr>"
    "\<exists>w \<in> set (wallets (ls_db s')). w_id w = l_wallet e \<and> w_user w = lo_user x \<and> w_currency w = ORIGIN_STONE"
proof -
  obtain d' where d': "lulu_balance x typ da df actor (ls_db s) = Inr d'" "s' = s\<lparr>ls_db := d'\<rparr>"
    using assms(2) by (auto simp: post_def bindE_eq_Inr)
  obtain e where e: "books_ok d'" "ledger d' = ledger (ls_db s) @ [e]" "l_bid e = lo_id x" "l_btype e = typ"
    "l_avail_delta e = da * stoneScale" "l_frozen_delta e = df * stoneScale" "moved_by (ls_db s) (lo_user x) ORIGIN_STONE (da * stoneScale) (df * stoneScale) d'"
    "money_only (ls_db s) d'" "wallets_kept (ls_db s) d'" "\<exists>w \<in> set (wallets d'). w_id w = l_wallet e \<and> w_user w = lo_user x \<and> w_currency w = ORIGIN_STONE"
    by (rule lulu_balance_exact [OF assms(1) d'(1)])
  show thesis by (rule that [of e]) (use e d'(2) in simp_all)
qed

section \<open>The operations keep the orders backed\<close>

lemma order_amount_id: "0 < lo_amount x \<Longrightarrow> lo_amount x \<le> max_int64 div stoneScale \<Longrightarrow> order_amount x = lo_amount x"
  using format_nat_digits [of "nat (lo_amount x)"] parse_int64_digits [of "format_nat (nat (lo_amount x))"]
  by (auto simp: order_amount_def ParseAmount_def stoneScale_def max_int64_def)

lemma order_by_id_mem: "order_by_id s i = Some x \<Longrightarrow> x \<in> set (lulu_orders s) \<and> lo_id x = i"
  using lookup_SomeD by (fastforce simp: order_by_id_def)

lemma order_unique: "lulu_ok s \<Longrightarrow> x \<in> set (lulu_orders s) \<Longrightarrow> y \<in> set (lulu_orders s) \<Longrightarrow> lo_id y = lo_id x \<Longrightarrow> y = x"
  using distinct_key_eq [of lo_id "lulu_orders s" y x] by (simp add: lulu_ok_def orders_backed_def)

text \<open>A withdrawal changes its status, together with the entries posted for it.\<close>

lemma lulu_ok_step:
  assumes ok: "lulu_ok s" and x: "x \<in> set (lulu_orders s)" "lo_kind x = LuluWithdrawal"
    and o': "lulu_orders s' = modify (\<lambda>y. lo_id y = lo_id x) g (lulu_orders s)" and r': "lulu_receipts s' = lulu_receipts s"
    and c': "lulu_config s' = lulu_config s" and b': "books_ok (ls_db s')" and l': "ledger (ls_db s') = ledger (ls_db s) @ es"
    and k': "wallets_kept (ls_db s) (ls_db s')"
    and own: "\<And>e. e \<in> set es \<Longrightarrow> l_bid e = lo_id x \<and> (\<exists>w \<in> set (wallets (ls_db s')). w_id w = l_wallet e \<and> w_user w = lo_user x \<and> w_currency w = ORIGIN_STONE)"
    and same: "same_order x (g x)" and due: "due_avail (g x) = due_avail x + posted_avail (lo_id x) es" "due_frozen (g x) = due_frozen x + posted_frozen (lo_id x) es"
    and still: "lulu_open (g x) \<Longrightarrow> lulu_open x"
  shows "lulu_ok s'"
proof -
  let ?h = "\<lambda>y. if lo_id y = lo_id x then g y else y"
  have only: "y = x" if "y \<in> set (lulu_orders s)" "lo_id y = lo_id x" for y using order_unique [OF ok x(1) that] .
  have om: "lulu_orders s' = map ?h (lulu_orders s)" using o' by (simp add: modify_def)
  have other: "posted_avail (lo_id y) es = 0 \<and> posted_frozen (lo_id y) es = 0" if "lo_id y \<noteq> lo_id x" for y
    using posted_other [of es "lo_id y"] own that by force
  have gx: "g x \<in> set (lulu_orders s')" using om x(1) by force
  show ?thesis
  proof (rule lulu_ok_map [OF ok om r' c' b' l' k'])
    fix e assume "e \<in> set es"
    then show "entry_owned s' e" using own [OF \<open>e \<in> set es\<close>] gx same unfolding entry_owned_def same_order_def by metis
  next
    fix y assume y: "y \<in> set (lulu_orders s)"
    show "same_order y (?h y)" using only [OF y] same by (auto simp: same_order_def)
    show "due_avail (?h y) = due_avail y + posted_avail (lo_id y) es \<and> due_frozen (?h y) = due_frozen y + posted_frozen (lo_id y) es"
      using only [OF y] due other [of y] by auto
    show "lo_kind y = LuluDeposit \<Longrightarrow> (lo_status (?h y) = LConfirmed) = (lo_status y = LConfirmed) \<and> lo_receipt (?h y) = lo_receipt y
        \<and> (deposit_state (lo_status y) \<longrightarrow> deposit_state (lo_status (?h y)))"
      using only [OF y] x(2) by auto
    show "lulu_open (?h y) \<Longrightarrow> lulu_open y" using only [OF y] still by (cases "lo_id y = lo_id x") auto
  qed
qed

text \<open>A posting followed by the update of its order.\<close>

lemma posted_step:
  assumes ok: "lulu_ok s" and x: "x \<in> set (lulu_orders s)" "lo_kind x = LuluWithdrawal" and p: "post x typ da df actor s = Inr t" "lulu_type typ"
    and s': "lulu_orders s' = modify (\<lambda>y. lo_id y = lo_id x) g (lulu_orders t)" "lulu_receipts s' = lulu_receipts t" "lulu_config s' = lulu_config t"
      "wallets (ls_db s') = wallets (ls_db t)" "ledger (ls_db s') = ledger (ls_db t)"
    and g: "same_order x (g x)" "due_avail (g x) = due_avail x + da * stoneScale" "due_frozen (g x) = due_frozen x + df * stoneScale" "lulu_open (g x) \<Longrightarrow> lulu_open x"
  shows "lulu_ok s' \<and> moved_by (ls_db s) (lo_user x) ORIGIN_STONE (da * stoneScale) (df * stoneScale) (ls_db s')"
proof -
  have b: "books_ok (ls_db s)" using ok by (simp add: lulu_ok_def)
  obtain e where e: "books_ok (ls_db t)" "ledger (ls_db t) = ledger (ls_db s) @ [e]" "l_bid e = lo_id x" "l_btype e = typ"
    "l_avail_delta e = da * stoneScale" "l_frozen_delta e = df * stoneScale" "moved_by (ls_db s) (lo_user x) ORIGIN_STONE (da * stoneScale) (df * stoneScale) (ls_db t)"
    "money_only (ls_db s) (ls_db t)" "wallets_kept (ls_db s) (ls_db t)" "t = s\<lparr>ls_db := ls_db t\<rparr>"
    "\<exists>w \<in> set (wallets (ls_db t)). w_id w = l_wallet e \<and> w_user w = lo_user x \<and> w_currency w = ORIGIN_STONE"
    using b p(1) by (rule post_Inr)
  have t: "lulu_orders t = lulu_orders s" "lulu_receipts t = lulu_receipts s" "lulu_config t = lulu_config s" by (subst e(10), simp)+
  have b': "books_ok (ls_db s')" by (rule books_ok_cong [OF e(1) s'(4,5)])
  have "lulu_ok s'"
    by (rule lulu_ok_step [OF ok x, of s' g "[e]"])
       (use s' t e g p(2) b' in \<open>auto simp: wallets_kept_def\<close>)
  moreover have "moved_by (ls_db s) (lo_user x) ORIGIN_STONE (da * stoneScale) (df * stoneScale) (ls_db s')"
    using e(7) moved_by_cong(2) [OF s'(4)] by simp
  ultimately show ?thesis by blast
qed

lemma status_step:
  assumes ok: "lulu_ok s" and x: "x \<in> set (lulu_orders s)" "lo_kind x = LuluWithdrawal"
    and s': "lulu_orders s' = modify (\<lambda>y. lo_id y = lo_id x) g (lulu_orders s)" "lulu_receipts s' = lulu_receipts s" "lulu_config s' = lulu_config s"
      "wallets (ls_db s') = wallets (ls_db s)" "ledger (ls_db s') = ledger (ls_db s)"
    and g: "same_order x (g x)" "due_avail (g x) = due_avail x" "due_frozen (g x) = due_frozen x" "lulu_open (g x) \<Longrightarrow> lulu_open x"
  shows "lulu_ok s'"
proof -
  have "books_ok (ls_db s)" using ok by (simp add: lulu_ok_def)
  then have b': "books_ok (ls_db s')" by (rule books_ok_cong [OF _ s'(4,5)])
  show ?thesis
    by (rule lulu_ok_step [OF ok x, of s' g "[]"]) (use s' g b' wallets_kept_same [OF s'(4)] in auto)
qed

lemmas withdrawal_status = due_avail_def due_frozen_def lulu_open_def same_order_def lulu_type_def

lemma order_bounds: "lulu_ok s \<Longrightarrow> x \<in> set (lulu_orders s) \<Longrightarrow> order_amount x = lo_amount x"
  using order_amount_id by (simp add: lulu_ok_def orders_backed_def)

lemma review_writes_Inr:
  assumes "review_writes x actor action evidence target s = Inr (y, s')"
  shows "lulu_orders s' = modify (\<lambda>z. lo_id z = lo_id x) (\<lambda>z. z\<lparr>lo_status := target, lo_evidence := evidence, lo_reviewer := Some actor, lo_updated := clock (ls_db s)\<rparr>) (lulu_orders s)
    \<and> lulu_receipts s' = lulu_receipts s \<and> lulu_config s' = lulu_config s \<and> wallets (ls_db s') = wallets (ls_db s) \<and> ledger (ls_db s') = ledger (ls_db s)
    \<and> y = x\<lparr>lo_status := target, lo_evidence := evidence\<rparr>"
  using assms by (auto simp: review_writes_def update_order_def Let_def bindE_eq_Inr dest: insert_audit_frame)

text \<open>The four decisions of a review, in one statement: the posting and the new status.\<close>

lemma review_posted:
  assumes ok: "lulu_ok s" and x: "x \<in> set (lulu_orders s)" "lo_kind x = LuluWithdrawal" and p: "post x typ da df actor s = Inr t" "lulu_type typ"
    and w: "review_writes x actor action evidence target t = Inr (y, s')"
    and due: "\<And>z. lo_kind z = LuluWithdrawal \<Longrightarrow> lo_amount z = lo_amount x \<Longrightarrow> lo_status z = target
        \<Longrightarrow> due_avail z = due_avail x + da * stoneScale \<and> due_frozen z = due_frozen x + df * stoneScale"
    and t: "target = LConfirmed \<or> target = LRejected \<or> target = LFailed"
  shows "lulu_ok s' \<and> moved_by (ls_db s) (lo_user x) ORIGIN_STONE (da * stoneScale) (df * stoneScale) (ls_db s')"
proof -
  note r = review_writes_Inr [OF w]
  show ?thesis
    by (rule posted_step [OF ok x p, of s' "\<lambda>z. z\<lparr>lo_status := target, lo_evidence := evidence, lo_reviewer := Some actor, lo_updated := clock (ls_db t)\<rparr>"])
       (use r due t x in \<open>auto simp: same_order_def lulu_open_def\<close>)
qed

lemma Review_ok:
  assumes ok: "lulu_ok s" and run: "lulu_Review parses i actor action evidence s = Inr (y, s')"
  shows "lulu_ok s'"
proof -
  obtain x where i: "order_by_id s i = Some x" and k: "lo_kind x = LuluWithdrawal"
    using run by (auto simp: lulu_Review_def bindE_eq_Inr orErr_eq_Inr split: if_splits)
  have x: "x \<in> set (lulu_orders s)" and n: "order_amount x = lo_amount x" using order_by_id_mem [OF i] order_bounds [OF ok] by auto
  consider (same) "s' = s"
    | (approve) "lo_status x = LRequested" "review_writes x actor action evidence LApproved s = Inr (y, s')"
    | (reject) t where "lo_status x = LRequested" "post x ''lulu_withdrawal_unfreeze'' (lo_amount x) (- lo_amount x) actor s = Inr t"
        "review_writes x actor action evidence LRejected t = Inr (y, s')"
    | (paid) t where "lo_status x = LUnknown" "post x ''lulu_withdrawal_debit'' 0 (- lo_amount x) actor s = Inr t"
        "review_writes x actor action evidence LConfirmed t = Inr (y, s')"
    | (unpaid) t where "lo_status x = LUnknown" "post x ''lulu_withdrawal_unfreeze'' (lo_amount x) (- lo_amount x) actor s = Inr t"
        "review_writes x actor action evidence LFailed t = Inr (y, s')"
    using run i k n by (auto simp: lulu_Review_def Let_def bindE_eq_Inr split: if_splits)
  then show ?thesis
  proof cases
    case same
    then show ?thesis using ok by simp
  next
    case approve
    note r = review_writes_Inr [OF approve(2)]
    show ?thesis
      by (rule status_step [OF ok x k, of s' "\<lambda>z. z\<lparr>lo_status := LApproved, lo_evidence := evidence, lo_reviewer := Some actor, lo_updated := clock (ls_db s)\<rparr>"])
         (use r approve(1) k in \<open>simp_all add: withdrawal_status\<close>)
  next
    case reject
    then show ?thesis using review_posted [OF ok x k reject(2) _ reject(3)] k by (simp add: withdrawal_status)
  next
    case paid
    then show ?thesis using review_posted [OF ok x k paid(2) _ paid(3)] k by (simp add: withdrawal_status)
  next
    case unpaid
    then show ?thesis using review_posted [OF ok x k unpaid(2) _ unpaid(3)] k by (simp add: withdrawal_status)
  qed
qed

lemma finish_ok:
  assumes ok: "lulu_ok s" and run: "finish_transfer i result s = Inr s'"
  shows "lulu_ok s'"
proof -
  obtain x where i: "order_by_id s i = Some x" and st: "lo_status x = LSending"
    using run by (auto simp: finish_transfer_def bindE_eq_Inr orErr_eq_Inr split: if_splits)
  have m: "x \<in> set (lulu_orders s)" "lo_id x = i" and n: "order_amount x = lo_amount x"
    using order_by_id_mem [OF i] order_bounds [OF ok] by auto
  then have "lo_kind x = LuluWithdrawal" using ok st by (cases "lo_kind x") (auto simp: lulu_ok_def orders_backed_def deposit_state_def)
  then have x: "x \<in> set (lulu_orders s)" "lo_kind x = LuluWithdrawal" "lo_id x = i" using m by simp_all
  show ?thesis
  proof (cases result)
    case TransferConfirmed
    then obtain t where t: "post x ''lulu_withdrawal_debit'' 0 (- lo_amount x) [] s = Inr t" "s' = update_order i (\<lambda>x. x\<lparr>lo_status := LConfirmed\<rparr>) t"
      using run i st n by (auto simp: finish_transfer_def bindE_eq_Inr)
    show ?thesis
      by (rule posted_step [OF ok x(1,2) t(1), of s' "\<lambda>z. z\<lparr>lo_status := LConfirmed, lo_updated := clock (ls_db t)\<rparr>", THEN conjunct1])
         (use t(2) st x in \<open>simp_all add: withdrawal_status update_order_def\<close>)
  next
    case TransferFailed
    then obtain t where t: "post x ''lulu_withdrawal_unfreeze'' (lo_amount x) (- lo_amount x) [] s = Inr t" "s' = update_order i (\<lambda>x. x\<lparr>lo_status := LFailed\<rparr>) t"
      using run i st n by (auto simp: finish_transfer_def Let_def bindE_eq_Inr)
    show ?thesis
      by (rule posted_step [OF ok x(1,2) t(1), of s' "\<lambda>z. z\<lparr>lo_status := LFailed, lo_updated := clock (ls_db t)\<rparr>", THEN conjunct1])
         (use t(2) st x in \<open>simp_all add: withdrawal_status update_order_def\<close>)
  next
    case TransferUnknown
    then have s': "s' = update_order i (\<lambda>x. x\<lparr>lo_status := LUnknown\<rparr>) s" using run i st by (simp add: finish_transfer_def)
    show ?thesis
      by (rule status_step [OF ok x(1,2), of s' "\<lambda>z. z\<lparr>lo_status := LUnknown, lo_updated := clock (ls_db s)\<rparr>"])
         (use s' st x in \<open>simp_all add: withdrawal_status update_order_def\<close>)
  qed
qed

lemma dispatch_begin_ok:
  assumes ok: "lulu_ok s" and run: "dispatch_begin receiver version s = (x, s')"
  shows "lulu_ok s'"
proof (cases "s' = s")
  case False
  then obtain z zs where hd: "sort_key lo_created (filter (\<lambda>x. lo_kind x = LuluWithdrawal \<and> lo_status x = LApproved \<and> lo_receiver x = receiver) (lulu_orders s)) = z # zs"
    and s': "s' = update_order (lo_id z) (\<lambda>x. x\<lparr>lo_status := LSending\<rparr>) s"
    using run by (auto simp: dispatch_begin_def split: if_splits list.splits)
  have "z \<in> set (sort_key lo_created (filter (\<lambda>x. lo_kind x = LuluWithdrawal \<and> lo_status x = LApproved \<and> lo_receiver x = receiver) (lulu_orders s)))" by (simp only: hd list.set_intros)
  then have z: "z \<in> set (lulu_orders s)" "lo_kind z = LuluWithdrawal" "lo_status z = LApproved" by auto
  show ?thesis
    by (rule status_step [OF ok z(1,2), of s' "\<lambda>x. x\<lparr>lo_status := LSending, lo_updated := clock (ls_db s)\<rparr>"])
       (use s' z in \<open>simp_all add: withdrawal_status update_order_def\<close>)
qed (use ok in simp)

text \<open>Statements that move many orders and no money.\<close>

lemma lulu_ok_moves:
  assumes ok: "lulu_ok s" and s': "s' = s\<lparr>lulu_orders := modify P g (lulu_orders s)\<rparr>"
    and g: "\<And>x. x \<in> set (lulu_orders s) \<Longrightarrow> P x \<Longrightarrow> same_order x (g x) \<and> lo_receipt (g x) = lo_receipt x \<and> due_avail (g x) = due_avail x \<and> due_frozen (g x) = due_frozen x
        \<and> (lo_kind x = LuluDeposit \<longrightarrow> (lo_status (g x) = LConfirmed) = (lo_status x = LConfirmed) \<and> (deposit_state (lo_status x) \<longrightarrow> deposit_state (lo_status (g x)))) \<and> (lulu_open (g x) \<longrightarrow> lulu_open x)"
  shows "lulu_ok s'"
proof (rule lulu_ok_map [OF ok, of s' "\<lambda>x. if P x then g x else x" "[]"])
  show "lulu_orders s' = map (\<lambda>x. if P x then g x else x) (lulu_orders s)" using s' by (simp add: modify_def)
qed (use ok s' g in \<open>auto simp: lulu_ok_def same_order_def wallets_kept_same split: if_splits\<close>)

lemma expire_ok: "lulu_ok s \<Longrightarrow> lulu_ok (expire_orders P s)"
  by (erule lulu_ok_moves [OF _ expire_orders_def]) (simp add: withdrawal_status deposit_state_def)

lemma RecoverSending_ok: "lulu_ok s \<Longrightarrow> lulu_ok (RecoverSending receiver s)"
  by (erule lulu_ok_moves [OF _ RecoverSending_def]) (simp add: withdrawal_status)

lemma credit_receipt_ok:
  assumes ok: "lulu_ok s" and x: "x \<in> set (lulu_orders s)" "lo_kind x = LuluDeposit" "lo_status x \<noteq> LConfirmed"
    and r: "r \<in> set (lulu_receipts s)" "lr_order r = None" "lr_receiver r = lo_receiver x" "lr_sender r = lo_uid x" "lr_amount r = lo_amount x"
      "lo_created x - lulu_window \<le> lr_occurred r" "lr_occurred r \<le> lo_expires x"
    and run: "credit_receipt x (lr_id r) (lo_amount x) s = Inr s'"
  shows "lulu_ok s' \<and> moved_by (ls_db s) (lo_user x) ORIGIN_STONE (lo_amount x * stoneScale) 0 (ls_db s')
    \<and> lulu_receipts s' = modify (\<lambda>q. lr_id q = lr_id r) (\<lambda>q. q\<lparr>lr_order := Some (lo_id x)\<rparr>) (lulu_receipts s)
    \<and> lulu_orders s' = modify (\<lambda>y. lo_id y = lo_id x) (\<lambda>y. y\<lparr>lo_status := LConfirmed, lo_receipt := Some (lr_id r), lo_updated := clock (ls_db s)\<rparr>) (lulu_orders s)
    \<and> money_only (ls_db s) (ls_db s') \<and> lulu_config s' = lulu_config s"
proof -
  let ?g = "\<lambda>y. y\<lparr>lo_status := LConfirmed, lo_receipt := Some (lr_id r), lo_updated := clock (ls_db s)\<rparr>"
  let ?h = "\<lambda>y. if lo_id y = lo_id x then ?g y else y" and ?q = "\<lambda>q. if lr_id q = lr_id r then q\<lparr>lr_order := Some (lo_id x)\<rparr> else q"
  have B: "books_ok (ls_db s)" "orders_backed s" and R: "receipts_linked s" and A: "account_fixed s" using ok by (simp_all add: lulu_ok_def)
  let ?s1 = "s\<lparr>lulu_receipts := modify (\<lambda>q. lr_id q = lr_id r) (\<lambda>q. q\<lparr>lr_order := Some (lo_id x)\<rparr>) (lulu_receipts s)\<rparr>"
  obtain t where t: "post x ''lulu_deposit'' (lo_amount x) 0 [] ?s1 = Inr t" and s': "s' = update_order (lo_id x) (\<lambda>y. y\<lparr>lo_status := LConfirmed, lo_receipt := Some (lr_id r)\<rparr>) t"
    using run by (auto simp: credit_receipt_def link_receipt_def confirm_order_def bindE_eq_Inr split: if_splits)
  have b1: "books_ok (ls_db ?s1)" using B by simp
  obtain e where e: "books_ok (ls_db t)" "ledger (ls_db t) = ledger (ls_db ?s1) @ [e]" "l_bid e = lo_id x" "l_btype e = ''lulu_deposit''"
    "l_avail_delta e = lo_amount x * stoneScale" "l_frozen_delta e = 0 * stoneScale" "moved_by (ls_db ?s1) (lo_user x) ORIGIN_STONE (lo_amount x * stoneScale) (0 * stoneScale) (ls_db t)"
    "money_only (ls_db ?s1) (ls_db t)" "wallets_kept (ls_db ?s1) (ls_db t)" "t = ?s1\<lparr>ls_db := ls_db t\<rparr>"
    "\<exists>w \<in> set (wallets (ls_db t)). w_id w = l_wallet e \<and> w_user w = lo_user x \<and> w_currency w = ORIGIN_STONE"
    using b1 t by (rule post_Inr)
  have ts: "lulu_orders t = lulu_orders s" "lulu_receipts t = lulu_receipts ?s1" "lulu_config t = lulu_config s" by (subst e(10), simp)+
  have ck: "clock (ls_db t) = clock (ls_db s)" using money_onlyD(1) [OF e(8)] by simp
  have om: "lulu_orders s' = map ?h (lulu_orders s)" using s' ts ck by (simp add: update_order_def modify_def)
  have rm: "lulu_receipts s' = map ?q (lulu_receipts s)" using s' ts by (simp add: update_order_def modify_def)
  have db: "ls_db s' = ls_db t" and cs: "lulu_config s' = lulu_config s" using s' ts by (simp_all add: update_order_def)
  have only: "y = x" if "y \<in> set (lulu_orders s)" "lo_id y = lo_id x" for y using order_unique [OF ok x(1) that] .
  have onlyr: "q = r" if "q \<in> set (lulu_receipts s)" "lr_id q = lr_id r" for q
    using distinct_key_eq [of lr_id "lulu_receipts s" q r] that r(1) R by (simp add: receipts_linked_def)
  have gx: "?g x \<in> set (lulu_orders s')" using om x(1) by force
  have "orders_backed s'"
  proof (rule orders_backed_map [OF B(2) om, of "[e]"])
    show "ledger (ls_db s') = ledger (ls_db s) @ [e]" "wallets_kept (ls_db s) (ls_db s')" using e db by simp_all
    show "entry_owned s' f" if "f \<in> set [e]" for f
    proof -
      obtain w where "w \<in> set (wallets (ls_db t))" "w_id w = l_wallet e" "w_user w = lo_user x" "w_currency w = ORIGIN_STONE" using e(11) by blast
      then show ?thesis using that gx e(3) db unfolding entry_owned_def by (intro bexI [of _ "?g x"] conjI bexI [of _ w]) simp_all
    qed
    fix y assume y: "y \<in> set (lulu_orders s)"
    show "same_order y (?h y)" by (simp add: same_order_def)
    have "due_avail x = 0" "due_frozen x = 0" using x by (simp_all add: due_avail_def due_frozen_def)
    then show "due_avail (?h y) = due_avail y + posted_avail (lo_id y) [e] \<and> due_frozen (?h y) = due_frozen y + posted_frozen (lo_id y) [e]"
      using only [OF y] x e(3-6) by (cases "lo_id y = lo_id x") (auto simp: due_avail_def due_frozen_def lulu_type_def)
    show "lo_kind y = LuluDeposit \<Longrightarrow> deposit_state (lo_status y) \<Longrightarrow> deposit_state (lo_status (?h y))" by (simp add: deposit_state_def)
  qed
  moreover have "receipts_linked s'"
    unfolding receipts_linked_def
  proof (intro conjI ballI allI impI)
    show "distinct (map lr_id (lulu_receipts s'))" using R rm by (simp add: receipts_linked_def comp_def if_distrib cong: if_cong)
  next
    fix q i assume "q \<in> set (lulu_receipts s')" and qi: "lr_order q = Some i"
    then obtain p where p: "p \<in> set (lulu_receipts s)" "q = ?q p" using rm by auto
    show "\<exists>y \<in> set (lulu_orders s'). lo_id y = i \<and> receipt_of q y"
    proof (cases "lr_id p = lr_id r")
      case True
      then have "receipt_of q (?g x)" "lo_id (?g x) = i" using onlyr [OF p(1)] p(2) qi r x by (auto simp: receipt_of_def)
      then show ?thesis using gx by blast
    next
      case False
      then obtain y where y: "y \<in> set (lulu_orders s)" "lo_id y = i" "receipt_of p y" using R p qi unfolding receipts_linked_def by auto
      then have "lo_id y \<noteq> lo_id x" using only [OF y(1)] x(3) by (auto simp: receipt_of_def)
      then have "y \<in> set (lulu_orders s')" using om y(1) by force
      then show ?thesis using y p(2) False by auto
    qed
  next
    fix z assume "z \<in> set (lulu_orders s')" and zk: "lo_kind z = LuluDeposit \<and> lo_status z = LConfirmed"
    then obtain y where y: "y \<in> set (lulu_orders s)" "z = ?h y" using om by auto
    show "\<exists>q \<in> set (lulu_receipts s'). lo_receipt z = Some (lr_id q) \<and> lr_order q = Some (lo_id z)"
    proof (cases "lo_id y = lo_id x")
      case True
      have "?q r \<in> set (lulu_receipts s')" using rm r(1) by force
      then show ?thesis using True y(2) by (intro bexI [of _ "?q r"]) simp_all
    next
      case False
      then obtain p where p: "p \<in> set (lulu_receipts s)" "lo_receipt y = Some (lr_id p)" "lr_order p = Some (lo_id y)"
        using R y zk unfolding receipts_linked_def by auto
      then have "lr_id p \<noteq> lr_id r" using onlyr [OF p(1)] r(2) by auto
      then have "p \<in> set (lulu_receipts s')" using rm p(1) by force
      then show ?thesis using p y(2) False by auto
    qed
  qed
  moreover have "account_fixed s'" using A om cs by (auto simp: account_fixed_def lulu_open_def)
  ultimately have "lulu_ok s'" using e(1) db by (simp add: lulu_ok_def)
  then show ?thesis using e(7,8) db om rm cs by (simp add: modify_def)
qed

lemma lulu_ok_cong:
  assumes "lulu_ok s" "lulu_orders s' = lulu_orders s" "lulu_receipts s' = lulu_receipts s" "lulu_config s' = lulu_config s"
    and "wallets (ls_db s') = wallets (ls_db s)" "ledger (ls_db s') = ledger (ls_db s)"
  shows "lulu_ok s'"
proof -
  have "books_ok (ls_db s)" using assms(1) by (simp add: lulu_ok_def)
  then have "books_ok (ls_db s')" by (rule books_ok_cong [OF _ assms(5,6)])
  then show ?thesis
    using assms by (simp add: lulu_ok_def orders_backed_def receipts_linked_def account_fixed_def entry_owned_def)
qed

lemma match_receipt_Some:
  assumes "match_receipt x n s = Some r"
  shows "r \<in> set (lulu_receipts s) \<and> lr_receiver r = lo_receiver x \<and> lr_sender r = lo_uid x \<and> lr_amount r = n \<and> lr_order r = None
    \<and> lo_created x - lulu_window \<le> lr_occurred r \<and> lr_occurred r \<le> lo_expires x"
proof -
  let ?f = "filter (\<lambda>r. lr_receiver r = lo_receiver x \<and> lr_sender r = lo_uid x \<and> lr_amount r = n
      \<and> lr_order r = None \<and> lo_created x - lulu_window \<le> lr_occurred r \<and> lr_occurred r \<le> lo_expires x) (lulu_receipts s)"
  obtain rs where hd: "sort_key lr_occurred (sort_key lr_id ?f) = r # rs"
    using assms by (auto simp: match_receipt_def split: list.splits)
  have "r \<in> set (sort_key lr_occurred (sort_key lr_id ?f))" by (simp only: hd list.set_intros)
  then show ?thesis by auto
qed

lemma match_order_Some:
  assumes "match_order r s = Some x"
  shows "x \<in> set (lulu_orders s) \<and> lo_kind x = LuluDeposit \<and> (lo_status x = LRequested \<or> lo_status x = LExpired) \<and> lo_receiver x = lr_receiver r
    \<and> lo_uid x = lr_sender r \<and> lo_amount x = lr_amount r \<and> lo_created x - lulu_window \<le> lr_occurred r \<and> lr_occurred r \<le> lo_expires x"
proof -
  let ?f = "filter (\<lambda>x. lo_kind x = LuluDeposit \<and> (lo_status x = LRequested \<or> lo_status x = LExpired) \<and> lo_receiver x = lr_receiver r
       \<and> lo_uid x = lr_sender r \<and> lo_amount x = lr_amount r \<and> lo_created x - lulu_window \<le> lr_occurred r \<and> lr_occurred r \<le> lo_expires x) (lulu_orders s)"
  obtain xs where hd: "sort_key lo_created ?f = x # xs"
    using assms by (auto simp: match_order_def split: list.splits)
  have "x \<in> set (sort_key lo_created ?f)" by (simp only: hd list.set_intros)
  then show ?thesis by auto
qed

text \<open>The order a request makes, and what becomes of it.\<close>

lemma new_order_simps:
  assumes "new_order user k i n s = (x, t)"
  shows "lulu_orders t = lulu_orders s \<and> lulu_receipts t = lulu_receipts s \<and> lulu_config t = lulu_config s \<and> wallets (ls_db t) = wallets (ls_db s)
    \<and> ledger (ls_db t) = ledger (ls_db s) \<and> clock (ls_db t) = clock (ls_db s) \<and> lo_user x = user \<and> lo_kind x = k \<and> lo_uid x = li_uid i
    \<and> lo_receiver x = lg_receiver (lulu_config s) \<and> lo_amount x = n \<and> lo_status x = LRequested \<and> lo_request x = li_request i"
  using assms by (auto simp: new_order_def new_uuid_def Let_def)

lemma insert_order_Inr:
  assumes "insert_order x s = Inr s'"
  shows "s' = s\<lparr>lulu_orders := lulu_orders s @ [x]\<rparr> \<and> lo_id x \<notin> lo_id ` set (lulu_orders s)"
  using assms by (auto simp: insert_order_def order_by_id_def lookup_None_iff split: if_splits)

lemma inserted_ok:
  assumes ok: "lulu_ok s" and new: "new_order user k i n s = (x, t)" and ins: "insert_order x t = Inr u" and n: "0 < n" "n \<le> max_int64 div stoneScale"
    and k: "k = LuluDeposit"
  shows "lulu_ok u"
proof -
  note N = new_order_simps [OF new] and I = insert_order_Inr [OF ins]
  have "books_ok (ls_db s)" using ok by (simp add: lulu_ok_def)
  then have b: "books_ok (ls_db u)" by (rule books_ok_cong) (use N I in simp_all)
  show ?thesis
    by (rule lulu_ok_insert [OF ok, of u x "[]"]) (use N I n k b in \<open>auto simp: due_avail_def due_frozen_def wallets_kept_same\<close>)
qed

lemma create_deposit_ok:
  assumes ok: "lulu_ok s0" and n: "0 < n" "n \<le> max_int64 div stoneScale" and run: "create_deposit user i n s0 = Inr (y, s')"
  shows "lulu_ok s'"
proof -
  let ?s = "expire_orders (\<lambda>x. lo_receiver x = lg_receiver (lulu_config s0) \<and> lo_uid x = li_uid i) s0"
  obtain x t where new: "new_order user LuluDeposit i n ?s = (x, t)" by (cases "new_order user LuluDeposit i n ?s")
  obtain u where ins: "insert_order x t = Inr u"
    and m: "(case match_receipt x n u of None \<Rightarrow> Inr (x, u) | Some r \<Rightarrow> bindE (credit_receipt x (lr_id r) n u) (\<lambda>s.
              Inr (x\<lparr>lo_status := LConfirmed, lo_receipt := Some (lr_id r)\<rparr>, s))) = Inr (y, s')"
    using run new by (auto simp: create_deposit_def Let_def bindE_eq_Inr split: option.splits)
  have u: "lulu_ok u" using inserted_ok [OF expire_ok [OF ok] new ins n] by simp
  show ?thesis
  proof (cases "match_receipt x n u")
    case None
    then show ?thesis using m u by simp
  next
    case (Some r)
    have N: "lo_kind x = LuluDeposit" "lo_status x \<noteq> LConfirmed" "lo_amount x = n" using new_order_simps [OF new] by simp_all
    have R: "r \<in> set (lulu_receipts u)" "lr_order r = None" "lr_receiver r = lo_receiver x" "lr_sender r = lo_uid x" "lr_amount r = lo_amount x"
      "lo_created x - lulu_window \<le> lr_occurred r" "lr_occurred r \<le> lo_expires x" using match_receipt_Some [OF Some] N by simp_all
    have x: "x \<in> set (lulu_orders u)" using insert_order_Inr [OF ins] by simp
    have "credit_receipt x (lr_id r) (lo_amount x) u = Inr s'" using m Some N by (auto simp: bindE_eq_Inr)
    then show ?thesis using credit_receipt_ok [OF u x N(1,2) R] by blast
  qed
qed

lemma create_withdrawal_ok:
  assumes ok: "lulu_ok s" and n: "0 < n" "n \<le> max_int64 div stoneScale" and run: "create_withdrawal user i n s = Inr (y, s')"
  shows "lulu_ok s' \<and> moved_by (ls_db s) user ORIGIN_STONE (- (n * stoneScale)) (n * stoneScale) (ls_db s')"
proof -
  obtain x t where new: "new_order user LuluWithdrawal i n s = (x, t)" by (cases "new_order user LuluWithdrawal i n s")
  obtain u where ins: "insert_order x t = Inr u" and p: "post x ''lulu_withdrawal_freeze'' (- n) n [] u = Inr s'"
    using run new by (auto simp: create_withdrawal_def Let_def bindE_eq_Inr)
  note N = new_order_simps [OF new] and I = insert_order_Inr [OF ins]
  have "books_ok (ls_db s)" using ok by (simp add: lulu_ok_def)
  then have b: "books_ok (ls_db u)" by (rule books_ok_cong) (use N I in simp_all)
  obtain e where e: "books_ok (ls_db s')" "ledger (ls_db s') = ledger (ls_db u) @ [e]" "l_bid e = lo_id x" "l_btype e = ''lulu_withdrawal_freeze''"
    "l_avail_delta e = - n * stoneScale" "l_frozen_delta e = n * stoneScale" "moved_by (ls_db u) (lo_user x) ORIGIN_STONE (- n * stoneScale) (n * stoneScale) (ls_db s')"
    "money_only (ls_db u) (ls_db s')" "wallets_kept (ls_db u) (ls_db s')" "s' = u\<lparr>ls_db := ls_db s'\<rparr>"
    "\<exists>w \<in> set (wallets (ls_db s')). w_id w = l_wallet e \<and> w_user w = lo_user x \<and> w_currency w = ORIGIN_STONE"
    using b p by (rule post_Inr)
  have us: "lulu_orders s' = lulu_orders s @ [x]" "lulu_receipts s' = lulu_receipts s" "lulu_config s' = lulu_config s"
    using N I by (subst e(10), simp)+
  have "lulu_ok s'"
  proof (rule lulu_ok_insert [OF ok us e(1), of "[e]"])
    show "ledger (ls_db s') = ledger (ls_db s) @ [e]" "wallets_kept (ls_db s) (ls_db s')" using e(2,9) N I by (simp_all add: wallets_kept_def)
    show "l_bid f = lo_id x \<and> entry_owned s' f" if "f \<in> set [e]" for f
      using that e(3,11) us(1) by (auto simp: entry_owned_def)
    show "due_avail x = posted_avail (lo_id x) [e]" "due_frozen x = posted_frozen (lo_id x) [e]"
      using e N by (simp_all add: withdrawal_status)
  qed (use N I n in simp_all)
  moreover have "wallets (ls_db u) = wallets (ls_db s)" using N I by simp
  then have "moved_by (ls_db s) user ORIGIN_STONE (- (n * stoneScale)) (n * stoneScale) (ls_db s')"
    using e(7) moved_by_cong(1) [of "ls_db u" "ls_db s"] N by simp
  ultimately show ?thesis by blast
qed

lemma ParseAmount_bounds: "ParseAmount v = Inr n \<Longrightarrow> 0 < n \<and> n \<le> max_int64 div stoneScale"
  by (auto simp: ParseAmount_def split: if_splits option.splits)

lemma Create_lulu_ok:
  assumes ok: "lulu_ok s" and run: "lulu_Create parses user kind i s = Inr (y, s')"
  shows "lulu_ok s'"
proof -
  obtain n k where n: "ParseAmount (li_amount i) = Inr n" and k: "lulu_kind_of kind = Some k"
    using run by (auto simp: lulu_Create_def split: sum.splits option.splits)
  consider "s' = s" | "create_deposit user i n s = Inr (y, s')" | "create_withdrawal user i n s = Inr (y, s')"
    using run n k by (auto simp: lulu_Create_def bindE_eq_Inr split: option.splits if_splits lulu_kind.splits)
  then show ?thesis
    by cases (use ok create_deposit_ok [OF ok] create_withdrawal_ok [OF ok] ParseAmount_bounds [OF n] in auto)
qed

lemma store_receipt_ok:
  assumes "lulu_ok s"
  shows "lulu_ok (store_receipt r s)"
proof (cases "list_ex (\<lambda>x. lr_id x = lr_id r) (lulu_receipts s)")
  case False
  then have "lr_id r \<notin> lr_id ` set (lulu_receipts s)" by (auto simp: list_ex_iff)
  then show ?thesis using assms False
    by (auto simp: store_receipt_def lulu_ok_def orders_backed_def receipts_linked_def account_fixed_def entry_owned_def)
qed (use assms in \<open>simp add: store_receipt_def\<close>)

lemma store_receipt_simps [simp]:
  "lulu_orders (store_receipt r s) = lulu_orders s" "ls_db (store_receipt r s) = ls_db s" "lulu_config (store_receipt r s) = lulu_config s"
  "match_order r (store_receipt q s) = match_order r s"
  by (simp_all add: store_receipt_def match_order_def)

lemma stored_again: "list_ex (\<lambda>x. lr_id x = lr_id r) (lulu_receipts (store_receipt r s))"
  by (auto simp: store_receipt_def list_ex_iff)

lemma RecordReceipt_cases:
  assumes "RecordReceipt receiver r s = Inr s'"
  obtains (kept) "s' = store_receipt r s" "match_order r s = None \<or> (\<exists>q i. lookup (\<lambda>x. lr_id x = lr_id r) (lulu_receipts s') = Some q \<and> lr_order q = Some i)"
    | (credited) q x where "lookup (\<lambda>x. lr_id x = lr_id r) (lulu_receipts (store_receipt r s)) = Some q" "lr_order q = None"
        "lr_receiver q = lr_receiver r" "lr_sender q = lr_sender r" "lr_amount q = lr_amount r" "lr_occurred q = lr_occurred r"
        "match_order r s = Some x" "credit_receipt x (lr_id r) (lr_amount r) (store_receipt r s) = Inr s'"
proof -
  let ?t = "store_receipt r s"
  obtain q where q: "lookup (\<lambda>x. lr_id x = lr_id r) (lulu_receipts ?t) = Some q"
    and e: "lr_receiver q = lr_receiver r" "lr_sender q = lr_sender r" "lr_amount q = lr_amount r" "lr_occurred q = lr_occurred r"
    and rest: "(if lr_order q \<noteq> None then Inr ?t else case match_order r ?t of None \<Rightarrow> Inr ?t
        | Some x \<Rightarrow> credit_receipt x (lr_id r) (lr_amount r) ?t) = Inr s'"
    using assms unfolding RecordReceipt_def Let_def by (force simp only: if_Inl_eq_Inr bindE_eq_Inr orErr_eq_Inr)
  show thesis
  proof (cases "lr_order q")
    case (Some i)
    then show thesis using rest q kept by simp
  next
    case None
    then show thesis using rest q e kept credited by (cases "match_order r s") simp_all
  qed
qed

lemma RecordReceipt_credits:
  assumes ok: "lulu_ok s" and q: "lookup (\<lambda>x. lr_id x = lr_id r) (lulu_receipts (store_receipt r s)) = Some q" "lr_order q = None"
        "lr_receiver q = lr_receiver r" "lr_sender q = lr_sender r" "lr_amount q = lr_amount r" "lr_occurred q = lr_occurred r"
    and x: "match_order r s = Some x" and run: "credit_receipt x (lr_id r) (lr_amount r) (store_receipt r s) = Inr s'"
  shows "lulu_ok s' \<and> moved_by (ls_db s) (lo_user x) ORIGIN_STONE (lr_amount r * stoneScale) 0 (ls_db s')
    \<and> lulu_receipts s' = modify (\<lambda>p. lr_id p = lr_id r) (\<lambda>p. p\<lparr>lr_order := Some (lo_id x)\<rparr>) (lulu_receipts (store_receipt r s))
    \<and> lulu_orders s' = modify (\<lambda>y. lo_id y = lo_id x) (\<lambda>y. y\<lparr>lo_status := LConfirmed, lo_receipt := Some (lr_id r), lo_updated := clock (ls_db s)\<rparr>) (lulu_orders s)
    \<and> money_only (ls_db s) (ls_db s') \<and> lulu_config s' = lulu_config s"
proof -
  note X = match_order_Some [OF x]
  have i: "q \<in> set (lulu_receipts (store_receipt r s))" "lr_id q = lr_id r" using lookup_SomeD [OF q(1)] by auto
  have m: "x \<in> set (lulu_orders (store_receipt r s))" "lo_kind x = LuluDeposit" "lo_status x \<noteq> LConfirmed" using X by auto
  have w: "lr_receiver q = lo_receiver x" "lr_sender q = lo_uid x" "lr_amount q = lo_amount x"
      "lo_created x - lulu_window \<le> lr_occurred q" "lr_occurred q \<le> lo_expires x" using X q by simp_all
  have "credit_receipt x (lr_id q) (lo_amount x) (store_receipt r s) = Inr s'" using run i X by simp
  then show ?thesis using credit_receipt_ok [OF store_receipt_ok [OF ok] m i(1) q(2) w] X i(2) by simp
qed

lemma RecordReceipt_ok: "lulu_ok s \<Longrightarrow> RecordReceipt receiver r s = Inr s' \<Longrightarrow> lulu_ok s'"
  by (erule RecordReceipt_cases) (use store_receipt_ok RecordReceipt_credits in blast)+

lemma record_all_ok: "lulu_ok s \<Longrightarrow> lulu_ok (snd (record_all receiver rs s))"
  by (induction rs arbitrary: s) (auto split: sum.splits dest: RecordReceipt_ok)

lemma ReconcileStored_ok: "lulu_ok s \<Longrightarrow> lulu_ok (snd (ReconcileStored receiver s))"
  by (simp add: ReconcileStored_def record_all_ok)

lemma collector_ok: "lulu_ok s \<Longrightarrow> lulu_ok (update_collector receiver g s)" "lulu_ok s \<Longrightarrow> lulu_ok (ensure_collector receiver s)"
  by (erule lulu_ok_cong; simp add: update_collector_def ensure_collector_def)+

lemma Collect_ok:
  assumes "lulu_ok s"
  shows "lulu_ok (snd (Collect receiver version receipts start s))"
proof -
  obtain e t where t: "ReconcileStored receiver s = (e, t)" by (cases "ReconcileStored receiver s")
  have t_ok: "lulu_ok t" using ReconcileStored_ok [OF assms, of receiver] t by simp
  have u_ok: "lulu_ok (ensure_collector receiver t)" by (rule collector_ok(2) [OF t_ok])
  have all: "lulu_ok v" if "record_all receiver rs (ensure_collector receiver t) = (f, v)" for rs f v
    using record_all_ok [OF u_ok, of receiver rs] that by simp
  show ?thesis
    using assms t t_ok u_ok
    by (auto simp: Collect_def Let_def collector_ok dest: all split: option.splits prod.splits if_splits)
qed

lemma next_config_Inr: "next_config parse_url decoded cipher u s = Inr c \<Longrightarrow> config_allowed u s \<and> lg_receiver c = cu_receiver u"
  unfolding next_config_def Let_def if_Inl_eq_Inr bindE_eq_Inr by auto

lemma UpdateConfig_lulu_ok:
  assumes ok: "lulu_ok s" and run: "UpdateConfig_lulu parses parse_url decoded cipher actor u s = Inr (c, s')"
  shows "lulu_ok s'"
proof -
  obtain d where s': "s' = s\<lparr>lulu_config := c, ls_db := d\<rparr>" and d: "wallets d = wallets (ls_db s) \<and> ledger d = ledger (ls_db s)"
    and allow: "config_allowed u s" and r: "lg_receiver c = cu_receiver u"
    using run next_config_Inr insert_audit_frame unfolding UpdateConfig_lulu_def if_Inl_eq_Inr bindE_eq_Inr by blast
  have b: "books_ok (ls_db s)" using ok by (simp add: lulu_ok_def)
  have "books_ok d" by (rule books_ok_cong [OF b]) (use d in simp_all)
  moreover have "account_fixed s'"
    using ok allow r s' by (auto simp: lulu_ok_def account_fixed_def config_allowed_def list_ex_iff)
  ultimately show ?thesis
    using ok s' d by (simp add: lulu_ok_def orders_backed_def receipts_linked_def entry_owned_def)
qed

lemma Dispatch_ok:
  assumes "lulu_ok s"
  shows "lulu_ok (snd (lulu_Dispatch receiver version transfer s))"
proof -
  obtain x t where t: "dispatch_begin receiver version s = (x, t)" by (cases "dispatch_begin receiver version s")
  then have "lulu_ok t" by (rule dispatch_begin_ok [OF assms])
  then show ?thesis using t finish_ok by (auto simp: lulu_Dispatch_def split: option.splits sum.splits)
qed

lemma List_ok: "lulu_ok s \<Longrightarrow> lulu_List parses user actor kind status a b limit offset s = Inr (xs, s') \<Longrightarrow> lulu_ok s'"
  by (auto simp: lulu_List_def Let_def bindE_eq_Inr intro: expire_ok split: if_splits)

section \<open>The life of an order\<close>

inductive lulu_step :: "lulu_kind \<Rightarrow> lulu_status \<Rightarrow> lulu_status \<Rightarrow> bool" where
  approve: "lulu_step LuluWithdrawal LRequested LApproved"
| reject: "lulu_step LuluWithdrawal LRequested LRejected"
| send: "lulu_step LuluWithdrawal LApproved LSending"
| answered: "st = LConfirmed \<or> st = LFailed \<or> st = LUnknown \<Longrightarrow> lulu_step LuluWithdrawal LSending st"
| resolved: "st = LConfirmed \<or> st = LFailed \<Longrightarrow> lulu_step LuluWithdrawal LUnknown st"
| overdue: "lulu_step LuluDeposit LRequested LExpired"
| paid: "st = LRequested \<or> st = LExpired \<Longrightarrow> lulu_step LuluDeposit st LConfirmed"

inductive_cases lulu_stepE: "lulu_step k a b"

definition lulu_final :: "lulu_status \<Rightarrow> bool" where
  "lulu_final st \<longleftrightarrow> st = LConfirmed \<or> st = LRejected \<or> st = LFailed"

lemma lulu_step_final: "lulu_step k a b \<Longrightarrow> \<not> lulu_final a"
  by (erule lulu_stepE) (auto simp: lulu_final_def)

lemma lulu_steps_final: "(lulu_step k)\<^sup>*\<^sup>* a b \<Longrightarrow> lulu_final a \<Longrightarrow> b = a"
  by (induction rule: converse_rtranclp_induct) (use lulu_step_final in blast)+

definition order_path :: "lulu_order \<Rightarrow> lulu_order \<Rightarrow> bool" where
  "order_path x y \<longleftrightarrow> same_order x y \<and> (lulu_step (lo_kind x))\<^sup>*\<^sup>* (lo_status x) (lo_status y)"

definition orders_path :: "lulu_db \<Rightarrow> lulu_db \<Rightarrow> bool" where
  "orders_path s s' \<longleftrightarrow> (\<forall>x \<in> set (lulu_orders s). \<exists>y \<in> set (lulu_orders s'). order_path x y)"

lemma order_path_refl [simp]: "order_path x x"
  by (simp add: order_path_def same_order_def)

lemma order_path_trans: "order_path x y \<Longrightarrow> order_path y z \<Longrightarrow> order_path x z"
  unfolding order_path_def same_order_def by (metis rtranclp_trans)

lemma orders_path_refl [simp]: "orders_path s s"
  unfolding orders_path_def by (metis order_path_refl)

lemma orders_path_trans: "orders_path s t \<Longrightarrow> orders_path t u \<Longrightarrow> orders_path s u"
  unfolding orders_path_def by (metis order_path_trans)

lemma orders_path_same: "lulu_orders s' = lulu_orders s \<Longrightarrow> orders_path s s'"
  unfolding orders_path_def by (metis order_path_refl)

lemma orders_path_append: "lulu_orders s' = lulu_orders s @ xs \<Longrightarrow> orders_path s s'"
  unfolding orders_path_def by (metis Un_iff order_path_refl set_append)

lemma orders_path_modify:
  assumes "lulu_orders s' = modify P g (lulu_orders s)"
    and "\<And>x. x \<in> set (lulu_orders s) \<Longrightarrow> P x \<Longrightarrow> same_order x (g x) \<and> lulu_step (lo_kind x) (lo_status x) (lo_status (g x))"
  shows "orders_path s s'"
  unfolding orders_path_def
proof
  fix x assume x: "x \<in> set (lulu_orders s)"
  then have "(if P x then g x else x) \<in> set (lulu_orders s')" using assms(1) by (auto simp: set_modify)
  moreover have "order_path x (if P x then g x else x)" using assms(2) [OF x] by (auto simp: order_path_def same_order_def)
  ultimately show "\<exists>y \<in> set (lulu_orders s'). order_path x y" by blast
qed

lemma expire_path: "orders_path s (expire_orders P s)"
proof -
  have "lulu_orders (expire_orders P s) = modify (\<lambda>x. lo_kind x = LuluDeposit \<and> lo_status x = LRequested \<and> lo_expires x < clock (ls_db s) \<and> P x)
     (\<lambda>x. x\<lparr>lo_status := LExpired, lo_updated := clock (ls_db s)\<rparr>) (lulu_orders s)" by (simp add: expire_orders_def)
  then show ?thesis by (rule orders_path_modify) (simp add: same_order_def lulu_step.overdue)
qed

lemma RecoverSending_path: "orders_path s (RecoverSending receiver s)"
proof -
  have "lulu_orders (RecoverSending receiver s) = modify (\<lambda>x. lo_status x = LSending \<and> lo_kind x = LuluWithdrawal \<and> lo_receiver x = receiver)
     (\<lambda>x. x\<lparr>lo_status := LUnknown, lo_updated := clock (ls_db s)\<rparr>) (lulu_orders s)" by (simp add: RecoverSending_def)
  then show ?thesis by (rule orders_path_modify) (simp add: same_order_def lulu_step.answered)
qed

text \<open>One order steps.\<close>

lemma orders_path_one:
  assumes "lulu_ok s" "x \<in> set (lulu_orders s)" "lulu_orders s' = modify (\<lambda>y. lo_id y = lo_id x) g (lulu_orders s)"
    and "same_order x (g x)" "lulu_step (lo_kind x) (lo_status x) (lo_status (g x))"
  shows "orders_path s s'"
  by (rule orders_path_modify [OF assms(3)]) (use order_unique [OF assms(1,2)] assms(4,5) in auto)

lemma post_orders: "post x typ da df actor s = Inr t \<Longrightarrow> lulu_orders t = lulu_orders s \<and> lulu_receipts t = lulu_receipts s \<and> lulu_config t = lulu_config s"
  by (auto simp: post_def bindE_eq_Inr)

lemma Review_path:
  assumes ok: "lulu_ok s" and run: "lulu_Review parses i actor action evidence s = Inr (y, s')"
  shows "orders_path s s'"
proof -
  obtain x where i: "order_by_id s i = Some x" and k: "lo_kind x = LuluWithdrawal"
    using run by (auto simp: lulu_Review_def bindE_eq_Inr orErr_eq_Inr split: if_splits)
  have x: "x \<in> set (lulu_orders s)" using order_by_id_mem [OF i] by simp
  consider "s' = s"
    | t target where "lulu_step LuluWithdrawal (lo_status x) target" "lulu_orders t = lulu_orders s" "review_writes x actor action evidence target t = Inr (y, s')"
    using run i k by (auto simp: lulu_Review_def Let_def bindE_eq_Inr split: if_splits dest!: post_orders intro: lulu_step.intros)
  then show ?thesis
  proof cases
    case 2
    note r = review_writes_Inr [OF 2(3)]
    show ?thesis
      by (rule orders_path_one [OF ok x, of s' "\<lambda>z. z\<lparr>lo_status := target, lo_evidence := evidence, lo_reviewer := Some actor, lo_updated := clock (ls_db t)\<rparr>"])
         (use r 2 k in \<open>simp_all add: same_order_def\<close>)
  qed simp
qed

lemma finish_path:
  assumes ok: "lulu_ok s" and run: "finish_transfer i result s = Inr s'"
  shows "orders_path s s'"
proof -
  obtain x where i: "order_by_id s i = Some x" and st: "lo_status x = LSending"
    using run by (auto simp: finish_transfer_def bindE_eq_Inr orErr_eq_Inr split: if_splits)
  have m: "x \<in> set (lulu_orders s)" "lo_id x = i" using order_by_id_mem [OF i] by auto
  then have k: "lo_kind x = LuluWithdrawal" using ok st by (cases "lo_kind x") (auto simp: lulu_ok_def orders_backed_def deposit_state_def)
  obtain t target where t: "lulu_orders t = lulu_orders s" "target = LConfirmed \<or> target = LFailed \<or> target = LUnknown" "s' = update_order i (\<lambda>x. x\<lparr>lo_status := target\<rparr>) t"
    using run i st by (cases result) (auto simp: finish_transfer_def Let_def bindE_eq_Inr dest!: post_orders)
  show ?thesis
    by (rule orders_path_one [OF ok m(1), of s' "\<lambda>z. z\<lparr>lo_status := target, lo_updated := clock (ls_db t)\<rparr>"])
       (use t m k st in \<open>simp_all add: same_order_def update_order_def lulu_step.answered\<close>)
qed

lemma dispatch_begin_path:
  assumes ok: "lulu_ok s" and run: "dispatch_begin receiver version s = (x, s')"
  shows "orders_path s s'"
proof (cases "s' = s")
  case False
  then obtain z zs where hd: "sort_key lo_created (filter (\<lambda>x. lo_kind x = LuluWithdrawal \<and> lo_status x = LApproved \<and> lo_receiver x = receiver) (lulu_orders s)) = z # zs"
    and s': "s' = update_order (lo_id z) (\<lambda>x. x\<lparr>lo_status := LSending\<rparr>) s"
    using run by (auto simp: dispatch_begin_def split: if_splits list.splits)
  have "z \<in> set (sort_key lo_created (filter (\<lambda>x. lo_kind x = LuluWithdrawal \<and> lo_status x = LApproved \<and> lo_receiver x = receiver) (lulu_orders s)))" by (simp only: hd list.set_intros)
  then have z: "z \<in> set (lulu_orders s)" "lo_kind z = LuluWithdrawal" "lo_status z = LApproved" by auto
  show ?thesis
    by (rule orders_path_one [OF ok z(1), of s' "\<lambda>x. x\<lparr>lo_status := LSending, lo_updated := clock (ls_db s)\<rparr>"])
       (use s' z in \<open>simp_all add: same_order_def update_order_def lulu_step.send\<close>)
qed simp

lemma Dispatch_path:
  assumes "lulu_ok s"
  shows "orders_path s (snd (lulu_Dispatch receiver version transfer s))"
proof -
  obtain x t where t: "dispatch_begin receiver version s = (x, t)" by (cases "dispatch_begin receiver version s")
  have p: "orders_path s t" and ok: "lulu_ok t" using dispatch_begin_path [OF assms t] dispatch_begin_ok [OF assms t] by auto
  show ?thesis
    using t p finish_path [OF ok] orders_path_trans [OF p] by (auto simp: lulu_Dispatch_def split: option.splits sum.splits)
qed

lemma RecordReceipt_path:
  assumes ok: "lulu_ok s" and run: "RecordReceipt receiver r s = Inr s'"
  shows "orders_path s s'"
  using run
proof (cases rule: RecordReceipt_cases)
  case kept
  then show ?thesis by (simp add: orders_path_same)
next
  case (credited q x)
  note X = match_order_Some [OF credited(7)]
  have "lulu_orders s' = modify (\<lambda>y. lo_id y = lo_id x) (\<lambda>y. y\<lparr>lo_status := LConfirmed, lo_receipt := Some (lr_id r), lo_updated := clock (ls_db s)\<rparr>) (lulu_orders s)"
    using RecordReceipt_credits [OF ok credited] by blast
  then show ?thesis by (rule orders_path_one [OF ok X [THEN conjunct1]]) (use X in \<open>simp_all add: same_order_def lulu_step.paid\<close>)
qed

lemma record_all_path: "lulu_ok s \<Longrightarrow> orders_path s (snd (record_all receiver rs s))"
proof (induction rs arbitrary: s)
  case (Cons r rs)
  show ?case
  proof (cases "RecordReceipt receiver r s")
    case (Inr t)
    show ?thesis using orders_path_trans [OF RecordReceipt_path [OF Cons.prems Inr] Cons.IH [OF RecordReceipt_ok [OF Cons.prems Inr]]] Inr by simp
  qed simp
qed simp

lemma Create_path:
  assumes ok: "lulu_ok s" and run: "lulu_Create parses user kind i s = Inr (y, s')"
  shows "orders_path s s'"
proof -
  obtain n k where n: "ParseAmount (li_amount i) = Inr n" and k: "lulu_kind_of kind = Some k"
    using run by (auto simp: lulu_Create_def split: sum.splits option.splits)
  consider (same) "s' = s" | (dep) "create_deposit user i n s = Inr (y, s')" | (wd) "create_withdrawal user i n s = Inr (y, s')"
    using run n k by (auto simp: lulu_Create_def bindE_eq_Inr split: option.splits if_splits lulu_kind.splits)
  then show ?thesis
  proof cases
    case dep
    let ?s = "expire_orders (\<lambda>x. lo_receiver x = lg_receiver (lulu_config s) \<and> lo_uid x = li_uid i) s"
    obtain x t where new: "new_order user LuluDeposit i n ?s = (x, t)" by (cases "new_order user LuluDeposit i n ?s")
    obtain u where ins: "insert_order x t = Inr u"
      and m: "(case match_receipt x n u of None \<Rightarrow> Inr (x, u) | Some r \<Rightarrow> bindE (credit_receipt x (lr_id r) n u) (\<lambda>s.
                Inr (x\<lparr>lo_status := LConfirmed, lo_receipt := Some (lr_id r)\<rparr>, s))) = Inr (y, s')"
      using dep new by (auto simp: create_deposit_def Let_def bindE_eq_Inr split: option.splits)
    have a: "orders_path ?s u" by (rule orders_path_append [of u ?s "[x]"]) (use new_order_simps [OF new] insert_order_Inr [OF ins] in simp)
    have u: "lulu_ok u" using inserted_ok [OF expire_ok [OF ok] new ins] ParseAmount_bounds [OF n] by simp
    have x: "x \<in> set (lulu_orders u)" "lo_kind x = LuluDeposit" "lo_status x = LRequested" using insert_order_Inr [OF ins] new_order_simps [OF new] by simp_all
    have "orders_path u s'"
    proof (cases "match_receipt x n u")
      case (Some r)
      then obtain v where v: "lulu_orders v = lulu_orders u" "s' = update_order (lo_id x) (\<lambda>y. y\<lparr>lo_status := LConfirmed, lo_receipt := Some (lr_id r)\<rparr>) v"
        using m by (auto simp: credit_receipt_def link_receipt_def confirm_order_def bindE_eq_Inr dest!: post_orders split: if_splits)
      show ?thesis
        by (rule orders_path_one [OF u x(1), of s' "\<lambda>y. y\<lparr>lo_status := LConfirmed, lo_receipt := Some (lr_id r), lo_updated := clock (ls_db v)\<rparr>"])
           (use v x in \<open>simp_all add: update_order_def same_order_def lulu_step.paid\<close>)
    qed (use m in simp)
    then show ?thesis using orders_path_trans [OF orders_path_trans [OF expire_path a]] by blast
  next
    case wd
    obtain x t where new: "new_order user LuluWithdrawal i n s = (x, t)" by (cases "new_order user LuluWithdrawal i n s")
    obtain u where ins: "insert_order x t = Inr u" and p: "post x ''lulu_withdrawal_freeze'' (- n) n [] u = Inr s'"
      using wd new by (auto simp: create_withdrawal_def Let_def bindE_eq_Inr)
    show ?thesis
      by (rule orders_path_append [of s' s "[x]"]) (use new_order_simps [OF new] insert_order_Inr [OF ins] post_orders [OF p] in simp)
  qed simp
qed

lemma ReconcileStored_path: "lulu_ok s \<Longrightarrow> orders_path s (snd (ReconcileStored receiver s))"
  unfolding ReconcileStored_def by (rule record_all_path)

lemma Collect_path:
  assumes "lulu_ok s"
  shows "orders_path s (snd (Collect receiver version receipts start s))"
proof -
  obtain e t where t: "ReconcileStored receiver s = (e, t)" by (cases "ReconcileStored receiver s")
  have p: "orders_path s t" using ReconcileStored_path [OF assms, of receiver] t by simp
  have "lulu_ok t" using ReconcileStored_ok [OF assms, of receiver] t by simp
  then have u: "lulu_ok (ensure_collector receiver t)" by (rule collector_ok(2))
  have q: "orders_path s (ensure_collector receiver t)" by (rule orders_path_trans [OF p orders_path_same]) (simp add: ensure_collector_def)
  have all: "orders_path s v" if "record_all receiver rs (ensure_collector receiver t) = (f, v)" for rs f v
    using orders_path_trans [OF q record_all_path [OF u, of receiver rs]] that by simp
  have upd: "orders_path s (update_collector receiver g v)" if "orders_path s v" for g v
    using orders_path_trans [OF that orders_path_same [of "update_collector receiver g v" v]] by (simp add: update_collector_def)
  show ?thesis
    using t p q by (auto simp: Collect_def Let_def dest: all intro: upd split: option.splits prod.splits if_splits)
qed

section \<open>Sequences of calls\<close>

text \<open>The requests of players and staff, the steps of the worker with the transfer's answer as a call of its own, the change
  of the configuration, and the passing of time.\<close>

datatype lulu_call =
    LCreate string string lulu_input
  | LReview string string string string
  | LReceipt lulu_receipt
  | LDispatch
  | LFinish string TransferResult
  | LRecover
  | LCollect int "int \<Rightarrow> lulu_receipt list \<times> error option"
  | LExpire
  | LConfig string ConfigUpdate
  | LElapse int

text \<open>The surroundings of a worker: \<^verbatim>\<open>uuid.Parse\<close>, \<^verbatim>\<open>url.Parse\<close>, Base64, the cipher, and the account and version it was started with.\<close>

record lulu_env =
  le_parses :: "string \<Rightarrow> bool"
  le_url :: "string \<Rightarrow> url option"
  le_decoded :: "string \<Rightarrow> nat option"
  le_cipher :: "(string \<Rightarrow> string \<Rightarrow> string) option"
  le_receiver :: string
  le_version :: int

definition kept_on_error :: "lulu_db \<Rightarrow> error + lulu_db \<Rightarrow> lulu_db" where
  "kept_on_error s r = (case r of Inl e \<Rightarrow> s | Inr s' \<Rightarrow> s')"

definition snd_or :: "lulu_db \<Rightarrow> error + ('a \<times> lulu_db) \<Rightarrow> lulu_db" where
  "snd_or s r = (case r of Inl e \<Rightarrow> s | Inr (x, s') \<Rightarrow> s')"

definition lulu_run :: "lulu_env \<Rightarrow> lulu_call \<Rightarrow> lulu_db \<Rightarrow> lulu_db" where
  "lulu_run env call s =
     (case call of
        LCreate user kind i \<Rightarrow> snd_or s (lulu_Create (le_parses env) user kind i s)
      | LReview i actor action evidence \<Rightarrow> snd_or s (lulu_Review (le_parses env) i actor action evidence s)
      | LReceipt r \<Rightarrow> kept_on_error s (RecordReceipt (le_receiver env) r s)
      | LDispatch \<Rightarrow> snd (dispatch_begin (le_receiver env) (le_version env) s)
      | LFinish i result \<Rightarrow> kept_on_error s (finish_transfer i result s)
      | LRecover \<Rightarrow> RecoverSending (le_receiver env) s
      | LCollect start receipts \<Rightarrow> snd (Collect (le_receiver env) (le_version env) receipts start s)
      | LExpire \<Rightarrow> ExpireDeposits s
      | LConfig actor u \<Rightarrow> snd_or s (UpdateConfig_lulu (le_parses env) (le_url env) (le_decoded env) (le_cipher env) actor u s)
      | LElapse dt \<Rightarrow> s\<lparr>ls_db := (ls_db s)\<lparr>clock := clock (ls_db s) + dt\<rparr>\<rparr>)"

lemma snd_or_rule: "P s \<Longrightarrow> (\<And>x s'. r = Inr (x, s') \<Longrightarrow> P s') \<Longrightarrow> P (snd_or s r)"
  by (auto simp: snd_or_def split: sum.splits)

lemma kept_on_error_rule: "P s \<Longrightarrow> (\<And>s'. r = Inr s' \<Longrightarrow> P s') \<Longrightarrow> P (kept_on_error s r)"
  by (auto simp: kept_on_error_def split: sum.splits)

lemma UpdateConfig_orders: "UpdateConfig_lulu parses parse_url decoded cipher actor u s = Inr (c, s') \<Longrightarrow> lulu_orders s' = lulu_orders s"
  unfolding UpdateConfig_lulu_def if_Inl_eq_Inr bindE_eq_Inr by auto

lemma lulu_call_ok:
  assumes ok: "lulu_ok s"
  shows "lulu_ok (lulu_run env call s)"
proof (cases call)
  case (LCreate user kind i)
  have "lulu_ok (snd_or s (lulu_Create (le_parses env) user kind i s))" using ok Create_lulu_ok [OF ok] by (rule snd_or_rule)
  then show ?thesis using LCreate by (simp add: lulu_run_def)
next
  case (LReview i actor action evidence)
  have "lulu_ok (snd_or s (lulu_Review (le_parses env) i actor action evidence s))" using ok Review_ok [OF ok] by (rule snd_or_rule)
  then show ?thesis using LReview by (simp add: lulu_run_def)
next
  case (LReceipt r)
  have "lulu_ok (kept_on_error s (RecordReceipt (le_receiver env) r s))" using ok RecordReceipt_ok [OF ok] by (rule kept_on_error_rule)
  then show ?thesis using LReceipt by (simp add: lulu_run_def)
next
  case LDispatch
  then show ?thesis using dispatch_begin_ok [OF ok, of "le_receiver env" "le_version env"] by (cases "dispatch_begin (le_receiver env) (le_version env) s") (simp add: lulu_run_def)
next
  case (LFinish i result)
  have "lulu_ok (kept_on_error s (finish_transfer i result s))" using ok finish_ok [OF ok] by (rule kept_on_error_rule)
  then show ?thesis using LFinish by (simp add: lulu_run_def)
next
  case (LConfig actor u)
  have "lulu_ok (snd_or s (UpdateConfig_lulu (le_parses env) (le_url env) (le_decoded env) (le_cipher env) actor u s))"
    using ok UpdateConfig_lulu_ok [OF ok] by (rule snd_or_rule)
  then show ?thesis using LConfig by (simp add: lulu_run_def)
next
  case (LElapse dt)
  have "lulu_ok (s\<lparr>ls_db := (ls_db s)\<lparr>clock := clock (ls_db s) + dt\<rparr>\<rparr>)" by (rule lulu_ok_cong [OF ok]) simp_all
  then show ?thesis using LElapse by (simp add: lulu_run_def)
qed (use ok in \<open>simp_all add: lulu_run_def RecoverSending_ok Collect_ok ExpireDeposits_def expire_ok\<close>)

lemma lulu_call_path:
  assumes ok: "lulu_ok s"
  shows "orders_path s (lulu_run env call s)"
proof (cases call)
  case (LCreate user kind i)
  have "orders_path s (snd_or s (lulu_Create (le_parses env) user kind i s))" using orders_path_refl Create_path [OF ok] by (rule snd_or_rule)
  then show ?thesis using LCreate by (simp add: lulu_run_def)
next
  case (LReview i actor action evidence)
  have "orders_path s (snd_or s (lulu_Review (le_parses env) i actor action evidence s))" using orders_path_refl Review_path [OF ok] by (rule snd_or_rule)
  then show ?thesis using LReview by (simp add: lulu_run_def)
next
  case (LReceipt r)
  have "orders_path s (kept_on_error s (RecordReceipt (le_receiver env) r s))" using orders_path_refl RecordReceipt_path [OF ok] by (rule kept_on_error_rule)
  then show ?thesis using LReceipt by (simp add: lulu_run_def)
next
  case LDispatch
  then show ?thesis using dispatch_begin_path [OF ok, of "le_receiver env" "le_version env"] by (cases "dispatch_begin (le_receiver env) (le_version env) s") (simp add: lulu_run_def)
next
  case (LFinish i result)
  have "orders_path s (kept_on_error s (finish_transfer i result s))" using orders_path_refl finish_path [OF ok] by (rule kept_on_error_rule)
  then show ?thesis using LFinish by (simp add: lulu_run_def)
next
  case (LConfig actor u)
  have "orders_path s (snd_or s (UpdateConfig_lulu (le_parses env) (le_url env) (le_decoded env) (le_cipher env) actor u s))"
    using orders_path_refl orders_path_same [OF UpdateConfig_orders] by (rule snd_or_rule)
  then show ?thesis using LConfig by (simp add: lulu_run_def)
qed (use ok in \<open>simp_all add: lulu_run_def RecoverSending_path Collect_path ExpireDeposits_def expire_path orders_path_same\<close>)

lemma lulu_calls: "lulu_ok s \<Longrightarrow> lulu_ok (fold (lulu_run env) calls s) \<and> orders_path s (fold (lulu_run env) calls s)"
proof (induction calls arbitrary: s)
  case (Cons call calls)
  have "lulu_ok (lulu_run env call s)" by (rule lulu_call_ok [OF Cons.prems])
  then have "lulu_ok (fold (lulu_run env) calls (lulu_run env call s)) \<and> orders_path (lulu_run env call s) (fold (lulu_run env) calls (lulu_run env call s))"
    by (rule Cons.IH)
  then show ?case using orders_path_trans [OF lulu_call_path [OF Cons.prems, of env call]] by simp
qed simp

section \<open>Properties\<close>

text \<open>C4: Every Lulu order is backed by the ledger. After any sequence of requests, reviews, receipts, dispatches, answers of the
  upstream game, recoveries, collections and changes of the configuration, the entries posted for an order add up to what
  its status says: stones frozen while a withdrawal is open, gone when it is confirmed, returned when it is
  rejected or failed, credited when a deposit is confirmed and not otherwise. The confirmed deposits and the used receipts
  correspond one to one, and an open order keeps the account it was made for.\<close>

theorem lulu_orders_backed:
  assumes "lulu_ok s"
  shows "lulu_ok (fold (lulu_run env) calls s)"
  using lulu_calls [OF assms] by (rule conjunct1)

definition sample_lulu_db :: lulu_db where
  "sample_lulu_db = \<lparr>ls_db = sample_db\<lparr>user_roles := [(''alice'', ''player''), (''bob'', ''operator'')],
       currencies := currencies sample_db @ [\<lparr>c_code = ''ORIGIN_STONE'', c_decimals = 3, c_enabled = True\<rparr>]\<rparr>,
     lulu_orders = [], lulu_receipts = [],
     lulu_config = \<lparr>lg_receiver = ''900100'', lg_enabled = True, lg_version = 1, lg_url = [], lg_start = None, lg_token = None, lg_protocol = None, lg_updated = 0\<rparr>,
     lulu_collectors = []\<rparr>"

definition sample_lulu_env :: lulu_env where
  "sample_lulu_env = \<lparr>le_parses = (\<lambda>_. True), le_url = (\<lambda>_. None), le_decoded = (\<lambda>_. None), le_cipher = None, le_receiver = ''900100'', le_version = 0\<rparr>"

definition sample_receipt :: lulu_receipt where
  "sample_receipt = \<lparr>lr_id = ''observed:1'', lr_receiver = ''900100'', lr_sender = ''555'', lr_amount = 7, lr_occurred = 60000000, lr_order = None\<rparr>"

definition sample_lulu_calls :: "lulu_call list" where
  "sample_lulu_calls = [LCreate ''alice'' ''deposit'' \<lparr>li_request = ''r1'', li_uid = ''555'', li_amount = ''7''\<rparr>, LReceipt sample_receipt,
     LCreate ''alice'' ''withdrawal'' \<lparr>li_request = ''r2'', li_uid = ''555'', li_amount = ''3''\<rparr>]"

lemma sample_lulu_ok: "lulu_ok sample_lulu_db"
proof -
  have "wallets (ls_db sample_lulu_db) = wallets sample_db" "ledger (ls_db sample_lulu_db) = ledger sample_db" by (simp_all add: sample_lulu_db_def)
  then have "books_ok (ls_db sample_lulu_db)" by (rule books_ok_cong [OF sample_books_ok])
  then show ?thesis
    by (simp add: lulu_ok_def orders_backed_def receipts_linked_def account_fixed_def sample_lulu_db_def sample_db_def empty_db_def lulu_type_def)
qed

definition sample_lulu_end :: lulu_db where
  "sample_lulu_end = fold (lulu_run sample_lulu_env) sample_lulu_calls sample_lulu_db"

lemma sample_lulu_run:
  "map (\<lambda>x. (lo_kind x, lo_status x)) (lulu_orders sample_lulu_end) = [(LuluDeposit, LConfirmed), (LuluWithdrawal, LRequested)]"
  by code_simp

theorem lulu_orders_backed_witness:
  "lulu_ok sample_lulu_end \<and> map (\<lambda>x. (lo_kind x, lo_status x)) (lulu_orders sample_lulu_end) = [(LuluDeposit, LConfirmed), (LuluWithdrawal, LRequested)]"
  using lulu_orders_backed [OF sample_lulu_ok, of sample_lulu_env sample_lulu_calls] sample_lulu_run by (simp add: sample_lulu_end_def)

text \<open>C7: An order only moves forward, keeps its player, amount and account, and once it is confirmed, rejected or failed no
  interleaving of calls changes its status again or posts another entry for it. In particular a transfer of unknown
  outcome is never sent twice: it leaves that status only by a decision of the staff.\<close>

theorem lulu_order_lifecycle:
  assumes "lulu_ok s" "order_by_id s i = Some x"
  shows "\<exists>y. order_by_id (fold (lulu_run env) calls s) i = Some y \<and> same_order x y \<and> (lulu_step (lo_kind x))\<^sup>*\<^sup>* (lo_status x) (lo_status y)
    \<and> (lulu_final (lo_status x) \<longrightarrow> lo_status y = lo_status x
         \<and> posted_avail i (ledger (ls_db (fold (lulu_run env) calls s))) = posted_avail i (ledger (ls_db s))
         \<and> posted_frozen i (ledger (ls_db (fold (lulu_run env) calls s))) = posted_frozen i (ledger (ls_db s)))"
proof -
  let ?t = "fold (lulu_run env) calls s"
  have t: "lulu_ok ?t" and p: "orders_path s ?t" using lulu_calls [OF assms(1)] by auto
  have x: "x \<in> set (lulu_orders s)" "lo_id x = i" using order_by_id_mem [OF assms(2)] by auto
  obtain y where y: "y \<in> set (lulu_orders ?t)" "same_order x y" "(lulu_step (lo_kind x))\<^sup>*\<^sup>* (lo_status x) (lo_status y)"
    using p x(1) unfolding orders_path_def order_path_def by blast
  have "lo_id y = i" using y(2) x(2) by (simp add: same_order_def)
  then have l: "order_by_id ?t i = Some y"
    using lookup_key_unique [of lo_id "lulu_orders ?t" y] y(1) t by (auto simp: order_by_id_def lulu_ok_def orders_backed_def)
  have money: "posted_avail i (ledger (ls_db s)) = due_avail x" "posted_frozen i (ledger (ls_db s)) = due_frozen x"
    "posted_avail i (ledger (ls_db ?t)) = due_avail y" "posted_frozen i (ledger (ls_db ?t)) = due_frozen y"
    using assms(1) t x y(1) \<open>lo_id y = i\<close> by (auto simp: lulu_ok_def orders_backed_def)
  have "lo_status y = lo_status x \<and> due_avail y = due_avail x \<and> due_frozen y = due_frozen x" if "lulu_final (lo_status x)"
    using lulu_steps_final [OF y(3) that] y(2) by (cases "lo_kind x") (simp_all add: same_order_def due_avail_def due_frozen_def lulu_open_def)
  then show ?thesis using l y(2,3) money by auto
qed

theorem lulu_order_lifecycle_witness:
  "\<exists>x y. order_by_id sample_lulu_end (lo_id x) = Some x \<and> lo_kind x = LuluDeposit
    \<and> order_by_id (fold (lulu_run sample_lulu_env) [LReview (lo_id x) ''bob'' ''reject'' ''no'', LReceipt sample_receipt, LElapse 900000000, LExpire] sample_lulu_end) (lo_id x) = Some y
    \<and> lo_status y = LConfirmed"
proof -
  obtain x xs where x: "lulu_orders sample_lulu_end = x # xs" "lo_kind x = LuluDeposit" "lo_status x = LConfirmed"
    using sample_lulu_run by (cases "lulu_orders sample_lulu_end") auto
  have i: "order_by_id sample_lulu_end (lo_id x) = Some x" using x by (simp add: order_by_id_def)
  have ok: "lulu_ok sample_lulu_end" unfolding sample_lulu_end_def using lulu_calls [OF sample_lulu_ok] by blast
  show ?thesis
    using lulu_order_lifecycle [OF ok i, of sample_lulu_env "[LReview (lo_id x) ''bob'' ''reject'' ''no'', LReceipt sample_receipt, LElapse 900000000, LExpire]"] i x
    unfolding lulu_final_def by auto
qed

text \<open>C8: A receipt credits at most one deposit order, exactly, and once: recording it either leaves all money alone or credits
  the amount of the receipt to the player of one deposit order that was waiting for it, within its window and through its
  account, and confirms that order; recording the same receipt again changes nothing at all.\<close>

theorem lulu_receipt_once:
  assumes "lulu_ok s" "RecordReceipt receiver r s = Inr s'"
  shows "RecordReceipt receiver r s' = Inr s' \<and> lulu_ok s' \<and>
    (ls_db s' = ls_db s \<and> lulu_orders s' = lulu_orders s
     \<or> (\<exists>x y. order_by_id s (lo_id x) = Some x \<and> lo_kind x = LuluDeposit \<and> (lo_status x = LRequested \<or> lo_status x = LExpired)
          \<and> lo_amount x = lr_amount r \<and> lo_uid x = lr_sender r \<and> lo_receiver x = receiver \<and> lr_occurred r \<le> lo_expires x
          \<and> moved_by (ls_db s) (lo_user x) ORIGIN_STONE (lr_amount r * stoneScale) 0 (ls_db s')
          \<and> order_by_id s' (lo_id x) = Some y \<and> lo_status y = LConfirmed \<and> lo_receipt y = Some (lr_id r)))"
proof -
  have valid: "\<not> (lr_id r = [] \<or> length (lr_id r) > 256 \<or> \<not> ValidUID (lr_sender r) \<or> lr_receiver r \<noteq> receiver \<or> lr_amount r \<le> 0 \<or> lr_occurred r = zero_time)"
    using assms(2) by (auto simp: RecordReceipt_def split: if_splits)
  have s': "lulu_ok s'" by (rule RecordReceipt_ok [OF assms])
  have again: "RecordReceipt receiver r s' = Inr s'"
    if "lookup (\<lambda>x. lr_id x = lr_id r) (lulu_receipts s') = Some q" "lr_receiver q = lr_receiver r" "lr_sender q = lr_sender r"
      "lr_amount q = lr_amount r" "lr_occurred q = lr_occurred r" "lr_order q \<noteq> None \<or> match_order r s' = None" for q
  proof -
    have "list_ex (\<lambda>x. lr_id x = lr_id r) (lulu_receipts s')" using lookup_SomeD [OF that(1)] by (auto simp: list_ex_iff)
    then have "store_receipt r s' = s'" by (simp add: store_receipt_def)
    then show ?thesis using valid that by (auto simp: RecordReceipt_def)
  qed
  let ?t = "store_receipt r s"
  obtain q where q: "lookup (\<lambda>x. lr_id x = lr_id r) (lulu_receipts ?t) = Some q"
    "lr_receiver q = lr_receiver r" "lr_sender q = lr_sender r" "lr_amount q = lr_amount r" "lr_occurred q = lr_occurred r"
    using assms(2) unfolding RecordReceipt_def Let_def by (force simp only: if_Inl_eq_Inr bindE_eq_Inr orErr_eq_Inr)
  show ?thesis
    using assms(2)
  proof (cases rule: RecordReceipt_cases)
    case kept
    then have "RecordReceipt receiver r s' = Inr s'" using again [of q] q by auto
    then show ?thesis using s' kept by simp
  next
    case (credited p x)
    note C = RecordReceipt_credits [OF assms(1) credited] and X = match_order_Some [OF credited(7)]
    have d: "distinct (map lo_id (lulu_orders s))" using assms(1) by (simp add: lulu_ok_def orders_backed_def)
    have x: "order_by_id s (lo_id x) = Some x" using lookup_key_unique [of lo_id "lulu_orders s" x] d X by (simp add: order_by_id_def)
    have "lookup (\<lambda>x. lr_id x = lr_id r) (lulu_receipts s') = Some (p\<lparr>lr_order := Some (lo_id x)\<rparr>)"
      using C credited(1) by (simp add: lookup_modify_key)
    then have r: "RecordReceipt receiver r s' = Inr s'" by (rule again) (use credited in simp_all)
    have "order_by_id s' (lo_id x) = Some (x\<lparr>lo_status := LConfirmed, lo_receipt := Some (lr_id r), lo_updated := clock (ls_db s)\<rparr>)"
      using C x by (simp add: order_by_id_def lookup_modify_key)
    then obtain y where "order_by_id s' (lo_id x) = Some y" "lo_status y = LConfirmed" "lo_receipt y = Some (lr_id r)" by simp
    moreover have "lo_receiver x = receiver" using X valid by simp
    ultimately show ?thesis using r s' x X C by blast
  qed
qed

theorem lulu_receipt_once_witness:
  "\<exists>s' . RecordReceipt ''900100'' sample_receipt (lulu_run sample_lulu_env (hd sample_lulu_calls) sample_lulu_db) = Inr s'
    \<and> RecordReceipt ''900100'' sample_receipt s' = Inr s'"
proof -
  let ?s = "lulu_run sample_lulu_env (hd sample_lulu_calls) sample_lulu_db"
  have "case RecordReceipt ''900100'' sample_receipt ?s of Inl e \<Rightarrow> False | Inr s' \<Rightarrow> True" by code_simp
  then obtain s' where s': "RecordReceipt ''900100'' sample_receipt ?s = Inr s'" by (auto split: sum.splits)
  have "RecordReceipt ''900100'' sample_receipt s' = Inr s'"
    using lulu_receipt_once [OF lulu_call_ok [OF sample_lulu_ok] s'] by (rule conjunct1)
  then show ?thesis using s' by blast
qed

end
