(* ===== verification/Red_Packet.thy ===== *)
theory Red_Packet
  imports Books
begin

text \<open>
  Chat red packets: \<^verbatim>\<open>internal/application/redpacket\<close> (\<^verbatim>\<open>model.go\<close>, \<^verbatim>\<open>service.go\<close>, \<^verbatim>\<open>create.go\<close>, \<^verbatim>\<open>claim.go\<close>,
  \<^verbatim>\<open>refund.go\<close>). The constraints of \<^verbatim>\<open>migrations/0019_red_packets.sql\<close> are part of the inserts.
  The random source of a claim is a parameter; \<open>random_ok\<close> is what \<^verbatim>\<open>crypto/rand.Int\<close> documents.
\<close>

section \<open>service.go\<close>

definition requireRealAccount :: "db \<Rightarrow> string \<Rightarrow> error + unit" where
  "requireRealAccount s userID =
     (case user_by_id s userID of
        None \<Rightarrow> Inl (DB NoRows)
      | Some u \<Rightarrow> if u_virtual u then Inl (RedPacket ErrVirtualAccount) else Inr ())"

section \<open>create.go\<close>

record CreateInput =
  ci_room :: string
  ci_sender :: string
  ci_request :: string
  ci_currency :: string
  ci_greeting :: string
  ci_total :: int
  ci_count :: int

definition findByRequest :: "db \<Rightarrow> string \<Rightarrow> string \<Rightarrow> red_packet_row option" where
  "findByRequest s userID requestID =
     lookup (\<lambda>p. rp_sender p = userID \<and> rp_request p = requestID) (red_packets s)"

definition roomAudience :: "db \<Rightarrow> string \<Rightarrow> string \<Rightarrow> error + (bool \<times> string list)" where
  "roomAudience s roomID userID =
     (case lookup (\<lambda>r. cr_id r = roomID) (chat_rooms s) of
        None \<Rightarrow> Inl (RedPacket ErrRoomAccessDenied)
      | Some r \<Rightarrow>
          if cr_type r = ''global'' \<or> cr_type r = ''game'' then Inr (True, [])
          else if (roomID, userID) \<notin> set (chat_members s) then Inl (RedPacket ErrRoomAccessDenied)
          else Inr (False, map snd (filter (\<lambda>m. fst m = roomID) (chat_members s))))"

definition Find :: "string \<Rightarrow> string \<Rightarrow> red_packet_row tx" where
  "Find packetID userID s =
     bindE (orErr (RedPacket ErrPacketNotFound) (lookup (\<lambda>p. rp_id p = packetID) (red_packets s))) (\<lambda>packet.
     bindE (roomAudience s (rp_room packet) userID) (\<lambda>_. Inr (packet, s)))"

text \<open>\<^verbatim>\<open>INSERT INTO red_packets\<close> with its constraints.\<close>

definition insert_packet :: "red_packet_row \<Rightarrow> db \<Rightarrow> error + db" where
  "insert_packet p s =
     (if rp_currency p \<noteq> ''USDT'' \<and> rp_currency p \<noteq> ''POINTS'' then Inl (DB Check)
      else if rp_total p \<le> 0 \<or> rp_remaining p < 0 \<or> rp_count p \<le> 0 \<or> rp_claimed p < 0 then Inl (DB Check)
      else if lookup (\<lambda>q. rp_id q = rp_id p \<or> (rp_sender q = rp_sender p \<and> rp_request q = rp_request p)) (red_packets s) \<noteq> None
      then Inl (DB Unique)
      else if lookup (\<lambda>r. cr_id r = rp_room p) (chat_rooms s) = None \<or> user_by_id s (rp_sender p) = None
              \<or> wallet_by_id s (rp_wallet p) = None then Inl (DB ForeignKey)
      else Inr (s\<lparr>red_packets := red_packets s @ [p]\<rparr>))"

definition strings_payload :: "string list \<Rightarrow> payload" where
  "strings_payload vs = PList (map PStr vs)"

definition packet_payload :: "red_packet_row \<Rightarrow> payload" where
  "packet_payload p = PObj [(''id'', PStr (rp_id p)), (''room_id'', PStr (rp_room p)),
     (''sender_user_id'', PStr (rp_sender p)), (''client_request_id'', PStr (rp_request p)),
     (''currency'', PStr (rp_currency p)), (''greeting'', PStr (rp_greeting p)),
     (''total_minor'', PInt (rp_total p)), (''remaining_minor'', PInt (rp_remaining p)),
     (''packet_count'', PInt (rp_count p)), (''claimed_count'', PInt (rp_claimed p)),
     (''status'', PStr (case rp_status p of PActive \<Rightarrow> ''active'' | PExhausted \<Rightarrow> ''exhausted'' | PRefunded \<Rightarrow> ''refunded'')),
     (''expires_at'', PTime (rp_expires p)), (''created_at'', PTime (rp_created p))]"

text \<open>The validation at the head of \<^verbatim>\<open>Create\<close>, on the normalised input.\<close>

definition create_invalid :: "int \<Rightarrow> CreateInput \<Rightarrow> bool" where
  "create_invalid ttl i \<longleftrightarrow>
     ci_sender i = [] \<or> ci_room i = [] \<or> ci_request i = [] \<or> length (ci_request i) > 128
     \<or> (ci_currency i \<noteq> ''USDT'' \<and> ci_currency i \<noteq> ''POINTS'' \<and> ci_currency i \<noteq> ''JADE'' \<and> ci_currency i \<noteq> ''ORIGIN_STONE'')
     \<or> ci_total i \<le> 0 \<or> ci_count i \<le> 0 \<or> ci_count i > 100 \<or> ci_total i < ci_count i
     \<or> rune_count (ci_greeting i) > 100 \<or> ttl \<le> 0"

definition normalize :: "CreateInput \<Rightarrow> CreateInput" where
  "normalize i = i\<lparr>ci_currency := to_upper (trim_space (ci_currency i)), ci_greeting := trim_space (ci_greeting i),
                  ci_request := trim_space (ci_request i)\<rparr>"

definition Create :: "int \<Rightarrow> CreateInput \<Rightarrow> (red_packet_row \<times> bool) tx" where
  "Create ttl input s =
     (let i = normalize input in
      if create_invalid ttl i then Inl (RedPacket ErrInvalidPacket)
      else bindE (requireRealAccount s (ci_sender i)) (\<lambda>_.
      case findByRequest s (ci_sender i) (ci_request i) of
        Some existing \<Rightarrow> Inr ((existing, False), s)
      | None \<Rightarrow>
          bindE (roomAudience s (ci_room i) (ci_sender i)) (\<lambda>(broadcast, userIDs).
          bindE (orErr (DB NoRows) (wallet_of s (ci_sender i) (ci_currency i))) (\<lambda>w.
          if w_available w < ci_total i then Inl (RedPacket ErrInsufficientBalance)
          else let balance = w_available w - ci_total i;
                   (packetID, s) = new_uuid s;
                   packet = \<lparr>rp_id = packetID, rp_room = ci_room i, rp_sender = ci_sender i, rp_wallet = w_id w,
                     rp_request = ci_request i, rp_currency = ci_currency i, rp_greeting = ci_greeting i,
                     rp_total = ci_total i, rp_remaining = ci_total i, rp_count = ci_count i, rp_claimed = 0,
                     rp_status = PActive, rp_expires = clock s + ttl, rp_created = clock s\<rparr>
          in bindE (insert_packet packet s) (\<lambda>s.
             bindE (set_available (w_id w) balance s) (\<lambda>s.
             bindE (insert_ledger (w_id w) ''red_packet'' packetID ''red_packet_fund'' (- ci_total i) balance s) (\<lambda>s.
             bindE (insert_outbox ''red_packet'' packetID ''chat.red_packet.created''
                      (PObj [(''red_packet'', packet_payload packet), (''room_id'', PStr (ci_room i)),
                             (''broadcast'', PBool broadcast), (''user_ids'', strings_payload userIDs)]) s) (\<lambda>s.
             Inr ((packet, True), s)))))))))"

section \<open>claim.go\<close>

definition claimAmount :: "(int \<Rightarrow> error + int) \<Rightarrow> int \<Rightarrow> int \<Rightarrow> error + int" where
  "claimAmount random remaining slots =
     (if slots \<le> 1 then Inr remaining
      else let maximum = remaining - (slots - 1);
               doubleAverage = 2 * go_div remaining slots;
               maximum = (if doubleAverage > 0 \<and> doubleAverage < maximum then doubleAverage else maximum)
           in bindE (random maximum) (\<lambda>r. Inr (r + 1)))"

definition findClaim :: "db \<Rightarrow> string \<Rightarrow> string \<Rightarrow> claim_row option" where
  "findClaim s packetID userID =
     (if lookup (\<lambda>p. rp_id p = packetID) (red_packets s) = None then None
      else lookup (\<lambda>c. rc_packet c = packetID \<and> rc_user c = userID) (packet_claims s))"

definition insert_claim :: "claim_row \<Rightarrow> db \<Rightarrow> error + db" where
  "insert_claim c s =
     (if rc_amount c \<le> 0 then Inl (DB Check)
      else if lookup (\<lambda>d. rc_id d = rc_id c \<or> (rc_packet d = rc_packet c \<and> rc_user d = rc_user c)) (packet_claims s) \<noteq> None
      then Inl (DB Unique)
      else if lookup (\<lambda>p. rp_id p = rc_packet c) (red_packets s) = None \<or> user_by_id s (rc_user c) = None
              \<or> wallet_by_id s (rc_wallet c) = None then Inl (DB ForeignKey)
      else Inr (s\<lparr>packet_claims := packet_claims s @ [c]\<rparr>))"

text \<open>\<^verbatim>\<open>UPDATE red_packets SET remaining_minor=$2,claimed_count=$3,status=$4 WHERE id=$1\<close>.\<close>

definition update_packet :: "string \<Rightarrow> int \<Rightarrow> int \<Rightarrow> packet_status \<Rightarrow> db \<Rightarrow> error + db" where
  "update_packet i remaining claimed status s =
     (if (remaining < 0 \<or> claimed < 0) \<and> lookup (\<lambda>p. rp_id p = i) (red_packets s) \<noteq> None then Inl (DB Check)
      else Inr (s\<lparr>red_packets := modify (\<lambda>p. rp_id p = i)
             (\<lambda>p. p\<lparr>rp_remaining := remaining, rp_claimed := claimed, rp_status := status\<rparr>) (red_packets s)\<rparr>))"

definition claim_payload :: "claim_row \<Rightarrow> string \<Rightarrow> payload" where
  "claim_payload c currency = PObj [(''id'', PStr (rc_id c)), (''red_packet_id'', PStr (rc_packet c)),
     (''user_id'', PStr (rc_user c)), (''currency'', PStr currency), (''amount_minor'', PInt (rc_amount c)),
     (''claimed_at'', PTime (rc_at c))]"

text \<open>The writes of \<^verbatim>\<open>Claim\<close>, once the packet, the wallet and the amount are known.\<close>

definition claim_writes :: "red_packet_row \<Rightarrow> string \<Rightarrow> wallet_row \<Rightarrow> int \<Rightarrow> bool \<times> string list \<Rightarrow> (claim_row \<times> bool) tx" where
  "claim_writes packet userID w amount audience s =
     (let balance = w_available w + amount;
          (claimID, s) = new_uuid s;
          claim = \<lparr>rc_id = claimID, rc_packet = rp_id packet, rc_user = userID, rc_wallet = w_id w,
                   rc_amount = amount, rc_at = clock s\<rparr>
      in bindE (insert_claim claim s) (\<lambda>s.
         let remaining = rp_remaining packet - amount;
             claimed = rp_claimed packet + 1;
             status = (if claimed = rp_count packet \<or> remaining = 0 then PExhausted else rp_status packet)
         in bindE (update_packet (rp_id packet) remaining claimed status s) (\<lambda>s.
            bindE (set_available (w_id w) balance s) (\<lambda>s.
            bindE (insert_ledger (w_id w) ''red_packet'' claimID ''red_packet_claim'' amount balance s) (\<lambda>s.
            bindE (insert_outbox ''red_packet'' (rp_id packet) ''chat.red_packet.claimed''
                     (PObj [(''claim'', claim_payload claim (rp_currency packet)), (''red_packet_id'', PStr (rp_id packet)),
                            (''room_id'', PStr (rp_room packet)), (''broadcast'', PBool (fst audience)),
                            (''user_ids'', strings_payload (snd audience))]) s) (\<lambda>s.
            Inr ((claim, True), s)))))))"

definition Claim :: "(int \<Rightarrow> error + int) \<Rightarrow> string \<Rightarrow> string \<Rightarrow> (claim_row \<times> bool) tx" where
  "Claim random packetID userID s =
     bindE (requireRealAccount s userID) (\<lambda>_.
     case findClaim s packetID userID of
       Some existing \<Rightarrow> Inr ((existing, False), s)
     | None \<Rightarrow>
         bindE (orErr (RedPacket ErrPacketNotFound) (lookup (\<lambda>p. rp_id p = packetID) (red_packets s))) (\<lambda>packet.
         if rp_sender packet = userID then Inl (RedPacket ErrSenderCannotClaim)
         else if rp_status packet \<noteq> PActive \<or> \<not> rp_expires packet > clock s
                 \<or> rp_claimed packet \<ge> rp_count packet \<or> rp_remaining packet \<le> 0
         then Inl (RedPacket ErrPacketUnavailable)
         else bindE (roomAudience s (rp_room packet) userID) (\<lambda>audience.
         bindE (claimAmount random (rp_remaining packet) (rp_count packet - rp_claimed packet)) (\<lambda>amount.
         bindE (orErr (DB NoRows) (wallet_of s userID (rp_currency packet))) (\<lambda>w.
         if w_available w > max_int64 - amount then Inl (RedPacket ClaimOverflow)
         else claim_writes packet userID w amount audience s)))))"

section \<open>refund.go\<close>

definition refund_writes :: "red_packet_row \<Rightarrow> wallet_row \<Rightarrow> bool tx" where
  "refund_writes packet w s =
     (let balance = w_available w + rp_remaining packet in
      bindE (update_packet (rp_id packet) 0 (rp_claimed packet) PRefunded s) (\<lambda>s.
      bindE (set_available (rp_wallet packet) balance s) (\<lambda>s.
      bindE (if rp_remaining packet > 0
             then insert_ledger (rp_wallet packet) ''red_packet'' (rp_id packet) ''red_packet_refund''
                    (rp_remaining packet) balance s
             else Inr s) (\<lambda>s.
      bindE (case roomAudience s (rp_room packet) (rp_sender packet) of
               Inl e \<Rightarrow> if e = RedPacket ErrRoomAccessDenied then Inr (False, [rp_sender packet]) else Inl e
             | Inr a \<Rightarrow> Inr a) (\<lambda>audience.
      bindE (insert_outbox ''red_packet'' (rp_id packet) ''chat.red_packet.refunded''
               (PObj [(''red_packet_id'', PStr (rp_id packet)), (''refund_minor'', PInt (rp_remaining packet)),
                      (''currency'', PStr (rp_currency packet)), (''room_id'', PStr (rp_room packet)),
                      (''broadcast'', PBool (fst audience)), (''user_ids'', strings_payload (snd audience))]) s) (\<lambda>s.
      Inr (True, s)))))))"

definition refundOne :: "string \<Rightarrow> bool tx" where
  "refundOne packetID s =
     (case lookup (\<lambda>p. rp_id p = packetID) (red_packets s) of
        None \<Rightarrow> Inr (False, s)
      | Some packet \<Rightarrow>
          if rp_status packet \<noteq> PActive \<or> rp_expires packet > clock s then Inr (False, s)
          else bindE (orErr (DB NoRows) (wallet_by_id s (rp_wallet packet))) (\<lambda>w.
          if w_available w > max_int64 - rp_remaining packet then Inl (RedPacket RefundOverflow)
          else refund_writes packet w s))"

text \<open>Each packet is refunded in a transaction of its own; the first error stops the loop and the
  refunds before it stay.\<close>

fun refund_loop :: "string list \<Rightarrow> int \<Rightarrow> db \<Rightarrow> (int \<times> error option) \<times> db" where
  "refund_loop [] refunded s = ((refunded, None), s)"
| "refund_loop (i # ids) refunded s =
     (case refundOne i s of
        Inl e \<Rightarrow> ((refunded, Some e), s)
      | Inr (changed, s') \<Rightarrow> refund_loop ids (if changed then refunded + 1 else refunded) s')"

definition RefundExpired :: "int \<Rightarrow> db \<Rightarrow> (int \<times> error option) \<times> db" where
  "RefundExpired limit s =
     (let limit = (if limit \<le> 0 \<or> limit > 1000 then 100 else limit);
          due = filter (\<lambda>p. rp_status p = PActive \<and> rp_expires p \<le> clock s) (red_packets s);
          ids = map rp_id (take (nat limit) (sort_key rp_expires due))
      in refund_loop ids 0 s)"

section \<open>Amounts of a claim\<close>

definition random_ok :: "(int \<Rightarrow> error + int) \<Rightarrow> bool" where
  "random_ok random \<longleftrightarrow> (\<forall>m v. 0 < m \<longrightarrow> random m = Inr v \<longrightarrow> 0 \<le> v \<and> v < m)"

lemma claimAmount_bounds:
  assumes "random_ok random" "claimAmount random remaining slots = Inr a" "1 \<le> slots" "slots \<le> remaining"
  shows "1 \<le> a \<and> a \<le> remaining - (slots - 1)"
proof (cases "slots = 1")
  case True
  then show ?thesis using assms by (simp add: claimAmount_def)
next
  case False
  let ?m = "remaining - (slots - 1)" and ?d = "2 * go_div remaining slots"
  let ?x = "if ?d > 0 \<and> ?d < ?m then ?d else ?m"
  from assms(2,3) False obtain v where v: "random ?x = Inr v" "a = v + 1"
    by (auto simp: claimAmount_def Let_def tx_simps)
  have "0 < ?x" using assms(4) by simp
  then have "0 \<le> v \<and> v < ?x" using assms(1) v(1) unfolding random_ok_def by blast
  then show ?thesis using v(2) by (auto split: if_splits)
qed

section \<open>What a successful call did\<close>

definition fresh_packet :: "int \<Rightarrow> CreateInput \<Rightarrow> wallet_row \<Rightarrow> db \<Rightarrow> red_packet_row" where
  "fresh_packet ttl i w s =
     \<lparr>rp_id = uuids s (next_uuid s), rp_room = ci_room i, rp_sender = ci_sender i, rp_wallet = w_id w,
      rp_request = ci_request i, rp_currency = ci_currency i, rp_greeting = ci_greeting i,
      rp_total = ci_total i, rp_remaining = ci_total i, rp_count = ci_count i, rp_claimed = 0,
      rp_status = PActive, rp_expires = clock s + ttl, rp_created = clock s\<rparr>"

lemma Create_Inr:
  assumes "books_ok s" "Create ttl input s = Inr ((p, created), s')"
  defines "i \<equiv> normalize input"
  shows "(\<not> created \<and> s' = s \<and> findByRequest s (ci_sender i) (ci_request i) = Some p) \<or>
    (created \<and> \<not> create_invalid ttl i \<and> (\<exists>w. wallet_of s (ci_sender i) (ci_currency i) = Some w \<and> ci_total i \<le> w_available w
       \<and> p = fresh_packet ttl i w s
       \<and> lookup (\<lambda>q. rp_id q = rp_id p \<or> (rp_sender q = rp_sender p \<and> rp_request q = rp_request p)) (red_packets s) = None
       \<and> rp_currency p \<in> {''USDT'', ''POINTS''}
       \<and> red_packets s' = red_packets s @ [p] \<and> packet_claims s' = packet_claims s
       \<and> moved s w (w_available w - ci_total i) ''red_packet'' (rp_id p) ''red_packet_fund'' s'))"
proof (cases "findByRequest s (ci_sender i) (ci_request i)")
  case (Some q)
  then show ?thesis
    using assms(2) by (auto simp: Create_def i_def [symmetric] Let_def tx_simps split: if_splits)
next
  case None
  have ok: "wallets_ok s" using assms(1) by (rule books_ok_wallets_ok)
  from assms(2) None obtain w s1 s2 s3 pl where c: "created" and v: "\<not> create_invalid ttl i"
    and w: "wallet_of s (ci_sender i) (ci_currency i) = Some w" "ci_total i \<le> w_available w"
    and p: "p = fresh_packet ttl i w s"
    and s1: "insert_packet p (s\<lparr>next_uuid := Suc (next_uuid s)\<rparr>) = Inr s1"
    and s2: "set_available (w_id w) (w_available w - ci_total i) s1 = Inr s2"
    and s3: "insert_ledger (w_id w) ''red_packet'' (rp_id p) ''red_packet_fund'' (- ci_total i) (w_available w - ci_total i) s2 = Inr s3"
    and s4: "insert_outbox ''red_packet'' (rp_id p) ''chat.red_packet.created'' pl s3 = Inr s'"
    by (auto simp: Create_def i_def [symmetric] Let_def tx_simps new_uuid_def fresh_packet_def split: if_splits)
  have e1: "s1 = s\<lparr>next_uuid := Suc (next_uuid s), red_packets := red_packets s @ [p]\<rparr>"
    and u: "lookup (\<lambda>q. rp_id q = rp_id p \<or> (rp_sender q = rp_sender p \<and> rp_request q = rp_request p)) (red_packets s) = None"
    and cu: "rp_currency p \<in> {''USDT'', ''POINTS''}"
    using s1 by (auto simp: insert_packet_def split: if_splits)
  have ok1: "wallets_ok s1" using ok by (simp add: e1 wallets_ok_def wallet_by_id_def)
  have w1: "wallet_by_id s1 (w_id w) = Some w" using wallet_of_by_id [OF ok w(1)] by (simp add: e1 wallet_by_id_def)
  have "moved s1 w (w_available w - ci_total i) ''red_packet'' (rp_id p) ''red_packet_fund'' s' \<and> money_only s1 s'"
    using post_event [OF ok1 w1 s2 s3 _ s4] by simp
  moreover have "moved s1 w x bt bid et s' = moved s w x bt bid et s'" for x bt bid et by (rule moved_cong) (simp_all add: e1)
  ultimately show ?thesis using c v w p u cu money_onlyD [of s1 s'] by (auto simp: e1)
qed

definition claim_effect :: "db \<Rightarrow> red_packet_row \<Rightarrow> wallet_row \<Rightarrow> claim_row \<Rightarrow> db \<Rightarrow> bool" where
  "claim_effect s p w c s' \<longleftrightarrow> 0 < rc_amount c \<and> rc_amount c \<le> rp_remaining p
     \<and> lookup (\<lambda>d. rc_id d = rc_id c \<or> (rc_packet d = rc_packet c \<and> rc_user d = rc_user c)) (packet_claims s) = None
     \<and> packet_claims s' = packet_claims s @ [c]
     \<and> red_packets s' = modify (\<lambda>q. rp_id q = rp_id p) (\<lambda>q. q\<lparr>rp_remaining := rp_remaining p - rc_amount c, rp_claimed := rp_claimed p + 1,
            rp_status := if rp_claimed p + 1 = rp_count p \<or> rp_remaining p = rc_amount c then PExhausted else rp_status p\<rparr>) (red_packets s)
     \<and> moved s w (w_available w + rc_amount c) ''red_packet'' (rc_id c) ''red_packet_claim'' s'"

lemma update_packet_Inr:
  assumes "update_packet i r c st s = Inr s'" "lookup (\<lambda>q. rp_id q = i) (red_packets s) = Some p"
  shows "0 \<le> r \<and> 0 \<le> c \<and> s' = s\<lparr>red_packets := modify (\<lambda>q. rp_id q = i)
     (\<lambda>q. q\<lparr>rp_remaining := r, rp_claimed := c, rp_status := st\<rparr>) (red_packets s)\<rparr>"
  using assms by (auto simp: update_packet_def split: if_splits)

lemma claim_writes_Inr:
  assumes "wallets_ok s" "lookup (\<lambda>q. rp_id q = rp_id p) (red_packets s) = Some p" "wallet_by_id s (w_id w) = Some w"
    and "claim_writes p userID w a au s = Inr ((c, created), s')"
  shows "created \<and> c = \<lparr>rc_id = uuids s (next_uuid s), rc_packet = rp_id p, rc_user = userID, rc_wallet = w_id w, rc_amount = a, rc_at = clock s\<rparr>
       \<and> claim_effect s p w c s'"
proof -
  let ?st = "if rp_claimed p + 1 = rp_count p \<or> rp_remaining p - a = 0 then PExhausted else rp_status p"
  let ?c = "\<lparr>rc_id = uuids s (next_uuid s), rc_packet = rp_id p, rc_user = userID, rc_wallet = w_id w, rc_amount = a, rc_at = clock s\<rparr>"
  from assms(4) obtain s1 s2 s3 s4 pl where cr: "created" and c: "c = ?c"
    and s1: "insert_claim ?c (s\<lparr>next_uuid := Suc (next_uuid s)\<rparr>) = Inr s1"
    and s2: "update_packet (rp_id p) (rp_remaining p - a) (rp_claimed p + 1) ?st s1 = Inr s2"
    and s3: "set_available (w_id w) (w_available w + a) s2 = Inr s3"
    and s4: "insert_ledger (w_id w) ''red_packet'' (rc_id ?c) ''red_packet_claim'' a (w_available w + a) s3 = Inr s4"
    and s5: "insert_outbox ''red_packet'' (rp_id p) ''chat.red_packet.claimed'' pl s4 = Inr s'"
    unfolding claim_writes_def Let_def new_uuid_def prod.case bindE_eq_Inr by (elim exE conjE) simp
  have e1: "s1 = s\<lparr>next_uuid := Suc (next_uuid s), packet_claims := packet_claims s @ [c]\<rparr>" and pos: "0 < a"
    and u: "lookup (\<lambda>d. rc_id d = rc_id c \<or> (rc_packet d = rc_packet c \<and> rc_user d = rc_user c)) (packet_claims s) = None"
    using s1 by (auto simp: insert_claim_def c split: if_splits)
  have e2: "s2 = s1\<lparr>red_packets := modify (\<lambda>q. rp_id q = rp_id p) (\<lambda>q. q\<lparr>rp_remaining := rp_remaining p - a, rp_claimed := rp_claimed p + 1,
            rp_status := ?st\<rparr>) (red_packets s1)\<rparr>"
    and le: "a \<le> rp_remaining p"
    using update_packet_Inr [OF s2, of p] assms(2) by (simp_all add: e1)
  have ok2: "wallets_ok s2" using assms(1) by (simp add: e1 e2 wallets_ok_def wallet_by_id_def)
  have w2: "wallet_by_id s2 (w_id w) = Some w" using assms(3) by (simp add: e1 e2 wallet_by_id_def)
  have "moved s2 w (w_available w + a) ''red_packet'' (rc_id c) ''red_packet_claim'' s' \<and> money_only s2 s'"
    using post_event [OF ok2 w2 s3 s4 _ s5] by (simp add: c)
  moreover have "moved s2 w x bt bid et s' = moved s w x bt bid et s'" for x bt bid et by (rule moved_cong) (simp_all add: e1 e2)
  ultimately show ?thesis using cr c pos u le money_onlyD(8,9) [of s2 s'] by (simp add: claim_effect_def e1 e2)
qed

lemma Claim_Inr:
  assumes "books_ok s" "Claim random packetID userID s = Inr ((c, created), s')"
  shows "(\<not> created \<and> s' = s \<and> findClaim s packetID userID = Some c) \<or>
    (created \<and> findClaim s packetID userID = None \<and> (\<exists>p w. lookup (\<lambda>p. rp_id p = packetID) (red_packets s) = Some p \<and> rp_sender p \<noteq> userID
       \<and> rp_status p = PActive \<and> clock s < rp_expires p \<and> rp_claimed p < rp_count p \<and> 0 < rp_remaining p
       \<and> claimAmount random (rp_remaining p) (rp_count p - rp_claimed p) = Inr (rc_amount c)
       \<and> wallet_of s userID (rp_currency p) = Some w \<and> w_available w + rc_amount c \<le> max_int64
       \<and> rc_packet c = packetID \<and> rc_user c = userID \<and> claim_effect s p w c s'))"
proof (cases "findClaim s packetID userID")
  case (Some q)
  then show ?thesis using assms(2) by (auto simp: Claim_def tx_simps)
next
  case None
  have ok: "wallets_ok s" using assms(1) by (rule books_ok_wallets_ok)
  from assms(2) None obtain p w a au where
    p: "lookup (\<lambda>p. rp_id p = packetID) (red_packets s) = Some p" "rp_sender p \<noteq> userID"
       "rp_status p = PActive" "clock s < rp_expires p" "rp_claimed p < rp_count p" "0 < rp_remaining p"
    and a: "claimAmount random (rp_remaining p) (rp_count p - rp_claimed p) = Inr a"
    and w: "wallet_of s userID (rp_currency p) = Some w" "w_available w \<le> max_int64 - a"
    and wr: "claim_writes p userID w a au s = Inr ((c, created), s')"
    by (auto simp: Claim_def tx_simps)
  have pid: "rp_id p = packetID" using lookup_SomeD [OF p(1)] by auto
  have "lookup (\<lambda>q. rp_id q = rp_id p) (red_packets s) = Some p" using p(1) pid by simp
  note e = claim_writes_Inr [OF ok this wallet_of_by_id [OF ok w(1)] wr]
  show ?thesis using e p pid a w None by auto
qed

text \<open>The two forms of a credit in \<^verbatim>\<open>refundOne\<close>: with a ledger entry, or a bare version bump when
  nothing remains.\<close>

definition refund_money :: "db \<Rightarrow> red_packet_row \<Rightarrow> wallet_row \<Rightarrow> db \<Rightarrow> bool" where
  "refund_money s p w s' \<longleftrightarrow>
     (if 0 < rp_remaining p
      then moved s w (w_available w + rp_remaining p) ''red_packet'' (rp_id p) ''red_packet_refund'' s'
      else wallets s' = wallets (wallet_update (w_id w) (w_available w + rp_remaining p) (w_frozen w) s) \<and> ledger s' = ledger s)"

lemma refund_writes_Inr:
  assumes ok: "wallets_ok s" and p: "lookup (\<lambda>q. rp_id q = rp_id p) (red_packets s) = Some p"
    and w: "wallet_by_id s (rp_wallet p) = Some w" and wr: "refund_writes p w s = Inr (changed, s')"
  shows "changed \<and> 0 \<le> w_available w + rp_remaining p
       \<and> red_packets s' = modify (\<lambda>q. rp_id q = rp_id p) (\<lambda>q. q\<lparr>rp_remaining := 0, rp_claimed := rp_claimed p, rp_status := PRefunded\<rparr>) (red_packets s)
       \<and> packet_claims s' = packet_claims s \<and> refund_money s p w s'"
proof -
  let ?b = "w_available w + rp_remaining p"
  from wr obtain s1 s2 s3 pl where c: "changed"
    and s1: "update_packet (rp_id p) 0 (rp_claimed p) PRefunded s = Inr s1"
    and s2: "set_available (rp_wallet p) ?b s1 = Inr s2"
    and s3: "(if rp_remaining p > 0 then insert_ledger (rp_wallet p) ''red_packet'' (rp_id p) ''red_packet_refund''
               (rp_remaining p) ?b s2 else Inr s2) = Inr s3"
    and s4: "insert_outbox ''red_packet'' (rp_id p) ''chat.red_packet.refunded'' pl s3 = Inr s'"
    unfolding refund_writes_def Let_def bindE_eq_Inr by (elim exE conjE) simp
  have e1: "s1 = s\<lparr>red_packets := modify (\<lambda>q. rp_id q = rp_id p) (\<lambda>q. q\<lparr>rp_remaining := 0, rp_claimed := rp_claimed p, rp_status := PRefunded\<rparr>) (red_packets s)\<rparr>"
    using update_packet_Inr [OF s1 p] by simp
  have ok1: "wallets_ok s1" using ok by (simp add: e1 wallets_ok_def wallet_by_id_def)
  have w1: "wallet_by_id s1 (rp_wallet p) = Some w" using w by (simp add: e1 wallet_by_id_def)
  have wid: "w_id w = rp_wallet p" using wallet_by_id_mem [OF w] by simp
  have su: "0 \<le> ?b" "s2 = wallet_update (rp_wallet p) ?b (w_frozen w) s1" using set_available_Inr [OF ok1 w1 s2] by auto
  have "money_only s2 s3" using s3 insert_ledger_money_only by (auto split: if_splits)
  then have fr: "money_only s1 s'" using money_only_stmts(1) [OF s4] money_only_stmts(2) [OF s2] money_only_trans by blast
  have "refund_money s p w s'"
  proof (cases "0 < rp_remaining p")
    case True
    then have "insert_ledger (rp_wallet p) ''red_packet'' (rp_id p) ''red_packet_refund'' (rp_remaining p) ?b s2 = Inr s3"
      using s3 by simp
    from post_event [OF ok1 w1 s2 this _ s4]
    have "moved s1 w ?b ''red_packet'' (rp_id p) ''red_packet_refund'' s'" by simp
    then show ?thesis using True moved_cong [of s1 s] by (simp add: refund_money_def e1)
  next
    case False
    then show ?thesis
      using s3 insert_outbox_money_only [OF s4] su(2) by (auto simp: refund_money_def wid wallet_update_def e1)
  qed
  then show ?thesis using c su(1) money_onlyD(8,9) [OF fr] by (simp add: e1)
qed

lemma refundOne_Inr:
  assumes "books_ok s" "refundOne packetID s = Inr (changed, s')"
  shows "(\<not> changed \<and> s' = s) \<or>
    (changed \<and> (\<exists>p w. lookup (\<lambda>p. rp_id p = packetID) (red_packets s) = Some p \<and> rp_status p = PActive \<and> rp_expires p \<le> clock s
       \<and> wallet_by_id s (rp_wallet p) = Some w \<and> 0 \<le> w_available w + rp_remaining p \<and> w_available w + rp_remaining p \<le> max_int64
       \<and> red_packets s' = modify (\<lambda>q. rp_id q = packetID) (\<lambda>q. q\<lparr>rp_remaining := 0, rp_claimed := rp_claimed p, rp_status := PRefunded\<rparr>) (red_packets s)
       \<and> packet_claims s' = packet_claims s \<and> refund_money s p w s'))"
proof (cases "lookup (\<lambda>p. rp_id p = packetID) (red_packets s)")
  case None
  then show ?thesis using assms(2) by (simp add: refundOne_def)
next
  case (Some p)
  have pid: "rp_id p = packetID" using lookup_SomeD [OF Some] by simp
  show ?thesis
  proof (cases "rp_status p \<noteq> PActive \<or> rp_expires p > clock s")
    case True
    then show ?thesis using assms(2) Some by (simp add: refundOne_def)
  next
    case False
    then obtain w where w: "wallet_by_id s (rp_wallet p) = Some w" "w_available w \<le> max_int64 - rp_remaining p"
      and wr: "refund_writes p w s = Inr (changed, s')"
      using assms(2) Some by (auto simp: refundOne_def tx_simps)
    show ?thesis using refund_writes_Inr [OF books_ok_wallets_ok [OF assms(1)] _ w(1) wr] Some False w pid by auto
  qed
qed

section \<open>Invariant\<close>

definition claims_of :: "db \<Rightarrow> string \<Rightarrow> claim_row list" where
  "claims_of s i = filter (\<lambda>c. rc_packet c = i) (packet_claims s)"

definition paid :: "claim_row list \<Rightarrow> int" where
  "paid cs = sum_list (map rc_amount cs)"

definition packet_ok :: "claim_row list \<Rightarrow> red_packet_row \<Rightarrow> bool" where
  "packet_ok cs p \<longleftrightarrow> rp_claimed p = int (length cs) \<and> 0 < rp_total p \<and> rp_total p \<le> max_int64 \<and> 0 \<le> paid cs \<and>
     (case rp_status p of
        PActive \<Rightarrow> paid cs + rp_remaining p = rp_total p \<and> rp_claimed p < rp_count p \<and> rp_count p - rp_claimed p \<le> rp_remaining p
      | PExhausted \<Rightarrow> paid cs = rp_total p \<and> rp_remaining p = 0
      | PRefunded \<Rightarrow> paid cs < rp_total p \<and> rp_remaining p = 0)"

definition packets_ok :: "db \<Rightarrow> bool" where
  "packets_ok s \<longleftrightarrow> distinct (map rp_id (red_packets s))
     \<and> distinct (map (\<lambda>p. (rp_sender p, rp_request p)) (red_packets s))
     \<and> distinct (map (\<lambda>c. (rc_packet c, rc_user c)) (packet_claims s))
     \<and> (\<forall>c \<in> set (packet_claims s). lookup (\<lambda>p. rp_id p = rc_packet c) (red_packets s) \<noteq> None)
     \<and> (\<forall>p \<in> set (red_packets s). packet_ok (claims_of s (rp_id p)) p \<and>
          (\<exists>w. wallet_by_id s (rp_wallet p) = Some w \<and> w_currency w = rp_currency p \<and> w_user w = rp_sender p))"

lemma moved_identity:
  assumes "wallet_by_id s (w_id w) = Some w" "moved s w v bt bid et s'" "wallet_by_id s i = Some x"
  shows "\<exists>y. wallet_by_id s' i = Some y \<and> w_currency y = w_currency x \<and> w_user y = w_user x"
  using moved_wallet [OF assms(1,2), of i] assms(1,3) by (auto split: if_splits)

lemma Create_packets_ok:
  assumes "books_ok s" "packets_ok s" "Create ttl input s = Inr ((p, created), s')" "ci_total input \<le> max_int64"
  shows "packets_ok s'"
proof (cases created)
  case False
  then show ?thesis using Create_Inr [OF assms(1,3)] assms(2) by auto
next
  case True
  let ?i = "normalize input"
  have ok: "wallets_ok s" using assms(1) by (rule books_ok_wallets_ok)
  obtain w where v: "\<not> create_invalid ttl ?i" and w: "wallet_of s (ci_sender ?i) (ci_currency ?i) = Some w"
    and p: "p = fresh_packet ttl ?i w s"
    and u: "lookup (\<lambda>q. rp_id q = rp_id p \<or> (rp_sender q = rp_sender p \<and> rp_request q = rp_request p)) (red_packets s) = None"
    and rp: "red_packets s' = red_packets s @ [p]" and cl: "packet_claims s' = packet_claims s"
    and m: "moved s w (w_available w - ci_total ?i) ''red_packet'' (rp_id p) ''red_packet_fund'' s'"
    using Create_Inr [OF assms(1,3)] True by auto
  have wid: "wallet_by_id s (w_id w) = Some w" using wallet_of_by_id [OF ok w] .
  have none: "claims_of s (rp_id p) = []"
    using assms(2) u unfolding packets_ok_def claims_of_def filter_empty_conv lookup_None_iff by metis
  have np: "packet_ok [] p"
    using v assms(4) by (simp add: p packet_ok_def fresh_packet_def paid_def create_invalid_def normalize_def)
  have nw: "\<exists>x. wallet_by_id s' (rp_wallet p) = Some x \<and> w_currency x = rp_currency p \<and> w_user x = rp_sender p"
    using moved_identity [OF wid m wid] wallet_of_mem [OF w] by (simp add: p fresh_packet_def)
  have old: "packet_ok (claims_of s' (rp_id q)) q \<and> (\<exists>x. wallet_by_id s' (rp_wallet q) = Some x \<and> w_currency x = rp_currency q \<and> w_user x = rp_sender q)"
    if "q \<in> set (red_packets s)" for q
    using that assms(2) moved_identity [OF wid m] by (fastforce simp: packets_ok_def claims_of_def cl)
  have d: "distinct (map rp_id (red_packets s'))" "distinct (map (\<lambda>p. (rp_sender p, rp_request p)) (red_packets s'))"
    using assms(2) u by (auto simp: packets_ok_def rp lookup_None_iff)
  have "claims_of s' (rp_id p) = []" using none by (simp add: claims_of_def cl)
  then show ?thesis
    using d old np nw assms(2) unfolding packets_ok_def by (auto simp: rp cl lookup_append split: option.splits)
qed

lemma paid_append: "paid (cs @ [c]) = paid cs + rc_amount c"
  by (simp add: paid_def)

lemma Claim_packets_ok:
  assumes "books_ok s" "packets_ok s" "random_ok random" "Claim random packetID userID s = Inr ((c, created), s')"
  shows "packets_ok s'"
proof (cases created)
  case False
  then show ?thesis using Claim_Inr [OF assms(1,4)] assms(2) by auto
next
  case True
  have ok: "wallets_ok s" using assms(1) by (rule books_ok_wallets_ok)
  obtain p w where p: "lookup (\<lambda>p. rp_id p = packetID) (red_packets s) = Some p" "rp_status p = PActive" "rp_claimed p < rp_count p"
    and a: "claimAmount random (rp_remaining p) (rp_count p - rp_claimed p) = Inr (rc_amount c)"
    and w: "wallet_of s userID (rp_currency p) = Some w" and c: "rc_packet c = packetID" and e: "claim_effect s p w c s'"
    using Claim_Inr [OF assms(1,4)] True by auto
  note e = e [unfolded claim_effect_def]
  have wid: "wallet_by_id s (w_id w) = Some w" using wallet_of_by_id [OF ok w] .
  have m: "moved s w (w_available w + rc_amount c) ''red_packet'' (rc_id c) ''red_packet_claim'' s'" using e by simp
  have pin: "p \<in> set (red_packets s)" "rp_id p = packetID" using lookup_SomeD [OF p(1)] by auto
  have pk: "packet_ok (claims_of s packetID) p" using assms(2) pin by (auto simp: packets_ok_def)
  have b: "1 \<le> rc_amount c \<and> rc_amount c \<le> rp_remaining p - (rp_count p - rp_claimed p - 1)"
    using claimAmount_bounds [OF assms(3) a] pk p(2,3) by (auto simp: packet_ok_def)
  define p' where "p' = p\<lparr>rp_remaining := rp_remaining p - rc_amount c, rp_claimed := rp_claimed p + 1,
     rp_status := if rp_claimed p + 1 = rp_count p \<or> rp_remaining p = rc_amount c then PExhausted else rp_status p\<rparr>"
  have cs: "claims_of s' i = (if i = packetID then claims_of s i @ [c] else claims_of s i)" for i
    using e c by (simp add: claims_of_def)
  have last: "rp_claimed p + 1 = rp_count p \<Longrightarrow> rc_amount c = rp_remaining p"
    using a by (auto simp: claimAmount_def split: if_splits)
  have np: "packet_ok (claims_of s' packetID) p'"
  proof (cases "rc_amount c = rp_remaining p")
    case True
    then show ?thesis using pk b p(2) by (simp add: packet_ok_def p'_def cs paid_append)
  next
    case False
    then have "rp_claimed p + 1 \<noteq> rp_count p" using last by blast
    with False show ?thesis using pk b p(2,3) by (simp add: packet_ok_def p'_def cs paid_append)
  qed
  have q': "q \<in> set (red_packets s') \<Longrightarrow> (q = p' \<or> (q \<in> set (red_packets s) \<and> rp_id q \<noteq> packetID))" for q
  proof -
    assume "q \<in> set (red_packets s')"
    then obtain r where r: "r \<in> set (red_packets s)" and q: "q = (if rp_id r = rp_id p then r\<lparr>rp_remaining := rp_remaining p - rc_amount c, rp_claimed := rp_claimed p + 1,
      rp_status := if rp_claimed p + 1 = rp_count p \<or> rp_remaining p = rc_amount c then PExhausted else rp_status p\<rparr> else r)"
      using e by (auto simp: set_modify)
    have "rp_id r = rp_id p \<Longrightarrow> r = p"
      using assms(2) r pin(1) distinct_key_eq [of rp_id "red_packets s" r p] by (simp add: packets_ok_def)
    then show ?thesis using pin(2) q r unfolding p'_def by (cases "rp_id r = rp_id p") simp_all
  qed
  have "packet_ok (claims_of s' (rp_id q)) q \<and> (\<exists>x. wallet_by_id s' (rp_wallet q) = Some x \<and> w_currency x = rp_currency q \<and> w_user x = rp_sender q)"
    if q: "q \<in> set (red_packets s')" for q
  proof -
    have wl: "\<exists>x. wallet_by_id s' (rp_wallet r) = Some x \<and> w_currency x = rp_currency r \<and> w_user x = rp_sender r" if "r \<in> set (red_packets s)" for r
      using that assms(2) moved_identity [OF wid m] by (fastforce simp: packets_ok_def)
    from q' [OF q] show ?thesis
    proof
      assume "q = p'"
      then show ?thesis using np wl [OF pin(1)] pin(2) by (simp add: p'_def)
    next
      assume "q \<in> set (red_packets s) \<and> rp_id q \<noteq> packetID"
      then show ?thesis using assms(2) wl by (simp add: packets_ok_def cs)
    qed
  qed
  moreover have "map rp_id (red_packets s') = map rp_id (red_packets s)"
    "map (\<lambda>p. (rp_sender p, rp_request p)) (red_packets s') = map (\<lambda>p. (rp_sender p, rp_request p)) (red_packets s)"
    using e by (simp_all add: map_modify_inv)
  moreover have "lookup (\<lambda>p. rp_id p = i) (red_packets s') \<noteq> None \<longleftrightarrow> lookup (\<lambda>p. rp_id p = i) (red_packets s) \<noteq> None" for i
    using e by (simp add: lookup_modify_pres)
  moreover have "distinct (map (\<lambda>c. (rc_packet c, rc_user c)) (packet_claims s'))"
    using assms(2) e by (auto simp: packets_ok_def lookup_None_iff)
  moreover have "lookup (\<lambda>p. rp_id p = rc_packet d) (red_packets s) \<noteq> None" if "d \<in> set (packet_claims s')" for d
    using that assms(2) e c p(1) by (auto simp: packets_ok_def)
  ultimately show ?thesis using assms(2) unfolding packets_ok_def by simp
qed

lemma refundOne_packets_ok:
  assumes "books_ok s" "packets_ok s" "refundOne packetID s = Inr (changed, s')"
  shows "packets_ok s'"
proof (cases changed)
  case False
  then show ?thesis using refundOne_Inr [OF assms(1,3)] assms(2) by auto
next
  case True
  obtain p w where p: "lookup (\<lambda>p. rp_id p = packetID) (red_packets s) = Some p" "rp_status p = PActive"
    and w: "wallet_by_id s (rp_wallet p) = Some w"
    and rp: "red_packets s' = modify (\<lambda>q. rp_id q = packetID) (\<lambda>q. q\<lparr>rp_remaining := 0, rp_claimed := rp_claimed p, rp_status := PRefunded\<rparr>) (red_packets s)"
    and cl: "packet_claims s' = packet_claims s" and m: "refund_money s p w s'"
    using refundOne_Inr [OF assms(1,3)] True by auto
  have pin: "p \<in> set (red_packets s)" "rp_id p = packetID" using lookup_SomeD [OF p(1)] by auto
  have pk: "packet_ok (claims_of s packetID) p" using assms(2) pin by (auto simp: packets_ok_def)
  have rem: "0 < rp_remaining p" using pk p(2) by (auto simp: packet_ok_def)
  have wid: "wallet_by_id s (w_id w) = Some w" using wallet_by_id_self [OF w] .
  have m': "moved s w (w_available w + rp_remaining p) ''red_packet'' (rp_id p) ''red_packet_refund'' s'"
    using m rem by (simp add: refund_money_def)
  have "packet_ok (claims_of s' (rp_id q)) q \<and> (\<exists>x. wallet_by_id s' (rp_wallet q) = Some x \<and> w_currency x = rp_currency q \<and> w_user x = rp_sender q)"
    if q: "q \<in> set (red_packets s')" for q
  proof -
    obtain r where r: "r \<in> set (red_packets s)" and q: "q = (if rp_id r = packetID then r\<lparr>rp_remaining := 0, rp_claimed := rp_claimed p, rp_status := PRefunded\<rparr> else r)"
      using q by (auto simp: rp set_modify)
    have rp': "rp_id r = packetID \<Longrightarrow> r = p"
      using assms(2) r pin distinct_key_eq [of rp_id "red_packets s" r p] by (simp add: packets_ok_def)
    have "\<exists>x. wallet_by_id s' (rp_wallet r) = Some x \<and> w_currency x = rp_currency r \<and> w_user x = rp_sender r"
      using r assms(2) moved_identity [OF wid m'] by (fastforce simp: packets_ok_def)
    moreover have "packet_ok (claims_of s (rp_id r)) r" using assms(2) r by (simp add: packets_ok_def)
    ultimately show ?thesis using rp' rem p(2) unfolding q claims_of_def cl by (auto simp: packet_ok_def)
  qed
  moreover have "map rp_id (red_packets s') = map rp_id (red_packets s)"
    "map (\<lambda>p. (rp_sender p, rp_request p)) (red_packets s') = map (\<lambda>p. (rp_sender p, rp_request p)) (red_packets s)"
    by (simp_all add: rp map_modify_inv)
  moreover have "lookup (\<lambda>p. rp_id p = i) (red_packets s') \<noteq> None \<longleftrightarrow> lookup (\<lambda>p. rp_id p = i) (red_packets s) \<noteq> None" for i
    by (simp add: rp lookup_modify_pres)
  ultimately show ?thesis using assms(2) unfolding packets_ok_def cl by simp
qed

section \<open>The books and the escrow\<close>

lemma Create_books: "books_ok s \<Longrightarrow> Create ttl input s = Inr (r, s') \<Longrightarrow> books_ok s'"
proof -
  assume a: "books_ok s" "Create ttl input s = Inr (r, s')"
  obtain p created where r: "r = (p, created)" by force
  have ok: "wallets_ok s" using a(1) by (rule books_ok_wallets_ok)
  from Create_Inr [OF a(1) a(2) [unfolded r]] show ?thesis
  proof (elim disjE conjE exE)
    fix w assume w: "wallet_of s (ci_sender (normalize input)) (ci_currency (normalize input)) = Some w"
      and le: "ci_total (normalize input) \<le> w_available w" and v: "\<not> create_invalid ttl (normalize input)"
      and m: "moved s w (w_available w - ci_total (normalize input)) ''red_packet'' (rp_id p) ''red_packet_fund'' s'"
    have "in_range (w_available w - ci_total (normalize input))"
      using wallet_of_range [OF ok w] le v by (auto simp: in_range_def create_invalid_def)
    then show ?thesis using moved_books [OF a(1) wallet_of_by_id [OF ok w] m] by simp
  qed (use a(1) in simp)
qed

lemma Claim_books: "books_ok s \<Longrightarrow> Claim random packetID userID s = Inr (r, s') \<Longrightarrow> books_ok s'"
proof -
  assume a: "books_ok s" "Claim random packetID userID s = Inr (r, s')"
  obtain c created where r: "r = (c, created)" by force
  have ok: "wallets_ok s" using a(1) by (rule books_ok_wallets_ok)
  from Claim_Inr [OF a(1) a(2) [unfolded r]] show ?thesis
  proof (elim disjE conjE exE)
    fix p w assume w: "wallet_of s userID (rp_currency p) = Some w" "w_available w + rc_amount c \<le> max_int64"
      and e: "claim_effect s p w c s'"
    have "in_range (w_available w + rc_amount c)"
      using wallet_of_range [OF ok w(1)] w(2) e by (auto simp: in_range_def claim_effect_def)
    moreover have "moved s w (w_available w + rc_amount c) ''red_packet'' (rc_id c) ''red_packet_claim'' s'"
      using e unfolding claim_effect_def by blast
    ultimately show ?thesis using moved_books [OF a(1) wallet_of_by_id [OF ok w(1)]] by blast
  qed (use a(1) in simp)
qed

lemma books_bump:
  assumes "books_ok s" "wallet_by_id s (w_id w) = Some w"
    and "wallets s' = wallets (wallet_update (w_id w) (w_available w) (w_frozen w) s)" "ledger s' = ledger s"
  shows "books_ok s'"
proof -
  have "books ((\<lambda>_. (0, 0))(w_id w := (0, 0))) (wallet_update (w_id w) (w_available w) (w_frozen w) s)"
    using books_wallet_update [OF assms(1) [unfolded books_ok_def] assms(2)] wallets_ok_range [OF books_ok_wallets_ok [OF assms(1)] assms(2)]
    by force
  then have "books_ok (wallet_update (w_id w) (w_available w) (w_frozen w) s)" by (simp add: books_ok_def fun_upd_idem)
  then show ?thesis using books_ok_cong assms(3,4) by simp
qed

lemma refundOne_books: "books_ok s \<Longrightarrow> packets_ok s \<Longrightarrow> refundOne packetID s = Inr (r, s') \<Longrightarrow> books_ok s'"
proof -
  assume a: "books_ok s" "packets_ok s" "refundOne packetID s = Inr (r, s')"
  have ok: "wallets_ok s" using a(1) by (rule books_ok_wallets_ok)
  from refundOne_Inr [OF a(1,3)] show ?thesis
  proof (elim disjE conjE exE)
    fix p w assume p: "lookup (\<lambda>p. rp_id p = packetID) (red_packets s) = Some p" "rp_status p = PActive"
      and w: "wallet_by_id s (rp_wallet p) = Some w"
      and b: "0 \<le> w_available w + rp_remaining p" "w_available w + rp_remaining p \<le> max_int64" and m: "refund_money s p w s'"
    have "packet_ok (claims_of s (rp_id p)) p" using a(2) lookup_SomeD [OF p(1)] by (auto simp: packets_ok_def)
    then have "0 < rp_remaining p" using p(2) by (auto simp: packet_ok_def)
    then show ?thesis
      using m b moved_books [OF a(1) wallet_by_id_self [OF w]] by (simp add: refund_money_def in_range_def)
  qed (use a(1) in simp)
qed

text \<open>Money set aside in packets plus the available balances of a currency.\<close>

definition escrow :: "db \<Rightarrow> string \<Rightarrow> int" where
  "escrow s c = held s c + sum_list (map (\<lambda>p. if rp_currency p = c then rp_remaining p else 0) (red_packets s))"

lemma Create_escrow:
  assumes "books_ok s" "Create ttl input s = Inr ((p, created), s')"
  shows "escrow s' c = escrow s c"
proof -
  have ok: "wallets_ok s" using assms(1) by (rule books_ok_wallets_ok)
  from Create_Inr [OF assms] show ?thesis
  proof (elim disjE conjE exE)
    fix w assume w: "wallet_of s (ci_sender (normalize input)) (ci_currency (normalize input)) = Some w"
      and p: "p = fresh_packet ttl (normalize input) w s" and rp: "red_packets s' = red_packets s @ [p]"
      and m: "moved s w (w_available w - ci_total (normalize input)) ''red_packet'' (rp_id p) ''red_packet_fund'' s'"
    show ?thesis
      using moved_held [OF ok wallet_of_by_id [OF ok w] m, of c] wallet_of_mem [OF w]
      by (simp add: escrow_def rp p fresh_packet_def)
  qed simp
qed

lemma sum_packets:
  assumes "packets_ok s" "lookup (\<lambda>p. rp_id p = i) (red_packets s) = Some p"
  shows "sum_list (map (f :: red_packet_row \<Rightarrow> int) (modify (\<lambda>q. rp_id q = i) g (red_packets s)))
       = sum_list (map f (red_packets s)) + f (g p) - f p"
  using sum_modify [of rp_id "red_packets s" p f g] assms lookup_SomeD [OF assms(2)] by (auto simp: packets_ok_def)

lemma Claim_escrow:
  assumes "books_ok s" "packets_ok s" "Claim random packetID userID s = Inr ((c, created), s')"
  shows "escrow s' cur = escrow s cur"
proof -
  have ok: "wallets_ok s" using assms(1) by (rule books_ok_wallets_ok)
  from Claim_Inr [OF assms(1,3)] show ?thesis
  proof (elim disjE conjE exE)
    fix p w assume p: "lookup (\<lambda>p. rp_id p = packetID) (red_packets s) = Some p"
      and w: "wallet_of s userID (rp_currency p) = Some w" and e: "claim_effect s p w c s'"
    have id: "rp_id p = packetID" using lookup_SomeD [OF p] by simp
    have m: "moved s w (w_available w + rc_amount c) ''red_packet'' (rc_id c) ''red_packet_claim'' s'"
      using e unfolding claim_effect_def by blast
    have "held s' cur = held s cur + (if w_currency w = cur then rc_amount c else 0)"
      using moved_held [OF ok wallet_of_by_id [OF ok w] m] by simp
    then show ?thesis
      using sum_packets [OF assms(2) p] e wallet_of_mem [OF w] by (simp add: escrow_def claim_effect_def id)
  qed simp
qed

lemma refundOne_escrow:
  assumes "books_ok s" "packets_ok s" "refundOne packetID s = Inr (changed, s')"
  shows "escrow s' cur = escrow s cur"
proof -
  have ok: "wallets_ok s" using assms(1) by (rule books_ok_wallets_ok)
  from refundOne_Inr [OF assms(1,3)] show ?thesis
  proof (elim disjE conjE exE)
    fix p w assume p: "lookup (\<lambda>p. rp_id p = packetID) (red_packets s) = Some p" "rp_status p = PActive"
      and w: "wallet_by_id s (rp_wallet p) = Some w" and m: "refund_money s p w s'"
      and rp: "red_packets s' = modify (\<lambda>q. rp_id q = packetID) (\<lambda>q. q\<lparr>rp_remaining := 0, rp_claimed := rp_claimed p, rp_status := PRefunded\<rparr>) (red_packets s)"
    have pin: "p \<in> set (red_packets s)" using lookup_SomeD [OF p(1)] by simp
    then have "packet_ok (claims_of s (rp_id p)) p" and cu: "w_currency w = rp_currency p"
      using assms(2) w by (auto simp: packets_ok_def)
    then have "0 < rp_remaining p" using p(2) by (auto simp: packet_ok_def)
    then have "held s' cur = held s cur + (if w_currency w = cur then rp_remaining p else 0)"
      using moved_held [OF ok wallet_by_id_self [OF w]] m by (simp add: refund_money_def)
    then show ?thesis using sum_packets [OF assms(2) p(1)] cu by (simp add: escrow_def rp)
  qed simp
qed

interpretation create: money_handler "\<lambda>(ttl, input). Create ttl input"
  by unfold_locales (auto intro: Create_books)

interpretation claim: money_handler "\<lambda>(random, packetID, userID). Claim random packetID userID"
  by unfold_locales (auto intro: Claim_books)

lemma refund_loop_keeps:
  "books_ok s \<Longrightarrow> packets_ok s \<Longrightarrow> refund_loop ids n s = (r, s') \<Longrightarrow> books_ok s' \<and> packets_ok s' \<and> escrow s' cur = escrow s cur"
proof (induction ids n s rule: refund_loop.induct)
  case (1 n s)
  then show ?case by simp
next
  case (2 i ids n s)
  show ?case
  proof (cases "refundOne i s")
    case (Inl e)
    then show ?thesis using 2 by simp
  next
    case (Inr x)
    obtain ch s1 where x: "x = (ch, s1)" by force
    have k: "books_ok s1" "packets_ok s1" "escrow s1 cur = escrow s cur"
      using refundOne_books refundOne_packets_ok refundOne_escrow 2(2,3) Inr x by metis+
    show ?thesis using "2.IH" [OF Inr x [symmetric] k(1,2)] 2(4) Inr x k(3) by simp
  qed
qed

section \<open>Properties\<close>

text \<open>a claim draws between one minor unit and what leaves one unit for every other open slot,
  and the last slot takes the rest, for every random source that keeps the contract of
  \<^verbatim>\<open>crypto/rand.Int\<close>.\<close>

theorem claimAmount_range:
  assumes "random_ok random" "1 \<le> slots" "slots \<le> remaining" "claimAmount random remaining slots = Inr amount"
  shows "1 \<le> amount \<and> amount \<le> remaining - (slots - 1) \<and> (slots = 1 \<longrightarrow> amount = remaining)"
  using claimAmount_bounds [OF assms(1,4,2,3)] assms(4) by (auto simp: claimAmount_def)

theorem claimAmount_range_witness:
  "claimAmount (\<lambda>m. Inr (m - 1)) 100 4 = Inr 50 \<and> (50::int) \<le> 100 - (4 - 1)"
proof -
  have r: "random_ok (\<lambda>m. Inr (m - 1))" by (simp add: random_ok_def)
  have c: "claimAmount (\<lambda>m. Inr (m - 1)) 100 4 = Inr 50" by (simp add: claimAmount_def go_div_def)
  show ?thesis using claimAmount_range [OF r _ _ c] c by simp
qed

text \<open>sending, claiming and refunding keep every packet consistent: the claim count is the number
  of claims, an active packet still holds what has not been claimed and at least one unit for
  each open slot, an exhausted packet has paid out exactly its total, a refunded one holds
  nothing; nobody has two claims on a packet.\<close>

theorem red_packet_invariant:
  assumes "books_ok s" "packets_ok s" "random_ok random"
  shows "(Create ttl input s = Inr (r, s') \<longrightarrow> ci_total input \<le> max_int64 \<longrightarrow> packets_ok s')
       \<and> (Claim random packetID userID s = Inr (c, s') \<longrightarrow> packets_ok s')
       \<and> (refundOne packetID s = Inr (b, s') \<longrightarrow> packets_ok s')"
  using Create_packets_ok [OF assms(1,2), of ttl input "fst r" "snd r" s'] Claim_packets_ok [OF assms, of packetID userID "fst c" "snd c" s']
    refundOne_packets_ok [OF assms(1,2), of packetID b s']
  by auto

definition sample_input :: CreateInput where
  "sample_input = \<lparr>ci_room = ''lobby'', ci_sender = ''alice'', ci_request = ''req-1'', ci_currency = ''points'',
     ci_greeting = ''hi'', ci_total = 100, ci_count = 2\<rparr>"

definition sample_packet_db :: db where
  "sample_packet_db = attempt (Create 60 sample_input) sample_db"

lemma sample_packets_ok: "packets_ok sample_db"
  by (simp add: packets_ok_def sample_db_def empty_db_def)

lemma sample_create: "\<exists>r. Create 60 sample_input sample_db = Inr (r, sample_packet_db)"
proof -
  have "case Create 60 sample_input sample_db of Inl e \<Rightarrow> False | Inr x \<Rightarrow> True" by code_simp
  then show ?thesis by (auto simp: sample_packet_db_def attempt_def split: sum.splits)
qed

theorem red_packet_invariant_witness: "packets_ok sample_db \<and> packets_ok sample_packet_db"
proof -
  have r: "random_ok (\<lambda>m. Inr (m - 1))" by (simp add: random_ok_def)
  obtain x where x: "Create 60 sample_input sample_db = Inr (x, sample_packet_db)" using sample_create by blast
  have "ci_total sample_input \<le> max_int64" by (simp add: sample_input_def max_int64_def)
  then show ?thesis
    using red_packet_invariant [OF sample_books_ok sample_packets_ok r, of 60 sample_input x sample_packet_db] x sample_packets_ok by simp
qed

text \<open>C26: red packets neither create nor destroy money: in every currency, the available balances
  plus what the packets still hold is the same after a send, a claim and a whole
  \<^verbatim>\<open>RefundExpired\<close> run, errors included.\<close>

theorem red_packet_conservation:
  assumes "books_ok s" "packets_ok s"
  shows "escrow (attempt (Create ttl input) s) cur = escrow s cur
       \<and> escrow (attempt (Claim random packetID userID) s) cur = escrow s cur
       \<and> escrow (snd (RefundExpired limit s)) cur = escrow s cur"
proof -
  have "escrow (attempt (Create ttl input) s) cur = escrow s cur"
    using Create_escrow [OF assms(1)] by (auto simp: attempt_def split: sum.splits)
  moreover have "escrow (attempt (Claim random packetID userID) s) cur = escrow s cur"
    using Claim_escrow [OF assms] by (auto simp: attempt_def split: sum.splits)
  moreover have "escrow (snd (RefundExpired limit s)) cur = escrow s cur"
    unfolding RefundExpired_def Let_def using refund_loop_keeps [OF assms prod.collapse [symmetric]] by blast
  ultimately show ?thesis by simp
qed

theorem red_packet_conservation_witness:
  "held sample_db ''POINTS'' = 1000 \<and> held sample_packet_db ''POINTS'' = 900 \<and> escrow sample_packet_db ''POINTS'' = 1000"
proof -
  have "escrow sample_packet_db ''POINTS'' = escrow sample_db ''POINTS''"
    using red_packet_conservation [OF sample_books_ok sample_packets_ok, of 60 sample_input "''POINTS''"] by (simp add: sample_packet_db_def)
  moreover have "escrow sample_db ''POINTS'' = 1000" "held sample_db ''POINTS'' = 1000" "held sample_packet_db ''POINTS'' = 900"
    by code_simp+
  ultimately show ?thesis by simp
qed

text \<open>a repeated claim returns the first claim and changes nothing, whatever the random source does
  the second time and even after the packet has expired.\<close>

theorem claim_idempotent:
  assumes "books_ok s" "Claim random packetID userID s = Inr ((c, created), s')" "requireRealAccount s' userID = Inr ()"
  shows "Claim random' packetID userID s' = Inr ((c, False), s')"
proof -
  have "findClaim s' packetID userID = Some c"
    using Claim_Inr [OF assms(1,2)]
  proof (elim disjE conjE exE)
    fix p w assume p: "lookup (\<lambda>p. rp_id p = packetID) (red_packets s) = Some p" and e: "claim_effect s p w c s'"
      and c: "rc_packet c = packetID" "rc_user c = userID"
    have "lookup (\<lambda>d. rc_packet d = packetID \<and> rc_user d = userID) (packet_claims s) = None"
      using e c by (auto simp: claim_effect_def lookup_None_iff)
    then show ?thesis using e p c by (simp add: findClaim_def claim_effect_def lookup_modify_pres lookup_append)
  qed simp
  then show ?thesis using assms(3) by (simp add: Claim_def)
qed

definition sample_claimed_db :: db where
  "sample_claimed_db = attempt (Claim (\<lambda>m. Inr 6) ''u0'' ''bob'') sample_packet_db"

theorem claim_idempotent_witness:
  "\<exists>c. rc_amount c = 7 \<and> Claim (\<lambda>m. Inl (RedPacket RandomFailed)) ''u0'' ''bob'' sample_claimed_db = Inr ((c, False), sample_claimed_db)"
proof -
  have ok: "books_ok sample_packet_db" using sample_create Create_books [OF sample_books_ok] by blast
  have "case Claim (\<lambda>m. Inr 6) ''u0'' ''bob'' sample_packet_db of Inl e \<Rightarrow> False | Inr x \<Rightarrow> rc_amount (fst (fst x)) = 7" by code_simp
  then obtain c b where c: "Claim (\<lambda>m. Inr 6) ''u0'' ''bob'' sample_packet_db = Inr ((c, b), sample_claimed_db)" "rc_amount c = 7"
    by (auto simp: sample_claimed_db_def attempt_def split: sum.splits)
  moreover have "requireRealAccount sample_claimed_db ''bob'' = Inr ()" by code_simp
  ultimately show ?thesis using claim_idempotent [OF ok c(1)] by blast
qed

text \<open>\<^verbatim>\<open>Create\<close> lets JADE and ORIGIN_STONE through its validation, but no packet in these
  currencies is ever sent: the table accepts USDT and POINTS only, so the insert fails and the
  transaction is rolled back.\<close>

theorem jade_packet_never_sent:
  assumes "ci_currency (normalize input) \<in> {''JADE'', ''ORIGIN_STONE''}" "\<not> create_invalid ttl (normalize input)"
    and "requireRealAccount s (ci_sender (normalize input)) = Inr ()"
    and "findByRequest s (ci_sender (normalize input)) (ci_request (normalize input)) = None"
    and "roomAudience s (ci_room (normalize input)) (ci_sender (normalize input)) = Inr a"
    and "wallet_of s (ci_sender (normalize input)) (ci_currency (normalize input)) = Some w"
    and "ci_total (normalize input) \<le> w_available w"
  shows "Create ttl input s = Inl (DB Check)"
  using assms by (cases a) (auto simp: Create_def Let_def insert_packet_def new_uuid_def)

theorem jade_packet_never_sent_witness:
  "Create 60 (sample_input\<lparr>ci_currency := ''JADE''\<rparr>) sample_db = Inl (DB Check)"
  by (rule jade_packet_never_sent [of _ _ _ "(True, [])" "wallets sample_db ! 3"]) code_simp+

end
