(* ===== verification/Events_Outbox.thy ===== *)
theory Events_Outbox
  imports Books "HOL-Library.Multiset"
begin

text \<open>
  The transactional outbox: \<^verbatim>\<open>internal/domain/events\<close> (\<^verbatim>\<open>events.go\<close>, \<^verbatim>\<open>memory_outbox.go\<close>,
  \<^verbatim>\<open>postgres_outbox.go\<close>) and its client \<^verbatim>\<open>internal/application/outbox/processor.go\<close>. The interface
  \<^verbatim>\<open>events.Outbox\<close> is the locale \<open>outbox_store\<close>; delivery lemmas about the processor are proved
  in it once and hold for both implementations by interpretation.
\<close>

section \<open>events.go\<close>

record Event =
  ev_id :: string
  ev_type :: string
  ev_agg_type :: string
  ev_agg_id :: string
  ev_at :: int
  ev_payload :: payload

section \<open>memory_outbox.go\<close>

text \<open>
  The Go map of events is the list of its values; the order of that list means nothing. A range loop visits a map in any order, another one in every
  call, and \<^verbatim>\<open>sort.Slice\<close> leaves events of one instant in any order. Both choices together are the argument \<open>order\<close> of \<open>mo_Pending\<close>:
  \<open>range_order\<close> takes the values out of the map by the positions it lists. Every permutation is such an order (\<open>range_order_any\<close>), so what is
  proved for all orders holds for whatever the run time chooses (\<open>mo_Pending_any\<close>).
\<close>

function range_order :: "nat list \<Rightarrow> 'a list \<Rightarrow> 'a list" where
  "range_order order [] = []"
| "range_order order (x # xs) =
     (let k = (case order of [] \<Rightarrow> 0 | i # is \<Rightarrow> i mod length (x # xs))
      in (x # xs) ! k # range_order (tl order) (take k (x # xs) @ drop (Suc k) (x # xs)))"
  by pat_completeness auto
termination
  by (relation "measure (\<lambda>(order, xs). length xs)") (auto split: list.splits simp: less_Suc_eq_le)

record MemoryOutbox =
  mo_events :: "Event list"
  mo_published :: "string \<rightharpoonup> int"
  mo_attempts :: "string \<Rightarrow> int"
  mo_dead :: "string \<rightharpoonup> int"

definition NewMemoryOutbox :: MemoryOutbox where
  "NewMemoryOutbox = \<lparr>mo_events = [], mo_published = Map.empty, mo_attempts = (\<lambda>_. 0), mo_dead = Map.empty\<rparr>"

definition mo_Append :: "Event \<Rightarrow> MemoryOutbox \<Rightarrow> error + MemoryOutbox" where
  "mo_Append event s =
     (if lookup (\<lambda>e. ev_id e = ev_id event) (mo_events s) \<noteq> None then Inr s
      else Inr (s\<lparr>mo_events := mo_events s @ [event]\<rparr>))"

definition mo_Pending :: "nat list \<Rightarrow> int \<Rightarrow> MemoryOutbox \<Rightarrow> Event list" where
  "mo_Pending order limit s =
     (let pending = sort_key ev_at (filter (\<lambda>e. mo_published s (ev_id e) = None \<and> mo_dead s (ev_id e) = None)
                      (range_order order (mo_events s)))
      in if limit > 0 \<and> int (length pending) > limit then take (nat limit) pending else pending)"

definition mo_RecordFailure :: "string \<Rightarrow> int \<Rightarrow> string \<Rightarrow> int \<Rightarrow> MemoryOutbox \<Rightarrow> error + (bool \<times> MemoryOutbox)" where
  "mo_RecordFailure eventID failedAt reason maxAttempts s =
     (if maxAttempts \<le> 0 then Inl (Events MaxAttemptsNotPositive)
      else if lookup (\<lambda>e. ev_id e = eventID) (mo_events s) = None then Inl (Events ErrEventNotFound)
      else if mo_published s eventID \<noteq> None then Inr (False, s)
      else if mo_dead s eventID \<noteq> None then Inr (True, s)
      else let s = s\<lparr>mo_attempts := (mo_attempts s)(eventID := mo_attempts s eventID + 1)\<rparr>
           in if mo_attempts s eventID \<ge> maxAttempts
              then Inr (True, s\<lparr>mo_dead := (mo_dead s)(eventID \<mapsto> failedAt)\<rparr>)
              else Inr (False, s))"

definition mo_MarkPublished :: "string \<Rightarrow> int \<Rightarrow> MemoryOutbox \<Rightarrow> error + MemoryOutbox" where
  "mo_MarkPublished eventID publishedAt s =
     (if lookup (\<lambda>e. ev_id e = eventID) (mo_events s) = None then Inl (Events ErrEventNotFound)
      else if mo_published s eventID = None
      then Inr (s\<lparr>mo_published := (mo_published s)(eventID \<mapsto> publishedAt)\<rparr>)
      else Inr s)"

section \<open>postgres_outbox.go\<close>

definition row_event :: "outbox_row \<Rightarrow> Event" where
  "row_event r = \<lparr>ev_id = o_id r, ev_type = o_type r, ev_agg_type = o_agg_type r, ev_agg_id = o_agg_id r,
                  ev_at = o_at r, ev_payload = o_payload r\<rparr>"

definition pg_Append :: "Event \<Rightarrow> db \<Rightarrow> error + db" where
  "pg_Append e s =
     (if lookup (\<lambda>r. o_id r = ev_id e) (outbox s) \<noteq> None then Inr s
      else Inr (s\<lparr>outbox := outbox s @ [\<lparr>o_id = ev_id e, o_agg_type = ev_agg_type e, o_agg_id = ev_agg_id e,
             o_type = ev_type e, o_payload = ev_payload e, o_at = ev_at e, o_published = None, o_attempts = 0,
             o_failed = None, o_reason = None\<rparr>]\<rparr>))"

definition pg_Pending :: "int \<Rightarrow> db \<Rightarrow> Event list" where
  "pg_Pending limit s =
     (let rows = sort_key o_at (sort_key (\<lambda>r. map code (o_id r))
                   (filter (\<lambda>r. o_published r = None \<and> o_failed r = None) (outbox s)))
      in map row_event (if limit > 0 then take (nat limit) rows else rows))"

definition pg_MarkPublished :: "string \<Rightarrow> int \<Rightarrow> db \<Rightarrow> error + db" where
  "pg_MarkPublished eventID publishedAt s =
     (case lookup (\<lambda>r. o_id r = eventID \<and> o_published r = None) (outbox s) of
        Some _ \<Rightarrow> Inr (s\<lparr>outbox := modify (\<lambda>r. o_id r = eventID \<and> o_published r = None)
                    (\<lambda>r. r\<lparr>o_published := Some publishedAt, o_attempts := o_attempts r + 1\<rparr>) (outbox s)\<rparr>)
      | None \<Rightarrow> if lookup (\<lambda>r. o_id r = eventID) (outbox s) = None then Inl (Events ErrEventNotFound) else Inr s)"

definition pg_RecordFailure :: "string \<Rightarrow> int \<Rightarrow> string \<Rightarrow> int \<Rightarrow> db \<Rightarrow> error + (bool \<times> db)" where
  "pg_RecordFailure eventID failedAt reason maxAttempts s =
     (if maxAttempts \<le> 0 then Inl (Events MaxAttemptsNotPositive)
      else let reason = (if length reason > 1024 then take 1024 reason else reason);
               live = (\<lambda>r. o_id r = eventID \<and> o_published r = None \<and> o_failed r = None)
           in case lookup live (outbox s) of
                Some r \<Rightarrow> Inr (o_attempts r + 1 \<ge> maxAttempts,
                  s\<lparr>outbox := modify live (\<lambda>r. r\<lparr>o_attempts := o_attempts r + 1, o_reason := Some reason,
                       o_failed := (if o_attempts r + 1 \<ge> maxAttempts then Some failedAt else None)\<rparr>) (outbox s)\<rparr>)
              | None \<Rightarrow> if lookup (\<lambda>r. o_id r = eventID) (outbox s) = None then Inl (Events ErrEventNotFound)
                        else Inr (False, s))"

section \<open>outbox/processor.go\<close>

text \<open>
  \<^verbatim>\<open>ProcessPending\<close> over the operations of an outbox. \<open>publish\<close> is the publisher: \<open>None\<close> when it
  accepted the event, \<open>Some\<close> its error message.
\<close>

fun process_loop ::
  "(string \<Rightarrow> int \<Rightarrow> 's \<Rightarrow> error + 's) \<Rightarrow> (string \<Rightarrow> int \<Rightarrow> string \<Rightarrow> int \<Rightarrow> 's \<Rightarrow> error + (bool \<times> 's)) \<Rightarrow>
   (Event \<Rightarrow> string option) \<Rightarrow> int \<Rightarrow> int \<Rightarrow> Event list \<Rightarrow> int \<Rightarrow> 's \<Rightarrow> (int \<times> error option) \<times> 's" where
  "process_loop mark failure publish now maxAttempts [] published s = ((published, None), s)"
| "process_loop mark failure publish now maxAttempts (event # events) published s =
     (case publish event of
        Some msg \<Rightarrow>
          (case failure (ev_id event) now msg maxAttempts s of
             Inl recordErr \<Rightarrow> ((published, Some recordErr), s)
           | Inr (_, s') \<Rightarrow> ((published, Some (Events PublishFailed)), s'))
      | None \<Rightarrow>
          (case mark (ev_id event) now s of
             Inl e \<Rightarrow> ((published, Some e), s)
           | Inr s' \<Rightarrow> process_loop mark failure publish now maxAttempts events (published + 1) s'))"

definition ProcessPending ::
  "(int \<Rightarrow> 's \<Rightarrow> Event list) \<Rightarrow> (string \<Rightarrow> int \<Rightarrow> 's \<Rightarrow> error + 's) \<Rightarrow>
   (string \<Rightarrow> int \<Rightarrow> string \<Rightarrow> int \<Rightarrow> 's \<Rightarrow> error + (bool \<times> 's)) \<Rightarrow>
   (Event \<Rightarrow> string option) \<Rightarrow> int \<Rightarrow> int \<Rightarrow> int \<Rightarrow> 's \<Rightarrow> (int \<times> error option) \<times> 's" where
  "ProcessPending pending mark failure publish now maxAttempts limit s =
     process_loop mark failure publish now maxAttempts (pending limit s) 0 s"

text \<open>The attempts allowed by \<^verbatim>\<open>NewProcessor\<close>.\<close>

definition default_max_attempts :: int where
  "default_max_attempts = 5"

section \<open>The interface\<close>

text \<open>
  \<open>stored\<close> are the events an outbox holds, \<open>published\<close> and \<open>dead\<close> the ids in these states,
  \<open>failures\<close> the publish failures of an event that is neither. The first argument of \<open>Pending\<close> are the choices that
  are not the outbox's own: the interface promises order of time only.
\<close>

locale outbox_store =
  fixes Append :: "Event \<Rightarrow> 's \<Rightarrow> error + 's"
    and Pending :: "'o \<Rightarrow> int \<Rightarrow> 's \<Rightarrow> Event list"
    and MarkPublished :: "string \<Rightarrow> int \<Rightarrow> 's \<Rightarrow> error + 's"
    and RecordFailure :: "string \<Rightarrow> int \<Rightarrow> string \<Rightarrow> int \<Rightarrow> 's \<Rightarrow> error + (bool \<times> 's)"
    and inv :: "'s \<Rightarrow> bool" and stored :: "'s \<Rightarrow> Event set"
    and published dead :: "'s \<Rightarrow> string \<Rightarrow> bool" and failures :: "'s \<Rightarrow> string \<Rightarrow> int"
  assumes pending_iff: "inv s \<Longrightarrow> e \<in> set (Pending ord 0 s) \<longleftrightarrow> e \<in> stored s \<and> \<not> published s (ev_id e) \<and> \<not> dead s (ev_id e)"
    and pending_limit: "0 < n \<Longrightarrow> Pending ord n s = take (nat n) (Pending ord 0 s)"
    and pending_all: "n \<le> 0 \<Longrightarrow> Pending ord n s = Pending ord 0 s"
    and pending_order: "sorted (map ev_at (Pending ord 0 s))"
    and pending_distinct: "inv s \<Longrightarrow> distinct (map ev_id (Pending ord 0 s))"
    and mark_known: "inv s \<Longrightarrow> e \<in> stored s \<Longrightarrow> \<exists>s'. MarkPublished (ev_id e) t s = Inr s'"
    and mark_effect: "inv s \<Longrightarrow> MarkPublished i t s = Inr s' \<Longrightarrow>
          inv s' \<and> stored s' = stored s \<and> published s' = (published s)(i := True) \<and> dead s' = dead s
          \<and> (\<forall>j. j \<noteq> i \<longrightarrow> failures s' j = failures s j)"
    and failure_effect: "inv s \<Longrightarrow> e \<in> stored s \<Longrightarrow> \<not> published s (ev_id e) \<Longrightarrow> \<not> dead s (ev_id e) \<Longrightarrow> 0 < m \<Longrightarrow>
          \<exists>s'. RecordFailure (ev_id e) t msg m s = Inr (m \<le> failures s (ev_id e) + 1, s')
            \<and> inv s' \<and> stored s' = stored s \<and> published s' = published s
            \<and> dead s' = (dead s)(ev_id e := m \<le> failures s (ev_id e) + 1)
            \<and> failures s' = (failures s)(ev_id e := failures s (ev_id e) + 1)"
    and append_effect: "inv s \<Longrightarrow> \<exists>s'. Append e s = Inr s' \<and> inv s' \<and>
          (if \<exists>f \<in> stored s. ev_id f = ev_id e then s' = s
           else stored s' = insert e (stored s) \<and> published s' = published s \<and> dead s' = dead s)"
begin

definition waiting :: "'s \<Rightarrow> Event \<Rightarrow> bool" where
  "waiting s e \<longleftrightarrow> e \<in> stored s \<and> \<not> published s (ev_id e) \<and> \<not> dead s (ev_id e)"

text \<open>What one pass does: the accepted events in front are marked, the first refused one is counted.\<close>

lemma process_loop_spec:
  assumes "inv s" "\<forall>e \<in> set evs. waiting s e" "distinct (map ev_id evs)" "0 < m"
    and "process_loop MarkPublished RecordFailure publish now m evs n s = ((k, err), s')"
  shows "inv s' \<and> stored s' = stored s \<and> (\<forall>i. i \<notin> ev_id ` set evs \<longrightarrow> failures s' i = failures s i) \<and>
    (let ok = takeWhile (\<lambda>e. publish e = None) evs in
     k = n + int (length ok) \<and>
     published s' = (\<lambda>i. published s i \<or> i \<in> ev_id ` set ok) \<and>
     (case drop (length ok) evs of
        [] \<Rightarrow> err = None \<and> dead s' = dead s
      | e # later \<Rightarrow> err = Some (Events PublishFailed) \<and> failures s' (ev_id e) = failures s (ev_id e) + 1
          \<and> dead s' = (dead s)(ev_id e := m \<le> failures s (ev_id e) + 1)))"
  using assms(1-3,5)
proof (induction evs arbitrary: n s)
  case Nil
  then show ?case by simp
next
  case (Cons e evs)
  have w: "e \<in> stored s" "\<not> published s (ev_id e)" "\<not> dead s (ev_id e)" using Cons.prems(2) by (simp_all add: waiting_def)
  have other: "ev_id x \<noteq> ev_id e" if "x \<in> set evs" for x using Cons.prems(3) imageI [OF that, of ev_id] by auto
  show ?case
  proof (cases "publish e")
    case None
    obtain s1 where s1: "MarkPublished (ev_id e) now s = Inr s1" using mark_known [OF Cons.prems(1) w(1)] by blast
    note m1 = mark_effect [OF Cons.prems(1) s1]
    have w1: "\<forall>x \<in> set evs. waiting s1 x" using Cons.prems(2) m1 other by (auto simp: waiting_def)
    have "process_loop MarkPublished RecordFailure publish now m evs (n + 1) s1 = ((k, err), s')"
      using Cons.prems(4) None s1 by simp
    note ih = Cons.IH [OF conjunct1 [OF m1] w1 _ this]
    let ?ok = "takeWhile (\<lambda>e. publish e = None) evs"
    have tw: "takeWhile (\<lambda>e. publish e = None) (e # evs) = e # ?ok" using None by simp
    have dr: "drop (length (e # ?ok)) (e # evs) = drop (length ?ok) evs" by simp
    have d: "distinct (map ev_id evs)" using Cons.prems(3) by simp
    have pu: "published s' = (\<lambda>i. published s i \<or> i \<in> ev_id ` set (e # ?ok))"
      using ih [OF d] m1 by (auto simp: Let_def fun_eq_iff)
    have ba: "inv s'" "stored s' = stored s" "k = n + int (length (e # ?ok))" using ih [OF d] m1 by (simp_all add: Let_def)
    have fa: "\<forall>i. i \<notin> ev_id ` set (e # evs) \<longrightarrow> failures s' i = failures s i" using ih [OF d] m1 by auto
    show ?thesis
    proof (cases "drop (length ?ok) evs")
      case Nil
      then show ?thesis using ih [OF d] m1 pu ba fa unfolding tw dr Let_def by simp
    next
      case (Cons x later)
      then have "x \<in> set evs" by (metis in_set_dropD list.set_intros(1))
      then have "failures s1 (ev_id x) = failures s (ev_id x)" using m1 other by blast
      then show ?thesis using ih [OF d] m1 pu ba fa Cons unfolding tw dr Let_def by simp
    qed
  next
    case (Some msg)
    obtain s1 where "RecordFailure (ev_id e) now msg m s = Inr (m \<le> failures s (ev_id e) + 1, s1)"
      "inv s1" "stored s1 = stored s" "published s1 = published s" "dead s1 = (dead s)(ev_id e := m \<le> failures s (ev_id e) + 1)"
      "failures s1 = (failures s)(ev_id e := failures s (ev_id e) + 1)"
      using failure_effect [OF Cons.prems(1) w assms(4)] by blast
    then show ?thesis using Cons.prems(4) Some by auto
  qed
qed

lemma pending_split: "\<exists>rest. Pending ord 0 s = Pending ord limit s @ rest"
  using pending_all [of limit ord s] pending_limit [of limit ord s] append_take_drop_id [of "nat limit" "Pending ord 0 s"]
  by (cases "limit \<le> 0") (auto intro: exI [of _ "[]"] exI [of _ "drop (nat limit) (Pending ord 0 s)"])

lemma batch_facts:
  assumes "inv s"
  shows "\<forall>e \<in> set (Pending ord limit s). waiting s e" "distinct (map ev_id (Pending ord limit s))"
proof -
  obtain rest where r: "Pending ord 0 s = Pending ord limit s @ rest" using pending_split by blast
  show "\<forall>e \<in> set (Pending ord limit s). waiting s e" using r pending_iff [OF assms, of _ ord] by (auto simp: waiting_def)
  show "distinct (map ev_id (Pending ord limit s))" using r pending_distinct [OF assms, of ord] by simp
qed

lemma pass_spec:
  assumes "inv s" "0 < m" "ProcessPending (Pending ord) MarkPublished RecordFailure publish now m limit s = ((k, err), s')"
  defines "batch \<equiv> Pending ord limit s"
  defines "ok \<equiv> takeWhile (\<lambda>e. publish e = None) batch"
  shows "inv s' \<and> stored s' = stored s \<and> (\<forall>i. i \<notin> ev_id ` set batch \<longrightarrow> failures s' i = failures s i)
    \<and> published s' = (\<lambda>i. published s i \<or> i \<in> ev_id ` set ok)
    \<and> (case drop (length ok) batch of [] \<Rightarrow> dead s' = dead s
       | e # later \<Rightarrow> failures s' (ev_id e) = failures s (ev_id e) + 1 \<and> dead s' = (dead s)(ev_id e := m \<le> failures s (ev_id e) + 1))"
  using process_loop_spec [OF assms(1) batch_facts [OF assms(1)] assms(2), of publish now ord limit 0 k err s'] assms(3)
  unfolding ProcessPending_def batch_def ok_def by (auto simp: Let_def split: list.splits)

text \<open>An event is marked only after the publisher accepted it, and no pending event disappears: it is
  pending again, published or, after the last allowed failure, dead.\<close>

lemma no_loss:
  assumes "inv s" "0 < m" "ProcessPending (Pending ord) MarkPublished RecordFailure publish now m limit s = ((k, err), s')"
    and "e \<in> stored s"
  shows "e \<in> stored s' \<and> (published s' (ev_id e) \<longrightarrow> published s (ev_id e) \<or> (\<exists>f \<in> stored s. ev_id f = ev_id e \<and> publish f = None))
       \<and> (dead s' (ev_id e) \<and> \<not> dead s (ev_id e) \<longrightarrow> m \<le> failures s (ev_id e) + 1)"
proof -
  let ?ok = "takeWhile (\<lambda>e. publish e = None) (Pending ord limit s)"
  note sp = pass_spec [OF assms(1-3)]
  have in_s: "f \<in> stored s" if "f \<in> set (Pending ord limit s)" for f
    using batch_facts(1) [OF assms(1)] that by (auto simp: waiting_def)
  have "published s' = (\<lambda>i. published s i \<or> i \<in> ev_id ` set ?ok)" using sp by simp
  then have p: "published s' (ev_id e) \<longrightarrow> published s (ev_id e) \<or> (\<exists>f \<in> stored s. ev_id f = ev_id e \<and> publish f = None)"
    using in_s by (fastforce dest: set_takeWhileD)
  have "dead s' (ev_id e) \<and> \<not> dead s (ev_id e) \<longrightarrow> m \<le> failures s (ev_id e) + 1"
    using sp by (auto split: list.splits if_splits)
  then show ?thesis using p sp assms(4) by simp
qed

text \<open>
  Whatever the order of equal times, an event the publisher keeps refusing is dead in the end, when the events no later than it are
  accepted. A pass that does not reach it publishes one of these, a pass that reaches it uses up one of its attempts.
\<close>

definition ahead :: "'s \<Rightarrow> Event \<Rightarrow> Event set" where
  "ahead s e = {f. waiting s f \<and> f \<noteq> e \<and> ev_at f \<le> ev_at e}"

lemma ahead_finite: "inv s \<Longrightarrow> finite (ahead s e)"
  by (rule finite_subset [of _ "set (Pending ord 0 s)"]) (auto simp: ahead_def waiting_def pending_iff)

definition pass :: "(Event \<Rightarrow> string option) \<Rightarrow> int \<Rightarrow> int \<Rightarrow> int \<Rightarrow> 'o \<Rightarrow> 's \<Rightarrow> 's" where
  "pass publish now m limit ord s = snd (ProcessPending (Pending ord) MarkPublished RecordFailure publish now m limit s)"

lemma refused_pass:
  fixes now limit :: int and ord :: 'o
  assumes "inv s" "0 < m" "publish e = Some msg" "waiting s e" "\<forall>f \<in> ahead s e. publish f = None"
  defines "s' \<equiv> pass publish now m limit ord s"
  shows "inv s' \<and> stored s' = stored s \<and> ahead s' e \<subseteq> ahead s e \<and> \<not> published s' (ev_id e)
    \<and> ((dead s' (ev_id e) \<and> m \<le> failures s (ev_id e) + 1)
       \<or> (\<not> dead s' (ev_id e) \<and> failures s' (ev_id e) = failures s (ev_id e) + 1 \<and> failures s' (ev_id e) < m)
       \<or> (\<not> dead s' (ev_id e) \<and> failures s' (ev_id e) = failures s (ev_id e) \<and> ahead s' e \<noteq> ahead s e))"
proof -
  let ?batch = "Pending ord limit s"
  let ?ok = "takeWhile (\<lambda>e. publish e = None) ?batch"
  obtain k err where k: "ProcessPending (Pending ord) MarkPublished RecordFailure publish now m limit s = ((k, err), s')"
    unfolding s'_def pass_def by (metis prod.collapse)
  note sp = pass_spec [OF assms(1,2) k]
  have base: "inv s'" "stored s' = stored s" "published s' = (\<lambda>i. published s i \<or> i \<in> ev_id ` set ?ok)" using sp by simp_all
  obtain rest where rest: "Pending ord 0 s = ?batch @ rest" using pending_split by blast
  have e0: "e \<in> set (Pending ord 0 s)" using assms(4) pending_iff [OF assms(1)] by (simp add: waiting_def)
  have same: "f = g" if "f \<in> set (Pending ord 0 s)" "g \<in> set (Pending ord 0 s)" "ev_id f = ev_id g" for f g
    using that distinct_key_eq [OF pending_distinct [OF assms(1), of ord]] by blast
  have okd: "f \<in> set ?batch \<and> publish f = None" if "f \<in> set ?ok" for f using set_takeWhileD [OF that] by simp
  have nok: "ev_id e \<notin> ev_id ` set ?ok"
  proof
    assume "ev_id e \<in> ev_id ` set ?ok"
    then obtain f where f: "f \<in> set ?ok" "ev_id f = ev_id e" by auto
    then have "f = e" using same [of f e] okd [OF f(1)] e0 rest by simp
    then show False using okd [OF f(1)] assms(3) by simp
  qed
  then have np: "\<not> published s' (ev_id e)" using base(3) assms(4) by (simp add: waiting_def)
  have alive: "dead s x \<Longrightarrow> dead s' x" for x
  proof -
    assume d: "dead s x"
    show "dead s' x"
    proof (cases "drop (length ?ok) ?batch")
      case (Cons g later)
      then have "g \<in> set ?batch" by (metis in_set_dropD list.set_intros(1))
      then have "\<not> dead s (ev_id g)" using batch_facts(1) [OF assms(1)] by (auto simp: waiting_def)
      then show ?thesis using sp Cons d by auto
    qed (use sp d in simp)
  qed
  have sub: "ahead s' e \<subseteq> ahead s e" using base alive by (auto simp: ahead_def waiting_def)
  have before: "f \<in> ahead s e" if "f \<in> set pre" "Pending ord 0 s = pre @ e # post" for f pre post
  proof -
    have "f \<noteq> e" using pending_distinct [OF assms(1), of ord] that by auto
    moreover have "ev_at f \<le> ev_at e" using pending_order [of ord s] that by (auto simp: sorted_append)
    moreover have "waiting s f" using pending_iff [OF assms(1), of f ord] that by (simp add: waiting_def)
    ultimately show ?thesis by (simp add: ahead_def)
  qed
  show ?thesis
  proof (cases "e \<in> set ?batch")
    case True
    then obtain pre post where b: "?batch = pre @ e # post" by (meson split_list)
    have "publish f = None" if "f \<in> set pre" for f using before [of f pre "post @ rest"] that assms(5) rest b by simp
    then have "?ok = pre" using assms(3) b by (simp add: takeWhile_tail)
    then have "failures s' (ev_id e) = failures s (ev_id e) + 1" "dead s' = (dead s)(ev_id e := m \<le> failures s (ev_id e) + 1)"
      using sp b by simp_all
    then show ?thesis using base sub np by auto
  next
    case False
    obtain pre post where b: "Pending ord 0 s = pre @ e # post" using e0 by (meson split_list)
    have lim: "0 < limit" using False e0 pending_all [of limit ord s] by force
    then have batch: "?batch = take (nat limit) (pre @ e # post)" using pending_limit b by simp
    have short: "nat limit \<le> length pre"
    proof (rule ccontr)
      assume "\<not> nat limit \<le> length pre"
      then have "take (nat limit) (pre @ e # post) = pre @ take (nat limit - length pre) (e # post)" "0 < nat limit - length pre" by simp_all
      then show False using False batch by (cases "nat limit - length pre") auto
    qed
    then have bp: "?batch = take (nat limit) pre" using batch by simp
    have pub: "publish f = None" if "f \<in> set ?batch" for f
      using before [OF _ b, of f] assms(5) that bp in_set_takeD by metis
    then have ok: "?ok = ?batch" by (simp add: takeWhile_eq_all_conv)
    have d: "dead s' = dead s" using sp ok by simp
    have ne: "ev_id e \<notin> ev_id ` set ?batch" using nok ok by simp
    have f: "failures s' (ev_id e) = failures s (ev_id e)" using sp ne by blast
    obtain g where g: "g \<in> set ?batch" using lim short bp by (cases pre; cases "nat limit") auto
    have "g \<in> ahead s e" using before [OF _ b, of g] g bp in_set_takeD by metis
    moreover have "g \<notin> ahead s' e" using base(3) g ok by (auto simp: ahead_def waiting_def)
    ultimately show ?thesis using base sub np d f assms(4) by (auto simp: waiting_def)
  qed
qed

lemma dead_stays:
  assumes "inv s" "0 < m" "dead s i" "\<not> published s i"
  shows "dead (pass publish now m limit ord s) i \<and> \<not> published (pass publish now m limit ord s) i \<and> inv (pass publish now m limit ord s)"
proof -
  let ?batch = "Pending ord limit s"
  obtain k err where k: "ProcessPending (Pending ord) MarkPublished RecordFailure publish now m limit s = ((k, err), pass publish now m limit ord s)"
    unfolding pass_def by (metis prod.collapse)
  note sp = pass_spec [OF assms(1,2) k]
  have ids: "ev_id g \<noteq> i" if "g \<in> set ?batch" for g using batch_facts(1) [OF assms(1)] that assms(3) by (auto simp: waiting_def)
  then have "i \<notin> ev_id ` set (takeWhile (\<lambda>e. publish e = None) ?batch)" by (auto dest: set_takeWhileD)
  moreover have "dead (pass publish now m limit ord s) i"
  proof (cases "drop (length (takeWhile (\<lambda>e. publish e = None) ?batch)) ?batch")
    case (Cons g later)
    then have "g \<in> set ?batch" by (metis in_set_dropD list.set_intros(1))
    then show ?thesis using sp Cons ids [of g] assms(3) by simp
  qed (use sp assms(3) in simp)
  ultimately show ?thesis using sp assms(4) by simp
qed

lemma poison_any_order:
  assumes "0 < m" "publish e = Some msg"
  shows "inv s \<Longrightarrow> \<not> published s (ev_id e) \<Longrightarrow>
    dead s (ev_id e) \<or> (waiting s e \<and> (\<forall>f \<in> ahead s e. publish f = None) \<and> int (card (ahead s e)) + (m - failures s (ev_id e)) \<le> int (length ords)
      \<and> failures s (ev_id e) < m) \<Longrightarrow>
    dead (fold (pass publish now m limit) ords s) (ev_id e) \<and> \<not> published (fold (pass publish now m limit) ords s) (ev_id e)"
proof (induction ords arbitrary: s)
  case Nil
  then show ?case by auto
next
  case (Cons ord ords)
  let ?s = "pass publish now m limit ord s"
  show ?case
  proof (cases "dead s (ev_id e)")
    case True
    then show ?thesis using Cons.IH [of ?s] dead_stays [OF Cons.prems(1) assms(1) True Cons.prems(2)] by simp
  next
    case False
    then have w: "waiting s e" "\<forall>f \<in> ahead s e. publish f = None"
      and len: "int (card (ahead s e)) + (m - failures s (ev_id e)) \<le> int (length ords) + 1" "failures s (ev_id e) < m"
      using Cons.prems(3) by auto
    note P = refused_pass [OF Cons.prems(1) assms(1,2) w, of now limit ord]
    have fin: "finite (ahead s e)" using ahead_finite [OF Cons.prems(1)] .
    have le: "card (ahead ?s e) \<le> card (ahead s e)" using P card_mono [OF fin] by blast
    have lt: "card (ahead ?s e) < card (ahead s e)" if "ahead ?s e \<noteq> ahead s e" using P that psubset_card_mono [OF fin] by blast
    have pub: "\<forall>f \<in> ahead ?s e. publish f = None" using P w(2) by blast
    show ?thesis
    proof (cases "dead ?s (ev_id e)")
      case True
      then show ?thesis using Cons.IH [of ?s] P by simp
    next
      case alive: False
      then have ws: "waiting ?s e" using P w(1) by (simp add: waiting_def)
      have "failures ?s (ev_id e) < m" using P alive len(2) by auto
      moreover have "int (card (ahead ?s e)) + (m - failures ?s (ev_id e)) \<le> int (length ords)"
      proof (cases "failures ?s (ev_id e) = failures s (ev_id e)")
        case True
        then have "card (ahead ?s e) < card (ahead s e)" using P alive lt by auto
        then show ?thesis using True len(1) by simp
      next
        case False
        then have "failures ?s (ev_id e) = failures s (ev_id e) + 1" using P alive by auto
        then show ?thesis using le len(1) by simp
      qed
      ultimately show ?thesis using Cons.IH [of ?s] P pub ws by simp
    qed
  qed
qed

end

text \<open>An outbox whose queue is an order of its own: a pass takes events out of it and never reorders the rest.\<close>

locale ordered_outbox = outbox_store +
  assumes mark_queue: "inv s \<Longrightarrow> MarkPublished i t s = Inr s' \<Longrightarrow> Pending ord 0 s' = filter (\<lambda>e. ev_id e \<noteq> i) (Pending ord 0 s)"
    and failure_queue: "inv s \<Longrightarrow> e \<in> set (Pending ord 0 s) \<Longrightarrow> RecordFailure (ev_id e) t msg m s = Inr (b, s') \<Longrightarrow>
          Pending ord 0 s' = (if b then filter (\<lambda>f. ev_id f \<noteq> ev_id e) (Pending ord 0 s) else Pending ord 0 s)"
begin

text \<open>An event at the head of the queue that the publisher keeps refusing blocks the batch only until its attempts are used up:
  then it is dead and the event behind it is first in line.\<close>

lemma head_refused:
  fixes now limit :: int and ord :: 'b
  assumes "inv s" "0 < m" "publish e = Some msg" "Pending ord 0 s = e # rest"
  defines "s' \<equiv> pass publish now m limit ord s"
  shows "inv s' \<and> published s' = published s \<and> failures s' (ev_id e) = failures s (ev_id e) + 1
    \<and> dead s' = (dead s)(ev_id e := m \<le> failures s (ev_id e) + 1)
    \<and> Pending ord 0 s' = (if m \<le> failures s (ev_id e) + 1 then rest else e # rest)"
proof -
  obtain evs where evs: "Pending ord limit s = e # evs"
  proof (cases "limit \<le> 0")
    case True
    then show thesis using assms(4) pending_all [of limit ord s] that by simp
  next
    case False
    then have "nat limit = Suc (nat limit - 1)" by simp
    then have "Pending ord limit s = e # take (nat limit - 1) rest" using False assms(4) pending_limit [of limit ord s] by (metis not_le take_Suc_Cons)
    then show thesis using that by blast
  qed
  have w: "e \<in> stored s" "\<not> published s (ev_id e)" "\<not> dead s (ev_id e)" using pending_iff [OF assms(1), of e ord] assms(4) by simp_all
  obtain t where t: "RecordFailure (ev_id e) now msg m s = Inr (m \<le> failures s (ev_id e) + 1, t)" "inv t" "published t = published s"
    "dead t = (dead s)(ev_id e := m \<le> failures s (ev_id e) + 1)" "failures t = (failures s)(ev_id e := failures s (ev_id e) + 1)"
    using failure_effect [OF assms(1) w assms(2)] by blast
  have "s' = t" using t(1) assms(3) by (simp add: s'_def pass_def ProcessPending_def evs)
  moreover have "filter (\<lambda>f. ev_id f \<noteq> ev_id e) (Pending ord 0 s) = rest"
  proof -
    have "ev_id f \<noteq> ev_id e" if "f \<in> set rest" for f
      using pending_distinct [OF assms(1), of ord] imageI [OF that, of ev_id] by (auto simp: assms(4))
    then show ?thesis by (simp add: assms(4) filter_id_conv)
  qed
  moreover have "e \<in> set (Pending ord 0 s)" using assms(4) by simp
  ultimately show ?thesis using t failure_queue [OF assms(1) _ t(1), of ord] assms(4) by auto
qed

lemma poison_dead_lettered:
  assumes "0 < m" "publish e = Some msg"
  shows "inv s \<Longrightarrow> Pending ord 0 s = e # rest \<Longrightarrow> failures s (ev_id e) + int j = m \<Longrightarrow> 0 < j \<Longrightarrow>
    dead ((pass publish now m limit ord ^^ j) s) (ev_id e) \<and> Pending ord 0 ((pass publish now m limit ord ^^ j) s) = rest
    \<and> published ((pass publish now m limit ord ^^ j) s) = published s"
proof (induction j arbitrary: s)
  case 0
  then show ?case by simp
next
  case (Suc j)
  note st = head_refused [where publish = publish and e = e, OF Suc.prems(1) assms Suc.prems(2), of now limit]
  show ?case
  proof (cases "j = 0")
    case True
    then have "m \<le> failures s (ev_id e) + 1" using Suc.prems(3) by simp
    then show ?thesis using st True by simp
  next
    case False
    then have "\<not> m \<le> failures s (ev_id e) + 1" "failures (pass publish now m limit ord s) (ev_id e) + int j = m" using Suc.prems(3) st by auto
    then show ?thesis using Suc.IH [of "pass publish now m limit ord s"] st False by (simp add: funpow_swap1)
  qed
qed

end

section \<open>The in-memory outbox implements it\<close>

text \<open>Taking the values by positions is a permutation, and every permutation is taken by some positions.\<close>

lemma mset_take_nth_drop: "k < length xs \<Longrightarrow> add_mset (xs ! k) (mset (take k xs @ drop (Suc k) xs)) = mset xs"
  by (metis id_take_nth_drop mset.simps(2) mset_append union_mset_add_mset_right)

lemma range_order_mset [simp]: "mset (range_order order xs) = mset xs"
proof (induction order xs rule: range_order.induct)
  case (2 order x xs)
  let ?k = "case order of [] \<Rightarrow> 0 | i # is \<Rightarrow> i mod length (x # xs)"
  have "?k < length (x # xs)" by (cases order) auto
  then show ?case using mset_take_nth_drop [of ?k "x # xs"] 2 by (simp add: Let_def)
qed simp

lemma range_order_set [simp]: "set (range_order order xs) = set xs"
  using range_order_mset [of order xs] by (rule mset_eq_setD)

lemma range_order_any: "mset ys = mset xs \<Longrightarrow> \<exists>order. range_order order xs = ys"
proof (induction ys arbitrary: xs)
  case (Cons y ys)
  then have "y \<in> set xs" by (metis list.set_intros(1) set_mset_mset)
  then obtain k where k: "k < length xs" "xs ! k = y" by (auto simp: in_set_conv_nth)
  have "mset ys = mset (take k xs @ drop (Suc k) xs)"
    using mset_take_nth_drop [OF k(1)] Cons.prems k(2) by (metis add_mset_add_mset_same_iff mset.simps(2))
  from Cons.IH [OF this] obtain order where o: "range_order order (take k xs @ drop (Suc k) xs) = ys" by blast
  obtain z zs where z: "xs = z # zs" using k(1) by (cases xs) auto
  have "range_order (k # order) xs = y # ys" using o k unfolding z by simp
  then show ?case by blast
qed simp

definition mo_inv :: "MemoryOutbox \<Rightarrow> bool" where
  "mo_inv s \<longleftrightarrow> distinct (map ev_id (mo_events s))"

lemma mo_Pending_0: "mo_Pending order 0 s =
    sort_key ev_at (filter (\<lambda>e. mo_published s (ev_id e) = None \<and> mo_dead s (ev_id e) = None) (range_order order (mo_events s)))"
  by (simp add: mo_Pending_def)

lemma mo_Pending_mem: "e \<in> set (mo_Pending order limit s) \<Longrightarrow> e \<in> set (mo_events s) \<and> mo_published s (ev_id e) = None \<and> mo_dead s (ev_id e) = None"
  by (auto simp: mo_Pending_def Let_def split: if_splits dest: in_set_takeD)

text \<open>The orders reach every arrangement the sort may leave: any list of the pending events by time.\<close>

lemma mo_Pending_any:
  assumes "mset es = mset (filter (\<lambda>e. mo_published s (ev_id e) = None \<and> mo_dead s (ev_id e) = None) (mo_events s))" "sorted (map ev_at es)"
  shows "\<exists>order. mo_Pending order 0 s = es"
proof -
  let ?P = "\<lambda>e. mo_published s (ev_id e) = None \<and> mo_dead s (ev_id e) = None"
  have "mset (es @ filter (\<lambda>e. \<not> ?P e) (mo_events s)) = mset (mo_events s)" using assms(1) 
    using multiset_partition [of "mset (mo_events s)" ?P] by simp
  from range_order_any [OF this] obtain order where o: "range_order order (mo_events s) = es @ filter (\<lambda>e. \<not> ?P e) (mo_events s)" by blast
  have "\<forall>e \<in> set es. ?P e" using mset_eq_setD [OF assms(1)] by auto
  then have "filter ?P (range_order order (mo_events s)) = es" 
    unfolding o by (auto simp: filter_id_conv filter_empty_conv)
  then show ?thesis using assms(2) by (intro exI [of _ order]) (simp add: mo_Pending_0 sort_key_id_if_sorted)
qed

lemma distinct_map_sort: "distinct (map f (sort_key k xs)) = distinct (map f xs)"
  by (simp add: distinct_map)

lemma distinct_map_range: "distinct (map f (range_order order xs)) = distinct (map f xs)"
proof -
  have "mset (map f (range_order order xs)) = mset (map f xs)" by simp
  then show ?thesis by (rule mset_eq_imp_distinct_iff)
qed

interpretation mem_outbox: outbox_store mo_Append mo_Pending mo_MarkPublished mo_RecordFailure mo_inv "\<lambda>s. set (mo_events s)"
  "\<lambda>s i. mo_published s i \<noteq> None" "\<lambda>s i. mo_dead s i \<noteq> None" mo_attempts
proof
  fix s s' :: MemoryOutbox and e :: Event and n m t :: int and i msg :: string and ord :: "nat list"
  show "mo_inv s \<Longrightarrow> e \<in> set (mo_Pending ord 0 s) \<longleftrightarrow> e \<in> set (mo_events s) \<and> \<not> mo_published s (ev_id e) \<noteq> None \<and> \<not> mo_dead s (ev_id e) \<noteq> None"
    by (auto simp: mo_Pending_0)
  show "0 < n \<Longrightarrow> mo_Pending ord n s = take (nat n) (mo_Pending ord 0 s)"
    by (simp add: mo_Pending_def Let_def)
  show "n \<le> 0 \<Longrightarrow> mo_Pending ord n s = mo_Pending ord 0 s" by (simp add: mo_Pending_def)
  show "sorted (map ev_at (mo_Pending ord 0 s))" by (simp add: mo_Pending_0)
  show "mo_inv s \<Longrightarrow> distinct (map ev_id (mo_Pending ord 0 s))"
    by (simp add: mo_Pending_0 mo_inv_def distinct_map_sort distinct_map_filter distinct_map_range)
  show "mo_inv s \<Longrightarrow> e \<in> set (mo_events s) \<Longrightarrow> \<exists>s'. mo_MarkPublished (ev_id e) t s = Inr s'"
    by (auto simp: mo_MarkPublished_def lookup_None_iff)
  show "mo_inv s' \<and> set (mo_events s') = set (mo_events s) \<and> (\<lambda>j. mo_published s' j \<noteq> None) = (\<lambda>j. mo_published s j \<noteq> None)(i := True)
      \<and> (\<lambda>j. mo_dead s' j \<noteq> None) = (\<lambda>j. mo_dead s j \<noteq> None) \<and> (\<forall>j. j \<noteq> i \<longrightarrow> mo_attempts s' j = mo_attempts s j)"
    if "mo_inv s" "mo_MarkPublished i t s = Inr s'"
    using that by (auto simp: mo_MarkPublished_def mo_inv_def fun_eq_iff split: if_splits)
  show "\<exists>s'. mo_RecordFailure (ev_id e) t msg m s = Inr (m \<le> mo_attempts s (ev_id e) + 1, s')
        \<and> mo_inv s' \<and> set (mo_events s') = set (mo_events s) \<and> (\<lambda>j. mo_published s' j \<noteq> None) = (\<lambda>j. mo_published s j \<noteq> None)
        \<and> (\<lambda>j. mo_dead s' j \<noteq> None) = (\<lambda>j. mo_dead s j \<noteq> None)(ev_id e := m \<le> mo_attempts s (ev_id e) + 1)
        \<and> mo_attempts s' = (mo_attempts s)(ev_id e := mo_attempts s (ev_id e) + 1)"
    if "mo_inv s" "e \<in> set (mo_events s)" "\<not> mo_published s (ev_id e) \<noteq> None" "\<not> mo_dead s (ev_id e) \<noteq> None" "0 < m"
  proof -
    let ?s = "s\<lparr>mo_attempts := (mo_attempts s)(ev_id e := mo_attempts s (ev_id e) + 1)\<rparr>"
    let ?s' = "if m \<le> mo_attempts s (ev_id e) + 1 then ?s\<lparr>mo_dead := (mo_dead s)(ev_id e \<mapsto> t)\<rparr> else ?s"
    have "mo_RecordFailure (ev_id e) t msg m s = Inr (m \<le> mo_attempts s (ev_id e) + 1, ?s')"
      using that by (auto simp: mo_RecordFailure_def lookup_None_iff Let_def)
    then show ?thesis using that by (intro exI [of _ ?s']) (auto simp: mo_inv_def fun_eq_iff)
  qed
  show "\<exists>s'. mo_Append e s = Inr s' \<and> mo_inv s' \<and> (if \<exists>f \<in> set (mo_events s). ev_id f = ev_id e then s' = s
        else set (mo_events s') = insert e (set (mo_events s)) \<and> (\<lambda>j. mo_published s' j \<noteq> None) = (\<lambda>j. mo_published s j \<noteq> None)
          \<and> (\<lambda>j. mo_dead s' j \<noteq> None) = (\<lambda>j. mo_dead s j \<noteq> None))" if "mo_inv s"
    using that by (auto simp: mo_Append_def lookup_None_iff mo_inv_def)
qed

section \<open>The PostgreSQL outbox implements it\<close>

definition po_inv :: "db \<Rightarrow> bool" where
  "po_inv s \<longleftrightarrow> distinct (map o_id (outbox s))"

definition po_row :: "db \<Rightarrow> string \<Rightarrow> outbox_row option" where
  "po_row s i = lookup (\<lambda>r. o_id r = i) (outbox s)"

definition po_published :: "db \<Rightarrow> string \<Rightarrow> bool" where
  "po_published s i = (case po_row s i of None \<Rightarrow> False | Some r \<Rightarrow> o_published r \<noteq> None)"

definition po_dead :: "db \<Rightarrow> string \<Rightarrow> bool" where
  "po_dead s i = (case po_row s i of None \<Rightarrow> False | Some r \<Rightarrow> o_failed r \<noteq> None)"

definition po_failures :: "db \<Rightarrow> string \<Rightarrow> int" where
  "po_failures s i = (case po_row s i of None \<Rightarrow> 0 | Some r \<Rightarrow> o_attempts r)"

definition live_row :: "outbox_row \<Rightarrow> bool" where
  "live_row r \<longleftrightarrow> o_published r = None \<and> o_failed r = None"

definition queue :: "outbox_row list \<Rightarrow> Event list" where
  "queue rs = map row_event (sort_key o_at (sort_key (\<lambda>r. map code (o_id r)) (filter live_row rs)))"

lemma pg_Pending_0: "pg_Pending 0 s = queue (outbox s)"
  by (simp add: pg_Pending_def queue_def live_row_def [abs_def])

lemma insort_key_map: "(\<And>x. k (h x) = k x) \<Longrightarrow> insort_key k (h x) (map h xs) = map h (insort_key k x xs)"
  by (induction xs) auto

lemma sort_key_map: "(\<And>x. k (h x) = k x) \<Longrightarrow> sort_key k (map h xs) = map h (sort_key k xs)"
  by (induction xs) (simp_all add: insort_key_map)

lemma row_event_id [simp]: "ev_id (row_event r) = o_id r" "ev_at (row_event r) = o_at r"
  by (simp_all add: row_event_def)

text \<open>A row that leaves the live state leaves the queue; a change of its counters does not reorder it.\<close>

lemma queue_drop:
  assumes "\<And>r. \<not> live_row (g r)" "\<And>r. P r \<Longrightarrow> o_id r = i" "\<And>r. live_row r \<Longrightarrow> o_id r = i \<Longrightarrow> P r"
  shows "queue (modify P g rs) = filter (\<lambda>e. ev_id e \<noteq> i) (queue rs)"
proof -
  have "filter live_row (modify P g rs) = filter (\<lambda>r. o_id r \<noteq> i) (filter live_row rs)"
  proof (induction rs)
    case (Cons r rs)
    show ?case
    proof (cases "P r")
      case True
      then have "\<not> live_row (g r)" "o_id r = i" using assms(1,2) by blast+
      then show ?thesis using Cons True by simp
    next
      case False
      then have "live_row r \<Longrightarrow> o_id r \<noteq> i" using assms(3) by blast
      then show ?thesis using Cons False by (cases "live_row r") simp_all
    qed
  qed simp
  then show ?thesis by (simp add: queue_def filter_map filter_sort o_def)
qed

lemma queue_keep:
  assumes "\<And>r. row_event (g r) = row_event r" "\<And>r. P r \<Longrightarrow> live_row r" "\<And>r. live_row r \<Longrightarrow> live_row (g r)"
  shows "queue (modify P g rs) = queue rs"
proof -
  let ?h = "\<lambda>r. if P r then g r else r"
  have k: "o_at (?h r) = o_at r" "map code (o_id (?h r)) = map code (o_id r)" "row_event (?h r) = row_event r" for r
    using assms(1) [of r] by (auto simp: row_event_def)
  have "filter live_row (modify P g rs) = map ?h (filter live_row rs)"
  proof (induction rs)
    case (Cons r rs)
    then show ?case using assms(2,3) [of r] by (cases "P r"; cases "live_row r") auto
  qed simp
  then show ?thesis by (simp add: queue_def sort_key_map k)
qed

lemma po_row_mem: "po_inv s \<Longrightarrow> r \<in> set (outbox s) \<Longrightarrow> po_row s (o_id r) = Some r"
  unfolding po_row_def po_inv_def by (rule lookup_key_unique)

lemma row_live_iff:
  assumes "po_inv s" "r \<in> set (outbox s)"
  shows "live_row r \<longleftrightarrow> \<not> po_published s (o_id r) \<and> \<not> po_dead s (o_id r)"
  using po_row_mem [OF assms] by (simp add: live_row_def po_published_def po_dead_def)

lemma lookup_and:
  assumes "distinct (map k rs)" "lookup (\<lambda>r. k r = i) rs = Some r"
  shows "lookup (\<lambda>r. k r = i \<and> Q r) rs = (if Q r then Some r else None)"
proof (cases "lookup (\<lambda>r. k r = i \<and> Q r) rs")
  case None
  then show ?thesis using lookup_SomeD [OF assms(2)] by (auto simp: lookup_None_iff)
next
  case (Some x)
  have "x = r" using lookup_SomeD [OF Some] lookup_SomeD [OF assms(2)] distinct_key_eq [OF assms(1)] by auto
  then show ?thesis using Some lookup_SomeD [OF Some] by simp
qed

lemma stored_modify: "(\<And>r. row_event (g r) = row_event r) \<Longrightarrow> row_event ` set (modify P g rs) = row_event ` set rs"
  unfolding modify_def set_map image_image by (rule image_cong) auto

lemma po_row_modify:
  assumes "\<And>r. o_id (g r) = o_id r"
  shows "po_row (s\<lparr>outbox := modify P g (outbox s)\<rparr>) i = map_option (\<lambda>r. if P r then g r else r) (po_row s i)"
  unfolding po_row_def by (simp add: lookup_modify_pres assms)

text \<open>Both writes with their effect on the queue.\<close>

lemma pg_MarkPublished_effect:
  assumes asm: "po_inv s" "pg_MarkPublished i t s = Inr s'"
  shows "po_inv s' \<and> row_event ` set (outbox s') = row_event ` set (outbox s) \<and> po_published s' = (po_published s)(i := True)
      \<and> po_dead s' = po_dead s \<and> (\<forall>j. j \<noteq> i \<longrightarrow> po_failures s' j = po_failures s j)
      \<and> pg_Pending 0 s' = filter (\<lambda>e. ev_id e \<noteq> i) (pg_Pending 0 s)"
proof -
  have "po_row s i \<noteq> None" using asm(2) unfolding pg_MarkPublished_def po_row_def
    by (auto simp: lookup_None_iff split: option.splits if_splits dest: lookup_SomeD)
  then obtain r where r: "po_row s i = Some r" by blast
  have rid: "o_id r = i" "r \<in> set (outbox s)" using lookup_SomeD [OF r [unfolded po_row_def]] by auto
  note la = lookup_and [OF asm(1) [unfolded po_inv_def] r [unfolded po_row_def], of "\<lambda>r. o_published r = None"]
  show ?thesis
  proof (cases "o_published r = None")
    case True
    let ?P = "\<lambda>r. o_id r = i \<and> o_published r = None"
    let ?g = "\<lambda>r. r\<lparr>o_published := Some t, o_attempts := o_attempts r + 1\<rparr>"
    have s': "s' = s\<lparr>outbox := modify ?P ?g (outbox s)\<rparr>" using asm(2) la True by (simp add: pg_MarkPublished_def)
    have row: "po_row s' j = map_option (\<lambda>r. if ?P r then ?g r else r) (po_row s j)" for j
      unfolding s' by (rule po_row_modify) simp
    have oid: "po_row s j = Some x \<Longrightarrow> o_id x = j" for j x unfolding po_row_def using lookup_SomeD by fastforce
    have "queue (modify ?P ?g (outbox s)) = filter (\<lambda>e. ev_id e \<noteq> i) (queue (outbox s))"
      by (rule queue_drop) (auto simp: live_row_def)
    then have q: "pg_Pending 0 s' = filter (\<lambda>e. ev_id e \<noteq> i) (pg_Pending 0 s)" by (simp add: pg_Pending_0 s')
    have st: "row_event ` set (outbox s') = row_event ` set (outbox s)"
      unfolding s' by (simp, rule stored_modify) (simp add: row_event_def)
    have iv: "po_inv s'" using asm(1) by (simp add: po_inv_def s' map_modify_inv)
    have "po_published s' j = ((po_published s)(i := True)) j \<and> po_dead s' j = po_dead s j
        \<and> (j \<noteq> i \<longrightarrow> po_failures s' j = po_failures s j)" for j
      using row [of j] r True oid [of j]
      by (cases "po_row s j") (auto simp: po_published_def po_dead_def po_failures_def)
    then show ?thesis using q st iv by (auto simp: fun_eq_iff)
  next
    case False
    then have s': "s' = s" using asm(2) la r by (simp add: pg_MarkPublished_def po_row_def split: if_splits)
    have "x \<in> set (outbox s) \<Longrightarrow> o_id x = i \<Longrightarrow> x = r" for x
      using rid distinct_key_eq [OF asm(1) [unfolded po_inv_def], of x r] by auto
    then have "e \<in> set (pg_Pending 0 s) \<Longrightarrow> ev_id e \<noteq> i" for e
      using False by (auto simp: pg_Pending_0 queue_def live_row_def)
    then have "filter (\<lambda>e. ev_id e \<noteq> i) (pg_Pending 0 s) = pg_Pending 0 s" by (intro filter_True) auto
    moreover have "po_published s i" using r False by (simp add: po_published_def)
    ultimately show ?thesis using asm(1) s' by (auto simp: fun_eq_iff)
  qed
qed

lemma pg_RecordFailure_effect:
  assumes asm: "po_inv s" "e \<in> row_event ` set (outbox s)" "\<not> po_published s (ev_id e)" "\<not> po_dead s (ev_id e)" "0 < m"
  shows "\<exists>s'. pg_RecordFailure (ev_id e) t msg m s = Inr (m \<le> po_failures s (ev_id e) + 1, s')
        \<and> po_inv s' \<and> row_event ` set (outbox s') = row_event ` set (outbox s) \<and> po_published s' = po_published s
        \<and> po_dead s' = (po_dead s)(ev_id e := m \<le> po_failures s (ev_id e) + 1)
        \<and> po_failures s' = (po_failures s)(ev_id e := po_failures s (ev_id e) + 1)
        \<and> pg_Pending 0 s' = (if m \<le> po_failures s (ev_id e) + 1 then filter (\<lambda>f. ev_id f \<noteq> ev_id e) (pg_Pending 0 s) else pg_Pending 0 s)"
proof -
  obtain r where r: "r \<in> set (outbox s)" "e = row_event r" "live_row r"
    using asm(2-4) row_live_iff [OF asm(1)] by auto
  have row: "po_row s (o_id r) = Some r" using po_row_mem [OF asm(1) r(1)] .
  define rs where "rs = (if length msg > 1024 then take 1024 msg else msg)"
  define P :: "outbox_row \<Rightarrow> bool" where "P = (\<lambda>x. o_id x = o_id r \<and> o_published x = None \<and> o_failed x = None)"
  define g :: "outbox_row \<Rightarrow> outbox_row" where "g = (\<lambda>x. x\<lparr>o_attempts := o_attempts x + 1, o_reason := Some rs,
    o_failed := (if o_attempts x + 1 \<ge> m then Some t else None)\<rparr>)"
  define s1 where "s1 = s\<lparr>outbox := modify P g (outbox s)\<rparr>"
  define d where "d \<longleftrightarrow> m \<le> o_attempts r + 1"
  have pr: "P r" using r(3) by (simp add: live_row_def P_def)
  have gid: "o_id (g x) = o_id x" "o_published (g x) = o_published x" "row_event (g x) = row_event x" "o_attempts (g x) = o_attempts x + 1" for x
    by (simp_all add: g_def row_event_def)
  have gr: "o_failed (g r) \<noteq> None \<longleftrightarrow> d" by (simp add: g_def d_def)
  have f: "po_failures s (o_id r) = o_attempts r" using row by (simp add: po_failures_def)
  have ev: "pg_RecordFailure (ev_id e) t msg m s = Inr (d, s1)"
    using lookup_and [OF asm(1) [unfolded po_inv_def] row [unfolded po_row_def], of "\<lambda>x. o_published x = None \<and> o_failed x = None"] asm(5) pr
    by (simp add: pg_RecordFailure_def r(2) Let_def s1_def P_def g_def rs_def d_def)
  have row': "po_row s1 j = map_option (\<lambda>r. if P r then g r else r) (po_row s j)" for j
    unfolding s1_def by (rule po_row_modify) (rule gid(1))
  have oid: "po_row s j = Some x \<Longrightarrow> o_id x = j" for j x unfolding po_row_def using lookup_SomeD by fastforce
  have uniq: "x = r" if "x \<in> set (outbox s)" "P x" for x
    using that r(1) distinct_key_eq [OF asm(1) [unfolded po_inv_def], of x r] by (simp add: P_def)
  have only: "modify P g (outbox s) = modify P h (outbox s)" if "g r = h r" for h
    unfolding modify_def by (rule map_cong) (use uniq that in auto)
  have q: "queue (modify P g (outbox s)) = (if d then filter (\<lambda>f. ev_id f \<noteq> o_id r) (queue (outbox s)) else queue (outbox s))"
  proof (cases d)
    case True
    have "queue (modify P (\<lambda>_. g r) (outbox s)) = filter (\<lambda>f. ev_id f \<noteq> o_id r) (queue (outbox s))"
      by (rule queue_drop) (use True gr in \<open>auto simp: live_row_def P_def\<close>)
    then show ?thesis using True only [of "\<lambda>_. g r"] by simp
  next
    case False
    let ?h = "\<lambda>x. x\<lparr>o_attempts := o_attempts r + 1, o_reason := Some rs, o_failed := None\<rparr>"
    have "queue (modify P ?h (outbox s)) = queue (outbox s)"
      by (rule queue_keep) (auto simp: live_row_def row_event_def P_def)
    then show ?thesis using False only [of ?h] by (simp add: g_def d_def)
  qed
  have st: "row_event ` set (modify P g (outbox s)) = row_event ` set (outbox s)" by (rule stored_modify) (rule gid(3))
  have iv: "po_inv s1" using asm(1) by (simp add: po_inv_def s1_def map_modify_inv gid)
  have "po_published s1 j = po_published s j \<and> po_dead s1 j = ((po_dead s)(o_id r := d)) j
      \<and> po_failures s1 j = ((po_failures s)(o_id r := o_attempts r + 1)) j" for j
  proof (cases "j = o_id r")
    case True
    then show ?thesis using row' [of j] row pr gid(2,4) gr by (simp add: po_published_def po_dead_def po_failures_def)
  next
    case False
    then have "po_row s1 j = po_row s j" using row' [of j] oid [of j] by (cases "po_row s j") (auto simp: P_def)
    then show ?thesis using False by (simp add: po_published_def po_dead_def po_failures_def)
  qed
  then have fs: "po_published s1 = po_published s" "po_dead s1 = (po_dead s)(o_id r := d)"
    "po_failures s1 = (po_failures s)(o_id r := o_attempts r + 1)" by (simp_all add: fun_eq_iff)
  have "pg_Pending 0 s1 = (if d then filter (\<lambda>f. ev_id f \<noteq> o_id r) (pg_Pending 0 s) else pg_Pending 0 s)"
    using q by (simp add: pg_Pending_0 s1_def)
  moreover have "row_event ` set (outbox s1) = row_event ` set (outbox s)" using st by (simp add: s1_def)
  moreover have "(m \<le> po_failures s (o_id r) + 1) = d" by (simp add: f d_def)
  ultimately show ?thesis using ev iv fs by (intro exI [of _ s1]) (simp add: r(2) f)
qed

interpretation pg_outbox: ordered_outbox pg_Append "\<lambda>_::unit. pg_Pending" pg_MarkPublished pg_RecordFailure po_inv "\<lambda>s. row_event ` set (outbox s)"
  po_published po_dead po_failures
proof
  fix s s' :: db and e :: Event and n m t :: int and i msg :: string and b :: bool
  show "e \<in> set (pg_Pending 0 s) \<longleftrightarrow> e \<in> row_event ` set (outbox s) \<and> \<not> po_published s (ev_id e) \<and> \<not> po_dead s (ev_id e)"
    if "po_inv s" using row_live_iff [OF that] by (auto simp: pg_Pending_0 queue_def)
  show "0 < n \<Longrightarrow> pg_Pending n s = take (nat n) (pg_Pending 0 s)" by (simp add: pg_Pending_def take_map)
  show "n \<le> 0 \<Longrightarrow> pg_Pending n s = pg_Pending 0 s" by (simp add: pg_Pending_def)
  show "sorted (map ev_at (pg_Pending 0 s))" by (simp add: pg_Pending_0 queue_def o_def)
  show "po_inv s \<Longrightarrow> distinct (map ev_id (pg_Pending 0 s))"
    by (simp add: pg_Pending_0 queue_def o_def po_inv_def distinct_map_sort distinct_map_filter)
  show "po_inv s \<Longrightarrow> e \<in> row_event ` set (outbox s) \<Longrightarrow> \<exists>s'. pg_MarkPublished (ev_id e) t s = Inr s'"
    by (auto simp: pg_MarkPublished_def lookup_None_iff split: option.splits)
  show "po_inv s' \<and> row_event ` set (outbox s') = row_event ` set (outbox s) \<and> po_published s' = (po_published s)(i := True)
      \<and> po_dead s' = po_dead s \<and> (\<forall>j. j \<noteq> i \<longrightarrow> po_failures s' j = po_failures s j)"
    if "po_inv s" "pg_MarkPublished i t s = Inr s'" using pg_MarkPublished_effect [OF that] by blast
  show "pg_Pending 0 s' = filter (\<lambda>e. ev_id e \<noteq> i) (pg_Pending 0 s)"
    if "po_inv s" "pg_MarkPublished i t s = Inr s'" using pg_MarkPublished_effect [OF that] by blast
  show "\<exists>s'. pg_RecordFailure (ev_id e) t msg m s = Inr (m \<le> po_failures s (ev_id e) + 1, s')
        \<and> po_inv s' \<and> row_event ` set (outbox s') = row_event ` set (outbox s) \<and> po_published s' = po_published s
        \<and> po_dead s' = (po_dead s)(ev_id e := m \<le> po_failures s (ev_id e) + 1)
        \<and> po_failures s' = (po_failures s)(ev_id e := po_failures s (ev_id e) + 1)"
    if "po_inv s" "e \<in> row_event ` set (outbox s)" "\<not> po_published s (ev_id e)" "\<not> po_dead s (ev_id e)" "0 < m"
    using pg_RecordFailure_effect [OF that, of t msg] by blast
  show "pg_Pending 0 s' = (if b then filter (\<lambda>f. ev_id f \<noteq> ev_id e) (pg_Pending 0 s) else pg_Pending 0 s)"
    if "po_inv s" "e \<in> set (pg_Pending 0 s)" "pg_RecordFailure (ev_id e) t msg m s = Inr (b, s')"
  proof -
    have w: "e \<in> row_event ` set (outbox s)" "\<not> po_published s (ev_id e)" "\<not> po_dead s (ev_id e)"
      using that(2) row_live_iff [OF that(1)] by (auto simp: pg_Pending_0 queue_def)
    have "0 < m" using that(3) by (simp add: pg_RecordFailure_def split: if_splits)
    from pg_RecordFailure_effect [OF that(1) w this, of t msg] that(3) show ?thesis by auto
  qed
  show "\<exists>s'. pg_Append e s = Inr s' \<and> po_inv s' \<and> (if \<exists>f \<in> row_event ` set (outbox s). ev_id f = ev_id e then s' = s
        else row_event ` set (outbox s') = insert e (row_event ` set (outbox s)) \<and> po_published s' = po_published s \<and> po_dead s' = po_dead s)"
    if "po_inv s"
    using that by (auto simp: pg_Append_def lookup_None_iff po_inv_def row_event_def po_published_def po_dead_def po_row_def
        lookup_append fun_eq_iff split: option.splits dest: lookup_SomeD)
qed

section \<open>Properties\<close>

text \<open>C35: no event is lost or falsely confirmed by a pass of the outbox processor over the PostgreSQL
  outbox: every stored event stays stored, one becomes published only if the publisher accepted
  it, and one is given up only when its failures reach the limit.\<close>

theorem outbox_no_loss:
  assumes "distinct (map o_id (outbox s))" "0 < m" "r \<in> set (outbox s)"
    and "ProcessPending pg_Pending pg_MarkPublished pg_RecordFailure publish now m limit s = ((k, err), s')"
  shows "row_event r \<in> row_event ` set (outbox s')
       \<and> (po_published s' (o_id r) \<longrightarrow> po_published s (o_id r) \<or> publish (row_event r) = None)
       \<and> (po_dead s' (o_id r) \<and> \<not> po_dead s (o_id r) \<longrightarrow> m \<le> po_failures s (o_id r) + 1)"
proof -
  have i: "po_inv s" using assms(1) by (simp add: po_inv_def)
  have u: "f = row_event r" if "f \<in> row_event ` set (outbox s)" "ev_id f = o_id r" for f
    using that assms(1,3) distinct_key_eq [of o_id "outbox s" _ r] by (metis imageE row_event_id(1))
  note nl = pg_outbox.no_loss [OF i assms(2,4) imageI [OF assms(3)], unfolded row_event_id]
  have "po_published s' (o_id r) \<longrightarrow> po_published s (o_id r) \<or> publish (row_event r) = None"
    using conjunct1 [OF conjunct2 [OF nl]] u by metis
  then show ?thesis using conjunct1 [OF nl] conjunct2 [OF conjunct2 [OF nl]] by (intro conjI) assumption+
qed

definition sample_outbox_db :: db where
  "sample_outbox_db = (case insert_outbox ''round'' ''r1'' ''game.round.closed'' PNull sample_db of
     Inl e \<Rightarrow> empty_db | Inr s \<Rightarrow> (case insert_outbox ''round'' ''r2'' ''game.round.closed'' PNull s of Inl e \<Rightarrow> empty_db | Inr s \<Rightarrow> s))"

theorem outbox_no_loss_witness:
  "\<exists>s'. ProcessPending pg_Pending pg_MarkPublished pg_RecordFailure (\<lambda>e. None) 7 default_max_attempts 1 sample_outbox_db = ((1, None), s')
      \<and> row_event (outbox sample_outbox_db ! 1) \<in> row_event ` set (outbox s') \<and> \<not> po_dead s' ''u1''"
proof -
  obtain k err s' where p: "ProcessPending pg_Pending pg_MarkPublished pg_RecordFailure (\<lambda>e. None) 7 default_max_attempts 1 sample_outbox_db = ((k, err), s')"
    by (metis prod.collapse)
  have "fst (ProcessPending pg_Pending pg_MarkPublished pg_RecordFailure (\<lambda>e. None) 7 default_max_attempts 1 sample_outbox_db) = (1, None)" by code_simp
  then have k: "k = 1" "err = None" using p by auto
  have d: "distinct (map o_id (outbox sample_outbox_db))" "outbox sample_outbox_db ! 1 \<in> set (outbox sample_outbox_db)"
    "o_id (outbox sample_outbox_db ! 1) = ''u1''" "\<not> po_dead sample_outbox_db ''u1''" "po_failures sample_outbox_db ''u1'' = 0"
    by code_simp+
  show ?thesis using outbox_no_loss [OF d(1) _ d(2) p] p k d(3-5) by (auto simp: default_max_attempts_def)
qed

text \<open>C36: a poison event, which the publisher always refuses, does not block the outbox for ever. In the
  PostgreSQL outbox, at the head of the queue it holds up the others only for its remaining attempts: after that many
  passes it is dead, it was never marked published, and the rest of the queue is in front, in the same order. In the in-memory
  outbox the order of events of one time changes from pass to pass; whatever the orders of the passes and the size of
  a batch, when the waiting events no later than it are accepted, it is dead after as many passes as there are such events and
  attempts left, it was never marked published, and no later pass takes it again.\<close>

theorem outbox_poison_event:
  fixes s :: db and r :: MemoryOutbox and now limit :: int and orders :: "nat list list"
  assumes "0 < m" "publish e = Some msg" "0 < j"
  defines "run \<equiv> \<lambda>s. snd (ProcessPending pg_Pending pg_MarkPublished pg_RecordFailure publish now m limit s)"
    and "run_mem \<equiv> \<lambda>order s. snd (ProcessPending (mo_Pending order) mo_MarkPublished mo_RecordFailure publish now m limit s)"
    and "before \<equiv> {f \<in> set (mo_events r). mo_published r (ev_id f) = None \<and> mo_dead r (ev_id f) = None \<and> f \<noteq> e \<and> ev_at f \<le> ev_at e}"
  shows "(distinct (map o_id (outbox s)) \<longrightarrow> pg_Pending 0 s = e # rest \<longrightarrow> po_failures s (ev_id e) + int j = m \<longrightarrow>
           po_dead ((run ^^ j) s) (ev_id e) \<and> \<not> po_published ((run ^^ j) s) (ev_id e) \<and> pg_Pending 0 ((run ^^ j) s) = rest)
       \<and> (mo_inv r \<longrightarrow> e \<in> set (mo_events r) \<longrightarrow> mo_published r (ev_id e) = None \<longrightarrow> mo_dead r (ev_id e) = None \<longrightarrow>
           mo_attempts r (ev_id e) < m \<longrightarrow> (\<forall>f \<in> before. publish f = None) \<longrightarrow>
           int (card before) + (m - mo_attempts r (ev_id e)) \<le> int (length orders) \<longrightarrow>
           (let r' = fold run_mem orders r in mo_dead r' (ev_id e) \<noteq> None \<and> mo_published r' (ev_id e) = None
              \<and> (\<forall>order limit. e \<notin> set (mo_Pending order limit r'))))"
proof -
  have run: "run = pg_outbox.pass publish now m limit ()" by (simp add: run_def pg_outbox.pass_def [abs_def])
  have run_mem: "run_mem = mem_outbox.pass publish now m limit" by (simp add: run_mem_def mem_outbox.pass_def [abs_def])
  have before: "before = mem_outbox.ahead r e" unfolding before_def mem_outbox.ahead_def mem_outbox.waiting_def by auto
  have "po_dead ((run ^^ j) s) (ev_id e) \<and> \<not> po_published ((run ^^ j) s) (ev_id e) \<and> pg_Pending 0 ((run ^^ j) s) = rest"
    if "distinct (map o_id (outbox s))" "pg_Pending 0 s = e # rest" "po_failures s (ev_id e) + int j = m"
    using pg_outbox.poison_dead_lettered [where publish = publish and e = e and s = s and rest = rest and j = j and now = now and limit = limit, OF assms(1,2)] that assms(3) pg_outbox.pending_iff [of s e]
    by (auto simp: run po_inv_def)
  moreover have "mo_dead (fold run_mem orders r) (ev_id e) \<noteq> None \<and> mo_published (fold run_mem orders r) (ev_id e) = None"
    if "mo_inv r" "e \<in> set (mo_events r)" "mo_published r (ev_id e) = None" "mo_dead r (ev_id e) = None" "mo_attempts r (ev_id e) < m"
      "\<forall>f \<in> before. publish f = None" "int (card before) + (m - mo_attempts r (ev_id e)) \<le> int (length orders)"
    using mem_outbox.poison_any_order [where publish = publish and e = e, OF assms(1,2) that(1), of orders now limit] that(2-) unfolding run_mem before mem_outbox.waiting_def by auto
  moreover have "e \<notin> set (mo_Pending order limit x)" if "mo_dead x (ev_id e) \<noteq> None" for order limit x
    using mo_Pending_mem [of e order limit x] that by auto
  ultimately show ?thesis unfolding Let_def by (intro conjI impI allI) simp_all
qed

definition sample_mem_outbox :: MemoryOutbox where
  "sample_mem_outbox = NewMemoryOutbox\<lparr>mo_events := map (\<lambda>i. \<lparr>ev_id = i, ev_type = ''round'', ev_agg_type = ''t'', ev_agg_id = ''g'',
     ev_at = 5, ev_payload = PNull\<rparr>) [''u0'', ''u1'']\<rparr>"

theorem outbox_poison_event_witness:
  "let publish = (\<lambda>e. if ev_id e = ''u0'' then Some ''bad'' else None);
       run = (\<lambda>s. snd (ProcessPending pg_Pending pg_MarkPublished pg_RecordFailure publish 7 default_max_attempts 1 s));
       run_mem = (\<lambda>order s. snd (ProcessPending (mo_Pending order) mo_MarkPublished mo_RecordFailure publish 7 default_max_attempts 1 s))
   in po_dead ((run ^^ 5) sample_outbox_db) ''u0'' \<and> map ev_id (pg_Pending 0 ((run ^^ 5) sample_outbox_db)) = [''u1'']
    \<and> map ev_id (mo_Pending [0] 1 sample_mem_outbox) = [''u0''] \<and> map ev_id (mo_Pending [1] 1 sample_mem_outbox) = [''u1'']
    \<and> mo_dead (fold run_mem [[0], [1], [0], [], [3], [1]] sample_mem_outbox) ''u0'' \<noteq> None"
proof -
  let ?pub = "\<lambda>e. if ev_id e = ''u0'' then Some ''bad'' else None"
  have q: "map ev_id (pg_Pending 0 sample_outbox_db) = [''u0'', ''u1'']" by code_simp
  then obtain e f where ef: "pg_Pending 0 sample_outbox_db = [e, f]" "ev_id e = ''u0''" "ev_id f = ''u1''"
    by (auto simp: map_eq_Cons_conv)
  have d: "distinct (map o_id (outbox sample_outbox_db))" "po_failures sample_outbox_db ''u0'' = 0" by code_simp+
  have "?pub e = Some ''bad''" using ef(2) by simp
  note pg = outbox_poison_event [where publish = ?pub and e = e and j = 5 and s = sample_outbox_db and rest = "[f]" and now = 7
      and limit = 1 and m = default_max_attempts, OF _ this]
  obtain a b where ab: "mo_events sample_mem_outbox = [a, b]" "ev_id a = ''u0''" "ev_id b = ''u1''" by (simp add: sample_mem_outbox_def)
  have m: "mo_inv sample_mem_outbox"
    "mo_published sample_mem_outbox = Map.empty" "mo_dead sample_mem_outbox = Map.empty" "mo_attempts sample_mem_outbox = (\<lambda>_. 0)"
    by (simp_all add: sample_mem_outbox_def NewMemoryOutbox_def mo_inv_def)
  let ?before = "{g \<in> set (mo_events sample_mem_outbox). mo_published sample_mem_outbox (ev_id g) = None
      \<and> mo_dead sample_mem_outbox (ev_id g) = None \<and> g \<noteq> a \<and> ev_at g \<le> ev_at a}"
  have only: "?before \<subseteq> {b}" using ab(1) by auto
  then have "card ?before \<le> 1" "\<forall>g \<in> ?before. ?pub g = None" using card_mono [OF _ only] ab(3) by auto
  moreover have "?pub a = Some ''bad''" "a \<in> set (mo_events sample_mem_outbox)" using ab(1,2) by simp_all
  ultimately have "mo_dead (fold (\<lambda>order s. snd (ProcessPending (mo_Pending order) mo_MarkPublished mo_RecordFailure ?pub 7 default_max_attempts 1 s))
      [[0], [1], [0], [], [3], [1]] sample_mem_outbox) ''u0'' \<noteq> None"
    using outbox_poison_event [where publish = ?pub and e = a and j = 5 and r = sample_mem_outbox and now = 7 and limit = 1
      and m = default_max_attempts and msg = "''bad''" and orders = "[[0], [1], [0], [], [3], [1]]"] m ab(1,2)
    by (simp add: default_max_attempts_def Let_def)
  moreover have "map ev_id (mo_Pending [0] 1 sample_mem_outbox) = [''u0'']" "map ev_id (mo_Pending [1] 1 sample_mem_outbox) = [''u1'']" by code_simp+
  ultimately show ?thesis using pg ef d unfolding Let_def by (simp add: default_max_attempts_def)
qed

text \<open>The two outboxes disagree on a failure reported for an event that is already dead: the
  in-memory one answers that it is dead-lettered, the PostgreSQL one that it is not. Neither
  changes anything.\<close>

theorem outbox_dead_failure_answers:
  assumes "0 < m"
  shows "(mo_dead r i \<noteq> None \<and> mo_published r i = None \<and> lookup (\<lambda>e. ev_id e = i) (mo_events r) \<noteq> None \<longrightarrow>
            mo_RecordFailure i t msg m r = Inr (True, r))
       \<and> (distinct (map o_id (outbox s)) \<and> po_dead s i \<longrightarrow> pg_RecordFailure i t msg m s = Inr (False, s))"
proof -
  have "pg_RecordFailure i t msg m s = Inr (False, s)" if d: "distinct (map o_id (outbox s))" "po_dead s i"
  proof -
    obtain x where x: "lookup (\<lambda>r. o_id r = i) (outbox s) = Some x" "o_failed x \<noteq> None"
      using d(2) by (auto simp: po_dead_def po_row_def split: option.splits)
    have "lookup (\<lambda>r. o_id r = i \<and> o_published r = None \<and> o_failed r = None) (outbox s) = None"
      using lookup_and [OF d(1) x(1), of "\<lambda>x. o_published x = None \<and> o_failed x = None"] x(2) by simp
    then show ?thesis using assms x(1) by (simp add: pg_RecordFailure_def Let_def)
  qed
  then show ?thesis using assms by (auto simp: mo_RecordFailure_def)
qed

theorem outbox_dead_failure_answers_witness:
  "let s = sample_outbox_db\<lparr>outbox := modify (\<lambda>r. o_id r = ''u0'') (\<lambda>r. r\<lparr>o_failed := Some 3\<rparr>) (outbox sample_outbox_db)\<rparr>
   in pg_RecordFailure ''u0'' 9 ''x'' 5 s = Inr (False, s)"
proof -
  let ?s = "sample_outbox_db\<lparr>outbox := modify (\<lambda>r. o_id r = ''u0'') (\<lambda>r. r\<lparr>o_failed := Some 3\<rparr>) (outbox sample_outbox_db)\<rparr>"
  have "distinct (map o_id (outbox ?s))" "po_dead ?s ''u0''" by code_simp+
  then have "pg_RecordFailure ''u0'' 9 ''x'' 5 ?s = Inr (False, ?s)"
    using outbox_dead_failure_answers [of 5 NewMemoryOutbox "''u0''" 9 "''x''" ?s] by (meson zero_less_numeral)
  then show ?thesis by (simp only: Let_def)
qed

end
