(* ===== verification/Chain_Deposit.thy ===== *)
theory Chain_Deposit
  imports Books Wallet_Amount
begin

text \<open>
  Deposits from the payment gateway: \<^verbatim>\<open>internal/application/chain\<close> (\<^verbatim>\<open>deposit.go\<close>, \<^verbatim>\<open>deposit_address.go\<close>,
  \<^verbatim>\<open>provider_events.go\<close> and the deposit half of \<^verbatim>\<open>pqpa_webhook.go\<close>). The gateway that hands out
  addresses is a parameter. A webhook runs as several transactions, so its model returns the
  state also when it fails.
\<close>

section \<open>deposit.go\<close>

record DepositInput =
  di_event :: string
  di_tx :: string
  di_chain :: string
  di_token :: string
  di_address :: string
  di_amount :: int
  di_provider_amount :: string
  di_chain_decimals :: "int option"
  di_platform_decimals :: "int option"

record DepositResult =
  dr_id :: string
  dr_status :: string
  dr_credited :: bool

definition ensureWallet :: "string \<Rightarrow> string \<Rightarrow> string tx" where
  "ensureWallet userID currency s =
     (let (walletID, s) = new_uuid s in
      case wallet_of s userID currency of
        Some w \<Rightarrow> Inr (w_id w, s)
      | None \<Rightarrow> bindE (insert_wallet walletID userID currency s) (\<lambda>s. Inr (walletID, s)))"

definition decimals_check :: "int option \<Rightarrow> bool" where
  "decimals_check d = (case d of None \<Rightarrow> True | Some n \<Rightarrow> 0 \<le> n \<and> n \<le> 18)"

text \<open>\<^verbatim>\<open>INSERT INTO deposits \<dots> ON CONFLICT DO NOTHING\<close>: \<open>None\<close> when the event id, the transaction hash or the
  row id is taken.\<close>

definition deposit_conflict :: "deposit_row \<Rightarrow> deposit_row \<Rightarrow> bool" where
  "deposit_conflict d r \<longleftrightarrow> dp_id r = dp_id d \<or> dp_event r = dp_event d \<or> dp_tx r = dp_tx d"

definition insert_deposit :: "deposit_row \<Rightarrow> db \<Rightarrow> error + db option" where
  "insert_deposit d s =
     (if dp_amount d \<le> 0 \<or> \<not> decimals_check (dp_chain_decimals d) \<or> \<not> decimals_check (dp_platform_decimals d) then Inl (DB Check)
      else if lookup (deposit_conflict d) (deposits s) \<noteq> None then Inr None
      else Inr (Some (s\<lparr>deposits := deposits s @ [d]\<rparr>)))"

text \<open>The writes of a first delivery, after the deposit row. The balance is a Go \<^verbatim>\<open>int64\<close> sum.\<close>

definition credit_writes :: "string \<Rightarrow> string \<Rightarrow> DepositInput \<Rightarrow> DepositResult tx" where
  "credit_writes depositID userID i s =
     bindE (ensureWallet userID (di_token i) s) (\<lambda>r.
     bindE (orErr (DB NoRows) (wallet_by_id (snd r) (fst r))) (\<lambda>w.
     let available = wrap64 (w_available w + di_amount i) in
     bindE (set_available (fst r) available (snd r)) (\<lambda>s.
     bindE (insert_ledger (fst r) ''deposit'' depositID ''deposit_credit'' (di_amount i) available s) (\<lambda>s.
     bindE (insert_outbox ''deposit'' depositID ''chain.deposit.credited''
              (PObj [(''deposit_id'', PStr depositID), (''user_id'', PStr userID), (''token_code'', PStr (di_token i)),
                     (''tx_hash'', PStr (di_tx i))]) s) (\<lambda>s.
     Inr (\<lparr>dr_id = depositID, dr_status = ''credited'', dr_credited = True\<rparr>, s))))))"

definition deposit_of :: "DepositInput \<Rightarrow> string \<Rightarrow> address_row \<Rightarrow> int \<Rightarrow> deposit_row" where
  "deposit_of i depositID a now =
     \<lparr>dp_id = depositID, dp_address = ca_id a, dp_event = di_event i, dp_tx = di_tx i, dp_amount = di_amount i,
      dp_status = ''credited'', dp_confirmed = Some now,
      dp_provider_amount = (if di_provider_amount i = [] then None else Some (di_provider_amount i)),
      dp_chain_decimals = di_chain_decimals i, dp_platform_decimals = di_platform_decimals i\<rparr>"

definition CreditDeposit :: "DepositInput \<Rightarrow> DepositResult tx" where
  "CreditDeposit i s =
     (if di_event i = [] \<or> di_tx i = [] \<or> di_chain i = [] \<or> di_token i = [] \<or> di_address i = []
      then Inl (Chain ErrMissingFields)
      else if di_amount i \<le> 0 then Inl (Chain ChainInvalidAmount)
      else bindE (orErr (Chain ErrUnknownDepositAddress)
                   (lookup (\<lambda>a. ca_chain a = di_chain i \<and> ca_token a = di_token i \<and> ca_address a = di_address i) (chain_addresses s))) (\<lambda>a.
      let depositID = fst (new_uuid s); s = snd (new_uuid s) in
      bindE (insert_deposit (deposit_of i depositID a (clock s)) s) (\<lambda>r.
      case r of
        None \<Rightarrow> bindE (orErr (DB NoRows) (lookup (\<lambda>d. dp_event d = di_event i \<or> dp_tx d = di_tx i) (deposits s))) (\<lambda>d.
                Inr (\<lparr>dr_id = dp_id d, dr_status = dp_status d, dr_credited = False\<rparr>, s))
      | Some s1 \<Rightarrow> credit_writes depositID (ca_user a) i s1)))"

text \<open>\<^verbatim>\<open>ListDeposits\<close>: latest confirmation first, unconfirmed rows last.\<close>

definition ListDeposits :: "db \<Rightarrow> string \<Rightarrow> int \<Rightarrow> (deposit_row \<times> address_row) list" where
  "ListDeposits s userID limit =
     (let limit = (if limit \<le> 0 \<or> limit > 100 then 50 else limit);
          rows = concat (map (\<lambda>d. map (\<lambda>a. (d, a)) (filter (\<lambda>a. ca_id a = dp_address d \<and> ca_user a = userID) (chain_addresses s))) (deposits s));
          byId = rev (sort_key (\<lambda>(d, a). map code (dp_id d)) rows);
          dated = filter (\<lambda>(d, a). dp_confirmed d \<noteq> None) byId;
          undated = filter (\<lambda>(d, a). dp_confirmed d = None) byId
      in take (nat limit) (sort_key (\<lambda>(d, a). - the (dp_confirmed d)) dated @ undated))"

section \<open>deposit_address.go\<close>

definition GetDepositAddress :: "db \<Rightarrow> string \<Rightarrow> string \<Rightarrow> string \<Rightarrow> address_row option" where
  "GetDepositAddress s userID chainCode tokenCode =
     lookup (\<lambda>a. ca_user a = userID \<and> ca_chain a = chainCode \<and> ca_token a = tokenCode) (chain_addresses s)"

definition same_address :: "address_row \<Rightarrow> address_row \<Rightarrow> bool" where
  "same_address a b \<longleftrightarrow> ca_chain b = ca_chain a \<and> ca_token b = ca_token a \<and> ca_address b = ca_address a"

text \<open>\<^verbatim>\<open>INSERT INTO chain_addresses \<dots> ON CONFLICT (chain_code, token_code, address) DO UPDATE SET user_id\<close>.\<close>

definition upsert_address :: "address_row \<Rightarrow> address_row tx" where
  "upsert_address a s =
     (if user_by_id s (ca_user a) = None then Inl (DB ForeignKey)
      else case lookup (same_address a) (chain_addresses s) of
        Some b \<Rightarrow> Inr (b\<lparr>ca_user := ca_user a\<rparr>,
                    s\<lparr>chain_addresses := modify (same_address a) (\<lambda>b. b\<lparr>ca_user := ca_user a\<rparr>) (chain_addresses s)\<rparr>)
      | None \<Rightarrow>
          if lookup (\<lambda>b. ca_id b = ca_id a \<or> (ca_provider a \<noteq> None \<and> ca_provider b = ca_provider a)) (chain_addresses s) \<noteq> None
          then Inl (DB Unique)
          else Inr (a, s\<lparr>chain_addresses := chain_addresses s @ [a]\<rparr>))"

definition CreateDepositAddress ::
  "(string \<Rightarrow> string \<Rightarrow> string \<Rightarrow> error + (string \<times> string \<times> string)) option \<Rightarrow> string \<Rightarrow> string \<Rightarrow> string \<Rightarrow> address_row tx" where
  "CreateDepositAddress provider userID chainCode tokenCode s =
     (if userID = [] \<or> chainCode = [] \<or> tokenCode = [] then Inl (Chain ErrMissingFields)
      else if \<not> (case lookup (\<lambda>a. as_chain a = chainCode \<and> as_token a = tokenCode) (assets s) of
                    None \<Rightarrow> False | Some a \<Rightarrow> as_enabled a \<and> as_deposit a)
      then Inl (Chain ErrUnsupportedAsset)
      else case GetDepositAddress s userID chainCode tokenCode of
        Some existing \<Rightarrow> Inr (existing, s)
      | None \<Rightarrow>
          (case provider of
             None \<Rightarrow> Inl (Chain ProviderUnavailable)
           | Some create \<Rightarrow>
               bindE (create userID chainCode tokenCode) (\<lambda>(providerID, address, memo).
               let (i, s) = new_uuid s in
               upsert_address \<lparr>ca_id = i, ca_user = userID, ca_chain = chainCode, ca_token = tokenCode, ca_address = address,
                 ca_provider = Some providerID, ca_memo = (if memo = [] then None else Some memo)\<rparr> s)))"

section \<open>provider_events.go\<close>

definition beginProviderEvent :: "string \<Rightarrow> string \<Rightarrow> bool tx" where
  "beginProviderEvent eventID eventType s =
     (let (i, s) = new_uuid s in
      case lookup (\<lambda>e. we_event e = eventID) (webhooks s) of
        Some e \<Rightarrow> Inr (we_processed e \<noteq> None, s)
      | None \<Rightarrow>
          if lookup (\<lambda>e. we_id e = i) (webhooks s) \<noteq> None then Inl (DB Unique)
          else Inr (False, s\<lparr>webhooks := webhooks s @
                 [\<lparr>we_id = i, we_event = eventID, we_type = eventType, we_processed = None, we_error = None\<rparr>]\<rparr>))"

definition finishProviderEvent :: "string \<Rightarrow> error option \<Rightarrow> db \<Rightarrow> db" where
  "finishProviderEvent eventID err s =
     s\<lparr>webhooks := modify (\<lambda>e. we_event e = eventID)
         (\<lambda>e. case err of None \<Rightarrow> e\<lparr>we_processed := Some (clock s), we_error := None\<rparr> | Some x \<Rightarrow> e\<lparr>we_error := Some x\<rparr>) (webhooks s)\<rparr>"

section \<open>pqpa_webhook.go: deposits\<close>

record PQPADepositWebhook =
  pd_event :: string
  pd_id :: int
  pd_chain_token :: int
  pd_address :: string
  pd_amount :: string
  pd_tx :: string
  pd_status :: string

definition no_result :: DepositResult where
  "no_result = \<lparr>dr_id = [], dr_status = [], dr_credited = False\<rparr>"

definition deposit_asset :: "db \<Rightarrow> int \<Rightarrow> (asset_row \<times> currency_row) option" where
  "deposit_asset s tokenID =
     (case lookup (\<lambda>a. as_chain_token a = Some tokenID \<and> as_enabled a \<and> as_deposit a) (assets s) of
        None \<Rightarrow> None
      | Some a \<Rightarrow> map_option (\<lambda>c. (a, c)) (lookup (\<lambda>c. c_code c = as_token a) (currencies s)))"

definition webhook_input :: "string \<Rightarrow> PQPADepositWebhook \<Rightarrow> asset_row \<times> currency_row \<Rightarrow> int \<Rightarrow> DepositInput" where
  "webhook_input eventID cb ac amount =
     \<lparr>di_event = eventID, di_tx = pd_tx cb, di_chain = as_chain (fst ac), di_token = as_token (fst ac),
      di_address = pd_address cb, di_amount = amount, di_provider_amount = pd_amount cb,
      di_chain_decimals = Some (as_decimals (fst ac)), di_platform_decimals = Some (c_decimals (snd ac))\<rparr>"

text \<open>The steps after \<^verbatim>\<open>beginProviderEvent\<close>.\<close>

definition credit_event :: "string \<Rightarrow> PQPADepositWebhook \<Rightarrow> db \<Rightarrow> (error + DepositResult \<times> bool) \<times> db" where
  "credit_event eventID cb s =
     (case deposit_asset s (pd_chain_token cb) of
        None \<Rightarrow> (Inl (Chain ErrUnsupportedAsset), finishProviderEvent eventID (Some (Chain ErrUnsupportedAsset)) s)
      | Some ac \<Rightarrow>
          (case parsePlatformDeposit (pd_amount cb) (as_decimals (fst ac)) (c_decimals (snd ac)) of
             Inl e \<Rightarrow> (Inl (Chain ChainInvalidAmount), finishProviderEvent eventID (Some (Chain ChainInvalidAmount)) s)
           | Inr amount \<Rightarrow>
               if amount \<le> 0
               then (Inl (Chain ChainInvalidAmount), finishProviderEvent eventID (Some (Chain ChainInvalidAmount)) s)
               else (case CreditDeposit (webhook_input eventID cb ac amount) s of
                       Inl e \<Rightarrow> (Inl e, finishProviderEvent eventID (Some e) s)
                     | Inr (r, s') \<Rightarrow> (Inr (r, True), finishProviderEvent eventID None s'))))"

definition CreditPQPADeposit :: "PQPADepositWebhook \<Rightarrow> db \<Rightarrow> (error + DepositResult \<times> bool) \<times> db" where
  "CreditPQPADeposit cb s =
     (if pd_event cb \<noteq> ''recharge'' \<or> pd_id cb \<le> 0 \<or> pd_chain_token cb \<le> 0 \<or> pd_address cb = [] \<or> pd_amount cb = []
         \<or> pd_tx cb = [] \<or> pd_status cb = []
      then (Inl (Chain ErrMissingFields), s)
      else if pd_status cb \<noteq> ''SETTLED'' then (Inr (no_result, False), s)
      else let eventID = ''recharge:'' @ format_int (pd_id cb) in
      case beginProviderEvent eventID ''recharge'' s of
        Inl e \<Rightarrow> (Inl e, s)
      | Inr (already, s') \<Rightarrow> if already then (Inr (no_result, False), s') else credit_event eventID cb s')"

section \<open>What a credit does\<close>

lemma wallet_of_append_other:
  "(u', c') \<noteq> (w_user w, w_currency w) \<Longrightarrow> wallets s' = wallets s @ [w] \<Longrightarrow> wallet_of s' u' c' = wallet_of s u' c'"
  by (auto simp: wallet_of_def lookup_append split: option.splits)

lemma ensureWallet_Inr:
  assumes "books_ok s" "ensureWallet u c s = Inr (i, s')"
  shows "books_ok s' \<and> money_only s s' \<and> ledger s' = ledger s \<and> (\<exists>w. wallet_of s' u c = Some w \<and> w_id w = i \<and> w_available w = balance_of s u c)
       \<and> (\<forall>u' c'. (u', c') \<noteq> (u, c) \<longrightarrow> wallet_of s' u' c' = wallet_of s u' c')"
proof (cases "wallet_of s u c")
  case (Some w)
  then have "s' = s\<lparr>next_uuid := Suc (next_uuid s)\<rparr>" "i = w_id w" using assms(2) by (auto simp: ensureWallet_def new_uuid_def)
  then show ?thesis using Some assms(1) books_ok_cong [of s s'] by (simp add: money_only_def wallet_of_def balance_of_def)
next
  case None
  let ?t = "s\<lparr>next_uuid := Suc (next_uuid s)\<rparr>"
  have iw: "insert_wallet i u c ?t = Inr s'"
    using assms(2) None by (auto simp: ensureWallet_def new_uuid_def bindE_eq_Inr)
  have "books (\<lambda>_. (0, 0)) ?t" using assms(1) books_ok_cong [of s ?t] by (simp add: books_ok_def)
  note k = books_insert_wallet [OF this iw refl]
  let ?w = "\<lparr>w_id = i, w_user = u, w_currency = c, w_available = 0, w_frozen = 0, w_version = 0, w_updated = clock s\<rparr>"
  have s': "s' = ?t\<lparr>wallets := wallets s @ [?w]\<rparr>" using iw by (auto simp: insert_wallet_def split: if_splits)
  have "\<forall>u' c'. (u', c') \<noteq> (u, c) \<longrightarrow> wallet_of s' u' c' = wallet_of s u' c'"
    using wallet_of_append_other [of _ _ ?w s' s] by (simp add: s')
  then show ?thesis using k None by (simp add: s' money_only_def books_ok_def balance_of_def)
qed

lemma credit_writes_Inr:
  assumes "books_ok s" "credit_writes depositID u i s = Inr (r, s')" "0 < di_amount i" "di_amount i \<le> max_int64"
  shows "books_ok s' \<and> money_only s s' \<and> r = \<lparr>dr_id = depositID, dr_status = ''credited'', dr_credited = True\<rparr>
       \<and> balance_of s' u (di_token i) = balance_of s u (di_token i) + di_amount i
       \<and> (\<forall>u' c'. (u', c') \<noteq> (u, di_token i) \<longrightarrow> balance_of s' u' c' = balance_of s u' c')
       \<and> (\<exists>e. ledger s' = ledger s @ [e] \<and> l_btype e = ''deposit'' \<and> l_bid e = depositID \<and> l_amount e = di_amount i)"
proof -
  from assms(2) obtain y w s2 s3 p where y: "ensureWallet u (di_token i) s = Inr y" "wallet_by_id (snd y) (fst y) = Some w"
    "set_available (fst y) (wrap64 (w_available w + di_amount i)) (snd y) = Inr s2"
    "insert_ledger (fst y) ''deposit'' depositID ''deposit_credit'' (di_amount i) (wrap64 (w_available w + di_amount i)) s2 = Inr s3"
    and s4: "insert_outbox ''deposit'' depositID ''chain.deposit.credited'' p s3 = Inr s'"
    and r: "r = \<lparr>dr_id = depositID, dr_status = ''credited'', dr_credited = True\<rparr>"
    unfolding credit_writes_def Let_def bindE_eq_Inr orErr_eq_Inr by (elim exE conjE) simp
  obtain wid s1 where e: "ensureWallet u (di_token i) s = Inr (wid, s1)"
    and w: "wallet_by_id s1 wid = Some w"
    and s2: "set_available wid (wrap64 (w_available w + di_amount i)) s1 = Inr s2"
    and s3: "insert_ledger wid ''deposit'' depositID ''deposit_credit'' (di_amount i) (wrap64 (w_available w + di_amount i)) s2 = Inr s3"
    using y by (cases y) simp
  note en = ensureWallet_Inr [OF assms(1) e]
  have ok: "wallets_ok s1" using en books_ok_wallets_ok by blast
  obtain x where x: "wallet_of s1 u (di_token i) = Some x" "w_id x = wid" "w_available x = balance_of s u (di_token i)" using en by blast
  have wx: "w = x" using wallet_of_by_id [OF ok x(1)] x(2) w by simp
  have rg: "in_range (w_available w)" using wallet_of_range [OF ok x(1)] wx by simp
  have "0 \<le> wrap64 (w_available w + di_amount i)" using set_available_Inr [OF ok w s2] by simp
  then have le: "w_available w + di_amount i \<le> max_int64"
    using wrap64_add_nonneg_iff [of "w_available w" "di_amount i"] rg assms(3,4) by (simp add: in_range_def int64_def max_int64_def)
  have v: "wrap64 (w_available w + di_amount i) = w_available w + di_amount i"
    using le rg assms(3) by (simp add: in_range_def int64_def max_int64_def)
  have pe: "moved s1 w (w_available w + di_amount i) ''deposit'' depositID ''deposit_credit'' s' \<and> money_only s1 s'"
    using post_event [OF ok w s2 [unfolded v] s3 [unfolded v] _ s4] by simp
  then have m: "moved s1 w (w_available w + di_amount i) ''deposit'' depositID ''deposit_credit'' s'" by blast
  have "in_range (w_available w + di_amount i)" using le rg assms(3) by (simp add: in_range_def)
  then have bk: "books_ok s'" using moved_books [OF _ wallet_by_id_self [OF w] m] en by blast
  note mw = moved_wallet_of [OF ok x(1) m [unfolded wx]]
  have b1: "balance_of s' u (di_token i) = balance_of s u (di_token i) + di_amount i"
    using mw [of u "di_token i"] x(3) wx by (simp add: balance_of_def)
  have b2: "\<forall>u' c'. (u', c') \<noteq> (u, di_token i) \<longrightarrow> balance_of s' u' c' = balance_of s u' c'"
    using mw en by (simp add: balance_of_def)
  have "\<exists>e. ledger s' = ledger s @ [e] \<and> l_btype e = ''deposit'' \<and> l_bid e = depositID \<and> l_amount e = di_amount i"
    using m en by (auto simp: moved_def)
  moreover have "money_only s s'" using pe en money_only_trans by blast
  ultimately show ?thesis using bk r b1 b2 by blast
qed

definition delivered :: "db \<Rightarrow> DepositInput \<Rightarrow> bool" where
  "delivered s i \<longleftrightarrow> (\<exists>d \<in> set (deposits s). dp_event d = di_event i \<or> dp_tx d = di_tx i)"

lemma delivered_lookup: "delivered s i \<longleftrightarrow> lookup (\<lambda>d. dp_event d = di_event i \<or> dp_tx d = di_tx i) (deposits s) \<noteq> None"
  by (auto simp: delivered_def lookup_None_iff)

lemma CreditDeposit_Inr:
  assumes "books_ok s" "CreditDeposit i s = Inr (r, s')" "di_amount i \<le> max_int64"
  shows "(\<not> dr_credited r \<and> delivered s i \<and> s' = s\<lparr>next_uuid := Suc (next_uuid s)\<rparr>
            \<and> (\<exists>d. lookup (\<lambda>d. dp_event d = di_event i \<or> dp_tx d = di_tx i) (deposits s) = Some d \<and> dr_id r = dp_id d))
     \<or> (dr_credited r \<and> \<not> delivered s i \<and> books_ok s' \<and> (\<exists>a d. lookup (\<lambda>a. ca_chain a = di_chain i \<and> ca_token a = di_token i \<and> ca_address a = di_address i) (chain_addresses s) = Some a
            \<and> d = deposit_of i (dr_id r) a (clock s) \<and> deposits s' = deposits s @ [d]
            \<and> balance_of s' (ca_user a) (di_token i) = balance_of s (ca_user a) (di_token i) + di_amount i
            \<and> (\<forall>u' c'. (u', c') \<noteq> (ca_user a, di_token i) \<longrightarrow> balance_of s' u' c' = balance_of s u' c')
            \<and> (\<exists>e. ledger s' = ledger s @ [e] \<and> l_btype e = ''deposit'' \<and> l_bid e = dr_id r \<and> l_amount e = di_amount i)))"
proof -
  let ?t = "s\<lparr>next_uuid := Suc (next_uuid s)\<rparr>" and ?i = "uuids s (next_uuid s)"
  from assms(2) obtain a k where am: "0 < di_amount i"
    and a: "lookup (\<lambda>a. ca_chain a = di_chain i \<and> ca_token a = di_token i \<and> ca_address a = di_address i) (chain_addresses s) = Some a"
    and k: "insert_deposit (deposit_of i ?i a (clock s)) ?t = Inr k"
    and c: "(case k of None \<Rightarrow> bindE (orErr (DB NoRows) (lookup (\<lambda>d. dp_event d = di_event i \<or> dp_tx d = di_tx i) (deposits ?t))) (\<lambda>d.
                Inr (\<lparr>dr_id = dp_id d, dr_status = dp_status d, dr_credited = False\<rparr>, ?t))
            | Some s1 \<Rightarrow> credit_writes ?i (ca_user a) i s1) = Inr (r, s')"
    unfolding CreditDeposit_def Let_def bindE_eq_Inr if_Inl_eq_Inr orErr_eq_Inr new_uuid_def fst_conv snd_conv
    by (elim exE conjE) simp
  show ?thesis
  proof (cases k)
    case None
    then show ?thesis using c by (auto simp: bindE_eq_Inr orErr_eq_Inr delivered_lookup)
  next
    case (Some s1)
    have s1: "s1 = ?t\<lparr>deposits := deposits s @ [deposit_of i ?i a (clock s)]\<rparr>"
      and nc: "lookup (deposit_conflict (deposit_of i ?i a (clock s))) (deposits s) = None"
      using k Some by (auto simp: insert_deposit_def split: if_splits)
    have nd: "\<not> delivered s i" using nc by (auto simp: lookup_None_iff delivered_def deposit_conflict_def deposit_of_def)
    have b1: "books_ok s1" using books_ok_cong [OF assms(1)] by (simp add: s1)
    have "credit_writes ?i (ca_user a) i s1 = Inr (r, s')" using c Some by simp
    note w = credit_writes_Inr [OF b1 this am assms(3)]
    have "deposits s' = deposits s @ [deposit_of i ?i a (clock s)]" using w money_onlyD(28) [of s1 s'] by (simp add: s1)
    moreover have "balance_of s1 = balance_of s" by (simp add: fun_eq_iff balance_of_def wallet_of_def s1)
    moreover have "ledger s1 = ledger s" by (simp add: s1)
    ultimately show ?thesis using w nd a by (intro disjI2 conjI exI [of _ a]) auto
  qed
qed

lemma CreditDeposit_books: "books_ok s \<Longrightarrow> di_amount i \<le> max_int64 \<Longrightarrow> CreditDeposit i s = Inr (r, s') \<Longrightarrow> books_ok s'"
  using CreditDeposit_Inr [of s i r s'] books_ok_cong [of s s'] by auto

interpretation deposit: money_handler "\<lambda>(i :: DepositInput). if di_amount i \<le> max_int64 then CreditDeposit i else (\<lambda>s. Inl (Chain ChainInvalidAmount))"
  by unfold_locales (auto intro: CreditDeposit_books split: if_splits)

section \<open>Webhooks\<close>

lemma parsePlatformDeposit_range:
  assumes "parsePlatformDeposit v cd pd = Inr m"
  shows "0 < m \<and> m \<le> max_int64"
proof -
  obtain i fo where sp: "split_first dot (trim_space v) = (i, fo)" by force
  show ?thesis using parsePlatformDeposit_SomeD [OF assms sp refl] by blast
qed

lemma finishProviderEvent_frame [simp]:
  "wallets (finishProviderEvent ev e s) = wallets s" "ledger (finishProviderEvent ev e s) = ledger s"
  "deposits (finishProviderEvent ev e s) = deposits s"
  by (simp_all add: finishProviderEvent_def)

lemma credit_event_cases:
  assumes "credit_event ev cb s = (res, s')"
  shows "(\<exists>e x. res = Inl e \<and> s' = finishProviderEvent ev x s)
     \<or> (\<exists>r t i. res = Inr (r, True) \<and> CreditDeposit i s = Inr (r, t) \<and> di_event i = ev \<and> di_tx i = pd_tx cb
          \<and> di_amount i \<le> max_int64 \<and> s' = finishProviderEvent ev None t)"
proof (cases "deposit_asset s (pd_chain_token cb)")
  case None
  then show ?thesis using assms by (auto simp: credit_event_def)
next
  case (Some ac)
  show ?thesis
  proof (cases "parsePlatformDeposit (pd_amount cb) (as_decimals (fst ac)) (c_decimals (snd ac))")
    case (Inl e)
    then show ?thesis using assms Some by (auto simp: credit_event_def)
  next
    case (Inr m)
    let ?i = "webhook_input ev cb ac m"
    have m: "0 < m" "m \<le> max_int64" using parsePlatformDeposit_range [OF Inr] by auto
    have i: "di_event ?i = ev" "di_tx ?i = pd_tx cb" "di_amount ?i = m" by (simp_all add: webhook_input_def)
    show ?thesis
    proof (cases "CreditDeposit ?i s")
      case (Inl e)
      then show ?thesis using assms Some Inr m by (auto simp: credit_event_def)
    next
      case (Inr x)
      obtain r t where x: "x = (r, t)" by force
      have "res = Inr (r, True)" "s' = finishProviderEvent ev None t"
        using assms Some \<open>parsePlatformDeposit _ _ _ = Inr m\<close> m Inr x by (auto simp: credit_event_def)
      moreover have "CreditDeposit ?i s = Inr (r, t)" using Inr x by simp
      ultimately show ?thesis using i m(2) by (intro disjI2 exI [of _ r] exI [of _ t] exI [of _ ?i]) simp
    qed
  qed
qed

lemma beginProviderEvent_Inr:
  assumes "beginProviderEvent ev ty s = Inr (b, s')"
  shows "wallets s' = wallets s \<and> ledger s' = ledger s \<and> deposits s' = deposits s"
  using assms by (auto simp: beginProviderEvent_def new_uuid_def Let_def split: option.splits if_splits)

definition event_of :: "PQPADepositWebhook \<Rightarrow> string" where
  "event_of cb = ''recharge:'' @ format_int (pd_id cb)"

lemma CreditPQPADeposit_cases:
  assumes "CreditPQPADeposit cb s = (res, s')" "books_ok s"
  shows "(wallets s' = wallets s \<and> ledger s' = ledger s \<and> deposits s' = deposits s \<and> (\<forall>r. res = Inr (r, True) \<longrightarrow> \<not> dr_credited r))
     \<or> (\<exists>r t i t'. res = Inr (r, True) \<and> books_ok t \<and> deposits t = deposits s \<and> CreditDeposit i t = Inr (r, t') \<and> dr_credited r
          \<and> di_event i = event_of cb \<and> di_tx i = pd_tx cb \<and> di_amount i \<le> max_int64 \<and> s' = finishProviderEvent (event_of cb) None t')"
proof -
  consider "s' = s" "\<forall>r. res \<noteq> Inr (r, True)"
    | t where "beginProviderEvent (event_of cb) ''recharge'' s = Inr (True, t)" "s' = t" "res = Inr (no_result, False)"
    | t where "beginProviderEvent (event_of cb) ''recharge'' s = Inr (False, t)" "credit_event (event_of cb) cb t = (res, s')"
    using assms(1) by (auto simp: CreditPQPADeposit_def event_of_def Let_def split: if_splits sum.splits)
  then show ?thesis
  proof cases
    case 3
    note b = beginProviderEvent_Inr [OF 3(1)]
    have bt: "books_ok t" using books_ok_cong [OF assms(2)] b by blast
    from credit_event_cases [OF 3(2)] show ?thesis
    proof (elim disjE exE conjE)
      fix r t' i
      assume c: "res = Inr (r, True)" "CreditDeposit i t = Inr (r, t')" "di_event i = event_of cb" "di_tx i = pd_tx cb"
        "di_amount i \<le> max_int64" "s' = finishProviderEvent (event_of cb) None t'"
      show ?thesis
      proof (cases "dr_credited r")
        case True
        then show ?thesis using c bt b by blast
      next
        case False
        then show ?thesis using CreditDeposit_Inr [OF bt c(2,5)] c(1,6) b by auto
      qed
    qed (use b in auto)
  qed (use beginProviderEvent_Inr in auto)
qed

section \<open>Addresses\<close>

definition addresses_ok :: "db \<Rightarrow> bool" where
  "addresses_ok s \<longleftrightarrow> distinct (map (\<lambda>a. (ca_chain a, ca_token a, ca_address a)) (chain_addresses s))"

definition owner :: "db \<Rightarrow> string \<Rightarrow> string \<Rightarrow> string \<Rightarrow> string option" where
  "owner s ch tk ad = map_option ca_user (lookup (\<lambda>a. ca_chain a = ch \<and> ca_token a = tk \<and> ca_address a = ad) (chain_addresses s))"

lemma owner_mem:
  assumes "addresses_ok s" "a \<in> set (chain_addresses s)"
  shows "owner s (ca_chain a) (ca_token a) (ca_address a) = Some (ca_user a)"
proof -
  have "lookup (\<lambda>x. (ca_chain x, ca_token x, ca_address x) = (ca_chain a, ca_token a, ca_address a)) (chain_addresses s) = Some a"
    using lookup_key_unique [of "\<lambda>a. (ca_chain a, ca_token a, ca_address a)"] assms by (simp add: addresses_ok_def)
  then show ?thesis by (simp add: owner_def)
qed

lemma upsert_address_Inr:
  assumes "addresses_ok s" "upsert_address a s = Inr (b, s')"
  shows "addresses_ok s' \<and> b \<in> set (chain_addresses s') \<and> ca_user b = ca_user a \<and> same_address a b
       \<and> (\<forall>ch tk ad. (ch, tk, ad) \<noteq> (ca_chain a, ca_token a, ca_address a) \<longrightarrow> owner s' ch tk ad = owner s ch tk ad)"
proof (cases "lookup (same_address a) (chain_addresses s)")
  case None
  then have s': "s' = s\<lparr>chain_addresses := chain_addresses s @ [a]\<rparr>" "b = a"
    using assms(2) by (auto simp: upsert_address_def split: if_splits)
  then show ?thesis
    using assms(1) None by (auto simp: addresses_ok_def lookup_None_iff same_address_def owner_def lookup_append split: option.splits)
next
  case (Some x)
  then have s': "s' = s\<lparr>chain_addresses := modify (same_address a) (\<lambda>b. b\<lparr>ca_user := ca_user a\<rparr>) (chain_addresses s)\<rparr>"
    "b = x\<lparr>ca_user := ca_user a\<rparr>"
    using assms(2) by (auto simp: upsert_address_def split: if_splits)
  have x: "x \<in> set (chain_addresses s)" "same_address a x" using lookup_SomeD [OF Some] by auto
  have d: "addresses_ok s'" using assms(1) by (simp add: addresses_ok_def s' map_modify_inv)
  have "owner s' ch tk ad = owner s ch tk ad" if n: "(ch, tk, ad) \<noteq> (ca_chain a, ca_token a, ca_address a)" for ch tk ad
    using n by (auto simp: owner_def s' lookup_modify_pres same_address_def option.map_comp comp_def
        intro!: option.map_cong dest!: lookup_SomeD)
  then show ?thesis using d x by (auto simp: s' set_modify same_address_def)
qed

lemma CreateDepositAddress_Inr:
  assumes "CreateDepositAddress p u ch tk s = Inr (a, s')"
  shows "(s' = s \<and> GetDepositAddress s u ch tk = Some a) \<or>
    (\<exists>b. ca_user b = u \<and> ca_chain b = ch \<and> ca_token b = tk \<and> upsert_address b (s\<lparr>next_uuid := Suc (next_uuid s)\<rparr>) = Inr (a, s'))"
  using assms by (fastforce simp: CreateDepositAddress_def new_uuid_def Let_def bindE_eq_Inr split: if_splits option.splits prod.splits)

section \<open>Properties\<close>

definition sample_deposit_db :: db where
  "sample_deposit_db = sample_db\<lparr>
     chain_addresses := [\<lparr>ca_id = ''ad1'', ca_user = ''bob'', ca_chain = ''TRON'', ca_token = ''JADE'', ca_address = ''Tbob'',
       ca_provider = Some ''p1'', ca_memo = None\<rparr>],
     assets := [\<lparr>as_chain = ''TRON'', as_token = ''JADE'', as_decimals = 6, as_enabled = True, as_deposit = True, as_withdraw = True,
       as_chain_token = Some 7\<rparr>]\<rparr>"

definition sample_deposit :: DepositInput where
  "sample_deposit = \<lparr>di_event = ''recharge:1'', di_tx = ''0xaa'', di_chain = ''TRON'', di_token = ''JADE'', di_address = ''Tbob'',
     di_amount = 150, di_provider_amount = ''1.5'', di_chain_decimals = Some 6, di_platform_decimals = Some 2\<rparr>"

lemma sample_deposit_books: "books_ok sample_deposit_db"
  using books_ok_cong [OF sample_books_ok] by (simp add: sample_deposit_db_def)

text \<open>C5: A deposit is credited at most once, to the user its address was issued to. A delivery that credits finds the address in the
  table of issued addresses, adds exactly its amount in its token to the balance of that address's owner (creating the wallet when
  needed, never past the range of \<^verbatim>\<open>int64\<close>) and to no other, with one ledger entry of that amount for that deposit, and keeps the
  books; any later delivery with the same event id or the same transaction hash changes neither wallets, ledger nor deposits, and
  answers with the first deposit when both agree.\<close>

theorem deposit_credited_once:
  assumes "books_ok s" "di_amount i \<le> max_int64" "CreditDeposit i s = Inr (r, s')" "dr_credited r"
    and "CreditDeposit j s' = Inr (r', s'')" "di_amount j \<le> max_int64" "di_event j = di_event i \<or> di_tx j = di_tx i"
  shows "(\<exists>a. lookup (\<lambda>a. ca_chain a = di_chain i \<and> ca_token a = di_token i \<and> ca_address a = di_address i) (chain_addresses s) = Some a
            \<and> balance_of s' (ca_user a) (di_token i) = balance_of s (ca_user a) (di_token i) + di_amount i
            \<and> balance_of s' (ca_user a) (di_token i) \<le> max_int64
            \<and> (\<forall>u' c'. (u', c') \<noteq> (ca_user a, di_token i) \<longrightarrow> balance_of s' u' c' = balance_of s u' c')
            \<and> deposits s' = deposits s @ [deposit_of i (dr_id r) a (clock s)])
       \<and> (\<exists>e. ledger s' = ledger s @ [e] \<and> l_btype e = ''deposit'' \<and> l_bid e = dr_id r \<and> l_amount e = di_amount i)
       \<and> books_ok s'
       \<and> \<not> dr_credited r' \<and> wallets s'' = wallets s' \<and> ledger s'' = ledger s' \<and> deposits s'' = deposits s'
       \<and> (di_event j = di_event i \<and> di_tx j = di_tx i \<longrightarrow> dr_id r' = dr_id r)"
proof -
  obtain a d where nd: "\<not> delivered s i" and b: "books_ok s'" and d: "d = deposit_of i (dr_id r) a (clock s)" "deposits s' = deposits s @ [d]"
    and a: "lookup (\<lambda>a. ca_chain a = di_chain i \<and> ca_token a = di_token i \<and> ca_address a = di_address i) (chain_addresses s) = Some a"
    and bal: "balance_of s' (ca_user a) (di_token i) = balance_of s (ca_user a) (di_token i) + di_amount i"
      "\<forall>u' c'. (u', c') \<noteq> (ca_user a, di_token i) \<longrightarrow> balance_of s' u' c' = balance_of s u' c'"
    and l: "\<exists>e. ledger s' = ledger s @ [e] \<and> l_btype e = ''deposit'' \<and> l_bid e = dr_id r \<and> l_amount e = di_amount i"
    using CreditDeposit_Inr [OF assms(1,3,2)] assms(4) by auto
  have "balance_of s' u c \<le> max_int64" for u c
    using wallet_of_range [OF books_ok_wallets_ok [OF b]]
    by (force simp: balance_of_def in_range_def max_int64_def split: option.splits)
  then have u: "\<exists>a. lookup (\<lambda>a. ca_chain a = di_chain i \<and> ca_token a = di_token i \<and> ca_address a = di_address i) (chain_addresses s) = Some a
            \<and> balance_of s' (ca_user a) (di_token i) = balance_of s (ca_user a) (di_token i) + di_amount i
            \<and> balance_of s' (ca_user a) (di_token i) \<le> max_int64
            \<and> (\<forall>u' c'. (u', c') \<noteq> (ca_user a, di_token i) \<longrightarrow> balance_of s' u' c' = balance_of s u' c')
            \<and> deposits s' = deposits s @ [deposit_of i (dr_id r) a (clock s)]"
    using a bal d by blast
  have dd: "delivered s' j" using assms(7) d by (auto simp: delivered_def deposit_of_def)
  then have nc: "\<not> dr_credited r'" and s2: "s'' = s'\<lparr>next_uuid := Suc (next_uuid s')\<rparr>"
    and x: "\<exists>d. lookup (\<lambda>d. dp_event d = di_event j \<or> dp_tx d = di_tx j) (deposits s') = Some d \<and> dr_id r' = dp_id d"
    using CreditDeposit_Inr [OF b assms(5,6)] by auto
  have "dr_id r' = dr_id r" if "di_event j = di_event i \<and> di_tx j = di_tx i"
    using x that nd d by (auto simp: delivered_lookup lookup_append deposit_of_def)
  moreover have "wallets s'' = wallets s' \<and> ledger s'' = ledger s' \<and> deposits s'' = deposits s'" by (simp add: s2)
  ultimately show ?thesis using u b nc l by blast
qed

theorem deposit_credited_once_witness:
  "\<exists>r s' r' s''. CreditDeposit sample_deposit sample_deposit_db = Inr (r, s') \<and> balance_of s' ''bob'' ''JADE'' = 150
     \<and> CreditDeposit (sample_deposit\<lparr>di_event := ''recharge:2''\<rparr>) s' = Inr (r', s'') \<and> \<not> dr_credited r' \<and> wallets s'' = wallets s'"
proof -
  have "case CreditDeposit sample_deposit sample_deposit_db of Inl e \<Rightarrow> False | Inr x \<Rightarrow> dr_credited (fst x)
      \<and> balance_of (snd x) ''bob'' ''JADE'' = 150
      \<and> (case CreditDeposit (sample_deposit\<lparr>di_event := ''recharge:2''\<rparr>) (snd x) of Inl e \<Rightarrow> False | Inr y \<Rightarrow> True)" by code_simp
  then obtain r s' r' s'' where c: "CreditDeposit sample_deposit sample_deposit_db = Inr (r, s')" "dr_credited r"
    "CreditDeposit (sample_deposit\<lparr>di_event := ''recharge:2''\<rparr>) s' = Inr (r', s'')" and b: "balance_of s' ''bob'' ''JADE'' = 150"
    by (auto split: sum.splits)
  have m: "di_amount sample_deposit \<le> max_int64" "di_amount (sample_deposit\<lparr>di_event := ''recharge:2''\<rparr>) \<le> max_int64"
    "di_event (sample_deposit\<lparr>di_event := ''recharge:2''\<rparr>) = di_event sample_deposit \<or> di_tx (sample_deposit\<lparr>di_event := ''recharge:2''\<rparr>) = di_tx sample_deposit"
    by (simp_all add: sample_deposit_def max_int64_def)
  have "\<not> dr_credited r' \<and> wallets s'' = wallets s'"
    using deposit_credited_once [OF sample_deposit_books m(1) c(1,2,3) m(2,3)] by blast
  then show ?thesis using c(1,3) b by (intro exI [of _ r] exI [of _ s'] exI [of _ r'] exI [of _ s'']) simp
qed

text \<open>gateway callbacks may be repeated: once a callback has credited a deposit, any further callback with the
  same gateway id or the same transaction hash, whatever else it carries, moves no money and adds no deposit; a callback
  never breaks the books, also when it fails half way.\<close>

theorem deposit_callback_repeat:
  assumes "books_ok s" "CreditPQPADeposit cb s = (Inr (r, True), s')" "dr_credited r"
    and "pd_id cb' = pd_id cb \<or> pd_tx cb' = pd_tx cb" "CreditPQPADeposit cb' s' = (res, s'')"
  shows "wallets s'' = wallets s' \<and> ledger s'' = ledger s' \<and> deposits s'' = deposits s'
       \<and> (\<forall>r'. res = Inr (r', True) \<longrightarrow> \<not> dr_credited r') \<and> books_ok s' \<and> books_ok s''"
proof -
  obtain t i t' where t: "books_ok t" "CreditDeposit i t = Inr (r, t')" "di_event i = event_of cb" "di_tx i = pd_tx cb"
    "di_amount i \<le> max_int64" and s': "s' = finishProviderEvent (event_of cb) None t'"
    using CreditPQPADeposit_cases [OF assms(2,1)] assms(3) by blast
  obtain a where b': "books_ok t'" and d': "deposits t' = deposits t @ [deposit_of i (dr_id r) a (clock t)]"
    using CreditDeposit_Inr [OF t(1,2,5)] assms(3) by auto
  have b: "books_ok s'" using books_ok_cong [OF b'] by (simp add: s')
  have no: False if "books_ok q" "deposits q = deposits s'" "CreditDeposit j q = Inr (r', q')" "dr_credited r'" "di_event j = event_of cb'"
    "di_tx j = pd_tx cb'" "di_amount j \<le> max_int64" for q j r' q'
  proof -
    have "event_of cb' = event_of cb \<or> pd_tx cb' = pd_tx cb" using assms(4) by (auto simp: event_of_def)
    then have "delivered q j" using that(2,5,6) d' t(3,4) by (auto simp: delivered_def s' deposit_of_def)
    then show False using CreditDeposit_Inr [OF that(1,3,7)] that(4) by auto
  qed
  have k: "wallets s'' = wallets s' \<and> ledger s'' = ledger s' \<and> deposits s'' = deposits s' \<and> (\<forall>r'. res = Inr (r', True) \<longrightarrow> \<not> dr_credited r')"
    using CreditPQPADeposit_cases [OF assms(5) b] no by blast
  then show ?thesis using b books_ok_cong [OF b] by blast
qed

definition sample_callback :: PQPADepositWebhook where
  "sample_callback = \<lparr>pd_event = ''recharge'', pd_id = 1, pd_chain_token = 7, pd_address = ''Tbob'', pd_amount = ''1.5'', pd_tx = ''0xaa'', pd_status = ''SETTLED''\<rparr>"

theorem deposit_callback_repeat_witness:
  "\<exists>r s'. CreditPQPADeposit sample_callback sample_deposit_db = (Inr (r, True), s') \<and> balance_of s' ''bob'' ''JADE'' = 150
     \<and> wallets (snd (CreditPQPADeposit (sample_callback\<lparr>pd_id := 2\<rparr>) s')) = wallets s'"
proof -
  have "case fst (CreditPQPADeposit sample_callback sample_deposit_db) of Inl e \<Rightarrow> False | Inr (r, b) \<Rightarrow> b \<and> dr_credited r" by code_simp
  then obtain r where r: "fst (CreditPQPADeposit sample_callback sample_deposit_db) = Inr (r, True)" "dr_credited r" by (auto split: sum.splits)
  have bal: "balance_of (snd (CreditPQPADeposit sample_callback sample_deposit_db)) ''bob'' ''JADE'' = 150" by code_simp
  define s' where "s' = snd (CreditPQPADeposit sample_callback sample_deposit_db)"
  have c: "CreditPQPADeposit sample_callback sample_deposit_db = (Inr (r, True), s')" using r(1) by (simp add: s'_def prod_eq_iff)
  have "wallets (snd (CreditPQPADeposit (sample_callback\<lparr>pd_id := 2\<rparr>) s')) = wallets s'"
    by (rule deposit_callback_repeat [OF sample_deposit_books c r(2) _ prod.collapse [symmetric], THEN conjunct1]) simp
  with c bal [folded s'_def] show ?thesis by (intro exI conjI)
qed

text \<open>After a user has been given a deposit address, the user owns it: deposits to it are credited to that
  user. No other address changes hands, and a chain, token and address never stand twice in the
  table. (An address the gateway hands out again moves to the last user it was created for.)\<close>

theorem deposit_address_owner:
  assumes "addresses_ok s" "CreateDepositAddress provider userID ch tk s = Inr (a, s')"
  shows "addresses_ok s' \<and> owner s' ch tk (ca_address a) = Some userID
       \<and> (\<forall>ch' tk' ad. (ch', tk', ad) \<noteq> (ch, tk, ca_address a) \<longrightarrow> owner s' ch' tk' ad = owner s ch' tk' ad)"
  using CreateDepositAddress_Inr [OF assms(2)]
proof (elim disjE exE conjE)
  assume g: "s' = s" "GetDepositAddress s userID ch tk = Some a"
  have "a \<in> set (chain_addresses s) \<and> ca_user a = userID \<and> ca_chain a = ch \<and> ca_token a = tk"
    using g(2) by (auto simp: GetDepositAddress_def dest: lookup_SomeD)
  then show ?thesis using owner_mem [OF assms(1), of a] assms(1) g(1) by auto
next
  fix b assume b: "ca_user b = userID" "ca_chain b = ch" "ca_token b = tk"
    and u: "upsert_address b (s\<lparr>next_uuid := Suc (next_uuid s)\<rparr>) = Inr (a, s')"
  have ok: "addresses_ok (s\<lparr>next_uuid := Suc (next_uuid s)\<rparr>)" using assms(1) by (simp add: addresses_ok_def)
  have ow: "owner (s\<lparr>next_uuid := Suc (next_uuid s)\<rparr>) = owner s" by (simp add: owner_def fun_eq_iff)
  note k = upsert_address_Inr [OF ok u, unfolded ow]
  then have sa: "ca_chain a = ch" "ca_token a = tk" "ca_address a = ca_address b" "ca_user a = userID"
    using b by (auto simp: same_address_def)
  have "owner s' ch tk (ca_address a) = Some userID" using owner_mem [of s' a] k sa by auto
  then show ?thesis using k sa b by auto
qed

theorem deposit_address_owner_witness:
  "\<exists>a s'. CreateDepositAddress (Some (\<lambda>u c t. Inr (''p2'', ''Talice'', []))) ''alice'' ''TRON'' ''JADE'' sample_deposit_db = Inr (a, s')
     \<and> owner s' ''TRON'' ''JADE'' ''Talice'' = Some ''alice'' \<and> owner s' ''TRON'' ''JADE'' ''Tbob'' = Some ''bob''"
proof -
  let ?p = "Some (\<lambda>u c t. Inr (''p2'', ''Talice'', []))"
  have "case CreateDepositAddress ?p ''alice'' ''TRON'' ''JADE'' sample_deposit_db of Inl e \<Rightarrow> False | Inr x \<Rightarrow> ca_address (fst x) = ''Talice''" by code_simp
  then obtain a s' where c: "CreateDepositAddress ?p ''alice'' ''TRON'' ''JADE'' sample_deposit_db = Inr (a, s')" "ca_address a = ''Talice''"
    by (auto split: sum.splits)
  have ok: "addresses_ok sample_deposit_db" by (simp add: addresses_ok_def sample_deposit_db_def)
  have "owner sample_deposit_db ''TRON'' ''JADE'' ''Tbob'' = Some ''bob''" by code_simp
  then have "owner s' ''TRON'' ''JADE'' ''Talice'' = Some ''alice''" "owner s' ''TRON'' ''JADE'' ''Tbob'' = Some ''bob''"
    using deposit_address_owner [OF ok c(1)] c(2) by auto
  with c(1) show ?thesis by (intro exI conjI)
qed

end
