(* ===== verification/Chain_Withdrawal.thy ===== *)
theory Chain_Withdrawal
  imports Chain_Deposit Wallet_Repo
begin

text \<open>
  Withdrawals: \<^verbatim>\<open>internal/application/chain\<close> (\<^verbatim>\<open>withdrawal_policy.go\<close>, \<^verbatim>\<open>withdrawal_model.go\<close>,
  \<^verbatim>\<open>withdrawal_query.go\<close>, \<^verbatim>\<open>withdrawal_request.go\<close>, \<^verbatim>\<open>withdrawal_review.go\<close>, \<^verbatim>\<open>withdrawal_dispatch.go\<close>,
  \<^verbatim>\<open>withdrawal_status.go\<close>, \<^verbatim>\<open>reconcile.go\<close> and the withdrawal half of \<^verbatim>\<open>pqpa_webhook.go\<close>). A request
  moves money from the available to the frozen balance; the back office approves or rejects it, the
  dispatcher hands it to the gateway, and the gateway's final status consumes or releases the frozen
  money. The gateway is a parameter. Its call lies between two transactions of the dispatcher, which
  are modelled apart. Address text is ASCII; \<open>clock\<close> counts microseconds.
\<close>

section \<open>withdrawal_policy.go\<close>

record WithdrawalPolicy =
  MinimumMinor :: int
  MaximumMinor :: int
  DailyLimitMinor :: int

definition Validate :: "WithdrawalPolicy \<Rightarrow> error + unit" where
  "Validate p =
     (if MinimumMinor p < 0 \<or> MaximumMinor p < 0 \<or> DailyLimitMinor p < 0 then Inl (Chain PolicyNegative)
      else if MaximumMinor p > 0 \<and> MinimumMinor p > MaximumMinor p then Inl (Chain PolicyMinimumAboveMaximum)
      else if DailyLimitMinor p > 0 \<and> MinimumMinor p > DailyLimitMinor p then Inl (Chain PolicyMinimumAboveDaily)
      else Inr ())"

definition validateAmount :: "WithdrawalPolicy \<Rightarrow> int \<Rightarrow> error + unit" where
  "validateAmount p amount =
     (if MinimumMinor p > 0 \<and> amount < MinimumMinor p then Inl (Chain ErrWithdrawalBelowMinimum)
      else if MaximumMinor p > 0 \<and> amount > MaximumMinor p then Inl (Chain ErrWithdrawalAboveMaximum)
      else Inr ())"

definition is_control :: "char \<Rightarrow> bool" where
  "is_control c \<longleftrightarrow> code c < 32 \<or> code c = 127"

definition containsSpaceOrControl :: "string \<Rightarrow> bool" where
  "containsSpaceOrControl v \<longleftrightarrow> list_ex (\<lambda>c. is_space c \<or> is_control c) v"

definition containsControl :: "string \<Rightarrow> bool" where
  "containsControl v \<longleftrightarrow> list_ex is_control v"

definition allInAlphabet :: "string \<Rightarrow> string \<Rightarrow> bool" where
  "allInAlphabet v alphabet \<longleftrightarrow> list_all (\<lambda>c. c \<in> set alphabet) v"

definition isEVMChain :: "string \<Rightarrow> bool" where
  "isEVMChain chain \<longleftrightarrow> chain \<in> set [''ETH'', ''ETHEREUM'', ''BSC'', ''BNB'', ''POLYGON'', ''ARBITRUM'', ''OPTIMISM'', ''BASE'', ''AVALANCHE'']"

definition base58 :: string where
  "base58 = ''123456789ABCDEFGHJKLMNPQRSTUVWXYZabcdefghijkmnopqrstuvwxyz''"

definition hex_digits :: string where
  "hex_digits = ''0123456789abcdefABCDEF''"

definition validateWithdrawalDestination :: "string \<Rightarrow> string \<Rightarrow> string \<Rightarrow> error + unit" where
  "validateWithdrawalDestination chainCode address memo =
     (let address = trim_space address; chain = to_upper (trim_space chainCode) in
      if length address < 8 \<or> length address > 256 \<or> containsSpaceOrControl address then Inl (Chain ErrInvalidWithdrawalAddress)
      else if length memo > 256 \<or> containsControl memo then Inl (Chain ErrInvalidWithdrawalAddress)
      else if chain = ''TRON''
      then if length address \<noteq> 34 \<or> address ! 0 \<noteq> CHR ''T'' \<or> \<not> allInAlphabet address base58
           then Inl (Chain ErrInvalidWithdrawalAddress) else Inr ()
      else if isEVMChain chain
      then if length address \<noteq> 42 \<or> take 2 address \<noteq> ''0x'' \<or> \<not> allInAlphabet (drop 2 address) hex_digits
           then Inl (Chain ErrInvalidWithdrawalAddress) else Inr ()
      else Inr ())"

section \<open>withdrawal_model.go, withdrawal_query.go\<close>

record Withdrawal =
  WithdrawalID :: string
  wv_user :: string
  wv_request :: string
  wv_destination :: string
  wv_memo :: string
  wv_chain :: string
  wv_currency :: string
  wv_amount :: int
  wv_status :: withdrawal_status
  wv_created :: int
  wv_order :: string
  wv_tx :: string
  wv_reason :: string

definition coalesce :: "string option \<Rightarrow> string" where
  "coalesce v = (case v of None \<Rightarrow> [] | Some x \<Rightarrow> x)"

definition scanWithdrawal :: "withdrawal_row \<Rightarrow> wallet_row \<Rightarrow> Withdrawal" where
  "scanWithdrawal r w =
     \<lparr>WithdrawalID = wd_id r, wv_user = wd_user r, wv_request = wd_request r, wv_destination = wd_destination r,
      wv_memo = coalesce (wd_memo r), wv_chain = coalesce (wd_chain r), wv_currency = w_currency w, wv_amount = wd_amount r,
      wv_status = wd_status r, wv_created = wd_created r, wv_order = coalesce (wd_order r), wv_tx = coalesce (wd_tx r),
      wv_reason = coalesce (wd_reason r)\<rparr>"

text \<open>A query on \<^verbatim>\<open>withdrawals JOIN wallets\<close> that returns one row.\<close>

definition withdrawal_where :: "(withdrawal_row \<Rightarrow> bool) \<Rightarrow> db \<Rightarrow> Withdrawal option" where
  "withdrawal_where P s =
     (case lookup P (withdrawals s) of
        None \<Rightarrow> None
      | Some r \<Rightarrow> map_option (scanWithdrawal r) (wallet_by_id s (wd_wallet r)))"

definition findWithdrawalByRequestID :: "db \<Rightarrow> string \<Rightarrow> string \<Rightarrow> Withdrawal option" where
  "findWithdrawalByRequestID s userID requestID = withdrawal_where (\<lambda>r. wd_user r = userID \<and> wd_request r = requestID) s"

definition findWithdrawalForUpdate :: "db \<Rightarrow> string \<Rightarrow> Withdrawal option" where
  "findWithdrawalForUpdate s i = withdrawal_where (\<lambda>r. wd_id r = i) s"

definition FindWithdrawal :: "db \<Rightarrow> string \<Rightarrow> error + Withdrawal" where
  "FindWithdrawal s i = orErr (Chain ErrWithdrawalNotFound) (withdrawal_where (\<lambda>r. wd_id r = i) s)"

definition list_withdrawals :: "(withdrawal_row \<Rightarrow> bool) \<Rightarrow> int \<Rightarrow> db \<Rightarrow> Withdrawal list" where
  "list_withdrawals P limit s =
     (let limit = (if limit \<le> 0 \<or> limit > 100 then 50 else limit) in
      take (nat limit) (List.map_filter (\<lambda>r. map_option (scanWithdrawal r) (wallet_by_id s (wd_wallet r)))
        (sort_key (\<lambda>r. - wd_created r) (filter P (withdrawals s)))))"

definition ListWithdrawals :: "withdrawal_status option \<Rightarrow> int \<Rightarrow> db \<Rightarrow> Withdrawal list" where
  "ListWithdrawals status limit s = list_withdrawals (\<lambda>r. case status of None \<Rightarrow> True | Some x \<Rightarrow> wd_status r = x) limit s"

definition ListUserWithdrawals :: "string \<Rightarrow> int \<Rightarrow> db \<Rightarrow> Withdrawal list" where
  "ListUserWithdrawals userID limit s = list_withdrawals (\<lambda>r. wd_user r = userID) limit s"

section \<open>withdrawal_request.go\<close>

record WithdrawalInput =
  wi_user :: string
  wi_request :: string
  wi_destination :: string
  wi_memo :: string
  wi_chain :: string
  wi_currency :: string
  wi_amount :: int

definition normalize_withdrawal :: "WithdrawalInput \<Rightarrow> WithdrawalInput" where
  "normalize_withdrawal i = i\<lparr>wi_chain := to_upper (trim_space (wi_chain i)), wi_currency := to_upper (trim_space (wi_currency i)),
     wi_destination := trim_space (wi_destination i), wi_memo := trim_space (wi_memo i)\<rparr>"

text \<open>\<^verbatim>\<open>for range n { scale *= 10 }\<close>.\<close>

fun scale_loop :: "nat \<Rightarrow> int" where
  "scale_loop 0 = 1"
| "scale_loop (Suc n) = wrap64 (scale_loop n * 10)"

text \<open>The checks that read the database before any money is looked at: the asset, the platform's decimals
  and the policy.\<close>

definition request_asset :: "WithdrawalPolicy \<Rightarrow> WithdrawalInput \<Rightarrow> db \<Rightarrow> error + (int \<times> int \<times> int)" where
  "request_asset policy i s =
     bindE (orErr (DB NoRows) (user_by_id s (wi_user i))) (\<lambda>u.
     if u_virtual u then Inl (Chain ErrVirtualAccountWithdrawal)
     else bindE (orErr (Chain ErrUnsupportedAsset) (lookup (\<lambda>a. as_chain a = wi_chain i \<and> as_token a = wi_currency i
                   \<and> as_enabled a \<and> as_withdraw a \<and> as_chain_token a \<noteq> None) (assets s))) (\<lambda>a.
     case ResolveDecimals s (wi_currency i) True of
       Inl e \<Rightarrow> Inl (if e = Wallet ErrUnknownCurrency \<or> e = Wallet ErrCurrencyDisabled then Chain ErrUnsupportedAsset else e)
     | Inr platform \<Rightarrow>
         if as_decimals a < platform \<and> go_mod (wi_amount i) (scale_loop (nat (platform - as_decimals a))) \<noteq> 0
         then Inl (Chain ChainInvalidAmount)
         else bindE (validateAmount policy (wi_amount i)) (\<lambda>_. Inr (the (as_chain_token a), as_decimals a, platform))))"

definition day :: int where
  "day = 86400000000"

text \<open>What counts against the daily limit: the user's requests in the currency since midnight UTC that have not
  failed. PostgreSQL sums exactly; a sum beyond \<^verbatim>\<open>int64\<close> cannot be scanned.\<close>

definition counts_today :: "string \<Rightarrow> string \<Rightarrow> int \<Rightarrow> withdrawal_row \<Rightarrow> bool" where
  "counts_today userID currency now r \<longleftrightarrow> wd_user r = userID \<and> wd_token r = Some currency \<and> wd_created r \<ge> now - now mod day
     \<and> wd_status r \<in> {WRequested, WApproved, WBroadcasted, WConfirmed}"

definition withdrawn_today :: "string \<Rightarrow> string \<Rightarrow> db \<Rightarrow> int" where
  "withdrawn_today userID currency s = sum_list (map wd_amount (filter (counts_today userID currency (clock s)) (withdrawals s)))"

definition check_daily :: "WithdrawalPolicy \<Rightarrow> WithdrawalInput \<Rightarrow> db \<Rightarrow> error + unit" where
  "check_daily policy i s =
     (if DailyLimitMinor policy > 0
      then let today = withdrawn_today (wi_user i) (wi_currency i) s in
           if today > max_int64 then Inl (DB OutOfRange)
           else if today > DailyLimitMinor policy - wi_amount i then Inl (Chain ErrWithdrawalDailyLimit)
           else Inr ()
      else Inr ())"

definition insert_withdrawal :: "withdrawal_row \<Rightarrow> db \<Rightarrow> error + db" where
  "insert_withdrawal r s =
     (if wd_amount r \<le> 0 \<or> \<not> decimals_check (wd_token_decimals r) \<or> \<not> decimals_check (wd_platform_decimals r) then Inl (DB Check)
      else if lookup (\<lambda>x. wd_id x = wd_id r \<or> (wd_user x = wd_user r \<and> wd_request x = wd_request r)) (withdrawals s) \<noteq> None
      then Inl (DB Unique)
      else if user_by_id s (wd_user r) = None \<or> wallet_by_id s (wd_wallet r) = None then Inl (DB ForeignKey)
      else Inr (s\<lparr>withdrawals := withdrawals s @ [r]\<rparr>))"

definition request_row :: "WithdrawalInput \<Rightarrow> string \<Rightarrow> string \<Rightarrow> int \<times> int \<times> int \<Rightarrow> int \<Rightarrow> withdrawal_row" where
  "request_row i wid walletID asset now =
     \<lparr>wd_id = wid, wd_user = wi_user i, wd_wallet = walletID, wd_request = wi_request i, wd_destination = wi_destination i,
      wd_memo = (if wi_memo i = [] then None else Some (wi_memo i)), wd_chain = Some (wi_chain i), wd_token = Some (wi_currency i),
      wd_chain_token = Some (fst asset), wd_token_decimals = Some (fst (snd asset)), wd_platform_decimals = Some (snd (snd asset)),
      wd_amount = wi_amount i, wd_status = WRequested, wd_order = None, wd_tx = None, wd_fee = None, wd_reviewer = None,
      wd_reason = None, wd_created = now\<rparr>"

definition request_writes :: "WithdrawalInput \<Rightarrow> wallet_row \<Rightarrow> int \<times> int \<times> int \<Rightarrow> Withdrawal tx" where
  "request_writes i w asset s =
     (let available = w_available w - wi_amount i; frozen = wrap64 (w_frozen w + wi_amount i) in
      bindE (set_balances (w_id w) available frozen s) (\<lambda>s.
      let wid = fst (new_uuid s); s = snd (new_uuid s); row = request_row i wid (w_id w) asset (clock s) in
      bindE (insert_withdrawal row s) (\<lambda>s.
      bindE (insert_ledger_frozen (w_id w) ''withdrawal'' wid ''withdrawal_freeze'' (- wi_amount i) available (- wi_amount i) (wi_amount i) s) (\<lambda>s.
      bindE (insert_outbox ''withdrawal'' wid ''wallet.withdrawal.requested''
               (PObj [(''withdrawal_id'', PStr wid), (''user_id'', PStr (wi_user i)), (''currency'', PStr (wi_currency i))]) s) (\<lambda>s.
      Inr (scanWithdrawal row w, s))))))"

definition RequestWithdrawal :: "WithdrawalPolicy \<Rightarrow> WithdrawalInput \<Rightarrow> Withdrawal tx" where
  "RequestWithdrawal policy input s =
     (let i = normalize_withdrawal input in
      if wi_user i = [] \<or> wi_request i = [] \<or> wi_destination i = [] \<or> wi_chain i = [] \<or> wi_currency i = []
      then Inl (Chain ErrMissingFields)
      else if wi_amount i \<le> 0 then Inl (Chain ChainInvalidAmount)
      else bindE (validateWithdrawalDestination (wi_chain i) (wi_destination i) (wi_memo i)) (\<lambda>_.
      case findWithdrawalByRequestID s (wi_user i) (wi_request i) of
        Some existing \<Rightarrow> Inr (existing, s)
      | None \<Rightarrow>
          bindE (request_asset policy i s) (\<lambda>asset.
          bindE (orErr (Wallet ErrWalletNotFound) (wallet_of s (wi_user i) (wi_currency i))) (\<lambda>w.
          if w_available w < wi_amount i then Inl (Wallet ErrInsufficientFunds)
          else bindE (check_daily policy i s) (\<lambda>_. request_writes i w asset s)))))"

section \<open>withdrawal_review.go\<close>

text \<open>An UPDATE of one withdrawal row, with the reference to the reviewer and the unique order id and
  transaction hash.\<close>

definition update_withdrawal :: "string \<Rightarrow> (withdrawal_row \<Rightarrow> withdrawal_row) \<Rightarrow> db \<Rightarrow> error + db" where
  "update_withdrawal i g s =
     (case lookup (\<lambda>r. wd_id r = i) (withdrawals s) of
        None \<Rightarrow> Inr s
      | Some r \<Rightarrow>
          let n = g r; others = filter (\<lambda>x. wd_id x \<noteq> i) (withdrawals s) in
          if (wd_order n \<noteq> None \<and> lookup (\<lambda>x. wd_order x = wd_order n) others \<noteq> None)
             \<or> (wd_tx n \<noteq> None \<and> lookup (\<lambda>x. wd_tx x = wd_tx n) others \<noteq> None) then Inl (DB Unique)
          else if (case wd_fee n of None \<Rightarrow> False | Some f \<Rightarrow> f < 0) then Inl (DB Check)
          else if (case wd_reviewer n of None \<Rightarrow> False | Some u \<Rightarrow> user_by_id s u = None) then Inl (DB ForeignKey)
          else Inr (s\<lparr>withdrawals := modify (\<lambda>r. wd_id r = i) g (withdrawals s)\<rparr>))"

definition ApproveWithdrawal :: "string \<Rightarrow> string \<Rightarrow> Withdrawal tx" where
  "ApproveWithdrawal i reviewerID s =
     (if i = [] \<or> reviewerID = [] then Inl (Chain ErrMissingFields)
      else bindE (orErr (Chain ErrWithdrawalNotFound) (findWithdrawalForUpdate s i)) (\<lambda>wd.
      if wv_status wd \<noteq> WRequested then Inl (Chain ErrWithdrawalState)
      else bindE (update_withdrawal i (\<lambda>r. r\<lparr>wd_status := WApproved, wd_reviewer := Some reviewerID\<rparr>) s) (\<lambda>s.
      bindE (insert_outbox ''withdrawal'' i ''chain.withdrawal.approved''
               (PObj [(''withdrawal_id'', PStr i), (''currency'', PStr (wv_currency wd))]) s) (\<lambda>s.
      Inr (wd\<lparr>wv_status := WApproved\<rparr>, s)))))"

definition RejectWithdrawal :: "string \<Rightarrow> string \<Rightarrow> string \<Rightarrow> Withdrawal tx" where
  "RejectWithdrawal i reviewerID reason s =
     (if i = [] \<or> reviewerID = [] then Inl (Chain ErrMissingFields)
      else bindE (orErr (Chain ErrWithdrawalNotFound) (findWithdrawalForUpdate s i)) (\<lambda>wd.
      if wv_status wd \<noteq> WRequested then Inl (Chain ErrWithdrawalState)
      else bindE (orErr (DB NoRows) (wallet_of s (wv_user wd) (wv_currency wd))) (\<lambda>w.
      if w_frozen w < wv_amount wd then Inl (Chain ErrWithdrawalState)
      else let available = wrap64 (w_available w + wv_amount wd) in
      bindE (set_balances (w_id w) available (w_frozen w - wv_amount wd) s) (\<lambda>s.
      bindE (update_withdrawal i (\<lambda>r. r\<lparr>wd_status := WCancelled, wd_reviewer := Some reviewerID, wd_reason := Some reason\<rparr>) s) (\<lambda>s.
      bindE (insert_ledger_frozen (w_id w) ''withdrawal'' i ''withdrawal_unfreeze'' (wv_amount wd) available (wv_amount wd) (- wv_amount wd) s) (\<lambda>s.
      Inr (wd\<lparr>wv_status := WCancelled\<rparr>, s)))))))"

section \<open>withdrawal_dispatch.go\<close>

record ProviderWithdrawalRequest =
  pr_request :: string
  pr_chain :: string
  pr_token :: int
  pr_address :: string
  pr_memo :: string
  pr_amount :: int
  pr_decimals :: int

text \<open>What \<^verbatim>\<open>SendApprovedWithdrawal\<close> reads before the call: nothing to send, or the request.\<close>

definition send_read :: "string \<Rightarrow> db \<Rightarrow> error + ProviderWithdrawalRequest option" where
  "send_read i s =
     bindE (FindWithdrawal s i) (\<lambda>wd.
     if wv_status wd = WBroadcasted \<or> wv_status wd = WConfirmed then Inr None
     else if wv_status wd \<noteq> WApproved then Inl (Chain ErrWithdrawalState)
     else bindE (orErr (DB NoRows) (lookup (\<lambda>r. wd_id r = i) (withdrawals s))) (\<lambda>r.
     bindE (orErr (DB NullValue) (wd_chain_token r)) (\<lambda>token.
     bindE (orErr (DB NullValue) (wd_platform_decimals r)) (\<lambda>decimals.
     Inr (Some \<lparr>pr_request = WithdrawalID wd, pr_chain = wv_chain wd, pr_token = token, pr_address = wv_destination wd,
            pr_memo = wv_memo wd, pr_amount = wv_amount wd, pr_decimals = decimals\<rparr>)))))"

text \<open>What it writes after the call, in whatever state the database is then in.\<close>

definition send_commit :: "string \<Rightarrow> string \<Rightarrow> unit tx" where
  "send_commit i order s =
     (case lookup (\<lambda>r. wd_id r = i \<and> wd_status r = WApproved) (withdrawals s) of
        None \<Rightarrow> Inr ((), s)
      | Some r \<Rightarrow>
          bindE (update_withdrawal i (\<lambda>r. if wd_status r = WApproved then r\<lparr>wd_status := WBroadcasted, wd_order := Some order\<rparr> else r) s) (\<lambda>s.
          bindE (insert_outbox ''withdrawal'' i ''chain.withdrawal.sent''
                   (PObj [(''withdrawal_id'', PStr i), (''provider_order_id'', PStr order)]) s) (\<lambda>s.
          Inr ((), s))))"

definition SendApprovedWithdrawal ::
  "(ProviderWithdrawalRequest \<Rightarrow> error + (string \<times> string)) option \<Rightarrow> string \<Rightarrow> unit tx" where
  "SendApprovedWithdrawal provider i s =
     (case provider of
        None \<Rightarrow> Inl (Chain ProviderUnavailable)
      | Some create \<Rightarrow>
          bindE (send_read i s) (\<lambda>q.
          case q of
            None \<Rightarrow> Inr ((), s)
          | Some request \<Rightarrow> bindE (create request) (\<lambda>r. send_commit i (fst r) s)))"

section \<open>withdrawal_status.go\<close>

record WithdrawalStatusInput =
  ws_order :: string
  ws_tx :: string
  ws_status :: string
  ws_reason :: string
  ws_fee :: string

definition status_code :: "withdrawal_status \<Rightarrow> string" where
  "status_code st = (case st of WRequested \<Rightarrow> ''requested'' | WApproved \<Rightarrow> ''approved'' | WBroadcasted \<Rightarrow> ''broadcasted''
     | WConfirmed \<Rightarrow> ''confirmed'' | WFailed \<Rightarrow> ''failed'' | WCancelled \<Rightarrow> ''cancelled'')"

definition nullif :: "string \<Rightarrow> string option" where
  "nullif v = (if v = [] then None else Some v)"

definition confirm_writes :: "WithdrawalStatusInput \<Rightarrow> withdrawal_row \<Rightarrow> wallet_row \<Rightarrow> unit tx" where
  "confirm_writes inp r w s =
     bindE (if ws_fee inp = [] then Inr None
            else bindE (parseDecimalMinor (ws_fee inp) (case wd_token_decimals r of None \<Rightarrow> 0 | Some d \<Rightarrow> d)) (\<lambda>f. Inr (Some f))) (\<lambda>fee.
     bindE (set_balances (w_id w) (w_available w) (w_frozen w - wd_amount r) s) (\<lambda>s.
     bindE (update_withdrawal (wd_id r) (\<lambda>r. r\<lparr>wd_status := WConfirmed, wd_tx := nullif (ws_tx inp), wd_reason := None, wd_fee := fee\<rparr>) s) (\<lambda>s.
     bindE (insert_ledger_frozen (w_id w) ''withdrawal'' (wd_id r) ''withdrawal_debit'' (- wd_amount r) (w_available w) 0 (- wd_amount r) s) (\<lambda>s.
     Inr ((), s)))))"

definition fail_writes :: "WithdrawalStatusInput \<Rightarrow> withdrawal_row \<Rightarrow> wallet_row \<Rightarrow> unit tx" where
  "fail_writes inp r w s =
     (let available = wrap64 (w_available w + wd_amount r) in
      bindE (set_balances (w_id w) available (w_frozen w - wd_amount r) s) (\<lambda>s.
      bindE (update_withdrawal (wd_id r) (\<lambda>r. r\<lparr>wd_status := WFailed, wd_tx := nullif (ws_tx inp), wd_reason := Some (ws_reason inp)\<rparr>) s) (\<lambda>s.
      bindE (insert_ledger_frozen (w_id w) ''withdrawal'' (wd_id r) ''withdrawal_unfreeze'' (wd_amount r) available (wd_amount r) (- wd_amount r) s) (\<lambda>s.
      Inr ((), s)))))"

definition ApplyWithdrawalStatus :: "WithdrawalStatusInput \<Rightarrow> unit tx" where
  "ApplyWithdrawalStatus inp s =
     (if ws_order inp = [] \<or> (ws_status inp \<noteq> ''confirmed'' \<and> ws_status inp \<noteq> ''failed'') then Inl (Chain ErrMissingFields)
      else bindE (orErr (Chain ErrWithdrawalNotFound)
                   (lookup (\<lambda>r. wd_id r = ws_order inp \<or> wd_order r = Some (ws_order inp)) (withdrawals s))) (\<lambda>r.
      bindE (orErr (Chain ErrWithdrawalNotFound) (wallet_by_id s (wd_wallet r))) (\<lambda>w.
      if status_code (wd_status r) = ws_status inp then Inr ((), s)
      else if wd_status r \<noteq> WBroadcasted then Inl (Chain ErrWithdrawalState)
      else if w_frozen w < wd_amount r then Inl (Chain ErrWithdrawalState)
      else if ws_status inp = ''confirmed'' then confirm_writes inp r w s
      else fail_writes inp r w s)))"

section \<open>reconcile.go\<close>

definition normalizeProviderWithdrawalStatus :: "string \<Rightarrow> string" where
  "normalizeProviderWithdrawalStatus status =
     (let v = to_lower (trim_space status) in
      if v \<in> set [''confirmed'', ''completed'', ''success'', ''succeeded''] then ''confirmed''
      else if v \<in> set [''failed'', ''rejected'', ''cancelled'', ''canceled''] then ''failed''
      else [])"

record ReconcileResult =
  Checked :: int
  Confirmed :: int
  Failed :: int

text \<open>Every order is its own transaction; the first error ends the loop, keeping what was done. The gateway's
  answer to a query is status, transaction hash, reason and fee.\<close>

fun reconcile_loop ::
  "(string \<Rightarrow> error + (string \<times> string \<times> string \<times> string)) \<Rightarrow> string list \<Rightarrow> ReconcileResult \<Rightarrow> db \<Rightarrow> (ReconcileResult \<times> error option) \<times> db" where
  "reconcile_loop query [] result s = ((result, None), s)"
| "reconcile_loop query (i # ids) result s =
     (case query i of
        Inl e \<Rightarrow> ((result, Some e), s)
      | Inr (status, txHash, reason, fee) \<Rightarrow>
          let result = result\<lparr>Checked := Checked result + 1\<rparr>;
              terminal = normalizeProviderWithdrawalStatus status
          in if terminal = [] then reconcile_loop query ids result s
             else (case ApplyWithdrawalStatus \<lparr>ws_order = i, ws_tx = txHash, ws_status = terminal, ws_reason = reason, ws_fee = fee\<rparr> s of
                     Inl e \<Rightarrow> ((result, Some e), s)
                   | Inr (_, s') \<Rightarrow>
                       reconcile_loop query ids (if terminal = ''confirmed'' then result\<lparr>Confirmed := Confirmed result + 1\<rparr>
                                               else result\<lparr>Failed := Failed result + 1\<rparr>) s'))"

definition ReconcileWithdrawals ::
  "(string \<Rightarrow> error + (string \<times> string \<times> string \<times> string)) option \<Rightarrow> int \<Rightarrow> db \<Rightarrow> (ReconcileResult \<times> error option) \<times> db" where
  "ReconcileWithdrawals provider limit s =
     (case provider of
        None \<Rightarrow> ((\<lparr>Checked = 0, Confirmed = 0, Failed = 0\<rparr>, Some (Chain ProviderUnavailable)), s)
      | Some query \<Rightarrow>
          let limit = (if limit \<le> 0 \<or> limit > 100 then 100 else limit);
              ids = map wd_id (take (nat limit) (sort_key wd_created
                      (filter (\<lambda>r. wd_status r = WBroadcasted \<and> wd_order r \<noteq> None) (withdrawals s))))
          in reconcile_loop query ids \<lparr>Checked = 0, Confirmed = 0, Failed = 0\<rparr> s)"

section \<open>pqpa_webhook.go: withdrawals\<close>

record PQPAWithdrawalWebhook =
  pw_event :: string
  pw_id :: int
  pw_order :: string
  pw_tx :: string
  pw_status :: string

definition apply_event :: "string \<Rightarrow> WithdrawalStatusInput \<Rightarrow> db \<Rightarrow> (bool \<times> error option) \<times> db" where
  "apply_event eventID inp s =
     (case ApplyWithdrawalStatus inp s of
        Inl e \<Rightarrow> ((True, Some e), finishProviderEvent eventID (Some e) s)
      | Inr r \<Rightarrow> ((True, None), finishProviderEvent eventID None (snd r)))"

definition ApplyPQPAWithdrawal :: "PQPAWithdrawalWebhook \<Rightarrow> db \<Rightarrow> (bool \<times> error option) \<times> db" where
  "ApplyPQPAWithdrawal cb s =
     (if pw_event cb \<noteq> ''withdraw'' \<or> pw_id cb \<le> 0 \<or> pw_order cb = [] \<or> pw_status cb = []
      then ((False, Some (Chain ErrMissingFields)), s)
      else let status = normalizeProviderWithdrawalStatus (pw_status cb) in
      if status = [] then ((False, None), s)
      else let eventID = ''withdraw:'' @ format_int (pw_id cb) @ '':'' @ pw_status cb in
      case beginProviderEvent eventID ''withdraw'' s of
        Inl e \<Rightarrow> ((False, Some e), s)
      | Inr (already, s1) \<Rightarrow>
          if already then ((False, None), s1)
          else apply_event eventID \<lparr>ws_order = pw_order cb, ws_tx = pw_tx cb, ws_status = status, ws_reason = [], ws_fee = []\<rparr> s1)"

section \<open>The abstract life of a withdrawal\<close>

fun pending :: "withdrawal_status \<Rightarrow> bool" where
  "pending WRequested = True"
| "pending WApproved = True"
| "pending WBroadcasted = True"
| "pending _ = False"

definition keeps :: "(withdrawal_row \<Rightarrow> withdrawal_row) \<Rightarrow> withdrawal_status \<Rightarrow> bool" where
  "keeps g st \<longleftrightarrow> (\<forall>x. wd_id (g x) = wd_id x \<and> wd_user (g x) = wd_user x \<and> wd_wallet (g x) = wd_wallet x \<and> wd_request (g x) = wd_request x
     \<and> wd_amount (g x) = wd_amount x \<and> wd_token (g x) = wd_token x \<and> wd_created (g x) = wd_created x \<and> wd_status (g x) = st)"

definition row_moves :: "withdrawal_row \<Rightarrow> withdrawal_status \<Rightarrow> withdrawal_status \<Rightarrow> db \<Rightarrow> db \<Rightarrow> bool" where
  "row_moves r st st' s s' \<longleftrightarrow> r \<in> set (withdrawals s) \<and> wd_status r = st
     \<and> (\<exists>g. keeps g st' \<and> withdrawals s' = modify (\<lambda>x. wd_id x = wd_id r) g (withdrawals s))"

definition fresh_request :: "withdrawal_row \<Rightarrow> db \<Rightarrow> bool" where
  "fresh_request r s \<longleftrightarrow> 0 < wd_amount r \<and> wd_status r = WRequested
     \<and> lookup (\<lambda>x. wd_id x = wd_id r \<or> (wd_user x = wd_user r \<and> wd_request x = wd_request r)) (withdrawals s) = None"

text \<open>
  The specification of the component: what one operation may do to the withdrawals and to the money.
  Every operation of the code is shown below to be one of these steps.
\<close>

inductive withdrawal_step :: "db \<Rightarrow> db \<Rightarrow> bool" where
  freeze: "fresh_request r s \<Longrightarrow> withdrawals s' = withdrawals s @ [r] \<Longrightarrow> wallet_by_id s (wd_wallet r) = Some w \<Longrightarrow> w_user w = wd_user r \<Longrightarrow>
     wd_amount r \<le> w_available w \<Longrightarrow> w_frozen w + wd_amount r \<le> max_int64 \<Longrightarrow>
     shifted s w (w_available w - wd_amount r) (w_frozen w + wd_amount r) s' \<Longrightarrow> withdrawal_step s s'"
| advance: "row_moves r st st' s s' \<Longrightarrow> (st, st') \<in> {(WRequested, WApproved), (WApproved, WBroadcasted)} \<Longrightarrow>
     wallets s' = wallets s \<Longrightarrow> ledger s' = ledger s \<Longrightarrow> withdrawal_step s s'"
| release: "row_moves r st st' s s' \<Longrightarrow> (st, st') \<in> {(WRequested, WCancelled), (WBroadcasted, WFailed)} \<Longrightarrow>
     wallet_by_id s (wd_wallet r) = Some w \<Longrightarrow> wd_amount r \<le> w_frozen w \<Longrightarrow> w_available w + wd_amount r \<le> max_int64 \<Longrightarrow>
     shifted s w (w_available w + wd_amount r) (w_frozen w - wd_amount r) s' \<Longrightarrow> withdrawal_step s s'"
| consume: "row_moves r WBroadcasted WConfirmed s s' \<Longrightarrow> wallet_by_id s (wd_wallet r) = Some w \<Longrightarrow> wd_amount r \<le> w_frozen w \<Longrightarrow>
     shifted s w (w_available w) (w_frozen w - wd_amount r) s' \<Longrightarrow> withdrawal_step s s'"
| idle: "withdrawals s' = withdrawals s \<Longrightarrow> wallets s' = wallets s \<Longrightarrow> ledger s' = ledger s \<Longrightarrow> withdrawal_step s s'"

inductive_cases withdrawal_stepE: "withdrawal_step s s'"

section \<open>Invariant and conservation\<close>

definition pending_sum :: "db \<Rightarrow> string \<Rightarrow> int" where
  "pending_sum s wid = sum_list (map (\<lambda>r. if wd_wallet r = wid \<and> pending (wd_status r) then wd_amount r else 0) (withdrawals s))"

definition paid_out :: "db \<Rightarrow> string \<Rightarrow> int" where
  "paid_out s wid = sum_list (map (\<lambda>r. if wd_wallet r = wid \<and> wd_status r = WConfirmed then wd_amount r else 0) (withdrawals s))"

definition funds :: "db \<Rightarrow> string \<Rightarrow> int" where
  "funds s wid = (case wallet_by_id s wid of None \<Rightarrow> 0 | Some w \<Rightarrow> w_available w + w_frozen w)"

definition withdrawals_ok :: "db \<Rightarrow> bool" where
  "withdrawals_ok s \<longleftrightarrow> distinct (map wd_id (withdrawals s)) \<and> distinct (map (\<lambda>r. (wd_user r, wd_request r)) (withdrawals s))
     \<and> (\<forall>r \<in> set (withdrawals s). 0 < wd_amount r \<and> (\<exists>w. wallet_by_id s (wd_wallet r) = Some w \<and> w_user w = wd_user r))
     \<and> (\<forall>w \<in> set (wallets s). pending_sum s (w_id w) \<le> w_frozen w)"

lemma shifted_wallet:
  assumes "wallet_by_id s (w_id w) = Some w" "shifted s w v f s'"
  shows "wallet_by_id s' i = (if i = w_id w then Some (w\<lparr>w_available := v, w_frozen := f, w_version := w_version w + 1, w_updated := clock s\<rparr>)
         else wallet_by_id s i)"
  using wallet_by_id_update [OF assms(1), of v f i] assms(2) wallet_by_id_cong [of s'] by (simp add: shifted_def)

lemma wallet_mem_iff: "wallets_ok s \<Longrightarrow> w \<in> set (wallets s) \<longleftrightarrow> wallet_by_id s (w_id w) = Some w"
  using lookup_key_unique [of w_id "wallets s" w] wallet_by_id_mem [of s "w_id w" w] unfolding wallets_ok_def wallet_by_id_def by blast

lemma frozen_covers:
  assumes "withdrawals_ok s" "wallet_by_id s i = Some w"
  shows "pending_sum s i \<le> w_frozen w"
proof -
  have "w \<in> set (wallets s)" "w_id w = i" using wallet_by_id_mem [OF assms(2)] by auto
  then show ?thesis using assms(1) unfolding withdrawals_ok_def by blast
qed

lemma row_moves_sum:
  assumes "distinct (map wd_id (withdrawals s))" "row_moves r st st' s s'"
  shows "pending_sum s' i = pending_sum s i + (if wd_wallet r = i then (if pending st' then wd_amount r else 0) - (if pending st then wd_amount r else 0) else 0)"
    and "paid_out s' i = paid_out s i + (if wd_wallet r = i then (if st' = WConfirmed then wd_amount r else 0) - (if st = WConfirmed then wd_amount r else 0) else 0)"
proof -
  obtain g where g: "keeps g st'" "withdrawals s' = modify (\<lambda>x. wd_id x = wd_id r) g (withdrawals s)" and r: "r \<in> set (withdrawals s)" "wd_status r = st"
    using assms(2) by (auto simp: row_moves_def)
  note sm = sum_modify [OF assms(1) r(1)]
  have k: "wd_wallet (g r) = wd_wallet r" "wd_amount (g r) = wd_amount r" "wd_status (g r) = st'" using g(1) by (auto simp: keeps_def)
  show "pending_sum s' i = pending_sum s i + (if wd_wallet r = i then (if pending st' then wd_amount r else 0) - (if pending st then wd_amount r else 0) else 0)"
    by (simp add: pending_sum_def g(2) sm k r(2))
  show "paid_out s' i = paid_out s i + (if wd_wallet r = i then (if st' = WConfirmed then wd_amount r else 0) - (if st = WConfirmed then wd_amount r else 0) else 0)"
    by (simp add: paid_out_def g(2) sm k r(2))
qed

text \<open>The static part of the invariant survives any step that only moves rows.\<close>

lemma row_moves_keys:
  assumes "row_moves r st st' s s'"
  shows "map wd_id (withdrawals s') = map wd_id (withdrawals s)"
    and "map (\<lambda>r. (wd_user r, wd_request r)) (withdrawals s') = map (\<lambda>r. (wd_user r, wd_request r)) (withdrawals s)"
    and "x \<in> set (withdrawals s') \<Longrightarrow> \<exists>y \<in> set (withdrawals s). wd_amount x = wd_amount y \<and> wd_wallet x = wd_wallet y \<and> wd_user x = wd_user y"
proof -
  obtain g where g: "keeps g st'" "withdrawals s' = modify (\<lambda>x. wd_id x = wd_id r) g (withdrawals s)"
    using assms by (auto simp: row_moves_def)
  show "map wd_id (withdrawals s') = map wd_id (withdrawals s)"
    "map (\<lambda>r. (wd_user r, wd_request r)) (withdrawals s') = map (\<lambda>r. (wd_user r, wd_request r)) (withdrawals s)"
    using g by (auto simp: keeps_def map_modify_inv)
  assume "x \<in> set (withdrawals s')"
  then obtain y where y: "y \<in> set (withdrawals s)" "x = (if wd_id y = wd_id r then g y else y)" by (auto simp: g(2) set_modify)
  then show "\<exists>y \<in> set (withdrawals s). wd_amount x = wd_amount y \<and> wd_wallet x = wd_wallet y \<and> wd_user x = wd_user y"
    using g(1) by (intro bexI [of _ y]) (auto simp: keeps_def)
qed

lemma withdrawals_ok_moves:
  assumes "withdrawals_ok s" "row_moves r st st' s s'"
    and "\<And>i w. wallet_by_id s i = Some w \<Longrightarrow> \<exists>w'. wallet_by_id s' i = Some w' \<and> w_user w' = w_user w"
    and "\<forall>w \<in> set (wallets s'). pending_sum s' (w_id w) \<le> w_frozen w"
  shows "withdrawals_ok s'"
proof -
  have "0 < wd_amount x \<and> (\<exists>w. wallet_by_id s' (wd_wallet x) = Some w \<and> w_user w = wd_user x)" if x: "x \<in> set (withdrawals s')" for x
  proof -
    obtain y where y: "y \<in> set (withdrawals s)" "wd_amount x = wd_amount y" "wd_wallet x = wd_wallet y" "wd_user x = wd_user y"
      using row_moves_keys(3) [OF assms(2) x] by blast
    obtain w where "0 < wd_amount y" "wallet_by_id s (wd_wallet y) = Some w" "w_user w = wd_user y"
      using assms(1) y(1) by (auto simp: withdrawals_ok_def)
    then show ?thesis using assms(3) [of "wd_wallet y" w] y by auto
  qed
  then show ?thesis
    using assms(1,4) row_moves_keys(1,2) [OF assms(2)] by (simp add: withdrawals_ok_def)
qed

lemma shifted_users:
  assumes "wallet_by_id s (w_id w) = Some w" "shifted s w v f s'" "wallet_by_id s i = Some x"
  shows "\<exists>y. wallet_by_id s' i = Some y \<and> w_user y = w_user x"
  using shifted_wallet [OF assms(1,2), of i] assms(1,3) by (auto split: if_splits)

definition good :: "db \<Rightarrow> bool" where
  "good s \<longleftrightarrow> books_ok s \<and> withdrawals_ok s"

lemma step_freeze:
  assumes g: "good s" and r: "fresh_request r s" "withdrawals s' = withdrawals s @ [r]" and w: "wallet_by_id s (wd_wallet r) = Some w" "w_user w = wd_user r"
    and b: "wd_amount r \<le> w_available w" "w_frozen w + wd_amount r \<le> max_int64"
    and sh: "shifted s w (w_available w - wd_amount r) (w_frozen w + wd_amount r) s'"
  shows "good s' \<and> funds s' i + paid_out s' i = funds s i + paid_out s i"
proof -
  have id: "w_id w = wd_wallet r" using wallet_by_id_mem [OF w(1)] by simp
  have wi: "wallet_by_id s (w_id w) = Some w" using w(1) id by simp
  have bk: "books_ok s" and wo: "withdrawals_ok s" using g by (auto simp: good_def)
  have am: "0 < wd_amount r" "wd_status r = WRequested" using r(1) by (auto simp: fresh_request_def)
  have rg: "in_range (w_available w)" "in_range (w_frozen w)" using wallets_ok_range [OF books_ok_wallets_ok [OF bk] wi] by auto
  have bk': "books_ok s'" by (rule shifted_books [OF bk wi sh]) (use rg b am in \<open>auto simp: in_range_def\<close>)
  have ps: "pending_sum s' j = pending_sum s j + (if wd_wallet r = j then wd_amount r else 0)" for j
    using am by (simp add: pending_sum_def r(2))
  note sw = shifted_wallet [OF wi sh]
  have cov: "pending_sum s' (w_id x) \<le> w_frozen x" if "x \<in> set (wallets s')" for x
  proof -
    have "wallet_by_id s' (w_id x) = Some x" using wallet_mem_iff [OF books_ok_wallets_ok [OF bk']] that by blast
    then show ?thesis using sw [of "w_id x"] frozen_covers [OF wo wi] frozen_covers [OF wo, of "w_id x" x] ps [of "w_id x"] id
      by (auto split: if_splits)
  qed
  have "withdrawals_ok s'"
    using wo r(1) am(1) shifted_users [OF wi sh] w cov unfolding withdrawals_ok_def
    by (fastforce simp: r(2) fresh_request_def lookup_None_iff)
  moreover have "funds s' i + paid_out s' i = funds s i + paid_out s i"
    using sw [of i] wi am by (simp add: funds_def paid_out_def r(2))
  ultimately show ?thesis using bk' by (simp add: good_def)
qed

lemma step_shift:
  assumes g: "good s" and m: "row_moves r st st' s s'" "pending st" and w: "wallet_by_id s (wd_wallet r) = Some w"
    and v: "v = w_available w + (if st' = WConfirmed then 0 else wd_amount r)" "v \<le> max_int64" "\<not> pending st'" "wd_amount r \<le> w_frozen w"
    and sh: "shifted s w v (w_frozen w - wd_amount r) s'"
  shows "good s' \<and> funds s' i + paid_out s' i = funds s i + paid_out s i"
proof -
  have id: "w_id w = wd_wallet r" using wallet_by_id_mem [OF w] by simp
  have wi: "wallet_by_id s (w_id w) = Some w" using w id by simp
  have bk: "books_ok s" and wo: "withdrawals_ok s" using g by (auto simp: good_def)
  have am: "0 < wd_amount r" using wo m(1) by (auto simp: withdrawals_ok_def row_moves_def)
  have rg: "in_range (w_available w)" "in_range (w_frozen w)" using wallets_ok_range [OF books_ok_wallets_ok [OF bk] wi] by auto
  have bk': "books_ok s'" by (rule shifted_books [OF bk wi sh]) (use rg v am in \<open>auto simp: in_range_def\<close>)
  note sw = shifted_wallet [OF wi sh]
  have d: "distinct (map wd_id (withdrawals s))" using wo by (simp add: withdrawals_ok_def)
  note sums = row_moves_sum [OF d m(1)]
  have cov: "\<forall>x \<in> set (wallets s'). pending_sum s' (w_id x) \<le> w_frozen x"
  proof
    fix x assume "x \<in> set (wallets s')"
    then have "wallet_by_id s' (w_id x) = Some x" using wallet_mem_iff [OF books_ok_wallets_ok [OF bk']] by blast
    then show "pending_sum s' (w_id x) \<le> w_frozen x"
      using sw [of "w_id x"] frozen_covers [OF wo wi] frozen_covers [OF wo, of "w_id x" x] sums(1) [of "w_id x"] id m(2) v(3)
      by (auto split: if_splits)
  qed
  have "withdrawals_ok s'" by (rule withdrawals_ok_moves [OF wo m(1) shifted_users [OF wi sh] cov])
  moreover have "funds s' i + paid_out s' i = funds s i + paid_out s i"
    using sw [of i] wi sums(2) [of i] id m(2) v(1,3) by (cases st) (auto simp: funds_def)
  ultimately show ?thesis using bk' by (simp add: good_def)
qed

lemma withdrawal_step_good:
  assumes "withdrawal_step s s'" "good s"
  shows "good s' \<and> funds s' i + paid_out s' i = funds s i + paid_out s i"
  using assms
proof (induction rule: withdrawal_step.induct)
  case (freeze r s s' w)
  then show ?case by (intro step_freeze) auto
next
  case (advance r st st' s s')
  have wo: "withdrawals_ok s" "books_ok s" using advance.prems by (auto simp: good_def)
  have d: "distinct (map wd_id (withdrawals s))" using wo(1) by (simp add: withdrawals_ok_def)
  note sums = row_moves_sum [OF d advance.hyps(1)]
  have "pending_sum s' = pending_sum s" "paid_out s' = paid_out s" using sums advance.hyps(2) by (auto simp: fun_eq_iff)
  moreover have "wallet_by_id s' = wallet_by_id s" using wallet_by_id_cong [OF advance.hyps(3)] by (simp add: fun_eq_iff)
  moreover have "withdrawals_ok s'"
    using withdrawals_ok_moves [OF wo(1) advance.hyps(1)] calculation wo(1) advance.hyps(3) by (simp add: withdrawals_ok_def)
  ultimately show ?case using books_ok_cong [OF wo(2) advance.hyps(3,4)] by (simp add: good_def funds_def)
next
  case (release r st st' s s' w)
  then show ?case by (intro step_shift [of s r st st' s' w "w_available w + wd_amount r"]) auto
next
  case (consume r s s' w)
  then have "w_available w \<le> max_int64"
    using wallets_ok_range [OF books_ok_wallets_ok] by (auto simp: good_def in_range_def)
  with consume show ?case by (intro step_shift [of s r WBroadcasted WConfirmed s' w "w_available w"]) auto
next
  case (idle s' s)
  have "wallet_by_id s' = wallet_by_id s" using wallet_by_id_cong [OF idle(2)] by (simp add: fun_eq_iff)
  then show ?case
    using idle books_ok_cong [of s s'] by (simp add: good_def withdrawals_ok_def funds_def paid_out_def pending_sum_def)
qed

section \<open>The operations are steps\<close>

lemma wrap_sum:
  assumes "in_range a" "0 < b" "b \<le> max_int64" "0 \<le> wrap64 (a + b)"
  shows "wrap64 (a + b) = a + b \<and> a + b \<le> max_int64"
  using wrap64_add_nonneg_iff [of a b] assms by (auto simp: in_range_def int64_def max_int64_def)

lemma withdrawal_where_Some:
  "withdrawal_where P s = Some wd \<Longrightarrow> \<exists>r w. lookup P (withdrawals s) = Some r \<and> wallet_by_id s (wd_wallet r) = Some w \<and> wd = scanWithdrawal r w"
  by (auto simp: withdrawal_where_def split: option.splits)

lemma shifted_cong2: "wallets s' = wallets t' \<Longrightarrow> ledger s' = ledger t' \<Longrightarrow> shifted s w v f s' = shifted s w v f t'"
  by (simp add: shifted_def)

lemma request_writes_step:
  assumes g: "good s" and w: "wallet_of s (wi_user i) (wi_currency i) = Some w" and am: "0 < wi_amount i" "wi_amount i \<le> max_int64"
    and wr: "request_writes i w asset s = Inr (wd, s')"
  shows "withdrawal_step s s' \<and> (\<exists>wid. withdrawals s' = withdrawals s @ [request_row i wid (w_id w) asset (clock s)]) \<and> clock s' = clock s"
proof -
  have bk: "books_ok s" and ok: "wallets_ok s" using g books_ok_wallets_ok by (auto simp: good_def)
  have wi: "wallet_by_id s (w_id w) = Some w" using wallet_of_by_id [OF ok w] .
  let ?v = "w_available w - wi_amount i" and ?f = "wrap64 (w_frozen w + wi_amount i)"
  obtain s1 wid where s1: "set_balances (w_id w) ?v ?f s = Inr s1" and wid: "wid = uuids s1 (next_uuid s1)"
    and rest: "\<exists>s2 s3 p. insert_withdrawal (request_row i wid (w_id w) asset (clock s1)) (s1\<lparr>next_uuid := Suc (next_uuid s1)\<rparr>) = Inr s2
      \<and> insert_ledger_frozen (w_id w) ''withdrawal'' wid ''withdrawal_freeze'' (- wi_amount i) ?v (- wi_amount i) (wi_amount i) s2 = Inr s3
      \<and> insert_outbox ''withdrawal'' wid ''wallet.withdrawal.requested'' p s3 = Inr s'"
    using wr unfolding request_writes_def Let_def bindE_eq_Inr new_uuid_def fst_conv snd_conv by (elim exE conjE) force
  then obtain s2 s3 p where s2: "insert_withdrawal (request_row i wid (w_id w) asset (clock s1)) (s1\<lparr>next_uuid := Suc (next_uuid s1)\<rparr>) = Inr s2"
    and s3: "insert_ledger_frozen (w_id w) ''withdrawal'' wid ''withdrawal_freeze'' (- wi_amount i) ?v (- wi_amount i) (wi_amount i) s2 = Inr s3"
    and s4: "insert_outbox ''withdrawal'' wid ''wallet.withdrawal.requested'' p s3 = Inr s'" by blast
  have u: "0 \<le> ?v" "0 \<le> ?f" "s1 = wallet_update (w_id w) ?v ?f s" using set_balances_Inr [OF wi s1] by auto
  have rg: "in_range (w_frozen w)" using wallets_ok_range [OF ok wi] by simp
  have fz: "?f = w_frozen w + wi_amount i" "w_frozen w + wi_amount i \<le> max_int64" using wrap_sum [OF rg am u(2)] by auto
  note m1 = set_balances_money_only [OF s1]
  let ?r = "request_row i wid (w_id w) asset (clock s1)"
  have i2: "s2 = s1\<lparr>next_uuid := Suc (next_uuid s1), withdrawals := withdrawals s1 @ [?r]\<rparr>"
    and none: "lookup (\<lambda>x. wd_id x = wd_id ?r \<or> (wd_user x = wd_user ?r \<and> wd_request x = wd_request ?r)) (withdrawals s1) = None"
    using s2 by (auto simp: insert_withdrawal_def split: if_splits)
  have c1: "clock s1 = clock s" "withdrawals s1 = withdrawals s" using m1 by (auto dest: money_onlyD)
  have sh: "shifted s w ?v (w_frozen w + wi_amount i) s3"
    by (rule shiftedI [OF wi u(3) [unfolded fz(1)] _ _ s3]) (simp_all add: i2)
  have m: "money_only s2 s'" using insert_outbox_money_only [OF s4] insert_ledger_frozen_money_only [OF s3] money_only_trans by blast
  have ws: "withdrawals s' = withdrawals s @ [?r]" using money_onlyD(29) [OF m] c1(2) by (simp add: i2)
  have sh': "shifted s w ?v (w_frozen w + wi_amount i) s'" using sh shifted_cong2 [of s' s3] insert_outbox_money_only [OF s4] by simp
  have fr: "fresh_request ?r s" using none c1(2) am(1) by (simp add: fresh_request_def request_row_def)
  have "withdrawal_step s s'"
    by (rule withdrawal_step.freeze [OF fr ws, of w]) (use wi wallet_of_mem [OF w] u(1) fz(2) sh' in \<open>simp_all add: request_row_def\<close>)
  moreover have "clock s' = clock s" using money_onlyD(1) [OF m] c1(1) by (simp add: i2)
  ultimately show ?thesis using ws c1(1) by auto
qed

lemma RequestWithdrawal_Inr:
  assumes "RequestWithdrawal policy input s = Inr (wd, s')"
  defines "i \<equiv> normalize_withdrawal input"
  shows "(s' = s \<and> findWithdrawalByRequestID s (wi_user i) (wi_request i) = Some wd)
     \<or> (\<exists>w asset. wallet_of s (wi_user i) (wi_currency i) = Some w \<and> 0 < wi_amount i \<and> request_asset policy i s = Inr asset
          \<and> wi_amount i \<le> w_available w \<and> check_daily policy i s = Inr () \<and> request_writes i w asset s = Inr (wd, s'))"
proof (cases "findWithdrawalByRequestID s (wi_user i) (wi_request i)")
  case (Some x)
  then show ?thesis using assms(1) by (auto simp: RequestWithdrawal_def i_def [symmetric] Let_def bindE_eq_Inr split: if_splits)
next
  case None
  then show ?thesis
    using assms(1)
    unfolding RequestWithdrawal_def i_def [symmetric] Let_def None option.case if_Inl_eq_Inr bindE_eq_Inr orErr_eq_Inr
    by (elim exE conjE) force
qed

lemma RequestWithdrawal_step:
  assumes "good s" "RequestWithdrawal policy input s = Inr (wd, s')" "wi_amount input \<le> max_int64"
  shows "withdrawal_step s s'"
proof -
  have am: "wi_amount (normalize_withdrawal input) \<le> max_int64" using assms(3) by (simp add: normalize_withdrawal_def)
  from RequestWithdrawal_Inr [OF assms(2)] show ?thesis
  proof (elim disjE exE conjE)
    assume "s' = s"
    then show ?thesis by (simp add: withdrawal_step.idle)
  next
    fix w asset assume "wallet_of s (wi_user (normalize_withdrawal input)) (wi_currency (normalize_withdrawal input)) = Some w"
      "0 < wi_amount (normalize_withdrawal input)" "request_writes (normalize_withdrawal input) w asset s = Inr (wd, s')"
    from request_writes_step [OF assms(1) this(1,2) am this(3)] show ?thesis by blast
  qed
qed

lemma update_withdrawal_Inr:
  assumes "update_withdrawal i g s = Inr s'" "lookup (\<lambda>r. wd_id r = i) (withdrawals s) = Some r"
  shows "s' = s\<lparr>withdrawals := modify (\<lambda>r. wd_id r = i) g (withdrawals s)\<rparr>"
  using assms by (auto simp: update_withdrawal_def Let_def split: if_splits)

lemma row_movesI:
  assumes "lookup (\<lambda>r. wd_id r = i) (withdrawals s) = Some r" "wd_status r = st" "keeps g st'"
    and "withdrawals s' = modify (\<lambda>r. wd_id r = i) g (withdrawals s)"
  shows "row_moves r st st' s s'"
proof -
  have "r \<in> set (withdrawals s)" "wd_id r = i" using lookup_SomeD [OF assms(1)] by auto
  then show ?thesis using assms(2-4) unfolding row_moves_def by blast
qed

lemma ApproveWithdrawal_step:
  assumes "ApproveWithdrawal i rv s = Inr (wd, s')"
  shows "withdrawal_step s s'"
proof -
  from assms obtain x s1 p where x: "findWithdrawalForUpdate s i = Some x" "wv_status x = WRequested"
    and s1: "update_withdrawal i (\<lambda>r. r\<lparr>wd_status := WApproved, wd_reviewer := Some rv\<rparr>) s = Inr s1"
    and s2: "insert_outbox ''withdrawal'' i ''chain.withdrawal.approved'' p s1 = Inr s'"
    unfolding ApproveWithdrawal_def bindE_eq_Inr if_Inl_eq_Inr orErr_eq_Inr by (elim exE conjE) force
  obtain r where r: "lookup (\<lambda>r. wd_id r = i) (withdrawals s) = Some r" "wd_status r = WRequested"
    using withdrawal_where_Some x by (force simp: findWithdrawalForUpdate_def scanWithdrawal_def)
  note u = update_withdrawal_Inr [OF s1 r(1)]
  note m = insert_outbox_money_only [OF s2]
  then have wd: "withdrawals s' = withdrawals s1" by (auto dest: money_onlyD)
  have "row_moves r WRequested WApproved s s'"
    by (rule row_movesI [OF r, of "\<lambda>r. r\<lparr>wd_status := WApproved, wd_reviewer := Some rv\<rparr>"])
       (use wd in \<open>simp_all add: keeps_def u\<close>)
  then show ?thesis by (rule withdrawal_step.advance) (use m in \<open>simp_all add: u\<close>)
qed

text \<open>Writes that move a balance, update the row and post the ledger entry.\<close>

lemma settle_writes_step:
  assumes g: "good s" and r: "lookup (\<lambda>x. wd_id x = wd_id r) (withdrawals s) = Some r" and w: "wallet_by_id s (w_id w) = Some w"
    and s1: "set_balances (w_id w) v f s = Inr s1" and s2: "update_withdrawal (wd_id r) h s1 = Inr s2" "keeps h st'"
    and s3: "insert_ledger_frozen (w_id w) bt bid et amt v ad fd s2 = Inr s3" "ad = v - w_available w" "fd = f - w_frozen w"
  shows "row_moves r (wd_status r) st' s s3 \<and> shifted s w v f s3"
proof -
  have u: "s1 = wallet_update (w_id w) v f s" using set_balances_Inr [OF w s1] by simp
  note m1 = set_balances_money_only [OF s1]
  have wd: "withdrawals s1 = withdrawals s" using m1 by (auto dest: money_onlyD)
  have u2: "s2 = s1\<lparr>withdrawals := modify (\<lambda>x. wd_id x = wd_id r) h (withdrawals s)\<rparr>"
    using update_withdrawal_Inr [OF s2(1), of r] r wd by simp
  have sh: "shifted s w v f s3" by (rule shiftedI [OF w u _ _ s3]) (simp_all add: u2)
  have "withdrawals s3 = withdrawals s2" using insert_ledger_frozen_money_only [OF s3(1)] by (auto dest: money_onlyD)
  then have "row_moves r (wd_status r) st' s s3" using row_movesI [OF r refl s2(2), of s3] by (simp add: u2)
  then show ?thesis using sh by simp
qed

lemma withdrawal_amount_range:
  assumes "good s" "r \<in> set (withdrawals s)" "wallet_by_id s (wd_wallet r) = Some w" "wd_amount r \<le> w_frozen w"
  shows "0 < wd_amount r \<and> wd_amount r \<le> max_int64 \<and> in_range (w_available w)"
  using assms wallets_ok_range [OF books_ok_wallets_ok, of s "wd_wallet r" w] by (auto simp: good_def withdrawals_ok_def in_range_def)

lemma RejectWithdrawal_step:
  assumes g: "good s" and "RejectWithdrawal i rv reason s = Inr (wd, s')"
  shows "withdrawal_step s s'"
proof -
  have ok: "wallets_ok s" using g books_ok_wallets_ok by (auto simp: good_def)
  from assms(2) obtain x w s1 s2 where x: "findWithdrawalForUpdate s i = Some x" "wv_status x = WRequested"
    and w: "wallet_of s (wv_user x) (wv_currency x) = Some w" "\<not> w_frozen w < wv_amount x"
    and s1: "set_balances (w_id w) (wrap64 (w_available w + wv_amount x)) (w_frozen w - wv_amount x) s = Inr s1"
    and s2: "update_withdrawal i (\<lambda>r. r\<lparr>wd_status := WCancelled, wd_reviewer := Some rv, wd_reason := Some reason\<rparr>) s1 = Inr s2"
    and s3: "insert_ledger_frozen (w_id w) ''withdrawal'' i ''withdrawal_unfreeze'' (wv_amount x) (wrap64 (w_available w + wv_amount x)) (wv_amount x) (- wv_amount x) s2 = Inr s'"
    unfolding RejectWithdrawal_def Let_def bindE_eq_Inr if_Inl_eq_Inr orErr_eq_Inr by (elim exE conjE) force
  obtain r w0 where r: "lookup (\<lambda>r. wd_id r = i) (withdrawals s) = Some r" "wallet_by_id s (wd_wallet r) = Some w0" "x = scanWithdrawal r w0"
    using withdrawal_where_Some x(1) by (force simp: findWithdrawalForUpdate_def)
  have rm: "r \<in> set (withdrawals s)" "wd_id r = i" using lookup_SomeD [OF r(1)] by auto
  have "w_user w0 = wd_user r" using g rm(1) r(2) by (auto simp: good_def withdrawals_ok_def)
  then have "wallet_of s (w_user w0) (w_currency w0) = Some w" using w(1) r(3) by (simp add: scanWithdrawal_def)
  moreover have "wallet_of s (w_user w0) (w_currency w0) = Some w0"
    using lookup_key_unique [of "\<lambda>w. (w_user w, w_currency w)" "wallets s" w0] ok wallet_by_id_mem [OF r(2)] by (simp add: wallets_ok_def wallet_of_def)
  ultimately have ww: "w = w0" by simp
  have wi: "wallet_by_id s (w_id w) = Some w" using wallet_by_id_self [OF r(2)] ww by simp
  have a: "wv_amount x = wd_amount r" "wd_status r = WRequested" using r(3) x(2) by (simp_all add: scanWithdrawal_def)
  have le: "wd_amount r \<le> w_frozen w" using w(2) a(1) by simp
  note ar = withdrawal_amount_range [OF g rm(1) r(2) [folded ww] le]
  have "0 \<le> wrap64 (w_available w + wd_amount r)" using set_balances_Inr [OF wi s1] a(1) by simp
  then have v: "wrap64 (w_available w + wd_amount r) = w_available w + wd_amount r" "w_available w + wd_amount r \<le> max_int64"
    using wrap_sum [of "w_available w" "wd_amount r"] ar by auto
  have "row_moves r (wd_status r) WCancelled s s' \<and> shifted s w (w_available w + wd_amount r) (w_frozen w - wd_amount r) s'"
    by (rule settle_writes_step [OF g _ wi s1 [unfolded a(1) v(1)] s2 [folded rm(2)] _ s3 [unfolded a(1) v(1)]])
       (use r(1) rm(2) in \<open>simp_all add: keeps_def\<close>)
  then show ?thesis using withdrawal_step.release [of r WRequested WCancelled s s' w] a(2) r(2) ww le v(2) by simp
qed

lemma send_commit_step:
  assumes "good s" "send_commit i order s = Inr (u, s')"
  shows "withdrawal_step s s'"
proof (cases "lookup (\<lambda>r. wd_id r = i \<and> wd_status r = WApproved) (withdrawals s)")
  case None
  then show ?thesis using assms(2) withdrawal_step.idle [of s s] by (simp add: send_commit_def)
next
  case (Some r)
  have rm: "r \<in> set (withdrawals s)" "wd_id r = i" "wd_status r = WApproved" using lookup_SomeD [OF Some] by auto
  have d: "distinct (map wd_id (withdrawals s))" using assms(1) by (simp add: good_def withdrawals_ok_def)
  have r: "lookup (\<lambda>r. wd_id r = i) (withdrawals s) = Some r" using lookup_key_unique [OF d rm(1)] rm(2) by simp
  let ?g = "\<lambda>r. if wd_status r = WApproved then r\<lparr>wd_status := WBroadcasted, wd_order := Some order\<rparr> else r"
  obtain s1 p where s1: "update_withdrawal i ?g s = Inr s1" and s2: "insert_outbox ''withdrawal'' i ''chain.withdrawal.sent'' p s1 = Inr s'"
    using assms(2) Some unfolding send_commit_def by (simp add: bindE_eq_Inr) blast
  note u = update_withdrawal_Inr [OF s1 r]
  have e: "modify (\<lambda>x. wd_id x = wd_id r) ?g (withdrawals s) = modify (\<lambda>x. wd_id x = wd_id r) (\<lambda>r. r\<lparr>wd_status := WBroadcasted, wd_order := Some order\<rparr>) (withdrawals s)"
    by (rule modify_key_cong [OF d rm(1)]) (simp add: rm(3))
  note m = insert_outbox_money_only [OF s2]
  then have wd: "withdrawals s' = withdrawals s1" by (auto dest: money_onlyD)
  have "row_moves r WApproved WBroadcasted s s'"
    by (rule row_movesI [OF r rm(3), of "\<lambda>r. r\<lparr>wd_status := WBroadcasted, wd_order := Some order\<rparr>"])
       (use wd e in \<open>simp_all add: keeps_def u rm(2)\<close>)
  then show ?thesis by (rule withdrawal_step.advance) (use m in \<open>simp_all add: u\<close>)
qed

lemma SendApprovedWithdrawal_step:
  assumes "good s" "SendApprovedWithdrawal provider i s = Inr (u, s')"
  shows "withdrawal_step s s'"
  using assms(2) send_commit_step [OF assms(1)] withdrawal_step.idle [of s s]
  by (auto simp: SendApprovedWithdrawal_def bindE_eq_Inr split: option.splits)

lemma confirm_writes_Inr:
  assumes "confirm_writes inp r w s = Inr (u, s')"
  shows "\<exists>s1 s2 fee. set_balances (w_id w) (w_available w) (w_frozen w - wd_amount r) s = Inr s1
     \<and> update_withdrawal (wd_id r) (\<lambda>r. r\<lparr>wd_status := WConfirmed, wd_tx := nullif (ws_tx inp), wd_reason := None, wd_fee := fee\<rparr>) s1 = Inr s2
     \<and> insert_ledger_frozen (w_id w) ''withdrawal'' (wd_id r) ''withdrawal_debit'' (- wd_amount r) (w_available w) 0 (- wd_amount r) s2 = Inr s'"
  using assms unfolding confirm_writes_def bindE_eq_Inr by (elim exE conjE) force

lemma fail_writes_Inr:
  assumes "fail_writes inp r w s = Inr (u, s')"
  shows "\<exists>s1 s2. set_balances (w_id w) (wrap64 (w_available w + wd_amount r)) (w_frozen w - wd_amount r) s = Inr s1
     \<and> update_withdrawal (wd_id r) (\<lambda>r. r\<lparr>wd_status := WFailed, wd_tx := nullif (ws_tx inp), wd_reason := Some (ws_reason inp)\<rparr>) s1 = Inr s2
     \<and> insert_ledger_frozen (w_id w) ''withdrawal'' (wd_id r) ''withdrawal_unfreeze'' (wd_amount r) (wrap64 (w_available w + wd_amount r))
         (wd_amount r) (- wd_amount r) s2 = Inr s'"
  using assms unfolding fail_writes_def Let_def bindE_eq_Inr by (elim exE conjE) force

lemma ApplyWithdrawalStatus_step:
  assumes g: "good s" and "ApplyWithdrawalStatus inp s = Inr (u, s')"
  shows "withdrawal_step s s'"
proof -
  from assms(2) obtain r w where r0: "lookup (\<lambda>r. wd_id r = ws_order inp \<or> wd_order r = Some (ws_order inp)) (withdrawals s) = Some r"
    and w: "wallet_by_id s (wd_wallet r) = Some w"
    and c: "(if status_code (wd_status r) = ws_status inp then Inr ((), s)
      else if wd_status r \<noteq> WBroadcasted then Inl (Chain ErrWithdrawalState)
      else if w_frozen w < wd_amount r then Inl (Chain ErrWithdrawalState)
      else if ws_status inp = ''confirmed'' then confirm_writes inp r w s else fail_writes inp r w s) = Inr (u, s')"
    unfolding ApplyWithdrawalStatus_def bindE_eq_Inr if_Inl_eq_Inr orErr_eq_Inr by (elim exE conjE) force
  show ?thesis
  proof (cases "status_code (wd_status r) = ws_status inp")
    case True
    then show ?thesis using c withdrawal_step.idle [of s s] by simp
  next
    case False
    have st: "wd_status r = WBroadcasted" and le: "wd_amount r \<le> w_frozen w"
      and wr: "(if ws_status inp = ''confirmed'' then confirm_writes inp r w s else fail_writes inp r w s) = Inr (u, s')"
      using c False by (simp_all split: if_splits)
    have rm: "r \<in> set (withdrawals s)" using lookup_SomeD [OF r0] by simp
    have d: "distinct (map wd_id (withdrawals s))" using g by (simp add: good_def withdrawals_ok_def)
    have r: "lookup (\<lambda>x. wd_id x = wd_id r) (withdrawals s) = Some r" by (rule lookup_key_unique [OF d rm])
    have wi: "wallet_by_id s (w_id w) = Some w" using wallet_by_id_self [OF w] .
    note ar = withdrawal_amount_range [OF g rm w le]
    show ?thesis
    proof (cases "ws_status inp = ''confirmed''")
      case True
      then obtain s1 s2 fee where s1: "set_balances (w_id w) (w_available w) (w_frozen w - wd_amount r) s = Inr s1"
        and s2: "update_withdrawal (wd_id r) (\<lambda>r. r\<lparr>wd_status := WConfirmed, wd_tx := nullif (ws_tx inp), wd_reason := None, wd_fee := fee\<rparr>) s1 = Inr s2"
        and s3: "insert_ledger_frozen (w_id w) ''withdrawal'' (wd_id r) ''withdrawal_debit'' (- wd_amount r) (w_available w) 0 (- wd_amount r) s2 = Inr s'"
        using wr confirm_writes_Inr by fastforce
      have "row_moves r (wd_status r) WConfirmed s s' \<and> shifted s w (w_available w) (w_frozen w - wd_amount r) s'"
        by (rule settle_writes_step [OF g r wi s1 s2 _ s3]) (simp_all add: keeps_def)
      then show ?thesis using withdrawal_step.consume [of r s s' w] st w le by simp
    next
      case False
      then obtain s1 s2 where s1: "set_balances (w_id w) (wrap64 (w_available w + wd_amount r)) (w_frozen w - wd_amount r) s = Inr s1"
        and s2: "update_withdrawal (wd_id r) (\<lambda>r. r\<lparr>wd_status := WFailed, wd_tx := nullif (ws_tx inp), wd_reason := Some (ws_reason inp)\<rparr>) s1 = Inr s2"
        and s3: "insert_ledger_frozen (w_id w) ''withdrawal'' (wd_id r) ''withdrawal_unfreeze'' (wd_amount r) (wrap64 (w_available w + wd_amount r))
         (wd_amount r) (- wd_amount r) s2 = Inr s'"
        using wr fail_writes_Inr by fastforce
      have "0 \<le> wrap64 (w_available w + wd_amount r)" using set_balances_Inr [OF wi s1] by simp
      then have v: "wrap64 (w_available w + wd_amount r) = w_available w + wd_amount r" "w_available w + wd_amount r \<le> max_int64"
        using wrap_sum [of "w_available w" "wd_amount r"] ar by auto
      have "row_moves r (wd_status r) WFailed s s' \<and> shifted s w (w_available w + wd_amount r) (w_frozen w - wd_amount r) s'"
        by (rule settle_writes_step [OF g r wi s1 [unfolded v(1)] s2 _ s3 [unfolded v(1)]]) (simp_all add: keeps_def)
      then show ?thesis using withdrawal_step.release [of r WBroadcasted WFailed s s' w] st w le v(2) by simp
    qed
  qed
qed

section \<open>Sequences of operations\<close>

text \<open>The contract of an operation: a successful call is a step. What follows from it is proved once.\<close>

locale withdrawal_operation =
  fixes run :: "'x \<Rightarrow> 'r tx"
  assumes is_step: "good s \<Longrightarrow> run x s = Inr (r, s') \<Longrightarrow> withdrawal_step s s'"
begin

lemma keeps_good: "good s \<Longrightarrow> run x s = Inr (r, s') \<Longrightarrow> good s'"
  using is_step withdrawal_step_good by blast

lemma attempt_steps: "good s \<Longrightarrow> withdrawal_step\<^sup>*\<^sup>* s (attempt (run x) s)"
  by (cases "run x s") (auto simp: attempt_def intro: is_step)

end

interpretation request: withdrawal_operation "\<lambda>(policy, i). if wi_amount i \<le> max_int64 then RequestWithdrawal policy i else (\<lambda>s. Inl (Chain ChainInvalidAmount))"
  by unfold_locales (auto intro: RequestWithdrawal_step split: if_splits)

interpretation approve: withdrawal_operation "\<lambda>(i, rv). ApproveWithdrawal i rv"
  by unfold_locales (auto intro: ApproveWithdrawal_step)

interpretation reject: withdrawal_operation "\<lambda>(i, rv, reason). RejectWithdrawal i rv reason"
  by unfold_locales (auto intro: RejectWithdrawal_step)

interpretation commit: withdrawal_operation "\<lambda>(i, order). send_commit i order"
  by unfold_locales (auto intro: send_commit_step)

interpretation send: withdrawal_operation "\<lambda>(provider, i). SendApprovedWithdrawal provider i"
  by unfold_locales (auto intro: SendApprovedWithdrawal_step)

interpretation settle: withdrawal_operation ApplyWithdrawalStatus
  by unfold_locales (rule ApplyWithdrawalStatus_step)

lemma steps_good:
  "withdrawal_step\<^sup>*\<^sup>* s s' \<Longrightarrow> good s \<Longrightarrow> good s' \<and> funds s' i + paid_out s' i = funds s i + paid_out s i"
proof (induction rule: rtranclp_induct)
  case (step t u)
  then show ?case using withdrawal_step_good [OF step.hyps(2), of i] by simp
qed simp

lemma reconcile_loop_steps:
  "reconcile_loop query ids result s = (r, s') \<Longrightarrow> good s \<Longrightarrow> withdrawal_step\<^sup>*\<^sup>* s s'"
proof (induction query ids result s rule: reconcile_loop.induct)
  case (1 query result s)
  then show ?case by simp
next
  case (2 query i ids result s)
  show ?case
  proof (cases "query i")
    case (Inl e)
    then show ?thesis using "2.prems" by simp
  next
    case (Inr a)
    obtain status txHash reason fee where a: "a = (status, txHash, reason, fee)" by (cases a) auto
    let ?res = "result\<lparr>Checked := Checked result + 1\<rparr>" and ?t = "normalizeProviderWithdrawalStatus status"
    let ?inp = "\<lparr>ws_order = i, ws_tx = txHash, ws_status = ?t, ws_reason = reason, ws_fee = fee\<rparr>"
    note q = Inr [unfolded a]
    note IH = "2.IH" [OF q refl refl refl refl refl]
    show ?thesis
    proof (cases "?t = []")
      case True
      have "reconcile_loop query ids ?res s = (r, s')" using "2.prems"(1) q True by (simp add: Let_def)
      from IH(1) [OF True this "2.prems"(2)] show ?thesis .
    next
      case False
      show ?thesis
      proof (cases "ApplyWithdrawalStatus ?inp s")
        case (Inl e)
        then show ?thesis using "2.prems" q False by (simp add: Let_def)
      next
        case (Inr b)
        obtain u s1 where b: "b = (u, s1)" by (cases b)
        have st: "withdrawal_step s s1" by (rule ApplyWithdrawalStatus_step [OF "2.prems"(2) Inr [unfolded b]])
        have "reconcile_loop query ids (if ?t = ''confirmed'' then ?res\<lparr>Confirmed := Confirmed ?res + 1\<rparr>
             else ?res\<lparr>Failed := Failed ?res + 1\<rparr>) s1 = (r, s')"
          using "2.prems"(1) q False Inr b by (simp add: Let_def)
        from IH(2) [OF False Inr [unfolded b] refl this] have "withdrawal_step\<^sup>*\<^sup>* s1 s'"
          using withdrawal_step_good [OF st "2.prems"(2)] by blast
        then show ?thesis using st by (rule converse_rtranclp_into_rtranclp [rotated])
      qed
    qed
  qed
qed

lemma idle_steps:
  "withdrawals s' = withdrawals s \<Longrightarrow> wallets s' = wallets s \<Longrightarrow> ledger s' = ledger s \<Longrightarrow> withdrawal_step\<^sup>*\<^sup>* s s'"
  by (rule r_into_rtranclp) (rule withdrawal_step.idle)

lemma ReconcileWithdrawals_steps:
  "good s \<Longrightarrow> withdrawal_step\<^sup>*\<^sup>* s (snd (ReconcileWithdrawals provider limit s))"
  unfolding ReconcileWithdrawals_def Let_def
  using reconcile_loop_steps [OF prod.collapse [symmetric]] by (auto split: option.split)

lemma beginProviderEvent_withdrawals: "beginProviderEvent ev ty s = Inr (b, s') \<Longrightarrow> withdrawals s' = withdrawals s"
  by (auto simp: beginProviderEvent_def new_uuid_def Let_def split: option.splits if_splits)

lemma finishProviderEvent_steps: "withdrawal_step\<^sup>*\<^sup>* s (finishProviderEvent ev e s)"
  by (rule idle_steps) (simp_all add: finishProviderEvent_def)

lemma apply_event_steps:
  assumes "good s"
  shows "withdrawal_step\<^sup>*\<^sup>* s (snd (apply_event ev inp s))"
proof (cases "ApplyWithdrawalStatus inp s")
  case (Inl e)
  then show ?thesis by (simp add: apply_event_def finishProviderEvent_steps)
next
  case (Inr r)
  have "withdrawal_step s (snd r)" by (rule ApplyWithdrawalStatus_step [OF assms, of inp "()"]) (simp add: Inr prod_eq_iff)
  then show ?thesis using finishProviderEvent_steps [of "snd r" ev None] Inr
    by (simp add: apply_event_def converse_rtranclp_into_rtranclp)
qed

lemma callback_steps:
  assumes "good s" "beginProviderEvent ev ''withdraw'' s = Inr (b, s1)"
  shows "withdrawal_step\<^sup>*\<^sup>* s s1" "withdrawal_step\<^sup>*\<^sup>* s (snd (apply_event ev inp s1))"
proof -
  show b: "withdrawal_step\<^sup>*\<^sup>* s s1"
    using idle_steps [of s1 s] beginProviderEvent_withdrawals [OF assms(2)] beginProviderEvent_Inr [OF assms(2)] by blast
  show "withdrawal_step\<^sup>*\<^sup>* s (snd (apply_event ev inp s1))"
    using b apply_event_steps [of s1] steps_good [OF b assms(1)] rtranclp_trans by metis
qed

lemma ApplyPQPAWithdrawal_steps:
  assumes "good s"
  shows "withdrawal_step\<^sup>*\<^sup>* s (snd (ApplyPQPAWithdrawal cb s))"
proof -
  define ev where "ev = ''withdraw:'' @ format_int (pw_id cb) @ '':'' @ pw_status cb"
  show ?thesis
    unfolding ApplyPQPAWithdrawal_def Let_def ev_def [symmetric]
    using callback_steps [OF assms, of ev] by (auto split: sum.split)
qed

section \<open>Life cycle of a row\<close>

inductive lifecycle :: "withdrawal_status \<Rightarrow> withdrawal_status \<Rightarrow> bool" where
  "lifecycle WRequested WApproved"
| "lifecycle WRequested WCancelled"
| "lifecycle WApproved WBroadcasted"
| "lifecycle WBroadcasted WConfirmed"
| "lifecycle WBroadcasted WFailed"

inductive_cases lifecycle_finalE: "lifecycle WConfirmed st" "lifecycle WFailed st" "lifecycle WCancelled st"

inductive_simps lifecycle_simps: "lifecycle st st'"

lemma lifecycle_final: "lifecycle\<^sup>*\<^sup>* st st' \<Longrightarrow> st \<in> {WConfirmed, WFailed, WCancelled} \<Longrightarrow> st' = st"
  by (erule converse_rtranclpE) (auto elim: lifecycle_finalE)

definition same_withdrawal :: "withdrawal_row \<Rightarrow> withdrawal_row \<Rightarrow> bool" where
  "same_withdrawal r r' \<longleftrightarrow> wd_id r' = wd_id r \<and> wd_amount r' = wd_amount r \<and> wd_wallet r' = wd_wallet r \<and> wd_user r' = wd_user r"

lemma row_moves_row:
  assumes "row_moves r st st' s s'" "distinct (map wd_id (withdrawals s))" "x \<in> set (withdrawals s)" "lifecycle st st'"
  shows "\<exists>x' \<in> set (withdrawals s'). same_withdrawal x x' \<and> lifecycle\<^sup>*\<^sup>* (wd_status x) (wd_status x')"
proof -
  obtain g where g: "keeps g st'" "withdrawals s' = modify (\<lambda>x. wd_id x = wd_id r) g (withdrawals s)" and r: "r \<in> set (withdrawals s)" "wd_status r = st"
    using assms(1) by (auto simp: row_moves_def)
  let ?x = "if wd_id x = wd_id r then g x else x"
  have m: "?x \<in> set (withdrawals s')" using assms(3) by (auto simp: g(2) set_modify)
  have "wd_id x = wd_id r \<Longrightarrow> x = r" using distinct_key_eq [OF assms(2,3) r(1)] by simp
  then have "same_withdrawal x ?x \<and> lifecycle\<^sup>*\<^sup>* (wd_status x) (wd_status ?x)"
    using g(1) r(2) assms(4) by (auto simp: keeps_def same_withdrawal_def)
  with m show ?thesis by blast
qed

lemma step_row:
  assumes "withdrawal_step s s'" "good s" "x \<in> set (withdrawals s)"
  shows "\<exists>x' \<in> set (withdrawals s'). same_withdrawal x x' \<and> lifecycle\<^sup>*\<^sup>* (wd_status x) (wd_status x')"
proof -
  have d: "distinct (map wd_id (withdrawals s))" using assms(2) by (simp add: good_def withdrawals_ok_def)
  show ?thesis
    using assms(1)
  proof (cases rule: withdrawal_step.cases)
    case (advance r st st')
    then show ?thesis using row_moves_row [OF advance(1) d assms(3)] by (auto intro: lifecycle.intros)
  next
    case (release r st st' w)
    then show ?thesis using row_moves_row [OF release(1) d assms(3)] by (auto intro: lifecycle.intros)
  next
    case (consume r w)
    then show ?thesis using row_moves_row [OF consume(1) d assms(3)] by (auto intro: lifecycle.intros)
  qed (use assms(3) in \<open>auto simp: same_withdrawal_def\<close>)
qed

lemma steps_row:
  assumes "withdrawal_step\<^sup>*\<^sup>* s s'" "good s" "x \<in> set (withdrawals s)"
  shows "\<exists>x' \<in> set (withdrawals s'). same_withdrawal x x' \<and> lifecycle\<^sup>*\<^sup>* (wd_status x) (wd_status x')"
  using assms(1)
proof (induction rule: rtranclp_induct)
  case base
  then show ?case using assms(3) by (auto simp: same_withdrawal_def)
next
  case (step t u)
  obtain y where y: "y \<in> set (withdrawals t)" "same_withdrawal x y" "lifecycle\<^sup>*\<^sup>* (wd_status x) (wd_status y)" using step.IH by blast
  have "good t" using steps_good [OF step.hyps(1) assms(2)] by blast
  then obtain z where "z \<in> set (withdrawals u)" "same_withdrawal y z" "lifecycle\<^sup>*\<^sup>* (wd_status y) (wd_status z)"
    using step_row [OF step.hyps(2) _ y(1)] by blast
  then show ?case using y by (intro bexI [of _ z]) (auto simp: same_withdrawal_def)
qed

lemma request_asset_policy:
  assumes "request_asset policy i s = Inr a"
  shows "validateAmount policy (wi_amount i) = Inr () \<and> (\<exists>u. user_by_id s (wi_user i) = Some u \<and> \<not> u_virtual u)"
proof -
  obtain u where u: "validateAmount policy (wi_amount i) = Inr ()" "user_by_id s (wi_user i) = Some u" "\<not> u_virtual u"
    using assms unfolding request_asset_def bindE_eq_Inr orErr_eq_Inr if_Inl_eq_Inr
    by (elim exE conjE) (auto simp: bindE_eq_Inr split: sum.splits if_splits)
  then show ?thesis by blast
qed

lemma today_request:
  assumes "withdrawals s' = withdrawals s @ [request_row i wid w asset (clock s)]" "clock s' = clock s" "0 \<le> clock s"
  shows "withdrawn_today (wi_user i) (wi_currency i) s' = withdrawn_today (wi_user i) (wi_currency i) s + wi_amount i"
proof -
  have "0 \<le> clock s mod day" by (simp add: day_def)
  then show ?thesis using assms by (simp add: withdrawn_today_def counts_today_def request_row_def)
qed

section \<open>Properties\<close>

text \<open>C3: the operations implement the abstract withdrawal: every successful request, approval, rejection, dispatch
  and status report, every reconciliation run and every gateway callback (errors included) is a
  sequence of the steps freeze, advance, release, consume and idle, when started in a good state.\<close>

theorem withdrawal_operations_refine:
  assumes "good s"
  shows "(wi_amount i \<le> max_int64 \<longrightarrow> RequestWithdrawal policy i s = Inr (wd, s') \<longrightarrow> withdrawal_step s s')
       \<and> (ApproveWithdrawal wid rv s = Inr (wd, s') \<longrightarrow> withdrawal_step s s')
       \<and> (RejectWithdrawal wid rv reason s = Inr (wd, s') \<longrightarrow> withdrawal_step s s')
       \<and> (SendApprovedWithdrawal provider wid s = Inr (u, s') \<longrightarrow> withdrawal_step s s')
       \<and> (ApplyWithdrawalStatus inp s = Inr (u, s') \<longrightarrow> withdrawal_step s s')
       \<and> withdrawal_step\<^sup>*\<^sup>* s (snd (ReconcileWithdrawals gateway limit s))
       \<and> withdrawal_step\<^sup>*\<^sup>* s (snd (ApplyPQPAWithdrawal cb s))"
  by (intro conjI impI) (assumption | rule assms RequestWithdrawal_step ApproveWithdrawal_step RejectWithdrawal_step SendApprovedWithdrawal_step
    ApplyWithdrawalStatus_step ReconcileWithdrawals_steps ApplyPQPAWithdrawal_steps)+

definition sample_withdraw_db :: db where
  "sample_withdraw_db = sample_deposit_db"

definition sample_withdrawal :: WithdrawalInput where
  "sample_withdrawal = \<lparr>wi_user = ''alice'', wi_request = ''w-1'', wi_destination = ''TJRabPrwbZy45sbavfcjinPJC18kjpRTv8'', wi_memo = [],
     wi_chain = ''tron'', wi_currency = ''jade'', wi_amount = 200\<rparr>"

definition sample_rejected :: "db \<Rightarrow> db" where
  "sample_rejected = attempt (RejectWithdrawal ''u0'' ''bob'' ''no'')"

definition sample_policy :: WithdrawalPolicy where
  "sample_policy = \<lparr>MinimumMinor = 100, MaximumMinor = 1000, DailyLimitMinor = 300\<rparr>"

definition sample_requested :: db where
  "sample_requested = attempt (RequestWithdrawal sample_policy sample_withdrawal) sample_withdraw_db"

lemma sample_good: "good sample_withdraw_db"
proof -
  have "withdrawals_ok sample_withdraw_db"
    by (simp add: withdrawals_ok_def sample_withdraw_db_def sample_deposit_db_def sample_db_def empty_db_def pending_sum_def)
  then show ?thesis using sample_deposit_books by (simp add: good_def sample_withdraw_db_def)
qed

lemma sample_request: "\<exists>wd. RequestWithdrawal sample_policy sample_withdrawal sample_withdraw_db = Inr (wd, sample_requested)"
proof -
  have "case RequestWithdrawal sample_policy sample_withdrawal sample_withdraw_db of Inl e \<Rightarrow> False | Inr x \<Rightarrow> True" by code_simp
  then show ?thesis by (auto simp: sample_requested_def attempt_def split: sum.splits)
qed

theorem withdrawal_operations_refine_witness: "withdrawal_step sample_withdraw_db sample_requested"
proof -
  obtain wd where "RequestWithdrawal sample_policy sample_withdrawal sample_withdraw_db = Inr (wd, sample_requested)" using sample_request by blast
  moreover have "wi_amount sample_withdrawal \<le> max_int64" by (simp add: sample_withdrawal_def max_int64_def)
  ultimately show ?thesis
    using withdrawal_operations_refine [OF sample_good, THEN conjunct1] by blast
qed

text \<open>in every state reached by withdrawal steps the books balance, the frozen balance of each wallet covers its
  unfinished withdrawals, and money is conserved: available plus frozen plus what has been paid out is
  what it was, so a rejected or failed withdrawal returns exactly what was frozen and a confirmed one
  costs exactly its amount.\<close>

theorem withdrawal_conservation:
  assumes "withdrawal_step\<^sup>*\<^sup>* s s'" "good s"
  shows "books_ok s' \<and> withdrawals_ok s' \<and> funds s' wid + paid_out s' wid = funds s wid + paid_out s wid
       \<and> (\<forall>w. wallet_by_id s' wid = Some w \<longrightarrow> pending_sum s' wid \<le> w_frozen w)"
  using steps_good [OF assms, of wid] frozen_covers unfolding good_def by blast

theorem withdrawal_conservation_witness:
  "funds sample_requested ''wj'' = 500 \<and> pending_sum sample_requested ''wj'' = 200 \<and> paid_out sample_requested ''wj'' = 0"
proof -
  have m: "wi_amount sample_withdrawal \<le> max_int64" by (simp add: sample_withdrawal_def max_int64_def)
  obtain wd where "RequestWithdrawal sample_policy sample_withdrawal sample_withdraw_db = Inr (wd, sample_requested)" using sample_request by blast
  then have "withdrawal_step\<^sup>*\<^sup>* sample_withdraw_db sample_requested" using RequestWithdrawal_step [OF sample_good _ m] by blast
  from withdrawal_conservation [OF this sample_good, of "''wj''"]
  have "funds sample_requested ''wj'' + paid_out sample_requested ''wj'' = funds sample_withdraw_db ''wj'' + paid_out sample_withdraw_db ''wj''" by blast
  moreover have "funds sample_withdraw_db ''wj'' = 500" "paid_out sample_withdraw_db ''wj'' = 0" "paid_out sample_requested ''wj'' = 0"
    "pending_sum sample_requested ''wj'' = 200" by code_simp+
  ultimately show ?thesis by simp
qed

text \<open>a withdrawal keeps its user, wallet and amount for ever and its status only moves along requested, approved,
  broadcasted, confirmed or failed, or from requested to cancelled; once confirmed, failed or
  cancelled it never changes again, whatever operations and callbacks follow.\<close>

theorem withdrawal_lifecycle:
  assumes "withdrawal_step\<^sup>*\<^sup>* s s'" "good s" "r \<in> set (withdrawals s)"
  shows "\<exists>r' \<in> set (withdrawals s'). same_withdrawal r r' \<and> lifecycle\<^sup>*\<^sup>* (wd_status r) (wd_status r')
       \<and> (wd_status r \<in> {WConfirmed, WFailed, WCancelled} \<longrightarrow> wd_status r' = wd_status r)"
proof -
  obtain r' where r': "r' \<in> set (withdrawals s')" "same_withdrawal r r'" "lifecycle\<^sup>*\<^sup>* (wd_status r) (wd_status r')"
    using steps_row [OF assms] by blast
  have "wd_status r' = wd_status r" if "wd_status r \<in> {WConfirmed, WFailed, WCancelled}"
    using lifecycle_final [OF r'(3) that] .
  with r' show ?thesis by blast
qed

theorem withdrawal_lifecycle_witness:
  "\<exists>r' \<in> set (withdrawals (sample_rejected sample_requested)). wd_status r' = WCancelled \<and> wd_amount r' = 200"
proof -
  have m: "wi_amount sample_withdrawal \<le> max_int64" by (simp add: sample_withdrawal_def max_int64_def)
  obtain wd where "RequestWithdrawal sample_policy sample_withdrawal sample_withdraw_db = Inr (wd, sample_requested)" using sample_request by blast
  then have g: "good sample_requested" using RequestWithdrawal_step [OF sample_good _ m] withdrawal_step_good [OF _ sample_good] by blast
  let ?t = "sample_rejected sample_requested"
  have s: "withdrawal_step\<^sup>*\<^sup>* sample_requested ?t"
    unfolding sample_rejected_def by (rule reject.attempt_steps [OF g, of "(''u0'', ''bob'', ''no'')", unfolded prod.case])
  have l: "map wd_amount (withdrawals sample_requested) = [200]" by code_simp
  have "map wd_status (withdrawals ?t) = [WCancelled]" by code_simp
  with l obtain r x where r: "withdrawals sample_requested = [r]" "wd_amount r = 200" "withdrawals ?t = [x]" "wd_status x = WCancelled"
    by (auto simp: map_eq_Cons_conv)
  have "r \<in> set (withdrawals sample_requested)" by (simp add: r(1))
  from withdrawal_lifecycle [OF s g this] obtain r' where "r' \<in> set (withdrawals ?t)" "same_withdrawal r r'" by blast
  then show ?thesis using r(2-4) by (intro bexI [of _ r']) (simp_all add: same_withdrawal_def)
qed

text \<open>a new request that is accepted lies within the policy's minimum and maximum, comes from a real account,
  and leaves what the user has asked for since midnight UTC in the currency, this request
  included, within the daily limit; a limit of zero is no limit.\<close>

theorem withdrawal_limits:
  assumes "good s" "0 \<le> clock s" "wi_amount input \<le> max_int64" "RequestWithdrawal policy input s = Inr (wd, s')"
    and "findWithdrawalByRequestID s (wi_user (normalize_withdrawal input)) (wi_request (normalize_withdrawal input)) = None"
  defines "i \<equiv> normalize_withdrawal input"
  shows "withdrawn_today (wi_user i) (wi_currency i) s' = withdrawn_today (wi_user i) (wi_currency i) s + wi_amount i
       \<and> (0 < DailyLimitMinor policy \<longrightarrow> withdrawn_today (wi_user i) (wi_currency i) s' \<le> DailyLimitMinor policy)
       \<and> MinimumMinor policy \<le> max (wi_amount i) 0 \<and> (0 < MaximumMinor policy \<longrightarrow> wi_amount i \<le> MaximumMinor policy)
       \<and> (\<exists>u. user_by_id s (wi_user i) = Some u \<and> \<not> u_virtual u)"
proof -
  have am: "wi_amount i \<le> max_int64" using assms(3) by (simp add: i_def normalize_withdrawal_def)
  obtain w asset where w: "wallet_of s (wi_user i) (wi_currency i) = Some w" "0 < wi_amount i" "request_asset policy i s = Inr asset"
    "check_daily policy i s = Inr ()" "request_writes i w asset s = Inr (wd, s')"
    using RequestWithdrawal_Inr [OF assms(4)] assms(5) unfolding i_def by auto
  obtain wid where s': "withdrawals s' = withdrawals s @ [request_row i wid (w_id w) asset (clock s)]" "clock s' = clock s"
    using request_writes_step [OF assms(1) w(1,2) am w(5)] by blast
  note t = today_request [OF s' assms(2)]
  have "withdrawn_today (wi_user i) (wi_currency i) s + wi_amount i \<le> DailyLimitMinor policy" if "0 < DailyLimitMinor policy"
    using w(4) that by (auto simp: check_daily_def Let_def split: if_splits)
  moreover have "MinimumMinor policy \<le> max (wi_amount i) 0" "0 < MaximumMinor policy \<longrightarrow> wi_amount i \<le> MaximumMinor policy"
    using request_asset_policy [OF w(3)] by (auto simp: validateAmount_def split: if_splits)
  ultimately show ?thesis using t request_asset_policy [OF w(3)] by simp
qed

theorem withdrawal_limits_witness:
  "withdrawn_today ''alice'' ''JADE'' sample_requested = 200
   \<and> (case RequestWithdrawal sample_policy (sample_withdrawal\<lparr>wi_request := ''w-2''\<rparr>) sample_requested of
        Inl e \<Rightarrow> e = Chain ErrWithdrawalDailyLimit | Inr _ \<Rightarrow> False)"
proof -
  obtain wd where r: "RequestWithdrawal sample_policy sample_withdrawal sample_withdraw_db = Inr (wd, sample_requested)" using sample_request by blast
  have m: "wi_amount sample_withdrawal \<le> max_int64" by (simp add: sample_withdrawal_def max_int64_def)
  have c: "0 \<le> clock sample_withdraw_db" by (simp add: sample_withdraw_db_def sample_deposit_db_def sample_db_def)
  have n: "findWithdrawalByRequestID sample_withdraw_db (wi_user (normalize_withdrawal sample_withdrawal)) (wi_request (normalize_withdrawal sample_withdrawal)) = None"
    by (simp add: findWithdrawalByRequestID_def withdrawal_where_def sample_withdraw_db_def sample_deposit_db_def sample_db_def empty_db_def)
  have i: "wi_user (normalize_withdrawal sample_withdrawal) = ''alice''" "wi_currency (normalize_withdrawal sample_withdrawal) = ''JADE''"
    "wi_amount (normalize_withdrawal sample_withdrawal) = 200" "withdrawn_today ''alice'' ''JADE'' sample_withdraw_db = 0" by code_simp+
  have "withdrawn_today ''alice'' ''JADE'' sample_requested = 200"
    using withdrawal_limits [OF sample_good c m r n, THEN conjunct1, unfolded i] by simp
  moreover have "case RequestWithdrawal sample_policy (sample_withdrawal\<lparr>wi_request := ''w-2''\<rparr>) sample_requested of
        Inl e \<Rightarrow> e = Chain ErrWithdrawalDailyLimit | Inr _ \<Rightarrow> False" by code_simp
  ultimately show ?thesis by blast
qed

end
