(* ===== verification/Lucky_Spin.thy ===== *)
theory Lucky_Spin
  imports Credit
begin

text \<open>
  The prize wheel of \<^verbatim>\<open>internal/application/credit\<close>: drawing (\<^verbatim>\<open>spin.go\<close>), its configuration (\<^verbatim>\<open>spin_config.go\<close>), its
  management and the public records (\<^verbatim>\<open>spin_management.go\<close>). \<open>random\<close> is the random source of a draw, \<open>parses\<close> is
  \<^verbatim>\<open>uuid.Parse\<close> answering without an error.
\<close>

section \<open>spin.go: choosing a prize\<close>

text \<open>The sum of the weights, or \<open>None\<close> for a list the draw refuses.\<close>

fun total_weight :: "int \<Rightarrow> spin_prize list \<Rightarrow> int option" where
  "total_weight acc [] = Some acc"
| "total_weight acc (p # ps) =
     (if sp_disabled p then total_weight acc ps
      else if sp_id p = [] \<or> sp_label p = [] \<or> sp_amount p \<le> 0 \<or> sp_weight p < 0 \<or> acc > max_int64 - sp_weight p
              \<or> \<not> validCurrency (sp_currency p) then None
      else total_weight (acc + sp_weight p) ps)"

fun pick_prize :: "int \<Rightarrow> spin_prize list \<Rightarrow> spin_prize option" where
  "pick_prize cursor [] = None"
| "pick_prize cursor (p # ps) =
     (if sp_disabled p then pick_prize cursor ps
      else if cursor < sp_weight p then Some p
      else pick_prize (cursor - sp_weight p) ps)"

definition choosePrize :: "(int \<Rightarrow> error + int) \<Rightarrow> spin_prize list \<Rightarrow> spin_prize option" where
  "choosePrize random prizes =
     (case total_weight 0 prizes of
        None \<Rightarrow> None
      | Some acc \<Rightarrow> if acc \<le> 0 then None
          else (case random acc of Inl e \<Rightarrow> None | Inr v \<Rightarrow> pick_prize v prizes))"

section \<open>spin.go: a draw\<close>

record SpinResult =
  sn_id :: string
  sn_spin :: string
  sn_prize :: string
  sn_label :: string
  sn_reward_currency :: string
  sn_reward :: int
  sn_cost_currency :: string
  sn_cost :: int
  sn_cost_balance :: int
  sn_reward_balance :: int
  sn_created :: int
  sn_cost_decimals :: int
  sn_reward_decimals :: int
  sn_cost_after_spin :: int
  sn_cost_text :: string
  sn_reward_text :: string
  sn_cost_available :: string
  sn_reward_available :: string

definition spin_result_of :: "spin_record_row \<Rightarrow> SpinResult" where
  "spin_result_of r = \<lparr>sn_id = ss_id r, sn_spin = ss_spin r, sn_prize = ss_prize r, sn_label = ss_label r,
     sn_reward_currency = ss_reward_currency r, sn_reward = ss_reward r, sn_cost_currency = ss_cost_currency r, sn_cost = ss_cost r,
     sn_cost_balance = ss_cost_after r, sn_reward_balance = ss_reward_after r, sn_created = ss_created r, sn_cost_decimals = 0,
     sn_reward_decimals = 0, sn_cost_after_spin = 0, sn_cost_text = [], sn_reward_text = [], sn_cost_available = [],
     sn_reward_available = []\<rparr>"

definition findSpin :: "string \<Rightarrow> string \<Rightarrow> db \<Rightarrow> SpinResult option" where
  "findSpin user request s =
     map_option spin_result_of (lookup (\<lambda>r. ss_user r = user \<and> ss_request r = request) (spin_records s))"

definition formatSpinValues :: "SpinResult \<Rightarrow> error + SpinResult" where
  "formatSpinValues r =
     bindE (FormatDisplayAmount (sn_cost r) (sn_cost_decimals r)) (\<lambda>cost.
     bindE (FormatDisplayAmount (sn_reward r) (sn_reward_decimals r)) (\<lambda>reward.
     bindE (FormatDisplayAmount (sn_cost_after_spin r) (sn_cost_decimals r)) (\<lambda>costAvailable.
     bindE (FormatDisplayAmount (sn_reward_balance r) (sn_reward_decimals r)) (\<lambda>rewardAvailable.
     Inr (r\<lparr>sn_cost_text := cost, sn_reward_text := reward, sn_cost_available := costAvailable, sn_reward_available := rewardAvailable\<rparr>)))))"

definition formatSpin :: "SpinResult \<Rightarrow> db \<Rightarrow> error + SpinResult" where
  "formatSpin r s =
     bindE (orErr (DB NoRows) (lookup (\<lambda>c. c_code c = sn_cost_currency r) (currencies s))) (\<lambda>c.
     bindE (orErr (DB NoRows) (lookup (\<lambda>c. c_code c = sn_reward_currency r) (currencies s))) (\<lambda>d.
     formatSpinValues (r\<lparr>sn_cost_decimals := c_decimals c, sn_reward_decimals := c_decimals d,
       sn_cost_after_spin := (if sn_cost_currency r = sn_reward_currency r then sn_reward_balance r else sn_cost_balance r)\<rparr>)))"

definition findSpinConfig :: "string \<Rightarrow> bool \<Rightarrow> db \<Rightarrow> spin_config_row option" where
  "findSpinConfig idOrCode enabledOnly s =
     lookup (\<lambda>c. (sc_id c = idOrCode \<or> sc_code c = idOrCode) \<and> \<not> sc_deleted c \<and> (\<not> enabledOnly \<or> sc_enabled c)) (spin_configs s)"

definition insert_spin_record :: "spin_record_row \<Rightarrow> db \<Rightarrow> error + db" where
  "insert_spin_record r s =
     (if ss_reward r \<le> 0 \<or> ss_cost r \<le> 0 then Inl (DB Check)
      else if list_ex (\<lambda>x. ss_id x = ss_id r \<or> (ss_user x = ss_user r \<and> ss_request x = ss_request r)) (spin_records s) then Inl (DB Unique)
      else Inr (s\<lparr>spin_records := spin_records s @ [r]\<rparr>))"

text \<open>The remarks of the two ledger entries, Chinese texts as their UTF-8 bytes.\<close>

definition cost_remark :: string where
  "cost_remark = map char_of [232 :: nat, 189, 172, 231, 155, 152, 229, 143, 130, 228, 184, 142, 230, 182, 136, 232, 128, 151]"

definition reward_remark :: string where
  "reward_remark = map char_of [229 :: nat, 185, 184, 232, 191, 144, 232, 189, 172, 231, 155, 152, 229, 165, 150, 229, 138, 177]"

text \<open>The record, and the draw.\<close>

definition spin_row :: "string \<Rightarrow> string \<Rightarrow> string \<Rightarrow> spin_config_row \<Rightarrow> spin_prize \<Rightarrow> int \<Rightarrow> int \<Rightarrow> int \<Rightarrow> spin_record_row" where
  "spin_row i user request c p costBalance rewardBalance now =
     \<lparr>ss_id = i, ss_user = user, ss_request = request, ss_spin = sc_id c, ss_prize = sp_id p, ss_label = sp_label p,
      ss_reward_currency = sp_currency p, ss_reward = sp_amount p, ss_cost_currency = sc_currency c, ss_cost = sc_cost c,
      ss_cost_after = costBalance, ss_reward_after = rewardBalance, ss_created = now\<rparr>"

definition spin_writes :: "string \<Rightarrow> string \<Rightarrow> spin_config_row \<Rightarrow> spin_prize \<Rightarrow> SpinResult tx" where
  "spin_writes user request c p s =
     bindE (deductBalance user (sc_currency c) (sc_cost c) s) (\<lambda>(costBalance, s).
     let (i, s) = new_uuid s in
     bindE (writeLedger user (sc_currency c) ''lucky_spin_cost'' i (- sc_cost c) costBalance cost_remark [] s) (\<lambda>s.
     bindE (addBalance user (sp_currency p) (sp_amount p) s) (\<lambda>(rewardBalance, s).
     bindE (writeLedger user (sp_currency p) ''lucky_spin_reward'' i (sp_amount p) rewardBalance reward_remark [] s) (\<lambda>s.
     let r = spin_row i user request c p costBalance rewardBalance (clock s) in
     bindE (insert_spin_record r s) (\<lambda>s.
     bindE (formatSpin (spin_result_of r) s) (\<lambda>x. Inr (x, s)))))))"

definition LuckySpin :: "(int \<Rightarrow> error + int) \<Rightarrow> string \<Rightarrow> string \<Rightarrow> string \<Rightarrow> SpinResult tx" where
  "LuckySpin random user spin request s =
     (if user = [] \<or> spin = [] \<or> request = [] then Inl (Credit CreditUserNotFound)
      else case findSpin user request s of
        Some r \<Rightarrow> bindE (formatSpin r s) (\<lambda>x. Inr (x, s))
      | None \<Rightarrow>
          bindE (orErr (Credit ErrActivityUnavailable) (findSpinConfig spin True s)) (\<lambda>c.
          bindE (orErr (Credit ErrActivityUnavailable) (choosePrize random (sc_prizes c))) (\<lambda>p.
          spin_writes user request c p s)))"

section \<open>spin_config.go\<close>

definition by_order :: "spin_config_row list \<Rightarrow> spin_config_row list" where
  "by_order cs = sort_key sc_sort (sort_key sc_created cs)"

definition ListSpinConfigs :: "bool \<Rightarrow> db \<Rightarrow> spin_config_row list" where
  "ListSpinConfigs enabledOnly s = by_order (filter (\<lambda>c. \<not> sc_deleted c \<and> (\<not> enabledOnly \<or> sc_enabled c)) (spin_configs s))"

definition known_currency :: "string \<Rightarrow> db \<Rightarrow> bool" where
  "known_currency c s \<longleftrightarrow> lookup (\<lambda>r. c_code r = c) (currencies s) \<noteq> None"

text \<open>The prizes of one configuration, in the order of the request: \<open>old\<close> are the ids it has, \<open>seen\<close> those already saved.\<close>

fun save_prizes :: "bool \<Rightarrow> string list \<Rightarrow> string list \<Rightarrow> spin_prize list \<Rightarrow> spin_prize list tx" where
  "save_prizes creating old seen [] s = Inr ([], s)"
| "save_prizes creating old seen (q # ps) s =
     (let p = q\<lparr>sp_currency := to_upper (trim_space (sp_currency q))\<rparr> in
      if sp_label p = [] \<or> \<not> validCurrency (sp_currency p) \<or> sp_amount p \<le> 0 \<or> sp_weight p < 0 then Inl (Credit ErrInvalidSpinConfig)
      else bindE (if sp_id p = [] then let (i, s) = new_uuid s in
                    if list_ex (\<lambda>c. list_ex (\<lambda>x. sp_id x = i) (sc_prizes c)) (spin_configs s) then Inl (DB Unique) else Inr (p\<lparr>sp_id := i\<rparr>, s)
                  else if creating \<or> sp_id p \<in> set seen \<or> sp_id p \<notin> set old then Inl (Credit ErrInvalidSpinConfig)
                  else Inr (p, s)) (\<lambda>(p, s).
           if \<not> known_currency (sp_currency p) s then Inl (DB ForeignKey)
           else bindE (save_prizes creating old (sp_id p # seen) ps s) (\<lambda>(saved, s). Inr (p # saved, s))))"

definition save_config :: "(int \<Rightarrow> error + int) \<Rightarrow> spin_config_row \<Rightarrow> spin_config_row tx" where
  "save_config random item s =
     (let v = item\<lparr>sc_title := trim_space (sc_title item), sc_currency := to_upper (trim_space (sc_currency item))\<rparr> in
      if sc_title v = [] \<or> \<not> validCurrency (sc_currency v) \<or> sc_cost v \<le> 0 \<or> sc_prizes v = [] then Inl (Credit ErrInvalidSpinConfig)
      else bindE (if sc_id v = [] then let (i, s) = new_uuid s in
               if list_ex (\<lambda>c. sc_id c = i \<or> sc_code c = ''spin-'' @ filter (\<lambda>c. c \<noteq> CHR ''-'') i) (spin_configs s) then Inl (DB Unique)
               else if \<not> known_currency (sc_currency v) s then Inl (DB ForeignKey)
               else let v = v\<lparr>sc_id := i, sc_code := ''spin-'' @ filter (\<lambda>c. c \<noteq> CHR ''-'') i, sc_created := clock s, sc_deleted := False\<rparr>
                    in Inr ((v, []), s\<lparr>spin_configs := spin_configs s @ [v\<lparr>sc_prizes := []\<rparr>]\<rparr>)
             else case lookup (\<lambda>c. sc_id c = sc_id v \<and> \<not> sc_deleted c) (spin_configs s) of
               None \<Rightarrow> Inl (Credit ErrSpinConfigNotFound)
             | Some c \<Rightarrow> if \<not> known_currency (sc_currency v) s then Inl (DB ForeignKey)
                 else Inr ((v\<lparr>sc_code := sc_code c, sc_created := sc_created c, sc_deleted := False\<rparr>, map sp_id (sc_prizes c)), s)) (\<lambda>((v, old), s).
           bindE (save_prizes (sc_id item = []) old [] (sc_prizes v) s) (\<lambda>(prizes, s).
           if sc_enabled v \<and> choosePrize random prizes = None then Inl (Credit ErrInvalidSpinConfig)
           else let v = v\<lparr>sc_prizes := prizes\<rparr> in
                Inr (v, s\<lparr>spin_configs := modify (\<lambda>c. sc_id c = sc_id v \<and> \<not> sc_deleted c) (\<lambda>_. v) (spin_configs s)\<rparr>))))"

fun save_configs :: "(int \<Rightarrow> error + int) \<Rightarrow> spin_config_row list \<Rightarrow> spin_config_row list tx" where
  "save_configs random [] s = Inr ([], s)"
| "save_configs random (v # vs) s =
     bindE (save_config random v s) (\<lambda>(c, s). bindE (save_configs random vs s) (\<lambda>(cs, s). Inr (c # cs, s)))"

definition saveSpinConfigs :: "(int \<Rightarrow> error + int) \<Rightarrow> spin_config_row list \<Rightarrow> bool \<Rightarrow> spin_config_row list tx" where
  "saveSpinConfigs random items replace s =
     (if items = [] then Inl (Credit ErrInvalidSpinConfig)
      else bindE (save_configs random items s) (\<lambda>(saved, s).
        if replace then
          let s = s\<lparr>spin_configs := modify (\<lambda>c. sc_id c \<notin> sc_id ` set saved) (\<lambda>c. c\<lparr>sc_enabled := False\<rparr>) (spin_configs s)\<rparr>
          in Inr (ListSpinConfigs False s, s)
        else Inr (saved, s)))"

definition ReplaceSpinConfigs :: "(int \<Rightarrow> error + int) \<Rightarrow> spin_config_row list \<Rightarrow> spin_config_row list tx" where
  "ReplaceSpinConfigs random items = saveSpinConfigs random items True"

definition SaveSpinConfig :: "(int \<Rightarrow> error + int) \<Rightarrow> spin_config_row \<Rightarrow> spin_config_row tx" where
  "SaveSpinConfig random item s = bindE (saveSpinConfigs random [item] False s) (\<lambda>(items, s). Inr (hd items, s))"

section \<open>spin_management.go\<close>

definition is_admin :: "string \<Rightarrow> db \<Rightarrow> bool" where
  "is_admin actor s \<longleftrightarrow> list_ex (\<lambda>u. u_id u = actor \<and> u_status u = ''active'') (users s)
     \<and> list_ex (\<lambda>r. r = (actor, ''admin'')) (user_roles s)"

definition ChangeSpinState :: "(string \<Rightarrow> bool) \<Rightarrow> (int \<Rightarrow> error + int) \<Rightarrow> string \<Rightarrow> string \<Rightarrow> bool option \<Rightarrow> unit tx" where
  "ChangeSpinState parses random actor i enabled s =
     (if \<not> parses i then Inl (Credit ErrSpinConfigNotFound)
      else if \<not> is_admin actor s then Inl (Credit ErrSpinManagementForbidden)
      else bindE (orErr (Credit ErrSpinConfigNotFound) (lookup (\<lambda>c. sc_id c = i) (spin_configs s))) (\<lambda>c.
      if sc_deleted c then (if enabled = None then Inr ((), s) else Inl (Credit ErrSpinConfigNotFound))
      else case enabled of
        None \<Rightarrow> bindE (insert_audit actor ''spin.delete'' ''spin'' i (PObj [])
                  (s\<lparr>spin_configs := modify (\<lambda>c. sc_id c = i) (\<lambda>c. c\<lparr>sc_deleted := True, sc_enabled := False\<rparr>) (spin_configs s)\<rparr>)) (\<lambda>s. Inr ((), s))
      | Some on \<Rightarrow>
          bindE (if on then bindE (orErr (DB NoRows) (findSpinConfig i False s)) (\<lambda>v.
                   if choosePrize random (sc_prizes v) = None then Inl (Credit ErrInvalidSpinConfig) else Inr ()) else Inr ()) (\<lambda>_.
          bindE (insert_audit actor ''spin.enabled'' ''spin'' i (PObj [])
                  (s\<lparr>spin_configs := modify (\<lambda>c. sc_id c = i) (\<lambda>c. c\<lparr>sc_enabled := on\<rparr>) (spin_configs s)\<rparr>)) (\<lambda>s. Inr ((), s)))))"

record SpinRecordQuery =
  qs_spin :: string
  qs_currency :: string
  qs_user :: int
  qs_limit :: int
  qs_offset :: int

definition ListSpinRecords :: "(string \<Rightarrow> bool) \<Rightarrow> SpinRecordQuery \<Rightarrow> db \<Rightarrow> error + ((spin_record_row \<times> user_row) list \<times> int)" where
  "ListSpinRecords parses q s =
     (if qs_spin q \<noteq> [] \<and> \<not> parses (qs_spin q) then Inl (Credit ErrInvalidSpinConfig)
      else let rows = concat (map (\<lambda>r. case user_by_id s (ss_user r) of None \<Rightarrow> [] | Some u \<Rightarrow> [(r, u)]) (spin_records s));
               found = filter (\<lambda>(r, u). (qs_spin q = [] \<or> ss_spin r = qs_spin q) \<and> (qs_currency q = [] \<or> ss_reward_currency r = qs_currency q)
                         \<and> (qs_user q = 0 \<or> u_public_id u = qs_user q)) rows
           in Inr (take (if qs_limit q < 1 \<or> qs_limit q > 100 then 50 else nat (qs_limit q)) (drop (nat (qs_offset q))
                     (rev (sort_key (ss_created \<circ> fst) (sort_key (\<lambda>(r, u). map code (ss_id r)) found)))), int (length found)))"


section \<open>The odds\<close>

definition enabled_weight :: "spin_prize list \<Rightarrow> int" where
  "enabled_weight ps = (\<Sum>p \<leftarrow> filter (\<lambda>p. \<not> sp_disabled p) ps. sp_weight p)"

lemma total_weight_eq:
  assumes "total_weight acc ps = Some n"
  shows "n = acc + enabled_weight ps"
    and "p \<in> set ps \<Longrightarrow> \<not> sp_disabled p \<Longrightarrow> 0 \<le> sp_weight p \<and> 0 < sp_amount p"
  using assms by (induction acc ps rule: total_weight.induct) (auto simp: enabled_weight_def split: if_splits)

lemma enabled_weight_nonneg:
  "(\<And>p. p \<in> set ps \<Longrightarrow> \<not> sp_disabled p \<Longrightarrow> 0 \<le> sp_weight p) \<Longrightarrow> 0 \<le> enabled_weight ps"
  unfolding enabled_weight_def by (rule sum_list_nonneg) auto

lemma pick_prize_hits:
  assumes "0 \<le> v" "v < enabled_weight ps"
  shows "\<exists>p \<in> set ps. pick_prize v ps = Some p \<and> \<not> sp_disabled p \<and> 0 < sp_weight p"
  using assms by (induction v ps rule: pick_prize.induct) (auto simp: enabled_weight_def)

definition picks :: "spin_prize \<Rightarrow> spin_prize list \<Rightarrow> int set" where
  "picks p ps = {v. 0 \<le> v \<and> v < enabled_weight ps \<and> pick_prize v ps = Some p}"

lemma picks_Cons:
  assumes "\<not> sp_disabled q" "0 \<le> sp_weight q" "0 \<le> enabled_weight ps"
  shows "picks p (q # ps) = (if q = p then {0..<sp_weight q} else {}) \<union> (\<lambda>v. v + sp_weight q) ` picks p ps"
proof (rule set_eqI)
  fix v
  have "v \<in> (\<lambda>v. v + sp_weight q) ` picks p ps \<longleftrightarrow> v - sp_weight q \<in> picks p ps" by (auto simp: image_iff) (metis diff_add_cancel)
  then show "v \<in> picks p (q # ps) \<longleftrightarrow> v \<in> (if q = p then {0..<sp_weight q} else {}) \<union> (\<lambda>v. v + sp_weight q) ` picks p ps"
    using assms by (auto simp: picks_def enabled_weight_def)
qed

lemma finite_picks: "finite (picks p ps)"
  by (rule finite_subset [of _ "{0..<enabled_weight ps}"]) (auto simp: picks_def)

lemma card_picks:
  assumes "\<And>q. q \<in> set ps \<Longrightarrow> \<not> sp_disabled q \<Longrightarrow> 0 \<le> sp_weight q"
  shows "int (card (picks p ps)) = (\<Sum>q \<leftarrow> filter (\<lambda>q. q = p \<and> \<not> sp_disabled q) ps. sp_weight q)"
  using assms
proof (induction ps)
  case Nil
  then show ?case by (simp add: picks_def)
next
  case (Cons q ps)
  have IH: "int (card (picks p ps)) = (\<Sum>q \<leftarrow> filter (\<lambda>q. q = p \<and> \<not> sp_disabled q) ps. sp_weight q)" using Cons by simp
  show ?case
  proof (cases "sp_disabled q")
    case True
    then have "picks p (q # ps) = picks p ps" by (simp add: picks_def enabled_weight_def)
    then show ?thesis using IH True by simp
  next
    case False
    have w: "0 \<le> sp_weight q" "0 \<le> enabled_weight ps" using Cons.prems False enabled_weight_nonneg [of ps] by auto
    have sh: "card ((\<lambda>v. v + sp_weight q) ` picks p ps) = card (picks p ps)" by (rule card_image) (simp add: inj_on_def)
    have "{0..<sp_weight q} \<inter> (\<lambda>v. v + sp_weight q) ` picks p ps = {}" by (auto simp: picks_def)
    then have "card (picks p (q # ps)) = (if q = p then nat (sp_weight q) else 0) + card (picks p ps)"
      unfolding picks_Cons [OF False w] using sh by (auto simp: card_Un_disjoint finite_picks)
    then show ?thesis using IH False w by auto
  qed
qed

text \<open>Prizes are drawn in proportion to their weights. For a list of prizes the draw accepts, with total weight
  \<open>n\<close>, every value the random source may give picks an enabled prize of positive weight and positive amount, and of
  the \<open>n\<close> equally likely values exactly the weight of a prize picks it.\<close>

theorem prize_odds:
  assumes "total_weight 0 ps = Some n" "0 < n"
  shows "(\<forall>v \<in> {0..<n}. \<exists>q \<in> set ps. choosePrize (\<lambda>_. Inr v) ps = Some q \<and> \<not> sp_disabled q \<and> 0 < sp_weight q \<and> 0 < sp_amount q)
    \<and> int (card {v \<in> {0..<n}. choosePrize (\<lambda>_. Inr v) ps = Some p}) = (\<Sum>q \<leftarrow> filter (\<lambda>q. q = p \<and> \<not> sp_disabled q) ps. sp_weight q)"
proof -
  have n: "n = enabled_weight ps" using total_weight_eq(1) [OF assms(1)] by simp
  have "{v \<in> {0..<n}. choosePrize (\<lambda>_. Inr v) ps = Some p} = picks p ps" using assms n by (auto simp: choosePrize_def picks_def)
  moreover have "int (card (picks p ps)) = (\<Sum>q \<leftarrow> filter (\<lambda>q. q = p \<and> \<not> sp_disabled q) ps. sp_weight q)"
    using card_picks total_weight_eq(2) [OF assms(1)] by blast
  ultimately show ?thesis using pick_prize_hits [of _ ps] total_weight_eq(2) [OF assms(1)] assms n by (fastforce simp: choosePrize_def)
qed

definition sample_prizes :: "spin_prize list" where
  "sample_prizes =
     [\<lparr>sp_id = ''a'', sp_label = ''stone'', sp_currency = ''POINTS'', sp_amount = 5, sp_weight = 90, sp_disabled = False\<rparr>,
      \<lparr>sp_id = ''b'', sp_label = ''car'', sp_currency = ''USDT'', sp_amount = 1000, sp_weight = 50, sp_disabled = True\<rparr>,
      \<lparr>sp_id = ''c'', sp_label = ''jade'', sp_currency = ''JADE'', sp_amount = 7, sp_weight = 10, sp_disabled = False\<rparr>]"

lemma sample_total: "total_weight 0 sample_prizes = Some 100"
  by code_simp

theorem prize_odds_witness:
  "int (card {v \<in> {0..<100}. choosePrize (\<lambda>_. Inr v) sample_prizes = Some (sample_prizes ! 2)}) = 10"
  using prize_odds [OF sample_total, of "sample_prizes ! 2"] by (simp add: sample_prizes_def)


section \<open>A draw moves exactly its cost and its prize\<close>

lemma formatSpin_cong: "currencies s = currencies s' \<Longrightarrow> formatSpin r s = formatSpin r s'"
  by (simp add: formatSpin_def)

lemma spin_writes_Inr:
  assumes "books_ok s" "spin_writes u req c p s = Inr (r, s')"
  shows "\<exists>row. books_ok s' \<and> spin_records s' = spin_records s @ [row] \<and> ss_user row = u \<and> ss_request row = req
    \<and> ss_spin row = sc_id c \<and> ss_prize row = sp_id p \<and> formatSpin (spin_result_of row) s' = Inr r
    \<and> ss_cost row = sc_cost c \<and> ss_reward row = sp_amount p \<and> 0 < sc_cost c \<and> 0 < sp_amount p \<and> sc_cost c \<le> balance_of s u (sc_currency c)
    \<and> ss_cost_after row = balance_of s u (sc_currency c) - sc_cost c \<and> ss_reward_after row = balance_of s' u (sp_currency p)
    \<and> (\<exists>e f. ledger s' = ledger s @ [e, f] \<and> l_btype e = ''lucky_spin_cost'' \<and> l_bid e = ss_id row \<and> l_amount e = - sc_cost c
         \<and> l_btype f = ''lucky_spin_reward'' \<and> l_bid f = ss_id row \<and> l_amount f = sp_amount p)
    \<and> (\<forall>a b. balance_of s' a b = balance_of s a b - (if (a, b) = (u, sc_currency c) then sc_cost c else 0)
         + (if (a, b) = (u, sp_currency p) then sp_amount p else 0))"
proof -
  obtain cb t where d: "deductBalance u (sc_currency c) (sc_cost c) s = Inr (cb, t)"
    and rest: "(let (i, s) = new_uuid t in
     bindE (writeLedger u (sc_currency c) ''lucky_spin_cost'' i (- sc_cost c) cb cost_remark [] s) (\<lambda>s.
     bindE (addBalance u (sp_currency p) (sp_amount p) s) (\<lambda>(rewardBalance, s).
     bindE (writeLedger u (sp_currency p) ''lucky_spin_reward'' i (sp_amount p) rewardBalance reward_remark [] s) (\<lambda>s.
     let r = spin_row i u req c p cb rewardBalance (clock s) in
     bindE (insert_spin_record r s) (\<lambda>s.
     bindE (formatSpin (spin_result_of r) s) (\<lambda>x. Inr (x, s))))))) = Inr (r, s')"
    using assms(2) unfolding spin_writes_def by (auto simp: bindE_eq_Inr)
  let ?t = "t\<lparr>next_uuid := Suc (next_uuid t)\<rparr>"
  let ?i = "uuids t (next_uuid t)"
  obtain s1 rb s2 s3 where w1: "writeLedger u (sc_currency c) ''lucky_spin_cost'' ?i (- sc_cost c) cb cost_remark [] ?t = Inr s1"
    and ad: "addBalance u (sp_currency p) (sp_amount p) s1 = Inr (rb, s2)"
    and w2: "writeLedger u (sp_currency p) ''lucky_spin_reward'' ?i (sp_amount p) rb reward_remark [] s2 = Inr s3"
    and ins: "insert_spin_record (spin_row ?i u req c p cb rb (clock s3)) s3 = Inr s'"
    and fm: "formatSpin (spin_result_of (spin_row ?i u req c p cb rb (clock s3))) s' = Inr r"
    using rest by (auto simp: new_uuid_def Let_def bindE_eq_Inr)
  let ?row = "spin_row ?i u req c p cb rb (clock s3)"
  have pos: "0 < sc_cost c" "0 < sp_amount p" and s': "s' = s3\<lparr>spin_records := spin_records s3 @ [?row]\<rparr>"
    using ins by (auto simp: insert_spin_record_def spin_row_def split: if_splits)
  have A: "books_ok s1 \<and> moved_by s u (sc_currency c) (- sc_cost c) 0 s1 \<and> new_entry s ''lucky_spin_cost'' ?i (- sc_cost c) s1 \<and> money_only s s1
      \<and> cb = balance_of s u (sc_currency c) - sc_cost c \<and> 0 \<le> cb"
    by (rule debit_posting [OF assms(1) _ d _ _ _ w1]) (use pos in \<open>simp_all add: ledger_deltas_plain money_only_def\<close>)
  then have "books_ok s1" by blast
  then have B: "books_ok s3 \<and> moved_by s1 u (sp_currency p) (sp_amount p) 0 s3 \<and> new_entry s1 ''lucky_spin_reward'' ?i (sp_amount p) s3 \<and> money_only s1 s3
      \<and> rb = balance_of s1 u (sp_currency p) + sp_amount p \<and> rb \<le> max_int64"
    by (rule credit_posting [OF _ ad refl refl money_only_refl w2]) (simp add: ledger_deltas_plain)
  have same: "balance_of s' a b = balance_of s3 a b" "ledger s' = ledger s3" for a b by (simp_all add: s' balance_of_def wallet_of_def)
  have "money_only s s3" using A B money_only_trans by blast
  then have rec: "spin_records s3 = spin_records s" by (rule money_onlyD)
  have bk: "books_ok s'" by (rule books_ok_cong [of s3]) (use B in \<open>simp_all add: s'\<close>)
  have bal: "balance_of s' a b = balance_of s a b - (if (a, b) = (u, sc_currency c) then sc_cost c else 0)
         + (if (a, b) = (u, sp_currency p) then sp_amount p else 0)" for a b
    using A B same by (simp add: moved_by_def)
  have row: "ss_id ?row = ?i" "ss_user ?row = u" "ss_request ?row = req" "ss_spin ?row = sc_id c" "ss_prize ?row = sp_id p" "ss_cost ?row = sc_cost c"
    "ss_reward ?row = sp_amount p" "ss_cost_after ?row = cb" "ss_reward_after ?row = rb"
    by (simp_all add: spin_row_def)
  have cb: "cb = balance_of s u (sc_currency c) - sc_cost c" "sc_cost c \<le> balance_of s u (sc_currency c)" using A by simp_all
  have rb: "rb = balance_of s' u (sp_currency p)" using B same(1) by (simp add: moved_by_def)
  have added: "spin_records s' = spin_records s @ [?row]" by (simp add: s' rec)
  have led: "\<exists>e f. ledger s' = ledger s @ [e, f] \<and> l_btype e = ''lucky_spin_cost'' \<and> l_bid e = ss_id ?row \<and> l_amount e = - sc_cost c
         \<and> l_btype f = ''lucky_spin_reward'' \<and> l_bid f = ss_id ?row \<and> l_amount f = sp_amount p"
    unfolding row(1) same(2) using A B by (auto simp: new_entry_def)
  show ?thesis
    by (rule exI [of _ ?row], intro conjI allI) (fact bk added row pos cb led bal fm trans [OF row(8) cb(1)] trans [OF row(9) rb])+
qed

text \<open>C29: A draw is exact and repeatable. A first draw of a request charges the price of the configuration found for the
  id or code and pays the prize that was chosen; no other balance changes, the price was affordable, and the record names
  player, request, configuration and prize. Asking again with the same request, whatever configuration is named and
  whatever the random source would give, returns the recorded result and changes nothing.\<close>

theorem spin_exact:
  assumes "books_ok s" "LuckySpin random u spin req s = Inr (r, s')" "findSpin u req s = None"
  shows "\<exists>c p. findSpinConfig spin True s = Some c \<and> choosePrize random (sc_prizes c) = Some p \<and> books_ok s'
    \<and> sn_prize r = sp_id p \<and> sn_spin r = sc_id c \<and> sc_cost c \<le> balance_of s u (sc_currency c)
    \<and> (\<forall>a b. balance_of s' a b = balance_of s a b - (if (a, b) = (u, sc_currency c) then sc_cost c else 0)
         + (if (a, b) = (u, sp_currency p) then sp_amount p else 0))
    \<and> length (ledger s') = length (ledger s) + 2 \<and> length (spin_records s') = length (spin_records s) + 1
    \<and> (\<forall>random' spin'. spin' \<noteq> [] \<longrightarrow> LuckySpin random' u spin' req s' = Inr (r, s'))"
proof -
  obtain c p where ne: "u \<noteq> []" "req \<noteq> []" and c: "findSpinConfig spin True s = Some c" and p: "choosePrize random (sc_prizes c) = Some p"
    and w: "spin_writes u req c p s = Inr (r, s')"
    using assms(2,3) by (auto simp: LuckySpin_def bindE_eq_Inr orErr_eq_Inr split: if_splits)
  obtain row where x: "books_ok s'" "spin_records s' = spin_records s @ [row]" "ss_user row = u" "ss_request row = req" "ss_spin row = sc_id c"
    "ss_prize row = sp_id p" "formatSpin (spin_result_of row) s' = Inr r" "sc_cost c \<le> balance_of s u (sc_currency c)"
    "length (ledger s') = length (ledger s) + 2"
    and bal: "\<forall>a b. balance_of s' a b = balance_of s a b - (if (a, b) = (u, sc_currency c) then sc_cost c else 0)
         + (if (a, b) = (u, sp_currency p) then sp_amount p else 0)"
    using spin_writes_Inr [OF assms(1) w] by force
  have "sn_prize r = sp_id p" "sn_spin r = sc_id c"
    using x(5-7) by (auto simp: formatSpin_def formatSpinValues_def bindE_eq_Inr orErr_eq_Inr spin_result_of_def)
  moreover have "lookup (\<lambda>r. ss_user r = u \<and> ss_request r = req) (spin_records s') = Some row"
    using assms(3) x(2-4) by (simp add: findSpin_def lookup_append)
  then have "LuckySpin random' u spin' req s' = Inr (r, s')" if "spin' \<noteq> []" for random' spin'
    using ne x(7) that by (simp add: LuckySpin_def findSpin_def)
  ultimately show ?thesis
    using c p x bal by (intro exI [of _ c] exI [of _ p]) simp
qed


definition sample_spin_db :: db where
  "sample_spin_db = sample_db\<lparr>spin_configs := [\<lparr>sc_id = ''spin-1'', sc_code = ''daily'', sc_title = ''Daily'', sc_enabled = True,
     sc_currency = ''POINTS'', sc_cost = 300, sc_sort = 0, sc_created = 0, sc_deleted = False, sc_prizes = sample_prizes\<rparr>]\<rparr>"

lemma sample_spin:
  obtains r s' where "LuckySpin (\<lambda>n. Inr 95) ''alice'' ''daily'' ''q1'' sample_spin_db = Inr (r, s')"
proof -
  have "\<not> isl (LuckySpin (\<lambda>n. Inr 95) ''alice'' ''daily'' ''q1'' sample_spin_db)" by code_simp
  then show ?thesis using that by (cases "LuckySpin (\<lambda>n. Inr 95) ''alice'' ''daily'' ''q1'' sample_spin_db") auto
qed

theorem spin_exact_witness:
  "\<exists>r s'. LuckySpin (\<lambda>n. Inr 95) ''alice'' ''daily'' ''q1'' sample_spin_db = Inr (r, s')
     \<and> balance_of s' ''alice'' ''POINTS'' = 700 \<and> balance_of s' ''alice'' ''JADE'' = 507
     \<and> LuckySpin (\<lambda>n. Inl (DB NoRows)) ''alice'' ''other'' ''q1'' s' = Inr (r, s')"
proof -
  obtain r s' where run: "LuckySpin (\<lambda>n. Inr 95) ''alice'' ''daily'' ''q1'' sample_spin_db = Inr (r, s')" by (rule sample_spin)
  have ok: "books_ok sample_spin_db" by (rule books_ok_cong [OF sample_books_ok]) (simp_all add: sample_spin_db_def)
  have n: "findSpin ''alice'' ''q1'' sample_spin_db = None" by (simp add: findSpin_def sample_spin_db_def sample_db_def empty_db_def)
  obtain c p where c: "findSpinConfig ''daily'' True sample_spin_db = Some c" and p: "choosePrize (\<lambda>n. Inr 95) (sc_prizes c) = Some p"
    and bal: "\<And>a b. balance_of s' a b = balance_of sample_spin_db a b - (if (a, b) = (''alice'', sc_currency c) then sc_cost c else 0)
         + (if (a, b) = (''alice'', sp_currency p) then sp_amount p else 0)"
    and again: "LuckySpin (\<lambda>n. Inl (DB NoRows)) ''alice'' ''other'' ''q1'' s' = Inr (r, s')"
    using spin_exact [OF ok run n] by auto
  have "sc_currency c = ''POINTS'' \<and> sc_cost c = 300 \<and> sc_prizes c = sample_prizes"
    using c by (auto simp: findSpinConfig_def sample_spin_db_def)
  moreover from this have "sp_currency p = ''JADE'' \<and> sp_amount p = 7"
    using p by (auto simp: choosePrize_def sample_total) (auto simp: sample_prizes_def)
  ultimately show ?thesis
    using run again bal [of "''alice''" "''POINTS''"] bal [of "''alice''" "''JADE''"]
    by (auto simp: balance_of_def wallet_of_def sample_spin_db_def sample_db_def)
qed

section \<open>Enabled configurations can be drawn\<close>

definition drawable :: "spin_prize list \<Rightarrow> bool" where
  "drawable ps \<longleftrightarrow> (case total_weight 0 ps of None \<Rightarrow> False | Some n \<Rightarrow> 0 < n)"

definition spins_ok :: "(string \<Rightarrow> bool) \<Rightarrow> db \<Rightarrow> bool" where
  "spins_ok parses s \<longleftrightarrow> distinct (map sc_id (spin_configs s))
     \<and> (\<forall>c \<in> set (spin_configs s). \<not> parses (sc_code c) \<and> (sc_enabled c \<and> \<not> sc_deleted c \<longrightarrow> drawable (sc_prizes c)))"

lemma choosePrize_drawable: "choosePrize random ps \<noteq> None \<Longrightarrow> drawable ps"
  by (auto simp: choosePrize_def drawable_def split: option.splits if_splits)

lemma refused_elim: "(if b then Inl e else X) = Inr y \<Longrightarrow> X = Inr y"
  by (simp split: if_splits)

lemma save_prizes_Cons:
  assumes "save_prizes creating old seen (q # ps) s = Inr (qs, s')"
  obtains seen' rs t where "spin_configs t = spin_configs s" "save_prizes creating old seen' ps t = Inr (rs, s')"
proof -
  let ?p = "q\<lparr>sp_currency := to_upper (trim_space (sp_currency q))\<rparr>"
  have gen: "bindE X (\<lambda>(p, s). if \<not> known_currency (sp_currency p) s then Inl (DB ForeignKey)
           else bindE (save_prizes creating old (sp_id p # seen) ps s) (\<lambda>(saved, s). Inr (p # saved, s))) = Inr (qs, s')
    \<Longrightarrow> \<exists>p t rs. X = Inr (p, t) \<and> save_prizes creating old (sp_id p # seen) ps t = Inr (rs, s')" for X
    by (auto simp: bindE_eq_Inr split: if_splits)
  let ?X = "if sp_id ?p = [] then let (i, s) = new_uuid s in
                    if list_ex (\<lambda>c. list_ex (\<lambda>x. sp_id x = i) (sc_prizes c)) (spin_configs s) then Inl (DB Unique) else Inr (?p\<lparr>sp_id := i\<rparr>, s)
                  else if creating \<or> sp_id ?p \<in> set seen \<or> sp_id ?p \<notin> set old then Inl (Credit ErrInvalidSpinConfig)
                  else Inr (?p, s)"
  have "bindE ?X (\<lambda>(p, s). if \<not> known_currency (sp_currency p) s then Inl (DB ForeignKey)
           else bindE (save_prizes creating old (sp_id p # seen) ps s) (\<lambda>(saved, s). Inr (p # saved, s))) = Inr (qs, s')"
    using assms unfolding save_prizes.simps Let_def [of ?p] by (rule refused_elim)
  then obtain p t rs where st: "?X = Inr (p, t)" and "save_prizes creating old (sp_id p # seen) ps t = Inr (rs, s')"
    using gen by blast
  moreover have "spin_configs t = spin_configs s" using st by (auto simp: new_uuid_def Let_def split: if_splits)
  ultimately show thesis by (intro that)
qed

lemma save_prizes_frame: "save_prizes creating old seen ps s = Inr (qs, s') \<Longrightarrow> spin_configs s' = spin_configs s"
proof (induction ps arbitrary: seen s qs)
  case (Cons q ps)
  then show ?case by (elim save_prizes_Cons) metis
qed simp

text \<open>A replaced row keeps the invariant when the new row does.\<close>

lemma spins_ok_replace:
  assumes "spins_ok parses s" "sc_id v = i" "\<not> parses (sc_code v)" "sc_enabled v \<and> \<not> sc_deleted v \<longrightarrow> drawable (sc_prizes v)"
    and "spin_configs s' = modify (\<lambda>c. sc_id c = i \<and> P c) (\<lambda>_. v) (spin_configs s)"
  shows "spins_ok parses s'"
proof -
  have "map sc_id (spin_configs s') = map sc_id (spin_configs s)" unfolding assms(5) modify_def by (auto simp: assms(2))
  then show ?thesis using assms(1,3,4) unfolding spins_ok_def by (auto simp: assms(5) set_modify)
qed

text \<open>An update of a row that keeps id, code and prizes.\<close>

lemma spins_ok_modify:
  assumes "spins_ok parses s" "\<And>c. sc_id (g c) = sc_id c \<and> sc_code (g c) = sc_code c \<and> sc_prizes (g c) = sc_prizes c"
    and "\<And>c. c \<in> set (spin_configs s) \<Longrightarrow> P c \<Longrightarrow> sc_enabled (g c) \<Longrightarrow> \<not> sc_deleted (g c) \<Longrightarrow> drawable (sc_prizes c)"
    and "spin_configs s' = modify P g (spin_configs s)"
  shows "spins_ok parses s'"
  using assms(1,2,3) map_modify_inv [of sc_id g P "spin_configs s"] unfolding spins_ok_def assms(4) set_modify by auto

lemma spins_ok_cong: "spins_ok parses s \<Longrightarrow> spin_configs s' = spin_configs s \<Longrightarrow> spins_ok parses s'"
  by (simp add: spins_ok_def)

lemma save_config_ok:
  assumes "spins_ok parses s" "\<And>x. \<not> parses (''spin-'' @ x)" "save_config random item s = Inr (v, s')"
  shows "spins_ok parses s'"
proof -
  define item' where "item' = item\<lparr>sc_title := trim_space (sc_title item), sc_currency := to_upper (trim_space (sc_currency item))\<rparr>"
  obtain w old t prizes s2 where
    first: "(if sc_id item' = [] then let (i, s) = new_uuid s in
               if list_ex (\<lambda>c. sc_id c = i \<or> sc_code c = ''spin-'' @ filter (\<lambda>c. c \<noteq> CHR ''-'') i) (spin_configs s) then Inl (DB Unique)
               else if \<not> known_currency (sc_currency item') s then Inl (DB ForeignKey)
               else let v = item'\<lparr>sc_id := i, sc_code := ''spin-'' @ filter (\<lambda>c. c \<noteq> CHR ''-'') i, sc_created := clock s, sc_deleted := False\<rparr>
                    in Inr ((v, []), s\<lparr>spin_configs := spin_configs s @ [v\<lparr>sc_prizes := []\<rparr>]\<rparr>)
             else case lookup (\<lambda>c. sc_id c = sc_id item' \<and> \<not> sc_deleted c) (spin_configs s) of
               None \<Rightarrow> Inl (Credit ErrSpinConfigNotFound)
             | Some c \<Rightarrow> if \<not> known_currency (sc_currency item') s then Inl (DB ForeignKey)
                 else Inr ((item'\<lparr>sc_code := sc_code c, sc_created := sc_created c, sc_deleted := False\<rparr>, map sp_id (sc_prizes c)), s)) = Inr ((w, old), t)"
    and pz: "save_prizes (sc_id item = []) old [] (sc_prizes w) t = Inr (prizes, s2)"
    and en: "sc_enabled w \<longrightarrow> choosePrize random prizes \<noteq> None"
    and s': "spin_configs s' = modify (\<lambda>c. sc_id c = sc_id w \<and> \<not> sc_deleted c) (\<lambda>_. w\<lparr>sc_prizes := prizes\<rparr>) (spin_configs s2)"
    using assms(3) unfolding save_config_def item'_def [symmetric] Let_def by (auto simp: bindE_eq_Inr split: if_splits)
  have fr: "spin_configs s2 = spin_configs t" using save_prizes_frame [OF pz] .
  have d: "sc_enabled w \<longrightarrow> drawable prizes" using en choosePrize_drawable by blast
  show ?thesis
  proof (cases "sc_id item' = []")
    case True
    let ?i = "uuids s (next_uuid s)"
    have fresh: "\<forall>c \<in> set (spin_configs s). sc_id c \<noteq> ?i" and w: "sc_id w = ?i" "\<not> parses (sc_code w)" "\<not> sc_deleted w"
      and t: "spin_configs t = spin_configs s @ [w\<lparr>sc_prizes := []\<rparr>]"
      using first True assms(2) by (auto simp: new_uuid_def Let_def list_ex_iff split: if_splits)
    have "modify (\<lambda>c. sc_id c = sc_id w \<and> \<not> sc_deleted c) (\<lambda>_. w\<lparr>sc_prizes := prizes\<rparr>) (spin_configs s) = spin_configs s"
      by (rule modify_none) (use fresh w in auto)
    then have "spin_configs s' = spin_configs s @ [w\<lparr>sc_prizes := prizes\<rparr>]"
      unfolding s' fr t by (simp add: modify_def w)
    then show ?thesis using assms(1) fresh w d by (auto simp: spins_ok_def)
  next
    case False
    obtain c where c: "lookup (\<lambda>c. sc_id c = sc_id item' \<and> \<not> sc_deleted c) (spin_configs s) = Some c" and w: "sc_code w = sc_code c" "t = s"
      using first False by (auto split: option.splits if_splits)
    have "\<not> parses (sc_code w)" using assms(1) lookup_SomeD [OF c] w by (auto simp: spins_ok_def)
    then show ?thesis
      by (intro spins_ok_replace [OF assms(1) _ _ _ s' [unfolded fr w(2)]]) (use d in auto)
  qed
qed

lemma save_configs_ok:
  assumes "spins_ok parses s" "\<And>x. \<not> parses (''spin-'' @ x)" "save_configs random items s = Inr (vs, s')"
  shows "spins_ok parses s'"
  using assms(1,3)
proof (induction items arbitrary: s vs)
  case (Cons item items)
  obtain c t cs where "save_config random item s = Inr (c, t)" "save_configs random items t = Inr (cs, s')"
    using Cons.prems by (auto simp: bindE_eq_Inr)
  then show ?case using Cons.IH save_config_ok [OF Cons.prems(1) assms(2)] by blast
qed simp


lemma saveSpinConfigs_ok:
  assumes "spins_ok parses s" "\<And>x. \<not> parses (''spin-'' @ x)" "saveSpinConfigs random items replace s = Inr (vs, s')"
  shows "spins_ok parses s'"
proof -
  obtain cs t where t: "save_configs random items s = Inr (cs, t)" and
    s': "s' = t \<or> spin_configs s' = modify (\<lambda>c. sc_id c \<notin> sc_id ` set cs) (\<lambda>c. c\<lparr>sc_enabled := False\<rparr>) (spin_configs t)"
    using assms(3) by (auto simp: saveSpinConfigs_def bindE_eq_Inr Let_def split: if_splits)
  have ok: "spins_ok parses t" by (rule save_configs_ok [OF assms(1,2) t])
  from s' show ?thesis
  proof
    assume "s' = t"
    then show ?thesis using ok by simp
  next
    assume m: "spin_configs s' = modify (\<lambda>c. sc_id c \<notin> sc_id ` set cs) (\<lambda>c. c\<lparr>sc_enabled := False\<rparr>) (spin_configs t)"
    show ?thesis by (rule spins_ok_modify [OF ok _ _ m]) auto
  qed
qed

lemma ChangeSpinState_ok:
  assumes "spins_ok parses s" "ChangeSpinState parses random actor i enabled s = Inr (u, s')"
  shows "spins_ok parses s'"
proof -
  obtain c where pi: "parses i" and c: "lookup (\<lambda>c. sc_id c = i) (spin_configs s) = Some c"
    and rest: "(if sc_deleted c then (if enabled = None then Inr ((), s) else Inl (Credit ErrSpinConfigNotFound))
      else case enabled of
        None \<Rightarrow> bindE (insert_audit actor ''spin.delete'' ''spin'' i (PObj [])
                  (s\<lparr>spin_configs := modify (\<lambda>c. sc_id c = i) (\<lambda>c. c\<lparr>sc_deleted := True, sc_enabled := False\<rparr>) (spin_configs s)\<rparr>)) (\<lambda>s. Inr ((), s))
      | Some on \<Rightarrow>
          bindE (if on then bindE (orErr (DB NoRows) (findSpinConfig i False s)) (\<lambda>v.
                   if choosePrize random (sc_prizes v) = None then Inl (Credit ErrInvalidSpinConfig) else Inr ()) else Inr ()) (\<lambda>_.
          bindE (insert_audit actor ''spin.enabled'' ''spin'' i (PObj [])
                  (s\<lparr>spin_configs := modify (\<lambda>c. sc_id c = i) (\<lambda>c. c\<lparr>sc_enabled := on\<rparr>) (spin_configs s)\<rparr>)) (\<lambda>s. Inr ((), s)))) = Inr (u, s')"
    using assms(2) unfolding ChangeSpinState_def by (auto simp: bindE_eq_Inr orErr_eq_Inr split: if_splits)
  note cm = lookup_SomeD [OF c]
  have distinct: "x = c" if "x \<in> set (spin_configs s)" "sc_id x = i" for x
    using that cm assms(1) distinct_key_eq [of sc_id "spin_configs s" x c] by (auto simp: spins_ok_def)
  consider (gone) "s' = s" | (delete) "spin_configs s' = modify (\<lambda>c. sc_id c = i) (\<lambda>c. c\<lparr>sc_deleted := True, sc_enabled := False\<rparr>) (spin_configs s)"
    | (set) on where "\<not> sc_deleted c" "spin_configs s' = modify (\<lambda>c. sc_id c = i) (\<lambda>c. c\<lparr>sc_enabled := on\<rparr>) (spin_configs s)"
        "on \<longrightarrow> (\<exists>v. findSpinConfig i False s = Some v \<and> choosePrize random (sc_prizes v) \<noteq> None)"
    using rest by (auto simp: bindE_eq_Inr orErr_eq_Inr insert_audit_def new_uuid_def Let_def split: if_splits option.splits)
  then show ?thesis
  proof cases
    case gone
    then show ?thesis using assms(1) by simp
  next
    case delete
    show ?thesis by (rule spins_ok_modify [OF assms(1) _ _ delete]) auto
  next
    case (set on)
    have dr: "drawable (sc_prizes c)" if on: on
    proof -
      obtain v where v: "findSpinConfig i False s = Some v" "choosePrize random (sc_prizes v) \<noteq> None" using set(3) on by blast
      have "v \<in> set (spin_configs s)" "sc_id v = i \<or> sc_code v = i"
        using v(1) lookup_SomeD [of _ "spin_configs s" v] by (auto simp: findSpinConfig_def)
      then have "v = c" using distinct assms(1) pi by (auto simp: spins_ok_def)
      then show ?thesis using v(2) choosePrize_drawable by blast
    qed
    show ?thesis by (rule spins_ok_modify [OF assms(1) _ _ set(2)]) (use dr distinct in auto)
  qed
qed

lemma balance_writes_money_only:
  "deductBalance u c d s = Inr (v, t) \<Longrightarrow> money_only s t"
  "addBalance u c d s = Inr (v, t) \<Longrightarrow> money_only s t"
proof -
  show "deductBalance u c d s = Inr (v, t) \<Longrightarrow> money_only s t"
    using set_available_money_only by (auto simp: deductBalance_def bindE_eq_Inr split: option.splits if_splits)
  assume "addBalance u c d s = Inr (v, t)"
  then obtain s1 and w :: wallet_row and x where r: "wallet_row_for u c s = Inr s1" and a: "set_available (w_id w) x s1 = Inr t"
    by (auto simp: addBalance_def bindE_eq_Inr split: if_splits)
  have "money_only s (s\<lparr>next_uuid := Suc (next_uuid s)\<rparr>)" by (simp add: money_only_def)
  then have "money_only s s1"
    using r insert_wallet_money_only money_only_trans by (auto simp: wallet_row_for_def new_uuid_def split: if_splits)
  then show "money_only s t" using set_available_money_only [OF a] money_only_trans by blast
qed

lemma spin_writes_configs:
  assumes "spin_writes u req c p s = Inr (r, s')"
  shows "spin_configs s' = spin_configs s"
proof -
  obtain cb t where d: "deductBalance u (sc_currency c) (sc_cost c) s = Inr (cb, t)"
    and rest: "(let (i, s) = new_uuid t in
     bindE (writeLedger u (sc_currency c) ''lucky_spin_cost'' i (- sc_cost c) cb cost_remark [] s) (\<lambda>s.
     bindE (addBalance u (sp_currency p) (sp_amount p) s) (\<lambda>(rewardBalance, s).
     bindE (writeLedger u (sp_currency p) ''lucky_spin_reward'' i (sp_amount p) rewardBalance reward_remark [] s) (\<lambda>s.
     let r = spin_row i u req c p cb rewardBalance (clock s) in
     bindE (insert_spin_record r s) (\<lambda>s.
     bindE (formatSpin (spin_result_of r) s) (\<lambda>x. Inr (x, s))))))) = Inr (r, s')"
    using assms unfolding spin_writes_def by (auto simp: bindE_eq_Inr)
  obtain s1 rb s2 s3 bt bid am v rm where w1: "writeLedger u (sc_currency c) ''lucky_spin_cost'' bid am cb rm [] (t\<lparr>next_uuid := Suc (next_uuid t)\<rparr>) = Inr s1"
    and ad: "addBalance u (sp_currency p) (sp_amount p) s1 = Inr (rb, s2)"
    and w2: "writeLedger u (sp_currency p) ''lucky_spin_reward'' bid (sp_amount p) rb reward_remark [] s2 = Inr s3"
    and ins: "insert_spin_record (spin_row bid u req c p cb rb (clock s3)) s3 = Inr s'"
    using rest by (auto simp: new_uuid_def Let_def bindE_eq_Inr)
  have "spin_configs s' = spin_configs s3" using ins by (auto simp: insert_spin_record_def split: if_splits)
  also have "\<dots> = spin_configs s2" using w2 by (elim writeLedger_row) (rule money_onlyD)
  also have "\<dots> = spin_configs s1" using balance_writes_money_only(2) [OF ad] by (rule money_onlyD)
  also have "\<dots> = spin_configs (t\<lparr>next_uuid := Suc (next_uuid t)\<rparr>)" using w1 by (elim writeLedger_row) (rule money_onlyD)
  also have "\<dots> = spin_configs t" by simp
  also have "\<dots> = spin_configs s" using balance_writes_money_only(1) [OF d] by (rule money_onlyD)
  finally show ?thesis .
qed

lemma LuckySpin_configs:
  assumes "LuckySpin random u spin req s = Inr (r, s')"
  shows "spin_configs s' = spin_configs s"
  using assms spin_writes_configs by (auto simp: LuckySpin_def bindE_eq_Inr split: if_splits option.splits)

datatype spin_call =
    Spin_Save "spin_config_row list" bool
  | Spin_State string string "bool option"
  | Spin_Draw string string string

fun spin_call_run :: "(string \<Rightarrow> bool) \<Rightarrow> (int \<Rightarrow> error + int) \<Rightarrow> spin_call \<Rightarrow> db \<Rightarrow> error + db" where
  "spin_call_run parses random (Spin_Save items replace) s = bindE (saveSpinConfigs random items replace s) (\<lambda>(_, s). Inr s)"
| "spin_call_run parses random (Spin_State actor i enabled) s = bindE (ChangeSpinState parses random actor i enabled s) (\<lambda>(_, s). Inr s)"
| "spin_call_run parses random (Spin_Draw u spin req) s = bindE (LuckySpin random u spin req s) (\<lambda>(_, s). Inr s)"


lemma spin_call_ok:
  assumes "spins_ok parses s" "\<And>x. \<not> parses (''spin-'' @ x)" "spin_call_run parses random call s = Inr s'"
  shows "spins_ok parses s'"
proof (cases call)
  case (Spin_Save items replace)
  then show ?thesis using assms(3) saveSpinConfigs_ok [OF assms(1,2)] by (auto simp: bindE_eq_Inr)
next
  case (Spin_State actor i enabled)
  then show ?thesis using assms(3) ChangeSpinState_ok [OF assms(1)] by (auto simp: bindE_eq_Inr)
next
  case (Spin_Draw u spin req)
  then show ?thesis using assms(3) spins_ok_cong [OF assms(1)] LuckySpin_configs by (auto simp: bindE_eq_Inr)
qed

text \<open>Calls one after the other, each with the random source it meets; a call that fails rolls back.\<close>

fun spin_run :: "(string \<Rightarrow> bool) \<Rightarrow> ((int \<Rightarrow> error + int) \<times> spin_call) list \<Rightarrow> db \<Rightarrow> db" where
  "spin_run parses [] s = s"
| "spin_run parses ((random, call) # calls) s =
     spin_run parses calls (case spin_call_run parses random call s of Inl e \<Rightarrow> s | Inr s' \<Rightarrow> s')"

text \<open>C30: Whatever sequence of saves, replacements, switches, deletions and draws is carried out, every configuration a
  player can draw from has prizes the draw accepts, with a positive total weight: with a random source that answers in
  its range, a draw never fails for lack of a prize. Assumed of \<^verbatim>\<open>uuid.Parse\<close>: a text that begins with
  \<^verbatim>\<open>spin-\<close> is not a UUID.\<close>

theorem enabled_spins_drawable:
  assumes "spins_ok parses s" "\<And>x. \<not> parses (''spin-'' @ x)" "findSpinConfig spin True (spin_run parses calls s) = Some c"
    and "\<And>n. 0 < n \<Longrightarrow> \<exists>v. random n = Inr v \<and> 0 \<le> v \<and> v < n"
  shows "spins_ok parses (spin_run parses calls s) \<and> (\<exists>p \<in> set (sc_prizes c). choosePrize random (sc_prizes c) = Some p \<and> 0 < sp_weight p)"
proof -
  have ok: "spins_ok parses (spin_run parses calls s)"
    using assms(1)
  proof (induction calls arbitrary: s)
    case (Cons x calls)
    obtain r call where "x = (r, call)" by force
    then show ?case using Cons spin_call_ok [OF Cons.prems assms(2)] by (auto split: sum.splits)
  qed simp
  have "c \<in> set (spin_configs (spin_run parses calls s))" "sc_enabled c" "\<not> sc_deleted c"
    using assms(3) lookup_SomeD [of _ "spin_configs (spin_run parses calls s)" c] by (auto simp: findSpinConfig_def)
  then obtain n where n: "total_weight 0 (sc_prizes c) = Some n" "0 < n"
    using ok by (auto simp: spins_ok_def drawable_def split: option.splits)
  obtain v where v: "random n = Inr v" "0 \<le> v" "v < n" using assms(4) [OF n(2)] by blast
  have "choosePrize random (sc_prizes c) = choosePrize (\<lambda>_. Inr v) (sc_prizes c)" using n v by (simp add: choosePrize_def)
  moreover have "n = enabled_weight (sc_prizes c)" using total_weight_eq(1) [OF n(1)] by simp
  ultimately show ?thesis using ok pick_prize_hits [of v "sc_prizes c"] n v by (auto simp: choosePrize_def)
qed


text \<open>A sample: a new configuration is saved enabled, the old one is switched off, the new one is drawn.\<close>

definition sample_parses :: "string \<Rightarrow> bool" where
  "sample_parses x \<longleftrightarrow> take 4 x = ''spin'' \<and> take 5 x \<noteq> ''spin-'' \<or> take 1 x = ''u''"

definition sample_calls :: "((int \<Rightarrow> error + int) \<times> spin_call) list" where
  "sample_calls = [(\<lambda>n. Inr 0, Spin_Save [\<lparr>sc_id = [], sc_code = [], sc_title = ''Big'', sc_enabled = True, sc_currency = ''JADE'', sc_cost = 4,
     sc_sort = 1, sc_created = 0, sc_deleted = False, sc_prizes = map (\<lambda>p. p\<lparr>sp_id := [], sp_currency := ''JADE''\<rparr>) sample_prizes\<rparr>] True)]"

theorem enabled_spins_drawable_witness:
  "\<exists>c p. findSpinConfig ''u0'' True (spin_run sample_parses sample_calls sample_spin_db) = Some c \<and> choosePrize (\<lambda>n. Inr (n - 1)) (sc_prizes c) = Some p"
proof -
  have ok: "spins_ok sample_parses sample_spin_db"
    by (simp add: spins_ok_def sample_spin_db_def sample_parses_def drawable_def sample_total)
  have "findSpinConfig ''u0'' True (spin_run sample_parses sample_calls sample_spin_db) \<noteq> None" by code_simp
  then obtain c where c: "findSpinConfig ''u0'' True (spin_run sample_parses sample_calls sample_spin_db) = Some c" by blast
  have p: "\<not> sample_parses (''spin-'' @ x)" for x by (simp add: sample_parses_def)
  have "\<exists>p \<in> set (sc_prizes c). choosePrize (\<lambda>n. Inr (n - 1)) (sc_prizes c) = Some p \<and> 0 < sp_weight p"
    using enabled_spins_drawable [OF ok p c, of "\<lambda>n. Inr (n - 1)"] by auto
  then show ?thesis using c by blast
qed

end
