(* ===== verification/Tasks.thy ===== *)
theory Tasks
  imports Task_Progress Credit
begin

text \<open>
  The rest of \<^verbatim>\<open>internal/application/task\<close>: configurations, the player's list, the claim of a reward
  (\<^verbatim>\<open>lifecycle.go\<close>) and the management calls (\<^verbatim>\<open>management.go\<close>). \<open>parses\<close> is \<^verbatim>\<open>uuid.Parse\<close> and
  \<open>parses_date\<close> the parsing of a day, answering without an error. \<^verbatim>\<open>Service.now\<close> and the database clock are one
  instant per call. Dates are day numbers, as in \<open>Task_Progress\<close>.
\<close>

section \<open>lifecycle.go: configurations\<close>

text \<open>A configuration without a list of rewards has the one of its two columns.\<close>

definition task_scanConfig :: "task_config_row \<Rightarrow> task_config_row" where
  "task_scanConfig c =
     (if tc_rewards c = [] then c\<lparr>tc_rewards := [\<lparr>tr_currency = tc_reward_currency c, tr_amount = tc_reward c, tr_after = None\<rparr>]\<rparr> else c)"

text \<open>Chinese texts as their UTF-8 bytes.\<close>

definition default_title :: string where
  "default_title = map char_of [230 :: nat, 138, 149, 230, 179, 168, 228, 187, 187, 229, 138, 161]"

fun normal_rewards :: "string list \<Rightarrow> task_reward list \<Rightarrow> error + task_reward list" where
  "normal_rewards seen [] = Inr []"
| "normal_rewards seen (q # ps) =
     (let p = q\<lparr>tr_currency := to_upper (trim_space (tr_currency q))\<rparr> in
      if tr_currency p = [] \<or> tr_amount p \<le> 0 \<or> tr_after p \<noteq> None \<or> tr_currency p \<in> set seen then Inl (Task ErrInvalidTask)
      else bindE (normal_rewards (tr_currency p # seen) ps) (\<lambda>ps. Inr (p # ps)))"

definition normalizeConfig :: "task_config_row \<Rightarrow> error + task_config_row" where
  "normalizeConfig c =
     (let c = c\<lparr>tc_acc := to_upper (trim_space (tc_acc c)), tc_title := trim_space (tc_title c)\<rparr>;
          c = (if tc_title c = [] then c\<lparr>tc_title := default_title\<rparr> else c);
          c = task_scanConfig (if tc_period c = [] then c\<lparr>tc_period := ''daily''\<rparr> else c) in
      if tc_threshold c \<le> 0 \<or> tc_acc c = [] \<or> (tc_period c \<noteq> ''daily'' \<and> tc_period c \<noteq> ''global'') \<or> tc_max c < 0 \<or> tc_max c > 100000
         \<or> length (tc_rewards c) > 32 \<or> rune_count (tc_title c) > 100 then Inl (Task ErrInvalidTask)
      else bindE (normal_rewards [] (tc_rewards c)) (\<lambda>ps.
           Inr (c\<lparr>tc_rewards := ps, tc_reward_currency := tr_currency (hd ps), tc_reward := tr_amount (hd ps)\<rparr>)))"

definition BetTaskConfigs :: "db \<Rightarrow> task_config_row list" where
  "BetTaskConfigs s =
     map task_scanConfig (sort_key tc_sort (sort_key tc_created (sort_key (\<lambda>c. map code (tc_id c)) (filter (\<lambda>c. \<not> tc_deleted c) (task_configs s)))))"

definition enabled_currency :: "string \<Rightarrow> db \<Rightarrow> bool" where
  "enabled_currency c s \<longleftrightarrow> list_ex (\<lambda>r. c_code r = c \<and> c_enabled r) (currencies s)"

definition find_task :: "string \<Rightarrow> db \<Rightarrow> error + task_config_row" where
  "find_task i s =
     bindE (orErr (Task ErrTaskConfigNotFound) (lookup (\<lambda>c. tc_id c = i \<and> \<not> tc_deleted c) (task_configs s))) (\<lambda>c. Inr (task_scanConfig c))"

text \<open>The sort order is an \<^verbatim>\<open>INTEGER\<close> column.\<close>

definition int32 :: "int \<Rightarrow> bool" where
  "int32 n \<longleftrightarrow> - 2147483648 \<le> n \<and> n \<le> 2147483647"

definition SaveBetTaskConfig :: "(string \<Rightarrow> bool) \<Rightarrow> task_config_row \<Rightarrow> task_config_row tx" where
  "SaveBetTaskConfig parses input s =
     bindE (normalizeConfig input) (\<lambda>c.
     if \<not> list_all (\<lambda>code. enabled_currency code s) (tc_acc c # map tr_currency (tc_rewards c)) then Inl (Task ErrInvalidTask)
     else if tc_id c = [] then
       let (i, s) = new_uuid s; c = c\<lparr>tc_id := i, tc_deleted := False, tc_created := clock s\<rparr> in
       if list_ex (\<lambda>x. tc_id x = i) (task_configs s) then Inl (DB Unique)
       else if \<not> int32 (tc_sort c) then Inl (DB OutOfRange)
       else Inr (c, s\<lparr>task_configs := task_configs s @ [c]\<rparr>)
     else if \<not> parses (tc_id c) then Inl (Task ErrTaskConfigNotFound)
     else bindE (find_task (tc_id c) s) (\<lambda>old.
       if (tc_acc old \<noteq> tc_acc c \<or> tc_period old \<noteq> tc_period c) \<and> list_ex (\<lambda>p. tp_config p = tc_id c) (task_progress s)
       then Inl (Task ErrInvalidTask)
       else if \<not> int32 (tc_sort c) then Inl (DB OutOfRange)
       else let c = c\<lparr>tc_deleted := tc_deleted old, tc_created := tc_created old\<rparr> in
            Inr (c, s\<lparr>task_configs := modify (\<lambda>x. tc_id x = tc_id c) (\<lambda>_. c) (task_configs s)\<rparr>)))"

definition ReplaceBetTaskConfigs :: "task_config_row list \<Rightarrow> task_config_row list tx" where
  "ReplaceBetTaskConfigs items s = Inl (Task ErrInvalidTask)"

section \<open>lifecycle.go: the player's tasks\<close>

record BetTask =
  bk_config :: task_config_row
  bk_progress :: int
  bk_count :: int
  bk_completed :: bool
  bk_rewarded :: bool

definition progress_of :: "string \<Rightarrow> string \<Rightarrow> int \<Rightarrow> db \<Rightarrow> task_progress_row option" where
  "progress_of config user date s = lookup (\<lambda>p. tp_config p = config \<and> tp_user p = user \<and> tp_date p = date) (task_progress s)"

definition bet_task :: "string \<Rightarrow> int \<Rightarrow> db \<Rightarrow> task_config_row \<Rightarrow> BetTask" where
  "bet_task user now s c =
     (let p = progress_of (tc_id c) user (periodDate (tc_period c) (betDateAt now)) s;
          progress = (case p of None \<Rightarrow> 0 | Some p \<Rightarrow> tp_progress p); count = (case p of None \<Rightarrow> 0 | Some p \<Rightarrow> tp_count p);
          rewarded = (tc_max c > 0 \<and> count \<ge> tc_max c) in
      \<lparr>bk_config = task_scanConfig c, bk_progress = progress, bk_count = count,
       bk_completed = (rewarded \<or> progress \<ge> tc_threshold c), bk_rewarded = rewarded\<rparr>)"

definition BetTasks :: "string \<Rightarrow> db \<Rightarrow> BetTask list" where
  "BetTasks user s =
     map (bet_task user (clock s) s) (sort_key tc_sort (sort_key tc_created (sort_key (\<lambda>c. map code (tc_id c))
       (filter (\<lambda>c. tc_enabled c \<and> \<not> tc_deleted c) (task_configs s)))))"

record BetTaskClaim =
  tl_task :: string
  tl_date :: int
  tl_count :: int
  tl_rewards :: "task_reward list"
  tl_reward_currency :: string
  tl_reward :: int
  tl_after :: int
  tl_at :: int

definition task_remark :: "string \<Rightarrow> int \<Rightarrow> string" where
  "task_remark title n =
     map char_of [228 :: nat, 187, 187, 229, 138, 161, 32] @ title @ map char_of [32 :: nat, 231, 172, 172] @ format_int n
     @ map char_of [230 :: nat, 172, 161, 230, 137, 139, 229, 138, 168, 233, 162, 134, 229, 143, 150]"

fun pay_rewards :: "string \<Rightarrow> string \<Rightarrow> string \<Rightarrow> task_reward list \<Rightarrow> task_reward list tx" where
  "pay_rewards user claim remark [] s = Inr ([], s)"
| "pay_rewards user claim remark (p # ps) s =
     bindE (RewardCurrency user (tr_currency p) ''bet_task_reward'' (claim @ '':'' @ tr_currency p) (tr_amount p) remark s) (\<lambda>(balance, s).
     bindE (pay_rewards user claim remark ps s) (\<lambda>(qs, s). Inr (p\<lparr>tr_after := Some balance\<rparr> # qs, s)))"

definition insert_task_claim :: "task_claim_row \<Rightarrow> db \<Rightarrow> error + db" where
  "insert_task_claim k s =
     (if list_ex (\<lambda>x. tk_id x = tk_id k \<or> (tk_config x = tk_config k \<and> tk_user x = tk_user k \<and> tk_date x = tk_date k \<and> tk_count x = tk_count k))
           (task_claims s) then Inl (DB Unique)
      else Inr (s\<lparr>task_claims := task_claims s @ [k]\<rparr>))"

text \<open>The reward named by the two columns of the configuration, as the answer repeats it.\<close>

definition main_reward :: "string \<Rightarrow> task_reward list \<Rightarrow> task_reward option" where
  "main_reward currency ps = lookup (\<lambda>p. tr_currency p = currency) (rev ps)"

definition task_claim_writes :: "string \<Rightarrow> task_config_row \<Rightarrow> int \<Rightarrow> int \<Rightarrow> BetTaskClaim tx" where
  "task_claim_writes user c date count s =
     (let (claim, s) = new_uuid s; n = count + 1 in
      bindE (pay_rewards user claim (task_remark (tc_title c) n) (sort_key (\<lambda>p. map code (tr_currency p)) (tc_rewards c)) s) (\<lambda>(paid, s).
      bindE (insert_task_claim \<lparr>tk_id = claim, tk_config = tc_id c, tk_user = user, tk_date = date, tk_count = n, tk_rewards = paid,
               tk_snapshot = c, tk_at = clock s\<rparr> s) (\<lambda>s.
      let m = main_reward (tc_reward_currency c) paid;
          s = s\<lparr>task_progress := modify (\<lambda>p. tp_config p = tc_id c \<and> tp_user p = user \<and> tp_date p = date)
                 (\<lambda>p. p\<lparr>tp_progress := 0, tp_count := n, tp_updated := clock s\<rparr>) (task_progress s)\<rparr> in
      Inr (\<lparr>tl_task = tc_id c, tl_date = date, tl_count = n, tl_rewards = paid,
             tl_reward_currency = (case m of None \<Rightarrow> [] | Some p \<Rightarrow> tr_currency p), tl_reward = (case m of None \<Rightarrow> 0 | Some p \<Rightarrow> tr_amount p),
             tl_after = (case m of None \<Rightarrow> 0 | Some p \<Rightarrow> (case tr_after p of None \<Rightarrow> 0 | Some b \<Rightarrow> b)), tl_at = clock s\<rparr>, s))))"

definition ClaimBetTask :: "(string \<Rightarrow> bool) \<Rightarrow> string \<Rightarrow> string \<Rightarrow> BetTaskClaim tx" where
  "ClaimBetTask parses user i s =
     (if \<not> parses i then Inl (Task ErrTaskConfigNotFound)
      else bindE (orErr (Task ErrTaskConfigNotFound) (lookup (\<lambda>c. tc_id c = i \<and> tc_enabled c \<and> \<not> tc_deleted c) (task_configs s))) (\<lambda>row.
      let c = task_scanConfig row; date = periodDate (tc_period c) (betDateAt (clock s)) in
      bindE (orErr (Task ErrTaskNotCompleted) (progress_of i user date s)) (\<lambda>p.
      if tc_max c > 0 \<and> tp_count p \<ge> tc_max c then Inl (Task ErrTaskAlreadyClaimed)
      else if tp_progress p < tc_threshold c then Inl (Task ErrTaskNotCompleted)
      else if tp_count p \<ge> 2147483647 then Inl (Task ErrTaskAlreadyClaimed)
      else task_claim_writes user c date (tp_count p) s)))"

section \<open>management.go\<close>

definition admin_only :: "string \<Rightarrow> db \<Rightarrow> bool" where
  "admin_only actor s \<longleftrightarrow> list_ex (\<lambda>u. u_id u = actor \<and> u_status u = ''active'') (users s) \<and> list_ex (\<lambda>r. r = (actor, ''admin'')) (user_roles s)"

definition ChangeTaskState :: "(string \<Rightarrow> bool) \<Rightarrow> string \<Rightarrow> string \<Rightarrow> bool option \<Rightarrow> unit tx" where
  "ChangeTaskState parses actor i enabled s =
     (if \<not> parses i then Inl (Task ErrTaskConfigNotFound)
      else if \<not> admin_only actor s then Inl (Task ErrTaskForbidden)
      else bindE (orErr (Task ErrTaskConfigNotFound) (lookup (\<lambda>c. tc_id c = i) (task_configs s))) (\<lambda>c.
      if tc_deleted c then (if enabled = None then Inr ((), s) else Inl (Task ErrTaskConfigNotFound))
      else let (g, action) = (case enabled of
                 None \<Rightarrow> (\<lambda>c. c\<lparr>tc_deleted := True, tc_enabled := False\<rparr>, ''task.delete'')
               | Some on \<Rightarrow> (\<lambda>c. c\<lparr>tc_enabled := on\<rparr>, ''task.enabled'')) in
           bindE (insert_audit actor action ''task'' i (PObj []) (s\<lparr>task_configs := modify (\<lambda>c. tc_id c = i) g (task_configs s)\<rparr>)) (\<lambda>s.
           Inr ((), s))))"

record ProgressQuery =
  pq_task :: string
  pq_date :: string
  pq_user :: int
  pq_limit :: int
  pq_offset :: int

definition ListProgress :: "(string \<Rightarrow> bool) \<Rightarrow> (string \<Rightarrow> int option) \<Rightarrow> ProgressQuery \<Rightarrow> db
    \<Rightarrow> error + ((task_progress_row \<times> task_config_row \<times> user_row) list \<times> int)" where
  "ListProgress parses parses_date q s =
     (if pq_task q \<noteq> [] \<and> \<not> parses (pq_task q) then Inl (Task ErrInvalidTask)
      else if pq_date q \<noteq> [] \<and> parses_date (pq_date q) = None then Inl (Task ErrInvalidTask)
      else let limit = (if pq_limit q < 1 \<or> pq_limit q > 100 then 50 else nat (pq_limit q)); offset = nat (pq_offset q);
               found = concat (map (\<lambda>p. concat (map (\<lambda>c. case user_by_id s (tp_user p) of None \<Rightarrow> [] | Some u \<Rightarrow>
                   if \<not> tc_deleted c \<and> (pq_task q = [] \<or> tc_id c = pq_task q) \<and> (pq_user q = 0 \<or> u_public_id u = pq_user q)
                      \<and> (pq_date q = [] \<or> Some (tp_date p) = parses_date (pq_date q)) then [(p, c, u)] else [])
                   (filter (\<lambda>c. tc_id c = tp_config p) (task_configs s)))) (task_progress s))
           in Inr (take limit (drop offset (sort_key (\<lambda>(p, c, u). - tp_updated p) (sort_key (\<lambda>(p, c, u). map code (tc_id c))
                     (sort_key (\<lambda>(p, c, u). u_public_id u) (sort_key (\<lambda>(p, c, u). tp_date p) found))))), int (length found)))"


section \<open>A claim pays each reward once\<close>

definition reward_in :: "task_reward list \<Rightarrow> string \<Rightarrow> int" where
  "reward_in ps currency = (\<Sum>p \<leftarrow> filter (\<lambda>p. to_upper (trim_space (tr_currency p)) = currency) ps. tr_amount p)"

lemma reward_in_simps [simp]:
  "reward_in [] c = 0"
  "reward_in (p # ps) c = (if to_upper (trim_space (tr_currency p)) = c then tr_amount p else 0) + reward_in ps c"
  by (simp_all add: reward_in_def)

lemma reward_in_insort: "reward_in (insort_key k p ps) c = reward_in (p # ps) c"
  by (induction ps) auto

lemma reward_in_sort: "reward_in (sort_key k ps) c = reward_in ps c"
  by (induction ps) (simp_all add: reward_in_insort)

lemma pay_rewards_Inr:
  assumes "books_ok s" "pay_rewards u k rm ps s = Inr (qs, s')"
  shows "books_ok s' \<and> money_only s s' \<and> (\<forall>a b. balance_of s' a b = balance_of s a b + (if a = u then reward_in ps b else 0))
    \<and> map tr_amount qs = map tr_amount ps \<and> length (ledger s') = length (ledger s) + length ps"
  using assms
proof (induction ps arbitrary: s qs)
  case (Cons p ps)
  obtain v t rs where r: "RewardCurrency u (tr_currency p) ''bet_task_reward'' (k @ '':'' @ tr_currency p) (tr_amount p) rm s = Inr (v, t)"
    and rest: "pay_rewards u k rm ps t = Inr (rs, s')" and qs: "qs = p\<lparr>tr_after := Some v\<rparr> # rs"
    using Cons.prems(2) by (auto simp: bindE_eq_Inr)
  have d: "ledger_deltas ''bet_task_reward'' (tr_amount p) = (tr_amount p, 0)" by (simp add: ledger_deltas_plain)
  note A = RewardCurrency_Inr [OF Cons.prems(1) r d]
  then have "books_ok t" by blast
  note B = Cons.IH [OF this rest]
  have "money_only s s'" using A B money_only_trans by blast
  moreover have "balance_of s' a b = balance_of s a b + (if a = u then reward_in (p # ps) b else 0)" for a b
    using A B by (auto simp: moved_by_def)
  moreover have "length (ledger s') = length (ledger s) + length (p # ps)" using A B by (auto simp: new_entry_def)
  ultimately show ?case using B qs by simp
qed simp

definition task_keys :: "db \<Rightarrow> bool" where
  "task_keys s \<longleftrightarrow> distinct (map tc_id (task_configs s)) \<and> (\<forall>c \<in> set (task_configs s). 0 < tc_threshold c)"

lemma task_scanConfig_simps [simp]:
  "tc_id (task_scanConfig c) = tc_id c" "tc_threshold (task_scanConfig c) = tc_threshold c" "tc_max (task_scanConfig c) = tc_max c"
  "tc_period (task_scanConfig c) = tc_period c" "tc_acc (task_scanConfig c) = tc_acc c"
  by (simp_all add: task_scanConfig_def)

lemma progress_of_modify:
  assumes "\<And>p. tp_config (g p) = tp_config p \<and> tp_user (g p) = tp_user p \<and> tp_date (g p) = tp_date p" "task_progress s' = modify P g (task_progress s)"
  shows "progress_of i u d s' = map_option (\<lambda>p. if P p then g p else p) (progress_of i u d s)"
  unfolding progress_of_def assms(2) by (rule lookup_modify_pres) (simp add: assms(1))

lemma ClaimBetTask_Inr:
  assumes "ClaimBetTask parses u i s = Inr (k, s')"
  obtains c p where "lookup (\<lambda>c. tc_id c = i \<and> tc_enabled c \<and> \<not> tc_deleted c) (task_configs s) = Some c" "parses i"
    "progress_of i u (periodDate (tc_period c) (betDateAt (clock s))) s = Some p" "tc_max c > 0 \<longrightarrow> tp_count p < tc_max c"
    "tc_threshold c \<le> tp_progress p" "task_claim_writes u (task_scanConfig c) (periodDate (tc_period c) (betDateAt (clock s))) (tp_count p) s = Inr (k, s')"
  using assms by (auto simp: ClaimBetTask_def bindE_eq_Inr orErr_eq_Inr Let_def split: if_splits)

lemma task_claim_writes_Inr:
  assumes "books_ok s" "task_claim_writes u c d n s = Inr (k, s')"
  shows "books_ok s' \<and> (\<forall>a b. balance_of s' a b = balance_of s a b + (if a = u then reward_in (tc_rewards c) b else 0))
    \<and> length (ledger s') = length (ledger s) + length (tc_rewards c) \<and> tl_count k = n + 1 \<and> clock s' = clock s
    \<and> task_configs s' = task_configs s \<and> length (task_claims s') = length (task_claims s) + 1
    \<and> task_progress s' = modify (\<lambda>p. tp_config p = tc_id c \<and> tp_user p = u \<and> tp_date p = d)
         (\<lambda>p. p\<lparr>tp_progress := 0, tp_count := n + 1, tp_updated := clock s\<rparr>) (task_progress s)"
proof -
  let ?s = "s\<lparr>next_uuid := Suc (next_uuid s)\<rparr>" let ?ps = "sort_key (\<lambda>p. map code (tr_currency p)) (tc_rewards c)"
  obtain paid t t2 where p: "pay_rewards u (uuids s (next_uuid s)) (task_remark (tc_title c) (n + 1)) ?ps ?s = Inr (paid, t)"
    and ins: "insert_task_claim \<lparr>tk_id = uuids s (next_uuid s), tk_config = tc_id c, tk_user = u, tk_date = d, tk_count = n + 1, tk_rewards = paid,
               tk_snapshot = c, tk_at = clock t\<rparr> t = Inr t2"
    and s': "s' = t2\<lparr>task_progress := modify (\<lambda>p. tp_config p = tc_id c \<and> tp_user p = u \<and> tp_date p = d)
                 (\<lambda>p. p\<lparr>tp_progress := 0, tp_count := n + 1, tp_updated := clock t2\<rparr>) (task_progress t2)\<rparr>" and k: "tl_count k = n + 1"
    using assms(2) unfolding task_claim_writes_def new_uuid_def Let_def by (auto simp: bindE_eq_Inr)
  have "books_ok ?s" by (rule books_ok_cong [OF assms(1)]) simp_all
  note A = pay_rewards_Inr [OF this p]
  note m = money_onlyD [OF conjunct1 [OF conjunct2 [OF A]]]
  have t2: "t2 = t\<lparr>task_claims := task_claims t @ [\<lparr>tk_id = uuids s (next_uuid s), tk_config = tc_id c, tk_user = u, tk_date = d, tk_count = n + 1, tk_rewards = paid,
               tk_snapshot = c, tk_at = clock t\<rparr>]\<rparr>"
    using ins by (auto simp: insert_task_claim_def split: if_splits)
  have w: "wallets s' = wallets t" "ledger s' = ledger t" by (simp_all add: s' t2)
  then have "books_ok s'" using A by (blast intro: books_ok_cong)
  moreover have "balance_of s' a b = balance_of s a b + (if a = u then reward_in (tc_rewards c) b else 0)" for a b
  proof -
    have "balance_of s' a b = balance_of t a b" "balance_of ?s a b = balance_of s a b" using w(1) by (simp_all add: balance_of_def wallet_of_def)
    then show ?thesis using A by (simp add: reward_in_sort)
  qed
  ultimately show ?thesis using A w k m by (simp add: s' t2)
qed

text \<open>C31: A task reward is paid exactly and once per cycle. A successful claim needs the full progress of the period and
  a count below the maximum; it credits each reward of the configuration to the player in its currency and nothing else,
  and empties the progress, so that the next claim is refused until the task is completed again.\<close>

theorem task_claim_exact:
  assumes "books_ok s" "task_keys s" "ClaimBetTask parses u i s = Inr (k, s')"
  shows "\<exists>c p. c \<in> set (task_configs s) \<and> tc_id c = i \<and> tc_enabled c \<and> \<not> tc_deleted c
    \<and> progress_of i u (periodDate (tc_period c) (betDateAt (clock s))) s = Some p \<and> tc_threshold c \<le> tp_progress p
    \<and> (tc_max c > 0 \<longrightarrow> tp_count p < tc_max c) \<and> tl_count k = tp_count p + 1 \<and> books_ok s'
    \<and> (\<forall>a b. balance_of s' a b = balance_of s a b + (if a = u then reward_in (tc_rewards (task_scanConfig c)) b else 0))
    \<and> length (task_claims s') = length (task_claims s) + 1
    \<and> (ClaimBetTask parses u i s' = Inl (Task ErrTaskNotCompleted) \<or> ClaimBetTask parses u i s' = Inl (Task ErrTaskAlreadyClaimed))"
proof -
  obtain c p where c: "lookup (\<lambda>c. tc_id c = i \<and> tc_enabled c \<and> \<not> tc_deleted c) (task_configs s) = Some c" "parses i"
    and p: "progress_of i u (periodDate (tc_period c) (betDateAt (clock s))) s = Some p" "tc_max c > 0 \<longrightarrow> tp_count p < tc_max c" "tc_threshold c \<le> tp_progress p"
    and w: "task_claim_writes u (task_scanConfig c) (periodDate (tc_period c) (betDateAt (clock s))) (tp_count p) s = Inr (k, s')"
    using ClaimBetTask_Inr [OF assms(3)] by blast
  note A = task_claim_writes_Inr [OF assms(1) w]
  note cm = lookup_SomeD [OF c(1)]
  have up: "task_progress s' = modify (\<lambda>x. tp_config x = i \<and> tp_user x = u \<and> tp_date x = periodDate (tc_period c) (betDateAt (clock s)))
         (\<lambda>x. x\<lparr>tp_progress := 0, tp_count := tp_count p + 1, tp_updated := clock s\<rparr>) (task_progress s)"
    using A cm by simp
  have "tp_config p = i \<and> tp_user p = u \<and> tp_date p = periodDate (tc_period c) (betDateAt (clock s))"
    using p(1) lookup_SomeD [of _ "task_progress s" p] unfolding progress_of_def by blast
  then have p': "progress_of i u (periodDate (tc_period c) (betDateAt (clock s))) s' = Some (p\<lparr>tp_progress := 0, tp_count := tp_count p + 1, tp_updated := clock s\<rparr>)"
    by (subst progress_of_modify [OF _ up]) (simp_all add: p(1))
  have "0 < tc_threshold c" using assms(2) cm by (simp add: task_keys_def)
  then have "ClaimBetTask parses u i s' = Inl (Task ErrTaskNotCompleted) \<or> ClaimBetTask parses u i s' = Inl (Task ErrTaskAlreadyClaimed)"
    using A c p' by (simp add: ClaimBetTask_def Let_def)
  then show ?thesis using A cm p by (intro exI [of _ c] exI [of _ p]) simp
qed


definition sample_task_db :: db where
  "sample_task_db = sample_db\<lparr>clock := 1700000000000000,
     task_configs := [\<lparr>tc_id = ''t1'', tc_acc = ''POINTS'', tc_reward_currency = ''JADE'', tc_threshold = 500, tc_reward = 9, tc_enabled = True,
       tc_title = ''daily'', tc_period = ''daily'', tc_sort = 0, tc_max = 2,
       tc_rewards = [\<lparr>tr_currency = ''POINTS'', tr_amount = 20, tr_after = None\<rparr>, \<lparr>tr_currency = ''JADE'', tr_amount = 9, tr_after = None\<rparr>],
       tc_deleted = False, tc_created = 0\<rparr>]\<rparr>"

definition sample_played_db :: db where
  "sample_played_db = (case OnBetSettled ''bob'' ''POINTS'' 800 1699999000000000 sample_task_db of Inl e \<Rightarrow> sample_task_db | Inr s \<Rightarrow> s)"

lemma sample_played:
  "sample_played_db = sample_task_db\<lparr>task_progress := [\<lparr>tp_config = ''t1'', tp_user = ''bob'', tp_date = 19676, tp_progress = 500, tp_count = 0, tp_updated = 1700000000000000\<rparr>]\<rparr>"
  by (simp add: sample_played_db_def OnBetSettled_def sample_task_db_def sample_db_def empty_db_def add_progress_def user_by_id_def periodDate_def betDateAt_def)

theorem task_claim_exact_witness:
  "\<exists>k s'. ClaimBetTask (\<lambda>_. True) ''bob'' ''t1'' sample_played_db = Inr (k, s') \<and> balance_of s' ''bob'' ''POINTS'' = 20 \<and> balance_of s' ''bob'' ''JADE'' = 9
     \<and> balance_of s' ''alice'' ''POINTS'' = 1000 \<and> \<not> (\<exists>x. ClaimBetTask (\<lambda>_. True) ''bob'' ''t1'' s' = Inr x)"
proof -
  have "case ClaimBetTask (\<lambda>_. True) ''bob'' ''t1'' sample_played_db of Inl e \<Rightarrow> False | Inr _ \<Rightarrow> True" unfolding sample_played by code_simp
  then obtain k s' where run: "ClaimBetTask (\<lambda>_. True) ''bob'' ''t1'' sample_played_db = Inr (k, s')"
    by (cases "ClaimBetTask (\<lambda>_. True) ''bob'' ''t1'' sample_played_db") auto
  have ok: "books_ok sample_played_db" by (rule books_ok_cong [OF sample_books_ok]) (simp_all add: sample_played sample_task_db_def)
  have keys: "task_keys sample_played_db" by (simp add: task_keys_def sample_played sample_task_db_def)
  obtain c where c: "c \<in> set (task_configs sample_played_db)"
    and bal: "\<And>a b. balance_of s' a b = balance_of sample_played_db a b + (if a = ''bob'' then reward_in (tc_rewards (task_scanConfig c)) b else 0)"
    and again: "ClaimBetTask (\<lambda>_. True) ''bob'' ''t1'' s' = Inl (Task ErrTaskNotCompleted) \<or> ClaimBetTask (\<lambda>_. True) ''bob'' ''t1'' s' = Inl (Task ErrTaskAlreadyClaimed)"
    using task_claim_exact [OF ok keys run] by blast
  have r: "reward_in (tc_rewards (task_scanConfig c)) ''POINTS'' = 20" "reward_in (tc_rewards (task_scanConfig c)) ''JADE'' = 9"
  proof -
    have "tc_rewards (task_scanConfig c) = [\<lparr>tr_currency = ''POINTS'', tr_amount = 20, tr_after = None\<rparr>, \<lparr>tr_currency = ''JADE'', tr_amount = 9, tr_after = None\<rparr>]"
      using c by (auto simp: sample_played sample_task_db_def task_scanConfig_def)
    moreover have "to_upper (trim_space ''POINTS'') = ''POINTS''" "to_upper (trim_space ''JADE'') = ''JADE''" by code_simp+
    ultimately show "reward_in (tc_rewards (task_scanConfig c)) ''POINTS'' = 20" "reward_in (tc_rewards (task_scanConfig c)) ''JADE'' = 9" by simp_all
  qed
  show ?thesis using run again bal [of "''bob''" "''POINTS''"] bal [of "''bob''" "''JADE''"] bal [of "''alice''" "''POINTS''"] r
    by (auto simp: balance_of_def wallet_of_def sample_played sample_task_db_def sample_db_def)
qed

section \<open>Rewards are backed by bets\<close>

text \<open>What a player has completed and started in one period, in units of the accumulation currency.\<close>

definition worked :: "int \<Rightarrow> string \<Rightarrow> string \<Rightarrow> int \<Rightarrow> db \<Rightarrow> int" where
  "worked threshold i u d s = (case progress_of i u d s of None \<Rightarrow> 0 | Some p \<Rightarrow> tp_count p * threshold + tp_progress p)"

lemma worked_add_progress:
  assumes "add_progress c v e stake s = Inr s'" "0 \<le> stake"
  shows "worked thr i u d s' \<le> worked thr i u d s + (if tc_id c = i \<and> v = u \<and> e = d then stake else 0)"
proof (cases "lookup (\<lambda>p. tp_config p = tc_id c \<and> tp_user p = v \<and> tp_date p = e) (task_progress s)")
  case None
  then have s': "task_progress s' = task_progress s @ [\<lparr>tp_config = tc_id c, tp_user = v, tp_date = e, tp_progress = min stake (tc_threshold c), tp_count = 0, tp_updated = clock s\<rparr>]"
    using assms(1) by (auto simp: add_progress_def Let_def split: if_splits)
  show ?thesis
  proof (cases "tc_id c = i \<and> v = u \<and> e = d")
    case True
    then have "worked thr i u d s = 0" "worked thr i u d s' = min stake (tc_threshold c)"
      using None by (simp_all add: worked_def progress_of_def s' lookup_append)
    then show ?thesis using True by simp
  next
    case False
    then have "worked thr i u d s' = worked thr i u d s" by (auto simp: worked_def progress_of_def s' lookup_append split: option.splits)
    then show ?thesis using False by auto
  qed
next
  case (Some r)
  let ?P = "\<lambda>p. (tp_config p = tc_id c \<and> tp_user p = v \<and> tp_date p = e) \<and> tp_progress p < tc_threshold c \<and> (tc_max c = 0 \<or> tp_count p < tc_max c)"
  let ?g = "\<lambda>p. p\<lparr>tp_progress := tp_progress p + min stake (max 0 (tc_threshold c - tp_progress p)), tp_updated := clock s\<rparr>"
  have s': "task_progress s' = modify ?P ?g (task_progress s)" using assms(1) Some by (auto simp: add_progress_def Let_def)
  have m: "progress_of i u d s' = map_option (\<lambda>p. if ?P p then ?g p else p) (progress_of i u d s)"
    by (rule progress_of_modify [OF _ s']) simp
  show ?thesis
  proof (cases "progress_of i u d s")
    case None
    then show ?thesis using m assms(2) by (simp add: worked_def)
  next
    case (Some p)
    have "tp_config p = i \<and> tp_user p = u \<and> tp_date p = d" using Some lookup_SomeD [of _ "task_progress s" p] unfolding progress_of_def by blast
    then show ?thesis using m Some assms(2) by (auto simp: worked_def)
  qed
qed

lemma worked_add_all:
  assumes "add_all cs v stake at s = Inr s'" "0 \<le> stake" "distinct (map tc_id cs)"
  shows "worked thr i u d s' \<le> worked thr i u d s
    + (if \<exists>c \<in> set cs. tc_id c = i \<and> v = u \<and> periodDate (tc_period c) (betDateAt at) = d then stake else 0)"
  using assms(1,3)
proof (induction cs arbitrary: s)
  case (Cons c cs)
  obtain t where t: "add_progress c v (periodDate (tc_period c) (betDateAt at)) stake s = Inr t" "add_all cs v stake at t = Inr s'"
    using Cons.prems by (auto simp: bindE_eq_Inr)
  have "tc_id x \<noteq> tc_id c" if "x \<in> set cs" for x using Cons.prems(2) imageI [OF that, of tc_id] by auto
  then show ?case
    using Cons.IH [OF t(2)] Cons.prems(2) worked_add_progress [OF t(1) assms(2), of thr i u d] assms(2) by (auto split: if_splits)
qed simp

datatype task_call = Settled_Bet string string int int | Claim_Task string string | Time_Passes int

definition task_call_run :: "(string \<Rightarrow> bool) \<Rightarrow> task_call \<Rightarrow> db \<Rightarrow> db" where
  "task_call_run parses call s =
     (case call of
        Settled_Bet u currency stake at \<Rightarrow> (case OnBetSettled u currency stake at s of Inl e \<Rightarrow> s | Inr s' \<Rightarrow> s')
      | Claim_Task u i \<Rightarrow> (case ClaimBetTask parses u i s of Inl e \<Rightarrow> s | Inr (k, s') \<Rightarrow> s')
      | Time_Passes dt \<Rightarrow> s\<lparr>clock := clock s + dt\<rparr>)"

text \<open>The stakes a player put into a task in one period.\<close>

definition task_staked :: "task_config_row \<Rightarrow> string \<Rightarrow> int \<Rightarrow> task_call list \<Rightarrow> int" where
  "task_staked c u d calls = (\<Sum>x \<leftarrow> calls. case x of
     Settled_Bet v currency stake at \<Rightarrow> if v = u \<and> currency = tc_acc c \<and> periodDate (tc_period c) (betDateAt at) = d then max 0 stake else 0
   | _ \<Rightarrow> 0)"

lemma tasks_onlyD:
  assumes "tasks_only s s'"
  shows "wallets s' = wallets s" "ledger s' = ledger s" "task_configs s' = task_configs s"
  by (subst assms [unfolded tasks_only_def], simp)+

lemma task_call_worked:
  assumes "books_ok s" "task_keys s" "c \<in> set (task_configs s)"
  shows "worked (tc_threshold c) (tc_id c) u d (task_call_run parses x s) \<le> worked (tc_threshold c) (tc_id c) u d s + task_staked c u d [x]
    \<and> books_ok (task_call_run parses x s) \<and> task_configs (task_call_run parses x s) = task_configs s"
proof (cases x)
  case (Settled_Bet v currency stake at)
  show ?thesis
  proof (cases "OnBetSettled v currency stake at s")
    case (Inl e)
    then show ?thesis using Settled_Bet assms(1) by (simp add: task_call_run_def task_staked_def)
  next
    case (Inr s')
    let ?cs = "sort_key (\<lambda>c. map code (tc_id c)) (filter (\<lambda>c. tc_enabled c \<and> \<not> tc_deleted c \<and> tc_acc c = currency) (task_configs s))"
    have st: "0 < stake" and run: "add_all ?cs v stake at s = Inr s'" using Inr by (auto simp: OnBetSettled_def split: if_splits)
    have dist: "distinct (map tc_id ?cs)" using assms(2) by (simp add: task_keys_def distinct_map inj_on_def)
    have "c' = c" if "c' \<in> set (task_configs s)" "tc_id c' = tc_id c" for c'
      using that assms(2,3) distinct_key_eq [of tc_id "task_configs s" c' c] by (simp add: task_keys_def)
    then have "worked (tc_threshold c) (tc_id c) u d s' \<le> worked (tc_threshold c) (tc_id c) u d s + task_staked c u d [x]"
      using worked_add_all [OF run _ dist, of "tc_threshold c" "tc_id c" u d] st Settled_Bet by (auto simp: task_staked_def split: if_splits)
    moreover note tasks_onlyD [OF add_all_frame [OF run]]
    ultimately show ?thesis using Settled_Bet Inr books_ok_cong [OF assms(1), of s'] by (simp add: task_call_run_def)
  qed
next
  case (Claim_Task v i)
  show ?thesis
  proof (cases "ClaimBetTask parses v i s")
    case (Inl e)
    then show ?thesis using Claim_Task assms(1) by (simp add: task_call_run_def task_staked_def)
  next
    case (Inr r)
    obtain k s' where r: "r = (k, s')" by force
    obtain c' p where c': "lookup (\<lambda>c. tc_id c = i \<and> tc_enabled c \<and> \<not> tc_deleted c) (task_configs s) = Some c'"
      and p: "progress_of i v (periodDate (tc_period c') (betDateAt (clock s))) s = Some p" "tc_threshold c' \<le> tp_progress p"
      and w: "task_claim_writes v (task_scanConfig c') (periodDate (tc_period c') (betDateAt (clock s))) (tp_count p) s = Inr (k, s')"
      using ClaimBetTask_Inr [OF Inr [unfolded r]] by blast
    note A = task_claim_writes_Inr [OF assms(1) w]
    note cm = lookup_SomeD [OF c']
    let ?P = "\<lambda>x. tp_config x = tc_id (task_scanConfig c') \<and> tp_user x = v \<and> tp_date x = periodDate (tc_period c') (betDateAt (clock s))"
    let ?g = "\<lambda>x. x\<lparr>tp_progress := 0, tp_count := tp_count p + 1, tp_updated := clock s\<rparr>"
    have up: "task_progress s' = modify ?P ?g (task_progress s)" using A by blast
    have m: "progress_of (tc_id c) u d s' = map_option (\<lambda>x. if ?P x then ?g x else x) (progress_of (tc_id c) u d s)"
      by (rule progress_of_modify [OF _ up]) simp
    have "worked (tc_threshold c) (tc_id c) u d s' \<le> worked (tc_threshold c) (tc_id c) u d s"
    proof (cases "progress_of (tc_id c) u d s")
      case None
      then show ?thesis using m by (simp add: worked_def)
    next
      case (Some q)
      have q: "tp_config q = tc_id c \<and> tp_user q = u \<and> tp_date q = d" using Some lookup_SomeD [of _ "task_progress s" q] unfolding progress_of_def by blast
      show ?thesis
      proof (cases "?P q")
        case True
        have same: "tc_id c' = tc_id c" using True q by simp
        have "c' = c" using same cm assms(2,3) distinct_key_eq [of tc_id "task_configs s" c' c] by (simp add: task_keys_def)
        moreover have "q = p" using Some p(1) True q cm same by simp
        ultimately show ?thesis using m Some True p(2) by (simp add: worked_def algebra_simps)
      next
        case False
        then have "progress_of (tc_id c) u d s' = Some q" using m Some by (simp only: option.map if_False)
        then show ?thesis using Some by (simp add: worked_def)
      qed
    qed
    then show ?thesis using A Claim_Task Inr r by (simp add: task_call_run_def task_staked_def)
  qed
next
  case (Time_Passes dt)
  then show ?thesis using books_ok_cong [OF assms(1), of "s\<lparr>clock := clock s + dt\<rparr>"]
    by (simp add: task_call_run_def task_staked_def worked_def progress_of_def)
qed

text \<open>C32: Task rewards are backed by bets. After any sequence of settled bets, claims and passing time on unchanged
  configurations, the cycles a player has been paid for in one period of a task, each taken at the full threshold, plus
  the progress left, are at most what the player staked in that period in the currency of the task; the books stay
  consistent.\<close>

theorem task_rewards_backed:
  assumes "books_ok s" "task_keys s" "c \<in> set (task_configs s)" "task_progress s = []"
    and "progress_of (tc_id c) u d (fold (task_call_run parses) calls s) = Some p"
  shows "tp_count p * tc_threshold c + tp_progress p \<le> task_staked c u d calls \<and> books_ok (fold (task_call_run parses) calls s)"
proof -
  have "worked (tc_threshold c) (tc_id c) u d (fold (task_call_run parses) calls s) \<le> worked (tc_threshold c) (tc_id c) u d s + task_staked c u d calls
    \<and> books_ok (fold (task_call_run parses) calls s)"
    using assms(1-3)
  proof (induction calls arbitrary: s)
    case Nil
    then show ?case by (simp add: task_staked_def)
  next
    case (Cons x calls)
    note A = task_call_worked [OF Cons.prems, of u d parses x]
    have "task_keys (task_call_run parses x s)" "c \<in> set (task_configs (task_call_run parses x s))" using A Cons.prems(2,3) by (simp_all add: task_keys_def)
    then have "worked (tc_threshold c) (tc_id c) u d (fold (task_call_run parses) calls (task_call_run parses x s))
        \<le> worked (tc_threshold c) (tc_id c) u d (task_call_run parses x s) + task_staked c u d calls \<and> books_ok (fold (task_call_run parses) calls (task_call_run parses x s))"
      using Cons.IH A by blast
    moreover have "task_staked c u d (x # calls) = task_staked c u d [x] + task_staked c u d calls" by (simp add: task_staked_def)
    ultimately show ?case using A by simp
  qed
  moreover have "worked (tc_threshold c) (tc_id c) u d s = 0" by (simp add: worked_def progress_of_def assms(4))
  ultimately show ?thesis using assms(5) by (simp add: worked_def)
qed

definition sample_task_calls :: "task_call list" where
  "sample_task_calls = [Settled_Bet ''bob'' ''POINTS'' 800 1699999000000000, Claim_Task ''bob'' ''t1'', Claim_Task ''bob'' ''t1'',
     Settled_Bet ''bob'' ''POINTS'' 300 1699999000000000, Time_Passes 86400000000, Claim_Task ''bob'' ''t1'']"

theorem task_rewards_backed_witness:
  "\<exists>p. progress_of ''t1'' ''bob'' 19676 (fold (task_call_run (\<lambda>_. True)) sample_task_calls sample_task_db) = Some p
     \<and> tp_count p * 500 + tp_progress p \<le> 1100"
proof -
  let ?c = "hd (task_configs sample_task_db)"
  have ok: "books_ok sample_task_db" by (rule books_ok_cong [OF sample_books_ok]) (simp_all add: sample_task_db_def)
  have keys: "task_keys sample_task_db" and c: "?c \<in> set (task_configs sample_task_db)" and id: "tc_id ?c = ''t1''"
    by (simp_all add: task_keys_def sample_task_db_def)
  have none: "task_progress sample_task_db = []" by (simp add: sample_task_db_def sample_db_def empty_db_def)
  have "progress_of ''t1'' ''bob'' 19676 (fold (task_call_run (\<lambda>_. True)) sample_task_calls sample_task_db) \<noteq> None" by code_simp
  then obtain p where p: "progress_of ''t1'' ''bob'' 19676 (fold (task_call_run (\<lambda>_. True)) sample_task_calls sample_task_db) = Some p" by blast
  have "task_staked ?c ''bob'' 19676 sample_task_calls = 1100" by code_simp
  moreover have "tc_threshold ?c = 500" by (simp add: sample_task_db_def)
  ultimately have "tp_count p * 500 + tp_progress p \<le> 1100"
    using task_rewards_backed [OF ok keys c none, of "''bob''" 19676 "\<lambda>_. True" sample_task_calls p] p id by simp
  then show ?thesis using p by blast
qed

end
