(* ===== verification/Bet_Void.thy ===== *)
theory Bet_Void
  imports Betting
begin

text \<open>
  An operator voids one bet: \<^verbatim>\<open>internal/application/operations/bet_void.go\<close>. The stake of a real bet returns to
  the wallet, the bet keeps its history, and the request id makes the call repeatable. \<open>parses\<close> is
  \<^verbatim>\<open>uuid.Parse\<close> answering without an error.
\<close>

section \<open>account_creation.go: the actor\<close>

definition requireAdminOperator :: "string \<Rightarrow> db \<Rightarrow> error + int" where
  "requireAdminOperator actor s =
     bindE (orErr (Ops ErrAdminCompletionForbidden)
       (lookup (\<lambda>u. u_id u = actor \<and> u_status u = ''active'' \<and> list_ex (\<lambda>r. fst r = actor \<and> snd r \<in> {''admin'', ''operator''}) (user_roles s)) (users s)))
       (\<lambda>u. Inr (u_public_id u))"

section \<open>bet_void.go\<close>

record BetVoidInput =
  bv_operator :: string
  bv_request :: string
  bv_bet :: string
  bv_reason :: string

definition void_payload :: "void_result \<Rightarrow> payload" where
  "void_payload r =
     PObj [(''operation_id'', PStr (vr_operation r)), (''bet_id'', PStr (vr_bet r)), (''user_id'', PInt (vr_user r)),
       (''operator_user_id'', PInt (vr_operator r)), (''game_type'', PStr (vr_game r)), (''round_sequence'', PInt (vr_sequence r)),
       (''currency'', PStr (vr_currency r)), (''stake_minor'', PInt (vr_stake r)), (''refund_minor'', PInt (vr_refund r)),
       (''is_simulated'', PBool (vr_simulated r)), (''reason'', PStr (vr_reason r)), (''status'', PStr (vr_status r)),
       (''duplicate'', PBool (vr_duplicate r)), (''created_at'', PTime (vr_created r))]"

definition voided_row :: "int \<Rightarrow> int \<Rightarrow> bet_row \<Rightarrow> bet_row" where
  "voided_row now after b = b\<lparr>b_status := BetVoided, b_settled := Some now, b_after := Some after\<rparr>"

definition insert_void :: "void_row \<Rightarrow> db \<Rightarrow> error + db" where
  "insert_void v s =
     (if list_ex (\<lambda>x. av_id x = av_id v \<or> (av_operator x = av_operator v \<and> av_request x = av_request v) \<or> av_bet x = av_bet v) (voids s)
      then Inl (DB Unique) else Inr (s\<lparr>voids := voids s @ [v]\<rparr>))"

text \<open>The refund of a real bet, and the balance recorded with the bet.\<close>

definition void_refund :: "BetVoidInput \<Rightarrow> string \<Rightarrow> bet_row \<Rightarrow> wallet_row \<Rightarrow> int tx" where
  "void_refund i operation b w s =
     (if b_simulated b then Inr (w_available w, s)
      else if w_available w > wrap64 (max_int64 - b_stake b) then Inl (Ops ErrBetVoidBalanceOverflow)
      else let after = wrap64 (w_available w + b_stake b) in
        bindE (set_available (w_id w) after s) (\<lambda>s.
        let (l, s) = new_uuid s in
        bindE (insert_ledger_row \<lparr>l_id = l, l_wallet = w_id w, l_btype = ''bet_void'', l_bid = operation, l_etype = ''bet_void_refund'',
                 l_amount = b_stake b, l_after = after, l_avail_delta = b_stake b, l_frozen_delta = 0, l_frozen_after = 0,
                 l_placement = None, l_remark = bv_reason i, l_operator = Some (bv_operator i), l_at = clock s\<rparr> s) (\<lambda>s.
        Inr (after, s))))"

definition void_writes :: "BetVoidInput \<Rightarrow> int \<Rightarrow> bet_row \<Rightarrow> user_row \<Rightarrow> wallet_row \<Rightarrow> round_row \<Rightarrow> game_type_row \<Rightarrow> void_result tx" where
  "void_writes i operator b u w r g s =
     (let (operation, s) = new_uuid s;
          out = \<lparr>vr_operation = operation, vr_bet = b_id b, vr_user = u_public_id u, vr_operator = operator, vr_game = gt_code g,
                 vr_sequence = r_seq r, vr_currency = w_currency w, vr_stake = b_stake b, vr_refund = (if b_simulated b then 0 else b_stake b),
                 vr_simulated = b_simulated b, vr_reason = bv_reason i, vr_status = ''voided'', vr_duplicate = False, vr_created = clock s\<rparr> in
      if b_status b \<noteq> BetAccepted then Inl (Ops ErrBetNotVoidable)
      else bindE (void_refund i operation b w s) (\<lambda>(after, s).
      bindE (insert_void \<lparr>av_id = operation, av_operator = bv_operator i, av_request = bv_request i, av_bet = b_id b, av_reason = bv_reason i,
               av_result = out, av_created = clock s\<rparr> (set_bet (b_id b) (voided_row (clock s) after) s)) (\<lambda>s.
      bindE (insert_outbox ''bet'' (b_id b) ''game.bet.voided''
               (PObj [(''bet_id'', PStr (b_id b)), (''round_id'', PStr (b_round b)), (''status'', PStr ''voided'')]) s) (\<lambda>s.
      bindE (insert_audit (bv_operator i) ''admin.bet.void'' ''bet'' (b_id b) (void_payload out) s) (\<lambda>s.
      Inr (out, s))))))"

definition VoidBet :: "(string \<Rightarrow> bool) \<Rightarrow> BetVoidInput \<Rightarrow> void_result tx" where
  "VoidBet parses input s =
     (let i = input\<lparr>bv_request := trim_space (bv_request input), bv_reason := trim_space (bv_reason input)\<rparr> in
      if \<not> parses (bv_operator i) \<or> bv_request i = [] \<or> length (bv_request i) > 128 \<or> bv_reason i = [] \<or> length (bv_reason i) > 2000
         \<or> \<not> parses (bv_bet i) then Inl (Ops ErrInvalidBetVoid)
      else bindE (requireAdminOperator (bv_operator i) s) (\<lambda>operator.
      case lookup (\<lambda>v. av_operator v = bv_operator i \<and> av_request v = bv_request i) (voids s) of
        Some v \<Rightarrow>
          if av_bet v \<noteq> bv_bet i \<or> av_reason v \<noteq> bv_reason i then Inl (Ops ErrBetVoidConflict)
          else Inr ((av_result v)\<lparr>vr_duplicate := True\<rparr>, s)
      | None \<Rightarrow>
          bindE (orErr (Ops ErrBetVoidNotFound) (bet_by_id s (bv_bet i))) (\<lambda>b.
          bindE (orErr (Ops ErrBetVoidNotFound) (user_by_id s (b_user b))) (\<lambda>u.
          bindE (orErr (Ops ErrBetVoidNotFound) (wallet_by_id s (b_wallet b))) (\<lambda>w.
          bindE (orErr (Ops ErrBetVoidNotFound) (lookup (\<lambda>r. r_id r = b_round b) (rounds s))) (\<lambda>r.
          bindE (orErr (Ops ErrBetVoidNotFound) (lookup (\<lambda>g. gt_id g = r_type r) (game_types s))) (\<lambda>g.
          void_writes i operator b u w r g s)))))))"

definition ListBetVoids :: "string \<Rightarrow> int \<Rightarrow> int \<Rightarrow> db \<Rightarrow> error + (void_result list \<times> int)" where
  "ListBetVoids actor limit offset s =
     bindE (requireAdminOperator actor s) (\<lambda>_.
     Inr (map av_result (take (if limit \<le> 0 \<or> limit > 200 then 50 else nat limit) (drop (nat offset)
            (rev (sort_key av_created (sort_key (\<lambda>v. map code (av_id v)) (voids s)))))), int (length (voids s))))"

section \<open>What a void does\<close>

definition voided_bet :: "bet_row \<Rightarrow> string \<Rightarrow> db \<Rightarrow> db \<Rightarrow> bool" where
  "voided_bet b operation s s' \<longleftrightarrow>
     (\<exists>after. bets s' = modify (\<lambda>x. b_id x = b_id b) (voided_row (clock s) after) (bets s))
     \<and> placements s' = placements s \<and> placed_frame s s'
     \<and> (if b_simulated b then wallets s' = wallets s \<and> ledger s' = ledger s
        else \<exists>w. wallet_by_id s (b_wallet b) = Some w \<and> w_available w + b_stake b \<le> max_int64
               \<and> moved s w (w_available w + b_stake b) ''bet_void'' operation ''bet_void_refund'' s')"

lemma voided_row_simps [simp]:
  "b_id (voided_row now after b) = b_id b" "b_stake (voided_row now after b) = b_stake b" "b_count (voided_row now after b) = b_count b"
  "b_wallet (voided_row now after b) = b_wallet b" "b_status (voided_row now after b) = BetVoided" "b_user (voided_row now after b) = b_user b"
  "b_round (voided_row now after b) = b_round b" "b_simulated (voided_row now after b) = b_simulated b"
  by (simp_all add: voided_row_def)

lemma void_refund_Inr:
  assumes "books_ok s" "wallet_by_id s (b_wallet b) = Some w" "0 < b_stake b" "b_stake b \<le> max_int64" "void_refund i operation b w s = Inr (v, t)"
  shows "money_only s t \<and> map w_id (wallets t) = map w_id (wallets s)
    \<and> (if b_simulated b then t = s \<and> v = w_available w
       else w_available w + b_stake b \<le> max_int64 \<and> v = w_available w + b_stake b
         \<and> moved s w v ''bet_void'' operation ''bet_void_refund'' t)"
proof (cases "b_simulated b")
  case True
  then show ?thesis using assms(5) by (simp add: void_refund_def)
next
  case False
  let ?v = "w_available w + b_stake b"
  have id: "w_id w = b_wallet b" using wallet_by_id_mem [OF assms(2)] by simp
  have ok: "wallets_ok s" using books_ok_wallets_ok [OF assms(1)] .
  have range: "in_range (w_available w)" using wallets_ok_range [OF ok assms(2)] by simp
  have wr: "wrap64 (max_int64 - b_stake b) = max_int64 - b_stake b" by (rule wrap64_id) (use assms(3,4) in \<open>simp add: int64_def max_int64_def\<close>)
  have le: "?v \<le> max_int64" using assms(5) False wr by (auto simp: void_refund_def split: if_splits)
  have wv: "wrap64 ?v = ?v" by (rule wrap64_id) (use assms(3,4) le range in \<open>simp add: int64_def max_int64_def in_range_def\<close>)
  obtain s1 e where s1: "set_available (b_wallet b) ?v s = Inr s1" and l: "insert_ledger_row e (s1\<lparr>next_uuid := Suc (next_uuid s1)\<rparr>) = Inr t"
    and v: "v = ?v" and e: "l_wallet e = b_wallet b" "l_btype e = ''bet_void''" "l_bid e = operation" "l_etype e = ''bet_void_refund''" "l_amount e = b_stake b"
      "l_after e = ?v" "l_avail_delta e = b_stake b" "l_frozen_delta e = 0"
    using assms(5) False wr wv le id by (auto simp: void_refund_def Let_def new_uuid_def bindE_eq_Inr split: if_splits)
  have u: "s1 = wallet_update (b_wallet b) ?v (w_frozen w) s" using set_available_Inr [OF ok assms(2) s1] by simp
  let ?t = "s1\<lparr>next_uuid := Suc (next_uuid s1)\<rparr>"
  obtain x ev where x: "wallet_by_id ?t (l_wallet e) = Some x"
    and t: "t = ?t\<lparr>next_uuid := Suc (next_uuid ?t), ledger := ledger ?t @ [e\<lparr>l_frozen_after := w_frozen x\<rparr>], outbox := outbox ?t @ [ev]\<rparr>"
    using l by (rule insert_ledger_row_Inr)
  have "w_frozen x = w_frozen w" using wallet_by_id_update [OF assms(2), of ?v "w_frozen w" "b_wallet b"] x e(1) u by (auto simp: wallet_by_id_def)
  then have "moved s w ?v ''bet_void'' operation ''bet_void_refund'' t" using t e u id by (auto simp: moved_def wallet_update_def)
  moreover have "money_only s1 t" by (simp add: t money_only_def)
  then have "money_only s t" using set_available_money_only [OF s1] money_only_trans by blast
  moreover have "map w_id (wallets t) = map w_id (wallets s)" using set_available_ids [OF s1] by (simp add: t)
  ultimately show ?thesis using False le v by simp
qed


definition void_request :: "BetVoidInput \<Rightarrow> string" where "void_request i = trim_space (bv_request i)"

definition voided_before :: "db \<Rightarrow> BetVoidInput \<Rightarrow> void_row option" where
  "voided_before s i = lookup (\<lambda>v. av_operator v = bv_operator i \<and> av_request v = void_request i) (voids s)"

lemma insert_audit_rest:
  assumes "insert_audit actor action tt ti p s = Inr s'"
  shows "wallets s' = wallets s" "ledger s' = ledger s" "bets s' = bets s" "placements s' = placements s" "users s' = users s"
    "user_roles s' = user_roles s" "voids s' = voids s" "placed_frame s s'"
  using assms by (auto simp: insert_audit_def new_uuid_def Let_def placed_frame_def split: if_splits)

lemma void_writes_Inr:
  assumes "books_ok s" "bets_ok s" "bet_by_id s (b_id b) = Some b" "wallet_by_id s (b_wallet b) = Some w" "void_writes i op b u w r g s = Inr (x, s')"
  shows "b_status b = BetAccepted \<and> voided_bet b (vr_operation x) s s' \<and> \<not> vr_duplicate x \<and> vr_refund x = (if b_simulated b then 0 else b_stake b)
    \<and> users s' = users s \<and> user_roles s' = user_roles s
    \<and> (\<exists>v. voids s' = voids s @ [v] \<and> av_operator v = bv_operator i \<and> av_request v = bv_request i \<and> av_bet v = b_id b \<and> av_reason v = bv_reason i
         \<and> av_result v = x)"
proof -
  let ?t = "s\<lparr>next_uuid := Suc (next_uuid s)\<rparr>" let ?op = "uuids s (next_uuid s)"
  have b: "b \<in> set (bets s)" using assms(3) lookup_SomeD by (fastforce simp: bet_by_id_def)
  have st: "0 < b_stake b" "b_stake b \<le> max_int64" using assms(2) b by (simp_all add: bets_ok_def)
  obtain v t1 t2 t3 where acc: "b_status b = BetAccepted" and ref: "void_refund i ?op b w ?t = Inr (v, t1)"
    and ins: "insert_void \<lparr>av_id = ?op, av_operator = bv_operator i, av_request = bv_request i, av_bet = b_id b, av_reason = bv_reason i,
               av_result = x, av_created = clock t1\<rparr> (set_bet (b_id b) (voided_row (clock t1) v) t1) = Inr t2"
    and ev: "insert_outbox ''bet'' (b_id b) ''game.bet.voided'' (PObj [(''bet_id'', PStr (b_id b)), (''round_id'', PStr (b_round b)), (''status'', PStr ''voided'')]) t2 = Inr t3"
    and au: "insert_audit (bv_operator i) ''admin.bet.void'' ''bet'' (b_id b) (void_payload x) t3 = Inr s'"
    and x: "vr_operation x = ?op" "\<not> vr_duplicate x" "vr_refund x = (if b_simulated b then 0 else b_stake b)"
    using assms(5) by (auto simp: void_writes_def new_uuid_def Let_def bindE_eq_Inr split: if_splits)
  have ok: "books_ok ?t" by (rule books_ok_cong [OF assms(1)]) simp_all
  have w: "wallet_by_id ?t (b_wallet b) = Some w" using assms(4) by (simp add: wallet_by_id_def)
  note R = void_refund_Inr [OF ok w st ref]
  note m = money_onlyD [OF conjunct1 [OF R]]
  have t2: "t2 = (set_bet (b_id b) (voided_row (clock t1) v) t1)\<lparr>voids := voids (set_bet (b_id b) (voided_row (clock t1) v) t1) @
      [\<lparr>av_id = ?op, av_operator = bv_operator i, av_request = bv_request i, av_bet = b_id b, av_reason = bv_reason i, av_result = x, av_created = clock t1\<rparr>]\<rparr>"
    using ins by (auto simp: insert_void_def split: if_splits)
  note O = insert_outbox_money_only [OF ev]
  note e = money_onlyD [OF conjunct1 [OF O]]
  note a = insert_audit_rest [OF au]
  have t2': "wallets t2 = wallets t1" "ledger t2 = ledger t1" "bets t2 = modify (\<lambda>x. b_id x = b_id b) (voided_row (clock t1) v) (bets t1)"
    "placements t2 = placements t1" "users t2 = users t1" "user_roles t2 = user_roles t1"
    "voids t2 = voids t1 @ [\<lparr>av_id = ?op, av_operator = bv_operator i, av_request = bv_request i, av_bet = b_id b, av_reason = bv_reason i, av_result = x, av_created = clock t1\<rparr>]"
    by (simp_all add: t2 set_bet_def)
  have s': "wallets s' = wallets t1" "ledger s' = ledger t1" using a(1,2) O t2'(1,2) by simp_all
  have bs: "bets s' = modify (\<lambda>x. b_id x = b_id b) (voided_row (clock s) v) (bets s)" using a(3) e(12) t2'(3) m(1,12) by simp
  have ps: "placements s' = placements s" "users s' = users s" "user_roles s' = user_roles s"
    using a(4-6) e t2'(4-6) m by simp_all
  have vs: "voids s' = voids s @ [\<lparr>av_id = ?op, av_operator = bv_operator i, av_request = bv_request i, av_bet = b_id b, av_reason = bv_reason i, av_result = x, av_created = clock t1\<rparr>]"
    using a(7) e t2'(7) m by simp
  have "placed_frame ?t t1" using R money_only_placed by blast
  moreover have "placed_frame s ?t" "placed_frame t1 t2" by (simp_all add: placed_frame_def t2 set_bet_def)
  moreover have "placed_frame t2 t3" using money_only_placed O by simp
  ultimately have "placed_frame s s'" using a(8) placed_frame_trans by blast
  moreover have "if b_simulated b then wallets s' = wallets s \<and> ledger s' = ledger s
        else \<exists>w. wallet_by_id s (b_wallet b) = Some w \<and> w_available w + b_stake b \<le> max_int64
               \<and> moved s w (w_available w + b_stake b) ''bet_void'' ?op ''bet_void_refund'' s'"
  proof (cases "b_simulated b")
    case True
    then show ?thesis using R s' by simp
  next
    case False
    have "moved s w v ''bet_void'' ?op ''bet_void_refund'' s' = moved ?t w v ''bet_void'' ?op ''bet_void_refund'' t1"
      using moved_cong [of s ?t] moved_cong2 [OF s'(1,2)] by simp
    then show ?thesis using False R assms(4) by auto
  qed
  ultimately show ?thesis using acc x bs ps vs unfolding voided_bet_def by auto
qed

lemma VoidBet_Inr:
  assumes "books_ok s" "bets_ok s" "VoidBet parses i s = Inr (x, s')"
  obtains (again) v where "voided_before s i = Some v" "av_bet v = bv_bet i" "x = (av_result v)\<lparr>vr_duplicate := True\<rparr>" "s' = s"
  | (voided) b v where "voided_before s i = None" "b \<in> set (bets s)" "b_id b = bv_bet i" "b_status b = BetAccepted" "voided_bet b (vr_operation x) s s'"
      "\<not> vr_duplicate x" "vr_refund x = (if b_simulated b then 0 else b_stake b)" "users s' = users s" "user_roles s' = user_roles s"
      "voids s' = voids s @ [v]" "av_operator v = bv_operator i" "av_request v = void_request i" "av_bet v = bv_bet i" "av_reason v = trim_space (bv_reason i)"
      "av_result v = x"
proof (cases "voided_before s i")
  case (Some v)
  then have "av_bet v = bv_bet i \<and> x = (av_result v)\<lparr>vr_duplicate := True\<rparr> \<and> s' = s"
    using assms(3) by (auto simp: VoidBet_def voided_before_def void_request_def bindE_eq_Inr Let_def split: if_splits)
  then show thesis using again Some by blast
next
  case None
  let ?i = "i\<lparr>bv_request := trim_space (bv_request i), bv_reason := trim_space (bv_reason i)\<rparr>"
  obtain op b u w r g where b: "bet_by_id s (bv_bet i) = Some b" and w: "wallet_by_id s (b_wallet b) = Some w" and run: "void_writes ?i op b u w r g s = Inr (x, s')"
    using assms(3) None by (auto simp: VoidBet_def voided_before_def void_request_def bindE_eq_Inr orErr_eq_Inr Let_def split: if_splits)
  have id: "b_id b = bv_bet i" "b \<in> set (bets s)" using b lookup_SomeD [of _ "bets s" b] by (auto simp: bet_by_id_def)
  show thesis
    using void_writes_Inr [OF assms(1,2) b [folded id(1)] w run] id None
    by (elim conjE exE) (rule voided, auto simp: void_request_def)
qed

lemma voided_keeps:
  assumes "betting_ok s" "b \<in> set (bets s)" "voided_bet b op s s'"
  shows "betting_ok s' \<and> rounds s' = rounds s"
proof -
  have ok: "books_ok s" "bets_ok s" "round_keys s" "orders_ok s" using assms(1) by (simp_all add: betting_ok_def platform_ok_def)
  obtain after where b': "bets s' = modify (\<lambda>x. b_id x = b_id b) (voided_row (clock s) after) (bets s)"
    using assms(3) unfolding voided_bet_def by blast
  have fr: "placements s' = placements s" "placed_frame s s'" using assms(3) by (simp_all add: voided_bet_def)
  have st: "list_all2 same_stake (bets s) (bets s')" unfolding b' by (rule modify_stakes) (simp add: same_stake_def)
  have "books_ok s'"
  proof (cases "b_simulated b")
    case True
    then show ?thesis using assms(3) books_ok_cong [OF ok(1)] by (simp add: voided_bet_def)
  next
    case False
    then obtain w where w: "wallet_by_id s (b_wallet b) = Some w" "w_available w + b_stake b \<le> max_int64"
      "moved s w (w_available w + b_stake b) ''bet_void'' op ''bet_void_refund'' s'" using assms(3) by (auto simp: voided_bet_def)
    have "in_range (w_available w + b_stake b)"
      using w(2) wallets_ok_range [OF books_ok_wallets_ok [OF ok(1)] w(1)] ok(2) assms(2) by (auto simp: bets_ok_def in_range_def)
    then show ?thesis using moved_books [OF ok(1) wallet_by_id_self [OF w(1)] w(3)] by simp
  qed
  moreover have "bets_ok s'" by (rule same_stakes_bets [OF ok(2) st, of "[]"]) (use fr(2) in \<open>simp add: placed_frame_def\<close>)
  ultimately show ?thesis using same_stakes_orders [OF ok(4) st fr(1)] fr(2) ok(3)
    by (simp add: betting_ok_def platform_ok_def placed_frame_def round_keys_def)
qed

interpretation void: betting_operation "VoidBet parses" for parses
proof unfold_locales
  fix s s' :: db and i and x :: void_result
  assume s: "betting_ok s" and run: "VoidBet parses i s = Inr (x, s')"
  have ok: "books_ok s" "bets_ok s" using s by (simp_all add: betting_ok_def platform_ok_def)
  show "betting_ok s' \<and> rounds_move s s'"
  proof (cases rule: VoidBet_Inr [OF ok run, case_names again voided])
    case (again v)
    then show ?thesis using s by simp
  next
    case (voided b v)
    then show ?thesis using voided_keeps [OF s voided(2,5)] rounds_move_cong [of s' s] by simp
  qed
qed


text \<open>Nothing can be done with a voided bet.\<close>

lemma voided_not_cancelled:
  assumes "lookup (\<lambda>x. b_id x = i \<and> b_user x = u) (bets s) = Some b" "b_status b = BetVoided"
  shows "CancelBet i u s \<noteq> Inr (p, t)"
  using assms by (auto simp: CancelBet_def bindE_eq_Inr orErr_eq_Inr split: if_splits)

section \<open>A voided bet stays as it is\<close>

text \<open>Every call that can decide a bet: the calls of a betting run, which place, cancel, settle and void whole rounds, and the voids of
  single bets.\<close>

definition decide :: "(string \<Rightarrow> bool) \<Rightarrow> betting_call + BetVoidInput \<Rightarrow> unit tx" where
  "decide parses c s = (case c of Inl call \<Rightarrow> perform call s | Inr i \<Rightarrow> bindE (VoidBet parses i s) (\<lambda>r. Inr ((), snd r)))"

interpretation deciding: betting_operation "decide parses" for parses
proof unfold_locales
  fix s s' :: db and c :: "betting_call + BetVoidInput" and r :: unit
  assume s: "betting_ok s" and run: "decide parses c s = Inr (r, s')"
  show "betting_ok s' \<and> rounds_move s s'"
  proof (cases c)
    case (Inl call)
    then show ?thesis using betting.keeps_betting [OF s] run by (simp add: decide_def)
  next
    case (Inr i)
    then obtain x where "VoidBet parses i s = Inr (x, s')" using run by (auto simp: decide_def bindE_eq_Inr)
    then show ?thesis using void.keeps_betting [OF s] by blast
  qed
qed

lemma modify_keeps_voided:
  assumes "bets t = modify (\<lambda>x. b_id x = b_id c) g (bets s)" "c \<in> set (bets s)" "b_status c = BetAccepted" "bets_ok s"
    and "b \<in> set (bets s)" "b_status b = BetVoided"
  shows "b \<in> set (bets t)"
proof -
  have "b_id b \<noteq> b_id c" using distinct_key_eq [of b_id "bets s" b c] assms(2-6) by (auto simp: bets_ok_def)
  then show ?thesis unfolding assms(1) set_modify using assms(5) by force
qed

lemma rewritten_keeps:
  assumes "rewritten bs R s t" "b \<in> set (bets s)" "b \<notin> set bs"
  shows "b \<in> set (bets t)"
proof -
  obtain k where k: "k < length (bets s)" "bets s ! k = b" using assms(2) by (auto simp: in_set_conv_nth)
  have "bets t ! k = b" "length (bets t) = length (bets s)"
    using assms(1,3) k unfolding rewritten_def by (auto simp: list_all2_conv_all_nth)
  then show ?thesis using k(1) nth_mem by metis
qed

text \<open>No entry of a kind was posted for an id.\<close>

definition unpaid :: "string \<Rightarrow> string \<Rightarrow> db \<Rightarrow> db \<Rightarrow> bool" where
  "unpaid kind i s s' \<longleftrightarrow> (\<exists>es. ledger s' = ledger s @ es \<and> (\<forall>e \<in> set es. \<not> (l_btype e = kind \<and> l_bid e = i)))"

lemma unpaid_refl: "unpaid kind i s s"
  by (simp add: unpaid_def)

lemma entries_of_mem: "e \<in> set es \<Longrightarrow> l_btype e = kind \<Longrightarrow> (l_wallet e, l_bid e, l_amount e) \<in> set (entries_of kind es)"
  by (induction es) auto

lemma grows_unpaid: "grows kind s s' new \<Longrightarrow> \<forall>(w, i', a) \<in> set new. i' \<noteq> i \<Longrightarrow> unpaid kind i s s'"
  unfolding grows_def unpaid_def using entries_of_mem by fastforce

lemma accepted_not_voided:
  assumes "bets_ok s" "b \<in> set (bets s)" "b_status b = BetVoided"
  shows "b \<notin> set (accepted_bets round s)" "c \<in> set (accepted_bets round s) \<Longrightarrow> b_id c \<noteq> b_id b"
proof -
  show n: "b \<notin> set (accepted_bets round s)" using assms(3) by (simp add: accepted_bets_set of_round_def)
  show "b_id c \<noteq> b_id b" if "c \<in> set (accepted_bets round s)"
    using distinct_key_eq [of b_id "bets s" c b] assms(1,2) n that by (auto simp: bets_ok_def accepted_bets_set)
qed

lemma SettleRound_voided:
  assumes "betting_ok s" "b \<in> set (bets s)" "b_status b = BetVoided" "SettleRound (Some OnBetSettled) round outcome rules s = Inr (x, t)"
  shows "b \<in> set (bets t) \<and> unpaid ''settlement'' (b_id b) s t"
proof -
  have ok: "books_ok s" "bets_ok s" using assms(1) by (simp_all add: betting_ok_def platform_ok_def)
  obtain r where r: "lookup (\<lambda>r. r_id r = round) (rounds s) = Some r"
    using assms(4) by (auto simp: SettleRound_def bindE_eq_Inr orErr_eq_Inr split: if_splits)
  show ?thesis
  proof (cases "r_status r = RoundSettled")
    case True
    then have "t = s" using assms(4) r by (auto simp: SettleRound_def bindE_eq_Inr orErr_eq_Inr split: if_splits)
    then show ?thesis using assms(2) unpaid_refl by simp
  next
    case False
    note m = task_hook.SettleRound_Inr [OF ok assms(4) r False]
    note a = accepted_not_voided [OF ok(2) assms(2,3)]
    have "rewritten (accepted_bets round s) (decided_row rules (plays_of rules round s) outcome (clock s)) s t"
      and g: "grows ''settlement'' s t (prizes rules (plays_of rules round s) outcome (accepted_bets round s))" using m by blast+
    then have "b \<in> set (bets t)" using rewritten_keeps assms(2) a(1) by blast
    moreover have "unpaid ''settlement'' (b_id b) s t" by (rule grows_unpaid [OF g]) (use a(2) in \<open>auto simp: prizes_def\<close>)
    ultimately show ?thesis by simp
  qed
qed

lemma CancelRound_voided:
  assumes "betting_ok s" "b \<in> set (bets s)" "b_status b = BetVoided" "CancelRound round s = Inr (n, t)"
  shows "b \<in> set (bets t) \<and> unpaid ''refund'' (b_id b) s t"
proof -
  have ok: "books_ok s" "bets_ok s" using assms(1) by (simp_all add: betting_ok_def platform_ok_def)
  obtain r where r: "lookup (\<lambda>r. r_id r = round) (rounds s) = Some r" using assms(4) by (auto simp: CancelRound_def bindE_eq_Inr orErr_eq_Inr)
  show ?thesis
  proof (cases "r_status r = RoundCancelled")
    case True
    then have "t = s" using assms(4) r by (simp add: CancelRound_def)
    then show ?thesis using assms(2) unpaid_refl by simp
  next
    case False
    note m = CancelRound_Inr [OF ok assms(4) r False] and a = accepted_not_voided [OF ok(2) assms(2,3)]
    have "b \<in> set (bets t)" using m rewritten_keeps [OF _ assms(2) a(1)] by blast
    moreover have "unpaid ''refund'' (b_id b) s t"
      by (rule grows_unpaid [where new = "map (\<lambda>b. (b_wallet b, b_id b, b_stake b)) (filter (\<lambda>b. \<not> b_simulated b) (accepted_bets round s))"])
        (use m a(2) in auto)
    ultimately show ?thesis by simp
  qed
qed

lemma decide_voided:
  assumes "betting_ok s" "b \<in> set (bets s)" "b_status b = BetVoided" "decide parses c s = Inr (r, t)"
  shows "b \<in> set (bets t)"
proof -
  have ok: "books_ok s" "bets_ok s" using assms(1) by (simp_all add: betting_ok_def platform_ok_def)
  note keep = modify_keeps_voided [OF _ _ _ ok(2) assms(2,3)]
  show ?thesis
  proof (cases c)
    case (Inr i)
    then obtain x where v: "VoidBet parses i s = Inr (x, t)" using assms(4) by (auto simp: decide_def bindE_eq_Inr)
    show ?thesis
    proof (cases rule: VoidBet_Inr [OF ok v, case_names again voided])
      case (voided c v)
      then show ?thesis using keep unfolding voided_bet_def by blast
    qed (use assms(2) in simp)
  next
    case (Inl call)
    then have p: "perform call s = Inr (r, t)" using assms(4) by (simp add: decide_def)
    show ?thesis
    proof (cases call)
      case (Place robot q)
      then obtain x where x: "placeBetTx robot q s = Inr (x, t)" using p by (auto simp: perform_def bindE_eq_Inr split: if_splits)
      show ?thesis
      proof (cases rule: placeBetTx_Inr [OF books_ok_wallets_ok [OF ok(1)] x, case_names again fresh])
        case (fresh sel u w odds betID placement)
        then have "order_added (place_normalize q) odds (u_virtual u) betID s t" by (simp add: placed_with_def)
        then consider (grown) c g where "c \<in> set (bets s)" "b_status c = BetAccepted" "bets t = modify (\<lambda>x. b_id x = b_id c) g (bets s)"
          | (new) n where "bets t = bets s @ [n]"
          unfolding order_added_def by blast
        then show ?thesis
        proof cases
          case (grown c g)
          then show ?thesis using keep by metis
        qed (use assms(2) in simp)
      qed (use assms(2) in simp)
    next
      case (Withdraw_Bet betID user)
      then obtain x where x: "CancelBet betID user s = Inr (x, t)" using p by (auto simp: perform_def bindE_eq_Inr)
      show ?thesis
      proof (cases rule: CancelBet_Inr [OF ok x, case_names again cancelled])
        case (cancelled c r)
        then show ?thesis using keep lookup_SomeD [OF cancelled(1)] unfolding cancelled_bet_def by blast
      qed (use assms(2) in simp)
    next
      case (Settle i outcome rules)
      then obtain x where "SettleRound (Some OnBetSettled) i outcome rules s = Inr (x, t)" using p by (auto simp: perform_def bindE_eq_Inr)
      then show ?thesis using SettleRound_voided [OF assms(1-3)] by blast
    next
      case (Void_Round i)
      then obtain n where "CancelRound i s = Inr (n, t)" using p by (auto simp: perform_def bindE_eq_Inr)
      then show ?thesis using CancelRound_voided [OF assms(1-3)] by blast
    qed
  qed
qed

lemma decided_voided:
  assumes "betting_ok s" "b \<in> set (bets s)" "b_status b = BetVoided"
  shows "betting_ok (fold (\<lambda>c. attempt (decide parses c)) calls s) \<and> b \<in> set (bets (fold (\<lambda>c. attempt (decide parses c)) calls s))"
  using assms(1,2)
proof (induction calls arbitrary: s)
  case (Cons c calls)
  have "betting_ok (attempt (decide parses c) s) \<and> b \<in> set (bets (attempt (decide parses c) s))"
    using deciding.attempt_betting [OF Cons.prems(1)] decide_voided [OF Cons.prems assms(3)] Cons.prems(2)
    by (auto simp: attempt_def split: sum.splits)
  then show ?case using Cons.IH by simp
qed simp

text \<open>No call can decide a voided bet: the player cannot cancel it, an operator cannot void it again, and a settlement or a cancellation
  of any round leaves its row and posts nothing for it.\<close>

lemma voided_final:
  assumes "betting_ok s" "b \<in> set (bets s)" "b_status b = BetVoided"
  shows "CancelBet (b_id b) (b_user b) s \<noteq> Inr (p, t)"
    and "bv_bet j = b_id b \<Longrightarrow> VoidBet parses j s = Inr (x, t) \<Longrightarrow> t = s \<and> vr_duplicate x"
proof -
  have ok: "books_ok s" "bets_ok s" using assms(1) by (simp_all add: betting_ok_def platform_ok_def)
  have only: "c = b" if "c \<in> set (bets s)" "b_id c = b_id b" for c
    using distinct_key_eq [of b_id "bets s" c b] ok(2) that assms(2) by (simp add: bets_ok_def)
  show "CancelBet (b_id b) (b_user b) s \<noteq> Inr (p, t)"
  proof (cases "lookup (\<lambda>x. b_id x = b_id b \<and> b_user x = b_user b) (bets s)")
    case None
    then show ?thesis by (simp add: CancelBet_def)
  next
    case (Some c)
    then show ?thesis using voided_not_cancelled [OF Some] only [of c] lookup_SomeD [OF Some] assms(3) by simp
  qed
  show "t = s \<and> vr_duplicate x" if j: "bv_bet j = b_id b" "VoidBet parses j s = Inr (x, t)"
  proof (cases rule: VoidBet_Inr [OF ok j(2), case_names again voided])
    case (voided c v)
    then show ?thesis using only [of c] j(1) assms(3) by simp
  qed auto
qed

text \<open>C19: The void of a bet is exact and final. A first successful request voids an accepted bet and nothing else of the
  bets; a real stake returns to its wallet with one entry, a simulated bet moves no money. The same request again is
  answered as a duplicate without a change. Whatever betting, cancelling, settling and voiding follows, the row of the bet stays: the
  player cannot cancel the bet any more, no request of an operator voids it again, and a settlement or a cancellation of any round
  leaves it and posts neither a prize nor a refund for it.\<close>

theorem void_bet_exact:
  assumes "betting_ok s" "VoidBet parses i s = Inr (r, s')" "voided_before s i = None"
  shows "\<exists>b after. b \<in> set (bets s) \<and> b_id b = bv_bet i \<and> b_status b = BetAccepted
     \<and> bets s' = modify (\<lambda>x. b_id x = bv_bet i) (voided_row (clock s) after) (bets s)
     \<and> vr_refund r = (if b_simulated b then 0 else b_stake b)
     \<and> (if b_simulated b then wallets s' = wallets s \<and> ledger s' = ledger s
        else grows ''bet_void'' s s' [(b_wallet b, vr_operation r, b_stake b)]
          \<and> (\<exists>w w'. wallet_by_id s (b_wallet b) = Some w \<and> wallet_by_id s' (b_wallet b) = Some w' \<and> w_available w' = w_available w + b_stake b))
     \<and> betting_ok s' \<and> VoidBet parses i s' = Inr (r\<lparr>vr_duplicate := True\<rparr>, s')
     \<and> (\<forall>calls t. t = fold (\<lambda>c. attempt (decide parses c)) calls s' \<longrightarrow>
          voided_row (clock s) after b \<in> set (bets t)
          \<and> (\<forall>p u. CancelBet (bv_bet i) (b_user b) t \<noteq> Inr (p, u))
          \<and> (\<forall>j x u. bv_bet j = bv_bet i \<longrightarrow> VoidBet parses j t = Inr (x, u) \<longrightarrow> u = t \<and> vr_duplicate x)
          \<and> (\<forall>round outcome rules x u. SettleRound (Some OnBetSettled) round outcome rules t = Inr (x, u) \<longrightarrow>
               voided_row (clock s) after b \<in> set (bets u) \<and> unpaid ''settlement'' (bv_bet i) t u)
          \<and> (\<forall>round n u. CancelRound round t = Inr (n, u) \<longrightarrow>
               voided_row (clock s) after b \<in> set (bets u) \<and> unpaid ''refund'' (bv_bet i) t u))"
proof -
  have ok: "books_ok s" "bets_ok s" using assms(1) by (simp_all add: betting_ok_def platform_ok_def)
  obtain b v where b: "b \<in> set (bets s)" "b_id b = bv_bet i" "b_status b = BetAccepted" and vb: "voided_bet b (vr_operation r) s s'"
    and r: "\<not> vr_duplicate r" "vr_refund r = (if b_simulated b then 0 else b_stake b)" and us: "users s' = users s" "user_roles s' = user_roles s"
    and v: "voids s' = voids s @ [v]" "av_operator v = bv_operator i" "av_request v = void_request i" "av_bet v = bv_bet i" "av_reason v = trim_space (bv_reason i)"
      "av_result v = r"
    by (cases rule: VoidBet_Inr [OF ok assms(2)]) (use assms(3) in auto)
  obtain after where m: "bets s' = modify (\<lambda>x. b_id x = bv_bet i) (voided_row (clock s) after) (bets s)"
    using vb b unfolding voided_bet_def by metis
  have keep: "betting_ok s'" using voided_keeps [OF assms(1) b(1) vb] by simp
  let ?b = "voided_row (clock s) after b"
  have mem: "?b \<in> set (bets s')" unfolding m set_modify using b by force
  have final: "?b \<in> set (bets t) \<and> (\<forall>p u. CancelBet (bv_bet i) (b_user b) t \<noteq> Inr (p, u))
      \<and> (\<forall>j x u. bv_bet j = bv_bet i \<longrightarrow> VoidBet parses j t = Inr (x, u) \<longrightarrow> u = t \<and> vr_duplicate x)
      \<and> (\<forall>round outcome rules x u. SettleRound (Some OnBetSettled) round outcome rules t = Inr (x, u) \<longrightarrow> ?b \<in> set (bets u) \<and> unpaid ''settlement'' (bv_bet i) t u)
      \<and> (\<forall>round n u. CancelRound round t = Inr (n, u) \<longrightarrow> ?b \<in> set (bets u) \<and> unpaid ''refund'' (bv_bet i) t u)"
    if "t = fold (\<lambda>c. attempt (decide parses c)) calls s'" for calls t
  proof -
    have t: "betting_ok t" "?b \<in> set (bets t)" using decided_voided [OF keep mem] that by simp_all
    have st: "b_status ?b = BetVoided" "b_id ?b = bv_bet i" "b_user ?b = b_user b" using b(2) by simp_all
    note f = voided_final [OF t st(1), unfolded st(2,3)] and se = SettleRound_voided [OF t st(1), unfolded st(2)]
      and ca = CancelRound_voided [OF t st(1), unfolded st(2)]
    show ?thesis using t(2) f se ca by blast
  qed
  have "voided_before s' i = Some v"
    using assms(3) v(2,3) by (simp add: voided_before_def v(1) lookup_append)
  then have again: "VoidBet parses i s' = Inr (r\<lparr>vr_duplicate := True\<rparr>, s')"
    using assms(2,3) us v by (auto simp: VoidBet_def voided_before_def void_request_def requireAdminOperator_def bindE_eq_Inr orErr_eq_Inr Let_def split: if_splits)
  have money: "if b_simulated b then wallets s' = wallets s \<and> ledger s' = ledger s
        else grows ''bet_void'' s s' [(b_wallet b, vr_operation r, b_stake b)]
          \<and> (\<exists>w w'. wallet_by_id s (b_wallet b) = Some w \<and> wallet_by_id s' (b_wallet b) = Some w' \<and> w_available w' = w_available w + b_stake b)"
  proof (cases "b_simulated b")
    case False
    then obtain w where w: "wallet_by_id s (b_wallet b) = Some w" "moved s w (w_available w + b_stake b) ''bet_void'' (vr_operation r) ''bet_void_refund'' s'"
      using vb by (auto simp: voided_bet_def)
    have "w_id w = b_wallet b" using wallet_by_id_mem [OF w(1)] by simp
    then show ?thesis using False w moved_wallet [OF wallet_by_id_self [OF w(1)] w(2)]
      by (auto simp: moved_def grows_def entries_of_def)
  qed (use vb in \<open>simp add: voided_bet_def\<close>)
  show ?thesis
    by (intro exI [of _ b] exI [of _ after] conjI, rule b(1), rule b(2), rule b(3), rule m, rule r(2), rule money, rule keep, rule again,
        intro allI impI, rule final)
qed

definition sample_void :: BetVoidInput where
  "sample_void = \<lparr>bv_operator = ''bob'', bv_request = '' v1 '', bv_bet = b_id (hd (bets sample_placed_db)), bv_reason = ''wrong odds''\<rparr>"

definition sample_void_db :: db where
  "sample_void_db = sample_placed_db\<lparr>user_roles := [(''bob'', ''admin'')]\<rparr>"

theorem void_bet_exact_witness:
  "\<exists>r s'. VoidBet (\<lambda>_. True) sample_void sample_void_db = Inr (r, s') \<and> betting_ok s'
     \<and> VoidBet (\<lambda>_. True) sample_void s' = Inr (r\<lparr>vr_duplicate := True\<rparr>, s') \<and> vr_refund r = 100
     \<and> (\<exists>b \<in> set (bets (attempt (decide (\<lambda>_. True) (Inl (Void_Round ''r1''))) s')). b_id b = bv_bet sample_void \<and> b_status b = BetVoided)"
proof -
  have "case VoidBet (\<lambda>_. True) sample_void sample_void_db of Inl e \<Rightarrow> False | Inr (r, t) \<Rightarrow> vr_refund r = 100" by code_simp
  then obtain r s' where run: "VoidBet (\<lambda>_. True) sample_void sample_void_db = Inr (r, s')" and am: "vr_refund r = 100"
    by (cases "VoidBet (\<lambda>_. True) sample_void sample_void_db") auto
  have m: "StakeMinor sample_request \<le> max_int64" by (simp add: sample_request_def max_int64_def)
  obtain x t where "placeBetTx False sample_request sample_open_db = Inr (x, t)" using sample_place by blast
  then have p: "betting_ok sample_placed_db" using placeBetTx_keeps [OF sample_open_ok _ m] by (simp add: sample_placed_db_def attempt_def)
  have "books_ok sample_void_db"
    by (rule books_ok_cong [of sample_placed_db]) (use p in \<open>simp_all add: betting_ok_def platform_ok_def sample_void_db_def\<close>)
  moreover have "bets_ok sample_void_db"
    using p by (simp add: betting_ok_def platform_ok_def sample_void_db_def bets_ok_def wallet_by_id_def)
  moreover have "orders_ok sample_void_db" "round_keys sample_void_db"
    using p by (simp_all add: betting_ok_def platform_ok_def sample_void_db_def orders_ok_def placed_on_def round_keys_def)
  ultimately have ok: "betting_ok sample_void_db" by (simp add: betting_ok_def platform_ok_def)
  have "voids sample_void_db = []" by code_simp
  then have n: "voided_before sample_void_db sample_void = None" by (simp add: voided_before_def)
  obtain b after where b: "b_id b = bv_bet sample_void" "betting_ok s'" "VoidBet (\<lambda>_. True) sample_void s' = Inr (r\<lparr>vr_duplicate := True\<rparr>, s')"
    and final: "\<And>calls. voided_row (clock sample_void_db) after b \<in> set (bets (fold (\<lambda>c. attempt (decide (\<lambda>_. True) c)) calls s'))"
    using void_bet_exact [OF ok run n] by (elim exE conjE) blast
  have "voided_row (clock sample_void_db) after b \<in> set (bets (attempt (decide (\<lambda>_. True) (Inl (Void_Round ''r1''))) s'))"
    using final [of "[Inl (Void_Round ''r1'')]"] by simp
  then show ?thesis using run am b by (intro exI [of _ r] exI [of _ s'] conjI bexI [of _ "voided_row (clock sample_void_db) after b"]) simp_all
qed

end
