(* ===== verification/External_Draw.thy ===== *)
theory External_Draw
  imports Game_Rounds "HOL-Library.Multiset"
begin

text \<open>
  Draws reported by the upstream games: \<^verbatim>\<open>internal/application/externaldraw\<close> (\<^verbatim>\<open>service.go\<close>, \<^verbatim>\<open>manual.go\<close>,
  \<^verbatim>\<open>backfill.go\<close>, \<^verbatim>\<open>history.go\<close>). Events of the live connection create rounds and confirm results, operators and
  the history feed fill in missing ones. \<open>parses\<close> is \<^verbatim>\<open>uuid.Parse\<close> answering without an error; the history feed
  and the switch in \<^verbatim>\<open>lulu_config\<close> are parameters. Instants are microseconds, \<^verbatim>\<open>time.Now\<close> is the clock of the
  database state.
\<close>

section \<open>service.go\<close>

record draw_event =
  ev_game :: string
  ev_kind :: string
  ev_field :: string
  ev_round :: string
  ev_close :: "int option"
  ev_result :: "string list"

definition validGame :: "string \<Rightarrow> bool" where
  "validGame game \<longleftrightarrow> game = ''lh'' \<or> game = ''xdy'' \<or> game = ''race''"

text \<open>Equal as collections: the values of the first list are counted, those of the second taken off.\<close>

fun count_values :: "(string \<Rightarrow> int) \<Rightarrow> string list \<Rightarrow> string \<Rightarrow> int" where
  "count_values counts [] = counts"
| "count_values counts (v # vs) = count_values (counts(v := counts v + 1)) vs"

fun take_values :: "(string \<Rightarrow> int) \<Rightarrow> string list \<Rightarrow> bool" where
  "take_values counts [] = True"
| "take_values counts (v # vs) = (if counts v - 1 < 0 then False else take_values (counts(v := counts v - 1)) vs)"

definition sameDrawResult :: "json \<Rightarrow> string list \<Rightarrow> bool" where
  "sameDrawResult saved result =
     (case decode_strings (Some saved) of
        None \<Rightarrow> False
      | Some vs \<Rightarrow> if vs = [] \<or> length vs \<noteq> length result then False else take_values (count_values (\<lambda>_. 0) vs) result)"

definition china_hour :: "int \<Rightarrow> int" where
  "china_hour t = (t + 28800000000) div 3600000000 mod 24"

definition isStarSeaMultiKillWindow :: "draw_event \<Rightarrow> int option \<Rightarrow> int \<Rightarrow> bool" where
  "isStarSeaMultiKillWindow e closedAt now \<longleftrightarrow> ev_game e = ''xdy''
     \<and> china_hour (case closedAt of Some t \<Rightarrow> t | None \<Rightarrow> (case ev_close e of Some t \<Rightarrow> t | None \<Rightarrow> now)) = 20"

definition isLowerPriorityStarSeaResult :: "json \<Rightarrow> draw_event \<Rightarrow> bool" where
  "isLowerPriorityStarSeaResult saved e =
     (case ev_result e of
        [r] \<Rightarrow> if ev_field e \<noteq> ''failedRoomId'' then False
               else (case decode_strings (Some saved) of None \<Rightarrow> False | Some rooms \<Rightarrow> length rooms \<ge> 2 \<and> r \<in> set rooms)
      | _ \<Rightarrow> False)"

definition isAuthoritativeStarSeaMultiKill :: "json \<Rightarrow> draw_event \<Rightarrow> bool" where
  "isAuthoritativeStarSeaMultiKill saved e =
     (if ev_field e \<noteq> ''killedRooms'' \<and> ev_field e \<noteq> ''result.list[].fail'' then False
      else if length (ev_result e) < 2 then False
      else (case decode_strings (Some saved) of Some [r] \<Rightarrow> r \<in> set (ev_result e) | _ \<Rightarrow> False))"

definition draw_target :: "string \<Rightarrow> int \<Rightarrow> string" where
  "draw_target game sequence = ''lulu_ws:'' @ game @ '':'' @ format_int sequence"

definition insert_draw_audit :: "string option \<Rightarrow> string \<Rightarrow> string \<Rightarrow> payload \<Rightarrow> db \<Rightarrow> error + db" where
  "insert_draw_audit actor action target p s =
     (let (i, s) = new_uuid s in
      if list_ex (\<lambda>a. au_id a = i) (audit_logs s) then Inl (DB Unique)
      else if (case actor of None \<Rightarrow> False | Some a \<Rightarrow> user_by_id s a = None) then Inl (DB ForeignKey)
      else Inr (s\<lparr>audit_logs := audit_logs s @ [\<lparr>au_id = i, au_actor = actor, au_action = action, au_target_type = ''external_draw_round'',
                  au_target = target, au_payload = p\<rparr>]\<rparr>))"

definition auditDrawResult :: "string \<Rightarrow> draw_event \<Rightarrow> int \<Rightarrow> json option \<Rightarrow> db \<Rightarrow> error + db" where
  "auditDrawResult action e sequence saved s =
     (let p = PObj [(''game'', PStr (ev_game e)), (''external_round'', PInt sequence),
            (''transport'', PStr (if ev_kind e = ''luluall_history'' then ''luluall_http'' else ''websocket'')), (''event_type'', PStr (ev_kind e)),
            (''result_field'', PStr (ev_field e)), (''incoming_outcome'', PList (map PStr (ev_result e))),
            (''saved_outcome'', (case saved of None \<Rightarrow> PNull | Some j \<Rightarrow> PJson j))];
          target = draw_target (ev_game e) sequence in
      if list_ex (\<lambda>a. au_action a = action \<and> au_target a = target \<and> au_payload a = p) (audit_logs s) then Inr s
      else insert_draw_audit None action target p s)"

definition draw_key :: "string \<Rightarrow> int \<Rightarrow> draw_row \<Rightarrow> bool" where
  "draw_key game n d \<longleftrightarrow> ed_game d = game \<and> ed_round d = n"

definition update_draw :: "string \<Rightarrow> int \<Rightarrow> (draw_row \<Rightarrow> draw_row) \<Rightarrow> db \<Rightarrow> db" where
  "update_draw game n g s = s\<lparr>draws := modify (draw_key game n) g (draws s)\<rparr>"

text \<open>The upsert of the collected round.\<close>

definition collect_draw :: "string \<Rightarrow> int \<Rightarrow> int option \<Rightarrow> db \<Rightarrow> db" where
  "collect_draw game n closeAt s =
     (case lookup (draw_key game n) (draws s) of
        None \<Rightarrow> s\<lparr>draws := draws s @ [\<lparr>ed_game = game, ed_round = n, ed_close = closeAt, ed_outcome = None, ed_status = DrawPending,
                  ed_conflict = None, ed_received = None\<rparr>]\<rparr>
      | Some _ \<Rightarrow> update_draw game n (\<lambda>d. d\<lparr>ed_close := (case closeAt of None \<Rightarrow> ed_close d | Some t \<Rightarrow> Some t)\<rparr>) s)"

definition confirmed_with :: "string list \<Rightarrow> int \<Rightarrow> draw_row \<Rightarrow> draw_row" where
  "confirmed_with result now d = d\<lparr>ed_outcome := Some (encode_strings result), ed_status := DrawConfirmed, ed_received := Some now\<rparr>"

definition confirmResult :: "draw_event \<Rightarrow> int \<Rightarrow> db \<Rightarrow> error + db" where
  "confirmResult e n s =
     bindE (orErr (DB NoRows) (lookup (draw_key (ev_game e) n) (draws s))) (\<lambda>d.
     let saved = (case ed_outcome d of None \<Rightarrow> JNull | Some j \<Rightarrow> j); result = ev_result e in
     if ed_status d = DrawConfirmed \<or> ed_status d = DrawConflict then
       (if sameDrawResult saved result then Inr s
        else if isStarSeaMultiKillWindow e (ed_close d) (clock s) \<and> isLowerPriorityStarSeaResult saved e
        then auditDrawResult ''lulu_draw.result_ignored_lower_priority'' e n (Some saved) s
        else if isStarSeaMultiKillWindow e (ed_close d) (clock s) \<and> isAuthoritativeStarSeaMultiKill saved e
        then auditDrawResult ''lulu_draw.result_multikill_override'' e n (Some saved)
               (update_draw (ev_game e) n (\<lambda>d. (confirmed_with result (clock s) d)\<lparr>ed_conflict := None\<rparr>) s)
        else auditDrawResult ''lulu_draw.result_conflict'' e n (Some saved)
               (if ed_status d = DrawConfirmed
                then update_draw (ev_game e) n (\<lambda>d. d\<lparr>ed_status := DrawConflict, ed_conflict := Some (encode_strings result)\<rparr>) s else s))
     else auditDrawResult ''lulu_draw.result_confirmed'' e n None (update_draw (ev_game e) n (confirmed_with result (clock s)) s))"

definition lulu_types :: "string \<Rightarrow> db \<Rightarrow> game_type_row list" where
  "lulu_types game s = filter (\<lambda>g. json_text (gt_rules g) ''source'' = Some ''lulu_ws''
     \<and> (case json_member (gt_rules g) ''extras'' of None \<Rightarrow> False | Some x \<Rightarrow> json_text x ''external_game'' = Some game)) (game_types s)"

fun insert_rounds :: "string list \<Rightarrow> int \<Rightarrow> round_status \<Rightarrow> int \<Rightarrow> int \<Rightarrow> db \<Rightarrow> error + db" where
  "insert_rounds [] n status closes resultAt s = Inr s"
| "insert_rounds (t # ts) n status closes resultAt s =
     bindE (insert_round t n status closes resultAt s) (\<lambda>(_, s). insert_rounds ts n status closes resultAt s)"

definition draw_createRounds :: "int \<Rightarrow> string \<Rightarrow> int \<Rightarrow> int \<Rightarrow> db \<Rightarrow> error + db" where
  "draw_createRounds closeBeforeSeconds game n closeAt s =
     (let closes = closeAt - closeBeforeSeconds * 1000000 in
      if closes \<le> clock s then Inr s
      else insert_rounds (map gt_id (filter gt_enabled (lulu_types game s))) n RoundOpen closes closeAt s)"

definition resultRoundClosedAt :: "int \<Rightarrow> int option \<Rightarrow> int option" where
  "resultRoundClosedAt now closeAt = (case closeAt of None \<Rightarrow> Some now | Some t \<Rightarrow> if t > now then None else Some t)"

definition createResultRounds :: "string \<Rightarrow> int \<Rightarrow> int option \<Rightarrow> db \<Rightarrow> error + db" where
  "createResultRounds game n closeAt s =
     (case resultRoundClosedAt (clock s) closeAt of
        None \<Rightarrow> Inr s
      | Some t \<Rightarrow> insert_rounds (map gt_id (filter gt_enabled (lulu_types game s))) n RoundClosed t t s)"

definition Handle :: "int \<Rightarrow> draw_event \<Rightarrow> db \<Rightarrow> error + db" where
  "Handle closeBeforeSeconds e s =
     (case parse_int64 (ev_round e) of
        None \<Rightarrow> Inl (Draw ErrInvalidEvent)
      | Some n \<Rightarrow>
          if n \<le> 0 \<or> \<not> validGame (ev_game e) then Inl (Draw ErrInvalidEvent)
          else if ev_close e = None \<and> ev_result e = [] then Inr s
          else let s = collect_draw (ev_game e) n (ev_close e) s in
            bindE (case ev_close e of None \<Rightarrow> Inr s | Some t \<Rightarrow> draw_createRounds (max 0 closeBeforeSeconds) (ev_game e) n t s) (\<lambda>s.
            if ev_result e = [] then Inr s
            else bindE (confirmResult e n s) (createResultRounds (ev_game e) n (ev_close e))))"

section \<open>history.go\<close>

definition sourceGame :: "string \<Rightarrow> string option" where
  "sourceGame game = (if game = ''star_sea'' then Some ''xdy'' else if game = ''angry_feather'' then Some ''lh''
     else if game = ''green_sprint'' then Some ''race'' else None)"

text \<open>All values must be positive numbers; one that is not drops the record.\<close>

fun rooms_of :: "string list \<Rightarrow> int list option" where
  "rooms_of [] = Some []"
| "rooms_of (v # vs) = (case parse_int64 v of None \<Rightarrow> None
     | Some n \<Rightarrow> if n < 1 then None else map_option (\<lambda>ns. n # ns) (rooms_of vs))"

definition draw_History :: "string \<Rightarrow> int \<Rightarrow> db \<Rightarrow> error + (string \<times> int list) list" where
  "draw_History game n s =
     (case sourceGame game of
        None \<Rightarrow> Inl (Draw ErrInvalidEvent)
      | Some g \<Rightarrow> if n < 1 then Inl (Draw ErrInvalidEvent)
          else Inr (concat (map (\<lambda>d. case decode_strings (ed_outcome d) of None \<Rightarrow> []
                  | Some vs \<Rightarrow> (case rooms_of vs of Some (r # rs) \<Rightarrow> [(format_int (ed_round d), r # rs)] | _ \<Rightarrow> []))
                (take (nat n) (rev (sort_key ed_round (filter (\<lambda>d. ed_game d = g \<and> ed_status d = DrawConfirmed) (draws s))))))))"

section \<open>manual.go\<close>

record ManualInput =
  mi_game :: string
  mi_issue :: string
  mi_result :: "int list"
  mi_reason :: string

definition validateManual :: "ManualInput \<Rightarrow> error + (string \<times> int \<times> string list)" where
  "validateManual i =
     (case (sourceGame (mi_game i), parse_int64 (mi_issue i)) of
        (Some game, Some issue) \<Rightarrow>
          if issue \<le> 0 \<or> format_int issue \<noteq> mi_issue i \<or> trim_space (mi_reason i) = [] \<or> rune_count (mi_reason i) > 1000
          then Inl (Draw ErrInvalidEvent)
          else let (limit, places) = (if game = ''lh'' then (2, 1) else if game = ''race'' then (6, 1) else (8, 7)) in
            if mi_result i = [] \<or> length (mi_result i) > places \<or> \<not> list_all (\<lambda>n. 1 \<le> n \<and> n \<le> limit) (mi_result i) \<or> \<not> distinct (mi_result i)
            then Inl (Draw ErrInvalidEvent) else Inr (game, issue, map format_int (mi_result i))
      | _ \<Rightarrow> Inl (Draw ErrInvalidEvent))"

definition no_outcome :: "draw_row \<Rightarrow> bool" where
  "no_outcome d \<longleftrightarrow> ed_outcome d = None \<or> ed_outcome d = Some JNull"

definition lulu_round :: "string \<Rightarrow> int \<Rightarrow> db \<Rightarrow> round_row option" where
  "lulu_round game n s = lookup (\<lambda>r. r_seq r = n \<and> r_type r \<in> gt_id ` set (lulu_types game s)) (rounds s)"

text \<open>\<open>True\<close> in the answer is \<^verbatim>\<open>AlreadyConfirmed\<close>.\<close>

definition ConfirmManual :: "(string \<Rightarrow> bool) \<Rightarrow> string \<Rightarrow> ManualInput \<Rightarrow> bool tx" where
  "ConfirmManual parses actor i s =
     bindE (validateManual i) (\<lambda>(game, issue, result).
     if \<not> parses actor then Inl (Draw ErrInvalidEvent)
     else bindE (orErr (Draw ErrManualNotFound) (lookup (draw_key game issue) (draws s))) (\<lambda>d.
     if ed_status d = DrawConfirmed \<and> (case ed_outcome d of None \<Rightarrow> False | Some j \<Rightarrow> sameDrawResult j result) then Inr (True, s)
     else if ed_status d \<noteq> DrawPending \<or> \<not> no_outcome d then Inl (Draw ErrManualConflict)
     else bindE (orErr (Draw ErrManualNotFound) (lulu_round game issue s)) (\<lambda>r.
     if (r_status r \<noteq> RoundClosed \<and> r_status r \<noteq> RoundOpen) \<or> r_result_at r > clock s then Inl (Draw ErrManualConflict)
     else bindE (insert_draw_audit (Some actor) ''lulu_draw.result_manual_confirmed'' (draw_target game issue)
                  (PObj [(''game'', PStr game), (''round'', PInt issue), (''incoming_outcome'', PList (map PStr result)), (''previous_status'', PStr ''pending''),
                     (''reason'', PStr (trim_space (mi_reason i))), (''result_source'', PStr ''admin_manual'')])
                  (update_draw game issue (\<lambda>d. (confirmed_with result (clock s) d)\<lparr>ed_conflict := None\<rparr>) s)) (\<lambda>s. Inr (False, s)))))"

section \<open>backfill.go\<close>

definition history_name :: "string \<Rightarrow> string" where
  "history_name game = (if game = ''lh'' then ''angry_feather'' else if game = ''xdy'' then ''star_sea''
     else if game = ''race'' then ''green_sprint'' else [])"

fun atoi_all :: "string list \<Rightarrow> int list option" where
  "atoi_all [] = Some []"
| "atoi_all (v # vs) = (case parse_int64 v of None \<Rightarrow> None | Some n \<Rightarrow> map_option (\<lambda>ns. n # ns) (atoi_all vs))"

definition confirmBackfill :: "draw_event \<Rightarrow> db \<Rightarrow> error + db" where
  "confirmBackfill e s =
     bindE (orErr (Draw ErrInvalidEvent) (atoi_all (ev_result e))) (\<lambda>values.
     bindE (validateManual \<lparr>mi_game = history_name (ev_game e), mi_issue = ev_round e, mi_result = values, mi_reason = ''LuluAll history''\<rparr>)
       (\<lambda>(game, issue, result).
     case lookup (draw_key game issue) (draws s) of
       None \<Rightarrow> Inr s
     | Some d \<Rightarrow>
         if ed_status d \<noteq> DrawPending \<or> \<not> no_outcome d then Inr s
         else (case lulu_round game issue s of
           None \<Rightarrow> Inr s
         | Some r \<Rightarrow>
             if (r_status r \<noteq> RoundOpen \<and> r_status r \<noteq> RoundClosed) \<or> r_result_at r + 30000000 > clock s then Inr s
             else auditDrawResult ''lulu_draw.result_backfilled'' (e\<lparr>ev_kind := ''luluall_history'', ev_close := None, ev_result := result\<rparr>) issue None
                    (update_draw game issue (confirmed_with result (clock s)) s))))"

text \<open>Each event is a transaction of its own; the failures are collected.\<close>

fun backfill_events :: "string \<Rightarrow> draw_event list \<Rightarrow> error list \<times> db \<Rightarrow> error list \<times> db" where
  "backfill_events game [] acc = acc"
| "backfill_events game (e # es) (failures, s) =
     backfill_events game es
       (if ev_game e \<noteq> game then (failures @ [Draw ErrInvalidEvent], s)
        else case confirmBackfill e s of Inl f \<Rightarrow> (failures @ [f], s) | Inr s' \<Rightarrow> (failures, s'))"

fun backfill_games :: "(string \<Rightarrow> error + draw_event list) \<Rightarrow> string list \<Rightarrow> error list \<times> db \<Rightarrow> error list \<times> db" where
  "backfill_games history [] acc = acc"
| "backfill_games history (g # gs) (failures, s) =
     backfill_games history gs (case history g of Inl f \<Rightarrow> (failures @ [f], s) | Inr es \<Rightarrow> backfill_events g es (failures, s))"

definition Backfill :: "bool \<Rightarrow> (string \<Rightarrow> error + draw_event list) \<Rightarrow> db \<Rightarrow> error list \<times> db" where
  "Backfill enabled history s =
     (if \<not> enabled then ([], s) else backfill_games history [''lh'', ''xdy'', ''race''] ([], s))"

section \<open>Results are compared as collections\<close>

lemma count_values_eq: "count_values counts vs v = counts v + int (count (mset vs) v)"
  by (induction vs arbitrary: counts) auto

lemma count_absent: "v \<notin> set vs \<Longrightarrow> count (mset vs) v = 0"
  by (simp add: count_eq_zero_iff)

lemma take_values_iff: "take_values counts vs \<longleftrightarrow> (\<forall>v \<in> set vs. int (count (mset vs) v) \<le> counts v)"
proof (induction vs arbitrary: counts)
  case (Cons w vs)
  show ?case by (cases "w \<in> set vs") (auto simp: Cons.IH count_absent)
qed simp

text \<open>C34: Two results are the same exactly when they are equal as collections, in any order, with repetitions counted, and
  not empty.\<close>

theorem same_draw_result:
  "sameDrawResult saved result \<longleftrightarrow> (\<exists>vs. decode_strings (Some saved) = Some vs \<and> vs \<noteq> [] \<and> mset vs = mset result)"
proof -
  have "take_values (count_values (\<lambda>_. 0) vs) result \<longleftrightarrow> mset vs = mset result" if "length vs = length result" for vs
  proof
    assume t: "take_values (count_values (\<lambda>_. 0) vs) result"
    have "count (mset result) v \<le> count (mset vs) v" for v
      using t by (cases "v \<in> set result") (auto simp: take_values_iff count_values_eq count_absent)
    then have "mset result \<subseteq># mset vs" by (simp add: subseteq_mset_def)
    then show "mset vs = mset result" using that by (metis size_mset mset_subset_size not_less_iff_gr_or_eq subset_mset.le_imp_less_or_eq)
  qed (simp add: take_values_iff count_values_eq)
  then show ?thesis by (auto simp: sameDrawResult_def dest: mset_eq_length split: option.splits)
qed


theorem same_draw_result_witness:
  "sameDrawResult (encode_strings [''3'', ''1'', ''3'']) [''1'', ''3'', ''3''] \<and> \<not> sameDrawResult (encode_strings [''3'', ''1'', ''3'']) [''1'', ''1'', ''3'']"
  unfolding same_draw_result by (simp add: add_mset_commute)

section \<open>What a collected draw may become\<close>

inductive draw_step :: "draw_row \<Rightarrow> draw_row \<Rightarrow> bool" where
  collected: "draw_step d (d\<lparr>ed_close := c\<rparr>)"
| confirmed: "ed_status d = DrawPending \<Longrightarrow> rs \<noteq> [] \<Longrightarrow> draw_step d ((confirmed_with rs t d)\<lparr>ed_conflict := x\<rparr>)"
| conflicting: "ed_status d = DrawConfirmed \<Longrightarrow> draw_step d (d\<lparr>ed_status := DrawConflict, ed_conflict := Some x\<rparr>)"
| overridden: "ed_status d \<noteq> DrawPending \<Longrightarrow> ed_game d = ''xdy'' \<Longrightarrow> decode_strings (ed_outcome d) = Some [r] \<Longrightarrow> r \<in> set rs \<Longrightarrow> 2 \<le> length rs
    \<Longrightarrow> draw_step d ((confirmed_with rs t d)\<lparr>ed_conflict := None\<rparr>)"

inductive_cases draw_stepE: "draw_step d d'"

lemma draw_step_key: "draw_step d d' \<Longrightarrow> ed_game d' = ed_game d \<and> ed_round d' = ed_round d"
  by (erule draw_stepE) (auto simp: confirmed_with_def)

definition replaced :: "draw_row \<Rightarrow> draw_row \<Rightarrow> bool" where
  "replaced d d' \<longleftrightarrow> ed_game d = ''xdy'' \<and> (\<exists>r rs. decode_strings (ed_outcome d) = Some [r] \<and> ed_outcome d' = Some (encode_strings rs)
     \<and> r \<in> set rs \<and> 2 \<le> length rs)"

lemma draw_steps_final:
  assumes "draw_step\<^sup>*\<^sup>* d d'" "ed_status d \<noteq> DrawPending"
  shows "ed_status d' \<noteq> DrawPending \<and> ed_game d' = ed_game d \<and> (ed_outcome d' = ed_outcome d \<or> replaced d d')"
  using assms(1)
proof induction
  case base
  then show ?case using assms(2) by simp
next
  case (step e f)
  from step(2) show ?case
  proof cases
    case (overridden r rs t)
    have "\<not> replaced d e" using overridden(4) unfolding replaced_def by auto
    then have "replaced d f" using step.IH overridden by (auto simp: replaced_def confirmed_with_def)
    then show ?thesis using step.IH overridden by (simp add: confirmed_with_def)
  qed (use step.IH in \<open>auto simp: replaced_def\<close>)
qed

definition draws_move :: "db \<Rightarrow> db \<Rightarrow> bool" where
  "draws_move s s' \<longleftrightarrow> (\<forall>game n d. lookup (draw_key game n) (draws s) = Some d
     \<longrightarrow> (\<exists>d'. lookup (draw_key game n) (draws s') = Some d' \<and> draw_step\<^sup>*\<^sup>* d d'))"

lemma draws_move_same: "draws s' = draws s \<Longrightarrow> draws_move s s'"
  by (auto simp: draws_move_def)

lemma draws_move_trans: "draws_move s t \<Longrightarrow> draws_move t u \<Longrightarrow> draws_move s u"
  unfolding draws_move_def by (meson rtranclp_trans)

lemma draws_move_cong: "draws s = draws t \<Longrightarrow> draws s' = draws t' \<Longrightarrow> draws_move s s' = draws_move t t'"
  by (simp add: draws_move_def)

lemma draws_move_update:
  assumes "lookup (draw_key game n) (draws s) = Some d" "\<And>x. ed_game (g x) = ed_game x \<and> ed_round (g x) = ed_round x" "draw_step d (g d)"
  shows "draws_move s (update_draw game n g s)"
proof -
  have l: "lookup (draw_key a b) (draws (update_draw game n g s)) = map_option (\<lambda>x. if draw_key game n x then g x else x) (lookup (draw_key a b) (draws s))" for a b
    unfolding update_draw_def by (simp, rule lookup_modify_pres) (simp add: draw_key_def assms(2))
  show ?thesis unfolding draws_move_def
  proof (intro allI impI)
    fix a b x assume x: "lookup (draw_key a b) (draws s) = Some x"
    show "\<exists>x'. lookup (draw_key a b) (draws (update_draw game n g s)) = Some x' \<and> draw_step\<^sup>*\<^sup>* x x'"
    proof (cases "draw_key game n x")
      case True
      then have "a = game \<and> b = n" using lookup_SomeD [OF x] by (simp add: draw_key_def)
      then show ?thesis using l [of a b] x assms(1,3) True by auto
    next
      case False
      then show ?thesis using l [of a b] x by simp
    qed
  qed
qed

lemma collect_draw_moves: "draws_move s (collect_draw game n c s) \<and> lookup (draw_key game n) (draws (collect_draw game n c s)) \<noteq> None"
proof (cases "lookup (draw_key game n) (draws s)")
  case None
  then show ?thesis by (auto simp: collect_draw_def draws_move_def lookup_append draw_key_def)
next
  case (Some d)
  let ?g = "\<lambda>d. d\<lparr>ed_close := (case c of None \<Rightarrow> ed_close d | Some t \<Rightarrow> Some t)\<rparr>"
  have "draws_move s (update_draw game n ?g s)" by (rule draws_move_update [OF Some]) (simp_all add: draw_step.collected)
  then show ?thesis using Some unfolding collect_draw_def draws_move_def by fastforce
qed

lemma auditDrawResult_frame: "auditDrawResult action e n saved s = Inr s' \<Longrightarrow> draws s' = draws s \<and> rounds s' = rounds s \<and> game_types s' = game_types s \<and> clock s' = clock s"
  by (auto simp: auditDrawResult_def insert_draw_audit_def new_uuid_def Let_def split: if_splits)

lemma insert_rounds_frame: "insert_rounds ts n st c r s = Inr s' \<Longrightarrow> draws s' = draws s"
proof (induction ts arbitrary: s)
  case (Cons t ts)
  then obtain b u where "insert_round t n st c r s = Inr (b, u)" "insert_rounds ts n st c r u = Inr s'" by (auto simp: bindE_eq_Inr)
  then show ?case using Cons.IH by (auto simp: insert_round_def new_uuid_def Let_def split: if_splits)
qed simp

lemma confirmResult_moves:
  assumes "confirmResult e n s = Inr s'" "ev_result e \<noteq> []"
  shows "draws_move s s'"
proof -
  obtain d where d: "lookup (draw_key (ev_game e) n) (draws s) = Some d" using assms(1) by (auto simp: confirmResult_def bindE_eq_Inr orErr_eq_Inr)
  let ?saved = "case ed_outcome d of None \<Rightarrow> JNull | Some j \<Rightarrow> j"
  have game: "ed_game d = ev_game e" using lookup_SomeD [OF d] by (simp add: draw_key_def)
  let ?over = "\<lambda>d. (confirmed_with (ev_result e) (clock s) d)\<lparr>ed_conflict := None\<rparr>"
  let ?clash = "\<lambda>d. d\<lparr>ed_status := DrawConflict, ed_conflict := Some (encode_strings (ev_result e))\<rparr>"
  consider (same) "draws s' = draws s"
    | (first) "ed_status d = DrawPending" "draws s' = draws (update_draw (ev_game e) n (confirmed_with (ev_result e) (clock s)) s)"
    | (override) "ed_status d \<noteq> DrawPending" "isStarSeaMultiKillWindow e (ed_close d) (clock s)" "isAuthoritativeStarSeaMultiKill ?saved e"
        "draws s' = draws (update_draw (ev_game e) n ?over s)"
    | (clash) "ed_status d = DrawConfirmed" "draws s' = draws (update_draw (ev_game e) n ?clash s)"
    using assms(1) d auditDrawResult_frame by (cases "ed_status d") (auto simp: confirmResult_def Let_def bindE_eq_Inr split: if_splits)
  then show ?thesis
  proof cases
    case same
    then show ?thesis by (rule draws_move_same)
  next
    case first
    have st: "draw_step d ((confirmed_with (ev_result e) (clock s) d)\<lparr>ed_conflict := ed_conflict d\<rparr>)" by (rule draw_step.confirmed [OF first(1) assms(2)])
    have "(confirmed_with (ev_result e) (clock s) d)\<lparr>ed_conflict := ed_conflict d\<rparr> = confirmed_with (ev_result e) (clock s) d" by (simp add: confirmed_with_def)
    then have "draws_move s (update_draw (ev_game e) n (confirmed_with (ev_result e) (clock s)) s)"
      using st by (intro draws_move_update [OF d]) (simp_all add: confirmed_with_def)
    then show ?thesis using draws_move_cong [OF refl first(2)] by simp
  next
    case override
    obtain r where r: "decode_strings (Some ?saved) = Some [r]" "r \<in> set (ev_result e)" "2 \<le> length (ev_result e)"
      using override(3) by (auto simp: isAuthoritativeStarSeaMultiKill_def split: if_splits option.splits list.splits)
    have "decode_strings (ed_outcome d) = Some [r]"
      using r(1) by (cases "ed_outcome d") (auto simp: decode_strings_def dec_slice_def)
    then have "draw_step d (?over d)"
      using override(1,2) r game by (intro draw_step.overridden) (auto simp: isStarSeaMultiKillWindow_def)
    then have "draws_move s (update_draw (ev_game e) n ?over s)"
      by (intro draws_move_update [OF d]) (simp_all add: confirmed_with_def)
    then show ?thesis using draws_move_cong [OF refl override(4)] by simp
  next
    case clash
    have "draws_move s (update_draw (ev_game e) n ?clash s)"
      using draw_step.conflicting [OF clash(1)] by (intro draws_move_update [OF d]) simp_all
    then show ?thesis using draws_move_cong [OF refl clash(2)] by simp
  qed
qed


lemma draw_createRounds_frame: "draw_createRounds cb game n c s = Inr s' \<Longrightarrow> draws s' = draws s"
  by (auto simp: draw_createRounds_def Let_def split: if_splits dest: insert_rounds_frame)

lemma createResultRounds_frame: "createResultRounds game n c s = Inr s' \<Longrightarrow> draws s' = draws s"
  by (auto simp: createResultRounds_def split: option.splits dest: insert_rounds_frame)

lemma Handle_moves:
  assumes "Handle cb e s = Inr s'"
  shows "draws_move s s'"
proof -
  obtain n where n: "parse_int64 (ev_round e) = Some n" using assms by (auto simp: Handle_def split: option.splits)
  let ?c = "collect_draw (ev_game e) n (ev_close e) s"
  show ?thesis
  proof (cases "ev_close e = None \<and> ev_result e = []")
    case True
    then show ?thesis using assms n by (auto simp: Handle_def draws_move_same split: if_splits)
  next
    case False
    obtain t where t: "(case ev_close e of None \<Rightarrow> Inr ?c | Some k \<Rightarrow> draw_createRounds (max 0 cb) (ev_game e) n k ?c) = Inr t"
      and rest: "(if ev_result e = [] then Inr t else bindE (confirmResult e n t) (createResultRounds (ev_game e) n (ev_close e))) = Inr s'"
      using assms n False by (auto simp: Handle_def Let_def bindE_eq_Inr split: if_splits)
    have "draws t = draws ?c" using t draw_createRounds_frame by (auto split: option.splits)
    then have m: "draws_move s t" using collect_draw_moves draws_move_cong [OF refl, of t ?c s] by simp
    show ?thesis
    proof (cases "ev_result e = []")
      case True
      then show ?thesis using rest m by simp
    next
      case False
      then obtain u where "confirmResult e n t = Inr u" "createResultRounds (ev_game e) n (ev_close e) u = Inr s'"
        using rest by (auto simp: bindE_eq_Inr)
      then have "draws_move t s'" using confirmResult_moves False createResultRounds_frame draws_move_cong [OF refl, of s' u t] by simp
      then show ?thesis using m draws_move_trans by blast
    qed
  qed
qed

lemma insert_draw_audit_frame: "insert_draw_audit actor action target p s = Inr s' \<Longrightarrow> draws s' = draws s"
  by (auto simp: insert_draw_audit_def new_uuid_def Let_def split: if_splits)

lemma validateManual_nonempty: "validateManual i = Inr (game, n, result) \<Longrightarrow> result \<noteq> []"
  by (auto simp: validateManual_def Let_def split: option.splits if_splits)

lemma pending_confirmed:
  assumes "lookup (draw_key game n) (draws s) = Some d" "ed_status d = DrawPending" "rs \<noteq> []"
  shows "draws_move s (update_draw game n (confirmed_with rs t) s)" "draws_move s (update_draw game n (\<lambda>d. (confirmed_with rs t d)\<lparr>ed_conflict := None\<rparr>) s)"
proof -
  have "draw_step d ((confirmed_with rs t d)\<lparr>ed_conflict := ed_conflict d\<rparr>)" by (rule draw_step.confirmed [OF assms(2,3)])
  moreover have "(confirmed_with rs t d)\<lparr>ed_conflict := ed_conflict d\<rparr> = confirmed_with rs t d" by (simp add: confirmed_with_def)
  ultimately show "draws_move s (update_draw game n (confirmed_with rs t) s)"
    by (intro draws_move_update [OF assms(1)]) (simp_all add: confirmed_with_def)
  show "draws_move s (update_draw game n (\<lambda>d. (confirmed_with rs t d)\<lparr>ed_conflict := None\<rparr>) s)"
    using draw_step.confirmed [OF assms(2,3)] by (intro draws_move_update [OF assms(1)]) (simp_all add: confirmed_with_def)
qed

lemma ConfirmManual_moves:
  assumes "ConfirmManual parses actor i s = Inr (b, s')"
  shows "draws_move s s'"
proof -
  obtain game n rs d where v: "validateManual i = Inr (game, n, rs)" and d: "lookup (draw_key game n) (draws s) = Some d"
    using assms by (auto simp: ConfirmManual_def bindE_eq_Inr orErr_eq_Inr split: if_splits)
  consider (same) "s' = s"
    | (first) "ed_status d = DrawPending" "draws s' = draws (update_draw game n (\<lambda>d. (confirmed_with rs (clock s) d)\<lparr>ed_conflict := None\<rparr>) s)"
  proof (cases "ed_status d = DrawPending \<and> no_outcome d")
    case True
    obtain p where "insert_draw_audit (Some actor) ''lulu_draw.result_manual_confirmed'' (draw_target game n) p
        (update_draw game n (\<lambda>d. (confirmed_with rs (clock s) d)\<lparr>ed_conflict := None\<rparr>) s) = Inr s'"
      using assms v d True by (auto simp: ConfirmManual_def bindE_eq_Inr split: if_splits)
    then show ?thesis using that(2) True insert_draw_audit_frame by blast
  next
    case False
    then show ?thesis using that(1) assms v d by (auto simp: ConfirmManual_def bindE_eq_Inr split: if_splits)
  qed
  then show ?thesis
  proof cases
    case first
    show ?thesis
      using pending_confirmed(2) [OF d first(1) validateManual_nonempty [OF v]] draws_move_cong [OF refl first(2)] by simp
  qed (simp add: draws_move_same)
qed

lemma bindE_InrE:
  assumes "bindE r f = Inr b"
  obtains a where "r = Inr a" "f a = Inr b"
  using assms by (auto simp: bindE_eq_Inr)

definition backfilled :: "draw_event \<Rightarrow> string \<Rightarrow> int \<Rightarrow> string list \<Rightarrow> db \<Rightarrow> error + db" where
  "backfilled e game n rs s =
     (case lookup (draw_key game n) (draws s) of
       None \<Rightarrow> Inr s
     | Some d \<Rightarrow>
         if ed_status d \<noteq> DrawPending \<or> \<not> no_outcome d then Inr s
         else (case lulu_round game n s of
           None \<Rightarrow> Inr s
         | Some r \<Rightarrow>
             if (r_status r \<noteq> RoundOpen \<and> r_status r \<noteq> RoundClosed) \<or> r_result_at r + 30000000 > clock s then Inr s
             else auditDrawResult ''lulu_draw.result_backfilled'' (e\<lparr>ev_kind := ''luluall_history'', ev_close := None, ev_result := rs\<rparr>) n None
                    (update_draw game n (confirmed_with rs (clock s)) s)))"

lemma confirmBackfill_moves:
  assumes "confirmBackfill e s = Inr s'"
  shows "draws_move s s'"
proof -
  obtain xs where *: "bindE (validateManual \<lparr>mi_game = history_name (ev_game e), mi_issue = ev_round e, mi_result = xs, mi_reason = ''LuluAll history''\<rparr>)
      (\<lambda>(game, issue, result). backfilled e game issue result s) = Inr s'"
    using assms unfolding confirmBackfill_def backfilled_def by (rule bindE_InrE)
  obtain t where t: "validateManual \<lparr>mi_game = history_name (ev_game e), mi_issue = ev_round e, mi_result = xs, mi_reason = ''LuluAll history''\<rparr> = Inr t"
    and t2: "(case t of (game, issue, result) \<Rightarrow> backfilled e game issue result s) = Inr s'"
    using * by (rule bindE_InrE)
  obtain game n rs where tt: "t = (game, n, rs)" by (cases t)
  have rs: "rs \<noteq> []" using t unfolding tt by (rule validateManual_nonempty)
  have run: "backfilled e game n rs s = Inr s'" using t2 unfolding tt by simp
  show ?thesis
  proof (cases "lookup (draw_key game n) (draws s)")
    case None
    then show ?thesis using run by (simp add: draws_move_same backfilled_def)
  next
    case d: (Some d)
    show ?thesis
    proof (cases "ed_status d \<noteq> DrawPending \<or> \<not> no_outcome d")
      case True
      then show ?thesis using run unfolding backfilled_def d by (simp add: draws_move_same)
    next
      case pending: False
      show ?thesis
      proof (cases "lulu_round game n s")
        case None
        then show ?thesis using run pending unfolding backfilled_def d by (simp add: draws_move_same)
      next
        case (Some r)
        let ?e = "e\<lparr>ev_kind := ''luluall_history'', ev_close := None, ev_result := rs\<rparr>"
        have cases: "(if (r_status r \<noteq> RoundOpen \<and> r_status r \<noteq> RoundClosed) \<or> r_result_at r + 30000000 > clock s then Inr s
             else auditDrawResult ''lulu_draw.result_backfilled'' ?e n None (update_draw game n (confirmed_with rs (clock s)) s)) = Inr s'"
          using run pending unfolding backfilled_def d Some by (simp only: option.case if_False)
        show ?thesis
        proof (cases "(r_status r \<noteq> RoundOpen \<and> r_status r \<noteq> RoundClosed) \<or> r_result_at r + 30000000 > clock s")
          case True
          then show ?thesis using cases by (simp only: if_True sum.inject draws_move_same)
        next
          case False
          then have "auditDrawResult ''lulu_draw.result_backfilled'' ?e n None (update_draw game n (confirmed_with rs (clock s)) s) = Inr s'"
            using cases by (simp only: if_False)
          then have "draws s' = draws (update_draw game n (confirmed_with rs (clock s)) s)" by (rule auditDrawResult_frame [THEN conjunct1])
          then show ?thesis using pending_confirmed(1) [OF d _ rs] pending draws_move_cong [OF refl] by metis
        qed
      qed
    qed
  qed
qed

lemma backfill_events_moves: "draws_move s0 s \<Longrightarrow> draws_move s0 (snd (backfill_events game es (fs, s)))"
proof (induction es arbitrary: fs s)
  case (Cons e es)
  show ?case using Cons.IH Cons.prems confirmBackfill_moves draws_move_trans by (auto split: sum.splits)
qed simp

lemma backfill_games_moves: "draws_move s0 s \<Longrightarrow> draws_move s0 (snd (backfill_games history gs (fs, s)))"
proof (induction gs arbitrary: fs s)
  case (Cons g gs)
  show ?case
  proof (cases "history g")
    case (Inr es)
    have "draws_move s0 (snd (backfill_events g es (fs, s)))" using backfill_events_moves Cons.prems by blast
    then show ?thesis using Inr Cons.IH [of "snd (backfill_events g es (fs, s))" "fst (backfill_events g es (fs, s))"] by simp
  qed (use Cons in simp)
qed simp

lemma Backfill_moves: "draws_move s (snd (Backfill enabled history s))"
  unfolding Backfill_def by (cases enabled) (simp_all only: if_True if_False not_True_eq_False not_False_eq_True snd_conv backfill_games_moves draws_move_same)

datatype draw_call =
    Live int draw_event
  | Manual string ManualInput
  | Fill bool "string \<Rightarrow> error + draw_event list"
  | Elapse int

definition draw_call_run :: "(string \<Rightarrow> bool) \<Rightarrow> draw_call \<Rightarrow> db \<Rightarrow> db" where
  "draw_call_run parses call s =
     (case call of
        Live cb e \<Rightarrow> (case Handle cb e s of Inl f \<Rightarrow> s | Inr s' \<Rightarrow> s')
      | Manual actor i \<Rightarrow> (case ConfirmManual parses actor i s of Inl f \<Rightarrow> s | Inr (b, s') \<Rightarrow> s')
      | Fill enabled history \<Rightarrow> snd (Backfill enabled history s)
      | Elapse dt \<Rightarrow> s\<lparr>clock := clock s + dt\<rparr>)"

lemma draw_call_moves: "draws_move s (draw_call_run parses call s)"
  using Handle_moves ConfirmManual_moves Backfill_moves draws_move_same
  by (cases call) (auto simp: draw_call_run_def draws_move_same split: sum.splits)

lemma draw_calls_move: "draws_move s (fold (draw_call_run parses) calls s)"
  by (induction calls arbitrary: s) (use draw_call_moves draws_move_trans draws_move_same in \<open>simp_all, blast\<close>)

text \<open>C33: A published result is final. Once the result of an upstream round is confirmed, no sequence of live events, manual
  confirmations and history fills takes it back or replaces it, with the one exception the game of the star sea makes:
  a result of one room may become a list of at least two rooms that contains it, once.\<close>

theorem draw_result_final:
  assumes "lookup (draw_key game n) (draws s) = Some d" "ed_status d \<noteq> DrawPending"
  shows "\<exists>d'. lookup (draw_key game n) (draws (fold (draw_call_run parses) calls s)) = Some d' \<and> ed_status d' \<noteq> DrawPending
    \<and> (ed_outcome d' = ed_outcome d
       \<or> game = ''xdy'' \<and> (\<exists>r rs. decode_strings (ed_outcome d) = Some [r] \<and> ed_outcome d' = Some (encode_strings rs) \<and> r \<in> set rs \<and> 2 \<le> length rs))"
proof -
  obtain d' where d': "lookup (draw_key game n) (draws (fold (draw_call_run parses) calls s)) = Some d'" "draw_step\<^sup>*\<^sup>* d d'"
    using draw_calls_move [of s parses calls] assms(1) unfolding draws_move_def by blast
  have "ed_game d = game" using lookup_SomeD [OF assms(1)] by (simp add: draw_key_def)
  then show ?thesis using d' draw_steps_final [OF d'(2) assms(2)] by (auto simp: replaced_def)
qed

definition sample_draw_event :: "string list \<Rightarrow> string \<Rightarrow> draw_event" where
  "sample_draw_event rs field' = \<lparr>ev_game = ''xdy'', ev_kind = ''result'', ev_field = field', ev_round = ''77'', ev_close = Some 1700051400000000, ev_result = rs\<rparr>"

definition sample_draw_db :: db where
  "sample_draw_db = draw_call_run (\<lambda>_. True) (Live 3 (sample_draw_event [''4''] ''failedRoomId'')) (sample_db\<lparr>clock := 1700051500000000\<rparr>)"

theorem draw_result_final_witness:
  "\<exists>d'. lookup (draw_key ''xdy'' 77) (draws (fold (draw_call_run (\<lambda>_. True))
      [Live 3 (sample_draw_event [''2'', ''4'', ''7''] ''killedRooms''), Live 3 (sample_draw_event [''5''] ''failedRoomId'')] sample_draw_db)) = Some d'
    \<and> ed_status d' \<noteq> DrawPending \<and> (\<exists>rs. ed_outcome d' = Some (encode_strings rs) \<and> ''4'' \<in> set rs)"
proof -
  have "case lookup (draw_key ''xdy'' 77) (draws sample_draw_db) of None \<Rightarrow> False | Some d \<Rightarrow> ed_status d = DrawConfirmed \<and> ed_outcome d = Some (encode_strings [''4''])"
    by code_simp
  then obtain d where d: "lookup (draw_key ''xdy'' 77) (draws sample_draw_db) = Some d" "ed_status d \<noteq> DrawPending" "ed_outcome d = Some (encode_strings [''4''])"
    by (auto split: option.splits)
  show ?thesis
    using draw_result_final [OF d(1,2), of "\<lambda>_. True" "[Live 3 (sample_draw_event [''2'', ''4'', ''7''] ''killedRooms''), Live 3 (sample_draw_event [''5''] ''failedRoomId'')]"] d(3)
    by (elim exE conjE disjE) (auto intro: exI [of _ "[''4'']"])
qed

end
