(* ===== verification/Spec2Isabelle.thy ===== *)
theory Spec2Isabelle
  imports Robot_Plans Login Agents Lulu_Orders Wallet_Amount Wallet_Repo Red_Packet Events_Outbox Rebate Chain_Deposit Chain_Withdrawal Game_Rounds Settlement Betting Lucky_Spin Tasks Bet_Void External_Draw
begin

text \<open>
  The money and game core of the block-beast platform (Go, \<^verbatim>\<open>internal/domain\<close> and \<^verbatim>\<open>internal/application\<close>).

  \<^bold>\<open>The program.\<close> An API process, a worker and a realtime gateway share one PostgreSQL database. Players hold
  wallets with an available and a frozen balance in minor units; every change of a wallet writes a ledger entry and, by a
  trigger, an outbox event in the same transaction. Rounds of several games are prepared by a scheduler, accept bets
  while they are open, are closed, and are settled from an outcome that comes from a block hash, an exchange price, an
  upstream game or a hash of the round. Money enters by deposits of the payment gateway and leaves by withdrawals; agents
  earn rebates; players send red packets, draw prizes and claim tasks; operators adjust wallets, review point
  withdrawals and void bets. The components meet in the database only, so the model has one record \<open>db\<close> whose
  fields are the tables, and every handler is a function from \<open>db\<close> to an error or a result with a new \<open>db\<close>
  (\<open>'a tx\<close>). An error discards the transaction, as \<^verbatim>\<open>tx.Rollback\<close> does.

  \<^bold>\<open>Foundations.\<close>
  \<^item> \<open>Go_Prelude\<close>: results, \<open>bindE\<close>, the \<open>int64\<close> of Go (\<open>wrap64\<close>, \<open>go_div\<close>, \<open>go_mod\<close>), tables as lists.
  \<^item> \<open>Go_Strings\<close>, \<open>Json\<close>: the parts of \<^verbatim>\<open>strings\<close>, \<^verbatim>\<open>strconv\<close> and \<^verbatim>\<open>encoding/json\<close> the code uses.
  \<^item> \<open>Store\<close>: the tables with the constraints and triggers of \<^verbatim>\<open>migrations/\<close>, and the statements that several handlers share.
  \<^item> \<open>Books\<close>: the accounting invariant. \<open>books_ok s\<close> says that each wallet's balances are exactly its replayed
    ledger, in range, and that every snapshot column of the ledger is right; \<open>books d s\<close> is its form inside a
    transaction. \<open>moved\<close>, \<open>shifted\<close> and \<open>moved_by\<close> are the calculus in which every money handler is shown to keep it.

  \<^bold>\<open>Components\<close>, each in its own theory, with the order of the code.
  \<^item> \<open>Wallet_Amount\<close> (\<^verbatim>\<open>domain/wallet/amount.go\<close>, \<^verbatim>\<open>pqpa/amount.go\<close>, \<^verbatim>\<open>chain/amount.go\<close>): decimal text and minor units.
    Round trips over all positive \<open>int64\<close> values; the three parsers agree and never round.
  \<^item> \<open>Wallet_Repo\<close> (\<^verbatim>\<open>domain/wallet\<close>): the interface \<^verbatim>\<open>wallet.Repository\<close> is the locale \<open>wallet_repository\<close>, interpreted on
    the in-memory and the PostgreSQL implementation; a bet followed by its settlement moves the balance by exactly the difference.
  \<^item> \<open>Events_Outbox\<close> (\<^verbatim>\<open>domain/events\<close>, \<^verbatim>\<open>outbox/processor.go\<close>): the interface is the locale \<open>outbox_store\<close>, interpreted on
    both outboxes; \<open>ordered_outbox\<close> adds that the queue keeps its order, which only the PostgreSQL one promises. The in-memory one ranges
    over a Go map and sorts without stability: the order it meets is an argument of \<open>mo_Pending\<close> and differs from pass to pass. No event is
    lost or confirmed without the publisher; a poisoned event is retired in both.
  \<^item> \<open>Red_Packet\<close> (\<^verbatim>\<open>application/redpacket\<close>): conservation of money between wallets and open packets, one claim per user.
  \<^item> \<open>Rebate\<close> (\<^verbatim>\<open>application/rebate\<close>, \<^verbatim>\<open>settlement/commission.go\<close>): the chain frozen with a bet, exact floors of the
    differential rates, one payment per bet and beneficiary, validation of levels.
  \<^item> \<open>Agents\<close> (\<^verbatim>\<open>agent/service.go\<close>, \<^verbatim>\<open>agent/self_service.go\<close>): binding players to agents, their levels and rates, reversal and
    grant of commissions. \<open>forest_ok\<close> says that the relations have no cycle and that every materialised path is right;
    \<open>Postings\<close> holds the posting of one ledger entry that this theory and \<open>Lulu_Orders\<close> share.
  \<^item> \<open>Login\<close> (\<^verbatim>\<open>application/auth\<close>, \<^verbatim>\<open>domain/identity\<close>): login, registration, refresh, logout, passwords and the protection against
    guessing. \<open>sessions_ok\<close> says that a user has one open session, \<open>retires\<close> lists what ends a refresh token. Hashing of passwords and
    of refresh tokens are parameters; the text and signature of an access token are left out.
  \<^item> \<open>Chain_Deposit\<close>, \<open>Chain_Withdrawal\<close> (\<^verbatim>\<open>application/chain\<close>): a deposit is credited once. Every withdrawal operation refines the
    abstract steps freeze, advance, release and consume, from which conservation, the forward life cycle and the limits follow.
  \<^item> \<open>Robot_Plans\<close> (\<^verbatim>\<open>application/virtualbot\<close>): the plans by which virtual players bet, and their runs, which call the betting
    service. \<open>quiet\<close> says that no money moved and no real bet changed.
  \<^item> \<open>Lulu_Orders\<close> (\<^verbatim>\<open>application/lulu\<close>): stones of the upstream game paid in and out. Its tables stand beside the shared ones in
    \<open>lulu_db\<close>. \<open>orders_backed\<close> says that the ledger entries of every order are what its status says; \<open>lulu_step\<close> is its life.
  \<^item> \<open>Game_Rules\<close>, \<open>Game_Rounds\<close> (\<^verbatim>\<open>domain/game\<close>): the contract of the rules parser; the scheduler returns, one round of a game is
    open at a time and a round only moves forward (\<open>moves\<close>, a step relation).
  \<^item> \<open>Draw_Results\<close> (\<^verbatim>\<open>settlement/digit.go\<close>, \<^verbatim>\<open>results.go\<close>, \<^verbatim>\<open>lulu.go\<close>, parts of \<^verbatim>\<open>tron_hash.go\<close> and \<^verbatim>\<open>okx_kline.go\<close>): outcomes from
    their sources, with SHA-256 written out on 32-bit words.
  \<^item> \<open>External_Draw\<close> (\<^verbatim>\<open>application/externaldraw\<close>): results of the upstream games. A published result is final (\<open>draw_step\<close>).
  \<^item> \<open>Settlement\<close> (\<^verbatim>\<open>settlement/settle.go\<close>, \<^verbatim>\<open>refund.go\<close>, \<^verbatim>\<open>settle_due.go\<close>): a settlement decides exactly the accepted bets
    and pays each winner once; repeats pay nothing; a cancellation returns each stake once. The task hook is the locale
    \<open>bet_task_hook\<close>, interpreted on the model of \<open>Task_Progress\<close>.
  \<^item> \<open>Betting\<close> (\<^verbatim>\<open>application/betting\<close>), \<open>Bet_Void\<close> (\<^verbatim>\<open>operations/bet_void.go\<close>): placing, merging, cancelling and voiding bets; any
    sequence of them with settlements keeps books and order totals; the odds of the hash rooms. \<open>decide\<close> adds the void to those calls: a
    voided bet stays as it is through all of them.
  \<^item> \<open>Credit\<close>, \<open>Lucky_Spin\<close> (\<^verbatim>\<open>application/credit\<close>): adjustments, point withdrawals, stamina, prizes and their odds.
  \<^item> \<open>Task_Progress\<close>, \<open>Tasks\<close> (\<^verbatim>\<open>application/task\<close>): progress of betting tasks, claims and their backing by stakes.

  \<^bold>\<open>Conventions.\<close> Definitions keep the names of the Go functions; where two packages use one name a prefix names the package
  (\<open>pg_\<close>, \<open>mem_\<close>, \<open>lulu_\<close>, \<open>hash_\<close>). A theorem about a run quantifies over every start state with the stated invariant. The
  witness of a property runs the model on \<open>sample_db\<close> or a state reached from it.

  \<^bold>\<open>Bounds and termination.\<close> No model carries fuel. The scheduler's loops are \<open>partial_function (option)\<close> and
  \<open>scheduler_returns\<close> proves that they return; the ancestor walk of a rebate chain consumes the list of relations;
  the draw loop consumes its pool, \<open>range_order\<close> its list; all other loops are structural. Integers are unbounded in the model with \<open>wrap64\<close>
  written where the Go expression may overflow, and words only in SHA-256.

  \<^bold>\<open>Parameters\<close>, never defined here: \<^verbatim>\<open>uuid.Parse\<close> and the parsing of a day (their success), \<^verbatim>\<open>crypto/rand\<close>, the payment gateway,
  the event publisher, the block, candle and history sources. \<^verbatim>\<open>uuid.NewString\<close> reads the field \<open>uuids\<close>; a repeated
  value fails on the primary key. Hypotheses on a parameter state its documentation (\<open>random_ok\<close>).

  \<^bold>\<open>Time and concurrency.\<close> A transaction is one atomic step: the code takes row locks before it reads what it writes. Calls that
  run several transactions (webhooks, the dispatcher, batches) are several steps and return the state also when they fail.
  A request sees one instant, the field \<open>clock\<close> in microseconds.

  \<^bold>\<open>Not modelled.\<close> HTTP handlers, WebSocket, NATS and gRPC transport, object storage, configuration and process wiring:
  input and output around the modelled services. Connection errors of the database. Password hashing and token signing, chat,
  leaderboards, reports and back-office listings: SQL queries over tables that hold no balance. The deployment tool
  \<^verbatim>\<open>domainctl\<close>. The manifest lists each with its files.
\<close>

end
